(* ===== verification/Susanow_Prelude.thy ===== *)
theory Susanow_Prelude
  imports Main "HOL-Library.Word" "HOL-Library.Monad_Syntax"
begin

section \<open>Prelude: addresses, outcomes, lists and chains\<close>

text \<open>
  What every component shares.

  \<^item> Addresses are natural numbers and NULL is \<open>0\<close>; a heap is a partial map from addresses, so
    that reading through an address that is not mapped (NULL included) has no value.
  \<^item> A routine that touches memory returns an \<open>option\<close>: \<open>None\<close> is a memory fault, a failed
    assertion, an integer division by zero or a loop that does not return. A theorem that a
    routine returns \<open>Some\<close> is thus a memory-safety and termination statement.
  \<^item> C++ code that throws returns an \<open>'a outcome\<close>; the state at the throw is part of it.
  \<^item> \<open>linked\<close> is the shape of a singly linked chain that ends in NULL.
\<close>

named_theorems chain_simps \<open>how chains react to pointer updates\<close>
named_theorems mem_simps \<open>unfolding of the state-passing memory primitives\<close>

type_synonym addr = nat
type_synonym u8 = "8 word"
type_synonym u16 = "16 word"
type_synonym u32 = "32 word"
type_synonym u64 = "64 word"

abbreviation (input) NULL :: addr where
  "NULL \<equiv> 0"

datatype ('e, 'a) outcome = Throw 'e | Return 'a

subsection \<open>Lists\<close>

fun find_index :: "('a \<Rightarrow> bool) \<Rightarrow> 'a list \<Rightarrow> nat option" where
  "find_index P [] = None"
| "find_index P (x # xs) = (if P x then Some 0 else map_option Suc (find_index P xs))"

definition erase_at :: "nat \<Rightarrow> 'a list \<Rightarrow> 'a list" where
  "erase_at i xs = take i xs @ drop (Suc i) xs"

lemma find_index_Some:
  "find_index P xs = Some i \<Longrightarrow> i < length xs \<and> P (xs ! i) \<and> (\<forall>j<i. \<not> P (xs ! j))"
proof (induction xs arbitrary: i)
  case (Cons x xs)
  then show ?case
    by (fastforce split: if_splits simp: less_Suc_eq_0_disj)
qed simp

lemma find_index_None: "find_index P xs = None \<longleftrightarrow> (\<forall>x\<in>set xs. \<not> P x)"
  by (induction xs) auto

lemma find_index_append:
  "find_index P (xs @ ys) =
     (case find_index P xs of Some i \<Rightarrow> Some i
      | None \<Rightarrow> map_option (\<lambda>j. j + length xs) (find_index P ys))"
  by (induction xs) (auto split: option.splits simp: option.map_comp comp_def option.map_ident)

lemma length_erase_at: "i < length xs \<Longrightarrow> length (erase_at i xs) = length xs - 1"
  by (simp add: erase_at_def)

lemma set_erase_at_subset: "set (erase_at i xs) \<subseteq> set xs"
  by (auto simp: erase_at_def dest: in_set_takeD in_set_dropD)

lemma erase_at_Cons_Suc [simp]: "erase_at (Suc i) (x # xs) = x # erase_at i xs"
  by (simp add: erase_at_def)

lemma erase_at_Cons_0 [simp]: "erase_at 0 (x # xs) = xs"
  by (simp add: erase_at_def)

lemma set_erase_at_distinct:
  "distinct xs \<Longrightarrow> i < length xs \<Longrightarrow> set (erase_at i xs) = set xs - {xs ! i}"
proof (induction xs arbitrary: i)
  case (Cons x xs)
  then show ?case by (cases i) auto
qed simp

lemma distinct_erase_at: "distinct xs \<Longrightarrow> distinct (erase_at i xs)"
proof (induction xs arbitrary: i)
  case (Cons x xs)
  then show ?case
    by (cases i) (auto dest: subsetD [OF set_erase_at_subset])
qed (simp add: erase_at_def)

lemma map_erase_at: "map f (erase_at i xs) = erase_at i (map f xs)"
  by (simp add: erase_at_def take_map drop_map)

lemma last_in_set': "xs \<noteq> [] \<Longrightarrow> last xs = y \<Longrightarrow> y \<in> set xs"
  by auto

subsection \<open>Machine numbers\<close>

lemma unat_of_nat_u16: "k < 65536 \<Longrightarrow> unat (of_nat k :: u16) = k"
  by (simp add: unat_of_nat take_bit_eq_mod)

lemma unat_of_nat_u32: "k < 4294967296 \<Longrightarrow> unat (of_nat k :: u32) = k"
  by (simp add: unat_of_nat take_bit_eq_mod)

subsection \<open>Numbers in print\<close>

text \<open>The decimal form that \<open>%u\<close> and \<open>%zd\<close> print.\<close>

fun dec :: "nat \<Rightarrow> string" where
  "dec n = (if n < 10 then [char_of (48 + n)] else dec (n div 10) @ [char_of (48 + n mod 10)])"

declare dec.simps [simp del]

subsection \<open>Chains\<close>

text \<open>\<open>linked f xs\<close>: following \<open>f\<close> from the first address visits \<open>xs\<close> and ends in NULL.\<close>

fun linked :: "(addr \<rightharpoonup> addr) \<Rightarrow> addr list \<Rightarrow> bool" where
  "linked f [] \<longleftrightarrow> True"
| "linked f [a] \<longleftrightarrow> f a = Some NULL"
| "linked f (a # b # xs) \<longleftrightarrow> f a = Some b \<and> linked f (b # xs)"

lemma linked_tl: "linked f xs \<Longrightarrow> linked f (tl xs)"
  by (induction f xs rule: linked.induct) auto

lemma linked_cong:
  "(\<And>a. a \<in> set xs \<Longrightarrow> f a = g a) \<Longrightarrow> linked f xs \<longleftrightarrow> linked g xs"
  by (induction f xs rule: linked.induct) auto

lemma linked_upd_other [chain_simps]:
  "a \<notin> set xs \<Longrightarrow> linked (f(a := v)) xs \<longleftrightarrow> linked f xs"
  by (rule linked_cong) auto

lemma linked_dom: "linked f xs \<Longrightarrow> a \<in> set xs \<Longrightarrow> \<exists>b. f a = Some b"
  by (induction f xs rule: linked.induct) auto

lemma linked_last: "linked f xs \<Longrightarrow> xs \<noteq> [] \<Longrightarrow> f (last xs) = Some NULL"
  by (induction f xs rule: linked.induct) auto

lemma linked_hd:
  "linked f (a # xs) \<longleftrightarrow> f a = Some (case xs of [] \<Rightarrow> NULL | b # _ \<Rightarrow> b) \<and> linked f xs"
  by (cases xs) auto

lemma linked_snoc:
  "linked f xs \<Longrightarrow> xs \<noteq> [] \<Longrightarrow> distinct xs \<Longrightarrow> n \<notin> set xs \<Longrightarrow>
     linked (f(last xs \<mapsto> n, n \<mapsto> NULL)) (xs @ [n])"
proof (induction f xs rule: linked.induct)
  case (3 f a b xs)
  then have "last (b # xs) \<noteq> a" by (metis distinct.simps(2) last_in_set list.distinct(1))
  with 3 show ?case by auto
qed auto

text \<open>A chain to NULL is determined by its first address.\<close>

lemma linked_unique:
  "linked f (a # xs) \<Longrightarrow> linked f (a # ys) \<Longrightarrow> NULL \<notin> set xs \<Longrightarrow> NULL \<notin> set ys \<Longrightarrow> xs = ys"
proof (induction xs arbitrary: a ys)
  case Nil
  then show ?case by (cases ys) auto
next
  case (Cons b xs)
  then show ?case by (cases ys) auto
qed

definition chain_from :: "(addr \<rightharpoonup> addr) \<Rightarrow> addr \<Rightarrow> addr list" where
  "chain_from f a = (THE xs. xs \<noteq> [] \<and> hd xs = a \<and> linked f xs \<and> NULL \<notin> set xs)"

lemma chain_from_eq:
  "xs \<noteq> [] \<Longrightarrow> hd xs = a \<Longrightarrow> linked f xs \<Longrightarrow> NULL \<notin> set xs \<Longrightarrow> chain_from f a = xs"
  unfolding chain_from_def
proof (rule the_equality)
  fix ys
  assume xs: "xs \<noteq> []" "hd xs = a" "linked f xs" "NULL \<notin> set xs"
    and ys: "ys \<noteq> [] \<and> hd ys = a \<and> linked f ys \<and> NULL \<notin> set ys"
  then obtain xs' ys' where "xs = a # xs'" "ys = a # ys'"
    by (metis list.collapse)
  with xs ys show "ys = xs"
    using linked_unique [of f a xs' ys'] by auto
qed auto

end
