(* ===== verification/Outcome_Ops.thy ===== *)
theory Outcome_Ops
  imports Susanow_Prelude
begin

section \<open>Operations that may throw\<close>

text \<open>
  The C++ parts work on one state and may throw: an operation gives no value (a fault, a failed
  assertion, a loop that does not end), or an outcome with the state at that point. \<open>wp m Q s\<close> says
  that \<open>m\<close> gives a value from \<open>s\<close> and that its outcome and final state satisfy \<open>Q\<close>.
\<close>

type_synonym ('s, 'e, 'a) op = "'s \<Rightarrow> (('e, 'a) outcome \<times> 's) option"

definition ret :: "'a \<Rightarrow> ('s, 'e, 'a) op" where
  "ret x s = Some (Return x, s)"

definition throw :: "'e \<Rightarrow> ('s, 'e, 'a) op" where
  "throw e s = Some (Throw e, s)"

definition bnd :: "('s, 'e, 'a) op \<Rightarrow> ('a \<Rightarrow> ('s, 'e, 'b) op) \<Rightarrow> ('s, 'e, 'b) op" where
  "bnd m f s = (case m s of None \<Rightarrow> None | Some (Throw e, t) \<Rightarrow> Some (Throw e, t) | Some (Return x, t) \<Rightarrow> f x t)"

definition andthen :: "('s, 'e, 'a) op \<Rightarrow> ('s, 'e, 'b) op \<Rightarrow> ('s, 'e, 'b) op" where
  "andthen m n = bnd m (\<lambda>_. n)"

definition gets :: "('s \<Rightarrow> 'a) \<Rightarrow> ('s, 'e, 'a) op" where
  "gets f s = Some (Return (f s), s)"

definition modify :: "('s \<Rightarrow> 's) \<Rightarrow> ('s, 'e, unit) op" where
  "modify f s = Some (Return (), f s)"

text \<open>A read that may fault.\<close>

definition need :: "('s \<Rightarrow> 'a option) \<Rightarrow> ('s, 'e, 'a) op" where
  "need f s = map_option (\<lambda>x. (Return x, s)) (f s)"

definition catch :: "('s, 'e, 'a) op \<Rightarrow> ('e \<Rightarrow> ('s, 'e, 'a) op) \<Rightarrow> ('s, 'e, 'a) op" where
  "catch m h s = (case m s of Some (Throw e, t) \<Rightarrow> h e t | r \<Rightarrow> r)"

fun for_each :: "('a \<Rightarrow> ('s, 'e, unit) op) \<Rightarrow> 'a list \<Rightarrow> ('s, 'e, unit) op" where
  "for_each f [] = ret ()"
| "for_each f (x # xs) = andthen (f x) (for_each f xs)"

text \<open>A loop that leaves the function with a value: \<open>f\<close> gives \<open>Some\<close> to leave.\<close>

fun scan :: "('a \<Rightarrow> ('s, 'e, 'b option) op) \<Rightarrow> 'a list \<Rightarrow> ('s, 'e, 'b option) op" where
  "scan f [] = ret None"
| "scan f (x # xs) = bnd (f x) (\<lambda>r. case r of None \<Rightarrow> scan f xs | Some y \<Rightarrow> ret (Some y))"

text \<open>An operation on a part of the state.\<close>

definition focus :: "('s \<Rightarrow> 't) \<Rightarrow> ('t \<Rightarrow> 's \<Rightarrow> 's) \<Rightarrow> ('d \<Rightarrow> 'e) \<Rightarrow> ('t, 'd, 'a) op \<Rightarrow> ('s, 'e, 'a) op" where
  "focus get put err m s = map_option (\<lambda>(r, t). (case r of Throw e \<Rightarrow> Throw (err e) | Return x \<Rightarrow> Return x, put t s)) (m (get s))"

subsection \<open>Total correctness\<close>

definition wp :: "('s, 'e, 'a) op \<Rightarrow> (('e, 'a) outcome \<Rightarrow> 's \<Rightarrow> bool) \<Rightarrow> 's \<Rightarrow> bool" where
  "wp m Q s = (case m s of None \<Rightarrow> False | Some (r, t) \<Rightarrow> Q r t)"

text \<open>\<open>then_wp\<close>: an exception goes through, a result goes on.\<close>

definition onret :: "('a \<Rightarrow> 's \<Rightarrow> bool) \<Rightarrow> (('e, 'b) outcome \<Rightarrow> 's \<Rightarrow> bool) \<Rightarrow> ('e, 'a) outcome \<Rightarrow> 's \<Rightarrow> bool" where
  "onret P Q r s = (case r of Throw e \<Rightarrow> Q (Throw e) s | Return x \<Rightarrow> P x s)"

lemma onret_simps [simp]: "onret P Q (Throw e) s = Q (Throw e) s" "onret P Q (Return x) s = P x s"
  by (simp_all add: onret_def)

lemma wp_simps [simp]:
  "wp (ret x) Q s = Q (Return x) s"
  "wp (throw e) Q s = Q (Throw e) s"
  "wp (bnd m f) Q s = wp m (onret (\<lambda>x. wp (f x) Q) Q) s"
  "wp (andthen m n) Q s = wp m (onret (\<lambda>_. wp n Q) Q) s"
  "wp (gets g) Q s = Q (Return (g s)) s"
  "wp (modify h) Q s = Q (Return ()) (h s)"
  "wp (need p) Q s = (\<exists>x. p s = Some x \<and> Q (Return x) s)"
  by (auto simp: wp_def ret_def throw_def bnd_def andthen_def gets_def modify_def need_def onret_def split: option.splits outcome.splits)

lemma wp_catch [simp]: "wp (catch m h) Q s = wp m (\<lambda>r t. case r of Throw e \<Rightarrow> wp (h e) Q t | Return x \<Rightarrow> Q (Return x) t) s"
  by (auto simp: wp_def catch_def split: option.splits outcome.splits)

lemma wp_focus [simp]:
  "wp (focus get put err m) Q s = wp m (\<lambda>r t. Q (case r of Throw e \<Rightarrow> Throw (err e) | Return x \<Rightarrow> Return x) (put t s)) (get s)"
  by (auto simp: wp_def focus_def split: option.splits)

lemma wp_if [simp]: "wp (if b then m else n) Q s = (if b then wp m Q s else wp n Q s)"
  by simp

lemma wp_conseq: "wp m Q s \<Longrightarrow> (\<And>r t. Q r t \<Longrightarrow> R r t) \<Longrightarrow> wp m R s"
  by (auto simp: wp_def split: option.splits)

lemma wp_conj: "wp m Q s \<Longrightarrow> wp m R s \<Longrightarrow> wp m (\<lambda>r t. Q r t \<and> R r t) s"
  by (auto simp: wp_def split: option.splits)

lemma wpI: "m s = Some (r, t) \<Longrightarrow> Q r t \<Longrightarrow> wp m Q s"
  by (simp add: wp_def)

lemma wpD: "wp m Q s \<Longrightarrow> \<exists>r t. m s = Some (r, t) \<and> Q r t"
  by (auto simp: wp_def split: option.splits)

text \<open>The same rules at every result type, one at a time.\<close>

lemma wp_ret: "wp (ret x) Q s = Q (Return x) s" by (simp add: wp_def ret_def)
lemma wp_throw: "wp (throw e) Q s = Q (Throw e) s" by (simp add: wp_def throw_def)
lemma wp_gets: "wp (gets g) Q s = Q (Return (g s)) s" by (simp add: wp_def gets_def)
lemma wp_need: "wp (need p) Q s = (\<exists>x. p s = Some x \<and> Q (Return x) s)" by (auto simp: wp_def need_def split: option.splits)
lemma wp_bnd: "wp (bnd m f) Q s = wp m (onret (\<lambda>x. wp (f x) Q) Q) s"
  by (auto simp: wp_def bnd_def onret_def split: option.splits outcome.splits)
lemma wp_andthen: "wp (andthen m n) Q s = wp m (onret (\<lambda>_. wp n Q) Q) s"
  by (simp add: andthen_def wp_bnd)

lemmas wp_ops = wp_ret wp_throw wp_gets wp_need wp_bnd wp_andthen

text \<open>A search that only reads.\<close>

lemma scan_read:
  assumes "\<And>x. x \<in> set xs \<Longrightarrow> f x s = Some (Return (g x), s)"
  shows "scan f xs s = Some (Return (case find (\<lambda>x. g x \<noteq> None) xs of None \<Rightarrow> None | Some x \<Rightarrow> g x), s)"
  using assms by (induction xs) (auto simp: ret_def bnd_def split: option.splits)

text \<open>A loop with an invariant over the number of rounds done.\<close>

lemma wp_for_each:
  assumes "I 0 s"
    and step: "\<And>i t. i < length xs \<Longrightarrow> I i t \<Longrightarrow> wp (f (xs ! i)) (onret (\<lambda>_. I (Suc i)) Q) t"
    and "\<And>t. I (length xs) t \<Longrightarrow> Q (Return ()) t"
  shows "wp (for_each f xs) Q s"
proof -
  have "wp (for_each f (drop i xs)) Q t" if "i \<le> length xs" "I i t" for i t
    using that
  proof (induction "length xs - i" arbitrary: i t)
    case 0
    then show ?case using assms(3) by simp
  next
    case (Suc n)
    then have i: "i < length xs" by simp
    show ?case
      unfolding Cons_nth_drop_Suc [OF i, symmetric] for_each.simps wp_simps
      by (rule wp_conseq [OF step [OF i Suc.prems(2)]])
        (use Suc.hyps i in \<open>auto simp: onret_def split: outcome.splits\<close>)
  qed
  from this [of 0 s] assms(1) show ?thesis by simp
qed

lemma wp_for_each_inv:
  assumes "I s" and "\<And>x t. x \<in> set xs \<Longrightarrow> I t \<Longrightarrow> wp (f x) (onret (\<lambda>_. I) Q) t" and "\<And>t. I t \<Longrightarrow> Q (Return ()) t"
  shows "wp (for_each f xs) Q s"
  by (rule wp_for_each [where I = "\<lambda>_. I"]) (use assms in auto)

lemma bnd_simps [simp]:
  "bnd (ret x) f = f x" "bnd (throw e) f = throw e"
  "m s = None \<Longrightarrow> bnd m f s = None"
  "m s = Some (Return x, t) \<Longrightarrow> bnd m f s = f x t"
  "m s = Some (Throw e, t) \<Longrightarrow> bnd m f s = Some (Throw e, t)"
  by (auto simp: bnd_def ret_def throw_def fun_eq_iff)

lemma andthen_simps [simp]:
  "m s = None \<Longrightarrow> andthen m n s = None"
  "m s = Some (Return x, t) \<Longrightarrow> andthen m n s = n t"
  "m s = Some (Throw e, t) \<Longrightarrow> andthen m n s = Some (Throw e, t)"
  by (simp_all add: andthen_def)

end
