(* ===== verification/Lthread_Pool.thy ===== *)
theory Lthread_Pool
  imports Susanow_Prelude
begin

section \<open>The queue-node pool (lib/liblthread_dpdk/lthread_pool.h)\<close>

text \<open>
  The heap of the lthread library as far as its queues need it: queue nodes, node pools, queue
  headers, object caches and the objects they hold. Every routine takes the memory and returns
  its result and the new memory, or \<open>None\<close> for a fault. The allocator of DPDK
  (\<open>rte_malloc_socket\<close>, \<open>rte_zmalloc_socket\<close>) is the parameter \<open>mal\<close>: it reads the memory and
  gives an address or nothing; \<open>fresh_alloc\<close> is what its documentation promises. The
  diagnostics counters are compiled out (\<open>LTHREAD_DIAG\<close> is 0 in lthread_diag_api.h).
\<close>

record qnode =
  qn_next :: addr
  qn_data :: addr
  qn_pool :: addr

record qnode_pool =
  qp_head :: addr
  qp_stub :: addr
  qp_fast_alloc :: addr
  qp_tail :: addr
  qp_pre_alloc :: int
  qp_name :: string

record lthread_queue =
  lq_head :: addr
  lq_tail :: addr
  lq_name :: string

record lthread_objcache =
  oc_q :: addr
  oc_obj_size :: nat
  oc_prealloc_size :: int
  oc_name :: string

record lmem =
  nodes :: "addr \<rightharpoonup> qnode"
  pools :: "addr \<rightharpoonup> qnode_pool"
  queues :: "addr \<rightharpoonup> lthread_queue"
  caches :: "addr \<rightharpoonup> lthread_objcache"
  objs :: "addr \<rightharpoonup> nat"          \<comment> \<open>objects of the caches, with their size\<close>
  raw :: "addr set"            \<comment> \<open>blocks allocated and not yet initialised\<close>
  cur_pool :: addr            \<comment> \<open>\<open>THIS_SCHED->qnode_pool\<close>\<close>

type_synonym allocator = "lmem \<Rightarrow> addr option"

definition allocated :: "lmem \<Rightarrow> addr set" where
  "allocated s = dom (nodes s) \<union> dom (pools s) \<union> dom (queues s) \<union> dom (caches s) \<union> dom (objs s) \<union> raw s"

text \<open>What \<open>rte_malloc_socket\<close> promises: a block that is not NULL and not in use.\<close>

definition fresh_alloc :: "allocator \<Rightarrow> bool" where
  "fresh_alloc mal \<longleftrightarrow> (\<forall>s a. mal s = Some a \<longrightarrow> a \<noteq> NULL \<and> a \<notin> allocated s)"

text \<open>A refusal that matters: one while the memory in use is finite.\<close>

definition refuses :: "allocator \<Rightarrow> bool" where
  "refuses mal \<longleftrightarrow> (\<exists>s. finite (allocated s) \<and> mal s = None)"

definition LT_MAX_NAME_SIZE :: nat where
  "LT_MAX_NAME_SIZE = 64"

text \<open>\<open>strncpy (d, s, 64); d[63] = 0\<close>: at most 63 characters survive.\<close>

definition copy_name :: "string \<Rightarrow> string" where
  "copy_name n = take (LT_MAX_NAME_SIZE - 1) n"

subsection \<open>Reading and writing through pointers\<close>

definition get_next :: "addr \<Rightarrow> lmem \<Rightarrow> addr option" where
  "get_next a s = map_option qn_next (nodes s a)"

definition set_next :: "addr \<Rightarrow> addr \<Rightarrow> lmem \<Rightarrow> lmem option" where
  "set_next a v s = do { n \<leftarrow> nodes s a; Some (s\<lparr>nodes := (nodes s)(a \<mapsto> n\<lparr>qn_next := v\<rparr>)\<rparr>) }"

definition set_data :: "addr \<Rightarrow> addr \<Rightarrow> lmem \<Rightarrow> lmem option" where
  "set_data a v s = do { n \<leftarrow> nodes s a; Some (s\<lparr>nodes := (nodes s)(a \<mapsto> n\<lparr>qn_data := v\<rparr>)\<rparr>) }"

definition set_pool :: "addr \<Rightarrow> addr \<Rightarrow> lmem \<Rightarrow> lmem option" where
  "set_pool a v s = do { n \<leftarrow> nodes s a; Some (s\<lparr>nodes := (nodes s)(a \<mapsto> n\<lparr>qn_pool := v\<rparr>)\<rparr>) }"

definition upd_pool :: "addr \<Rightarrow> (qnode_pool \<Rightarrow> qnode_pool) \<Rightarrow> lmem \<Rightarrow> lmem option" where
  "upd_pool p f s = do { P \<leftarrow> pools s p; Some (s\<lparr>pools := (pools s)(p \<mapsto> f P)\<rparr>) }"

text \<open>A node from \<open>rte_malloc_socket\<close>; its fields are zero here, no routine reads them before
  it has written them.\<close>

definition malloc_node :: "allocator \<Rightarrow> lmem \<Rightarrow> addr \<times> lmem" where
  "malloc_node mal s =
     (case mal s of None \<Rightarrow> (NULL, s)
      | Some a \<Rightarrow> (a, s\<lparr>nodes := (nodes s)(a \<mapsto> \<lparr>qn_next = NULL, qn_data = NULL, qn_pool = NULL\<rparr>)\<rparr>))"

subsection \<open>Pool operations\<close>

text \<open>\<open>_qnode_pool_create\<close>: a pool whose chain is its stub. Both blocks must be there: a NULL
  block is dereferenced right after the assertion. \<open>junk\<close> is what the uncleared block of
  \<open>rte_malloc_socket\<close> holds in \<open>fast_alloc\<close>: the routine never writes that field. Every caller
  gives a name.\<close>

definition qnode_pool_create ::
  "allocator \<Rightarrow> addr \<Rightarrow> string \<Rightarrow> int \<Rightarrow> lmem \<Rightarrow> (addr \<times> lmem) option" where
  "qnode_pool_create mal junk name prealloc_size s = do {
     p \<leftarrow> mal s;
     let s = s\<lparr>raw := insert p (raw s)\<rparr>;
     let (stub, s) = malloc_node mal s;
     s \<leftarrow> set_pool stub p s;
     s \<leftarrow> set_next stub NULL s;
     Some (p, s\<lparr>raw := raw s - {p},
       pools := (pools s)(p \<mapsto> \<lparr>qp_head = stub, qp_stub = stub, qp_fast_alloc = junk, qp_tail = stub,
         qp_pre_alloc = prealloc_size, qp_name = copy_name name\<rparr>)\<rparr>) }"

text \<open>\<open>_qnode_pool_insert\<close>: exchange the head, then link the old head to the node.\<close>

definition qnode_pool_insert :: "addr \<Rightarrow> addr \<Rightarrow> lmem \<Rightarrow> lmem option" where
  "qnode_pool_insert p n s = do {
     s \<leftarrow> set_next n NULL s;
     P \<leftarrow> pools s p;
     let prev = qp_head P;
     s \<leftarrow> upd_pool p (\<lambda>P. P\<lparr>qp_head := n\<rparr>) s;
     set_next prev n s }"

text \<open>\<open>_pool_remove\<close>. Its second half, from \<open>likely(next != NULL)\<close> on, is \<open>pool_take\<close>.\<close>

definition pool_take :: "addr \<Rightarrow> addr \<Rightarrow> addr \<Rightarrow> lmem \<Rightarrow> (addr \<times> lmem) option" where
  "pool_take p tail nxt s =
     (if nxt \<noteq> NULL then do { s \<leftarrow> upd_pool p (\<lambda>P. P\<lparr>qp_tail := nxt\<rparr>) s; Some (tail, s) }
      else do {
        P \<leftarrow> pools s p;
        if tail = qp_head P then Some (NULL, s)
        else do {
          s \<leftarrow> qnode_pool_insert p (qp_stub P) s;
          nxt \<leftarrow> get_next tail s;
          if nxt \<noteq> NULL then do { s \<leftarrow> upd_pool p (\<lambda>P. P\<lparr>qp_tail := nxt\<rparr>) s; Some (tail, s) }
          else Some (NULL, s) } })"

definition pool_remove :: "addr \<Rightarrow> lmem \<Rightarrow> (addr \<times> lmem) option" where
  "pool_remove p s = do {
     P \<leftarrow> pools s p;
     let tail = qp_tail P;
     nxt \<leftarrow> get_next tail s;
     if tail = qp_stub P then
       (if nxt = NULL then Some (NULL, s)
        else do {
          s \<leftarrow> upd_pool p (\<lambda>P. P\<lparr>qp_tail := nxt\<rparr>) s;
          nxt2 \<leftarrow> get_next nxt s;
          pool_take p nxt nxt2 s })
     else pool_take p tail nxt s }"

text \<open>\<open>_qnode_pool_remove\<close> retries while a producer may be between its two writes; \<open>None\<close> is
  also "never returns".\<close>

partial_function (option) qnode_pool_remove :: "addr \<Rightarrow> lmem \<Rightarrow> (addr \<times> lmem) option" where
  "qnode_pool_remove p s = do {
     (n, s) \<leftarrow> pool_remove p s;
     if n \<noteq> NULL then Some (n, s)
     else do {
       P \<leftarrow> pools s p;
       if qp_head P \<noteq> qp_tail P \<and> qp_tail P \<noteq> qp_stub P then qnode_pool_remove p s
       else Some (NULL, s) } }"

text \<open>The preallocation loop of \<open>_qnode_alloc\<close>; the flag is False when \<open>rte_malloc_socket\<close>
  returned NULL and the routine gives up.\<close>

fun prealloc_nodes :: "allocator \<Rightarrow> addr \<Rightarrow> nat \<Rightarrow> lmem \<Rightarrow> (bool \<times> lmem) option" where
  "prealloc_nodes mal p 0 s = Some (True, s)"
| "prealloc_nodes mal p (Suc i) s =
     (let (n, s) = malloc_node mal s in
      if n = NULL then Some (False, s)
      else do {
        s \<leftarrow> set_pool n p s;
        s \<leftarrow> qnode_pool_insert p n s;
        prealloc_nodes mal p i s })"

definition qnode_alloc :: "allocator \<Rightarrow> lmem \<Rightarrow> (addr \<times> lmem) option" where
  "qnode_alloc mal s = do {
     let p = cur_pool s;
     P \<leftarrow> pools s p;
     let prealloc_size = qp_pre_alloc P;
     if qp_fast_alloc P \<noteq> NULL then do {
       let n = qp_fast_alloc P;
       s \<leftarrow> upd_pool p (\<lambda>P. P\<lparr>qp_fast_alloc := NULL\<rparr>) s;
       Some (n, s) }
     else do {
       (n, s) \<leftarrow> qnode_pool_remove p s;
       if n \<noteq> NULL then do { s \<leftarrow> set_pool n p s; Some (n, s) }
       else do {
         (ok, s) \<leftarrow> prealloc_nodes mal p (nat prealloc_size) s;
         if \<not> ok then Some (NULL, s)
         else do {
           (n, s) \<leftarrow> qnode_pool_remove p s;
           s \<leftarrow> set_pool n p s;
           Some (n, s) } } } }"

text \<open>\<open>_qnode_free\<close>: the one-node fast cache of the own pool, else the pool the node is from.\<close>

definition qnode_free :: "addr \<Rightarrow> lmem \<Rightarrow> lmem option" where
  "qnode_free n s = do {
     N \<leftarrow> nodes s n;
     let p = qn_pool N;
     P \<leftarrow> pools s p;
     if qp_fast_alloc P \<noteq> NULL \<or> qn_pool N \<noteq> cur_pool s then qnode_pool_insert p n s
     else upd_pool p (\<lambda>P. P\<lparr>qp_fast_alloc := n\<rparr>) s }"

definition qnode_pool_destroy :: "addr \<Rightarrow> lmem \<Rightarrow> lmem option" where
  "qnode_pool_destroy p s = do {
     P \<leftarrow> pools s p;
     let s = s\<lparr>nodes := (nodes s)(qp_stub P := None)\<rparr>;
     Some (s\<lparr>pools := (pools s)(p := None)\<rparr>) }"

subsection \<open>Who owns a node\<close>

text \<open>
  Ghost state of the proofs: the owner of every node and the chains, tail to head, of the pools
  and the queues. A node is \<open>Loose\<close> while only a local variable of a routine holds it.
\<close>

datatype owner = Loose | InPool addr | InQueue addr | FastOf addr | StubOf addr

record ghost =
  own :: "addr \<Rightarrow> owner"
  pch :: "addr \<Rightarrow> addr list"
  qch :: "addr \<Rightarrow> addr list"

definition nexts :: "lmem \<Rightarrow> addr \<rightharpoonup> addr" where
  "nexts s a = map_option qn_next (nodes s a)"

definition is_chain :: "lmem \<Rightarrow> addr list \<Rightarrow> addr \<Rightarrow> addr \<Rightarrow> bool" where
  "is_chain s xs t h \<longleftrightarrow> xs \<noteq> [] \<and> hd xs = t \<and> last xs = h \<and> linked (nexts s) xs \<and> distinct xs"

definition pool_rel :: "lmem \<Rightarrow> ghost \<Rightarrow> addr \<Rightarrow> qnode_pool \<Rightarrow> bool" where
  "pool_rel s g p P \<longleftrightarrow>
     is_chain s (pch g p) (qp_tail P) (qp_head P) \<and>
     (\<forall>a. own g a = InPool p \<longleftrightarrow> a \<in> set (pch g p)) \<and>
     (\<forall>a. own g a = FastOf p \<longleftrightarrow> a = qp_fast_alloc P \<and> a \<noteq> NULL) \<and>
     (\<forall>a. own g a = StubOf p \<longleftrightarrow> a = qp_stub P \<and> a \<noteq> qp_tail P) \<and>
     (own g (qp_stub P) = InPool p \<or> own g (qp_stub P) = StubOf p)"

definition queue_rel :: "lmem \<Rightarrow> ghost \<Rightarrow> addr \<Rightarrow> lthread_queue \<Rightarrow> bool" where
  "queue_rel s g q Q \<longleftrightarrow>
     is_chain s (qch g q) (lq_tail Q) (lq_head Q) \<and>
     (\<forall>a. own g a = InQueue q \<longleftrightarrow> a \<in> set (qch g q))"

definition pool_side :: "addr \<Rightarrow> owner \<Rightarrow> bool" where
  "pool_side p w \<longleftrightarrow> w = InPool p \<or> w = FastOf p \<or> w = StubOf p"

definition owned_ok :: "lmem \<Rightarrow> ghost \<Rightarrow> bool" where
  "owned_ok s g \<longleftrightarrow>
     (\<forall>a. own g a \<noteq> Loose \<longrightarrow> (\<exists>N. nodes s a = Some N \<and> qn_pool N \<in> dom (pools s))) \<and>
     (\<forall>a p. pool_side p (own g a) \<longrightarrow> p \<in> dom (pools s)) \<and>
     (\<forall>a q. own g a = InQueue q \<longrightarrow> q \<in> dom (queues s))"

definition mem_rel :: "lmem \<Rightarrow> ghost \<Rightarrow> bool" where
  "mem_rel s g \<longleftrightarrow>
     nodes s NULL = None \<and> cur_pool s \<in> dom (pools s) \<and>
     (\<forall>p P. pools s p = Some P \<longrightarrow> pool_rel s g p P) \<and>
     (\<forall>q Q. queues s q = Some Q \<longrightarrow> queue_rel s g q Q) \<and>
     owned_ok s g \<and> finite (allocated s)"

text \<open>What a pool routine leaves alone.\<close>

definition frame :: "lmem \<Rightarrow> lmem \<Rightarrow> bool" where
  "frame s s' \<longleftrightarrow>
     queues s' = queues s \<and> caches s' = caches s \<and> objs s' = objs s \<and> raw s' = raw s \<and> cur_pool s' = cur_pool s \<and>
     dom (pools s') = dom (pools s) \<and>
     (\<forall>p P. pools s p = Some P \<longrightarrow> (\<exists>P'. pools s' p = Some P' \<and> qp_stub P' = qp_stub P \<and>
        qp_pre_alloc P' = qp_pre_alloc P)) \<and>
     (\<forall>a N. nodes s a = Some N \<longrightarrow> (\<exists>N'. nodes s' a = Some N' \<and> qn_data N' = qn_data N))"

definition gframe :: "lmem \<Rightarrow> ghost \<Rightarrow> ghost \<Rightarrow> bool" where
  "gframe s g g' \<longleftrightarrow>
     qch g' = qch g \<and> (\<forall>a\<in>dom (nodes s). own g a = Loose \<longrightarrow> own g' a = Loose)"

lemma frame_refl [simp]: "frame s s"
  by (simp add: frame_def)

lemma frame_trans: "frame s t \<Longrightarrow> frame t u \<Longrightarrow> frame s u"
  unfolding frame_def by (intro conjI allI impI; (simp; fail)?) metis+

lemma gframe_refl [simp]: "gframe s g g"
  by (simp add: gframe_def)

lemma frame_dom: "frame s t \<Longrightarrow> a \<in> dom (nodes s) \<Longrightarrow> a \<in> dom (nodes t)"
  unfolding frame_def by blast

lemma gframe_trans: "gframe s g h \<Longrightarrow> gframe t h k \<Longrightarrow> frame s t \<Longrightarrow> gframe s g k"
  unfolding gframe_def using frame_dom by metis

lemma nexts_upd [chain_simps]:
  "nexts (s\<lparr>nodes := (nodes s)(a \<mapsto> N)\<rparr>) = (nexts s)(a \<mapsto> qn_next N)"
  by (auto simp: nexts_def)

lemma is_chain_cong:
  "(\<And>a. a \<in> set xs \<Longrightarrow> nexts s' a = nexts s a) \<Longrightarrow> is_chain s' xs t h \<longleftrightarrow> is_chain s xs t h"
  unfolding is_chain_def using linked_cong [of xs "nexts s'" "nexts s"] by auto

lemma is_chain_dom: "is_chain s xs t h \<Longrightarrow> a \<in> set xs \<Longrightarrow> a \<in> dom (nodes s)"
  unfolding is_chain_def by (auto dest!: linked_dom simp: nexts_def)

subsection \<open>The invariant and its frame lemmas\<close>


lemma mem_relD:
  assumes "mem_rel s g"
  shows "nodes s NULL = None" "cur_pool s \<in> dom (pools s)"
    "\<And>p P. pools s p = Some P \<Longrightarrow> pool_rel s g p P"
    "\<And>q Q. queues s q = Some Q \<Longrightarrow> queue_rel s g q Q"
    "owned_ok s g" "finite (allocated s)"
  using assms by (simp_all add: mem_rel_def allocated_def)

lemma pool_chain:
  assumes "mem_rel s g" "pools s p = Some P"
  shows "is_chain s (pch g p) (qp_tail P) (qp_head P)" "own g a = InPool p \<longleftrightarrow> a \<in> set (pch g p)"
    "pch g p \<noteq> []" "hd (pch g p) = qp_tail P" "last (pch g p) = qp_head P" "distinct (pch g p)"
    "linked (nexts s) (pch g p)"
  using mem_relD(3) [OF assms] by (auto simp: pool_rel_def is_chain_def)

lemma pool_relD:
  assumes "mem_rel s g" "pools s p = Some P"
  shows "own g a = InPool p \<longleftrightarrow> a \<in> set (pch g p)"
    "own g a = FastOf p \<longleftrightarrow> a = qp_fast_alloc P \<and> a \<noteq> NULL"
    "own g a = StubOf p \<longleftrightarrow> a = qp_stub P \<and> a \<noteq> qp_tail P"
    "own g (qp_stub P) = InPool p \<or> own g (qp_stub P) = StubOf p"
  using mem_relD(3) [OF assms] unfolding pool_rel_def by blast+

lemma owned_node:
  assumes "mem_rel s g" "own g a \<noteq> Loose"
  obtains N where "nodes s a = Some N" "qn_pool N \<in> dom (pools s)" "a \<noteq> NULL"
  using assms mem_relD(1,5) [OF assms(1)] unfolding owned_ok_def by (metis option.distinct(1))

lemma pool_insert_eq:
  assumes R: "mem_rel s g" and P: "pools s p = Some P" and N: "nodes s n = Some N" "own g n = Loose"
  obtains H where "nodes s (qp_head P) = Some H" "qp_head P \<noteq> n" "own g (qp_head P) = InPool p"
    "qnode_pool_insert p n s = Some (s\<lparr>nodes := (nodes s)(n \<mapsto> N\<lparr>qn_next := NULL\<rparr>, qp_head P \<mapsto> H\<lparr>qn_next := n\<rparr>),
        pools := (pools s)(p \<mapsto> P\<lparr>qp_head := n\<rparr>)\<rparr>)"
proof -
  have o: "own g (qp_head P) = InPool p"
    using pool_chain [OF R P] last_in_set by metis
  then obtain H where H: "nodes s (qp_head P) = Some H" using owned_node [OF R] by (metis owner.distinct(1))
  have ne: "qp_head P \<noteq> n" using o N by auto
  have "qnode_pool_insert p n s = Some (s\<lparr>nodes := (nodes s)(n \<mapsto> N\<lparr>qn_next := NULL\<rparr>, qp_head P \<mapsto> H\<lparr>qn_next := n\<rparr>),
        pools := (pools s)(p \<mapsto> P\<lparr>qp_head := n\<rparr>)\<rparr>)"
    using ne H by (simp add: qnode_pool_insert_def set_next_def upd_pool_def N P)
  with that o H ne show ?thesis by blast
qed

text \<open>The invariant of the parts a routine does not touch.\<close>

lemma is_chain_frame:
  assumes "is_chain s xs t h" "\<And>a. a \<in> set xs \<Longrightarrow> map_option qn_next (nodes s' a) = map_option qn_next (nodes s a)"
  shows "is_chain s' xs t h"
  using assms is_chain_cong [of xs s' s] by (simp add: nexts_def)

lemma pool_rel_transfer:
  assumes R: "pool_rel s g p P" and c: "pch g' p = pch g p"
    and nx: "\<And>a. own g a = InPool p \<Longrightarrow> map_option qn_next (nodes s' a) = map_option qn_next (nodes s a)"
    and ow: "\<And>a. own g' a = own g a \<or> \<not> pool_side p (own g' a) \<and> \<not> pool_side p (own g a)"
  shows "pool_rel s' g' p P"
proof -
  have "is_chain s' (pch g' p) (qp_tail P) (qp_head P)"
    unfolding c by (rule is_chain_frame [of s]) (use R nx in \<open>auto simp: pool_rel_def\<close>)
  moreover have eq: "own g' a = InPool p \<longleftrightarrow> own g a = InPool p" "own g' a = FastOf p \<longleftrightarrow> own g a = FastOf p"
    "own g' a = StubOf p \<longleftrightarrow> own g a = StubOf p" for a
    using ow [of a] unfolding pool_side_def by metis+
  ultimately show ?thesis using R unfolding pool_rel_def c eq by blast
qed

lemma queue_rel_transfer:
  assumes R: "queue_rel s g q Q" and c: "qch g' q = qch g q"
    and nx: "\<And>a. own g a = InQueue q \<Longrightarrow> map_option qn_next (nodes s' a) = map_option qn_next (nodes s a)"
    and ow: "\<And>a. own g' a = own g a \<or> own g' a \<noteq> InQueue q \<and> own g a \<noteq> InQueue q"
  shows "queue_rel s' g' q Q"
proof -
  have "is_chain s' (qch g' q) (lq_tail Q) (lq_head Q)"
    unfolding c by (rule is_chain_frame [of s]) (use R nx in \<open>auto simp: queue_rel_def\<close>)
  moreover have eq: "own g' a = InQueue q \<longleftrightarrow> own g a = InQueue q" for a
    using ow [of a] by metis
  ultimately show ?thesis using R unfolding queue_rel_def c eq by blast
qed

lemma owned_ok_transfer:
  assumes R: "owned_ok s g" and d: "dom (pools s') = dom (pools s)" "dom (queues s') = dom (queues s)"
    and n: "\<And>a. own g' a \<noteq> Loose \<Longrightarrow> own g a \<noteq> Loose \<or> (\<exists>N. nodes s a = Some N \<and> qn_pool N \<in> dom (pools s))"
    and np: "\<And>a. map_option qn_pool (nodes s' a) = map_option qn_pool (nodes s a)"
    and ow: "\<And>a. own g' a = own g a \<or> own g' a = Loose \<or> (\<exists>p\<in>dom (pools s). pool_side p (own g' a)) \<or>
       (\<exists>q\<in>dom (queues s). own g' a = InQueue q)"
  shows "owned_ok s' g'"
  unfolding owned_ok_def
proof (intro conjI allI impI)
  fix a assume "own g' a \<noteq> Loose"
  then obtain N where "nodes s a = Some N" "qn_pool N \<in> dom (pools s)"
    using n [of a] R unfolding owned_ok_def by blast
  with np [of a] d show "\<exists>N. nodes s' a = Some N \<and> qn_pool N \<in> dom (pools s')" by auto
next
  fix a p assume "pool_side p (own g' a)"
  moreover have "\<not> pool_side p Loose" "\<not> pool_side p (InQueue q)" "pool_side q w \<Longrightarrow> pool_side p w \<Longrightarrow> q = p" for q w
    by (auto simp: pool_side_def)
  ultimately show "p \<in> dom (pools s')"
    using ow [of a] R d(1) unfolding owned_ok_def by metis
next
  fix a q assume "own g' a = InQueue q"
  then show "q \<in> dom (queues s')"
    using ow [of a] R d(2) unfolding owned_ok_def pool_side_def by (metis owner.distinct owner.inject(2))
qed

lemma pool_insert_ok:
  assumes R: "mem_rel s g" and P: "pools s p = Some P"
    and N: "nodes s n = Some N" "own g n = Loose" "qn_pool N \<in> dom (pools s)"
  obtains s' where "qnode_pool_insert p n s = Some s'"
    "mem_rel s' (g\<lparr>own := (own g)(n := InPool p), pch := (pch g)(p := pch g p @ [n])\<rparr>)"
    "frame s s'" "pools s' = (pools s)(p \<mapsto> P\<lparr>qp_head := n\<rparr>)"
proof -
  obtain H where H: "nodes s (qp_head P) = Some H" and ne: "qp_head P \<noteq> n"
    and oh: "own g (qp_head P) = InPool p"
    and e: "qnode_pool_insert p n s = Some (s\<lparr>nodes := (nodes s)(n \<mapsto> N\<lparr>qn_next := NULL\<rparr>, qp_head P \<mapsto> H\<lparr>qn_next := n\<rparr>),
        pools := (pools s)(p \<mapsto> P\<lparr>qp_head := n\<rparr>)\<rparr>)" (is "_ = Some ?s")
    using pool_insert_eq [OF R P N(1,2)] by blast
  let ?g = "g\<lparr>own := (own g)(n := InPool p), pch := (pch g)(p := pch g p @ [n])\<rparr>"
  note C = pool_chain [OF R P] and D = mem_relD [OF R]
  have n0: "n \<noteq> NULL" using D(1) N(1) by (metis option.distinct(1))
  have nx: "nexts ?s = (nexts s)(last (pch g p) \<mapsto> n, n \<mapsto> NULL)"
    using ne C(5) by (auto simp: nexts_def fun_eq_iff)
  have nin: "n \<notin> set (pch g p)" using C(2) [of n] N(2) by simp
  have ch: "is_chain ?s (pch g p @ [n]) (qp_tail P) n"
    using linked_snoc [OF C(7) C(3) C(6) nin] C nin by (simp add: is_chain_def nx)
  have same: "map_option qn_next (nodes ?s a) = map_option qn_next (nodes s a)"
    if "own g a \<noteq> Loose" "own g a \<noteq> InPool p" for a
    using that oh N by auto
  have "pool_rel ?s ?g p' P'" if "pools ?s p' = Some P'" for p' P'
  proof (cases "p' = p")
    case True
    with that have P': "P' = P\<lparr>qp_head := n\<rparr>" by simp
    have "own ?g x = InPool p \<longleftrightarrow> x \<in> set (pch g p @ [n])" for x
      using pool_relD(1) [OF R P, of x] by simp
    moreover have "own ?g x = FastOf p \<longleftrightarrow> x = qp_fast_alloc P \<and> x \<noteq> NULL" for x
      using pool_relD(2) [OF R P, of x] N(2) by (cases "x = n") auto
    moreover have "own ?g x = StubOf p \<longleftrightarrow> x = qp_stub P \<and> x \<noteq> qp_tail P" for x
      using pool_relD(3) [OF R P, of x] N(2) by (cases "x = n") auto
    moreover have "own ?g (qp_stub P) = InPool p \<or> own ?g (qp_stub P) = StubOf p"
      using pool_relD(4) [OF R P] by auto
    ultimately show ?thesis unfolding pool_rel_def True P' using ch by simp
  next
    case False
    with that D(3) have Q: "pool_rel s g p' P'" by simp
    show ?thesis by (rule pool_rel_transfer [OF Q]) (use False same N(2) in \<open>auto simp: pool_side_def\<close>)
  qed
  moreover have "queue_rel ?s ?g q Q" if "queues ?s q = Some Q" for q Q
  proof -
    from that D(4) have Q: "queue_rel s g q Q" by simp
    show ?thesis by (rule queue_rel_transfer [OF Q]) (use same N(2) in auto)
  qed
  moreover have "owned_ok ?s ?g"
    by (rule owned_ok_transfer [OF D(5)]) (use N P H ne in \<open>auto simp: pool_side_def split: if_splits\<close>)
  moreover have "frame s ?s" using N H P ne by (auto simp: frame_def)
  moreover have "qp_head P \<noteq> NULL" using H D(1) by (metis option.distinct(1))
  ultimately have "mem_rel ?s ?g"
    using D(1,2,6) n0 P by (auto simp: mem_rel_def allocated_def)
  with \<open>frame s ?s\<close> show ?thesis using that [OF e] by simp
qed

text \<open>Moving the tail of a pool past its first node.\<close>

lemma stub_in_chain:
  assumes "mem_rel s g" "pools s p = Some P" "qp_stub P \<in> set (pch g p)"
  shows "qp_stub P = qp_tail P"
  using pool_relD(1,3) [OF assms(1,2), of "qp_stub P"] assms(3) by auto

lemma pool_advance:
  assumes R: "mem_rel s g" and P: "pools s p = Some P" and c: "pch g p = a # b # rest"
  defines "s' \<equiv> s\<lparr>pools := (pools s)(p \<mapsto> P\<lparr>qp_tail := b\<rparr>)\<rparr>"
    and "g' \<equiv> g\<lparr>own := (own g)(a := if a = qp_stub P then StubOf p else Loose), pch := (pch g)(p := b # rest)\<rparr>"
  shows "mem_rel s' g'" "frame s s'" "gframe s g g'" "a \<noteq> NULL" "b \<noteq> NULL"
proof -
  note C = pool_chain [OF R P] and D = mem_relD [OF R]
  have a: "a = qp_tail P" and oa: "own g a = InPool p" and ob: "own g b = InPool p" and ab: "a \<noteq> b" "a \<notin> set rest"
    using C c by auto
  from a show "a \<noteq> NULL" "b \<noteq> NULL" using owned_node [OF R] oa ob by (metis owner.distinct(1))+
  have nx: "nexts s' = nexts s" by (auto simp: nexts_def s'_def)
  have st: "qp_stub P \<noteq> b"
    using pool_relD(1,3) [OF R P, of "qp_stub P"] a ab(1) c by auto
  have "pool_rel s' g' p' P'" if "pools s' p' = Some P'" for p' P'
  proof (cases "p' = p")
    case True
    with that have P': "P' = P\<lparr>qp_tail := b\<rparr>" by (simp add: s'_def)
    have "is_chain s' (b # rest) b (qp_head P)"
      using C c by (auto simp: is_chain_def nx)
    moreover have "own g' x = InPool p \<longleftrightarrow> x \<in> set (b # rest)" for x
      using pool_relD(1) [OF R P, of x] ab c by (simp add: g'_def)
    moreover have "own g' x = FastOf p \<longleftrightarrow> x = qp_fast_alloc P \<and> x \<noteq> NULL" for x
      using pool_relD(2) [OF R P, of x] pool_relD(2) [OF R P, of a] oa by (cases "x = a") (simp_all add: g'_def)
    moreover have "own g' x = StubOf p \<longleftrightarrow> x = qp_stub P \<and> x \<noteq> b" for x
    proof (cases "x = a")
      case True
      then show ?thesis using ab(1) by (simp add: g'_def)
    next
      case False
      then have "own g' x = own g x" by (simp add: g'_def)
      then show ?thesis using pool_relD(3) [OF R P, of x] False a st by metis
    qed
    moreover have "own g' (qp_stub P) = InPool p \<or> own g' (qp_stub P) = StubOf p"
      using pool_relD(4) [OF R P] by (auto simp: g'_def)
    moreover have "pch g' p = b # rest" by (simp add: g'_def)
    ultimately show ?thesis unfolding pool_rel_def True P' by simp
  next
    case False
    with that D(3) have Q: "pool_rel s g p' P'" by (simp add: s'_def)
    show ?thesis by (rule pool_rel_transfer [OF Q]) (use False oa in \<open>auto simp: pool_side_def g'_def s'_def\<close>)
  qed
  moreover have "queue_rel s' g' q Q" if "queues s' q = Some Q" for q Q
  proof -
    from that D(4) have Q: "queue_rel s g q Q" by (simp add: s'_def)
    show ?thesis by (rule queue_rel_transfer [OF Q]) (use oa in \<open>auto simp: g'_def s'_def\<close>)
  qed
  moreover have "owned_ok s' g'"
    by (rule owned_ok_transfer [OF D(5)]) (use P oa in \<open>auto simp: s'_def g'_def pool_side_def split: if_splits\<close>)
  ultimately show "mem_rel s' g'"
    using D(1,2,6) P by (auto simp: mem_rel_def allocated_def s'_def)
  show "frame s s'" using P by (auto simp: frame_def s'_def)
  show "gframe s g g'" using oa by (auto simp: gframe_def g'_def)
qed

definition pfree :: "lmem \<Rightarrow> ghost \<Rightarrow> addr \<Rightarrow> addr list" where
  "pfree s g p = (case pools s p of None \<Rightarrow> [] | Some P \<Rightarrow> filter (\<lambda>a. a \<noteq> qp_stub P) (pch g p))"

lemma pfree_upd [simp]:
  "pools s p = Some P \<Longrightarrow> qp_stub P' = qp_stub P \<Longrightarrow>
     pfree (s\<lparr>pools := (pools s)(p \<mapsto> P')\<rparr>) (g\<lparr>own := ow, pch := (pch g)(p := xs)\<rparr>) p = filter (\<lambda>a. a \<noteq> qp_stub P) xs"
  by (simp add: pfree_def)

lemma get_next_chain:
  assumes "mem_rel s g" "pools s p = Some P" "pch g p = a # xs"
  shows "get_next a s = Some (case xs of [] \<Rightarrow> NULL | b # _ \<Rightarrow> b)"
  using pool_chain(7) [OF assms(1,2)] assms(3) by (simp add: linked_hd get_next_def nexts_def)

text \<open>The result of \<open>_pool_remove\<close>: the second half first.\<close>

lemma pool_take_ok:
  assumes R: "mem_rel s g" and P: "pools s p = Some P" and c: "pch g p = a # xs" and st: "a \<noteq> qp_stub P"
  shows "xs = [] \<Longrightarrow> pool_take p a NULL s = Some (NULL, s)"
    "xs = b # rest \<Longrightarrow> pool_take p a b s = Some (a, s\<lparr>pools := (pools s)(p \<mapsto> P\<lparr>qp_tail := b\<rparr>)\<rparr>)"
proof -
  note C = pool_chain [OF R P]
  show "pool_take p a NULL s = Some (NULL, s)" if "xs = []"
    using that C c by (simp add: pool_take_def P)
  show "pool_take p a b s = Some (a, s\<lparr>pools := (pools s)(p \<mapsto> P\<lparr>qp_tail := b\<rparr>)\<rparr>)" if "xs = b # rest"
    using pool_advance(5) [OF R P] that c by (simp add: pool_take_def upd_pool_def P)
qed

lemma pfree_cases:
  assumes "mem_rel s g" "pools s p = Some P" "pch g p = a # xs"
  shows "a = qp_tail P" "pfree s g p = (if a = qp_stub P then xs else a # xs)"
proof -
  note C = pool_chain [OF assms(1,2)]
  show a: "a = qp_tail P" using C assms(3) by simp
  have "qp_stub P \<notin> set xs"
    using stub_in_chain [OF assms(1,2)] a C(6) assms(3) by auto
  then have "filter (\<lambda>x. x \<noteq> qp_stub P) xs = xs" by (auto intro: filter_True)
  then show "pfree s g p = (if a = qp_stub P then xs else a # xs)"
    using assms(2,3) by (simp add: pfree_def)
qed

text \<open>
  The contract of \<open>_pool_remove\<close>: with two or more free nodes it hands out the oldest; with one
  or none it returns NULL. The last free node always stays in the pool.
\<close>

definition remove_post :: "lmem \<Rightarrow> ghost \<Rightarrow> addr \<Rightarrow> addr \<Rightarrow> lmem \<Rightarrow> ghost \<Rightarrow> bool" where
  "remove_post s g p n s' g' \<longleftrightarrow>
     mem_rel s' g' \<and> frame s s' \<and> gframe s g g' \<and> dom (nodes s') = dom (nodes s) \<and>
     (\<forall>p'. p' \<noteq> p \<longrightarrow> pch g' p' = pch g p') \<and>
     (if length (pfree s g p) \<le> 1 then n = NULL \<and> pfree s' g' p = pfree s g p \<and> length (pch g' p) = 1
      else n = hd (pfree s g p) \<and> n \<noteq> NULL \<and> pfree s' g' p = tl (pfree s g p) \<and> own g' n = Loose)"

lemma pool_remove_ok:
  assumes R: "mem_rel s g" and P: "pools s p = Some P"
  shows "\<exists>n s' g'. pool_remove p s = Some (n, s') \<and> remove_post s g p n s' g'"
proof -
  note C = pool_chain [OF R P]
  obtain a xs where c: "pch g p = a # xs" using C(3) by (cases "pch g p") auto
  note F = pfree_cases [OF R P c]
  have nx: "get_next a s = Some (case xs of [] \<Rightarrow> NULL | b # _ \<Rightarrow> b)"
    by (rule get_next_chain [OF R P c])
  show ?thesis
  proof (cases xs)
    case Nil
    then have "pool_remove p s = Some (NULL, s)"
      using nx F(1) C c by (auto simp: pool_remove_def P pool_take_def Let_def)
    moreover have "remove_post s g p NULL s g"
      using R F Nil c by (auto simp: remove_post_def)
    ultimately show ?thesis by blast
  next
    case (Cons b rest)
    let ?s = "s\<lparr>pools := (pools s)(p \<mapsto> P\<lparr>qp_tail := b\<rparr>)\<rparr>"
    let ?g = "g\<lparr>own := (own g)(a := if a = qp_stub P then StubOf p else Loose), pch := (pch g)(p := b # rest)\<rparr>"
    note A = pool_advance [OF R P c [unfolded Cons]]
    have fr: "pfree ?s ?g p = filter (\<lambda>x. x \<noteq> qp_stub P) (b # rest)" using P by simp
    have st: "b \<noteq> qp_stub P"
      using stub_in_chain [OF R P] F(1) C(6) c Cons by auto
    show ?thesis
    proof (cases "a = qp_stub P")
      case False
      then have "pool_remove p s = Some (a, ?s)"
        using nx Cons pool_take_ok(2) [OF R P c False Cons] F(1) by (simp add: pool_remove_def P)
      moreover have "remove_post s g p a ?s ?g"
        using A F False Cons fr pfree_cases [OF A(1), of p "P\<lparr>qp_tail := b\<rparr>" b rest] st
        by (simp add: remove_post_def)
      ultimately show ?thesis by blast
    next
      case stub: True
      have P': "pools ?s p = Some (P\<lparr>qp_tail := b\<rparr>)" and c': "pch ?g p = b # rest" by simp_all
      have st': "b \<noteq> qp_stub (P\<lparr>qp_tail := b\<rparr>)" using st by simp
      have e: "pool_remove p s = pool_take p b (case rest of [] \<Rightarrow> NULL | d # _ \<Rightarrow> d) ?s"
        using nx Cons F(1) stub A(5) get_next_chain [OF A(1) P' c']
        by (simp add: pool_remove_def P upd_pool_def)
      show ?thesis
      proof (cases rest)
        case Nil
        then have "pool_remove p s = Some (NULL, ?s)"
          using e pool_take_ok(1) [OF A(1) P' c' st'] by simp
        moreover have "remove_post s g p NULL ?s ?g"
          using A F Cons Nil stub fr st by (simp add: remove_post_def)
        ultimately show ?thesis by blast
      next
        case (Cons d rest')
        have c2: "pch ?g p = b # d # rest'" by (simp add: Cons)
        note B = pool_advance [OF A(1) P' c2]
        let ?s2 = "?s\<lparr>pools := (pools ?s)(p \<mapsto> (P\<lparr>qp_tail := b\<rparr>)\<lparr>qp_tail := d\<rparr>)\<rparr>"
        let ?g2 = "?g\<lparr>own := (own ?g)(b := if b = qp_stub (P\<lparr>qp_tail := b\<rparr>) then StubOf p else Loose), pch := (pch ?g)(p := d # rest')\<rparr>"
        have "pool_remove p s = Some (b, ?s2)"
          using e Cons pool_take_ok(2) [OF A(1) P' c' st' Cons] by simp
        moreover have "remove_post s g p b ?s2 ?g2"
          unfolding remove_post_def
        proof (intro conjI)
          show "frame s ?s2" using A(2) B(2) by (rule frame_trans)
          show "gframe s g ?g2" using A(3) B(3) A(2) by (rule gframe_trans)
          have "d \<noteq> qp_stub P" using stub_in_chain [OF R P] F(1) C(6) c \<open>xs = b # rest\<close> Cons by auto
          then show "if length (pfree s g p) \<le> 1
             then b = NULL \<and> pfree ?s2 ?g2 p = pfree s g p \<and> length (pch ?g2 p) = 1
             else b = hd (pfree s g p) \<and> b \<noteq> NULL \<and> pfree ?s2 ?g2 p = tl (pfree s g p) \<and> own ?g2 b = Loose"
            using F stub \<open>xs = b # rest\<close> Cons B st pfree_cases(2) [OF B(1), of p "P\<lparr>qp_tail := d\<rparr>" d rest']
            by simp
        qed (use A B in simp_all)
        ultimately show ?thesis by blast
      qed
    qed
  qed
qed


text \<open>The retry loop of \<open>_qnode_pool_remove\<close> runs its body once when no producer is active.\<close>

lemma qnode_pool_remove_eq:
  assumes R: "mem_rel s g" and P: "pools s p = Some P"
  shows "qnode_pool_remove p s = pool_remove p s"
proof -
  obtain n s' g' where e: "pool_remove p s = Some (n, s')" and post: "remove_post s g p n s' g'"
    using pool_remove_ok [OF R P] by blast
  show ?thesis
  proof (cases "n = NULL")
    case False
    then show ?thesis by (simp add: qnode_pool_remove.simps [of p s] e)
  next
    case True
    then have m: "mem_rel s' g'" and l: "length (pch g' p) = 1" and f: "frame s s'"
      using post unfolding remove_post_def by (auto split: if_splits)
    obtain P' where P': "pools s' p = Some P'" using f P unfolding frame_def by blast
    obtain x where "pch g' p = [x]" using l by (cases "pch g' p") auto
    then have "qp_head P' = qp_tail P'" using pool_chain(4,5) [OF m P'] by simp
    with True P' show ?thesis by (simp add: qnode_pool_remove.simps [of p s] e)
  qed
qed

lemma qnode_pool_remove_ok:
  assumes "mem_rel s g" "pools s p = Some P"
  shows "\<exists>n s' g'. qnode_pool_remove p s = Some (n, s') \<and> remove_post s g p n s' g'"
  using pool_remove_ok [OF assms] qnode_pool_remove_eq [OF assms] by simp

text \<open>A block from the allocator becomes a loose node.\<close>

lemma malloc_node_ok:
  assumes R: "mem_rel s g" and F: "fresh_alloc mal" and m: "mal s = Some a"
  defines "N \<equiv> \<lparr>qn_next = NULL, qn_data = NULL, qn_pool = NULL\<rparr>"
  shows "malloc_node mal s = (a, s\<lparr>nodes := (nodes s)(a \<mapsto> N)\<rparr>)" "a \<noteq> NULL" "nodes s a = None"
    "own g a = Loose" "mem_rel (s\<lparr>nodes := (nodes s)(a \<mapsto> N\<lparr>qn_pool := q\<rparr>)\<rparr>) g"
    "frame s (s\<lparr>nodes := (nodes s)(a \<mapsto> N\<lparr>qn_pool := q\<rparr>)\<rparr>)"
proof -
  let ?s = "s\<lparr>nodes := (nodes s)(a \<mapsto> N\<lparr>qn_pool := q\<rparr>)\<rparr>"
  show "malloc_node mal s = (a, s\<lparr>nodes := (nodes s)(a \<mapsto> N)\<rparr>)"
    by (simp add: malloc_node_def m N_def)
  from F m show a: "a \<noteq> NULL" and nn: "nodes s a = None"
    unfolding fresh_alloc_def allocated_def by blast+
  show l: "own g a = Loose" using owned_node [OF R, of a] nn by fastforce
  note D = mem_relD [OF R]
  have "pool_rel ?s g p P" if "pools ?s p = Some P" for p P
    by (rule pool_rel_transfer [OF D(3)]) (use that l in auto)
  moreover have "queue_rel ?s g q Q" if "queues ?s q = Some Q" for q Q
    by (rule queue_rel_transfer [OF D(4)]) (use that l in auto)
  moreover have "owned_ok ?s g"
    using D(5) l unfolding owned_ok_def by auto
  ultimately show "mem_rel ?s g" using D(1,2,6) a by (simp add: mem_rel_def allocated_def)
  show "frame s ?s" using nn by (auto simp: frame_def)
qed

lemma pfree_insert:
  assumes "pools s p = Some P" "pools s' = (pools s)(p \<mapsto> P\<lparr>qp_head := n\<rparr>)" "n \<noteq> qp_stub P"
  shows "pfree s' (g\<lparr>own := ow, pch := (pch g)(p := pch g p @ [n])\<rparr>) p = pfree s g p @ [n]"
  using assms by (simp add: pfree_def)

text \<open>\<open>i\<close> rounds of preallocation: all of them, or as many as the allocator grants.\<close>

lemma prealloc_nodes_ok:
  assumes "mem_rel s g" "pools s p = Some P" "fresh_alloc mal"
  shows "\<exists>ok s' g'. prealloc_nodes mal p i s = Some (ok, s') \<and> mem_rel s' g' \<and> frame s s' \<and> gframe s g g' \<and>
     (ok \<longrightarrow> length (pfree s' g' p) = length (pfree s g p) + i) \<and> (\<not> ok \<longrightarrow> refuses mal)"
  using assms(1,2)
proof (induction i arbitrary: s g P)
  case 0
  then show ?case by (intro exI [of _ True] exI [of _ s] exI [of _ g]) simp
next
  case (Suc i)
  show ?case
  proof (cases "mal s")
    case None
    then show ?thesis using Suc.prems
      by (intro exI [of _ False] exI [of _ s] exI [of _ g]) (auto simp: malloc_node_def refuses_def dest: mem_relD(6))
  next
    case (Some a)
    note M = malloc_node_ok(1-4) [OF Suc.prems(1) assms(3) Some]
      malloc_node_ok(5,6) [OF Suc.prems(1) assms(3) Some, of p]
    let ?N = "\<lparr>qn_next = NULL, qn_data = NULL, qn_pool = NULL\<rparr>"
    let ?s = "s\<lparr>nodes := (nodes s)(a \<mapsto> ?N\<lparr>qn_pool := p\<rparr>)\<rparr>"
    let ?g = "g\<lparr>own := (own g)(a := InPool p), pch := (pch g)(p := pch g p @ [a])\<rparr>"
    have P: "pools ?s p = Some P" using Suc.prems by simp
    have st: "a \<noteq> qp_stub P"
      using pool_relD(4) [OF Suc.prems] M(4) by auto
    obtain s2 where s2: "qnode_pool_insert p a ?s = Some s2" "mem_rel s2 ?g" "frame ?s s2"
      "pools s2 = (pools ?s)(p \<mapsto> P\<lparr>qp_head := a\<rparr>)"
      by (rule pool_insert_ok [OF M(5) P, of a "?N\<lparr>qn_pool := p\<rparr>"]) (use M(4) P in auto)
    obtain ok s3 g3 where IH: "prealloc_nodes mal p i s2 = Some (ok, s3)" "mem_rel s3 g3" "frame s2 s3" "gframe s2 ?g g3"
      "ok \<longrightarrow> length (pfree s3 g3 p) = length (pfree s2 ?g p) + i" "\<not> ok \<longrightarrow> refuses mal"
      using Suc.IH [OF s2(2)] s2(4) by auto
    have "pfree s2 ?g p = pfree s g p @ [a]"
      by (rule pfree_insert [of s p P]) (use Suc.prems s2(4) st in auto)
    moreover have "prealloc_nodes mal p (Suc i) s = Some (ok, s3)"
      using M(1,2) s2(1) IH(1) by (simp add: set_pool_def)
    moreover have "gframe s g ?g" using M(3) by (auto simp: gframe_def)
    moreover have "frame s s2" using M(6) s2(3) by (rule frame_trans)
    ultimately have "gframe s g g3" "frame s s3"
      using gframe_trans [OF _ IH(4)] frame_trans IH(3) by blast+
    moreover note \<open>pfree s2 ?g p = pfree s g p @ [a]\<close>
      \<open>prealloc_nodes mal p (Suc i) s = Some (ok, s3)\<close>
    ultimately show ?thesis using IH(2,5,6) by auto
  qed
qed

lemma upd_loose:
  assumes R: "mem_rel s g" and l: "own g n = Loose" and n0: "n \<noteq> NULL"
  shows "mem_rel (s\<lparr>nodes := (nodes s)(n \<mapsto> N)\<rparr>) g"
proof -
  let ?s = "s\<lparr>nodes := (nodes s)(n \<mapsto> N)\<rparr>"
  note D = mem_relD [OF R]
  have "pool_rel ?s g p P" if "pools ?s p = Some P" for p P
    by (rule pool_rel_transfer [OF D(3)]) (use that l in auto)
  moreover have "queue_rel ?s g q Q" if "queues ?s q = Some Q" for q Q
    by (rule queue_rel_transfer [OF D(4)]) (use that l in auto)
  moreover have "owned_ok ?s g" using D(5) l unfolding owned_ok_def by auto
  ultimately show ?thesis using D(1,2,6) n0 by (simp add: mem_rel_def allocated_def)
qed

lemma set_pool_loose:
  assumes "mem_rel s g" "own g n = Loose" "n \<noteq> NULL" "n \<in> dom (nodes s)"
  obtains s' N where "set_pool n p s = Some s'" "mem_rel s' g" "frame s s'" "nodes s' n = Some N" "qn_pool N = p"
    "pools s' = pools s" "dom (nodes s') = dom (nodes s)"
proof -
  obtain N where N: "nodes s n = Some N" using assms(4) by blast
  let ?s = "s\<lparr>nodes := (nodes s)(n \<mapsto> N\<lparr>qn_pool := p\<rparr>)\<rparr>"
  have "set_pool n p s = Some ?s" by (simp add: set_pool_def N)
  moreover have "mem_rel ?s g" using upd_loose [OF assms(1-3)] by blast
  moreover have "frame s ?s" using N by (auto simp: frame_def)
  ultimately show ?thesis using that [of ?s "N\<lparr>qn_pool := p\<rparr>"] assms(4) by auto
qed

text \<open>
  The contract of \<open>_qnode_alloc\<close>: a node that no chain holds, tagged with the pool of the running
  scheduler; or NULL, and then only because the allocator refused a block.
\<close>

definition alloc_post :: "allocator \<Rightarrow> lmem \<Rightarrow> ghost \<Rightarrow> addr \<Rightarrow> lmem \<Rightarrow> ghost \<Rightarrow> bool" where
  "alloc_post mal s g n s' g' \<longleftrightarrow>
     mem_rel s' g' \<and> frame s s' \<and> gframe s g g' \<and>
     (n \<noteq> NULL \<longrightarrow> own g' n = Loose \<and> (\<exists>N. nodes s' n = Some N \<and> qn_pool N \<in> dom (pools s'))) \<and>
     (n = NULL \<longrightarrow> refuses mal)"

lemma alloc_post_trans:
  "frame s t \<Longrightarrow> gframe s g h \<Longrightarrow> alloc_post mal t h n u k \<Longrightarrow> alloc_post mal s g n u k"
  unfolding alloc_post_def using frame_trans gframe_trans by metis

lemma removed_post:
  assumes R: "mem_rel s g" and P: "pools s p = Some P" and l: "2 \<le> length (pfree s g p)"
  shows "\<exists>n s' g'. do { (n, s) \<leftarrow> qnode_pool_remove p s; s \<leftarrow> set_pool n p s; Some (n, s) } = Some (n, s') \<and>
    n \<noteq> NULL \<and> alloc_post mal s g n s' g'"
proof -
  obtain n s1 g1 where e: "qnode_pool_remove p s = Some (n, s1)" and post: "remove_post s g p n s1 g1"
    using qnode_pool_remove_ok [OF R P] by blast
  then have m: "mem_rel s1 g1" "frame s s1" "gframe s g g1" "dom (nodes s1) = dom (nodes s)"
    "n \<noteq> NULL" "own g1 n = Loose" "n = hd (pfree s g p)"
    using l unfolding remove_post_def by (auto split: if_splits)
  have "n \<in> set (pfree s g p)" using m(7) l by (cases "pfree s g p") auto
  then have "n \<in> set (pch g p)" using P by (simp add: pfree_def)
  then have "n \<in> dom (nodes s1)" using is_chain_dom [OF pool_chain(1) [OF R P]] m(4) by blast
  then obtain s2 N where "set_pool n p s1 = Some s2" "mem_rel s2 g1" "frame s1 s2" "nodes s2 n = Some N" "qn_pool N = p"
    "pools s2 = pools s1"
    using set_pool_loose [OF m(1,6,5)] by metis
  moreover have "p \<in> dom (pools s1)" using m(2) P unfolding frame_def by blast
  ultimately show ?thesis using e m frame_trans [OF m(2)] unfolding alloc_post_def by auto
qed

text \<open>The one-node cache of a pool: emptied by an allocation, filled by a free.\<close>

lemma fast_take:
  assumes R: "mem_rel s g" and P: "pools s p = Some P" and n: "qp_fast_alloc P \<noteq> NULL"
  defines "s' \<equiv> s\<lparr>pools := (pools s)(p \<mapsto> P\<lparr>qp_fast_alloc := NULL\<rparr>)\<rparr>"
    and "g' \<equiv> g\<lparr>own := (own g)(qp_fast_alloc P := Loose)\<rparr>"
  shows "mem_rel s' g'" "frame s s'" "gframe s g g'" "own g (qp_fast_alloc P) = FastOf p"
proof -
  note D = mem_relD [OF R]
  show o: "own g (qp_fast_alloc P) = FastOf p" using pool_relD(2) [OF R P, of "qp_fast_alloc P"] n by simp
  have "pool_rel s' g' q Q" if Q: "pools s' q = Some Q" for q Q
  proof (cases "q = p")
    case True
    then have Q': "Q = P\<lparr>qp_fast_alloc := NULL\<rparr>" using Q by (simp add: s'_def)
    have "is_chain s' (pch g p) (qp_tail P) (qp_head P)"
      by (rule is_chain_frame [OF pool_chain(1) [OF R P]]) (simp add: s'_def)
    moreover have "own g' x = InPool p \<longleftrightarrow> own g x = InPool p" "own g' x = StubOf p \<longleftrightarrow> own g x = StubOf p"
      "own g' x \<noteq> FastOf p" for x
      using o pool_relD(2) [OF R P, of x] n by (auto simp: g'_def)
    ultimately show ?thesis
      using pool_relD(1,3,4) [OF R P] unfolding pool_rel_def True Q' by (auto simp: g'_def)
  next
    case False
    then have "pools s q = Some Q" using Q by (simp add: s'_def)
    then show ?thesis
      by (rule pool_rel_transfer [OF D(3)]) (use False o in \<open>auto simp: s'_def g'_def pool_side_def\<close>)
  qed
  moreover have "queue_rel s' g' q Q" if "queues s' q = Some Q" for q Q
    by (rule queue_rel_transfer [OF D(4)]) (use that o in \<open>auto simp: s'_def g'_def\<close>)
  moreover have "owned_ok s' g'"
    by (rule owned_ok_transfer [OF D(5)]) (use P in \<open>auto simp: s'_def g'_def split: if_splits\<close>)
  ultimately show "mem_rel s' g'" using D(1,2,6) P by (auto simp: mem_rel_def allocated_def s'_def)
  show "frame s s'" using P by (auto simp: frame_def s'_def)
  show "gframe s g g'" by (auto simp: gframe_def g'_def)
qed

lemma fast_put:
  assumes R: "mem_rel s g" and P: "pools s p = Some P" and n: "qp_fast_alloc P = NULL"
    and m: "own g m = Loose" "m \<noteq> NULL" "nodes s m = Some N" "qn_pool N \<in> dom (pools s)"
  defines "s' \<equiv> s\<lparr>pools := (pools s)(p \<mapsto> P\<lparr>qp_fast_alloc := m\<rparr>)\<rparr>"
    and "g' \<equiv> g\<lparr>own := (own g)(m := FastOf p)\<rparr>"
  shows "mem_rel s' g'" "frame s s'"
proof -
  note D = mem_relD [OF R]
  have "pool_rel s' g' q Q" if Q: "pools s' q = Some Q" for q Q
  proof (cases "q = p")
    case True
    then have Q': "Q = P\<lparr>qp_fast_alloc := m\<rparr>" using Q by (simp add: s'_def)
    have "is_chain s' (pch g p) (qp_tail P) (qp_head P)"
      by (rule is_chain_frame [OF pool_chain(1) [OF R P]]) (simp add: s'_def)
    moreover have "own g' x = InPool p \<longleftrightarrow> own g x = InPool p" "own g' x = StubOf p \<longleftrightarrow> own g x = StubOf p"
      "own g' x = FastOf p \<longleftrightarrow> x = m \<and> x \<noteq> NULL" for x
      using m(1,2) pool_relD(2) [OF R P, of x] n by (auto simp: g'_def)
    ultimately show ?thesis
      using pool_relD(1,3,4) [OF R P] unfolding pool_rel_def True Q' by (simp add: g'_def)
  next
    case False
    then have "pools s q = Some Q" using Q by (simp add: s'_def)
    then show ?thesis
      by (rule pool_rel_transfer [OF D(3)]) (use False m in \<open>auto simp: s'_def g'_def pool_side_def\<close>)
  qed
  moreover have "queue_rel s' g' q Q" if "queues s' q = Some Q" for q Q
    by (rule queue_rel_transfer [OF D(4)]) (use that m in \<open>auto simp: s'_def g'_def\<close>)
  moreover have "owned_ok s' g'"
    by (rule owned_ok_transfer [OF D(5)]) (use P m in \<open>auto simp: s'_def g'_def pool_side_def split: if_splits\<close>)
  ultimately show "mem_rel s' g'" using D(1,2,6) P by (auto simp: mem_rel_def allocated_def s'_def)
  show "frame s s'" using P by (auto simp: frame_def s'_def)
qed

lemma qnode_alloc_ok:
  assumes R: "mem_rel s g" and P: "pools s (cur_pool s) = Some P" and pre: "2 \<le> qp_pre_alloc P" and F: "fresh_alloc mal"
  shows "\<exists>n s' g'. qnode_alloc mal s = Some (n, s') \<and> alloc_post mal s g n s' g'"
proof (cases "qp_fast_alloc P = NULL")
  case False
  note T = fast_take [OF R P False]
  obtain N where "nodes s (qp_fast_alloc P) = Some N" "qn_pool N \<in> dom (pools s)"
    using owned_node [OF R] T(4) by (metis owner.distinct(5))
  then show ?thesis
    using T False P by (auto simp: qnode_alloc_def upd_pool_def alloc_post_def Let_def intro!: exI)
next
  case True
  let ?p = "cur_pool s"
  obtain n s1 g1 where e: "qnode_pool_remove ?p s = Some (n, s1)" and post: "remove_post s g ?p n s1 g1"
    using qnode_pool_remove_ok [OF R P] by blast
  show ?thesis
  proof (cases "n = NULL")
    case False
    then have "2 \<le> length (pfree s g ?p)" using post unfolding remove_post_def by (auto split: if_splits)
    from removed_post [OF R P this, of mal] False show ?thesis
      by (auto simp: qnode_alloc_def P True e Let_def split: bind_splits)
  next
    case n: True
    then have m: "mem_rel s1 g1" "frame s s1" "gframe s g g1"
      using post unfolding remove_post_def by (auto split: if_splits)
    obtain P1 where P1: "pools s1 ?p = Some P1" using m(2) P unfolding frame_def by blast
    obtain ok s2 g2 where L: "prealloc_nodes mal ?p (nat (qp_pre_alloc P)) s1 = Some (ok, s2)" "mem_rel s2 g2"
      "frame s1 s2" "gframe s1 g1 g2" "ok \<longrightarrow> length (pfree s2 g2 ?p) = length (pfree s1 g1 ?p) + nat (qp_pre_alloc P)"
      "\<not> ok \<longrightarrow> refuses mal"
      using prealloc_nodes_ok [OF m(1) P1 F] by metis
    have fr: "frame s s2" "gframe s g g2"
      using frame_trans [OF m(2) L(3)] gframe_trans [OF m(3) L(4) m(2)] by blast+
    show ?thesis
    proof (cases ok)
      case False
      then have "qnode_alloc mal s = Some (NULL, s2)"
        by (simp add: Let_def qnode_alloc_def P True e n L(1))
      moreover have "alloc_post mal s g NULL s2 g2" using False L fr by (simp add: alloc_post_def)
      ultimately show ?thesis by blast
    next
      case ok: True
      then have l: "2 \<le> length (pfree s2 g2 ?p)" using L(5) pre by simp
      obtain P2 where P2: "pools s2 ?p = Some P2" using L(3) P1 unfolding frame_def by blast
      have "qnode_alloc mal s = do { (n, s) \<leftarrow> qnode_pool_remove ?p s2; s \<leftarrow> set_pool n ?p s; Some (n, s) }"
        using ok by (simp add: Let_def qnode_alloc_def P True e n L(1))
      with removed_post [OF L(2) P2 l, of mal] show ?thesis
        using alloc_post_trans [OF fr] by metis
    qed
  qed
qed

text \<open>The contract of \<open>_qnode_free\<close>: the node is the pool's again, every queue is unchanged.\<close>

lemma qnode_free_ok:
  assumes R: "mem_rel s g" and n: "own g n = Loose" "nodes s n = Some N" "qn_pool N \<in> dom (pools s)"
  shows "\<exists>s' g'. qnode_free n s = Some s' \<and> mem_rel s' g' \<and> frame s s' \<and> qch g' = qch g"
proof -
  obtain P where P: "pools s (qn_pool N) = Some P" using n(3) by blast
  have n0: "n \<noteq> NULL" using mem_relD(1) [OF R] n(2) by (metis option.distinct(1))
  show ?thesis
  proof (cases "qp_fast_alloc P \<noteq> NULL \<or> qn_pool N \<noteq> cur_pool s")
    case True
    obtain s' where "qnode_pool_insert (qn_pool N) n s = Some s'"
      "mem_rel s' (g\<lparr>own := (own g)(n := InPool (qn_pool N)), pch := (pch g)(qn_pool N := pch g (qn_pool N) @ [n])\<rparr>)"
      "frame s s'"
      using pool_insert_ok [OF R P n(2,1,3)] by metis
    moreover have "qnode_free n s = qnode_pool_insert (qn_pool N) n s"
      using True by (simp add: Let_def qnode_free_def n(2) P Let_def)
    ultimately show ?thesis by (metis ghost.select_convs(3) ghost.update_convs(1,2) ghost.surjective)
  next
    case False
    then have F: "qp_fast_alloc P = NULL" "qn_pool N = cur_pool s" by auto
    then have "qnode_free n s = Some (s\<lparr>pools := (pools s)(qn_pool N \<mapsto> P\<lparr>qp_fast_alloc := n\<rparr>)\<rparr>)"
      using P by (simp add: Let_def qnode_free_def n(2) upd_pool_def)
    with fast_put [OF R P _ n(1) n0 n(2,3)] False show ?thesis by fastforce
  qed
qed

end
