(* ===== verification/Lthread_Queue.thy ===== *)
theory Lthread_Queue
  imports Lthread_Pool
begin

section \<open>The lthread queue (lib/liblthread_dpdk/lthread_queue.h)\<close>

text \<open>
  An unbounded FIFO of object addresses over nodes of the scheduler's pool. The node at \<open>tail\<close> is
  a dummy whose \<open>data\<close> was already delivered; the elements are the data of the nodes after it.
  The interface the other components use (\<open>fifo_store\<close>) is a locale, interpreted here on the
  code's model. The window between the two writes of a producer is the subject of
  \<open>Lthread_Mpsc\<close>; here every routine runs to its end.
\<close>

subsection \<open>Operations\<close>

definition lthread_queue_create :: "allocator \<Rightarrow> string \<Rightarrow> lmem \<Rightarrow> (addr \<times> lmem) option" where
  "lthread_queue_create mal name s =
     (case mal s of None \<Rightarrow> Some (NULL, s)
      | Some q \<Rightarrow> do {
          let s = s\<lparr>raw := insert q (raw s)\<rparr>;
          (stub, s) \<leftarrow> qnode_alloc mal s;
          s \<leftarrow> set_next stub NULL s;
          Some (q, s\<lparr>raw := raw s - {q},
            queues := (queues s)(q \<mapsto> \<lparr>lq_head = stub, lq_tail = stub, lq_name = copy_name name\<rparr>)\<rparr>) })"

definition lthread_queue_empty :: "addr \<Rightarrow> lmem \<Rightarrow> bool option" where
  "lthread_queue_empty q s = do { Q \<leftarrow> queues s q; Some (lq_tail Q = lq_head Q) }"

definition lthread_queue_destroy :: "addr \<Rightarrow> lmem \<Rightarrow> (int \<times> lmem) option" where
  "lthread_queue_destroy q s =
     (if q = NULL then Some (-1, s)
      else do {
        e \<leftarrow> lthread_queue_empty q s;
        if \<not> e then Some (-1, s)
        else do {
          Q \<leftarrow> queues s q;
          s \<leftarrow> qnode_free (lq_head Q) s;
          Some (0, s\<lparr>queues := (queues s)(q := None)\<rparr>) } })"

text \<open>\<open>_lthread_queue_insert_mp\<close>: the exchange of the head, then the link.\<close>

definition lthread_queue_insert_mp ::
  "allocator \<Rightarrow> addr \<Rightarrow> addr \<Rightarrow> lmem \<Rightarrow> (addr \<times> lmem) option" where
  "lthread_queue_insert_mp mal q data s = do {
     (n, s) \<leftarrow> qnode_alloc mal s;
     if n = NULL then Some (NULL, s)
     else do {
       s \<leftarrow> set_data n data s;
       s \<leftarrow> set_next n NULL s;
       Q \<leftarrow> queues s q;
       let prev = lq_head Q;
       let s = s\<lparr>queues := (queues s)(q \<mapsto> Q\<lparr>lq_head := n\<rparr>)\<rparr>;
       s \<leftarrow> set_next prev n s;
       Some (n, s) } }"

text \<open>\<open>_lthread_queue_insert_sp\<close>: \<open>prev->next = q->head = n\<close> without the exchange.\<close>

definition lthread_queue_insert_sp ::
  "allocator \<Rightarrow> addr \<Rightarrow> addr \<Rightarrow> lmem \<Rightarrow> (addr \<times> lmem) option" where
  "lthread_queue_insert_sp mal q data s = do {
     (n, s) \<leftarrow> qnode_alloc mal s;
     if n = NULL then Some (NULL, s)
     else do {
       s \<leftarrow> set_data n data s;
       s \<leftarrow> set_next n NULL s;
       Q \<leftarrow> queues s q;
       let prev = lq_head Q;
       let s = s\<lparr>queues := (queues s)(q \<mapsto> Q\<lparr>lq_head := n\<rparr>)\<rparr>;
       s \<leftarrow> set_next prev n s;
       Some (n, s) } }"

definition lthread_queue_poll :: "addr \<Rightarrow> lmem \<Rightarrow> (addr \<times> lmem) option" where
  "lthread_queue_poll q s = do {
     Q \<leftarrow> queues s q;
     let tail = lq_tail Q;
     nxt \<leftarrow> get_next tail s;
     if nxt \<noteq> NULL then do {
       let s = s\<lparr>queues := (queues s)(q \<mapsto> Q\<lparr>lq_tail := nxt\<rparr>)\<rparr>;
       N \<leftarrow> nodes s nxt;
       s \<leftarrow> set_data tail (qn_data N) s;
       T \<leftarrow> nodes s tail;
       let data = qn_data T;
       s \<leftarrow> qnode_free tail s;
       Some (data, s) }
     else Some (NULL, s) }"

text \<open>\<open>_lthread_queue_remove\<close>: poll again while the queue is not empty; \<open>None\<close> is also "never
  returns".\<close>

partial_function (option) lthread_queue_remove :: "addr \<Rightarrow> lmem \<Rightarrow> (addr \<times> lmem) option" where
  "lthread_queue_remove q s = do {
     (data, s) \<leftarrow> lthread_queue_poll q s;
     if data \<noteq> NULL then Some (data, s)
     else do {
       e \<leftarrow> lthread_queue_empty q s;
       if \<not> e then lthread_queue_remove q s else Some (NULL, s) } }"

subsection \<open>What a queue holds\<close>

text \<open>The invariant and the abstraction, with no ghost state in them.\<close>

definition lt_inv :: "lmem \<Rightarrow> bool" where
  "lt_inv s \<longleftrightarrow> (\<exists>g. mem_rel s g)"

definition items :: "lmem \<Rightarrow> addr \<Rightarrow> addr list" where
  "items s q = (case queues s q of None \<Rightarrow> []
     | Some Q \<Rightarrow> map (\<lambda>a. case nodes s a of None \<Rightarrow> NULL | Some N \<Rightarrow> qn_data N)
                   (tl (chain_from (nexts s) (lq_tail Q))))"

text \<open>The running scheduler can always get a node: its pool preallocates at least two at a time.\<close>

definition pool_ready :: "lmem \<Rightarrow> bool" where
  "pool_ready s \<longleftrightarrow> (\<exists>P. pools s (cur_pool s) = Some P \<and> 2 \<le> qp_pre_alloc P)"

text \<open>What the queue routines leave alone.\<close>

definition qframe :: "lmem \<Rightarrow> lmem \<Rightarrow> bool" where
  "qframe s s' \<longleftrightarrow>
     caches s' = caches s \<and> objs s' = objs s \<and> raw s' = raw s \<and> cur_pool s' = cur_pool s \<and>
     (pool_ready s \<longrightarrow> pool_ready s')"

lemma qframe_trans: "qframe s t \<Longrightarrow> qframe t u \<Longrightarrow> qframe s u"
  by (auto simp: qframe_def)

lemma frame_ready: "frame s s' \<Longrightarrow> pool_ready s \<Longrightarrow> pool_ready s'"
  unfolding frame_def pool_ready_def by metis

lemma frame_qframe: "frame s s' \<Longrightarrow> qframe s s'"
  using frame_ready [of s s'] unfolding qframe_def by (simp add: frame_def)

lemma queue_chain:
  assumes "mem_rel s g" "queues s q = Some Q"
  shows "is_chain s (qch g q) (lq_tail Q) (lq_head Q)" "own g a = InQueue q \<longleftrightarrow> a \<in> set (qch g q)"
    "qch g q \<noteq> []" "hd (qch g q) = lq_tail Q" "last (qch g q) = lq_head Q" "distinct (qch g q)"
    "linked (nexts s) (qch g q)"
  using mem_relD(4) [OF assms] by (auto simp: queue_rel_def is_chain_def)

lemma queue_node:
  assumes "mem_rel s g" "queues s q = Some Q" "a \<in> set (qch g q)"
  shows "\<exists>N. nodes s a = Some N \<and> qn_pool N \<in> dom (pools s)" "a \<noteq> NULL"
  using owned_node [OF assms(1), of a] queue_chain(2) [OF assms(1,2), of a] assms(3)
  by (metis owner.distinct(3))+

lemma items_eq:
  assumes "mem_rel s g" "queues s q = Some Q"
  shows "items s q = map (\<lambda>a. case nodes s a of None \<Rightarrow> NULL | Some N \<Rightarrow> qn_data N) (tl (qch g q))"
proof -
  note C = queue_chain [OF assms]
  have "NULL \<notin> set (qch g q)" using queue_node(2) [OF assms] by blast
  then have "chain_from (nexts s) (lq_tail Q) = qch g q"
    using C by (intro chain_from_eq) auto
  then show ?thesis by (simp add: items_def assms(2))
qed

lemma items_transfer:
  assumes "mem_rel s g" "mem_rel s' g'" "queues s' q = queues s q" "qch g' q = qch g q"
    "\<And>a N. own g a = InQueue q \<Longrightarrow> nodes s a = Some N \<Longrightarrow> \<exists>N'. nodes s' a = Some N' \<and> qn_data N' = qn_data N"
  shows "items s' q = items s q"
proof (cases "queues s q")
  case (Some Q)
  have "(case nodes s' a of None \<Rightarrow> NULL | Some N \<Rightarrow> qn_data N) = (case nodes s a of None \<Rightarrow> NULL | Some N \<Rightarrow> qn_data N)"
    if a: "a \<in> set (tl (qch g q))" for a
  proof -
    have "a \<in> set (qch g q)" using a queue_chain(3) [OF assms(1) Some] by (cases "qch g q") auto
    then obtain N where "nodes s a = Some N" "own g a = InQueue q"
      using queue_node [OF assms(1) Some] queue_chain(2) [OF assms(1) Some] by blast
    with assms(5) [of a N] show ?thesis by auto
  qed
  then show ?thesis
    using items_eq [OF assms(1) Some] items_eq [OF assms(2), of q Q] assms(3,4) Some by simp
qed (simp add: items_def assms(3))

text \<open>The pool routines do not show in any queue.\<close>

lemma frame_items:
  assumes "mem_rel s g" "mem_rel s' g'" "frame s s'" "qch g' = qch g"
  shows "items s' q = items s q"
  by (rule items_transfer [OF assms(1,2)]) (use assms(3,4) in \<open>auto simp: frame_def\<close>)

lemma queue_empty_ok:
  assumes "lt_inv s" "queues s q = Some Q"
  shows "lthread_queue_empty q s = Some (items s q = [])"
proof -
  from assms(1) obtain g where R: "mem_rel s g" unfolding lt_inv_def by blast
  note C = queue_chain [OF R assms(2)]
  obtain a xs where c: "qch g q = a # xs" using C(3) by (cases "qch g q") auto
  have "lq_tail Q = lq_head Q \<longleftrightarrow> xs = []"
    using C c by (cases xs rule: rev_cases) auto
  then show ?thesis using items_eq [OF R assms(2)] c assms(2) by (simp add: lthread_queue_empty_def)
qed

subsection \<open>Linking a node to a queue\<close>

lemma queue_link_ok:
  assumes R: "mem_rel s g" and Q: "queues s q = Some Q"
    and N: "nodes s n = Some N" "own g n = Loose" "qn_pool N \<in> dom (pools s)" "qn_next N = NULL"
  defines "g' \<equiv> g\<lparr>own := (own g)(n := InQueue q), qch := (qch g)(q := qch g q @ [n])\<rparr>"
  obtains H where "nodes s (lq_head Q) = Some H" "lq_head Q \<noteq> n"
    "mem_rel (s\<lparr>nodes := (nodes s)(lq_head Q \<mapsto> H\<lparr>qn_next := n\<rparr>), queues := (queues s)(q \<mapsto> Q\<lparr>lq_head := n\<rparr>)\<rparr>) g'"
proof -
  note C = queue_chain [OF R Q] and D = mem_relD [OF R]
  have hin: "lq_head Q \<in> set (qch g q)" using C(3,5) last_in_set by metis
  then obtain H where H: "nodes s (lq_head Q) = Some H" using queue_node [OF R Q] by blast
  have oh: "own g (lq_head Q) = InQueue q" using C(2) hin by simp
  have ne: "lq_head Q \<noteq> n" using oh N by auto
  let ?s = "s\<lparr>nodes := (nodes s)(lq_head Q \<mapsto> H\<lparr>qn_next := n\<rparr>), queues := (queues s)(q \<mapsto> Q\<lparr>lq_head := n\<rparr>)\<rparr>"
  have n0: "n \<noteq> NULL" using D(1) N(1) by (metis option.distinct(1))
  have nin: "n \<notin> set (qch g q)" using C(2) [of n] N(2) by simp
  have nx: "nexts ?s = (nexts s)(last (qch g q) \<mapsto> n, n \<mapsto> NULL)"
    using ne C(5) N by (auto simp: nexts_def fun_eq_iff)
  have ch: "is_chain ?s (qch g q @ [n]) (lq_tail Q) n"
    using linked_snoc [OF C(7) C(3) C(6) nin] C nin by (simp add: is_chain_def nx)
  have same: "map_option qn_next (nodes ?s a) = map_option qn_next (nodes s a)"
    if "own g a \<noteq> InQueue q" for a using that oh by auto
  have "pool_rel ?s g' p P" if P: "pools ?s p = Some P" for p P
    by (rule pool_rel_transfer [OF D(3)]) (use P same N(2) in \<open>auto simp: g'_def pool_side_def\<close>)
  moreover have "queue_rel ?s g' q' Q'" if Q': "queues ?s q' = Some Q'" for q' Q'
  proof (cases "q' = q")
    case True
    have "own g' x = InQueue q \<longleftrightarrow> x \<in> set (qch g q @ [n])" for x
      using C(2) [of x] by (simp add: g'_def)
    moreover have "Q' = Q\<lparr>lq_head := n\<rparr>" using Q' True by simp
    ultimately show ?thesis using ch True by (simp add: queue_rel_def g'_def)
  next
    case False
    with Q' have "queues s q' = Some Q'" by simp
    then show ?thesis
      by (rule queue_rel_transfer [OF D(4)]) (use False same N(2) in \<open>auto simp: g'_def\<close>)
  qed
  moreover have "owned_ok ?s g'"
    by (rule owned_ok_transfer [OF D(5)]) (use N Q H ne in \<open>auto simp: g'_def split: if_splits\<close>)
  moreover have "lq_head Q \<noteq> NULL" using queue_node(2) [OF R Q hin] .
  ultimately have "mem_rel ?s g'"
    using D(1,2,6) n0 H by (auto simp: mem_rel_def allocated_def)
  with that H ne show ?thesis by blast
qed

text \<open>
  The contract of an insert, in every case: either a fresh node carries the datum at the end of
  \<open>q\<close>, or NULL comes back because the allocator refused a block, and nothing changed.
\<close>

definition insert_post :: "allocator \<Rightarrow> addr \<Rightarrow> addr \<Rightarrow> lmem \<Rightarrow> addr \<Rightarrow> lmem \<Rightarrow> bool" where
  "insert_post mal q d s n s' \<longleftrightarrow>
     lt_inv s' \<and> qframe s s' \<and> dom (queues s') = dom (queues s) \<and>
     (if n = NULL then refuses mal \<and> items s' = items s
      else items s' = (items s)(q := items s q @ [d]))"

lemma insert_sp_eq_mp: "lthread_queue_insert_sp = lthread_queue_insert_mp"
  by (intro ext) (simp add: lthread_queue_insert_sp_def lthread_queue_insert_mp_def)

lemma queue_insert_ok:
  assumes I: "lt_inv s" and F: "fresh_alloc mal" and P: "pool_ready s" and q: "q \<in> dom (queues s)"
  shows "\<exists>n s'. lthread_queue_insert_mp mal q d s = Some (n, s') \<and> insert_post mal q d s n s'"
proof -
  obtain g where R: "mem_rel s g" using I unfolding lt_inv_def by blast
  obtain n s1 g1 where A: "qnode_alloc mal s = Some (n, s1)" "alloc_post mal s g n s1 g1"
    using qnode_alloc_ok [OF R _ _ F] P unfolding pool_ready_def by blast
  then have m: "mem_rel s1 g1" "frame s s1" "gframe s g g1" by (simp_all add: alloc_post_def)
  have it: "items s1 = items s" using frame_items [OF R m(1,2)] m(3) by (auto simp: gframe_def)
  have qs: "queues s1 = queues s" using m(2) by (simp add: frame_def)
  show ?thesis
  proof (cases "n = NULL")
    case True
    then have "insert_post mal q d s n s1"
      using A(2) m it qs frame_qframe [OF m(2)] unfolding insert_post_def lt_inv_def alloc_post_def by auto
    with A(1) True show ?thesis by (simp add: lthread_queue_insert_mp_def)
  next
    case False
    then obtain N where l: "own g1 n = Loose" and N: "nodes s1 n = Some N" "qn_pool N \<in> dom (pools s1)"
      using A(2) unfolding alloc_post_def by blast
    obtain Q where Q: "queues s1 q = Some Q" using q qs by auto
    let ?N = "N\<lparr>qn_data := d, qn_next := NULL\<rparr>"
    let ?s2 = "s1\<lparr>nodes := (nodes s1)(n \<mapsto> ?N)\<rparr>"
    have R2: "mem_rel ?s2 g1" by (rule upd_loose [OF m(1) l False])
    have Q2: "queues ?s2 q = Some Q" using Q by simp
    let ?g3 = "g1\<lparr>own := (own g1)(n := InQueue q), qch := (qch g1)(q := qch g1 q @ [n])\<rparr>"
    obtain H where H: "nodes ?s2 (lq_head Q) = Some H" "lq_head Q \<noteq> n"
      and R3: "mem_rel (?s2\<lparr>nodes := (nodes ?s2)(lq_head Q \<mapsto> H\<lparr>qn_next := n\<rparr>), queues := (queues ?s2)(q \<mapsto> Q\<lparr>lq_head := n\<rparr>)\<rparr>) ?g3"
      by (rule queue_link_ok [OF R2 Q2, of n ?N]) (use l N in auto)
    let ?s3 = "?s2\<lparr>nodes := (nodes ?s2)(lq_head Q \<mapsto> H\<lparr>qn_next := n\<rparr>), queues := (queues ?s2)(q \<mapsto> Q\<lparr>lq_head := n\<rparr>)\<rparr>"
    have e: "lthread_queue_insert_mp mal q d s = Some (n, ?s3)"
      using A(1) False N Q H by (simp add: lthread_queue_insert_mp_def set_data_def set_next_def)
    have other: "items ?s3 q' = items s1 q'" if "q' \<noteq> q" for q'
      by (rule items_transfer [OF m(1) R3]) (use that l H in auto)
    have qn: "n \<notin> set (qch g1 q)" using queue_chain(2) [OF m(1) Q, of n] l by simp
    have "items ?s3 q = items s1 q @ [d]"
    proof -
      have Q3: "queues ?s3 q = Some (Q\<lparr>lq_head := n\<rparr>)" by simp
      let ?dat = "\<lambda>s a. case nodes s a of None \<Rightarrow> NULL | Some N \<Rightarrow> qn_data N"
      have "?dat ?s3 a = ?dat s1 a" if "a \<in> set (qch g1 q)" for a using that qn H by auto
      then have "map (?dat ?s3) (tl (qch g1 q)) = map (?dat s1) (tl (qch g1 q))"
        using queue_chain(3) [OF m(1) Q] by (cases "qch g1 q") auto
      moreover have "?dat ?s3 n = d" using H(2) by simp
      ultimately show ?thesis
        using items_eq [OF R3 Q3] items_eq [OF m(1) Q] queue_chain(3) [OF m(1) Q] by (simp add: tl_append2)
    qed
    with other it have "items ?s3 = (items s)(q := items s q @ [d])" by (auto simp: fun_eq_iff)
    moreover have "qframe s ?s3"
      using frame_qframe [OF m(2)] by (auto simp: qframe_def pool_ready_def)
    moreover have "dom (queues ?s3) = dom (queues s)" using Q qs by auto
    ultimately have "insert_post mal q d s n ?s3" using R3 False unfolding insert_post_def lt_inv_def by auto
    with e show ?thesis by blast
  qed
qed

subsection \<open>Polling\<close>

definition poll_post :: "addr \<Rightarrow> lmem \<Rightarrow> addr \<Rightarrow> lmem \<Rightarrow> bool" where
  "poll_post q s d s' \<longleftrightarrow>
     lt_inv s' \<and> qframe s s' \<and> dom (queues s') = dom (queues s) \<and>
     d = (case items s q of [] \<Rightarrow> NULL | x # _ \<Rightarrow> x) \<and> items s' = (items s)(q := tl (items s q))"

lemma queue_advance:
  assumes R: "mem_rel s g" and Q: "queues s q = Some Q" and c: "qch g q = a # b # xs"
  defines "g' \<equiv> g\<lparr>own := (own g)(a := Loose), qch := (qch g)(q := b # xs)\<rparr>"
    and "s' \<equiv> s\<lparr>queues := (queues s)(q \<mapsto> Q\<lparr>lq_tail := b\<rparr>)\<rparr>"
  shows "mem_rel s' g'" "own g a = InQueue q"
proof -
  note C = queue_chain [OF R Q] and D = mem_relD [OF R]
  show oa: "own g a = InQueue q" using C(2) c by simp
  have "pool_rel s' g' p P" if P: "pools s' p = Some P" for p P
    by (rule pool_rel_transfer [OF D(3)]) (use P oa in \<open>auto simp: g'_def s'_def pool_side_def\<close>)
  moreover have "queue_rel s' g' q' Q'" if Q': "queues s' q' = Some Q'" for q' Q'
  proof (cases "q' = q")
    case True
    then have Q'': "Q' = Q\<lparr>lq_tail := b\<rparr>" using Q' by (simp add: s'_def)
    have "is_chain s (b # xs) b (lq_head Q)" using C c by (auto simp: is_chain_def)
    then have "is_chain s' (b # xs) b (lq_head Q)" by (rule is_chain_frame) (simp add: s'_def)
    moreover have "own g' x = InQueue q \<longleftrightarrow> x \<in> set (b # xs)" for x
      using C(2) [of x] C(6) c by (auto simp: g'_def)
    ultimately show ?thesis using True Q'' by (simp add: queue_rel_def g'_def)
  next
    case False
    with Q' have "queues s q' = Some Q'" by (simp add: s'_def)
    then show ?thesis
      by (rule queue_rel_transfer [OF D(4)]) (use False oa in \<open>auto simp: g'_def s'_def\<close>)
  qed
  moreover have "owned_ok s' g'"
    by (rule owned_ok_transfer [OF D(5)]) (use Q in \<open>auto simp: s'_def g'_def split: if_splits\<close>)
  ultimately show "mem_rel s' g'" using D(1,2,6) by (simp add: mem_rel_def allocated_def s'_def)
qed

lemma queue_poll_ok:
  assumes I: "lt_inv s" and q: "q \<in> dom (queues s)"
  shows "\<exists>d s'. lthread_queue_poll q s = Some (d, s') \<and> poll_post q s d s'"
proof -
  obtain g where R: "mem_rel s g" using I unfolding lt_inv_def by blast
  obtain Q where Q: "queues s q = Some Q" using q by blast
  note C = queue_chain [OF R Q]
  obtain a xs where c: "qch g q = a # xs" using C(3) by (cases "qch g q") auto
  have a: "a = lq_tail Q" using C(4) c by simp
  have nx: "get_next a s = Some (case xs of [] \<Rightarrow> NULL | b # _ \<Rightarrow> b)"
    using C(7) c by (simp add: linked_hd get_next_def nexts_def)
  show ?thesis
  proof (cases xs)
    case Nil
    then have it: "items s q = []" using items_eq [OF R Q] c by simp
    then have "poll_post q s NULL s" using I by (auto simp: poll_post_def qframe_def fun_eq_iff)
    moreover have "lthread_queue_poll q s = Some (NULL, s)"
      using nx Nil a by (simp add: lthread_queue_poll_def Q Let_def)
    ultimately show ?thesis by blast
  next
    case (Cons b rest)
    let ?s1 = "s\<lparr>queues := (queues s)(q \<mapsto> Q\<lparr>lq_tail := b\<rparr>)\<rparr>"
    let ?g1 = "g\<lparr>own := (own g)(a := Loose), qch := (qch g)(q := b # rest)\<rparr>"
    note A = queue_advance [OF R Q c [unfolded Cons]]
    obtain N T where N: "nodes s b = Some N" and T: "nodes s a = Some T" "qn_pool T \<in> dom (pools s)"
      and b0: "b \<noteq> NULL" "a \<noteq> NULL"
      using queue_node [OF R Q, of b] queue_node [OF R Q, of a] c Cons by auto
    have ab: "a \<notin> set (b # rest)" using C(6) c Cons by simp
    let ?T = "T\<lparr>qn_data := qn_data N\<rparr>"
    let ?s2 = "?s1\<lparr>nodes := (nodes ?s1)(a \<mapsto> ?T)\<rparr>"
    have R2: "mem_rel ?s2 ?g1" by (rule upd_loose [OF A(1)]) (use b0 in simp_all)
    obtain s3 g3 where s3: "qnode_free a ?s2 = Some s3" "mem_rel s3 g3" "frame ?s2 s3" "qch g3 = qch ?g1"
      using qnode_free_ok [OF R2, of a ?T] T by auto
    have e: "lthread_queue_poll q s = Some (qn_data N, s3)"
      using nx Cons a b0 N T s3(1) by (simp add: lthread_queue_poll_def Q Let_def set_data_def)
    have it3: "items s3 = items ?s2" using frame_items [OF R2 s3(2,3,4)] by auto
    let ?dat = "\<lambda>s a. case nodes s a of None \<Rightarrow> NULL | Some N \<Rightarrow> qn_data N"
    have Q2: "queues ?s2 q = Some (Q\<lparr>lq_tail := b\<rparr>)" by simp
    have "map (?dat ?s2) rest = map (?dat s) rest" using ab by auto
    then have iq: "items ?s2 q = tl (items s q)" "items s q = qn_data N # map (?dat s) rest"
      using items_eq [OF R2 Q2] items_eq [OF R Q] c Cons N by simp_all
    have "items ?s2 q' = items s q'" if "q' \<noteq> q" for q'
      by (rule items_transfer [OF R R2]) (use that A(2) in auto)
    then have "items s3 = (items s)(q := tl (items s q))" using it3 iq by (auto simp: fun_eq_iff)
    moreover have "qframe ?s2 s3" by (rule frame_qframe [OF s3(3)])
    then have "qframe s s3" by (auto simp: qframe_def pool_ready_def)
    moreover have "dom (queues s3) = dom (queues s)" using s3(3) Q by (auto simp: frame_def)
    ultimately have "poll_post q s (qn_data N) s3" using s3(2) iq unfolding poll_post_def lt_inv_def by auto
    with e show ?thesis by blast
  qed
qed

subsection \<open>Removing\<close>

text \<open>\<open>_lthread_queue_remove\<close> returns, and skips the elements whose datum is NULL.\<close>

definition remove_queue_post :: "addr \<Rightarrow> lmem \<Rightarrow> addr \<Rightarrow> lmem \<Rightarrow> bool" where
  "remove_queue_post q s d s' \<longleftrightarrow>
     lt_inv s' \<and> qframe s s' \<and> dom (queues s') = dom (queues s) \<and>
     (let r = dropWhile (\<lambda>x. x = NULL) (items s q) in
      d = (case r of [] \<Rightarrow> NULL | x # _ \<Rightarrow> x) \<and> items s' = (items s)(q := tl r))"

lemma queue_remove_ok:
  assumes "lt_inv s" "q \<in> dom (queues s)"
  shows "\<exists>d s'. lthread_queue_remove q s = Some (d, s') \<and> remove_queue_post q s d s'"
  using assms
proof (induction "length (items s q)" arbitrary: s rule: less_induct)
  case less
  obtain d s1 where p: "lthread_queue_poll q s = Some (d, s1)" and post: "poll_post q s d s1"
    using queue_poll_ok [OF less.prems] by blast
  then have m: "lt_inv s1" "qframe s s1" "q \<in> dom (queues s1)" "dom (queues s1) = dom (queues s)"
    "items s1 = (items s)(q := tl (items s q))" "d = (case items s q of [] \<Rightarrow> NULL | x # _ \<Rightarrow> x)"
    using less.prems unfolding poll_post_def by auto
  from m(3) obtain Q1 where "queues s1 q = Some Q1" by blast
  note e = queue_empty_ok [OF m(1) this]
  show ?case
  proof (cases "d = NULL \<and> items s1 q \<noteq> []")
    case True
    then obtain xs where it: "items s q = NULL # xs" "items s1 q = xs"
      using m(5,6) by (cases "items s q") auto
    then obtain d' s' where r: "lthread_queue_remove q s1 = Some (d', s')" "remove_queue_post q s1 d' s'"
      using less.hyps [OF _ m(1,3)] by auto
    have "lthread_queue_remove q s = Some (d', s')"
      using p True e r(1) by (simp add: lthread_queue_remove.simps [of q s])
    moreover have "remove_queue_post q s d' s'"
      using r(2) it m qframe_trans [OF m(2)] unfolding remove_queue_post_def Let_def by auto
    ultimately show ?thesis by blast
  next
    case False
    then have "lthread_queue_remove q s = Some (d, s1)"
      using p e by (auto simp add: lthread_queue_remove.simps [of q s])
    moreover have "remove_queue_post q s d s1"
      using m False by (cases "items s q") (auto simp: remove_queue_post_def Let_def)
    ultimately show ?thesis by blast
  qed
qed

subsection \<open>Creating and destroying\<close>

lemma nexts_raw [simp]: "nexts (s\<lparr>raw := r\<rparr>) = nexts s"
  by (rule ext) (simp add: nexts_def)

lemma mem_rel_raw: "mem_rel s g \<Longrightarrow> finite r \<Longrightarrow> mem_rel (s\<lparr>raw := r\<rparr>) g"
proof -
  have "is_chain (s\<lparr>raw := r\<rparr>) = is_chain s" by (simp add: is_chain_def fun_eq_iff)
  then have "pool_rel (s\<lparr>raw := r\<rparr>) = pool_rel s" "queue_rel (s\<lparr>raw := r\<rparr>) = queue_rel s"
    "owned_ok (s\<lparr>raw := r\<rparr>) = owned_ok s"
    by (simp_all add: pool_rel_def queue_rel_def owned_ok_def fun_eq_iff)
  then show "mem_rel s g \<Longrightarrow> finite r \<Longrightarrow> mem_rel (s\<lparr>raw := r\<rparr>) g"
    by (simp add: mem_rel_def allocated_def)
qed

lemma finite_raw: "mem_rel s g \<Longrightarrow> finite (raw s)"
  using mem_relD(6) [of s g] by (simp add: allocated_def)

lemma items_raw [simp]: "items (s\<lparr>raw := r\<rparr>) = items s"
  by (rule ext) (simp add: items_def split: option.splits)

text \<open>A header over one loose node is an empty queue.\<close>

lemma queue_new_ok:
  fixes nm :: string
  assumes R: "mem_rel s g" and q: "queues s q = None"
    and N: "nodes s n = Some N" "own g n = Loose" "qn_pool N \<in> dom (pools s)" "qn_next N = NULL"
  defines "s' \<equiv> s\<lparr>queues := (queues s)(q \<mapsto> \<lparr>lq_head = n, lq_tail = n, lq_name = nm\<rparr>)\<rparr>"
    and "g' \<equiv> g\<lparr>own := (own g)(n := InQueue q), qch := (qch g)(q := [n])\<rparr>"
  shows "mem_rel s' g'" "items s' = (items s)(q := [])"
proof -
  note D = mem_relD [OF R]
  have nq: "own g a \<noteq> InQueue q" for a using D(5) q unfolding owned_ok_def by blast
  have "pool_rel s' g' p P" if P: "pools s' p = Some P" for p P
    by (rule pool_rel_transfer [OF D(3)]) (use P N in \<open>auto simp: g'_def s'_def pool_side_def\<close>)
  moreover have "queue_rel s' g' q' Q'" if Q': "queues s' q' = Some Q'" for q' Q'
  proof (cases "q' = q")
    case True
    then show ?thesis using Q' N nq by (auto simp: queue_rel_def is_chain_def nexts_def s'_def g'_def)
  next
    case False
    with Q' have "queues s q' = Some Q'" by (simp add: s'_def)
    then show ?thesis
      by (rule queue_rel_transfer [OF D(4)]) (use False N in \<open>auto simp: g'_def s'_def\<close>)
  qed
  moreover have "owned_ok s' g'"
    using D(5) N(1-3) unfolding owned_ok_def by (auto simp: s'_def g'_def pool_side_def)
  ultimately show R': "mem_rel s' g'" using D(1,2,6) by (simp add: mem_rel_def allocated_def s'_def)
  have "items s' q' = items s q'" if "q' \<noteq> q" for q'
    by (rule items_transfer [OF R R']) (use that N in \<open>auto simp: s'_def g'_def\<close>)
  moreover have "items s' q = []"
    using items_eq [OF R', of q] by (simp add: s'_def g'_def)
  ultimately show "items s' = (items s)(q := [])" by (auto simp: fun_eq_iff)
qed

definition create_post :: "lmem \<Rightarrow> addr \<Rightarrow> lmem \<Rightarrow> bool" where
  "create_post s q s' \<longleftrightarrow>
     q \<noteq> NULL \<and> q \<notin> allocated s \<and> lt_inv s' \<and> dom (queues s') = insert q (dom (queues s)) \<and>
     items s' = (items s)(q := []) \<and> (pool_ready s \<longrightarrow> pool_ready s') \<and>
     caches s' = caches s \<and> objs s' = objs s \<and> raw s' = raw s \<and> cur_pool s' = cur_pool s"

text \<open>What can happen: without a node the new queue writes through NULL.\<close>

lemma queue_create_cases:
  assumes I: "lt_inv s" and F: "fresh_alloc mal" and P: "pool_ready s"
  shows "refuses mal \<and> lthread_queue_create mal name s \<in> {None, Some (NULL, s)} \<or>
    (\<exists>q s'. lthread_queue_create mal name s = Some (q, s') \<and> create_post s q s' \<and> dom (pools s') = dom (pools s) \<and> dom (nodes s) \<subseteq> dom (nodes s'))"
proof -
  obtain g where R: "mem_rel s g" using I unfolding lt_inv_def by blast
  show ?thesis
  proof (cases "mal s")
    case None
    then have "refuses mal" using mem_relD(6) [OF R] unfolding refuses_def by blast
    with None show ?thesis by (simp add: lthread_queue_create_def)
  next
    case q: (Some q)
    have qa: "q \<noteq> NULL" "q \<notin> allocated s" using F q unfolding fresh_alloc_def by blast+
    let ?s = "s\<lparr>raw := insert q (raw s)\<rparr>"
    have R': "mem_rel ?s g" using mem_rel_raw [OF R] finite_raw [OF R] by simp
    obtain n s1 g1 where A: "qnode_alloc mal ?s = Some (n, s1)" "alloc_post mal ?s g n s1 g1"
      using qnode_alloc_ok [OF R' _ _ F] P unfolding pool_ready_def by auto
    then have m: "mem_rel s1 g1" "frame ?s s1" "gframe ?s g g1" by (simp_all add: alloc_post_def)
    show ?thesis
    proof (cases "n = NULL")
      case True
      then have "refuses mal" using A(2) by (auto simp: alloc_post_def)
      moreover have "lthread_queue_create mal name s = None"
        using A(1) q True mem_relD(1) [OF m(1)] by (simp add: lthread_queue_create_def set_next_def Let_def)
      ultimately show ?thesis by simp
    next
      case n: False
      then have l: "own g1 n = Loose" using A(2) by (auto simp: alloc_post_def)
      obtain N where N: "nodes s1 n = Some N" "qn_pool N \<in> dom (pools s1)"
        using A(2) n unfolding alloc_post_def by blast
      let ?N = "N\<lparr>qn_next := NULL\<rparr>"
      let ?s2 = "s1\<lparr>nodes := (nodes s1)(n \<mapsto> ?N), raw := raw s1 - {q}\<rparr>"
      have R2: "mem_rel ?s2 g1" using mem_rel_raw [OF upd_loose [OF m(1) l n, of ?N]] finite_raw [OF m(1)] by simp
      have qs: "queues s1 = queues s" using m(2) by (simp add: frame_def)
      have nq: "queues ?s2 q = None" using qs qa by (auto simp: allocated_def)
      let ?s3 = "?s2\<lparr>queues := (queues ?s2)(q \<mapsto> \<lparr>lq_head = n, lq_tail = n, lq_name = copy_name name\<rparr>)\<rparr>"
      note W = queue_new_ok [OF R2 nq, of n ?N "copy_name name"]
      have e: "lthread_queue_create mal name s = Some (q, ?s3)"
        using A(1) q N by (simp add: lthread_queue_create_def set_next_def Let_def)
      have "items s1 = items s" using frame_items [OF R' m(1,2)] m(3) by (auto simp: gframe_def)
      moreover have "items ?s2 q' = items s1 q'" for q'
        by (rule items_transfer [OF m(1) R2]) (use l in auto)
      ultimately have "items ?s3 = (items s)(q := [])" using W(2) N l by (simp add: fun_eq_iff)
      moreover have "lt_inv ?s3" using W(1) N l unfolding lt_inv_def by auto
      moreover have "pool_ready ?s3"
        using frame_ready [OF m(2)] P by (simp add: pool_ready_def)
      moreover have "caches ?s3 = caches s" "objs ?s3 = objs s" "raw ?s3 = raw s" "cur_pool ?s3 = cur_pool s"
        using m(2) qa by (auto simp: frame_def allocated_def)
      moreover have "dom (queues ?s3) = insert q (dom (queues s))" using qs by auto
      ultimately have "create_post s q ?s3" using qa unfolding create_post_def by (intro conjI) simp_all
      moreover have "dom (pools ?s3) = dom (pools s)" "dom (nodes s) \<subseteq> dom (nodes ?s3)"
        using m(2) frame_dom [OF m(2)] by (auto simp: frame_def)
      ultimately show ?thesis using e by blast
    qed
  qed
qed

lemma queue_create_ok:
  assumes "lt_inv s" "fresh_alloc mal" "pool_ready s" "\<not> refuses mal"
  shows "\<exists>q s'. lthread_queue_create mal name s = Some (q, s') \<and> create_post s q s'"
  using queue_create_cases [OF assms(1-3)] assms(4) by blast

lemma qnode_free_queues:
  "qnode_free n (s\<lparr>queues := X\<rparr>) = map_option (\<lambda>s. s\<lparr>queues := X\<rparr>) (qnode_free n s)"
  by (auto simp: qnode_free_def qnode_pool_insert_def set_next_def upd_pool_def Let_def split: bind_splits)

lemma queue_forget_ok:
  assumes R: "mem_rel s g" and Q: "queues s q = Some Q" and c: "qch g q = [a]"
  defines "s' \<equiv> s\<lparr>queues := (queues s)(q := None)\<rparr>" and "g' \<equiv> g\<lparr>own := (own g)(a := Loose)\<rparr>"
  shows "mem_rel s' g'" "items s' = items s"
proof -
  note D = mem_relD [OF R] and C = queue_chain [OF R Q]
  have oa: "own g x = InQueue q \<longleftrightarrow> x = a" for x using C(2) c by simp
  have "pool_rel s' g' p P" if P: "pools s' p = Some P" for p P
    by (rule pool_rel_transfer [OF D(3)]) (use P oa [of a] in \<open>auto simp: g'_def s'_def pool_side_def\<close>)
  moreover have "queue_rel s' g' q' Q'" if Q': "queues s' q' = Some Q'" for q' Q'
  proof -
    have q': "q' \<noteq> q" "queues s q' = Some Q'" using Q' by (auto simp: s'_def split: if_splits)
    show ?thesis
      by (rule queue_rel_transfer [OF D(4) [OF q'(2)]]) (use q' oa [of a] in \<open>auto simp: g'_def s'_def\<close>)
  qed
  moreover have "owned_ok s' g'"
    using D(5) oa unfolding owned_ok_def by (auto simp: s'_def g'_def pool_side_def)
  ultimately show R': "mem_rel s' g'" using D(1,2,6) by (simp add: mem_rel_def allocated_def s'_def)
  have "items s' q' = items s q'" if "q' \<noteq> q" for q'
    by (rule items_transfer [OF R R']) (use that in \<open>auto simp: s'_def g'_def\<close>)
  moreover have "items s' q = items s q" using items_eq [OF R Q] c by (simp add: s'_def items_def)
  ultimately show "items s' = items s" by (metis ext)
qed

text \<open>Destroying: refused with \<open>-1\<close> while the queue holds an element; else header and dummy go.\<close>

lemma queue_destroy_ok:
  assumes I: "lt_inv s" and q: "queues s q = Some Q" "q \<noteq> NULL"
  shows "items s q \<noteq> [] \<Longrightarrow> lthread_queue_destroy q s = Some (-1, s)"
    "items s q = [] \<Longrightarrow> \<exists>s'. lthread_queue_destroy q s = Some (0, s') \<and> lt_inv s' \<and>
       dom (queues s') = dom (queues s) - {q} \<and> items s' = items s \<and> (pool_ready s \<longrightarrow> pool_ready s')"
proof -
  note e = queue_empty_ok [OF I q(1)]
  show "lthread_queue_destroy q s = Some (-1, s)" if "items s q \<noteq> []"
    using that e q by (simp add: lthread_queue_destroy_def)
  show "\<exists>s'. lthread_queue_destroy q s = Some (0, s') \<and> lt_inv s' \<and>
       dom (queues s') = dom (queues s) - {q} \<and> items s' = items s \<and> (pool_ready s \<longrightarrow> pool_ready s')"
    if it: "items s q = []"
  proof -
    obtain g where R: "mem_rel s g" using I unfolding lt_inv_def by blast
    note C = queue_chain [OF R q(1)]
    obtain a where c: "qch g q = [a]" using it items_eq [OF R q(1)] C(3) by (cases "qch g q") auto
    then have a: "lq_head Q = a" using C(5) by simp
    obtain N where N: "nodes s a = Some N" "qn_pool N \<in> dom (pools s)" using queue_node [OF R q(1)] c by auto
    let ?s = "s\<lparr>queues := (queues s)(q := None)\<rparr>"
    note W = queue_forget_ok [OF R q(1) c]
    obtain s1 g1 where s1: "qnode_free a ?s = Some s1" "mem_rel s1 g1" "frame ?s s1" "qch g1 = qch g"
      using qnode_free_ok [OF W(1), of a N] N by auto
    from s1(1) obtain s2 where s2: "qnode_free a s = Some s2" "s1 = s2\<lparr>queues := (queues s)(q := None)\<rparr>"
      by (auto simp: qnode_free_queues)
    have "queues s2 = queues s" using s2(1)
      by (auto simp: qnode_free_def qnode_pool_insert_def set_next_def upd_pool_def Let_def split: bind_splits if_splits)
    then have "lthread_queue_destroy q s = Some (0, s1)"
      using e q a it s2 by (simp add: lthread_queue_destroy_def)
    moreover have "items s1 = items s" using frame_items [OF W(1) s1(2,3)] s1(4) W(2) by auto
    moreover have "pool_ready s \<Longrightarrow> pool_ready s1" using frame_ready [OF s1(3)] by (simp add: pool_ready_def)
    moreover have "dom (queues s1) = dom (queues s) - {q}" using s1(3) by (auto simp: frame_def)
    ultimately show ?thesis using s1(2) unfolding lt_inv_def by blast
  qed
qed

subsection \<open>The interface the clients of the queues use\<close>

text \<open>A run of queue operations, with what each poll gave.\<close>

datatype qop = QInsert addr addr | QPoll addr

fun run_qops ::
  "(addr \<Rightarrow> addr \<Rightarrow> 's \<Rightarrow> (addr \<times> 's) option) \<Rightarrow> (addr \<Rightarrow> 's \<Rightarrow> (addr \<times> 's) option) \<Rightarrow>
   qop list \<Rightarrow> 's \<Rightarrow> ((addr \<times> addr) list \<times> (addr \<times> addr) list \<times> 's) option" where
  "run_qops ins poll [] s = Some ([], [], s)"
| "run_qops ins poll (QInsert q d # ops) s = do {
     (n, s) \<leftarrow> ins q d s;
     (i, p, s) \<leftarrow> run_qops ins poll ops s;
     Some (if n = NULL then i else (q, d) # i, p, s) }"
| "run_qops ins poll (QPoll q # ops) s = do {
     (d, s) \<leftarrow> poll q s;
     (i, p, s) \<leftarrow> run_qops ins poll ops s;
     Some (i, if d = NULL then p else (q, d) # p, s) }"

definition sent :: "addr \<Rightarrow> (addr \<times> addr) list \<Rightarrow> addr list" where
  "sent q l = map snd (filter (\<lambda>e. fst e = q) l)"

lemma sent_simps [simp]:
  "sent q [] = []" "sent q ((q', d) # l) = (if q' = q then d # sent q l else sent q l)"
  by (simp_all add: sent_def)

fun op_queue :: "qop \<Rightarrow> addr" where
  "op_queue (QInsert q d) = q"
| "op_queue (QPoll q) = q"

definition ops_ok :: "addr set \<Rightarrow> qop list \<Rightarrow> bool" where
  "ops_ok L ops \<longleftrightarrow> (\<forall>x\<in>set ops. op_queue x \<in> L \<and> (\<forall>q. x \<noteq> QInsert q NULL))"

lemma ops_ok_Cons [simp]:
  "ops_ok L (QInsert q d # ops) \<longleftrightarrow> q \<in> L \<and> d \<noteq> NULL \<and> ops_ok L ops"
  "ops_ok L (QPoll q # ops) \<longleftrightarrow> q \<in> L \<and> ops_ok L ops"
  by (auto simp: ops_ok_def)

text \<open>
  A store of FIFO queues: inserts append or refuse, a poll takes the oldest element or gives NULL
  on an empty queue, the emptiness test tells the truth; every operation returns.
\<close>

locale fifo_store =
  fixes ins :: "addr \<Rightarrow> addr \<Rightarrow> 's \<Rightarrow> (addr \<times> 's) option"
    and poll :: "addr \<Rightarrow> 's \<Rightarrow> (addr \<times> 's) option"
    and isempty :: "addr \<Rightarrow> 's \<Rightarrow> bool option"
    and elems :: "'s \<Rightarrow> addr \<Rightarrow> addr list"
    and live :: "'s \<Rightarrow> addr set"
    and ok :: "'s \<Rightarrow> bool"
  assumes ins_law: "ok s \<Longrightarrow> q \<in> live s \<Longrightarrow> \<exists>n s'. ins q d s = Some (n, s') \<and> ok s' \<and> live s' = live s \<and>
      elems s' = (if n = NULL then elems s else (elems s)(q := elems s q @ [d]))"
    and poll_law: "ok s \<Longrightarrow> q \<in> live s \<Longrightarrow> \<exists>s'. ok s' \<and> live s' = live s \<and> elems s' = (elems s)(q := tl (elems s q)) \<and>
      poll q s = Some (case elems s q of [] \<Rightarrow> NULL | x # _ \<Rightarrow> x, s')"
    and empty_law: "ok s \<Longrightarrow> q \<in> live s \<Longrightarrow> isempty q s = Some (elems s q = [])"
begin

text \<open>Whatever the interleaving of operations on whatever queues: nothing is lost, nothing is
  delivered twice, and each queue delivers in the order of its inserts.\<close>

lemma conservation:
  assumes "ok s" "ops_ok (live s) ops" "\<And>q. NULL \<notin> set (elems s q)"
  shows "\<exists>i p s'. run_qops ins poll ops s = Some (i, p, s') \<and> ok s' \<and> live s' = live s \<and>
    (\<forall>q. elems s q @ sent q i = sent q p @ elems s' q)"
  using assms
proof (induction ops arbitrary: s)
  case Nil
  then show ?case by simp
next
  case (Cons x ops)
  show ?case
  proof (cases x)
    case (QInsert q d)
    obtain n s1 where s1: "ins q d s = Some (n, s1)" "ok s1" "live s1 = live s"
      "elems s1 = (if n = NULL then elems s else (elems s)(q := elems s q @ [d]))"
      using ins_law [of s q d] Cons.prems QInsert by auto
    have "NULL \<notin> set (elems s1 q')" for q' using s1(4) Cons.prems QInsert by auto
    then obtain i p s' where r: "run_qops ins poll ops s1 = Some (i, p, s')" "ok s'" "live s' = live s"
      "\<forall>q. elems s1 q @ sent q i = sent q p @ elems s' q"
      using Cons.IH [of s1] Cons.prems s1 QInsert by auto
    have "elems s q' @ sent q' (if n = NULL then i else (q, d) # i) = sent q' p @ elems s' q'" for q'
      using r(4) [rule_format, of q'] s1(4) by auto
    then show ?thesis using s1 r by (auto simp: QInsert)
  next
    case (QPoll q)
    define d where "d = (case elems s q of [] \<Rightarrow> NULL | x # _ \<Rightarrow> x)"
    obtain s1 where s1: "poll q s = Some (d, s1)" "ok s1" "live s1 = live s" "elems s1 = (elems s)(q := tl (elems s q))"
      using poll_law [of s q] Cons.prems QPoll d_def by auto
    have "NULL \<notin> set (elems s1 q')" for q'
      using s1(4) Cons.prems(3) [of q'] Cons.prems(3) [of q] by (cases "elems s q") auto
    then obtain i p s' where r: "run_qops ins poll ops s1 = Some (i, p, s')" "ok s'" "live s' = live s"
      "\<forall>q. elems s1 q @ sent q i = sent q p @ elems s' q"
      using Cons.IH [of s1] Cons.prems s1 QPoll by auto
    have "elems s q' @ sent q' i = sent q' (if d = NULL then p else (q, d) # p) @ elems s' q'" for q'
      using r(4) [rule_format, of q'] s1(4) Cons.prems(3) [of q] by (cases "elems s q") (auto simp: d_def split: if_splits)
    then show ?thesis using s1 r by (auto simp: QPoll)
  qed
qed

text \<open>No starvation: the element with \<open>k\<close> others before it is the \<open>k+1\<close>st one polled.\<close>

lemma kth_poll:
  assumes "ok s" "q \<in> live s" "NULL \<notin> set (elems s q)" "k < length (elems s q)"
  shows "\<exists>i p s'. run_qops ins poll (replicate (Suc k) (QPoll q)) s = Some (i, p, s') \<and> snd (last p) = elems s q ! k \<and>
    elems s' q = drop (Suc k) (elems s q)"
  using assms
proof (induction k arbitrary: s)
  case 0
  then obtain x xs where c: "elems s q = x # xs" "x \<noteq> NULL" by (cases "elems s q") auto
  with poll_law [OF 0(1,2)] show ?case by auto
next
  case (Suc k)
  then obtain x xs where c: "elems s q = x # xs" "x \<noteq> NULL" by (cases "elems s q") auto
  obtain s1 where s1: "poll q s = Some (x, s1)" "ok s1" "live s1 = live s" "elems s1 q = xs"
    using poll_law [OF Suc.prems(1,2)] c by auto
  obtain i p s' where r: "run_qops ins poll (replicate (Suc k) (QPoll q)) s1 = Some (i, p, s')"
    "snd (last p) = xs ! k" "elems s' q = drop (Suc k) xs"
    using Suc.IH [of s1] Suc.prems s1 c by auto
  have "p \<noteq> []"
  proof -
    obtain y ys where "xs = y # ys" "y \<noteq> NULL" using Suc.prems c by (cases xs) auto
    moreover from this s1 poll_law [OF s1(2), of q] Suc.prems(2) obtain s2 where "poll q s1 = Some (y, s2)" by auto
    ultimately show ?thesis using r(1) by (auto split: bind_splits)
  qed
  moreover have "run_qops ins poll (replicate (Suc (Suc k)) (QPoll q)) s = Some (i, (q, x) # p, s')"
    unfolding replicate_Suc [of "Suc k"] run_qops.simps using s1(1) c(2) by (simp add: r(1) del: replicate_Suc)
  ultimately show ?case using r c by auto
qed

end

definition fifo_ok :: "allocator \<Rightarrow> lmem \<Rightarrow> bool" where
  "fifo_ok mal s \<longleftrightarrow> lt_inv s \<and> pool_ready s \<and> fresh_alloc mal"

interpretation ltq: fifo_store "lthread_queue_insert_mp mal" lthread_queue_poll lthread_queue_empty
  items "\<lambda>s. dom (queues s)" "fifo_ok mal" for mal
proof
  fix s q d
  assume s: "fifo_ok mal s" "q \<in> dom (queues s)"
  then show "\<exists>n s'. lthread_queue_insert_mp mal q d s = Some (n, s') \<and> fifo_ok mal s' \<and>
      dom (queues s') = dom (queues s) \<and> items s' = (if n = NULL then items s else (items s)(q := items s q @ [d]))"
    using queue_insert_ok [of s mal q d] unfolding insert_post_def fifo_ok_def qframe_def by metis
  show "\<exists>s'. fifo_ok mal s' \<and> dom (queues s') = dom (queues s) \<and> items s' = (items s)(q := tl (items s q)) \<and>
      lthread_queue_poll q s = Some (case items s q of [] \<Rightarrow> NULL | x # _ \<Rightarrow> x, s')"
    using queue_poll_ok [of s q] s unfolding poll_post_def fifo_ok_def qframe_def by metis
  show "lthread_queue_empty q s = Some (items s q = [])"
    using queue_empty_ok [of s q] s unfolding fifo_ok_def by blast
qed

end
