(* ===== verification/Lthread_Objcache.thy ===== *)
theory Lthread_Objcache
  imports Lthread_Queue
begin

section \<open>Object caches (lib/liblthread_dpdk/lthread_objcache.h)\<close>

text \<open>
  A cache of objects of one size: a queue of free objects, refilled \<open>prealloc_size\<close> at a time from
  the allocator. The lthread scheduler keeps its threads, stacks, key areas, condition variables
  and mutexes in such caches. \<open>rte_zmalloc_socket\<close> is the allocator parameter with the object
  entered in \<open>objs\<close>.
\<close>

definition malloc_obj :: "allocator \<Rightarrow> nat \<Rightarrow> lmem \<Rightarrow> addr \<times> lmem" where
  "malloc_obj mal sz s =
     (case mal s of None \<Rightarrow> (NULL, s) | Some a \<Rightarrow> (a, s\<lparr>objs := (objs s)(a \<mapsto> sz)\<rparr>))"

definition lthread_objcache_create ::
  "allocator \<Rightarrow> string \<Rightarrow> nat \<Rightarrow> int \<Rightarrow> lmem \<Rightarrow> (addr \<times> lmem) option" where
  "lthread_objcache_create mal name obj_size prealloc_size s =
     (case mal s of None \<Rightarrow> Some (NULL, s)
      | Some c \<Rightarrow> do {
          let s = s\<lparr>raw := insert c (raw s)\<rparr>;
          (q, s) \<leftarrow> lthread_queue_create mal ''cache queue'' s;
          if q = NULL then Some (NULL, s\<lparr>raw := raw s - {c}\<rparr>)
          else Some (c, s\<lparr>raw := raw s - {c}, caches := (caches s)(c \<mapsto>
            \<lparr>oc_q = q, oc_obj_size = obj_size, oc_prealloc_size = prealloc_size, oc_name = copy_name name\<rparr>)\<rparr>) })"

definition lthread_objcache_destroy :: "addr \<Rightarrow> lmem \<Rightarrow> (int \<times> lmem) option" where
  "lthread_objcache_destroy c s = do {
     C \<leftarrow> caches s c;
     (r, s) \<leftarrow> lthread_queue_destroy (oc_q C) s;
     if r = 0 then Some (0, s\<lparr>caches := (caches s)(c := None)\<rparr>)
     else Some (-1, s) }"

text \<open>The refill loop of \<open>_lthread_objcache_alloc\<close>; the result of the insert is ignored, the flag is
  False when an object could not be allocated and the routine returns NULL.\<close>

fun refill :: "allocator \<Rightarrow> addr \<Rightarrow> nat \<Rightarrow> nat \<Rightarrow> lmem \<Rightarrow> (bool \<times> lmem) option" where
  "refill mal q sz 0 s = Some (True, s)"
| "refill mal q sz (Suc i) s =
     (let (data, s) = malloc_obj mal sz s in
      if data = NULL then Some (False, s)
      else do {
        (n, s) \<leftarrow> lthread_queue_insert_mp mal q data s;
        refill mal q sz i s })"

definition lthread_objcache_alloc :: "allocator \<Rightarrow> addr \<Rightarrow> lmem \<Rightarrow> (addr \<times> lmem) option" where
  "lthread_objcache_alloc mal c s = do {
     C \<leftarrow> caches s c;
     let q = oc_q C;
     (data, s) \<leftarrow> lthread_queue_remove q s;
     if data = NULL then do {
       (ok, s) \<leftarrow> refill mal q (oc_obj_size C) (nat (oc_prealloc_size C)) s;
       if \<not> ok then Some (NULL, s) else lthread_queue_remove q s }
     else Some (data, s) }"

definition lthread_objcache_free :: "allocator \<Rightarrow> addr \<Rightarrow> addr \<Rightarrow> lmem \<Rightarrow> lmem option" where
  "lthread_objcache_free mal c obj s = do {
     C \<leftarrow> caches s c;
     (n, s) \<leftarrow> lthread_queue_insert_mp mal (oc_q C) obj s;
     Some s }"

subsection \<open>Invariant\<close>

text \<open>Every cache has its own queue, and that queue holds distinct objects.\<close>

definition cached :: "lmem \<Rightarrow> addr \<Rightarrow> addr list" where
  "cached s c = (case caches s c of None \<Rightarrow> [] | Some C \<Rightarrow> items s (oc_q C))"

definition cache_inv :: "lmem \<Rightarrow> bool" where
  "cache_inv s \<longleftrightarrow> lt_inv s \<and> pool_ready s \<and>
     (\<forall>c C. caches s c = Some C \<longrightarrow> oc_q C \<in> dom (queues s) \<and> oc_q C \<noteq> NULL \<and>
        distinct (items s (oc_q C)) \<and> set (items s (oc_q C)) \<subseteq> dom (objs s)) \<and>
     (\<forall>c d C D. caches s c = Some C \<longrightarrow> caches s d = Some D \<longrightarrow> c \<noteq> d \<longrightarrow>
        oc_q C \<noteq> oc_q D \<and> set (items s (oc_q C)) \<inter> set (items s (oc_q D)) = {}) \<and>
     NULL \<notin> dom (objs s)"

lemma nexts_objs [simp]: "nexts (s\<lparr>objs := x\<rparr>) = nexts s"
  by (rule ext) (simp add: nexts_def)

lemma mem_rel_objs: "mem_rel s g \<Longrightarrow> finite (dom x) \<Longrightarrow> mem_rel (s\<lparr>objs := x\<rparr>) g"
proof -
  have "is_chain (s\<lparr>objs := x\<rparr>) = is_chain s" by (simp add: is_chain_def fun_eq_iff)
  then have "pool_rel (s\<lparr>objs := x\<rparr>) = pool_rel s" "queue_rel (s\<lparr>objs := x\<rparr>) = queue_rel s"
    "owned_ok (s\<lparr>objs := x\<rparr>) = owned_ok s"
    by (simp_all add: pool_rel_def queue_rel_def owned_ok_def fun_eq_iff)
  then show "mem_rel s g \<Longrightarrow> finite (dom x) \<Longrightarrow> mem_rel (s\<lparr>objs := x\<rparr>) g"
    by (simp add: mem_rel_def allocated_def)
qed

lemma items_objs [simp]: "items (s\<lparr>objs := x\<rparr>) = items s"
  by (rule ext) (simp add: items_def split: option.splits)

lemma malloc_obj_ok:
  assumes I: "lt_inv s" and F: "fresh_alloc mal" and m: "mal s = Some a"
  shows "malloc_obj mal sz s = (a, s\<lparr>objs := (objs s)(a \<mapsto> sz)\<rparr>)" "a \<noteq> NULL" "a \<notin> dom (objs s)"
    "lt_inv (s\<lparr>objs := (objs s)(a \<mapsto> sz)\<rparr>)"
proof -
  show "malloc_obj mal sz s = (a, s\<lparr>objs := (objs s)(a \<mapsto> sz)\<rparr>)" by (simp add: malloc_obj_def m)
  show "a \<noteq> NULL" "a \<notin> dom (objs s)" using F m unfolding fresh_alloc_def allocated_def by auto
  obtain g where R: "mem_rel s g" using I unfolding lt_inv_def by blast
  have "finite (dom (objs s))" using mem_relD(6) [OF R] by (simp add: allocated_def)
  then show "lt_inv (s\<lparr>objs := (objs s)(a \<mapsto> sz)\<rparr>)"
    using mem_rel_objs [OF R, of "(objs s)(a \<mapsto> sz)"] unfolding lt_inv_def by auto
qed

text \<open>\<open>i\<close> rounds of the refill: all of them when the allocator never refuses.\<close>

lemma refill_ok:
  assumes F: "fresh_alloc mal" and s: "lt_inv s" "pool_ready s" "q \<in> dom (queues s)"
  shows "\<exists>ok s' new. refill mal q sz i s = Some (ok, s') \<and> lt_inv s' \<and> pool_ready s' \<and> dom (queues s') = dom (queues s) \<and>
    caches s' = caches s \<and> raw s' = raw s \<and> items s' = (items s)(q := items s q @ new) \<and> distinct new \<and> set new \<inter> dom (objs s) = {} \<and>
    NULL \<notin> set new \<and> set new \<subseteq> dom (objs s') \<and> dom (objs s) \<subseteq> dom (objs s') \<and> NULL \<notin> dom (objs s') - dom (objs s) \<and>
    (\<not> refuses mal \<longrightarrow> ok \<and> length new = i)"
  using s
proof (induction i arbitrary: s)
  case 0
  then show ?case by (intro exI [of _ True] exI [of _ s] exI [of _ "[]"]) simp
next
  case (Suc i)
  show ?case
  proof (cases "mal s")
    case None
    obtain g where "mem_rel s g" using Suc.prems unfolding lt_inv_def by blast
    then have "refuses mal" using None mem_relD(6) unfolding refuses_def by blast
    with None Suc.prems show ?thesis
      by (intro exI [of _ False] exI [of _ s] exI [of _ "[]"]) (simp add: malloc_obj_def)
  next
    case (Some a)
    let ?s = "s\<lparr>objs := (objs s)(a \<mapsto> sz)\<rparr>"
    note M = malloc_obj_ok(1) [OF Suc.prems(1) F Some, where sz = sz] malloc_obj_ok(2,3) [OF Suc.prems(1) F Some]
      malloc_obj_ok(4) [OF Suc.prems(1) F Some, where sz = sz]
    have P: "pool_ready ?s" and q: "q \<in> dom (queues ?s)" using Suc.prems by (simp_all add: pool_ready_def)
    obtain n s1 where i: "lthread_queue_insert_mp mal q a ?s = Some (n, s1)" "insert_post mal q a ?s n s1"
      using queue_insert_ok [OF M(4) F P q] by blast
    then have s1: "lt_inv s1" "pool_ready s1" "dom (queues s1) = dom (queues s)" "objs s1 = objs ?s"
      "caches s1 = caches s" "raw s1 = raw s"
      "items s1 = (if n = NULL then items s else (items s)(q := items s q @ [a]))" "n = NULL \<longrightarrow> refuses mal"
      using P unfolding insert_post_def qframe_def by (auto split: if_splits)
    obtain ok s' new where r: "refill mal q sz i s1 = Some (ok, s')" "lt_inv s'" "pool_ready s'"
      "dom (queues s') = dom (queues s1)" "caches s' = caches s1" "raw s' = raw s1"
      "items s' = (items s1)(q := items s1 q @ new)" "distinct new" "set new \<inter> dom (objs s1) = {}" "NULL \<notin> set new"
      "set new \<subseteq> dom (objs s')" "dom (objs s1) \<subseteq> dom (objs s')" "NULL \<notin> dom (objs s') - dom (objs s1)"
      "\<not> refuses mal \<longrightarrow> ok \<and> length new = i"
      using Suc.IH [OF s1(1,2)] Suc.prems(3) s1(3) by metis
    let ?new = "if n = NULL then new else a # new"
    have ann: "a \<notin> set new" using r(9) s1(4) by auto
    have "refill mal q sz (Suc i) s = Some (ok, s')" using M(1,2) i(1) r(1) by simp
    moreover have "items s' = (items s)(q := items s q @ ?new)" using r(7) s1(7) by (auto simp: fun_eq_iff)
    moreover have "distinct ?new" "set ?new \<inter> dom (objs s) = {}" "NULL \<notin> set ?new" "set ?new \<subseteq> dom (objs s')"
      "dom (objs s) \<subseteq> dom (objs s')" "NULL \<notin> dom (objs s') - dom (objs s)"
      using r s1 M ann by auto
    moreover have "\<not> refuses mal \<longrightarrow> ok \<and> length ?new = Suc i" using r(14) s1(8) by auto
    ultimately show ?thesis using r(2-6) s1 by (intro exI [of _ ok] exI [of _ s'] exI [of _ ?new]) simp
  qed
qed

lemma cache_invD:
  assumes "cache_inv s" "caches s c = Some C"
  shows "lt_inv s" "pool_ready s" "oc_q C \<in> dom (queues s)" "oc_q C \<noteq> NULL" "distinct (items s (oc_q C))"
    "set (items s (oc_q C)) \<subseteq> dom (objs s)" "NULL \<notin> set (items s (oc_q C))" "NULL \<notin> dom (objs s)"
    "\<And>d D. caches s d = Some D \<Longrightarrow> c \<noteq> d \<Longrightarrow> oc_q C \<noteq> oc_q D \<and> set (items s (oc_q C)) \<inter> set (items s (oc_q D)) = {}"
  using assms unfolding cache_inv_def by blast+

text \<open>One cache's queue changes to \<open>xs\<close>, made of its own objects, of free objects and new ones.\<close>

lemma cache_inv_step:
  assumes I: "cache_inv s" and C: "caches s c = Some C" and s': "lt_inv s'" "pool_ready s'" "caches s' = caches s"
    "dom (queues s') = dom (queues s)" "items s' = (items s)(oc_q C := xs)" "dom (objs s) \<subseteq> dom (objs s')"
    "NULL \<notin> dom (objs s')" and xs: "distinct xs" "set xs \<subseteq> dom (objs s')"
    "\<And>d D. caches s d = Some D \<Longrightarrow> c \<noteq> d \<Longrightarrow> set xs \<inter> set (items s (oc_q D)) = {}"
  shows "cache_inv s'"
proof -
  have one: "oc_q D \<in> dom (queues s') \<and> oc_q D \<noteq> NULL \<and> distinct (items s' (oc_q D)) \<and> set (items s' (oc_q D)) \<subseteq> dom (objs s')"
    if D: "caches s' d = Some D" for d D
  proof (cases "oc_q D = oc_q C")
    case True
    then show ?thesis using cache_invD(3,4) [OF I C] s' xs by simp
  next
    case False
    have D': "caches s d = Some D" using D s'(3) by simp
    show ?thesis using cache_invD(3-6) [OF I D'] s' False by auto
  qed
  have two: "oc_q D \<noteq> oc_q E \<and> set (items s' (oc_q D)) \<inter> set (items s' (oc_q E)) = {}"
    if D: "caches s' d = Some D" "caches s' e = Some E" "d \<noteq> e" for d e D E
  proof -
    have D': "caches s d = Some D" "caches s e = Some E" using D s'(3) by simp_all
    have ne: "f \<noteq> c \<longleftrightarrow> oc_q F \<noteq> oc_q C" if "caches s f = Some F" for f F
      using cache_invD(9) [OF I C that] C that by (cases "f = c") auto
    show ?thesis
      using cache_invD(9) [OF I D' D(3)] ne [OF D'(1)] ne [OF D'(2)] xs(3) [OF D'(1)] xs(3) [OF D'(2)] s'(5) D(3)
      by (cases "d = c"; cases "e = c") auto
  qed
  show ?thesis unfolding cache_inv_def using one two s'(1,2,7) by blast
qed

text \<open>
  The contract of \<open>_lthread_objcache_alloc\<close>: the oldest cached object; from an empty cache a new
  object, \<open>prealloc_size - 1\<close> more staying behind, when the allocator does not refuse; the object
  handed out is in no cache.
\<close>

definition cache_alloc_post :: "allocator \<Rightarrow> addr \<Rightarrow> lmem \<Rightarrow> addr \<Rightarrow> lmem \<Rightarrow> bool" where
  "cache_alloc_post mal c s d s' \<longleftrightarrow>
     cache_inv s' \<and> caches s' = caches s \<and> dom (objs s) \<subseteq> dom (objs s') \<and>
     (\<forall>c'. c' \<noteq> c \<longrightarrow> cached s' c' = cached s c') \<and>
     (cached s c \<noteq> [] \<longrightarrow> d = hd (cached s c) \<and> cached s' c = tl (cached s c)) \<and>
     (cached s c = [] \<longrightarrow> d \<notin> dom (objs s) \<and> set (cached s' c) \<inter> dom (objs s) = {}) \<and>
     (cached s c = [] \<longrightarrow> \<not> refuses mal \<longrightarrow> d \<noteq> NULL \<or> nat (oc_prealloc_size (the (caches s c))) = 0) \<and>
     (cached s c = [] \<longrightarrow> \<not> refuses mal \<longrightarrow>
        length (cached s' c) = nat (oc_prealloc_size (the (caches s c))) - 1) \<and>
     (d \<noteq> NULL \<longrightarrow> d \<in> dom (objs s') \<and> (\<forall>c'. d \<notin> set (cached s' c'))) \<and>
     dom (queues s') = dom (queues s) \<and> (\<forall>q. q \<noteq> oc_q (the (caches s c)) \<longrightarrow> items s' q = items s q)"

lemma cached_other:
  assumes "cache_inv s" "caches s c = Some C" "caches s' = caches s" "items s' = (items s)(oc_q C := xs)"
  shows "c' \<noteq> c \<Longrightarrow> cached s' c' = cached s c'" "cached s' c = xs"
proof -
  show "cached s' c = xs" using assms by (simp add: cached_def)
  assume ne: "c' \<noteq> c"
  show "cached s' c' = cached s c'"
  proof (cases "caches s c'")
    case (Some D)
    then have "oc_q D \<noteq> oc_q C" using cache_invD(9) [OF assms(1,2) Some] ne by metis
    then show ?thesis using Some assms(3,4) by (simp add: cached_def)
  qed (simp add: cached_def assms(3))
qed

lemma objcache_alloc_ok:
  assumes I: "cache_inv s" and F: "fresh_alloc mal" and C: "caches s c = Some C"
  shows "\<exists>d s'. lthread_objcache_alloc mal c s = Some (d, s') \<and> cache_alloc_post mal c s d s'"
proof -
  note D = cache_invD [OF I C]
  let ?q = "oc_q C"
  have cs: "cached s c = items s ?q" using C by (simp add: cached_def)
  have dw: "dropWhile (\<lambda>x. x = NULL) (items s ?q) = items s ?q"
    using D(7) by (metis dropWhile_eq_self_iff hd_in_set)
  obtain d s1 where r: "lthread_queue_remove ?q s = Some (d, s1)" "remove_queue_post ?q s d s1"
    using queue_remove_ok [OF D(1,3)] by blast
  then have s1: "lt_inv s1" "pool_ready s1" "caches s1 = caches s" "objs s1 = objs s" "dom (queues s1) = dom (queues s)"
    "items s1 = (items s)(?q := tl (items s ?q))" "d = (case items s ?q of [] \<Rightarrow> NULL | x # _ \<Rightarrow> x)"
    using D(2) unfolding remove_queue_post_def Let_def dw by (simp_all add: qframe_def)
  show ?thesis
  proof (cases "items s ?q")
    case (Cons x xs)
    have "d \<noteq> NULL" using s1(7) Cons D(7) by auto
    then have e: "lthread_objcache_alloc mal c s = Some (d, s1)"
      using r(1) C by (simp add: lthread_objcache_alloc_def)
    have I1: "cache_inv s1"
      by (rule cache_inv_step [OF I C s1(1,2,3,5,6)]) (use D Cons s1(4) in auto)
    note O = cached_other [OF I C s1(3,6)]
    have "d \<notin> set (cached s1 c')" for c'
    proof (cases "c' = c")
      case True
      then show ?thesis using O(2) Cons D(5) s1(7) by simp
    next
      case False
      have "d \<notin> set (cached s c')"
        using D(9) [of c'] False Cons s1(7) by (auto simp: cached_def split: option.splits)
      then show ?thesis using O(1) False by simp
    qed
    then have "cache_alloc_post mal c s d s1"
      unfolding cache_alloc_post_def using I1 s1 O Cons D(6) cs C by auto
    with e show ?thesis by blast
  next
    case Nil
    then have d0: "d = NULL" "items s1 = items s" using s1 by auto
    have q1: "?q \<in> dom (queues s1)" using D(3) s1(5) by simp
    obtain ok s2 new where f: "refill mal ?q (oc_obj_size C) (nat (oc_prealloc_size C)) s1 = Some (ok, s2)"
      "lt_inv s2" "pool_ready s2" "dom (queues s2) = dom (queues s1)" "caches s2 = caches s1"
      "items s2 = (items s1)(?q := items s1 ?q @ new)" "distinct new" "set new \<inter> dom (objs s1) = {}" "NULL \<notin> set new"
      "set new \<subseteq> dom (objs s2)" "dom (objs s1) \<subseteq> dom (objs s2)" "NULL \<notin> dom (objs s2) - dom (objs s1)"
      "\<not> refuses mal \<longrightarrow> ok \<and> length new = nat (oc_prealloc_size C)"
      using refill_ok [OF F s1(1,2) q1] by metis
    have it2: "items s2 = (items s)(?q := new)" using f(6) d0 Nil by simp
    have n0: "NULL \<notin> dom (objs s2)" using f(12) s1(4) D(8) by auto
    have I2: "cache_inv s2"
    proof (rule cache_inv_step [OF I C f(2,3) _ _ it2])
      fix d D' assume D': "caches s d = Some D'"
      show "set new \<inter> set (items s (oc_q D')) = {}" using cache_invD(6) [OF I D'] f(8) s1(4) by auto
    qed (use f s1 n0 in auto)
    show ?thesis
    proof (cases ok)
      case False
      then have "lthread_objcache_alloc mal c s = Some (NULL, s2)"
        using r(1) C d0 f(1) by (simp add: lthread_objcache_alloc_def)
      moreover have "cache_alloc_post mal c s NULL s2"
        unfolding cache_alloc_post_def using I2 f s1 cached_other [OF I C _ it2] Nil cs False D(8) C it2 by auto
      ultimately show ?thesis by blast
    next
      case True
      have q2: "?q \<in> dom (queues s2)" using q1 f(4) by simp
      have C2: "caches s2 c = Some C" using C f(5) s1(3) by simp
      have dw2: "dropWhile (\<lambda>x. x = NULL) (items s2 ?q) = new"
        using f(9) it2 by (cases new) auto
      obtain d3 s3 where r3: "lthread_queue_remove ?q s2 = Some (d3, s3)" "remove_queue_post ?q s2 d3 s3"
        using queue_remove_ok [OF f(2) q2] by blast
      then have s3: "lt_inv s3" "pool_ready s3" "caches s3 = caches s2" "objs s3 = objs s2" "dom (queues s3) = dom (queues s2)"
        "items s3 = (items s2)(?q := tl new)" "d3 = (case new of [] \<Rightarrow> NULL | x # _ \<Rightarrow> x)"
        using f(3) unfolding remove_queue_post_def Let_def dw2 by (simp_all add: qframe_def)
      have e: "lthread_objcache_alloc mal c s = Some (d3, s3)"
        using r(1) C d0 f(1) True r3(1) by (simp add: lthread_objcache_alloc_def)
      have tln: "distinct (tl new)" "set (tl new) \<subseteq> set new" using f(7) by (cases new; auto)+
      have I3: "cache_inv s3"
      proof (rule cache_inv_step [OF I2 C2 s3(1,2,3,5,6)])
        fix d D' assume "caches s2 d = Some D'" "c \<noteq> d"
        then show "set (tl new) \<inter> set (items s2 (oc_q D')) = {}"
          using cache_invD(9) [OF I2 C2] it2 list.set_sel(2) [of new] by (cases new) auto
      qed (use f s3 n0 tln in auto)
      have cc: "caches s3 = caches s" using s3 f s1 by simp
      have it3: "items s3 = (items s)(?q := tl new)" using s3(6) it2 by simp
      note O = cached_other [OF I C cc it3]
      have dn: "d3 \<noteq> NULL \<Longrightarrow> d3 \<in> set new \<and> d3 \<notin> set (tl new)" using s3(7) f(7) by (cases new) auto
      have "d3 \<notin> set (cached s3 c')" if "d3 \<noteq> NULL" for c'
      proof (cases "c' = c")
        case True
        then show ?thesis using O(2) dn that by simp
      next
        case False
        have "set (cached s c') \<subseteq> dom (objs s)"
          using cache_invD(6) [OF I, of c'] by (cases "caches s c'") (auto simp: cached_def)
        then show ?thesis using O(1) [OF False] dn that f(8) s1(4) by auto
      qed
      moreover have "d3 \<notin> dom (objs s)" using dn f(8) s1(4) D(8) by (cases "d3 = NULL") auto
      moreover have "d3 \<noteq> NULL \<Longrightarrow> d3 \<in> dom (objs s3)" using dn f(10) s3(4) by auto
      moreover have "set (tl new) \<inter> dom (objs s) = {}" using f(8) s1(4) by (cases new) auto
      moreover have "\<not> refuses mal \<Longrightarrow> d3 \<noteq> NULL \<or> nat (oc_prealloc_size C) = 0"
        using f(9,13) s3(7) by (cases new) auto
      ultimately have "cache_alloc_post mal c s d3 s3"
        unfolding cache_alloc_post_def using I3 cc O cs Nil f(4,11,13) s1(4,5) s3(4,5) C it3 by auto
      with e show ?thesis by blast
    qed
  qed
qed

text \<open>Giving an object back: it goes to the end of the queue, or leaks when no node can be had.\<close>

definition cache_free_post :: "allocator \<Rightarrow> addr \<Rightarrow> addr \<Rightarrow> lmem \<Rightarrow> lmem \<Rightarrow> bool" where
  "cache_free_post mal c d s s' \<longleftrightarrow>
     cache_inv s' \<and> caches s' = caches s \<and> objs s' = objs s \<and>
     (cached s' = (cached s)(c := cached s c @ [d]) \<or> refuses mal \<and> cached s' = cached s)"

lemma objcache_free_ok:
  assumes I: "cache_inv s" and F: "fresh_alloc mal" and C: "caches s c = Some C"
    and d: "d \<in> dom (objs s)" "\<And>c'. d \<notin> set (cached s c')"
  shows "\<exists>s'. lthread_objcache_free mal c d s = Some s' \<and> cache_free_post mal c d s s'"
proof -
  note D = cache_invD [OF I C]
  obtain n s1 where i: "lthread_queue_insert_mp mal (oc_q C) d s = Some (n, s1)" "insert_post mal (oc_q C) d s n s1"
    using queue_insert_ok [OF D(1) F D(2,3)] by blast
  let ?xs = "if n = NULL then items s (oc_q C) else items s (oc_q C) @ [d]"
  have s1: "lt_inv s1" "pool_ready s1" "caches s1 = caches s" "objs s1 = objs s" "dom (queues s1) = dom (queues s)"
    "items s1 = (items s)(oc_q C := ?xs)" "n = NULL \<longrightarrow> refuses mal"
    using i(2) D(2) unfolding insert_post_def qframe_def by (auto split: if_splits)
  have dq: "d \<notin> set (items s (oc_q E))" if "caches s e = Some E" for e E
    using d(2) [of e] that by (simp add: cached_def)
  have I1: "cache_inv s1"
  proof (rule cache_inv_step [OF I C s1(1,2,3,5,6)])
    fix e E assume "caches s e = Some E" "c \<noteq> e"
    then show "set ?xs \<inter> set (items s (oc_q E)) = {}" using D(9) [of e E] dq [of e E] by auto
  qed (use D s1(4) d(1) dq [OF C] in auto)
  note O = cached_other [OF I C s1(3,6)]
  have "cached s1 = (cached s)(c := ?xs)" using O by (auto simp: fun_eq_iff)
  then have "cache_free_post mal c d s s1"
    using I1 s1(3,4,7) C unfolding cache_free_post_def by (cases "n = NULL") (auto simp: cached_def fun_eq_iff)
  moreover have "lthread_objcache_free mal c d s = Some s1" using i(1) C by (simp add: lthread_objcache_free_def)
  ultimately show ?thesis by blast
qed

subsection \<open>The interface of an object store\<close>

text \<open>The objects that are handed out: known to the store and in no cache.\<close>

definition taken :: "lmem \<Rightarrow> addr set" where
  "taken s = dom (objs s) - (\<Union>c. set (cached s c))"

definition store_ok :: "allocator \<Rightarrow> lmem \<Rightarrow> bool" where
  "store_ok mal s \<longleftrightarrow> cache_inv s \<and> fresh_alloc mal"

fun alloc_many :: "(addr \<Rightarrow> 's \<Rightarrow> (addr \<times> 's) option) \<Rightarrow> addr list \<Rightarrow> 's \<Rightarrow> (addr list \<times> 's) option" where
  "alloc_many get [] s = Some ([], s)"
| "alloc_many get (c # cs) s = do {
     (d, s) \<leftarrow> get c s;
     (ds, s) \<leftarrow> alloc_many get cs s;
     Some (if d = NULL then ds else d # ds, s) }"

text \<open>What the users of the caches rely on: an object handed out is not one somebody holds.\<close>

locale object_store =
  fixes get :: "addr \<Rightarrow> 's \<Rightarrow> (addr \<times> 's) option"
    and put :: "addr \<Rightarrow> addr \<Rightarrow> 's \<Rightarrow> 's option"
    and held :: "'s \<Rightarrow> addr set"
    and stores :: "'s \<Rightarrow> addr set"
    and ok :: "'s \<Rightarrow> bool"
  assumes get_law: "ok s \<Longrightarrow> c \<in> stores s \<Longrightarrow> \<exists>d s'. get c s = Some (d, s') \<and> ok s' \<and> stores s' = stores s \<and>
      held s \<subseteq> held s' \<and> (d \<noteq> NULL \<longrightarrow> d \<in> held s' \<and> d \<notin> held s)"
    and put_law: "ok s \<Longrightarrow> c \<in> stores s \<Longrightarrow> d \<in> held s \<Longrightarrow> \<exists>s'. put c d s = Some s' \<and> ok s' \<and>
      stores s' = stores s \<and> held s - {d} \<subseteq> held s'"
begin

lemma get_many:
  assumes "ok s" "set cs \<subseteq> stores s"
  shows "\<exists>ds s'. alloc_many get cs s = Some (ds, s') \<and> ok s' \<and> stores s' = stores s \<and> distinct ds \<and>
    set ds \<inter> held s = {} \<and> set ds \<union> held s \<subseteq> held s'"
  using assms
proof (induction cs arbitrary: s)
  case Nil
  then show ?case by simp
next
  case (Cons c cs)
  obtain d s1 where d: "get c s = Some (d, s1)" "ok s1" "stores s1 = stores s" "held s \<subseteq> held s1"
    "d \<noteq> NULL \<longrightarrow> d \<in> held s1 \<and> d \<notin> held s"
    using get_law [of s c] Cons.prems by auto
  obtain ds s' where ds: "alloc_many get cs s1 = Some (ds, s')" "ok s'" "stores s' = stores s" "distinct ds"
    "set ds \<inter> held s1 = {}" "set ds \<union> held s1 \<subseteq> held s'"
    using Cons.IH [of s1] Cons.prems d by auto
  then show ?case using d by (cases "d = NULL") auto
qed

lemma put_keeps:
  assumes "ok s" "c \<in> stores s" "d \<in> held s" "e \<in> held s" "e \<noteq> d"
  shows "\<exists>s'. put c d s = Some s' \<and> ok s' \<and> e \<in> held s'"
  using put_law [OF assms(1-3)] assms(4,5) by blast

end

lemma cache_alloc_postD:
  assumes "cache_alloc_post mal c s d s'"
  shows "cache_inv s'" "caches s' = caches s" "dom (objs s) \<subseteq> dom (objs s')"
    "\<forall>c'. c' \<noteq> c \<longrightarrow> cached s' c' = cached s c'"
    "cached s c \<noteq> [] \<longrightarrow> d = hd (cached s c) \<and> cached s' c = tl (cached s c)"
    "cached s c = [] \<longrightarrow> d \<notin> dom (objs s) \<and> set (cached s' c) \<inter> dom (objs s) = {}"
    "d \<noteq> NULL \<longrightarrow> d \<in> dom (objs s') \<and> (\<forall>c'. d \<notin> set (cached s' c'))"
    "dom (queues s') = dom (queues s)" "\<forall>q. q \<noteq> oc_q (the (caches s c)) \<longrightarrow> items s' q = items s q"
  by (insert assms, unfold cache_alloc_post_def, (elim conjE, assumption)+)

lemma alloc_post_cached:
  assumes "cache_alloc_post mal c s d s'"
  shows "set (cached s' e) \<inter> dom (objs s) \<subseteq> set (cached s e)"
proof (cases "e = c")
  case True
  note D = cache_alloc_postD [OF assms]
  show ?thesis
  proof (cases "cached s c = []")
    case False
    have "set (tl (cached s c)) \<subseteq> set (cached s c)" by (rule subsetI) (rule list.set_sel(2) [OF False])
    then show ?thesis using D(5) False unfolding True by (simp only: if_True simp_thms) (rule le_infI1)
  qed (use D(6) True in simp)
next
  case False
  have "cached s' e = cached s e" using cache_alloc_postD(4) [OF assms] False by simp
  then show ?thesis by simp
qed

lemma alloc_post_taken:
  assumes "cache_alloc_post mal c s d s'"
  shows "taken s \<subseteq> taken s'" "d \<noteq> NULL \<Longrightarrow> d \<in> taken s' \<and> d \<notin> taken s"
proof -
  note D = cache_alloc_postD [OF assms] and S = alloc_post_cached [OF assms]
  show "taken s \<subseteq> taken s'"
  proof
    fix x assume "x \<in> taken s"
    then have x: "x \<in> dom (objs s)" "\<And>e. x \<notin> set (cached s e)" unfolding taken_def by blast+
    then have "x \<notin> set (cached s' e)" for e using S [of e] by blast
    then show "x \<in> taken s'" using x(1) D(3) unfolding taken_def by blast
  qed
  assume d: "d \<noteq> NULL"
  have "d \<in> taken s'" using D(7) d unfolding taken_def by blast
  moreover have "d \<notin> taken s"
  proof (cases "cached s c = []")
    case True
    then show ?thesis using D(6) unfolding taken_def by simp
  next
    case False
    then have "d \<in> set (cached s c)" using D(5) by simp
    then show ?thesis unfolding taken_def by blast
  qed
  ultimately show "d \<in> taken s' \<and> d \<notin> taken s" by blast
qed

interpretation cst: object_store "lthread_objcache_alloc mal" "lthread_objcache_free mal" taken
  "\<lambda>s. dom (caches s)" "store_ok mal" for mal
proof
  fix s c
  assume s: "store_ok mal s" "c \<in> dom (caches s)"
  then obtain C where I: "cache_inv s" "fresh_alloc mal" and C: "caches s c = Some C" unfolding store_ok_def by blast
  obtain d s' where a: "lthread_objcache_alloc mal c s = Some (d, s')" "cache_alloc_post mal c s d s'"
    using objcache_alloc_ok [OF I C] by blast
  have "store_ok mal s'" "dom (caches s') = dom (caches s)"
    using cache_alloc_postD(1,2) [OF a(2)] I(2) by (simp_all add: store_ok_def)
  with a(1) alloc_post_taken [OF a(2)]
  show "\<exists>d s'. lthread_objcache_alloc mal c s = Some (d, s') \<and> store_ok mal s' \<and> dom (caches s') = dom (caches s) \<and>
      taken s \<subseteq> taken s' \<and> (d \<noteq> NULL \<longrightarrow> d \<in> taken s' \<and> d \<notin> taken s)"
    by (intro exI [of _ d] exI [of _ s']) simp
next
  fix s c d
  assume s: "store_ok mal s" "c \<in> dom (caches s)" "d \<in> taken s"
  then obtain C where I: "cache_inv s" "fresh_alloc mal" and C: "caches s c = Some C" unfolding store_ok_def by blast
  have "d \<in> dom (objs s)" "\<And>c'. d \<notin> set (cached s c')" using s(3) unfolding taken_def by auto
  then obtain s' where f: "lthread_objcache_free mal c d s = Some s'" "cache_free_post mal c d s s'"
    using objcache_free_ok [OF I C] by blast
  have o: "objs s' = objs s" "caches s' = caches s" "cache_inv s'"
    "cached s' = (cached s)(c := cached s c @ [d]) \<or> cached s' = cached s"
    using f(2) unfolding cache_free_post_def by blast+
  then have "taken s - {d} \<subseteq> taken s'"
    unfolding taken_def by (auto split: if_splits)
  then show "\<exists>s'. lthread_objcache_free mal c d s = Some s' \<and> store_ok mal s' \<and> dom (caches s') = dom (caches s) \<and>
      taken s - {d} \<subseteq> taken s'"
    using f(1) o I unfolding store_ok_def by auto
qed

end
