(* ===== verification/Lthread_System.thy ===== *)
theory Lthread_System
  imports Lthread_Objcache
begin

section \<open>The lthread system: data and services (lthread_int.h, lthread_sched.h, lthread_timer.h)\<close>

text \<open>
  The structures of the cooperative scheduler, over the memory \<open>lmem\<close> that holds the node pools,
  queues and object caches. One scheduler runs per lcore; \<open>cpu\<close> is the lcore that executes now and
  \<open>THIS_SCHED\<close> its entry in \<open>this_sched\<close>.

  A thread is code, and a thread that is not running is a place in its code. User code is a \<open>prog\<close>:
  a tree of calls into the library, where what follows depends on the results. The saved context of a
  thread is a \<open>ctx\<close>: the place, in the library or in the user code, where \<open>ctx_switch\<close> comes back.
  Times and sizes that come from the machine are parameters (\<open>lenv\<close>).
\<close>

subsection \<open>Constants\<close>

definition BIT :: "nat \<Rightarrow> u64" where
  "BIT n = push_bit n 1"

definition CLEARBIT :: "nat \<Rightarrow> u64" where
  "CLEARBIT n = not (BIT n)"

definition ST_LT_INIT :: nat where "ST_LT_INIT = 0"
definition ST_LT_READY :: nat where "ST_LT_READY = 1"
definition ST_LT_SLEEPING :: nat where "ST_LT_SLEEPING = 2"
definition ST_LT_EXPIRED :: nat where "ST_LT_EXPIRED = 3"
definition ST_LT_EXITED :: nat where "ST_LT_EXITED = 4"
definition ST_LT_DETACH :: nat where "ST_LT_DETACH = 5"
definition ST_LT_CANCELLED :: nat where "ST_LT_CANCELLED = 6"

lemmas st_defs = ST_LT_INIT_def ST_LT_READY_def ST_LT_SLEEPING_def ST_LT_EXPIRED_def ST_LT_EXITED_def
  ST_LT_DETACH_def ST_LT_CANCELLED_def

datatype join_st = LT_JOIN_INITIAL | LT_JOIN_EXITING | LT_JOIN_THREAD_SET | LT_JOIN_EXIT_VAL_SET | LT_JOIN_EXIT_VAL_READ

text \<open>\<open>state & BIT (n)\<close> as a condition.\<close>

definition in_state :: "u64 \<Rightarrow> nat \<Rightarrow> bool" where
  "in_state w n \<longleftrightarrow> and w (BIT n) \<noteq> 0"

lemma in_state_bit: "n < 64 \<Longrightarrow> in_state w n = bit w n"
  by (simp add: in_state_def BIT_def push_bit_eq_mult and_exp_eq_0_iff_not_bit)

lemma in_state_or [simp]: "m < 64 \<Longrightarrow> n < 64 \<Longrightarrow> in_state (or w (BIT m)) n \<longleftrightarrow> in_state w n \<or> m = n"
  by (auto simp: in_state_bit BIT_def bit_simps)

lemma in_state_clear [simp]: "m < 64 \<Longrightarrow> n < 64 \<Longrightarrow> in_state (and w (CLEARBIT m)) n \<longleftrightarrow> in_state w n \<and> m \<noteq> n"
  by (auto simp: in_state_bit BIT_def CLEARBIT_def bit_simps)

lemma in_state_BIT [simp]: "m < 64 \<Longrightarrow> n < 64 \<Longrightarrow> in_state (BIT m) n \<longleftrightarrow> m = n"
  by (auto simp: in_state_bit BIT_def bit_simps)

definition EPERM :: nat where "EPERM = 1"
definition EAGAIN :: nat where "EAGAIN = 11"
definition EBUSY :: nat where "EBUSY = 16"
definition EINVAL :: nat where "EINVAL = 22"
definition EDEADLK :: nat where "EDEADLK = 35"

lemmas errno_defs = EPERM_def EAGAIN_def EBUSY_def EINVAL_def EDEADLK_def

definition LTHREAD_MAX_KEYS :: nat where "LTHREAD_MAX_KEYS = 1024"
definition LTHREAD_DESTRUCTOR_ITERATIONS :: nat where "LTHREAD_DESTRUCTOR_ITERATIONS = 4"
definition LTHREAD_MAX_STACK_SIZE :: nat where "LTHREAD_MAX_STACK_SIZE = 65536"
definition LTHREAD_PREALLOC :: int where "LTHREAD_PREALLOC = 100"

subsection \<open>Code and contexts\<close>

text \<open>The calls of the library; output arguments are addresses of user memory.\<close>

datatype api =
    Create addr int addr addr          \<comment> \<open>new_lt, lcore_id, fun, arg\<close>
  | Yield | Sleep u64 | Sleep_clks u64
  | Exit addr | Join addr addr | Detach | Cancel addr | Current | Set_data addr | Get_data
  | Set_affinity nat | Set_funcname string
  | Mutex_init "string option" addr | Mutex_destroy addr | Lock addr | Trylock addr | Unlock addr
  | Cond_init "string option" addr | Cond_destroy addr | Wait addr | Signal addr | Broadcast addr
  | Key_create addr addr | Key_delete nat | Getspecific nat | Setspecific nat addr
  | Load addr | Store addr addr

datatype prog = Done | Call api "addr \<Rightarrow> prog"

text \<open>Who called \<open>lthread_exit\<close>: the user code, or the exit handler after it.\<close>

datatype exit_caller = By_user prog | By_handler

datatype ctx =
    Start                                   \<comment> \<open>a new stack: \<open>_lthread_exec\<close>\<close>
  | Unsuspend ctx                           \<comment> \<open>in \<open>_suspend\<close>, after its \<open>ctx_switch\<close>\<close>
  | At_prog prog                            \<comment> \<open>the library call is over\<close>
  | Lock_again addr "addr \<Rightarrow> prog"           \<comment> \<open>\<open>lthread_mutex_lock\<close>: compete again\<close>
  | Exit_resumed addr exit_caller           \<comment> \<open>\<open>lthread_exit\<close>, after its \<open>_suspend\<close>\<close>
  | Exit_wait exit_caller                   \<comment> \<open>\<open>lthread_exit\<close>, its waiting loop\<close>
  | Join_wait addr addr "addr \<Rightarrow> prog"       \<comment> \<open>\<open>lthread_join\<close>, its waiting loop\<close>
  | Handler_end                             \<comment> \<open>\<open>_lthread_exit_handler\<close>, after its \<open>_reschedule\<close>\<close>

subsection \<open>Structures\<close>

datatype lt_func = User_fun addr | Cancel_fun

record lthread =
  lt_ctx :: ctx
  lt_state :: u64
  lt_sched :: addr
  lt_stack :: addr
  lt_stack_size :: nat
  lt_fun :: lt_func
  lt_arg :: addr
  per_lthread_data :: addr
  lt_birth :: u64
  pending_wr_queue :: addr
  lt_joiner :: addr
  lt_join :: join_st
  lt_exit_ptr :: addr
  lt_root_sched :: addr
  lt_tim :: "u64 option"            \<comment> \<open>the sleep timer, when it runs\<close>
  lt_tls :: addr
  lt_stack_container :: addr
  lt_funcname :: string

record lthread_sched =
  sc_birth :: u64
  sc_current :: addr
  sc_lcore_id :: nat
  sc_run_flag :: bool
  sc_blocked :: u64
  sc_ready :: addr
  sc_pready :: addr
  sc_lthread_cache :: addr
  sc_stack_cache :: addr
  sc_per_lthread_cache :: addr
  sc_tls_cache :: addr
  sc_cond_cache :: addr
  sc_mutex_cache :: addr
  sc_qnode_pool :: addr
  sc_stack_size :: nat

record lthread_stack =
  st_stack_size :: nat
  st_root_sched :: addr

record lthread_tls =
  tls_data :: "addr list"
  nb_keys_inuse :: int
  tls_root_sched :: addr

record lthread_mutex =
  mx_owner :: addr
  mx_count :: int
  mx_blocked :: addr
  mx_root_sched :: addr
  mx_name :: string

record lthread_cond =
  cv_blocked :: addr
  cv_root_sched :: addr
  cv_name :: string

text \<open>The memory of the system: the structures by address, what the user can write through a pointer,
  and the global variables of \<open>lthread_sched.c\<close> and \<open>lthread_tls.c\<close>. \<open>key_pool\<close> is the ring of free
  keys, \<open>None\<close> its NULL.\<close>

record lsys =
  mem :: lmem
  threads :: "addr \<rightharpoonup> lthread"
  stacks :: "addr \<rightharpoonup> lthread_stack"
  tlss :: "addr \<rightharpoonup> lthread_tls"
  mutexes :: "addr \<rightharpoonup> lthread_mutex"
  conds :: "addr \<rightharpoonup> lthread_cond"
  scheds :: "addr \<rightharpoonup> lthread_sched"
  schedcore :: "addr list"
  this_sched :: "nat \<Rightarrow> addr"
  cpu :: nat
  umem :: "addr \<rightharpoonup> addr"
  key_pool :: "nat list option"
  key_pool_init :: bool
  key_table :: "addr list"
  num_schedulers :: int
  active_schedulers :: int
  force_quit :: "bool list"
  tsc :: u64

text \<open>The environment: the allocator, the code at the function addresses, the size of the structures
  and of the per-lthread section, and \<open>_ns_to_clks\<close>, which computes in floating point.\<close>

record lenv =
  e_mal :: allocator
  e_code :: "addr \<Rightarrow> addr \<Rightarrow> prog"
  e_junk :: addr
  e_sizeof_lthread :: nat
  e_sizeof_stack :: nat
  e_sizeof_tls :: nat
  e_sizeof_cond :: nat
  e_sizeof_mutex :: nat
  e_per_lt_section :: nat
  e_ns_to_clks :: "u64 \<Rightarrow> u64"

type_synonym destructors = "addr \<Rightarrow> addr \<Rightarrow> lsys \<Rightarrow> lsys option"

subsection \<open>Access\<close>

definition on_mem :: "(lmem \<Rightarrow> ('a \<times> lmem) option) \<Rightarrow> lsys \<Rightarrow> ('a \<times> lsys) option" where
  "on_mem f s = do { (x, m) \<leftarrow> f (mem s); Some (x, s\<lparr>mem := m\<rparr>) }"

definition THIS_SCHED :: "lsys \<Rightarrow> addr" where
  "THIS_SCHED s = this_sched s (cpu s)"

definition cur_sched :: "lsys \<Rightarrow> lthread_sched option" where
  "cur_sched s = scheds s (THIS_SCHED s)"

definition THIS_LTHREAD :: "lsys \<Rightarrow> addr option" where
  "THIS_LTHREAD s = map_option sc_current (cur_sched s)"

definition upd_sched :: "addr \<Rightarrow> (lthread_sched \<Rightarrow> lthread_sched) \<Rightarrow> lsys \<Rightarrow> lsys option" where
  "upd_sched p f s = do { S \<leftarrow> scheds s p; Some (s\<lparr>scheds := (scheds s)(p \<mapsto> f S)\<rparr>) }"

definition upd_thread :: "addr \<Rightarrow> (lthread \<Rightarrow> lthread) \<Rightarrow> lsys \<Rightarrow> lsys option" where
  "upd_thread p f s = do { T \<leftarrow> threads s p; Some (s\<lparr>threads := (threads s)(p \<mapsto> f T)\<rparr>) }"

definition upd_mutex :: "addr \<Rightarrow> (lthread_mutex \<Rightarrow> lthread_mutex) \<Rightarrow> lsys \<Rightarrow> lsys option" where
  "upd_mutex p f s = do { M \<leftarrow> mutexes s p; Some (s\<lparr>mutexes := (mutexes s)(p \<mapsto> f M)\<rparr>) }"

definition upd_tls :: "addr \<Rightarrow> (lthread_tls \<Rightarrow> lthread_tls) \<Rightarrow> lsys \<Rightarrow> lsys option" where
  "upd_tls p f s = do { T \<leftarrow> tlss s p; Some (s\<lparr>tlss := (tlss s)(p \<mapsto> f T)\<rparr>) }"

definition store :: "addr \<Rightarrow> addr \<Rightarrow> lsys \<Rightarrow> lsys option" where
  "store p v s = (case umem s p of None \<Rightarrow> None | Some _ \<Rightarrow> Some (s\<lparr>umem := (umem s)(p \<mapsto> v)\<rparr>))"

text \<open>The lcore \<open>c\<close> executes: its scheduler's pool becomes the one that nodes come from.\<close>

definition on_lcore :: "nat \<Rightarrow> lsys \<Rightarrow> lsys" where
  "on_lcore c s = s\<lparr>cpu := c, mem := (mem s)\<lparr>cur_pool := (case scheds s (this_sched s c) of None \<Rightarrow> NULL | Some S \<Rightarrow> sc_qnode_pool S)\<rparr>\<rparr>"

subsection \<open>Services of lthread_sched.h and lthread_timer.h\<close>

text \<open>The result of the insert is not looked at.\<close>

definition ready_queue_insert :: "lenv \<Rightarrow> addr \<Rightarrow> addr \<Rightarrow> lsys \<Rightarrow> lsys option" where
  "ready_queue_insert E sched lt s = do {
     S \<leftarrow> scheds s sched;
     (n, s) \<leftarrow> (if sched = THIS_SCHED s
       then on_mem (lthread_queue_insert_sp (e_mal E) (sc_ready S) lt) s
       else on_mem (lthread_queue_insert_mp (e_mal E) (sc_pready S) lt) s);
     Some s }"

definition ready_queue_remove :: "addr \<Rightarrow> lsys \<Rightarrow> (addr \<times> lsys) option" where
  "ready_queue_remove q s = on_mem (lthread_queue_remove q) s"

definition ready_queue_empty :: "addr \<Rightarrow> lsys \<Rightarrow> bool option" where
  "ready_queue_empty q s = lthread_queue_empty q (mem s)"

definition sched_now :: "lsys \<Rightarrow> u64 option" where
  "sched_now s = do {
     S \<leftarrow> cur_sched s;
     let now = tsc s;
     Some (if now > sc_birth S then now - sc_birth S
           else if now < sc_birth S then sc_birth S - now else 1) }"

text \<open>\<open>_suspend\<close>, \<open>_reschedule\<close> and \<open>_affinitize\<close> up to their \<open>ctx_switch\<close>: they leave the context that
  the thread comes back to. What follows the switch in \<open>_suspend\<close> is \<open>Unsuspend\<close>.\<close>

definition suspend :: "ctx \<Rightarrow> lsys \<Rightarrow> (ctx \<times> lsys) option" where
  "suspend c s = do {
     s \<leftarrow> upd_sched (THIS_SCHED s) (\<lambda>S. S\<lparr>sc_blocked := sc_blocked S + 1\<rparr>) s;
     Some (Unsuspend c, s) }"

definition unsuspend :: "lsys \<Rightarrow> lsys option" where
  "unsuspend s = upd_sched (THIS_SCHED s) (\<lambda>S. S\<lparr>sc_blocked := sc_blocked S - 1\<rparr>) s"

definition reschedule :: "lenv \<Rightarrow> ctx \<Rightarrow> lsys \<Rightarrow> (ctx \<times> lsys) option" where
  "reschedule E c s = do {
     lt \<leftarrow> THIS_LTHREAD s;
     s \<leftarrow> ready_queue_insert E (THIS_SCHED s) lt s;
     Some (c, s) }"

definition affinitize :: "ctx \<Rightarrow> lsys \<Rightarrow> (ctx \<times> lsys) option" where
  "affinitize c s = Some (c, s)"

definition timer_start :: "addr \<Rightarrow> u64 \<Rightarrow> lsys \<Rightarrow> lsys option" where
  "timer_start lt clks s = (if clks > 0 then upd_thread lt (\<lambda>T. T\<lparr>lt_tim := Some clks\<rparr>) s else Some s)"

definition timer_stop :: "addr \<Rightarrow> lsys \<Rightarrow> lsys option" where
  "timer_stop lt s = (if lt \<noteq> NULL then upd_thread lt (\<lambda>T. T\<lparr>lt_tim := None\<rparr>) s else Some s)"

end
