(* ===== verification/Lthread_Sync.thy ===== *)
theory Lthread_Sync
  imports Lthread_System
begin

section \<open>Mutexes and condition variables (lthread_mutex.c, lthread_cond.c)\<close>

text \<open>
  Both block threads in a queue of their own. A call that blocks leaves the calling thread in
  \<open>pending_wr_queue\<close> and switches to the scheduler, which writes the queue (\<open>write_pending\<close>, the end
  of \<open>_lthread_resume\<close>) once the context is saved. A call either returns to its caller or switches.
  Here every call runs on one lcore to its end or its switch.
\<close>

datatype result = Ret addr | Switch ctx

definition on_mem_upd :: "(lmem \<Rightarrow> lmem option) \<Rightarrow> lsys \<Rightarrow> lsys option" where
  "on_mem_upd f s = do { m \<leftarrow> f (mem s); Some (s\<lparr>mem := m\<rparr>) }"

definition write_pending :: "lenv \<Rightarrow> addr \<Rightarrow> lsys \<Rightarrow> lsys option" where
  "write_pending E lt s = do {
     T \<leftarrow> threads s lt;
     if pending_wr_queue T \<noteq> NULL then do {
       s \<leftarrow> upd_thread lt (\<lambda>T. T\<lparr>pending_wr_queue := NULL\<rparr>) s;
       (n, s) \<leftarrow> on_mem (lthread_queue_insert_mp (e_mal E) (pending_wr_queue T) lt) s;
       Some s }
     else Some s }"

definition name_or_default :: "string option \<Rightarrow> string" where
  "name_or_default n = copy_name (case n of None \<Rightarrow> ''no name'' | Some x \<Rightarrow> x)"

subsection \<open>Mutexes\<close>

text \<open>An object of a cache was zero when it was allocated and keeps its content when it is freed.\<close>

definition mutex_at :: "lsys \<Rightarrow> addr \<Rightarrow> lthread_mutex" where
  "mutex_at s m = (case mutexes s m of Some M \<Rightarrow> M
     | None \<Rightarrow> \<lparr>mx_owner = NULL, mx_count = 0, mx_blocked = NULL, mx_root_sched = NULL, mx_name = []\<rparr>)"

definition lthread_mutex_init :: "lenv \<Rightarrow> string option \<Rightarrow> addr \<Rightarrow> lsys \<Rightarrow> (addr \<times> lsys) option" where
  "lthread_mutex_init E name mutex s =
     (if mutex = NULL then Some (EINVAL, s)
      else do {
        S \<leftarrow> cur_sched s;
        (m, s) \<leftarrow> on_mem (lthread_objcache_alloc (e_mal E) (sc_mutex_cache S)) s;
        if m = NULL then Some (EAGAIN, s)
        else do {
          (q, s) \<leftarrow> on_mem (lthread_queue_create (e_mal E) ''blocked queue'') s;
          let s = s\<lparr>mutexes := (mutexes s)(m \<mapsto> (mutex_at s m)\<lparr>mx_blocked := q\<rparr>)\<rparr>;
          if q = NULL then do {
            s \<leftarrow> on_mem_upd (lthread_objcache_free (e_mal E) (sc_mutex_cache S) m) s;
            Some (EAGAIN, s) }
          else do {
            s \<leftarrow> upd_mutex m (\<lambda>M. M\<lparr>mx_name := name_or_default name, mx_root_sched := THIS_SCHED s,
              mx_owner := NULL, mx_count := 0\<rparr>) s;
            s \<leftarrow> store mutex m s;
            Some (0, s) } } })"

definition lthread_mutex_destroy :: "lenv \<Rightarrow> addr \<Rightarrow> lsys \<Rightarrow> (addr \<times> lsys) option" where
  "lthread_mutex_destroy E m s =
     (if m = NULL then Some (EINVAL, s)
      else do {
        M \<leftarrow> mutexes s m;
        if mx_blocked M = NULL then Some (EINVAL, s)
        else if mx_owner M = NULL then do {
          (r, s) \<leftarrow> on_mem (lthread_queue_destroy (mx_blocked M)) s;
          if r < 0 then Some (EBUSY, s)
          else do {
            R \<leftarrow> scheds s (mx_root_sched M);
            s \<leftarrow> on_mem_upd (lthread_objcache_free (e_mal E) (sc_mutex_cache R) m) s;
            Some (0, s) } }
        else Some (EBUSY, s) })"

text \<open>One round of the loop of \<open>lthread_mutex_lock\<close>. The inner loop spins while the mutex is free
  again and nobody else counts; on one lcore nobody frees it between the exchange and the test.\<close>

definition mutex_compete :: "addr \<Rightarrow> (addr \<Rightarrow> prog) \<Rightarrow> lsys \<Rightarrow> (result \<times> lsys) option" where
  "mutex_compete m k s = do {
     lt \<leftarrow> THIS_LTHREAD s;
     s \<leftarrow> upd_mutex m (\<lambda>M. M\<lparr>mx_count := mx_count M + 1\<rparr>) s;
     M \<leftarrow> mutexes s m;
     if mx_owner M = NULL then do {
       s \<leftarrow> upd_mutex m (\<lambda>M. M\<lparr>mx_owner := lt\<rparr>) s;
       Some (Ret 0, s) }
     else do {
       s \<leftarrow> upd_thread lt (\<lambda>T. T\<lparr>pending_wr_queue := mx_blocked M\<rparr>) s;
       (c, s) \<leftarrow> suspend (Lock_again m k) s;
       Some (Switch c, s) } }"

definition lthread_mutex_lock :: "addr \<Rightarrow> (addr \<Rightarrow> prog) \<Rightarrow> lsys \<Rightarrow> (result \<times> lsys) option" where
  "lthread_mutex_lock m k s = do {
     lt \<leftarrow> THIS_LTHREAD s;
     if m = NULL then Some (Ret EINVAL, s)
     else do {
       M \<leftarrow> mutexes s m;
       if mx_blocked M = NULL then Some (Ret EINVAL, s)
       else if mx_owner M = lt then Some (Ret EDEADLK, s)
       else mutex_compete m k s } }"

definition lthread_mutex_trylock :: "addr \<Rightarrow> lsys \<Rightarrow> (addr \<times> lsys) option" where
  "lthread_mutex_trylock m s = do {
     lt \<leftarrow> THIS_LTHREAD s;
     if m = NULL then Some (EINVAL, s)
     else do {
       M \<leftarrow> mutexes s m;
       if mx_blocked M = NULL then Some (EINVAL, s)
       else if mx_owner M = lt then Some (EDEADLK, s)
       else do {
         s \<leftarrow> upd_mutex m (\<lambda>M. M\<lparr>mx_count := mx_count M + 1\<rparr>) s;
         M \<leftarrow> mutexes s m;
         if mx_owner M = NULL then do {
           s \<leftarrow> upd_mutex m (\<lambda>M. M\<lparr>mx_owner := lt\<rparr>) s;
           Some (0, s) }
         else do {
           s \<leftarrow> upd_mutex m (\<lambda>M. M\<lparr>mx_count := mx_count M - 1\<rparr>) s;
           Some (EBUSY, s) } } } }"

text \<open>The loop of \<open>lthread_mutex_unlock\<close>: while others are counted, take one from the blocked queue;
  it spins while they are counted and not yet queued. \<open>None\<close> is also "never returns".\<close>

partial_function (option) unlock_wake :: "lenv \<Rightarrow> addr \<Rightarrow> lsys \<Rightarrow> lsys option" where
  "unlock_wake E m s = do {
     M \<leftarrow> mutexes s m;
     if mx_count M > 0 then do {
       (u, s) \<leftarrow> on_mem (lthread_queue_remove (mx_blocked M)) s;
       if u \<noteq> NULL then do {
         s \<leftarrow> upd_mutex m (\<lambda>M. M\<lparr>mx_count := mx_count M - 1\<rparr>) s;
         T \<leftarrow> threads s u;
         ready_queue_insert E (lt_sched T) u s }
       else unlock_wake E m s }
     else Some s }"

definition lthread_mutex_unlock :: "lenv \<Rightarrow> addr \<Rightarrow> lsys \<Rightarrow> (addr \<times> lsys) option" where
  "lthread_mutex_unlock E m s = do {
     lt \<leftarrow> THIS_LTHREAD s;
     if m = NULL then Some (EINVAL, s)
     else do {
       M \<leftarrow> mutexes s m;
       if mx_blocked M = NULL then Some (EINVAL, s)
       else if mx_owner M \<noteq> lt \<or> mx_owner M = NULL then Some (EPERM, s)
       else do {
         s \<leftarrow> upd_mutex m (\<lambda>M. M\<lparr>mx_count := mx_count M - 1\<rparr>) s;
         s \<leftarrow> unlock_wake E m s;
         s \<leftarrow> upd_mutex m (\<lambda>M. M\<lparr>mx_owner := NULL\<rparr>) s;
         Some (0, s) } } }"

subsection \<open>Condition variables\<close>

definition cond_at :: "lsys \<Rightarrow> addr \<Rightarrow> lthread_cond" where
  "cond_at s c = (case conds s c of Some C \<Rightarrow> C
     | None \<Rightarrow> \<lparr>cv_blocked = NULL, cv_root_sched = NULL, cv_name = []\<rparr>)"

definition lthread_cond_init :: "lenv \<Rightarrow> string option \<Rightarrow> addr \<Rightarrow> lsys \<Rightarrow> (addr \<times> lsys) option" where
  "lthread_cond_init E name cond s =
     (if cond = NULL then Some (EINVAL, s)
      else do {
        S \<leftarrow> cur_sched s;
        (c, s) \<leftarrow> on_mem (lthread_objcache_alloc (e_mal E) (sc_cond_cache S)) s;
        if c = NULL then Some (EAGAIN, s)
        else do {
          (q, s) \<leftarrow> on_mem (lthread_queue_create (e_mal E) ''blocked'') s;
          let s = s\<lparr>conds := (conds s)(c \<mapsto> (cond_at s c)\<lparr>cv_blocked := q\<rparr>)\<rparr>;
          if q = NULL then do {
            s \<leftarrow> on_mem_upd (lthread_objcache_free (e_mal E) (sc_cond_cache S) c) s;
            Some (EAGAIN, s) }
          else do {
            let s = s\<lparr>conds := (conds s)(c \<mapsto> (cond_at s c)\<lparr>cv_name := name_or_default name, cv_root_sched := THIS_SCHED s\<rparr>)\<rparr>;
            s \<leftarrow> store cond c s;
            Some (0, s) } } })"

definition lthread_cond_destroy :: "lenv \<Rightarrow> addr \<Rightarrow> lsys \<Rightarrow> (addr \<times> lsys) option" where
  "lthread_cond_destroy E c s =
     (if c = NULL then Some (EINVAL, s)
      else do {
        C \<leftarrow> conds s c;
        (r, s) \<leftarrow> on_mem (lthread_queue_destroy (cv_blocked C)) s;
        if r < 0 then Some (EBUSY, s)
        else do {
          R \<leftarrow> scheds s (cv_root_sched C);
          s \<leftarrow> on_mem_upd (lthread_objcache_free (e_mal E) (sc_cond_cache R) c) s;
          Some (0, s) } })"

definition lthread_cond_wait :: "addr \<Rightarrow> (addr \<Rightarrow> prog) \<Rightarrow> lsys \<Rightarrow> (result \<times> lsys) option" where
  "lthread_cond_wait c k s = do {
     lt \<leftarrow> THIS_LTHREAD s;
     if c = NULL then Some (Ret EINVAL, s)
     else do {
       C \<leftarrow> conds s c;
       s \<leftarrow> upd_thread lt (\<lambda>T. T\<lparr>pending_wr_queue := cv_blocked C\<rparr>) s;
       (x, s) \<leftarrow> suspend (At_prog (k 0)) s;
       Some (Switch x, s) } }"

text \<open>Take one thread from the blocked queue and make it ready on its own scheduler.\<close>

definition wake_one :: "lenv \<Rightarrow> addr \<Rightarrow> lsys \<Rightarrow> lsys option" where
  "wake_one E q s = do {
     (lt, s) \<leftarrow> on_mem (lthread_queue_remove q) s;
     if lt \<noteq> NULL then do {
       T \<leftarrow> threads s lt;
       ready_queue_insert E (lt_sched T) lt s }
     else Some s }"

definition lthread_cond_signal :: "lenv \<Rightarrow> addr \<Rightarrow> lsys \<Rightarrow> (addr \<times> lsys) option" where
  "lthread_cond_signal E c s =
     (if c = NULL then Some (EINVAL, s)
      else do {
        C \<leftarrow> conds s c;
        s \<leftarrow> wake_one E (cv_blocked C) s;
        Some (0, s) })"

text \<open>The \<open>do\<close> loop of \<open>lthread_cond_broadcast\<close>; \<open>None\<close> is also "never returns".\<close>

partial_function (option) drain :: "lenv \<Rightarrow> addr \<Rightarrow> lsys \<Rightarrow> lsys option" where
  "drain E q s = do {
     s \<leftarrow> wake_one E q s;
     e \<leftarrow> lthread_queue_empty q (mem s);
     if \<not> e then drain E q s else Some s }"

definition lthread_cond_broadcast :: "lenv \<Rightarrow> addr \<Rightarrow> (addr \<Rightarrow> prog) \<Rightarrow> lsys \<Rightarrow> (result \<times> lsys) option" where
  "lthread_cond_broadcast E c k s =
     (if c = NULL then Some (Ret EINVAL, s)
      else do {
        C \<leftarrow> conds s c;
        s \<leftarrow> drain E (cv_blocked C) s;
        (x, s) \<leftarrow> reschedule E (At_prog (k 0)) s;
        Some (Switch x, s) })"

subsection \<open>Contracts of the shared services\<close>

text \<open>A scheduler whose queues are there, and a thread that can be made ready.\<close>

definition sched_live :: "lsys \<Rightarrow> addr \<Rightarrow> bool" where
  "sched_live s p \<longleftrightarrow> (\<exists>S. scheds s p = Some S \<and> sc_ready S \<in> dom (queues (mem s)) \<and> sc_pready S \<in> dom (queues (mem s)))"

definition ready_dest :: "lsys \<Rightarrow> addr \<Rightarrow> addr" where
  "ready_dest s p = (case scheds s p of None \<Rightarrow> NULL | Some S \<Rightarrow> if p = THIS_SCHED s then sc_ready S else sc_pready S)"

definition mem_ok :: "lenv \<Rightarrow> lsys \<Rightarrow> bool" where
  "mem_ok E s \<longleftrightarrow> fifo_ok (e_mal E) (mem s) \<and> \<not> refuses (e_mal E)"

text \<open>\<open>s'\<close> is \<open>s\<close> but for the queue contents, which are now \<open>f\<close>.\<close>

definition queues_become :: "lenv \<Rightarrow> lsys \<Rightarrow> (addr \<Rightarrow> addr list) \<Rightarrow> lsys \<Rightarrow> bool" where
  "queues_become E s f s' \<longleftrightarrow> (\<exists>m. s' = s\<lparr>mem := m\<rparr> \<and> fifo_ok (e_mal E) m \<and> items m = f \<and>
     dom (queues m) = dom (queues (mem s)) \<and> caches m = caches (mem s) \<and> objs m = objs (mem s))"

lemma queues_becomeD:
  assumes "queues_become E s f s'"
  shows "threads s' = threads s" "stacks s' = stacks s" "tlss s' = tlss s" "mutexes s' = mutexes s" "conds s' = conds s"
    "scheds s' = scheds s" "this_sched s' = this_sched s" "cpu s' = cpu s" "umem s' = umem s" "THIS_SCHED s' = THIS_SCHED s"
    "THIS_LTHREAD s' = THIS_LTHREAD s" "cur_sched s' = cur_sched s"
    "items (mem s') = f" "dom (queues (mem s')) = dom (queues (mem s))" "fifo_ok (e_mal E) (mem s')"
    "sched_live s' = sched_live s" "ready_dest s' = ready_dest s"
proof -
  obtain m where m: "s' = s\<lparr>mem := m\<rparr>" "fifo_ok (e_mal E) m" "items m = f" "dom (queues m) = dom (queues (mem s))"
    using assms unfolding queues_become_def by blast
  show "threads s' = threads s" "stacks s' = stacks s" "tlss s' = tlss s" "mutexes s' = mutexes s" "conds s' = conds s"
    "scheds s' = scheds s" "this_sched s' = this_sched s" "cpu s' = cpu s" "umem s' = umem s" "items (mem s') = f"
    "dom (queues (mem s')) = dom (queues (mem s))" "fifo_ok (e_mal E) (mem s')"
    by (simp_all add: m)
  show t: "THIS_SCHED s' = THIS_SCHED s" by (simp add: m THIS_SCHED_def)
  then show c: "cur_sched s' = cur_sched s" by (simp add: cur_sched_def m)
  then show "THIS_LTHREAD s' = THIS_LTHREAD s" by (simp add: THIS_LTHREAD_def)
  show "sched_live s' = sched_live s" by (rule ext) (simp add: sched_live_def m)
  show "ready_dest s' = ready_dest s" by (rule ext) (simp only: ready_dest_def t, simp add: m)
qed

lemma queues_become_trans:
  "queues_become E s f t \<Longrightarrow> queues_become E t g u \<Longrightarrow> queues_become E s g u"
  unfolding queues_become_def by auto

lemma insert_step:
  assumes "mem_ok E s" "q \<in> dom (queues (mem s))"
  shows "\<exists>n s'. on_mem (lthread_queue_insert_mp (e_mal E) q d) s = Some (n, s') \<and>
    queues_become E s ((items (mem s))(q := items (mem s) q @ [d])) s'"
proof -
  have "lt_inv (mem s)" "pool_ready (mem s)" "fresh_alloc (e_mal E)" using assms(1) by (simp_all add: mem_ok_def fifo_ok_def)
  then obtain n m where r: "lthread_queue_insert_mp (e_mal E) q d (mem s) = Some (n, m)" "insert_post (e_mal E) q d (mem s) n m"
    using queue_insert_ok [of "mem s" "e_mal E" q d] assms(2) by blast
  moreover have "n \<noteq> NULL" using r(2) assms(1) unfolding insert_post_def mem_ok_def by (auto split: if_splits)
  ultimately show ?thesis
    using assms(1) unfolding insert_post_def qframe_def queues_become_def on_mem_def mem_ok_def fifo_ok_def by auto
qed

lemma remove_step:
  assumes "mem_ok E s" "q \<in> dom (queues (mem s))" "NULL \<notin> set (items (mem s) q)"
  shows "\<exists>s'. on_mem (lthread_queue_remove q) s = Some (case items (mem s) q of [] \<Rightarrow> NULL | x # _ \<Rightarrow> x, s') \<and>
    queues_become E s ((items (mem s))(q := tl (items (mem s) q))) s'"
proof -
  have I: "lt_inv (mem s)" using assms(1) by (simp add: mem_ok_def fifo_ok_def)
  have dw: "dropWhile (\<lambda>x. x = NULL) (items (mem s) q) = items (mem s) q"
    using assms(3) by (metis dropWhile_eq_self_iff hd_in_set)
  obtain d m where r: "lthread_queue_remove q (mem s) = Some (d, m)" "remove_queue_post q (mem s) d m"
    using queue_remove_ok [OF I assms(2)] by blast
  then show ?thesis
    using assms(1) unfolding remove_queue_post_def Let_def dw qframe_def queues_become_def on_mem_def mem_ok_def fifo_ok_def by auto
qed

lemma ready_insert_step:
  assumes "mem_ok E s" "sched_live s p"
  shows "\<exists>s'. ready_queue_insert E p lt s = Some s' \<and>
    queues_become E s ((items (mem s))(ready_dest s p := items (mem s) (ready_dest s p) @ [lt])) s'"
proof -
  obtain S where S: "scheds s p = Some S" "sc_ready S \<in> dom (queues (mem s))" "sc_pready S \<in> dom (queues (mem s))"
    using assms(2) unfolding sched_live_def by blast
  then have d: "ready_dest s p \<in> dom (queues (mem s))" by (simp add: ready_dest_def)
  show ?thesis
    using insert_step [OF assms(1) d, of lt] S(1)
    by (auto simp: ready_queue_insert_def insert_sp_eq_mp ready_dest_def split: if_splits)
qed

lemma queues_become_ok: "mem_ok E s \<Longrightarrow> queues_become E s f s' \<Longrightarrow> mem_ok E s'"
  by (auto simp: mem_ok_def queues_become_def)

end
