(* ===== verification/Lthread_Memory.thy ===== *)
theory Lthread_Memory
  imports Lthread_Objcache
begin

section \<open>What the lthread memory layer guarantees\<close>

text \<open>
  The properties of the node pools, queues and object caches, stated over the operations of the
  three headers with no ghost state, each with a witness at a concrete memory.
\<close>

subsection \<open>A memory and an allocator for the witnesses\<close>

definition bump :: allocator where
  "bump s = (if finite (allocated s) then Some (Suc (Max (insert 0 (allocated s)))) else None)"

lemma bump_fresh: "fresh_alloc bump"
proof -
  have "a \<notin> allocated s" if "finite (allocated s)" "a = Suc (Max (insert 0 (allocated s)))" for s a
  proof
    assume "a \<in> allocated s"
    then have "a \<le> Max (insert 0 (allocated s))" using that(1) by (intro Max_ge) auto
    then show False using that(2) by simp
  qed
  then show ?thesis unfolding fresh_alloc_def bump_def by (auto split: if_splits)
qed

lemma bump_gives: "\<not> refuses bump"
  by (simp add: refuses_def bump_def)

text \<open>One pool with its stub, one empty queue, and one empty cache that refills by two.\<close>

definition demo_node :: qnode where
  "demo_node = \<lparr>qn_next = NULL, qn_data = NULL, qn_pool = 10\<rparr>"

definition demo_mem :: "int \<Rightarrow> lmem" where
  "demo_mem k = \<lparr>nodes = [1 \<mapsto> demo_node, 2 \<mapsto> demo_node, 3 \<mapsto> demo_node],
     pools = [10 \<mapsto> \<lparr>qp_head = 1, qp_stub = 1, qp_fast_alloc = NULL, qp_tail = 1, qp_pre_alloc = k, qp_name = ''p''\<rparr>],
     queues = [20 \<mapsto> \<lparr>lq_head = 2, lq_tail = 2, lq_name = ''q''\<rparr>, 21 \<mapsto> \<lparr>lq_head = 3, lq_tail = 3, lq_name = ''c''\<rparr>],
     caches = [30 \<mapsto> \<lparr>oc_q = 21, oc_obj_size = 64, oc_prealloc_size = 2, oc_name = ''c''\<rparr>],
     objs = Map.empty, raw = {}, cur_pool = 10\<rparr>"

definition demo_ghost :: ghost where
  "demo_ghost = \<lparr>own = (\<lambda>_. Loose)(1 := InPool 10, 2 := InQueue 20, 3 := InQueue 21), pch = (\<lambda>_. [1]),
     qch = (\<lambda>q. if q = 20 then [2] else [3])\<rparr>"

lemma demo_rel: "mem_rel (demo_mem k) demo_ghost"
  by (auto simp: mem_rel_def demo_mem_def demo_ghost_def demo_node_def pool_rel_def queue_rel_def owned_ok_def
      is_chain_def nexts_def allocated_def pool_side_def split: if_splits)

lemma demo_inv: "lt_inv (demo_mem k)"
  using demo_rel unfolding lt_inv_def by blast

lemma demo_ready: "2 \<le> k \<Longrightarrow> pool_ready (demo_mem k)"
  by (simp add: pool_ready_def demo_mem_def)

lemma demo_pool: "pools (demo_mem k) 10 = Some \<lparr>qp_head = 1, qp_stub = 1, qp_fast_alloc = NULL, qp_tail = 1, qp_pre_alloc = k, qp_name = ''p''\<rparr>"
  by (simp add: demo_mem_def)

lemma demo_queues: "dom (queues (demo_mem k)) = {20, 21}" "queues (demo_mem k) 20 = Some \<lparr>lq_head = 2, lq_tail = 2, lq_name = ''q''\<rparr>"
  by (auto simp: demo_mem_def)

lemma demo_items: "items (demo_mem k) q = []"
proof (cases "queues (demo_mem k) q")
  case (Some Q)
  then show ?thesis using items_eq [OF demo_rel Some] by (simp add: demo_ghost_def)
qed (simp add: items_def)

lemma demo_cache: "cache_inv (demo_mem 4)"
  using demo_inv demo_ready [of 4] demo_items [of 4]
  by (auto simp: cache_inv_def) (auto simp: demo_mem_def split: if_splits)

subsection \<open>Node pools\<close>

text \<open>The free nodes of a pool, oldest first.\<close>

definition pool_free :: "lmem \<Rightarrow> addr \<Rightarrow> addr list" where
  "pool_free s p = (case pools s p of None \<Rightarrow> []
     | Some P \<Rightarrow> filter (\<lambda>a. a \<noteq> qp_stub P) (chain_from (nexts s) (qp_tail P)))"

lemma pool_free_eq:
  assumes "mem_rel s g" "pools s p = Some P"
  shows "pool_free s p = pfree s g p"
proof -
  note C = pool_chain [OF assms]
  have "NULL \<notin> set (pch g p)" using owned_node [OF assms(1), of NULL] C(2) [of NULL] by (metis owner.distinct(1))
  then have "chain_from (nexts s) (qp_tail P) = pch g p" using C by (intro chain_from_eq) auto
  then show ?thesis by (simp add: pool_free_def pfree_def assms(2))
qed

text \<open>\<open>_qnode_pool_remove\<close> always returns, whatever the pool holds; it keeps the memory well
  formed and every queue unchanged. With two or more free nodes it hands out the oldest; with one
  or none it gives NULL and keeps what it has: the test \<open>if (tail == head) return NULL\<close> makes the
  last free node unreachable.\<close>

theorem pool_remove_contract:
  assumes "lt_inv s" "pools s p = Some P"
  shows "\<exists>n s'. qnode_pool_remove p s = Some (n, s') \<and> lt_inv s' \<and> items s' = items s \<and>
    (if length (pool_free s p) \<le> 1 then n = NULL \<and> pool_free s' p = pool_free s p
     else n = hd (pool_free s p) \<and> n \<noteq> NULL \<and> pool_free s' p = tl (pool_free s p))"
proof -
  obtain g where R: "mem_rel s g" using assms(1) unfolding lt_inv_def by blast
  obtain n s' g' where r: "qnode_pool_remove p s = Some (n, s')" "remove_post s g p n s' g'"
    using qnode_pool_remove_ok [OF R assms(2)] by blast
  then have m: "mem_rel s' g'" "frame s s'" "gframe s g g'" unfolding remove_post_def by blast+
  obtain P' where P': "pools s' p = Some P'" using m(2) assms(2) unfolding frame_def by blast
  have "items s' = items s" using frame_items [OF R m(1,2)] m(3) by (auto simp: gframe_def)
  then show ?thesis
    using r m(1) pool_free_eq [OF R assms(2)] pool_free_eq [OF m(1) P'] unfolding remove_post_def lt_inv_def
    by (intro exI [of _ n] exI [of _ s']) (auto split: if_splits)
qed

theorem pool_remove_contract_witness:
  "\<exists>n s'. qnode_pool_remove 10 (demo_mem 4) = Some (n, s') \<and> lt_inv s' \<and> items s' = items (demo_mem 4) \<and>
    (if length (pool_free (demo_mem 4) 10) \<le> 1 then n = NULL \<and> pool_free s' 10 = pool_free (demo_mem 4) 10
     else n = hd (pool_free (demo_mem 4) 10) \<and> n \<noteq> NULL \<and> pool_free s' 10 = tl (pool_free (demo_mem 4) 10))"
  by (rule pool_remove_contract [OF demo_inv demo_pool])



text \<open>With \<open>prealloc_size\<close> 1 the same routine is unsafe: on an empty pool it allocates one node,
  cannot get it back out of the pool, and writes \<open>pool\<close> through the NULL it got.\<close>

theorem alloc_one_faults:
  assumes "lt_inv s" "pools s (cur_pool s) = Some P" "qp_pre_alloc P = 1" "qp_fast_alloc P = NULL"
    "pool_free s (cur_pool s) = []" "fresh_alloc mal" "\<not> refuses mal"
  shows "qnode_alloc mal s = None"
proof -
  let ?p = "cur_pool s"
  obtain g where R: "mem_rel s g" using assms(1) unfolding lt_inv_def by blast
  have f: "pfree s g ?p = []" using pool_free_eq [OF R assms(2)] assms(5) by simp
  obtain n s1 g1 where r: "qnode_pool_remove ?p s = Some (n, s1)" "remove_post s g ?p n s1 g1"
    using qnode_pool_remove_ok [OF R assms(2)] by blast
  then have m: "mem_rel s1 g1" "frame s s1" "n = NULL" "pfree s1 g1 ?p = []" using f unfolding remove_post_def by auto
  obtain P1 where P1: "pools s1 ?p = Some P1" using m(2) assms(2) unfolding frame_def by blast
  obtain s2 g2 where L: "prealloc_nodes mal ?p 1 s1 = Some (True, s2)" "mem_rel s2 g2" "frame s1 s2"
    "length (pfree s2 g2 ?p) = 1"
    using prealloc_nodes_ok [OF m(1) P1 assms(6), of 1] m(4) assms(7) by auto
  obtain P2 where P2: "pools s2 ?p = Some P2" using L(3) P1 unfolding frame_def by blast
  obtain n3 s3 g3 where r3: "qnode_pool_remove ?p s2 = Some (n3, s3)" "remove_post s2 g2 ?p n3 s3 g3"
    using qnode_pool_remove_ok [OF L(2) P2] by blast
  then have "n3 = NULL" "nodes s3 NULL = None" using L(4) mem_relD(1) unfolding remove_post_def by auto
  then show ?thesis
    using assms(2-4) r(1) m(3) L(1) r3(1) by (simp add: qnode_alloc_def Let_def set_pool_def)
qed

theorem alloc_one_faults_witness: "qnode_alloc bump (demo_mem 1) = None"
proof (rule alloc_one_faults [OF demo_inv _ _ _ _ bump_fresh bump_gives])
  show "pools (demo_mem 1) (cur_pool (demo_mem 1)) =
    Some \<lparr>qp_head = 1, qp_stub = 1, qp_fast_alloc = NULL, qp_tail = 1, qp_pre_alloc = 1, qp_name = ''p''\<rparr>"
    by (simp add: demo_mem_def)
  show "pool_free (demo_mem 1) (cur_pool (demo_mem 1)) = []"
    using pool_free_eq [OF demo_rel demo_pool] by (simp add: demo_mem_def pfree_def demo_ghost_def)
qed simp_all

subsection \<open>Queues\<close>

text \<open>C1. Whatever the sequence of inserts and polls on whatever queues of a scheduler, every call
  returns, nothing is lost or delivered twice, and each queue delivers in the order of its
  successful inserts.\<close>

theorem queue_conservation:
  assumes "lt_inv s" "pool_ready s" "fresh_alloc mal" "ops_ok (dom (queues s)) ops" "\<And>q. NULL \<notin> set (items s q)"
  shows "\<exists>i p s'. run_qops (lthread_queue_insert_mp mal) lthread_queue_poll ops s = Some (i, p, s') \<and> lt_inv s' \<and>
    (\<forall>q. items s q @ sent q i = sent q p @ items s' q)"
  using ltq.conservation [of mal s ops] assms unfolding fifo_ok_def by blast

theorem queue_conservation_witness:
  "\<exists>i p s'. run_qops (lthread_queue_insert_mp bump) lthread_queue_poll [QInsert 20 7, QInsert 20 8, QPoll 20] (demo_mem 4) =
     Some (i, p, s') \<and> lt_inv s' \<and> (\<forall>q. items (demo_mem 4) q @ sent q i = sent q p @ items s' q)"
  by (rule queue_conservation [OF demo_inv _ bump_fresh]) (simp_all add: demo_ready demo_queues demo_items ops_ok_def)

text \<open>\<open>_lthread_queue_insert_mp\<close> either appends the datum at the end of the one queue, or returns
  NULL with every queue as it was, and then only because the allocator refused a block; the single
  producer variant is the same function.\<close>

theorem queue_insert_contract:
  assumes "lt_inv s" "pool_ready s" "fresh_alloc mal" "q \<in> dom (queues s)"
  shows "lthread_queue_insert_sp mal q d s = lthread_queue_insert_mp mal q d s \<and>
    (\<exists>n s'. lthread_queue_insert_mp mal q d s = Some (n, s') \<and> lt_inv s' \<and> pool_ready s' \<and>
      dom (queues s') = dom (queues s) \<and> (n = NULL \<longrightarrow> refuses mal) \<and>
      items s' = (if n = NULL then items s else (items s)(q := items s q @ [d])))"
proof -
  obtain n s' where "lthread_queue_insert_mp mal q d s = Some (n, s')" "insert_post mal q d s n s'"
    using queue_insert_ok [OF assms(1,3,2,4)] by blast
  then show ?thesis
    using assms(2) unfolding insert_sp_eq_mp insert_post_def qframe_def
    by (intro conjI refl exI [of _ n] exI [of _ s']) (auto split: if_splits)
qed

theorem queue_insert_contract_witness:
  "lthread_queue_insert_sp bump 20 7 (demo_mem 4) = lthread_queue_insert_mp bump 20 7 (demo_mem 4) \<and>
    (\<exists>n s'. lthread_queue_insert_mp bump 20 7 (demo_mem 4) = Some (n, s') \<and> lt_inv s' \<and> pool_ready s' \<and>
      dom (queues s') = dom (queues (demo_mem 4)) \<and> (n = NULL \<longrightarrow> refuses bump) \<and>
      items s' = (if n = NULL then items (demo_mem 4) else (items (demo_mem 4))(20 := items (demo_mem 4) 20 @ [7])))"
  by (rule queue_insert_contract [OF demo_inv _ bump_fresh]) (simp_all add: demo_ready demo_queues)

text \<open>\<open>_lthread_queue_remove\<close> terminates on every queue and gives the first datum that is not
  NULL, dropping the NULLs before it; NULL exactly when there is no such datum.\<close>

theorem queue_remove_contract:
  assumes "lt_inv s" "q \<in> dom (queues s)"
  shows "\<exists>d s'. lthread_queue_remove q s = Some (d, s') \<and> lt_inv s' \<and>
    (let r = dropWhile (\<lambda>x. x = NULL) (items s q) in
     d = (case r of [] \<Rightarrow> NULL | x # _ \<Rightarrow> x) \<and> items s' = (items s)(q := tl r))"
  using queue_remove_ok [OF assms] unfolding remove_queue_post_def by blast

theorem queue_remove_contract_witness:
  "\<exists>d s'. lthread_queue_remove 20 (demo_mem 4) = Some (d, s') \<and> lt_inv s' \<and>
    (let r = dropWhile (\<lambda>x. x = NULL) (items (demo_mem 4) 20) in
     d = (case r of [] \<Rightarrow> NULL | x # _ \<Rightarrow> x) \<and> items s' = (items (demo_mem 4))(20 := tl r))"
  by (rule queue_remove_contract [OF demo_inv]) (simp add: demo_queues)

text \<open>C5. Lifecycle of a queue: creating one gives a fresh empty queue and leaves the others alone,
  destroying it again brings back the old queues and contents, and a queue that holds an element
  is not destroyed.\<close>

theorem queue_lifecycle:
  assumes "lt_inv s" "pool_ready s" "fresh_alloc mal" "\<not> refuses mal"
  shows "\<exists>q s1 s2. lthread_queue_create mal name s = Some (q, s1) \<and> q \<noteq> NULL \<and> q \<notin> dom (queues s) \<and>
     items s1 = (items s)(q := []) \<and> lthread_queue_destroy q s1 = Some (0, s2) \<and> lt_inv s2 \<and>
     dom (queues s2) = dom (queues s) \<and> items s2 = items s \<and>
     (\<forall>q'. q' \<in> dom (queues s) \<longrightarrow> q' \<noteq> NULL \<longrightarrow> items s q' \<noteq> [] \<longrightarrow> lthread_queue_destroy q' s = Some (-1, s))"
proof -
  obtain q s1 where c: "lthread_queue_create mal name s = Some (q, s1)" "create_post s q s1"
    using queue_create_ok [OF assms(1,3,2,4)] by blast
  then have m: "lt_inv s1" "q \<noteq> NULL" "dom (queues s1) = insert q (dom (queues s))" "items s1 = (items s)(q := [])"
    "q \<notin> dom (queues s)"
    unfolding create_post_def allocated_def by auto
  then obtain Q where Q: "queues s1 q = Some Q" by blast
  obtain s2 where d: "lthread_queue_destroy q s1 = Some (0, s2)" "lt_inv s2" "dom (queues s2) = dom (queues s1) - {q}"
    "items s2 = items s1"
    using queue_destroy_ok(2) [OF m(1) Q m(2)] m(4) by auto
  have "items s q = []" using m(5) by (simp add: items_def domIff)
  moreover have "lthread_queue_destroy q' s = Some (-1, s)" if "q' \<in> dom (queues s)" "q' \<noteq> NULL" "items s q' \<noteq> []" for q'
    using queue_destroy_ok(1) [OF assms(1)] that by blast
  ultimately show ?thesis using c(1) m d by (intro exI [of _ q] exI [of _ s1] exI [of _ s2]) (auto simp: fun_eq_iff)
qed

theorem queue_lifecycle_witness:
  "\<exists>q s1 s2. lthread_queue_create bump ''n'' (demo_mem 4) = Some (q, s1) \<and> q \<noteq> NULL \<and> q \<notin> dom (queues (demo_mem 4)) \<and>
     items s1 = (items (demo_mem 4))(q := []) \<and> lthread_queue_destroy q s1 = Some (0, s2) \<and> lt_inv s2 \<and>
     dom (queues s2) = dom (queues (demo_mem 4)) \<and> items s2 = items (demo_mem 4) \<and>
     (\<forall>q'. q' \<in> dom (queues (demo_mem 4)) \<longrightarrow> q' \<noteq> NULL \<longrightarrow> items (demo_mem 4) q' \<noteq> [] \<longrightarrow>
        lthread_queue_destroy q' (demo_mem 4) = Some (-1, demo_mem 4))"
  by (rule queue_lifecycle [OF demo_inv _ bump_fresh bump_gives]) (simp add: demo_ready)

subsection \<open>Object caches\<close>

text \<open>C6. Any number of allocations from any caches of a scheduler return; the objects they give are
  pairwise distinct, in no cache, and none of them is one that somebody already holds.\<close>

theorem cache_allocs_distinct:
  assumes "cache_inv s" "fresh_alloc mal" "set cs \<subseteq> dom (caches s)"
  shows "\<exists>ds s'. alloc_many (lthread_objcache_alloc mal) cs s = Some (ds, s') \<and> cache_inv s' \<and> distinct ds \<and>
    set ds \<inter> taken s = {} \<and> set ds \<union> taken s \<subseteq> taken s'"
  using cst.get_many [of mal s cs] assms unfolding store_ok_def by blast

theorem cache_allocs_distinct_witness:
  "\<exists>ds s'. alloc_many (lthread_objcache_alloc bump) [30, 30, 30] (demo_mem 4) = Some (ds, s') \<and> cache_inv s' \<and> distinct ds \<and>
    set ds \<inter> taken (demo_mem 4) = {} \<and> set ds \<union> taken (demo_mem 4) \<subseteq> taken s'"
  by (rule cache_allocs_distinct [OF demo_cache bump_fresh]) (simp add: demo_mem_def)

end
