(* ===== verification/Lthread_Mutex.thy ===== *)
theory Lthread_Mutex
  imports Lthread_Sync Lthread_Memory
begin

section \<open>What the mutexes and condition variables guarantee\<close>

subsection \<open>The invariant of a mutex\<close>

text \<open>
  The count of a mutex is the number of threads in its blocked queue plus one for the owner. \<open>L\<close> is
  a set of threads that use it, none of them about to be queued.
\<close>

definition waiting :: "lsys \<Rightarrow> addr \<Rightarrow> addr list" where
  "waiting s m = items (mem s) (mx_blocked (mutex_at s m))"

definition mutex_owner :: "lsys \<Rightarrow> addr \<Rightarrow> addr" where
  "mutex_owner s m = mx_owner (mutex_at s m)"

definition queue_private :: "lsys \<Rightarrow> addr \<Rightarrow> bool" where
  "queue_private s q \<longleftrightarrow> q \<noteq> NULL \<and> q \<in> dom (queues (mem s)) \<and>
     (\<forall>p S. scheds s p = Some S \<longrightarrow> sc_ready S \<noteq> q \<and> sc_pready S \<noteq> q)"

definition known_threads :: "lsys \<Rightarrow> addr set \<Rightarrow> bool" where
  "known_threads s L \<longleftrightarrow> NULL \<notin> L \<and> (\<forall>u\<in>L. \<exists>T. threads s u = Some T \<and> pending_wr_queue T = NULL \<and> sched_live s (lt_sched T))"

definition mutex_inv :: "lenv \<Rightarrow> addr \<Rightarrow> addr set \<Rightarrow> lsys \<Rightarrow> bool" where
  "mutex_inv E m L s \<longleftrightarrow>
     mem_ok E s \<and> m \<noteq> NULL \<and> m \<in> dom (mutexes s) \<and> cur_sched s \<noteq> None \<and> queue_private s (mx_blocked (mutex_at s m)) \<and>
     mx_count (mutex_at s m) = int (length (waiting s m)) + (if mutex_owner s m = NULL then 0 else 1) \<and>
     set (waiting s m) \<subseteq> L \<and> known_threads s L"

lemma mutex_invD:
  assumes "mutex_inv E m L s"
  obtains M where "mutexes s m = Some M" "mutex_at s m = M" "m \<noteq> NULL" "mem_ok E s" "mx_blocked M \<noteq> NULL"
    "mx_blocked M \<in> dom (queues (mem s))" "waiting s m = items (mem s) (mx_blocked M)" "mutex_owner s m = mx_owner M"
    "mx_count M = int (length (waiting s m)) + (if mx_owner M = NULL then 0 else 1)" "NULL \<notin> set (waiting s m)"
    "set (waiting s m) \<subseteq> L" "known_threads s L" "queue_private s (mx_blocked M)"
proof -
  obtain M where M: "mutexes s m = Some M" using assms unfolding mutex_inv_def by blast
  then have at: "mutex_at s m = M" by (simp add: mutex_at_def)
  have "set (waiting s m) \<subseteq> L" "known_threads s L" using assms by (simp_all add: mutex_inv_def)
  then have "NULL \<notin> set (waiting s m)" unfolding known_threads_def by blast
  then show thesis
    using that M at assms by (simp add: mutex_inv_def waiting_def mutex_owner_def queue_private_def)
qed

text \<open>What the invariant depends on: equal queues of the schedulers, equal fields of the threads.\<close>

definition same_scheds :: "lsys \<Rightarrow> lsys \<Rightarrow> bool" where
  "same_scheds s s' \<longleftrightarrow> (\<forall>p. map_option (\<lambda>S. (sc_ready S, sc_pready S)) (scheds s' p) = map_option (\<lambda>S. (sc_ready S, sc_pready S)) (scheds s p)) \<and>
     this_sched s' = this_sched s \<and> cpu s' = cpu s"

lemma same_schedsD:
  assumes "same_scheds s s'" "dom (queues (mem s')) = dom (queues (mem s))"
  shows "sched_live s' = sched_live s" "ready_dest s' = ready_dest s" "queue_private s' = queue_private s"
    "(cur_sched s' = None) = (cur_sched s = None)" "THIS_SCHED s' = THIS_SCHED s"
proof -
  have eq: "map_option (\<lambda>S. (sc_ready S, sc_pready S)) (scheds s' p) = map_option (\<lambda>S. (sc_ready S, sc_pready S)) (scheds s p)" for p
    using assms(1) by (simp add: same_scheds_def)
  have sp: "(\<exists>S. scheds s' p = Some S \<and> P (sc_ready S) (sc_pready S)) = (\<exists>S. scheds s p = Some S \<and> P (sc_ready S) (sc_pready S))" for p P
    using eq [of p] by (cases "scheds s' p"; cases "scheds s p") auto
  have al: "(\<forall>S. scheds s' p = Some S \<longrightarrow> P (sc_ready S) (sc_pready S)) = (\<forall>S. scheds s p = Some S \<longrightarrow> P (sc_ready S) (sc_pready S))" for p P
    using eq [of p] by (cases "scheds s' p"; cases "scheds s p") auto
  show t: "THIS_SCHED s' = THIS_SCHED s" using assms(1) by (simp add: same_scheds_def THIS_SCHED_def)
  show "sched_live s' = sched_live s"
    using sp [where P = "\<lambda>a b. a \<in> dom (queues (mem s)) \<and> b \<in> dom (queues (mem s))"]
    by (intro ext) (simp only: sched_live_def assms(2))
  show "queue_private s' = queue_private s"
    using al [where P = "\<lambda>a b. a \<noteq> q \<and> b \<noteq> q" for q] by (intro ext) (simp only: queue_private_def assms(2))
  show "(cur_sched s' = None) = (cur_sched s = None)"
    using eq [of "THIS_SCHED s"] t by (cases "scheds s' (THIS_SCHED s)"; cases "scheds s (THIS_SCHED s)") (simp_all add: cur_sched_def)
  show "ready_dest s' = ready_dest s"
  proof
    fix p show "ready_dest s' p = ready_dest s p"
      using eq [of p] t by (cases "scheds s' p"; cases "scheds s p") (simp_all add: ready_dest_def)
  qed
qed

lemma known_threads_cong:
  assumes "sched_live s' = sched_live s"
    "\<And>u T. u \<in> L \<Longrightarrow> threads s u = Some T \<Longrightarrow> pending_wr_queue T = NULL \<Longrightarrow> \<exists>T'. threads s' u = Some T' \<and> pending_wr_queue T' = NULL \<and> lt_sched T' = lt_sched T"
    "known_threads s L"
  shows "known_threads s' L"
  using assms unfolding known_threads_def by metis

text \<open>A step of an operation keeps the invariant when it changes the mutex and its queue in step.\<close>

lemma mutex_inv_step:
  assumes I: "mutex_inv E m L s" and same: "same_scheds s s'" "dom (queues (mem s')) = dom (queues (mem s))"
    "mem_ok E s'" and M: "mutexes s' m = Some M'" "mx_blocked M' = mx_blocked (mutex_at s m)"
    and cnt: "mx_count M' = int (length (items (mem s') (mx_blocked M'))) + (if mx_owner M' = NULL then 0 else 1)"
    and w: "set (items (mem s') (mx_blocked M')) \<subseteq> L"
    and T: "\<And>u T. u \<in> L \<Longrightarrow> threads s u = Some T \<Longrightarrow> pending_wr_queue T = NULL \<Longrightarrow>
      \<exists>T'. threads s' u = Some T' \<and> pending_wr_queue T' = NULL \<and> lt_sched T' = lt_sched T"
  shows "mutex_inv E m L s'"
proof -
  note S = same_schedsD [OF same(1,2)]
  have at: "mutex_at s' m = M'" using M by (simp add: mutex_at_def)
  have "known_threads s' L"
    by (rule known_threads_cong [OF S(1) T]) (use I in \<open>simp_all add: mutex_inv_def\<close>)
  then show ?thesis
    using I S(3,4) same(3) M cnt w by (simp add: mutex_inv_def at waiting_def mutex_owner_def domIff)
qed

lemma same_scheds_refl [simp]: "same_scheds s s" "same_scheds s (s\<lparr>mem := x\<rparr>)" "same_scheds s (s\<lparr>mutexes := y\<rparr>)"
  "same_scheds s (s\<lparr>mutexes := y, mem := x\<rparr>)" "same_scheds s (s\<lparr>mem := x, mutexes := y\<rparr>)" "same_scheds s (s\<lparr>threads := z\<rparr>)"
  by (simp_all add: same_scheds_def)

subsection \<open>Unlocking\<close>

text \<open>Taking the first blocked thread and making it ready on its scheduler.\<close>

lemma unlock_wake_ok:
  assumes ok: "mem_ok E s" and M: "mutexes s m = Some M" "mx_blocked M \<in> dom (queues (mem s))"
    and c: "mx_count M = int (length (items (mem s) (mx_blocked M)))" and nn: "NULL \<notin> set (items (mem s) (mx_blocked M))"
    and w: "\<forall>u\<in>set (items (mem s) (mx_blocked M)). \<exists>T. threads s u = Some T \<and> sched_live s (lt_sched T)"
  shows "items (mem s) (mx_blocked M) = [] \<Longrightarrow> unlock_wake E m s = Some s"
    "items (mem s) (mx_blocked M) = u # us \<Longrightarrow> threads s u = Some T \<Longrightarrow>
      \<exists>s'. unlock_wake E m s = Some s' \<and>
        queues_become E (s\<lparr>mutexes := (mutexes s)(m \<mapsto> M\<lparr>mx_count := mx_count M - 1\<rparr>)\<rparr>)
          (let f = (items (mem s))(mx_blocked M := us); d = ready_dest s (lt_sched T) in f(d := f d @ [u])) s'"
proof -
  let ?q = "mx_blocked M"
  show "items (mem s) ?q = [] \<Longrightarrow> unlock_wake E m s = Some s"
    using M c by (subst unlock_wake.simps) simp
  assume it: "items (mem s) ?q = u # us" and T: "threads s u = Some T"
  obtain s1 where s1: "on_mem (lthread_queue_remove ?q) s = Some (u, s1)" "queues_become E s ((items (mem s))(?q := us)) s1"
    using remove_step [OF ok M(2) nn] it by auto
  note D = queues_becomeD [OF s1(2)]
  let ?s2 = "s1\<lparr>mutexes := (mutexes s)(m \<mapsto> M\<lparr>mx_count := mx_count M - 1\<rparr>)\<rparr>"
  have u: "upd_mutex m (\<lambda>M. M\<lparr>mx_count := mx_count M - 1\<rparr>) s1 = Some ?s2" using M(1) by (simp add: upd_mutex_def D(4))
  have live: "sched_live s (lt_sched T)" using w it T by auto
  have S2: "same_scheds s1 ?s2" "same_scheds s s1"
    using D by (simp_all add: same_scheds_def)
  have l2: "sched_live ?s2 (lt_sched T)" using same_schedsD(1) [OF S2(1)] D(16) live by simp
  have ok2: "mem_ok E ?s2" using queues_become_ok [OF ok s1(2)] by (simp add: mem_ok_def)
  obtain s3 where s3: "ready_queue_insert E (lt_sched T) u ?s2 = Some s3"
    "queues_become E ?s2 ((items (mem ?s2))(ready_dest ?s2 (lt_sched T) := items (mem ?s2) (ready_dest ?s2 (lt_sched T)) @ [u])) s3"
    using ready_insert_step [OF ok2 l2] by blast
  have un: "u \<noteq> NULL" using nn it by auto
  have "unlock_wake E m s = Some s3"
    using M(1) c it s1(1) u un s3(1) T D(1) by (subst unlock_wake.simps) simp
  moreover have rd: "ready_dest ?s2 = ready_dest s"
    using same_schedsD(2) [OF S2(1)] D(17) by simp
  moreover obtain mm where mm: "s1 = s\<lparr>mem := mm\<rparr>" "fifo_ok (e_mal E) mm" "dom (queues mm) = dom (queues (mem s))" "caches mm = caches (mem s)"
    "objs mm = objs (mem s)"
    using s1(2) unfolding queues_become_def by blast
  then have "queues_become E (s\<lparr>mutexes := (mutexes s)(m \<mapsto> M\<lparr>mx_count := mx_count M - 1\<rparr>)\<rparr>) (items (mem ?s2)) ?s2"
    unfolding queues_become_def by (intro exI [of _ mm]) simp
  from queues_become_trans [OF this s3(2)] have "queues_become E (s\<lparr>mutexes := (mutexes s)(m \<mapsto> M\<lparr>mx_count := mx_count M - 1\<rparr>)\<rparr>)
      ((items (mem ?s2))(ready_dest s (lt_sched T) := items (mem ?s2) (ready_dest s (lt_sched T)) @ [u])) s3"
    by (simp only: rd)
  ultimately show "\<exists>s'. unlock_wake E m s = Some s' \<and>
      queues_become E (s\<lparr>mutexes := (mutexes s)(m \<mapsto> M\<lparr>mx_count := mx_count M - 1\<rparr>)\<rparr>)
        (let f = (items (mem s))(mx_blocked M := us); d = ready_dest s (lt_sched T) in f(d := f d @ [u])) s'"
    using D(13) by (simp add: Let_def)
qed

lemma ready_dest_private:
  assumes "queue_private s q" "sched_live s p"
  shows "ready_dest s p \<noteq> q" "ready_dest s p \<in> dom (queues (mem s))"
proof -
  obtain S where S: "scheds s p = Some S" "sc_ready S \<in> dom (queues (mem s))" "sc_pready S \<in> dom (queues (mem s))"
    using assms(2) unfolding sched_live_def by blast
  then have "sc_ready S \<noteq> q" "sc_pready S \<noteq> q" using assms(1) unfolding queue_private_def by blast+
  then show "ready_dest s p \<noteq> q" "ready_dest s p \<in> dom (queues (mem s))" using S by (simp_all add: ready_dest_def)
qed

text \<open>What an unlock does to the queues.\<close>

definition after_unlock :: "lsys \<Rightarrow> addr \<Rightarrow> addr \<Rightarrow> addr list" where
  "after_unlock s m = (case waiting s m of [] \<Rightarrow> items (mem s)
     | u # us \<Rightarrow> let d = ready_dest s (lt_sched (the (threads s u))) in
         (items (mem s))(mx_blocked (mutex_at s m) := us, d := items (mem s) d @ [u]))"

lemma unlock_ok:
  assumes I: "mutex_inv E m L s" and own: "THIS_LTHREAD s = Some (mutex_owner s m)" "mutex_owner s m \<noteq> NULL"
  shows "\<exists>s'. lthread_mutex_unlock E m s = Some (0, s') \<and> mutex_inv E m L s' \<and> mutex_owner s' m = NULL \<and>
    threads s' = threads s \<and> items (mem s') = after_unlock s m \<and> scheds s' = scheds s \<and> THIS_SCHED s' = THIS_SCHED s \<and>
    waiting s' m = tl (waiting s m)"
proof -
  obtain M where M: "mutexes s m = Some M" "mutex_at s m = M" "m \<noteq> NULL" "mem_ok E s" "mx_blocked M \<noteq> NULL"
    "mx_blocked M \<in> dom (queues (mem s))" "waiting s m = items (mem s) (mx_blocked M)" "mutex_owner s m = mx_owner M"
    "mx_count M = int (length (waiting s m)) + (if mx_owner M = NULL then 0 else 1)" "NULL \<notin> set (waiting s m)"
    "set (waiting s m) \<subseteq> L" "known_threads s L" "queue_private s (mx_blocked M)"
    by (rule mutex_invD [OF I])
  let ?q = "mx_blocked M" and ?M1 = "M\<lparr>mx_count := mx_count M - 1\<rparr>"
  let ?s1 = "s\<lparr>mutexes := (mutexes s)(m \<mapsto> ?M1)\<rparr>"
  have u1: "upd_mutex m (\<lambda>M. M\<lparr>mx_count := mx_count M - 1\<rparr>) s = Some ?s1" using M(1) by (simp add: upd_mutex_def)
  have S: "same_scheds s ?s1" by simp
  note SD = same_schedsD [OF S]
  have known: "\<exists>T. threads s u = Some T \<and> sched_live s (lt_sched T)" if "u \<in> set (waiting s m)" for u
    using that M(11,12) unfolding known_threads_def by blast
  show ?thesis
  proof (cases "waiting s m")
    case Nil
    let ?s2 = "s\<lparr>mutexes := (mutexes s)(m \<mapsto> ?M1\<lparr>mx_owner := NULL\<rparr>)\<rparr>"
    have w0: "items (mem s) ?q = []" using M(7) Nil by simp
    have "unlock_wake E m ?s1 = Some ?s1"
      by (rule unlock_wake_ok(1) [where M = ?M1]) (use M(4,6,8,9) w0 Nil own(2) in \<open>simp_all add: mem_ok_def\<close>)
    then have r: "lthread_mutex_unlock E m s = Some (0, ?s2)"
      using M own u1 by (simp add: lthread_mutex_unlock_def) (simp add: upd_mutex_def)
    have "mutex_inv E m L ?s2"
      by (rule mutex_inv_step [OF I, where M' = "?M1\<lparr>mx_owner := NULL\<rparr>"])
        (use M(2,4) w0 own(2) M(8,9) Nil in \<open>simp_all add: mem_ok_def\<close>)
    then show ?thesis using r Nil
      by (intro exI [of _ ?s2]) (simp add: mutex_owner_def mutex_at_def after_unlock_def waiting_def THIS_SCHED_def M(1))
  next
    case (Cons u us)
    obtain T where T: "threads s u = Some T" "sched_live s (lt_sched T)" using known [of u] Cons by auto
    let ?d = "ready_dest s (lt_sched T)"
    note P = ready_dest_private [OF M(13) T(2)]
    have lv: "sched_live ?s1 = sched_live s" "ready_dest ?s1 = ready_dest s" using SD by simp_all
    have w: "items (mem ?s1) (mx_blocked ?M1) = u # us" using M(7) Cons by simp
    have p1: "mem_ok E ?s1" using M(4) by (simp add: mem_ok_def)
    have p2: "mutexes ?s1 m = Some ?M1" by simp
    have p3: "mx_blocked ?M1 \<in> dom (queues (mem ?s1))" using M(6) by simp
    have p4: "mx_count ?M1 = int (length (items (mem ?s1) (mx_blocked ?M1)))" using M(7,8,9) own(2) by simp
    have p5: "NULL \<notin> set (items (mem ?s1) (mx_blocked ?M1))" using M(7,10) by simp
    have p6: "\<forall>v\<in>set (items (mem ?s1) (mx_blocked ?M1)). \<exists>T. threads ?s1 v = Some T \<and> sched_live ?s1 (lt_sched T)"
      using known M(7) unfolding lv by simp
    have p7: "threads ?s1 u = Some T" using T(1) by simp
    obtain s2 where s2: "unlock_wake E m ?s1 = Some s2" "queues_become E (?s1\<lparr>mutexes := (mutexes ?s1)(m \<mapsto> ?M1\<lparr>mx_count := mx_count ?M1 - 1\<rparr>)\<rparr>)
        (let f = (items (mem ?s1))(mx_blocked ?M1 := us); d = ready_dest ?s1 (lt_sched T) in f(d := f d @ [u])) s2"
      using unlock_wake_ok(2) [OF p1 p2 p3 p4 p5 p6 w p7] by (elim exE conjE) (rule that, assumption, assumption)
    note D = queues_becomeD [OF s2(2)]
    let ?M2 = "?M1\<lparr>mx_count := mx_count M - 2, mx_owner := NULL\<rparr>"
    let ?s3 = "s2\<lparr>mutexes := (mutexes s)(m \<mapsto> ?M2)\<rparr>"
    have r: "lthread_mutex_unlock E m s = Some (0, ?s3)"
      using M own u1 s2(1) D(4) by (simp add: lthread_mutex_unlock_def) (simp add: upd_mutex_def)
    have it: "items (mem s2) = (items (mem s))(?q := us, ?d := items (mem s) ?d @ [u])"
      using D(13) P(1) lv by (simp add: Let_def)
    have sc: "scheds s2 = scheds s" "THIS_SCHED s2 = THIS_SCHED s" "threads s2 = threads s"
      using D(1,6,10) by (simp_all add: THIS_SCHED_def)
    have dq: "dom (queues (mem ?s3)) = dom (queues (mem s))" using D(14) by simp
    have sm: "same_scheds s ?s3" using D by (simp add: same_scheds_def THIS_SCHED_def)
    have ok: "mem_ok E ?s3" using D(15) M(4) by (simp add: mem_ok_def)
    have wt: "items (mem ?s3) (mx_blocked ?M2) = us" using it P(1) by simp
    have "mutex_inv E m L ?s3"
      by (rule mutex_inv_step [OF I sm dq ok, where M' = ?M2]) (use M(2,8,9,11) Cons own(2) wt sc in simp_all)
    then show ?thesis using r Cons it sc T(1) wt
      by (intro exI [of _ ?s3]) (simp add: mutex_owner_def mutex_at_def after_unlock_def waiting_def THIS_SCHED_def M(1) Let_def)
  qed
qed

subsection \<open>Locking\<close>

text \<open>Competing for the mutex, followed by the scheduler's deferred write when it is taken.\<close>

definition blocked_state :: "lsys \<Rightarrow> addr \<Rightarrow> addr \<Rightarrow> lsys" where
  "blocked_state s m lt = s\<lparr>mutexes := (mutexes s)(m \<mapsto> (mutex_at s m)\<lparr>mx_count := mx_count (mutex_at s m) + 1\<rparr>),
     threads := (threads s)(lt \<mapsto> (the (threads s lt))\<lparr>pending_wr_queue := mx_blocked (mutex_at s m)\<rparr>),
     scheds := (scheds s)(THIS_SCHED s \<mapsto> (the (cur_sched s))\<lparr>sc_blocked := sc_blocked (the (cur_sched s)) + 1\<rparr>)\<rparr>"

lemma compete_eq:
  assumes I: "mutex_inv E m L s" and lt: "THIS_LTHREAD s = Some lt" "lt \<in> L"
  shows "mutex_compete m k s =
    (if mutex_owner s m = NULL
     then Some (Ret 0, s\<lparr>mutexes := (mutexes s)(m \<mapsto> (mutex_at s m)\<lparr>mx_count := mx_count (mutex_at s m) + 1, mx_owner := lt\<rparr>)\<rparr>)
     else Some (Switch (Unsuspend (Lock_again m k)), blocked_state s m lt))"
proof -
  obtain M where M: "mutexes s m = Some M" "mutex_at s m = M" "mutex_owner s m = mx_owner M" "known_threads s L"
    by (rule mutex_invD [OF I])
  obtain S where S: "cur_sched s = Some S" "scheds s (THIS_SCHED s) = Some S"
    using I unfolding mutex_inv_def cur_sched_def by blast
  obtain T where T: "threads s lt = Some T" using M(4) lt(2) unfolding known_threads_def by blast
  show ?thesis
    using M(1-3) S T lt(1)
    by (simp add: mutex_compete_def upd_mutex_def upd_thread_def suspend_def upd_sched_def blocked_state_def THIS_SCHED_def)
qed

lemma lock_free_inv:
  assumes I: "mutex_inv E m L s" and o: "mutex_owner s m = NULL" and lt: "lt \<noteq> NULL"
  defines "s' \<equiv> s\<lparr>mutexes := (mutexes s)(m \<mapsto> (mutex_at s m)\<lparr>mx_count := mx_count (mutex_at s m) + 1, mx_owner := lt\<rparr>)\<rparr>"
  shows "mutex_inv E m L s'" "mutex_owner s' m = lt" "waiting s' m = waiting s m"
proof -
  obtain M where M: "mutexes s m = Some M" "mutex_at s m = M" "mem_ok E s"
    "waiting s m = items (mem s) (mx_blocked M)" "mutex_owner s m = mx_owner M"
    "mx_count M = int (length (waiting s m)) + (if mx_owner M = NULL then 0 else 1)" "set (waiting s m) \<subseteq> L"
    by (rule mutex_invD [OF I])
  show "mutex_inv E m L s'"
    by (rule mutex_inv_step [OF I, where M' = "M\<lparr>mx_count := mx_count M + 1, mx_owner := lt\<rparr>"])
      (use M o lt in \<open>simp_all add: s'_def mem_ok_def\<close>)
  show "mutex_owner s' m = lt" "waiting s' m = waiting s m"
    by (simp_all add: s'_def mutex_owner_def mutex_at_def waiting_def M(1))
qed

lemma blocked_inv:
  assumes I: "mutex_inv E m L s" and o: "mutex_owner s m \<noteq> NULL" and lt: "lt \<in> L"
  shows "\<exists>s'. write_pending E lt (blocked_state s m lt) = Some s' \<and> mutex_inv E m L s' \<and>
    mutex_owner s' m = mutex_owner s m \<and> waiting s' m = waiting s m @ [lt] \<and>
    items (mem s') = (items (mem s))(mx_blocked (mutex_at s m) := waiting s m @ [lt])"
proof -
  obtain M where M: "mutexes s m = Some M" "mutex_at s m = M" "mem_ok E s" "mx_blocked M \<noteq> NULL"
    "mx_blocked M \<in> dom (queues (mem s))" "waiting s m = items (mem s) (mx_blocked M)" "mutex_owner s m = mx_owner M"
    "mx_count M = int (length (waiting s m)) + (if mx_owner M = NULL then 0 else 1)" "set (waiting s m) \<subseteq> L" "known_threads s L"
    by (rule mutex_invD [OF I])
  obtain S where S: "cur_sched s = Some S" "scheds s (THIS_SCHED s) = Some S"
    using I unfolding mutex_inv_def cur_sched_def by blast
  obtain T where T: "threads s lt = Some T" "pending_wr_queue T = NULL" using M(10) lt unfolding known_threads_def by blast
  let ?b = "blocked_state s m lt" and ?q = "mx_blocked M"
  let ?c = "?b\<lparr>threads := (threads s)(lt \<mapsto> T)\<rparr>"
  have Te: "T\<lparr>pending_wr_queue := NULL\<rparr> = T" using T(2) by (cases T) simp
  have okc: "mem_ok E ?c" "?q \<in> dom (queues (mem ?c))" using M(3,5) by (simp_all add: mem_ok_def blocked_state_def)
  obtain n s' where s': "on_mem (lthread_queue_insert_mp (e_mal E) ?q lt) ?c = Some (n, s')"
    "queues_become E ?c ((items (mem ?c))(?q := items (mem ?c) ?q @ [lt])) s'"
    using insert_step [OF okc] by blast
  note D = queues_becomeD [OF s'(2)]
  have "?b\<lparr>threads := (threads ?b)(lt \<mapsto> (the (threads s lt))\<lparr>pending_wr_queue := ?q, pending_wr_queue := NULL\<rparr>)\<rparr> = ?c"
    using T by (simp add: blocked_state_def) (simp only: Te)
  then have r: "write_pending E lt ?b = Some s'"
    using s'(1) M(2,4) T(1) by (simp add: write_pending_def upd_thread_def blocked_state_def)
  have c: "mem ?c = mem s" "mutexes ?c m = Some (M\<lparr>mx_count := mx_count M + 1\<rparr>)" "threads ?c = threads s"
    using M(2) T(1) by (auto simp: blocked_state_def)
  have it: "items (mem s') = (items (mem s))(?q := waiting s m @ [lt])" using D(13) c(1) M(6) by simp
  have sm: "same_scheds s s'" "dom (queues (mem s')) = dom (queues (mem s))" "mem_ok E s'"
    using D(6-8,14,15) M(3) S c(1) by (auto simp: same_scheds_def blocked_state_def mem_ok_def)
  have "mutex_inv E m L s'"
    by (rule mutex_inv_step [OF I sm, where M' = "M\<lparr>mx_count := mx_count M + 1\<rparr>"])
      (use c D(1,4) M(2,7,8,9) o lt it in simp_all)
  then show ?thesis
    using r it c(2) D(4) M(2,7) by (intro exI [of _ s']) (simp add: mutex_owner_def waiting_def mutex_at_def)
qed

subsection \<open>Any run of operations\<close>

text \<open>Threads of one lcore call the operations in any order; after each call the scheduler does its
  deferred write. \<open>M_again\<close> is a thread that was woken and competes again.\<close>

datatype mutex_op = M_lock | M_again | M_trylock | M_unlock

definition mutex_step :: "lenv \<Rightarrow> addr \<Rightarrow> addr \<Rightarrow> mutex_op \<Rightarrow> lsys \<Rightarrow> lsys option" where
  "mutex_step E m lt op s = do {
     s \<leftarrow> upd_sched (THIS_SCHED s) (\<lambda>S. S\<lparr>sc_current := lt\<rparr>) s;
     s \<leftarrow> map_option snd (case op of M_lock \<Rightarrow> lthread_mutex_lock m (\<lambda>_. Done) s
       | M_again \<Rightarrow> mutex_compete m (\<lambda>_. Done) s
       | M_trylock \<Rightarrow> map_option (\<lambda>(r, s). (Ret r, s)) (lthread_mutex_trylock m s)
       | M_unlock \<Rightarrow> map_option (\<lambda>(r, s). (Ret r, s)) (lthread_mutex_unlock E m s));
     write_pending E lt s }"

fun run_mutex :: "lenv \<Rightarrow> addr \<Rightarrow> (addr \<times> mutex_op) list \<Rightarrow> lsys \<Rightarrow> lsys option" where
  "run_mutex E m [] s = Some s"
| "run_mutex E m ((lt, op) # ops) s = do { s \<leftarrow> mutex_step E m lt op s; run_mutex E m ops s }"

lemma known_nonnull: "mutex_inv E m L s \<Longrightarrow> lt \<in> L \<Longrightarrow> lt \<noteq> NULL"
  unfolding mutex_inv_def known_threads_def by metis

lemma set_current:
  assumes I: "mutex_inv E m L s"
  shows "\<exists>s'. upd_sched (THIS_SCHED s) (\<lambda>S. S\<lparr>sc_current := lt\<rparr>) s = Some s' \<and> mutex_inv E m L s' \<and>
    THIS_LTHREAD s' = Some lt \<and> mutex_at s' m = mutex_at s m \<and> mem s' = mem s"
proof -
  obtain S where S: "scheds s (THIS_SCHED s) = Some S" using I unfolding mutex_inv_def cur_sched_def by blast
  obtain M where M: "mutexes s m = Some M" using I unfolding mutex_inv_def by blast
  let ?s = "s\<lparr>scheds := (scheds s)(THIS_SCHED s \<mapsto> S\<lparr>sc_current := lt\<rparr>)\<rparr>"
  have "same_scheds s ?s" "mem_ok E ?s" using S I by (simp_all add: same_scheds_def mutex_inv_def mem_ok_def)
  then have "mutex_inv E m L ?s"
    by (intro mutex_inv_step [OF I, where M' = M])
      (use M I in \<open>simp_all add: mutex_at_def mutex_inv_def waiting_def mutex_owner_def\<close>)
  then show ?thesis using S
    by (intro exI [of _ ?s]) (simp add: upd_sched_def THIS_LTHREAD_def cur_sched_def THIS_SCHED_def mutex_at_def)
qed

lemma write_pending_none:
  "mutex_inv E m L s \<Longrightarrow> lt \<in> L \<Longrightarrow> write_pending E lt s = Some s"
  unfolding mutex_inv_def known_threads_def write_pending_def by force

lemma compete_step:
  assumes I: "mutex_inv E m L s" and lt: "THIS_LTHREAD s = Some lt" "lt \<in> L"
  shows "\<exists>r s1 s2. mutex_compete m k s = Some (r, s1) \<and> write_pending E lt s1 = Some s2 \<and> mutex_inv E m L s2 \<and>
    (if mutex_owner s m = NULL then r = Ret 0 \<and> mutex_owner s2 m = lt \<and> waiting s2 m = waiting s m
     else r = Switch (Unsuspend (Lock_again m k)) \<and> mutex_owner s2 m = mutex_owner s m \<and> waiting s2 m = waiting s m @ [lt])"
proof (cases "mutex_owner s m = NULL")
  case True
  have "lt \<noteq> NULL" using known_nonnull [OF I lt(2)] .
  note F = lock_free_inv [OF I True this]
  show ?thesis using compete_eq [OF I lt, of k] True F write_pending_none [OF F(1) lt(2)] by auto
next
  case False
  obtain s' where "write_pending E lt (blocked_state s m lt) = Some s'" "mutex_inv E m L s'"
    "mutex_owner s' m = mutex_owner s m" "waiting s' m = waiting s m @ [lt]"
    using blocked_inv [OF I False lt(2)] by blast
  then show ?thesis using compete_eq [OF I lt, of k] False by auto
qed

lemma trylock_ok:
  assumes I: "mutex_inv E m L s" and lt: "THIS_LTHREAD s = Some lt" "lt \<in> L"
  shows "\<exists>r s'. lthread_mutex_trylock m s = Some (r, s') \<and> mutex_inv E m L s' \<and> waiting s' m = waiting s m \<and>
    (if mutex_owner s m = NULL then r = 0 \<and> mutex_owner s' m = lt
     else s' = s \<and> r = (if mutex_owner s m = lt then EDEADLK else EBUSY))"
proof -
  obtain M where M: "mutexes s m = Some M" "mutex_at s m = M" "m \<noteq> NULL" "mx_blocked M \<noteq> NULL" "mutex_owner s m = mx_owner M"
    by (rule mutex_invD [OF I])
  have nn: "lt \<noteq> NULL" using known_nonnull [OF I lt(2)] .
  show ?thesis
  proof (cases "mutex_owner s m = NULL")
    case True
    then show ?thesis
      using M lt(1) nn lock_free_inv [OF I True nn] by (simp add: lthread_mutex_trylock_def upd_mutex_def)
  next
    case False
    have "s\<lparr>mutexes := (mutexes s)(m \<mapsto> M\<lparr>mx_count := mx_count M\<rparr>)\<rparr> = s"
      using M(1) by (simp add: fun_upd_idem)
    then show ?thesis
      using False M lt(1) nn I by (simp add: lthread_mutex_trylock_def upd_mutex_def)
  qed
qed

text \<open>The contract of a mutex: an owner and the threads that wait, in order.\<close>

fun abs_mutex :: "addr \<times> addr list \<Rightarrow> addr \<times> mutex_op \<Rightarrow> addr \<times> addr list" where
  "abs_mutex (ow, ws) (lt, M_lock) = (if ow = NULL then (lt, ws) else if ow = lt then (ow, ws) else (ow, ws @ [lt]))"
| "abs_mutex (ow, ws) (lt, M_again) = (if ow = NULL then (lt, ws) else (ow, ws @ [lt]))"
| "abs_mutex (ow, ws) (lt, M_trylock) = (if ow = NULL then (lt, ws) else (ow, ws))"
| "abs_mutex (ow, ws) (lt, M_unlock) = (if ow = lt then (NULL, tl ws) else (ow, ws))"

definition mutex_abs :: "lsys \<Rightarrow> addr \<Rightarrow> addr \<times> addr list" where
  "mutex_abs s m = (mutex_owner s m, waiting s m)"

lemma mutex_step_ok:
  assumes I: "mutex_inv E m L s" and lt: "lt \<in> L"
  shows "\<exists>s'. mutex_step E m lt op s = Some s' \<and> mutex_inv E m L s' \<and> mutex_abs s' m = abs_mutex (mutex_abs s m) (lt, op)"
proof -
  obtain s1 where s1: "upd_sched (THIS_SCHED s) (\<lambda>S. S\<lparr>sc_current := lt\<rparr>) s = Some s1" "mutex_inv E m L s1" "THIS_LTHREAD s1 = Some lt"
    "mutex_at s1 m = mutex_at s m" "mem s1 = mem s"
    using set_current [OF I] by blast
  then have ab: "mutex_owner s m = mutex_owner s1 m" "waiting s m = waiting s1 m" by (simp_all add: mutex_owner_def waiting_def)
  obtain M where M: "mutexes s1 m = Some M" "mutex_at s1 m = M" "m \<noteq> NULL" "mx_blocked M \<noteq> NULL" "mutex_owner s1 m = mx_owner M"
    by (rule mutex_invD [OF s1(2)])
  note w = write_pending_none [OF s1(2) lt] and nn = known_nonnull [OF I lt]
  have comp: "\<exists>s'. do { s \<leftarrow> map_option snd (mutex_compete m (\<lambda>_. Done) s1); write_pending E lt s } = Some s' \<and> mutex_inv E m L s' \<and>
      mutex_abs s' m = abs_mutex (mutex_abs s m) (lt, M_again)"
    using compete_step [OF s1(2,3) lt, of "\<lambda>_. Done"] by (auto simp: mutex_abs_def ab split: if_splits)
  show ?thesis
  proof (cases op)
    case M_lock
    show ?thesis
    proof (cases "mutex_owner s1 m = lt")
      case True
      then show ?thesis using M_lock M s1 w nn by (simp add: mutex_step_def lthread_mutex_lock_def ab mutex_abs_def)
    next
      case False
      then have "lthread_mutex_lock m k s1 = mutex_compete m k s1" for k using M s1(3) by (simp add: lthread_mutex_lock_def)
      then show ?thesis using M_lock s1(1) comp False by (auto simp: mutex_step_def ab mutex_abs_def split: if_splits)
    qed
  next
    case M_again
    then show ?thesis using s1(1) comp by (simp add: mutex_step_def)
  next
    case M_trylock
    obtain r s2 where "lthread_mutex_trylock m s1 = Some (r, s2)" "mutex_inv E m L s2" "waiting s2 m = waiting s1 m"
      "if mutex_owner s1 m = NULL then r = 0 \<and> mutex_owner s2 m = lt else s2 = s1 \<and> r = (if mutex_owner s1 m = lt then EDEADLK else EBUSY)"
      using trylock_ok [OF s1(2,3) lt] by blast
    then show ?thesis using M_trylock s1(1) write_pending_none [of E m L s2 lt] lt
      by (auto simp: mutex_step_def ab mutex_abs_def split: if_splits)
  next
    case M_unlock
    show ?thesis
    proof (cases "mutex_owner s1 m = lt")
      case True
      then obtain s2 where "lthread_mutex_unlock E m s1 = Some (0, s2)" "mutex_inv E m L s2" "mutex_owner s2 m = NULL"
        "waiting s2 m = tl (waiting s1 m)"
        using unlock_ok [OF s1(2)] s1(3) nn by auto
      then show ?thesis using M_unlock s1(1) write_pending_none [of E m L s2 lt] lt True
        by (simp add: mutex_step_def ab mutex_abs_def)
    next
      case False
      then have "lthread_mutex_unlock E m s1 = Some (EPERM, s1)" using M s1(3) by (simp add: lthread_mutex_unlock_def)
      then show ?thesis using M_unlock s1 w False by (simp add: mutex_step_def ab mutex_abs_def)
    qed
  qed
qed

text \<open>C14. Any sequence of lock, trylock and unlock calls by the threads of an lcore implements the
  abstract mutex: there is at most one owner, a thread that finds the mutex taken waits behind those
  before it, an unlock by the owner wakes the one that waited longest and by anybody else does
  nothing. Every call returns or switches (no call spins), and \<open>count\<close> stays the number of the
  waiting threads plus the owner.\<close>

theorem mutex_refinement:
  assumes "mutex_inv E m L s" "fst ` set ops \<subseteq> L"
  shows "\<exists>s'. run_mutex E m ops s = Some s' \<and> mutex_inv E m L s' \<and> mutex_abs s' m = foldl abs_mutex (mutex_abs s m) ops"
  using assms
proof (induction ops arbitrary: s)
  case (Cons x ops)
  obtain lt op where x: "x = (lt, op)" by fastforce
  obtain s1 where "mutex_step E m lt op s = Some s1" "mutex_inv E m L s1" "mutex_abs s1 m = abs_mutex (mutex_abs s m) (lt, op)"
    using mutex_step_ok [OF Cons.prems(1), of lt op] Cons.prems(2) x by auto
  then show ?case using Cons.IH [of s1] Cons.prems(2) x by simp
qed simp

text \<open>An unlock by the owner hands over: when threads wait, the first of the blocked queue moves to
  the end of the ready queue of its own scheduler (the local queue on this lcore, the peer queue of
  another), every other queue is unchanged, and the mutex is free for whoever comes first.\<close>

theorem mutex_handoff:
  assumes "mutex_inv E m L s" "THIS_LTHREAD s = Some (mutex_owner s m)" "mutex_owner s m \<noteq> NULL"
  shows "\<exists>s'. lthread_mutex_unlock E m s = Some (0, s') \<and> mutex_owner s' m = NULL \<and> threads s' = threads s \<and>
    items (mem s') = (case waiting s m of [] \<Rightarrow> items (mem s)
      | u # us \<Rightarrow> let d = ready_dest s (lt_sched (the (threads s u))) in
          (items (mem s))(mx_blocked (mutex_at s m) := us, d := items (mem s) d @ [u]))"
  using unlock_ok [OF assms] unfolding after_unlock_def by blast

subsection \<open>Condition variables\<close>

text \<open>Each thread of a list goes to the end of the ready queue of its scheduler.\<close>

definition make_ready :: "lsys \<Rightarrow> addr list \<Rightarrow> (addr \<Rightarrow> addr list) \<Rightarrow> addr \<Rightarrow> addr list" where
  "make_ready s ws f = fold (\<lambda>u f. let d = ready_dest s (lt_sched (the (threads s u))) in f(d := f d @ [u])) ws f"

lemma make_ready_simps [simp]:
  "make_ready s [] f = f"
  "make_ready s (u # us) f = make_ready s us (let d = ready_dest s (lt_sched (the (threads s u))) in f(d := f d @ [u]))"
  by (simp_all add: make_ready_def)

definition cond_inv :: "lenv \<Rightarrow> addr \<Rightarrow> lsys \<Rightarrow> bool" where
  "cond_inv E q s \<longleftrightarrow> mem_ok E s \<and> queue_private s q \<and> NULL \<notin> set (items (mem s) q) \<and>
     (\<forall>u\<in>set (items (mem s) q). \<exists>T. threads s u = Some T \<and> sched_live s (lt_sched T))"

lemma wake_one_ok:
  assumes "cond_inv E q s"
  shows "\<exists>s'. wake_one E q s = Some s' \<and> cond_inv E q s' \<and> items (mem s') q = tl (items (mem s) q) \<and>
    queues_become E s (make_ready s (take 1 (items (mem s) q)) ((items (mem s))(q := tl (items (mem s) q)))) s'"
proof -
  have ok: "mem_ok E s" and pr: "queue_private s q" and nn: "NULL \<notin> set (items (mem s) q)"
    and kn: "\<forall>u\<in>set (items (mem s) q). \<exists>T. threads s u = Some T \<and> sched_live s (lt_sched T)"
    using assms by (simp_all add: cond_inv_def)
  have q: "q \<in> dom (queues (mem s))" using pr by (simp add: queue_private_def)
  obtain s1 where s1: "on_mem (lthread_queue_remove q) s = Some (case items (mem s) q of [] \<Rightarrow> NULL | x # _ \<Rightarrow> x, s1)"
    "queues_become E s ((items (mem s))(q := tl (items (mem s) q))) s1"
    using remove_step [OF ok q nn] by blast
  note D = queues_becomeD [OF s1(2)]
  have keep: "cond_inv E q t" if "queues_become E s f t" "f q = tl (items (mem s) q)" for f t
  proof -
    note F = queues_becomeD [OF that(1)]
    have "queue_private t q" using pr F(6,14) by (simp add: queue_private_def)
    moreover have "set (f q) \<subseteq> set (items (mem s) q)" using that(2) by (cases "items (mem s) q") auto
    ultimately show ?thesis
      using queues_become_ok [OF ok that(1)] F nn kn by (auto simp: cond_inv_def)
  qed
  show ?thesis
  proof (cases "items (mem s) q")
    case Nil
    then show ?thesis using s1 keep [OF s1(2)] D(13) by (simp add: wake_one_def)
  next
    case (Cons u us)
    then obtain T where T: "threads s u = Some T" "sched_live s (lt_sched T)" using kn by auto
    have un: "u \<noteq> NULL" using nn Cons by auto
    let ?d = "ready_dest s (lt_sched T)"
    obtain s2 where s2: "ready_queue_insert E (lt_sched T) u s1 = Some s2"
      "queues_become E s1 ((items (mem s1))(ready_dest s1 (lt_sched T) := items (mem s1) (ready_dest s1 (lt_sched T)) @ [u])) s2"
      using ready_insert_step [OF queues_become_ok [OF ok s1(2)], of "lt_sched T" u] T(2) D(16) by auto
    have dq: "?d \<noteq> q" using ready_dest_private [OF pr T(2)] by simp
    have qb: "queues_become E s ((items (mem s))(q := us, ?d := items (mem s) ?d @ [u])) s2"
      using queues_become_trans [OF s1(2) s2(2)] D(13,17) Cons dq by simp
    have "wake_one E q s = Some s2" using s1(1) Cons un T(1) D(1) s2(1) by (simp add: wake_one_def)
    then show ?thesis using qb keep [OF qb] queues_becomeD(13) [OF qb] Cons dq T(1)
      by (intro exI [of _ s2]) (simp add: Let_def)
  qed
qed

lemma make_ready_cong:
  "threads s' = threads s \<Longrightarrow> ready_dest s' = ready_dest s \<Longrightarrow> make_ready s' ws f = make_ready s ws f"
  by (simp add: make_ready_def)

lemma make_ready_other:
  "cond_inv E q s \<Longrightarrow> set ws \<subseteq> set (items (mem s) q) \<Longrightarrow> make_ready s ws f q = f q"
proof (induction ws arbitrary: f)
  case (Cons u ws)
  then obtain T where T: "threads s u = Some T" "sched_live s (lt_sched T)" "queue_private s q" by (auto simp: cond_inv_def)
  have "q \<noteq> ready_dest s (lt_sched T)" using ready_dest_private [OF T(3,2)] by simp
  then show ?case using Cons T by (simp add: Let_def)
qed simp

lemma make_ready_private:
  "cond_inv E q s \<Longrightarrow> set ws \<subseteq> set (items (mem s) q) \<Longrightarrow> (make_ready s ws f)(q := ys) = make_ready s ws (f(q := ys))"
proof (induction ws arbitrary: f)
  case (Cons u ws)
  then obtain T where T: "threads s u = Some T" "sched_live s (lt_sched T)" "queue_private s q" by (auto simp: cond_inv_def)
  let ?d = "ready_dest s (lt_sched T)"
  have "?d \<noteq> q" using ready_dest_private [OF T(3,2)] by simp
  then have "(f(?d := f ?d @ [u]))(q := ys) = (f(q := ys))(?d := (f(q := ys)) ?d @ [u])" by (simp add: fun_upd_twist)
  then have "make_ready s ws ((f(?d := f ?d @ [u]))(q := ys)) = make_ready s ws ((f(q := ys))(?d := (f(q := ys)) ?d @ [u]))" by (rule arg_cong)
  moreover have m: "make_ready s (u # ws) g = make_ready s ws (g(?d := g ?d @ [u]))" for g using T(1) by (simp add: Let_def)
  moreover have "set ws \<subseteq> set (items (mem s) q)" using Cons.prems by simp
  note Cons.IH [OF Cons.prems(1) this, of "f(?d := f ?d @ [u])"]
  ultimately show ?case by (simp only: m)
qed simp

lemma drain_ok:
  assumes "cond_inv E q s"
  shows "\<exists>s'. drain E q s = Some s' \<and> queues_become E s (make_ready s (items (mem s) q) ((items (mem s))(q := []))) s'"
  using assms
proof (induction "length (items (mem s) q)" arbitrary: s rule: less_induct)
  case less
  obtain s1 where s1: "wake_one E q s = Some s1" "cond_inv E q s1" "items (mem s1) q = tl (items (mem s) q)"
    "queues_become E s (make_ready s (take 1 (items (mem s) q)) ((items (mem s))(q := tl (items (mem s) q)))) s1"
    using wake_one_ok [OF less.prems] by blast
  note D = queues_becomeD [OF s1(4)]
  have "lt_inv (mem s1)" "q \<in> dom (queues (mem s1))" using s1(2) by (simp_all add: cond_inv_def mem_ok_def fifo_ok_def queue_private_def)
  then have e: "lthread_queue_empty q (mem s1) = Some (items (mem s1) q = [])" using queue_empty_ok by blast
  show ?case
  proof (cases "items (mem s1) q")
    case Nil
    then have "length (items (mem s) q) \<le> 1" using s1(3) by (cases "items (mem s) q") auto
    then have "take 1 (items (mem s) q) = items (mem s) q" by simp
    then have "queues_become E s (make_ready s (items (mem s) q) ((items (mem s))(q := []))) s1" using s1(3,4) Nil by simp
    then show ?thesis using s1(1) e Nil by (subst drain.simps) simp
  next
    case (Cons v vs)
    then obtain u where u: "items (mem s) q = u # v # vs" using s1(3) by (cases "items (mem s) q") auto
    obtain s2 where s2: "drain E q s1 = Some s2" "queues_become E s1 (make_ready s1 (items (mem s1) q) ((items (mem s1))(q := []))) s2"
      using less.hyps [OF _ s1(2)] u Cons by auto
    have c: "make_ready s1 = make_ready s" using make_ready_cong [OF D(1,17)] by blast
    have it1: "items (mem s1) = make_ready s [u] ((items (mem s))(q := v # vs))" using D(13) u by (simp del: make_ready_simps)
    have sub: "set [u] \<subseteq> set (items (mem s) q)" using u by simp
    have "make_ready s1 (items (mem s1) q) ((items (mem s1))(q := [])) = make_ready s (v # vs) ((items (mem s1))(q := []))"
      by (simp only: c Cons u s1(3) list.sel)
    also have "\<dots> = make_ready s (v # vs) (make_ready s [u] ((items (mem s))(q := [])))"
      by (simp only: it1 make_ready_private [OF less.prems sub] fun_upd_upd)
    also have "\<dots> = make_ready s (items (mem s) q) ((items (mem s))(q := []))" by (simp only: u make_ready_simps)
    finally have "queues_become E s (make_ready s (items (mem s) q) ((items (mem s))(q := []))) s2"
      using queues_become_trans [OF s1(4) s2(2)] by (simp only:)
    then show ?thesis using s1(1) s2(1) e Cons by (subst drain.simps) simp
  qed
qed

text \<open>\<open>lthread_cond_signal\<close> returns 0 and wakes the thread that waited longest: it leaves the blocked
  queue for the end of the ready queue of its own scheduler, and nothing else changes. With nobody
  waiting it changes no queue.\<close>

theorem cond_signal_wakes:
  assumes "conds s c = Some C" "cond_inv E (cv_blocked C) s" "c \<noteq> NULL"
  shows "\<exists>s'. lthread_cond_signal E c s = Some (0, s') \<and> threads s' = threads s \<and> scheds s' = scheds s \<and>
    items (mem s') = (case items (mem s) (cv_blocked C) of [] \<Rightarrow> items (mem s)
      | u # us \<Rightarrow> let d = ready_dest s (lt_sched (the (threads s u))) in
          (items (mem s))(cv_blocked C := us, d := items (mem s) d @ [u]))"
proof -
  let ?q = "cv_blocked C"
  obtain s1 where s1: "wake_one E ?q s = Some s1"
    "queues_become E s (make_ready s (take 1 (items (mem s) ?q)) ((items (mem s))(?q := tl (items (mem s) ?q)))) s1"
    using wake_one_ok [OF assms(2)] by blast
  note D = queues_becomeD [OF s1(2)]
  show ?thesis
  proof (cases "items (mem s) ?q")
    case Nil
    then have "(items (mem s))(?q := []) = items (mem s)" by (simp add: fun_upd_idem)
    then show ?thesis using assms(1,3) s1(1) D(1,6,13) Nil by (simp add: lthread_cond_signal_def)
  next
    case (Cons u us)
    obtain T where T: "threads s u = Some T" "sched_live s (lt_sched T)" "queue_private s ?q"
      using assms(2) Cons by (auto simp: cond_inv_def)
    have "ready_dest s (lt_sched T) \<noteq> ?q" using ready_dest_private [OF T(3,2)] by simp
    then show ?thesis using assms(1,3) s1(1) D(1,6,13) Cons T(1) by (simp add: lthread_cond_signal_def Let_def)
  qed
qed

text \<open>\<open>lthread_cond_broadcast\<close> terminates: it makes every waiting thread ready, in the order they
  waited, each on its own scheduler, then puts the caller itself behind them in its ready queue and
  switches; the caller resumes with the result 0.\<close>

theorem cond_broadcast_wakes_all:
  assumes "conds s c = Some C" "cond_inv E (cv_blocked C) s" "c \<noteq> NULL"
    and "THIS_LTHREAD s = Some lt" "sched_live s (THIS_SCHED s)"
  shows "\<exists>s'. lthread_cond_broadcast E c k s = Some (Switch (At_prog (k 0)), s') \<and> threads s' = threads s \<and>
    (let ws = items (mem s) (cv_blocked C); f = make_ready s ws ((items (mem s))(cv_blocked C := [])); r = ready_dest s (THIS_SCHED s)
     in items (mem s') = f(r := f r @ [lt]))"
proof -
  let ?q = "cv_blocked C"
  obtain s1 where s1: "drain E ?q s = Some s1" "queues_become E s (make_ready s (items (mem s) ?q) ((items (mem s))(?q := []))) s1"
    using drain_ok [OF assms(2)] by blast
  note D = queues_becomeD [OF s1(2)]
  have ok: "mem_ok E s1" using queues_become_ok [OF _ s1(2)] assms(2) by (simp add: cond_inv_def)
  obtain s2 where s2: "ready_queue_insert E (THIS_SCHED s1) lt s1 = Some s2"
    "queues_become E s1 ((items (mem s1))(ready_dest s1 (THIS_SCHED s1) := items (mem s1) (ready_dest s1 (THIS_SCHED s1)) @ [lt])) s2"
    using ready_insert_step [OF ok, of "THIS_SCHED s1" lt] assms(5) D(10,16) by auto
  note F = queues_becomeD [OF s2(2)]
  have "lthread_cond_broadcast E c k s = Some (Switch (At_prog (k 0)), s2)"
    using assms(1,3,4) s1(1) s2(1) D(11) by (simp add: lthread_cond_broadcast_def reschedule_def)
  then show ?thesis using F(1,13) D(1,10,13,17) by (simp add: Let_def)
qed

subsection \<open>A system for the witnesses\<close>

text \<open>One scheduler (40) with its queues (22, 23), threads 100 and 101, a mutex (50) that 100 owns and
  101 waits for in queue 20, and a condition variable (60) with the same blocked queue.\<close>

definition sys_mem :: lmem where
  "sys_mem = \<lparr>nodes = [1 \<mapsto> demo_node, 2 \<mapsto> demo_node\<lparr>qn_next := 6\<rparr>, 4 \<mapsto> demo_node, 5 \<mapsto> demo_node, 6 \<mapsto> demo_node\<lparr>qn_data := 101\<rparr>],
     pools = [10 \<mapsto> \<lparr>qp_head = 1, qp_stub = 1, qp_fast_alloc = NULL, qp_tail = 1, qp_pre_alloc = 4, qp_name = ''p''\<rparr>],
     queues = [20 \<mapsto> \<lparr>lq_head = 6, lq_tail = 2, lq_name = ''b''\<rparr>, 22 \<mapsto> \<lparr>lq_head = 4, lq_tail = 4, lq_name = ''r''\<rparr>,
       23 \<mapsto> \<lparr>lq_head = 5, lq_tail = 5, lq_name = ''p''\<rparr>],
     caches = Map.empty, objs = Map.empty, raw = {}, cur_pool = 10\<rparr>"

definition sys_ghost :: ghost where
  "sys_ghost = \<lparr>own = (\<lambda>_. Loose)(1 := InPool 10, 2 := InQueue 20, 6 := InQueue 20, 4 := InQueue 22, 5 := InQueue 23), pch = (\<lambda>_. [1]),
     qch = (\<lambda>q. if q = 20 then [2, 6] else if q = 22 then [4] else [5])\<rparr>"

lemma sys_rel: "mem_rel sys_mem sys_ghost"
  by (auto simp: mem_rel_def sys_mem_def sys_ghost_def demo_node_def pool_rel_def queue_rel_def owned_ok_def
      is_chain_def nexts_def allocated_def pool_side_def split: if_splits)

lemma sys_items: "items sys_mem 20 = [101]" "items sys_mem 22 = []" "items sys_mem 23 = []"
  using items_eq [OF sys_rel, of 20] items_eq [OF sys_rel, of 22] items_eq [OF sys_rel, of 23]
  by (simp_all add: sys_mem_def sys_ghost_def)

lemma sys_fifo: "fifo_ok bump sys_mem"
  using sys_rel bump_fresh by (auto simp: fifo_ok_def lt_inv_def pool_ready_def) (auto simp: sys_mem_def)

lemma sys_queues: "dom (queues sys_mem) = {20, 22, 23}"
  by (auto simp: sys_mem_def)

definition demo_env :: lenv where
  "demo_env = \<lparr>e_mal = bump, e_code = (\<lambda>_ _. Done), e_junk = 0, e_sizeof_lthread = 512, e_sizeof_stack = 65600,
     e_sizeof_tls = 8300, e_sizeof_cond = 128, e_sizeof_mutex = 128, e_per_lt_section = 8, e_ns_to_clks = (\<lambda>x. x)\<rparr>"

definition demo_thread :: lthread where
  "demo_thread = \<lparr>lt_ctx = Start, lt_state = BIT ST_LT_READY, lt_sched = 40, lt_stack = 0, lt_stack_size = 0, lt_fun = User_fun 1,
     lt_arg = 0, per_lthread_data = 0, lt_birth = 0, pending_wr_queue = NULL, lt_joiner = NULL, lt_join = LT_JOIN_INITIAL,
     lt_exit_ptr = NULL, lt_root_sched = 40, lt_tim = None, lt_tls = 70, lt_stack_container = 0, lt_funcname = []\<rparr>"

definition demo_sched :: lthread_sched where
  "demo_sched = \<lparr>sc_birth = 0, sc_current = 100, sc_lcore_id = 0, sc_run_flag = True, sc_blocked = 1, sc_ready = 22, sc_pready = 23,
     sc_lthread_cache = 0, sc_stack_cache = 0, sc_per_lthread_cache = 0, sc_tls_cache = 0, sc_cond_cache = 0, sc_mutex_cache = 0,
     sc_qnode_pool = 10, sc_stack_size = 65536\<rparr>"

definition demo_sys :: lsys where
  "demo_sys = \<lparr>mem = sys_mem, threads = [100 \<mapsto> demo_thread, 101 \<mapsto> demo_thread], stacks = Map.empty,
     tlss = [70 \<mapsto> \<lparr>tls_data = replicate LTHREAD_MAX_KEYS 0, nb_keys_inuse = 0, tls_root_sched = 40\<rparr>],
     mutexes = [50 \<mapsto> \<lparr>mx_owner = 100, mx_count = 2, mx_blocked = 20, mx_root_sched = 40, mx_name = ''m''\<rparr>],
     conds = [60 \<mapsto> \<lparr>cv_blocked = 20, cv_root_sched = 40, cv_name = ''c''\<rparr>],
     scheds = [40 \<mapsto> demo_sched], schedcore = [40, 0], this_sched = (\<lambda>_. 40), cpu = 0, umem = [200 \<mapsto> 0], key_pool = Some [1, 2, 3],
     key_pool_init = True, key_table = replicate LTHREAD_MAX_KEYS 0, num_schedulers = 1, active_schedulers = 1, force_quit = [False, False], tsc = 0\<rparr>"

lemma demo_sys_simps:
  "mem demo_sys = sys_mem" "THIS_SCHED demo_sys = 40" "cur_sched demo_sys = Some demo_sched" "THIS_LTHREAD demo_sys = Some 100"
  "scheds demo_sys = [40 \<mapsto> demo_sched]" "threads demo_sys = [100 \<mapsto> demo_thread, 101 \<mapsto> demo_thread]"
  "mutex_at demo_sys 50 = \<lparr>mx_owner = 100, mx_count = 2, mx_blocked = 20, mx_root_sched = 40, mx_name = ''m''\<rparr>"
  "waiting demo_sys 50 = [101]" "mutex_owner demo_sys 50 = 100" "mem_ok demo_env demo_sys" "50 \<in> dom (mutexes demo_sys)"
  using sys_items(1) sys_fifo bump_gives
  by (simp_all add: demo_sys_def THIS_SCHED_def cur_sched_def THIS_LTHREAD_def demo_sched_def mutex_at_def waiting_def mutex_owner_def
      mem_ok_def demo_env_def)

lemma demo_live: "sched_live demo_sys 40" "ready_dest demo_sys 40 = 22" "queue_private demo_sys 20" "known_threads demo_sys {100, 101}"
proof -
  show l: "sched_live demo_sys 40" "ready_dest demo_sys 40 = 22" "queue_private demo_sys 20"
    by (simp_all add: sched_live_def ready_dest_def queue_private_def demo_sys_simps sys_queues demo_sched_def)
  show "known_threads demo_sys {100, 101}"
    using l(1) by (simp add: known_threads_def demo_sys_simps demo_thread_def)
qed

lemma demo_mutex_inv: "mutex_inv demo_env 50 {100, 101} demo_sys"
  by (simp add: mutex_inv_def demo_sys_simps demo_live)

theorem mutex_refinement_witness:
  "\<exists>s'. run_mutex demo_env 50 [(101, M_trylock), (100, M_unlock), (100, M_lock), (101, M_again)] demo_sys = Some s' \<and> mutex_abs s' 50 = (100, [101])"
  using mutex_refinement [OF demo_mutex_inv, of "[(101, M_trylock), (100, M_unlock), (100, M_lock), (101, M_again)]"]
  by (auto simp: mutex_abs_def demo_sys_simps)

theorem mutex_handoff_witness:
  "\<exists>s'. lthread_mutex_unlock demo_env 50 demo_sys = Some (0, s') \<and> items (mem s') 22 = [101] \<and> items (mem s') 20 = []"
  using mutex_handoff [OF demo_mutex_inv] demo_live(2) sys_items
  by (auto simp: demo_sys_simps Let_def demo_thread_def)

lemma demo_cond_inv: "cond_inv demo_env 20 demo_sys"
  using demo_live(1) by (simp add: cond_inv_def demo_sys_simps demo_live(3) sys_items demo_thread_def)

lemma demo_cond: "conds demo_sys 60 = Some \<lparr>cv_blocked = 20, cv_root_sched = 40, cv_name = ''c''\<rparr>"
  by (simp add: demo_sys_def)

theorem cond_signal_wakes_witness:
  "\<exists>s'. lthread_cond_signal demo_env 60 demo_sys = Some (0, s') \<and> items (mem s') 22 = [101] \<and> items (mem s') 20 = []"
  using cond_signal_wakes [of demo_sys 60 "\<lparr>cv_blocked = 20, cv_root_sched = 40, cv_name = ''c''\<rparr>" demo_env] demo_cond_inv demo_live(2) sys_items demo_cond
  by (auto simp: demo_sys_simps Let_def demo_thread_def)

theorem cond_broadcast_wakes_all_witness:
  "\<exists>s'. lthread_cond_broadcast demo_env 60 (\<lambda>_. Done) demo_sys = Some (Switch (At_prog Done), s') \<and> items (mem s') 22 = [101, 100] \<and>
     items (mem s') 20 = []"
  using cond_broadcast_wakes_all [of demo_sys 60 "\<lparr>cv_blocked = 20, cv_root_sched = 40, cv_name = ''c''\<rparr>" demo_env 100 "\<lambda>_. Done"]
    demo_cond_inv demo_live(1,2) sys_items demo_cond
  by (auto simp: demo_sys_simps Let_def demo_thread_def)

end
