(* ===== verification/Lthread_Tls.thy ===== *)
theory Lthread_Tls
  imports Lthread_Mutex
begin

section \<open>Thread-specific data (lthread_tls.c)\<close>

text \<open>
  Keys come from a ring of free keys shared by all schedulers; each thread has an array of values
  with a count of those in use. Destructors are user code: a parameter \<open>D\<close> that maps the destructor's
  address and the value to a state transformer.
\<close>

subsection \<open>Operations\<close>

definition lthread_tls_ctor :: "lsys \<Rightarrow> lsys" where
  "lthread_tls_ctor s = s\<lparr>key_pool := None, key_pool_init := False\<rparr>"

text \<open>The ring has room for all keys and its creation is asserted to succeed. A caller that does not
  initialise waits until the one that does has set \<open>key_pool\<close>: \<open>None\<close> when that never comes.\<close>

definition lthread_key_pool_init :: "lsys \<Rightarrow> lsys option" where
  "lthread_key_pool_init s =
     (let s = s\<lparr>key_table := replicate LTHREAD_MAX_KEYS NULL\<rparr>;
          s = (if \<not> key_pool_init s
               then s\<lparr>key_pool_init := True, key_pool := Some [1..<LTHREAD_MAX_KEYS]\<rparr> else s) in
      if key_pool s = None then None else Some s)"

definition lthread_key_create :: "addr \<Rightarrow> addr \<Rightarrow> lsys \<Rightarrow> (addr \<times> lsys) option" where
  "lthread_key_create key destructor s =
     (if key = NULL then Some (EINVAL, s)
      else do {
        ring \<leftarrow> key_pool s;
        case ring of [] \<Rightarrow> Some (EAGAIN, s)
        | k # ks \<Rightarrow> do {
            let s = s\<lparr>key_pool := Some ks\<rparr>;
            if length (key_table s) \<le> k then None
            else do {
              s \<leftarrow> store key k (s\<lparr>key_table := (key_table s)[k := destructor]\<rparr>);
              Some (0, s) } } })"

text \<open>The bound lets \<open>k = LTHREAD_MAX_KEYS\<close> through; an enqueue on a full ring is not looked at.\<close>

definition lthread_key_delete :: "nat \<Rightarrow> lsys \<Rightarrow> (addr \<times> lsys) option" where
  "lthread_key_delete k s =
     (if k > LTHREAD_MAX_KEYS then Some (EINVAL, s)
      else if length (key_table s) \<le> k then None
      else do {
        ring \<leftarrow> key_pool s;
        let s = s\<lparr>key_table := (key_table s)[k := NULL]\<rparr>;
        Some (0, s\<lparr>key_pool := Some (if length ring < LTHREAD_MAX_KEYS - 1 then ring @ [k] else ring)\<rparr>) })"

text \<open>The inner loop of \<open>_lthread_tls_destroy\<close> over the keys \<open>ks\<close>; \<open>True\<close> is the return when no key is in use.\<close>

fun destroy_keys :: "destructors \<Rightarrow> addr \<Rightarrow> nat list \<Rightarrow> lsys \<Rightarrow> (bool \<times> lsys) option" where
  "destroy_keys D lt [] s = Some (False, s)"
| "destroy_keys D lt (k # ks) s = do {
     T \<leftarrow> threads s lt;
     X \<leftarrow> tlss s (lt_tls T);
     let nb_keys = nb_keys_inuse X;
     if nb_keys = 0 then Some (True, s)
     else if length (tls_data X) \<le> k then None
     else if tls_data X ! k = NULL then destroy_keys D lt ks s
     else do {
       s \<leftarrow> upd_tls (lt_tls T) (\<lambda>X. X\<lparr>tls_data := (tls_data X)[k := NULL], nb_keys_inuse := nb_keys - 1\<rparr>) s;
       if length (key_table s) \<le> k then None
       else if key_table s ! k \<noteq> NULL then do {
         s \<leftarrow> D (key_table s ! k) (tls_data X ! k) s;
         destroy_keys D lt ks s }
       else destroy_keys D lt ks s } }"

fun destroy_passes :: "destructors \<Rightarrow> addr \<Rightarrow> nat \<Rightarrow> lsys \<Rightarrow> lsys option" where
  "destroy_passes D lt 0 s = Some s"
| "destroy_passes D lt (Suc i) s = do {
     (done, s) \<leftarrow> destroy_keys D lt [1..<LTHREAD_MAX_KEYS] s;
     if done then Some s else destroy_passes D lt i s }"

definition lthread_tls_destroy :: "destructors \<Rightarrow> addr \<Rightarrow> lsys \<Rightarrow> lsys option" where
  "lthread_tls_destroy D lt s = destroy_passes D lt LTHREAD_DESTRUCTOR_ITERATIONS s"

definition cur_tls :: "lsys \<Rightarrow> (addr \<times> lthread_tls) option" where
  "cur_tls s = do {
     lt \<leftarrow> THIS_LTHREAD s;
     T \<leftarrow> threads s lt;
     X \<leftarrow> tlss s (lt_tls T);
     Some (lt_tls T, X) }"

definition lthread_getspecific :: "nat \<Rightarrow> lsys \<Rightarrow> addr option" where
  "lthread_getspecific k s =
     (if k > LTHREAD_MAX_KEYS then Some NULL
      else do { (p, X) \<leftarrow> cur_tls s; if length (tls_data X) \<le> k then None else Some (tls_data X ! k) })"

definition lthread_setspecific :: "nat \<Rightarrow> addr \<Rightarrow> lsys \<Rightarrow> (addr \<times> lsys) option" where
  "lthread_setspecific k d s =
     (if k > LTHREAD_MAX_KEYS then Some (EINVAL, s)
      else do {
        (p, X) \<leftarrow> cur_tls s;
        if length (tls_data X) \<le> k then None
        else do {
          s \<leftarrow> upd_tls p (\<lambda>X. X\<lparr>nb_keys_inuse := (if d \<noteq> NULL \<and> tls_data X ! k = NULL then nb_keys_inuse X + 1 else nb_keys_inuse X),
                              tls_data := (tls_data X)[k := d]\<rparr>) s;
          Some (0, s) } })"

text \<open>The area comes from a cache and is not cleared: it holds what its last thread left.\<close>

definition tls_at :: "lsys \<Rightarrow> addr \<Rightarrow> lthread_tls" where
  "tls_at s x = (case tlss s x of Some X \<Rightarrow> X
     | None \<Rightarrow> \<lparr>tls_data = replicate LTHREAD_MAX_KEYS NULL, nb_keys_inuse = 0, tls_root_sched = NULL\<rparr>)"

definition lthread_tls_alloc :: "lenv \<Rightarrow> addr \<Rightarrow> lsys \<Rightarrow> lsys option" where
  "lthread_tls_alloc E lt s = do {
     S \<leftarrow> cur_sched s;
     (x, s) \<leftarrow> on_mem (lthread_objcache_alloc (e_mal E) (sc_tls_cache S)) s;
     if x = NULL then None
     else do {
       let s = s\<lparr>tlss := (tlss s)(x \<mapsto> (tls_at s x)\<lparr>tls_root_sched := THIS_SCHED s\<rparr>)\<rparr>;
       s \<leftarrow> upd_thread lt (\<lambda>T. T\<lparr>lt_tls := x\<rparr>) s;
       if 8 < e_per_lt_section E then do {
         (d, s) \<leftarrow> on_mem (lthread_objcache_alloc (e_mal E) (sc_per_lthread_cache S)) s;
         upd_thread lt (\<lambda>T. T\<lparr>per_lthread_data := d\<rparr>) s }
       else Some s } }"

subsection \<open>Destroying the data of a thread\<close>

text \<open>The thread \<open>lt\<close> has an array of values with a place for every key.\<close>

definition tls_ready :: "addr \<Rightarrow> lsys \<Rightarrow> bool" where
  "tls_ready lt s \<longleftrightarrow> length (key_table s) = LTHREAD_MAX_KEYS \<and>
     (\<exists>T X. threads s lt = Some T \<and> tlss s (lt_tls T) = Some X \<and> length (tls_data X) = LTHREAD_MAX_KEYS)"

text \<open>Destructors that return and leave the arrays in place; they may set and create keys.\<close>

definition destructors_return :: "destructors \<Rightarrow> addr \<Rightarrow> bool" where
  "destructors_return D lt \<longleftrightarrow> (\<forall>f d s. tls_ready lt s \<longrightarrow> (\<exists>s'. D f d s = Some s' \<and> tls_ready lt s'))"

lemma destroy_keys_returns:
  assumes "destructors_return D lt" "tls_ready lt s" "set ks \<subseteq> {..<LTHREAD_MAX_KEYS}"
  shows "\<exists>b s'. destroy_keys D lt ks s = Some (b, s') \<and> tls_ready lt s'"
  using assms(2,3)
proof (induction ks arbitrary: s)
  case (Cons k ks)
  obtain T X where T: "threads s lt = Some T" "tlss s (lt_tls T) = Some X" "length (tls_data X) = LTHREAD_MAX_KEYS"
    "length (key_table s) = LTHREAD_MAX_KEYS"
    using Cons.prems(1) unfolding tls_ready_def by blast
  let ?X = "X\<lparr>tls_data := (tls_data X)[k := NULL], nb_keys_inuse := nb_keys_inuse X - 1\<rparr>"
  let ?s = "s\<lparr>tlss := (tlss s)(lt_tls T \<mapsto> ?X)\<rparr>"
  have k: "k < LTHREAD_MAX_KEYS" "set ks \<subseteq> {..<LTHREAD_MAX_KEYS}" using Cons.prems(2) by auto
  have r: "tls_ready lt ?s" using T by (simp add: tls_ready_def)
  have u: "upd_tls (lt_tls T) (\<lambda>Y. Y\<lparr>tls_data := (tls_data Y)[k := NULL], nb_keys_inuse := nb_keys_inuse X - 1\<rparr>) s = Some ?s"
    using T by (simp add: upd_tls_def)
  show ?case
  proof (cases "nb_keys_inuse X = 0 \<or> tls_data X ! k = NULL")
    case True
    then show ?thesis using T k Cons.IH [OF Cons.prems(1) k(2)] Cons.prems(1) by (auto simp: Let_def)
  next
    case False
    obtain s2 where s2: "D (key_table s ! k) (tls_data X ! k) ?s = Some s2" "tls_ready lt s2"
      using assms(1) r unfolding destructors_return_def by blast
    show ?thesis using False T k u s2(1) Cons.IH [OF s2(2) k(2)] Cons.IH [OF r k(2)] by (auto simp: Let_def)
  qed
qed (auto intro: exI [of _ False])

lemma destroy_passes_returns:
  assumes "destructors_return D lt" "tls_ready lt s"
  shows "\<exists>s'. destroy_passes D lt i s = Some s' \<and> tls_ready lt s'"
  using assms(2)
proof (induction i arbitrary: s)
  case (Suc i)
  have "set [1..<LTHREAD_MAX_KEYS] \<subseteq> {..<LTHREAD_MAX_KEYS}" by auto
  then obtain b s1 where "destroy_keys D lt [1..<LTHREAD_MAX_KEYS] s = Some (b, s1)" "tls_ready lt s1"
    using destroy_keys_returns [OF assms(1) Suc.prems] by blast
  then show ?case using Suc.IH [of s1] by auto
qed simp


text \<open>Destructors that only write user memory: what they are called with, in order.\<close>

fun run_destr :: "(addr \<Rightarrow> addr \<Rightarrow> (addr \<rightharpoonup> addr) \<Rightarrow> addr \<rightharpoonup> addr) \<Rightarrow> (addr \<times> addr) list \<Rightarrow> (addr \<rightharpoonup> addr) \<Rightarrow> addr \<rightharpoonup> addr" where
  "run_destr h [] u = u"
| "run_destr h ((f, d) # cs) u = run_destr h cs (if f \<noteq> NULL then h f d u else u)"

definition keys_used :: "addr list \<Rightarrow> nat list \<Rightarrow> nat list" where
  "keys_used xs ks = filter (\<lambda>k. xs ! k \<noteq> NULL) ks"

definition clear_keys :: "nat list \<Rightarrow> addr list \<Rightarrow> addr list" where
  "clear_keys ks xs = fold (\<lambda>k xs. xs[k := NULL]) ks xs"

lemma length_clear [simp]: "length (clear_keys ks xs) = length xs"
  by (induction ks arbitrary: xs) (simp_all add: clear_keys_def)

lemma clear_keys_nth: "i < length xs \<Longrightarrow> clear_keys ks xs ! i = (if i \<in> set ks then NULL else xs ! i)"
  by (induction ks arbitrary: xs) (auto simp: clear_keys_def nth_list_update)

lemma clear_keys_Cons: "clear_keys (k # ks) xs = clear_keys ks (xs[k := NULL])"
  by (simp add: clear_keys_def)

lemma clear_unused: "set ks \<subseteq> {..<length xs} \<Longrightarrow> keys_used xs ks = [] \<Longrightarrow> clear_keys ks xs = xs"
  by (rule nth_equalityI) (auto simp: clear_keys_nth keys_used_def filter_empty_conv)

lemma keys_used_upd: "k \<notin> set ks \<Longrightarrow> keys_used (xs[k := v]) ks = keys_used xs ks"
  unfolding keys_used_def by (rule filter_cong) (simp, metis nth_list_update_neq)

lemma destroy_keys_clears:
  assumes D: "\<forall>f d s. D f d s = Some (s\<lparr>umem := h f d (umem s)\<rparr>)"
    and T: "threads s lt = Some T" "tlss s (lt_tls T) = Some X" "length (tls_data X) = LTHREAD_MAX_KEYS" "length (key_table s) = LTHREAD_MAX_KEYS"
    and ks: "distinct ks" "set ks \<subseteq> {..<LTHREAD_MAX_KEYS}" "nb_keys_inuse X = int (length (keys_used (tls_data X) ks))"
  shows "\<exists>b. destroy_keys D lt ks s = Some (b, s\<lparr>tlss := (tlss s)(lt_tls T \<mapsto> X\<lparr>tls_data := clear_keys ks (tls_data X), nb_keys_inuse := 0\<rparr>),
      umem := run_destr h (map (\<lambda>k. (key_table s ! k, tls_data X ! k)) (keys_used (tls_data X) ks)) (umem s)\<rparr>)"
  using T ks
proof (induction ks arbitrary: s X)
  case Nil
  then have "X\<lparr>tls_data := clear_keys [] (tls_data X), nb_keys_inuse := 0\<rparr> = X" by (cases X) (simp add: clear_keys_def keys_used_def)
  then have "(tlss s)(lt_tls T \<mapsto> X\<lparr>tls_data := clear_keys [] (tls_data X), nb_keys_inuse := 0\<rparr>) = tlss s"
    using Nil(2) by (simp only: fun_upd_idem)
  then show ?case by (intro exI [of _ False]) (simp add: keys_used_def)
next
  case (Cons k ks)
  have k: "k < LTHREAD_MAX_KEYS" "set ks \<subseteq> {..<LTHREAD_MAX_KEYS}" "distinct ks" "k \<notin> set ks" using Cons.prems by auto
  show ?case
  proof (cases "nb_keys_inuse X = 0")
    case True
    then have e: "keys_used (tls_data X) (k # ks) = []" using Cons.prems(7) by simp
    then have "clear_keys (k # ks) (tls_data X) = tls_data X"
      using Cons.prems(3,6) by (intro clear_unused) auto
    then have "X\<lparr>tls_data := clear_keys (k # ks) (tls_data X), nb_keys_inuse := 0\<rparr> = X" using True by (cases X) simp
    then have "(tlss s)(lt_tls T \<mapsto> X\<lparr>tls_data := clear_keys (k # ks) (tls_data X), nb_keys_inuse := 0\<rparr>) = tlss s"
      using Cons.prems(2) by (simp only: fun_upd_idem)
    then show ?thesis using Cons.prems(1,2) True e by (intro exI [of _ True]) (simp del: fun_upd_apply)
  next
    case False
    show ?thesis
    proof (cases "tls_data X ! k = NULL")
      case True
      then have "clear_keys (k # ks) (tls_data X) = clear_keys ks (tls_data X)" "keys_used (tls_data X) (k # ks) = keys_used (tls_data X) ks"
        by (simp_all add: clear_keys_Cons keys_used_def list_update_same_conv [THEN iffD2] Cons.prems(3) k(1))
      then show ?thesis using Cons.IH [OF Cons.prems(1-4) k(3,2)] Cons.prems False True k(1) by (simp add: Let_def)
    next
      case nn: False
      let ?X = "X\<lparr>tls_data := (tls_data X)[k := NULL], nb_keys_inuse := nb_keys_inuse X - 1\<rparr>"
      let ?u = "if key_table s ! k \<noteq> NULL then h (key_table s ! k) (tls_data X ! k) (umem s) else umem s"
      let ?s = "s\<lparr>tlss := (tlss s)(lt_tls T \<mapsto> ?X), umem := ?u\<rparr>"
      have ku: "keys_used (tls_data X) (k # ks) = k # keys_used (tls_data X) ks" using nn by (simp add: keys_used_def)
      have "map (\<lambda>j. (key_table s ! j, tls_data X ! j)) (keys_used (tls_data X) ks) =
          map (\<lambda>j. (key_table s ! j, (tls_data X)[k := NULL] ! j)) (keys_used (tls_data X) ks)"
        using k(4) by (intro map_cong refl) (auto simp: keys_used_def intro!: nth_list_update_neq [symmetric])
      note mp = this
      have step: "destroy_keys D lt (k # ks) s = destroy_keys D lt ks ?s"
        using Cons.prems False nn k(1) D by (simp add: Let_def upd_tls_def)
      have "threads ?s lt = Some T" "tlss ?s (lt_tls T) = Some ?X" "length (tls_data ?X) = LTHREAD_MAX_KEYS" "length (key_table ?s) = LTHREAD_MAX_KEYS"
        "nb_keys_inuse ?X = int (length (keys_used (tls_data ?X) ks))"
        using Cons.prems ku by (simp_all add: keys_used_upd [OF k(4)])
      from Cons.IH [OF this(1-4) k(3,2) this(5)]
      obtain b where b: "destroy_keys D lt ks ?s = Some (b, ?s\<lparr>tlss := (tlss ?s)(lt_tls T \<mapsto> ?X\<lparr>tls_data := clear_keys ks (tls_data ?X), nb_keys_inuse := 0\<rparr>),
          umem := run_destr h (map (\<lambda>j. (key_table ?s ! j, tls_data ?X ! j)) (keys_used (tls_data ?X) ks)) (umem ?s)\<rparr>)"
        by (elim exE) (rule that)
      have "?s\<lparr>tlss := (tlss ?s)(lt_tls T \<mapsto> ?X\<lparr>tls_data := clear_keys ks (tls_data ?X), nb_keys_inuse := 0\<rparr>),
          umem := run_destr h (map (\<lambda>j. (key_table ?s ! j, tls_data ?X ! j)) (keys_used (tls_data ?X) ks)) (umem ?s)\<rparr> =
        s\<lparr>tlss := (tlss s)(lt_tls T \<mapsto> X\<lparr>tls_data := clear_keys (k # ks) (tls_data X), nb_keys_inuse := 0\<rparr>),
          umem := run_destr h (map (\<lambda>j. (key_table s ! j, tls_data X ! j)) (keys_used (tls_data X) (k # ks))) (umem s)\<rparr>"
        by (simp add: ku clear_keys_Cons keys_used_upd [OF k(4)] mp)
      then show ?thesis unfolding step using b by (intro exI [of _ b]) (simp only:)
    qed
  qed
qed

text \<open>For destructors that only write memory of their own, \<open>_lthread_tls_destroy\<close> clears every key of
  the thread and calls the destructor of each key in use exactly once, with its value, in the order
  of the keys; nothing else changes. It needs \<open>nb_keys_inuse\<close> to be the number of keys in use.\<close>

theorem tls_destroy_clears:
  assumes "\<forall>f d s. D f d s = Some (s\<lparr>umem := h f d (umem s)\<rparr>)"
    and "threads s lt = Some T" "tlss s (lt_tls T) = Some X" "length (tls_data X) = LTHREAD_MAX_KEYS" "length (key_table s) = LTHREAD_MAX_KEYS"
    and "nb_keys_inuse X = int (length (keys_used (tls_data X) [1..<LTHREAD_MAX_KEYS]))"
  shows "\<exists>ys. lthread_tls_destroy D lt s = Some (s\<lparr>tlss := (tlss s)(lt_tls T \<mapsto> X\<lparr>tls_data := ys, nb_keys_inuse := 0\<rparr>),
      umem := run_destr h (map (\<lambda>k. (key_table s ! k, tls_data X ! k)) (keys_used (tls_data X) [1..<LTHREAD_MAX_KEYS])) (umem s)\<rparr>) \<and>
    length ys = LTHREAD_MAX_KEYS \<and> (\<forall>k\<in>{1..<LTHREAD_MAX_KEYS}. ys ! k = NULL)"
proof -
  let ?ks = "[1..<LTHREAD_MAX_KEYS]"
  have ks: "distinct ?ks" "set ?ks \<subseteq> {..<LTHREAD_MAX_KEYS}" by auto
  let ?X = "X\<lparr>tls_data := clear_keys ?ks (tls_data X), nb_keys_inuse := 0\<rparr>"
  let ?s = "s\<lparr>tlss := (tlss s)(lt_tls T \<mapsto> ?X),
      umem := run_destr h (map (\<lambda>k. (key_table s ! k, tls_data X ! k)) (keys_used (tls_data X) ?ks)) (umem s)\<rparr>"
  obtain b where b: "destroy_keys D lt ?ks s = Some (b, ?s)"
    using destroy_keys_clears [OF assms(1-5) ks assms(6)] by (elim exE) (rule that)
  have "1 < LTHREAD_MAX_KEYS" by (simp add: LTHREAD_MAX_KEYS_def)
  then have "?ks = 1 # [Suc 1..<LTHREAD_MAX_KEYS]" by (rule upt_conv_Cons)
  then have "destroy_keys D lt ?ks ?s = Some (True, ?s)" using assms(2) by simp
  then have "lthread_tls_destroy D lt s = Some ?s"
    using b by (cases b) (simp_all add: lthread_tls_destroy_def LTHREAD_DESTRUCTOR_ITERATIONS_def numeral_eq_Suc)
  then show ?thesis using assms(4)
    by (intro exI [of _ "clear_keys ?ks (tls_data X)"]) (simp add: clear_keys_nth)
qed

subsection \<open>Keys\<close>

text \<open>Threads create keys with a destructor and delete keys they created; \<open>live\<close> is the keys in use.
  The address \<open>p\<close> receives each new key.\<close>

datatype key_op = New_key addr | Del_key nat

fun run_keys :: "addr \<Rightarrow> key_op list \<Rightarrow> (nat \<times> addr) list \<Rightarrow> lsys \<Rightarrow> ((nat \<times> addr) list \<times> lsys) option" where
  "run_keys p [] live s = Some (live, s)"
| "run_keys p (New_key f # ops) live s = do {
     (r, s) \<leftarrow> lthread_key_create p f s;
     if r = 0 then run_keys p ops ((the (umem s p), f) # live) s else run_keys p ops live s }"
| "run_keys p (Del_key k # ops) live s =
     (if k \<notin> fst ` set live then run_keys p ops live s
      else do {
        (r, s) \<leftarrow> lthread_key_delete k s;
        run_keys p ops (filter (\<lambda>e. fst e \<noteq> k) live) s })"

definition keys_inv :: "addr \<Rightarrow> (nat \<times> addr) list \<Rightarrow> lsys \<Rightarrow> bool" where
  "keys_inv p live s \<longleftrightarrow> p \<noteq> NULL \<and> p \<in> dom (umem s) \<and> length (key_table s) = LTHREAD_MAX_KEYS \<and>
     (\<exists>ring. key_pool s = Some ring \<and> distinct (ring @ map fst live) \<and> set (ring @ map fst live) = {1..<LTHREAD_MAX_KEYS}) \<and>
     (\<forall>(k, f)\<in>set live. key_table s ! k = f)"

lemma keys_full:
  assumes "distinct (xs @ ys)" "set (xs @ ys) = {1..<LTHREAD_MAX_KEYS}" "ys \<noteq> []"
  shows "length xs < LTHREAD_MAX_KEYS - 1"
proof -
  have "length (xs @ ys) = card {1..<LTHREAD_MAX_KEYS}" using distinct_card [OF assms(1)] assms(2) by simp
  moreover have "length ys \<noteq> 0" using assms(3) by simp
  ultimately show ?thesis by (simp only: length_append card_atLeastLessThan)
qed

lemma key_create_inv:
  assumes "keys_inv p live s"
  shows "\<exists>r s'. lthread_key_create p f s = Some (r, s') \<and>
    (if r = 0 then keys_inv p ((the (umem s' p), f) # live) s' else r = EAGAIN \<and> s' = s \<and> length live = LTHREAD_MAX_KEYS - 1)"
proof -
  obtain ring v where R: "key_pool s = Some ring" "distinct (ring @ map fst live)" "set (ring @ map fst live) = {1..<LTHREAD_MAX_KEYS}"
    "p \<noteq> NULL" "umem s p = Some v" "length (key_table s) = LTHREAD_MAX_KEYS" "\<forall>(k, f)\<in>set live. key_table s ! k = f"
    using assms unfolding keys_inv_def by blast
  show ?thesis
  proof (cases ring)
    case Nil
    have "length (map fst live) = card {1..<LTHREAD_MAX_KEYS}"
      using distinct_card [of "map fst live"] R(2,3) Nil by simp
    then show ?thesis using R(1,4) Nil by (simp add: lthread_key_create_def EAGAIN_def)
  next
    case (Cons k ks)
    have k: "k < LTHREAD_MAX_KEYS" "k \<notin> fst ` set live" "1 \<le> k" using R(2,3) Cons by auto
    let ?s = "s\<lparr>key_pool := Some ks, key_table := (key_table s)[k := f], umem := (umem s)(p \<mapsto> k)\<rparr>"
    have c: "lthread_key_create p f s = Some (0, ?s)"
      using R(1,4,5,6) Cons k(1) by (simp add: lthread_key_create_def store_def)
    have "\<forall>(j, g)\<in>set ((k, f) # live). (key_table s)[k := f] ! j = g"
    proof -
      have "j \<noteq> k" if "(j, g) \<in> set live" for j g using that k(2) by force
      then show ?thesis using R(6,7) k(1) by fastforce
    qed
    moreover have "distinct (ks @ map fst ((k, f) # live))" "set (ks @ map fst ((k, f) # live)) = {1..<LTHREAD_MAX_KEYS}"
      using R(2,3) Cons by auto
    ultimately have "keys_inv p ((the (umem ?s p), f) # live) ?s" using R(4,6) by (simp add: keys_inv_def del: set_append set_simps distinct_append distinct.simps)
    then show ?thesis using c by (intro exI [of _ 0], intro exI [of _ ?s]) simp
  qed
qed

lemma key_delete_inv:
  assumes "keys_inv p live s" "k \<in> fst ` set live"
  shows "\<exists>s'. lthread_key_delete k s = Some (0, s') \<and> keys_inv p (filter (\<lambda>e. fst e \<noteq> k) live) s'"
proof -
  obtain ring where R: "key_pool s = Some ring" "distinct (ring @ map fst live)" "set (ring @ map fst live) = {1..<LTHREAD_MAX_KEYS}"
    "p \<noteq> NULL" "p \<in> dom (umem s)" "length (key_table s) = LTHREAD_MAX_KEYS" "\<forall>(k, f)\<in>set live. key_table s ! k = f"
    using assms(1) unfolding keys_inv_def by blast
  have "k \<in> set (ring @ map fst live)" using assms(2) by simp
  then have k: "k < LTHREAD_MAX_KEYS" "1 \<le> k" using R(3) by auto
  have l: "length ring < LTHREAD_MAX_KEYS - 1" by (rule keys_full [OF R(2,3)]) (use assms(2) in auto)
  let ?s = "s\<lparr>key_table := (key_table s)[k := NULL], key_pool := Some (ring @ [k])\<rparr>" and ?live = "filter (\<lambda>e. fst e \<noteq> k) live"
  have d: "lthread_key_delete k s = Some (0, ?s)" using R(1,6) k l by (simp add: lthread_key_delete_def)
  have mf: "map fst ?live = filter (\<lambda>j. j \<noteq> k) (map fst live)" by (simp add: filter_map comp_def)
  have nr: "k \<notin> set ring" using R(2) assms(2) by auto
  have "distinct ((ring @ [k]) @ map fst ?live)" unfolding mf using R(2) nr by auto
  moreover have "set ((ring @ [k]) @ map fst ?live) = set (ring @ map fst live)" unfolding mf using assms(2) by auto
  moreover have "\<forall>(j, g)\<in>set ?live. (key_table s)[k := NULL] ! j = g" using R(7) by (auto simp: nth_list_update)
  ultimately have "keys_inv p ?live ?s" using R(3-6) by (simp add: keys_inv_def del: set_append distinct_append)
  then show ?thesis using d by blast
qed


text \<open>Creating a scheduler on another lcore forgets every destructor: \<open>_lthread_key_pool_init\<close> clears
  the table of all keys each time it is called, not only the first time; the keys stay taken.\<close>

theorem key_pool_init_forgets:
  assumes "keys_inv p live s" "key_pool_init s"
  shows "\<exists>s'. lthread_key_pool_init s = Some s' \<and> key_pool s' = key_pool s \<and> (\<forall>(k, f)\<in>set live. key_table s' ! k = NULL)"
proof -
  obtain ring where "key_pool s = Some ring" "set (ring @ map fst live) = {1..<LTHREAD_MAX_KEYS}"
    using assms(1) unfolding keys_inv_def by blast
  moreover from this have "\<forall>(k, f)\<in>set live. k < LTHREAD_MAX_KEYS" by (auto dest!: equalityD1 [THEN subsetD])
  ultimately show ?thesis using assms(2) by (auto simp: lthread_key_pool_init_def Let_def)
qed

text \<open>Storing a value and then NULL under a key leaves \<open>nb_keys_inuse\<close> one too high with the same
  values as before: the count only ever goes up in \<open>lthread_setspecific\<close>.\<close>

theorem setspecific_drift:
  assumes "cur_tls s = Some (p, X)" "k < length (tls_data X)" "length (tls_data X) = LTHREAD_MAX_KEYS"
    and "tls_data X ! k = NULL" "d \<noteq> NULL"
  shows "\<exists>s1 s2 X'. lthread_setspecific k d s = Some (0, s1) \<and> lthread_setspecific k NULL s1 = Some (0, s2) \<and>
    cur_tls s2 = Some (p, X') \<and> tls_data X' = tls_data X \<and> nb_keys_inuse X' = nb_keys_inuse X + 1"
proof -
  obtain lt T where c: "THIS_LTHREAD s = Some lt" "threads s lt = Some T" "tlss s p = Some X" "lt_tls T = p"
    using assms(1) by (auto simp: cur_tls_def split: bind_splits)
  have cur: "cur_tls (s\<lparr>tlss := (tlss s)(p \<mapsto> Y)\<rparr>) = Some (p, Y)" for Y
  proof -
    obtain S where "scheds s (this_sched s (cpu s)) = Some S" "sc_current S = lt"
      using c(1) by (auto simp: THIS_LTHREAD_def cur_sched_def THIS_SCHED_def)
    then show ?thesis using c(2-4) by (simp add: cur_tls_def THIS_LTHREAD_def cur_sched_def THIS_SCHED_def)
  qed
  let ?X1 = "X\<lparr>nb_keys_inuse := nb_keys_inuse X + 1, tls_data := (tls_data X)[k := d]\<rparr>"
  let ?s1 = "s\<lparr>tlss := (tlss s)(p \<mapsto> ?X1)\<rparr>" and ?X2 = "?X1\<lparr>tls_data := (tls_data X)[k := NULL]\<rparr>"
  let ?s2 = "s\<lparr>tlss := (tlss s)(p \<mapsto> ?X2)\<rparr>"
  have A: "lthread_setspecific k d s = Some (0, ?s1)"
    using assms c by (simp add: lthread_setspecific_def upd_tls_def)
  have B: "lthread_setspecific k NULL ?s1 = Some (0, ?s2)"
    using assms cur [of ?X1] by (simp add: lthread_setspecific_def upd_tls_def)
  have "(tls_data X)[k := NULL] = tls_data X" using assms(4) by (metis list_update_id)
  then show ?thesis
    by - (rule exI [of _ ?s1], rule exI [of _ ?s2], rule exI [of _ ?X2], intro conjI A B cur, simp_all)
qed

subsection \<open>Witnesses\<close>

lemma demo_tls_ready: "tls_ready 100 demo_sys"
  by (simp add: tls_ready_def demo_sys_def demo_thread_def)


text \<open>Thread 100 with a value under key 3, whose destructor clears the value's cell.\<close>

definition demo_keyed :: lsys where
  "demo_keyed = demo_sys\<lparr>key_table := (replicate LTHREAD_MAX_KEYS 0)[3 := 77], umem := [200 \<mapsto> 5],
     tlss := [70 \<mapsto> \<lparr>tls_data = (replicate LTHREAD_MAX_KEYS 0)[3 := 200], nb_keys_inuse = 1, tls_root_sched = 40\<rparr>]\<rparr>"

lemma demo_keyed_used: "keys_used ((replicate LTHREAD_MAX_KEYS 0)[3 := 200]) [1..<LTHREAD_MAX_KEYS] = [3]"
proof -
  have f: "filter (\<lambda>k. k = (3::nat)) [1..<n] = (if 3 < n then [3] else [])" for n
    by (induction n) auto
  have "keys_used ((replicate LTHREAD_MAX_KEYS 0)[3 := 200]) [1..<LTHREAD_MAX_KEYS] = filter (\<lambda>k. k = 3) [1..<LTHREAD_MAX_KEYS]"
  proof -
    have "3 < LTHREAD_MAX_KEYS" by (simp add: LTHREAD_MAX_KEYS_def)
    then show ?thesis unfolding keys_used_def by (intro filter_cong) (auto simp: nth_list_update split: if_splits)
  qed
  then show ?thesis unfolding f by (simp add: LTHREAD_MAX_KEYS_def)
qed

theorem tls_destroy_clears_witness:
  "\<exists>s'. lthread_tls_destroy (\<lambda>f d s. Some (s\<lparr>umem := (umem s)(d \<mapsto> f)\<rparr>)) 100 demo_keyed = Some s' \<and> umem s' 200 = Some 77"
proof -
  let ?X = "\<lparr>tls_data = (replicate LTHREAD_MAX_KEYS 0)[3 := 200], nb_keys_inuse = 1, tls_root_sched = 40\<rparr>"
  have "threads demo_keyed 100 = Some demo_thread" "tlss demo_keyed (lt_tls demo_thread) = Some ?X" "length (tls_data ?X) = LTHREAD_MAX_KEYS"
    "length (key_table demo_keyed) = LTHREAD_MAX_KEYS" "nb_keys_inuse ?X = int (length (keys_used (tls_data ?X) [1..<LTHREAD_MAX_KEYS]))"
    using demo_keyed_used by (simp_all add: demo_keyed_def demo_sys_def demo_thread_def)
  moreover have "(3::nat) < LTHREAD_MAX_KEYS" by (simp add: LTHREAD_MAX_KEYS_def)
  ultimately show ?thesis
    using tls_destroy_clears [where D = "\<lambda>f d s. Some (s\<lparr>umem := (umem s)(d \<mapsto> f)\<rparr>)" and h = "\<lambda>f d u. u(d \<mapsto> f)" and s = demo_keyed
        and lt = 100 and T = demo_thread and X = ?X] demo_keyed_used
    by (auto simp: demo_keyed_def)
qed

definition demo_fresh_keys :: lsys where
  "demo_fresh_keys = demo_sys\<lparr>key_pool := Some [1..<LTHREAD_MAX_KEYS]\<rparr>"

lemma demo_keys_inv: "keys_inv 200 [] demo_fresh_keys"
  by (auto simp: keys_inv_def demo_fresh_keys_def demo_sys_def)


theorem key_pool_init_forgets_witness:
  "\<exists>s'. lthread_key_pool_init demo_fresh_keys = Some s' \<and> key_pool s' = Some [1..<LTHREAD_MAX_KEYS]"
proof -
  have "key_pool_init demo_fresh_keys" "key_pool demo_fresh_keys = Some [1..<LTHREAD_MAX_KEYS]"
    by (simp_all add: demo_fresh_keys_def demo_sys_def)
  then show ?thesis using key_pool_init_forgets [OF demo_keys_inv] by metis
qed

theorem setspecific_drift_witness:
  "\<exists>s1 s2 X'. lthread_setspecific 3 9 demo_sys = Some (0, s1) \<and> lthread_setspecific 3 NULL s1 = Some (0, s2) \<and>
    cur_tls s2 = Some (70, X') \<and> nb_keys_inuse X' = 1"
proof -
  let ?X = "\<lparr>tls_data = replicate LTHREAD_MAX_KEYS 0, nb_keys_inuse = 0, tls_root_sched = 40\<rparr>"
  have "cur_tls demo_sys = Some (70, ?X)"
    by (simp add: cur_tls_def demo_sys_simps demo_thread_def) (simp add: demo_sys_def)
  moreover have "(3::nat) < LTHREAD_MAX_KEYS" by (simp add: LTHREAD_MAX_KEYS_def)
  ultimately show ?thesis using setspecific_drift [of demo_sys 70 ?X 3 9] by auto
qed

end
