(* ===== verification/Lthread_Core.thy ===== *)
theory Lthread_Core
  imports Lthread_Tls
begin

section \<open>Threads and the scheduler (lthread.c, lthread_sched.c)\<close>

text \<open>
  The life of a thread: creation, the calls that suspend it, exit and join, and the scheduler that
  resumes threads until it is done. \<open>run_prog\<close> and \<open>run_ctx\<close> run a thread from one \<open>ctx_switch\<close> to
  the next; \<open>_lthread_resume\<close> wraps them. Logging and diagnostics are left out.
\<close>

subsection \<open>Scheduler creation\<close>

datatype alloc_phase = SCHED_ALLOC_OK | SCHED_ALLOC_QNODE_POOL | SCHED_ALLOC_READY_QUEUE | SCHED_ALLOC_PREADY_QUEUE
  | SCHED_ALLOC_LTHREAD_CACHE | SCHED_ALLOC_STACK_CACHE | SCHED_ALLOC_PERLT_CACHE | SCHED_ALLOC_TLS_CACHE
  | SCHED_ALLOC_COND_CACHE | SCHED_ALLOC_MUTEX_CACHE

text \<open>One block of \<open>_lthread_sched_alloc_resources\<close>: allocate, store the pointer, leave with the phase when
  it is NULL.\<close>

definition alloc_block ::
  "alloc_phase \<Rightarrow> addr \<Rightarrow> (lmem \<Rightarrow> (addr \<times> lmem) option) \<Rightarrow> (addr \<Rightarrow> lthread_sched \<Rightarrow> lthread_sched) \<Rightarrow>
   (lsys \<Rightarrow> (alloc_phase \<times> lsys) option) \<Rightarrow> lsys \<Rightarrow> (alloc_phase \<times> lsys) option" where
  "alloc_block ph p alloc put k s = do {
     (x, s) \<leftarrow> on_mem alloc s;
     s \<leftarrow> upd_sched p (put x) s;
     if x = NULL then Some (ph, s) else k s }"

text \<open>The pool of the scheduler under construction is at once the one that nodes come from.\<close>

definition alloc_resources :: "lenv \<Rightarrow> addr \<Rightarrow> lsys \<Rightarrow> (alloc_phase \<times> lsys) option" where
  "alloc_resources E p =
     alloc_block SCHED_ALLOC_QNODE_POOL p
       (\<lambda>m. map_option (\<lambda>(x, m). (x, m\<lparr>cur_pool := x\<rparr>)) (qnode_pool_create (e_mal E) (e_junk E) ''qnode pool'' LTHREAD_PREALLOC m))
       (\<lambda>x S. S\<lparr>sc_qnode_pool := x\<rparr>) (
     alloc_block SCHED_ALLOC_READY_QUEUE p (lthread_queue_create (e_mal E) ''ready queue'') (\<lambda>x S. S\<lparr>sc_ready := x\<rparr>) (
     alloc_block SCHED_ALLOC_PREADY_QUEUE p (lthread_queue_create (e_mal E) ''pready queue'') (\<lambda>x S. S\<lparr>sc_pready := x\<rparr>) (
     alloc_block SCHED_ALLOC_LTHREAD_CACHE p
       (lthread_objcache_create (e_mal E) ''lthread cache'' (e_sizeof_lthread E) LTHREAD_PREALLOC) (\<lambda>x S. S\<lparr>sc_lthread_cache := x\<rparr>) (
     alloc_block SCHED_ALLOC_STACK_CACHE p
       (lthread_objcache_create (e_mal E) ''stack_cache'' (e_sizeof_stack E) LTHREAD_PREALLOC) (\<lambda>x S. S\<lparr>sc_stack_cache := x\<rparr>) (
     alloc_block SCHED_ALLOC_PERLT_CACHE p
       (lthread_objcache_create (e_mal E) ''per_lt cache'' (e_per_lt_section E) LTHREAD_PREALLOC) (\<lambda>x S. S\<lparr>sc_per_lthread_cache := x\<rparr>) (
     alloc_block SCHED_ALLOC_TLS_CACHE p
       (lthread_objcache_create (e_mal E) ''TLS cache'' (e_sizeof_tls E) LTHREAD_PREALLOC) (\<lambda>x S. S\<lparr>sc_tls_cache := x\<rparr>) (
     alloc_block SCHED_ALLOC_COND_CACHE p
       (lthread_objcache_create (e_mal E) ''cond cache'' (e_sizeof_cond E) LTHREAD_PREALLOC) (\<lambda>x S. S\<lparr>sc_cond_cache := x\<rparr>) (
     alloc_block SCHED_ALLOC_MUTEX_CACHE p
       (lthread_objcache_create (e_mal E) ''mutex cache'' (e_sizeof_mutex E) LTHREAD_PREALLOC) (\<lambda>x S. S\<lparr>sc_mutex_cache := x\<rparr>) (
     \<lambda>s. Some (SCHED_ALLOC_OK, s))))))))))"

text \<open>The switch that undoes a failed allocation: each case falls through to the next.\<close>

fun undo_resources :: "alloc_phase \<Rightarrow> lthread_sched \<Rightarrow> lmem \<Rightarrow> lmem option" where
  "undo_resources SCHED_ALLOC_MUTEX_CACHE S m = do { (r, m) \<leftarrow> lthread_objcache_destroy (sc_cond_cache S) m; (r, m) \<leftarrow> lthread_objcache_destroy (sc_tls_cache S) m;
     (r, m) \<leftarrow> lthread_objcache_destroy (sc_per_lthread_cache S) m; (r, m) \<leftarrow> lthread_objcache_destroy (sc_stack_cache S) m;
     (r, m) \<leftarrow> lthread_objcache_destroy (sc_lthread_cache S) m; (r, m) \<leftarrow> lthread_queue_destroy (sc_pready S) m;
     (r, m) \<leftarrow> lthread_queue_destroy (sc_ready S) m; qnode_pool_destroy (sc_qnode_pool S) m }"
| "undo_resources SCHED_ALLOC_COND_CACHE S m = do { (r, m) \<leftarrow> lthread_objcache_destroy (sc_tls_cache S) m;
     (r, m) \<leftarrow> lthread_objcache_destroy (sc_per_lthread_cache S) m; (r, m) \<leftarrow> lthread_objcache_destroy (sc_stack_cache S) m;
     (r, m) \<leftarrow> lthread_objcache_destroy (sc_lthread_cache S) m; (r, m) \<leftarrow> lthread_queue_destroy (sc_pready S) m;
     (r, m) \<leftarrow> lthread_queue_destroy (sc_ready S) m; qnode_pool_destroy (sc_qnode_pool S) m }"
| "undo_resources SCHED_ALLOC_TLS_CACHE S m = do {
     (r, m) \<leftarrow> lthread_objcache_destroy (sc_per_lthread_cache S) m; (r, m) \<leftarrow> lthread_objcache_destroy (sc_stack_cache S) m;
     (r, m) \<leftarrow> lthread_objcache_destroy (sc_lthread_cache S) m; (r, m) \<leftarrow> lthread_queue_destroy (sc_pready S) m;
     (r, m) \<leftarrow> lthread_queue_destroy (sc_ready S) m; qnode_pool_destroy (sc_qnode_pool S) m }"
| "undo_resources SCHED_ALLOC_PERLT_CACHE S m = do { (r, m) \<leftarrow> lthread_objcache_destroy (sc_stack_cache S) m;
     (r, m) \<leftarrow> lthread_objcache_destroy (sc_lthread_cache S) m; (r, m) \<leftarrow> lthread_queue_destroy (sc_pready S) m;
     (r, m) \<leftarrow> lthread_queue_destroy (sc_ready S) m; qnode_pool_destroy (sc_qnode_pool S) m }"
| "undo_resources SCHED_ALLOC_STACK_CACHE S m = do {
     (r, m) \<leftarrow> lthread_objcache_destroy (sc_lthread_cache S) m; (r, m) \<leftarrow> lthread_queue_destroy (sc_pready S) m;
     (r, m) \<leftarrow> lthread_queue_destroy (sc_ready S) m; qnode_pool_destroy (sc_qnode_pool S) m }"
| "undo_resources SCHED_ALLOC_LTHREAD_CACHE S m = do { (r, m) \<leftarrow> lthread_queue_destroy (sc_pready S) m;
     (r, m) \<leftarrow> lthread_queue_destroy (sc_ready S) m; qnode_pool_destroy (sc_qnode_pool S) m }"
| "undo_resources SCHED_ALLOC_PREADY_QUEUE S m = do {
     (r, m) \<leftarrow> lthread_queue_destroy (sc_ready S) m; qnode_pool_destroy (sc_qnode_pool S) m }"
| "undo_resources SCHED_ALLOC_READY_QUEUE S m = qnode_pool_destroy (sc_qnode_pool S) m"
| "undo_resources SCHED_ALLOC_QNODE_POOL S m = Some m"
| "undo_resources SCHED_ALLOC_OK S m = Some m"

definition lthread_sched_alloc_resources :: "lenv \<Rightarrow> addr \<Rightarrow> lsys \<Rightarrow> (alloc_phase \<times> lsys) option" where
  "lthread_sched_alloc_resources E p s = do {
     (ph, s) \<leftarrow> alloc_resources E p s;
     S \<leftarrow> scheds s p;
     s \<leftarrow> on_mem_upd (undo_resources ph S) s;
     Some (ph, s) }"

definition zero_sched :: lthread_sched where
  "zero_sched = \<lparr>sc_birth = 0, sc_current = NULL, sc_lcore_id = 0, sc_run_flag = False, sc_blocked = 0, sc_ready = NULL, sc_pready = NULL,
     sc_lthread_cache = NULL, sc_stack_cache = NULL, sc_per_lthread_cache = NULL, sc_tls_cache = NULL, sc_cond_cache = NULL,
     sc_mutex_cache = NULL, sc_qnode_pool = NULL, sc_stack_size = 0\<rparr>"

text \<open>After a failure \<open>THIS_SCHED\<close> still points to the freed block; the caller overwrites it.\<close>

definition lthread_sched_create :: "lenv \<Rightarrow> nat \<Rightarrow> lsys \<Rightarrow> (addr \<times> lsys) option" where
  "lthread_sched_create E stack_size s =
     (if stack_size > LTHREAD_MAX_STACK_SIZE then None
      else
        let stack_size = (if stack_size = 0 then LTHREAD_MAX_STACK_SIZE else stack_size) in
        case e_mal E (mem s) of None \<Rightarrow> Some (NULL, s)
        | Some p \<Rightarrow> do {
            let s = s\<lparr>mem := (mem s)\<lparr>raw := insert p (raw (mem s))\<rparr>\<rparr>;
            s \<leftarrow> lthread_key_pool_init s;
            let s = s\<lparr>scheds := (scheds s)(p \<mapsto> zero_sched\<lparr>sc_stack_size := stack_size, sc_birth := tsc s\<rparr>),
                     this_sched := (this_sched s)(cpu s := p)\<rparr>;
            (status, s) \<leftarrow> lthread_sched_alloc_resources E p s;
            if status \<noteq> SCHED_ALLOC_OK
            then Some (NULL, s\<lparr>scheds := (scheds s)(p := None), mem := (mem s)\<lparr>raw := raw (mem s) - {p}\<rparr>\<rparr>)
            else do {
              s \<leftarrow> upd_sched p (\<lambda>S. S\<lparr>sc_lcore_id := cpu s, sc_run_flag := True\<rparr>) s;
              if length (schedcore s) \<le> cpu s then None
              else Some (p, s\<lparr>schedcore := (schedcore s)[cpu s := p]\<rparr>) } })"

text \<open>The constructor that runs before \<open>main\<close>: no scheduler, one expected.\<close>

definition lthread_sched_ctor :: "lsys \<Rightarrow> lsys" where
  "lthread_sched_ctor s = s\<lparr>schedcore := replicate (length (schedcore s)) NULL, num_schedulers := 1, active_schedulers := 0\<rparr>"

text \<open>The 16-bit counters.\<close>

definition i16 :: "int \<Rightarrow> int" where
  "i16 n = sint (of_int n :: 16 word)"

definition lthread_num_schedulers_set :: "int \<Rightarrow> lsys \<Rightarrow> int \<times> lsys" where
  "lthread_num_schedulers_set n s = (let s = s\<lparr>num_schedulers := i16 n\<rparr> in (num_schedulers s, s))"

definition lthread_active_schedulers :: "lsys \<Rightarrow> int" where
  "lthread_active_schedulers s = active_schedulers s"

definition lthread_scheduler_shutdown :: "nat \<Rightarrow> lsys \<Rightarrow> lsys option" where
  "lthread_scheduler_shutdown coreid s =
     (if coreid < length (schedcore s) \<and> schedcore s ! coreid \<noteq> NULL
      then upd_sched (schedcore s ! coreid) (\<lambda>S. S\<lparr>sc_run_flag := False\<rparr>) s else Some s)"

text \<open>The flag is written here and read nowhere.\<close>

definition lthread_scheduler_force_shutdown :: "nat \<Rightarrow> lsys \<Rightarrow> lsys option" where
  "lthread_scheduler_force_shutdown lcore s =
     (if length (force_quit s) \<le> lcore then None else Some (s\<lparr>force_quit := (force_quit s)[lcore := True]\<rparr>))"

fun shutdown_cores :: "addr list \<Rightarrow> lsys \<Rightarrow> lsys option" where
  "shutdown_cores [] s = Some s"
| "shutdown_cores (p # ps) s =
     (if p \<noteq> NULL then do { s \<leftarrow> upd_sched p (\<lambda>S. S\<lparr>sc_run_flag := False\<rparr>) s; shutdown_cores ps s }
      else shutdown_cores ps s)"

text \<open>Waits until all schedulers have started: \<open>None\<close> while they have not.\<close>

definition lthread_scheduler_shutdown_all :: "lsys \<Rightarrow> lsys option" where
  "lthread_scheduler_shutdown_all s =
     (if active_schedulers s < num_schedulers s then None else shutdown_cores (schedcore s) s)"

text \<open>The bound lets \<open>lcore_id = LTHREAD_MAX_LCORES\<close> through.\<close>

definition lthread_sched_get :: "int \<Rightarrow> lsys \<Rightarrow> addr option" where
  "lthread_sched_get lcore_id s =
     (if lcore_id > int (length (schedcore s)) then Some NULL
      else if lcore_id < 0 \<or> int (length (schedcore s)) \<le> lcore_id then None
      else Some (schedcore s ! nat lcore_id))"

subsection \<open>Creation and destruction of threads\<close>

definition stack_alloc :: "lenv \<Rightarrow> lsys \<Rightarrow> (addr \<times> lsys) option" where
  "stack_alloc E s = do {
     S \<leftarrow> cur_sched s;
     (x, s) \<leftarrow> on_mem (lthread_objcache_alloc (e_mal E) (sc_stack_cache S)) s;
     if x = NULL then None
     else Some (x, s\<lparr>stacks := (stacks s)(x \<mapsto> \<lparr>st_stack_size = LTHREAD_MAX_STACK_SIZE, st_root_sched = THIS_SCHED s\<rparr>)\<rparr>) }"

text \<open>\<open>arch_set_stack\<close> makes the next \<open>ctx_switch\<close> enter \<open>_lthread_exec\<close> on the new stack.\<close>

definition arch_set_stack :: "addr \<Rightarrow> lsys \<Rightarrow> lsys option" where
  "arch_set_stack lt s = upd_thread lt (\<lambda>T. T\<lparr>lt_ctx := Start\<rparr>) s"

definition lthread_set_stack :: "addr \<Rightarrow> addr \<Rightarrow> nat \<Rightarrow> lsys \<Rightarrow> lsys option" where
  "lthread_set_stack lt stack sz s = do {
     s \<leftarrow> upd_thread lt (\<lambda>T. T\<lparr>lt_stack := stack, lt_stack_size := sz\<rparr>) s;
     arch_set_stack lt s }"

definition zero_thread :: lthread where
  "zero_thread = \<lparr>lt_ctx = Start, lt_state = 0, lt_sched = NULL, lt_stack = NULL, lt_stack_size = 0, lt_fun = User_fun NULL, lt_arg = NULL,
     per_lthread_data = NULL, lt_birth = 0, pending_wr_queue = NULL, lt_joiner = NULL, lt_join = LT_JOIN_INITIAL, lt_exit_ptr = NULL,
     lt_root_sched = NULL, lt_tim = None, lt_tls = NULL, lt_stack_container = NULL, lt_funcname = []\<rparr>"

definition lthread_init :: "addr \<Rightarrow> lt_func \<Rightarrow> addr \<Rightarrow> lsys \<Rightarrow> lsys option" where
  "lthread_init lt f arg s = do {
     now \<leftarrow> sched_now s;
     upd_thread lt (\<lambda>T. T\<lparr>lt_fun := f, lt_arg := arg, lt_birth := now, lt_state := BIT ST_LT_INIT, lt_join := LT_JOIN_INITIAL\<rparr>) s }"

text \<open>\<open>lthread_create\<close>; \<open>new_lt\<close> is \<open>None\<close> when the caller passes a local variable.\<close>

definition lthread_create :: "lenv \<Rightarrow> addr option \<Rightarrow> int \<Rightarrow> lt_func \<Rightarrow> addr \<Rightarrow> lsys \<Rightarrow> (addr \<times> lsys) option" where
  "lthread_create E new_lt lcore_id f arg s =
     (if new_lt = Some NULL \<or> f = User_fun NULL then Some (EINVAL, s)
      else if lcore_id > int (length (schedcore s)) then Some (EINVAL, s)
      else do {
        let lcore_id = (if lcore_id < 0 then int (cpu s) else lcore_id);
        (p, s) \<leftarrow> (if THIS_SCHED s = NULL then do {
            (p, s) \<leftarrow> lthread_sched_create E 0 s;
            Some (p, s\<lparr>this_sched := (this_sched s)(cpu s := p)\<rparr>) } else Some (THIS_SCHED s, s));
        if p = NULL then Some (EAGAIN, s)
        else do {
          S \<leftarrow> cur_sched s;
          (lt, s) \<leftarrow> on_mem (lthread_objcache_alloc (e_mal E) (sc_lthread_cache S)) s;
          if lt = NULL then Some (EAGAIN, s)
          else do {
            let s = s\<lparr>threads := (threads s)(lt \<mapsto> zero_thread\<lparr>lt_root_sched := THIS_SCHED s\<rparr>)\<rparr>;
            s \<leftarrow> lthread_init lt f arg s;
            s \<leftarrow> (case new_lt of None \<Rightarrow> Some s | Some a \<Rightarrow> store a lt s);
            q \<leftarrow> lthread_sched_get lcore_id s;
            s \<leftarrow> ready_queue_insert E q lt s;
            Some (0, s) } } })"

definition lthread_free :: "lenv \<Rightarrow> destructors \<Rightarrow> addr \<Rightarrow> lsys \<Rightarrow> lsys option" where
  "lthread_free E D lt s = do {
     s \<leftarrow> lthread_tls_destroy D lt s;
     T \<leftarrow> threads s lt;
     X \<leftarrow> tlss s (lt_tls T);
     R \<leftarrow> scheds s (tls_root_sched X);
     s \<leftarrow> (if 8 < e_per_lt_section E
       then on_mem_upd (lthread_objcache_free (e_mal E) (sc_per_lthread_cache R) (per_lthread_data T)) s else Some s);
     s \<leftarrow> on_mem_upd (lthread_objcache_free (e_mal E) (sc_tls_cache R) (lt_tls T)) s;
     K \<leftarrow> stacks s (lt_stack_container T);
     R \<leftarrow> scheds s (st_root_sched K);
     s \<leftarrow> on_mem_upd (lthread_objcache_free (e_mal E) (sc_stack_cache R) (lt_stack_container T)) s;
     R \<leftarrow> scheds s (lt_root_sched T);
     on_mem_upd (lthread_objcache_free (e_mal E) (sc_lthread_cache R) lt) s }"

subsection \<open>Calls of a running thread\<close>

definition lthread_sched_sleep :: "lenv \<Rightarrow> addr \<Rightarrow> u64 \<Rightarrow> (addr \<Rightarrow> prog) \<Rightarrow> lsys \<Rightarrow> (result \<times> lsys) option" where
  "lthread_sched_sleep E lt nsecs k s = do {
     T \<leftarrow> threads s lt;
     let state = lt_state T; let clks = e_ns_to_clks E nsecs;
     s \<leftarrow> (if clks \<noteq> 0 then do {
         s \<leftarrow> timer_start lt clks s;
         upd_thread lt (\<lambda>T. T\<lparr>lt_state := or state (BIT ST_LT_SLEEPING)\<rparr>) s } else Some s);
     (c, s) \<leftarrow> suspend (At_prog (k 0)) s;
     Some (Switch c, s) }"

definition lthread_desched_sleep :: "addr \<Rightarrow> lsys \<Rightarrow> (addr \<times> lsys) option" where
  "lthread_desched_sleep lt s = do {
     T \<leftarrow> threads s lt;
     let state = lt_state T;
     if in_state state ST_LT_SLEEPING then do {
       s \<leftarrow> timer_stop lt s;
       let state = and state (and (CLEARBIT ST_LT_SLEEPING) (CLEARBIT ST_LT_EXPIRED));
       s \<leftarrow> upd_thread lt (\<lambda>T. T\<lparr>lt_state := or state (BIT ST_LT_READY)\<rparr>) s;
       Some (1, s) }
     else Some (0, s) }"

definition lthread_set_data :: "lenv \<Rightarrow> addr \<Rightarrow> lsys \<Rightarrow> lsys option" where
  "lthread_set_data E d s =
     (if e_per_lt_section E = 8 then do { lt \<leftarrow> THIS_LTHREAD s; upd_thread lt (\<lambda>T. T\<lparr>per_lthread_data := d\<rparr>) s } else Some s)"

definition lthread_get_data :: "lsys \<Rightarrow> addr option" where
  "lthread_get_data s = do { lt \<leftarrow> THIS_LTHREAD s; T \<leftarrow> threads s lt; Some (per_lthread_data T) }"

definition lthread_current :: "lsys \<Rightarrow> addr option" where
  "lthread_current s = (if THIS_SCHED s = NULL then Some NULL else THIS_LTHREAD s)"

definition lthread_detach :: "lsys \<Rightarrow> lsys option" where
  "lthread_detach s = do { lt \<leftarrow> THIS_LTHREAD s; upd_thread lt (\<lambda>T. T\<lparr>lt_state := or (lt_state T) (BIT ST_LT_DETACH)\<rparr>) s }"

definition cancel_tasklet :: "addr \<Rightarrow> lsys \<Rightarrow> lsys option" where
  "cancel_tasklet lt s = do {
     s \<leftarrow> upd_thread lt (\<lambda>T. T\<lparr>lt_state := or (lt_state T) (BIT ST_LT_CANCELLED)\<rparr>) s;
     lthread_detach s }"

text \<open>A thread of another scheduler is cancelled by a tasklet there; its creation may fail unnoticed.\<close>

definition lthread_cancel :: "lenv \<Rightarrow> addr \<Rightarrow> lsys \<Rightarrow> (addr \<times> lsys) option" where
  "lthread_cancel E cancel_lt s =
     (if cancel_lt = NULL then Some (EINVAL, s)
      else do {
        lt \<leftarrow> THIS_LTHREAD s;
        if cancel_lt = lt then Some (EINVAL, s)
        else do {
          T \<leftarrow> threads s cancel_lt;
          if lt_sched T \<noteq> THIS_SCHED s then do {
            S \<leftarrow> scheds s (lt_sched T);
            (r, s) \<leftarrow> lthread_create E None (int (sc_lcore_id S)) Cancel_fun cancel_lt s;
            Some (0, s) }
          else do {
            s \<leftarrow> upd_thread cancel_lt (\<lambda>T. T\<lparr>lt_state := or (lt_state T) (BIT ST_LT_CANCELLED)\<rparr>) s;
            Some (0, s) } } })"

definition lthread_sleep_clks :: "u64 \<Rightarrow> (addr \<Rightarrow> prog) \<Rightarrow> lsys \<Rightarrow> (result \<times> lsys) option" where
  "lthread_sleep_clks clks k s = do {
     lt \<leftarrow> THIS_LTHREAD s;
     T \<leftarrow> threads s lt;
     let state = lt_state T;
     s \<leftarrow> (if clks \<noteq> 0 then do {
         s \<leftarrow> timer_start lt clks s;
         upd_thread lt (\<lambda>T. T\<lparr>lt_state := or state (BIT ST_LT_SLEEPING)\<rparr>) s } else Some s);
     (c, s) \<leftarrow> suspend (At_prog (k 0)) s;
     Some (Switch c, s) }"

definition lthread_sleep :: "lenv \<Rightarrow> u64 \<Rightarrow> (addr \<Rightarrow> prog) \<Rightarrow> lsys \<Rightarrow> (result \<times> lsys) option" where
  "lthread_sleep E nsecs k s = do { lt \<leftarrow> THIS_LTHREAD s; lthread_sched_sleep E lt nsecs k s }"

definition lthread_yield :: "lenv \<Rightarrow> (addr \<Rightarrow> prog) \<Rightarrow> lsys \<Rightarrow> (result \<times> lsys) option" where
  "lthread_yield E k s = do {
     lt \<leftarrow> THIS_LTHREAD s;
     s \<leftarrow> ready_queue_insert E (THIS_SCHED s) lt s;
     Some (Switch (At_prog (k 0)), s) }"

text \<open>\<open>lthread_exit\<close> in three parts: its waiting loop, the write of the exit value, and the beginning.
  \<open>Ret\<close> means that the call returns to its caller.\<close>

definition exit_wait :: "lenv \<Rightarrow> exit_caller \<Rightarrow> lsys \<Rightarrow> (result \<times> lsys) option" where
  "exit_wait E caller s = do {
     lt \<leftarrow> THIS_LTHREAD s;
     T \<leftarrow> threads s lt;
     if lt_join T \<noteq> LT_JOIN_EXIT_VAL_READ then do {
       (c, s) \<leftarrow> reschedule E (Exit_wait caller) s;
       Some (Switch c, s) }
     else do {
       s \<leftarrow> upd_thread lt (\<lambda>T. T\<lparr>lt_join := LT_JOIN_INITIAL,
         lt_state := or (lt_state T) (or (BIT ST_LT_DETACH) (BIT ST_LT_EXITED))\<rparr>) s;
       Some (Ret 0, s) } }"

definition set_exit_value :: "addr \<Rightarrow> addr \<Rightarrow> lsys \<Rightarrow> lsys option" where
  "set_exit_value lt ptr s = do {
     T \<leftarrow> threads s lt;
     s \<leftarrow> (if ptr = NULL then Some s
       else do {
         J \<leftarrow> threads s (lt_joiner T);
         if lt_exit_ptr J = NULL then Some s else store (lt_exit_ptr J) ptr s });
     upd_thread lt (\<lambda>T. T\<lparr>lt_join := LT_JOIN_EXIT_VAL_SET\<rparr>) s }"

definition lthread_exit :: "lenv \<Rightarrow> addr \<Rightarrow> exit_caller \<Rightarrow> lsys \<Rightarrow> (result \<times> lsys) option" where
  "lthread_exit E ptr caller s = do {
     lt \<leftarrow> THIS_LTHREAD s;
     T \<leftarrow> threads s lt;
     if in_state (lt_state T) ST_LT_DETACH then Some (Ret 0, s)
     else if lt_join T = LT_JOIN_INITIAL then do {
       s \<leftarrow> upd_thread lt (\<lambda>T. T\<lparr>lt_join := LT_JOIN_EXITING\<rparr>) s;
       (c, s) \<leftarrow> suspend (Exit_resumed ptr caller) s;
       Some (Switch c, s) }
     else do {
       s \<leftarrow> set_exit_value lt ptr s;
       J \<leftarrow> threads s (lt_joiner T);
       s \<leftarrow> ready_queue_insert E (lt_sched J) (lt_joiner T) s;
       exit_wait E caller s } }"

definition join_wait :: "lenv \<Rightarrow> addr \<Rightarrow> addr \<Rightarrow> (addr \<Rightarrow> prog) \<Rightarrow> lsys \<Rightarrow> (result \<times> lsys) option" where
  "join_wait E lt ptr k s = do {
     T \<leftarrow> threads s lt;
     if lt_join T \<noteq> LT_JOIN_EXIT_VAL_SET then do {
       (c, s) \<leftarrow> reschedule E (Join_wait lt ptr k) s;
       Some (Switch c, s) }
     else do {
       s \<leftarrow> (if ptr \<noteq> NULL then do {
           cur \<leftarrow> THIS_LTHREAD s;
           C \<leftarrow> threads s cur;
           v \<leftarrow> umem s (lt_exit_ptr C);
           store ptr v s } else Some s);
       s \<leftarrow> upd_thread lt (\<lambda>T. T\<lparr>lt_join := LT_JOIN_EXIT_VAL_READ\<rparr>) s;
       Some (Ret 0, s) } }"

definition lthread_join :: "lenv \<Rightarrow> addr \<Rightarrow> addr \<Rightarrow> (addr \<Rightarrow> prog) \<Rightarrow> lsys \<Rightarrow> (result \<times> lsys) option" where
  "lthread_join E lt ptr k s =
     (if lt = NULL then Some (Ret EINVAL, s)
      else do {
        cur \<leftarrow> THIS_LTHREAD s;
        T \<leftarrow> threads s lt;
        if in_state (lt_state T) ST_LT_DETACH \<or> lt_join T = LT_JOIN_THREAD_SET then Some (Ret EINVAL, s)
        else do {
          s \<leftarrow> upd_thread lt (\<lambda>T. T\<lparr>lt_joiner := cur\<rparr>) s;
          s \<leftarrow> upd_thread cur (\<lambda>T. T\<lparr>lt_exit_ptr := ptr\<rparr>) s;
          if lt_join T = LT_JOIN_INITIAL then do {
            s \<leftarrow> upd_thread lt (\<lambda>T. T\<lparr>lt_join := LT_JOIN_THREAD_SET\<rparr>) s;
            (c, s) \<leftarrow> suspend (Join_wait lt ptr k) s;
            Some (Switch c, s) }
          else do {
            s \<leftarrow> ready_queue_insert E (lt_sched T) lt s;
            join_wait E lt ptr k s } } })"

definition lthread_set_funcname :: "string \<Rightarrow> lsys \<Rightarrow> lsys option" where
  "lthread_set_funcname f s = do { lt \<leftarrow> THIS_LTHREAD s; upd_thread lt (\<lambda>T. T\<lparr>lt_funcname := copy_name f\<rparr>) s }"

text \<open>The bound lets \<open>lcoreid = LTHREAD_MAX_LCORES\<close> through.\<close>

definition lthread_set_affinity :: "nat \<Rightarrow> (addr \<Rightarrow> prog) \<Rightarrow> lsys \<Rightarrow> (result \<times> lsys) option" where
  "lthread_set_affinity lcoreid k s = do {
     lt \<leftarrow> THIS_LTHREAD s;
     if lcoreid > length (schedcore s) then Some (Ret EINVAL, s)
     else if length (schedcore s) \<le> lcoreid then None
     else
       let dest = schedcore s ! lcoreid in
       if dest = NULL then Some (Ret EINVAL, s)
       else if dest \<noteq> THIS_SCHED s then do {
         s \<leftarrow> upd_thread lt (\<lambda>T. T\<lparr>lt_sched := dest\<rparr>) s;
         S \<leftarrow> scheds s dest;
         s \<leftarrow> upd_thread lt (\<lambda>T. T\<lparr>pending_wr_queue := sc_pready S\<rparr>) s;
         (c, s) \<leftarrow> affinitize (At_prog (k 0)) s;
         Some (Switch c, s) }
       else Some (Ret 0, s) }"

definition returns :: "(addr \<times> lsys) option \<Rightarrow> (result \<times> lsys) option" where
  "returns x = map_option (\<lambda>(r, s). (Ret r, s)) x"

definition returns_void :: "lsys option \<Rightarrow> (result \<times> lsys) option" where
  "returns_void x = map_option (\<lambda>s. (Ret 0, s)) x"

fun do_call :: "lenv \<Rightarrow> api \<Rightarrow> (addr \<Rightarrow> prog) \<Rightarrow> lsys \<Rightarrow> (result \<times> lsys) option" where
  "do_call E (Create new_lt lcore f arg) k s = returns (lthread_create E (Some new_lt) lcore (User_fun f) arg s)"
| "do_call E Yield k s = lthread_yield E k s"
| "do_call E (Sleep n) k s = lthread_sleep E n k s"
| "do_call E (Sleep_clks n) k s = lthread_sleep_clks n k s"
| "do_call E (Exit ptr) k s = lthread_exit E ptr (By_user (k 0)) s"
| "do_call E (Join lt ptr) k s = lthread_join E lt ptr k s"
| "do_call E Detach k s = returns_void (lthread_detach s)"
| "do_call E (Cancel lt) k s = returns (lthread_cancel E lt s)"
| "do_call E Current k s = map_option (\<lambda>v. (Ret v, s)) (lthread_current s)"
| "do_call E (Set_data d) k s = returns_void (lthread_set_data E d s)"
| "do_call E Get_data k s = map_option (\<lambda>v. (Ret v, s)) (lthread_get_data s)"
| "do_call E (Set_affinity c) k s = lthread_set_affinity c k s"
| "do_call E (Set_funcname f) k s = returns_void (lthread_set_funcname f s)"
| "do_call E (Mutex_init n m) k s = returns (lthread_mutex_init E n m s)"
| "do_call E (Mutex_destroy m) k s = returns (lthread_mutex_destroy E m s)"
| "do_call E (Lock m) k s = lthread_mutex_lock m k s"
| "do_call E (Trylock m) k s = returns (lthread_mutex_trylock m s)"
| "do_call E (Unlock m) k s = returns (lthread_mutex_unlock E m s)"
| "do_call E (Cond_init n c) k s = returns (lthread_cond_init E n c s)"
| "do_call E (Cond_destroy c) k s = returns (lthread_cond_destroy E c s)"
| "do_call E (Wait c) k s = lthread_cond_wait c k s"
| "do_call E (Signal c) k s = returns (lthread_cond_signal E c s)"
| "do_call E (Broadcast c) k s = lthread_cond_broadcast E c k s"
| "do_call E (Key_create a d) k s = returns (lthread_key_create a d s)"
| "do_call E (Key_delete n) k s = returns (lthread_key_delete n s)"
| "do_call E (Getspecific n) k s = map_option (\<lambda>v. (Ret v, s)) (lthread_getspecific n s)"
| "do_call E (Setspecific n d) k s = returns (lthread_setspecific n d s)"
| "do_call E (Load a) k s = map_option (\<lambda>v. (Ret v, s)) (umem s a)"
| "do_call E (Store a v) k s = returns_void (store a v s)"

subsection \<open>Running a thread up to its next switch\<close>

text \<open>The exit handler that every thread gets, after its function has returned.\<close>

definition lthread_exit_handler :: "lenv \<Rightarrow> lsys \<Rightarrow> (ctx \<times> lsys) option" where
  "lthread_exit_handler E s = do {
     lt \<leftarrow> THIS_LTHREAD s;
     s \<leftarrow> upd_thread lt (\<lambda>T. T\<lparr>lt_state := or (lt_state T) (BIT ST_LT_EXITED)\<rparr>) s;
     T \<leftarrow> threads s lt;
     if \<not> in_state (lt_state T) ST_LT_DETACH then do {
       (r, s) \<leftarrow> lthread_exit E NULL By_handler s;
       case r of Switch c \<Rightarrow> Some (c, s) | Ret _ \<Rightarrow> reschedule E Handler_end s }
     else reschedule E Handler_end s }"

primrec run_prog :: "lenv \<Rightarrow> prog \<Rightarrow> lsys \<Rightarrow> (ctx \<times> lsys) option" where
  "run_prog E Done = (\<lambda>s. lthread_exit_handler E s)"
| "run_prog E (Call a k) = (\<lambda>s. do {
     (r, s) \<leftarrow> do_call E a k s;
     case r of Ret v \<Rightarrow> run_prog E (k v) s | Switch c \<Rightarrow> Some (c, s) })"

text \<open>Back from a call: on with the user code, or with the rest of the exit handler.\<close>

definition continue :: "lenv \<Rightarrow> (addr \<Rightarrow> prog) \<Rightarrow> result \<times> lsys \<Rightarrow> (ctx \<times> lsys) option" where
  "continue E k = (\<lambda>(r, s). case r of Ret v \<Rightarrow> run_prog E (k v) s | Switch c \<Rightarrow> Some (c, s))"

definition continue_exit :: "lenv \<Rightarrow> exit_caller \<Rightarrow> result \<times> lsys \<Rightarrow> (ctx \<times> lsys) option" where
  "continue_exit E caller = (\<lambda>(r, s). case r of Switch c \<Rightarrow> Some (c, s)
     | Ret _ \<Rightarrow> (case caller of By_user p \<Rightarrow> run_prog E p s | By_handler \<Rightarrow> reschedule E Handler_end s))"

definition lthread_exec :: "lenv \<Rightarrow> lsys \<Rightarrow> (ctx \<times> lsys) option" where
  "lthread_exec E s = do {
     lt \<leftarrow> THIS_LTHREAD s;
     T \<leftarrow> threads s lt;
     case lt_fun T of
       User_fun f \<Rightarrow> run_prog E (e_code E f (lt_arg T)) s
     | Cancel_fun \<Rightarrow> do { s \<leftarrow> cancel_tasklet (lt_arg T) s; lthread_exit_handler E s } }"

fun run_ctx :: "lenv \<Rightarrow> ctx \<Rightarrow> lsys \<Rightarrow> (ctx \<times> lsys) option" where
  "run_ctx E Start s = lthread_exec E s"
| "run_ctx E (Unsuspend c) s = do { s \<leftarrow> unsuspend s; run_ctx E c s }"
| "run_ctx E (At_prog p) s = run_prog E p s"
| "run_ctx E (Lock_again m k) s = do { x \<leftarrow> mutex_compete m k s; continue E k x }"
| "run_ctx E (Exit_resumed ptr caller) s = do {
     lt \<leftarrow> THIS_LTHREAD s;
     s \<leftarrow> set_exit_value lt ptr s;
     x \<leftarrow> exit_wait E caller s;
     continue_exit E caller x }"
| "run_ctx E (Exit_wait caller) s = do { x \<leftarrow> exit_wait E caller s; continue_exit E caller x }"
| "run_ctx E (Join_wait lt ptr k) s = do { x \<leftarrow> join_wait E lt ptr k s; continue E k x }"
| "run_ctx E Handler_end s = None"

subsection \<open>The scheduler\<close>

definition set_current :: "addr \<Rightarrow> lsys \<Rightarrow> lsys option" where
  "set_current lt s = upd_sched (THIS_SCHED s) (\<lambda>S. S\<lparr>sc_current := lt\<rparr>) s"

text \<open>First run: the thread belongs to this scheduler and gets a stack and its data.\<close>

definition first_run :: "lenv \<Rightarrow> addr \<Rightarrow> lsys \<Rightarrow> lsys option" where
  "first_run E lt s = do {
     s \<leftarrow> upd_thread lt (\<lambda>T. T\<lparr>lt_sched := THIS_SCHED s\<rparr>) s;
     (x, s) \<leftarrow> stack_alloc E s;
     s \<leftarrow> upd_thread lt (\<lambda>T. T\<lparr>lt_stack_container := x\<rparr>) s;
     s \<leftarrow> lthread_set_stack lt x LTHREAD_MAX_STACK_SIZE s;
     s \<leftarrow> lthread_tls_alloc E lt s;
     upd_thread lt (\<lambda>T. T\<lparr>lt_state := BIT ST_LT_READY\<rparr>) s }"

definition lthread_resume :: "lenv \<Rightarrow> destructors \<Rightarrow> addr \<Rightarrow> lsys \<Rightarrow> lsys option" where
  "lthread_resume E D lt s = do {
     T \<leftarrow> threads s lt;
     let state = lt_state T;
     s \<leftarrow> set_current lt s;
     if (in_state state ST_LT_CANCELLED \<or> in_state state ST_LT_EXITED) \<and> in_state state ST_LT_DETACH then do {
       s \<leftarrow> lthread_free E D lt s;
       set_current NULL s }
     else do {
       s \<leftarrow> (if in_state state ST_LT_INIT then first_run E lt s else Some s);
       T \<leftarrow> threads s lt;
       (c, s) \<leftarrow> run_ctx E (lt_ctx T) s;
       s \<leftarrow> upd_thread lt (\<lambda>T. T\<lparr>lt_ctx := c\<rparr>) s;
       s \<leftarrow> write_pending E lt s;
       set_current NULL s } }"

text \<open>The callback of the sleep timer.\<close>

definition sched_timer_cb :: "lenv \<Rightarrow> destructors \<Rightarrow> addr \<Rightarrow> lsys \<Rightarrow> lsys option" where
  "sched_timer_cb E D lt s = do {
     T \<leftarrow> threads s lt;
     let state = lt_state T;
     s \<leftarrow> upd_thread lt (\<lambda>T. T\<lparr>lt_tim := None\<rparr>) s;
     s \<leftarrow> (if in_state state ST_LT_CANCELLED then unsuspend s else Some s);
     s \<leftarrow> upd_thread lt (\<lambda>T. T\<lparr>lt_state := or state (BIT ST_LT_EXPIRED)\<rparr>) s;
     s \<leftarrow> lthread_resume E D lt s;
     upd_thread lt (\<lambda>T. T\<lparr>lt_state := and state (CLEARBIT ST_LT_EXPIRED)\<rparr>) s }"

definition lthread_sched_isdone :: "addr \<Rightarrow> lsys \<Rightarrow> bool option" where
  "lthread_sched_isdone p s = do {
     S \<leftarrow> scheds s p;
     if sc_run_flag S then Some False
     else do {
       e \<leftarrow> lthread_queue_empty (sc_ready S) (mem s);
       if \<not> e then Some False
       else do {
         e \<leftarrow> lthread_queue_empty (sc_pready S) (mem s);
         Some (e \<and> sc_blocked S = 0) } } }"

text \<open>\<open>rte_timer_manage\<close> runs the callback of the threads whose timer it finds expired: \<open>exp\<close> is that
  list, as far as their timers are still running.\<close>

fun timer_manage :: "lenv \<Rightarrow> destructors \<Rightarrow> addr list \<Rightarrow> lsys \<Rightarrow> lsys option" where
  "timer_manage E D [] s = Some s"
| "timer_manage E D (lt # lts) s = do {
     T \<leftarrow> threads s lt;
     s \<leftarrow> (if lt_tim T = None then Some s else sched_timer_cb E D lt s);
     timer_manage E D lts s }"

definition poll_and_resume :: "lenv \<Rightarrow> destructors \<Rightarrow> addr \<Rightarrow> lsys \<Rightarrow> lsys option" where
  "poll_and_resume E D q s = do {
     (lt, s) \<leftarrow> on_mem (lthread_queue_poll q) s;
     if lt \<noteq> NULL then lthread_resume E D lt s else Some s }"

definition sched_round :: "lenv \<Rightarrow> destructors \<Rightarrow> addr list \<Rightarrow> addr \<Rightarrow> lsys \<Rightarrow> lsys option" where
  "sched_round E D exp p s = do {
     s \<leftarrow> timer_manage E D exp s;
     S \<leftarrow> scheds s p;
     s \<leftarrow> poll_and_resume E D (sc_ready S) s;
     S \<leftarrow> scheds s p;
     poll_and_resume E D (sc_pready S) s }"

text \<open>The loop of \<open>lthread_run\<close>; \<open>exp\<close> gives the timers that each round finds expired. \<open>None\<close> is also
  "never ends".\<close>

partial_function (option) run_loop :: "lenv \<Rightarrow> destructors \<Rightarrow> (lsys \<Rightarrow> addr list) \<Rightarrow> addr \<Rightarrow> lsys \<Rightarrow> lsys option" where
  "run_loop E D exp p s = do {
     d \<leftarrow> lthread_sched_isdone p s;
     if d then Some s
     else do { s \<leftarrow> sched_round E D (exp s) p s; run_loop E D exp p s } }"

text \<open>Both waits are for other lcores: \<open>None\<close> when they have not arrived.\<close>

definition sync_start :: "lsys \<Rightarrow> lsys option" where
  "sync_start s =
     (let s = s\<lparr>active_schedulers := i16 (active_schedulers s + 1)\<rparr> in
      if active_schedulers s < num_schedulers s then None else Some s)"

definition sync_stop :: "lsys \<Rightarrow> lsys option" where
  "sync_stop s =
     (let s = s\<lparr>active_schedulers := i16 (active_schedulers s - 1), num_schedulers := i16 (num_schedulers s - 1)\<rparr> in
      if active_schedulers s > 0 then None else Some s)"

definition lthread_run :: "lenv \<Rightarrow> destructors \<Rightarrow> (lsys \<Rightarrow> addr list) \<Rightarrow> lsys \<Rightarrow> lsys option" where
  "lthread_run E D exp s = do {
     let p = THIS_SCHED s;
     s \<leftarrow> sync_start s;
     s \<leftarrow> run_loop E D exp p s;
     s \<leftarrow> sync_stop s;
     Some (s\<lparr>this_sched := (this_sched s)(cpu s := NULL)\<rparr>) }"

end
