(* ===== verification/Lthread_Boot.thy ===== *)
theory Lthread_Boot
  imports Lthread_Core
begin

section \<open>Starting a scheduler\<close>

text \<open>
  What \<open>_lthread_sched_create\<close> sets up. The memory it starts from is empty (the first scheduler of
  the process) or the well-formed memory of the schedulers that run on other lcores.
\<close>

definition boot_mem :: "lmem \<Rightarrow> bool" where
  "boot_mem m \<longleftrightarrow>
     (nodes m = Map.empty \<and> pools m = Map.empty \<and> queues m = Map.empty \<and> caches m = Map.empty \<and> objs m = Map.empty \<and> finite (raw m)) \<or>
     (\<exists>x. cache_inv (m\<lparr>cur_pool := x\<rparr>))"

subsection \<open>A pool\<close>

text \<open>The invariant without the part on the current pool.\<close>

definition mem_rel0 :: "lmem \<Rightarrow> ghost \<Rightarrow> bool" where
  "mem_rel0 s g \<longleftrightarrow> nodes s NULL = None \<and> (\<forall>p P. pools s p = Some P \<longrightarrow> pool_rel s g p P) \<and>
     (\<forall>q Q. queues s q = Some Q \<longrightarrow> queue_rel s g q Q) \<and> owned_ok s g \<and> finite (allocated s)"

lemma cur_pool_simps [simp]:
  "nexts (s\<lparr>cur_pool := x\<rparr>) = nexts s" "is_chain (s\<lparr>cur_pool := x\<rparr>) = is_chain s" "allocated (s\<lparr>cur_pool := x\<rparr>) = allocated s"
  "items (s\<lparr>cur_pool := x\<rparr>) = items s"
proof -
  show n: "nexts (s\<lparr>cur_pool := x\<rparr>) = nexts s" by (rule ext) (simp add: nexts_def)
  show "is_chain (s\<lparr>cur_pool := x\<rparr>) = is_chain s" by (simp add: fun_eq_iff is_chain_def n)
  show "allocated (s\<lparr>cur_pool := x\<rparr>) = allocated s" by (simp add: allocated_def)
  show "items (s\<lparr>cur_pool := x\<rparr>) = items s" by (rule ext) (simp add: items_def n split: option.splits)
qed

lemma mem_rel0_cur: "mem_rel (s\<lparr>cur_pool := x\<rparr>) g \<longleftrightarrow> mem_rel0 s g \<and> x \<in> dom (pools s)"
proof -
  have "pool_rel (s\<lparr>cur_pool := x\<rparr>) = pool_rel s" "queue_rel (s\<lparr>cur_pool := x\<rparr>) = queue_rel s" "owned_ok (s\<lparr>cur_pool := x\<rparr>) = owned_ok s"
    by (simp_all add: pool_rel_def queue_rel_def owned_ok_def fun_eq_iff)
  then show ?thesis by (auto simp: mem_rel_def mem_rel0_def)
qed

lemma pool_new_ok:
  fixes nm :: string and k :: int
  assumes R: "mem_rel0 s g" and p: "p \<noteq> NULL" "p \<notin> allocated s" and st: "st \<noteq> NULL" "st \<notin> allocated s"
  defines "s' \<equiv> s\<lparr>nodes := (nodes s)(st \<mapsto> \<lparr>qn_next = NULL, qn_data = NULL, qn_pool = p\<rparr>),
     pools := (pools s)(p \<mapsto> \<lparr>qp_head = st, qp_stub = st, qp_fast_alloc = NULL, qp_tail = st, qp_pre_alloc = k, qp_name = nm\<rparr>)\<rparr>"
    and "g' \<equiv> g\<lparr>own := (own g)(st := InPool p), pch := (pch g)(p := [st])\<rparr>"
  shows "mem_rel0 s' g'"
proof -
  have D: "nodes s NULL = None" "\<And>p P. pools s p = Some P \<Longrightarrow> pool_rel s g p P" "\<And>q Q. queues s q = Some Q \<Longrightarrow> queue_rel s g q Q"
    "owned_ok s g" "finite (allocated s)"
    using R by (simp_all add: mem_rel0_def)
  have ns: "nodes s st = None" "pools s p = None" using p st by (auto simp: allocated_def)
  have ol: "own g st = Loose" using D(4) ns(1) unfolding owned_ok_def by (metis option.distinct(1))
  have np: "\<not> pool_side p (own g a)" for a using D(4) ns(2) unfolding owned_ok_def by blast
  have "pool_rel s' g' p' P'" if P': "pools s' p' = Some P'" for p' P'
  proof (cases "p' = p")
    case True
    have "is_chain s' [st] st st" by (simp add: is_chain_def nexts_def s'_def)
    then show ?thesis using True P' np st(1) by (auto simp: pool_rel_def s'_def g'_def pool_side_def)
  next
    case False
    then have "pools s p' = Some P'" using P' by (simp add: s'_def)
    then show ?thesis
      by (rule pool_rel_transfer [OF D(2)]) (use False ol in \<open>auto simp: s'_def g'_def pool_side_def\<close>)
  qed
  moreover have "queue_rel s' g' q Q" if Q: "queues s' q = Some Q" for q Q
    by (rule queue_rel_transfer [OF D(3)]) (use Q ol in \<open>auto simp: s'_def g'_def\<close>)
  moreover have "owned_ok s' g'"
    unfolding owned_ok_def
  proof (intro conjI allI impI)
    fix a assume "own g' a \<noteq> Loose"
    then show "\<exists>N. nodes s' a = Some N \<and> qn_pool N \<in> dom (pools s')"
      using D(4) unfolding owned_ok_def by (cases "a = st") (simp_all add: s'_def g'_def, blast)
  next
    fix a q assume "pool_side q (own g' a)"
    then show "q \<in> dom (pools s')"
      using D(4) unfolding owned_ok_def by (cases "a = st") (auto simp: s'_def g'_def pool_side_def)
  next
    fix a q assume "own g' a = InQueue q"
    then show "q \<in> dom (queues s')"
      using D(4) unfolding owned_ok_def by (cases "a = st") (auto simp: s'_def g'_def)
  qed
  ultimately show ?thesis using D(1,5) st(1) by (simp add: mem_rel0_def allocated_def s'_def)
qed

lemma boot_rel: "boot_mem m \<Longrightarrow> \<exists>g. mem_rel0 m g"
proof -
  assume "boot_mem m"
  then consider "nodes m = Map.empty" "pools m = Map.empty" "queues m = Map.empty" "caches m = Map.empty" "objs m = Map.empty" "finite (raw m)"
    | x where "cache_inv (m\<lparr>cur_pool := x\<rparr>)"
    unfolding boot_mem_def by blast
  then show ?thesis
  proof cases
    case 1
    then have "mem_rel0 m \<lparr>own = \<lambda>_. Loose, pch = \<lambda>_. [], qch = \<lambda>_. []\<rparr>"
      by (simp add: mem_rel0_def owned_ok_def allocated_def pool_side_def)
    then show ?thesis ..
  next
    case 2
    then show ?thesis using mem_rel0_cur unfolding cache_inv_def lt_inv_def by blast
  qed
qed

text \<open>The two blocks \<open>p\<close> and \<open>st\<close> that the allocator gives become a pool with its stub.\<close>

definition new_pool :: "addr \<Rightarrow> addr \<Rightarrow> string \<Rightarrow> int \<Rightarrow> lmem \<Rightarrow> lmem" where
  "new_pool p st name k m = m\<lparr>nodes := (nodes m)(st \<mapsto> \<lparr>qn_next = NULL, qn_data = NULL, qn_pool = p\<rparr>),
     pools := (pools m)(p \<mapsto> \<lparr>qp_head = st, qp_stub = st, qp_fast_alloc = NULL, qp_tail = st, qp_pre_alloc = k, qp_name = copy_name name\<rparr>)\<rparr>"

lemma pool_create_new:
  assumes B: "boot_mem m" and F: "fresh_alloc mal" and k: "2 \<le> k" and p: "mal m = Some p" and st: "mal (m\<lparr>raw := insert p (raw m)\<rparr>) = Some st"
  shows "qnode_pool_create mal NULL name k m = Some (p, new_pool p st name k m)" "p \<noteq> NULL" "p \<notin> allocated m" "st \<noteq> NULL" "st \<notin> allocated m"
    "cache_inv ((new_pool p st name k m)\<lparr>cur_pool := p\<rparr>)" "items (new_pool p st name k m) = items m"
proof -
  obtain g where R: "mem_rel0 m g" using boot_rel [OF B] by blast
  have pa: "p \<noteq> NULL" "p \<notin> allocated m" using F p unfolding fresh_alloc_def by blast+
  let ?m = "m\<lparr>raw := insert p (raw m)\<rparr>"
  have sa: "st \<noteq> NULL" "st \<notin> allocated ?m" using F st unfolding fresh_alloc_def by blast+
  then have sa': "st \<notin> allocated m" "st \<noteq> p" by (auto simp: allocated_def)
  let ?m2 = "new_pool p st name k m"
  note new = new_pool_def
  have "p \<notin> raw m" using pa(2) by (simp add: allocated_def)
  then have e: "qnode_pool_create mal NULL name k m = Some (p, ?m2)"
    using p st by (simp add: new qnode_pool_create_def malloc_node_def set_pool_def set_next_def Let_def)
  let ?g = "g\<lparr>own := (own g)(st := InPool p), pch := (pch g)(p := [st])\<rparr>"
  have R2: "mem_rel0 ?m2 ?g" unfolding new by (rule pool_new_ok [OF R pa sa(1) sa'(1)])
  then have R2': "mem_rel (?m2\<lparr>cur_pool := p\<rparr>) ?g" unfolding mem_rel0_cur by (simp add: new)
  have it: "items ?m2 = items m"
  proof (cases "\<exists>x. cache_inv (m\<lparr>cur_pool := x\<rparr>)")
    case True
    then obtain x h where x: "mem_rel (m\<lparr>cur_pool := x\<rparr>) h" unfolding cache_inv_def lt_inv_def by blast
    then have h: "mem_rel0 m h" "x \<in> dom (pools m)" by (simp_all only: mem_rel0_cur)
    let ?h = "h\<lparr>own := (own h)(st := InPool p), pch := (pch h)(p := [st])\<rparr>"
    have "mem_rel0 ?m2 ?h" unfolding new by (rule pool_new_ok [OF h(1) pa sa(1) sa'(1)])
    then have R3: "mem_rel (?m2\<lparr>cur_pool := p\<rparr>) ?h" unfolding mem_rel0_cur by (simp add: new)
    have "items (?m2\<lparr>cur_pool := p\<rparr>) q = items (m\<lparr>cur_pool := x\<rparr>) q" for q
      by (rule items_transfer [OF x R3]) (use sa'(1) in \<open>auto simp: new allocated_def\<close>)
    then show ?thesis by (simp add: fun_eq_iff)
  next
    case False
    then have "queues m = Map.empty" using B by (simp add: boot_mem_def)
    then show ?thesis by (simp add: new items_def fun_eq_iff)
  qed
  have "cache_inv (?m2\<lparr>cur_pool := p\<rparr>)"
  proof (cases "\<exists>x. cache_inv (m\<lparr>cur_pool := x\<rparr>)")
    case True
    then obtain x where x: "cache_inv (m\<lparr>cur_pool := x\<rparr>)" by blast
    have "lt_inv (?m2\<lparr>cur_pool := p\<rparr>)" using R2' unfolding lt_inv_def by blast
    moreover have "pool_ready (?m2\<lparr>cur_pool := p\<rparr>)" using k by (simp add: new pool_ready_def)
    moreover have "items (?m2\<lparr>cur_pool := p\<rparr>) = items m" using it by simp
    ultimately show ?thesis using x unfolding cache_inv_def by (simp add: new)
  next
    case False
    then have "caches m = Map.empty" "objs m = Map.empty" using B by (simp_all add: boot_mem_def)
    moreover have "lt_inv (?m2\<lparr>cur_pool := p\<rparr>)" using R2' unfolding lt_inv_def by blast
    moreover have "pool_ready (?m2\<lparr>cur_pool := p\<rparr>)" using k by (simp add: new pool_ready_def)
    ultimately show ?thesis unfolding cache_inv_def by (simp add: new)
  qed
  then show "cache_inv (?m2\<lparr>cur_pool := p\<rparr>)" .
  show "qnode_pool_create mal NULL name k m = Some (p, ?m2)" "p \<noteq> NULL" "p \<notin> allocated m" "st \<noteq> NULL" "st \<notin> allocated m" "items ?m2 = items m"
    using e pa sa(1) sa'(1) it by blast+
qed

lemma pool_create_ok:
  assumes B: "boot_mem m" and F: "fresh_alloc mal" and T: "\<not> refuses mal" and k: "2 \<le> k"
  shows "\<exists>p m'. qnode_pool_create mal NULL name k m = Some (p, m') \<and> p \<noteq> NULL \<and> cache_inv (m'\<lparr>cur_pool := p\<rparr>)"
proof -
  have fin: "finite (allocated m)" using boot_rel [OF B] by (auto simp: mem_rel0_def)
  then obtain p where p: "mal m = Some p" using T unfolding refuses_def by (metis not_Some_eq)
  have "finite (allocated (m\<lparr>raw := insert p (raw m)\<rparr>))" using fin by (simp add: allocated_def)
  then obtain st where st: "mal (m\<lparr>raw := insert p (raw m)\<rparr>) = Some st" using T unfolding refuses_def by (metis not_Some_eq)
  show ?thesis using pool_create_new(1,2,6) [OF B F k p st] by blast
qed

subsection \<open>Queues and caches\<close>

text \<open>New empty queues \<open>qs\<close> that belong to no cache, and new empty caches \<open>cs\<close>.\<close>

definition boot_inv :: "lmem \<Rightarrow> addr list \<Rightarrow> addr list \<Rightarrow> bool" where
  "boot_inv m qs cs \<longleftrightarrow> cache_inv m \<and> distinct qs \<and> distinct cs \<and> NULL \<notin> set qs \<and> NULL \<notin> set cs \<and>
     (\<forall>q\<in>set qs. q \<in> dom (queues m) \<and> items m q = [] \<and> (\<forall>c C. caches m c = Some C \<longrightarrow> oc_q C \<noteq> q)) \<and>
     (\<forall>c\<in>set cs. c \<in> dom (caches m) \<and> cached m c = [])"

lemma boot_queue:
  assumes I: "boot_inv m qs cs" and F: "fresh_alloc mal" and T: "\<not> refuses mal"
  shows "\<exists>q m'. lthread_queue_create mal name m = Some (q, m') \<and> q \<noteq> NULL \<and> boot_inv m' (q # qs) cs \<and> cur_pool m' = cur_pool m"
proof -
  have C: "cache_inv m" using I by (simp add: boot_inv_def)
  then have "lt_inv m" "pool_ready m" by (simp_all add: cache_inv_def)
  then obtain q m' where r: "lthread_queue_create mal name m = Some (q, m')" "create_post m q m'"
    using queue_create_ok [of m mal name] F T by blast
  then have q: "q \<noteq> NULL" "q \<notin> allocated m" "lt_inv m'" "dom (queues m') = insert q (dom (queues m))" "items m' = (items m)(q := [])"
    "pool_ready m'" "caches m' = caches m" "objs m' = objs m" "cur_pool m' = cur_pool m"
    using \<open>pool_ready m\<close> by (simp_all add: create_post_def)
  have nq: "q \<notin> dom (queues m)" using q(2) by (auto simp: allocated_def)
  have oq: "oc_q D \<noteq> q" if "caches m c = Some D" for c D using C that nq unfolding cache_inv_def by metis
  have it: "items m' (oc_q D) = items m (oc_q D)" if "caches m c = Some D" for c D using oq [OF that] q(5) by simp
  have "cache_inv m'"
    unfolding cache_inv_def q(7)
  proof (intro conjI allI impI)
    show "lt_inv m'" "pool_ready m'" by fact+
    show "NULL \<notin> dom (objs m')" using C by (simp add: cache_inv_def q(8))
    fix c D assume D: "caches m c = Some D"
    show "oc_q D \<in> dom (queues m')" "oc_q D \<noteq> NULL" "distinct (items m' (oc_q D))" "set (items m' (oc_q D)) \<subseteq> dom (objs m')"
      using cache_invD [OF C D] it [OF D] q(4,8) by simp_all
    fix d X assume X: "caches m d = Some X" "c \<noteq> d"
    show "oc_q D \<noteq> oc_q X" "set (items m' (oc_q D)) \<inter> set (items m' (oc_q X)) = {}"
      using cache_invD(9) [OF C D X] it [OF D] it [OF X(1)] by simp_all
  qed
  moreover have "cached m' c = cached m c" for c using it by (simp add: cached_def q(7) split: option.split)
  moreover have "q \<notin> set qs" using I nq by (auto simp: boot_inv_def)
  ultimately have "boot_inv m' (q # qs) cs"
    using I q oq unfolding boot_inv_def by (auto simp: q(5))
  then show ?thesis using r(1) q(1,9) by blast
qed

lemma boot_cache:
  assumes I: "boot_inv m qs cs" and F: "fresh_alloc mal" and T: "\<not> refuses mal"
  shows "\<exists>c m'. lthread_objcache_create mal name sz pre m = Some (c, m') \<and> c \<noteq> NULL \<and> boot_inv m' qs (c # cs) \<and> cur_pool m' = cur_pool m"
proof -
  have C: "cache_inv m" using I by (simp add: boot_inv_def)
  then have L: "lt_inv m" by (simp add: cache_inv_def)
  then obtain g where R: "mem_rel m g" unfolding lt_inv_def by blast
  obtain c where c: "mal m = Some c" using T mem_relD(6) [OF R] unfolding refuses_def by (metis not_Some_eq)
  have ca: "c \<noteq> NULL" "c \<notin> allocated m" using F c unfolding fresh_alloc_def by blast+
  let ?m = "m\<lparr>raw := insert c (raw m)\<rparr>"
  have "mem_rel ?m g" using mem_rel_raw [OF R] finite_raw [OF R] by simp
  then have L1: "lt_inv ?m" unfolding lt_inv_def by blast
  have "cache_inv ?m" using C L1 by (simp add: cache_inv_def pool_ready_def)
  moreover have "cached ?m = cached m" by (simp add: cached_def fun_eq_iff split: option.split)
  ultimately have I1: "boot_inv ?m qs cs" using I by (simp add: boot_inv_def)
  obtain q m1 where q: "lthread_queue_create mal ''cache queue'' ?m = Some (q, m1)" "q \<noteq> NULL" "boot_inv m1 (q # qs) cs" "cur_pool m1 = cur_pool m"
    using boot_queue [OF I1 F T, of "''cache queue''"] by auto
  have "pool_ready ?m" using C by (simp add: cache_inv_def pool_ready_def)
  then obtain q' m1' where "lthread_queue_create mal ''cache queue'' ?m = Some (q', m1')" "create_post ?m q' m1'"
    using queue_create_ok [OF L1 F _ T, of "''cache queue''"] by blast
  then have P: "raw m1 = insert c (raw m)" "caches m1 = caches m" "objs m1 = objs m" using q(1) by (simp_all add: create_post_def)
  let ?C = "\<lparr>oc_q = q, oc_obj_size = sz, oc_prealloc_size = pre, oc_name = copy_name name\<rparr>"
  let ?m2 = "m1\<lparr>raw := raw m1 - {c}, caches := (caches m1)(c \<mapsto> ?C)\<rparr>"
  have e: "lthread_objcache_create mal name sz pre m = Some (c, ?m2)" using c q(1,2) by (simp add: lthread_objcache_create_def)
  have nc: "caches m c = None" "c \<notin> dom (caches m1)" using ca(2) P(2) by (auto simp: allocated_def)
  have C1: "cache_inv m1" and qe: "items m1 q = []" "q \<in> dom (queues m1)" and oq: "\<And>d D. caches m1 d = Some D \<Longrightarrow> oc_q D \<noteq> q"
    using q(3) by (auto simp: boot_inv_def)
  have it: "items ?m2 = items m1" "nexts ?m2 = nexts m1"
  proof -
    show n: "nexts ?m2 = nexts m1" by (rule ext) (simp add: nexts_def)
    show "items ?m2 = items m1" by (rule ext) (simp add: items_def n split: option.splits)
  qed
  have "lt_inv ?m2"
  proof -
    obtain h where "mem_rel m1 h" using C1 unfolding cache_inv_def lt_inv_def by blast
    moreover have "is_chain ?m2 = is_chain m1" by (simp add: is_chain_def fun_eq_iff it)
    moreover from this have "pool_rel ?m2 = pool_rel m1" "queue_rel ?m2 = queue_rel m1" "owned_ok ?m2 = owned_ok m1"
      by (simp_all add: pool_rel_def queue_rel_def owned_ok_def fun_eq_iff)
    ultimately have "mem_rel ?m2 h" by (auto simp: mem_rel_def allocated_def)
    then show ?thesis unfolding lt_inv_def by blast
  qed
  moreover have "pool_ready ?m2" using C1 by (simp add: cache_inv_def pool_ready_def)
  ultimately have C2: "cache_inv ?m2"
    using C1 qe q(2) oq unfolding cache_inv_def it by (auto split: if_splits)
  have "cached ?m2 d = (if d = c then [] else cached m1 d)" for d using qe by (simp add: cached_def it split: option.split)
  then have "boot_inv ?m2 qs (c # cs)"
    using q(3) C2 ca(1) nc(2) unfolding boot_inv_def it by (auto split: if_splits)
  then show ?thesis using e ca(1) q(4) by (intro exI [of _ c]) (intro exI [of _ ?m2], simp)
qed

subsection \<open>The whole scheduler\<close>

lemma alloc_block_some:
  assumes "alloc (mem s) = Some (x, m)" "x \<noteq> NULL" "scheds s p = Some S"
  shows "alloc_block ph p alloc put k s = k (s\<lparr>mem := m, scheds := (scheds s)(p \<mapsto> put x S)\<rparr>)"
  using assms by (simp add: alloc_block_def on_mem_def upd_sched_def)

definition env_ok :: "lenv \<Rightarrow> bool" where
  "env_ok E \<longleftrightarrow> fresh_alloc (e_mal E) \<and> \<not> refuses (e_mal E) \<and> e_junk E = NULL"

text \<open>One step of the chain of blocks, for a property \<open>Q\<close> of the result.\<close>

lemma block_queue:
  assumes E: "env_ok E" and I: "boot_inv m qs cs"
    and k: "\<And>q m'. boot_inv m' (q # qs) cs \<Longrightarrow> cur_pool m' = cur_pool m \<Longrightarrow> Q (k (s\<lparr>mem := m', scheds := (scheds s)(p \<mapsto> put q S)\<rparr>))"
  shows "Q (alloc_block ph p (lthread_queue_create (e_mal E) name) put k (s\<lparr>mem := m, scheds := (scheds s)(p \<mapsto> S)\<rparr>))"
proof -
  have F: "fresh_alloc (e_mal E)" "\<not> refuses (e_mal E)" using E by (simp_all add: env_ok_def)
  obtain q m' where "lthread_queue_create (e_mal E) name m = Some (q, m')" "q \<noteq> NULL" "boot_inv m' (q # qs) cs" "cur_pool m' = cur_pool m"
    using boot_queue [OF I F] by blast
  then show ?thesis using k [of m' q] by (subst alloc_block_some [of _ _ q m' _ S]) simp_all
qed

lemma block_cache:
  assumes E: "env_ok E" and I: "boot_inv m qs cs"
    and k: "\<And>c m'. boot_inv m' qs (c # cs) \<Longrightarrow> cur_pool m' = cur_pool m \<Longrightarrow> Q (k (s\<lparr>mem := m', scheds := (scheds s)(p \<mapsto> put c S)\<rparr>))"
  shows "Q (alloc_block ph p (lthread_objcache_create (e_mal E) name sz pre) put k (s\<lparr>mem := m, scheds := (scheds s)(p \<mapsto> S)\<rparr>))"
proof -
  have F: "fresh_alloc (e_mal E)" "\<not> refuses (e_mal E)" using E by (simp_all add: env_ok_def)
  obtain c m' where "lthread_objcache_create (e_mal E) name sz pre m = Some (c, m')" "c \<noteq> NULL" "boot_inv m' qs (c # cs)" "cur_pool m' = cur_pool m"
    using boot_cache [OF I F] by blast
  then show ?thesis using k [of m' c] by (subst alloc_block_some [of _ _ c m' _ S]) simp_all
qed

lemma block_pool:
  assumes E: "env_ok E" and B: "boot_mem (mem s)" and S: "scheds s p = Some S"
    and k: "\<And>a m. boot_inv m [] [] \<Longrightarrow> cur_pool m = a \<Longrightarrow> Q (k (s\<lparr>mem := m, scheds := (scheds s)(p \<mapsto> put a S)\<rparr>))"
  shows "Q (alloc_block ph p (\<lambda>m. map_option (\<lambda>(x, m). (x, m\<lparr>cur_pool := x\<rparr>))
    (qnode_pool_create (e_mal E) (e_junk E) name LTHREAD_PREALLOC m)) put k s)"
proof -
  have F: "fresh_alloc (e_mal E)" "\<not> refuses (e_mal E)" "e_junk E = NULL" using E by (simp_all add: env_ok_def)
  obtain a m0 where P: "qnode_pool_create (e_mal E) NULL name LTHREAD_PREALLOC (mem s) = Some (a, m0)" "a \<noteq> NULL" "cache_inv (m0\<lparr>cur_pool := a\<rparr>)"
    using pool_create_ok [OF B F(1,2), of LTHREAD_PREALLOC name] by (auto simp: LTHREAD_PREALLOC_def)
  have "boot_inv (m0\<lparr>cur_pool := a\<rparr>) [] []" using P(3) by (simp add: boot_inv_def)
  then show ?thesis using k [of "m0\<lparr>cur_pool := a\<rparr>" a] P S F(3) by (subst alloc_block_some [of _ _ a "m0\<lparr>cur_pool := a\<rparr>" _ S]) simp_all
qed

text \<open>What a scheduler owns when all blocks succeeded.\<close>

definition sched_caches :: "lthread_sched \<Rightarrow> addr list" where
  "sched_caches S = [sc_mutex_cache S, sc_cond_cache S, sc_tls_cache S, sc_per_lthread_cache S, sc_stack_cache S, sc_lthread_cache S]"

lemma alloc_resources_ok:
  assumes E: "env_ok E" and B: "boot_mem (mem s)" and S: "scheds s p = Some S"
  shows "\<exists>m S'. alloc_resources E p s = Some (SCHED_ALLOC_OK, s\<lparr>mem := m, scheds := (scheds s)(p \<mapsto> S')\<rparr>) \<and>
    boot_inv m [sc_pready S', sc_ready S'] (sched_caches S') \<and> sc_qnode_pool S' = cur_pool m \<and> sc_birth S' = sc_birth S \<and>
    sc_blocked S' = sc_blocked S \<and> sc_current S' = sc_current S \<and> sc_stack_size S' = sc_stack_size S"
proof -
  define Q where "Q r \<longleftrightarrow> (\<exists>m S'. r = Some (SCHED_ALLOC_OK, s\<lparr>mem := m, scheds := (scheds s)(p \<mapsto> S')\<rparr>) \<and>
    boot_inv m [sc_pready S', sc_ready S'] (sched_caches S') \<and> sc_qnode_pool S' = cur_pool m \<and> sc_birth S' = sc_birth S \<and>
    sc_blocked S' = sc_blocked S \<and> sc_current S' = sc_current S \<and> sc_stack_size S' = sc_stack_size S)" for r
  have "Q (alloc_resources E p s)"
    unfolding alloc_resources_def
    by (rule block_pool [where Q = Q, OF E B S], (erule block_queue [where Q = Q, OF E])+, (erule block_cache [where Q = Q, OF E])+)
      (force simp: Q_def sched_caches_def)
  then show ?thesis by (simp add: Q_def)
qed

lemma cache_inv_raw:
  assumes "cache_inv m" "finite (raw m)"
  shows "cache_inv (m\<lparr>raw := insert c (raw m)\<rparr>)"
proof -
  obtain g where R: "mem_rel m g" using assms(1) unfolding cache_inv_def lt_inv_def by blast
  have "mem_rel (m\<lparr>raw := insert c (raw m)\<rparr>) g" using mem_rel_raw [OF R] assms(2) by simp
  then have "lt_inv (m\<lparr>raw := insert c (raw m)\<rparr>)" unfolding lt_inv_def by blast
  then show ?thesis using assms(1) by (simp add: cache_inv_def pool_ready_def)
qed

lemma boot_mem_raw:
  assumes "boot_mem m" shows "boot_mem (m\<lparr>raw := insert c (raw m)\<rparr>)"
proof (cases "\<exists>x. cache_inv (m\<lparr>cur_pool := x\<rparr>)")
  case True
  then obtain x g where x: "cache_inv (m\<lparr>cur_pool := x\<rparr>)" "mem_rel (m\<lparr>cur_pool := x\<rparr>) g"
    unfolding cache_inv_def lt_inv_def by blast
  have "finite (raw m)" using finite_raw [OF x(2)] by simp
  then have "cache_inv (m\<lparr>raw := insert c (raw m), cur_pool := x\<rparr>)"
    using cache_inv_raw [OF x(1), of c] by (cases m) simp
  then show ?thesis unfolding boot_mem_def by blast
next
  case False
  then show ?thesis using assms by (simp add: boot_mem_def)
qed


text \<open>The process before its first scheduler.\<close>

definition cold_mem :: lmem where
  "cold_mem = \<lparr>nodes = Map.empty, pools = Map.empty, queues = Map.empty, caches = Map.empty, objs = Map.empty, raw = {}, cur_pool = NULL\<rparr>"

definition cold_sys :: lsys where
  "cold_sys = demo_sys\<lparr>mem := cold_mem, threads := Map.empty, tlss := Map.empty, mutexes := Map.empty, conds := Map.empty,
     scheds := Map.empty, schedcore := [0, 0], this_sched := (\<lambda>_. NULL), key_pool := None, key_pool_init := False\<rparr>"

lemma demo_env_ok: "env_ok demo_env"
  using bump_fresh bump_gives by (simp add: env_ok_def demo_env_def)


end
