(* ===== verification/Lthread_Life.thy ===== *)
theory Lthread_Life
  imports Lthread_Boot
begin

section \<open>The life of a thread\<close>

text \<open>What creation, exit and join, and yielding promise, and two ways in which a thread brings its scheduler down.\<close>

subsection \<open>Creation\<close>

lemma cache_inv_insert:
  assumes I: "cache_inv m" and i: "insert_post mal q d m n m'" and q: "\<forall>c C. caches m c = Some C \<longrightarrow> oc_q C \<noteq> q"
  shows "cache_inv m'" "cached m' = cached m"
proof -
  have m': "lt_inv m'" "pool_ready m'" "caches m' = caches m" "objs m' = objs m" "dom (queues m') = dom (queues m)"
    "\<And>c C. caches m c = Some C \<Longrightarrow> items m' (oc_q C) = items m (oc_q C)"
    using i I q by (auto simp: insert_post_def qframe_def cache_inv_def split: if_splits)
  show "cache_inv m'"
    unfolding cache_inv_def m'(3,4,5)
  proof (intro conjI allI impI)
    fix c C assume C: "caches m c = Some C"
    show "oc_q C \<in> dom (queues m)" "oc_q C \<noteq> NULL" "distinct (items m' (oc_q C))" "set (items m' (oc_q C)) \<subseteq> dom (objs m)"
      using cache_invD [OF I C] m'(6) [OF C] by simp_all
    fix d X assume X: "caches m d = Some X" "c \<noteq> d"
    show "oc_q C \<noteq> oc_q X" "set (items m' (oc_q C)) \<inter> set (items m' (oc_q X)) = {}"
      using cache_invD(9) [OF I C X] m'(6) [OF C] m'(6) [OF X(1)] by simp_all
  qed (use m' I in \<open>simp_all add: cache_inv_def\<close>)
  show "cached m' = cached m"
    using m'(3,6) by (auto simp: cached_def fun_eq_iff split: option.split)
qed

text \<open>The caller has a scheduler with a cache of threads, and the queue of the target's is not the
  queue of an object cache.\<close>

definition spawn_ok :: "lenv \<Rightarrow> lsys \<Rightarrow> bool" where
  "spawn_ok E s \<longleftrightarrow> env_ok E \<and> cache_inv (mem s) \<and> THIS_SCHED s \<noteq> NULL \<and>
     (\<exists>S C. cur_sched s = Some S \<and> caches (mem s) (sc_lthread_cache S) = Some C \<and> 0 < oc_prealloc_size C)"

definition target_ok :: "lsys \<Rightarrow> nat \<Rightarrow> bool" where
  "target_ok s lcore \<longleftrightarrow> lcore < length (schedcore s) \<and> sched_live s (schedcore s ! lcore) \<and>
     (\<forall>c C. caches (mem s) c = Some C \<longrightarrow> oc_q C \<noteq> ready_dest s (schedcore s ! lcore))"

lemma create_ok:
  assumes ok: "spawn_ok E s" "target_ok s lcore" and a: "a \<noteq> NULL" "a \<in> dom (umem s)" and f: "f \<noteq> User_fun NULL"
  defines "q \<equiv> ready_dest s (schedcore s ! lcore)"
  shows "\<exists>lt m T. lthread_create E (Some a) (int lcore) f arg s =
      Some (0, s\<lparr>mem := m, threads := (threads s)(lt \<mapsto> T), umem := (umem s)(a \<mapsto> lt)\<rparr>) \<and>
    lt \<noteq> NULL \<and> lt \<in> dom (objs m) \<and> (\<forall>c. lt \<notin> set (cached m c)) \<and> (lt \<in> dom (objs (mem s)) \<longrightarrow> (\<exists>c. lt \<in> set (cached (mem s) c))) \<and>
    items m q = items (mem s) q @ [lt] \<and> cache_inv m \<and> caches m = caches (mem s) \<and> dom (queues m) = dom (queues (mem s)) \<and>
    dom (objs (mem s)) \<subseteq> dom (objs m) \<and> (\<forall>c. set (cached m c) \<inter> dom (objs (mem s)) \<subseteq> set (cached (mem s) c)) \<and>
    (\<forall>q'. q' \<noteq> q \<longrightarrow> (\<forall>c C. caches m c = Some C \<longrightarrow> oc_q C \<noteq> q') \<longrightarrow> items m q' = items (mem s) q') \<and>
    lt_state T = BIT ST_LT_INIT \<and> lt_fun T = f \<and> lt_arg T = arg \<and> lt_join T = LT_JOIN_INITIAL \<and> lt_ctx T = Start"
proof -
  have F: "fresh_alloc (e_mal E)" "\<not> refuses (e_mal E)" and I: "cache_inv (mem s)" and t: "THIS_SCHED s \<noteq> NULL"
    using ok(1) by (simp_all add: spawn_ok_def env_ok_def)
  obtain S C where S: "cur_sched s = Some S" "caches (mem s) (sc_lthread_cache S) = Some C" "0 < oc_prealloc_size C"
    using ok(1) by (auto simp: spawn_ok_def)
  obtain R where R: "scheds s (schedcore s ! lcore) = Some R" "sc_ready R \<in> dom (queues (mem s))" "sc_pready R \<in> dom (queues (mem s))"
    using ok(2) by (auto simp: target_ok_def sched_live_def)
  have lc: "lcore < length (schedcore s)" and nq: "\<forall>c C. caches (mem s) c = Some C \<longrightarrow> oc_q C \<noteq> q"
    using ok(2) by (auto simp: target_ok_def q_def)
  have qd: "q = (if schedcore s ! lcore = THIS_SCHED s then sc_ready R else sc_pready R)" using R(1) by (simp add: q_def ready_dest_def)
  obtain lt m1 where m1: "lthread_objcache_alloc (e_mal E) (sc_lthread_cache S) (mem s) = Some (lt, m1)" "cache_alloc_post (e_mal E) (sc_lthread_cache S) (mem s) lt m1"
    using objcache_alloc_ok [OF I F(1) S(2)] by blast
  note P = cache_alloc_postD [OF m1(2)]
  have lt0: "lt \<noteq> NULL"
  proof (cases "cached (mem s) (sc_lthread_cache S) = []")
    case True
    then show ?thesis using m1(2) F(2) S(2,3) unfolding cache_alloc_post_def by auto
  next
    case False
    then have "lt \<in> set (cached (mem s) (sc_lthread_cache S))" using P(5) by simp
    then have "lt \<in> set (items (mem s) (oc_q C))" using S(2) by (simp add: cached_def)
    then show ?thesis using cache_invD(7) [OF I S(2)] by metis
  qed
  have nq1: "\<forall>c C. caches m1 c = Some C \<longrightarrow> oc_q C \<noteq> q" using nq P(2) by simp
  have q1: "q \<in> dom (queues m1)" using R(2,3) P(8) by (simp add: qd)
  obtain n m2 where m2: "lthread_queue_insert_mp (e_mal E) q lt m1 = Some (n, m2)" "insert_post (e_mal E) q lt m1 n m2"
    using queue_insert_ok [OF _ F(1) _ q1] P(1) unfolding cache_inv_def by metis
  note J = cache_inv_insert [OF P(1) m2(2) nq1]
  have it: "items m2 = (items m1)(q := items m1 q @ [lt])" "objs m2 = objs m1" "caches m2 = caches m1" "dom (queues m2) = dom (queues m1)"
    using m2(2) F(2) by (auto simp: insert_post_def qframe_def split: if_splits)
  have iq: "items m1 q = items (mem s) q" using P(9) nq S(2) by (metis option.sel)
  obtain now where now: "sched_now s = Some now" using S(1) by (simp add: sched_now_def Let_def)
  let ?T = "zero_thread\<lparr>lt_root_sched := THIS_SCHED s, lt_fun := f, lt_arg := arg, lt_birth := now, lt_state := BIT ST_LT_INIT, lt_join := LT_JOIN_INITIAL\<rparr>"
  let ?s = "s\<lparr>mem := m2, threads := (threads s)(lt \<mapsto> ?T), umem := (umem s)(a \<mapsto> lt)\<rparr>"
  have fr: "sched_now (s\<lparr>mem := m1, threads := x\<rparr>) = sched_now s" "THIS_SCHED (s\<lparr>mem := m1, threads := x\<rparr>) = THIS_SCHED s"
    "THIS_SCHED (s\<lparr>mem := m1\<rparr>) = THIS_SCHED s" "THIS_SCHED (s\<lparr>mem := m1, threads := x, umem := y\<rparr>) = THIS_SCHED s" for x y
    by (simp_all add: sched_now_def cur_sched_def THIS_SCHED_def)
  have i: "lthread_init lt f arg (s\<lparr>mem := m1, threads := (threads s)(lt \<mapsto> zero_thread\<lparr>lt_root_sched := THIS_SCHED s\<rparr>)\<rparr>) =
      Some (s\<lparr>mem := m1, threads := (threads s)(lt \<mapsto> ?T)\<rparr>)"
    by (simp add: lthread_init_def fr now upd_thread_def)
  have r: "ready_queue_insert E (schedcore s ! lcore) lt (s\<lparr>mem := m1, threads := (threads s)(lt \<mapsto> ?T), umem := (umem s)(a \<mapsto> lt)\<rparr>) = Some ?s"
    using R(1) m2(1) qd by (cases "schedcore s ! lcore = THIS_SCHED s") (simp_all add: ready_queue_insert_def fr insert_sp_eq_mp on_mem_def)
  have e: "lthread_create E (Some a) (int lcore) f arg s = Some (0, ?s)"
    using a f t lc S(1) m1(1) lt0 i r
    by (auto simp: lthread_create_def Let_def on_mem_def fr store_def lthread_sched_get_def)
  have "lt \<in> dom (objs m2)" "\<forall>c. lt \<notin> set (cached m2 c)" using P(7) lt0 it(2) J(2) by simp_all
  moreover have "lt \<in> dom (objs (mem s)) \<longrightarrow> (\<exists>c. lt \<in> set (cached (mem s) c))"
  proof
    assume x: "lt \<in> dom (objs (mem s))"
    then have ne: "cached (mem s) (sc_lthread_cache S) \<noteq> []" using P(6) by blast
    then have "lt = hd (cached (mem s) (sc_lthread_cache S))" using P(5) by blast
    then show "\<exists>c. lt \<in> set (cached (mem s) c)" using hd_in_set [OF ne] by metis
  qed
  moreover have "\<forall>q'. q' \<noteq> q \<longrightarrow> (\<forall>c C. caches m2 c = Some C \<longrightarrow> oc_q C \<noteq> q') \<longrightarrow> items m2 q' = items (mem s) q'"
    using P(2,9) it(1,3) S(2) by (metis fun_upd_other option.sel)
  ultimately show ?thesis
    using e lt0 it iq J P(2,3,8) alloc_post_cached [OF m1(2)]
    by - (rule exI [of _ lt], rule exI [of _ m2], rule exI [of _ ?T], simp add: zero_thread_def)
qed

lemma create_keeps:
  assumes "cache_inv m" "caches m = caches (mem s)" "dom (queues m) = dom (queues (mem s))"
  shows "spawn_ok E (s\<lparr>mem := m, threads := x, umem := y\<rparr>) = spawn_ok E (s\<lparr>mem := m\<rparr>)"
    "spawn_ok E s \<Longrightarrow> spawn_ok E (s\<lparr>mem := m\<rparr>)"
    "target_ok (s\<lparr>mem := m, threads := x, umem := y\<rparr>) lcore = target_ok s lcore"
  using assms by (auto simp: spawn_ok_def target_ok_def cur_sched_def THIS_SCHED_def sched_live_def ready_dest_def)


subsection \<open>Exit and join\<close>

text \<open>Thread \<open>j\<close> joins thread \<open>lt\<close>, which exits with \<open>v\<close>, in the two orders, with the switches between
  the threads of the scheduler written out. The results are those of the calls and resumptions.\<close>

definition join_first :: "lenv \<Rightarrow> addr \<Rightarrow> addr \<Rightarrow> addr \<Rightarrow> addr \<Rightarrow> lsys \<Rightarrow> (result list \<times> lsys) option" where
  "join_first E j lt ptr v s = do {
     s \<leftarrow> set_current j s; (r1, s) \<leftarrow> lthread_join E lt ptr (\<lambda>_. Done) s;
     s \<leftarrow> set_current lt s; (r2, s) \<leftarrow> lthread_exit E v By_handler s;
     s \<leftarrow> set_current j s; s \<leftarrow> unsuspend s; (r3, s) \<leftarrow> join_wait E lt ptr (\<lambda>_. Done) s;
     s \<leftarrow> set_current lt s; (r4, s) \<leftarrow> exit_wait E By_handler s;
     Some ([r1, r2, r3, r4], s) }"

definition exit_first :: "lenv \<Rightarrow> addr \<Rightarrow> addr \<Rightarrow> addr \<Rightarrow> addr \<Rightarrow> lsys \<Rightarrow> (result list \<times> lsys) option" where
  "exit_first E j lt ptr v s = do {
     s \<leftarrow> set_current lt s; (r1, s) \<leftarrow> lthread_exit E v By_handler s;
     s \<leftarrow> set_current j s; (r2, s) \<leftarrow> lthread_join E lt ptr (\<lambda>_. Done) s;
     s \<leftarrow> set_current lt s; s \<leftarrow> unsuspend s; s \<leftarrow> set_exit_value lt v s; (r3, s) \<leftarrow> exit_wait E By_handler s;
     s \<leftarrow> set_current j s; (r4, s) \<leftarrow> join_wait E lt ptr (\<lambda>_. Done) s;
     s \<leftarrow> set_current lt s; (r5, s) \<leftarrow> exit_wait E By_handler s;
     Some ([r1, r2, r3, r4, r5], s) }"

text \<open>Two threads of the current scheduler; \<open>lt\<close> may be joined.\<close>

definition joinable_pair :: "lenv \<Rightarrow> addr \<Rightarrow> addr \<Rightarrow> lsys \<Rightarrow> bool" where
  "joinable_pair E j lt s \<longleftrightarrow> mem_ok E s \<and> sched_live s (THIS_SCHED s) \<and> j \<noteq> lt \<and> lt \<noteq> NULL \<and>
     (\<exists>J T. threads s j = Some J \<and> threads s lt = Some T \<and> lt_sched J = THIS_SCHED s \<and> lt_sched T = THIS_SCHED s \<and>
        lt_join T = LT_JOIN_INITIAL \<and> \<not> in_state (lt_state T) ST_LT_DETACH)"

definition reaped :: "addr \<Rightarrow> lsys \<Rightarrow> lsys \<Rightarrow> bool" where
  "reaped lt s s' \<longleftrightarrow> (\<exists>T. threads s' lt = Some T \<and> in_state (lt_state T) ST_LT_EXITED \<and> in_state (lt_state T) ST_LT_DETACH \<and> lt_join T = LT_JOIN_INITIAL) \<and>
     map_option sc_blocked (scheds s' (THIS_SCHED s)) = map_option sc_blocked (scheds s (THIS_SCHED s))"

lemma or_or_state:
  "in_state (or w (or (BIT ST_LT_DETACH) (BIT ST_LT_EXITED))) ST_LT_EXITED" "in_state (or w (or (BIT ST_LT_DETACH) (BIT ST_LT_EXITED))) ST_LT_DETACH"
  by (simp_all add: in_state_bit BIT_def bit_simps st_defs)

lemma insert_mem:
  assumes "fifo_ok mal m" "\<not> refuses mal" "q \<in> dom (queues m)"
  shows "\<exists>n m'. lthread_queue_insert_sp mal q d m = Some (n, m') \<and> fifo_ok mal m' \<and> items m' = (items m)(q := items m q @ [d]) \<and>
    dom (queues m') = dom (queues m)"
proof -
  have I: "lt_inv m" "fresh_alloc mal" "pool_ready m" using assms(1) by (simp_all add: fifo_ok_def)
  obtain n m' where "lthread_queue_insert_mp mal q d m = Some (n, m')" "insert_post mal q d m n m'"
    using queue_insert_ok [OF I assms(3)] by blast
  then show ?thesis
    using assms(2) I by (auto simp: insert_sp_eq_mp insert_post_def qframe_def fifo_ok_def split: if_splits)
qed


subsection \<open>Yielding\<close>

text \<open>The ready queue \<open>q\<close> of the current scheduler holds the threads \<open>lts\<close>; each is between two calls and
  goes on with \<open>P\<close>.\<close>

definition all_ready :: "lenv \<Rightarrow> addr \<Rightarrow> addr list \<Rightarrow> (addr \<Rightarrow> prog) \<Rightarrow> lsys \<Rightarrow> bool" where
  "all_ready E q lts P s \<longleftrightarrow> mem_ok E s \<and> q \<in> dom (queues (mem s)) \<and> items (mem s) q = lts \<and>
     (\<exists>S. scheds s (THIS_SCHED s) = Some S \<and> sc_ready S = q) \<and> distinct lts \<and> NULL \<notin> set lts \<and>
     (\<forall>u\<in>set lts. \<exists>T. threads s u = Some T \<and> lt_ctx T = At_prog (P u) \<and> lt_state T = BIT ST_LT_READY \<and> pending_wr_queue T = NULL)"

fun polls :: "nat \<Rightarrow> lenv \<Rightarrow> destructors \<Rightarrow> addr \<Rightarrow> lsys \<Rightarrow> lsys option" where
  "polls 0 E D q s = Some s"
| "polls (Suc n) E D q s = do { s \<leftarrow> poll_and_resume E D q s; polls n E D q s }"

lemma poll_step:
  assumes A: "all_ready E q (u # us) P s" and P: "P u = Call Yield k"
  shows "\<exists>s'. poll_and_resume E D q s = Some s' \<and> all_ready E q (us @ [u]) (P(u := k 0)) s'"
proof -
  let ?p = "THIS_SCHED s"
  obtain S T where S: "scheds s ?p = Some S" "sc_ready S = q" and T: "threads s u = Some T" "lt_ctx T = At_prog (Call Yield k)"
    "lt_state T = BIT ST_LT_READY" "pending_wr_queue T = NULL" and q: "q \<in> dom (queues (mem s))" and it: "items (mem s) q = u # us"
    and d: "distinct (u # us)" "u \<noteq> NULL" "NULL \<notin> set us"
    using A P by (auto simp: all_ready_def)
  have F: "fifo_ok (e_mal E) (mem s)" "\<not> refuses (e_mal E)" using A by (simp_all add: all_ready_def mem_ok_def)
  obtain m1 where m1: "lthread_queue_poll q (mem s) = Some (u, m1)" "fifo_ok (e_mal E) m1" "items m1 q = us" "q \<in> dom (queues m1)"
    using queue_poll_ok [OF _ q] F(1) it q by (fastforce simp: fifo_ok_def poll_post_def qframe_def)
  obtain n2 m2 where m2: "lthread_queue_insert_sp (e_mal E) q u m1 = Some (n2, m2)" "fifo_ok (e_mal E) m2" "items m2 q = us @ [u]" "q \<in> dom (queues m2)"
    using insert_mem [OF m1(2) F(2) m1(4), of u] m1(3,4) by (metis fun_upd_same)
  have c: "scheds s (this_sched s (cpu s)) = Some S" using S(1) by (simp add: THIS_SCHED_def)
  let ?s = "s\<lparr>mem := m2, threads := (threads s)(u \<mapsto> T\<lparr>lt_ctx := At_prog (k 0)\<rparr>), scheds := (scheds s)(?p \<mapsto> S\<lparr>sc_current := NULL\<rparr>)\<rparr>"
  have f: "\<not> in_state (BIT ST_LT_READY) ST_LT_CANCELLED" "\<not> in_state (BIT ST_LT_READY) ST_LT_EXITED" "\<not> in_state (BIT ST_LT_READY) ST_LT_INIT"
    by (simp_all add: st_defs)
  have "poll_and_resume E D q s = Some ?s"
    using m1(1) m2(1) T c S(2) d(2)
    by (simp add: poll_and_resume_def on_mem_def lthread_resume_def set_current_def upd_sched_def upd_thread_def f lthread_yield_def THIS_LTHREAD_def
      cur_sched_def THIS_SCHED_def ready_queue_insert_def write_pending_def Let_def)
  moreover have "all_ready E q (us @ [u]) (P(u := k 0)) ?s"
  proof -
    have "\<exists>T'. threads ?s v = Some T' \<and> lt_ctx T' = At_prog ((P(u := k 0)) v) \<and> lt_state T' = BIT ST_LT_READY \<and> pending_wr_queue T' = NULL"
      if "v \<in> set (us @ [u])" for v
      using that A T d(1) by (cases "v = u") (auto simp: all_ready_def)
    then show ?thesis using m2(2-4) F(2) S d by (auto simp: all_ready_def mem_ok_def THIS_SCHED_def)
  qed
  ultimately show ?thesis by blast
qed

text \<open>C21. Round robin: when the threads of a ready queue yield, as many turns of the scheduler as there are
  threads run each of them exactly once, up to its next yield, and leave the queue in the same order.\<close>

theorem yield_round_robin:
  assumes "all_ready E q lts (\<lambda>u. Call Yield (k u)) s"
  shows "\<exists>s'. polls (length lts) E D q s = Some s' \<and> all_ready E q lts (\<lambda>u. k u 0) s'"
proof -
  have "\<exists>s'. polls (length ys) E D q s = Some s' \<and> all_ready E q (zs @ ys) (\<lambda>u. if u \<in> set ys then k u 0 else P u) s'"
    if "all_ready E q (ys @ zs) P s" "\<forall>u\<in>set ys. P u = Call Yield (k u)" for ys zs P s
    using that
  proof (induction ys arbitrary: zs P s)
    case Nil
    then show ?case by simp
  next
    case (Cons y ys)
    let ?P = "P(y := k y 0)"
    have "P y = Call Yield (k y)" "all_ready E q (y # (ys @ zs)) P s" using Cons.prems by simp_all
    then obtain s1 where s1: "poll_and_resume E D q s = Some s1" "all_ready E q ((ys @ zs) @ [y]) ?P s1"
      using poll_step by blast
    have "distinct (y # ys)" using Cons.prems(1) by (simp add: all_ready_def)
    then have P: "\<forall>u\<in>set ys. ?P u = Call Yield (k u)" using Cons.prems(2) by auto
    have "all_ready E q (ys @ (zs @ [y])) ?P s1" using s1(2) by (simp only: append_assoc)
    from Cons.IH [OF this P] obtain s2 where s2: "polls (length ys) E D q s1 = Some s2"
      "all_ready E q ((zs @ [y]) @ ys) (\<lambda>u. if u \<in> set ys then k u 0 else ?P u) s2"
      by blast
    have "(\<lambda>u. if u \<in> set ys then k u 0 else ?P u) = (\<lambda>u. if u \<in> set (y # ys) then k u 0 else P u)" by auto
    then show ?case using s1(1) s2 by simp
  qed
  from this [of lts "[]" "\<lambda>u. Call Yield (k u)" s] obtain s' where
    s': "polls (length lts) E D q s = Some s'" "all_ready E q lts (\<lambda>u. if u \<in> set lts then k u 0 else Call Yield (k u)) s'"
    using assms by auto
  have "all_ready E q lts (\<lambda>u. k u 0) s'" using s'(2) by (simp add: all_ready_def)
  then show ?thesis using s'(1) by blast
qed

subsection \<open>A thread that ends after a sleep\<close>

text \<open>The detached thread \<open>u\<close> sleeps and has nothing left to do; the ready queue \<open>q\<close> is empty.\<close>

definition last_sleep :: "lenv \<Rightarrow> addr \<Rightarrow> addr \<Rightarrow> lsys \<Rightarrow> bool" where
  "last_sleep E q u s \<longleftrightarrow> mem_ok E s \<and> q \<in> dom (queues (mem s)) \<and> items (mem s) q = [] \<and> u \<noteq> NULL \<and>
     (\<exists>S. scheds s (THIS_SCHED s) = Some S \<and> sc_ready S = q) \<and>
     (\<exists>T. threads s u = Some T \<and> lt_ctx T = Unsuspend (At_prog Done) \<and>
        lt_state T = or (or (BIT ST_LT_READY) (BIT ST_LT_DETACH)) (BIT ST_LT_SLEEPING) \<and> pending_wr_queue T = NULL)"


subsection \<open>Witnesses\<close>

text \<open>The demo scheduler with a cache of threads and one ready queue.\<close>

definition spawn_sys :: lsys where
  "spawn_sys = demo_sys\<lparr>mem := demo_mem 4, scheds := [40 \<mapsto> demo_sched\<lparr>sc_ready := 20, sc_pready := 20, sc_lthread_cache := 30\<rparr>],
     schedcore := [40, 40]\<rparr>"

lemma spawn_sys_ok: "spawn_ok demo_env spawn_sys" "target_ok spawn_sys 1" "200 \<in> dom (umem spawn_sys)"
proof -
  have c: "caches (demo_mem 4) = [30 \<mapsto> \<lparr>oc_q = 21, oc_obj_size = 64, oc_prealloc_size = 2, oc_name = ''c''\<rparr>]"
    by (simp add: demo_mem_def)
  have s: "mem spawn_sys = demo_mem 4" "THIS_SCHED spawn_sys = 40" "schedcore spawn_sys = [40, 40]"
    "scheds spawn_sys = [40 \<mapsto> demo_sched\<lparr>sc_ready := 20, sc_pready := 20, sc_lthread_cache := 30\<rparr>]"
    "cur_sched spawn_sys = Some (demo_sched\<lparr>sc_ready := 20, sc_pready := 20, sc_lthread_cache := 30\<rparr>)"
    by (simp_all add: spawn_sys_def THIS_SCHED_def cur_sched_def demo_sys_def)
  show "spawn_ok demo_env spawn_sys" using demo_cache demo_env_ok c by (simp add: spawn_ok_def s)
  show "target_ok spawn_sys 1" using demo_queues(1) c by (simp add: target_ok_def s sched_live_def ready_dest_def)
  show "200 \<in> dom (umem spawn_sys)" by (simp add: spawn_sys_def demo_sys_def)
qed


lemma demo_joiners: "joinable_pair demo_env 100 101 demo_sys"
  using demo_live(1) by (simp add: joinable_pair_def demo_sys_simps demo_thread_def st_defs)


definition yield_sys :: lsys where
  "yield_sys = demo_sys\<lparr>threads := [100 \<mapsto> demo_thread\<lparr>lt_ctx := At_prog (Call Yield (\<lambda>_. Done))\<rparr>, 101 \<mapsto> demo_thread\<lparr>lt_ctx := At_prog (Call Yield (\<lambda>_. Done))\<rparr>],
     scheds := [40 \<mapsto> demo_sched\<lparr>sc_ready := 20\<rparr>]\<rparr>"

theorem yield_round_robin_witness:
  "\<exists>s'. polls 1 demo_env (\<lambda>_ _ s. Some s) 20 yield_sys = Some s' \<and> items (mem s') 20 = [101] \<and>
    (\<exists>T. threads s' 101 = Some T \<and> lt_ctx T = At_prog Done)"
proof -
  have "all_ready demo_env 20 [101] (\<lambda>u. Call Yield (\<lambda>_. Done)) yield_sys"
    using sys_items sys_fifo bump_gives
    by (simp add: all_ready_def yield_sys_def demo_sys_def mem_ok_def demo_env_def THIS_SCHED_def sys_queues demo_thread_def)
  from yield_round_robin [OF this, of "\<lambda>_ _ s. Some s"] show ?thesis
    by (auto simp: all_ready_def simp del: polls.simps)
qed

definition sleep_sys :: lsys where
  "sleep_sys = demo_sys\<lparr>threads := [100 \<mapsto> demo_thread\<lparr>lt_ctx := Unsuspend (At_prog Done),
     lt_state := or (or (BIT ST_LT_READY) (BIT ST_LT_DETACH)) (BIT ST_LT_SLEEPING)\<rparr>]\<rparr>"


end
