(* ===== verification/Ssn_Threads.thy ===== *)
theory Ssn_Threads
  imports Outcome_Ops Lthread_Life
begin

section \<open>Threads and lcores (lib/libsusanow: ssn_cpu.cc, ssn_native_thread.cc, ssn_green_thread.cc, ssn_thread.cc)\<close>

text \<open>
  A thread is launched on an lcore: as the only one there (native, by the environment abstraction
  layer), or as one of many under the lthread scheduler of that lcore (green). A thread id is a
  32-bit number that tells the two apart. The launch state of the lcores belongs to DPDK and is the
  parameter \<open>eal_launch\<close> over a state \<open>'e\<close>; the lthread system is the model of liblthread. Locks
  make the operations atomic; log lines and dumps are left out.
\<close>

datatype ssn_lcore_state = SSN_LS_WAIT | SSN_LS_RUNNING_GREEN | SSN_LS_RUNNING_NATIVE | SSN_LS_RUNNING_TIMER | SSN_LS_FINISHED

datatype rte_lcore_state = RTE_WAIT | RTE_RUNNING | RTE_FINISHED

text \<open>A native thread has the lcore it runs on (16 bits) as its id.\<close>

record ssn_native_thread =
  nt_f :: addr
  nt_arg :: addr

record ssn_thread_id =
  ti_lcore_id :: u16
  ti_sub_id :: u16

record ssn_green_thread =
  gt_self :: addr
  gt_f :: addr
  gt_arg :: addr
  gt_lcore_id :: nat
  gt_dead :: bool
  gt_tid :: u32

record 'e ssn_sys =
  lcores :: "ssn_lcore_state list"
  eal_state :: 'e
  snt :: "nat \<rightharpoonup> ssn_native_thread"
  tids :: "ssn_thread_id list"
  green_threads :: "ssn_green_thread list"
  subtid :: u32
  dummy_running :: "nat \<Rightarrow> bool"
  lts :: lsys

text \<open>\<open>rte_eal_remote_launch\<close> as \<open>dpdk::\<close> wraps it (\<open>None\<close>: it throws), \<open>rte_eal_wait_lcore\<close> (\<open>None\<close>:
  it never returns), \<open>rte_eal_get_lcore_state\<close>, and the number of lcores. \<open>el_new\<close> is the address
  that \<open>new\<close> gives. The remaining fields are addresses of functions.\<close>

record 'e eal_launch =
  el_launch :: "nat \<Rightarrow> 'e \<Rightarrow> 'e option"
  el_wait :: "nat \<Rightarrow> 'e \<Rightarrow> 'e option"
  el_state :: "nat \<Rightarrow> 'e \<Rightarrow> rte_lcore_state"
  el_count :: nat
  el_new :: "lsys \<Rightarrow> addr"
  el_lenv :: lenv
  el_spawner :: addr
  el_master :: addr

datatype thread_error = Master_lcore | Huge_lcore nat | Launch_failed nat | Invalid_tid u32 | Not_green nat | Tid_not_found u32

type_synonym ('e, 'a) top = "('e ssn_sys, thread_error, 'a) op"

subsection \<open>ssn_cpu.cc\<close>

definition ssn_cpu_init :: "'e eal_launch \<Rightarrow> ('e, unit) top" where
  "ssn_cpu_init L = modify (\<lambda>s. s\<lparr>lcores := lcores s @ replicate (el_count L) SSN_LS_WAIT\<rparr>)"

definition ssn_get_lcore_state :: "nat \<Rightarrow> ('e, ssn_lcore_state) top" where
  "ssn_get_lcore_state lcore_id = need (\<lambda>s. if lcore_id < length (lcores s) then Some (lcores s ! lcore_id) else None)"

definition ssn_set_lcore_state :: "ssn_lcore_state \<Rightarrow> nat \<Rightarrow> ('e, unit) top" where
  "ssn_set_lcore_state st lcore_id = andthen (ssn_get_lcore_state lcore_id) (modify (\<lambda>s. s\<lparr>lcores := (lcores s)[lcore_id := st]\<rparr>))"

definition ssn_lcoreid_is_green_thread :: "nat \<Rightarrow> ('e, bool) top" where
  "ssn_lcoreid_is_green_thread lcore_id = bnd (ssn_get_lcore_state lcore_id) (\<lambda>st. ret (st = SSN_LS_RUNNING_GREEN))"

definition ssn_lcoreid_is_tthread :: "nat \<Rightarrow> ('e, bool) top" where
  "ssn_lcoreid_is_tthread lcore_id = bnd (ssn_get_lcore_state lcore_id) (\<lambda>st. ret (st = SSN_LS_RUNNING_TIMER))"

subsection \<open>Native threads\<close>

definition ssn_native_thread_init :: "'e eal_launch \<Rightarrow> ('e, unit) top" where
  "ssn_native_thread_init L = modify (\<lambda>s. s\<lparr>snt := (\<lambda>i. if i < el_count L then Some \<lparr>nt_f = NULL, nt_arg = NULL\<rparr> else snt s i)\<rparr>)"

definition ssn_native_thread_fin :: "'e eal_launch \<Rightarrow> ('e, unit) top" where
  "ssn_native_thread_fin L = modify (\<lambda>s. s\<lparr>snt := (\<lambda>i. if i < el_count L then None else snt s i)\<rparr>)"

definition ssn_native_thread_launch :: "'e eal_launch \<Rightarrow> addr \<Rightarrow> addr \<Rightarrow> nat \<Rightarrow> ('e, u32) top" where
  "ssn_native_thread_launch L f arg lcore_id =
     (if el_count L \<le> lcore_id then throw (Huge_lcore lcore_id)
      else
        andthen (modify (\<lambda>s. s\<lparr>tids := tids s @ [\<lparr>ti_lcore_id = of_nat lcore_id, ti_sub_id = 0\<rparr>]\<rparr>)) (
        andthen (need (\<lambda>s. snt s lcore_id)) (
        andthen (modify (\<lambda>s. s\<lparr>snt := (snt s)(lcore_id \<mapsto> \<lparr>nt_f = f, nt_arg = arg\<rparr>)\<rparr>)) (
        bnd (gets (\<lambda>s. el_launch L lcore_id (eal_state s))) (\<lambda>e. case e of
          None \<Rightarrow> throw (Launch_failed lcore_id)
        | Some e \<Rightarrow> andthen (modify (\<lambda>s. s\<lparr>eal_state := e\<rparr>)) (ret (of_nat lcore_id)))))))"

definition ssn_native_thread_join :: "'e eal_launch \<Rightarrow> u32 \<Rightarrow> ('e, unit) top" where
  "ssn_native_thread_join L tid =
     (if tid = 0 then ret ()
      else
        bnd (need (\<lambda>s. el_wait L (unat tid) (eal_state s))) (\<lambda>e.
        andthen (modify (\<lambda>s. s\<lparr>eal_state := e\<rparr>)) (
        bnd (gets (\<lambda>s. find_index (\<lambda>t. ucast (ti_lcore_id t) = tid) (tids s))) (\<lambda>i. case i of
          None \<Rightarrow> throw (Invalid_tid tid)
        | Some i \<Rightarrow> andthen (modify (\<lambda>s. s\<lparr>tids := erase_at i (tids s)\<rparr>)) (ssn_set_lcore_state SSN_LS_WAIT (unat tid))))))"

definition ssn_native_thread_joinable :: "'e eal_launch \<Rightarrow> u32 \<Rightarrow> ('e, bool) top" where
  "ssn_native_thread_joinable L tid = gets (\<lambda>s. el_state L (unat tid) (eal_state s) = RTE_FINISHED)"

text \<open>The launched function runs between these two state changes.\<close>

definition fthread_start :: "nat \<Rightarrow> ('e, ssn_native_thread) top" where
  "fthread_start lcore_id = andthen (ssn_set_lcore_state SSN_LS_RUNNING_NATIVE lcore_id) (need (\<lambda>s. snt s lcore_id))"

definition fthread_end :: "nat \<Rightarrow> ('e, unit) top" where
  "fthread_end lcore_id = ssn_set_lcore_state SSN_LS_FINISHED lcore_id"

subsection \<open>Green threads\<close>

text \<open>The constructor; the result of \<open>lthread_create\<close> is not looked at. \<open>&lt\<close> is the address of the
  new object.\<close>

definition new_green_thread :: "'e eal_launch \<Rightarrow> addr \<Rightarrow> addr \<Rightarrow> nat \<Rightarrow> ('e, ssn_green_thread) top" where
  "new_green_thread L f arg lcore_id =
     bnd (gets (\<lambda>s. el_new L (lts s))) (\<lambda>p.
     bnd (gets (\<lambda>s. of_nat lcore_id + push_bit 16 (subtid s))) (\<lambda>tid.
     andthen (modify (\<lambda>s. s\<lparr>subtid := subtid s + 1, lts := (lts s)\<lparr>umem := (umem (lts s))(p \<mapsto> NULL)\<rparr>\<rparr>)) (
     bnd (need (\<lambda>s. lthread_create (el_lenv L) (Some p) (int lcore_id) (User_fun (el_spawner L)) p (lts s))) (\<lambda>(r, l).
     andthen (modify (\<lambda>s. s\<lparr>lts := l\<rparr>))
     (ret \<lparr>gt_self = p, gt_f = f, gt_arg = arg, gt_lcore_id = lcore_id, gt_dead = False, gt_tid = tid\<rparr>)))))"

text \<open>The end of \<open>_ssn_thread_spawner\<close>, after the function has returned.\<close>

definition spawner_end :: "addr \<Rightarrow> ('e, unit) top" where
  "spawner_end p = modify (\<lambda>s. s\<lparr>green_threads := map (\<lambda>g. if gt_self g = p then g\<lparr>gt_dead := True\<rparr> else g) (green_threads s)\<rparr>)"

definition ssn_green_thread_launch :: "'e eal_launch \<Rightarrow> addr \<Rightarrow> addr \<Rightarrow> nat \<Rightarrow> ('e, u32) top" where
  "ssn_green_thread_launch L f arg lcore_id =
     bnd (ssn_lcoreid_is_green_thread lcore_id) (\<lambda>g.
     if \<not> g then throw (Not_green lcore_id)
     else
       bnd (new_green_thread L f arg lcore_id) (\<lambda>sl.
       andthen (modify (\<lambda>s. s\<lparr>green_threads := green_threads s @ [sl]\<rparr>)) (ret (gt_tid sl))))"

definition ssn_green_thread_joinable :: "u32 \<Rightarrow> ('e, bool) top" where
  "ssn_green_thread_joinable tid =
     bnd (gets (\<lambda>s. find (\<lambda>g. gt_tid g = tid) (green_threads s))) (\<lambda>g. case g of
       None \<Rightarrow> throw (Tid_not_found tid) | Some g \<Rightarrow> ret (gt_dead g))"

text \<open>The loop ends when another lcore has set \<open>dead\<close>: no value as long as it has not.\<close>

definition ssn_green_thread_join :: "u32 \<Rightarrow> ('e, unit) top" where
  "ssn_green_thread_join tid =
     bnd (ssn_green_thread_joinable tid) (\<lambda>d.
     andthen (need (\<lambda>s. if d then Some () else None)) (
     bnd (gets (\<lambda>s. find_index (\<lambda>g. gt_tid g = tid) (green_threads s))) (\<lambda>i. case i of
       None \<Rightarrow> throw (Tid_not_found tid)
     | Some i \<Rightarrow> modify (\<lambda>s. s\<lparr>green_threads := erase_at i (green_threads s)\<rparr>))))"

definition ssn_green_thread_sched_register :: "'e eal_launch \<Rightarrow> nat \<Rightarrow> ('e, unit) top" where
  "ssn_green_thread_sched_register L lcore_id =
     andthen (ssn_native_thread_launch L (el_master L) NULL lcore_id) (ssn_set_lcore_state SSN_LS_RUNNING_GREEN lcore_id)"

definition ssn_green_thread_sched_unregister :: "nat \<Rightarrow> ('e, unit) top" where
  "ssn_green_thread_sched_unregister lcore_id =
     bnd (ssn_lcoreid_is_green_thread lcore_id) (\<lambda>g.
     if \<not> g then throw (Not_green lcore_id)
     else
       andthen (modify (\<lambda>s. s\<lparr>dummy_running := (dummy_running s)(lcore_id := False)\<rparr>)) (
       bnd (need (\<lambda>s. lthread_scheduler_force_shutdown lcore_id (lts s))) (\<lambda>l.
       andthen (modify (\<lambda>s. s\<lparr>lts := l\<rparr>)) (ssn_set_lcore_state SSN_LS_FINISHED lcore_id))))"

subsection \<open>ssn_thread.cc\<close>

definition ssn_tid_is_green_thread :: "u32 \<Rightarrow> bool" where
  "ssn_tid_is_green_thread tid \<longleftrightarrow> and tid 0xffff0000 \<noteq> 0"

definition ssn_thread_launch :: "'e eal_launch \<Rightarrow> addr \<Rightarrow> addr \<Rightarrow> nat \<Rightarrow> ('e, u32) top" where
  "ssn_thread_launch L f arg lcore_id =
     (if lcore_id = 0 then throw Master_lcore
      else bnd (ssn_lcoreid_is_green_thread lcore_id) (\<lambda>g.
        if g then ssn_green_thread_launch L f arg lcore_id else ssn_native_thread_launch L f arg lcore_id))"

definition ssn_thread_join :: "'e eal_launch \<Rightarrow> u32 \<Rightarrow> ('e, unit) top" where
  "ssn_thread_join L tid = (if ssn_tid_is_green_thread tid then ssn_green_thread_join tid else ssn_native_thread_join L tid)"

definition ssn_thread_joinable :: "'e eal_launch \<Rightarrow> u32 \<Rightarrow> ('e, bool) top" where
  "ssn_thread_joinable L tid = (if ssn_tid_is_green_thread tid then ssn_green_thread_joinable tid else ssn_native_thread_joinable L tid)"

subsection \<open>The ids of green threads\<close>

lemma green_tid_iff: "ssn_tid_is_green_thread t \<longleftrightarrow> 65536 \<le> unat t"
proof -
  have m: "(0xffff0000 :: u32) = not (mask 16)" by (simp add: mask_eq_exp_minus_1)
  have "and t 0xffff0000 = push_bit 16 (drop_bit 16 t)"
    unfolding m by (rule bit_word_eqI) (auto simp: bit_simps)
  then have "and t 0xffff0000 = t - take_bit 16 t" using bits_ident [of 16 t] by (simp add: algebra_simps)
  then have "and t 0xffff0000 = 0 \<longleftrightarrow> unat t = unat (take_bit 16 t)" by (auto simp: word_unat_eq_iff [symmetric])
  also have "unat (take_bit 16 t) = unat t mod 65536" by (simp only: unsigned_take_bit_eq) (simp add: take_bit_eq_mod)
  also have "unat t = unat t mod 65536 \<longleftrightarrow> unat t < 65536" by (metis mod_less mod_less_divisor zero_less_numeral)
  finally show ?thesis by (auto simp: ssn_tid_is_green_thread_def)
qed

lemma green_tid_bits:
  assumes "c < 65536" "n < 65536"
  shows "unat ((of_nat c :: u32) + push_bit 16 (of_nat n)) = c + n * 65536"
    "ssn_tid_is_green_thread (of_nat c + push_bit 16 (of_nat n)) \<longleftrightarrow> n \<noteq> 0"
proof -
  have e: "(of_nat c :: u32) + push_bit 16 (of_nat n) = of_nat (c + n * 65536)" by (simp add: push_bit_eq_mult)
  have l: "c + n * 65536 < 2 ^ 32" using assms by simp
  then show u: "unat ((of_nat c :: u32) + push_bit 16 (of_nat n)) = c + n * 65536" unfolding e by (intro unat_of_nat_u32) simp
  show "ssn_tid_is_green_thread (of_nat c + push_bit 16 (of_nat n)) \<longleftrightarrow> n \<noteq> 0"
    using assms by (auto simp: green_tid_iff u)
qed

text \<open>A machine on which lcore \<open>c\<close> runs green threads.\<close>

definition green_ok :: "'e eal_launch \<Rightarrow> nat \<Rightarrow> 'e ssn_sys \<Rightarrow> bool" where
  "green_ok L c s \<longleftrightarrow> 0 < c \<and> c < 65536 \<and> c < length (lcores s) \<and> lcores s ! c = SSN_LS_RUNNING_GREEN \<and> target_ok (lts s) c"

lemma green_launch_ok:
  assumes "spawn_ok (el_lenv L) (lts s)" "green_ok L c s" "\<And>l. el_new L l \<noteq> NULL" "el_spawner L \<noteq> NULL"
  shows "\<exists>s' sl. ssn_thread_launch L f arg c s = Some (Return (of_nat c + push_bit 16 (subtid s)), s') \<and>
    gt_tid sl = of_nat c + push_bit 16 (subtid s) \<and> gt_f sl = f \<and> gt_arg sl = arg \<and> \<not> gt_dead sl \<and>
    green_threads s' = green_threads s @ [sl] \<and> subtid s' = subtid s + 1 \<and> spawn_ok (el_lenv L) (lts s') \<and> (\<forall>d. green_ok L d s \<longrightarrow> green_ok L d s')"
proof -
  let ?p = "el_new L (lts s)"
  let ?l = "(lts s)\<lparr>umem := (umem (lts s))(?p \<mapsto> NULL)\<rparr>"
  have g: "c < length (lcores s)" "lcores s ! c = SSN_LS_RUNNING_GREEN" "c \<noteq> 0" using assms(2) by (simp_all add: green_ok_def)
  have rd: "ready_dest ?l = ready_dest (lts s)" by (rule ext) (simp add: ready_dest_def THIS_SCHED_def split: option.split)
  have tl: "target_ok ?l d = target_ok (lts s) d" for d by (simp add: target_ok_def sched_live_def rd)
  have "spawn_ok (el_lenv L) ?l" "target_ok ?l c"
    using assms(1,2) tl by (simp_all add: green_ok_def spawn_ok_def cur_sched_def THIS_SCHED_def)
  then obtain lt m T where r: "lthread_create (el_lenv L) (Some ?p) (int c) (User_fun (el_spawner L)) ?p ?l =
      Some (0, ?l\<lparr>mem := m, threads := (threads ?l)(lt \<mapsto> T), umem := (umem ?l)(?p \<mapsto> lt)\<rparr>)" (is "_ = Some (0, ?l')")
    "cache_inv m" "caches m = caches (mem ?l)" "dom (queues m) = dom (queues (mem ?l))"
    using create_ok [of "el_lenv L" ?l c ?p "User_fun (el_spawner L)" ?p] assms(3,4) by force
  note K = create_keeps [OF r(2,3,4)]
  have sp: "spawn_ok (el_lenv L) ?l'" using K(1,2) \<open>spawn_ok (el_lenv L) ?l\<close> by blast
  have tk: "target_ok ?l' d" if "target_ok (lts s) d" for d using that K(3) tl by blast
  let ?sl = "\<lparr>gt_self = ?p, gt_f = f, gt_arg = arg, gt_lcore_id = c, gt_dead = False, gt_tid = of_nat c + push_bit 16 (subtid s)\<rparr>"
  let ?s = "s\<lparr>subtid := subtid s + 1, lts := ?l', green_threads := green_threads s @ [?sl]\<rparr>"
  have e: "ssn_thread_launch L f arg c s = Some (Return (of_nat c + push_bit 16 (subtid s)), ?s)"
    using g r(1) by (simp add: ssn_thread_launch_def ssn_lcoreid_is_green_thread_def ssn_get_lcore_state_def ssn_green_thread_launch_def
      new_green_thread_def bnd_def andthen_def need_def gets_def modify_def ret_def)
  have "green_ok L d s \<longrightarrow> green_ok L d ?s" for d using tk [of d] by (simp add: green_ok_def)
  then show ?thesis
    using e sp by - (rule exI [of _ ?s], rule exI [of _ ?sl], simp)
qed

text \<open>Launches in sequence, with the ids they return.\<close>

fun launch_all :: "'e eal_launch \<Rightarrow> (addr \<times> addr \<times> nat) list \<Rightarrow> ('e, u32 list) top" where
  "launch_all L [] = ret []"
| "launch_all L ((f, arg, c) # ls) = bnd (ssn_thread_launch L f arg c) (\<lambda>t. bnd (launch_all L ls) (\<lambda>ts. ret (t # ts)))"

definition launch_tids :: "nat \<Rightarrow> (addr \<times> addr \<times> nat) list \<Rightarrow> u32 list" where
  "launch_tids n ls = map (\<lambda>i. of_nat (snd (snd (ls ! i))) + push_bit 16 (of_nat (n + i))) [0..<length ls]"

lemma launch_all_ok:
  assumes "spawn_ok (el_lenv L) (lts s)" "\<forall>(f, a, c)\<in>set ls. green_ok L c s" "\<And>l. el_new L l \<noteq> NULL" "el_spawner L \<noteq> NULL" "subtid s = of_nat n"
  shows "\<exists>s'. launch_all L ls s = Some (Return (launch_tids n ls), s') \<and> map gt_tid (green_threads s') = map gt_tid (green_threads s) @ launch_tids n ls"
  using assms(1,2,5)
proof (induction ls arbitrary: s n)
  case Nil
  then show ?case by (simp add: ret_def launch_tids_def)
next
  case (Cons x ls)
  obtain f arg c where x: "x = (f, arg, c)" by (cases x)
  obtain s1 sl where s1: "ssn_thread_launch L f arg c s = Some (Return (of_nat c + push_bit 16 (subtid s)), s1)"
    "gt_tid sl = of_nat c + push_bit 16 (subtid s)" "green_threads s1 = green_threads s @ [sl]" "subtid s1 = subtid s + 1"
    "spawn_ok (el_lenv L) (lts s1)" "\<forall>d. green_ok L d s \<longrightarrow> green_ok L d s1"
    using green_launch_ok [OF Cons.prems(1) _ assms(3,4), of c f arg] Cons.prems(2) x by auto
  have "\<forall>(f, a, c)\<in>set ls. green_ok L c s1" using Cons.prems(2) s1(6) by auto
  moreover have "subtid s1 = of_nat (Suc n)" using s1(4) Cons.prems(3) by simp
  ultimately obtain s2 where s2: "launch_all L ls s1 = Some (Return (launch_tids (Suc n) ls), s2)"
    "map gt_tid (green_threads s2) = map gt_tid (green_threads s1) @ launch_tids (Suc n) ls"
    using Cons.IH [OF s1(5)] by blast
  have "launch_tids n (x # ls) = (of_nat c + push_bit 16 (of_nat n)) # launch_tids (Suc n) ls"
    by (simp add: launch_tids_def x upt_conv_Cons map_Suc_upt [symmetric] comp_def add_ac del: upt_Suc)
  then show ?case
    using s1(1-3) s2 Cons.prems(3) x by (simp add: ret_def)
qed

text \<open>C23. Launching green threads always succeeds on lcores that run a scheduler. As long as fewer than
  65,536 have been launched since the start, their ids are all distinct, are told apart from those of
  native threads, and carry the lcore in their low half.\<close>

theorem green_launches:
  assumes "spawn_ok (el_lenv L) (lts s)" "\<forall>(f, a, c)\<in>set ls. green_ok L c s" "\<And>l. el_new L l \<noteq> NULL" "el_spawner L \<noteq> NULL"
    and "subtid s = of_nat n" "0 < n" "n + length ls \<le> 65536"
  shows "\<exists>ts s'. launch_all L ls s = Some (Return ts, s') \<and> length ts = length ls \<and> distinct ts \<and>
    map gt_tid (green_threads s') = map gt_tid (green_threads s) @ ts \<and> (\<forall>t\<in>set ts. ssn_tid_is_green_thread t) \<and>
    map (\<lambda>t. unat t mod 65536) ts = map (\<lambda>(f, a, c). c) ls"
proof -
  obtain s' where s': "launch_all L ls s = Some (Return (launch_tids n ls), s')" "map gt_tid (green_threads s') = map gt_tid (green_threads s) @ launch_tids n ls"
    using launch_all_ok [OF assms(1,2,3,4,5)] by blast
  let ?c = "\<lambda>i. snd (snd (ls ! i))"
  have c: "?c i < 65536" if "i < length ls" for i
    using assms(2) nth_mem [OF that] by (cases "ls ! i") (auto simp: green_ok_def)
  have B: "unat (launch_tids n ls ! i) = ?c i + (n + i) * 65536" "ssn_tid_is_green_thread (launch_tids n ls ! i)" if "i < length ls" for i
    using green_tid_bits [OF c [OF that], of "n + i"] that assms(6,7) by (simp_all add: launch_tids_def)
  have "distinct (launch_tids n ls)"
    unfolding distinct_conv_nth
  proof (intro allI impI)
    fix i j assume ij: "i < length (launch_tids n ls)" "j < length (launch_tids n ls)" "i \<noteq> j"
    then have l: "i < length ls" "j < length ls" by (simp_all add: launch_tids_def)
    have d: "x < 65536 \<Longrightarrow> (x + m * 65536) div 65536 = m" for x m :: nat by simp
    have "(?c i + (n + i) * 65536) div 65536 = n + i" "(?c j + (n + j) * 65536) div 65536 = n + j"
      by (rule d [OF c [OF l(1)]], rule d [OF c [OF l(2)]])
    then show "launch_tids n ls ! i \<noteq> launch_tids n ls ! j" using B(1) [OF l(1)] B(1) [OF l(2)] ij(3) by (metis add_left_cancel)
  qed
  moreover have "\<forall>t\<in>set (launch_tids n ls). ssn_tid_is_green_thread t" using B(2) by (auto simp: in_set_conv_nth launch_tids_def)
  moreover have "map (\<lambda>t. unat t mod 65536) (launch_tids n ls) = map (\<lambda>(f, a, c). c) ls"
  proof (rule nth_equalityI)
    show l: "length (map (\<lambda>t. unat t mod 65536) (launch_tids n ls)) = length (map (\<lambda>(f, a, c). c) ls)" by (simp add: launch_tids_def)
    fix i assume "i < length (map (\<lambda>t. unat t mod 65536) (launch_tids n ls))"
    then have i: "i < length ls" using l by simp
    have m: "x < 65536 \<Longrightarrow> (x + k * 65536) mod 65536 = x" for x k :: nat by simp
    have "unat (launch_tids n ls ! i) mod 65536 = ?c i" unfolding B(1) [OF i] by (rule m [OF c [OF i]])
    then show "map (\<lambda>t. unat t mod 65536) (launch_tids n ls) ! i = map (\<lambda>(f, a, c). c) ls ! i"
      using i l by (simp add: case_prod_beta)
  qed
  ultimately show ?thesis using s' by (intro exI [of _ "launch_tids n ls"] exI [of _ s']) (simp add: launch_tids_def)
qed

text \<open>The next launch after that gets the plain lcore number: an id of a native thread.\<close>

lemma green_tid_wraps:
  assumes "spawn_ok (el_lenv L) (lts s)" "green_ok L c s" "\<And>l. el_new L l \<noteq> NULL" "el_spawner L \<noteq> NULL" "subtid s = 65536"
  shows "\<exists>s'. ssn_thread_launch L f arg c s = Some (Return (of_nat c), s') \<and> \<not> ssn_tid_is_green_thread (of_nat c)"
proof -
  have "push_bit 16 (65536 :: u32) = 0" by (simp add: push_bit_eq_mult)
  moreover have "\<not> ssn_tid_is_green_thread (of_nat c)" using assms(2) green_tid_bits(2) [of c 0] by (simp add: green_ok_def)
  ultimately show ?thesis using green_launch_ok [OF assms(1-4), of f arg] assms(5) by auto
qed

text \<open>A machine of two lcores for the witnesses: lcore 1 runs green threads.\<close>

definition demo_launch :: "unit eal_launch" where
  "demo_launch = \<lparr>el_launch = (\<lambda>_ e. Some e), el_wait = (\<lambda>_ e. Some e), el_state = (\<lambda>_ _. RTE_FINISHED), el_count = 2, el_new = (\<lambda>_. 300),
     el_lenv = demo_env, el_spawner = 5, el_master = 6\<rparr>"

definition demo_threads :: "unit ssn_sys" where
  "demo_threads = \<lparr>lcores = [SSN_LS_WAIT, SSN_LS_RUNNING_GREEN], eal_state = (), snt = (\<lambda>i. if i < 2 then Some \<lparr>nt_f = 0, nt_arg = 0\<rparr> else None),
     tids = [], green_threads = [], subtid = 1, dummy_running = (\<lambda>_. False), lts = spawn_sys\<rparr>"

theorem green_launches_witness:
  "\<exists>t1 t2 s'. launch_all demo_launch [(7, 8, 1), (7, 9, 1)] demo_threads = Some (Return [t1, t2], s') \<and> t1 \<noteq> t2 \<and>
    ssn_tid_is_green_thread t1 \<and> ssn_tid_is_green_thread t2"
proof -
  have "spawn_ok (el_lenv demo_launch) (lts demo_threads)" "green_ok demo_launch 1 demo_threads" "subtid demo_threads = of_nat 1"
    using spawn_sys_ok by (simp_all add: demo_launch_def demo_threads_def green_ok_def)
  then show ?thesis
    using green_launches [of demo_launch demo_threads "[(7, 8, 1), (7, 9, 1)]" 1]
    by (auto simp: demo_launch_def length_Suc_conv numeral_2_eq_2)
qed

end
