(* ===== verification/Dpdk_Api.thy ===== *)
theory Dpdk_Api
  imports Susanow_Prelude
begin

section \<open>The parts of DPDK the sources call\<close>

text \<open>
  DPDK is not part of the repository. What the drivers and the NFVI use of it is a parameter of the
  model: records of functions, with predicates that state the documented behaviour the code relies
  on. The instances at the end of the theory show that the predicates can hold; the witnesses use
  them, no definition of the model does.
\<close>

text \<open>A packet buffer: identity, length and input port.\<close>

record mbuf =
  mb_id :: nat
  mb_len :: u32
  mb_port :: u8

subsection \<open>\<open>rte_ring\<close>\<close>

text \<open>\<open>ra_enq\<close> and \<open>ra_deq\<close> are the burst calls; \<open>ra_items\<close> is what the ring holds, oldest first.\<close>

record ('r, 'a) ring_api =
  ra_enq :: "'r \<Rightarrow> 'a list \<Rightarrow> nat \<times> 'r"
  ra_deq :: "'r \<Rightarrow> nat \<Rightarrow> 'a list \<times> 'r"
  ra_items :: "'r \<Rightarrow> 'a list"

definition ring_laws :: "('r, 'a) ring_api \<Rightarrow> bool" where
  "ring_laws R \<longleftrightarrow>
     (\<forall>r xs k r'. ra_enq R r xs = (k, r') \<longrightarrow> k \<le> length xs \<and> ra_items R r' = ra_items R r @ take k xs) \<and>
     (\<forall>r n ys r'. ra_deq R r n = (ys, r') \<longrightarrow> length ys = min n (length (ra_items R r)) \<and>
        ra_items R r = ys @ ra_items R r')"

lemma ring_enq:
  assumes "ring_laws R" "ra_enq R r xs = (k, r')"
  shows "k \<le> length xs" "ra_items R r' = ra_items R r @ take k xs"
  using assms unfolding ring_laws_def by blast+

lemma ring_deq:
  assumes "ring_laws R" "ra_deq R r n = (ys, r')"
  shows "length ys = min n (length (ra_items R r))" "ra_items R r = ys @ ra_items R r'"
    "ys = take n (ra_items R r)" "ra_items R r' = drop n (ra_items R r)"
proof -
  show l: "length ys = min n (length (ra_items R r))" and i: "ra_items R r = ys @ ra_items R r'"
    using assms unfolding ring_laws_def by blast+
  have "take (length ys) (ra_items R r) = ys" "drop (length ys) (ra_items R r) = ra_items R r'"
    by (subst i; simp)+
  then show "ys = take n (ra_items R r)" "ra_items R r' = drop n (ra_items R r)"
    using l by (auto simp: min_def split: if_splits)
qed

subsection \<open>The environment of a poll-mode driver\<close>

text \<open>
  The services of the environment abstraction layer over its own state \<open>'w\<close>: named rings,
  zeroed memory blocks, and the table of Ethernet devices. Address \<open>0\<close> is the NULL result.
\<close>

record 'w eal =
  ring_create :: "string \<Rightarrow> 'w \<Rightarrow> addr \<times> 'w"
  ring_lookup :: "string \<Rightarrow> 'w \<Rightarrow> addr"
  zmalloc :: "'w \<Rightarrow> addr \<times> 'w"
  mfree :: "addr \<Rightarrow> 'w \<Rightarrow> 'w"
  dev_allocate :: "string \<Rightarrow> 'w \<Rightarrow> (addr \<times> nat) option \<times> 'w"
  dev_allocated :: "string \<Rightarrow> 'w \<Rightarrow> addr"
  dev_release :: "addr \<Rightarrow> 'w \<Rightarrow> 'w"
  blocks :: "'w \<Rightarrow> addr set"      \<comment> \<open>the blocks in use\<close>
  socket_id :: nat
  ring_namesize :: nat

text \<open>A name becomes bound to an address that no name had.\<close>

definition binds :: "(string \<Rightarrow> 'w \<Rightarrow> addr) \<Rightarrow> string \<Rightarrow> addr \<Rightarrow> 'w \<Rightarrow> 'w \<Rightarrow> bool" where
  "binds look n a w w' \<longleftrightarrow> look n w = NULL \<and> (\<forall>m. look m w \<noteq> a) \<and> (\<forall>m. look m w' = (if m = n then a else look m w))"

definition same_rings :: "'w eal \<Rightarrow> 'w \<Rightarrow> 'w \<Rightarrow> bool" where
  "same_rings E w w' \<longleftrightarrow> (\<forall>m. ring_lookup E m w' = ring_lookup E m w)"

definition same_devs :: "'w eal \<Rightarrow> 'w \<Rightarrow> 'w \<Rightarrow> bool" where
  "same_devs E w w' \<longleftrightarrow> (\<forall>m. dev_allocated E m w' = dev_allocated E m w)"

definition same_blocks :: "'w eal \<Rightarrow> 'w \<Rightarrow> 'w \<Rightarrow> bool" where
  "same_blocks E w w' \<longleftrightarrow> blocks E w' = blocks E w"

text \<open>The documented behaviour: a ring name and a device name can be taken once and are then found;
  a block from \<open>rte_zmalloc_socket\<close> is not one in use, \<open>rte_free\<close> gives it back; no service disturbs
  the tables of the others.\<close>

definition eal_laws :: "'w eal \<Rightarrow> bool" where
  "eal_laws E \<longleftrightarrow>
     (\<forall>n w. let (r, w') = ring_create E n w in same_devs E w w' \<and> same_blocks E w w' \<and>
        (if r = NULL then same_rings E w w' else binds (ring_lookup E) n r w w')) \<and>
     (\<forall>w. let (a, w') = zmalloc E w in same_devs E w w' \<and> same_rings E w w' \<and>
        (if a = NULL then same_blocks E w w' else a \<notin> blocks E w \<and> blocks E w' = insert a (blocks E w))) \<and>
     (\<forall>a w. same_devs E w (mfree E a w) \<and> same_rings E w (mfree E a w) \<and> blocks E (mfree E a w) = blocks E w - {a}) \<and>
     (\<forall>n w. let (d, w') = dev_allocate E n w in same_rings E w w' \<and> same_blocks E w w' \<and>
        (case d of None \<Rightarrow> same_devs E w w' | Some (e, p) \<Rightarrow> e \<noteq> NULL \<and> binds (dev_allocated E) n e w w')) \<and>
     (\<forall>d w. same_rings E w (dev_release E d w) \<and> same_blocks E w (dev_release E d w) \<and>
        (\<forall>m. dev_allocated E m (dev_release E d w) = (if dev_allocated E m w = d then NULL else dev_allocated E m w)))"

lemma eal_create:
  assumes "eal_laws E" "ring_create E n w = (r, w')"
  shows "same_devs E w w'" "same_blocks E w w'" "r = NULL \<Longrightarrow> same_rings E w w'"
    "r \<noteq> NULL \<Longrightarrow> binds (ring_lookup E) n r w w'"
  using assms(1) [unfolded eal_laws_def, THEN conjunct1, rule_format, of n w] assms(2) by (simp_all split: if_splits)

lemma eal_zmalloc:
  assumes "eal_laws E" "zmalloc E w = (a, w')"
  shows "same_devs E w w'" "same_rings E w w'" "a = NULL \<Longrightarrow> same_blocks E w w'"
    "a \<noteq> NULL \<Longrightarrow> a \<notin> blocks E w \<and> blocks E w' = insert a (blocks E w)"
  using assms(1) [unfolded eal_laws_def, THEN conjunct2, THEN conjunct1, rule_format, of w] assms(2)
  by (simp_all split: if_splits)

lemma eal_free:
  assumes "eal_laws E"
  shows "same_devs E w (mfree E a w)" "same_rings E w (mfree E a w)" "blocks E (mfree E a w) = blocks E w - {a}"
  using assms [unfolded eal_laws_def, THEN conjunct2, THEN conjunct2, THEN conjunct1, rule_format, of w a] by simp_all

lemma eal_dev:
  assumes "eal_laws E" "dev_allocate E n w = (d, w')"
  shows "same_rings E w w'" "same_blocks E w w'" "d = None \<Longrightarrow> same_devs E w w'"
    "d = Some (e, p) \<Longrightarrow> e \<noteq> NULL \<and> binds (dev_allocated E) n e w w'"
  using assms(1) [unfolded eal_laws_def, THEN conjunct2, THEN conjunct2, THEN conjunct2, THEN conjunct1, rule_format, of n w] assms(2)
  by (auto split: option.splits)

lemma eal_release:
  assumes "eal_laws E"
  shows "same_rings E w (dev_release E d w)" "same_blocks E w (dev_release E d w)"
    "dev_allocated E m (dev_release E d w) = (if dev_allocated E m w = d then NULL else dev_allocated E m w)"
  using assms [unfolded eal_laws_def, THEN conjunct2, THEN conjunct2, THEN conjunct2, THEN conjunct2, rule_format, of w d] by simp_all

subsection \<open>Ethernet devices as an application sees them\<close>

text \<open>The calls on a port over a hardware state \<open>'h\<close>; \<open>eth_configure\<close> is \<open>dpdk::port_configure\<close>,
  whose failure is an exception (\<open>False\<close>).\<close>

datatype rss_flag = ETH_RSS_IP | ETH_RSS_TCP | ETH_RSS_UDP

record port_conf =
  mq_rss :: bool
  rss_key :: addr
  rss_hf :: "rss_flag set"

record 'h eth_api =
  eth_valid :: "nat \<Rightarrow> 'h \<Rightarrow> bool"
  eth_rx_burst :: "nat \<Rightarrow> nat \<Rightarrow> nat \<Rightarrow> 'h \<Rightarrow> mbuf list \<times> 'h"
  eth_tx_burst :: "nat \<Rightarrow> nat \<Rightarrow> mbuf list \<Rightarrow> 'h \<Rightarrow> nat \<times> 'h"
  eth_link_up :: "nat \<Rightarrow> 'h \<Rightarrow> 'h"
  eth_link_down :: "nat \<Rightarrow> 'h \<Rightarrow> 'h"
  eth_promisc_on :: "nat \<Rightarrow> 'h \<Rightarrow> 'h"
  eth_promisc_off :: "nat \<Rightarrow> 'h \<Rightarrow> 'h"
  eth_start :: "nat \<Rightarrow> 'h \<Rightarrow> 'h"
  eth_stop :: "nat \<Rightarrow> 'h \<Rightarrow> 'h"
  eth_configure :: "nat \<Rightarrow> nat \<Rightarrow> nat \<Rightarrow> port_conf \<Rightarrow> addr \<Rightarrow> 'h \<Rightarrow> bool \<times> 'h"
  eth_init_conf :: port_conf

subsection \<open>Instances\<close>

definition list_ring :: "nat \<Rightarrow> ('a list, 'a) ring_api" where
  "list_ring cap = \<lparr>ra_enq = (\<lambda>r xs. let k = min (length xs) (cap - length r) in (k, r @ take k xs)),
     ra_deq = (\<lambda>r n. (take n r, drop n r)), ra_items = (\<lambda>r. r)\<rparr>"

lemma list_ring_laws: "ring_laws (list_ring cap)"
  by (auto simp: ring_laws_def list_ring_def Let_def min.commute)

text \<open>An environment that never runs out: a counter above every address, the blocks in use, the
  named rings and the named devices.\<close>

type_synonym demo_world = "nat \<times> addr list \<times> (string \<times> addr) list \<times> (string \<times> addr) list"

definition assoc :: "string \<Rightarrow> (string \<times> addr) list \<Rightarrow> addr" where
  "assoc n l = (case map_of l n of None \<Rightarrow> NULL | Some a \<Rightarrow> a)"

definition next_addr :: "demo_world \<Rightarrow> addr" where
  "next_addr = (\<lambda>(c, bs, rs, ds). Suc (fold max (bs @ map snd rs @ map snd ds) c))"

definition demo_eal :: "demo_world eal" where
  "demo_eal = \<lparr>
     ring_create = (\<lambda>n (c, bs, rs, ds). if assoc n rs \<noteq> NULL then (NULL, c, bs, rs, ds)
        else (next_addr (c, bs, rs, ds), c, bs, (n, next_addr (c, bs, rs, ds)) # rs, ds)),
     ring_lookup = (\<lambda>n (c, bs, rs, ds). assoc n rs),
     zmalloc = (\<lambda>(c, bs, rs, ds). (next_addr (c, bs, rs, ds), c, next_addr (c, bs, rs, ds) # bs, rs, ds)),
     mfree = (\<lambda>a (c, bs, rs, ds). (c, filter (\<lambda>b. b \<noteq> a) bs, rs, ds)),
     dev_allocate = (\<lambda>n (c, bs, rs, ds). if assoc n ds \<noteq> NULL then (None, c, bs, rs, ds)
        else (Some (next_addr (c, bs, rs, ds), length ds), c, bs, rs, (n, next_addr (c, bs, rs, ds)) # ds)),
     dev_allocated = (\<lambda>n (c, bs, rs, ds). assoc n ds),
     dev_release = (\<lambda>a (c, bs, rs, ds). (c, bs, rs, map (\<lambda>(n, b). (n, if b = a then NULL else b)) ds)),
     blocks = (\<lambda>(c, bs, rs, ds). set bs), socket_id = 0, ring_namesize = 29\<rparr>"

lemma fold_max_ge: "c \<le> fold max xs (c::nat) \<and> (\<forall>x\<in>set xs. x \<le> fold max xs c)"
proof (induction xs arbitrary: c)
  case (Cons x xs)
  have "max x c \<le> fold max xs (max x c)" "\<forall>y\<in>set xs. y \<le> fold max xs (max x c)"
    using Cons.IH [of "max x c"] by simp_all
  then show ?case by auto
qed simp

lemma next_fresh: "a \<in> set bs \<Longrightarrow> next_addr (c, bs, rs, ds) \<noteq> a" "next_addr (c, bs, rs, ds) \<noteq> assoc m rs" "next_addr (c, bs, rs, ds) \<noteq> assoc m ds"
  "0 < next_addr (c, bs, rs, ds)"
proof -
  have lt: "x < next_addr (c, bs, rs, ds)" if "x \<in> set (bs @ map snd rs @ map snd ds)" for x
    using fold_max_ge that unfolding next_addr_def by (simp del: fold_append set_append add: less_Suc_eq_le)
  show "0 < next_addr (c, bs, rs, ds)" by (simp add: next_addr_def)
  then have as: "assoc m l < next_addr (c, bs, rs, ds)" if "set (map snd l) \<subseteq> set (bs @ map snd rs @ map snd ds)" for l
  proof (cases "map_of l m")
    case (Some a)
    then have "a \<in> set (map snd l)" by (force dest: map_of_SomeD)
    then have "a < next_addr (c, bs, rs, ds)" by (rule lt [OF subsetD [OF that]])
    then show ?thesis using Some by (simp add: assoc_def)
  qed (simp add: assoc_def)
  show "a \<in> set bs \<Longrightarrow> next_addr (c, bs, rs, ds) \<noteq> a" using lt [of a] by auto
  show "next_addr (c, bs, rs, ds) \<noteq> assoc m rs" "next_addr (c, bs, rs, ds) \<noteq> assoc m ds"
    using as [of rs, THEN less_imp_neq] as [of ds, THEN less_imp_neq] by (metis Un_upper1 Un_upper2 le_supI2 set_append)+
qed

lemma assoc_Cons: "assoc m ((n, a) # l) = (if m = n then a else assoc m l)"
  by (simp add: assoc_def)

lemma assoc_map: "assoc m (map (\<lambda>(n, b). (n, if b = a then NULL else b)) l) = (if assoc m l = a then NULL else assoc m l)"
  by (induction l) (auto simp: assoc_def)

lemma demo_eal_laws: "eal_laws demo_eal"
  unfolding eal_laws_def
  by (auto simp: demo_eal_def binds_def same_rings_def same_devs_def same_blocks_def assoc_Cons assoc_map next_fresh
      next_fresh(2,3) [symmetric] next_fresh(4) [THEN gr_implies_not0] dest: next_fresh(1))

text \<open>A network card that hands out one packet per receive call, logs the queue asked, and sends all.\<close>

definition demo_eth :: "(nat \<times> nat) list eth_api" where
  "demo_eth = \<lparr>eth_valid = (\<lambda>p h. p < 2), eth_rx_burst = (\<lambda>p q n h. ([\<lparr>mb_id = q, mb_len = 60, mb_port = 0\<rparr>], (p, q) # h)),
     eth_tx_burst = (\<lambda>p q ms h. (length ms, (p, q) # h)), eth_link_up = (\<lambda>p h. h), eth_link_down = (\<lambda>p h. h),
     eth_promisc_on = (\<lambda>p h. h), eth_promisc_off = (\<lambda>p h. h), eth_start = (\<lambda>p h. h), eth_stop = (\<lambda>p h. h),
     eth_configure = (\<lambda>p r t c mp h. (True, h)), eth_init_conf = \<lparr>mq_rss = False, rss_key = 0, rss_hf = {}\<rparr>\<rparr>"

end
