(* ===== verification/Ssn_Misc.thy ===== *)
theory Ssn_Misc
  imports Ssn_Threads Dpdk_Api
begin

section \<open>Rings, configuration, log, and the command line (lib/libsusanow)\<close>

text \<open>
  Four small parts of the library: the named ring with its counters (ssn_ring), the configuration
  file (ssn_config), the log and its level (ssn_log), and the commands of the terminal (ssn_vty);
  and the calls that a thread makes to wait (\<open>ssn_sleep\<close>, \<open>ssn_yield\<close>). \<open>rte_ring\<close>, \<open>rte_cfgfile\<close> and
  the terminal server are parameters.
\<close>

subsection \<open>ssn_sleep and ssn_yield\<close>

text \<open>The call to the lthread scheduler, if the lcore runs one; otherwise \<open>usleep\<close>, or nothing.\<close>

definition ssn_sleep :: "nat \<Rightarrow> u64 \<Rightarrow> ('e, api option) top" where
  "ssn_sleep lcore msec = bnd (ssn_lcoreid_is_green_thread lcore) (\<lambda>g. ret (if g then Some (Sleep (msec * 1000000)) else None))"

definition ssn_yield :: "nat \<Rightarrow> ('e, api option) top" where
  "ssn_yield lcore = bnd (ssn_lcoreid_is_green_thread lcore) (\<lambda>g. ret (if g then Some Yield else None))"

subsection \<open>The scheduler of an lcore that runs green threads\<close>

text \<open>\<open>_green_thread_master\<close> starts the scheduler with one thread, \<open>_green_thread_dummy\<close>, which sleeps 100 ms at a
  time until its flag is cleared: here after \<open>n\<close> rounds. \<open>lt\<close> is the local variable it keeps the thread in.\<close>

fun green_thread_dummy :: "nat \<Rightarrow> prog" where
  "green_thread_dummy 0 = Done"
| "green_thread_dummy (Suc n) = Call (Sleep (100 * 1000000)) (\<lambda>_. Call Yield (\<lambda>_. green_thread_dummy n))"

definition green_thread_master :: "lenv \<Rightarrow> destructors \<Rightarrow> (lsys \<Rightarrow> addr list) \<Rightarrow> addr \<Rightarrow> addr \<Rightarrow> nat \<Rightarrow> lsys \<Rightarrow> lsys option" where
  "green_thread_master E D exp dummy lt lcore_id s =
     (case lthread_create E (Some lt) (int lcore_id) (User_fun dummy) NULL s of
       None \<Rightarrow> None | Some (r, s) \<Rightarrow> lthread_run E D exp s)"

subsection \<open>ssn_ring\<close>

text \<open>The counters are not initialised: \<open>junk\<close> is what the memory held. A ring that could not be
  created is NULL, here \<open>None\<close>.\<close>

record 'r ssn_ring =
  sr_ring :: "'r option"
  sr_ipacket :: u64
  sr_opacket :: u64
  sr_ipacket_prev :: u64
  sr_opacket_prev :: u64
  sr_ipps :: u64
  sr_opps :: u64

record 'r ring_objs =
  ro_rings :: "addr list"
  ro_mem :: "addr \<rightharpoonup> 'r ssn_ring"

definition new_ssn_ring :: "'r option \<Rightarrow> 'r ssn_ring \<Rightarrow> addr \<Rightarrow> 'r ring_objs \<Rightarrow> 'r ring_objs" where
  "new_ssn_ring r junk this s = s\<lparr>ro_rings := ro_rings s @ [this], ro_mem := (ro_mem s)(this \<mapsto> junk\<lparr>sr_ring := r\<rparr>)\<rparr>"

definition delete_ssn_ring :: "addr \<Rightarrow> 'r ring_objs \<Rightarrow> 'r ring_objs" where
  "delete_ssn_ring this s =
     (let s = s\<lparr>ro_mem := (ro_mem s)(this := None)\<rparr> in
      case find_index (\<lambda>p. p = this) (ro_rings s) of Some i \<Rightarrow> s\<lparr>ro_rings := erase_at i (ro_rings s)\<rparr> | None \<Rightarrow> s)"

definition ENOBUFS :: int where "ENOBUFS = 105"

text \<open>\<open>enq\<close> and \<open>enq_burst\<close> count what is offered, \<open>deq\<close> and \<open>deq_burst\<close> what is delivered.\<close>

definition enq :: "('r, 'a) ring_api \<Rightarrow> 'a \<Rightarrow> 'r ssn_ring \<Rightarrow> (int \<times> 'r ssn_ring) option" where
  "enq R x S = (case sr_ring S of None \<Rightarrow> None | Some r \<Rightarrow>
     let (k, r) = ra_enq R r [x] in
     Some (if k = 1 then 0 else - ENOBUFS, S\<lparr>sr_ring := Some r, sr_ipacket := sr_ipacket S + 1\<rparr>))"

definition deq :: "('r, 'a) ring_api \<Rightarrow> 'r ssn_ring \<Rightarrow> (int \<times> 'a option \<times> 'r ssn_ring) option" where
  "deq R S = (case sr_ring S of None \<Rightarrow> None | Some r \<Rightarrow>
     case ra_deq R r 1 of
       ([], r) \<Rightarrow> Some (-1, None, S\<lparr>sr_ring := Some r\<rparr>)
     | (x # _, r) \<Rightarrow> Some (0, Some x, S\<lparr>sr_ring := Some r, sr_opacket := sr_opacket S + 1\<rparr>))"

definition enq_burst :: "('r, 'a) ring_api \<Rightarrow> 'a list \<Rightarrow> 'r ssn_ring \<Rightarrow> (nat \<times> 'r ssn_ring) option" where
  "enq_burst R xs S = (case sr_ring S of None \<Rightarrow> None | Some r \<Rightarrow>
     let (k, r) = ra_enq R r xs in Some (k, S\<lparr>sr_ring := Some r, sr_ipacket := sr_ipacket S + of_nat (length xs)\<rparr>))"

definition deq_burst :: "('r, 'a) ring_api \<Rightarrow> nat \<Rightarrow> 'r ssn_ring \<Rightarrow> ('a list \<times> 'r ssn_ring) option" where
  "deq_burst R n S = (case sr_ring S of None \<Rightarrow> None | Some r \<Rightarrow>
     let (ys, r) = ra_deq R r n in Some (ys, S\<lparr>sr_ring := Some r, sr_opacket := sr_opacket S + of_nat (length ys)\<rparr>))"

definition ring_stats :: "'r ssn_ring \<Rightarrow> 'r ssn_ring" where
  "ring_stats S = S\<lparr>sr_ipps := sr_ipacket S - sr_ipacket_prev S, sr_opps := sr_opacket S - sr_opacket_prev S,
     sr_ipacket_prev := sr_ipacket S, sr_opacket_prev := sr_opacket S\<rparr>"

fun ring_stats_all :: "addr list \<Rightarrow> (addr \<rightharpoonup> 'r ssn_ring) \<Rightarrow> (addr \<rightharpoonup> 'r ssn_ring) option" where
  "ring_stats_all [] m = Some m"
| "ring_stats_all (p # ps) m = (case m p of None \<Rightarrow> None | Some S \<Rightarrow> ring_stats_all ps (m(p \<mapsto> ring_stats S)))"

definition ssn_ring_getstats_timer_cb :: "'r ring_objs \<Rightarrow> 'r ring_objs option" where
  "ssn_ring_getstats_timer_cb s = map_option (\<lambda>m. s\<lparr>ro_mem := m\<rparr>) (ring_stats_all (ro_rings s) (ro_mem s))"

text \<open>Deleting a ring takes it off the list, so the callback follows no dangling pointer.\<close>

definition rings_live :: "'r ring_objs \<Rightarrow> bool" where
  "rings_live s \<longleftrightarrow> distinct (ro_rings s) \<and> set (ro_rings s) = dom (ro_mem s)"

lemma rings_live_new: "rings_live s \<Longrightarrow> ro_mem s p = None \<Longrightarrow> rings_live (new_ssn_ring r junk p s)"
  by (auto simp: rings_live_def new_ssn_ring_def)

lemma erase_found: "distinct xs \<Longrightarrow> find_index (\<lambda>x. x = v) xs = Some i \<Longrightarrow> distinct (erase_at i xs) \<and> set (erase_at i xs) = set xs - {v}"
proof (induction xs arbitrary: i)
  case (Cons x xs)
  show ?case
  proof (cases "x = v")
    case False
    then obtain j where "find_index (\<lambda>x. x = v) xs = Some j" "i = Suc j" using Cons.prems by auto
    then show ?thesis using Cons False by auto
  qed (use Cons.prems in auto)
qed simp

lemma rings_live_delete: "rings_live s \<Longrightarrow> rings_live (delete_ssn_ring p s)"
  using erase_found [of "ro_rings s" p]
  by (auto simp: rings_live_def delete_ssn_ring_def Let_def find_index_None split: option.splits)

lemma ring_stats_all_ok: "set ps \<subseteq> dom m \<Longrightarrow> \<exists>m'. ring_stats_all ps m = Some m' \<and> dom m' = dom m"
proof (induction ps arbitrary: m)
  case (Cons p ps)
  then obtain S where S: "m p = Some S" by auto
  then have D: "dom (m(p \<mapsto> ring_stats S)) = dom m" by auto
  then have "set ps \<subseteq> dom (m(p \<mapsto> ring_stats S))" using Cons.prems by auto
  from Cons.IH [OF this] obtain m' where "ring_stats_all ps (m(p \<mapsto> ring_stats S)) = Some m'" "dom m' = dom m"
    unfolding D by blast
  then show ?case using S by auto
qed simp

lemma getstats_ok: "rings_live s \<Longrightarrow> \<exists>t. ssn_ring_getstats_timer_cb s = Some t \<and> rings_live t"
  using ring_stats_all_ok [of "ro_rings s" "ro_mem s"] by (auto simp: rings_live_def ssn_ring_getstats_timer_cb_def)

text \<open>The input counter runs ahead by what the full ring refuses.\<close>

lemma enq_burst_counts:
  assumes "ring_laws R" "enq_burst R xs S = Some (k, S')" "sr_ring S = Some r"
  shows "\<exists>r'. sr_ring S' = Some r' \<and> ra_items R r' = ra_items R r @ take k xs \<and> k \<le> length xs \<and> sr_ipacket S' = sr_ipacket S + of_nat (length xs)"
  using assms ring_enq [OF assms(1)] by (auto simp: enq_burst_def split: prod.splits)

subsection \<open>ssn_config\<close>

text \<open>The calls of \<open>rte_cfgfile\<close>: \<open>None\<close> is the NULL or the negative value the call returns when it fails.\<close>

record ('c, 'f) cfg_api =
  cf_load :: "string \<Rightarrow> 'f \<Rightarrow> 'c option"
  cf_num_sections :: "'c \<Rightarrow> nat"
  cf_sections :: "'c \<Rightarrow> string list option"
  cf_num_entries :: "'c \<Rightarrow> string \<Rightarrow> nat"
  cf_entries :: "'c \<Rightarrow> string \<Rightarrow> (string \<times> string) list option"
  cf_get_entry :: "'c option \<Rightarrow> string \<Rightarrow> string \<Rightarrow> string option"

type_synonym ssn_config_entry = "string \<times> string"

record ssn_config_section =
  cs_name :: string
  cs_entries :: "ssn_config_entry list"

record 'c ssn_config =
  co_cfg :: "'c option"
  co_sections :: "ssn_config_section list"

datatype cfg_error = Already_loaded | Cfgfile_load | Cfgfile_sections | Cfgfile_get_entry

definition new_ssn_config :: "'c ssn_config" where
  "new_ssn_config = \<lparr>co_cfg = None, co_sections = []\<rparr>"

definition resize :: "nat \<Rightarrow> 'a \<Rightarrow> 'a list \<Rightarrow> 'a list" where
  "resize n d xs = take n xs @ replicate (n - length xs) d"

text \<open>The loop over the sections stops with an exception at the first whose entries cannot be read; that one has
  its name and its number of entries, and the ones behind it are as they were.\<close>

fun load_sections :: "('c, 'f) cfg_api \<Rightarrow> 'c \<Rightarrow> nat \<Rightarrow> string list \<Rightarrow> ssn_config_section list \<Rightarrow>
    (cfg_error, unit) outcome \<times> ssn_config_section list" where
  "load_sections F c i [] ss = (Return (), ss)"
| "load_sections F c i (n # ns) ss = (case cf_entries F c n of
     None \<Rightarrow> (Throw Cfgfile_sections, ss[i := \<lparr>cs_name = n, cs_entries = resize (cf_num_entries F c n) ('''', '''') (cs_entries (ss ! i))\<rparr>])
   | Some es \<Rightarrow> load_sections F c (Suc i) ns (ss[i := \<lparr>cs_name = n, cs_entries = es\<rparr>]))"

definition load :: "('c, 'f) cfg_api \<Rightarrow> string \<Rightarrow> 'f \<Rightarrow> ('c ssn_config, cfg_error, unit) op" where
  "load F file fs s = (if co_cfg s \<noteq> None then Some (Throw Already_loaded, s)
     else case cf_load F file fs of
       None \<Rightarrow> Some (Throw Cfgfile_load, s)
     | Some c \<Rightarrow>
         let ss = resize (cf_num_sections F c) \<lparr>cs_name = '''', cs_entries = []\<rparr> (co_sections s) in
         (case cf_sections F c of
           None \<Rightarrow> Some (Throw Cfgfile_sections, \<lparr>co_cfg = Some c, co_sections = ss\<rparr>)
         | Some ns \<Rightarrow> let (r, ss) = load_sections F c 0 ns ss in Some (r, \<lparr>co_cfg = Some c, co_sections = ss\<rparr>)))"

definition get_entry :: "('c, 'f) cfg_api \<Rightarrow> string \<Rightarrow> string \<Rightarrow> ('c ssn_config, cfg_error, string) op" where
  "get_entry F sec ent s = (case cf_get_entry F (co_cfg s) sec ent of
     None \<Rightarrow> Some (Throw Cfgfile_get_entry, s) | Some v \<Rightarrow> Some (Return v, s))"

definition close :: "'c ssn_config \<Rightarrow> 'c ssn_config" where
  "close s = s\<lparr>co_cfg := None\<rparr>"

text \<open>After a load without exception the sections are those of the file, whatever the object held before; after a
  failed one the file counts as loaded, and the next \<open>load\<close> throws until \<open>close\<close>.\<close>

definition section_of :: "('c, 'f) cfg_api \<Rightarrow> 'c \<Rightarrow> string \<Rightarrow> ssn_config_section" where
  "section_of F c n = \<lparr>cs_name = n, cs_entries = the (cf_entries F c n)\<rparr>"

lemma load_sections_ok:
  "\<forall>n\<in>set ns. cf_entries F c n \<noteq> None \<Longrightarrow> length ss = i + length ns \<Longrightarrow>
     load_sections F c i ns ss = (Return (), take i ss @ map (section_of F c) ns)"
proof (induction ns arbitrary: i ss)
  case (Cons n ns)
  then obtain es where es: "cf_entries F c n = Some es" by auto
  have "take (Suc i) (ss[i := \<lparr>cs_name = n, cs_entries = es\<rparr>]) = take i ss @ [\<lparr>cs_name = n, cs_entries = es\<rparr>]"
    using Cons.prems(2) by (simp add: take_Suc_conv_app_nth)
  then show ?case using Cons.IH [of "ss[i := \<lparr>cs_name = n, cs_entries = es\<rparr>]" "Suc i"] Cons.prems es
    by (simp add: section_of_def)
qed simp

lemma load_ok:
  assumes "co_cfg s = None" "cf_load F file fs = Some c" "cf_sections F c = Some ns" "length ns = cf_num_sections F c"
    "\<forall>n\<in>set ns. cf_entries F c n \<noteq> None"
  shows "load F file fs s = Some (Return (), \<lparr>co_cfg = Some c, co_sections = map (section_of F c) ns\<rparr>)"
  using assms load_sections_ok [of ns F c "resize (length ns) \<lparr>cs_name = '''', cs_entries = []\<rparr> (co_sections s)" 0]
  by (simp add: load_def resize_def)

lemma load_sections_split:
  "fst (load_sections F c i ns ss) = (if \<forall>n\<in>set ns. cf_entries F c n \<noteq> None then Return () else Throw Cfgfile_sections)"
  by (induction ns arbitrary: i ss) (auto split: option.splits)

text \<open>A load returns exactly when the file, the list of its sections and the entries of each could be read.\<close>

lemma load_returns:
  "(\<exists>t. load F file fs s = Some (Return (), t)) \<longleftrightarrow>
     co_cfg s = None \<and> (\<exists>c ns. cf_load F file fs = Some c \<and> cf_sections F c = Some ns \<and> (\<forall>n\<in>set ns. cf_entries F c n \<noteq> None))"
  by (auto simp: load_def Let_def split_beta load_sections_split split: option.splits if_splits)

lemma load_once: "cf_load F file fs = Some c \<Longrightarrow> load F file fs s = Some (r, t) \<Longrightarrow> load F file' fs' t = Some (Throw Already_loaded, t)"
  by (auto simp: load_def Let_def split_beta split: option.splits if_splits)

subsection \<open>ssn_log\<close>

text \<open>Levels are numbers, as any value can be cast to the enumeration.\<close>

definition ssn_log_level2str :: "nat \<Rightarrow> string option" where
  "ssn_log_level2str e = (if e = 1 then Some ''EMERG'' else if e = 2 then Some ''ALERT'' else if e = 3 then Some ''CRIT'' else if e = 4 then Some ''ERR''
     else if e = 5 then Some ''WARN'' else if e = 6 then Some ''NOTICE'' else if e = 7 then Some ''INFO'' else if e = 8 then Some ''DEBUG'' else None)"

record log_state =
  lo_level :: nat
  lo_rte_level :: nat
  lo_out :: string

datatype log_error = Unknown_level nat

definition ssn_log :: "nat \<Rightarrow> string \<Rightarrow> (log_state, log_error, unit) op" where
  "ssn_log lv text = bnd (gets lo_level) (\<lambda>l. if lv \<le> l then
     (case ssn_log_level2str lv of None \<Rightarrow> throw (Unknown_level lv)
      | Some t \<Rightarrow> modify (\<lambda>s. s\<lparr>lo_out := lo_out s @ t @ '': '' @ text\<rparr>)) else ret ())"

definition ssn_log_set_level :: "nat \<Rightarrow> (log_state, log_error, unit) op" where
  "ssn_log_set_level lv = (if lv \<in> {1, 2, 3, 4, 5, 6, 7, 8} then modify (\<lambda>s. s\<lparr>lo_rte_level := lv, lo_level := lv\<rparr>) else throw (Unknown_level lv))"

lemma log_levels: "ssn_log_level2str lv \<noteq> None \<longleftrightarrow> lv \<in> {1, 2, 3, 4, 5, 6, 7, 8}"
  by (simp add: ssn_log_level2str_def)

text \<open>At a level that was set, a message of a level of the enumeration is printed exactly when its level is at most that one.\<close>

lemma log_prints:
  assumes "lv \<in> {1, 2, 3, 4, 5, 6, 7, 8}"
  shows "\<exists>t. ssn_log_level2str lv = Some t \<and> ssn_log lv text s = Some (Return (), if lv \<le> lo_level s then s\<lparr>lo_out := lo_out s @ t @ '': '' @ text\<rparr> else s)"
proof -
  obtain t where "ssn_log_level2str lv = Some t" using assms log_levels [of lv] by blast
  then show ?thesis by (simp add: ssn_log_def bnd_def gets_def modify_def ret_def)
qed

subsection \<open>ssn_vty\<close>

text \<open>A command is a list of nodes and a callback. The server of the terminal is not part of the repository: it
  matches the words, and calls the callback with the words, the terminal and its list of commands.\<close>

datatype vty_node = Node_fixedstring string | Node_string

definition quit_mt :: "vty_node list" where "quit_mt = [Node_fixedstring ''quit'']"
definition clear_mt :: "vty_node list" where "clear_mt = [Node_fixedstring ''clear'']"
definition echo_mt :: "vty_node list" where "echo_mt = [Node_fixedstring ''echo'', Node_string]"
definition list_mt :: "vty_node list" where "list_mt = [Node_fixedstring ''list'']"
definition show_author_mt :: "vty_node list" where "show_author_mt = [Node_fixedstring ''show'', Node_fixedstring ''author'']"
definition show_version_mt :: "vty_node list" where "show_version_mt = [Node_fixedstring ''show'', Node_fixedstring ''version'']"
definition show_cpu_mt :: "vty_node list" where "show_cpu_mt = [Node_fixedstring ''show'', Node_fixedstring ''cpu'']"

record vty_client =
  vc_out :: string
  vc_open :: bool

type_synonym vty_callback = "string list \<Rightarrow> vty_node list list \<Rightarrow> vty_client \<Rightarrow> vty_client"

definition crlf :: string where "crlf = [CHR 0x0D, CHR 0x0A]"

definition Printf :: "string \<Rightarrow> vty_client \<Rightarrow> vty_client" where
  "Printf t sh = sh\<lparr>vc_out := vc_out sh @ t\<rparr>"

definition echo_f :: vty_callback where
  "echo_f ws cmds sh = Printf (ws ! 1 @ [CHR 0x0A]) sh"

definition show_author_f :: vty_callback where
  "show_author_f ws cmds sh = fold (\<lambda>t. Printf (t @ crlf))
     [''Hiroki SHIROKURA.'', '' Twitter : @'', '' Github  : '', '' Facebook: hiroki.shirokura'', '' E-mail  : slank.dev@gmail.com''] sh"

definition show_version_f :: vty_callback where
  "show_version_f ws cmds sh = fold (\<lambda>t. Printf (t @ crlf)) [''Susanow 0.0.0'', ''Copyright 2017-2020 Hiroki SHIROKURA.''] sh"

definition quit_f :: vty_callback where
  "quit_f ws cmds sh = sh\<lparr>vc_open := False\<rparr>"

definition clear_f :: vty_callback where
  "clear_f ws cmds sh = Printf ([CHR 0x1B] @ ''[2J'' @ crlf) sh"

text \<open>\<open>to_string\<close> of a node is the server's; \<open>dump\<close> is what \<open>ssn_cpu_debug_dump\<close> prints.\<close>

definition list_f :: "(vty_node \<Rightarrow> string) \<Rightarrow> vty_callback" where
  "list_f to_string ws cmds sh =
     fold (\<lambda>cmd. Printf (''  '' @ concat (map (\<lambda>nd. to_string nd @ '' '') cmd) @ crlf)) cmds sh"

definition show_cpu_f :: "string \<Rightarrow> vty_callback" where
  "show_cpu_f dump ws cmds sh = Printf dump (Printf (''show cpu'' @ crlf) sh)"

text \<open>The commands in the order in which the constructor installs them.\<close>

definition ssn_vty_commands :: "(vty_node \<Rightarrow> string) \<Rightarrow> string \<Rightarrow> (vty_node list \<times> vty_callback) list" where
  "ssn_vty_commands to_string dump = [(quit_mt, quit_f), (clear_mt, clear_f), (echo_mt, echo_f), (list_mt, list_f to_string),
     (show_author_mt, show_author_f), (show_version_mt, show_version_f), (show_cpu_mt, show_cpu_f dump)]"

fun fits :: "vty_node list \<Rightarrow> string list \<Rightarrow> bool" where
  "fits [] [] = True"
| "fits (Node_fixedstring w # ns) (x # xs) = (x = w \<and> fits ns xs)"
| "fits (Node_string # ns) (x # xs) = fits ns xs"
| "fits _ _ = False"

lemmas vty_matches = quit_mt_def clear_mt_def echo_mt_def list_mt_def show_author_mt_def show_version_mt_def show_cpu_mt_def

lemma fits_length: "fits ns ws \<Longrightarrow> length ws = length ns"
  by (induction ns ws rule: fits.induct) auto

lemma fits_iff [simp]:
  "fits [] ws \<longleftrightarrow> ws = []"
  "fits (Node_fixedstring w # ns) ws \<longleftrightarrow> (\<exists>xs. ws = w # xs \<and> fits ns xs)"
  "fits (Node_string # ns) ws \<longleftrightarrow> (\<exists>x xs. ws = x # xs \<and> fits ns xs)"
  by (cases ws; simp)+

text \<open>No list of words matches two commands, so the answer does not depend on the order of the installation; and the
  words that \<open>echo\<close> reads are there.\<close>

lemma vty_unambiguous:
  assumes "(m, f) \<in> set (ssn_vty_commands ts d)" "(m', f') \<in> set (ssn_vty_commands ts d)" "fits m ws" "fits m' ws"
  shows "m = m'"
proof -
  have first: "hd ws \<in> {''quit'', ''clear'', ''echo'', ''list'', ''show''} \<and>
      m = (if hd ws = ''quit'' then quit_mt else if hd ws = ''clear'' then clear_mt else if hd ws = ''echo'' then echo_mt
        else if hd ws = ''list'' then list_mt else [Node_fixedstring ''show'', Node_fixedstring (ws ! 1)])"
    if "(m, f) \<in> set (ssn_vty_commands ts d)" "fits m ws" for m f
    using that(1) unfolding ssn_vty_commands_def set_simps insert_iff prod.inject empty_iff
    by (elim disjE conjE) (use that(2) in \<open>auto simp: vty_matches\<close>)
  show ?thesis using first [OF assms(1,3)] first [OF assms(2,4)] by simp
qed

lemma echo_reads: "fits echo_mt ws \<Longrightarrow> echo_f ws cmds sh = Printf (ws ! 1 @ [CHR 0x0A]) sh \<and> 1 < length ws"
  by (auto simp: echo_f_def echo_mt_def dest!: fits_length)

lemma only_quit_closes:
  "(m, f) \<in> set (ssn_vty_commands ts d) \<Longrightarrow> vc_open (f ws cmds sh) = (vc_open sh \<and> m \<noteq> quit_mt)"
proof -
  have P: "vc_open (Printf t sh) = vc_open sh" for t sh by (simp add: Printf_def)
  have F: "vc_open (fold (\<lambda>x. Printf (g x)) xs sh) = vc_open sh" for g :: "'z \<Rightarrow> string" and xs sh
    by (induction xs arbitrary: sh) (simp_all add: P)
  assume "(m, f) \<in> set (ssn_vty_commands ts d)"
  then show ?thesis
    by (auto simp: ssn_vty_commands_def quit_f_def clear_f_def echo_f_def list_f_def show_author_f_def show_version_f_def
        show_cpu_f_def P F vty_matches)
qed

text \<open>The thread that serves the terminal: \<open>poll\<close> is one \<open>poll_dispatch\<close> with the \<open>ssn_yield\<close> behind it, in which
  another thread may clear the flag.\<close>

record 'v vty_thread =
  vt_running :: bool
  vt_server :: 'v

definition ssn_vty_poll_thread_stop :: "'v vty_thread \<Rightarrow> 'v vty_thread" where
  "ssn_vty_poll_thread_stop s = s\<lparr>vt_running := False\<rparr>"

partial_function (option) poll_loop :: "('v vty_thread \<Rightarrow> 'v vty_thread) \<Rightarrow> 'v vty_thread \<Rightarrow> 'v vty_thread option" where
  "poll_loop poll s = (if vt_running s then poll_loop poll (poll s) else Some s)"

definition ssn_vty_poll_thread :: "('v vty_thread \<Rightarrow> 'v vty_thread) \<Rightarrow> 'v vty_thread \<Rightarrow> 'v vty_thread option" where
  "ssn_vty_poll_thread poll s = poll_loop poll (s\<lparr>vt_running := True\<rparr>)"

text \<open>The loop ends as soon as some round clears the flag; a stop before the thread has started has no effect.\<close>

lemma poll_loop_ends: "\<not> vt_running ((poll ^^ n) s) \<Longrightarrow> \<exists>t. poll_loop poll s = Some t \<and> \<not> vt_running t"
proof (induction n arbitrary: s)
  case 0
  then show ?case by (subst poll_loop.simps) simp
next
  case (Suc n)
  have "\<not> vt_running ((poll ^^ n) (poll s))" using Suc.prems by (simp add: funpow_swap1)
  then obtain t where "poll_loop poll (poll s) = Some t" "\<not> vt_running t" using Suc.IH by blast
  then show ?case by (subst poll_loop.simps) auto
qed

lemma early_stop_is_lost: "ssn_vty_poll_thread poll (ssn_vty_poll_thread_stop s) = ssn_vty_poll_thread poll s"
  by (simp add: ssn_vty_poll_thread_def ssn_vty_poll_thread_stop_def)

subsection \<open>Secondary processes\<close>

text \<open>\<open>ssn_subproc_init\<close> puts the options of a secondary process behind the name of the program.\<close>

definition subproc_argv :: "string list \<Rightarrow> string list" where
  "subproc_argv argv = argv ! 0 # ''--proc-type=secondary'' # ''--socket-mem=2048,2048'' # ''-w 0000:00:00.0'' # tl argv"

end
