(* ===== verification/Pci_Address.thy ===== *)
theory Pci_Address
  imports Susanow_Prelude
begin

section \<open>PCI addresses (nfvi/ports/dpdk.h)\<close>

text \<open>
  \<open>ssn_pci_address\<close> is printed with one format and read back with another. Of the standard library this
  needs \<open>%x\<close> with a width in both directions: printing pads with zeros and never cuts; reading skips
  white space, takes at most the width of characters for a sign, a prefix \<open>0x\<close> and digits, and fails
  without a digit. \<open>sscanf\<close> stops at the first failure and does not look at what follows.
\<close>

record ssn_pci_address =
  pa_dom :: u32
  pa_bus :: u8
  pa_dev :: u8
  pa_fun :: u8

datatype pci_error = Invalid_pci_address

subsection \<open>Printing and reading hexadecimal numbers\<close>

definition hexd :: "bool \<Rightarrow> nat \<Rightarrow> char" where
  "hexd up d = char_of (if d < 10 then 48 + d else if up then 55 + d else 87 + d)"

fun hexs :: "bool \<Rightarrow> nat \<Rightarrow> string" where
  "hexs up n = (if n < 16 then [hexd up n] else hexs up (n div 16) @ [hexd up (n mod 16)])"

declare hexs.simps [simp del]

definition fmt_hex :: "bool \<Rightarrow> nat \<Rightarrow> nat \<Rightarrow> string" where
  "fmt_hex up w n = replicate (w - length (hexs up n)) (CHR ''0'') @ hexs up n"

definition hexval :: "char \<Rightarrow> nat option" where
  "hexval c = (let n = of_char c :: nat in
     if 48 \<le> n \<and> n \<le> 57 then Some (n - 48) else if 65 \<le> n \<and> n \<le> 70 then Some (n - 55) else if 97 \<le> n \<and> n \<le> 102 then Some (n - 87) else None)"

definition isspace :: "char \<Rightarrow> bool" where
  "isspace c \<longleftrightarrow> (let n = of_char c :: nat in n = 32 \<or> 9 \<le> n \<and> n \<le> 13)"

fun hex_run :: "nat \<Rightarrow> nat \<Rightarrow> string \<Rightarrow> nat \<times> string" where
  "hex_run (Suc w) v (c # cs) = (case hexval c of Some d \<Rightarrow> hex_run w (v * 16 + d) cs | None \<Rightarrow> (v, c # cs))"
| "hex_run _ v cs = (v, cs)"

definition hex_digits :: "nat \<Rightarrow> string \<Rightarrow> (nat \<times> string) option" where
  "hex_digits w s = (if w = 0 \<or> s = [] \<or> hexval (hd s) = None then None else Some (hex_run w 0 s))"

definition hex_prefixed :: "nat \<Rightarrow> string \<Rightarrow> (nat \<times> string) option" where
  "hex_prefixed w s = (case s of
     z # x # cs \<Rightarrow> if 2 \<le> w \<and> z = CHR ''0'' \<and> (x = CHR ''x'' \<or> x = CHR ''X'') then hex_digits (w - 2) cs else hex_digits w s
   | _ \<Rightarrow> hex_digits w s)"

text \<open>\<open>%x\<close> stores into an \<open>unsigned int\<close>: a negative number wraps.\<close>

definition scan_hex :: "nat \<Rightarrow> string \<Rightarrow> (u32 \<times> string) option" where
  "scan_hex w s = (case dropWhile isspace s of
     [] \<Rightarrow> None
   | c # cs \<Rightarrow>
       if c = CHR ''-'' then map_option (\<lambda>(v, r). (- of_nat v, r)) (hex_prefixed (w - 1) cs)
       else if c = CHR ''+'' then map_option (\<lambda>(v, r). (of_nat v, r)) (hex_prefixed (w - 1) cs)
       else map_option (\<lambda>(v, r). (of_nat v, r)) (hex_prefixed w (c # cs)))"

definition scan_char :: "char \<Rightarrow> string \<Rightarrow> string option" where
  "scan_char c s = (case s of d # r \<Rightarrow> if d = c then Some r else None | [] \<Rightarrow> None)"

subsection \<open>The class\<close>

definition pci_set :: "string \<Rightarrow> (pci_error, ssn_pci_address) outcome" where
  "pci_set s = (case do {
       (dom, s) \<leftarrow> scan_hex 4 s; s \<leftarrow> scan_char (CHR '':'') s;
       (bus, s) \<leftarrow> scan_hex 2 s; s \<leftarrow> scan_char (CHR '':'') s;
       (dev, s) \<leftarrow> scan_hex 2 s; s \<leftarrow> scan_char (CHR ''.'') s;
       (fn, s) \<leftarrow> scan_hex 1 s;
       Some \<lparr>pa_dom = dom, pa_bus = ucast bus, pa_dev = ucast dev, pa_fun = ucast fn\<rparr> } of
     None \<Rightarrow> Throw Invalid_pci_address | Some a \<Rightarrow> Return a)"

definition pci_str :: "ssn_pci_address \<Rightarrow> string" where
  "pci_str a = fmt_hex False 4 (unat (pa_dom a)) @ '':'' @ fmt_hex False 2 (unat (pa_bus a)) @ '':'' @
     fmt_hex False 2 (unat (pa_dev a)) @ ''.'' @ fmt_hex True 1 (unat (pa_fun a))"

subsection \<open>Reading what was printed\<close>

lemma hexval_hexd: "d < 16 \<Longrightarrow> hexval (hexd up d) = Some d"
  by (auto simp: hexval_def hexd_def Let_def)

definition is_hex :: "char \<Rightarrow> bool" where
  "is_hex c \<longleftrightarrow> hexval c \<noteq> None"

lemma is_hex_not: "is_hex c \<Longrightarrow> \<not> isspace c \<and> c \<notin> {CHR ''-'', CHR ''+'', CHR ''x'', CHR ''X'', CHR '':'', CHR ''.''}"
  by (auto simp: is_hex_def hexval_def isspace_def Let_def split: if_splits)

definition hex_value :: "nat \<Rightarrow> string \<Rightarrow> nat" where
  "hex_value v s = foldl (\<lambda>v c. v * 16 + the (hexval c)) v s"

lemma hex_run_append:
  "list_all is_hex xs \<Longrightarrow> length xs \<le> w \<Longrightarrow> hex_run w v (xs @ ys) = hex_run (w - length xs) (hex_value v xs) ys"
proof (induction xs arbitrary: w v)
  case (Cons x xs)
  then obtain k where "w = Suc k" "length xs \<le> k" by (cases w) auto
  then show ?case using Cons by (auto simp: hex_value_def is_hex_def)
qed (simp add: hex_value_def)

lemma hexs_props:
  "list_all is_hex (hexs up n) \<and> hexs up n \<noteq> [] \<and> hex_value v (hexs up n) = v * 16 ^ length (hexs up n) + n"
proof (induction up n arbitrary: v rule: hexs.induct)
  case (1 up n)
  show ?case
  proof (cases "n < 16")
    case True
    then show ?thesis by (simp add: hexs.simps [of up n] hex_value_def is_hex_def hexval_hexd)
  next
    case False
    have "16 * (v * 16 ^ k) + 16 * (n div 16) + n mod 16 = 16 * (v * 16 ^ k) + n" for k :: nat by simp
    then show ?thesis using 1 [OF False] False
      by (simp add: hexs.simps [of up n] hex_value_def is_hex_def hexval_hexd algebra_simps)
  qed
qed

lemma length_hexs: "n < 16 ^ w \<Longrightarrow> 0 < w \<Longrightarrow> length (hexs up n) \<le> w"
proof (induction w arbitrary: n)
  case (Suc w)
  show ?case
  proof (cases "n < 16")
    case False
    then have "n div 16 < 16 ^ w" "0 < w" using Suc.prems(1) by (auto intro: gr0I)
    then show ?thesis using Suc.IH False by (simp add: hexs.simps [of up n])
  qed (simp add: hexs.simps [of up n])
qed simp

lemma fmt_props:
  "list_all is_hex (fmt_hex up w n) \<and> fmt_hex up w n \<noteq> [] \<and> hex_value 0 (fmt_hex up w n) = n \<and> w \<le> length (fmt_hex up w n)"
proof -
  have z: "hex_value 0 (replicate k (CHR ''0'')) = 0" for k
    by (induction k) (simp_all add: hex_value_def hexval_def)
  have "is_hex (CHR ''0'')" by (simp add: is_hex_def hexval_def)
  then show ?thesis
    using hexs_props [of up n 0] z [of "w - length (hexs up n)"] by (auto simp: fmt_hex_def hex_value_def list_all_iff)
qed

lemma length_fmt: "n < 16 ^ w \<Longrightarrow> 0 < w \<Longrightarrow> length (fmt_hex up w n) = w"
  using length_hexs [of n w up] by (simp add: fmt_hex_def)

text \<open>Digits that fill the width are read, and only they.\<close>

lemma scan_digits:
  assumes "list_all is_hex ds" "length ds = w" "0 < w"
  shows "scan_hex w (ds @ rest) = Some (of_nat (hex_value 0 ds), rest)"
proof -
  obtain c cs where ds: "ds = c # cs" using assms by (cases ds) auto
  have c: "is_hex c" using assms(1) ds by simp
  note n = is_hex_not [OF c]
  have "hex_prefixed w (ds @ rest) = hex_digits w (ds @ rest)"
  proof (cases cs)
    case (Cons d r)
    then show ?thesis using assms(1) ds is_hex_not [of d] by (simp add: hex_prefixed_def)
  qed (use assms(2) ds in \<open>simp add: hex_prefixed_def split: list.split\<close>)
  also have "\<dots> = Some (hex_run w 0 (ds @ rest))" using c ds assms(3) by (simp add: hex_digits_def is_hex_def)
  also have "hex_run w 0 (ds @ rest) = (hex_value 0 ds, rest)" using hex_run_append [OF assms(1), of w 0 rest] assms(2) by simp
  finally have "hex_prefixed w (ds @ rest) = Some (hex_value 0 ds, rest)" .
  then show ?thesis using n ds by (simp add: scan_hex_def)
qed

lemma scan_fmt: "n < 16 ^ w \<Longrightarrow> 0 < w \<Longrightarrow> scan_hex w (fmt_hex up w n @ rest) = Some (of_nat n, rest)"
  using scan_digits [of "fmt_hex up w n" w rest] fmt_props [of up w n] length_fmt [of n w up] by simp

lemma scan_long:
  assumes "list_all is_hex (ds @ es)" "length ds = w" "0 < w" "es \<noteq> []" "\<not> is_hex c"
  shows "case scan_hex w ((ds @ es) @ rest) of Some (v, s) \<Rightarrow> scan_char c s = None | None \<Rightarrow> False"
  using scan_digits [of ds w "es @ rest"] assms by (cases es) (auto simp: scan_char_def)

text \<open>The last field is printed without a limit but read one digit wide.\<close>

definition first_digit :: "u8 \<Rightarrow> u8" where
  "first_digit f = (if f < 16 then f else f div 16)"

lemma scan_fun: "\<exists>r. scan_hex 1 (fmt_hex True 1 (unat f)) = Some (of_nat (unat (first_digit f)), r)"
proof (cases "f < 16")
  case True
  then have "unat f < 16 ^ 1" by (simp add: word_less_nat_alt)
  from scan_fmt [OF this, of True "[]"] show ?thesis using True by (simp add: first_digit_def)
next
  case False
  have b: "unat f < 256" using unsigned_less [of f] by simp
  have f: "\<not> unat f < 16" "unat (first_digit f) = unat f div 16" using False by (simp_all add: word_less_nat_alt first_digit_def unat_div)
  have d: "unat f div 16 < 16" using b by linarith
  have "fmt_hex True 1 (unat f) = [hexd True (unat f div 16)] @ [hexd True (unat f mod 16)]"
    using f(1) d by (simp add: fmt_hex_def hexs.simps [of True "unat f"] hexs.simps [of True "unat f div 16"])
  then show ?thesis
    using scan_digits [of "[hexd True (unat f div 16)]" 1 "[hexd True (unat f mod 16)]"] f(2) d
    by (simp add: is_hex_def hexval_hexd hex_value_def)
qed

lemma ucast_back: "ucast (ucast (x :: u8) :: u32) = x"
  by (rule bit_word_eqI) (auto simp: bit_simps)

lemma hex_value_bound: "list_all is_hex ds \<Longrightarrow> hex_value v ds < (v + 1) * 16 ^ length ds"
proof (induction ds arbitrary: v)
  case (Cons c ds)
  then obtain d where d: "hexval c = Some d" by (auto simp: is_hex_def)
  then have "d < 16" by (auto simp: hexval_def Let_def split: if_splits)
  then have "(v * 16 + d + 1) * 16 ^ length ds \<le> (v + 1) * 16 ^ length (c # ds)" using mult_le_mono1 [of "v * 16 + d + 1" "(v + 1) * 16" "16 ^ length ds"] by (simp add: algebra_simps)
  then show ?case using Cons.IH [of "v * 16 + d"] Cons.prems d by (simp add: hex_value_def)
qed (simp add: hex_value_def)

text \<open>C32. An address that was printed is read back as it was when the domain fits into four digits and the function
  into one; a larger domain is refused, and of a larger function only the first digit is read.\<close>

theorem pci_print_read:
  "pci_set (pci_str a) = (if pa_dom a < 65536 then Return (a\<lparr>pa_fun := first_digit (pa_fun a)\<rparr>) else Throw Invalid_pci_address)"
proof (cases "pa_dom a < 65536")
  case True
  obtain w x y z where a: "a = \<lparr>pa_dom = w, pa_bus = x, pa_dev = y, pa_fun = z\<rparr>" by (cases a)
  have u: "unat (x :: u8) < 16 ^ 2" for x using unsigned_less [of x] by simp
  have d: "unat (pa_dom a) < 16 ^ 4" using True by (simp add: word_less_nat_alt)
  obtain r where r: "scan_hex 1 (fmt_hex True 1 (unat (pa_fun a))) = Some (of_nat (unat (first_digit (pa_fun a))), r)" using scan_fun by blast
  show ?thesis
    using scan_fmt [OF d] scan_fmt [OF u] r True unfolding a by (simp add: pci_set_def pci_str_def scan_char_def ucast_back)
next
  case False
  let ?s = "fmt_hex False 4 (unat (pa_dom a))"
  have n: "65536 \<le> unat (pa_dom a)" using False by (simp add: word_less_nat_alt)
  note p = fmt_props [of False 4 "unat (pa_dom a)"]
  have "length ?s \<noteq> 4" using hex_value_bound [of ?s 0] n p by auto
  then have l: "4 < length ?s" using p by linarith
  let ?t = "'':'' @ fmt_hex False 2 (unat (pa_bus a)) @ '':'' @ fmt_hex False 2 (unat (pa_dev a)) @ ''.'' @ fmt_hex True 1 (unat (pa_fun a))"
  have "\<not> is_hex (CHR '':'')" by (simp add: is_hex_def hexval_def)
  then have "case scan_hex 4 (?s @ ?t) of Some (v, s) \<Rightarrow> scan_char (CHR '':'') s = None | None \<Rightarrow> False"
    using scan_long [of "take 4 ?s" "drop 4 ?s" 4 "CHR '':''" ?t] p l by simp
  then show ?thesis using False by (auto simp: pci_set_def pci_str_def split: option.splits)
qed

end
