(* ===== verification/Ssn_Stats.thy ===== *)
theory Ssn_Stats
  imports Susanow_Prelude
begin

section \<open>Port statistics (lib/libsusanow/ssn_port_stat.cc)\<close>

text \<open>
  Once a second the counters of every known port are read, and the rates are the differences to the
  reading before. Counters are 64-bit and wrap; so do the differences. \<open>rte_eth_stats_get\<close> is the
  parameter \<open>rd\<close>; an unknown port is a NULL pointer.
\<close>

record rte_eth_stats =
  ipackets :: u64
  opackets :: u64
  ibytes :: u64
  obytes :: u64
  ierrors :: u64
  oerrors :: u64
  imissed :: u64
  rx_nombuf :: u64

record ssn_port_stat =
  ps_lcore_id :: nat
  cur_rx_pps :: u64
  cur_tx_pps :: u64
  cur_rx_bps :: u64
  cur_tx_bps :: u64
  cur_rx_err :: u64
  cur_tx_err :: u64
  cur_rx_mis :: u64
  cur_rx_nombuf :: u64
  ps_cur :: rte_eth_stats
  ps_prev :: rte_eth_stats

type_synonym portstat = "nat \<rightharpoonup> ssn_port_stat"

definition zero_eth_stats :: rte_eth_stats where
  "zero_eth_stats = \<lparr>ipackets = 0, opackets = 0, ibytes = 0, obytes = 0, ierrors = 0, oerrors = 0, imissed = 0, rx_nombuf = 0\<rparr>"

definition new_port_stat :: "nat \<Rightarrow> ssn_port_stat" where
  "new_port_stat i = \<lparr>ps_lcore_id = i, cur_rx_pps = 0, cur_tx_pps = 0, cur_rx_bps = 0, cur_tx_bps = 0, cur_rx_err = 0, cur_tx_err = 0,
     cur_rx_mis = 0, cur_rx_nombuf = 0, ps_cur = zero_eth_stats, ps_prev = zero_eth_stats\<rparr>"

definition port_stat_update :: "(nat \<Rightarrow> rte_eth_stats) \<Rightarrow> ssn_port_stat \<Rightarrow> ssn_port_stat" where
  "port_stat_update rd p =
     (let prev = ps_cur p; cur = rd (ps_lcore_id p);
          rx_pps = ipackets cur - ipackets prev; tx_pps = opackets cur - opackets prev in
      p\<lparr>ps_prev := prev, ps_cur := cur, cur_rx_pps := rx_pps, cur_tx_pps := tx_pps,
        cur_rx_bps := push_bit 3 (ibytes cur - ibytes prev + rx_pps * 24),
        cur_tx_bps := push_bit 3 (obytes cur - obytes prev + tx_pps * 24),
        cur_rx_err := ierrors cur - ierrors prev, cur_tx_err := oerrors cur - oerrors prev,
        cur_rx_mis := imissed cur - imissed prev, cur_rx_nombuf := rx_nombuf cur - rx_nombuf prev\<rparr>)"

text \<open>\<open>n_max\<close> is \<open>RTE_MAX_ETHPORTS\<close>, \<open>nb\<close> is \<open>rte_eth_dev_count\<close>.\<close>

definition ssn_port_stat_update :: "nat \<Rightarrow> (nat \<Rightarrow> rte_eth_stats) \<Rightarrow> portstat \<Rightarrow> portstat" where
  "ssn_port_stat_update n_max rd ps = (\<lambda>i. if i < n_max then map_option (port_stat_update rd) (ps i) else ps i)"

definition ssn_port_stat_init :: "nat \<Rightarrow> portstat \<Rightarrow> portstat" where
  "ssn_port_stat_init nb ps = (\<lambda>i. if i < nb then Some (new_port_stat i) else ps i)"

definition ssn_port_stat_init_pid :: "nat \<Rightarrow> portstat \<Rightarrow> portstat" where
  "ssn_port_stat_init_pid pid ps = (if ps pid = None then ps(pid \<mapsto> new_port_stat pid) else ps)"

text \<open>The deleted objects stay in the table; they must not be used again.\<close>

definition ssn_port_stat_fin :: "nat \<Rightarrow> portstat \<Rightarrow> portstat" where
  "ssn_port_stat_fin nb ps = (\<lambda>i. if i < nb then None else ps i)"

definition ssn_port_stat_get_tot_rx_packets :: "nat \<Rightarrow> portstat \<Rightarrow> u64 option" where
  "ssn_port_stat_get_tot_rx_packets pid ps = map_option (\<lambda>p. ipackets (ps_cur p)) (ps pid)"

definition ssn_port_stat_get_tot_tx_packets :: "nat \<Rightarrow> portstat \<Rightarrow> u64 option" where
  "ssn_port_stat_get_tot_tx_packets pid ps = map_option (\<lambda>p. opackets (ps_cur p)) (ps pid)"

definition ssn_port_stat_get_tot_rx_bytes :: "nat \<Rightarrow> portstat \<Rightarrow> u64 option" where
  "ssn_port_stat_get_tot_rx_bytes pid ps = map_option (\<lambda>p. ibytes (ps_cur p)) (ps pid)"

definition ssn_port_stat_get_tot_tx_bytes :: "nat \<Rightarrow> portstat \<Rightarrow> u64 option" where
  "ssn_port_stat_get_tot_tx_bytes pid ps = map_option (\<lambda>p. obytes (ps_cur p)) (ps pid)"

definition ssn_port_stat_get_cur_rx_mis :: "nat \<Rightarrow> portstat \<Rightarrow> u64 option" where
  "ssn_port_stat_get_cur_rx_mis pid ps = map_option cur_rx_mis (ps pid)"

definition ssn_port_stat_get_cur_rx_pps :: "nat \<Rightarrow> portstat \<Rightarrow> u64 option" where
  "ssn_port_stat_get_cur_rx_pps pid ps = map_option cur_rx_pps (ps pid)"

definition ssn_port_stat_get_cur_tx_pps :: "nat \<Rightarrow> portstat \<Rightarrow> u64 option" where
  "ssn_port_stat_get_cur_tx_pps pid ps = map_option cur_tx_pps (ps pid)"

definition ssn_port_stat_get_cur_rx_bps :: "nat \<Rightarrow> portstat \<Rightarrow> u64 option" where
  "ssn_port_stat_get_cur_rx_bps pid ps = map_option cur_rx_bps (ps pid)"

definition ssn_port_stat_get_cur_tx_bps :: "nat \<Rightarrow> portstat \<Rightarrow> u64 option" where
  "ssn_port_stat_get_cur_tx_bps pid ps = map_option cur_tx_bps (ps pid)"

end
