(* ===== verification/Ma_Access.thy ===== *)
theory Ma_Access
  imports Dpdk_Api "HOL-Library.Multiset"
begin

section \<open>Queue accessors (class accessor of ssn_ma_ring.h and ssn_ma_port.cc)\<close>

text \<open>
  A multi-accessible ring or port has more hardware queues than users know of: every user has an
  access id, and the queues are shared out among the access ids. An accessor is the list of its
  queues with the index of the next one. Both classes have the same accessor and share out the
  queues the same way; the contract is the locale \<open>queue_shares\<close>.
\<close>

record accessor =
  accessor_idx :: nat
  ques :: "nat list"

text \<open>The constructor initialises nothing: \<open>junk\<close> is the index a new accessor starts with.\<close>

definition new_accessor :: "nat \<Rightarrow> accessor" where
  "new_accessor junk = \<lparr>accessor_idx = junk, ques = []\<rparr>"

definition acc_set :: "nat list \<Rightarrow> accessor" where
  "acc_set vec = \<lparr>accessor_idx = 0, ques = vec\<rparr>"

text \<open>\<open>get\<close>: the remainder by an empty list and the read past its end are faults.\<close>

definition acc_get :: "accessor \<Rightarrow> (nat \<times> accessor) option" where
  "acc_get a =
     (let ret = accessor_idx a in
      if length (ques a) = 0 then None
      else
        let a = a\<lparr>accessor_idx := (accessor_idx a + 1) mod length (ques a)\<rparr> in
        if length (ques a) \<le> ret then None else Some (ques a ! ret, a))"

definition acc_current :: "accessor \<Rightarrow> nat option" where
  "acc_current a = (if accessor_idx a < length (ques a) then Some (ques a ! accessor_idx a) else None)"

text \<open>\<open>std::vector::resize\<close>: shorter or longer, new places hold \<open>x\<close>.\<close>

definition vec_resize :: "nat \<Rightarrow> 'a \<Rightarrow> 'a list \<Rightarrow> 'a list" where
  "vec_resize n x xs = take n xs @ replicate (n - length xs) x"

lemma length_vec_resize [simp]: "length (vec_resize n x xs) = n"
  by (simp add: vec_resize_def)

fun acc_gets :: "nat \<Rightarrow> accessor \<Rightarrow> (nat list \<times> accessor) option" where
  "acc_gets 0 a = Some ([], a)"
| "acc_gets (Suc k) a = do { (q, a) \<leftarrow> acc_get a; (qs, a) \<leftarrow> acc_gets k a; Some (q # qs, a) }"

lemma acc_get_ok:
  assumes "accessor_idx a < length (ques a)"
  shows "acc_get a = Some (ques a ! accessor_idx a, a\<lparr>accessor_idx := (accessor_idx a + 1) mod length (ques a)\<rparr>)"
  using assms by (auto simp: acc_get_def Let_def)

text \<open>Round robin: the \<open>j\<close>th of a run of gets is the queue \<open>j\<close> places further on.\<close>

lemma acc_gets_ok:
  assumes "accessor_idx a < length (ques a)"
  shows "acc_gets k a = Some (map (\<lambda>j. ques a ! ((accessor_idx a + j) mod length (ques a))) [0..<k],
    a\<lparr>accessor_idx := (accessor_idx a + k) mod length (ques a)\<rparr>)"
  using assms
proof (induction k arbitrary: a)
  case 0
  then show ?case by simp
next
  case (Suc k)
  let ?n = "length (ques a)"
  let ?a = "a\<lparr>accessor_idx := (accessor_idx a + 1) mod ?n\<rparr>"
  have lt: "accessor_idx ?a < length (ques ?a)" using Suc.prems by (simp add: mod_less_divisor) (metis gr_implies_not0 list.size(3) mod_less_divisor neq0_conv)
  have "((accessor_idx a + 1) mod ?n + j) mod ?n = (accessor_idx a + Suc j) mod ?n" for j
    by (simp add: mod_add_left_eq)
  then have "acc_gets k ?a = Some (map (\<lambda>j. ques a ! ((accessor_idx a + Suc j) mod ?n)) [0..<k],
      a\<lparr>accessor_idx := (accessor_idx a + Suc k) mod ?n\<rparr>)"
    using Suc.IH [OF lt] by simp
  then show ?case
    using Suc.prems acc_get_ok [OF Suc.prems] by (simp add: upt_rec [of 0 "Suc k"] map_Suc_upt [symmetric] comp_def del: upt_Suc)
qed

lemma rotate_nth_map:
  assumes "i < n"
  shows "map (\<lambda>j. xs ! ((i + j) mod n)) [0..<n] = map (\<lambda>j. xs ! j) ([i..<n] @ [0..<i])"
proof -
  have "[0..<n] = [0..<n - i] @ [n - i..<n]" using assms upt_add_eq_append [of 0 "n - i" i] by simp
  moreover have "map (\<lambda>j. xs ! ((i + j) mod n)) [0..<n - i] = map (\<lambda>j. xs ! j) [i..<n]"
    by (rule nth_equalityI) (use assms in auto)
  moreover have "map (\<lambda>j. xs ! ((i + j) mod n)) [n - i..<n] = map (\<lambda>j. xs ! j) [0..<i]"
    by (rule nth_equalityI) (use assms in auto)
  ultimately show ?thesis by simp
qed

text \<open>A full turn visits every queue of the accessor exactly once and ends where it began.\<close>

lemma acc_full_turn:
  assumes "accessor_idx a < length (ques a)"
  shows "\<exists>qs. acc_gets (length (ques a)) a = Some (qs, a) \<and> mset qs = mset (ques a)"
proof -
  let ?n = "length (ques a)"
  have "map (\<lambda>j. ques a ! ((accessor_idx a + j) mod ?n)) [0..<?n] = drop (accessor_idx a) (ques a) @ take (accessor_idx a) (ques a)"
    proof -
    have "map (\<lambda>j. ques a ! j) [accessor_idx a..<?n] = drop (accessor_idx a) (ques a)"
      "map (\<lambda>j. ques a ! j) [0..<accessor_idx a] = take (accessor_idx a) (ques a)"
      using assms by (auto intro!: nth_equalityI)
    then show ?thesis using rotate_nth_map [OF assms, of "ques a"] by simp
  qed
  moreover have "mset (drop (accessor_idx a) (ques a) @ take (accessor_idx a) (ques a)) = mset (ques a)"
    by (metis append_take_drop_id mset_append union_commute)
  ultimately show ?thesis using acc_gets_ok [OF assms, of ?n] assms by auto
qed

subsection \<open>Sharing the queues out\<close>

text \<open>
  The contract of both \<open>configure\<close> routines: when the number of accessors divides the number of
  queues, accessor \<open>k\<close> gets the \<open>k\<close>th run of consecutive queues.
\<close>

locale queue_shares =
  fixes shares :: "nat \<Rightarrow> nat \<Rightarrow> nat list list"
  assumes shares_law: "0 < n_acc \<Longrightarrow> n_que mod n_acc = 0 \<Longrightarrow>
    shares n_que n_acc = map (\<lambda>k. [k * (n_que div n_acc)..<Suc k * (n_que div n_acc)]) [0..<n_acc]"
begin

lemma shares_length: "0 < n_acc \<Longrightarrow> n_que mod n_acc = 0 \<Longrightarrow> length (shares n_que n_acc) = n_acc"
  by (simp add: shares_law)

lemma shares_nth:
  "0 < n_acc \<Longrightarrow> n_que mod n_acc = 0 \<Longrightarrow> k < n_acc \<Longrightarrow>
     shares n_que n_acc ! k = [k * (n_que div n_acc)..<Suc k * (n_que div n_acc)]"
  by (simp add: shares_law)

lemma runs_concat: "concat (map (\<lambda>k. [k * m..<Suc k * m]) [0..<a]) = [0..<a * m]"
proof (induction a)
  case (Suc a)
  then show ?case using upt_add_eq_append [of 0 "a * m" m] by (simp add: add.commute)
qed simp

text \<open>Every queue belongs to exactly one accessor.\<close>

lemma shares_partition:
  "0 < n_acc \<Longrightarrow> n_que mod n_acc = 0 \<Longrightarrow> concat (shares n_que n_acc) = [0..<n_que]"
  using runs_concat [of "n_que div n_acc" n_acc] by (simp add: shares_law mult.commute mod_0_imp_dvd del: mult_Suc)

lemma shares_disjoint:
  assumes "0 < n_acc" "n_que mod n_acc = 0" "i < n_acc" "j < n_acc" "i \<noteq> j"
  shows "set (shares n_que n_acc ! i) \<inter> set (shares n_que n_acc ! j) = {}"
proof -
  let ?m = "n_que div n_acc"
  have "Suc i * ?m \<le> j * ?m \<or> Suc j * ?m \<le> i * ?m"
    using assms(5) by (metis Suc_leI linorder_neqE_nat mult_le_mono1)
  then show ?thesis using assms by (auto simp: shares_nth)
qed

lemma shares_nonempty:
  assumes "0 < n_acc" "n_que mod n_acc = 0" "0 < n_que" "k < n_acc"
  shows "shares n_que n_acc ! k \<noteq> []" "set (shares n_que n_acc ! k) \<subseteq> {..<n_que}"
proof -
  have "0 < n_que div n_acc" using assms by (metis div_greater_zero_iff mod_less neq0_conv not_le)
  then show "shares n_que n_acc ! k \<noteq> []" using assms by (simp add: shares_nth)
  have "set (shares n_que n_acc ! k) \<subseteq> set (concat (shares n_que n_acc))"
    using assms by (auto simp: shares_length intro!: bexI [of _ "shares n_que n_acc ! k"])
  then show "set (shares n_que n_acc ! k) \<subseteq> {..<n_que}" using assms by (auto simp: shares_partition)
qed

end

end
