(* ===== verification/Ma_Ring.thy ===== *)
theory Ma_Ring
  imports Ma_Access
begin

section \<open>The multi-accessible ring (lib/libsusanow/ssn_ma_ring.h)\<close>

text \<open>
  A set of rings shared by several producers and several consumers, each through an access id.
  The rings live in a heap \<open>rmem\<close>; \<open>dpdk::ring_alloc\<close> and \<open>rte_ring_free\<close> belong to libraries
  outside the repository and are parameters. \<open>at\<close>, \<open>[]\<close> out of range, the remainder by zero and a
  burst on a ring that is not there have no value.
\<close>

record ma_ring =
  rings :: "addr list"
  enq_accessors :: "accessor list"
  deq_accessors :: "accessor list"
  name_prefix :: string
  prod_pps_sum :: u64
  prod_pps_cur :: u64
  cons_pps_sum :: u64
  cons_pps_cur :: u64

record ('w, 'r) ring_heap =
  rworld :: 'w
  rmem :: "addr \<rightharpoonup> 'r"

datatype ring_error = Invalid_deq nat nat | Invalid_enq nat nat | Ring_alloc_failed

definition ma_ring_socket_id :: nat where
  "ma_ring_socket_id = 0"

text \<open>The constructor leaves \<open>prod_pps_cur\<close> and \<open>cons_pps_sum\<close> as they were in memory.\<close>

definition ssn_ma_ring :: "u64 \<Rightarrow> u64 \<Rightarrow> string \<Rightarrow> ma_ring" where
  "ssn_ma_ring junk1 junk2 np = \<lparr>rings = [], enq_accessors = [], deq_accessors = [], name_prefix = np,
     prod_pps_sum = 0, prod_pps_cur = junk1, cons_pps_sum = junk2, cons_pps_cur = 0\<rparr>"

definition get_num_que :: "ma_ring \<Rightarrow> nat" where
  "get_num_que r = length (rings r)"

definition get_num_enq_acc :: "ma_ring \<Rightarrow> nat" where
  "get_num_enq_acc r = length (enq_accessors r)"

definition get_num_deq_acc :: "ma_ring \<Rightarrow> nat" where
  "get_num_deq_acc r = length (deq_accessors r)"

definition update_stats :: "ma_ring \<Rightarrow> ma_ring" where
  "update_stats r = r\<lparr>prod_pps_cur := prod_pps_sum r, prod_pps_sum := 0,
     cons_pps_cur := cons_pps_sum r, cons_pps_sum := 0\<rparr>"

definition get_prod_perf :: "ma_ring \<Rightarrow> u64" where
  "get_prod_perf r = prod_pps_cur r"

definition get_cons_perf :: "ma_ring \<Rightarrow> u64" where
  "get_cons_perf r = cons_pps_cur r"

subsection \<open>Configuration\<close>

text \<open>The two nested loops: \<open>a\<close> accessors left, \<open>c\<close> queues dealt out, \<open>m\<close> queues each.\<close>

fun deal :: "nat \<Rightarrow> nat \<Rightarrow> nat \<Rightarrow> nat list list" where
  "deal 0 c m = []"
| "deal (Suc a) c m = map (\<lambda>i. i + c) [0..<m] # deal a (c + m) m"

definition configure_deq_acc :: "nat \<Rightarrow> nat \<Rightarrow> ma_ring \<Rightarrow> ((ring_error, unit) outcome \<times> ma_ring) option" where
  "configure_deq_acc junk n_deq_acc r =
     (let r = r\<lparr>deq_accessors := vec_resize n_deq_acc (new_accessor junk) (deq_accessors r)\<rparr> in
      if n_deq_acc = 0 then None
      else if length (rings r) mod n_deq_acc \<noteq> 0 then Some (Throw (Invalid_deq n_deq_acc (length (rings r))), r)
      else Some (Return (), r\<lparr>deq_accessors := map acc_set (deal n_deq_acc 0 (length (rings r) div n_deq_acc))\<rparr>))"

definition configure_enq_acc :: "nat \<Rightarrow> nat \<Rightarrow> ma_ring \<Rightarrow> ((ring_error, unit) outcome \<times> ma_ring) option" where
  "configure_enq_acc junk n_enq_acc r =
     (let r = r\<lparr>enq_accessors := vec_resize n_enq_acc (new_accessor junk) (enq_accessors r)\<rparr> in
      if n_enq_acc = 0 then None
      else if length (rings r) mod n_enq_acc \<noteq> 0 then Some (Throw (Invalid_enq n_enq_acc (length (rings r))), r)
      else Some (Return (), r\<lparr>enq_accessors := map acc_set (deal n_enq_acc 0 (length (rings r) div n_enq_acc))\<rparr>))"

definition configure_acc :: "nat \<Rightarrow> nat \<Rightarrow> nat \<Rightarrow> ma_ring \<Rightarrow> ((ring_error, unit) outcome \<times> ma_ring) option" where
  "configure_acc junk n_enq_acc n_deq_acc r = do {
     (e, r) \<leftarrow> configure_deq_acc junk n_deq_acc r;
     case e of Throw x \<Rightarrow> Some (Throw x, r)
     | Return _ \<Rightarrow> configure_enq_acc junk n_enq_acc r }"

text \<open>The allocation loop of \<open>configure_que\<close> from ring \<open>i\<close> on, \<open>k\<close> to go.\<close>

fun alloc_rings ::
  "(string \<Rightarrow> 'w \<Rightarrow> addr option \<times> 'w) \<Rightarrow> 'r \<Rightarrow> nat \<Rightarrow> nat \<Rightarrow> ma_ring \<Rightarrow> ('w, 'r) ring_heap \<Rightarrow>
   (ring_error, unit) outcome \<times> ma_ring \<times> ('w, 'r) ring_heap" where
  "alloc_rings alloc new i 0 r h = (Return (), r, h)"
| "alloc_rings alloc new i (Suc k) r h =
     (let (a, w) = alloc (name_prefix r @ ''-ring'' @ dec i) (rworld h); h = h\<lparr>rworld := w\<rparr> in
      case a of None \<Rightarrow> (Throw Ring_alloc_failed, r, h)
      | Some p \<Rightarrow> alloc_rings alloc new (Suc i) k (r\<lparr>rings := (rings r)[i := p]\<rparr>) (h\<lparr>rmem := (rmem h)(p \<mapsto> new)\<rparr>))"

definition configure_que ::
  "(string \<Rightarrow> 'w \<Rightarrow> addr option \<times> 'w) \<Rightarrow> 'r \<Rightarrow> nat \<Rightarrow> ma_ring \<Rightarrow> ('w, 'r) ring_heap \<Rightarrow>
   (ring_error, unit) outcome \<times> ma_ring \<times> ('w, 'r) ring_heap" where
  "configure_que alloc new n_que r h = alloc_rings alloc new 0 n_que (r\<lparr>rings := vec_resize n_que NULL (rings r)\<rparr>) h"

fun free_rings :: "(addr \<Rightarrow> 'w \<Rightarrow> 'w) \<Rightarrow> addr list \<Rightarrow> ('w, 'r) ring_heap \<Rightarrow> ('w, 'r) ring_heap" where
  "free_rings free [] h = h"
| "free_rings free (p # ps) h = free_rings free ps (h\<lparr>rworld := free p (rworld h), rmem := (rmem h)(p := None)\<rparr>)"

definition reset_que :: "(addr \<Rightarrow> 'w \<Rightarrow> 'w) \<Rightarrow> ma_ring \<Rightarrow> ('w, 'r) ring_heap \<Rightarrow> ma_ring \<times> ('w, 'r) ring_heap" where
  "reset_que free r h = (r\<lparr>rings := []\<rparr>, free_rings free (rings r) h)"

subsection \<open>Bursts\<close>

definition get_next_enqid_from_aid :: "nat \<Rightarrow> ma_ring \<Rightarrow> nat option" where
  "get_next_enqid_from_aid aid r =
     (if length (enq_accessors r) \<le> aid then None else acc_current (enq_accessors r ! aid))"

definition get_next_deqid_from_aid :: "nat \<Rightarrow> ma_ring \<Rightarrow> nat option" where
  "get_next_deqid_from_aid aid r =
     (if length (deq_accessors r) \<le> aid then None else acc_current (deq_accessors r ! aid))"

definition enqueue_burst ::
  "('r, 'a) ring_api \<Rightarrow> nat \<Rightarrow> 'a list \<Rightarrow> ma_ring \<Rightarrow> ('w, 'r) ring_heap \<Rightarrow> (nat \<times> ma_ring \<times> ('w, 'r) ring_heap) option" where
  "enqueue_burst R aid objs r h =
     (if length (enq_accessors r) \<le> aid then None
      else do {
        (idx, a) \<leftarrow> acc_get (enq_accessors r ! aid);
        let r = r\<lparr>enq_accessors := (enq_accessors r)[aid := a]\<rparr>;
        if length (rings r) \<le> idx then None
        else do {
          ring \<leftarrow> rmem h (rings r ! idx);
          let (n, ring) = ra_enq R ring objs;
          Some (n, r\<lparr>prod_pps_sum := prod_pps_sum r + of_nat n\<rparr>, h\<lparr>rmem := (rmem h)(rings r ! idx \<mapsto> ring)\<rparr>) } })"

definition dequeue_burst ::
  "('r, 'a) ring_api \<Rightarrow> nat \<Rightarrow> nat \<Rightarrow> ma_ring \<Rightarrow> ('w, 'r) ring_heap \<Rightarrow> ('a list \<times> ma_ring \<times> ('w, 'r) ring_heap) option" where
  "dequeue_burst R aid n r h =
     (if length (deq_accessors r) \<le> aid then None
      else do {
        (idx, a) \<leftarrow> acc_get (deq_accessors r ! aid);
        let r = r\<lparr>deq_accessors := (deq_accessors r)[aid := a]\<rparr>;
        if length (rings r) \<le> idx then None
        else do {
          ring \<leftarrow> rmem h (rings r ! idx);
          let (objs, ring) = ra_deq R ring n;
          Some (objs, r\<lparr>cons_pps_sum := cons_pps_sum r + of_nat (length objs)\<rparr>, h\<lparr>rmem := (rmem h)(rings r ! idx \<mapsto> ring)\<rparr>) } })"

subsection \<open>Sharing out the rings\<close>

definition ring_shares :: "nat \<Rightarrow> nat \<Rightarrow> nat list list" where
  "ring_shares n_que n_acc = deal n_acc 0 (n_que div n_acc)"

lemma deal_eq: "deal a (c * m) m = map (\<lambda>k. [(c + k) * m..<Suc (c + k) * m]) [0..<a]"
proof (induction a arbitrary: c)
  case (Suc a)
  have s: "map (\<lambda>i. i + c * m) [0..<m] = [c * m..<Suc c * m]" by (simp add: map_add_upt add.commute)
  have "deal (Suc a) (c * m) m = [c * m..<Suc c * m] # deal a (Suc c * m) m"
    by (simp only: deal.simps s) (simp add: add.commute)
  also have "\<dots> = [(c + 0) * m..<Suc (c + 0) * m] # map (\<lambda>k. [(c + Suc k) * m..<Suc (c + Suc k) * m]) [0..<a]"
    by (simp only: Suc.IH [of "Suc c"]) simp
  also have "\<dots> = map (\<lambda>k. [(c + k) * m..<Suc (c + k) * m]) [0..<Suc a]"
    by (simp add: upt_rec [of 0 "Suc a"] map_Suc_upt [symmetric] comp_def del: upt_Suc mult_Suc)
  finally show ?case .
qed simp

interpretation rsh: queue_shares ring_shares
proof
  fix n_acc n_que :: nat
  show "ring_shares n_que n_acc = map (\<lambda>k. [k * (n_que div n_acc)..<Suc k * (n_que div n_acc)]) [0..<n_acc]"
    using deal_eq [of n_acc 0 "n_que div n_acc"] by (simp add: ring_shares_def)
qed

lemma configure_acc_ok:
  "0 < n_enq \<Longrightarrow> 0 < n_deq \<Longrightarrow> length (rings r) mod n_enq = 0 \<Longrightarrow> length (rings r) mod n_deq = 0 \<Longrightarrow>
     configure_acc junk n_enq n_deq r = Some (Return (),
       r\<lparr>deq_accessors := map acc_set (ring_shares (length (rings r)) n_deq),
         enq_accessors := map acc_set (ring_shares (length (rings r)) n_enq)\<rparr>)"
  by (simp add: configure_acc_def configure_deq_acc_def configure_enq_acc_def Let_def ring_shares_def)

text \<open>\<open>configure_acc\<close> on every input: it faults (a remainder by zero) for no accessors, throws when
  the accessors do not divide the rings, and otherwise shares the rings out: on each side the lists
  of the accessors are disjoint runs that together are exactly the rings.\<close>

theorem ring_configure_acc:
  "configure_acc junk n_enq n_deq r =
    (if n_deq = 0 then None
     else if length (rings r) mod n_deq \<noteq> 0
       then Some (Throw (Invalid_deq n_deq (length (rings r))),
         r\<lparr>deq_accessors := vec_resize n_deq (new_accessor junk) (deq_accessors r)\<rparr>)
     else if n_enq = 0 then None
     else let deq = map acc_set (ring_shares (length (rings r)) n_deq) in
       if length (rings r) mod n_enq \<noteq> 0
       then Some (Throw (Invalid_enq n_enq (length (rings r))),
         r\<lparr>deq_accessors := deq, enq_accessors := vec_resize n_enq (new_accessor junk) (enq_accessors r)\<rparr>)
     else Some (Return (), r\<lparr>deq_accessors := deq, enq_accessors := map acc_set (ring_shares (length (rings r)) n_enq)\<rparr>)) \<and>
   (0 < n_enq \<longrightarrow> length (rings r) mod n_enq = 0 \<longrightarrow>
     concat (ring_shares (length (rings r)) n_enq) = [0..<length (rings r)] \<and>
     (\<forall>i<n_enq. \<forall>j<n_enq. i \<noteq> j \<longrightarrow>
       set (ring_shares (length (rings r)) n_enq ! i) \<inter> set (ring_shares (length (rings r)) n_enq ! j) = {}))"
  using rsh.shares_partition [of n_enq "length (rings r)"] rsh.shares_disjoint [of n_enq "length (rings r)"]
  by (simp add: configure_acc_def configure_deq_acc_def configure_enq_acc_def Let_def ring_shares_def)

subsection \<open>Conservation\<close>

definition acc_ok :: "nat \<Rightarrow> accessor \<Rightarrow> bool" where
  "acc_ok n a \<longleftrightarrow> accessor_idx a < length (ques a) \<and> (\<forall>q\<in>set (ques a). q < n)"

definition ring_ok :: "ma_ring \<Rightarrow> ('w, 'r) ring_heap \<Rightarrow> bool" where
  "ring_ok r h \<longleftrightarrow> (\<forall>a\<in>set (enq_accessors r) \<union> set (deq_accessors r). acc_ok (length (rings r)) a) \<and>
     distinct (rings r) \<and> set (rings r) \<subseteq> dom (rmem h)"

text \<open>Everything the rings hold.\<close>

definition contents :: "('r, 'a) ring_api \<Rightarrow> ma_ring \<Rightarrow> ('w, 'r) ring_heap \<Rightarrow> 'a multiset" where
  "contents R r h = sum_list (map (\<lambda>p. mset (ra_items R (the (rmem h p)))) (rings r))"

lemma acc_get_acc_ok:
  assumes "acc_ok n a"
  obtains q a' where "acc_get a = Some (q, a')" "acc_ok n a'" "q < n"
proof -
  have lt: "accessor_idx a < length (ques a)" using assms by (simp add: acc_ok_def)
  then have "0 < length (ques a)" by linarith
  then show ?thesis
    using that acc_get_ok [OF lt] assms lt by (simp add: acc_ok_def)
qed

lemma contents_upd:
  assumes "ring_ok r h" "i < length (rings r)" "rmem h (rings r ! i) = Some ring"
    "mset (ra_items R ring') + B = mset (ra_items R ring) + C"
  shows "contents R r (h\<lparr>rmem := (rmem h)(rings r ! i \<mapsto> ring')\<rparr>) + B = contents R r h + C"
proof -
  let ?f = "\<lambda>p. mset (ra_items R (the (rmem h p)))"
  let ?g = "\<lambda>p. mset (ra_items R (the (((rmem h)(rings r ! i \<mapsto> ring')) p)))"
  have d: "distinct (rings r)" using assms(1) by (simp add: ring_ok_def)
  have split: "rings r = take i (rings r) @ rings r ! i # drop (Suc i) (rings r)" using id_take_nth_drop [OF assms(2)] .
  have n: "rings r ! i \<notin> set (take i (rings r))" "rings r ! i \<notin> set (drop (Suc i) (rings r))"
    using d assms(2) by (metis split not_distinct_conv_prefix distinct.simps(2) distinct_append disjoint_iff list.set_intros(1))+
  have eq: "map ?g (take i (rings r)) = map ?f (take i (rings r))" "map ?g (drop (Suc i) (rings r)) = map ?f (drop (Suc i) (rings r))"
    using n by auto
  have "sum_list (map ?f (rings r)) = sum_list (map ?f (take i (rings r))) + ?f (rings r ! i) + sum_list (map ?f (drop (Suc i) (rings r)))"
    by (subst split) (simp add: add.assoc)
  moreover have "sum_list (map ?g (rings r)) = sum_list (map ?f (take i (rings r))) + ?g (rings r ! i) + sum_list (map ?f (drop (Suc i) (rings r)))"
    by (subst split) (simp add: add.assoc eq del: fun_upd_apply map_eq_conv)
  ultimately show ?thesis using assms(3,4) by (simp add: contents_def)
qed

lemma enqueue_burst_ok:
  assumes R: "ring_laws R" and I: "ring_ok r h" and aid: "aid < length (enq_accessors r)"
  shows "\<exists>n r' h'. enqueue_burst R aid xs r h = Some (n, r', h') \<and> n \<le> length xs \<and> ring_ok r' h' \<and> rings r' = rings r \<and>
    length (enq_accessors r') = length (enq_accessors r) \<and> deq_accessors r' = deq_accessors r \<and>
    contents R r' h' = contents R r h + mset (take n xs) \<and>
    prod_pps_sum r' = prod_pps_sum r + of_nat n \<and> cons_pps_sum r' = cons_pps_sum r"
proof -
  have "acc_ok (length (rings r)) (enq_accessors r ! aid)" using I aid by (simp add: ring_ok_def)
  then obtain q a where a: "acc_get (enq_accessors r ! aid) = Some (q, a)" "acc_ok (length (rings r)) a" "q < length (rings r)"
    by (rule acc_get_acc_ok)
  then obtain ring where ring: "rmem h (rings r ! q) = Some ring" using I unfolding ring_ok_def by (meson domD nth_mem subsetD)
  obtain n ring' where e: "ra_enq R ring xs = (n, ring')" by fastforce
  note L = ring_enq [OF R e]
  let ?r = "r\<lparr>enq_accessors := (enq_accessors r)[aid := a], prod_pps_sum := prod_pps_sum r + of_nat n\<rparr>"
  let ?h = "h\<lparr>rmem := (rmem h)(rings r ! q \<mapsto> ring')\<rparr>"
  have "enqueue_burst R aid xs r h = Some (n, ?r, ?h)"
    using aid a ring e by (simp add: enqueue_burst_def Let_def)
  moreover have "ring_ok ?r ?h"
    using I a(2) unfolding ring_ok_def by (auto dest!: subsetD [OF set_update_subset_insert])
  moreover have "contents R ?r ?h = contents R r h + mset (take n xs)"
    using contents_upd [OF I a(3) ring, of R ring' "{#}" "mset (take n xs)"] L(2) by (simp add: contents_def)
  ultimately show ?thesis using L(1) by (intro exI conjI) (assumption | simp)+
qed

lemma dequeue_burst_ok:
  assumes R: "ring_laws R" and I: "ring_ok r h" and aid: "aid < length (deq_accessors r)"
  shows "\<exists>ys r' h'. dequeue_burst R aid n r h = Some (ys, r', h') \<and> length ys \<le> n \<and> ring_ok r' h' \<and> rings r' = rings r \<and>
    length (deq_accessors r') = length (deq_accessors r) \<and> enq_accessors r' = enq_accessors r \<and>
    contents R r' h' + mset ys = contents R r h \<and>
    cons_pps_sum r' = cons_pps_sum r + of_nat (length ys) \<and> prod_pps_sum r' = prod_pps_sum r"
proof -
  have "acc_ok (length (rings r)) (deq_accessors r ! aid)" using I aid by (simp add: ring_ok_def)
  then obtain q a where a: "acc_get (deq_accessors r ! aid) = Some (q, a)" "acc_ok (length (rings r)) a" "q < length (rings r)"
    by (rule acc_get_acc_ok)
  then obtain ring where ring: "rmem h (rings r ! q) = Some ring" using I unfolding ring_ok_def by (meson domD nth_mem subsetD)
  obtain ys ring' where e: "ra_deq R ring n = (ys, ring')" by fastforce
  note L = ring_deq [OF R e]
  let ?r = "r\<lparr>deq_accessors := (deq_accessors r)[aid := a], cons_pps_sum := cons_pps_sum r + of_nat (length ys)\<rparr>"
  let ?h = "h\<lparr>rmem := (rmem h)(rings r ! q \<mapsto> ring')\<rparr>"
  have "dequeue_burst R aid n r h = Some (ys, ?r, ?h)"
    using aid a ring e by (simp add: dequeue_burst_def Let_def)
  moreover have "ring_ok ?r ?h"
    using I a(2) unfolding ring_ok_def by (auto dest!: subsetD [OF set_update_subset_insert])
  moreover have "contents R ?r ?h + mset ys = contents R r h"
    using contents_upd [OF I a(3) ring, of R ring' "mset ys" "{#}"] L(2) by (simp add: contents_def union_commute)
  ultimately show ?thesis using L(1) by (intro exI conjI) (assumption | simp)+
qed

datatype 'a ring_op = Enq nat "'a list" | Deq nat nat

fun run_rings ::
  "('r, 'a) ring_api \<Rightarrow> 'a ring_op list \<Rightarrow> ma_ring \<Rightarrow> ('w, 'r) ring_heap \<Rightarrow>
   ('a multiset \<times> 'a multiset \<times> ma_ring \<times> ('w, 'r) ring_heap) option" where
  "run_rings R [] r h = Some ({#}, {#}, r, h)"
| "run_rings R (Enq aid xs # ops) r h = do {
     (n, r, h) \<leftarrow> enqueue_burst R aid xs r h;
     (i, p, r, h) \<leftarrow> run_rings R ops r h;
     Some (mset (take n xs) + i, p, r, h) }"
| "run_rings R (Deq aid n # ops) r h = do {
     (ys, r, h) \<leftarrow> dequeue_burst R aid n r h;
     (i, p, r, h) \<leftarrow> run_rings R ops r h;
     Some (i, mset ys + p, r, h) }"

definition aids_ok :: "ma_ring \<Rightarrow> 'a ring_op list \<Rightarrow> bool" where
  "aids_ok r ops \<longleftrightarrow> (\<forall>x\<in>set ops. case x of Enq aid xs \<Rightarrow> aid < length (enq_accessors r) | Deq aid n \<Rightarrow> aid < length (deq_accessors r))"

lemma aids_ok_Cons:
  "aids_ok r (x # ops) \<Longrightarrow> length (enq_accessors r1) = length (enq_accessors r) \<Longrightarrow>
     length (deq_accessors r1) = length (deq_accessors r) \<Longrightarrow> aids_ok r1 ops"
  by (auto simp: aids_ok_def split: ring_op.splits)

text \<open>C9. Whatever the interleaving of bursts by whatever access ids: no call faults, the packets the
  rings accepted plus those they held are those delivered plus those they hold now, and the
  statistics count exactly the accepted and the delivered packets (modulo \<open>2^64\<close>).\<close>

theorem ring_conservation:
  assumes "ring_laws R" "ring_ok r h" "aids_ok r ops"
  shows "\<exists>i p r' h'. run_rings R ops r h = Some (i, p, r', h') \<and> ring_ok r' h' \<and>
    contents R r h + i = p + contents R r' h' \<and>
    prod_pps_sum r' = prod_pps_sum r + of_nat (size i) \<and> cons_pps_sum r' = cons_pps_sum r + of_nat (size p)"
  using assms(2,3)
proof (induction ops arbitrary: r h)
  case Nil
  then show ?case by simp
next
  case (Cons x ops)
  show ?case
  proof (cases x)
    case (Enq aid xs)
    then have "aid < length (enq_accessors r)" using Cons.prems by (simp add: aids_ok_def)
    then obtain n r1 h1 where s: "enqueue_burst R aid xs r h = Some (n, r1, h1)" "n \<le> length xs" "ring_ok r1 h1"
      "length (enq_accessors r1) = length (enq_accessors r)" "deq_accessors r1 = deq_accessors r"
      "contents R r1 h1 = contents R r h + mset (take n xs)"
      "prod_pps_sum r1 = prod_pps_sum r + of_nat n" "cons_pps_sum r1 = cons_pps_sum r"
      using enqueue_burst_ok [OF assms(1) Cons.prems(1)] by blast
    have "aids_ok r1 ops" using aids_ok_Cons [OF Cons.prems(2)] s(4,5) by simp
    then obtain i p r' h' where "run_rings R ops r1 h1 = Some (i, p, r', h')" "ring_ok r' h'"
      "contents R r1 h1 + i = p + contents R r' h'"
      "prod_pps_sum r' = prod_pps_sum r1 + of_nat (size i)" "cons_pps_sum r' = cons_pps_sum r1 + of_nat (size p)"
      using Cons.IH [OF s(3)] by blast
    then show ?thesis using Enq s by (simp add: add.assoc min_absorb2)
  next
    case (Deq aid n)
    then have "aid < length (deq_accessors r)" using Cons.prems by (simp add: aids_ok_def)
    then obtain ys r1 h1 where s: "dequeue_burst R aid n r h = Some (ys, r1, h1)" "ring_ok r1 h1"
      "length (deq_accessors r1) = length (deq_accessors r)" "enq_accessors r1 = enq_accessors r"
      "contents R r1 h1 + mset ys = contents R r h"
      "cons_pps_sum r1 = cons_pps_sum r + of_nat (length ys)" "prod_pps_sum r1 = prod_pps_sum r"
      using dequeue_burst_ok [OF assms(1) Cons.prems(1)] by blast
    have "aids_ok r1 ops" using aids_ok_Cons [OF Cons.prems(2)] s(3,4) by simp
    then obtain i p r' h' where t: "run_rings R ops r1 h1 = Some (i, p, r', h')" "ring_ok r' h'"
      "contents R r1 h1 + i = p + contents R r' h'"
      "prod_pps_sum r' = prod_pps_sum r1 + of_nat (size i)" "cons_pps_sum r' = cons_pps_sum r1 + of_nat (size p)"
      using Cons.IH [OF s(2)] by blast
    have "contents R r h + i = (mset ys + p) + contents R r' h'"
      using t(3) s(5) by (metis add.assoc add.commute)
    then show ?thesis using Deq s t by (simp add: add.assoc)
  qed
qed

text \<open>A ring of four queues with two producers and one consumer.\<close>

definition four_heap :: "(unit, nat list) ring_heap" where
  "four_heap = \<lparr>rworld = (), rmem = [1 \<mapsto> [], 2 \<mapsto> [], 3 \<mapsto> [], 4 \<mapsto> []]\<rparr>"

definition four_ring :: ma_ring where
  "four_ring = (ssn_ma_ring 0 0 ''r'')\<lparr>rings := [1, 2, 3, 4],
     enq_accessors := map acc_set (ring_shares 4 2), deq_accessors := map acc_set (ring_shares 4 1)\<rparr>"

lemma shares_4: "ring_shares 4 2 = [[0, 1], [2, 3]]" "ring_shares 4 1 = [[0, 1, 2, 3]]"
  by code_simp+

theorem ring_conservation_witness:
  "\<exists>i p r' h'. run_rings (list_ring 2) [Enq 1 [7, 8, 9], Enq 0 [5], Deq 0 4, Deq 0 4] four_ring four_heap = Some (i, p, r', h') \<and> ring_ok r' h' \<and>
    contents (list_ring 2) four_ring four_heap + i = p + contents (list_ring 2) r' h' \<and>
    prod_pps_sum r' = prod_pps_sum four_ring + of_nat (size i) \<and> cons_pps_sum r' = cons_pps_sum four_ring + of_nat (size p)"
  by (rule ring_conservation [OF list_ring_laws])
    (auto simp: ring_ok_def acc_ok_def aids_ok_def four_ring_def four_heap_def shares_4 shares_4(2) [unfolded One_nat_def] acc_set_def)

text \<open>After a refused \<open>configure_deq_acc\<close> on a ring with no accessors yet, the accessors are there
  but hold no queue: every dequeue through them faults.\<close>

theorem ring_refused_faults:
  assumes "deq_accessors r = []" "configure_deq_acc junk n r = Some (Throw e, r')"
  shows "length (deq_accessors r') = n \<and> dequeue_burst R aid k r' h = None"
proof -
  have r': "r' = r\<lparr>deq_accessors := replicate n (new_accessor junk)\<rparr>"
    using assms by (simp add: configure_deq_acc_def Let_def vec_resize_def split: if_splits)
  show ?thesis
  proof (cases "aid < n")
    case True
    then have "acc_get (deq_accessors r' ! aid) = None" using r' by (simp add: acc_get_def new_accessor_def)
    then show ?thesis using r' True by (simp add: dequeue_burst_def)
  qed (use r' in \<open>simp add: dequeue_burst_def\<close>)
qed

theorem ring_refused_faults_witness:
  "\<exists>r'. configure_deq_acc 0 3 (four_ring\<lparr>deq_accessors := []\<rparr>) = Some (Throw (Invalid_deq 3 4), r') \<and>
    length (deq_accessors r') = 3 \<and> dequeue_burst (list_ring 2) 1 4 r' four_heap = None"
proof -
  let ?r' = "four_ring\<lparr>deq_accessors := replicate 3 (new_accessor 0)\<rparr>"
  have c: "configure_deq_acc 0 3 (four_ring\<lparr>deq_accessors := []\<rparr>) = Some (Throw (Invalid_deq 3 4), ?r')"
    by (simp add: configure_deq_acc_def Let_def vec_resize_def four_ring_def)
  from ring_refused_faults [OF _ c, of "list_ring 2" 1 4 four_heap] c show ?thesis by simp
qed

theorem ring_configure_acc_witness:
  "configure_acc 0 2 1 four_ring = Some (Return (),
     four_ring\<lparr>deq_accessors := map acc_set (ring_shares 4 1), enq_accessors := map acc_set (ring_shares 4 2)\<rparr>) \<and>
   concat (ring_shares 4 2) = [0..<4] \<and>
   set (ring_shares 4 2 ! 0) \<inter> set (ring_shares 4 2 ! 1) = {}"
proof -
  have "length (rings four_ring) = 4" by (simp add: four_ring_def)
  then show ?thesis using ring_configure_acc [of 0 2 1 four_ring] by (simp only:) simp
qed

end
