(* ===== verification/Ma_Port.thy ===== *)
theory Ma_Port
  imports Ma_Access
begin

section \<open>The multi-accessible port (lib/libsusanow/ssn_ma_port.cc)\<close>

text \<open>
  Each physical port has hardware receive and transmit queues; access ids share them out. The
  instances \<open>vnf_ports\<close> are a list, one per port; the two sides of a port are the same record with a
  different burst call. \<open>ssn_log\<close> calls and the dumps are left out.
\<close>

record ma_queue =
  que_id :: nat
  acc_id :: nat

record oneside =
  os_port_id :: nat
  nb_queues :: nat
  n_accessor :: nat
  queues :: "ma_queue list"
  accessors :: "accessor list"

record ssn_ma_port =
  dpdk_pid :: nat
  n_rxq :: nat
  n_txq :: nat
  side_rx :: oneside
  side_tx :: oneside

datatype port_error = Bad_queue_split nat nat | Invalid_port nat | Port_configure_failed

definition ssn_ma_port_oneside :: "nat \<Rightarrow> nat \<Rightarrow> oneside" where
  "ssn_ma_port_oneside junk1 junk2 = \<lparr>os_port_id = junk1, nb_queues = 1, n_accessor = 1, queues = [],
     accessors = [new_accessor junk2]\<rparr>"

definition get_qids_from_aid :: "nat \<Rightarrow> oneside \<Rightarrow> nat list" where
  "get_qids_from_aid aid o1 = map que_id (filter (\<lambda>q. acc_id q = aid) (queues o1))"

definition n_queues_per_accessor :: "oneside \<Rightarrow> (port_error, nat) outcome option" where
  "n_queues_per_accessor o1 =
     (if n_accessor o1 = 0 then None
      else if nb_queues o1 mod n_accessor o1 \<noteq> 0 then Some (Throw (Bad_queue_split (nb_queues o1) (n_accessor o1)))
      else Some (Return (nb_queues o1 div n_accessor o1)))"

text \<open>The outer loop of \<open>configure_queue_accessor\<close>: \<open>k\<close> accessors to go, from \<open>aid\<close> and \<open>qid\<close> on.\<close>

fun push_queues :: "nat \<Rightarrow> nat \<Rightarrow> nat \<Rightarrow> oneside \<Rightarrow> ((port_error, unit) outcome \<times> oneside) option" where
  "push_queues 0 aid qid o1 = Some (Return (), o1)"
| "push_queues (Suc k) aid qid o1 = do {
     r \<leftarrow> n_queues_per_accessor o1;
     case r of Throw e \<Rightarrow> Some (Throw e, o1)
     | Return m \<Rightarrow> push_queues k (aid + 1) (qid + m)
         (o1\<lparr>queues := queues o1 @ map (\<lambda>p. \<lparr>que_id = qid + p, acc_id = aid\<rparr>) [0..<m]\<rparr>) }"

definition configure_queue_accessor ::
  "nat \<Rightarrow> nat \<Rightarrow> nat \<Rightarrow> nat \<Rightarrow> oneside \<Rightarrow> ((port_error, unit) outcome \<times> oneside) option" where
  "configure_queue_accessor junk pid n_que n_acc o1 = do {
     let o1 = o1\<lparr>os_port_id := pid, nb_queues := n_que, n_accessor := n_acc, queues := [],
                accessors := vec_resize n_acc (new_accessor junk) (accessors o1)\<rparr>;
     (r, o1) \<leftarrow> push_queues n_acc 0 0 o1;
     case r of Throw e \<Rightarrow> Some (Throw e, o1)
     | Return _ \<Rightarrow> Some (Return (), o1\<lparr>accessors := map (\<lambda>aid. acc_set (get_qids_from_aid aid o1)) [0..<n_acc]\<rparr>) }"

text \<open>The two \<open>burst\<close> overrides.\<close>

definition oneside_rx_burst :: "'h eth_api \<Rightarrow> nat \<Rightarrow> nat \<Rightarrow> oneside \<Rightarrow> 'h \<Rightarrow> (mbuf list \<times> oneside \<times> 'h) option" where
  "oneside_rx_burst api aid n o1 h =
     (if length (accessors o1) \<le> aid then None
      else do {
        (qid, a) \<leftarrow> acc_get (accessors o1 ! aid);
        let (ms, h) = eth_rx_burst api (os_port_id o1) qid n h;
        Some (ms, o1\<lparr>accessors := (accessors o1)[aid := a]\<rparr>, h) })"

definition oneside_tx_burst :: "'h eth_api \<Rightarrow> nat \<Rightarrow> mbuf list \<Rightarrow> oneside \<Rightarrow> 'h \<Rightarrow> (nat \<times> oneside \<times> 'h) option" where
  "oneside_tx_burst api aid ms o1 h =
     (if length (accessors o1) \<le> aid then None
      else do {
        (qid, a) \<leftarrow> acc_get (accessors o1 ! aid);
        let (n, h) = eth_tx_burst api (os_port_id o1) qid ms h;
        Some (n, o1\<lparr>accessors := (accessors o1)[aid := a]\<rparr>, h) })"

definition get_next_qid_from_aid :: "nat \<Rightarrow> oneside \<Rightarrow> nat option" where
  "get_next_qid_from_aid aid o1 = (if length (accessors o1) \<le> aid then None else acc_current (accessors o1 ! aid))"

subsection \<open>The port\<close>

definition configure_hwqueue ::
  "'h eth_api \<Rightarrow> nat \<Rightarrow> nat \<Rightarrow> nat \<Rightarrow> addr \<Rightarrow> ssn_ma_port \<Rightarrow> 'h \<Rightarrow> (port_error, unit) outcome \<times> ssn_ma_port \<times> 'h" where
  "configure_hwqueue api pid rxq txq mp p h =
     (let conf = (eth_init_conf api)\<lparr>mq_rss := True, rss_key := NULL, rss_hf := {ETH_RSS_IP, ETH_RSS_TCP, ETH_RSS_UDP}\<rparr>;
          (ok, h) = eth_configure api pid rxq txq conf mp h in
      if \<not> ok then (Throw Port_configure_failed, p, h)
      else (Return (), p\<lparr>n_rxq := rxq, n_txq := txq, dpdk_pid := pid\<rparr>, h))"

definition configure_accessor :: "nat \<Rightarrow> nat \<Rightarrow> nat \<Rightarrow> ssn_ma_port \<Rightarrow> ((port_error, unit) outcome \<times> ssn_ma_port) option" where
  "configure_accessor junk n_rxacc n_txacc p = do {
     (r, o1) \<leftarrow> configure_queue_accessor junk (dpdk_pid p) (n_rxq p) n_rxacc (side_rx p);
     let p = p\<lparr>side_rx := o1\<rparr>;
     case r of Throw e \<Rightarrow> Some (Throw e, p)
     | Return _ \<Rightarrow> do {
         (r, o1) \<leftarrow> configure_queue_accessor junk (dpdk_pid p) (n_txq p) n_txacc (side_tx p);
         Some (r, p\<lparr>side_tx := o1\<rparr>) } }"

definition port_rx_burst :: "'h eth_api \<Rightarrow> nat \<Rightarrow> nat \<Rightarrow> ssn_ma_port \<Rightarrow> 'h \<Rightarrow> (mbuf list \<times> ssn_ma_port \<times> 'h) option" where
  "port_rx_burst api aid n p h = do {
     (ms, o1, h) \<leftarrow> oneside_rx_burst api aid n (side_rx p) h;
     Some (ms, p\<lparr>side_rx := o1\<rparr>, h) }"

definition port_tx_burst :: "'h eth_api \<Rightarrow> nat \<Rightarrow> mbuf list \<Rightarrow> ssn_ma_port \<Rightarrow> 'h \<Rightarrow> (nat \<times> ssn_ma_port \<times> 'h) option" where
  "port_tx_burst api aid ms p h = do {
     (n, o1, h) \<leftarrow> oneside_tx_burst api aid ms (side_tx p) h;
     Some (n, p\<lparr>side_tx := o1\<rparr>, h) }"

subsection \<open>The API over \<open>vnf_ports\<close>\<close>

type_synonym vnf_ports = "ssn_ma_port list"

definition RTE_MAX_ETHPORTS :: nat where
  "RTE_MAX_ETHPORTS = 32"

definition port_at :: "nat \<Rightarrow> vnf_ports \<Rightarrow> ssn_ma_port option" where
  "port_at pid ps = (if pid < length ps then Some (ps ! pid) else None)"

definition ssn_ma_port_link_up :: "'h eth_api \<Rightarrow> nat \<Rightarrow> 'h \<Rightarrow> 'h" where
  "ssn_ma_port_link_up api pid h = eth_link_up api pid h"

definition ssn_ma_port_link_down :: "'h eth_api \<Rightarrow> nat \<Rightarrow> 'h \<Rightarrow> 'h" where
  "ssn_ma_port_link_down api pid h = eth_link_down api pid h"

definition ssn_ma_port_promisc_on :: "'h eth_api \<Rightarrow> nat \<Rightarrow> 'h \<Rightarrow> 'h" where
  "ssn_ma_port_promisc_on api pid h = eth_promisc_on api pid h"

definition ssn_ma_port_promisc_off :: "'h eth_api \<Rightarrow> nat \<Rightarrow> 'h \<Rightarrow> 'h" where
  "ssn_ma_port_promisc_off api pid h = eth_promisc_off api pid h"

definition ssn_ma_port_dev_up :: "'h eth_api \<Rightarrow> nat \<Rightarrow> 'h \<Rightarrow> 'h" where
  "ssn_ma_port_dev_up api pid h = eth_start api pid h"

definition ssn_ma_port_dev_down :: "'h eth_api \<Rightarrow> nat \<Rightarrow> 'h \<Rightarrow> 'h" where
  "ssn_ma_port_dev_down api pid h = eth_stop api pid h"

definition ssn_ma_port_configure_hw ::
  "'h eth_api \<Rightarrow> nat \<Rightarrow> nat \<Rightarrow> nat \<Rightarrow> addr \<Rightarrow> vnf_ports \<Rightarrow> 'h \<Rightarrow> ((port_error, unit) outcome \<times> vnf_ports \<times> 'h) option" where
  "ssn_ma_port_configure_hw api pid rxq txq mp ps h =
     (if \<not> eth_valid api pid h then Some (Throw (Invalid_port pid), ps, h)
      else do {
        p \<leftarrow> port_at pid ps;
        let (r, p, h) = configure_hwqueue api pid rxq txq mp p h;
        Some (r, ps[pid := p], h) })"

definition ssn_ma_port_configure_acc ::
  "'h eth_api \<Rightarrow> nat \<Rightarrow> nat \<Rightarrow> nat \<Rightarrow> nat \<Rightarrow> vnf_ports \<Rightarrow> 'h \<Rightarrow> ((port_error, unit) outcome \<times> vnf_ports) option" where
  "ssn_ma_port_configure_acc api junk pid n_rxacc n_txacc ps h =
     (if \<not> eth_valid api pid h then Some (Throw (Invalid_port pid), ps)
      else do {
        p \<leftarrow> port_at pid ps;
        (r, p) \<leftarrow> configure_accessor junk n_rxacc n_txacc p;
        Some (r, ps[pid := p]) })"

definition ssn_ma_port_rx_burst ::
  "'h eth_api \<Rightarrow> nat \<Rightarrow> nat \<Rightarrow> nat \<Rightarrow> vnf_ports \<Rightarrow> 'h \<Rightarrow> (mbuf list \<times> vnf_ports \<times> 'h) option" where
  "ssn_ma_port_rx_burst api pid aid n ps h = do {
     p \<leftarrow> port_at pid ps;
     (ms, p, h) \<leftarrow> port_rx_burst api aid n p h;
     Some (ms, ps[pid := p], h) }"

definition ssn_ma_port_tx_burst ::
  "'h eth_api \<Rightarrow> nat \<Rightarrow> nat \<Rightarrow> mbuf list \<Rightarrow> vnf_ports \<Rightarrow> 'h \<Rightarrow> (nat \<times> vnf_ports \<times> 'h) option" where
  "ssn_ma_port_tx_burst api pid aid ms ps h = do {
     p \<leftarrow> port_at pid ps;
     (n, p, h) \<leftarrow> port_tx_burst api aid ms p h;
     Some (n, ps[pid := p], h) }"

definition ssn_ma_port_get_num_rx_hw :: "nat \<Rightarrow> vnf_ports \<Rightarrow> nat option" where
  "ssn_ma_port_get_num_rx_hw pid ps = map_option n_rxq (port_at pid ps)"

definition ssn_ma_port_get_num_tx_hw :: "nat \<Rightarrow> vnf_ports \<Rightarrow> nat option" where
  "ssn_ma_port_get_num_tx_hw pid ps = map_option n_txq (port_at pid ps)"

definition ssn_ma_port_get_num_rx_acc :: "nat \<Rightarrow> vnf_ports \<Rightarrow> nat option" where
  "ssn_ma_port_get_num_rx_acc pid ps = map_option (\<lambda>p. n_accessor (side_rx p)) (port_at pid ps)"

definition ssn_ma_port_get_num_tx_acc :: "nat \<Rightarrow> vnf_ports \<Rightarrow> nat option" where
  "ssn_ma_port_get_num_tx_acc pid ps = map_option (\<lambda>p. n_accessor (side_tx p)) (port_at pid ps)"

definition ssn_ma_port_get_next_rxqid_from_aid :: "nat \<Rightarrow> nat \<Rightarrow> vnf_ports \<Rightarrow> nat option" where
  "ssn_ma_port_get_next_rxqid_from_aid pid aid ps = do { p \<leftarrow> port_at pid ps; get_next_qid_from_aid aid (side_rx p) }"

definition ssn_ma_port_get_next_txqid_from_aid :: "nat \<Rightarrow> nat \<Rightarrow> vnf_ports \<Rightarrow> nat option" where
  "ssn_ma_port_get_next_txqid_from_aid pid aid ps = do { p \<leftarrow> port_at pid ps; get_next_qid_from_aid aid (side_tx p) }"

subsection \<open>How the queues are shared\<close>

lemma push_queues_ok:
  assumes "0 < n_accessor o1" "nb_queues o1 mod n_accessor o1 = 0"
  defines "m \<equiv> nb_queues o1 div n_accessor o1"
  shows "push_queues k aid (aid * m) o1 = Some (Return (),
    o1\<lparr>queues := queues o1 @ concat (map (\<lambda>i. map (\<lambda>p. \<lparr>que_id = i * m + p, acc_id = i\<rparr>) [0..<m]) [aid..<aid + k])\<rparr>)"
  using assms(1,2) unfolding m_def
proof (induction k arbitrary: aid o1)
  case (Suc k)
  let ?m = "nb_queues o1 div n_accessor o1"
  let ?o = "o1\<lparr>queues := queues o1 @ map (\<lambda>p. \<lparr>que_id = aid * ?m + p, acc_id = aid\<rparr>) [0..<?m]\<rparr>"
  have "push_queues (Suc k) aid (aid * ?m) o1 = push_queues k (Suc aid) (Suc aid * ?m) ?o"
    using Suc.prems by (simp add: n_queues_per_accessor_def add.commute)
  also have "\<dots> = Some (Return (), ?o\<lparr>queues := queues ?o @
      concat (map (\<lambda>i. map (\<lambda>p. \<lparr>que_id = i * ?m + p, acc_id = i\<rparr>) [0..<?m]) [Suc aid..<Suc aid + k])\<rparr>)"
    using Suc.IH [of ?o "Suc aid"] Suc.prems by simp
  moreover have "[aid..<aid + Suc k] = aid # [Suc aid..<Suc aid + k]" by (simp add: upt_conv_Cons del: upt_Suc)
  ultimately show ?case by (simp del: upt_Suc add_Suc_right add_Suc push_queues.simps)
qed simp

definition port_shares :: "nat \<Rightarrow> nat \<Rightarrow> nat list list" where
  "port_shares n_que n_acc = map (\<lambda>aid. map que_id (filter (\<lambda>q. acc_id q = aid)
     (concat (map (\<lambda>i. map (\<lambda>p. \<lparr>que_id = i * (n_que div n_acc) + p, acc_id = i\<rparr>) [0..<n_que div n_acc]) [0..<n_acc])))) [0..<n_acc]"

lemma filter_run: "filter (\<lambda>q. acc_id q = aid) (map (\<lambda>p. \<lparr>que_id = i * m + p, acc_id = i\<rparr>) [0..<m]) =
    (if i = aid then map (\<lambda>p. \<lparr>que_id = i * m + p, acc_id = i\<rparr>) [0..<m] else [])"
  by (induction m) auto

lemma filter_runs:
  "map que_id (filter (\<lambda>q. acc_id q = aid) (concat (map (\<lambda>i. map (\<lambda>p. \<lparr>que_id = i * m + p, acc_id = i\<rparr>) [0..<m]) [0..<a]))) =
    (if aid < a then [aid * m..<Suc aid * m] else [])"
proof (induction a)
  case (Suc a)
  have "map (\<lambda>p. a * m + p) [0..<m] = [a * m..<Suc a * m]" using map_add_upt [of "a * m" m] by (simp add: add.commute)
  then show ?case using Suc filter_run [of aid a m]
    by (cases "aid = a") (auto simp: comp_def simp del: mult_Suc)
qed simp

interpretation psh: queue_shares port_shares
proof
  fix n_acc n_que :: nat
  show "port_shares n_que n_acc = map (\<lambda>k. [k * (n_que div n_acc)..<Suc k * (n_que div n_acc)]) [0..<n_acc]"
    unfolding port_shares_def filter_runs by (rule map_cong) auto
qed

lemma configure_queue_accessor_ok:
  assumes "0 < n_acc" "n_que mod n_acc = 0"
  shows "\<exists>o'. configure_queue_accessor junk pid n_que n_acc o1 = Some (Return (), o') \<and> os_port_id o' = pid \<and>
    nb_queues o' = n_que \<and> n_accessor o' = n_acc \<and> accessors o' = map acc_set (port_shares n_que n_acc)"
proof -
  let ?o = "o1\<lparr>os_port_id := pid, nb_queues := n_que, n_accessor := n_acc, queues := [],
                accessors := vec_resize n_acc (new_accessor junk) (accessors o1)\<rparr>"
  have "push_queues n_acc 0 0 ?o = Some (Return (), ?o\<lparr>queues :=
      concat (map (\<lambda>i. map (\<lambda>p. \<lparr>que_id = i * (n_que div n_acc) + p, acc_id = i\<rparr>) [0..<n_que div n_acc]) [0..<n_acc])\<rparr>)"
    using push_queues_ok [of ?o n_acc 0] assms by simp
  then show ?thesis by (simp add: configure_queue_accessor_def Let_def get_qids_from_aid_def port_shares_def comp_def)
qed

subsection \<open>Properties\<close>

text \<open>\<open>configure_queue_accessor\<close> on every input. No accessors: it succeeds and leaves none, with no
  check of the queues. Accessors that do not divide the queues: it throws, with the old queue table
  gone. Else the accessors get disjoint runs of hardware queues that are together all of them.\<close>

theorem port_configure_queues:
  "(n_acc = 0 \<longrightarrow> (\<exists>o'. configure_queue_accessor junk pid n_que n_acc o1 = Some (Return (), o') \<and> accessors o' = [])) \<and>
   (n_acc > 0 \<longrightarrow> n_que mod n_acc \<noteq> 0 \<longrightarrow>
     (\<exists>o'. configure_queue_accessor junk pid n_que n_acc o1 = Some (Throw (Bad_queue_split n_que n_acc), o') \<and> queues o' = [])) \<and>
   (n_acc > 0 \<longrightarrow> n_que mod n_acc = 0 \<longrightarrow>
     (\<exists>o'. configure_queue_accessor junk pid n_que n_acc o1 = Some (Return (), o') \<and>
        concat (map ques (accessors o')) = [0..<n_que] \<and> length (accessors o') = n_acc \<and>
        (\<forall>i<n_acc. \<forall>j<n_acc. i \<noteq> j \<longrightarrow> set (ques (accessors o' ! i)) \<inter> set (ques (accessors o' ! j)) = {})))"
proof (intro conjI impI)
  assume "n_acc = 0"
  then show "\<exists>o'. configure_queue_accessor junk pid n_que n_acc o1 = Some (Return (), o') \<and> accessors o' = []"
    by (simp add: configure_queue_accessor_def Let_def)
next
  assume "n_acc > 0" "n_que mod n_acc \<noteq> 0"
  moreover from this obtain k where "n_acc = Suc k" by (cases n_acc) auto
  ultimately show "\<exists>o'. configure_queue_accessor junk pid n_que n_acc o1 = Some (Throw (Bad_queue_split n_que n_acc), o') \<and> queues o' = []"
    by (simp add: configure_queue_accessor_def Let_def n_queues_per_accessor_def)
next
  assume a: "n_acc > 0" "n_que mod n_acc = 0"
  obtain o' where o': "configure_queue_accessor junk pid n_que n_acc o1 = Some (Return (), o')" "accessors o' = map acc_set (port_shares n_que n_acc)"
    using configure_queue_accessor_ok [OF a] by blast
  have q: "map ques (accessors o') = port_shares n_que n_acc" using o'(2) by (simp add: comp_def acc_set_def)
  have l: "length (accessors o') = n_acc" using o'(2) psh.shares_length [OF a] by simp
  have "ques (accessors o' ! i) = port_shares n_que n_acc ! i" if "i < n_acc" for i
    using that l q by (metis nth_map)
  then have "\<forall>i<n_acc. \<forall>j<n_acc. i \<noteq> j \<longrightarrow> set (ques (accessors o' ! i)) \<inter> set (ques (accessors o' ! j)) = {}"
    using psh.shares_disjoint [OF a] by simp
  then show "\<exists>o'. configure_queue_accessor junk pid n_que n_acc o1 = Some (Return (), o') \<and>
        concat (map ques (accessors o')) = [0..<n_que] \<and> length (accessors o') = n_acc \<and>
        (\<forall>i<n_acc. \<forall>j<n_acc. i \<noteq> j \<longrightarrow> set (ques (accessors o' ! i)) \<inter> set (ques (accessors o' ! j)) = {})"
    using o'(1) q l psh.shares_partition [OF a] by auto
qed

text \<open>A port whose receive side is configured for \<open>n_acc\<close> access ids over \<open>n_que\<close> queues.\<close>

definition rx_configured :: "nat \<Rightarrow> nat \<Rightarrow> nat \<Rightarrow> vnf_ports \<Rightarrow> bool" where
  "rx_configured pid n_que n_acc ps \<longleftrightarrow> pid < length ps \<and> length (accessors (side_rx (ps ! pid))) = n_acc \<and>
     (\<forall>aid<n_acc. ques (accessors (side_rx (ps ! pid)) ! aid) = port_shares n_que n_acc ! aid \<and>
        accessor_idx (accessors (side_rx (ps ! pid)) ! aid) < length (port_shares n_que n_acc ! aid))"

text \<open>\<open>k\<close> receive bursts in a row, with the hardware queue that each one was about to poll.\<close>

fun rx_rounds ::
  "'h eth_api \<Rightarrow> nat \<Rightarrow> nat \<Rightarrow> nat \<Rightarrow> nat \<Rightarrow> vnf_ports \<Rightarrow> 'h \<Rightarrow> (nat list \<times> mbuf list \<times> vnf_ports \<times> 'h) option" where
  "rx_rounds api pid aid n 0 ps h = Some ([], [], ps, h)"
| "rx_rounds api pid aid n (Suc k) ps h = do {
     q \<leftarrow> ssn_ma_port_get_next_rxqid_from_aid pid aid ps;
     (ms, ps, h) \<leftarrow> ssn_ma_port_rx_burst api pid aid n ps h;
     (qs, ms', ps, h) \<leftarrow> rx_rounds api pid aid n k ps h;
     Some (q # qs, ms @ ms', ps, h) }"

lemma rx_rounds_gets:
  assumes "pid < length ps" "aid < length (accessors (side_rx (ps ! pid)))"
    "accessor_idx (accessors (side_rx (ps ! pid)) ! aid) < length (ques (accessors (side_rx (ps ! pid)) ! aid))"
    "acc_gets k (accessors (side_rx (ps ! pid)) ! aid) = Some (qs, a)"
  shows "\<exists>ms ps' h'. rx_rounds api pid aid n k ps h = Some (qs, ms, ps', h') \<and> pid < length ps' \<and>
    accessors (side_rx (ps' ! pid)) = (accessors (side_rx (ps ! pid)))[aid := a]"
  using assms
proof (induction k arbitrary: ps h qs)
  case 0
  then have "accessors (side_rx (ps ! pid)) ! aid = a" by simp
  then have "(accessors (side_rx (ps ! pid)))[aid := a] = accessors (side_rx (ps ! pid))" by (metis list_update_id)
  then show ?case using 0 by simp
next
  case (Suc k)
  let ?A = "accessors (side_rx (ps ! pid))"
  let ?a1 = "(?A ! aid)\<lparr>accessor_idx := (accessor_idx (?A ! aid) + 1) mod length (ques (?A ! aid))\<rparr>"
  note G = acc_get_ok [OF Suc.prems(3)]
  obtain qs' where q: "qs = ques (?A ! aid) ! accessor_idx (?A ! aid) # qs'" "acc_gets k ?a1 = Some (qs', a)"
    using Suc.prems(4) G by (auto split: bind_splits)
  obtain ms h1 where b: "eth_rx_burst api (os_port_id (side_rx (ps ! pid))) (ques (?A ! aid) ! accessor_idx (?A ! aid)) n h = (ms, h1)"
    by fastforce
  let ?p = "(ps ! pid)\<lparr>side_rx := (side_rx (ps ! pid))\<lparr>accessors := ?A[aid := ?a1]\<rparr>\<rparr>"
  let ?ps = "ps[pid := ?p]"
  have r: "ssn_ma_port_rx_burst api pid aid n ps h = Some (ms, ?ps, h1)"
    using Suc.prems(1,2) G b by (simp add: ssn_ma_port_rx_burst_def port_at_def port_rx_burst_def oneside_rx_burst_def)
  have n: "ssn_ma_port_get_next_rxqid_from_aid pid aid ps = Some (ques (?A ! aid) ! accessor_idx (?A ! aid))"
    using Suc.prems(1-3) by (simp add: ssn_ma_port_get_next_rxqid_from_aid_def port_at_def get_next_qid_from_aid_def acc_current_def)
  have pos: "0 < length (ques (?A ! aid))" using Suc.prems(3) by linarith
  have "\<exists>ms ps' h'. rx_rounds api pid aid n k ?ps h1 = Some (qs', ms, ps', h') \<and> pid < length ps' \<and>
      accessors (side_rx (ps' ! pid)) = (accessors (side_rx (?ps ! pid)))[aid := a]"
    by (rule Suc.IH) (use Suc.prems(1,2) q(2) pos in auto)
  then show ?case using r n q(1) Suc.prems(1) by auto
qed


definition demo_ports :: vnf_ports where
  "demo_ports = [\<lparr>dpdk_pid = 0, n_rxq = 4, n_txq = 4,
     side_rx = (ssn_ma_port_oneside 0 0)\<lparr>accessors := map acc_set (port_shares 4 2)\<rparr>, side_tx = ssn_ma_port_oneside 0 0\<rparr>]"


text \<open>The configuration calls check the port number and change nothing for an invalid one; the burst
  calls do not: on a port whose sides were never configured every burst of every access id faults.\<close>

theorem port_guards:
  "(\<not> eth_valid api pid h \<longrightarrow> ssn_ma_port_configure_hw api pid rxq txq mp ps h = Some (Throw (Invalid_port pid), ps, h) \<and>
      ssn_ma_port_configure_acc api junk pid n_rx n_tx ps h = Some (Throw (Invalid_port pid), ps)) \<and>
   (pid < length ps \<longrightarrow> side_rx (ps ! pid) = ssn_ma_port_oneside j1 j2 \<longrightarrow> side_tx (ps ! pid) = ssn_ma_port_oneside j1 j2 \<longrightarrow>
      ssn_ma_port_rx_burst api pid aid n ps h = None \<and> ssn_ma_port_tx_burst api pid aid ms ps h = None)"
proof -
  have "acc_get ([new_accessor j2] ! aid) = None \<or> 1 \<le> aid"
    by (cases aid) (simp_all add: acc_get_def new_accessor_def)
  then show ?thesis
    by (auto simp: ssn_ma_port_configure_hw_def ssn_ma_port_configure_acc_def ssn_ma_port_rx_burst_def ssn_ma_port_tx_burst_def
        port_rx_burst_def port_tx_burst_def oneside_rx_burst_def oneside_tx_burst_def port_at_def ssn_ma_port_oneside_def)
qed

theorem port_configure_queues_witness:
  "(\<exists>o'. configure_queue_accessor 0 1 4 2 (ssn_ma_port_oneside 0 0) = Some (Return (), o') \<and>
      concat (map ques (accessors o')) = [0..<4] \<and> length (accessors o') = 2 \<and>
      (\<forall>i<2. \<forall>j<2. i \<noteq> j \<longrightarrow> set (ques (accessors o' ! i)) \<inter> set (ques (accessors o' ! j)) = {})) \<and>
   (\<exists>o'. configure_queue_accessor 0 1 4 3 (ssn_ma_port_oneside 0 0) = Some (Throw (Bad_queue_split 4 3), o') \<and> queues o' = []) \<and>
   (\<exists>o'. configure_queue_accessor 0 1 4 0 (ssn_ma_port_oneside 0 0) = Some (Return (), o') \<and> accessors o' = [])"
  using port_configure_queues [where n_acc = 2 and n_que = 4 and junk = 0 and pid = 1 and ?o1.0 = "ssn_ma_port_oneside 0 0"]
    port_configure_queues [where n_acc = 3 and n_que = 4 and junk = 0 and pid = 1 and ?o1.0 = "ssn_ma_port_oneside 0 0"]
    port_configure_queues [where n_acc = 0 and n_que = 4 and junk = 0 and pid = 1 and ?o1.0 = "ssn_ma_port_oneside 0 0"]
  by simp

theorem port_guards_witness:
  "ssn_ma_port_configure_hw demo_eth 5 4 4 9 demo_ports [] = Some (Throw (Invalid_port 5), demo_ports, []) \<and>
   ssn_ma_port_tx_burst demo_eth 0 0 [] [(demo_ports ! 0)\<lparr>side_rx := ssn_ma_port_oneside 0 0\<rparr>] [] = None"
  using port_guards [where api = demo_eth and pid = 5 and h = "[]" and ps = demo_ports and rxq = 4 and txq = 4 and mp = 9]
    port_guards [where api = demo_eth and pid = 0 and h = "[]" and ps = "[(demo_ports ! 0)\<lparr>side_rx := ssn_ma_port_oneside 0 0\<rparr>]"
      and ?j1.0 = 0 and ?j2.0 = 0 and aid = 0 and ms = "[]"]
  by (simp add: demo_eth_def demo_ports_def)

end
