(* ===== verification/Vnf_Port.thy ===== *)
theory Vnf_Port
  imports Ssn_Threads Ssn_Stats Ma_Ring Ma_Port
begin

section \<open>The objects of the NFVI, and the ports of VNFs (nfvi/ssn_vnf_port.h, ssn_vnf_port.cc, ports/)\<close>

text \<open>
  A VNF has ports and blocks; a block runs on a set of lcores and gives each of them access ids on
  the ports. A port is backed by a device (\<open>ssn_vnf_port_dpdk\<close>) or by one side of a patch panel
  (\<open>ssn_vnf_port_virt\<close>). The objects live in a store by address; virtual member functions are cases
  over the class. Fields that a constructor leaves alone are parameters.
\<close>

subsection \<open>The store\<close>

record dpdk_part =
  dp_port_id :: nat
  dp_irx_pps_sum :: u64
  dp_irx_pps_cur :: u64
  dp_mp :: addr

record virt_part =
  vt_tx :: addr
  vt_rx :: addr

datatype port_class = Dpdk_port dpdk_part | Virt_port virt_part

record ssn_vnf_port =
  vp_attached_vnf :: addr
  vp_n_rxq :: nat
  vp_n_txq :: nat
  vp_n_rxacc :: nat
  vp_n_txacc :: nat
  vp_name :: string
  vp_class :: port_class

record ssn_vnf_vcore =
  vc_lcore_id :: nat
  vc_rx_acc :: "nat list"
  vc_tx_acc :: "nat list"

text \<open>The classes of the blocks in \<open>nfvi/vnfs\<close>; the block of \<open>l2fwd_numa\<close> polls one port.\<close>

datatype block_class = L2fwd | L2fwd_delay | L2fwd_numa nat | L3fwd | Acl addr

text \<open>\<open>vb_ports\<close> is the VNF whose vector of ports the block refers to.\<close>

record ssn_vnf_block =
  vb_tids :: "u32 list"
  vb_vcores :: "ssn_vnf_vcore list"
  vb_ports :: addr
  vb_coremask :: u32
  vb_socket_affinity :: "nat list"
  vb_socket :: nat
  vb_running :: bool
  vb_name :: string
  vb_class :: block_class

record ssn_vnf =
  vn_ports :: "addr list"
  vn_blocks :: "addr list"
  vn_name :: string

record patch_panel =
  pp_left_enq :: addr
  pp_right_enq :: addr
  pp_left :: addr
  pp_right :: addr
  pp_name :: string

record ('h, 'e, 'w, 'r) nfv =
  vports :: "addr \<rightharpoonup> ssn_vnf_port"
  vblocks :: "addr \<rightharpoonup> ssn_vnf_block"
  vnfs :: "addr \<rightharpoonup> ssn_vnf"
  panels :: "addr \<rightharpoonup> patch_panel"
  marings :: "addr \<rightharpoonup> ma_ring"
  rheap :: "('w, 'r) ring_heap"
  mports :: vnf_ports
  hw :: 'h
  stats :: portstat
  thr :: "'e ssn_sys"

text \<open>DPDK and the machine: Ethernet devices, rings, the launch of threads, the socket of a device, the
  number of sockets, \<open>slankdev::popcnt32\<close>, giving packets back to their pool, what uninitialised
  memory holds, and the address of \<open>_vnf_piece_spawner\<close>.\<close>

record ('h, 'e, 'w, 'r) nenv =
  ne_eth :: "'h eth_api"
  ne_ring :: "('r, mbuf) ring_api"
  ne_ring_alloc :: "string \<Rightarrow> 'w \<Rightarrow> addr option \<times> 'w"
  ne_new_ring :: 'r
  ne_launch :: "'e eal_launch"
  ne_dev_socket :: "nat \<Rightarrow> nat"
  ne_sockets :: nat
  ne_popcnt :: "u32 \<Rightarrow> nat"
  ne_free :: "mbuf list \<Rightarrow> 'h \<Rightarrow> 'h"
  ne_junk :: nat
  ne_spawner :: addr

datatype nfv_error = Ring_error ring_error | Port_error port_error | Thread_error thread_error | Out_of_range | No_vlcore nat
  | Panel_null | Panel_queues | Not_registered string | Already_registered string

type_synonym ('h, 'e, 'w, 'r, 'a) nop = "(('h, 'e, 'w, 'r) nfv, nfv_error, 'a) op"

definition deref :: "(addr \<rightharpoonup> 'a) \<Rightarrow> addr \<Rightarrow> 'a option" where
  "deref m p = (if p = NULL then None else m p)"

definition the_port :: "addr \<Rightarrow> ('h, 'e, 'w, 'r, ssn_vnf_port) nop" where
  "the_port p = need (\<lambda>s. deref (vports s) p)"

definition upd_port :: "addr \<Rightarrow> (ssn_vnf_port \<Rightarrow> ssn_vnf_port) \<Rightarrow> ('h, 'e, 'w, 'r, unit) nop" where
  "upd_port p f = bnd (the_port p) (\<lambda>P. modify (\<lambda>s. s\<lparr>vports := (vports s)(p \<mapsto> f P)\<rparr>))"

definition on_threads :: "('e, 'a) top \<Rightarrow> ('h, 'e, 'w, 'r, 'a) nop" where
  "on_threads m = focus thr (\<lambda>t s. s\<lparr>thr := t\<rparr>) Thread_error m"

text \<open>An operation of a multi-accessible ring at an address, on its own or with the rings behind it.\<close>

definition on_maring :: "addr \<Rightarrow> (ma_ring, ring_error, 'a) op \<Rightarrow> ('h, 'e, 'w, 'r, 'a) nop" where
  "on_maring p f = bnd (need (\<lambda>s. deref (marings s) p)) (\<lambda>R.
     focus (\<lambda>_. R) (\<lambda>R s. s\<lparr>marings := (marings s)(p \<mapsto> R)\<rparr>) Ring_error f)"

definition on_rings :: "addr \<Rightarrow> (ma_ring \<Rightarrow> ('w, 'r) ring_heap \<Rightarrow> ('a \<times> ma_ring \<times> ('w, 'r) ring_heap) option) \<Rightarrow> ('h, 'e, 'w, 'r, 'a) nop" where
  "on_rings p f = bnd (need (\<lambda>s. deref (marings s) p)) (\<lambda>R. bnd (need (\<lambda>s. f R (rheap s))) (\<lambda>(x, R, h).
     andthen (modify (\<lambda>s. s\<lparr>marings := (marings s)(p \<mapsto> R), rheap := h\<rparr>)) (ret x)))"

definition on_mports :: "(vnf_ports \<Rightarrow> 'h \<Rightarrow> ('a \<times> vnf_ports \<times> 'h) option) \<Rightarrow> ('h, 'e, 'w, 'r, 'a) nop" where
  "on_mports f = bnd (need (\<lambda>s. f (mports s) (hw s))) (\<lambda>(x, ps, h). andthen (modify (\<lambda>s. s\<lparr>mports := ps, hw := h\<rparr>)) (ret x))"

definition raise_port :: "(port_error, unit) outcome \<Rightarrow> ('h, 'e, 'w, 'r, unit) nop" where
  "raise_port r = (case r of Throw e \<Rightarrow> throw (Port_error e) | Return _ \<Rightarrow> ret ())"

subsection \<open>The base class\<close>

definition new_vnf_port :: "string \<Rightarrow> port_class \<Rightarrow> ssn_vnf_port" where
  "new_vnf_port n c = \<lparr>vp_attached_vnf = NULL, vp_n_rxq = 0, vp_n_txq = 0, vp_n_rxacc = 0, vp_n_txacc = 0, vp_name = n, vp_class = c\<rparr>"

definition is_attached_vnf :: "addr \<Rightarrow> ('h, 'e, 'w, 'r, bool) nop" where
  "is_attached_vnf p = bnd (the_port p) (\<lambda>P. ret (vp_attached_vnf P \<noteq> NULL))"

definition attach_vnf :: "addr \<Rightarrow> addr \<Rightarrow> ('h, 'e, 'w, 'r, unit) nop" where
  "attach_vnf vnf p = upd_port p (\<lambda>P. P\<lparr>vp_attached_vnf := vnf\<rparr>)"

definition dettach_vnf :: "addr \<Rightarrow> ('h, 'e, 'w, 'r, unit) nop" where
  "dettach_vnf p = upd_port p (\<lambda>P. P\<lparr>vp_attached_vnf := NULL\<rparr>)"

definition request_rx_access :: "addr \<Rightarrow> ('h, 'e, 'w, 'r, nat) nop" where
  "request_rx_access p = bnd (the_port p) (\<lambda>P. andthen (upd_port p (\<lambda>P. P\<lparr>vp_n_rxacc := vp_n_rxacc P + 1\<rparr>)) (ret (vp_n_rxacc P)))"

definition request_tx_access :: "addr \<Rightarrow> ('h, 'e, 'w, 'r, nat) nop" where
  "request_tx_access p = bnd (the_port p) (\<lambda>P. andthen (upd_port p (\<lambda>P. P\<lparr>vp_n_txacc := vp_n_txacc P + 1\<rparr>)) (ret (vp_n_txacc P)))"

definition reset_acc :: "addr \<Rightarrow> ('h, 'e, 'w, 'r, unit) nop" where
  "reset_acc p = upd_port p (\<lambda>P. P\<lparr>vp_n_rxacc := 0, vp_n_txacc := 0\<rparr>)"

subsection \<open>The two classes\<close>

text \<open>\<open>patched\<close> asserts that both sides are set or none.\<close>

definition patched :: "virt_part \<Rightarrow> bool option" where
  "patched v = (if (vt_tx v = NULL) = (vt_rx v = NULL) then Some (vt_tx v \<noteq> NULL) else None)"

definition port_deployable :: "addr \<Rightarrow> ('h, 'e, 'w, 'r, bool) nop" where
  "port_deployable p = bnd (the_port p) (\<lambda>P. case vp_class P of
     Dpdk_port _ \<Rightarrow> ret True
   | Virt_port v \<Rightarrow> need (\<lambda>_. patched v))"

text \<open>The rings of both sides are on socket 0.\<close>

definition get_socket_id :: "('h, 'e, 'w, 'r) nenv \<Rightarrow> addr \<Rightarrow> ('h, 'e, 'w, 'r, nat) nop" where
  "get_socket_id E p = bnd (the_port p) (\<lambda>P. case vp_class P of
     Dpdk_port d \<Rightarrow> ret (ne_dev_socket E (dp_port_id d))
   | Virt_port v \<Rightarrow>
       if vt_tx v \<noteq> NULL \<and> vt_rx v \<noteq> NULL
       then andthen (need (\<lambda>s. marings s (vt_tx v))) (andthen (need (\<lambda>s. marings s (vt_rx v))) (ret ma_ring_socket_id))
       else ret 0)"

definition config_hw :: "('h, 'e, 'w, 'r) nenv \<Rightarrow> nat \<Rightarrow> nat \<Rightarrow> addr \<Rightarrow> ('h, 'e, 'w, 'r, unit) nop" where
  "config_hw E nrxq ntxq p = bnd (the_port p) (\<lambda>P.
     andthen (upd_port p (\<lambda>P. P\<lparr>vp_n_rxq := nrxq, vp_n_txq := ntxq\<rparr>)) (case vp_class P of
       Dpdk_port d \<Rightarrow>
         bnd (on_mports (ssn_ma_port_configure_hw (ne_eth E) (dp_port_id d) nrxq ntxq (dp_mp d))) (\<lambda>r.
         andthen (raise_port r) (
         andthen (modify (\<lambda>s. s\<lparr>hw := ssn_ma_port_dev_up (ne_eth E) (dp_port_id d) (hw s)\<rparr>))
         (modify (\<lambda>s. s\<lparr>hw := ssn_ma_port_promisc_on (ne_eth E) (dp_port_id d) (hw s)\<rparr>))))
     | Virt_port v \<Rightarrow> ret ()))"

definition config_acc :: "('h, 'e, 'w, 'r) nenv \<Rightarrow> addr \<Rightarrow> ('h, 'e, 'w, 'r, unit) nop" where
  "config_acc E p = bnd (the_port p) (\<lambda>P. case vp_class P of
     Dpdk_port d \<Rightarrow>
       bnd (on_mports (\<lambda>ps h. map_option (\<lambda>(r, ps). (r, ps, h))
         (ssn_ma_port_configure_acc (ne_eth E) (ne_junk E) (dp_port_id d) (vp_n_rxacc P) (vp_n_txacc P) ps h))) raise_port
   | Virt_port v \<Rightarrow>
       andthen (on_maring (vt_rx v) (configure_deq_acc (ne_junk E) (vp_n_rxacc P)))
         (on_maring (vt_tx v) (configure_enq_acc (ne_junk E) (vp_n_txacc P))))"

definition vport_tx_burst :: "('h, 'e, 'w, 'r) nenv \<Rightarrow> nat \<Rightarrow> mbuf list \<Rightarrow> addr \<Rightarrow> ('h, 'e, 'w, 'r, nat) nop" where
  "vport_tx_burst E aid ms p = bnd (the_port p) (\<lambda>P. case vp_class P of
     Dpdk_port d \<Rightarrow> on_mports (ssn_ma_port_tx_burst (ne_eth E) (dp_port_id d) aid ms)
   | Virt_port v \<Rightarrow> on_rings (vt_tx v) (enqueue_burst (ne_ring E) aid ms))"

definition vport_rx_burst :: "('h, 'e, 'w, 'r) nenv \<Rightarrow> nat \<Rightarrow> nat \<Rightarrow> addr \<Rightarrow> ('h, 'e, 'w, 'r, mbuf list) nop" where
  "vport_rx_burst E aid n p = bnd (the_port p) (\<lambda>P. case vp_class P of
     Dpdk_port d \<Rightarrow>
       bnd (on_mports (ssn_ma_port_rx_burst (ne_eth E) (dp_port_id d) aid n)) (\<lambda>ms.
       andthen (upd_port p (\<lambda>P. P\<lparr>vp_class := Dpdk_port (d\<lparr>dp_irx_pps_sum := dp_irx_pps_sum d + of_nat (length ms)\<rparr>)\<rparr>)) (ret ms))
   | Virt_port v \<Rightarrow> on_rings (vt_rx v) (dequeue_burst (ne_ring E) aid n))"

definition get_inner_rx_perf :: "addr \<Rightarrow> ('h, 'e, 'w, 'r, u64) nop" where
  "get_inner_rx_perf p = bnd (the_port p) (\<lambda>P. case vp_class P of
     Dpdk_port d \<Rightarrow> ret (dp_irx_pps_cur d)
   | Virt_port v \<Rightarrow> if vt_rx v \<noteq> NULL then need (\<lambda>s. map_option get_cons_perf (marings s (vt_rx v))) else ret 0)"

definition get_inner_tx_perf :: "addr \<Rightarrow> ('h, 'e, 'w, 'r, u64) nop" where
  "get_inner_tx_perf p = bnd (the_port p) (\<lambda>P. case vp_class P of
     Dpdk_port d \<Rightarrow> need (\<lambda>s. ssn_port_stat_get_cur_tx_pps (dp_port_id d) (stats s))
   | Virt_port v \<Rightarrow> if vt_tx v \<noteq> NULL then need (\<lambda>s. map_option get_prod_perf (marings s (vt_tx v))) else ret 0)"

definition get_outer_rx_perf :: "addr \<Rightarrow> ('h, 'e, 'w, 'r, u64) nop" where
  "get_outer_rx_perf p = bnd (the_port p) (\<lambda>P. case vp_class P of
     Dpdk_port d \<Rightarrow>
       bnd (need (\<lambda>s. ssn_port_stat_get_cur_rx_pps (dp_port_id d) (stats s))) (\<lambda>a.
       bnd (need (\<lambda>s. ssn_port_stat_get_cur_rx_mis (dp_port_id d) (stats s))) (\<lambda>b. ret (a + b)))
   | Virt_port v \<Rightarrow> if vt_rx v \<noteq> NULL then need (\<lambda>s. map_option get_prod_perf (marings s (vt_rx v))) else ret 0)"

definition get_outer_tx_perf :: "addr \<Rightarrow> ('h, 'e, 'w, 'r, u64) nop" where
  "get_outer_tx_perf p = bnd (the_port p) (\<lambda>P. case vp_class P of
     Dpdk_port d \<Rightarrow> need (\<lambda>s. ssn_port_stat_get_cur_tx_pps (dp_port_id d) (stats s))
   | Virt_port v \<Rightarrow> if vt_tx v \<noteq> NULL then need (\<lambda>s. map_option get_cons_perf (marings s (vt_tx v))) else ret 0)"

text \<open>The virtual port updates the ring it receives from, not the one it sends to.\<close>

definition stats_update_per1sec :: "addr \<Rightarrow> ('h, 'e, 'w, 'r, unit) nop" where
  "stats_update_per1sec p = bnd (the_port p) (\<lambda>P. case vp_class P of
     Dpdk_port d \<Rightarrow> upd_port p (\<lambda>P. P\<lparr>vp_class := Dpdk_port (d\<lparr>dp_irx_pps_cur := dp_irx_pps_sum d, dp_irx_pps_sum := 0\<rparr>)\<rparr>)
   | Virt_port v \<Rightarrow> if vt_rx v \<noteq> NULL then on_maring (vt_rx v) (\<lambda>R. Some (Return (), update_stats R)) else ret ())"

definition set_mp :: "addr \<Rightarrow> addr \<Rightarrow> ('h, 'e, 'w, 'r, unit) nop" where
  "set_mp m p = upd_port p (\<lambda>P. case vp_class P of Dpdk_port d \<Rightarrow> P\<lparr>vp_class := Dpdk_port (d\<lparr>dp_mp := m\<rparr>)\<rparr> | Virt_port v \<Rightarrow> P)"

text \<open>The constructors of the two classes.\<close>

definition new_vnf_port_dpdk :: "string \<Rightarrow> nat \<Rightarrow> ssn_vnf_port" where
  "new_vnf_port_dpdk n pid = new_vnf_port n (Dpdk_port \<lparr>dp_port_id = pid, dp_irx_pps_sum = 0, dp_irx_pps_cur = 0, dp_mp = NULL\<rparr>)"

definition new_vnf_port_virt :: "string \<Rightarrow> ssn_vnf_port" where
  "new_vnf_port_virt n = new_vnf_port n (Virt_port \<lparr>vt_tx = NULL, vt_rx = NULL\<rparr>)"

end
