(* ===== verification/Vnf_Block.thy ===== *)
theory Vnf_Block
  imports Vnf_Port
begin

section \<open>Blocks (nfvi/ssn_vnf_block.h, ssn_vnf_vcore.h)\<close>

text \<open>
  A block is the part of a VNF that runs on a set of lcores. Its coremask gives one vcore per lcore;
  \<open>set_coremask_impl\<close>, which each VNF implements, asks the ports for access ids and stores them in the
  vcores. \<open>at\<close> of a standard vector throws; the \<open>at\<close> of \<open>slankdev::fixed_size_vector\<close> has no value out
  of range.
\<close>

definition the_block :: "addr \<Rightarrow> ('h, 'e, 'w, 'r, ssn_vnf_block) nop" where
  "the_block b = need (\<lambda>s. deref (vblocks s) b)"

definition upd_block :: "addr \<Rightarrow> (ssn_vnf_block \<Rightarrow> ssn_vnf_block) \<Rightarrow> ('h, 'e, 'w, 'r, unit) nop" where
  "upd_block b f = bnd (the_block b) (\<lambda>B. modify (\<lambda>s. s\<lparr>vblocks := (vblocks s)(b \<mapsto> f B)\<rparr>))"

definition nth_opt :: "'a list \<Rightarrow> nat \<Rightarrow> 'a option" where
  "nth_opt xs i = (if i < length xs then Some (xs ! i) else None)"

text \<open>\<open>std::vector::at\<close>.\<close>

definition at_vec :: "'a list \<Rightarrow> nat \<Rightarrow> ('h, 'e, 'w, 'r, 'a) nop" where
  "at_vec xs i = (if i < length xs then ret (xs ! i) else throw Out_of_range)"

text \<open>The ports of the VNF that the block belongs to.\<close>

definition block_ports :: "addr \<Rightarrow> ('h, 'e, 'w, 'r, addr list) nop" where
  "block_ports b = bnd (the_block b) (\<lambda>B. bnd (need (\<lambda>s. vnfs s (vb_ports B))) (\<lambda>V. ret (vn_ports V)))"

definition block_port_at :: "addr \<Rightarrow> nat \<Rightarrow> ('h, 'e, 'w, 'r, addr) nop" where
  "block_port_at b pid = bnd (block_ports b) (\<lambda>ps. need (\<lambda>_. nth_opt ps pid))"

definition block_tx_burst :: "('h, 'e, 'w, 'r) nenv \<Rightarrow> addr \<Rightarrow> nat \<Rightarrow> nat \<Rightarrow> mbuf list \<Rightarrow> ('h, 'e, 'w, 'r, nat) nop" where
  "block_tx_burst E b pid aid ms = bnd (block_port_at b pid) (vport_tx_burst E aid ms)"

definition block_rx_burst :: "('h, 'e, 'w, 'r) nenv \<Rightarrow> addr \<Rightarrow> nat \<Rightarrow> nat \<Rightarrow> nat \<Rightarrow> ('h, 'e, 'w, 'r, mbuf list) nop" where
  "block_rx_burst E b pid aid n = bnd (block_port_at b pid) (vport_rx_burst E aid n)"

definition port_request_rx_access :: "('h, 'e, 'w, 'r) nenv \<Rightarrow> addr \<Rightarrow> nat \<Rightarrow> ('h, 'e, 'w, 'r, nat) nop" where
  "port_request_rx_access E b pid =
     bnd (block_port_at b pid) (\<lambda>p.
     bnd (get_socket_id E p) (\<lambda>sock.
     bnd (the_block b) (\<lambda>B.
     bnd (need (\<lambda>_. nth_opt (vb_socket_affinity B) sock)) (\<lambda>n.
     andthen (upd_block b (\<lambda>B. B\<lparr>vb_socket_affinity := (vb_socket_affinity B)[sock := n + 1]\<rparr>))
     (request_rx_access p)))))"

definition port_request_tx_access :: "addr \<Rightarrow> nat \<Rightarrow> ('h, 'e, 'w, 'r, nat) nop" where
  "port_request_tx_access b pid = bnd (block_port_at b pid) request_tx_access"

definition vcore_at :: "addr \<Rightarrow> nat \<Rightarrow> ('h, 'e, 'w, 'r, ssn_vnf_vcore) nop" where
  "vcore_at b i = bnd (the_block b) (\<lambda>B. at_vec (vb_vcores B) i)"

definition set_lcore_port_rxaid :: "addr \<Rightarrow> nat \<Rightarrow> nat \<Rightarrow> nat \<Rightarrow> ('h, 'e, 'w, 'r, unit) nop" where
  "set_lcore_port_rxaid b i pid aid =
     bnd (vcore_at b i) (\<lambda>c. andthen (need (\<lambda>_. nth_opt (vc_rx_acc c) pid))
       (upd_block b (\<lambda>B. B\<lparr>vb_vcores := (vb_vcores B)[i := c\<lparr>vc_rx_acc := (vc_rx_acc c)[pid := aid]\<rparr>]\<rparr>)))"

definition set_lcore_port_txaid :: "addr \<Rightarrow> nat \<Rightarrow> nat \<Rightarrow> nat \<Rightarrow> ('h, 'e, 'w, 'r, unit) nop" where
  "set_lcore_port_txaid b i pid aid =
     bnd (vcore_at b i) (\<lambda>c. andthen (need (\<lambda>_. nth_opt (vc_tx_acc c) pid))
       (upd_block b (\<lambda>B. B\<lparr>vb_vcores := (vb_vcores B)[i := c\<lparr>vc_tx_acc := (vc_tx_acc c)[pid := aid]\<rparr>]\<rparr>)))"

definition get_lcore_port_rxaid :: "addr \<Rightarrow> nat \<Rightarrow> nat \<Rightarrow> ('h, 'e, 'w, 'r, nat) nop" where
  "get_lcore_port_rxaid b i pid = bnd (vcore_at b i) (\<lambda>c. need (\<lambda>_. nth_opt (vc_rx_acc c) pid))"

definition get_lcore_port_txaid :: "addr \<Rightarrow> nat \<Rightarrow> nat \<Rightarrow> ('h, 'e, 'w, 'r, nat) nop" where
  "get_lcore_port_txaid b i pid = bnd (vcore_at b i) (\<lambda>c. need (\<lambda>_. nth_opt (vc_tx_acc c) pid))"

definition vcore_id_2_lcore_id :: "addr \<Rightarrow> nat \<Rightarrow> ('h, 'e, 'w, 'r, nat) nop" where
  "vcore_id_2_lcore_id b i = bnd (vcore_at b i) (\<lambda>c. ret (vc_lcore_id c))"

definition n_vcores :: "addr \<Rightarrow> ('h, 'e, 'w, 'r, nat) nop" where
  "n_vcores b = bnd (the_block b) (\<lambda>B. ret (length (vb_vcores B)))"

definition block_n_ports :: "addr \<Rightarrow> ('h, 'e, 'w, 'r, nat) nop" where
  "block_n_ports b = bnd (block_ports b) (\<lambda>ps. ret (length ps))"

text \<open>The vcore of the running thread, which is on \<open>lcore_id\<close>.\<close>

definition get_vlcore_id :: "addr \<Rightarrow> nat \<Rightarrow> ('h, 'e, 'w, 'r, nat) nop" where
  "get_vlcore_id b lcore_id = bnd (the_block b) (\<lambda>B. case find_index (\<lambda>c. vc_lcore_id c = lcore_id) (vb_vcores B) of
     Some i \<Rightarrow> ret i | None \<Rightarrow> throw (No_vlcore lcore_id))"

text \<open>The constructor leaves the coremask and the socket alone.\<close>

definition new_vnf_block :: "('h, 'e, 'w, 'r) nenv \<Rightarrow> u32 \<Rightarrow> nat \<Rightarrow> addr \<Rightarrow> string \<Rightarrow> block_class \<Rightarrow> ssn_vnf_block" where
  "new_vnf_block E junk1 junk2 vnf n c = \<lparr>vb_tids = [], vb_vcores = [], vb_ports = vnf, vb_coremask = junk1,
     vb_socket_affinity = replicate (ne_sockets E) 0, vb_socket = junk2, vb_running = False, vb_name = n, vb_class = c\<rparr>"

definition block_is_running :: "addr \<Rightarrow> ('h, 'e, 'w, 'r, bool) nop" where
  "block_is_running b = bnd (the_block b) (\<lambda>B. ret (vb_running B))"

definition block_attach_port :: "addr \<Rightarrow> nat \<Rightarrow> addr \<Rightarrow> ('h, 'e, 'w, 'r, unit) nop" where
  "block_attach_port b pid p = bnd (the_block b) (\<lambda>B. bnd (need (\<lambda>s. vnfs s (vb_ports B))) (\<lambda>V.
     andthen (need (\<lambda>_. nth_opt (vn_ports V) pid)) (modify (\<lambda>s. s\<lparr>vnfs := (vnfs s)(vb_ports B \<mapsto> V\<lparr>vn_ports := (vn_ports V)[pid := p]\<rparr>)\<rparr>))))"

definition block_dettach_port :: "addr \<Rightarrow> nat \<Rightarrow> ('h, 'e, 'w, 'r, unit) nop" where
  "block_dettach_port b pid = block_attach_port b pid NULL"

definition get_socket_affinity :: "addr \<Rightarrow> ('h, 'e, 'w, 'r, nat) nop" where
  "get_socket_affinity b = bnd (the_block b) (\<lambda>B. ret (vb_socket B))"

text \<open>The first socket with the largest count: \<open>ns\<close> are the counts from socket \<open>i\<close> on.\<close>

fun max_socket :: "nat \<Rightarrow> nat \<Rightarrow> nat \<Rightarrow> nat list \<Rightarrow> nat" where
  "max_socket i sid mx [] = sid"
| "max_socket i sid mx (n # ns) = (if mx < n then max_socket (Suc i) i n ns else max_socket (Suc i) sid mx ns)"

definition get_socket_affinity_impl :: "('h, 'e, 'w, 'r) nenv \<Rightarrow> addr \<Rightarrow> ('h, 'e, 'w, 'r, nat) nop" where
  "get_socket_affinity_impl E b = bnd (the_block b) (\<lambda>B.
     bnd (need (\<lambda>_. nth_opt (vb_socket_affinity B) 0)) (\<lambda>mx.
     need (\<lambda>_. if length (vb_socket_affinity B) < ne_sockets E then None
               else Some (max_socket 0 0 mx (take (ne_sockets E) (vb_socket_affinity B))))))"

subsection \<open>Access requests: \<open>set_coremask_impl\<close> of the VNFs\<close>

definition request_rx :: "('h, 'e, 'w, 'r) nenv \<Rightarrow> addr \<Rightarrow> nat \<Rightarrow> nat \<Rightarrow> ('h, 'e, 'w, 'r, unit) nop" where
  "request_rx E b i pid = bnd (port_request_rx_access E b pid) (set_lcore_port_rxaid b i pid)"

definition request_tx :: "addr \<Rightarrow> nat \<Rightarrow> nat \<Rightarrow> ('h, 'e, 'w, 'r, unit) nop" where
  "request_tx b i pid = bnd (port_request_tx_access b pid) (set_lcore_port_txaid b i pid)"

definition set_coremask_impl :: "('h, 'e, 'w, 'r) nenv \<Rightarrow> addr \<Rightarrow> u32 \<Rightarrow> ('h, 'e, 'w, 'r, unit) nop" where
  "set_coremask_impl E b coremask = bnd (the_block b) (\<lambda>B. case vb_class B of
     L2fwd_numa port_id \<Rightarrow>
       for_each (\<lambda>i. andthen (request_rx E b i port_id)
         (bnd (block_n_ports b) (\<lambda>n. for_each (request_tx b i) [0..<n]))) [0..<ne_popcnt E coremask]
   | _ \<Rightarrow>
       for_each (\<lambda>i. bnd (block_n_ports b) (\<lambda>n.
         for_each (\<lambda>pid. andthen (request_rx E b i pid) (request_tx b i pid)) [0..<n])) [0..<ne_popcnt E coremask])"

subsection \<open>Configuration and deployment\<close>

text \<open>The lcores of a mask, and one vcore for each: \<open>port_rx_acc(n_rx_port)\<close> leaves its elements alone.\<close>

definition mask_cores :: "u32 \<Rightarrow> nat list" where
  "mask_cores m = filter (bit m) [0..<32]"

definition new_vcore :: "nat \<Rightarrow> nat \<Rightarrow> nat \<Rightarrow> ssn_vnf_vcore" where
  "new_vcore junk lcore n = \<lparr>vc_lcore_id = lcore, vc_rx_acc = replicate n junk, vc_tx_acc = replicate n junk\<rparr>"

definition block_set_coremask :: "('h, 'e, 'w, 'r) nenv \<Rightarrow> addr \<Rightarrow> u32 \<Rightarrow> ('h, 'e, 'w, 'r, unit) nop" where
  "block_set_coremask E b lcore_mask =
     bnd (block_n_ports b) (\<lambda>n.
     andthen (upd_block b (\<lambda>B. B\<lparr>vb_coremask := lcore_mask, vb_vcores := map (\<lambda>c. new_vcore (ne_junk E) c n) (mask_cores lcore_mask),
         vb_tids := vec_resize (length (mask_cores lcore_mask)) 0 (vb_tids B)\<rparr>))
     (set_coremask_impl E b lcore_mask))"

definition block_reset :: "('h, 'e, 'w, 'r) nenv \<Rightarrow> addr \<Rightarrow> ('h, 'e, 'w, 'r, unit) nop" where
  "block_reset E b =
     andthen (block_set_coremask E b 1) (
     bnd (get_socket_affinity_impl E b) (\<lambda>sid.
     upd_block b (\<lambda>B. B\<lparr>vb_socket := sid, vb_socket_affinity := replicate (length (vb_socket_affinity B)) 0\<rparr>)))"

text \<open>A launch that throws ends the loop; the threads launched before it run on.\<close>

definition launch_vcore :: "('h, 'e, 'w, 'r) nenv \<Rightarrow> addr \<Rightarrow> nat \<Rightarrow> ('h, 'e, 'w, 'r, int option) nop" where
  "launch_vcore E b i = catch
     (bnd (vcore_at b i) (\<lambda>c.
      bnd (on_threads (ssn_thread_launch (ne_launch E) (ne_spawner E) b (vc_lcore_id c))) (\<lambda>tid.
      bnd (the_block b) (\<lambda>B.
      bnd (at_vec (vb_tids B) i) (\<lambda>_.
      andthen (upd_block b (\<lambda>B. B\<lparr>vb_tids := (vb_tids B)[i := tid]\<rparr>)) (ret None))))))
     (\<lambda>_. ret (Some (-1)))"

definition block_deploy :: "('h, 'e, 'w, 'r) nenv \<Rightarrow> addr \<Rightarrow> ('h, 'e, 'w, 'r, int) nop" where
  "block_deploy E b = bnd (n_vcores b) (\<lambda>n.
     if n = 0 then ret (-1)
     else bnd (scan (launch_vcore E b) [0..<n]) (\<lambda>r. ret (case r of None \<Rightarrow> 0 | Some x \<Rightarrow> x)))"

text \<open>\<open>undeploy_impl\<close> clears the flag that the loops of the threads read; then the threads are joined, up
  to the first id that is 0.\<close>

definition join_vcore :: "('h, 'e, 'w, 'r) nenv \<Rightarrow> addr \<Rightarrow> nat \<Rightarrow> ('h, 'e, 'w, 'r, unit option) nop" where
  "join_vcore E b i = bnd (the_block b) (\<lambda>B. bnd (at_vec (vb_tids B) i) (\<lambda>tid.
     if tid = 0 then ret (Some ())
     else andthen (on_threads (ssn_thread_join (ne_launch E) tid)) (ret None)))"

definition block_undeploy :: "('h, 'e, 'w, 'r) nenv \<Rightarrow> addr \<Rightarrow> ('h, 'e, 'w, 'r, unit) nop" where
  "block_undeploy E b = bnd (the_block b) (\<lambda>B.
     andthen (need (\<lambda>_. if length (vb_tids B) = length (vb_vcores B) then Some () else None)) (
     if vb_running B
     then andthen (upd_block b (\<lambda>B. B\<lparr>vb_running := False\<rparr>)) (andthen (scan (join_vcore E b) [0..<length (vb_vcores B)]) (ret ()))
     else ret ()))"

definition block_get_coremask :: "addr \<Rightarrow> ('h, 'e, 'w, 'r, u32) nop" where
  "block_get_coremask b = bnd (the_block b) (\<lambda>B. ret (vb_coremask B))"

end
