(* ===== verification/Vnf_Core.thy ===== *)
theory Vnf_Core
  imports Vnf_Block
begin

section \<open>VNFs and patch panels (nfvi/ssn_vnf.cc, nfvi/ports/virt.h, virt.cc)\<close>

text \<open>
  A VNF checks its ports and passes its configuration on to its blocks. A patch panel joins two
  virtual ports with two multi-accessible rings. Results are the C++ ones: 0 and -1. The floating
  point rates (\<open>get_perf_reduction\<close>) are in \<open>Nfvi_Json\<close>; the dumps are left out.
\<close>

definition the_vnf :: "addr \<Rightarrow> ('h, 'e, 'w, 'r, ssn_vnf) nop" where
  "the_vnf v = need (\<lambda>s. deref (vnfs s) v)"

definition vnf_port_at :: "addr \<Rightarrow> nat \<Rightarrow> ('h, 'e, 'w, 'r, addr) nop" where
  "vnf_port_at v pid = bnd (the_vnf v) (\<lambda>V. need (\<lambda>_. nth_opt (vn_ports V) pid))"

definition vnf_block_at :: "addr \<Rightarrow> nat \<Rightarrow> ('h, 'e, 'w, 'r, addr) nop" where
  "vnf_block_at v bid = bnd (the_vnf v) (\<lambda>V. at_vec (vn_blocks V) bid)"

definition n_ports :: "addr \<Rightarrow> ('h, 'e, 'w, 'r, nat) nop" where
  "n_ports v = bnd (the_vnf v) (\<lambda>V. ret (length (vn_ports V)))"

definition n_blocks :: "addr \<Rightarrow> ('h, 'e, 'w, 'r, nat) nop" where
  "n_blocks v = bnd (the_vnf v) (\<lambda>V. ret (length (vn_blocks V)))"

text \<open>The loops over all ports and over all blocks.\<close>

definition each_port :: "addr \<Rightarrow> (addr \<Rightarrow> ('h, 'e, 'w, 'r, unit) nop) \<Rightarrow> ('h, 'e, 'w, 'r, unit) nop" where
  "each_port v f = bnd (n_ports v) (\<lambda>n. for_each (\<lambda>i. bnd (vnf_port_at v i) f) [0..<n])"

definition each_block :: "addr \<Rightarrow> (nat \<Rightarrow> addr \<Rightarrow> ('h, 'e, 'w, 'r, unit) nop) \<Rightarrow> ('h, 'e, 'w, 'r, unit) nop" where
  "each_block v f = bnd (n_blocks v) (\<lambda>n. for_each (\<lambda>i. bnd (vnf_block_at v i) (f i)) [0..<n])"

text \<open>The checks in a loop that leave the function.\<close>

definition scan_ports :: "addr \<Rightarrow> (addr \<Rightarrow> ('h, 'e, 'w, 'r, 'a option) nop) \<Rightarrow> ('h, 'e, 'w, 'r, 'a option) nop" where
  "scan_ports v f = bnd (n_ports v) (\<lambda>n. scan (\<lambda>i. bnd (vnf_port_at v i) f) [0..<n])"

definition scan_blocks :: "addr \<Rightarrow> (addr \<Rightarrow> ('h, 'e, 'w, 'r, 'a option) nop) \<Rightarrow> ('h, 'e, 'w, 'r, 'a option) nop" where
  "scan_blocks v f = bnd (n_blocks v) (\<lambda>n. scan (\<lambda>i. bnd (vnf_block_at v i) f) [0..<n])"

definition when_null :: "'a \<Rightarrow> addr \<Rightarrow> ('h, 'e, 'w, 'r, 'a option) nop" where
  "when_null x p = ret (if p = NULL then Some x else None)"

definition configre_acc :: "('h, 'e, 'w, 'r) nenv \<Rightarrow> addr \<Rightarrow> ('h, 'e, 'w, 'r, unit) nop" where
  "configre_acc E v = each_port v (config_acc E)"

definition deployable :: "addr \<Rightarrow> ('h, 'e, 'w, 'r, bool) nop" where
  "deployable v =
     bnd (scan_ports v (when_null False)) (\<lambda>r. case r of Some x \<Rightarrow> ret x | None \<Rightarrow>
     bnd (scan_blocks v (\<lambda>b. bnd (block_get_coremask b) (\<lambda>m. ret (if m = 0 then Some False else None)))) (\<lambda>r. case r of
       Some x \<Rightarrow> ret x | None \<Rightarrow> ret True))"

definition set_coremask :: "('h, 'e, 'w, 'r) nenv \<Rightarrow> addr \<Rightarrow> nat \<Rightarrow> u32 \<Rightarrow> ('h, 'e, 'w, 'r, int) nop" where
  "set_coremask E v block_id cmask =
     bnd (scan_ports v (when_null (-1))) (\<lambda>r. case r of Some x \<Rightarrow> ret x | None \<Rightarrow>
     bnd (vnf_block_at v block_id) (\<lambda>b. andthen (block_set_coremask E b cmask) (ret 0)))"

definition vnf_reset :: "('h, 'e, 'w, 'r) nenv \<Rightarrow> addr \<Rightarrow> ('h, 'e, 'w, 'r, int) nop" where
  "vnf_reset E v =
     andthen (each_block v (\<lambda>i b. andthen (block_reset E b) (bnd (set_coremask E v i 0) (\<lambda>_. ret ())))) (
     bnd (scan_ports v (when_null (-1))) (\<lambda>r. case r of Some x \<Rightarrow> ret x | None \<Rightarrow>
     andthen (each_port v reset_acc) (ret 0)))"

text \<open>The constructor: the vector of ports starts with NULL everywhere.\<close>

definition new_vnf :: "nat \<Rightarrow> string \<Rightarrow> ssn_vnf" where
  "new_vnf nport n = \<lparr>vn_ports = replicate nport NULL, vn_blocks = [], vn_name = n\<rparr>"

definition vnf_block_coremask :: "addr \<Rightarrow> nat \<Rightarrow> ('h, 'e, 'w, 'r, u32) nop" where
  "vnf_block_coremask v bid = bnd (vnf_block_at v bid) block_get_coremask"

fun or_masks :: "addr \<Rightarrow> nat list \<Rightarrow> u32 \<Rightarrow> ('h, 'e, 'w, 'r, u32) nop" where
  "or_masks v [] m = ret m"
| "or_masks v (i # is) m = bnd (vnf_block_coremask v i) (\<lambda>x. or_masks v is (or m x))"

definition get_coremask :: "addr \<Rightarrow> ('h, 'e, 'w, 'r, u32) nop" where
  "get_coremask v = bnd (n_blocks v) (\<lambda>n. or_masks v [0..<n] 0)"

definition is_deletable :: "addr \<Rightarrow> ('h, 'e, 'w, 'r, bool) nop" where
  "is_deletable v = bnd (scan_ports v (\<lambda>p. ret (if p \<noteq> NULL then Some False else None))) (\<lambda>r. case r of Some x \<Rightarrow> ret x | None \<Rightarrow> ret True)"

definition undeploy :: "('h, 'e, 'w, 'r) nenv \<Rightarrow> addr \<Rightarrow> ('h, 'e, 'w, 'r, unit) nop" where
  "undeploy E v = each_block v (\<lambda>i b. bnd (block_is_running b) (\<lambda>r. if r then block_undeploy E b else ret ()))"

definition deploy :: "('h, 'e, 'w, 'r) nenv \<Rightarrow> addr \<Rightarrow> ('h, 'e, 'w, 'r, int) nop" where
  "deploy E v =
     bnd (scan_ports v (\<lambda>p. if p = NULL then ret (Some (-1)) else bnd (port_deployable p) (\<lambda>d. ret (if d then None else Some (-1))))) (\<lambda>r. case r of
       Some x \<Rightarrow> ret x
     | None \<Rightarrow>
       andthen (configre_acc E v) (
       bnd (scan_blocks v (\<lambda>b. bnd (block_deploy E b) (\<lambda>x. if x < 0 then andthen (undeploy E v) (ret (Some (-1))) else ret None))) (\<lambda>r. case r of
         Some x \<Rightarrow> ret x | None \<Rightarrow> ret 0)))"

text \<open>The loop dereferences every port: no value when one is not attached.\<close>

definition update_vnf_stats :: "addr \<Rightarrow> ('h, 'e, 'w, 'r, unit) nop" where
  "update_vnf_stats v = each_port v stats_update_per1sec"

definition is_running :: "addr \<Rightarrow> ('h, 'e, 'w, 'r, bool) nop" where
  "is_running v = bnd (scan_blocks v (\<lambda>b. bnd (block_is_running b) (\<lambda>r. ret (if r then None else Some False)))) (\<lambda>r. case r of
     Some x \<Rightarrow> ret x | None \<Rightarrow> ret True)"

definition attach_port :: "addr \<Rightarrow> nat \<Rightarrow> addr \<Rightarrow> ('h, 'e, 'w, 'r, int) nop" where
  "attach_port v pid p =
     bnd (vnf_port_at v pid) (\<lambda>q.
     if q \<noteq> NULL then ret (-1)
     else bnd (is_attached_vnf p) (\<lambda>a.
       if a then ret (-1)
       else
         andthen (modify (\<lambda>s. s\<lparr>vnfs := (vnfs s)(v := map_option (\<lambda>V. V\<lparr>vn_ports := (vn_ports V)[pid := p]\<rparr>) (vnfs s v))\<rparr>)) (
         andthen (attach_vnf v p) (
         andthen (each_block v (\<lambda>i b. block_attach_port b pid p)) (ret 0)))))"

definition dettach_port :: "addr \<Rightarrow> nat \<Rightarrow> ('h, 'e, 'w, 'r, int) nop" where
  "dettach_port v pid =
     bnd (vnf_port_at v pid) (\<lambda>q.
     if q = NULL then ret (-1)
     else
       andthen (dettach_vnf q) (
       andthen (modify (\<lambda>s. s\<lparr>vnfs := (vnfs s)(v := map_option (\<lambda>V. V\<lparr>vn_ports := (vn_ports V)[pid := NULL]\<rparr>) (vnfs s v))\<rparr>)) (
       andthen (each_block v (\<lambda>i b. block_dettach_port b pid)) (ret 0))))"

fun sum_rx :: "addr \<Rightarrow> nat list \<Rightarrow> u64 \<Rightarrow> ('h, 'e, 'w, 'r, u64) nop" where
  "sum_rx v [] x = ret x"
| "sum_rx v (i # is) x = bnd (vnf_port_at v i) (\<lambda>p. if p = NULL then ret 0 else bnd (get_outer_rx_perf p) (\<lambda>y. sum_rx v is (x + y)))"

definition get_rx_rate :: "addr \<Rightarrow> ('h, 'e, 'w, 'r, u64) nop" where
  "get_rx_rate v = bnd (n_ports v) (\<lambda>n. sum_rx v [0..<n] 0)"

subsection \<open>The VNFs of the catalog\<close>

text \<open>A VNF with two ports and its blocks at the addresses \<open>bs\<close>; the names are those of the code.\<close>

definition add_blocks :: "('h, 'e, 'w, 'r) nenv \<Rightarrow> u32 \<Rightarrow> nat \<Rightarrow> addr \<Rightarrow> string \<Rightarrow> (addr \<times> string \<times> block_class) list \<Rightarrow> ('h, 'e, 'w, 'r, addr) nop" where
  "add_blocks E j1 j2 v n bs =
     andthen (modify (\<lambda>s. s\<lparr>vnfs := (vnfs s)(v \<mapsto> (new_vnf 2 n)\<lparr>vn_blocks := map fst bs\<rparr>),
       vblocks := (\<lambda>b. case map_of bs b of None \<Rightarrow> vblocks s b | Some (bn, c) \<Rightarrow> Some (new_vnf_block E j1 j2 v bn c))\<rparr>)) (ret v)"

definition ssn_vnfalloc_l2fwd :: "('h, 'e, 'w, 'r) nenv \<Rightarrow> u32 \<Rightarrow> nat \<Rightarrow> addr \<Rightarrow> addr \<Rightarrow> string \<Rightarrow> ('h, 'e, 'w, 'r, addr) nop" where
  "ssn_vnfalloc_l2fwd E j1 j2 v b n = add_blocks E j1 j2 v n [(b, n @ ''block0'', L2fwd)]"

definition ssn_vnfalloc_l2fwd_delay :: "('h, 'e, 'w, 'r) nenv \<Rightarrow> u32 \<Rightarrow> nat \<Rightarrow> addr \<Rightarrow> addr \<Rightarrow> string \<Rightarrow> ('h, 'e, 'w, 'r, addr) nop" where
  "ssn_vnfalloc_l2fwd_delay E j1 j2 v b n = add_blocks E j1 j2 v n [(b, n @ ''block0'', L2fwd_delay)]"

definition ssn_vnfalloc_l2fwd_numa :: "('h, 'e, 'w, 'r) nenv \<Rightarrow> u32 \<Rightarrow> nat \<Rightarrow> addr \<Rightarrow> addr \<Rightarrow> addr \<Rightarrow> string \<Rightarrow> ('h, 'e, 'w, 'r, addr) nop" where
  "ssn_vnfalloc_l2fwd_numa E j1 j2 v b0 b1 n =
     add_blocks E j1 j2 v n [(b0, n @ ''blockport0'', L2fwd_numa 0), (b1, n @ ''blockport1'', L2fwd_numa 1)]"

text \<open>The destructor of the VNFs with one block, the last of the vector. It is not virtual: \<open>delete\<close> through
  a pointer to the base class does not run it.\<close>

definition destroy_vnf_l2fwd :: "addr \<Rightarrow> ('h, 'e, 'w, 'r, unit) nop" where
  "destroy_vnf_l2fwd v = bnd (the_vnf v) (\<lambda>V.
     andthen (need (\<lambda>_. if vn_blocks V = [] then None else Some ()))
     (modify (\<lambda>s. s\<lparr>vblocks := (vblocks s)(last (vn_blocks V) := None), vnfs := (vnfs s)(v := None)\<rparr>)))"

subsection \<open>Patch panels\<close>

text \<open>\<open>dynamic_cast\<close> to the virtual port: NULL for a port of the other class.\<close>

definition virt_cast :: "addr \<Rightarrow> ('h, 'e, 'w, 'r, addr) nop" where
  "virt_cast p = (if p = NULL then ret NULL
     else bnd (the_port p) (\<lambda>P. ret (case vp_class P of Virt_port _ \<Rightarrow> p | Dpdk_port _ \<Rightarrow> NULL)))"

definition set_rings :: "addr \<Rightarrow> addr \<Rightarrow> addr \<Rightarrow> ('h, 'e, 'w, 'r, unit) nop" where
  "set_rings p t r = upd_port p (\<lambda>P. P\<lparr>vp_class := Virt_port \<lparr>vt_tx = t, vt_rx = r\<rparr>\<rparr>)"

definition configure_ring :: "('h, 'e, 'w, 'r) nenv \<Rightarrow> addr \<Rightarrow> nat \<Rightarrow> ('h, 'e, 'w, 'r, unit) nop" where
  "configure_ring E p n = bnd (on_rings p (\<lambda>R h. Some (configure_que (ne_ring_alloc E) (ne_new_ring E) n R h))) (\<lambda>r.
     case r of Throw e \<Rightarrow> throw (Ring_error e) | Return _ \<Rightarrow> ret ())"

text \<open>The constructor of the panel \<open>this\<close>, whose rings are the members at \<open>le\<close> and \<open>re\<close>. When it throws,
  the members are destroyed.\<close>

definition new_patch_panel :: "('h, 'e, 'w, 'r) nenv \<Rightarrow> u64 \<Rightarrow> addr \<Rightarrow> addr \<Rightarrow> addr \<Rightarrow> string \<Rightarrow> addr \<Rightarrow> addr \<Rightarrow> ('h, 'e, 'w, 'r, unit) nop" where
  "new_patch_panel E j this le re n r l =
     andthen (modify (\<lambda>s. s\<lparr>marings := (marings s)(le \<mapsto> ssn_ma_ring j j (n @ ''LeftEnq''), re \<mapsto> ssn_ma_ring j j (n @ ''RightEnq''))\<rparr>)) (
     catch
      (bnd (virt_cast l) (\<lambda>left. bnd (virt_cast r) (\<lambda>right.
       if r = NULL \<or> l = NULL then throw Panel_null
       else bnd (the_port left) (\<lambda>L. bnd (the_port right) (\<lambda>R.
         if \<not> (vp_n_rxq L = vp_n_txq R \<and> vp_n_txq L = vp_n_rxq R) then throw Panel_queues
         else
           andthen (configure_ring E le (vp_n_txq L)) (
           andthen (configure_ring E re (vp_n_txq R)) (
           andthen (set_rings left le re) (
           andthen (set_rings right re le)
           (modify (\<lambda>s. s\<lparr>panels := (panels s)(this \<mapsto> \<lparr>pp_left_enq = le, pp_right_enq = re, pp_left = left, pp_right = right, pp_name = n\<rparr>)\<rparr>))))))))))
      (\<lambda>e. andthen (modify (\<lambda>s. s\<lparr>marings := (marings s)(le := None, re := None)\<rparr>)) (throw e)))"

text \<open>The destructor frees the members but not the rings they allocated.\<close>

definition delete_patch_panel :: "addr \<Rightarrow> ('h, 'e, 'w, 'r, unit) nop" where
  "delete_patch_panel this = bnd (need (\<lambda>s. deref (panels s) this)) (\<lambda>P.
     andthen (set_rings (pp_left P) NULL NULL) (
     andthen (set_rings (pp_right P) NULL NULL)
     (modify (\<lambda>s. s\<lparr>panels := (panels s)(this := None), marings := (marings s)(pp_left_enq P := None, pp_right_enq P := None)\<rparr>))))"

definition side_busy :: "addr \<Rightarrow> ('h, 'e, 'w, 'r, bool) nop" where
  "side_busy p = (if p = NULL then ret False
     else bnd (the_port p) (\<lambda>P. if vp_attached_vnf P \<noteq> NULL then is_running (vp_attached_vnf P) else ret False))"

definition panel_deletable :: "addr \<Rightarrow> ('h, 'e, 'w, 'r, bool) nop" where
  "panel_deletable this = bnd (need (\<lambda>s. deref (panels s) this)) (\<lambda>P.
     bnd (side_busy (pp_left P)) (\<lambda>b. if b then ret False
     else bnd (side_busy (pp_right P)) (\<lambda>b. ret (\<not> b))))"

end
