(* ===== verification/Vnf_Access.thy ===== *)
theory Vnf_Access
  imports Vnf_Core
begin

section \<open>Access ids: no two threads share one\<close>

text \<open>
  The accessors of the multi-accessible ports are not protected by locks: a thread may only use an
  access id that no other thread uses. Here: after a reset, configuring the blocks of a VNF hands
  out, on each port and in each direction, the ids from 0 up to the number the port has counted,
  each exactly once.
\<close>

subsection \<open>One request\<close>

datatype dir = Rx | Tx

definition cnt :: "dir \<Rightarrow> ssn_vnf_port \<Rightarrow> nat" where
  "cnt d P = (case d of Rx \<Rightarrow> vp_n_rxacc P | Tx \<Rightarrow> vp_n_txacc P)"

definition acc :: "dir \<Rightarrow> ssn_vnf_vcore \<Rightarrow> nat list" where
  "acc d c = (case d of Rx \<Rightarrow> vc_rx_acc c | Tx \<Rightarrow> vc_tx_acc c)"

definition request :: "('h, 'e, 'w, 'r) nenv \<Rightarrow> addr \<Rightarrow> dir \<times> nat \<times> nat \<Rightarrow> ('h, 'e, 'w, 'r, unit) nop" where
  "request E b = (\<lambda>(d, i, pid). case d of Rx \<Rightarrow> request_rx E b i pid | Tx \<Rightarrow> request_tx b i pid)"

definition aid :: "dir \<Rightarrow> ('h, 'e, 'w, 'r) nfv \<Rightarrow> addr \<Rightarrow> nat \<Rightarrow> nat \<Rightarrow> nat" where
  "aid d s b i pid = acc d (vb_vcores (the (vblocks s b)) ! i) ! pid"

definition count :: "dir \<Rightarrow> ('h, 'e, 'w, 'r) nfv \<Rightarrow> addr \<Rightarrow> nat" where
  "count d s p = cnt d (the (vports s p))"

text \<open>What a request needs: ports that are there, on a socket of the machine.\<close>

definition socket_ok :: "('h, 'e, 'w, 'r) nenv \<Rightarrow> ('h, 'e, 'w, 'r) nfv \<Rightarrow> addr \<Rightarrow> bool" where
  "socket_ok E s p \<longleftrightarrow> p \<noteq> NULL \<and> (\<exists>P. vports s p = Some P \<and> (case vp_class P of
     Dpdk_port d \<Rightarrow> ne_dev_socket E (dp_port_id d) < ne_sockets E
   | Virt_port v \<Rightarrow> vt_tx v \<noteq> NULL \<and> vt_rx v \<noteq> NULL \<longrightarrow> vt_tx v \<in> dom (marings s) \<and> vt_rx v \<in> dom (marings s)))"

definition block_ok :: "('h, 'e, 'w, 'r) nenv \<Rightarrow> addr \<Rightarrow> addr list \<Rightarrow> addr \<Rightarrow> ('h, 'e, 'w, 'r) nfv \<Rightarrow> bool" where
  "block_ok E v ps b s \<longleftrightarrow> b \<noteq> NULL \<and> 0 < ne_sockets E \<and> (\<forall>p\<in>set ps. socket_ok E s p) \<and> (\<exists>V. vnfs s v = Some V \<and> vn_ports V = ps) \<and>
     (\<exists>B. vblocks s b = Some B \<and> vb_ports B = v \<and> length (vb_socket_affinity B) = ne_sockets E \<and>
        (\<forall>c\<in>set (vb_vcores B). \<forall>d. length (acc d c) = length ps) \<and> (case vb_class B of L2fwd_numa k \<Rightarrow> k < length ps | _ \<Rightarrow> True))"

text \<open>What stays: all but the counters of the ports, and the ids and the socket count of the block.\<close>

definition plain_port :: "ssn_vnf_port \<Rightarrow> ssn_vnf_port" where
  "plain_port P = P\<lparr>vp_n_rxacc := 0, vp_n_txacc := 0\<rparr>"

definition plain_block :: "ssn_vnf_block \<Rightarrow> ssn_vnf_block \<times> nat \<times> nat list" where
  "plain_block B = (B\<lparr>vb_vcores := [], vb_socket_affinity := []\<rparr>, length (vb_socket_affinity B), map vc_lcore_id (vb_vcores B))"

definition acc_frame :: "addr \<Rightarrow> ('h, 'e, 'w, 'r) nfv \<Rightarrow> ('h, 'e, 'w, 'r) nfv \<Rightarrow> bool" where
  "acc_frame b s t \<longleftrightarrow> t\<lparr>vports := Map.empty, vblocks := Map.empty\<rparr> = s\<lparr>vports := Map.empty, vblocks := Map.empty\<rparr> \<and>
     (\<forall>b'. b' \<noteq> b \<longrightarrow> vblocks t b' = vblocks s b') \<and> map_option plain_block (vblocks t b) = map_option plain_block (vblocks s b) \<and>
     (\<forall>p. map_option plain_port (vports t p) = map_option plain_port (vports s p))"

lemma acc_frame_refl [simp]: "acc_frame b s s"
  by (simp add: acc_frame_def)

lemma acc_frame_trans: "acc_frame b s t \<Longrightarrow> acc_frame b t u \<Longrightarrow> acc_frame b s u"
  by (simp add: acc_frame_def)

lemma acc_frameD:
  assumes "acc_frame b s t"
  shows "vnfs t = vnfs s" "marings t = marings s" "thr t = thr s" "panels t = panels s" "\<And>b'. b' \<noteq> b \<Longrightarrow> vblocks t b' = vblocks s b'"
    "\<And>B. vblocks s b = Some B \<Longrightarrow> \<exists>B'. vblocks t b = Some B' \<and> plain_block B' = plain_block B"
    "\<And>p P. vports s p = Some P \<Longrightarrow> \<exists>P'. vports t p = Some P' \<and> plain_port P' = plain_port P"
proof -
  have e: "t\<lparr>vports := Map.empty, vblocks := Map.empty\<rparr> = s\<lparr>vports := Map.empty, vblocks := Map.empty\<rparr>" using assms by (simp add: acc_frame_def)
  show "vnfs t = vnfs s" "marings t = marings s" "thr t = thr s" "panels t = panels s"
    using arg_cong [OF e, of vnfs] arg_cong [OF e, of marings] arg_cong [OF e, of thr] arg_cong [OF e, of panels] by simp_all
  show "\<And>b'. b' \<noteq> b \<Longrightarrow> vblocks t b' = vblocks s b'" using assms by (simp add: acc_frame_def)
  show "\<exists>B'. vblocks t b = Some B' \<and> plain_block B' = plain_block B" if "vblocks s b = Some B" for B
  proof -
    have "map_option plain_block (vblocks t b) = Some (plain_block B)" using assms that by (simp add: acc_frame_def)
    then show ?thesis by (cases "vblocks t b") simp_all
  qed
  show "\<exists>P'. vports t p = Some P' \<and> plain_port P' = plain_port P" if "vports s p = Some P" for p P
  proof -
    have "map_option plain_port (vports t p) = Some (plain_port P)" using assms that by (simp add: acc_frame_def)
    then show ?thesis by (cases "vports t p") simp_all
  qed
qed

lemma plain_class: "plain_port P' = plain_port P \<Longrightarrow> vp_class P' = vp_class P \<and> vp_attached_vnf P' = vp_attached_vnf P"
  unfolding plain_port_def by (drule arg_cong [of _ _ "\<lambda>P. (vp_class P, vp_attached_vnf P)"]) simp

lemma socket_ok_frame: "acc_frame b s t \<Longrightarrow> socket_ok E s p \<Longrightarrow> socket_ok E t p"
proof -
  assume f: "acc_frame b s t" and "socket_ok E s p"
  then obtain P where P: "p \<noteq> NULL" "vports s p = Some P" "case vp_class P of
     Dpdk_port d \<Rightarrow> ne_dev_socket E (dp_port_id d) < ne_sockets E
   | Virt_port v \<Rightarrow> vt_tx v \<noteq> NULL \<and> vt_rx v \<noteq> NULL \<longrightarrow> vt_tx v \<in> dom (marings s) \<and> vt_rx v \<in> dom (marings s)"
    unfolding socket_ok_def by blast
  obtain P' where "vports t p = Some P'" "plain_port P' = plain_port P" using acc_frameD(7) [OF f P(2)] by blast
  then show "socket_ok E t p" using P(1,3) plain_class [of P' P] acc_frameD(2) [OF f] by (simp add: socket_ok_def split: port_class.splits)
qed

lemma block_ok_frame:
  assumes f: "acc_frame b s t" and ok: "block_ok E v ps b s"
    and l: "\<forall>c\<in>set (vb_vcores (the (vblocks t b))). \<forall>d. length (acc d c) = length ps"
  shows "block_ok E v ps b t"
proof -
  obtain B where B: "vblocks s b = Some B" "vb_ports B = v" "length (vb_socket_affinity B) = ne_sockets E"
    "case vb_class B of L2fwd_numa k \<Rightarrow> k < length ps | _ \<Rightarrow> True"
    using ok unfolding block_ok_def by blast
  obtain B' where B': "vblocks t b = Some B'" "plain_block B' = plain_block B" using acc_frameD(6) [OF f B(1)] by blast
  have "vb_ports B' = vb_ports B \<and> vb_class B' = vb_class B \<and> length (vb_socket_affinity B') = length (vb_socket_affinity B)"
    using arg_cong [OF B'(2), of "\<lambda>x. (vb_ports (fst x), vb_class (fst x), fst (snd x))"] by (simp add: plain_block_def)
  then show ?thesis
    using ok l B B'(1) socket_ok_frame [OF f] acc_frameD(1) [OF f] by (simp add: block_ok_def)
qed
lemma request_step:
  assumes ok: "block_ok E v ps b s" and i: "i < length (vb_vcores (the (vblocks s b)))" and pid: "pid < length ps"
  shows "wp (request E b (d, i, pid)) (\<lambda>r t. r = Return () \<and> acc_frame b s t \<and> block_ok E v ps b t \<and> aid d t b i pid = count d s (ps ! pid) \<and>
    (\<forall>d' i' pid'. (d', i', pid') \<noteq> (d, i, pid) \<longrightarrow> aid d' t b i' pid' = aid d' s b i' pid') \<and>
    (\<forall>d' p. count d' t p = (if d' = d \<and> p = ps ! pid then count d' s p + 1 else count d' s p))) s"
proof -
  obtain V B where V: "vnfs s v = Some V" "vn_ports V = ps" and B: "vblocks s b = Some B" "vb_ports B = v" "length (vb_socket_affinity B) = ne_sockets E"
    "\<forall>c\<in>set (vb_vcores B). \<forall>d. length (acc d c) = length ps" and b: "b \<noteq> NULL" "0 < ne_sockets E"
    "case vb_class B of L2fwd_numa k \<Rightarrow> k < length ps | _ \<Rightarrow> True" and so: "\<forall>p\<in>set ps. socket_ok E s p"
    using ok unfolding block_ok_def by blast
  let ?p = "ps ! pid"
  have p: "?p \<in> set ps" using pid by simp
  then have "socket_ok E s ?p" using so by blast
  then obtain P where P: "?p \<noteq> NULL" "vports s ?p = Some P" by (auto simp: socket_ok_def)
  obtain k where k: "get_socket_id E ?p s = Some (Return k, s)" "k < ne_sockets E"
  proof (cases "vp_class P")
    case (Dpdk_port d)
    then show thesis using that \<open>socket_ok E s ?p\<close> by (auto simp: P socket_ok_def get_socket_id_def the_port_def deref_def bnd_def need_def ret_def)
  next
    case (Virt_port x)
    then show thesis using that \<open>socket_ok E s ?p\<close> b(2)
      by (cases "vt_tx x \<noteq> NULL \<and> vt_rx x \<noteq> NULL")
        (auto simp: P socket_ok_def get_socket_id_def the_port_def deref_def bnd_def need_def ret_def andthen_def ma_ring_socket_id_def)
  qed
  have il: "i < length (vb_vcores B)" using i B(1) by simp
  then have c: "length (acc d (vb_vcores B ! i)) = length ps" for d using B(4) by simp
  have po: "block_port_at b pid s = Some (Return ?p, s)"
    using B(1,2) b(1) V pid by (simp add: block_port_at_def block_ports_def the_block_def need_def deref_def bnd_def ret_def nth_opt_def)
  note defs = the_block_def the_port_def upd_block_def upd_port_def vcore_at_def at_vec_def need_def deref_def bnd_def andthen_def ret_def nth_opt_def modify_def
  show ?thesis
  proof (cases d)
    case Rx
    let ?c = "vb_vcores B ! i"
    let ?B = "B\<lparr>vb_socket_affinity := (vb_socket_affinity B)[k := vb_socket_affinity B ! k + 1],
      vb_vcores := (vb_vcores B)[i := ?c\<lparr>vc_rx_acc := (vc_rx_acc ?c)[pid := vp_n_rxacc P]\<rparr>]\<rparr>"
    let ?t = "s\<lparr>vblocks := (vblocks s)(b \<mapsto> ?B), vports := (vports s)(?p \<mapsto> P\<lparr>vp_n_rxacc := vp_n_rxacc P + 1\<rparr>)\<rparr>"
    have e: "request E b (d, i, pid) s = Some (Return (), ?t)"
      using Rx po k B(1,3) b(1) P il c [of Rx] pid
      by (simp add: request_def request_rx_def port_request_rx_access_def request_rx_access_def set_lcore_port_rxaid_def defs acc_def)
    have f: "acc_frame b s ?t"
      using B(1) P(2) il by (simp add: acc_frame_def plain_block_def plain_port_def map_update list_update_same_conv)
    have "block_ok E v ps b ?t"
      by (rule block_ok_frame [OF f ok]) (use B(4) c pid il in \<open>auto simp: acc_def set_conv_nth nth_list_update split: dir.splits\<close>)
    moreover have "aid d ?t b i pid = count d s ?p" using Rx P(2) il c [of Rx] pid by (simp add: aid_def count_def cnt_def acc_def)
    moreover have "aid d' ?t b i' pid' = aid d' s b i' pid'" if "(d', i', pid') \<noteq> (d, i, pid)" for d' i' pid'
      using that Rx B(1) il by (cases "i' = i") (auto simp: aid_def acc_def split: dir.splits)
    moreover have "count d' ?t q = (if d' = d \<and> q = ?p then count d' s q + 1 else count d' s q)" for d' q
      using Rx P(2) by (auto simp: count_def cnt_def split: dir.splits)
    ultimately show ?thesis using f by - (rule wpI, rule e, blast)
  next
    case Tx
    let ?c = "vb_vcores B ! i"
    let ?B = "B\<lparr>vb_vcores := (vb_vcores B)[i := ?c\<lparr>vc_tx_acc := (vc_tx_acc ?c)[pid := vp_n_txacc P]\<rparr>]\<rparr>"
    let ?t = "s\<lparr>vblocks := (vblocks s)(b \<mapsto> ?B), vports := (vports s)(?p \<mapsto> P\<lparr>vp_n_txacc := vp_n_txacc P + 1\<rparr>)\<rparr>"
    have e: "request E b (d, i, pid) s = Some (Return (), ?t)"
      using Tx po B(1) b(1) P il c [of Tx] pid
      by (simp add: request_def request_tx_def port_request_tx_access_def request_tx_access_def set_lcore_port_txaid_def defs acc_def)
    have f: "acc_frame b s ?t"
      using B(1) P(2) il by (simp add: acc_frame_def plain_block_def plain_port_def map_update list_update_same_conv)
    have "block_ok E v ps b ?t"
      by (rule block_ok_frame [OF f ok]) (use B(4) c pid il in \<open>auto simp: acc_def set_conv_nth nth_list_update split: dir.splits\<close>)
    moreover have "aid d ?t b i pid = count d s ?p" using Tx P(2) il c [of Tx] pid by (simp add: aid_def count_def cnt_def acc_def)
    moreover have "aid d' ?t b i' pid' = aid d' s b i' pid'" if "(d', i', pid') \<noteq> (d, i, pid)" for d' i' pid'
      using that Tx B(1) il by (cases "i' = i") (auto simp: aid_def acc_def split: dir.splits)
    moreover have "count d' ?t q = (if d' = d \<and> q = ?p then count d' s q + 1 else count d' s q)" for d' q
      using Tx P(2) by (auto simp: count_def cnt_def split: dir.splits)
    ultimately show ?thesis using f by - (rule wpI, rule e, blast)
  qed
qed

subsection \<open>All requests of a block\<close>

definition pairs :: "dir \<Rightarrow> addr list \<Rightarrow> addr \<Rightarrow> (dir \<times> nat \<times> nat) list \<Rightarrow> ('h, 'e, 'w, 'r) nfv \<Rightarrow> (addr \<times> nat) list" where
  "pairs d ps b L t = map (\<lambda>(_, i, pid). (ps ! pid, aid d t b i pid)) (filter (\<lambda>x. fst x = d) L)"

text \<open>From \<open>s\<close> to \<open>t\<close> the requests \<open>L\<close> were made: they got the ids by which the counters have grown.\<close>

definition handed :: "('h, 'e, 'w, 'r) nenv \<Rightarrow> addr \<Rightarrow> addr list \<Rightarrow> addr \<Rightarrow> ('h, 'e, 'w, 'r) nfv \<Rightarrow> (dir \<times> nat \<times> nat) list \<Rightarrow> ('h, 'e, 'w, 'r) nfv \<Rightarrow> bool" where
  "handed E v ps b s L t \<longleftrightarrow> acc_frame b s t \<and> block_ok E v ps b t \<and>
     (\<forall>d. distinct (pairs d ps b L t) \<and> (\<forall>p a. (p, a) \<in> set (pairs d ps b L t) \<longleftrightarrow> count d s p \<le> a \<and> a < count d t p) \<and>
        (\<forall>p. count d s p \<le> count d t p))"

lemma handed_Nil: "block_ok E v ps b s \<Longrightarrow> handed E v ps b s [] s"
  by (simp add: handed_def pairs_def)

lemma vcores_frame:
  assumes "acc_frame b s t" "block_ok E v ps b s"
  shows "length (vb_vcores (the (vblocks t b))) = length (vb_vcores (the (vblocks s b)))"
proof -
  obtain B where B: "vblocks s b = Some B" using assms(2) unfolding block_ok_def by blast
  obtain B' where "vblocks t b = Some B'" "plain_block B' = plain_block B" using acc_frameD(6) [OF assms(1) B] by blast
  moreover from this(2) have "length (vb_vcores B') = length (vb_vcores B)" by (auto simp: plain_block_def dest: map_eq_imp_length_eq)
  ultimately show ?thesis using B by simp
qed

lemma handed_step:
  assumes H: "handed E v ps b s L t" and ok: "block_ok E v ps b s"
    and x: "(d, i, pid) \<notin> set L" "i < length (vb_vcores (the (vblocks s b)))" "pid < length ps"
  shows "wp (request E b (d, i, pid)) (\<lambda>r u. r = Return () \<and> handed E v ps b s (L @ [(d, i, pid)]) u) t"
proof (rule wp_conseq [OF request_step [where v = v and ps = ps]], goal_cases)
  case 1
  show ?case using H by (simp add: handed_def)
next
  case 2
  show ?case using vcores_frame [OF _ ok, of t] H x(2) by (simp add: handed_def)
next
  case 3
  show ?case by fact
next
  case (4 r u)
  let ?p = "ps ! pid"
  have u: "acc_frame b t u" "block_ok E v ps b u" "aid d u b i pid = count d t ?p"
    "\<And>d' i' pid'. (d', i', pid') \<noteq> (d, i, pid) \<Longrightarrow> aid d' u b i' pid' = aid d' t b i' pid'"
    "\<And>d' p. count d' u p = (if d' = d \<and> p = ?p then count d' t p + 1 else count d' t p)" "r = Return ()"
    using 4 by blast+
  have T: "acc_frame b s t" "\<And>d. distinct (pairs d ps b L t)" "\<And>d p. count d s p \<le> count d t p"
    "\<And>d p a. (p, a) \<in> set (pairs d ps b L t) \<longleftrightarrow> count d s p \<le> a \<and> a < count d t p"
    using H by (simp_all add: handed_def)
  have old: "pairs d' ps b L u = pairs d' ps b L t" for d'
    unfolding pairs_def
  proof (rule map_cong [OF refl], clarify)
    fix e j q assume "(e, j, q) \<in> set (filter (\<lambda>x. fst x = d') L)"
    then have "e = d'" "(d', j, q) \<noteq> (d, i, pid)" using x(1) by auto
    then show "ps ! q = ps ! q \<and> aid d' u b j q = aid d' t b j q" using u(4) by blast
  qed
  have new: "pairs d' ps b (L @ [(d, i, pid)]) u = pairs d' ps b L t @ (if d' = d then [(?p, count d t ?p)] else [])" for d'
    using old [of d'] u(3) by (simp add: pairs_def)
  have "(?p, count d t ?p) \<notin> set (pairs d ps b L t)" using T(4) by simp
  then have "distinct (pairs d' ps b (L @ [(d, i, pid)]) u)" for d' using new [of d'] T(2) by simp
  moreover have "(p, a) \<in> set (pairs d' ps b (L @ [(d, i, pid)]) u) \<longleftrightarrow> count d' s p \<le> a \<and> a < count d' u p" for d' p a
  proof -
    have "(p, a) \<in> set (pairs d' ps b (L @ [(d, i, pid)]) u) \<longleftrightarrow> (p, a) \<in> set (pairs d' ps b L t) \<or> d' = d \<and> p = ?p \<and> a = count d t ?p"
      unfolding new by auto
    then show ?thesis using T(3) [of d' p] T(4) [of p a d'] u(5) [of d' p] by auto
  qed
  moreover have "count d' s p \<le> count d' u p" for d' p using T(3) [of d' p] u(5) [of d' p] by (metis Suc_eq_plus1 le_SucI)
  ultimately show ?case using u(2,6) acc_frame_trans [OF T(1) u(1)] by (simp add: handed_def)
qed

lemma handed_run:
  assumes "handed E v ps b s L t" "block_ok E v ps b s" "distinct (L @ M)"
    "\<forall>(d, i, pid)\<in>set M. i < length (vb_vcores (the (vblocks s b))) \<and> pid < length ps"
  shows "wp (for_each (request E b) M) (\<lambda>r u. r = Return () \<and> handed E v ps b s (L @ M) u) t"
  using assms(1,3,4)
proof (induction M arbitrary: L t)
  case (Cons x M)
  obtain d i pid where x: "x = (d, i, pid)" by (cases x)
  have "wp (request E b x) (\<lambda>r u. r = Return () \<and> handed E v ps b s (L @ [x]) u) t"
    unfolding x by (rule handed_step [OF Cons.prems(1) assms(2)]) (use Cons.prems(2,3) x in auto)
  then show ?case
    unfolding for_each.simps wp_simps
    by (rule wp_conseq) (use Cons.IH [of "L @ [x]"] Cons.prems(2,3) in auto)
qed simp

text \<open>The loops of \<open>set_coremask_impl\<close> make these requests for vcore \<open>i\<close>.\<close>

definition reqs :: "block_class \<Rightarrow> nat \<Rightarrow> nat \<Rightarrow> (dir \<times> nat \<times> nat) list" where
  "reqs c n i = (case c of L2fwd_numa k \<Rightarrow> (Rx, i, k) # map (\<lambda>pid. (Tx, i, pid)) [0..<n]
     | _ \<Rightarrow> concat (map (\<lambda>pid. [(Rx, i, pid), (Tx, i, pid)]) [0..<n]))"

lemma andthen_assoc: "andthen (andthen a b) c = andthen a (andthen b c)"
  by (rule ext) (simp add: andthen_def bnd_def split: option.splits outcome.splits)

lemma andthen_ret [simp]: "andthen (ret ()) m = m"
  by (simp add: andthen_def)

lemma for_each_append: "for_each f (xs @ ys) = andthen (for_each f xs) (for_each f ys)"
  by (induction xs) (simp_all add: andthen_assoc)

lemma for_each_pairs:
  "for_each (\<lambda>pid. andthen (request_rx E b i pid) (request_tx b i pid)) xs = for_each (request E b) (concat (map (\<lambda>pid. [(Rx, i, pid), (Tx, i, pid)]) xs))"
  by (induction xs) (simp_all add: request_def andthen_assoc)

lemma for_each_tx: "for_each (request_tx b i) xs = for_each (request E b) (map (\<lambda>pid. (Tx, i, pid)) xs)"
  by (induction xs) (simp_all add: request_def)

lemma distinct_reqs: "distinct (reqs c n i)"
proof -
  have "distinct (concat (map (\<lambda>pid. [(Rx, i, pid), (Tx, i, pid)]) [0..<n]))" by (induction n) auto
  then show ?thesis by (auto simp: reqs_def distinct_map inj_on_def split: block_class.split)
qed

lemma reqs_i: "x \<in> set (reqs c n i) \<Longrightarrow> fst (snd x) = i"
  by (auto simp: reqs_def split: block_class.splits)

lemma distinct_all_reqs: "distinct (concat (map (reqs c n) [0..<k]))"
proof (induction k)
  case (Suc k)
  have "set (concat (map (reqs c n) [0..<k])) \<inter> set (reqs c n k) = {}"
  proof -
    have False if x: "x \<in> set (concat (map (reqs c n) [0..<k]))" "x \<in> set (reqs c n k)" for x
    proof -
      obtain i where "i < k" "x \<in> set (reqs c n i)" using x(1) by auto
      then show False using reqs_i [of x c n i] reqs_i [OF x(2)] by simp
    qed
    then show ?thesis by blast
  qed
  then show ?case using Suc distinct_reqs by simp
qed simp

lemma n_ports_ok: "block_ok E v ps b s \<Longrightarrow> block_n_ports b s = Some (Return (length ps), s)"
  by (auto simp: block_ok_def block_n_ports_def block_ports_def the_block_def need_def deref_def bnd_def ret_def)

lemma bnd_n_ports: "block_ok E v ps b s \<Longrightarrow> bnd (block_n_ports b) f s = f (length ps) s"
  by (simp add: n_ports_ok)

lemma impl_ok:
  assumes ok: "block_ok E v ps b s" and k: "ne_popcnt E m = length (vb_vcores (the (vblocks s b)))"
  defines "B \<equiv> the (vblocks s b)"
  shows "wp (set_coremask_impl E b m) (\<lambda>r t. r = Return () \<and> handed E v ps b s (concat (map (reqs (vb_class B) (length ps)) [0..<length (vb_vcores B)])) t) s"
proof -
  obtain B' where B: "vblocks s b = Some B'" "b \<noteq> NULL" "case vb_class B' of L2fwd_numa k \<Rightarrow> k < length ps | _ \<Rightarrow> True"
    using ok unfolding block_ok_def by blast
  then have BB: "B = B'" by (simp add: B_def)
  let ?n = "length (vb_vcores B)" and ?r = "reqs (vb_class B) (length ps)"
  let ?g = "\<lambda>i. case vb_class B of
       L2fwd_numa port_id \<Rightarrow> andthen (request_rx E b i port_id) (bnd (block_n_ports b) (\<lambda>n. for_each (request_tx b i) [0..<n]))
     | _ \<Rightarrow> bnd (block_n_ports b) (\<lambda>n. for_each (\<lambda>pid. andthen (request_rx E b i pid) (request_tx b i pid)) [0..<n])"
  have g: "set_coremask_impl E b m s = for_each ?g [0..<?n] s"
    using B(1,2) k by (cases "vb_class B") (simp_all add: set_coremask_impl_def the_block_def need_def deref_def bnd_def BB)
  have step: "wp (?g i) (\<lambda>r u. r = Return () \<and> handed E v ps b s (concat (map ?r [0..<Suc i])) u) t"
    if i: "i < ?n" and H: "handed E v ps b s (concat (map ?r [0..<i])) t" for i t
  proof -
    have d: "distinct (concat (map ?r [0..<i]) @ ?r i)" using distinct_all_reqs [of "vb_class B" "length ps" "Suc i"] by simp
    have range: "\<forall>(d, j, pid)\<in>set (?r i). j < length (vb_vcores (the (vblocks s b))) \<and> pid < length ps"
      using i B(3) by (auto simp: reqs_def B_def [symmetric] BB split: block_class.splits)
    have run: "wp (for_each (request E b) (?r i)) (\<lambda>r u. r = Return () \<and> handed E v ps b s (concat (map ?r [0..<Suc i])) u) t"
      using handed_run [OF H ok d range] by simp
    have tok: "block_ok E v ps b t" using H by (simp add: handed_def)
    show ?thesis
    proof (cases "\<exists>k. vb_class B = L2fwd_numa k")
      case True
      then obtain k where c: "vb_class B = L2fwd_numa k" by blast
      have kl: "k < length ps" using B(3) c BB by simp
      have "wp (request E b (Rx, i, k)) (\<lambda>r u. r = Return () \<and> handed E v ps b s (concat (map ?r [0..<i]) @ [(Rx, i, k)]) u) t"
        by (rule handed_step [OF H ok _ _ kl]) (use i d c in \<open>auto simp: reqs_def B_def\<close>)
      then obtain u where u: "request E b (Rx, i, k) t = Some (Return (), u)" "handed E v ps b s (concat (map ?r [0..<i]) @ [(Rx, i, k)]) u"
        by (auto dest: wpD)
      have uok: "block_ok E v ps b u" using u(2) by (simp add: handed_def)
      have "request_rx E b i k t = Some (Return (), u)" using u(1) by (simp add: request_def)
      then have "?g i t = for_each (request E b) (?r i) t"
        using u(1) for_each_tx [of b i "[0..<length ps]" E] by (simp add: c reqs_def bnd_n_ports [OF uok])
      then show ?thesis using run by (simp add: wp_def)
    next
      case False
      then have "?g i t = for_each (request E b) (?r i) t"
        by (cases "vb_class B") (auto simp: reqs_def for_each_pairs bnd_n_ports [OF tok])
      then show ?thesis using run by (simp add: wp_def)
    qed
  qed
  have "wp (for_each ?g [0..<?n]) (\<lambda>r t. r = Return () \<and> handed E v ps b s (concat (map ?r [0..<?n])) t) s"
  proof (rule wp_for_each [where I = "\<lambda>i. handed E v ps b s (concat (map ?r [0..<i]))"])
    show "handed E v ps b s (concat (map ?r [0..<0])) s" using handed_Nil [OF ok] by simp
    fix i t assume i: "i < length [0..<?n]" and H: "handed E v ps b s (concat (map ?r [0..<i])) t"
    then have n: "i < ?n" "[0..<?n] ! i = i" by simp_all
    show "wp (?g ([0..<?n] ! i)) (onret (\<lambda>_. handed E v ps b s (concat (map ?r [0..<Suc i])))
        (\<lambda>r t. r = Return () \<and> handed E v ps b s (concat (map ?r [0..<?n])) t)) t"
      unfolding n(2) by (rule wp_conseq [OF step [OF n(1) H]]) simp
  qed simp
  then show ?thesis using g by (simp add: wp_def B_def)
qed

subsection \<open>Configuring and resetting a VNF\<close>

definition popcnt_law :: "('h, 'e, 'w, 'r) nenv \<Rightarrow> bool" where
  "popcnt_law E \<longleftrightarrow> (\<forall>m. ne_popcnt E m = length (filter (bit m) [0..<32]))"

definition vnf_ok :: "('h, 'e, 'w, 'r) nenv \<Rightarrow> addr \<Rightarrow> ('h, 'e, 'w, 'r) nfv \<Rightarrow> bool" where
  "vnf_ok E v s \<longleftrightarrow> v \<noteq> NULL \<and> (\<exists>V. vnfs s v = Some V \<and> distinct (vn_blocks V) \<and> (\<forall>p\<in>set (vn_ports V). p \<noteq> NULL) \<and>
     (\<forall>b\<in>set (vn_blocks V). block_ok E v (vn_ports V) b s))"

text \<open>The ports and ids that the threads of block \<open>b\<close> use in direction \<open>d\<close>, one entry per use.\<close>

definition used :: "dir \<Rightarrow> ('h, 'e, 'w, 'r) nfv \<Rightarrow> addr \<Rightarrow> addr \<Rightarrow> (addr \<times> nat) list" where
  "used d s v b = (let ps = vn_ports (the (vnfs s v)); B = the (vblocks s b) in
     pairs d ps b (concat (map (reqs (vb_class B) (length ps)) [0..<length (vb_vcores B)])) s)"

definition cfg :: "('h, 'e, 'w, 'r) nenv \<Rightarrow> addr \<Rightarrow> addr \<Rightarrow> u32 \<Rightarrow> ('h, 'e, 'w, 'r) nfv \<Rightarrow> ('h, 'e, 'w, 'r) nfv \<Rightarrow> bool" where
  "cfg E v b m s t \<longleftrightarrow> vnf_ok E v t \<and> vnfs t v = vnfs s v \<and> (\<forall>b'. b' \<noteq> b \<longrightarrow> vblocks t b' = vblocks s b') \<and>
     (\<exists>B. vblocks t b = Some B \<and> vb_coremask B = m \<and> map vc_lcore_id (vb_vcores B) = mask_cores m) \<and>
     (\<forall>d. distinct (used d t v b) \<and> (\<forall>p a. (p, a) \<in> set (used d t v b) \<longleftrightarrow> count d s p \<le> a \<and> a < count d t p) \<and> (\<forall>p. count d s p \<le> count d t p)) \<and>
     (\<forall>p P. vports s p = Some P \<longrightarrow> (\<exists>P'. vports t p = Some P' \<and> plain_port P' = plain_port P))"

lemma socket_ok_blocks [simp]: "socket_ok E (s\<lparr>vblocks := x\<rparr>) p = socket_ok E s p"
  by (simp add: socket_ok_def split: port_class.splits)

lemma block_ok_cong:
  assumes "block_ok E v ps b s" "vblocks t b = vblocks s b" "vnfs t v = vnfs s v" "\<forall>p\<in>set ps. socket_ok E s p \<longrightarrow> socket_ok E t p"
  shows "block_ok E v ps b t"
  using assms unfolding block_ok_def by auto

lemma block_set_ok:
  assumes ok: "vnf_ok E v s" and b: "b \<in> set (vn_blocks (the (vnfs s v)))" and E: "popcnt_law E"
  shows "wp (block_set_coremask E b m) (\<lambda>r t. r = Return () \<and> cfg E v b m s t) s"
proof -
  obtain V where V: "v \<noteq> NULL" "vnfs s v = Some V" "distinct (vn_blocks V)" "\<forall>p\<in>set (vn_ports V). p \<noteq> NULL"
    "\<forall>b\<in>set (vn_blocks V). block_ok E v (vn_ports V) b s"
    using ok unfolding vnf_ok_def by blast
  let ?ps = "vn_ports V"
  have bV: "b \<in> set (vn_blocks V)" using b V(2) by simp
  then have bok: "block_ok E v ?ps b s" using V(5) by blast
  then obtain B where B: "vblocks s b = Some B" "b \<noteq> NULL" unfolding block_ok_def by blast
  let ?vc = "map (\<lambda>c. new_vcore (ne_junk E) c (length ?ps)) (mask_cores m)"
  let ?B = "B\<lparr>vb_coremask := m, vb_vcores := ?vc, vb_tids := vec_resize (length (mask_cores m)) 0 (vb_tids B)\<rparr>"
  let ?s = "s\<lparr>vblocks := (vblocks s)(b \<mapsto> ?B)\<rparr>"
  have c1: "count d ?s p = count d s p" for d p by (simp add: count_def)
  have ok1: "block_ok E v ?ps b ?s"
    using bok B by (auto simp: block_ok_def new_vcore_def acc_def split: dir.split)
  have k: "ne_popcnt E m = length (vb_vcores (the (vblocks ?s b)))" using E by (simp add: popcnt_law_def mask_cores_def)
  have e: "block_set_coremask E b m s = set_coremask_impl E b m ?s"
    using B bnd_n_ports [OF bok] by (simp add: block_set_coremask_def andthen_def upd_block_def the_block_def need_def deref_def bnd_def modify_def n_ports_ok [OF bok])
  let ?L = "concat (map (reqs (vb_class B) (length ?ps)) [0..<length ?vc])"
  have "wp (block_set_coremask E b m) (\<lambda>r t. r = Return () \<and> handed E v ?ps b ?s ?L t) s"
    using impl_ok [OF ok1 k] by (simp add: wp_def e)
  then show ?thesis
  proof (rule wp_conseq, elim conjE, intro conjI)
    fix r t assume r: "r = Return ()" and H: "handed E v ?ps b ?s ?L t"
    show "r = Return ()" by (rule r)
    have f: "acc_frame b ?s t" and bt: "block_ok E v ?ps b t" using H by (simp_all add: handed_def)
    have vn: "vnfs t = vnfs s" and ot: "\<And>b'. b' \<noteq> b \<Longrightarrow> vblocks t b' = vblocks s b'" using acc_frameD(1,5) [OF f] by simp_all
    have ps: "\<forall>p P. vports s p = Some P \<longrightarrow> (\<exists>P'. vports t p = Some P' \<and> plain_port P' = plain_port P)" using acc_frameD(7) [OF f] by simp
    obtain B' where B': "vblocks t b = Some B'" "plain_block B' = plain_block ?B" using acc_frameD(6) [OF f, of ?B] by auto
    have "vb_coremask B' = m \<and> vb_class B' = vb_class B \<and> map vc_lcore_id (vb_vcores B') = map vc_lcore_id ?vc"
      using arg_cong [OF B'(2), of "\<lambda>x. (vb_coremask (fst x), vb_class (fst x), snd (snd x))"] by (simp add: plain_block_def)
    moreover have "map vc_lcore_id ?vc = mask_cores m" by (simp add: comp_def new_vcore_def)
    ultimately have B2: "vb_coremask B' = m" "vb_class B' = vb_class B" "map vc_lcore_id (vb_vcores B') = mask_cores m" by simp_all
    have len: "length (vb_vcores B') = length ?vc" using arg_cong [OF B2(3), of length] by simp
    have u: "used d t v b = pairs d ?ps b ?L t" for d using B'(1) V(2) vn B2(2) len by (simp add: used_def Let_def)
    have "vnf_ok E v t"
      unfolding vnf_ok_def vn
    proof (intro conjI exI)
      show "\<forall>b'\<in>set (vn_blocks V). block_ok E v ?ps b' t"
      proof
        fix b' assume "b' \<in> set (vn_blocks V)"
        then have b': "block_ok E v ?ps b' s" using V(5) by blast
        show "block_ok E v ?ps b' t"
        proof (cases "b' = b")
          case False
          then show ?thesis using block_ok_cong [OF b' ot [OF False]] vn socket_ok_frame [OF f] by simp
        qed (use bt in simp)
      qed
    qed (use V in simp_all)
    then show "cfg E v b m s t"
      using vn ot ps B'(1) B2 H unfolding cfg_def u handed_def c1 by auto
  qed
qed

lemma null_scan:
  assumes "vnf_ok E v s"
  shows "scan_ports v (when_null x) s = Some (Return None, s)"
proof -
  obtain V where V: "v \<noteq> NULL" "vnfs s v = Some V" "\<forall>p\<in>set (vn_ports V). p \<noteq> NULL" using assms unfolding vnf_ok_def by blast
  have "scan (\<lambda>i. bnd (vnf_port_at v i) (when_null x)) is s = Some (Return None, s)" if "set is \<subseteq> {..<length (vn_ports V)}" for "is"
    using that
  proof (induction "is")
    case (Cons i "is")
    then have "vn_ports V ! i \<noteq> NULL" "i < length (vn_ports V)" using V(3) nth_mem by auto
    then show ?case using Cons V(1,2)
      by (simp add: vnf_port_at_def the_vnf_def need_def deref_def nth_opt_def when_null_def bnd_def ret_def)
  qed (simp add: ret_def)
  then show ?thesis
    using V(1,2) by (simp add: scan_ports_def n_ports_def the_vnf_def need_def deref_def bnd_def ret_def atLeast0LessThan)
qed

lemma set_coremask_ok:
  assumes ok: "vnf_ok E v s" and b: "i < length (vn_blocks (the (vnfs s v)))" and E: "popcnt_law E"
  shows "wp (set_coremask E v i m) (\<lambda>r t. r = Return 0 \<and> cfg E v (vn_blocks (the (vnfs s v)) ! i) m s t) s"
proof -
  let ?b = "vn_blocks (the (vnfs s v)) ! i"
  obtain V where V: "v \<noteq> NULL" "vnfs s v = Some V" using ok unfolding vnf_ok_def by blast
  have at: "vnf_block_at v i s = Some (Return ?b, s)"
    using V b by (simp add: vnf_block_at_def the_vnf_def need_def deref_def at_vec_def bnd_def ret_def)
  have "?b \<in> set (vn_blocks (the (vnfs s v)))" using b by simp
  from wpD [OF block_set_ok [OF ok this E, of m]] obtain t where
    t: "block_set_coremask E ?b m s = Some (Return (), t)" "cfg E v ?b m s t" by blast
  have "set_coremask E v i m s = Some (Return 0, t)"
    using t(1) by (simp add: set_coremask_def ret_def bnd_def andthen_def null_scan [OF ok] at)
  then show ?thesis using t(2) by (simp add: wp_def)
qed

lemma cfgD:
  assumes "cfg E v b m s t"
  shows "vnf_ok E v t" "vnfs t v = vnfs s v" "b' \<noteq> b \<Longrightarrow> vblocks t b' = vblocks s b'"
    "distinct (used d t v b)" "(p, a) \<in> set (used d t v b) \<longleftrightarrow> count d s p \<le> a \<and> a < count d t p" "count d s p \<le> count d t p"
    "map vc_lcore_id (vb_vcores (the (vblocks t b))) = mask_cores m"
  using assms by (auto simp: cfg_def)

lemma vnf_okD:
  assumes "vnf_ok E v s"
  shows "v \<noteq> NULL" "vnfs s v = Some (the (vnfs s v))" "distinct (vn_blocks (the (vnfs s v)))"
    "p \<in> set (vn_ports (the (vnfs s v))) \<Longrightarrow> p \<noteq> NULL"
    "b \<in> set (vn_blocks (the (vnfs s v))) \<Longrightarrow> block_ok E v (vn_ports (the (vnfs s v))) b s"
  using assms by (auto simp: vnf_ok_def)

lemma block_reset_ok:
  assumes ok: "vnf_ok E v s" and b: "b \<in> set (vn_blocks (the (vnfs s v)))" and E: "popcnt_law E"
  shows "wp (block_reset E b) (\<lambda>r t. r = Return () \<and> vnf_ok E v t \<and> vnfs t v = vnfs s v \<and> (\<forall>b'. b' \<noteq> b \<longrightarrow> vblocks t b' = vblocks s b')) s"
proof -
  obtain t where t: "block_set_coremask E b 1 s = Some (Return (), t)" "cfg E v b 1 s t"
    using wpD [OF block_set_ok [OF ok b E, of 1]] by blast
  note tok = cfgD(1) [OF t(2)] and tv = cfgD(2) [OF t(2)]
  have bok: "block_ok E v (vn_ports (the (vnfs t v))) b t" using vnf_okD(5) [OF tok, of b] b tv by simp
  then obtain B where B: "vblocks t b = Some B" "b \<noteq> NULL" "length (vb_socket_affinity B) = ne_sockets E" "0 < ne_sockets E"
    unfolding block_ok_def by blast
  then have "vb_socket_affinity B \<noteq> []" by auto
  let ?k = "max_socket 0 0 (vb_socket_affinity B ! 0) (vb_socket_affinity B)"
  let ?u = "t\<lparr>vblocks := (vblocks t)(b \<mapsto> B\<lparr>vb_socket := ?k, vb_socket_affinity := replicate (length (vb_socket_affinity B)) 0\<rparr>)\<rparr>"
  have e: "block_reset E b s = Some (Return (), ?u)"
    using t(1) B \<open>vb_socket_affinity B \<noteq> []\<close> by (simp add: block_reset_def get_socket_affinity_impl_def the_block_def upd_block_def need_def deref_def bnd_def andthen_def modify_def nth_opt_def)
  have "block_ok E v (vn_ports (the (vnfs t v))) b' ?u" if "b' \<in> set (vn_blocks (the (vnfs t v)))" for b'
    using vnf_okD(5) [OF tok that] bok B(1,3) by (auto simp: block_ok_def)
  then have "vnf_ok E v ?u" using vnf_okD [OF tok] unfolding vnf_ok_def by auto
  then show ?thesis using tv cfgD(3) [OF t(2)] by - (rule wpI, rule e, simp)
qed

lemma block_at: "vnf_ok E v s \<Longrightarrow> i < length (vn_blocks (the (vnfs s v))) \<Longrightarrow> vnf_block_at v i s = Some (Return (vn_blocks (the (vnfs s v)) ! i), s)"
  by (auto simp: vnf_ok_def vnf_block_at_def the_vnf_def need_def deref_def at_vec_def bnd_def ret_def)

lemma port_at: "vnf_ok E v s \<Longrightarrow> i < length (vn_ports (the (vnfs s v))) \<Longrightarrow> vnf_port_at v i s = Some (Return (vn_ports (the (vnfs s v)) ! i), s)"
  by (auto simp: vnf_ok_def vnf_port_at_def the_vnf_def need_def deref_def nth_opt_def bnd_def ret_def)

lemma each_block_ok:
  assumes ok: "vnf_ok E v s" and "I 0 s"
    and "\<And>i t. i < length (vn_blocks (the (vnfs s v))) \<Longrightarrow> I i t \<Longrightarrow> vnf_ok E v t \<and> vnfs t v = vnfs s v \<and>
           wp (f i (vn_blocks (the (vnfs s v)) ! i)) (onret (\<lambda>_. I (Suc i)) Q) t"
    and "\<And>t. I (length (vn_blocks (the (vnfs s v)))) t \<Longrightarrow> Q (Return ()) t"
  shows "wp (each_block v f) Q s"
proof -
  have n: "n_blocks v s = Some (Return (length (vn_blocks (the (vnfs s v)))), s)"
    using ok by (auto simp: vnf_ok_def n_blocks_def the_vnf_def need_def deref_def bnd_def ret_def)
  have "wp (for_each (\<lambda>i. bnd (vnf_block_at v i) (f i)) [0..<length (vn_blocks (the (vnfs s v)))]) Q s"
  proof (rule wp_for_each [where I = I])
    fix i t assume i: "i < length [0..<length (vn_blocks (the (vnfs s v)))]" and I: "I i t"
    then have "vnf_block_at v i t = Some (Return (vn_blocks (the (vnfs s v)) ! i), t)" using assms(3) [of i t] block_at [of E v t i] by simp
    then show "wp (bnd (vnf_block_at v ([0..<length (vn_blocks (the (vnfs s v)))] ! i)) (f ([0..<length (vn_blocks (the (vnfs s v)))] ! i)))
      (onret (\<lambda>_. I (Suc i)) Q) t"
      using assms(3) [of i t] i I by (simp add: wp_def)
  qed (use assms in simp_all)
  then show ?thesis by (simp add: each_block_def wp_def bnd_def n)
qed

lemma each_port_ok:
  assumes ok: "vnf_ok E v s" and "I 0 s"
    and "\<And>i t. i < length (vn_ports (the (vnfs s v))) \<Longrightarrow> I i t \<Longrightarrow> vnf_ok E v t \<and> vnfs t v = vnfs s v \<and>
           wp (f (vn_ports (the (vnfs s v)) ! i)) (onret (\<lambda>_. I (Suc i)) Q) t"
    and "\<And>t. I (length (vn_ports (the (vnfs s v)))) t \<Longrightarrow> Q (Return ()) t"
  shows "wp (each_port v f) Q s"
proof -
  have n: "n_ports v s = Some (Return (length (vn_ports (the (vnfs s v)))), s)"
    using ok by (auto simp: vnf_ok_def n_ports_def the_vnf_def need_def deref_def bnd_def ret_def)
  have "wp (for_each (\<lambda>i. bnd (vnf_port_at v i) f) [0..<length (vn_ports (the (vnfs s v)))]) Q s"
  proof (rule wp_for_each [where I = I])
    fix i t assume i: "i < length [0..<length (vn_ports (the (vnfs s v)))]" and I: "I i t"
    then have "vnf_port_at v i t = Some (Return (vn_ports (the (vnfs s v)) ! i), t)" using assms(3) [of i t] port_at [of E v t i] by simp
    then show "wp (bnd (vnf_port_at v ([0..<length (vn_ports (the (vnfs s v)))] ! i)) f) (onret (\<lambda>_. I (Suc i)) Q) t"
      using assms(3) [of i t] i I by (simp add: wp_def)
  qed (use assms in simp_all)
  then show ?thesis by (simp add: each_port_def wp_def bnd_def n)
qed

lemma reset_acc_ok:
  assumes ok: "vnf_ok E v s" and p: "p \<in> set (vn_ports (the (vnfs s v)))" "vn_blocks (the (vnfs s v)) \<noteq> []"
  shows "wp (reset_acc p) (\<lambda>r t. r = Return () \<and> vnf_ok E v t \<and> vnfs t = vnfs s \<and> vblocks t = vblocks s \<and>
    (\<forall>d q. count d t q = (if q = p then 0 else count d s q))) s"
proof -
  have "block_ok E v (vn_ports (the (vnfs s v))) (hd (vn_blocks (the (vnfs s v)))) s" using vnf_okD(5) [OF ok] p(2) by simp
  then have "socket_ok E s p" using p(1) by (auto simp: block_ok_def)
  then obtain P where P: "vports s p = Some P" "p \<noteq> NULL" unfolding socket_ok_def by blast
  let ?t = "s\<lparr>vports := (vports s)(p \<mapsto> P\<lparr>vp_n_rxacc := 0, vp_n_txacc := 0\<rparr>)\<rparr>"
  have e: "reset_acc p s = Some (Return (), ?t)"
    using P by (simp add: reset_acc_def upd_port_def the_port_def need_def deref_def bnd_def modify_def)
  have "socket_ok E ?t q" if "socket_ok E s q" for q
    using that P by (cases "q = p") (auto simp: socket_ok_def split: port_class.splits)
  then have "block_ok E v (vn_ports (the (vnfs s v))) b ?t" if "b \<in> set (vn_blocks (the (vnfs s v)))" for b
    using vnf_okD(5) [OF ok that] by (auto simp: block_ok_def)
  then have "vnf_ok E v ?t" using vnf_okD [OF ok] unfolding vnf_ok_def by auto
  moreover have "count d ?t q = (if q = p then 0 else count d s q)" for d q by (simp add: count_def cnt_def split: dir.split)
  ultimately show ?thesis by - (rule wpI, rule e, simp)
qed

definition idle :: "('h, 'e, 'w, 'r) nfv \<Rightarrow> addr \<Rightarrow> bool" where
  "idle s b \<longleftrightarrow> vb_vcores (the (vblocks s b)) = []"

lemma idle_used [simp]: "idle s b \<Longrightarrow> used d s v b = []"
  by (simp add: idle_def used_def pairs_def Let_def)

lemma idle_cfg: "cfg E v b 0 s t \<Longrightarrow> idle t b"
  using cfgD(7) [of E v b 0 s t] by (simp add: idle_def mask_cores_def)

lemma vnf_reset_ok:
  assumes ok: "vnf_ok E v s" and ne: "vn_blocks (the (vnfs s v)) \<noteq> []" and E: "popcnt_law E"
  shows "wp (vnf_reset E v) (\<lambda>r t. r = Return 0 \<and> vnf_ok E v t \<and> vnfs t v = vnfs s v \<and>
    (\<forall>b\<in>set (vn_blocks (the (vnfs s v))). idle t b) \<and> (\<forall>d. \<forall>p\<in>set (vn_ports (the (vnfs s v))). count d t p = 0)) s"
proof -
  let ?bs = "vn_blocks (the (vnfs s v))" and ?ps = "vn_ports (the (vnfs s v))"
  define I where "I i t \<longleftrightarrow> vnf_ok E v t \<and> vnfs t v = vnfs s v \<and> (\<forall>j<i. idle t (?bs ! j))" for i t
  have dist: "distinct ?bs" using vnf_okD(3) [OF ok] .
  have "wp (each_block v (\<lambda>i b. andthen (block_reset E b) (bnd (set_coremask E v i 0) (\<lambda>_. ret ())))) (\<lambda>r t. r = Return () \<and> I (length ?bs) t) s"
  proof (rule each_block_ok [OF ok, where I = I])
    fix i t assume i: "i < length ?bs" and It: "I i t"
    let ?b = "?bs ! i"
    have tok: "vnf_ok E v t" "vnfs t v = vnfs s v" using It by (simp_all add: I_def)
    obtain u where u: "block_reset E ?b t = Some (Return (), u)" "vnf_ok E v u" "vnfs u v = vnfs s v" "\<forall>b'. b' \<noteq> ?b \<longrightarrow> vblocks u b' = vblocks t b'"
      using wpD [OF block_reset_ok [OF tok(1) _ E, of ?b]] i tok(2) by fastforce
    obtain w where w: "set_coremask E v i 0 u = Some (Return 0, w)" "cfg E v ?b 0 u w"
      using wpD [OF set_coremask_ok [OF u(2) _ E, of i 0]] i u(3) by fastforce
    have "idle w (?bs ! j)" if "j < Suc i" for j
    proof (cases "j = i")
      case False
      then have "j < i" "?bs ! j \<noteq> ?b" using that i dist by (simp_all add: nth_eq_iff_index_eq)
      then show ?thesis using It u(4) cfgD(3) [OF w(2), of "?bs ! j"] by (simp add: I_def idle_def)
    qed (use idle_cfg [OF w(2)] in simp)
    then have "I (Suc i) w" using cfgD(1,2) [OF w(2)] u(3) by (simp add: I_def)
    then have "wp (andthen (block_reset E ?b) (bnd (set_coremask E v i 0) (\<lambda>_. ret ()))) (onret (\<lambda>_. I (Suc i)) (\<lambda>r t. r = Return () \<and> I (length ?bs) t)) t"
      using u(1) w(1) by (simp add: wp_def ret_def)
    then show "vnf_ok E v t \<and> vnfs t v = vnfs s v \<and> wp (andthen (block_reset E ?b) (bnd (set_coremask E v i 0) (\<lambda>_. ret ())))
      (onret (\<lambda>_. I (Suc i)) (\<lambda>r t. r = Return () \<and> I (length ?bs) t)) t" using tok by blast
  qed (use ok in \<open>simp_all add: I_def\<close>)
  then obtain t where t: "each_block v (\<lambda>i b. andthen (block_reset E b) (bnd (set_coremask E v i 0) (\<lambda>_. ret ()))) s = Some (Return (), t)" "I (length ?bs) t"
    by (auto dest: wpD)
  have tok: "vnf_ok E v t" "vnfs t v = vnfs s v" using t(2) by (simp_all add: I_def)
  define J where "J i u \<longleftrightarrow> vnf_ok E v u \<and> vnfs u = vnfs t \<and> vblocks u = vblocks t \<and> (\<forall>d. \<forall>j<i. count d u (?ps ! j) = 0)" for i u
  have "wp (each_port v reset_acc) (\<lambda>r u. r = Return () \<and> J (length ?ps) u) t"
  proof (rule each_port_ok [OF tok(1), where I = J, unfolded tok(2)])
    fix i u assume i: "i < length ?ps" and Ju: "J i u"
    have uok: "vnf_ok E v u" "vnfs u v = vnfs s v" using Ju tok(2) by (simp_all add: J_def)
    have "wp (reset_acc (?ps ! i)) (\<lambda>r w. r = Return () \<and> J (Suc i) w) u"
      by (rule wp_conseq [OF reset_acc_ok [OF uok(1)]]) (use i ne uok(2) Ju in \<open>auto simp: J_def less_Suc_eq\<close>)
    then show "vnf_ok E v u \<and> vnfs u v = vnfs s v \<and> wp (reset_acc (?ps ! i)) (onret (\<lambda>_. J (Suc i)) (\<lambda>r u. r = Return () \<and> J (length ?ps) u)) u"
      using uok by (auto intro: wp_conseq)
  qed (use tok in \<open>simp_all add: J_def\<close>)
  then obtain u where u: "each_port v reset_acc t = Some (Return (), u)" "J (length ?ps) u" by (auto dest: wpD)
  have e: "vnf_reset E v s = Some (Return 0, u)"
    unfolding vnf_reset_def using t(1) u(1) by (simp add: null_scan [OF tok(1)] ret_def)
  have "(\<forall>b\<in>set ?bs. idle u b) \<and> (\<forall>d. \<forall>p\<in>set ?ps. count d u p = 0)"
    using t(2) u(2) by (auto simp: I_def J_def idle_def in_set_conv_nth)
  then show ?thesis using e u(2) tok(2) by (auto simp: J_def wp_def)
qed

text \<open>\<open>ids_ok\<close>: each id is used once, and on the ports of the VNF the ids in use are those counted.\<close>

definition ids_ok :: "addr \<Rightarrow> ('h, 'e, 'w, 'r) nfv \<Rightarrow> bool" where
  "ids_ok v s \<longleftrightarrow> (let bs = vn_blocks (the (vnfs s v)); ps = vn_ports (the (vnfs s v)) in
     \<forall>d. (\<forall>b\<in>set bs. distinct (used d s v b)) \<and> (\<forall>b\<in>set bs. \<forall>b'\<in>set bs. b \<noteq> b' \<longrightarrow> set (used d s v b) \<inter> set (used d s v b') = {}) \<and>
       (\<forall>p\<in>set ps. \<forall>a. (\<exists>b\<in>set bs. (p, a) \<in> set (used d s v b)) \<longleftrightarrow> a < count d s p))"

text \<open>Setting the masks of some blocks, each result being 0.\<close>

definition set_masks :: "('h, 'e, 'w, 'r) nenv \<Rightarrow> addr \<Rightarrow> (nat \<times> u32) list \<Rightarrow> ('h, 'e, 'w, 'r, int option) nop" where
  "set_masks E v = scan (\<lambda>(i, m). bnd (set_coremask E v i m) (\<lambda>x. ret (if x = 0 then None else Some x)))"

definition on_cores :: "addr \<Rightarrow> (nat \<times> u32) list \<Rightarrow> ('h, 'e, 'w, 'r) nfv \<Rightarrow> bool" where
  "on_cores v cs s \<longleftrightarrow> (\<forall>(i, m)\<in>set cs. map vc_lcore_id (vb_vcores (the (vblocks s (vn_blocks (the (vnfs s v)) ! i)))) = mask_cores m)"

lemma used_cong: "vnfs t v = vnfs s v \<Longrightarrow> vblocks t b = vblocks s b \<Longrightarrow> used d t v b = used d s v b"
  by (simp add: used_def Let_def pairs_def aid_def)

lemma used_ports: "x \<in> set (used d s v b) \<Longrightarrow> block_ok E v (vn_ports (the (vnfs s v))) b s \<Longrightarrow> fst x \<in> set (vn_ports (the (vnfs s v)))"
proof -
  assume x: "x \<in> set (used d s v b)" and ok: "block_ok E v (vn_ports (the (vnfs s v))) b s"
  let ?ps = "vn_ports (the (vnfs s v))" and ?c = "vb_class (the (vblocks s b))"
  obtain y where y: "y \<in> set (concat (map (reqs ?c (length ?ps)) [0..<length (vb_vcores (the (vblocks s b)))]))"
    "x = (case y of (_, i, pid) \<Rightarrow> (?ps ! pid, aid d s b i pid))"
    using x unfolding used_def pairs_def Let_def set_map set_filter by blast
  obtain d i k where yk: "y = (d, i, k)" by (cases y)
  have k: "(d, i, k) \<in> set (concat (map (reqs ?c (length ?ps)) [0..<length (vb_vcores (the (vblocks s b)))]))" "fst x = ?ps ! k"
    using y yk by simp_all
  obtain B where "vblocks s b = Some B" "case vb_class B of L2fwd_numa k \<Rightarrow> k < length ?ps | _ \<Rightarrow> True"
    using ok unfolding block_ok_def by blast
  then have "k < length ?ps" using k(1) by (cases ?c) (auto simp: reqs_def)
  then show ?thesis using k(2) by simp
qed

lemma ids_step:
  assumes ok: "vnf_ok E v s" and i: "i < length (vn_blocks (the (vnfs s v)))" and E: "popcnt_law E" and ids: "ids_ok v s"
    and free: "idle s (vn_blocks (the (vnfs s v)) ! i)"
  shows "wp (set_coremask E v i m) (\<lambda>r t. r = Return 0 \<and> cfg E v (vn_blocks (the (vnfs s v)) ! i) m s t \<and> ids_ok v t) s"
proof (rule wp_conseq [OF set_coremask_ok [OF ok i E]], elim conjE, intro conjI)
  let ?bs = "vn_blocks (the (vnfs s v))" and ?ps = "vn_ports (the (vnfs s v))"
  let ?b = "?bs ! i"
  fix r t assume c: "cfg E v ?b m s t"
  have same: "used d t v b = used d s v b" if "b \<noteq> ?b" for d b by (rule used_cong [OF cfgD(2) [OF c] cfgD(3) [OF c that]])
  have bb: "?b \<in> set ?bs" using i by simp
  have all: "(\<exists>b\<in>set ?bs. (p, a) \<in> set (used d s v b)) \<longleftrightarrow> a < count d s p" if "p \<in> set ?ps" for p a d
    using ids that by (auto simp: ids_ok_def Let_def)
  have old: "distinct (used d s v b)" "b' \<in> set ?bs \<Longrightarrow> b \<noteq> b' \<Longrightarrow> set (used d s v b) \<inter> set (used d s v b') = {}"
    if "b \<in> set ?bs" for b b' d
    using ids that by (auto simp: ids_ok_def Let_def)
  have below: "a < count d s p" if "(p, a) \<in> set (used d s v b)" "b \<in> set ?bs" for b d p a
  proof -
    have "p \<in> set ?ps" using used_ports [OF that(1) vnf_okD(5) [OF ok that(2)]] by simp
    then show ?thesis using all that by blast
  qed
  have dj: "set (used d t v ?b) \<inter> set (used d s v b) = {}" if "b \<in> set ?bs" for d b
  proof -
    have False if x: "(p, a) \<in> set (used d t v ?b)" "(p, a) \<in> set (used d s v b)" for p a
      using below [OF x(2) \<open>b \<in> set ?bs\<close>] x(1) cfgD(5) [OF c, of p a d] by simp
    then show ?thesis by auto
  qed
  have "distinct (used d t v b)" if "b \<in> set ?bs" for d b
    using old(1) [OF that] same [of b d] cfgD(4) [OF c] by (cases "b = ?b") auto
  moreover have "set (used d t v b) \<inter> set (used d t v b') = {}" if "b \<in> set ?bs" "b' \<in> set ?bs" "b \<noteq> b'" for d b b'
    using that old(2) [OF that, of d] same [of b d] same [of b' d] dj [OF that(1), of d] dj [OF that(2), of d]
    by (cases "b = ?b"; cases "b' = ?b") auto
  moreover have "(\<exists>b\<in>set ?bs. (p, a) \<in> set (used d t v b)) \<longleftrightarrow> a < count d t p" if "p \<in> set ?ps" for p a d
  proof -
    have "(\<exists>b\<in>set ?bs. (p, a) \<in> set (used d t v b)) \<longleftrightarrow> (p, a) \<in> set (used d t v ?b) \<or> (\<exists>b\<in>set ?bs. b \<noteq> ?b \<and> (p, a) \<in> set (used d s v b))"
      using bb same [of _ d] by metis
    also have "\<dots> \<longleftrightarrow> (p, a) \<in> set (used d t v ?b) \<or> (\<exists>b\<in>set ?bs. (p, a) \<in> set (used d s v b))"
      using idle_used [OF free, of d v] by (metis empty_iff empty_set)
    also have "\<dots> \<longleftrightarrow> a < count d t p" unfolding all [OF that] cfgD(5) [OF c] using cfgD(6) [OF c, of d p] by linarith
    finally show ?thesis .
  qed
  ultimately show "ids_ok v t" using cfgD(2) [OF c] by (simp add: ids_ok_def Let_def)
  show "cfg E v ?b m s t" by fact
qed

lemma set_masks_ok:
  assumes "vnf_ok E v s" and "\<forall>(i, m)\<in>set cs. i < length (vn_blocks (the (vnfs s v))) \<and> idle s (vn_blocks (the (vnfs s v)) ! i)"
    and "distinct (map fst cs)" and "ids_ok v s" and E: "popcnt_law E"
  shows "wp (set_masks E v cs) (\<lambda>r t. r = Return None \<and> vnfs t v = vnfs s v \<and> vnf_ok E v t \<and> ids_ok v t \<and> on_cores v cs t \<and>
    (\<forall>j<length (vn_blocks (the (vnfs s v))). j \<notin> fst ` set cs \<longrightarrow> vblocks t (vn_blocks (the (vnfs s v)) ! j) = vblocks s (vn_blocks (the (vnfs s v)) ! j))) s"
  using assms(1-4)
proof (induction cs arbitrary: s)
  case (Cons x cs)
  obtain i m where x: "x = (i, m)" by (cases x)
  let ?bs = "vn_blocks (the (vnfs s v))"
  have i: "i < length ?bs" "idle s (?bs ! i)" using Cons.prems(2) x by auto
  obtain t where t: "set_coremask E v i m s = Some (Return 0, t)" "cfg E v (?bs ! i) m s t" "ids_ok v t"
    using wpD [OF ids_step [OF Cons.prems(1) i(1) E Cons.prems(4) i(2), of m]] by fastforce
  have vn: "vnfs t v = vnfs s v" using cfgD(2) [OF t(2)] .
  have other: "vblocks t (?bs ! j) = vblocks s (?bs ! j)" if "j < length ?bs" "j \<noteq> i" for j
    using that i(1) vnf_okD(3) [OF Cons.prems(1)] cfgD(3) [OF t(2), of "?bs ! j"] by (simp add: nth_eq_iff_index_eq)
  have "\<forall>(j, m)\<in>set cs. j < length (vn_blocks (the (vnfs t v))) \<and> idle t (vn_blocks (the (vnfs t v)) ! j)"
  proof clarify
    fix j k assume "(j, k) \<in> set cs"
    then have j: "j < length ?bs" "idle s (?bs ! j)" "j \<noteq> i" using Cons.prems(2,3) x by force+
    show "j < length (vn_blocks (the (vnfs t v))) \<and> idle t (vn_blocks (the (vnfs t v)) ! j)"
      using j other [of j] vn by (simp add: idle_def)
  qed
  from Cons.IH [OF cfgD(1) [OF t(2)] this _ t(3)] Cons.prems(3)
  obtain u where u: "set_masks E v cs t = Some (Return None, u)" "vnfs u v = vnfs t v" "vnf_ok E v u" "ids_ok v u" "on_cores v cs u"
    "\<forall>j<length ?bs. j \<notin> fst ` set cs \<longrightarrow> vblocks u (?bs ! j) = vblocks t (?bs ! j)"
    using vn by (auto dest!: wpD)
  have "i \<notin> fst ` set cs" using Cons.prems(3) x by auto
  then have "map vc_lcore_id (vb_vcores (the (vblocks u (?bs ! i)))) = mask_cores m" using u(6) i(1) cfgD(7) [OF t(2)] by simp
  then have "on_cores v (x # cs) u" using u(2,5) vn x by (simp add: on_cores_def)
  moreover have "\<forall>j<length ?bs. j \<notin> fst ` set (x # cs) \<longrightarrow> vblocks u (?bs ! j) = vblocks s (?bs ! j)" using u(6) other x by auto
  moreover have "set_masks E v (x # cs) s = Some (Return None, u)" using t(1) u(1) x by (simp add: set_masks_def ret_def)
  ultimately show ?case using u(2-4) vn by (simp add: wp_def)
qed (simp add: set_masks_def on_cores_def wp_def ret_def)

text \<open>C24. After a reset of a VNF, giving coremasks to different blocks succeeds, puts one vcore of a block on each
  lcore of its mask, and no access id of a port is used twice in a direction: those in use are
  exactly the ids below the counter that \<open>deploy\<close> configures the port with.\<close>

theorem access_ids_unique:
  assumes "vnf_ok E v s" "vn_blocks (the (vnfs s v)) \<noteq> []" "popcnt_law E"
    and "\<forall>(i, m)\<in>set cs. i < length (vn_blocks (the (vnfs s v)))" "distinct (map fst cs)"
  shows "wp (andthen (vnf_reset E v) (set_masks E v cs)) (\<lambda>r t. r = Return None \<and> ids_ok v t \<and> on_cores v cs t) s"
proof -
  obtain t where t: "vnf_reset E v s = Some (Return 0, t)" "vnf_ok E v t" "vnfs t v = vnfs s v"
    "\<forall>b\<in>set (vn_blocks (the (vnfs s v))). idle t b" "\<forall>d. \<forall>p\<in>set (vn_ports (the (vnfs s v))). count d t p = 0"
    using wpD [OF vnf_reset_ok [OF assms(1-3)]] by blast
  have "ids_ok v t" using t(3-5) by (simp add: ids_ok_def Let_def)
  moreover have "\<forall>(i, m)\<in>set cs. i < length (vn_blocks (the (vnfs t v))) \<and> idle t (vn_blocks (the (vnfs t v)) ! i)"
    using assms(4) t(3,4) by auto
  ultimately have "wp (set_masks E v cs) (\<lambda>r t. r = Return None \<and> ids_ok v t \<and> on_cores v cs t) t"
    by - (rule wp_conseq [OF set_masks_ok [OF t(2) _ assms(5) _ assms(3)]], auto)
  then show ?thesis using t(1) by (simp add: wp_def)
qed

text \<open>For the witnesses: the VNF \<open>l2fwd_numa\<close> at 1, on the devices 0 and 1.\<close>

definition demo_nenv :: "((nat \<times> nat) list, unit, unit, mbuf list) nenv" where
  "demo_nenv = \<lparr>ne_eth = demo_eth, ne_ring = list_ring 8, ne_ring_alloc = (\<lambda>_ w. (None, w)), ne_new_ring = [], ne_launch = demo_launch,
     ne_dev_socket = id, ne_sockets = 2, ne_popcnt = (\<lambda>m. length (filter (bit m) [0..<32])), ne_free = (\<lambda>_ h. h), ne_junk = 99, ne_spawner = 7\<rparr>"

definition demo_nfv :: "((nat \<times> nat) list, unit, unit, mbuf list) nfv" where
  "demo_nfv = \<lparr>vports = [2 \<mapsto> new_vnf_port_dpdk ''p0'' 0, 3 \<mapsto> new_vnf_port_dpdk ''p1'' 1],
     vblocks = [4 \<mapsto> new_vnf_block demo_nenv 1 7 1 ''b0'' (L2fwd_numa 0), 5 \<mapsto> new_vnf_block demo_nenv 1 7 1 ''b1'' (L2fwd_numa 1)],
     vnfs = [1 \<mapsto> \<lparr>vn_ports = [2, 3], vn_blocks = [4, 5], vn_name = ''vnf''\<rparr>], panels = Map.empty, marings = Map.empty,
     rheap = \<lparr>rworld = (), rmem = Map.empty\<rparr>, mports = [], hw = [], stats = Map.empty, thr = demo_threads\<rparr>"

lemma demo_nfv_ok: "vnf_ok demo_nenv 1 demo_nfv" "popcnt_law demo_nenv"
proof -
  have p: "socket_ok demo_nenv demo_nfv 2" "socket_ok demo_nenv demo_nfv 3"
    by (simp_all add: socket_ok_def demo_nfv_def demo_nenv_def new_vnf_port_dpdk_def new_vnf_port_def)
  have "block_ok demo_nenv 1 [2, 3] 4 demo_nfv" "block_ok demo_nenv 1 [2, 3] 5 demo_nfv"
    unfolding block_ok_def using p by (simp_all add: demo_nfv_def demo_nenv_def new_vnf_block_def)
  then show "vnf_ok demo_nenv 1 demo_nfv" by (simp add: vnf_ok_def demo_nfv_def)
qed (simp add: popcnt_law_def demo_nenv_def)

theorem access_ids_unique_witness:
  "\<exists>t. andthen (vnf_reset demo_nenv 1) (set_masks demo_nenv 1 [(0, 6), (1, 8)]) demo_nfv = Some (Return None, t) \<and> ids_ok 1 t \<and> on_cores 1 [(0, 6), (1, 8)] t"
  using wpD [OF access_ids_unique [OF demo_nfv_ok(1) _ demo_nfv_ok(2), of "[(0, 6), (1, 8)]"]] by (auto simp: demo_nfv_def)

end
