(* ===== verification/Vnf_Links.thy ===== *)
theory Vnf_Links
  imports Vnf_Access
begin

section \<open>Attaching ports to VNFs\<close>

text \<open>
  The link between a VNF and a port is stored twice: in the vector of the VNF, and in the port. Here
  the two are an implementation of one map from the slots of the VNFs to ports, in which no port
  occurs twice; \<open>attach_port\<close> and \<open>dettach_port\<close> implement insertion into and removal from it.
\<close>

subsection \<open>The abstract map\<close>

type_synonym links = "addr \<times> nat \<rightharpoonup> addr"

datatype link_cmd = Attach addr nat addr | Dettach addr nat

fun spec_step :: "link_cmd \<Rightarrow> links \<Rightarrow> int \<times> links" where
  "spec_step (Attach v i p) m = (if (v, i) \<in> dom m \<or> p \<in> ran m then (-1, m) else (0, m((v, i) \<mapsto> p)))"
| "spec_step (Dettach v i) m = (if (v, i) \<in> dom m then (0, m((v, i) := None)) else (-1, m))"

fun spec_run :: "link_cmd list \<Rightarrow> links \<Rightarrow> int list \<times> links" where
  "spec_run [] m = ([], m)"
| "spec_run (c # cs) m = (let (r, m) = spec_step c m; (rs, m) = spec_run cs m in (r # rs, m))"

fun link_step :: "link_cmd \<Rightarrow> ('h, 'e, 'w, 'r, int) nop" where
  "link_step (Attach v i p) = attach_port v i p"
| "link_step (Dettach v i) = dettach_port v i"

fun link_run :: "link_cmd list \<Rightarrow> ('h, 'e, 'w, 'r, int list) nop" where
  "link_run [] = ret []"
| "link_run (c # cs) = bnd (link_step c) (\<lambda>r. bnd (link_run cs) (\<lambda>rs. ret (r # rs)))"

definition slots :: "('h, 'e, 'w, 'r) nfv \<Rightarrow> links" where
  "slots s = (\<lambda>(v, i). case vnfs s v of None \<Rightarrow> None
     | Some V \<Rightarrow> if i < length (vn_ports V) \<and> vn_ports V ! i \<noteq> NULL then Some (vn_ports V ! i) else None)"

definition links_ok :: "('h, 'e, 'w, 'r) nfv \<Rightarrow> bool" where
  "links_ok s \<longleftrightarrow> inj_on (slots s) (dom (slots s)) \<and>
     (\<forall>p P. vports s p = Some P \<longrightarrow> (vp_attached_vnf P \<noteq> NULL \<longleftrightarrow> p \<in> ran (slots s)) \<and> (\<forall>v i. slots s (v, i) = Some p \<longrightarrow> vp_attached_vnf P = v)) \<and>
     ran (slots s) \<subseteq> dom (vports s) \<and>
     (\<forall>v V. vnfs s v = Some V \<longrightarrow> v \<noteq> NULL \<and> (\<forall>b\<in>set (vn_blocks V). b \<noteq> NULL \<and> (\<exists>B. vblocks s b = Some B \<and> vb_ports B = v)))"

text \<open>Commands on VNFs, slots and ports that exist. They leave the rest of the store alone.\<close>

fun cmd_ok :: "('h, 'e, 'w, 'r) nfv \<Rightarrow> link_cmd \<Rightarrow> bool" where
  "cmd_ok s (Attach v i p) \<longleftrightarrow> (\<exists>V. vnfs s v = Some V \<and> i < length (vn_ports V)) \<and> p \<noteq> NULL \<and> p \<in> dom (vports s)"
| "cmd_ok s (Dettach v i) \<longleftrightarrow> (\<exists>V. vnfs s v = Some V \<and> i < length (vn_ports V))"

definition same_shape :: "('h, 'e, 'w, 'r) nfv \<Rightarrow> ('h, 'e, 'w, 'r) nfv \<Rightarrow> bool" where
  "same_shape s t \<longleftrightarrow> dom (vports t) = dom (vports s) \<and>
     (\<forall>v. map_option (\<lambda>V. length (vn_ports V)) (vnfs t v) = map_option (\<lambda>V. length (vn_ports V)) (vnfs s v)) \<and>
     (\<forall>v. map_option vn_name (vnfs t v) = map_option vn_name (vnfs s v)) \<and>
     (\<forall>p. map_option vp_name (vports t p) = map_option vp_name (vports s p)) \<and>
     vblocks t = vblocks s \<and> panels t = panels s \<and> marings t = marings s \<and> mports t = mports s"

lemma cmd_ok_shape: "same_shape s t \<Longrightarrow> cmd_ok s c \<Longrightarrow> cmd_ok t c"
proof -
  assume sh: "same_shape s t" and c: "cmd_ok s c"
  have "\<exists>V'. vnfs t v = Some V' \<and> length (vn_ports V') = length (vn_ports V)" if "vnfs s v = Some V" for v V
  proof -
    have "map_option (\<lambda>V. length (vn_ports V)) (vnfs t v) = Some (length (vn_ports V))" using sh that by (simp add: same_shape_def)
    then show ?thesis by (cases "vnfs t v") simp_all
  qed
  then show "cmd_ok t c" using sh c by (cases c) (force simp: same_shape_def)+
qed

subsection \<open>Setting a slot\<close>

text \<open>Slot \<open>i\<close> of VNF \<open>v\<close> is \<open>p\<close>, or empty for NULL.\<close>

definition put_slot :: "addr \<Rightarrow> nat \<Rightarrow> addr \<Rightarrow> ('h, 'e, 'w, 'r) nfv \<Rightarrow> ('h, 'e, 'w, 'r) nfv" where
  "put_slot v i p s = s\<lparr>vnfs := (vnfs s)(v := map_option (\<lambda>V. V\<lparr>vn_ports := (vn_ports V)[i := p]\<rparr>) (vnfs s v))\<rparr>"

definition put_owner :: "addr \<Rightarrow> addr \<Rightarrow> ('h, 'e, 'w, 'r) nfv \<Rightarrow> ('h, 'e, 'w, 'r) nfv" where
  "put_owner p v s = s\<lparr>vports := (vports s)(p := map_option (\<lambda>P. P\<lparr>vp_attached_vnf := v\<rparr>) (vports s p))\<rparr>"

lemma slots_put_owner [simp]: "slots (put_owner p v s) = slots s"
  by (simp add: slots_def put_owner_def)

lemma slots_put_slot:
  "vnfs s v = Some V \<Longrightarrow> i < length (vn_ports V) \<Longrightarrow> slots (put_slot v i p s) = (slots s)((v, i) := if p = NULL then None else Some p)"
proof (rule ext, clarify)
  fix a b assume V: "vnfs s v = Some V" "i < length (vn_ports V)"
  show "slots (put_slot v i p s) (a, b) = ((slots s)((v, i) := if p = NULL then None else Some p)) (a, b)"
    using V by (cases "a = v"; cases "b = i") (simp_all add: slots_def put_slot_def)
qed

lemma put_slot_twice [simp]: "put_slot v i p (put_slot v i p s) = put_slot v i p s"
  by (simp add: put_slot_def option.map_comp comp_def)

lemma put_slot_owner: "put_slot v i p (put_owner q w s) = put_owner q w (put_slot v i p s)"
  by (simp add: put_slot_def put_owner_def)

lemma blocks_attach:
  assumes "links_ok s" "vnfs s v = Some V" "i < length (vn_ports V)"
  shows "each_block v (\<lambda>_ b. block_attach_port b i p) (put_slot v i p (put_owner q w s)) = Some (Return (), put_slot v i p (put_owner q w s))"
proof -
  let ?t = "put_slot v i p (put_owner q w s)"
  let ?V = "V\<lparr>vn_ports := (vn_ports V)[i := p]\<rparr>"
  have V: "vnfs ?t v = Some ?V" "v \<noteq> NULL" using assms(1,2) by (auto simp: put_slot_def put_owner_def links_ok_def)
  have B: "b \<noteq> NULL \<and> (\<exists>B. vblocks ?t b = Some B \<and> vb_ports B = v)" if "b \<in> set (vn_blocks V)" for b
    using assms(1,2) that by (auto simp: put_slot_def put_owner_def links_ok_def)
  have fix': "?t\<lparr>vnfs := (vnfs ?t)(v \<mapsto> ?V)\<rparr> = ?t" using V(1) by (simp add: map_upd_triv)
  have one: "block_attach_port b i p ?t = Some (Return (), ?t)" if "b \<in> set (vn_blocks V)" for b
    using B [OF that] V assms(3) fix'
    by (auto simp: block_attach_port_def the_block_def need_def deref_def bnd_def andthen_def modify_def nth_opt_def)
  have "for_each (\<lambda>j. bnd (vnf_block_at v j) (\<lambda>b. block_attach_port b i p)) js ?t = Some (Return (), ?t)" if "set js \<subseteq> {..<length (vn_blocks V)}" for js
    using that
  proof (induction js)
    case (Cons j js)
    then have "j < length (vn_blocks V)" by simp
    then have "bnd (vnf_block_at v j) (\<lambda>b. block_attach_port b i p) ?t = Some (Return (), ?t)"
      using V one [of "vn_blocks V ! j"] by (simp add: vnf_block_at_def the_vnf_def need_def deref_def at_vec_def bnd_def ret_def)
    then show ?case using Cons by simp
  qed (simp add: ret_def)
  then show ?thesis
    using V by (simp add: each_block_def n_blocks_def the_vnf_def need_def deref_def bnd_def ret_def atLeast0LessThan)
qed

lemma links_okD:
  assumes "links_ok s"
  shows "slots s x = Some p \<Longrightarrow> slots s y = Some p \<Longrightarrow> x = y" "vports s p = Some P \<Longrightarrow> vp_attached_vnf P \<noteq> NULL \<longleftrightarrow> p \<in> ran (slots s)"
    "vports s p = Some P \<Longrightarrow> slots s (v, i) = Some p \<Longrightarrow> vp_attached_vnf P = v" "slots s x = Some p \<Longrightarrow> \<exists>P. vports s p = Some P"
    "vnfs s v = Some V \<Longrightarrow> v \<noteq> NULL"
proof -
  have r: "ran (slots s) \<subseteq> dom (vports s)" and j: "inj_on (slots s) (dom (slots s))" using assms unfolding links_ok_def by blast+
  show "slots s x = Some p \<Longrightarrow> slots s y = Some p \<Longrightarrow> x = y" using inj_onD [OF j, of x y] by (simp add: domI)
  show "vports s p = Some P \<Longrightarrow> vp_attached_vnf P \<noteq> NULL \<longleftrightarrow> p \<in> ran (slots s)" using assms unfolding links_ok_def by blast
  show "vports s p = Some P \<Longrightarrow> slots s (v, i) = Some p \<Longrightarrow> vp_attached_vnf P = v" using assms unfolding links_ok_def by blast
  show "slots s x = Some p \<Longrightarrow> \<exists>P. vports s p = Some P" using subsetD [OF r ranI] by blast
  show "vnfs s v = Some V \<Longrightarrow> v \<noteq> NULL" using assms unfolding links_ok_def by blast
qed

lemma links_ok_put:
  assumes ok: "links_ok s" and V: "vnfs s v = Some V" "i < length (vn_ports V)"
    and P: "vports s p = Some P" "p \<noteq> NULL"
    and c: "(q = p \<and> w = v \<and> slots s (v, i) = None \<and> p \<notin> ran (slots s)) \<or> (q = NULL \<and> w = NULL \<and> slots s (v, i) = Some p)"
  shows "links_ok (put_slot v i q (put_owner p w s)) \<and> same_shape s (put_slot v i q (put_owner p w s)) \<and>
    slots (put_slot v i q (put_owner p w s)) = (slots s)((v, i) := if q = NULL then None else Some q)"
proof -
  let ?t = "put_slot v i q (put_owner p w s)"
  have "vnfs (put_owner p w s) v = Some V" using V by (simp add: put_owner_def)
  from slots_put_slot [OF this V(2), of q]
  have sl: "slots ?t = (slots s)((v, i) := if q = NULL then None else Some q)" by simp
  have pt: "vports ?t = (vports s)(p \<mapsto> P\<lparr>vp_attached_vnf := w\<rparr>)" using P by (simp add: put_slot_def put_owner_def)
  note D = links_okD [OF ok]
  have v0: "v \<noteq> NULL" using D(5) V(1) .
  have inj: "x = y" if "slots ?t x = Some r" "slots ?t y = Some r" for x y r
    using that c D(1) [of x r y] ranI [of "slots s" x r] ranI [of "slots s" y r] unfolding sl by (auto split: if_splits)
  have own: "(vp_attached_vnf R \<noteq> NULL \<longleftrightarrow> r \<in> ran (slots ?t)) \<and> (\<forall>u j. slots ?t (u, j) = Some r \<longrightarrow> vp_attached_vnf R = u)"
    if R: "vports ?t r = Some R" for r R
  proof (cases "r = p")
    case True
    then have "vp_attached_vnf R = w" using R pt by auto
    then show ?thesis using True c v0 P(2) D(1) [of "(v, i)" p] unfolding sl by (auto simp: ran_def split: if_splits)
  next
    case False
    then have s: "vports s r = Some R" using R pt by simp
    have "slots ?t x = Some r \<longleftrightarrow> slots s x = Some r" for x using False c unfolding sl by (cases "x = (v, i)") auto
    then have "r \<in> ran (slots ?t) \<longleftrightarrow> r \<in> ran (slots s)" unfolding ran_def by blast
    then show ?thesis using D(2,3) [OF s] False c unfolding sl by (auto split: if_splits)
  qed
  have dom: "ran (slots ?t) \<subseteq> dom (vports ?t)" using D(4) c P unfolding sl pt by (auto simp: ran_def split: if_splits)
  have "u \<noteq> NULL \<and> (\<forall>b\<in>set (vn_blocks U). b \<noteq> NULL \<and> (\<exists>B. vblocks ?t b = Some B \<and> vb_ports B = u))" if "vnfs ?t u = Some U" for u U
    using ok that V(1) by (auto simp: links_ok_def put_slot_def put_owner_def split: if_splits)
  then have "links_ok ?t" using inj own dom unfolding links_ok_def by (auto simp: inj_on_def)
  moreover have "same_shape s ?t"
    using V(1) P(1) unfolding same_shape_def pt by (auto simp: put_slot_def put_owner_def)
  ultimately show ?thesis using sl by blast
qed

subsection \<open>The two operations\<close>

lemma owner_eq: "vports s p = Some P \<Longrightarrow> p \<noteq> NULL \<Longrightarrow> upd_port p (\<lambda>P. P\<lparr>vp_attached_vnf := w\<rparr>) s = Some (Return (), put_owner p w s)"
  by (simp add: upd_port_def the_port_def need_def deref_def bnd_def modify_def put_owner_def)

lemma attach_refines:
  assumes ok: "links_ok s" and c: "cmd_ok s (Attach v i p)"
  shows "wp (attach_port v i p) (\<lambda>r t. \<exists>k. r = Return k \<and> links_ok t \<and> same_shape s t \<and> spec_step (Attach v i p) (slots s) = (k, slots t)) s"
proof -
  obtain V P where V: "vnfs s v = Some V" "i < length (vn_ports V)" and P: "vports s p = Some P" "p \<noteq> NULL" using c by auto
  note D = links_okD [OF ok]
  have at: "vnf_port_at v i s = Some (Return (vn_ports V ! i), s)"
    using V D(5) by (simp add: vnf_port_at_def the_vnf_def need_def deref_def nth_opt_def bnd_def ret_def)
  have att: "is_attached_vnf p s = Some (Return (vp_attached_vnf P \<noteq> NULL), s)"
    using P by (simp add: is_attached_vnf_def the_port_def need_def deref_def bnd_def ret_def)
  have sl: "slots s (v, i) = (if vn_ports V ! i = NULL then None else Some (vn_ports V ! i))" using V by (simp add: slots_def)
  show ?thesis
  proof (cases "vn_ports V ! i = NULL \<and> vp_attached_vnf P = NULL")
    case True
    let ?t = "put_slot v i p (put_owner p v s)"
    have a: "attach_vnf v p (put_slot v i p s) = Some (Return (), ?t)"
      using owner_eq [of "put_slot v i p s" p P v] P by (simp add: attach_vnf_def put_slot_owner) (simp add: put_slot_def)
    have e: "attach_port v i p s = Some (Return 0, ?t)"
      unfolding attach_port_def using True at att a blocks_attach [OF ok V, of p p v]
      by (simp add: bnd_def andthen_def modify_def put_slot_def [symmetric] ret_def)
    have free: "slots s (v, i) = None" "p \<notin> ran (slots s)" using True sl D(2) [OF P(1)] by simp_all
    show ?thesis
      by (rule wpI, rule e) (use links_ok_put [OF ok V P, of p v] free P(2) in auto)
  next
    case False
    have "attach_port v i p s = Some (Return (-1), s)"
      unfolding attach_port_def using False at att by (auto simp: bnd_def ret_def)
    moreover have "(v, i) \<in> dom (slots s) \<or> p \<in> ran (slots s)" using False sl D(2) [OF P(1)] by auto
    ultimately show ?thesis using ok by (simp add: wp_def same_shape_def)
  qed
qed

lemma dettach_refines:
  assumes ok: "links_ok s" and c: "cmd_ok s (Dettach v i)"
  shows "wp (dettach_port v i) (\<lambda>r t. \<exists>k. r = Return k \<and> links_ok t \<and> same_shape s t \<and> spec_step (Dettach v i) (slots s) = (k, slots t)) s"
proof -
  obtain V where V: "vnfs s v = Some V" "i < length (vn_ports V)" using c by auto
  note D = links_okD [OF ok]
  let ?p = "vn_ports V ! i"
  have at: "vnf_port_at v i s = Some (Return ?p, s)"
    using V D(5) by (simp add: vnf_port_at_def the_vnf_def need_def deref_def nth_opt_def bnd_def ret_def)
  have sl: "slots s (v, i) = (if ?p = NULL then None else Some ?p)" using V by (simp add: slots_def)
  show ?thesis
  proof (cases "?p = NULL")
    case False
    then have here: "slots s (v, i) = Some ?p" using sl by simp
    then obtain P where P: "vports s ?p = Some P" using D(4) by blast
    let ?t = "put_slot v i NULL (put_owner ?p NULL s)"
    have e: "dettach_port v i s = Some (Return 0, ?t)"
      unfolding dettach_port_def using False at owner_eq [OF P False, of NULL] blocks_attach [OF ok V, of NULL ?p NULL]
      by (simp add: bnd_def andthen_def modify_def put_slot_def [symmetric] ret_def dettach_vnf_def block_dettach_port_def)
    show ?thesis
      by (rule wpI, rule e) (use links_ok_put [OF ok V P False, of NULL NULL] here in auto)
  next
    case True
    have "dettach_port v i s = Some (Return (-1), s)"
      unfolding dettach_port_def using True at by (simp add: bnd_def ret_def)
    then show ?thesis using ok True sl by (simp add: wp_def same_shape_def domIff)
  qed
qed

lemma same_shape_trans: "same_shape s t \<Longrightarrow> same_shape t u \<Longrightarrow> same_shape s u"
  by (simp add: same_shape_def)

text \<open>C25. Attaching and detaching ports, in any order, implements one map from slots to ports with no port in two
  slots: each command gives 0 or -1 as it does on the map, and afterwards the vectors of the VNFs and
  the owners stored in the ports agree with it.\<close>

theorem links_refine:
  assumes "links_ok s" "\<forall>c\<in>set cs. cmd_ok s c"
  shows "\<exists>rs t. link_run cs s = Some (Return rs, t) \<and> links_ok t \<and> spec_run cs (slots s) = (rs, slots t)"
  using assms
proof (induction cs arbitrary: s)
  case (Cons c cs)
  have "wp (link_step c) (\<lambda>r t. \<exists>k. r = Return k \<and> links_ok t \<and> same_shape s t \<and> spec_step c (slots s) = (k, slots t)) s"
    using Cons.prems attach_refines [of s] dettach_refines [of s] by (cases c) simp_all
  then obtain k t where t: "link_step c s = Some (Return k, t)" "links_ok t" "same_shape s t" "spec_step c (slots s) = (k, slots t)"
    by (auto dest: wpD)
  have "\<forall>c\<in>set cs. cmd_ok t c" using Cons.prems(2) cmd_ok_shape [OF t(3)] by simp
  from Cons.IH [OF t(2) this] obtain rs u where "link_run cs t = Some (Return rs, u)" "links_ok u" "spec_run cs (slots t) = (rs, slots u)" by blast
  then show ?case using t by (simp add: ret_def)
qed (simp add: ret_def)

text \<open>For the witness: no port is attached.\<close>

definition demo_free :: "((nat \<times> nat) list, unit, unit, mbuf list) nfv" where
  "demo_free = demo_nfv\<lparr>vnfs := [1 \<mapsto> \<lparr>vn_ports = [NULL, NULL], vn_blocks = [4, 5], vn_name = ''vnf''\<rparr>]\<rparr>"

theorem links_refine_witness:
  "\<exists>t. link_run [Attach 1 0 2, Attach 1 1 2, Dettach 1 0, Attach 1 1 2] demo_free = Some (Return [0, -1, 0, 0], t) \<and> links_ok t \<and>
    slots t = [(1, 1) \<mapsto> 2]"
proof -
  have e: "slots demo_free = Map.empty"
    by (rule ext) (auto simp: slots_def demo_free_def demo_nfv_def less_Suc_eq nth_Cons' split: if_splits)
  have ok: "links_ok demo_free"
    unfolding links_ok_def e by (simp add: demo_free_def demo_nfv_def new_vnf_block_def new_vnf_port_dpdk_def new_vnf_port_def)
  let ?cs = "[Attach 1 0 2, Attach 1 1 2, Dettach 1 0, Attach 1 1 2]"
  have "\<forall>c\<in>set ?cs. cmd_ok demo_free c" by (simp add: demo_free_def demo_nfv_def)
  from links_refine [OF ok this] obtain rs t where "link_run ?cs demo_free = Some (Return rs, t)" "links_ok t" "spec_run ?cs Map.empty = (rs, slots t)"
    unfolding e by blast
  then show ?thesis by (auto simp: numeral_2_eq_2)
qed

end
