(* ===== verification/Vnf_Apps.thy ===== *)
theory Vnf_Apps
  imports Vnf_Links
begin

section \<open>The VNFs at work (nfvi/vnfs)\<close>

text \<open>
  \<open>deploy_impl\<close> is the body of the threads of a block: it finds its vcore, sets the flag \<open>running\<close>
  and polls the ports until the flag is cleared. The start and one round of the loop are
  definitions; what other threads do happens between rounds. The contents of packets belong to
  DPDK and are the parameter \<open>pkt_api\<close>; the delay loops only burn time.
\<close>

subsection \<open>Forwarding between two ports (l2fwd.h, l2fwd_delay.h, l2fwd_numa.h)\<close>

definition free_mbufs :: "('h, 'e, 'w, 'r) nenv \<Rightarrow> mbuf list \<Rightarrow> ('h, 'e, 'w, 'r, unit) nop" where
  "free_mbufs E ms = modify (\<lambda>s. s\<lparr>hw := ne_free E ms (hw s)\<rparr>)"

definition deploy_start :: "addr \<Rightarrow> nat \<Rightarrow> ('h, 'e, 'w, 'r, nat) nop" where
  "deploy_start b lcore_id = bnd (get_vlcore_id b lcore_id) (\<lambda>i. andthen (upd_block b (\<lambda>B. B\<lparr>vb_running := True\<rparr>)) (ret i))"

text \<open>\<open>tx_burst\<close> of the received packets to port \<open>o\<close>, and the rest back to the pool.\<close>

definition send_or_free :: "('h, 'e, 'w, 'r) nenv \<Rightarrow> addr \<Rightarrow> nat \<Rightarrow> nat \<Rightarrow> mbuf list \<Rightarrow> ('h, 'e, 'w, 'r, unit) nop" where
  "send_or_free E b oport txaid ms = bnd (block_tx_burst E b oport txaid ms) (\<lambda>n_send.
     if n_send < length ms then free_mbufs E (drop n_send ms) else ret ())"

definition l2fwd_port :: "('h, 'e, 'w, 'r) nenv \<Rightarrow> addr \<Rightarrow> nat \<Rightarrow> nat \<Rightarrow> ('h, 'e, 'w, 'r, unit) nop" where
  "l2fwd_port E b vcore_id pid =
     bnd (get_lcore_port_rxaid b vcore_id pid) (\<lambda>rxaid.
     bnd (get_lcore_port_txaid b vcore_id (xor pid 1)) (\<lambda>txaid.
     bnd (block_rx_burst E b pid rxaid 32) (\<lambda>ms.
     if ms = [] then ret () else send_or_free E b (xor pid 1) txaid ms)))"

definition l2fwd_round :: "('h, 'e, 'w, 'r) nenv \<Rightarrow> addr \<Rightarrow> nat \<Rightarrow> ('h, 'e, 'w, 'r, unit) nop" where
  "l2fwd_round E b vcore_id = bnd (block_n_ports b) (\<lambda>n. for_each (l2fwd_port E b vcore_id) [0..<n])"

text \<open>The counter of the delay loop, whose value nobody reads.\<close>

fun delay_loop :: "nat \<Rightarrow> nat \<Rightarrow> nat" where
  "delay_loop 0 n = n"
| "delay_loop (Suc j) n = delay_loop j (n + 1)"

definition l2fwd_delay_port :: "('h, 'e, 'w, 'r) nenv \<Rightarrow> nat \<Rightarrow> addr \<Rightarrow> nat \<Rightarrow> nat \<Rightarrow> ('h, 'e, 'w, 'r, unit) nop" where
  "l2fwd_delay_port E n_delay b vcore_id pid =
     bnd (get_lcore_port_rxaid b vcore_id pid) (\<lambda>rxaid.
     bnd (get_lcore_port_txaid b vcore_id (xor pid 1)) (\<lambda>txaid.
     bnd (block_rx_burst E b pid rxaid 32) (\<lambda>ms.
     if ms = [] then ret ()
     else andthen (for_each (\<lambda>_. ret (let _ = delay_loop n_delay 10 in ())) ms) (send_or_free E b (xor pid 1) txaid ms))))"

definition l2fwd_delay_round :: "('h, 'e, 'w, 'r) nenv \<Rightarrow> nat \<Rightarrow> addr \<Rightarrow> nat \<Rightarrow> ('h, 'e, 'w, 'r, unit) nop" where
  "l2fwd_delay_round E n_delay b vcore_id = bnd (block_n_ports b) (\<lambda>n. for_each (l2fwd_delay_port E n_delay b vcore_id) [0..<n])"

text \<open>The block of \<open>l2fwd_numa\<close> polls the port it was made for.\<close>

definition l2fwd_numa_round :: "('h, 'e, 'w, 'r) nenv \<Rightarrow> nat \<Rightarrow> addr \<Rightarrow> nat \<Rightarrow> ('h, 'e, 'w, 'r, unit) nop" where
  "l2fwd_numa_round E port_id b vlid =
     bnd (get_lcore_port_rxaid b vlid port_id) (\<lambda>rxaid.
     bnd (block_rx_burst E b port_id rxaid 32) (\<lambda>ms.
     if ms = [] then ret ()
     else
       andthen (for_each (\<lambda>_. ret (let _ = delay_loop 100 10 in ())) ms) (
       bnd (get_lcore_port_txaid b vlid (xor port_id 1)) (\<lambda>txaid. send_or_free E b (xor port_id 1) txaid ms))))"

text \<open>One turn of the loop of a thread: \<open>False\<close> when it leaves.\<close>

definition loop_turn :: "('h, 'e, 'w, 'r, unit) nop \<Rightarrow> addr \<Rightarrow> ('h, 'e, 'w, 'r, bool) nop" where
  "loop_turn round b = bnd (block_is_running b) (\<lambda>r. if r then andthen round (ret True) else ret False)"

subsection \<open>Routing (l3fwd.h)\<close>

text \<open>What the VNFs read and write in packets: \<open>packet_type\<close> is IPv4, the destination address in host
  order, the addresses of the Ethernet header (source, destination), the macro \<open>IPv4\<close>, and the
  result of \<open>rte_acl_classify\<close> in a context.\<close>

record 'h pkt_api =
  pk_ipv4 :: "mbuf \<Rightarrow> 'h \<Rightarrow> bool"
  pk_dst :: "mbuf \<Rightarrow> 'h \<Rightarrow> u32"
  pk_set_macs :: "u8 list \<Rightarrow> u8 list \<Rightarrow> mbuf \<Rightarrow> 'h \<Rightarrow> 'h"
  pk_IPv4 :: "u8 \<Rightarrow> u8 \<Rightarrow> u8 \<Rightarrow> u8 \<Rightarrow> u32"
  pk_classify :: "addr \<Rightarrow> mbuf \<Rightarrow> 'h \<Rightarrow> u32"

record ipv4_l3fwd_lpm_route =
  route_ip :: u32
  route_depth :: u8
  route_if_out :: u8

text \<open>\<open>ip4\<close> is the macro \<open>IPv4\<close> of DPDK.\<close>

definition ipv4_routes :: "(u8 \<Rightarrow> u8 \<Rightarrow> u8 \<Rightarrow> u8 \<Rightarrow> u32) \<Rightarrow> ipv4_l3fwd_lpm_route list" where
  "ipv4_routes ip4 = [
     \<lparr>route_ip = ip4 192 168 10 0, route_depth = 24, route_if_out = 0\<rparr>,
     \<lparr>route_ip = ip4 192 168 20 0, route_depth = 24, route_if_out = 1\<rparr>,
     \<lparr>route_ip = ip4 1 1 1 1, route_depth = 32, route_if_out = 1\<rparr>,
     \<lparr>route_ip = ip4 2 2 2 2, route_depth = 32, route_if_out = 0\<rparr>]"

text \<open>The loop \<open>mask += (0x80000000 >> j)\<close> for \<open>j\<close> below \<open>d\<close>.\<close>

fun depth_mask :: "nat \<Rightarrow> u32" where
  "depth_mask 0 = 0"
| "depth_mask (Suc j) = depth_mask j + drop_bit j 0x80000000"

fun find_route :: "u32 \<Rightarrow> ipv4_l3fwd_lpm_route list \<Rightarrow> u8 option" where
  "find_route dst [] = None"
| "find_route dst (r # rs) =
     (let mask = depth_mask (unat (route_depth r)) in
      if and dst mask = and (route_ip r) mask then Some (route_if_out r) else find_route dst rs)"

definition lpm_get_ipv4_dport :: "(u8 \<Rightarrow> u8 \<Rightarrow> u8 \<Rightarrow> u8 \<Rightarrow> u32) \<Rightarrow> u32 \<Rightarrow> nat \<Rightarrow> nat" where
  "lpm_get_ipv4_dport ip4 dst portid = (case find_route dst (ipv4_routes ip4) of Some p \<Rightarrow> unat p | None \<Rightarrow> unat (of_nat portid :: u8))"

definition l3fwd_packet :: "('h, 'e, 'w, 'r) nenv \<Rightarrow> 'h pkt_api \<Rightarrow> addr \<Rightarrow> nat \<Rightarrow> nat \<Rightarrow> mbuf \<Rightarrow> ('h, 'e, 'w, 'r, unit) nop" where
  "l3fwd_packet E K b pid txaid m =
     bnd (gets (\<lambda>s. pk_ipv4 K m (hw s))) (\<lambda>ip.
     andthen (if \<not> ip then free_mbufs E [m] else ret ()) (
     bnd (gets (\<lambda>s. lpm_get_ipv4_dport (pk_IPv4 K) (pk_dst K m (hw s)) pid)) (\<lambda>dstport.
     let dstport = (if 1 < dstport then pid else dstport) in
     andthen (modify (\<lambda>s. s\<lparr>hw := pk_set_macs K (map of_nat [0..<6]) (replicate 6 0xff) m (hw s)\<rparr>)) (
     bnd (block_tx_burst E b dstport txaid [m]) (\<lambda>n_send. if n_send < 1 then free_mbufs E [m] else ret ())))))"

definition l3fwd_port :: "('h, 'e, 'w, 'r) nenv \<Rightarrow> 'h pkt_api \<Rightarrow> addr \<Rightarrow> nat \<Rightarrow> nat \<Rightarrow> ('h, 'e, 'w, 'r, unit) nop" where
  "l3fwd_port E K b vcore_id pid =
     bnd (get_lcore_port_rxaid b vcore_id pid) (\<lambda>rxaid.
     bnd (get_lcore_port_txaid b vcore_id (xor pid 1)) (\<lambda>txaid.
     bnd (block_rx_burst E b pid rxaid 32) (for_each (l3fwd_packet E K b pid txaid))))"

definition l3fwd_round :: "('h, 'e, 'w, 'r) nenv \<Rightarrow> 'h pkt_api \<Rightarrow> addr \<Rightarrow> nat \<Rightarrow> ('h, 'e, 'w, 'r, unit) nop" where
  "l3fwd_round E K b vcore_id = bnd (block_n_ports b) (\<lambda>n. for_each (l3fwd_port E K b vcore_id) [0..<n])"

subsection \<open>Filtering (acl.h, acl.cc)\<close>

definition packet_filter_pass :: "'h pkt_api \<Rightarrow> addr \<Rightarrow> mbuf \<Rightarrow> 'h \<Rightarrow> bool" where
  "packet_filter_pass K acx m h = (pk_classify K acx m h = 0)"

text \<open>Both arrays hold 32 entries: no value for more packets. The result is the count and the two
  output arrays.\<close>

fun filter_loop :: "'h pkt_api \<Rightarrow> addr \<Rightarrow> 'h \<Rightarrow> mbuf list \<Rightarrow> mbuf list \<Rightarrow> mbuf list \<Rightarrow> nat \<times> mbuf list \<times> mbuf list" where
  "filter_loop K acx h [] pass ejct = (length pass, pass, ejct)"
| "filter_loop K acx h (m # ms) pass ejct =
     (if pk_classify K acx m h = 0 then filter_loop K acx h ms (pass @ [m]) ejct else filter_loop K acx h ms pass (ejct @ [m]))"

definition packet_filter_bulk :: "'h pkt_api \<Rightarrow> addr \<Rightarrow> mbuf list \<Rightarrow> 'h \<Rightarrow> (nat \<times> mbuf list \<times> mbuf list) option" where
  "packet_filter_bulk K acx ms h = (if 32 < length ms then None else Some (filter_loop K acx h ms [] []))"

text \<open>Packet \<open>i\<close> of the burst \<open>ms\<close>.\<close>

definition acl_packet :: "('h, 'e, 'w, 'r) nenv \<Rightarrow> 'h pkt_api \<Rightarrow> addr \<Rightarrow> addr \<Rightarrow> nat \<Rightarrow> nat \<Rightarrow> mbuf list \<Rightarrow> nat \<Rightarrow> ('h, 'e, 'w, 'r, unit) nop" where
  "acl_packet E K acx b pid txaid ms i =
     bnd (gets (\<lambda>s. packet_filter_pass K acx (ms ! i) (hw s))) (\<lambda>r.
     if \<not> r then free_mbufs E [ms ! i]
     else bnd (block_tx_burst E b (xor pid 1) txaid [ms ! i]) (\<lambda>n_send.
       if n_send < length ms then free_mbufs E (drop n_send ms) else ret ()))"

definition acl_port :: "('h, 'e, 'w, 'r) nenv \<Rightarrow> 'h pkt_api \<Rightarrow> addr \<Rightarrow> addr \<Rightarrow> nat \<Rightarrow> nat \<Rightarrow> ('h, 'e, 'w, 'r, unit) nop" where
  "acl_port E K acx b vcore_id pid =
     bnd (get_lcore_port_rxaid b vcore_id pid) (\<lambda>rxaid.
     bnd (get_lcore_port_txaid b vcore_id (xor pid 1)) (\<lambda>txaid.
     bnd (block_rx_burst E b pid rxaid 32) (\<lambda>ms. for_each (acl_packet E K acx b pid txaid ms) [0..<length ms])))"

definition acl_round :: "('h, 'e, 'w, 'r) nenv \<Rightarrow> 'h pkt_api \<Rightarrow> addr \<Rightarrow> addr \<Rightarrow> nat \<Rightarrow> nat \<Rightarrow> ('h, 'e, 'w, 'r, unit) nop" where
  "acl_round E K acx b vcore_id n_port = for_each (acl_port E K acx b vcore_id) [0..<n_port]"

subsection \<open>The constructors of these VNFs\<close>

text \<open>\<open>rte_lpm\<close> and \<open>rte_acl\<close>: creation by name (0 is NULL), and adding rules; \<open>rte_exit\<close> ends the process: no value.\<close>

record acl_rule =
  ar_userdata :: u32
  ar_category_mask :: u32
  ar_priority :: u32
  ar_proto :: "u8 \<times> u8"
  ar_src :: "u32 \<times> u32"
  ar_dst :: "u32 \<times> u32"
  ar_src_port :: "u16 \<times> u16"
  ar_dst_port :: "u16 \<times> u16"

record 'h rule_api =
  lpm_create :: "string \<Rightarrow> nat \<Rightarrow> 'h \<Rightarrow> addr \<times> 'h"
  lpm_add :: "addr \<Rightarrow> u32 \<Rightarrow> u8 \<Rightarrow> u8 \<Rightarrow> 'h \<Rightarrow> int \<times> 'h"
  acl_create :: "'h \<Rightarrow> addr \<times> 'h"
  acl_reset_rules :: "addr \<Rightarrow> 'h \<Rightarrow> 'h"
  acl_add_rules :: "addr \<Rightarrow> acl_rule list \<Rightarrow> 'h \<Rightarrow> int \<times> 'h"
  acl_build :: "addr \<Rightarrow> 'h \<Rightarrow> bool \<times> 'h"
  lpm_IPv4 :: "u8 \<Rightarrow> u8 \<Rightarrow> u8 \<Rightarrow> u8 \<Rightarrow> u32"

fun lpm_add_routes :: "'h rule_api \<Rightarrow> addr \<Rightarrow> ipv4_l3fwd_lpm_route list \<Rightarrow> 'h \<Rightarrow> 'h option" where
  "lpm_add_routes A lpm [] h = Some h"
| "lpm_add_routes A lpm (r # rs) h =
     (let (x, h) = lpm_add A lpm (route_ip r) (route_depth r) (route_if_out r) h in
      if x < 0 then None else lpm_add_routes A lpm rs h)"

definition setup_lpm :: "'h rule_api \<Rightarrow> nat \<Rightarrow> ipv4_l3fwd_lpm_route list \<Rightarrow> 'h \<Rightarrow> (addr \<times> 'h) option" where
  "setup_lpm A socketid routes h =
     (let (lpm, h) = lpm_create A (''IPV4_L3FWD_LPM_'' @ dec socketid) socketid h in
      if lpm = NULL then None else map_option (Pair lpm) (lpm_add_routes A lpm routes h))"

definition on_hw :: "('h \<Rightarrow> ('a \<times> 'h) option) \<Rightarrow> ('h, 'e, 'w, 'r, 'a) nop" where
  "on_hw f = bnd (need (\<lambda>s. f (hw s))) (\<lambda>(x, h). andthen (modify (\<lambda>s. s\<lparr>hw := h\<rparr>)) (ret x))"

text \<open>The block keeps a reference to a vector that is gone after the constructor; the lookup does not use it.\<close>

definition ssn_vnfalloc_l3fwd :: "('h, 'e, 'w, 'r) nenv \<Rightarrow> 'h rule_api \<Rightarrow> u32 \<Rightarrow> nat \<Rightarrow> addr \<Rightarrow> addr \<Rightarrow> string \<Rightarrow> ('h, 'e, 'w, 'r, addr) nop" where
  "ssn_vnfalloc_l3fwd E A j1 j2 v b n =
     andthen (on_hw (setup_lpm A 0 (ipv4_routes (lpm_IPv4 A)))) (
     andthen (on_hw (setup_lpm A 1 (ipv4_routes (lpm_IPv4 A))))
     (add_blocks E j1 j2 v n [(b, n @ ''block0'', L3fwd)]))"

text \<open>\<open>add_rule\<close> appends to the vector \<open>ipv4_acl_rules\<close>, which all filters share.\<close>

definition add_rule :: "u32 \<Rightarrow> u32 \<Rightarrow> u32 \<Rightarrow> u8 \<Rightarrow> u32 \<Rightarrow> u8 \<Rightarrow> u32 \<Rightarrow> u8 \<Rightarrow> u16 \<Rightarrow> u16 \<Rightarrow> u16 \<Rightarrow> u16 \<Rightarrow> acl_rule list \<Rightarrow> acl_rule list" where
  "add_rule userdata category_mask priority proto src_addr src_addr_pref dst_addr dst_addr_pref
     src_port_min src_port_max dst_port_min dst_port_max rules =
     rules @ [\<lparr>ar_userdata = userdata, ar_category_mask = category_mask, ar_priority = priority, ar_proto = (proto, 0xff),
       ar_src = (src_addr, ucast src_addr_pref), ar_dst = (dst_addr, ucast dst_addr_pref),
       ar_src_port = (src_port_min, src_port_max), ar_dst_port = (dst_port_min, dst_port_max)\<rparr>]"

datatype acl_error = Acl_create | Acl_add_rules | Acl_build

definition acl_5tuple :: "'h rule_api \<Rightarrow> 'h \<Rightarrow> (acl_error, addr) outcome \<times> 'h" where
  "acl_5tuple A h = (let (acx, h) = acl_create A h in (if acx = NULL then Throw Acl_create else Return acx, h))"

definition build :: "'h rule_api \<Rightarrow> addr \<Rightarrow> acl_rule list \<Rightarrow> 'h \<Rightarrow> (acl_error, unit) outcome \<times> 'h" where
  "build A acx rules h =
     (let (x, h) = acl_add_rules A acx rules (acl_reset_rules A acx h) in
      if x < 0 then (Throw Acl_add_rules, h)
      else let (ok, h) = acl_build A acx h in (if ok then Return () else Throw Acl_build, h))"

definition ssn_vnf_acl_rules :: "acl_rule list \<Rightarrow> acl_rule list" where
  "ssn_vnf_acl_rules rules =
     add_rule 2 1 2 0x11 0xc0a80000 16 0xc0a80300 24 0xeeee 0xeeee 0x0000 0xffff
       (add_rule 1 1 1 0x01 0x00000000 0 0x00000000 0 0x0000 0xffff 0x0000 0xffff rules)"

text \<open>The constructor of the VNF, with the shared vector in and out: the context it makes, or the exception.\<close>

definition ssn_vnf_acl :: "'h rule_api \<Rightarrow> acl_rule list \<Rightarrow> 'h \<Rightarrow> (acl_error, addr) outcome \<times> acl_rule list \<times> 'h" where
  "ssn_vnf_acl A rules h = (case acl_5tuple A h of
     (Throw e, h) \<Rightarrow> (Throw e, rules, h)
   | (Return acx, h) \<Rightarrow>
       let rules = ssn_vnf_acl_rules rules in
       case build A acx rules h of (Throw e, h) \<Rightarrow> (Throw e, rules, h) | (Return _, h) \<Rightarrow> (Return acx, rules, h))"

subsection \<open>The routing table is searched like a longest-prefix match\<close>

definition matches :: "u32 \<Rightarrow> ipv4_l3fwd_lpm_route \<Rightarrow> bool" where
  "matches dst r \<longleftrightarrow> drop_bit (32 - unat (route_depth r)) dst = drop_bit (32 - unat (route_depth r)) (route_ip r)"

text \<open>The reference: the matching route of greatest depth.\<close>

fun longest_match :: "u32 \<Rightarrow> ipv4_l3fwd_lpm_route list \<Rightarrow> ipv4_l3fwd_lpm_route option" where
  "longest_match dst [] = None"
| "longest_match dst (r # rs) = (case longest_match dst rs of
     None \<Rightarrow> if matches dst r then Some r else None
   | Some r' \<Rightarrow> if matches dst r \<and> route_depth r' \<le> route_depth r then Some r else Some r')"

lemma depth_mask_eq: "d \<le> 32 \<Longrightarrow> depth_mask d = not (mask (32 - d))"
proof -
  assume "d \<le> 32"
  moreover have "list_all (\<lambda>d. depth_mask d = not (mask (32 - d))) [0..<33]" by code_simp
  ultimately show ?thesis by (simp add: list_all_iff)
qed

lemma mask_drop: "and x (not (mask k)) = and y (not (mask k)) \<longleftrightarrow> drop_bit k x = drop_bit k (y :: 'a::len word)"
proof
  assume e: "and x (not (mask k)) = and y (not (mask k))"
  show "drop_bit k x = drop_bit k y"
  proof (rule bit_word_eqI)
    fix n assume "n < LENGTH('a)"
    show "bit (drop_bit k x) n = bit (drop_bit k y) n"
    proof (cases "k + n < LENGTH('a)")
      case True
      then show ?thesis using arg_cong [OF e, of "\<lambda>w. bit w (k + n)"] by (simp add: bit_simps)
    qed (auto simp: bit_simps dest: bit_imp_le_length)
  qed
next
  assume e: "drop_bit k x = drop_bit k y"
  show "and x (not (mask k)) = and y (not (mask k))"
  proof (rule bit_word_eqI)
    fix n assume n: "n < LENGTH('a)"
    have "bit x n = bit y n" if "k \<le> n" using arg_cong [OF e, of "\<lambda>w. bit w (n - k)"] that by (simp add: bit_simps)
    then show "bit (and x (not (mask k))) n = bit (and y (not (mask k))) n" using n by (auto simp: bit_simps)
  qed
qed

lemma route_test: "route_depth r \<le> 32 \<Longrightarrow>
    (and dst (depth_mask (unat (route_depth r))) = and (route_ip r) (depth_mask (unat (route_depth r)))) = matches dst r"
  by (simp add: matches_def depth_mask_eq mask_drop word_le_nat_alt)

text \<open>First match is longest match when routes that can match the same address come by falling depth.\<close>

definition by_depth :: "ipv4_l3fwd_lpm_route list \<Rightarrow> bool" where
  "by_depth rs \<longleftrightarrow> (\<forall>i j dst. i < j \<longrightarrow> j < length rs \<longrightarrow> matches dst (rs ! i) \<longrightarrow> matches dst (rs ! j) \<longrightarrow> route_depth (rs ! j) \<le> route_depth (rs ! i))"

lemma longest_match_in: "longest_match dst rs = Some r \<Longrightarrow> r \<in> set rs \<and> matches dst r"
  by (induction rs arbitrary: r) (auto split: option.splits if_splits)

lemma find_route_longest:
  assumes "by_depth rs" "\<forall>r\<in>set rs. route_depth r \<le> 32"
  shows "find_route dst rs = map_option route_if_out (longest_match dst rs)"
  using assms
proof (induction rs)
  case (Cons r rs)
  have "by_depth rs" unfolding by_depth_def
  proof (intro allI impI)
    fix i j d assume "i < j" "j < length rs" "matches d (rs ! i)" "matches d (rs ! j)"
    then show "route_depth (rs ! j) \<le> route_depth (rs ! i)"
      using Cons.prems(1) [unfolded by_depth_def, rule_format, of "Suc i" "Suc j" d] by simp
  qed
  then have IH: "find_route dst rs = map_option route_if_out (longest_match dst rs)" using Cons by simp
  have best: "route_depth r' \<le> route_depth r" if "matches dst r" "longest_match dst rs = Some r'" for r'
  proof -
    note m = that
    obtain j where "j < length rs" "r' = rs ! j" "matches dst r'" using longest_match_in [OF m(2)] by (auto simp: in_set_conv_nth)
    then show ?thesis using Cons.prems(1) [unfolded by_depth_def, rule_format, of 0 "Suc j" dst] m(1) by simp
  qed
  have t: "(and dst (depth_mask (unat (route_depth r))) = and (route_ip r) (depth_mask (unat (route_depth r)))) = matches dst r"
    using Cons.prems(2) by (intro route_test) simp
  show ?case using IH best by (auto simp: Let_def t split: option.split)
qed simp

definition ip4_law :: "(u8 \<Rightarrow> u8 \<Rightarrow> u8 \<Rightarrow> u8 \<Rightarrow> u32) \<Rightarrow> bool" where
  "ip4_law ip4 \<longleftrightarrow> (\<forall>a b c d. ip4 a b c d = or (or (push_bit 24 (ucast a)) (push_bit 16 (ucast b))) (or (push_bit 8 (ucast c)) (ucast d)))"

lemma routes_eq:
  assumes "ip4_law ip4"
  shows "ipv4_routes ip4 = [
     \<lparr>route_ip = 0xc0a80a00, route_depth = 24, route_if_out = 0\<rparr>, \<lparr>route_ip = 0xc0a81400, route_depth = 24, route_if_out = 1\<rparr>,
     \<lparr>route_ip = 0x01010101, route_depth = 32, route_if_out = 1\<rparr>, \<lparr>route_ip = 0x02020202, route_depth = 32, route_if_out = 0\<rparr>]"
  using assms by (simp add: ip4_law_def ipv4_routes_def)

lemma routes_by_depth:
  assumes "ip4_law ip4"
  shows "by_depth (ipv4_routes ip4)" "\<forall>r\<in>set (ipv4_routes ip4). route_depth r \<le> 32"
proof -
  have no: "\<not> (matches d r \<and> matches d r')"
    if "drop_bit 8 (route_ip r) \<noteq> drop_bit 8 (route_ip r')" "unat (route_depth r) \<in> {24, 32}" "unat (route_depth r') \<in> {24, 32}" for d r r'
    using that by (auto simp: matches_def)
  show "by_depth (ipv4_routes ip4)"
    unfolding by_depth_def routes_eq [OF assms]
  proof (intro allI impI)
    fix i j d
    let ?rs = "[\<lparr>route_ip = 0xc0a80a00, route_depth = 24, route_if_out = 0\<rparr>, \<lparr>route_ip = 0xc0a81400, route_depth = 24, route_if_out = 1\<rparr>,
      \<lparr>route_ip = 0x01010101, route_depth = 32, route_if_out = 1\<rparr>, \<lparr>route_ip = 0x02020202, route_depth = 32, route_if_out = 0\<rparr>] :: ipv4_l3fwd_lpm_route list"
    assume ij: "i < j" "j < length ?rs" and m: "matches d (?rs ! i)" "matches d (?rs ! j)"
    then have "i \<in> {0, 1, 2}" "j \<in> {1, 2, 3}" by auto
    then have "drop_bit 8 (route_ip (?rs ! i)) \<noteq> drop_bit 8 (route_ip (?rs ! j))" using ij(1) by auto
    moreover have "unat (route_depth (?rs ! i)) \<in> {24, 32}" "unat (route_depth (?rs ! j)) \<in> {24, 32}"
      using \<open>i \<in> {0, 1, 2}\<close> \<open>j \<in> {1, 2, 3}\<close> by auto
    ultimately show "route_depth (?rs ! j) \<le> route_depth (?rs ! i)" using no m by blast
  qed
  show "\<forall>r\<in>set (ipv4_routes ip4). route_depth r \<le> 32" by (simp add: routes_eq [OF assms])
qed

text \<open>C27. For every destination, the search in the order of the table gives the output port of the route with the
  longest matching prefix, and the port the packet came from when none matches.\<close>

theorem l3fwd_longest_prefix:
  assumes "ip4_law ip4" "portid < 256"
  shows "lpm_get_ipv4_dport ip4 dst portid = (case longest_match dst (ipv4_routes ip4) of Some r \<Rightarrow> unat (route_if_out r) | None \<Rightarrow> portid)"
proof -
  have "unat (of_nat portid :: u8) = portid" using assms(2) by (simp add: unat_of_nat)
  then show ?thesis
    using find_route_longest [OF routes_by_depth [OF assms(1)], of dst] by (simp add: lpm_get_ipv4_dport_def split: option.split)
qed

definition demo_ip4 :: "u8 \<Rightarrow> u8 \<Rightarrow> u8 \<Rightarrow> u8 \<Rightarrow> u32" where
  "demo_ip4 a b c d = or (or (push_bit 24 (ucast a)) (push_bit 16 (ucast b))) (or (push_bit 8 (ucast c)) (ucast d))"

theorem l3fwd_longest_prefix_witness:
  "lpm_get_ipv4_dport demo_ip4 0xc0a81407 0 = 1 \<and> lpm_get_ipv4_dport demo_ip4 0x08080808 1 = 1"
proof -
  have L: "ip4_law demo_ip4" by (simp add: ip4_law_def demo_ip4_def)
  show ?thesis
    using l3fwd_longest_prefix [OF L, of 0 "0xc0a81407"] l3fwd_longest_prefix [OF L, of 1 "0x08080808"]
    by (simp add: routes_eq [OF L] matches_def)
qed

subsection \<open>Forwarding loses no packet\<close>

text \<open>
  A VNF whose ports are virtual receives from and sends to multi-accessible rings. \<open>xs\<close> are the
  rings the ports use; they share no DPDK ring.
\<close>

definition rings_ok :: "addr list \<Rightarrow> ('h, 'e, 'w, 'r) nfv \<Rightarrow> bool" where
  "rings_ok xs s \<longleftrightarrow> (\<forall>x\<in>set xs. x \<noteq> NULL \<and> (\<exists>R. marings s x = Some R \<and> ring_ok R (rheap s))) \<and>
     (\<forall>x\<in>set xs. \<forall>y\<in>set xs. x \<noteq> y \<longrightarrow> set (rings (the (marings s x))) \<inter> set (rings (the (marings s y))) = {})"

definition held :: "('h, 'e, 'w, 'r) nenv \<Rightarrow> ('h, 'e, 'w, 'r) nfv \<Rightarrow> addr \<Rightarrow> mbuf multiset" where
  "held E s x = contents (ne_ring E) (the (marings s x)) (rheap s)"

definition ring_shape :: "ma_ring \<Rightarrow> addr list \<times> nat \<times> nat" where
  "ring_shape R = (rings R, length (enq_accessors R), length (deq_accessors R))"

definition burst_frame :: "('h, 'e, 'w, 'r) nfv \<Rightarrow> ('h, 'e, 'w, 'r) nfv \<Rightarrow> bool" where
  "burst_frame s t \<longleftrightarrow> t\<lparr>marings := Map.empty, rheap := rheap s\<rparr> = s\<lparr>marings := Map.empty\<rparr> \<and>
     (\<forall>x. map_option ring_shape (marings t x) = map_option ring_shape (marings s x))"

lemma burst_frame_refl [simp]: "burst_frame s s"
  by (simp add: burst_frame_def)

lemma burst_frameD:
  assumes "burst_frame s t"
  shows "vports t = vports s" "vblocks t = vblocks s" "vnfs t = vnfs s" "hw t = hw s"
    "\<And>x R. marings s x = Some R \<Longrightarrow> \<exists>R'. marings t x = Some R' \<and> ring_shape R' = ring_shape R"
proof -
  have e: "t\<lparr>marings := Map.empty, rheap := rheap s\<rparr> = s\<lparr>marings := Map.empty\<rparr>" using assms by (simp add: burst_frame_def)
  show "vports t = vports s" "vblocks t = vblocks s" "vnfs t = vnfs s" "hw t = hw s"
    using arg_cong [OF e, of vports] arg_cong [OF e, of vblocks] arg_cong [OF e, of vnfs] arg_cong [OF e, of hw] by simp_all
  show "\<exists>R'. marings t x = Some R' \<and> ring_shape R' = ring_shape R" if "marings s x = Some R" for x R
  proof -
    have "map_option ring_shape (marings t x) = Some (ring_shape R)" using assms that by (simp add: burst_frame_def)
    then show ?thesis by (cases "marings t x") simp_all
  qed
qed

lemma enqueue_burst_frame:
  "enqueue_burst R k ms r h = Some (n, r', h') \<Longrightarrow> dom (rmem h) \<subseteq> dom (rmem h') \<and> (\<forall>p. p \<notin> set (rings r) \<longrightarrow> rmem h' p = rmem h p)"
  by (auto simp: enqueue_burst_def Let_def split: option.splits prod.splits if_splits bind_splits)

lemma dequeue_burst_frame:
  "dequeue_burst R j k r h = Some (ys, r', h') \<Longrightarrow> dom (rmem h) \<subseteq> dom (rmem h') \<and> (\<forall>p. p \<notin> set (rings r) \<longrightarrow> rmem h' p = rmem h p)"
  by (auto simp: dequeue_burst_def Let_def split: option.splits prod.splits if_splits bind_splits)

lemma other_ring:
  assumes "ring_ok Q h" "dom (rmem h) \<subseteq> dom (rmem h')" "\<forall>p. p \<notin> set (rings R) \<longrightarrow> rmem h' p = rmem h p" "set (rings R) \<inter> set (rings Q) = {}"
  shows "ring_ok Q h'" "contents A Q h' = contents A Q h"
proof -
  have e: "rmem h' p = rmem h p" if "p \<in> set (rings Q)" for p using assms(3,4) that by blast
  show "ring_ok Q h'" using assms(1,2) unfolding ring_ok_def by (meson subset_trans)
  have "map (\<lambda>p. mset (ra_items A (the (rmem h' p)))) (rings Q) = map (\<lambda>p. mset (ra_items A (the (rmem h p)))) (rings Q)"
    using e by (intro map_cong) simp_all
  then show "contents A Q h' = contents A Q h" by (simp only: contents_def)
qed

text \<open>One burst on the ring \<open>x\<close>.\<close>

lemma on_rings_step:
  assumes ok: "rings_ok xs s" and x: "x \<in> set xs" and R: "marings s x = Some R"
    and e: "f R (rheap s) = Some (v, R', h')" and sh: "ring_shape R' = ring_shape R" and ro: "ring_ok R' h'"
    and fr: "dom (rmem (rheap s)) \<subseteq> dom (rmem h')" "\<forall>p. p \<notin> set (rings R) \<longrightarrow> rmem h' p = rmem (rheap s) p"
  shows "\<exists>t. on_rings x f s = Some (Return v, t) \<and> burst_frame s t \<and> rings_ok xs t \<and> held E t x = contents (ne_ring E) R' h' \<and>
    (\<forall>y\<in>set xs. y \<noteq> x \<longrightarrow> held E t y = held E s y)"
proof -
  let ?t = "s\<lparr>marings := (marings s)(x \<mapsto> R'), rheap := h'\<rparr>"
  have e: "on_rings x f s = Some (Return v, ?t)"
    using ok x R e by (auto simp: rings_ok_def on_rings_def need_def deref_def bnd_def andthen_def modify_def ret_def)
  have other: "\<exists>Q. marings s y = Some Q \<and> ring_ok Q h' \<and> contents (ne_ring E) Q h' = contents (ne_ring E) Q (rheap s)" if y: "y \<in> set xs" "y \<noteq> x" for y
  proof -
    obtain Q where Q: "marings s y = Some Q" "ring_ok Q (rheap s)" using ok y(1) unfolding rings_ok_def by blast
    have "set (rings R) \<inter> set (rings Q) = {}" using ok x y R Q(1) unfolding rings_ok_def by fastforce
    from other_ring [OF Q(2) fr this] show ?thesis using Q(1) by blast
  qed
  have rg: "rings R' = rings R" using sh by (simp add: ring_shape_def)
  have "rings_ok xs ?t"
    unfolding rings_ok_def
  proof (intro conjI ballI impI)
    fix y assume "y \<in> set xs"
    then show "y \<noteq> NULL" "\<exists>Q. marings ?t y = Some Q \<and> ring_ok Q (rheap ?t)" using other [of y] ro ok by (auto simp: rings_ok_def)
  next
    fix y z assume "y \<in> set xs" "z \<in> set xs" "y \<noteq> z"
    then have "set (rings (the (marings s y))) \<inter> set (rings (the (marings s z))) = {}" using ok unfolding rings_ok_def by blast
    then show "set (rings (the (marings ?t y))) \<inter> set (rings (the (marings ?t z))) = {}" using R rg by (cases "y = x"; cases "z = x") auto
  qed
  moreover have "burst_frame s ?t" using R sh by (simp add: burst_frame_def)
  moreover have "held E ?t y = held E s y" if "y \<in> set xs" "y \<noteq> x" for y
    using other [OF that] that(2) by (auto simp: held_def)
  ultimately show ?thesis using e by (auto simp: held_def)
qed

text \<open>\<open>virt_at p tx rx\<close>: a virtual port with these rings.\<close>

definition virt_at :: "addr \<Rightarrow> addr \<Rightarrow> addr \<Rightarrow> ('h, 'e, 'w, 'r) nfv \<Rightarrow> bool" where
  "virt_at p tx rx s \<longleftrightarrow> p \<noteq> NULL \<and> (\<exists>P. vports s p = Some P \<and> vp_class P = Virt_port \<lparr>vt_tx = tx, vt_rx = rx\<rparr>)"

lemma virt_rx_ok:
  assumes ok: "rings_ok xs s" and R: "ring_laws (ne_ring E)" and p: "virt_at p tx rx s" "rx \<in> set xs"
    and k: "k < length (deq_accessors (the (marings s rx)))"
  shows "\<exists>ms t. vport_rx_burst E k n p s = Some (Return ms, t) \<and> length ms \<le> n \<and> burst_frame s t \<and> rings_ok xs t \<and>
    held E t rx + mset ms = held E s rx \<and> (\<forall>y\<in>set xs. y \<noteq> rx \<longrightarrow> held E t y = held E s y)"
proof -
  obtain Q where Q: "marings s rx = Some Q" "ring_ok Q (rheap s)" using ok p(2) unfolding rings_ok_def by blast
  have "k < length (deq_accessors Q)" using k Q(1) by simp
  from dequeue_burst_ok [OF R Q(2) this, of n]
  obtain ys Q' h' where d: "dequeue_burst (ne_ring E) k n Q (rheap s) = Some (ys, Q', h')" "length ys \<le> n" "ring_ok Q' h'" "rings Q' = rings Q"
    "length (deq_accessors Q') = length (deq_accessors Q)" "enq_accessors Q' = enq_accessors Q"
    "contents (ne_ring E) Q' h' + mset ys = contents (ne_ring E) Q (rheap s)" by (elim exE conjE) (rule that, assumption+)
  note fr = dequeue_burst_frame [OF d(1)]
  have sh: "ring_shape Q' = ring_shape Q" using d by (simp add: ring_shape_def)
  obtain t where t: "on_rings rx (dequeue_burst (ne_ring E) k n) s = Some (Return ys, t)" "burst_frame s t" "rings_ok xs t"
    "held E t rx = contents (ne_ring E) Q' h'" "\<forall>y\<in>set xs. y \<noteq> rx \<longrightarrow> held E t y = held E s y"
    using on_rings_step [where f = "dequeue_burst (ne_ring E) k n", OF ok p(2) Q(1) d(1) sh d(3) fr [THEN conjunct1] fr [THEN conjunct2], of E] by blast
  have "vport_rx_burst E k n p s = Some (Return ys, t)"
    using p(1) t(1) by (auto simp: virt_at_def vport_rx_burst_def the_port_def need_def deref_def bnd_def)
  then show ?thesis using t d Q(1) by (simp add: held_def)
qed

lemma virt_tx_ok:
  assumes ok: "rings_ok xs s" and R: "ring_laws (ne_ring E)" and p: "virt_at p tx rx s" "tx \<in> set xs"
    and k: "k < length (enq_accessors (the (marings s tx)))"
  shows "\<exists>n t. vport_tx_burst E k ms p s = Some (Return n, t) \<and> n \<le> length ms \<and> burst_frame s t \<and> rings_ok xs t \<and>
    held E t tx = held E s tx + mset (take n ms) \<and> (\<forall>y\<in>set xs. y \<noteq> tx \<longrightarrow> held E t y = held E s y)"
proof -
  obtain Q where Q: "marings s tx = Some Q" "ring_ok Q (rheap s)" using ok p(2) unfolding rings_ok_def by blast
  have "k < length (enq_accessors Q)" using k Q(1) by simp
  from enqueue_burst_ok [OF R Q(2) this, of ms]
  obtain n Q' h' where d: "enqueue_burst (ne_ring E) k ms Q (rheap s) = Some (n, Q', h')" "n \<le> length ms" "ring_ok Q' h'" "rings Q' = rings Q"
    "length (enq_accessors Q') = length (enq_accessors Q)" "deq_accessors Q' = deq_accessors Q"
    "contents (ne_ring E) Q' h' = contents (ne_ring E) Q (rheap s) + mset (take n ms)" by (elim exE conjE) (rule that, assumption+)
  note fr = enqueue_burst_frame [OF d(1)]
  have sh: "ring_shape Q' = ring_shape Q" using d by (simp add: ring_shape_def)
  obtain t where t: "on_rings tx (enqueue_burst (ne_ring E) k ms) s = Some (Return n, t)" "burst_frame s t" "rings_ok xs t"
    "held E t tx = contents (ne_ring E) Q' h'" "\<forall>y\<in>set xs. y \<noteq> tx \<longrightarrow> held E t y = held E s y"
    using on_rings_step [where f = "enqueue_burst (ne_ring E) k ms", OF ok p(2) Q(1) d(1) sh d(3) fr [THEN conjunct1] fr [THEN conjunct2], of E] by blast
  have "vport_tx_burst E k ms p s = Some (Return n, t)"
    using p(1) t(1) by (auto simp: virt_at_def vport_tx_burst_def the_port_def need_def deref_def bnd_def)
  then show ?thesis using t d Q(1) by (simp add: held_def)
qed

text \<open>A block with two virtual ports \<open>ps\<close>, on the rings \<open>ts\<close> and \<open>rs\<close>, whose vcore \<open>i\<close> has valid access ids.\<close>

definition fwd_ok :: "('h, 'e, 'w, 'r) nenv \<Rightarrow> addr \<Rightarrow> nat \<Rightarrow> addr list \<Rightarrow> addr list \<Rightarrow> addr list \<Rightarrow> ('h, 'e, 'w, 'r) nfv \<Rightarrow> bool" where
  "fwd_ok E b i ps ts rs s \<longleftrightarrow> ring_laws (ne_ring E) \<and> length ps = 2 \<and> length ts = 2 \<and> length rs = 2 \<and> distinct (ts @ rs) \<and>
     rings_ok (ts @ rs) s \<and> (\<forall>k<2. virt_at (ps ! k) (ts ! k) (rs ! k) s) \<and> b \<noteq> NULL \<and>
     (\<exists>B V c. vblocks s b = Some B \<and> vnfs s (vb_ports B) = Some V \<and> vn_ports V = ps \<and> i < length (vb_vcores B) \<and> c = vb_vcores B ! i \<and>
        length (vc_rx_acc c) = 2 \<and> length (vc_tx_acc c) = 2 \<and>
        (\<forall>k<2. vc_rx_acc c ! k < length (deq_accessors (the (marings s (rs ! k)))) \<and> vc_tx_acc c ! k < length (enq_accessors (the (marings s (ts ! k))))))"

lemma fwd_ok_frame:
  assumes ok: "fwd_ok E b i ps ts rs s" and f: "burst_frame s t" and r: "rings_ok (ts @ rs) t"
  shows "fwd_ok E b i ps ts rs t"
proof -
  note F = burst_frameD [OF f]
  have len: "length (deq_accessors (the (marings t x))) = length (deq_accessors (the (marings s x)))"
    "length (enq_accessors (the (marings t x))) = length (enq_accessors (the (marings s x)))" if "x \<in> set (ts @ rs)" for x
  proof -
    note x = that
    have "rings_ok (ts @ rs) s" using ok by (simp add: fwd_ok_def)
    then obtain R where "marings s x = Some R" using x unfolding rings_ok_def by blast
    with F(5) [OF this] show "length (deq_accessors (the (marings t x))) = length (deq_accessors (the (marings s x)))"
      "length (enq_accessors (the (marings t x))) = length (enq_accessors (the (marings s x)))" by (auto simp: ring_shape_def)
  qed
  obtain B V c where B: "vblocks s b = Some B" "vnfs s (vb_ports B) = Some V" "vn_ports V = ps" "i < length (vb_vcores B)" "c = vb_vcores B ! i"
    "length (vc_rx_acc c) = 2" "length (vc_tx_acc c) = 2"
    "\<forall>k<2. vc_rx_acc c ! k < length (deq_accessors (the (marings s (rs ! k)))) \<and> vc_tx_acc c ! k < length (enq_accessors (the (marings s (ts ! k))))"
    using ok unfolding fwd_ok_def by blast
  have l: "length ts = 2" "length rs = 2" using ok by (simp_all add: fwd_ok_def)
  have "vc_rx_acc c ! k < length (deq_accessors (the (marings t (rs ! k)))) \<and> vc_tx_acc c ! k < length (enq_accessors (the (marings t (ts ! k))))" if "k < 2" for k
    using B(8) that len(1) [of "rs ! k"] len(2) [of "ts ! k"] l by simp
  then have "\<exists>B V c. vblocks t b = Some B \<and> vnfs t (vb_ports B) = Some V \<and> vn_ports V = ps \<and> i < length (vb_vcores B) \<and> c = vb_vcores B ! i \<and>
        length (vc_rx_acc c) = 2 \<and> length (vc_tx_acc c) = 2 \<and>
        (\<forall>k<2. vc_rx_acc c ! k < length (deq_accessors (the (marings t (rs ! k)))) \<and> vc_tx_acc c ! k < length (enq_accessors (the (marings t (ts ! k)))))"
    using B(1-7) F(2,3) by - (rule exI [of _ B], rule exI [of _ V], rule exI [of _ c], simp)
  then show ?thesis using ok r F(1) unfolding fwd_ok_def virt_at_def by simp
qed

lemma fwd_ok_hw: "fwd_ok E b i ps ts rs (s\<lparr>hw := h\<rparr>) = fwd_ok E b i ps ts rs s" "held E (s\<lparr>hw := h\<rparr>) x = held E s x"
  by (simp_all add: fwd_ok_def rings_ok_def virt_at_def held_def)

definition port_turn :: "('h, 'e, 'w, 'r) nenv \<Rightarrow> nat \<Rightarrow> addr list \<Rightarrow> addr list \<Rightarrow> ('h, 'e, 'w, 'r) nfv \<Rightarrow> ('h, 'e, 'w, 'r) nfv \<Rightarrow> bool" where
  "port_turn E pid ts rs s t \<longleftrightarrow> (\<exists>ms n. length ms \<le> 32 \<and> n \<le> length ms \<and> held E s (rs ! pid) = held E t (rs ! pid) + mset ms \<and>
     held E t (ts ! (1 - pid)) = held E s (ts ! (1 - pid)) + mset (take n ms) \<and>
     hw t = (if n < length ms then ne_free E (drop n ms) (hw s) else hw s) \<and>
     (\<forall>y\<in>set (ts @ rs). y \<noteq> rs ! pid \<longrightarrow> y \<noteq> ts ! (1 - pid) \<longrightarrow> held E t y = held E s y))"

lemma xor_one: "pid < 2 \<Longrightarrow> xor pid 1 = 1 - (pid::nat)"
  by (auto simp: less_2_cases_iff)

lemma l2fwd_port_ok:
  assumes ok: "fwd_ok E b i ps ts rs s" and pid: "pid < 2"
  shows "\<exists>t. l2fwd_port E b i pid s = Some (Return (), t) \<and> l2fwd_numa_round E pid b i s = Some (Return (), t) \<and>
    fwd_ok E b i ps ts rs t \<and> port_turn E pid ts rs s t"
proof -
  let ?o = "1 - pid"
  have o: "?o < 2" "xor pid 1 = ?o" using pid xor_one by simp_all
  obtain B V c where B: "b \<noteq> NULL" "vblocks s b = Some B" "vnfs s (vb_ports B) = Some V" "vn_ports V = ps" "i < length (vb_vcores B)"
    "c = vb_vcores B ! i" "length (vc_rx_acc c) = 2" "length (vc_tx_acc c) = 2"
    "\<forall>k<2. vc_rx_acc c ! k < length (deq_accessors (the (marings s (rs ! k)))) \<and> vc_tx_acc c ! k < length (enq_accessors (the (marings s (ts ! k))))"
    using ok unfolding fwd_ok_def by blast
  have L: "ring_laws (ne_ring E)" "length ps = 2" "length ts = 2" "length rs = 2" "distinct (ts @ rs)" "rings_ok (ts @ rs) s"
    "\<And>k. k < 2 \<Longrightarrow> virt_at (ps ! k) (ts ! k) (rs ! k) s" using ok by (auto simp: fwd_ok_def)
  have inx: "rs ! pid \<in> set (ts @ rs)" "ts ! ?o \<in> set (ts @ rs)" using L o pid by auto
  have ne: "ts ! ?o \<noteq> rs ! pid" using L(3-5) o(1) pid by (auto simp: disjoint_iff) (metis nth_mem)
  let ?ra = "vc_rx_acc c ! pid" and ?ta = "vc_tx_acc c ! ?o"
  note defs = vcore_at_def at_vec_def the_block_def need_def deref_def bnd_def ret_def nth_opt_def
  have ra: "get_lcore_port_rxaid b i pid s = Some (Return ?ra, s)" using B pid by (simp add: get_lcore_port_rxaid_def defs)
  have ta: "get_lcore_port_txaid b i ?o u = Some (Return ?ta, u)" if "vblocks u = vblocks s" for u
    using B o that by (simp add: get_lcore_port_txaid_def defs)
  have pt: "block_port_at b k u = Some (Return (ps ! k), u)" if "vblocks u = vblocks s" "vnfs u = vnfs s" "k < 2" for k u
    using B L(2) that by (simp add: block_port_at_def block_ports_def defs)
  obtain ms t where rx: "vport_rx_burst E ?ra 32 (ps ! pid) s = Some (Return ms, t)" "length ms \<le> 32" "burst_frame s t" "rings_ok (ts @ rs) t"
    "held E t (rs ! pid) + mset ms = held E s (rs ! pid)" "\<forall>y\<in>set (ts @ rs). y \<noteq> rs ! pid \<longrightarrow> held E t y = held E s y"
    using virt_rx_ok [OF L(6,1) L(7) [OF pid] inx(1), of ?ra 32] B(9) pid by blast
  note F = burst_frameD [OF rx(3)]
  have tok: "fwd_ok E b i ps ts rs t" by (rule fwd_ok_frame [OF ok rx(3,4)])
  have r: "block_rx_burst E b pid ?ra 32 s = Some (Return ms, t)" using pt [OF refl refl pid] rx(1) by (simp add: block_rx_burst_def)
  have delay: "for_each (\<lambda>_. ret ()) ms = ret ()" for ms :: "mbuf list" by (induction ms) simp_all
  show ?thesis
  proof (cases "ms = []")
    case True
    then have e: "l2fwd_port E b i pid s = Some (Return (), t)" "l2fwd_numa_round E pid b i s = Some (Return (), t)"
      using ra ta [OF refl] r o(2) by (simp_all add: l2fwd_port_def l2fwd_numa_round_def ret_def)
    have "port_turn E pid ts rs s t"
      unfolding port_turn_def using rx(5,6) F(4) True ne inx(2) by - (rule exI [of _ "[]"], rule exI [of _ 0], simp)
    then show ?thesis using e tok by blast
  next
    case False
    have vt: "virt_at (ps ! ?o) (ts ! ?o) (rs ! ?o) t" using L(7) [OF o(1)] F(1) by (simp add: virt_at_def)
    have "?ta < length (enq_accessors (the (marings t (ts ! ?o))))"
      using tok B(2,6) F(2) o(1) by (auto simp: fwd_ok_def)
    then obtain n u where tx: "vport_tx_burst E ?ta ms (ps ! ?o) t = Some (Return n, u)" "n \<le> length ms" "burst_frame t u" "rings_ok (ts @ rs) u"
      "held E u (ts ! ?o) = held E t (ts ! ?o) + mset (take n ms)" "\<forall>y\<in>set (ts @ rs). y \<noteq> ts ! ?o \<longrightarrow> held E u y = held E t y"
      using virt_tx_ok [OF rx(4) L(1) vt inx(2), of ?ta ms] by blast
    note G = burst_frameD [OF tx(3)]
    have uok: "fwd_ok E b i ps ts rs u" by (rule fwd_ok_frame [OF tok tx(3,4)])
    let ?w = "if n < length ms then u\<lparr>hw := ne_free E (drop n ms) (hw u)\<rparr> else u"
    have b: "block_tx_burst E b ?o ?ta ms t = Some (Return n, u)" using pt [OF F(2,3) o(1)] tx(1) by (simp add: block_tx_burst_def)
    have sf: "send_or_free E b ?o ?ta ms t = Some (Return (), ?w)"
      using b by (simp add: send_or_free_def free_mbufs_def modify_def ret_def)
    have e: "l2fwd_port E b i pid s = Some (Return (), ?w)" "l2fwd_numa_round E pid b i s = Some (Return (), ?w)"
      using ra ta [OF refl] ta [OF F(2)] r o(2) False sf by (simp_all add: l2fwd_port_def l2fwd_numa_round_def delay)
    have "fwd_ok E b i ps ts rs ?w" using uok by (simp add: fwd_ok_hw(1))
    moreover have "port_turn E pid ts rs s ?w"
      unfolding port_turn_def using rx(2,5,6) tx(2,5,6) F(4) G(4) ne inx
      by - (rule exI [of _ ms], rule exI [of _ n], simp add: fwd_ok_hw(2))
    ultimately show ?thesis using e by blast
  qed
qed

text \<open>The packets on their way from port \<open>pid\<close> through the VNF.\<close>

definition flow :: "('h, 'e, 'w, 'r) nenv \<Rightarrow> addr list \<Rightarrow> addr list \<Rightarrow> ('h, 'e, 'w, 'r) nfv \<Rightarrow> nat \<Rightarrow> mbuf multiset" where
  "flow E ts rs s pid = held E s (rs ! pid) + held E s (ts ! (1 - pid))"

definition free_law :: "('h, 'e, 'w, 'r) nenv \<Rightarrow> ('h \<Rightarrow> mbuf multiset) \<Rightarrow> bool" where
  "free_law E freed \<longleftrightarrow> (\<forall>ms h. freed (ne_free E ms h) = freed h + mset ms)"

lemma turn_flow:
  assumes "port_turn E pid ts rs s t" "fwd_ok E b i ps ts rs s" "pid < 2" "free_law E freed"
  shows "\<exists>d. flow E ts rs s pid = flow E ts rs t pid + d \<and> flow E ts rs s (1 - pid) = flow E ts rs t (1 - pid) \<and> freed (hw t) = freed (hw s) + d"
proof -
  obtain ms n where T: "n \<le> length ms" "held E s (rs ! pid) = held E t (rs ! pid) + mset ms"
     "held E t (ts ! (1 - pid)) = held E s (ts ! (1 - pid)) + mset (take n ms)"
     "hw t = (if n < length ms then ne_free E (drop n ms) (hw s) else hw s)"
     "\<forall>y\<in>set (ts @ rs). y \<noteq> rs ! pid \<longrightarrow> y \<noteq> ts ! (1 - pid) \<longrightarrow> held E t y = held E s y"
    using assms(1) unfolding port_turn_def by blast
  have L: "length ts = 2" "length rs = 2" "distinct ts" "distinct rs" "set ts \<inter> set rs = {}" using assms(2) by (auto simp: fwd_ok_def)
  let ?o = "1 - pid"
  have o: "?o < 2" "?o \<noteq> pid" "1 - ?o = pid" using assms(3) by (auto simp: less_2_cases_iff)
  have "rs ! ?o \<noteq> rs ! pid" "ts ! pid \<noteq> ts ! ?o" using L o assms(3) by (simp_all add: nth_eq_iff_index_eq)
  moreover have "rs ! ?o \<noteq> ts ! ?o" "ts ! pid \<noteq> rs ! pid" using L o assms(3) by (metis disjoint_iff nth_mem)+
  ultimately have same: "held E t (rs ! ?o) = held E s (rs ! ?o)" "held E t (ts ! pid) = held E s (ts ! pid)"
    using T(5) L o assms(3) by simp_all
  have split: "mset ms = mset (take n ms) + mset (drop n ms)" by (metis append_take_drop_id mset_append)
  have "freed (hw t) = freed (hw s) + mset (drop n ms)" using T(1,4) assms(4) by (auto simp: free_law_def)
  moreover have "flow E ts rs s pid = flow E ts rs t pid + mset (drop n ms)" using T(2,3) split by (simp add: flow_def)
  moreover have "flow E ts rs s ?o = flow E ts rs t ?o" using same o(3) by (simp add: flow_def)
  ultimately show ?thesis by blast
qed

lemma fwd_n_ports: "fwd_ok E b i ps ts rs s \<Longrightarrow> block_n_ports b s = Some (Return 2, s)"
  by (auto simp: fwd_ok_def block_n_ports_def block_ports_def the_block_def need_def deref_def bnd_def ret_def)

lemma for_each_idle: "for_each (\<lambda>_. ret x) xs = ret ()"
  by (induction xs) simp_all

lemma upt_2: "[0..<2] = [0, 1::nat]"
  by code_simp

lemma l2fwd_round_ok:
  assumes ok: "fwd_ok E b i ps ts rs s" and fr: "free_law E freed"
  shows "\<exists>t d0 d1. l2fwd_round E b i s = Some (Return (), t) \<and> andthen (l2fwd_numa_round E 0 b i) (l2fwd_numa_round E 1 b i) s = Some (Return (), t) \<and>
    fwd_ok E b i ps ts rs t \<and> flow E ts rs s 0 = flow E ts rs t 0 + d0 \<and> flow E ts rs s 1 = flow E ts rs t 1 + d1 \<and> freed (hw t) = freed (hw s) + d0 + d1"
proof -
  obtain t where t: "l2fwd_port E b i 0 s = Some (Return (), t)" "l2fwd_numa_round E 0 b i s = Some (Return (), t)" "fwd_ok E b i ps ts rs t" "port_turn E 0 ts rs s t"
    using l2fwd_port_ok [OF ok, of 0] by auto
  obtain u where u: "l2fwd_port E b i 1 t = Some (Return (), u)" "l2fwd_numa_round E 1 b i t = Some (Return (), u)" "fwd_ok E b i ps ts rs u" "port_turn E 1 ts rs t u"
    using l2fwd_port_ok [OF t(3), of 1] by auto
  obtain d0 where d0: "flow E ts rs s 0 = flow E ts rs t 0 + d0" "flow E ts rs s 1 = flow E ts rs t 1" "freed (hw t) = freed (hw s) + d0"
    using turn_flow [OF t(4) ok _ fr] by auto
  obtain d1 where d1: "flow E ts rs t 1 = flow E ts rs u 1 + d1" "flow E ts rs t 0 = flow E ts rs u 0" "freed (hw u) = freed (hw t) + d1"
    using turn_flow [OF u(4) t(3) _ fr] by auto
  have "l2fwd_round E b i s = Some (Return (), u)"
    using t(1) u(1) fwd_n_ports [OF ok] by (simp add: l2fwd_round_def upt_2 ret_def)
  moreover have "andthen (l2fwd_numa_round E 0 b i) (l2fwd_numa_round E 1 b i) s = Some (Return (), u)" using t(2) u(2) by simp
  ultimately show ?thesis using u(3) d0 d1 by (auto simp: add.assoc)
qed


text \<open>The three L2 forwarders are the same function of the network: the delay changes nothing but time, and one turn of each
  of the two blocks of \<open>l2fwd_numa\<close> does what one round of \<open>l2fwd\<close> does.\<close>

theorem l2fwd_variants_agree:
  assumes "fwd_ok E b i ps ts rs s" "free_law E freed"
  shows "l2fwd_delay_round E n b i = l2fwd_round E b i \<and>
    andthen (l2fwd_numa_round E 0 b i) (l2fwd_numa_round E 1 b i) s = l2fwd_round E b i s"
proof -
  have "l2fwd_delay_port E n b i = l2fwd_port E b i" by (intro ext) (simp only: l2fwd_delay_port_def l2fwd_port_def for_each_idle andthen_ret)
  then show ?thesis using l2fwd_round_ok [OF assms] by (auto simp: l2fwd_delay_round_def l2fwd_round_def)
qed

text \<open>For the witnesses: two virtual ports on four rings of one DPDK ring each.\<close>

definition log_eth :: "mbuf list eth_api" where
  "log_eth = \<lparr>eth_valid = (\<lambda>p h. True), eth_rx_burst = (\<lambda>p q n h. ([], h)), eth_tx_burst = (\<lambda>p q ms h. (length ms, h)),
     eth_link_up = (\<lambda>p h. h), eth_link_down = (\<lambda>p h. h), eth_promisc_on = (\<lambda>p h. h), eth_promisc_off = (\<lambda>p h. h), eth_start = (\<lambda>p h. h), eth_stop = (\<lambda>p h. h),
     eth_configure = (\<lambda>p r t c mp h. (True, h)), eth_init_conf = \<lparr>mq_rss = False, rss_key = 0, rss_hf = {}\<rparr>\<rparr>"

definition fwd_env :: "(mbuf list, unit, unit, mbuf list) nenv" where
  "fwd_env = \<lparr>ne_eth = log_eth, ne_ring = list_ring 1, ne_ring_alloc = (\<lambda>_ w. (None, w)), ne_new_ring = [], ne_launch = demo_launch,
     ne_dev_socket = id, ne_sockets = 1, ne_popcnt = (\<lambda>m. length (filter (bit m) [0..<32])), ne_free = (\<lambda>ms h. ms @ h), ne_junk = 99, ne_spawner = 7\<rparr>"

definition fwd_ring :: "addr \<Rightarrow> ma_ring" where
  "fwd_ring p = (ssn_ma_ring 0 0 ''r'')\<lparr>rings := [p], enq_accessors := [acc_set [0]], deq_accessors := [acc_set [0]]\<rparr>"

definition fwd_port :: "addr \<Rightarrow> addr \<Rightarrow> ssn_vnf_port" where
  "fwd_port t r = new_vnf_port ''v'' (Virt_port \<lparr>vt_tx = t, vt_rx = r\<rparr>)"

definition fwd_nfv :: "mbuf list \<Rightarrow> (mbuf list, unit, unit, mbuf list) nfv" where
  "fwd_nfv ms = \<lparr>vports = [2 \<mapsto> fwd_port 11 12, 3 \<mapsto> fwd_port 13 14],
     vblocks = [4 \<mapsto> (new_vnf_block fwd_env 2 0 1 ''b'' L2fwd)\<lparr>vb_vcores := [\<lparr>vc_lcore_id = 1, vc_rx_acc = [0, 0], vc_tx_acc = [0, 0]\<rparr>], vb_running := True\<rparr>],
     vnfs = [1 \<mapsto> \<lparr>vn_ports = [2, 3], vn_blocks = [4], vn_name = ''vnf''\<rparr>], panels = Map.empty,
     marings = [11 \<mapsto> fwd_ring 21, 12 \<mapsto> fwd_ring 22, 13 \<mapsto> fwd_ring 23, 14 \<mapsto> fwd_ring 24],
     rheap = \<lparr>rworld = (), rmem = [21 \<mapsto> [], 22 \<mapsto> ms, 23 \<mapsto> [], 24 \<mapsto> []]\<rparr>, mports = [], hw = [], stats = Map.empty, thr = demo_threads\<rparr>"

lemma fwd_nfv_ok: "fwd_ok fwd_env 4 0 [2, 3] [11, 13] [12, 14] (fwd_nfv ms)" "free_law fwd_env mset"
proof -
  have "ring_ok (fwd_ring p) (rheap (fwd_nfv ms))" if "p \<in> {21, 22, 23, 24}" for p
    using that by (auto simp: ring_ok_def acc_ok_def fwd_ring_def acc_set_def fwd_nfv_def)
  then have r: "rings_ok [11, 13, 12, 14] (fwd_nfv ms)" by (auto simp: rings_ok_def fwd_nfv_def fwd_ring_def)
  show "fwd_ok fwd_env 4 0 [2, 3] [11, 13] [12, 14] (fwd_nfv ms)"
    unfolding fwd_ok_def using r
    by (simp add: fwd_nfv_def fwd_env_def list_ring_laws virt_at_def fwd_port_def new_vnf_port_def fwd_ring_def new_vnf_block_def less_2_cases_iff all_conj_distrib)
qed (simp add: free_law_def fwd_env_def)


theorem l2fwd_variants_agree_witness:
  "l2fwd_delay_round fwd_env 100 4 0 = l2fwd_round fwd_env 4 0 \<and>
    andthen (l2fwd_numa_round fwd_env 0 4 0) (l2fwd_numa_round fwd_env 1 4 0) (fwd_nfv []) = l2fwd_round fwd_env 4 0 (fwd_nfv [])"
  by (rule l2fwd_variants_agree [OF fwd_nfv_ok])

subsection \<open>What goes wrong in the other two\<close>

text \<open>An access id valid on the outputs of both ports.\<close>

definition tx_aid_ok :: "nat \<Rightarrow> addr list \<Rightarrow> ('h, 'e, 'w, 'r) nfv \<Rightarrow> bool" where
  "tx_aid_ok a ts s \<longleftrightarrow> (\<forall>d<2. a < length (enq_accessors (the (marings s (ts ! d)))))"

lemma fwd_tx:
  assumes ok: "fwd_ok E b i ps ts rs s" and d: "d < 2" and a: "tx_aid_ok a ts s"
  shows "\<exists>n u. block_tx_burst E b d a ms s = Some (Return n, u) \<and> n \<le> length ms \<and> fwd_ok E b i ps ts rs u \<and> tx_aid_ok a ts u \<and> hw u = hw s \<and>
    held E u (ts ! d) = held E s (ts ! d) + mset (take n ms)"
proof -
  obtain B V where B: "b \<noteq> NULL" "vblocks s b = Some B" "vnfs s (vb_ports B) = Some V" "vn_ports V = ps" using ok unfolding fwd_ok_def by blast
  have L: "ring_laws (ne_ring E)" "length ps = 2" "length ts = 2" "rings_ok (ts @ rs) s" "virt_at (ps ! d) (ts ! d) (rs ! d) s"
    using ok d by (auto simp: fwd_ok_def)
  have inx: "ts ! k \<in> set (ts @ rs)" if "k < 2" for k using L(3) that by simp
  have "a < length (enq_accessors (the (marings s (ts ! d))))" using a d by (simp add: tx_aid_ok_def)
  then obtain n u where tx: "vport_tx_burst E a ms (ps ! d) s = Some (Return n, u)" "n \<le> length ms" "burst_frame s u" "rings_ok (ts @ rs) u"
      "held E u (ts ! d) = held E s (ts ! d) + mset (take n ms)"
    using virt_tx_ok [OF L(4,1,5) inx [OF d], of a ms] by blast
  have "block_tx_burst E b d a ms s = Some (Return n, u)"
    using B L(2) d tx(1) by (simp add: block_tx_burst_def block_port_at_def block_ports_def the_block_def need_def deref_def bnd_def ret_def nth_opt_def)
  moreover have "tx_aid_ok a ts u"
    unfolding tx_aid_ok_def
  proof (intro allI impI)
    fix k :: nat assume k: "k < 2"
    obtain R where R: "marings s (ts ! k) = Some R" using L(4) inx [OF k] unfolding rings_ok_def by blast
    from burst_frameD(5) [OF tx(3) R] show "a < length (enq_accessors (the (marings u (ts ! k))))"
      using a k R by (auto simp: tx_aid_ok_def ring_shape_def)
  qed
  ultimately show ?thesis using tx(2,5) fwd_ok_frame [OF ok tx(3,4)] burst_frameD(4) [OF tx(3)] by blast
qed

lemma tx_aid_hw: "tx_aid_ok a ts (s\<lparr>hw := h\<rparr>) = tx_aid_ok a ts s"
  by (simp add: tx_aid_ok_def)

text \<open>Rewriting a header frees nothing.\<close>

definition mac_law :: "'h pkt_api \<Rightarrow> ('h \<Rightarrow> mbuf multiset) \<Rightarrow> bool" where
  "mac_law K freed \<longleftrightarrow> (\<forall>x y m h. freed (pk_set_macs K x y m h) = freed h)"

lemma dport_2: "pid < 2 \<Longrightarrow> (if 1 < dst then pid else dst) < (2::nat)"
  by auto

text \<open>\<open>l3fwd\<close> frees a packet that is not IPv4 and goes on with it: it is sent, or freed, a second time.\<close>

theorem l3fwd_uses_freed:
  assumes "fwd_ok E b i ps ts rs s" "free_law E freed" "mac_law K freed" "pid < 2" "tx_aid_ok a ts s" "\<not> pk_ipv4 K m (hw s)"
  shows "\<exists>t d. l3fwd_packet E K b pid a m s = Some (Return (), t) \<and> d < 2 \<and>
    held E t (ts ! d) + freed (hw t) = held E s (ts ! d) + freed (hw s) + {#m, m#}"
proof -
  let ?h = "ne_free E [m] (hw s)"
  let ?x = "lpm_get_ipv4_dport (pk_IPv4 K) (pk_dst K m ?h) pid"
  let ?d = "if 1 < ?x then pid else ?x"
  let ?h2 = "pk_set_macs K (map of_nat [0..<6]) (replicate 6 0xff) m ?h"
  let ?s = "s\<lparr>hw := ?h2\<rparr>"
  have d: "?d < 2" by (rule dport_2 [OF assms(4)])
  have "fwd_ok E b i ps ts rs ?s" "tx_aid_ok a ts ?s" using assms(1,5) fwd_ok_hw(1) tx_aid_hw by (simp_all add: fwd_ok_hw(1) tx_aid_hw)
  from fwd_tx [OF this(1) d this(2), of "[m]"] obtain n u where
    u: "block_tx_burst E b ?d a [m] ?s = Some (Return n, u)" "n \<le> 1" "hw u = ?h2" "held E u (ts ! ?d) = held E s (ts ! ?d) + mset (take n [m])"
    by (auto simp: fwd_ok_hw(2))
  let ?t = "if n < 1 then u\<lparr>hw := ne_free E [m] (hw u)\<rparr> else u"
  have e: "l3fwd_packet E K b pid a m s = Some (Return (), ?t)"
  proof -
    have "l3fwd_packet E K b pid a m s = bnd (block_tx_burst E b ?d a [m]) (\<lambda>n. if n < 1 then free_mbufs E [m] else ret ()) ?s"
      using assms(6) by (simp add: l3fwd_packet_def gets_def free_mbufs_def modify_def Let_def del: One_nat_def)
    also have "\<dots> = (if n < 1 then free_mbufs E [m] else ret ()) u" unfolding bnd_def u(1) by simp
    finally show ?thesis by (simp add: free_mbufs_def modify_def ret_def)
  qed
  have f: "freed ?h2 = freed (hw s) + {#m#}" using assms(2,3) by (simp add: free_law_def mac_law_def)
  have "held E ?t (ts ! ?d) + freed (hw ?t) = held E s (ts ! ?d) + freed (hw s) + {#m, m#}"
  proof (cases n)
    case 0
    then show ?thesis using u(3,4) f assms(2) by (simp add: fwd_ok_hw(2) free_law_def)
  next
    case (Suc k)
    then show ?thesis using u f by simp
  qed
  then show ?thesis using e d by blast
qed

lemma acl_packet_ok:
  assumes ok: "fwd_ok E b i ps ts rs s" "tx_aid_ok a ts s" and pid: "pid < 2" and fr: "free_law E freed"
    and pass: "\<forall>h. pk_classify K acx (ms ! j) h = 0" and j: "j < length ms"
  shows "\<exists>t. acl_packet E K acx b pid a ms j s = Some (Return (), t) \<and> fwd_ok E b i ps ts rs t \<and> tx_aid_ok a ts t \<and>
    size (held E t (ts ! (1 - pid))) + size (freed (hw t)) = size (held E s (ts ! (1 - pid))) + size (freed (hw s)) + length ms"
proof -
  have o: "1 - pid < 2" "xor pid 1 = 1 - pid" using pid xor_one by simp_all
  obtain n u where u: "block_tx_burst E b (1 - pid) a [ms ! j] s = Some (Return n, u)" "n \<le> 1" "fwd_ok E b i ps ts rs u" "tx_aid_ok a ts u" "hw u = hw s"
    "held E u (ts ! (1 - pid)) = held E s (ts ! (1 - pid)) + mset (take n [ms ! j])"
    using fwd_tx [OF ok(1) o(1) ok(2), of "[ms ! j]"] by auto
  let ?t = "if n < length ms then u\<lparr>hw := ne_free E (drop n ms) (hw u)\<rparr> else u"
  have e: "acl_packet E K acx b pid a ms j s = Some (Return (), ?t)"
    using pass u(1) o(2) by (simp add: acl_packet_def packet_filter_pass_def gets_def bnd_def free_mbufs_def modify_def ret_def)
  have "size (mset (take n [ms ! j])) + (length ms - n) = length ms" using u(2) j by (cases n) auto
  then have "size (held E ?t (ts ! (1 - pid))) + size (freed (hw ?t)) = size (held E s (ts ! (1 - pid))) + size (freed (hw s)) + length ms"
    using u(2,5,6) fr j by (simp add: fwd_ok_hw(2) free_law_def)
  then show ?thesis using e u(3,4) by (simp add: fwd_ok_hw(1) tx_aid_hw)
qed

text \<open>The free of the packets not sent is inside the loop over the packets of a burst: for a burst of \<open>n\<close> packets
  that all pass the filter, \<open>n * n\<close> packets are sent or freed.\<close>

theorem acl_frees_again:
  assumes "fwd_ok E b i ps ts rs s" "tx_aid_ok a ts s" "pid < 2" "free_law E freed" "\<forall>m\<in>set ms. \<forall>h. pk_classify K acx m h = 0"
  shows "\<exists>t. for_each (acl_packet E K acx b pid a ms) [0..<length ms] s = Some (Return (), t) \<and>
    size (held E t (ts ! (1 - pid))) + size (freed (hw t)) = size (held E s (ts ! (1 - pid))) + size (freed (hw s)) + length ms * length ms"
proof -
  have "\<exists>t. for_each (acl_packet E K acx b pid a ms) [0..<k] s = Some (Return (), t) \<and> fwd_ok E b i ps ts rs t \<and> tx_aid_ok a ts t \<and>
    size (held E t (ts ! (1 - pid))) + size (freed (hw t)) = size (held E s (ts ! (1 - pid))) + size (freed (hw s)) + k * length ms"
    if "k \<le> length ms" for k
    using that
  proof (induction k)
    case (Suc k)
    then obtain t where t: "for_each (acl_packet E K acx b pid a ms) [0..<k] s = Some (Return (), t)" "fwd_ok E b i ps ts rs t" "tx_aid_ok a ts t"
      "size (held E t (ts ! (1 - pid))) + size (freed (hw t)) = size (held E s (ts ! (1 - pid))) + size (freed (hw s)) + k * length ms" by auto
    have "\<forall>h. pk_classify K acx (ms ! k) h = 0" "k < length ms" using assms(5) Suc.prems by simp_all
    from acl_packet_ok [OF t(2,3) assms(3,4) this]
    obtain u where "acl_packet E K acx b pid a ms k t = Some (Return (), u)" "fwd_ok E b i ps ts rs u" "tx_aid_ok a ts u"
      "size (held E u (ts ! (1 - pid))) + size (freed (hw u)) = size (held E t (ts ! (1 - pid))) + size (freed (hw t)) + length ms" by blast
    then show ?case using t by (simp add: for_each_append ret_def)
  qed (use assms in \<open>simp add: ret_def\<close>)
  then show ?thesis by blast
qed

text \<open>The bulk filter splits a burst of up to 32 packets into those no rule matched and the others, both in order.\<close>

theorem packet_filter_bulk_splits:
  assumes "length ms \<le> 32"
  shows "packet_filter_bulk K acx ms h =
    (let pass = filter (\<lambda>m. packet_filter_pass K acx m h) ms in Some (length pass, pass, filter (\<lambda>m. \<not> packet_filter_pass K acx m h) ms))"
proof -
  have "filter_loop K acx h ms p e = (length p + length (filter (\<lambda>m. pk_classify K acx m h = 0) ms),
     p @ filter (\<lambda>m. pk_classify K acx m h = 0) ms, e @ filter (\<lambda>m. pk_classify K acx m h \<noteq> 0) ms)" for p e
    by (induction ms arbitrary: p e) auto
  then show ?thesis using assms by (simp add: packet_filter_bulk_def packet_filter_pass_def Let_def)
qed

text \<open>Undeploying a block before its threads have started does nothing: a thread that starts afterwards sets the flag
  and runs, and nobody joins it.\<close>

theorem undeploy_before_start:
  assumes "b \<noteq> NULL" "vblocks s b = Some B" "\<not> vb_running B" "length (vb_tids B) = length (vb_vcores B)"
    and "find_index (\<lambda>c. vc_lcore_id c = lcore) (vb_vcores B) = Some i"
  shows "\<exists>t. andthen (block_undeploy E b) (deploy_start b lcore) s = Some (Return i, t) \<and> vblocks t b = Some (B\<lparr>vb_running := True\<rparr>) \<and> thr t = thr s"
  using assms by (simp add: block_undeploy_def deploy_start_def get_vlcore_id_def the_block_def upd_block_def need_def deref_def bnd_def andthen_def modify_def ret_def)

text \<open>The names of the tables in use: \<open>rte_lpm_create\<close> refuses a name that is taken.\<close>

definition lpm_law :: "'h rule_api \<Rightarrow> ('h \<Rightarrow> string set) \<Rightarrow> bool" where
  "lpm_law A names \<longleftrightarrow> (\<forall>n k h p h'. lpm_create A n k h = (p, h') \<longrightarrow> (if n \<in> names h then p = NULL else p \<noteq> NULL \<longrightarrow> n \<in> names h') \<and> names h \<subseteq> names h') \<and>
     (\<forall>l ip dp y h x h'. lpm_add A l ip dp y h = (x, h') \<longrightarrow> names h \<subseteq> names h')"

lemma lpm_add_names:
  assumes "lpm_law A names"
  shows "lpm_add_routes A l rs h = Some h' \<Longrightarrow> names h \<subseteq> names h'"
proof (induction rs arbitrary: h)
  case (Cons r rs)
  obtain x g where g: "lpm_add A l (route_ip r) (route_depth r) (route_if_out r) h = (x, g)" by fastforce
  then have "names h \<subseteq> names g" using assms unfolding lpm_law_def by blast
  then show ?case using Cons.IH [of g] Cons.prems g by (auto split: if_splits)
qed simp

text \<open>A second \<open>l3fwd\<close> VNF ends the process: the names of its tables are taken.\<close>

theorem second_l3fwd_exits:
  assumes "lpm_law A names" "ssn_vnfalloc_l3fwd E A j1 j2 v b n s = Some (Return w, t)"
  shows "ssn_vnfalloc_l3fwd E A j1 j2 v' b' n' t = None"
proof -
  have first: "setup_lpm A k rs h = Some (p, h') \<Longrightarrow> ''IPV4_L3FWD_LPM_'' @ dec k \<in> names h'" for k rs h p h'
  proof -
    assume e: "setup_lpm A k rs h = Some (p, h')"
    obtain q g where q: "lpm_create A (''IPV4_L3FWD_LPM_'' @ dec k) k h = (q, g)" by fastforce
    then have "q \<noteq> NULL" "lpm_add_routes A q rs g = Some h'" using e by (auto simp: setup_lpm_def split: if_splits)
    moreover have "''IPV4_L3FWD_LPM_'' @ dec k \<in> names g" using assms(1) q \<open>q \<noteq> NULL\<close> unfolding lpm_law_def by metis
    ultimately show ?thesis using lpm_add_names [OF assms(1)] by blast
  qed
  have mono: "setup_lpm A k rs h = Some (p, h') \<Longrightarrow> names h \<subseteq> names h'" for k rs h p h'
  proof -
    assume e: "setup_lpm A k rs h = Some (p, h')"
    obtain q g where q: "lpm_create A (''IPV4_L3FWD_LPM_'' @ dec k) k h = (q, g)" by fastforce
    then have "lpm_add_routes A q rs g = Some h'" using e by (auto simp: setup_lpm_def split: if_splits)
    moreover have "names h \<subseteq> names g" using assms(1) q unfolding lpm_law_def by blast
    ultimately show ?thesis using lpm_add_names [OF assms(1)] by blast
  qed
  obtain p h p' h' where "setup_lpm A 0 (ipv4_routes (lpm_IPv4 A)) (hw s) = Some (p, h)" "setup_lpm A 1 (ipv4_routes (lpm_IPv4 A)) h = Some (p', h')" "hw t = h'"
    using assms(2) by (auto simp: ssn_vnfalloc_l3fwd_def add_blocks_def on_hw_def andthen_def bnd_def need_def modify_def ret_def split: option.splits)
  then have "''IPV4_L3FWD_LPM_'' @ dec 0 \<in> names (hw t)" using first mono by blast
  then have "setup_lpm A 0 (ipv4_routes (lpm_IPv4 A)) (hw t) = None"
    using assms(1) unfolding lpm_law_def setup_lpm_def Let_def by (auto split: prod.splits)
  then show ?thesis by (simp add: ssn_vnfalloc_l3fwd_def on_hw_def andthen_def bnd_def need_def)
qed

text \<open>Packets for the witnesses: only packet 2 is IPv4, and no rule matches any packet.\<close>

definition demo_pkt :: "mbuf list pkt_api" where
  "demo_pkt = \<lparr>pk_ipv4 = (\<lambda>m h. mb_id m = 2), pk_dst = (\<lambda>m h. 0xc0a81401), pk_set_macs = (\<lambda>x y m h. h), pk_IPv4 = demo_ip4,
     pk_classify = (\<lambda>acx m h. if mb_id m = 7 then 1 else 0)\<rparr>"

abbreviation pkt :: "nat \<Rightarrow> mbuf" where
  "pkt k \<equiv> \<lparr>mb_id = k, mb_len = 60, mb_port = 0\<rparr>"

lemma fwd_nfv_aid: "tx_aid_ok 0 [11, 13] (fwd_nfv ms)"
  by (auto simp: tx_aid_ok_def fwd_nfv_def fwd_ring_def less_2_cases_iff)

lemma fwd_nfv_held: "held fwd_env (fwd_nfv ms) 11 = {#}" "held fwd_env (fwd_nfv ms) 13 = {#}" "hw (fwd_nfv ms) = []"
  by (simp_all add: held_def contents_def fwd_nfv_def fwd_ring_def fwd_env_def list_ring_def)

theorem l3fwd_uses_freed_witness:
  "\<exists>t d. l3fwd_packet fwd_env demo_pkt 4 0 0 (pkt 1) (fwd_nfv []) = Some (Return (), t) \<and> held fwd_env t ([11, 13] ! d) + mset (hw t) = {#pkt 1, pkt 1#}"
proof -
  have "mac_law demo_pkt mset" "\<not> pk_ipv4 demo_pkt (pkt 1) (hw (fwd_nfv []))" by (simp_all add: mac_law_def demo_pkt_def)
  from l3fwd_uses_freed [OF fwd_nfv_ok this(1) _ fwd_nfv_aid this(2), of 0]
  obtain t d where "l3fwd_packet fwd_env demo_pkt 4 0 0 (pkt 1) (fwd_nfv []) = Some (Return (), t)" "d < 2"
    "held fwd_env t ([11, 13] ! d) + mset (hw t) = held fwd_env (fwd_nfv []) ([11, 13] ! d) + mset (hw (fwd_nfv [])) + {#pkt 1, pkt 1#}" by auto
  then show ?thesis using fwd_nfv_held [of "[]"] by - (rule exI [of _ t], rule exI [of _ d], auto simp: less_2_cases_iff)
qed

theorem acl_frees_again_witness:
  "\<exists>t. for_each (acl_packet fwd_env demo_pkt 9 4 0 0 [pkt 1, pkt 2]) [0..<2] (fwd_nfv []) = Some (Return (), t) \<and>
    size (held fwd_env t 13) + size (hw t) = 4"
proof -
  have pass: "\<forall>m\<in>set [pkt 1, pkt 2]. \<forall>h. pk_classify demo_pkt 9 m h = 0" by (simp add: demo_pkt_def)
  have l: "length [pkt 1, pkt 2] = 2" by simp
  show ?thesis
    using acl_frees_again [OF fwd_nfv_ok(1) fwd_nfv_aid _ fwd_nfv_ok(2) pass, of 0 "[]"] fwd_nfv_held [of "[]"] unfolding l by simp
qed

theorem packet_filter_bulk_splits_witness:
  "packet_filter_bulk demo_pkt 9 [pkt 7, pkt 1] [] = Some (1, [pkt 1], [pkt 7])"
  using packet_filter_bulk_splits [of "[pkt 7, pkt 1]" demo_pkt 9 "[]"] by (simp add: packet_filter_pass_def demo_pkt_def)

theorem undeploy_before_start_witness:
  "\<exists>t. andthen (block_undeploy fwd_env 4) (deploy_start 4 1) ((fwd_nfv [])\<lparr>vblocks := [4 \<mapsto> (new_vnf_block fwd_env 2 0 1 ''b'' L2fwd)\<lparr>vb_tids := [1],
      vb_vcores := [\<lparr>vc_lcore_id = 1, vc_rx_acc = [0, 0], vc_tx_acc = [0, 0]\<rparr>]\<rparr>]\<rparr>) = Some (Return 0, t) \<and> map_option vb_running (vblocks t 4) = Some True"
  using undeploy_before_start [of 4 "(fwd_nfv [])\<lparr>vblocks := [4 \<mapsto> (new_vnf_block fwd_env 2 0 1 ''b'' L2fwd)\<lparr>vb_tids := [1],
      vb_vcores := [\<lparr>vc_lcore_id = 1, vc_rx_acc = [0, 0], vc_tx_acc = [0, 0]\<rparr>]\<rparr>]\<rparr>" "(new_vnf_block fwd_env 2 0 1 ''b'' L2fwd)\<lparr>vb_tids := [1],
      vb_vcores := [\<lparr>vc_lcore_id = 1, vc_rx_acc = [0, 0], vc_tx_acc = [0, 0]\<rparr>]\<rparr>" 1 0 fwd_env]
  by (auto simp: new_vnf_block_def)

definition demo_rules :: "mbuf list rule_api" where
  "demo_rules = \<lparr>lpm_create = (\<lambda>n k h. if n = ''IPV4_L3FWD_LPM_'' @ dec k \<and> n \<notin> (\<lambda>m. ''IPV4_L3FWD_LPM_'' @ dec (mb_id m)) ` set h then (5 + k, pkt k # h) else (0, h)),
     lpm_add = (\<lambda>l ip dp y h. (0, h)), acl_create = (\<lambda>h. (6, h)), acl_reset_rules = (\<lambda>a h. h), acl_add_rules = (\<lambda>a rs h. (0, h)), acl_build = (\<lambda>a h. (True, h)),
     lpm_IPv4 = demo_ip4\<rparr>"

lemma demo_rules_law: "lpm_law demo_rules (\<lambda>h. (\<lambda>m. ''IPV4_L3FWD_LPM_'' @ dec (mb_id m)) ` set h)"
  by (auto simp: lpm_law_def demo_rules_def split: if_splits)

theorem second_l3fwd_exits_witness:
  "\<exists>t. ssn_vnfalloc_l3fwd fwd_env demo_rules 0 0 31 32 ''r'' (fwd_nfv []) = Some (Return 31, t) \<and> ssn_vnfalloc_l3fwd fwd_env demo_rules 0 0 33 34 ''q'' t = None"
proof -
  have d: "dec 0 \<noteq> dec 1" by code_simp
  have add: "lpm_add_routes demo_rules p rs h = Some h" for p rs h by (induction rs) (simp_all add: demo_rules_def)
  have c: "lpm_create demo_rules (''IPV4_L3FWD_LPM_'' @ dec 0) 0 [] = (5, [pkt 0])"
    "lpm_create demo_rules (''IPV4_L3FWD_LPM_'' @ dec 1) 1 [pkt 0] = (6, [pkt 1, pkt 0])"
    using d by (simp_all add: demo_rules_def)
  have "setup_lpm demo_rules 0 rs [] = Some (5, [pkt 0])" "setup_lpm demo_rules 1 rs [pkt 0] = Some (6, [pkt 1, pkt 0])" for rs
    unfolding setup_lpm_def c by (simp_all add: add)
  then obtain t where t: "ssn_vnfalloc_l3fwd fwd_env demo_rules 0 0 31 32 ''r'' (fwd_nfv []) = Some (Return 31, t)"
    by (simp add: ssn_vnfalloc_l3fwd_def on_hw_def add_blocks_def need_def bnd_def andthen_def modify_def ret_def fwd_nfv_held)
  from second_l3fwd_exits [OF demo_rules_law this] this show ?thesis by blast
qed

end
