(* ===== verification/Vnf_Deploy.thy ===== *)
theory Vnf_Deploy
  imports Vnf_Apps
begin

section \<open>Deploying a block and undeploying it again (nfvi/ssn_vnf_block.h over ssn_thread.cc)\<close>

text \<open>
  A block that is deployed launches one native thread for each lcore of its mask; each thread sets the
  state of its lcore and the flag of the block; undeploying clears the flag and joins the threads.
  \<open>eal_laws\<close> is what \<open>rte_eal_remote_launch\<close> promises of a waiting lcore, \<open>joins\<close> what
  \<open>rte_eal_wait_lcore\<close> promises when the function of the lcore returns, as the loops of the VNFs do
  once the flag is cleared.
\<close>

definition eal_laws :: "'e eal_launch \<Rightarrow> bool" where
  "eal_laws L \<longleftrightarrow> (\<forall>c e. el_state L c e = RTE_WAIT \<longrightarrow>
     (\<exists>e'. el_launch L c e = Some e' \<and> (\<forall>d. el_state L d e' = (if d = c then RTE_RUNNING else el_state L d e))))"

definition joins :: "'e eal_launch \<Rightarrow> nat \<Rightarrow> bool" where
  "joins L c \<longleftrightarrow> (\<forall>e. \<exists>e'. el_wait L c e = Some e' \<and> (\<forall>d. el_state L d e' = (if d = c then RTE_WAIT else el_state L d e)))"

definition idle_lcore :: "'e eal_launch \<Rightarrow> 'e ssn_sys \<Rightarrow> nat \<Rightarrow> bool" where
  "idle_lcore L t c \<longleftrightarrow> 0 < c \<and> c < el_count L \<and> c < 65536 \<and> c < length (lcores t) \<and> lcores t ! c = SSN_LS_WAIT \<and>
     el_state L c (eal_state t) = RTE_WAIT \<and> snt t c \<noteq> None \<and> (\<forall>i\<in>set (tids t). ti_lcore_id i \<noteq> of_nat c)"

subsection \<open>The threads of a list of lcores\<close>

definition native_id :: "nat \<Rightarrow> ssn_thread_id" where
  "native_id c = \<lparr>ti_lcore_id = of_nat c, ti_sub_id = 0\<rparr>"

lemma unat_widen: "unat (ucast (x :: u16) :: u32) = unat x"
proof -
  have "unat x < 2 ^ LENGTH(16)" by (rule unsigned_less)
  then show ?thesis by (simp add: unsigned_ucast_eq take_bit_nat_eq_self)
qed

lemma core_words:
  assumes "c < 65536"
  shows "unat (of_nat c :: u32) = c" "ucast (of_nat c :: u16) = (of_nat c :: u32)" "\<not> ssn_tid_is_green_thread (of_nat c)"
    "0 < c \<Longrightarrow> (of_nat c :: u32) \<noteq> 0"
proof -
  show u: "unat (of_nat c :: u32) = c" using assms by (simp add: unat_of_nat)
  show "ucast (of_nat c :: u16) = (of_nat c :: u32)" using assms by (simp only: word_unat_eq_iff unat_widen) (simp add: unat_of_nat)
  show "\<not> ssn_tid_is_green_thread (of_nat c)" using u assms by (simp add: green_tid_iff)
  show "0 < c \<Longrightarrow> (of_nat c :: u32) \<noteq> 0" using u by (metis unsigned_0 less_numeral_extra(3))
qed

text \<open>The threads of the lcores in \<open>cs\<close> are launched: what has changed since \<open>t\<close>.\<close>

definition launched :: "addr \<Rightarrow> addr \<Rightarrow> nat list \<Rightarrow> 'e \<Rightarrow> 'e ssn_sys \<Rightarrow> 'e ssn_sys" where
  "launched f arg cs e t = t\<lparr>tids := tids t @ map native_id cs, eal_state := e,
     snt := (\<lambda>d. if d \<in> set cs then Some \<lparr>nt_f = f, nt_arg = arg\<rparr> else snt t d)\<rparr>"

definition runs :: "'e eal_launch \<Rightarrow> nat list \<Rightarrow> 'e \<Rightarrow> 'e \<Rightarrow> bool" where
  "runs L cs e e' \<longleftrightarrow> (\<forall>d. el_state L d e' = (if d \<in> set cs then RTE_RUNNING else el_state L d e))"

lemma launch_one:
  assumes L: "eal_laws L" and c: "idle_lcore L t c" "c \<notin> set cs" and e: "runs L cs (eal_state t) e"
  shows "\<exists>e'. ssn_thread_launch L f arg c (launched f arg cs e t) = Some (Return (of_nat c), launched f arg (cs @ [c]) e' t) \<and>
    runs L (cs @ [c]) (eal_state t) e'"
proof -
  have "el_state L c e = RTE_WAIT" using c e by (simp add: runs_def idle_lcore_def)
  with L obtain e' where e': "el_launch L c e = Some e'" "\<And>d. el_state L d e' = (if d = c then RTE_RUNNING else el_state L d e)"
    unfolding eal_laws_def by blast
  have i: "0 < c" "c < length (lcores t)" "lcores t ! c = SSN_LS_WAIT" "c < el_count L" "\<exists>n. snt t c = Some n" using c by (auto simp: idle_lcore_def)
  have "(\<lambda>d. if d \<in> set cs then Some \<lparr>nt_f = f, nt_arg = arg\<rparr> else snt t d)(c \<mapsto> \<lparr>nt_f = f, nt_arg = arg\<rparr>) =
      (\<lambda>d. if d = c \<or> d \<in> set cs then Some \<lparr>nt_f = f, nt_arg = arg\<rparr> else snt t d)" by auto
  then have "ssn_thread_launch L f arg c (launched f arg cs e t) = Some (Return (of_nat c), launched f arg (cs @ [c]) e' t)"
    using i e'(1) c(2)
    by (auto simp: launched_def ssn_thread_launch_def ssn_lcoreid_is_green_thread_def ssn_get_lcore_state_def ssn_native_thread_launch_def
        bnd_def andthen_def need_def gets_def modify_def ret_def native_id_def)
  moreover have "runs L (cs @ [c]) (eal_state t) e'" using e e'(2) by (simp add: runs_def)
  ultimately show ?thesis by blast
qed

definition set_states :: "ssn_lcore_state \<Rightarrow> nat list \<Rightarrow> ssn_lcore_state list \<Rightarrow> ssn_lcore_state list" where
  "set_states st cs ls = fold (\<lambda>c ls. ls[c := st]) cs ls"

lemma set_states_simps [simp]: "set_states st [] ls = ls" "set_states st (c # cs) ls = set_states st cs (ls[c := st])"
  "length (set_states st cs ls) = length ls"
  by (simp_all add: set_states_def, induction cs arbitrary: ls) simp_all

lemma nth_set_states: "i < length ls \<Longrightarrow> set_states st cs ls ! i = (if i \<in> set cs then st else ls ! i)"
  by (induction cs arbitrary: ls) auto

lemma states_back:
  assumes "\<forall>c\<in>set cs. c < length ls \<and> ls ! c = SSN_LS_WAIT" "set ds \<subseteq> set cs"
  shows "set_states SSN_LS_WAIT cs (set_states st ds ls) = ls"
  using assms by (intro nth_equalityI) (auto simp: nth_set_states)

text \<open>Joining the first of the threads that are left, when \<open>old\<close> are the ids of other threads.\<close>

lemma join_one:
  assumes J: "joins L c" and c: "0 < c" "c < 65536" "c < length (lcores t)" and t: "tids t = old @ native_id c # rest"
    and old: "\<forall>i\<in>set old. ti_lcore_id i \<noteq> of_nat c"
  shows "\<exists>e'. ssn_thread_join L (of_nat c) t =
      Some (Return (), t\<lparr>tids := old @ rest, lcores := (lcores t)[c := SSN_LS_WAIT], eal_state := e'\<rparr>) \<and>
    (\<forall>d. el_state L d e' = (if d = c then RTE_WAIT else el_state L d (eal_state t)))"
proof -
  note w = core_words [OF c(2)]
  obtain e' where e': "el_wait L c (eal_state t) = Some e'" "\<forall>d. el_state L d e' = (if d = c then RTE_WAIT else el_state L d (eal_state t))"
    using J unfolding joins_def by blast
  have "ucast (ti_lcore_id i) \<noteq> (of_nat c :: u32)" if i: "i \<in> set old" for i
  proof
    assume "ucast (ti_lcore_id i) = (of_nat c :: u32)"
    then have "unat (ucast (ti_lcore_id i) :: u32) = c" by (simp only: w(1))
    then have "unat (ti_lcore_id i) = c" by (simp only: unat_widen)
    then have "unat (ti_lcore_id i) = unat (of_nat c :: u16)" using c(2) by (simp add: unat_of_nat)
    then have "ti_lcore_id i = of_nat c" by (simp only: word_unat_eq_iff)
    then show False using old i by blast
  qed
  then have "find_index (\<lambda>i. ucast (ti_lcore_id i) = (of_nat c :: u32)) old = None" by (simp add: find_index_None)
  then have f: "find_index (\<lambda>i. ucast (ti_lcore_id i) = (of_nat c :: u32)) (tids t) = Some (length old)"
    using w(2) by (simp add: t find_index_append native_id_def)
  have "erase_at (length old) (tids t) = old @ rest" by (simp add: t erase_at_def)
  then show ?thesis
    using w c e' f
    by (intro exI [of _ e']) (simp add: ssn_thread_join_def ssn_native_thread_join_def ssn_set_lcore_state_def ssn_get_lcore_state_def bnd_def andthen_def need_def gets_def modify_def ret_def)
qed

subsection \<open>The block\<close>

text \<open>A thread that starts: \<open>_fthread_launcher\<close> sets the state of its lcore and calls the function of the block.\<close>

definition thread_starts :: "addr \<Rightarrow> nat \<Rightarrow> ('h, 'e, 'w, 'r, unit) nop" where
  "thread_starts b c = bnd (on_threads (fthread_start c)) (\<lambda>_. bnd (deploy_start b c) (\<lambda>_. ret ()))"

text \<open>An idle block whose lcores are those of the mask, all waiting.\<close>

definition idle_block :: "('h, 'e, 'w, 'r) nenv \<Rightarrow> addr \<Rightarrow> nat list \<Rightarrow> ('h, 'e, 'w, 'r) nfv \<Rightarrow> bool" where
  "idle_block E b cs s \<longleftrightarrow> b \<noteq> NULL \<and> (\<forall>c\<in>set cs. idle_lcore (ne_launch E) (thr s) c) \<and>
     (\<exists>B. vblocks s b = Some B \<and> \<not> vb_running B \<and> map vc_lcore_id (vb_vcores B) = cs \<and> length (vb_tids B) = length cs)"

text \<open>The state after \<open>k\<close> launches.\<close>

definition launched_block :: "('h, 'e, 'w, 'r) nenv \<Rightarrow> addr \<Rightarrow> ssn_vnf_block \<Rightarrow> nat list \<Rightarrow> nat \<Rightarrow> 'e \<Rightarrow> ('h, 'e, 'w, 'r) nfv \<Rightarrow> ('h, 'e, 'w, 'r) nfv" where
  "launched_block E b B cs k e s = s\<lparr>thr := launched (ne_spawner E) b (take k cs) e (thr s),
     vblocks := (vblocks s)(b \<mapsto> B\<lparr>vb_tids := map of_nat (take k cs) @ drop k (vb_tids B)\<rparr>)\<rparr>"

lemma launch_vcore_ok:
  assumes L: "eal_laws (ne_launch E)" and B: "b \<noteq> NULL" "map vc_lcore_id (vb_vcores B) = cs" "length (vb_tids B) = length cs"
    and cs: "distinct cs" "\<forall>c\<in>set cs. idle_lcore (ne_launch E) (thr s) c" and k: "k < length cs"
    and e: "runs (ne_launch E) (take k cs) (eal_state (thr s)) e"
  shows "\<exists>e'. launch_vcore E b k (launched_block E b B cs k e s) = Some (Return None, launched_block E b B cs (Suc k) e' s) \<and>
    runs (ne_launch E) (take (Suc k) cs) (eal_state (thr s)) e'"
proof -
  have c: "idle_lcore (ne_launch E) (thr s) (cs ! k)" using cs(2) k by simp
  have n: "cs ! k \<notin> set (take k cs)" using cs(1) k by (auto simp: in_set_conv_nth nth_eq_iff_index_eq)
  have t: "take (Suc k) cs = take k cs @ [cs ! k]" using k by (simp add: take_Suc_conv_app_nth)
  obtain e' where e': "ssn_thread_launch (ne_launch E) (ne_spawner E) b (cs ! k) (launched (ne_spawner E) b (take k cs) e (thr s)) =
      Some (Return (of_nat (cs ! k)), launched (ne_spawner E) b (take (Suc k) cs) e' (thr s))"
    "runs (ne_launch E) (take (Suc k) cs) (eal_state (thr s)) e'"
    using launch_one [OF L c n e, of "ne_spawner E" b] unfolding t by blast
  have l: "length (vb_vcores B) = length cs" "vc_lcore_id (vb_vcores B ! k) = cs ! k" using B(2) k by (metis length_map, metis length_map nth_map)
  obtain x xs where d: "drop k (vb_tids B) = x # xs" "drop (Suc k) (vb_tids B) = xs" using B(3) k by (metis Cons_nth_drop_Suc)
  have "launch_vcore E b k (launched_block E b B cs k e s) = Some (Return None, launched_block E b B cs (Suc k) e' s)"
    using k l e'(1) d B
    by (simp add: launch_vcore_def launched_block_def vcore_at_def the_block_def upd_block_def at_vec_def on_threads_def focus_def
        catch_def bnd_def andthen_def need_def deref_def modify_def ret_def nth_opt_def t nth_append list_update_append min_def)
  then show ?thesis using e'(2) by blast
qed

lemma launch_vcores_ok:
  assumes L: "eal_laws (ne_launch E)" and B: "b \<noteq> NULL" "map vc_lcore_id (vb_vcores B) = cs" "length (vb_tids B) = length cs"
    and cs: "distinct cs" "\<forall>c\<in>set cs. idle_lcore (ne_launch E) (thr s) c"
  shows "k \<le> length cs \<Longrightarrow> runs (ne_launch E) (take k cs) (eal_state (thr s)) e \<Longrightarrow>
    \<exists>e'. scan (launch_vcore E b) [k..<length cs] (launched_block E b B cs k e s) = Some (Return None, launched_block E b B cs (length cs) e' s) \<and>
      runs (ne_launch E) cs (eal_state (thr s)) e'"
proof (induction "length cs - k" arbitrary: k e)
  case 0
  then show ?case by (auto simp: ret_def)
next
  case (Suc n)
  then have k: "k < length cs" by simp
  have n: "n = length cs - Suc k" using Suc.hyps(2) by simp
  have u: "[k..<length cs] = k # [Suc k..<length cs]" using k by (simp add: upt_conv_Cons)
  obtain e1 where e1: "launch_vcore E b k (launched_block E b B cs k e s) = Some (Return None, launched_block E b B cs (Suc k) e1 s)"
    "runs (ne_launch E) (take (Suc k) cs) (eal_state (thr s)) e1"
    using launch_vcore_ok [OF L B cs k Suc.prems(2)] by blast
  obtain e2 where "scan (launch_vcore E b) [Suc k..<length cs] (launched_block E b B cs (Suc k) e1 s) =
      Some (Return None, launched_block E b B cs (length cs) e2 s)" "runs (ne_launch E) cs (eal_state (thr s)) e2"
    using Suc.hyps(1) [OF n _ e1(2)] k by auto
  then show ?case using e1(1) unfolding u by (auto simp: bnd_def)
qed

lemma thread_starts_ok:
  assumes "b \<noteq> NULL"
  shows "vblocks x b = Some B \<Longrightarrow> \<forall>c\<in>set xs. c \<in> vc_lcore_id ` set (vb_vcores B) \<and> c < length (lcores (thr x)) \<and> snt (thr x) c \<noteq> None \<Longrightarrow>
    for_each (thread_starts b) xs x = Some (Return (), x\<lparr>thr := (thr x)\<lparr>lcores := set_states SSN_LS_RUNNING_NATIVE xs (lcores (thr x))\<rparr>,
      vblocks := (vblocks x)(b \<mapsto> B\<lparr>vb_running := vb_running B \<or> xs \<noteq> []\<rparr>)\<rparr>)"
proof (induction xs arbitrary: x B)
  case Nil
  then show ?case by (simp add: ret_def map_upd_triv)
next
  case (Cons c xs)
  let ?y = "x\<lparr>thr := (thr x)\<lparr>lcores := (lcores (thr x))[c := SSN_LS_RUNNING_NATIVE]\<rparr>, vblocks := (vblocks x)(b \<mapsto> B\<lparr>vb_running := True\<rparr>)\<rparr>"
  have c: "c \<in> vc_lcore_id ` set (vb_vcores B)" "c < length (lcores (thr x))" "snt (thr x) c \<noteq> None" using Cons.prems(2) by simp_all
  obtain i where i: "find_index (\<lambda>v. vc_lcore_id v = c) (vb_vcores B) = Some i"
    using c(1) by (cases "find_index (\<lambda>v. vc_lcore_id v = c) (vb_vcores B)") (auto simp: find_index_None)
  have s: "thread_starts b c x = Some (Return (), ?y)"
    using c(2,3) i assms Cons.prems(1)
    by (auto simp: thread_starts_def on_threads_def focus_def fthread_start_def ssn_set_lcore_state_def ssn_get_lcore_state_def deploy_start_def
        get_vlcore_id_def the_block_def upd_block_def bnd_def andthen_def need_def deref_def modify_def ret_def)
  have "for_each (thread_starts b) xs ?y = Some (Return (), ?y\<lparr>thr := (thr ?y)\<lparr>lcores := set_states SSN_LS_RUNNING_NATIVE xs (lcores (thr ?y))\<rparr>,
      vblocks := (vblocks ?y)(b \<mapsto> (B\<lparr>vb_running := True\<rparr>)\<lparr>vb_running := vb_running (B\<lparr>vb_running := True\<rparr>) \<or> xs \<noteq> []\<rparr>)\<rparr>)"
    by (rule Cons.IH) (use Cons.prems(2) in auto)
  then show ?case by (simp add: andthen_def bnd_def s del: fun_upd_apply)
qed

lemma join_vcores_ok:
  assumes J: "\<forall>c\<in>set cs. joins (ne_launch E) c" and cs: "\<forall>c\<in>set cs. 0 < c \<and> c < 65536 \<and> (\<forall>i\<in>set old. ti_lcore_id i \<noteq> of_nat c)" and b: "b \<noteq> NULL"
  shows "k \<le> length cs \<Longrightarrow> vblocks x b = Some B \<Longrightarrow> vb_tids B = map of_nat cs \<Longrightarrow> tids (thr x) = old @ map native_id (drop k cs) \<Longrightarrow>
    \<forall>c\<in>set cs. c < length (lcores (thr x)) \<Longrightarrow>
    \<exists>e'. scan (join_vcore E b) [k..<length cs] x = Some (Return None, x\<lparr>thr := (thr x)\<lparr>tids := old,
        lcores := set_states SSN_LS_WAIT (drop k cs) (lcores (thr x)), eal_state := e'\<rparr>\<rparr>) \<and>
      (\<forall>d. el_state (ne_launch E) d e' = (if d \<in> set (drop k cs) then RTE_WAIT else el_state (ne_launch E) d (eal_state (thr x))))"
proof (induction "length cs - k" arbitrary: k x)
  case 0
  then show ?case by (intro exI [of _ "eal_state (thr x)"]) (simp add: ret_def)
next
  case (Suc n)
  then have k: "k < length cs" by simp
  have n: "n = length cs - Suc k" using Suc.hyps(2) by simp
  have u: "[k..<length cs] = k # [Suc k..<length cs]" using k by (simp add: upt_conv_Cons)
  have d: "drop k cs = cs ! k # drop (Suc k) cs" using k by (simp add: Cons_nth_drop_Suc)
  have c: "cs ! k \<in> set cs" using k by simp
  have tid: "(of_nat (cs ! k) :: u32) \<noteq> 0" using cs c core_words(4) by blast
  obtain e1 where e1: "ssn_thread_join (ne_launch E) (of_nat (cs ! k)) (thr x) =
      Some (Return (), (thr x)\<lparr>tids := old @ map native_id (drop (Suc k) cs), lcores := (lcores (thr x))[cs ! k := SSN_LS_WAIT], eal_state := e1\<rparr>)"
    "\<forall>d. el_state (ne_launch E) d e1 = (if d = cs ! k then RTE_WAIT else el_state (ne_launch E) d (eal_state (thr x)))"
    using join_one [of "ne_launch E" "cs ! k" "thr x" old "map native_id (drop (Suc k) cs)"] J cs c Suc.prems(4,5) unfolding d by auto
  let ?y = "x\<lparr>thr := (thr x)\<lparr>tids := old @ map native_id (drop (Suc k) cs), lcores := (lcores (thr x))[cs ! k := SSN_LS_WAIT], eal_state := e1\<rparr>\<rparr>"
  have s: "join_vcore E b k x = Some (Return None, ?y)"
    using b k e1(1) tid Suc.prems(2,3)
    by (simp add: join_vcore_def the_block_def at_vec_def nth_opt_def on_threads_def focus_def bnd_def andthen_def need_def deref_def ret_def)
  obtain e2 where e2: "scan (join_vcore E b) [Suc k..<length cs] ?y = Some (Return None, ?y\<lparr>thr := (thr ?y)\<lparr>tids := old,
        lcores := set_states SSN_LS_WAIT (drop (Suc k) cs) (lcores (thr ?y)), eal_state := e2\<rparr>\<rparr>)"
    "\<forall>d. el_state (ne_launch E) d e2 = (if d \<in> set (drop (Suc k) cs) then RTE_WAIT else el_state (ne_launch E) d (eal_state (thr ?y)))"
    using Suc.hyps(1) [OF n, of ?y] k Suc.prems by auto
  have "scan (join_vcore E b) [k..<length cs] x = Some (Return None, x\<lparr>thr := (thr x)\<lparr>tids := old,
        lcores := set_states SSN_LS_WAIT (drop k cs) (lcores (thr x)), eal_state := e2\<rparr>\<rparr>)"
    using e2(1) s unfolding u d by (simp add: bnd_def)
  moreover have "\<forall>d. el_state (ne_launch E) d e2 = (if d \<in> set (drop k cs) then RTE_WAIT else el_state (ne_launch E) d (eal_state (thr x)))"
    using e1(2) e2(2) unfolding d by simp
  ultimately show ?case by blast
qed

subsection \<open>There and back\<close>

lemma mask_cores_distinct: "distinct (mask_cores m)"
  by (simp add: mask_cores_def)

lemma mask_cores_nonempty: "m \<noteq> 0 \<Longrightarrow> mask_cores m \<noteq> []"
proof
  assume m: "m \<noteq> 0" "mask_cores m = []"
  have "\<not> bit m n" if "n < LENGTH(32)" for n using m(2) that by (auto simp: mask_cores_def filter_empty_conv)
  then have "m = 0" by (intro bit_word_eqI) simp
  then show False using m(1) by simp
qed

text \<open>What \<open>block_set_coremask\<close> gives a block before the access requests.\<close>

lemma new_vcores_lcores: "map vc_lcore_id (map (\<lambda>c. new_vcore j c n) (mask_cores m)) = mask_cores m"
  by (simp add: new_vcore_def comp_def)

lemma deploy_threads:
  assumes L: "eal_laws (ne_launch E)" and i: "idle_block E b cs s" and cs: "distinct cs" "cs \<noteq> []"
  shows "\<exists>e B. block_deploy E b s = Some (Return 0, s\<lparr>thr := launched (ne_spawner E) b cs e (thr s), vblocks := (vblocks s)(b \<mapsto> B\<lparr>vb_tids := map of_nat cs\<rparr>)\<rparr>) \<and>
    runs (ne_launch E) cs (eal_state (thr s)) e \<and> vblocks s b = Some B \<and> \<not> vb_running B \<and> map vc_lcore_id (vb_vcores B) = cs"
proof -
  obtain B where B: "b \<noteq> NULL" "vblocks s b = Some B" "\<not> vb_running B" "map vc_lcore_id (vb_vcores B) = cs" "length (vb_tids B) = length cs"
    "\<forall>c\<in>set cs. idle_lcore (ne_launch E) (thr s) c" using i unfolding idle_block_def by blast
  have len: "length (vb_vcores B) = length cs" using B(4) by (metis length_map)
  have "launched_block E b B cs 0 (eal_state (thr s)) s = s" using B(2) by (simp add: launched_block_def launched_def map_upd_triv)
  moreover have "runs (ne_launch E) (take 0 cs) (eal_state (thr s)) (eal_state (thr s))" by (simp add: runs_def)
  ultimately obtain e where e: "scan (launch_vcore E b) [0..<length cs] s = Some (Return None, launched_block E b B cs (length cs) e s)"
    "runs (ne_launch E) cs (eal_state (thr s)) e"
    using launch_vcores_ok [OF L B(1,4,5) cs(1) B(6), of 0 "eal_state (thr s)"] by auto
  have "block_deploy E b s = Some (Return 0, launched_block E b B cs (length cs) e s)"
    using B(1,2) len cs(2) e(1) by (simp add: block_deploy_def n_vcores_def the_block_def bnd_def need_def deref_def ret_def)
  then show ?thesis using e(2) B by (auto simp: launched_block_def)
qed


text \<open>Lcores that the environment abstraction layer keeps as a map, three of them, and a block on two.\<close>

definition map_eal :: "(nat \<Rightarrow> rte_lcore_state) eal_launch" where
  "map_eal = \<lparr>el_launch = (\<lambda>c e. if e c = RTE_WAIT then Some (e(c := RTE_RUNNING)) else None), el_wait = (\<lambda>c e. Some (e(c := RTE_WAIT))),
     el_state = (\<lambda>c e. e c), el_count = 3, el_new = (\<lambda>_. 300), el_lenv = demo_env, el_spawner = 5, el_master = 6\<rparr>"

definition map_env :: "(mbuf list, nat \<Rightarrow> rte_lcore_state, unit, mbuf list) nenv" where
  "map_env = \<lparr>ne_eth = log_eth, ne_ring = list_ring 1, ne_ring_alloc = (\<lambda>_ w. (None, w)), ne_new_ring = [], ne_launch = map_eal,
     ne_dev_socket = id, ne_sockets = 1, ne_popcnt = (\<lambda>m. length (filter (bit m) [0..<32])), ne_free = (\<lambda>ms h. ms @ h), ne_junk = 99, ne_spawner = 7\<rparr>"

definition map_nfv :: "(mbuf list, nat \<Rightarrow> rte_lcore_state, unit, mbuf list) nfv" where
  "map_nfv = \<lparr>vports = Map.empty,
     vblocks = [4 \<mapsto> (new_vnf_block map_env 6 0 1 ''b'' L2fwd)\<lparr>vb_vcores := map (\<lambda>c. new_vcore 99 c 2) (mask_cores 6), vb_tids := [0, 0]\<rparr>],
     vnfs = Map.empty, panels = Map.empty, marings = Map.empty, rheap = \<lparr>rworld = (), rmem = Map.empty\<rparr>, mports = [], hw = [], stats = Map.empty,
     thr = \<lparr>lcores = [SSN_LS_WAIT, SSN_LS_WAIT, SSN_LS_WAIT], eal_state = (\<lambda>_. RTE_WAIT),
       snt = (\<lambda>i. if i < 3 then Some \<lparr>nt_f = 0, nt_arg = 0\<rparr> else None), tids = [], green_threads = [], subtid = 1, dummy_running = (\<lambda>_. False), lts = spawn_sys\<rparr>\<rparr>"

lemma mask_cores_6: "mask_cores 6 = [1, 2]"
  by code_simp


end
