(* ===== verification/Acl_Fields.thy ===== *)
theory Acl_Fields
  imports Vnf_Apps
begin

section \<open>The fields of the packet filter (nfvi/vnfs/acl.cc)\<close>

text \<open>
  The filter hands \<open>rte_acl\<close> a pointer to the TTL byte of the IPv4 header and a table of fields, whose
  offsets are those of a C structure laid over the packet. The structure is modelled by the sizes of
  its members, each aligned to its size, and the table by its entries.
\<close>

fun field_offset :: "string \<Rightarrow> nat \<Rightarrow> (string \<times> nat) list \<Rightarrow> nat option" where
  "field_offset f off [] = None"
| "field_offset f off ((n, sz) # fs) =
     (let start = ((off + sz - 1) div sz) * sz in if n = f then Some start else field_offset f (start + sz) fs)"

definition ipv4_5tuple :: "(string \<times> nat) list" where
  "ipv4_5tuple = [(''pad0'', 1), (''proto'', 1), (''pad1'', 1), (''pad2'', 1), (''ip_src'', 4), (''ip_dst'', 4), (''port_src'', 4), (''port_dst'', 4)]"

definition offsetof :: "string \<Rightarrow> nat" where
  "offsetof f = the (field_offset f 0 ipv4_5tuple)"

datatype acl_field_type = RTE_ACL_FIELD_TYPE_MASK | RTE_ACL_FIELD_TYPE_RANGE | RTE_ACL_FIELD_TYPE_BITMASK

record rte_acl_field_def =
  fd_type :: acl_field_type
  fd_size :: nat
  fd_field_index :: nat
  fd_input_index :: nat
  fd_offset :: nat

definition ipv4_defs :: "rte_acl_field_def list" where
  "ipv4_defs = [
     \<lparr>fd_type = RTE_ACL_FIELD_TYPE_BITMASK, fd_size = 1, fd_field_index = 0, fd_input_index = 0, fd_offset = offsetof ''proto''\<rparr>,
     \<lparr>fd_type = RTE_ACL_FIELD_TYPE_MASK, fd_size = 4, fd_field_index = 1, fd_input_index = 1, fd_offset = offsetof ''ip_src''\<rparr>,
     \<lparr>fd_type = RTE_ACL_FIELD_TYPE_MASK, fd_size = 4, fd_field_index = 2, fd_input_index = 2, fd_offset = offsetof ''ip_dst''\<rparr>,
     \<lparr>fd_type = RTE_ACL_FIELD_TYPE_RANGE, fd_size = 2, fd_field_index = 3, fd_input_index = 3, fd_offset = offsetof ''port_src''\<rparr>,
     \<lparr>fd_type = RTE_ACL_FIELD_TYPE_RANGE, fd_size = 2, fd_field_index = 4, fd_input_index = 3, fd_offset = offsetof ''port_dst''\<rparr>]"

lemma ipv4_offsets: "map fd_offset ipv4_defs = [1, 4, 8, 12, 16]"
  by code_simp

text \<open>What \<open>rte_acl\<close> reads of the frame \<open>bs\<close>: \<open>packet_filter_pass\<close> and \<open>packet_filter_bulk\<close> point it at byte 14 + 8.\<close>

definition filter_data :: "u8 list \<Rightarrow> u8 list" where
  "filter_data bs = drop (14 + 8) bs"

definition field_bytes :: "rte_acl_field_def \<Rightarrow> u8 list \<Rightarrow> u8 list" where
  "field_bytes fd bs = take (fd_size fd) (drop (fd_offset fd) bs)"

text \<open>A frame: Ethernet header, IPv4 header without options, and the transport header behind it.\<close>

definition udp_frame :: "u8 list \<Rightarrow> u8 list \<Rightarrow> u8 \<Rightarrow> u8 \<Rightarrow> u8 list \<Rightarrow> u8 list \<Rightarrow> u8 list \<Rightarrow> u8 list \<Rightarrow> u8 list \<Rightarrow> u8 list \<Rightarrow> u8 list" where
  "udp_frame eth ip ttl proto chk src dst sport dport rest = eth @ ip @ [ttl, proto] @ chk @ src @ dst @ sport @ dport @ rest"



text \<open>The comment asks fields that share an input index to lie within four consecutive bytes; the two ports do not.\<close>

definition within_word :: "rte_acl_field_def list \<Rightarrow> bool" where
  "within_word fds \<longleftrightarrow> (\<forall>f\<in>set fds. \<forall>g\<in>set fds. fd_input_index f = fd_input_index g \<longrightarrow> fd_offset g + fd_size g \<le> fd_offset f + 4)"

lemma ports_not_within_word: "\<not> within_word ipv4_defs"
  by code_simp

subsection \<open>Destruction\<close>

text \<open>The destructor of the VNF deletes the last block, then that of its member \<open>acl\<close> resets and frees the context;
  \<open>rs\<close> and \<open>fr\<close> are \<open>rte_acl_reset\<close> and \<open>rte_acl_free\<close>.\<close>

definition destroy_acl_5tuple :: "(addr \<Rightarrow> 'h \<Rightarrow> 'h) \<Rightarrow> (addr \<Rightarrow> 'h \<Rightarrow> 'h) \<Rightarrow> addr \<Rightarrow> 'h \<Rightarrow> 'h" where
  "destroy_acl_5tuple rs fr acx h = fr acx (rs acx h)"

definition destroy_vnf_acl :: "(addr \<Rightarrow> 'h \<Rightarrow> 'h) \<Rightarrow> (addr \<Rightarrow> 'h \<Rightarrow> 'h) \<Rightarrow> addr \<Rightarrow> addr \<Rightarrow> ('h, 'e, 'w, 'r, unit) nop" where
  "destroy_vnf_acl rs fr acx v = andthen (destroy_vnf_l2fwd v) (modify (\<lambda>s. s\<lparr>hw := destroy_acl_5tuple rs fr acx (hw s)\<rparr>))"

lemma destroy_vnf_acl_ok:
  assumes "vnfs s v = Some V" "v \<noteq> NULL" "vn_blocks V \<noteq> []"
  shows "\<exists>t. destroy_vnf_acl rs fr acx v s = Some (Return (), t) \<and> vnfs t v = None \<and> vblocks t (last (vn_blocks V)) = None \<and>
    hw t = fr acx (rs acx (hw s))"
  using assms
  by (simp add: destroy_vnf_acl_def destroy_vnf_l2fwd_def destroy_acl_5tuple_def the_vnf_def bnd_def andthen_def need_def deref_def modify_def)

end
