(* ===== verification/Lthread_Mpsc.thy ===== *)
theory Lthread_Mpsc
  imports Susanow_Prelude
begin

section \<open>Concurrent producers (lib/liblthread_dpdk/lthread_queue.h)\<close>

text \<open>
  Producers on other cores run \<open>_lthread_queue_insert_mp\<close> while the owner polls. The routine has two
  visible writes: the exchange of \<open>head\<close> and the link \<open>prev->next = n\<close>; between them the queue may
  look empty. Each write is a step here, a poll is one step of the single consumer (only it writes
  \<open>tail\<close>, and a \<open>next\<close> that is not NULL never changes while its node is queued). \<open>mq_sent\<close> and
  \<open>mq_got\<close> are ghost logs: the data in the order of the exchanges, and as delivered.
\<close>

record mqueue =
  mq_next :: "addr \<rightharpoonup> addr"
  mq_data :: "addr \<Rightarrow> addr"
  mq_head :: addr
  mq_tail :: addr
  mq_pend :: "nat \<rightharpoonup> addr \<times> addr"     \<comment> \<open>per producer: \<open>(prev, n)\<close> exchanged and not yet linked\<close>
  mq_sent :: "addr list"
  mq_got :: "addr list"

definition mq_init :: "addr \<Rightarrow> mqueue" where
  "mq_init stub = \<lparr>mq_next = [stub \<mapsto> NULL], mq_data = (\<lambda>_. NULL), mq_head = stub, mq_tail = stub,
     mq_pend = Map.empty, mq_sent = [], mq_got = []\<rparr>"

text \<open>\<open>n->data = data; n->next = NULL; prev = exchange (head, n)\<close>.\<close>

definition mq_exchange :: "nat \<Rightarrow> addr \<Rightarrow> addr \<Rightarrow> mqueue \<Rightarrow> mqueue" where
  "mq_exchange t n d s = s\<lparr>mq_next := (mq_next s)(n \<mapsto> NULL), mq_data := (mq_data s)(n := d),
     mq_head := n, mq_pend := (mq_pend s)(t \<mapsto> (mq_head s, n)), mq_sent := mq_sent s @ [d]\<rparr>"

text \<open>\<open>prev->next = n\<close>.\<close>

definition mq_link :: "nat \<Rightarrow> mqueue \<Rightarrow> mqueue" where
  "mq_link t s = (case mq_pend s t of None \<Rightarrow> s
     | Some (prev, n) \<Rightarrow> s\<lparr>mq_next := (mq_next s)(prev \<mapsto> n), mq_pend := (mq_pend s)(t := None)\<rparr>)"

text \<open>\<open>_lthread_queue_poll\<close>: the old dummy is freed, the node after it becomes the dummy.\<close>

definition mq_poll :: "mqueue \<Rightarrow> (addr \<times> mqueue) option" where
  "mq_poll s = do {
     nxt \<leftarrow> mq_next s (mq_tail s);
     if nxt \<noteq> NULL then do {
       let data = mq_data s nxt;
       Some (data, s\<lparr>mq_tail := nxt, mq_next := (mq_next s)(mq_tail s := None), mq_got := mq_got s @ [data]\<rparr>) }
     else Some (NULL, s) }"

inductive mq_step :: "mqueue \<Rightarrow> mqueue \<Rightarrow> bool" where
  exchange: "mq_pend s t = None \<Longrightarrow> n \<noteq> NULL \<Longrightarrow> n \<notin> dom (mq_next s) \<Longrightarrow> mq_step s (mq_exchange t n d s)"
| link: "mq_pend s t \<noteq> None \<Longrightarrow> mq_step s (mq_link t s)"
| poll: "mq_poll s = Some (d, s') \<Longrightarrow> mq_step s s'"

inductive_cases mq_stepE: "mq_step s s'"

inductive mq_reach :: "mqueue \<Rightarrow> bool" where
  init: "stub \<noteq> NULL \<Longrightarrow> mq_reach (mq_init stub)"
| step: "mq_reach s \<Longrightarrow> mq_step s s' \<Longrightarrow> mq_reach s'"

subsection \<open>The invariant\<close>

text \<open>Neighbours in a list.\<close>

definition adj :: "'a list \<Rightarrow> ('a \<times> 'a) set" where
  "adj xs = set (zip xs (tl xs))"

lemma adj_simps [simp]: "adj [] = {}" "adj [a] = {}" "adj (a # b # xs) = insert (a, b) (adj (b # xs))"
  by (auto simp: adj_def)

lemma adj_snoc: "xs \<noteq> [] \<Longrightarrow> adj (xs @ [n]) = insert (last xs, n) (adj xs)"
proof (induction xs)
  case (Cons a xs)
  then show ?case by (cases xs) auto
qed simp

lemma adj_in: "(a, b) \<in> adj xs \<Longrightarrow> a \<in> set xs \<and> b \<in> set (tl xs)"
  by (auto simp: adj_def dest: set_zip_leftD set_zip_rightD)

lemma adj_last: "distinct xs \<Longrightarrow> (last xs, b) \<notin> adj xs"
proof (induction xs)
  case (Cons a xs)
  then show ?case by (cases xs) (auto split: if_splits)
qed simp

lemma adj_unique: "distinct xs \<Longrightarrow> (a, b) \<in> adj xs \<Longrightarrow> (a, c) \<in> adj xs \<Longrightarrow> b = c"
proof (induction xs)
  case (Cons x xs)
  then show ?case by (cases xs) (auto dest: adj_in)
qed simp

text \<open>
  \<open>ns\<close> is the chain in exchange order, from \<open>tail\<close> to \<open>head\<close>. Between two neighbours the link is
  there, or its producer is still between its two writes; a producer between its writes has both
  its nodes in the chain.
\<close>

definition mq_inv :: "mqueue \<Rightarrow> addr list \<Rightarrow> bool" where
  "mq_inv s ns \<longleftrightarrow>
     ns \<noteq> [] \<and> hd ns = mq_tail s \<and> last ns = mq_head s \<and> distinct ns \<and> NULL \<notin> set ns \<and>
     set ns = dom (mq_next s) \<and> mq_next s (mq_head s) = Some NULL \<and>
     (\<forall>a b. (a, b) \<in> adj ns \<longrightarrow> mq_next s a = Some b \<or> mq_next s a = Some NULL \<and> (\<exists>t. mq_pend s t = Some (a, b))) \<and>
     (\<forall>t a b. mq_pend s t = Some (a, b) \<longrightarrow> (a, b) \<in> adj ns \<and> mq_next s a = Some NULL) \<and>
     (\<forall>t u a b c. mq_pend s t = Some (a, b) \<longrightarrow> mq_pend s u = Some (a, c) \<longrightarrow> t = u) \<and>
     mq_sent s = mq_got s @ map (mq_data s) (tl ns)"

lemma mq_invD:
  assumes "mq_inv s ns"
  shows "ns \<noteq> []" "hd ns = mq_tail s" "last ns = mq_head s" "distinct ns" "NULL \<notin> set ns"
    "set ns = dom (mq_next s)" "mq_next s (mq_head s) = Some NULL"
    "\<And>a b. (a, b) \<in> adj ns \<Longrightarrow> mq_next s a = Some b \<or> mq_next s a = Some NULL \<and> (\<exists>t. mq_pend s t = Some (a, b))"
    "\<And>t a b. mq_pend s t = Some (a, b) \<Longrightarrow> (a, b) \<in> adj ns \<and> mq_next s a = Some NULL"
    "\<And>t u a b c. mq_pend s t = Some (a, b) \<Longrightarrow> mq_pend s u = Some (a, c) \<Longrightarrow> t = u"
    "mq_sent s = mq_got s @ map (mq_data s) (tl ns)"
  using assms unfolding mq_inv_def by blast+

lemma mq_exchange_inv:
  assumes I: "mq_inv s ns" and t: "mq_pend s t = None" and n: "n \<noteq> NULL" "n \<notin> dom (mq_next s)"
  shows "mq_inv (mq_exchange t n d s) (ns @ [n])"
proof -
  note D = mq_invD [OF I]
  have nin: "n \<notin> set ns" using D(6) n by blast
  have hn: "mq_head s \<in> set ns" using D(1,3) last_in_set by metis
  have ne: "a \<noteq> n \<and> b \<noteq> n" if "(a, b) \<in> adj ns" for a b
    using adj_in [OF that] nin by (metis list.set_sel(2) list.sel(2))
  have nt: "n \<notin> set (tl ns)" using nin by (cases ns) auto
  show ?thesis
    unfolding mq_inv_def
  proof (intro conjI allI impI)
    fix a b assume "(a, b) \<in> adj (ns @ [n])"
    then consider "(a, b) \<in> adj ns" | "a = mq_head s" "b = n" using D(1,3) by (auto simp: adj_snoc)
    then show "mq_next (mq_exchange t n d s) a = Some b \<or> mq_next (mq_exchange t n d s) a = Some NULL \<and>
      (\<exists>u. mq_pend (mq_exchange t n d s) u = Some (a, b))"
    proof cases
      case 1
      have "mq_pend s u = Some (a, b) \<Longrightarrow> u \<noteq> t" for u using t by auto
      with D(8) [OF 1] ne [OF 1] show ?thesis unfolding mq_exchange_def by (auto 4 3)
    next
      case 2
      then show ?thesis using D(7) by (auto simp: mq_exchange_def)
    qed
  next
    fix u a b assume u: "mq_pend (mq_exchange t n d s) u = Some (a, b)"
    show "(a, b) \<in> adj (ns @ [n])"
      using u D(1,3,9) by (auto simp: mq_exchange_def adj_snoc split: if_splits)
    show "mq_next (mq_exchange t n d s) a = Some NULL"
      using u D(7,9) by (auto simp: mq_exchange_def split: if_splits)
  next
    fix u v a b c
    assume "mq_pend (mq_exchange t n d s) u = Some (a, b)" "mq_pend (mq_exchange t n d s) v = Some (a, c)"
    moreover have "mq_pend s w \<noteq> Some (mq_head s, y)" for w y
      using D(9) [of w "mq_head s" y] adj_last [OF D(4), unfolded D(3), of y] by blast
    ultimately show "u = v"
      using D(10) by (auto simp: mq_exchange_def split: if_splits)
  qed (use D n nin hn nt in \<open>auto simp: mq_exchange_def tl_append2\<close>)
qed

lemma mq_link_inv:
  assumes I: "mq_inv s ns" and t: "mq_pend s t = Some (a, b)"
  shows "mq_inv (mq_link t s) ns" "a \<in> dom (mq_next s)"
proof -
  note D = mq_invD [OF I]
  have ab: "(a, b) \<in> adj ns" "mq_next s a = Some NULL" using D(9) t by blast+
  then show adom: "a \<in> dom (mq_next s)" by blast
  have na: "a \<noteq> mq_head s" using ab adj_last [OF D(4)] D(3) by metis
  show "mq_inv (mq_link t s) ns"
    unfolding mq_inv_def
  proof (intro conjI allI impI)
    fix x y assume xy: "(x, y) \<in> adj ns"
    show "mq_next (mq_link t s) x = Some y \<or> mq_next (mq_link t s) x = Some NULL \<and>
      (\<exists>u. mq_pend (mq_link t s) u = Some (x, y))"
    proof (cases "x = a")
      case True
      then show ?thesis using adj_unique [OF D(4) ab(1)] xy t by (auto simp: mq_link_def)
    next
      case False
      then have "mq_pend s u = Some (x, y) \<Longrightarrow> u \<noteq> t" for u using t by auto
      with False show ?thesis using D(8) [OF xy] t unfolding mq_link_def by (auto 4 3)
    qed
  next
    fix u x y assume u: "mq_pend (mq_link t s) u = Some (x, y)"
    then have u': "mq_pend s u = Some (x, y)" "u \<noteq> t" using t by (auto simp: mq_link_def split: if_splits)
    then show "(x, y) \<in> adj ns" using D(9) by blast
    have "x \<noteq> a" using u' D(10) t by blast
    then show "mq_next (mq_link t s) x = Some NULL" using u' D(9) t by (auto simp: mq_link_def)
  next
    fix u v x y z
    assume "mq_pend (mq_link t s) u = Some (x, y)" "mq_pend (mq_link t s) v = Some (x, z)"
    then show "u = v" using D(10) t by (auto simp: mq_link_def split: if_splits)
  qed (use D t adom na in \<open>auto simp: mq_link_def\<close>)
qed

text \<open>A poll: it delivers the next datum, unless the first link is missing.\<close>

lemma mq_poll_inv:
  assumes I: "mq_inv s ns"
  shows "mq_next s (mq_tail s) = Some NULL \<Longrightarrow> mq_poll s = Some (NULL, s)"
    "mq_next s (mq_tail s) \<noteq> Some NULL \<Longrightarrow> \<exists>b xs s'. ns = mq_tail s # b # xs \<and> mq_poll s = Some (mq_data s b, s') \<and>
       mq_inv s' (b # xs) \<and> mq_got s' = mq_got s @ [mq_data s b] \<and> mq_sent s' = mq_sent s \<and> mq_pend s' = mq_pend s"
proof -
  note D = mq_invD [OF I]
  show "mq_poll s = Some (NULL, s)" if "mq_next s (mq_tail s) = Some NULL" using that by (simp add: mq_poll_def)
  assume nx: "mq_next s (mq_tail s) \<noteq> Some NULL"
  then obtain b xs where ns: "ns = mq_tail s # b # xs"
    using D(1,2,3,7) by (cases ns; cases "tl ns") auto
  have nb: "mq_next s (mq_tail s) = Some b" "b \<noteq> NULL" using D(8) [of "mq_tail s" b] D(5) nx ns by auto
  let ?s = "s\<lparr>mq_tail := b, mq_next := (mq_next s)(mq_tail s := None), mq_got := mq_got s @ [mq_data s b]\<rparr>"
  have p: "mq_poll s = Some (mq_data s b, ?s)" using nb by (simp add: mq_poll_def Let_def)
  have nt: "a \<noteq> mq_tail s" if "(a, c) \<in> adj (b # xs)" for a c using adj_in [OF that] D(4) ns by auto
  have pt: "a \<noteq> mq_tail s" if "mq_pend s u = Some (a, c)" for u a c using D(9) [OF that] nx by auto
  have hd: "mq_head s \<noteq> mq_tail s" using D(7) nx by metis
  have "mq_inv ?s (b # xs)"
    unfolding mq_inv_def
  proof (intro conjI allI impI)
    fix x y assume "(x, y) \<in> adj (b # xs)"
    then show "mq_next ?s x = Some y \<or> mq_next ?s x = Some NULL \<and> (\<exists>t. mq_pend ?s t = Some (x, y))"
      using D(8) [of x y] nt ns by auto
  next
    fix u x y assume u: "mq_pend ?s u = Some (x, y)"
    then show "(x, y) \<in> adj (b # xs)" using D(9) [of u x y] pt ns by auto
    show "mq_next ?s x = Some NULL" using u D(9) [of u x y] pt by auto
  next
    fix u v x y z
    assume "mq_pend ?s u = Some (x, y)" "mq_pend ?s v = Some (x, z)"
    then show "u = v" using D(10) by auto
  qed (use D ns hd in auto)
  with ns p show "\<exists>b xs s'. ns = mq_tail s # b # xs \<and> mq_poll s = Some (mq_data s b, s') \<and>
       mq_inv s' (b # xs) \<and> mq_got s' = mq_got s @ [mq_data s b] \<and> mq_sent s' = mq_sent s \<and> mq_pend s' = mq_pend s"
    by auto
qed

lemma mq_step_inv:
  assumes I: "mq_inv s ns" and S: "mq_step s s'"
  shows "\<exists>ns'. mq_inv s' ns'"
  using S
proof cases
  case (exchange t n d)
  then show ?thesis using mq_exchange_inv [OF I] by blast
next
  case (link t)
  then show ?thesis using mq_link_inv(1) [OF I] by auto
next
  case (poll d)
  then show ?thesis using mq_poll_inv [OF I] I by (cases "mq_next s (mq_tail s) = Some NULL") auto
qed

lemma mq_reach_inv: "mq_reach s \<Longrightarrow> \<exists>ns. mq_inv s ns"
proof (induction rule: mq_reach.induct)
  case (init stub)
  then show ?case by (intro exI [of _ "[stub]"]) (simp add: mq_inv_def mq_init_def)
next
  case (step s s')
  then show ?case using mq_step_inv by blast
qed

subsection \<open>What the consumer can rely on\<close>

text \<open>C2. Concurrent producers of \<open>_lthread_queue_insert_mp\<close> against the single consumer: in every
  reachable state the data delivered so far are a prefix of the data in the order of the
  exchanges, so nothing is lost, duplicated or reordered, whatever the interleaving of the two
  writes of the producers with the polls.\<close>

theorem mpsc_fifo:
  assumes "mq_reach s"
  shows "\<exists>rest. mq_sent s = mq_got s @ rest"
  using mq_reach_inv [OF assms] mq_invD(11) by blast

text \<open>The window between a producer's two writes is safe: the node it will link from is still
  queued (never freed by the consumer), and its next pointer is still NULL.\<close>

theorem mpsc_link_safe:
  assumes "mq_reach s" "mq_pend s t = Some (prev, n)"
  shows "mq_next s prev = Some NULL \<and> n \<in> dom (mq_next s)"
proof -
  obtain ns where I: "mq_inv s ns" using mq_reach_inv [OF assms(1)] by blast
  have "n \<in> set (tl ns)" "mq_next s prev = Some NULL"
    using mq_invD(9) [OF I assms(2)] adj_in by fast+
  then show ?thesis using mq_invD(1,6) [OF I] by (cases ns) auto
qed

text \<open>C3. Why \<open>_lthread_queue_remove\<close> retries: a poll of a queue whose \<open>tail\<close> is not its \<open>head\<close> comes
  back empty only while some producer is between its two writes at that very tail; with no such
  producer it delivers the oldest datum not yet delivered.\<close>

theorem mpsc_poll_progress:
  assumes "mq_reach s" "mq_tail s \<noteq> mq_head s"
  shows "(mq_poll s = Some (NULL, s) \<and> (\<exists>t n. mq_pend s t = Some (mq_tail s, n))) \<or>
    (\<exists>s'. mq_poll s = Some (mq_sent s ! length (mq_got s), s') \<and> mq_got s' = mq_got s @ [mq_sent s ! length (mq_got s)])"
proof -
  obtain ns where I: "mq_inv s ns" using mq_reach_inv [OF assms(1)] by blast
  note D = mq_invD [OF I]
  show ?thesis
  proof (cases "mq_next s (mq_tail s) = Some NULL")
    case True
    obtain b xs where ns: "ns = mq_tail s # b # xs"
      using D(1,2,3) assms(2) by (cases ns; cases "tl ns") auto
    then have "\<exists>t. mq_pend s t = Some (mq_tail s, b)" using D(8) [of "mq_tail s" b] D(5) True by auto
    with mq_poll_inv(1) [OF I True] show ?thesis by blast
  next
    case False
    then obtain b xs s' where "ns = mq_tail s # b # xs" "mq_poll s = Some (mq_data s b, s')"
      "mq_got s' = mq_got s @ [mq_data s b]"
      using mq_poll_inv(2) [OF I] by blast
    with D(11) show ?thesis by (auto simp: nth_append)
  qed
qed

text \<open>When no producer is between its writes, the polls deliver everything that was sent.\<close>

fun mq_polls :: "nat \<Rightarrow> mqueue \<Rightarrow> mqueue option" where
  "mq_polls 0 s = Some s"
| "mq_polls (Suc k) s = do { (d, s) \<leftarrow> mq_poll s; mq_polls k s }"

lemma mpsc_drain:
  assumes "mq_inv s ns" "mq_pend s = Map.empty"
  shows "\<exists>s'. mq_polls (length (tl ns)) s = Some s' \<and> mq_got s' = mq_sent s"
  using assms
proof (induction "length (tl ns)" arbitrary: s ns)
  case 0
  then have "tl ns = []" by (metis length_0_conv)
  then show ?case using mq_invD(11) [OF 0(2)] by simp
next
  case (Suc k)
  note D = mq_invD [OF Suc.prems(1)]
  obtain b xs where ns: "ns = mq_tail s # b # xs"
    using Suc.hyps(2) D(2) by (cases ns; cases "tl ns") auto
  then have "mq_next s (mq_tail s) \<noteq> Some NULL" using D(5) D(8) [of "mq_tail s" b] Suc.prems(2) by auto
  from mq_poll_inv(2) [OF Suc.prems(1) this] ns obtain s' where s': "mq_poll s = Some (mq_data s b, s')"
    "mq_inv s' (b # xs)" "mq_sent s' = mq_sent s" "mq_pend s' = mq_pend s" by auto
  then show ?case using Suc.hyps(1) [of "b # xs" s'] Suc.hyps(2) Suc.prems(2) ns by auto
qed

text \<open>Witnesses: one producer between its writes, and then done.\<close>

definition mq_demo :: mqueue where
  "mq_demo = mq_exchange 0 2 7 (mq_init 1)"

lemma mq_demo_reach: "mq_reach mq_demo"
  unfolding mq_demo_def
  by (rule mq_reach.step [OF mq_reach.init mq_step.exchange]) (simp_all add: mq_init_def)

theorem mpsc_fifo_witness: "\<exists>rest. mq_sent mq_demo = mq_got mq_demo @ rest"
  by (rule mpsc_fifo [OF mq_demo_reach])

theorem mpsc_link_safe_witness: "mq_next mq_demo 1 = Some NULL \<and> 2 \<in> dom (mq_next mq_demo)"
  by (rule mpsc_link_safe [OF mq_demo_reach, of 0]) (simp add: mq_demo_def mq_exchange_def mq_init_def)

theorem mpsc_poll_progress_witness:
  "(mq_poll mq_demo = Some (NULL, mq_demo) \<and> (\<exists>t n. mq_pend mq_demo t = Some (mq_tail mq_demo, n))) \<or>
    (\<exists>s'. mq_poll mq_demo = Some (mq_sent mq_demo ! length (mq_got mq_demo), s') \<and>
      mq_got s' = mq_got mq_demo @ [mq_sent mq_demo ! length (mq_got mq_demo)])"
  by (rule mpsc_poll_progress [OF mq_demo_reach]) (simp add: mq_demo_def mq_exchange_def mq_init_def)

end
