(* ===== verification/Lthread_Race.thy ===== *)
theory Lthread_Race
  imports Susanow_Prelude
begin

section \<open>A mutex between lcores (lib/liblthread_dpdk/lthread_mutex.c)\<close>

text \<open>
  Threads on different lcores run the routines of one mutex at the same time. Here every access to the
  shared words \<open>owner\<close>, \<open>count\<close> and \<open>blocked\<close> is a step, and the steps of the threads interleave in any
  order. A thread is identified by its address; \<open>mx_pc\<close> is where it stands. \<open>Lthread_Sync\<close> models the same
  routines with their data structures, one at a time. A thread that blocks has its context saved
  before the scheduler queues it, so queueing is a step of its own; the queue itself is a list here
  (\<open>Lthread_Mpsc\<close> and \<open>Lthread_Queue\<close> are about its insides).
\<close>

subsection \<open>The steps\<close>

datatype mx_pc = Outside
  | Lock_try | Lock_count | Lock_owner | Lock_suspend | Blocked | Taken | Woken
  | Holding | Unlock_test | Unlock_remove | Unlock_count addr | Unlock_ready addr | Unlock_release
  | Try_try | Try_undo

record mx_state =
  mx_own :: addr
  mx_cnt :: int
  mx_queue :: "addr list"
  mx_pc :: "addr \<Rightarrow> mx_pc"

definition goto :: "addr \<Rightarrow> mx_pc \<Rightarrow> mx_state \<Rightarrow> mx_state" where
  "goto t p s = s\<lparr>mx_pc := (mx_pc s)(t := p)\<rparr>"

definition mx_init :: mx_state where
  "mx_init = \<lparr>mx_own = NULL, mx_cnt = 0, mx_queue = [], mx_pc = (\<lambda>_. Outside)\<rparr>"

text \<open>Entering \<open>lock\<close>, and its loop again after being resumed: the count is raised first. The check against recursion
  reads \<open>owner\<close>, which is this thread only if this thread wrote it.\<close>

definition lock_enter :: "addr \<Rightarrow> mx_state \<Rightarrow> mx_state" where
  "lock_enter t s = goto t Lock_try (s\<lparr>mx_cnt := mx_cnt s + 1\<rparr>)"

definition lock_next :: "addr \<Rightarrow> mx_state \<Rightarrow> mx_state" where
  "lock_next t s = (case mx_pc s t of
     Lock_try \<Rightarrow> if mx_own s = NULL then goto t Holding (s\<lparr>mx_own := t\<rparr>) else goto t Lock_count s
   | Lock_count \<Rightarrow> goto t (if mx_cnt s = 1 then Lock_owner else Lock_suspend) s
   | Lock_owner \<Rightarrow> goto t (if mx_own s = NULL then Lock_try else Lock_suspend) s
   | Lock_suspend \<Rightarrow> goto t Blocked (s\<lparr>mx_queue := mx_queue s @ [t]\<rparr>)
   | Woken \<Rightarrow> lock_enter t s
   | _ \<Rightarrow> s)"

definition trylock_enter :: "addr \<Rightarrow> mx_state \<Rightarrow> mx_state" where
  "trylock_enter t s = goto t Try_try (s\<lparr>mx_cnt := mx_cnt s + 1\<rparr>)"

definition trylock_next :: "addr \<Rightarrow> mx_state \<Rightarrow> mx_state" where
  "trylock_next t s = (case mx_pc s t of
     Try_try \<Rightarrow> if mx_own s = NULL then goto t Holding (s\<lparr>mx_own := t\<rparr>) else goto t Try_undo s
   | Try_undo \<Rightarrow> goto t Outside (s\<lparr>mx_cnt := mx_cnt s - 1\<rparr>)
   | _ \<Rightarrow> s)"

text \<open>\<open>unlock\<close>: a thread that is removed from the queue is made ready after the count was lowered for it.\<close>

definition unlock_next :: "addr \<Rightarrow> mx_state \<Rightarrow> mx_state" where
  "unlock_next t s = (case mx_pc s t of
     Holding \<Rightarrow> goto t Unlock_test (s\<lparr>mx_cnt := mx_cnt s - 1\<rparr>)
   | Unlock_test \<Rightarrow> goto t (if 0 < mx_cnt s then Unlock_remove else Unlock_release) s
   | Unlock_remove \<Rightarrow> (case mx_queue s of [] \<Rightarrow> goto t Unlock_test s | x # xs \<Rightarrow> goto t (Unlock_count x) (s\<lparr>mx_queue := xs\<rparr>))
   | Unlock_count x \<Rightarrow> goto t (Unlock_ready x) (goto x Taken (s\<lparr>mx_cnt := mx_cnt s - 1\<rparr>))
   | Unlock_ready x \<Rightarrow> goto t Unlock_release (goto x Woken s)
   | Unlock_release \<Rightarrow> goto t Outside (s\<lparr>mx_own := NULL\<rparr>)
   | _ \<Rightarrow> s)"

inductive mx_step :: "mx_state \<Rightarrow> mx_state \<Rightarrow> bool" where
  lock: "t \<noteq> NULL \<Longrightarrow> mx_pc s t = Outside \<Longrightarrow> mx_step s (lock_enter t s)"
| trylock: "t \<noteq> NULL \<Longrightarrow> mx_pc s t = Outside \<Longrightarrow> mx_step s (trylock_enter t s)"
| lock_next: "mx_step s (lock_next t s)"
| trylock_next: "mx_step s (trylock_next t s)"
| unlock_next: "mx_step s (unlock_next t s)"

inductive mx_reach :: "mx_state \<Rightarrow> bool" where
  init: "mx_reach mx_init"
| step: "mx_reach s \<Longrightarrow> mx_step s s' \<Longrightarrow> mx_reach s'"

inductive_cases mx_stepE: "mx_step s s'"

subsection \<open>The invariant\<close>

fun holds :: "mx_pc \<Rightarrow> bool" where
  "holds Holding = True" | "holds Unlock_test = True" | "holds Unlock_remove = True" | "holds (Unlock_count x) = True"
| "holds (Unlock_ready x) = True" | "holds Unlock_release = True" | "holds _ = False"

fun counts :: "mx_pc \<Rightarrow> bool" where
  "counts Lock_try = True" | "counts Lock_count = True" | "counts Lock_owner = True" | "counts Lock_suspend = True" | "counts Blocked = True"
| "counts Holding = True" | "counts Try_try = True" | "counts Try_undo = True" | "counts _ = False"

definition counted :: "(addr \<Rightarrow> mx_pc) \<Rightarrow> addr set" where
  "counted f = {t. counts (f t)}"

definition mx_inv :: "mx_state \<Rightarrow> bool" where
  "mx_inv s \<longleftrightarrow> mx_pc s NULL = Outside \<and>
     (\<forall>t. holds (mx_pc s t) \<longleftrightarrow> mx_own s = t \<and> t \<noteq> NULL) \<and>
     finite (counted (mx_pc s)) \<and> mx_cnt s = int (card (counted (mx_pc s))) \<and>
     distinct (mx_queue s) \<and> (\<forall>t\<in>set (mx_queue s). mx_pc s t = Blocked) \<and>
     (\<forall>t x. mx_pc s t = Unlock_count x \<longrightarrow> mx_pc s x = Blocked \<and> x \<notin> set (mx_queue s)) \<and>
     (\<forall>t x. mx_pc s t = Unlock_ready x \<longrightarrow> mx_pc s x = Taken)"

lemma mx_invD:
  assumes "mx_inv s"
  shows "mx_pc s NULL = Outside" "holds (mx_pc s t) \<longleftrightarrow> mx_own s = t \<and> t \<noteq> NULL" "finite (counted (mx_pc s))"
    "mx_cnt s = int (card (counted (mx_pc s)))" "distinct (mx_queue s)" "t \<in> set (mx_queue s) \<Longrightarrow> mx_pc s t = Blocked"
    "mx_pc s t = Unlock_count x \<Longrightarrow> mx_pc s x = Blocked \<and> x \<notin> set (mx_queue s)" "mx_pc s t = Unlock_ready x \<Longrightarrow> mx_pc s x = Taken"
  using assms unfolding mx_inv_def by blast+

lemma counted_upd:
  assumes "finite (counted f)"
  shows "finite (counted (f(t := p)))"
    "int (card (counted (f(t := p)))) = int (card (counted f)) - (if counts (f t) then 1 else 0) + (if counts p then 1 else 0)"
proof -
  have m: "t \<in> counted f \<longleftrightarrow> counts (f t)" by (simp add: counted_def)
  have e: "counted (f(t := p)) = (if counts p then insert t (counted f - {t}) else counted f - {t})"
    by (auto simp: counted_def)
  show "finite (counted (f(t := p)))" using assms unfolding e by simp
  have "int (card (counted f - {t})) = int (card (counted f)) - (if counts (f t) then 1 else 0)"
    using assms m card_Suc_Diff1 [of "counted f" t] by (cases "counts (f t)") auto
  moreover have "card (insert t (counted f - {t})) = Suc (card (counted f - {t}))" using assms by (simp only: card_insert_disjoint finite_Diff Diff_iff insertI1 simp_thms)
  ultimately show "int (card (counted (f(t := p)))) = int (card (counted f)) - (if counts (f t) then 1 else 0) + (if counts p then 1 else 0)"
    unfolding e by simp
qed

text \<open>One thread goes on: what has to be checked of the words it writes.\<close>

lemma inv_goto:
  assumes I: "mx_inv s" and t: "t \<noteq> NULL" and o: "holds p \<longleftrightarrow> o' = t" "\<And>u. u \<noteq> t \<Longrightarrow> holds (mx_pc s u) \<longleftrightarrow> o' = u \<and> u \<noteq> NULL"
    and c: "c = mx_cnt s - (if counts (mx_pc s t) then 1 else 0) + (if counts p then 1 else 0)"
    and q: "distinct q" "\<And>u. u \<in> set q \<Longrightarrow> u \<noteq> t \<and> mx_pc s u = Blocked \<or> u = t \<and> p = Blocked"
    and r: "\<And>u x. ((mx_pc s)(t := p)) u = Unlock_count x \<Longrightarrow> ((mx_pc s)(t := p)) x = Blocked \<and> x \<notin> set q"
      "\<And>u x. ((mx_pc s)(t := p)) u = Unlock_ready x \<Longrightarrow> ((mx_pc s)(t := p)) x = Taken"
  shows "mx_inv (goto t p (s\<lparr>mx_own := o', mx_cnt := c, mx_queue := q\<rparr>))"
proof -
  define f where "f = (mx_pc s)(t := p)"
  define s' where "s' = goto t p (s\<lparr>mx_own := o', mx_cnt := c, mx_queue := q\<rparr>)"
  have e: "mx_pc s' = f" "mx_own s' = o'" "mx_cnt s' = c" "mx_queue s' = q" by (simp_all add: s'_def f_def goto_def)
  note n = counted_upd [OF mx_invD(3) [OF I], of t p, folded f_def]
  note r = r [folded f_def]
  have "f NULL = Outside" using mx_invD(1) [OF I] t by (simp add: f_def)
  moreover have "\<forall>u. holds (f u) \<longleftrightarrow> o' = u \<and> u \<noteq> NULL" using o t by (auto simp: f_def)
  moreover have "c = int (card (counted f))" using n(2) c mx_invD(4) [OF I] by simp
  moreover have "\<forall>u\<in>set q. f u = Blocked" using q(2) by (auto simp: f_def)
  ultimately have "mx_inv s'" unfolding mx_inv_def e using n(1) q(1) r by blast
  then show ?thesis by (simp only: s'_def)
qed

definition marks :: "mx_pc \<Rightarrow> bool" where
  "marks p \<longleftrightarrow> (\<exists>x. p = Unlock_count x \<or> p = Unlock_ready x)"

text \<open>A thread that nobody refers to moves on and refers to nobody.\<close>

lemma inv_move:
  assumes I: "mx_inv s" and t: "t \<noteq> NULL" "mx_pc s t \<notin> {Blocked, Taken}" "\<not> marks p"
    and o: "holds p \<longleftrightarrow> o' = t" "\<And>u. u \<noteq> t \<Longrightarrow> holds (mx_pc s u) \<longleftrightarrow> o' = u \<and> u \<noteq> NULL"
    and c: "c = mx_cnt s - (if counts (mx_pc s t) then 1 else 0) + (if counts p then 1 else 0)"
    and q: "q = mx_queue s \<or> p = Blocked \<and> q = mx_queue s @ [t]"
  shows "mx_inv (goto t p (s\<lparr>mx_own := o', mx_cnt := c, mx_queue := q\<rparr>))"
proof (rule inv_goto [OF I t(1) o c])
  have n: "t \<notin> set (mx_queue s)" using mx_invD(6) [OF I] t(2) by blast
  show "distinct q" using mx_invD(5) [OF I] q n by auto
  show "\<And>u. u \<in> set q \<Longrightarrow> u \<noteq> t \<and> mx_pc s u = Blocked \<or> u = t \<and> p = Blocked" using mx_invD(6) [OF I] q n by auto
  fix u x
  show "((mx_pc s)(t := p)) x = Blocked \<and> x \<notin> set q" if "((mx_pc s)(t := p)) u = Unlock_count x"
    using that mx_invD(7) [OF I, of u x] t q by (auto simp: marks_def split: if_splits)
  show "((mx_pc s)(t := p)) x = Taken" if "((mx_pc s)(t := p)) u = Unlock_ready x"
    using that mx_invD(8) [OF I, of u x] t by (auto simp: marks_def split: if_splits)
qed

lemma goto_same:
  "goto t p (s\<lparr>mx_own := mx_own s, mx_cnt := c, mx_queue := mx_queue s\<rparr>) = goto t p (s\<lparr>mx_cnt := c\<rparr>)"
  "goto t p (s\<lparr>mx_own := w, mx_cnt := mx_cnt s, mx_queue := mx_queue s\<rparr>) = goto t p (s\<lparr>mx_own := w\<rparr>)"
  "goto t p (s\<lparr>mx_own := mx_own s, mx_cnt := mx_cnt s, mx_queue := q\<rparr>) = goto t p (s\<lparr>mx_queue := q\<rparr>)"
  "goto t p (s\<lparr>mx_own := mx_own s, mx_cnt := mx_cnt s, mx_queue := mx_queue s\<rparr>) = goto t p s"
  by simp_all

lemma inv_plain:
  assumes I: "mx_inv s" and t: "t \<noteq> NULL" "mx_pc s t \<notin> {Blocked, Taken}" "\<not> marks p" "holds p = holds (mx_pc s t)"
    and c: "c = mx_cnt s - (if counts (mx_pc s t) then 1 else 0) + (if counts p then 1 else 0)"
  shows "mx_inv (goto t p (s\<lparr>mx_cnt := c\<rparr>))"
  using inv_move [OF I t(1-3), of "mx_own s" c "mx_queue s"] mx_invD(2) [OF I] t c unfolding goto_same by blast

lemma inv_still:
  assumes "mx_inv s" "t \<noteq> NULL" "mx_pc s t \<notin> {Blocked, Taken}" "\<not> marks p" "holds p = holds (mx_pc s t)" "counts p = counts (mx_pc s t)"
  shows "mx_inv (goto t p s)"
  using inv_plain [of s t p "mx_cnt s"] assms by (simp add: goto_def)

lemma inv_get:
  assumes "mx_inv s" "mx_own s = NULL" "mx_pc s t = Lock_try \<or> mx_pc s t = Try_try"
  shows "mx_inv (goto t Holding (s\<lparr>mx_own := t\<rparr>))"
proof -
  have t: "t \<noteq> NULL"
  proof
    assume "t = NULL"
    then show False using mx_invD(1) [OF assms(1)] assms(3) by simp
  qed
  have "\<not> holds (mx_pc s u)" for u using mx_invD(2) [OF assms(1)] assms(2) by auto
  then show ?thesis
    using inv_move [OF assms(1) t, of Holding t "mx_cnt s" "mx_queue s"] assms(3) unfolding goto_same by (auto simp: marks_def)
qed

lemma inv_lock_next:
  assumes I: "mx_inv s"
  shows "mx_inv (lock_next t s)"
proof (cases "t = NULL")
  case True
  then show ?thesis using I mx_invD(1) [OF I] by (simp add: lock_next_def)
next
  case t: False
  have h: "holds (mx_pc s u) \<longleftrightarrow> mx_own s = u \<and> u \<noteq> NULL" for u by (rule mx_invD(2) [OF I])
  have "mx_inv (goto t Blocked (s\<lparr>mx_queue := mx_queue s @ [t]\<rparr>))" if p: "mx_pc s t = Lock_suspend"
  proof -
    have "mx_own s \<noteq> t" using h [of t] p t by simp
    then have "mx_inv (goto t Blocked (s\<lparr>mx_own := mx_own s, mx_cnt := mx_cnt s, mx_queue := mx_queue s @ [t]\<rparr>))"
      by (intro inv_move [OF I t]) (simp_all add: p marks_def h)
    then show ?thesis by (simp only: goto_same)
  qed
  moreover have "mx_inv (goto t p s)" if "mx_pc s t \<in> {Lock_try, Lock_count, Lock_owner}" "p \<in> {Lock_try, Lock_count, Lock_owner, Lock_suspend}" for p
    by (rule inv_still [OF I t]) (use that in \<open>auto simp: marks_def\<close>)
  moreover have "mx_inv (lock_enter t s)" if "mx_pc s t = Woken"
    unfolding lock_enter_def by (rule inv_plain [OF I t]) (use that in \<open>auto simp: marks_def\<close>)
  ultimately show ?thesis
    using I inv_get [OF I, of t] by (cases "mx_pc s t") (simp_all add: lock_next_def)
qed

lemma inv_trylock_next:
  assumes I: "mx_inv s"
  shows "mx_inv (trylock_next t s)"
proof (cases "t = NULL")
  case True
  then show ?thesis using I mx_invD(1) [OF I] by (simp add: trylock_next_def)
next
  case t: False
  have "mx_inv (goto t Try_undo s)" if "mx_pc s t = Try_try"
    by (rule inv_still [OF I t]) (use that in \<open>auto simp: marks_def\<close>)
  moreover have "mx_inv (goto t Outside (s\<lparr>mx_cnt := mx_cnt s - 1\<rparr>))" if "mx_pc s t = Try_undo"
    by (rule inv_plain [OF I t]) (use that in \<open>auto simp: marks_def\<close>)
  ultimately show ?thesis
    using I inv_get [OF I, of t] by (cases "mx_pc s t") (simp_all add: trylock_next_def)
qed

lemma inv_enter:
  assumes "mx_inv s" "t \<noteq> NULL" "mx_pc s t = Outside"
  shows "mx_inv (lock_enter t s)" "mx_inv (trylock_enter t s)"
  using inv_plain [OF assms(1,2), of _ "mx_cnt s + 1"] assms(3) by (simp_all add: lock_enter_def trylock_enter_def marks_def)

lemma inv_release:
  assumes I: "mx_inv s" and p: "mx_pc s t = Unlock_release" and t: "t \<noteq> NULL"
  shows "mx_inv (goto t Outside (s\<lparr>mx_own := NULL\<rparr>))"
proof -
  have h: "holds (mx_pc s u) \<longleftrightarrow> mx_own s = u \<and> u \<noteq> NULL" for u by (rule mx_invD(2) [OF I])
  have "mx_own s = t" using h [of t] p by simp
  then have "mx_inv (goto t Outside (s\<lparr>mx_own := NULL, mx_cnt := mx_cnt s, mx_queue := mx_queue s\<rparr>))"
    using t by (intro inv_move [OF I t]) (auto simp: p marks_def h)
  then show ?thesis by (simp only: goto_same)
qed

lemma inv_remove:
  assumes I: "mx_inv s" and p: "mx_pc s t = Unlock_remove" and t: "t \<noteq> NULL" and q: "mx_queue s = x # xs"
  shows "mx_inv (goto t (Unlock_count x) (s\<lparr>mx_queue := xs\<rparr>))"
proof -
  have h: "holds (mx_pc s u) \<longleftrightarrow> mx_own s = u \<and> u \<noteq> NULL" for u by (rule mx_invD(2) [OF I])
  have o: "mx_own s = t" using h [of t] p by simp
  have b: "mx_pc s u = Blocked" if "u \<in> set (mx_queue s)" for u using mx_invD(6) [OF I that] .
  have x: "mx_pc s x = Blocked" "x \<noteq> t" using b [of x] p q by auto
  have only: "u = t" if "mx_pc s u = Unlock_count y \<or> mx_pc s u = Unlock_ready y" for u y using h [of u] that o by auto
  have nt: "t \<notin> set xs" using b [of t] p q by auto
  have "mx_inv (goto t (Unlock_count x) (s\<lparr>mx_own := mx_own s, mx_cnt := mx_cnt s, mx_queue := xs\<rparr>))"
  proof (rule inv_goto [OF I t])
    show "distinct xs" using mx_invD(5) [OF I] q by simp
    show "\<And>u. u \<in> set xs \<Longrightarrow> u \<noteq> t \<and> mx_pc s u = Blocked \<or> u = t \<and> Unlock_count x = Blocked" using b q nt by auto
    show "\<And>u y. ((mx_pc s)(t := Unlock_count x)) u = Unlock_count y \<Longrightarrow> ((mx_pc s)(t := Unlock_count x)) y = Blocked \<and> y \<notin> set xs"
      using x only mx_invD(5) [OF I] q by (auto split: if_splits)
    show "\<And>u y. ((mx_pc s)(t := Unlock_count x)) u = Unlock_ready y \<Longrightarrow> ((mx_pc s)(t := Unlock_count x)) y = Taken"
      using only by (auto split: if_splits)
  qed (use o h p in auto)
  then show ?thesis by (simp only: goto_same)
qed

text \<open>The two steps of an unlock that move the thread \<open>x\<close> as well.\<close>

lemma inv_two:
  assumes I: "mx_inv s" and p: "mx_pc s t = Unlock_count x \<and> a = Taken \<and> b = Unlock_ready x \<and> c = mx_cnt s - 1 \<or>
      mx_pc s t = Unlock_ready x \<and> a = Woken \<and> b = Unlock_release \<and> c = mx_cnt s" and t: "t \<noteq> NULL"
  shows "mx_inv (goto t b (goto x a (s\<lparr>mx_cnt := c\<rparr>)))"
proof -
  define f where "f = (mx_pc s)(x := a, t := b)"
  define s' where "s' = goto t b (goto x a (s\<lparr>mx_cnt := c\<rparr>))"
  have e: "mx_pc s' = f" "mx_own s' = mx_own s" "mx_cnt s' = c" "mx_queue s' = mx_queue s" by (simp_all add: s'_def f_def goto_def)
  have h: "holds (mx_pc s u) \<longleftrightarrow> mx_own s = u \<and> u \<noteq> NULL" for u by (rule mx_invD(2) [OF I])
  have o: "mx_own s = t" using h [of t] p by auto
  have x3: "mx_pc s x = Blocked \<and> x \<notin> set (mx_queue s)" if "mx_pc s t = Unlock_count x" by (rule mx_invD(7) [OF I that])
  have x4: "mx_pc s x = Taken" if "mx_pc s t = Unlock_ready x" by (rule mx_invD(8) [OF I that])
  have x: "mx_pc s x = Blocked \<or> mx_pc s x = Taken" "x \<notin> set (mx_queue s)"
    using p x3 x4 mx_invD(6) [OF I, of x] by auto
  have n: "x \<noteq> t" "x \<noteq> NULL"
  proof -
    show "x \<noteq> t" using x(1) p by auto
    show "x \<noteq> NULL"
    proof
      assume "x = NULL"
      then show False using x(1) mx_invD(1) [OF I] by simp
    qed
  qed
  have nt: "t \<notin> set (mx_queue s)" using p mx_invD(6) [OF I, of t] by auto
  have only: "u = t" if "mx_pc s u = Unlock_count y \<or> mx_pc s u = Unlock_ready y" for u y using h [of u] that o by auto
  note k1 = counted_upd [OF mx_invD(3) [OF I], of x a]
  note k2 = counted_upd [OF k1(1), of t b, folded f_def]
  have "f NULL = Outside" using mx_invD(1) [OF I] t n by (simp add: f_def)
  moreover have "holds (f u) \<longleftrightarrow> mx_own s = u \<and> u \<noteq> NULL" for u
  proof -
    consider "u = t" | "u = x" "u \<noteq> t" | "u \<noteq> t" "u \<noteq> x" by blast
    then show ?thesis
    proof cases
      case 1
      then show ?thesis using p o t by (auto simp: f_def)
    next
      case 2
      then show ?thesis using p o n by (auto simp: f_def)
    qed (simp add: f_def h)
  qed
  moreover have "c = int (card (counted f))" using k1(2) k2(2) p x3 x4 n mx_invD(4) [OF I] by auto
  moreover have "\<forall>u\<in>set (mx_queue s). f u = Blocked" using mx_invD(6) [OF I] x(2) nt by (auto simp: f_def)
  moreover have "\<forall>u y. f u = Unlock_count y \<longrightarrow> f y = Blocked \<and> y \<notin> set (mx_queue s)" using p only by (auto simp: f_def)
  moreover have "\<forall>u y. f u = Unlock_ready y \<longrightarrow> f y = Taken" using p only n by (auto simp: f_def)
  ultimately have "mx_inv s'" unfolding mx_inv_def e using k2(1) mx_invD(5) [OF I] by blast
  then show ?thesis by (simp only: s'_def)
qed

lemma inv_unlock_next:
  assumes I: "mx_inv s"
  shows "mx_inv (unlock_next t s)"
proof (cases "t = NULL")
  case True
  then show ?thesis using I mx_invD(1) [OF I] by (simp add: unlock_next_def)
next
  case t: False
  have "mx_inv (goto t Unlock_test (s\<lparr>mx_cnt := mx_cnt s - 1\<rparr>))" if "mx_pc s t = Holding"
    by (rule inv_plain [OF I t]) (use that in \<open>auto simp: marks_def\<close>)
  moreover have "mx_inv (goto t p s)" if "mx_pc s t \<in> {Unlock_test, Unlock_remove}" "p \<in> {Unlock_test, Unlock_remove, Unlock_release}" for p
    by (rule inv_still [OF I t]) (use that in \<open>auto simp: marks_def\<close>)
  moreover have "mx_inv (goto t (Unlock_ready x) (goto x Taken (s\<lparr>mx_cnt := mx_cnt s - 1\<rparr>)))" if "mx_pc s t = Unlock_count x" for x
    using inv_two [OF I _ t, of x Taken "Unlock_ready x"] that by blast
  moreover have "mx_inv (goto t Unlock_release (goto x Woken s))" if "mx_pc s t = Unlock_ready x" for x
    using inv_two [OF I _ t, of x Woken Unlock_release "mx_cnt s"] that by simp
  ultimately show ?thesis
    using I inv_release [OF I _ t] inv_remove [OF I _ t]
    by (cases "mx_pc s t") (simp_all add: unlock_next_def split: list.split)
qed

lemma mx_inv_reach: "mx_reach s \<Longrightarrow> mx_inv s"
proof (induction rule: mx_reach.induct)
  case init
  then show ?case by (auto simp: mx_inv_def mx_init_def counted_def)
next
  case (step s s')
  then show ?case by (auto elim!: mx_stepE intro: inv_enter inv_lock_next inv_trylock_next inv_unlock_next)
qed

subsection \<open>What the mutex guarantees, and what it does not\<close>

text \<open>C11. In every interleaving of \<open>lock\<close>, \<open>trylock\<close> and \<open>unlock\<close> at most one thread holds the mutex, and it is the one the
  word \<open>owner\<close> names; the count is never negative: it is the number of threads that hold it, wait for
  it or are trying to get it.\<close>

theorem mutex_exclusion:
  assumes "mx_reach s"
  shows "(\<forall>t u. mx_pc s t = Holding \<longrightarrow> mx_pc s u = Holding \<longrightarrow> t = u) \<and> (\<forall>t. mx_pc s t = Holding \<longrightarrow> mx_own s = t) \<and>
    finite (counted (mx_pc s)) \<and> mx_cnt s = int (card (counted (mx_pc s)))"
proof -
  note I = mx_inv_reach [OF assms]
  have "mx_own s = t" if "mx_pc s t = Holding" for t using mx_invD(2) [OF I, of t] that by simp
  then show ?thesis using mx_invD(3,4) [OF I] by metis
qed

text \<open>A run given by the threads that move: \<open>Inl t\<close> calls \<open>lock\<close>, \<open>Inr t\<close> goes on.\<close>

definition mx_go :: "addr \<Rightarrow> mx_state \<Rightarrow> mx_state" where
  "mx_go t s = (if holds (mx_pc s t) then unlock_next t s else lock_next t s)"

fun mx_run :: "(addr + addr) list \<Rightarrow> mx_state \<Rightarrow> mx_state option" where
  "mx_run [] s = Some s"
| "mx_run (Inl t # as) s = (if t \<noteq> NULL \<and> mx_pc s t = Outside then mx_run as (lock_enter t s) else None)"
| "mx_run (Inr t # as) s = mx_run as (mx_go t s)"

lemma mx_run_reach: "mx_reach s \<Longrightarrow> mx_run as s = Some s' \<Longrightarrow> mx_reach s'"
proof (induction as s rule: mx_run.induct)
  case (2 t as s)
  then show ?case by (auto split: if_splits intro: mx_reach.step mx_step.lock)
next
  case (3 t as s)
  have "mx_reach (mx_go t s)" unfolding mx_go_def using 3(2) by (auto intro: mx_reach.step mx_step.lock_next mx_step.unlock_next)
  then show ?case using 3 by simp
qed simp

text \<open>The holder lowers the count to 0 and finds nobody to wake; before it clears \<open>owner\<close> another thread enters, fails
  to get the mutex, reads that the count is 1 and that there is an owner, and goes to sleep.\<close>

definition late_sleeper :: "addr \<Rightarrow> addr \<Rightarrow> (addr + addr) list" where
  "late_sleeper t u = [Inl t, Inr t, Inr t, Inr t, Inl u, Inr u, Inr u, Inr u, Inr u, Inr t]"

lemma late_sleeper_run:
  assumes "t \<noteq> NULL" "u \<noteq> NULL" "t \<noteq> u"
  shows "\<exists>s. mx_run (late_sleeper t u) mx_init = Some s \<and> mx_own s = NULL \<and> mx_pc s = (\<lambda>_. Outside)(u := Blocked)"
  using assms
  by (auto simp: late_sleeper_def mx_init_def mx_go_def lock_enter_def lock_next_def unlock_next_def goto_def fun_eq_iff)

text \<open>C13. The mutex can lose a wake-up: there is a run after which nobody holds it and nobody is in any of its routines, but a
  thread sleeps in its queue, and no thread can take a step but by a new call.\<close>

theorem mutex_lost_wakeup:
  assumes "t \<noteq> NULL" "u \<noteq> NULL" "t \<noteq> u"
  shows "\<exists>s. mx_reach s \<and> mx_own s = NULL \<and> mx_pc s u = Blocked \<and> (\<forall>v. v \<noteq> u \<longrightarrow> mx_pc s v = Outside) \<and>
    (\<forall>v. lock_next v s = s \<and> trylock_next v s = s \<and> unlock_next v s = s)"
proof -
  obtain s where s: "mx_run (late_sleeper t u) mx_init = Some s" "mx_own s = NULL" "mx_pc s = (\<lambda>_. Outside)(u := Blocked)"
    using late_sleeper_run [OF assms] by blast
  then have "lock_next v s = s \<and> trylock_next v s = s \<and> unlock_next v s = s" for v
    by (simp add: lock_next_def trylock_next_def unlock_next_def)
  then show ?thesis using mx_run_reach [OF mx_reach.init s(1)] s(2,3) by (intro exI [of _ s]) simp
qed

theorem mutex_lost_wakeup_witness:
  "\<exists>s. mx_reach s \<and> mx_own s = NULL \<and> mx_pc s 200 = Blocked \<and> mx_pc s 100 = Outside"
  using mutex_lost_wakeup [of 100 200] by auto

text \<open>Without that window: two threads take turns, the second sleeps and is woken.\<close>

theorem mutex_exclusion_witness:
  "\<exists>s. mx_reach s \<and> mx_pc s 200 = Holding \<and> mx_own s = 200 \<and> mx_cnt s = int (card (counted (mx_pc s)))"
proof -
  let ?as = "[Inl 100, Inr 100, Inl 200, Inr 200, Inr 200, Inr 200, Inr 100, Inr 100, Inr 100, Inr 100, Inr 100, Inr 100, Inr 200, Inr 200] :: (addr + addr) list"
  obtain s where s: "mx_run ?as mx_init = Some s" "mx_pc s 200 = Holding"
    by (simp add: mx_init_def mx_go_def lock_enter_def lock_next_def unlock_next_def goto_def)
  have r: "mx_reach s" by (rule mx_run_reach [OF mx_reach.init s(1)])
  show ?thesis using mutex_exclusion [OF r] s(2) r by blast
qed

end
