(* ===== verification/Lthread_Handshake.thy ===== *)
theory Lthread_Handshake
  imports Lthread_System
begin

section \<open>Join and exit on two lcores (lib/liblthread_dpdk/lthread.c)\<close>

text \<open>
  \<open>lthread_join\<close> and \<open>lthread_exit\<close> of the joined thread race, as the comments in both say. Here each access
  to the shared words is a step of one of the two threads, and the steps interleave in any order:
  \<open>lt->join\<close>, the place the exit value is written to, and for each thread whether the other one has put it
  into a ready queue. A thread that is suspended goes on when it was made ready; this cannot be too
  early, as only the scheduler of its own lcore resumes it, after the context was saved. The exiting
  thread is not detached and one thread joins it; \<open>Lthread_Core\<close> has the two calls as a whole.
\<close>

datatype join_pc = J_enter | J_read | J_swap | J_asleep | J_wake | J_wait | J_collect | J_done
datatype exit_pc = E_enter | E_swap | E_asleep | E_set | E_publish | E_set_joined | E_publish_joined | E_wake | E_wait | E_reset | E_done

record handshake =
  hs_join :: join_st
  hs_slot :: addr
  hs_jpc :: join_pc
  hs_epc :: exit_pc
  hs_jready :: bool
  hs_eready :: bool

definition hs_init :: "addr \<Rightarrow> handshake" where
  "hs_init x = \<lparr>hs_join = LT_JOIN_INITIAL, hs_slot = x, hs_jpc = J_enter, hs_epc = E_enter, hs_jready = False, hs_eready = False\<rparr>"

text \<open>The joining thread. It enters the call with a check and two writes that only matter once \<open>join\<close> has changed.\<close>

definition join_step :: "handshake \<Rightarrow> handshake" where
  "join_step s = (case hs_jpc s of
     J_enter \<Rightarrow> s\<lparr>hs_jpc := if hs_join s = LT_JOIN_THREAD_SET then J_done else J_read\<rparr>
   | J_read \<Rightarrow> s\<lparr>hs_jpc := if hs_join s = LT_JOIN_INITIAL then J_swap else J_wake\<rparr>
   | J_swap \<Rightarrow> if hs_join s = LT_JOIN_INITIAL then s\<lparr>hs_join := LT_JOIN_THREAD_SET, hs_jpc := J_asleep\<rparr> else s\<lparr>hs_jpc := J_wake\<rparr>
   | J_asleep \<Rightarrow> if hs_jready s then s\<lparr>hs_jready := False, hs_jpc := J_wait\<rparr> else s
   | J_wake \<Rightarrow> s\<lparr>hs_eready := True, hs_jpc := J_wait\<rparr>
   | J_wait \<Rightarrow> if hs_join s = LT_JOIN_EXIT_VAL_SET then s\<lparr>hs_jpc := J_collect\<rparr> else s
   | J_collect \<Rightarrow> s\<lparr>hs_join := LT_JOIN_EXIT_VAL_READ, hs_jpc := J_done\<rparr>
   | J_done \<Rightarrow> s)"

text \<open>The exiting thread with the value \<open>v\<close>; \<open>ptr\<close> is the pointer the joining thread gave.\<close>

definition put_value :: "addr \<Rightarrow> addr \<Rightarrow> handshake \<Rightarrow> handshake" where
  "put_value ptr v s = (if v \<noteq> NULL \<and> ptr \<noteq> NULL then s\<lparr>hs_slot := v\<rparr> else s)"

definition exit_step :: "addr \<Rightarrow> addr \<Rightarrow> handshake \<Rightarrow> handshake" where
  "exit_step ptr v s = (case hs_epc s of
     E_enter \<Rightarrow> s\<lparr>hs_epc := if hs_join s = LT_JOIN_INITIAL then E_swap else E_set_joined\<rparr>
   | E_swap \<Rightarrow> if hs_join s = LT_JOIN_INITIAL then s\<lparr>hs_join := LT_JOIN_EXITING, hs_epc := E_asleep\<rparr> else s\<lparr>hs_epc := E_set_joined\<rparr>
   | E_asleep \<Rightarrow> if hs_eready s then s\<lparr>hs_eready := False, hs_epc := E_set\<rparr> else s
   | E_set \<Rightarrow> (put_value ptr v s)\<lparr>hs_epc := E_publish\<rparr>
   | E_publish \<Rightarrow> s\<lparr>hs_join := LT_JOIN_EXIT_VAL_SET, hs_epc := E_wait\<rparr>
   | E_set_joined \<Rightarrow> (put_value ptr v s)\<lparr>hs_epc := E_publish_joined\<rparr>
   | E_publish_joined \<Rightarrow> s\<lparr>hs_join := LT_JOIN_EXIT_VAL_SET, hs_epc := E_wake\<rparr>
   | E_wake \<Rightarrow> s\<lparr>hs_jready := True, hs_epc := E_wait\<rparr>
   | E_wait \<Rightarrow> if hs_join s = LT_JOIN_EXIT_VAL_READ then s\<lparr>hs_epc := E_reset\<rparr> else s
   | E_reset \<Rightarrow> s\<lparr>hs_join := LT_JOIN_INITIAL, hs_epc := E_done\<rparr>
   | E_done \<Rightarrow> s)"

text \<open>A schedule says who moves: True for the joining thread.\<close>

fun hs_run :: "addr \<Rightarrow> addr \<Rightarrow> bool list \<Rightarrow> handshake \<Rightarrow> handshake" where
  "hs_run ptr v [] s = s"
| "hs_run ptr v (b # bs) s = hs_run ptr v bs (if b then join_step s else exit_step ptr v s)"

subsection \<open>The invariant\<close>

text \<open>What is possible with each value of \<open>join\<close>.\<close>

definition hs_phase :: "handshake \<Rightarrow> bool" where
  "hs_phase s = (case hs_join s of
     LT_JOIN_INITIAL \<Rightarrow> hs_jpc s \<in> {J_enter, J_read, J_swap} \<and> hs_epc s \<in> {E_enter, E_swap} \<and> \<not> hs_jready s \<and> \<not> hs_eready s \<or>
       hs_jpc s = J_done \<and> hs_epc s = E_done \<and> \<not> hs_jready s \<and> \<not> hs_eready s
   | LT_JOIN_THREAD_SET \<Rightarrow> hs_jpc s = J_asleep \<and> hs_epc s \<in> {E_enter, E_swap, E_set_joined, E_publish_joined} \<and> \<not> hs_jready s \<and> \<not> hs_eready s
   | LT_JOIN_EXITING \<Rightarrow> \<not> hs_jready s \<and>
       (hs_epc s = E_asleep \<and> (if hs_eready s then hs_jpc s = J_wait else hs_jpc s \<in> {J_enter, J_read, J_swap, J_wake}) \<or>
        hs_epc s \<in> {E_set, E_publish} \<and> hs_jpc s = J_wait \<and> \<not> hs_eready s)
   | LT_JOIN_EXIT_VAL_SET \<Rightarrow> \<not> hs_eready s \<and>
       (hs_epc s = E_wake \<and> hs_jpc s = J_asleep \<and> \<not> hs_jready s \<or>
        hs_epc s = E_wait \<and> (if hs_jready s then hs_jpc s = J_asleep else hs_jpc s \<in> {J_wait, J_collect}))
   | LT_JOIN_EXIT_VAL_READ \<Rightarrow> hs_jpc s = J_done \<and> hs_epc s \<in> {E_wait, E_reset} \<and> \<not> hs_jready s \<and> \<not> hs_eready s)"

definition exit_value :: "addr \<Rightarrow> addr \<Rightarrow> addr \<Rightarrow> addr" where
  "exit_value ptr v x = (if v \<noteq> NULL \<and> ptr \<noteq> NULL then v else x)"

definition hs_inv :: "addr \<Rightarrow> addr \<Rightarrow> addr \<Rightarrow> handshake \<Rightarrow> bool" where
  "hs_inv ptr v x s \<longleftrightarrow> hs_phase s \<and>
     hs_slot s = (if hs_epc s \<in> {E_enter, E_swap, E_asleep, E_set, E_set_joined} then x else exit_value ptr v x)"

lemma hs_inv_join: "hs_inv ptr v x s \<Longrightarrow> hs_inv ptr v x (join_step s)"
  by (cases "hs_join s"; cases "hs_jpc s") (auto simp: hs_inv_def hs_phase_def join_step_def split: if_splits)

lemma hs_inv_exit: "hs_inv ptr v x s \<Longrightarrow> hs_inv ptr v x (exit_step ptr v s)"
  by (cases "hs_join s"; cases "hs_epc s") (auto simp: hs_inv_def hs_phase_def exit_step_def put_value_def exit_value_def split: if_splits)

lemma hs_inv_run: "hs_inv ptr v x s \<Longrightarrow> hs_inv ptr v x (hs_run ptr v bs s)"
  by (induction bs arbitrary: s) (simp_all add: hs_inv_join hs_inv_exit)

lemma hs_inv_init: "hs_inv ptr v x (hs_init x)"
  by (simp add: hs_inv_def hs_phase_def hs_init_def)

subsection \<open>Progress\<close>

text \<open>What each thread has still to do.\<close>

definition join_rank :: "join_pc \<Rightarrow> nat" where
  "join_rank p = (case p of J_enter \<Rightarrow> 6 | J_read \<Rightarrow> 5 | J_swap \<Rightarrow> 4 | J_asleep \<Rightarrow> 3 | J_wake \<Rightarrow> 3 | J_wait \<Rightarrow> 2 | J_collect \<Rightarrow> 1 | J_done \<Rightarrow> 0)"

definition exit_rank :: "exit_pc \<Rightarrow> nat" where
  "exit_rank p = (case p of E_enter \<Rightarrow> 8 | E_swap \<Rightarrow> 7 | E_asleep \<Rightarrow> 6 | E_set_joined \<Rightarrow> 5 | E_set \<Rightarrow> 5 | E_publish_joined \<Rightarrow> 4 | E_publish \<Rightarrow> 4
     | E_wake \<Rightarrow> 3 | E_wait \<Rightarrow> 2 | E_reset \<Rightarrow> 1 | E_done \<Rightarrow> 0)"

definition hs_rank :: "handshake \<Rightarrow> nat" where
  "hs_rank s = join_rank (hs_jpc s) + exit_rank (hs_epc s)"

lemma ranks_fall: "join_step s = s \<or> hs_rank (join_step s) < hs_rank s" "exit_step ptr v s = s \<or> hs_rank (exit_step ptr v s) < hs_rank s"
  by (cases "hs_jpc s"; simp add: join_step_def hs_rank_def join_rank_def)
    (cases "hs_epc s"; simp add: exit_step_def hs_rank_def exit_rank_def put_value_def)

text \<open>Where a thread can stand still.\<close>

lemma join_stuck:
  "join_step s = s \<Longrightarrow> hs_jpc s = J_done \<or> hs_jpc s = J_asleep \<and> \<not> hs_jready s \<or> hs_jpc s = J_wait \<and> hs_join s \<noteq> LT_JOIN_EXIT_VAL_SET"
  using ranks_fall(1) [of s]
  by (cases "hs_jpc s") (auto simp: join_step_def dest: arg_cong [where f = hs_jpc] split: if_splits)

lemma exit_stuck:
  "exit_step ptr v s = s \<Longrightarrow> hs_epc s = E_done \<or> hs_epc s = E_asleep \<and> \<not> hs_eready s \<or> hs_epc s = E_wait \<and> hs_join s \<noteq> LT_JOIN_EXIT_VAL_READ"
  by (cases "hs_epc s") (auto simp: exit_step_def dest: arg_cong [where f = hs_epc] split: if_splits)

lemma no_deadlock:
  assumes "hs_inv ptr v x s" "join_step s = s" "exit_step ptr v s = s"
  shows "hs_jpc s = J_done \<and> hs_epc s = E_done"
proof -
  have "hs_phase s" using assms(1) by (simp add: hs_inv_def)
  then show ?thesis using join_stuck [OF assms(2)] exit_stuck [OF assms(3)]
    by (cases "hs_join s") (auto simp: hs_phase_def split: if_splits)
qed

lemma rank_run: "hs_rank (hs_run ptr v bs s) \<le> hs_rank s"
proof (induction bs arbitrary: s)
  case (Cons b bs)
  have "hs_rank (if b then join_step s else exit_step ptr v s) \<le> hs_rank s" using ranks_fall(1) [of s] ranks_fall(2) [where s = s and ptr = ptr and v = v] by auto
  then show ?case using Cons.IH [of "if b then join_step s else exit_step ptr v s"] by simp
qed simp

lemma hs_run_append: "hs_run ptr v (as @ bs) s = hs_run ptr v bs (hs_run ptr v as s)"
  by (induction as arbitrary: s) simp_all

lemma rank_still:
  "hs_rank (hs_run ptr v bs s) = hs_rank s \<Longrightarrow> b \<in> set bs \<Longrightarrow> (if b then join_step s else exit_step ptr v s) = s"
proof (induction bs arbitrary: s)
  case (Cons c bs)
  let ?t = "if c then join_step s else exit_step ptr v s"
  have "hs_rank (hs_run ptr v bs ?t) \<le> hs_rank ?t" by (rule rank_run)
  moreover have "?t = s \<or> hs_rank ?t < hs_rank s" using ranks_fall(1) [of s] ranks_fall(2) [where s = s and ptr = ptr and v = v] by simp
  ultimately have s: "?t = s" using Cons.prems(1) by auto
  show ?case
  proof (cases "b = c")
    case False
    then have "b \<in> set bs" using Cons.prems(2) by simp
    then show ?thesis using Cons.IH [of s] Cons.prems(1) s by simp
  qed (use s in simp)
qed simp

definition both_done :: "handshake \<Rightarrow> bool" where
  "both_done s \<longleftrightarrow> hs_jpc s = J_done \<and> hs_epc s = E_done"

text \<open>A round in which both threads move brings the two nearer to the end.\<close>

lemma round_falls:
  assumes "hs_inv ptr v x s" "True \<in> set r" "False \<in> set r" "\<not> both_done s"
  shows "hs_rank (hs_run ptr v r s) < hs_rank s"
proof (rule ccontr)
  assume "\<not> hs_rank (hs_run ptr v r s) < hs_rank s"
  then have e: "hs_rank (hs_run ptr v r s) = hs_rank s" using rank_run [of ptr v r s] by simp
  have "join_step s = s" "exit_step ptr v s = s" using rank_still [OF e assms(2)] rank_still [OF e assms(3)] by simp_all
  then show False using no_deadlock [OF assms(1)] assms(4) by (simp add: both_done_def)
qed

lemma rounds_end:
  "hs_inv ptr v x s \<Longrightarrow> \<forall>r\<in>set rs. True \<in> set r \<and> False \<in> set r \<Longrightarrow> hs_rank s \<le> length rs \<Longrightarrow> both_done (hs_run ptr v (concat rs) s)"
proof (induction rs arbitrary: s)
  case Nil
  then show ?case by (cases "hs_jpc s"; cases "hs_epc s") (simp_all add: hs_rank_def join_rank_def exit_rank_def both_done_def)
next
  case (Cons r rs)
  have I: "hs_inv ptr v x (hs_run ptr v r s)" by (rule hs_inv_run [OF Cons.prems(1)])
  show ?case
  proof (cases "both_done s")
    case True
    then have "hs_rank s = 0" by (simp add: both_done_def hs_rank_def join_rank_def exit_rank_def)
    then have "hs_rank (hs_run ptr v r s) \<le> length rs" using rank_run [of ptr v r s] by simp
    then show ?thesis using Cons.IH [OF I] Cons.prems(2) by (simp add: hs_run_append)
  next
    case False
    then have "hs_rank (hs_run ptr v r s) < hs_rank s" using round_falls Cons.prems(1,2) by simp
    then show ?thesis using Cons.IH [OF I] Cons.prems(2,3) by (simp add: hs_run_append)
  qed
qed

subsection \<open>The value arrives\<close>

text \<open>C12. However the steps of a join and an exit interleave, a join that has returned has the exit value in its place; and
  both return and leave the thread as it was for the next join, as soon as both have moved in fourteen
  rounds. Neither wakes the other for nothing or sleeps for ever.\<close>

theorem join_exit_handshake:
  shows "(hs_jpc (hs_run ptr v bs (hs_init x)) = J_done \<longrightarrow> hs_slot (hs_run ptr v bs (hs_init x)) = exit_value ptr v x) \<and>
    (\<forall>rs. 14 \<le> length rs \<longrightarrow> (\<forall>r\<in>set rs. True \<in> set r \<and> False \<in> set r) \<longrightarrow>
       hs_run ptr v (concat rs) (hs_init x) = \<lparr>hs_join = LT_JOIN_INITIAL, hs_slot = exit_value ptr v x, hs_jpc = J_done, hs_epc = E_done, hs_jready = False, hs_eready = False\<rparr>)"
proof (intro conjI allI impI)
  let ?s = "hs_run ptr v bs (hs_init x)"
  have "hs_inv ptr v x ?s" by (rule hs_inv_run [OF hs_inv_init])
  then show "hs_slot ?s = exit_value ptr v x" if "hs_jpc ?s = J_done"
    using that by (cases "hs_join ?s") (auto simp: hs_inv_def hs_phase_def split: if_splits)
next
  fix rs :: "bool list list"
  let ?s = "hs_run ptr v (concat rs) (hs_init x)"
  assume l: "14 \<le> length rs" and r: "\<forall>r\<in>set rs. True \<in> set r \<and> False \<in> set r"
  have "hs_rank (hs_init x) = 14" by (simp add: hs_rank_def hs_init_def join_rank_def exit_rank_def)
  then have d: "both_done ?s" using rounds_end [OF hs_inv_init r] l by simp
  have "hs_inv ptr v x ?s" by (rule hs_inv_run [OF hs_inv_init])
  with d show "?s = \<lparr>hs_join = LT_JOIN_INITIAL, hs_slot = exit_value ptr v x, hs_jpc = J_done, hs_epc = E_done, hs_jready = False, hs_eready = False\<rparr>"
    by (cases ?s; cases "hs_join ?s") (auto simp: hs_inv_def hs_phase_def both_done_def split: if_splits)
qed

theorem join_exit_handshake_witness:
  "hs_run 8 9 (concat (replicate 14 [True, False])) (hs_init 5) =
     \<lparr>hs_join = LT_JOIN_INITIAL, hs_slot = 9, hs_jpc = J_done, hs_epc = E_done, hs_jready = False, hs_eready = False\<rparr>"
  using join_exit_handshake [of 8 9 "[]" 5] by (simp add: exit_value_def)

end
