(* ===== verification/Lthread_Rollback.thy ===== *)
theory Lthread_Rollback
  imports Lthread_Boot
begin

section \<open>A scheduler that cannot be created (lib/liblthread_dpdk/lthread_sched.c)\<close>

text \<open>
  When the allocator refuses in the middle, \<open>_lthread_sched_alloc_resources\<close> undoes what it has done with
  a switch whose cases fall through. Here the switch is compared with a plain reference, and the
  memory after it with the memory before.
\<close>

subsection \<open>The order of the phases\<close>

text \<open>The values of the enumeration.\<close>

fun phase_number :: "alloc_phase \<Rightarrow> nat" where
  "phase_number SCHED_ALLOC_OK = 0" | "phase_number SCHED_ALLOC_QNODE_POOL = 1" | "phase_number SCHED_ALLOC_READY_QUEUE = 2"
| "phase_number SCHED_ALLOC_PREADY_QUEUE = 3" | "phase_number SCHED_ALLOC_LTHREAD_CACHE = 4" | "phase_number SCHED_ALLOC_STACK_CACHE = 5"
| "phase_number SCHED_ALLOC_PERLT_CACHE = 6" | "phase_number SCHED_ALLOC_TLS_CACHE = 7" | "phase_number SCHED_ALLOC_COND_CACHE = 8"
| "phase_number SCHED_ALLOC_MUTEX_CACHE = 9"

instantiation alloc_phase :: linorder
begin

definition less_eq_alloc_phase :: "alloc_phase \<Rightarrow> alloc_phase \<Rightarrow> bool" where
  "a \<le> b \<longleftrightarrow> phase_number a \<le> phase_number b"

definition less_alloc_phase :: "alloc_phase \<Rightarrow> alloc_phase \<Rightarrow> bool" where
  "a < b \<longleftrightarrow> phase_number a < phase_number b"

instance
proof
  fix a b :: alloc_phase
  show "a \<le> b \<Longrightarrow> b \<le> a \<Longrightarrow> a = b" by (cases a; cases b; simp add: less_eq_alloc_phase_def)
qed (auto simp: less_eq_alloc_phase_def less_alloc_phase_def)

end

text \<open>The reference: give back what the phases before the failed one took, the latest first.\<close>

type_synonym giveback = "lmem \<Rightarrow> lmem option"

definition drop_queue :: "addr \<Rightarrow> giveback" where
  "drop_queue q m = do { (r, m) \<leftarrow> lthread_queue_destroy q m; Some m }"

definition drop_cache :: "addr \<Rightarrow> giveback" where
  "drop_cache c m = do { (r, m) \<leftarrow> lthread_objcache_destroy c m; Some m }"

definition givebacks :: "lthread_sched \<Rightarrow> (alloc_phase \<times> giveback) list" where
  "givebacks S = [(SCHED_ALLOC_QNODE_POOL, qnode_pool_destroy (sc_qnode_pool S)), (SCHED_ALLOC_READY_QUEUE, drop_queue (sc_ready S)),
     (SCHED_ALLOC_PREADY_QUEUE, drop_queue (sc_pready S)), (SCHED_ALLOC_LTHREAD_CACHE, drop_cache (sc_lthread_cache S)),
     (SCHED_ALLOC_STACK_CACHE, drop_cache (sc_stack_cache S)), (SCHED_ALLOC_PERLT_CACHE, drop_cache (sc_per_lthread_cache S)),
     (SCHED_ALLOC_TLS_CACHE, drop_cache (sc_tls_cache S)), (SCHED_ALLOC_COND_CACHE, drop_cache (sc_cond_cache S)),
     (SCHED_ALLOC_MUTEX_CACHE, drop_cache (sc_mutex_cache S))]"

fun undo_all :: "giveback list \<Rightarrow> giveback" where
  "undo_all [] m = Some m"
| "undo_all (d # ds) m = do { m \<leftarrow> d m; undo_all ds m }"

lemma drop_bind:
  "drop_queue q m \<bind> f = lthread_queue_destroy q m \<bind> (\<lambda>x. f (snd x))" "drop_cache q m \<bind> f = lthread_objcache_destroy q m \<bind> (\<lambda>x. f (snd x))"
  by (auto simp: drop_queue_def drop_cache_def split: bind_splits)

lemma undo_all_nil [simp]: "x \<bind> undo_all [] = x"
  by (cases x) simp_all

lemma undo_reference: "undo_resources ph S m = undo_all (rev (map snd (filter (\<lambda>x. fst x < ph) (givebacks S)))) m"
  by (cases ph) (simp_all add: givebacks_def less_alloc_phase_def drop_bind split_def)

subsection \<open>Giving back is the inverse of taking\<close>

text \<open>What can be seen of the memory apart from single nodes.\<close>

definition shape :: "lmem \<Rightarrow> addr set \<times> (addr \<rightharpoonup> lthread_objcache) \<times> (addr \<rightharpoonup> nat) \<times> addr set \<times> addr set \<times> (addr \<Rightarrow> addr list)" where
  "shape m = (dom (queues m), caches m, objs m, raw m, dom (pools m), items m)"

definition good :: "lmem \<Rightarrow> bool" where
  "good m \<longleftrightarrow> lt_inv m \<and> pool_ready m"

lemma queue_destroy_frame:
  assumes "lthread_queue_destroy q s = Some (r, s')"
  shows "caches s' = caches s" "objs s' = objs s" "raw s' = raw s" "cur_pool s' = cur_pool s" "dom (pools s') = dom (pools s)" "dom (nodes s) \<subseteq> dom (nodes s')"
  using assms
  by (auto simp: lthread_queue_destroy_def lthread_queue_empty_def qnode_free_def qnode_pool_insert_def set_next_def upd_pool_def Let_def
      split: bind_splits if_splits)

lemma drop_queue_ok:
  assumes "good m" "q \<in> dom (queues m)" "q \<noteq> NULL" "items m q = []"
  shows "\<exists>r. drop_queue q m = Some r \<and> lthread_queue_destroy q m = Some (0, r) \<and> good r \<and> cur_pool r = cur_pool m \<and> dom (nodes m) \<subseteq> dom (nodes r) \<and>
    shape r = (dom (queues m) - {q}, caches m, objs m, raw m, dom (pools m), items m)"
proof -
  obtain Q where Q: "queues m q = Some Q" using assms(2) by blast
  obtain r where r: "lthread_queue_destroy q m = Some (0, r)" "lt_inv r" "dom (queues r) = dom (queues m) - {q}" "items r = items m" "pool_ready r"
    using queue_destroy_ok(2) [OF _ Q assms(3,4)] assms(1) unfolding good_def by blast
  then show ?thesis using queue_destroy_frame [OF r(1)] by (simp add: drop_queue_def good_def shape_def)
qed

text \<open>\<open>ds\<close> leads from every memory of the shape of \<open>m\<close> back to the shape of \<open>m0\<close>; one node, the stub of the pool,
  goes away. \<open>m\<close> has at least \<open>b\<close> nodes.\<close>

definition held :: "lmem \<Rightarrow> nat \<Rightarrow> giveback list \<Rightarrow> lmem \<Rightarrow> bool" where
  "held m0 b ds m \<longleftrightarrow> good m \<and> b \<le> card (dom (nodes m)) \<and>
     (\<forall>m'. good m' \<longrightarrow> shape m' = shape m \<longrightarrow> cur_pool m' = cur_pool m \<longrightarrow>
       (\<exists>r st. undo_all ds m' = Some r \<and> shape r = shape m0 \<and> finite (dom (nodes r)) \<and> dom (nodes m') \<subseteq> insert st (dom (nodes r))))"

lemma heldD: "held m0 b ds m \<Longrightarrow> good m' \<Longrightarrow> shape m' = shape m \<Longrightarrow> cur_pool m' = cur_pool m \<Longrightarrow>
    \<exists>r st. undo_all ds m' = Some r \<and> shape r = shape m0 \<and> finite (dom (nodes r)) \<and> dom (nodes m') \<subseteq> insert st (dom (nodes r))"
  by (simp add: held_def)

lemma good_nodes: "good m \<Longrightarrow> finite (dom (nodes m))"
  by (auto simp: good_def lt_inv_def mem_rel_def allocated_def)

lemma held_done:
  assumes "held m0 b ds m"
  shows "\<exists>r. undo_all ds m = Some r \<and> shape r = shape m0 \<and> b \<le> Suc (card (dom (nodes r)))"
proof -
  obtain r st where r: "undo_all ds m = Some r" "shape r = shape m0" "finite (dom (nodes r))" "dom (nodes m) \<subseteq> insert st (dom (nodes r))"
    using heldD [OF assms, of m] assms by (auto simp: held_def)
  have "card (dom (nodes m)) \<le> card (insert st (dom (nodes r)))" using r(3,4) by (intro card_mono) auto
  also have "\<dots> \<le> Suc (card (dom (nodes r)))" using r(3) by (simp add: card_insert_if)
  finally show ?thesis using r(1,2) assms by (auto simp: held_def)
qed

text \<open>One more thing taken, and a routine \<open>d\<close> that gives it back.\<close>

lemma held_push:
  assumes H: "held m0 b ds m" and g: "good m1" "b1 \<le> card (dom (nodes m1))" "cur_pool m1 = cur_pool m"
    and d: "\<And>m'. good m' \<Longrightarrow> shape m' = shape m1 \<Longrightarrow> \<exists>r. d m' = Some r \<and> good r \<and> cur_pool r = cur_pool m' \<and> dom (nodes m') \<subseteq> dom (nodes r) \<and> shape r = shape m"
  shows "held m0 b1 (d # ds) m1"
  unfolding held_def
proof (intro conjI allI impI)
  fix m' assume m': "good m'" "shape m' = shape m1" "cur_pool m' = cur_pool m1"
  obtain r where r: "d m' = Some r" "good r" "cur_pool r = cur_pool m'" "dom (nodes m') \<subseteq> dom (nodes r)" "shape r = shape m"
    using d [OF m'(1,2)] by blast
  obtain u st where "undo_all ds r = Some u" "shape u = shape m0" "finite (dom (nodes u))" "dom (nodes r) \<subseteq> insert st (dom (nodes u))"
    using heldD [OF H r(2,5)] r(3) m'(3) g(3) by auto
  with r show "\<exists>r st. undo_all (d # ds) m' = Some r \<and> shape r = shape m0 \<and> finite (dom (nodes r)) \<and> dom (nodes m') \<subseteq> insert st (dom (nodes r))"
    by (intro exI [of _ u] exI [of _ st]) auto
qed (use g in auto)

lemma items_none: "q \<notin> dom (queues m) \<Longrightarrow> items m q = []"
  by (simp add: items_def domIff)

lemma held_queue:
  assumes H: "held m0 b ds m" and F: "fresh_alloc mal"
  shows "lthread_queue_create mal name m \<in> {None, Some (NULL, m)} \<or>
    (\<exists>q m1. lthread_queue_create mal name m = Some (q, m1) \<and> create_post m q m1 \<and> dom (pools m1) = dom (pools m) \<and> q \<notin> dom (queues m) \<and>
       held m0 b (drop_queue q # ds) m1)"
proof -
  have g: "lt_inv m" "pool_ready m" "b \<le> card (dom (nodes m))" using H by (simp_all add: held_def good_def)
  from queue_create_cases [OF g(1) F g(2), of name]
  show ?thesis
  proof (elim disjE exE conjE)
    fix q m1 assume c: "lthread_queue_create mal name m = Some (q, m1)" "create_post m q m1" "dom (pools m1) = dom (pools m)" "dom (nodes m) \<subseteq> dom (nodes m1)"
    then have q: "q \<noteq> NULL" "q \<notin> dom (queues m)" "dom (queues m1) = insert q (dom (queues m))" "items m1 = (items m)(q := [])"
      "caches m1 = caches m" "objs m1 = objs m" "raw m1 = raw m" "cur_pool m1 = cur_pool m" "good m1"
      using g by (auto simp: create_post_def allocated_def good_def)
    have it: "items m1 = items m" "items m q = []" using q(2,4) items_none [of q m] by auto
    have "held m0 b (drop_queue q # ds) m1"
    proof (rule held_push [OF H q(9) _ q(8)])
      show "b \<le> card (dom (nodes m1))" using card_mono [OF good_nodes [OF q(9)] c(4)] g(3) by simp
      fix m' assume m': "good m'" "shape m' = shape m1"
      then have s: "dom (queues m') = insert q (dom (queues m))" "caches m' = caches m" "objs m' = objs m" "raw m' = raw m" "dom (pools m') = dom (pools m)" "items m' = items m"
        using q it c(3) by (simp_all add: shape_def)
      show "\<exists>r. drop_queue q m' = Some r \<and> good r \<and> cur_pool r = cur_pool m' \<and> dom (nodes m') \<subseteq> dom (nodes r) \<and> shape r = shape m"
        using drop_queue_ok [OF m'(1) _ q(1)] s it(2) q(2) by (auto simp: shape_def)
    qed
    with c q(2) show ?thesis by blast
  qed blast
qed

text \<open>The invariant does not look at the blocks and the caches.\<close>

lemma good_side:
  assumes "good m" "finite r" "finite (dom X)"
  shows "good (m\<lparr>raw := r, caches := X\<rparr>)" "items (m\<lparr>raw := r, caches := X\<rparr>) = items m"
proof -
  let ?m = "m\<lparr>raw := r, caches := X\<rparr>"
  have n: "nexts ?m = nexts m" by (rule ext) (simp add: nexts_def)
  obtain g where R: "mem_rel m g" using assms(1) by (auto simp: good_def lt_inv_def)
  have "is_chain ?m = is_chain m" by (simp add: is_chain_def fun_eq_iff n)
  then have "pool_rel ?m = pool_rel m" "queue_rel ?m = queue_rel m" "owned_ok ?m = owned_ok m"
    by (simp_all add: pool_rel_def queue_rel_def owned_ok_def fun_eq_iff)
  then have "mem_rel ?m g" using R assms(2,3) by (simp add: mem_rel_def allocated_def)
  then show "good ?m" using assms(1) by (auto simp: good_def lt_inv_def pool_ready_def)
  show "items ?m = items m" by (rule ext) (simp add: items_def n split: option.splits)
qed

lemma good_finite: "good m \<Longrightarrow> finite (raw m)" "good m \<Longrightarrow> finite (dom (caches m))"
  by (auto simp: good_def lt_inv_def mem_rel_def allocated_def)

lemma good_raw: "good m \<Longrightarrow> finite r \<Longrightarrow> good (m\<lparr>raw := r\<rparr>)"
  using good_side(1) [of m r "caches m"] good_finite(2) [of m] by simp

lemma drop_cache_ok:
  assumes "good m" "caches m c = Some C" "oc_q C \<in> dom (queues m)" "oc_q C \<noteq> NULL" "items m (oc_q C) = []"
  shows "\<exists>r. drop_cache c m = Some r \<and> good r \<and> cur_pool r = cur_pool m \<and> dom (nodes m) \<subseteq> dom (nodes r) \<and>
    shape r = (dom (queues m) - {oc_q C}, (caches m)(c := None), objs m, raw m, dom (pools m), items m)"
proof -
  obtain r where r: "lthread_queue_destroy (oc_q C) m = Some (0, r)" "good r" "cur_pool r = cur_pool m" "dom (nodes m) \<subseteq> dom (nodes r)"
    "shape r = (dom (queues m) - {oc_q C}, caches m, objs m, raw m, dom (pools m), items m)"
    using drop_queue_ok [OF assms(1,3-5)] by blast
  let ?r = "r\<lparr>caches := (caches r)(c := None)\<rparr>"
  have "drop_cache c m = Some ?r" using r(1) assms(2) by (simp add: drop_cache_def lthread_objcache_destroy_def)
  moreover have "good ?r" "items ?r = items r" using good_side [OF r(2), of "raw r" "(caches r)(c := None)"] good_finite [OF r(2)] by simp_all
  ultimately show ?thesis using r(3-5) by (simp add: shape_def)
qed

lemma held_cache:
  assumes H: "held m0 b ds m" and F: "fresh_alloc mal"
  shows "lthread_objcache_create mal name sz pre m \<in> {None, Some (NULL, m)} \<or>
    (\<exists>c m1. lthread_objcache_create mal name sz pre m = Some (c, m1) \<and> c \<noteq> NULL \<and> held m0 b (drop_cache c # ds) m1)"
proof (cases "mal m")
  case None
  then show ?thesis by (simp add: lthread_objcache_create_def)
next
  case (Some c)
  have g: "good m" "b \<le> card (dom (nodes m))" using H by (simp_all add: held_def)
  have c: "c \<noteq> NULL" "c \<notin> raw m" "caches m c = None" using F Some unfolding fresh_alloc_def allocated_def by blast+
  let ?m = "m\<lparr>raw := insert c (raw m)\<rparr>"
  have "good ?m" using good_raw [OF g(1)] good_finite(1) [OF g(1)] by simp
  then have g1: "lt_inv ?m" "pool_ready ?m" by (simp_all add: good_def)
  from queue_create_cases [OF g1(1) F g1(2), of "''cache queue''"]
  show ?thesis
  proof (elim disjE exE conjE)
    assume "lthread_queue_create mal ''cache queue'' ?m \<in> {None, Some (NULL, ?m)}"
    then show ?thesis using Some c(2) by (auto simp: lthread_objcache_create_def Let_def)
  next
    fix q m1 assume q: "lthread_queue_create mal ''cache queue'' ?m = Some (q, m1)" "create_post ?m q m1" "dom (pools m1) = dom (pools ?m)" "dom (nodes ?m) \<subseteq> dom (nodes m1)"
    let ?C = "\<lparr>oc_q = q, oc_obj_size = sz, oc_prealloc_size = pre, oc_name = copy_name name\<rparr>"
    let ?m2 = "m1\<lparr>raw := raw m1 - {c}, caches := (caches m1)(c \<mapsto> ?C)\<rparr>"
    have m1: "q \<noteq> NULL" "q \<notin> dom (queues m)" "dom (queues m1) = insert q (dom (queues m))" "items m1 = (items m)(q := [])" "good m1"
      "caches m1 = caches m" "objs m1 = objs m" "raw m1 = insert c (raw m)" "cur_pool m1 = cur_pool m"
      using q(2) g1(2) by (auto simp: create_post_def allocated_def good_def)
    have it: "items m1 = items m" "items m q = []" using m1(2,4) items_none [of q m] by auto
    have e: "lthread_objcache_create mal name sz pre m = Some (c, ?m2)" using Some q(1) m1(1) by (simp add: lthread_objcache_create_def Let_def)
    note s2 = good_side [OF m1(5), of "raw m1 - {c}" "(caches m1)(c \<mapsto> ?C)"]
    have g2: "good ?m2" "items ?m2 = items m" using s2 good_finite [OF m1(5)] it(1) by simp_all
    have "held m0 b (drop_cache c # ds) ?m2"
    proof (rule held_push [OF H g2(1)])
      show "b \<le> card (dom (nodes ?m2))" using card_mono [OF good_nodes [OF m1(5)] q(4)] g(2) by simp
      show "cur_pool ?m2 = cur_pool m" by (simp add: m1(9))
      fix m' assume m': "good m'" "shape m' = shape ?m2"
      then have s: "dom (queues m') = insert q (dom (queues m))" "caches m' = (caches m)(c \<mapsto> ?C)" "objs m' = objs m" "raw m' = raw m" "dom (pools m') = dom (pools m)" "items m' = items m"
        using m1 it c(2) q(3) g2(2) by (simp_all add: shape_def)
      have "(caches m')(c := None) = caches m" using s(2) c(3) by auto
      then show "\<exists>r. drop_cache c m' = Some r \<and> good r \<and> cur_pool r = cur_pool m' \<and> dom (nodes m') \<subseteq> dom (nodes r) \<and> shape r = shape m"
        using drop_cache_ok [OF m'(1), of c ?C] s it(2) m1(1,2) by (auto simp: shape_def)
    qed
    with e c(1) show ?thesis by blast
  qed
qed

subsection \<open>The pool\<close>

lemma pool_destroy_ok:
  assumes "good m" "pools m p = Some P"
  shows "qnode_pool_destroy p m = Some (m\<lparr>nodes := (nodes m)(qp_stub P := None), pools := (pools m)(p := None)\<rparr>)"
    "items (m\<lparr>nodes := (nodes m)(qp_stub P := None), pools := (pools m)(p := None)\<rparr>) = items m"
proof -
  let ?r = "m\<lparr>nodes := (nodes m)(qp_stub P := None), pools := (pools m)(p := None)\<rparr>"
  show "qnode_pool_destroy p m = Some ?r" by (simp add: qnode_pool_destroy_def assms(2) Let_def)
  obtain g where R: "mem_rel m g" using assms(1) by (auto simp: good_def lt_inv_def)
  have "items ?r q = items m q" for q
  proof (cases "queues m q")
    case (Some Q)
    note C = queue_chain [OF R Some]
    have n: "a \<noteq> qp_stub P" if "a \<in> set (qch g q)" for a
      using pool_relD(4) [OF R assms(2)] C(2) [of a] that by auto
    have l: "linked (nexts ?r) (qch g q)"
      using linked_cong [of "qch g q" "nexts ?r" "nexts m"] C(7) n by (simp add: nexts_def)
    have "NULL \<notin> set (qch g q)" using queue_node(2) [OF R Some] by blast
    then have "chain_from (nexts ?r) (lq_tail Q) = qch g q"
      by (intro chain_from_eq [OF C(3,4) l])
    then have "items ?r q = map (\<lambda>a. case nodes ?r a of None \<Rightarrow> NULL | Some N \<Rightarrow> qn_data N) (tl (qch g q))" by (simp add: items_def Some)
    also have "\<dots> = items m q"
      unfolding items_eq [OF R Some]
    proof (rule map_cong [OF refl])
      fix a assume "a \<in> set (tl (qch g q))"
      then have "a \<noteq> qp_stub P" using n [of a] list.set_sel(2) [OF C(3)] by blast
      then show "(case nodes ?r a of None \<Rightarrow> NULL | Some N \<Rightarrow> qn_data N) = (case nodes m a of None \<Rightarrow> NULL | Some N \<Rightarrow> qn_data N)" by simp
    qed
    finally show ?thesis .
  qed (simp add: items_def)
  then show "items ?r = items m" by (rule ext)
qed

text \<open>What is left of a new pool's life: the stub goes, the nodes stay.\<close>

definition fresh_pool :: "addr \<Rightarrow> lmem \<Rightarrow> bool" where
  "fresh_pool p m \<longleftrightarrow> cur_pool m = p \<and> (\<exists>st N P. pools m p = Some P \<and> qp_head P = st \<and> qp_stub P = st \<and> qp_tail P = st \<and> qp_fast_alloc P = NULL \<and>
     qp_pre_alloc P = LTHREAD_PREALLOC \<and> nodes m st = Some N \<and> qn_next N = NULL)"

lemma held_pool:
  assumes B: "boot_mem m0" and F: "fresh_alloc mal" and c: "qnode_pool_create mal NULL name LTHREAD_PREALLOC m0 = Some (p, m1)"
  shows "p \<noteq> NULL \<and> fresh_pool p (m1\<lparr>cur_pool := p\<rparr>) \<and> held m0 (Suc (card (dom (nodes m0)))) [qnode_pool_destroy p] (m1\<lparr>cur_pool := p\<rparr>)"
proof -
  obtain p' where p: "mal m0 = Some p'" using c by (auto simp: qnode_pool_create_def split: bind_splits)
  have n0: "nodes m0 NULL = None" using boot_rel [OF B] by (auto simp: mem_rel0_def)
  obtain st where st: "mal (m0\<lparr>raw := insert p' (raw m0)\<rparr>) = Some st"
    using c p n0 by (cases "mal (m0\<lparr>raw := insert p' (raw m0)\<rparr>)") (auto simp: qnode_pool_create_def malloc_node_def set_pool_def Let_def)
  note N = pool_create_new [OF B F _ p st, of LTHREAD_PREALLOC]
  have k: "2 \<le> LTHREAD_PREALLOC" by (simp add: LTHREAD_PREALLOC_def)
  have pp: "p' = p" "m1 = new_pool p st name LTHREAD_PREALLOC m0" using N(1) [OF k, of name] c by simp_all
  let ?m = "m1\<lparr>cur_pool := p\<rparr>"
  have a: "p \<noteq> NULL" "p \<notin> dom (pools m0)" "st \<notin> dom (nodes m0)" using N(2,3,5) [OF k] pp(1) by (auto simp: allocated_def)
  have g: "good ?m" "items ?m = items m0" using N(6,7) [OF k, of name] pp by (simp_all add: good_def cache_inv_def)
  have e: "dom (nodes ?m) = insert st (dom (nodes m0))" "dom (queues ?m) = dom (queues m0)" "caches ?m = caches m0" "objs ?m = objs m0" "raw ?m = raw m0"
    "dom (pools ?m) = insert p (dom (pools m0))"
    by (auto simp: pp(2) new_pool_def)
  have fn: "finite (dom (nodes m0))" using boot_rel [OF B] by (auto simp: mem_rel0_def allocated_def)
  have "held m0 (Suc (card (dom (nodes m0)))) [qnode_pool_destroy p] ?m"
    unfolding held_def
  proof (intro conjI allI impI)
    show "Suc (card (dom (nodes m0))) \<le> card (dom (nodes ?m))" unfolding e(1) using fn a(3) by simp
    fix m' assume m': "good m'" "shape m' = shape ?m"
    have s: "dom (queues m') = dom (queues m0)" "caches m' = caches m0" "objs m' = objs m0" "raw m' = raw m0" "dom (pools m') = insert p (dom (pools m0))" "items m' = items m0"
      using m'(2) e g(2) by (simp_all add: shape_def)
    then obtain P where P: "pools m' p = Some P" by blast
    let ?r = "m'\<lparr>nodes := (nodes m')(qp_stub P := None), pools := (pools m')(p := None)\<rparr>"
    note D = pool_destroy_ok [OF m'(1) P]
    have "shape ?r = shape m0" using s D(2) a(2) by (simp add: shape_def)
    moreover have "finite (dom (nodes ?r))" "dom (nodes m') \<subseteq> insert (qp_stub P) (dom (nodes ?r))" using good_nodes [OF m'(1)] by auto
    ultimately show "\<exists>r st. undo_all [qnode_pool_destroy p] m' = Some r \<and> shape r = shape m0 \<and> finite (dom (nodes r)) \<and> dom (nodes m') \<subseteq> insert st (dom (nodes r))"
      using D(1) by (intro exI [of _ ?r] exI [of _ "qp_stub P"]) simp
  qed (rule g(1))
  moreover have "fresh_pool p ?m" by (simp add: fresh_pool_def pp(2) new_pool_def)
  ultimately show ?thesis using a(1) by blast
qed

text \<open>The first queue of a pool makes it allocate all its nodes.\<close>

lemma prealloc_card:
  assumes "fresh_alloc mal" "prealloc_nodes mal p i s = Some (True, s')" "finite (dom (nodes s))"
  shows "finite (dom (nodes s')) \<and> card (dom (nodes s')) = card (dom (nodes s)) + i"
  using assms(2,3)
proof (induction i arbitrary: s)
  case (Suc i)
  obtain a where a: "mal s = Some a" using Suc.prems(1) by (cases "mal s") (auto simp: malloc_node_def)
  have n: "a \<noteq> NULL" "a \<notin> dom (nodes s)" using assms(1) a unfolding fresh_alloc_def allocated_def by blast+
  obtain s1 where s1: "qnode_pool_insert p a (s\<lparr>nodes := (nodes s)(a \<mapsto> \<lparr>qn_next = NULL, qn_data = NULL, qn_pool = p\<rparr>)\<rparr>) = Some s1"
    "prealloc_nodes mal p i s1 = Some (True, s')"
    using Suc.prems(1) a n(1) by (auto simp: malloc_node_def set_pool_def split: bind_splits)
  have "dom (nodes s1) = insert a (dom (nodes s))"
    using s1(1) by (auto simp: qnode_pool_insert_def set_next_def upd_pool_def Let_def split: bind_splits if_splits)
  then show ?case using Suc.IH [OF s1(2)] Suc.prems(2) n(2) by simp
qed simp

lemma fresh_pool_empty:
  assumes "fresh_pool p m"
  shows "qnode_pool_remove p (m\<lparr>raw := insert q (raw m)\<rparr>) = Some (NULL, m\<lparr>raw := insert q (raw m)\<rparr>)"
  using assms by (auto simp: fresh_pool_def qnode_pool_remove.simps [of p "m\<lparr>raw := insert q (raw m)\<rparr>"] pool_remove_def get_next_def Let_def)

lemma first_queue_nodes:
  assumes g: "good m" and f: "fresh_pool p m" and F: "fresh_alloc mal" and c: "lthread_queue_create mal name m = Some (q, m1)" "q \<noteq> NULL"
  shows "card (dom (nodes m)) + nat LTHREAD_PREALLOC \<le> card (dom (nodes m1))"
proof -
  obtain q' where q': "mal m = Some q'" using c by (cases "mal m") (auto simp: lthread_queue_create_def)
  let ?m = "m\<lparr>raw := insert q' (raw m)\<rparr>"
  obtain st N P where P: "pools m p = Some P" "qp_head P = st" "qp_stub P = st" "qp_tail P = st" "qp_fast_alloc P = NULL"
    "qp_pre_alloc P = LTHREAD_PREALLOC" "nodes m st = Some N" "qn_next N = NULL" "cur_pool m = p"
    using f by (auto simp: fresh_pool_def)
  note e = fresh_pool_empty [OF f, of q']
  obtain n s1 where A: "qnode_alloc mal ?m = Some (n, s1)" "dom (nodes m1) = dom (nodes s1)"
    using c q' by (auto simp: lthread_queue_create_def set_next_def Let_def insert_dom split: bind_splits)
  have n: "n \<noteq> NULL"
  proof
    assume "n = NULL"
    moreover have "nodes s1 NULL = None"
    proof -
      have "good ?m" using good_raw [OF g] good_finite(1) [OF g] by simp
      then obtain gh where R: "mem_rel ?m gh" by (auto simp: good_def lt_inv_def)
      obtain n' s' g' where "qnode_alloc mal ?m = Some (n', s')" "alloc_post mal ?m gh n' s' g'"
        using qnode_alloc_ok [OF R _ _ F, of P] P by (auto simp: LTHREAD_PREALLOC_def)
      then show ?thesis using A(1) by (auto simp: alloc_post_def mem_rel_def)
    qed
    ultimately show False using c q' A(1) by (auto simp: lthread_queue_create_def set_next_def Let_def)
  qed
  obtain s2 where s2: "prealloc_nodes mal p (nat LTHREAD_PREALLOC) ?m = Some (True, s2)" "do { (n, s) \<leftarrow> qnode_pool_remove p s2; s \<leftarrow> set_pool n p s; Some (n, s) } = Some (n, s1)"
    using A(1) n P e by (auto simp: qnode_alloc_def Let_def split: bind_splits if_splits)
  have card: "finite (dom (nodes s2))" "card (dom (nodes s2)) = card (dom (nodes m)) + nat LTHREAD_PREALLOC"
    using prealloc_card [OF F s2(1)] good_nodes [OF g] by simp_all
  have "dom (nodes s1) = dom (nodes s2)"
  proof -
    have "good ?m" using good_raw [OF g] good_finite(1) [OF g] by simp
    then obtain gh where R: "mem_rel ?m gh" by (auto simp: good_def lt_inv_def)
    obtain ok s' g' where "prealloc_nodes mal p (nat LTHREAD_PREALLOC) ?m = Some (ok, s')" "mem_rel s' g'" "frame ?m s'"
      using prealloc_nodes_ok [OF R _ F, of p P "nat LTHREAD_PREALLOC"] P(1) by auto
    then have R2: "mem_rel s2 g'" "frame ?m s2" using s2(1) by simp_all
    obtain P2 where "pools s2 p = Some P2" using R2(2) P(1) unfolding frame_def by fastforce
    then obtain n' s3 g3 where "qnode_pool_remove p s2 = Some (n', s3)" "dom (nodes s3) = dom (nodes s2)"
      using qnode_pool_remove_ok [OF R2(1)] unfolding remove_post_def by blast
    moreover from this(1) have "set_pool n' p s3 = Some s1" using s2(2) by (simp split: bind_splits)
    then have "dom (nodes s1) = dom (nodes s3)" by (auto simp: set_pool_def split: bind_splits if_splits)
    ultimately show ?thesis by simp
  qed
  then show ?thesis using A(2) card(2) by simp
qed

subsection \<open>Whatever fails\<close>

text \<open>The result of the blocks from some point on: an early end has everything it holds on its list.\<close>

definition undoable :: "addr \<Rightarrow> lsys \<Rightarrow> (alloc_phase \<times> lsys) option \<Rightarrow> bool" where
  "undoable p s r \<longleftrightarrow> (\<forall>ph s1. r = Some (ph, s1) \<longrightarrow> ph \<noteq> SCHED_ALLOC_OK \<longrightarrow>
     (\<exists>m S m2. s1 = s\<lparr>mem := m, scheds := (scheds s)(p \<mapsto> S)\<rparr> \<and> undo_resources ph S m = Some m2 \<and> shape m2 = shape (mem s) \<and>
        (SCHED_ALLOC_READY_QUEUE < ph \<longrightarrow> card (dom (nodes (mem s))) + nat LTHREAD_PREALLOC \<le> card (dom (nodes m2)))))"

lemma undoable_fail:
  assumes "held (mem s) b ds m" "rev (map snd (filter (\<lambda>x. fst x < ph) (givebacks S))) = ds"
    and "SCHED_ALLOC_READY_QUEUE < ph \<Longrightarrow> b = Suc (card (dom (nodes (mem s)))) + nat LTHREAD_PREALLOC"
  shows "undoable p s (Some (ph, s\<lparr>mem := m, scheds := (scheds s)(p \<mapsto> S)\<rparr>))"
proof -
  obtain r where r: "undo_all ds m = Some r" "shape r = shape (mem s)" "b \<le> Suc (card (dom (nodes r)))" using held_done [OF assms(1)] by blast
  have "undo_resources ph S m = Some r" unfolding undo_reference assms(2) by (rule r(1))
  moreover have "SCHED_ALLOC_READY_QUEUE < ph \<longrightarrow> card (dom (nodes (mem s))) + nat LTHREAD_PREALLOC \<le> card (dom (nodes r))" using r(3) assms(3) by auto
  ultimately show ?thesis using r(2) unfolding undoable_def by (intro allI impI) auto
qed

lemma undoable_none: "undoable p s None"
  by (simp add: undoable_def)

lemma alloc_block_cases:
  "alloc m = None \<Longrightarrow> alloc_block ph p alloc put k (s\<lparr>mem := m, scheds := (scheds s)(p \<mapsto> S)\<rparr>) = None"
  "alloc m = Some (NULL, m) \<Longrightarrow> alloc_block ph p alloc put k (s\<lparr>mem := m, scheds := (scheds s)(p \<mapsto> S)\<rparr>) = Some (ph, s\<lparr>mem := m, scheds := (scheds s)(p \<mapsto> put NULL S)\<rparr>)"
  "alloc m = Some (x, m1) \<Longrightarrow> x \<noteq> NULL \<Longrightarrow> alloc_block ph p alloc put k (s\<lparr>mem := m, scheds := (scheds s)(p \<mapsto> S)\<rparr>) = k (s\<lparr>mem := m1, scheds := (scheds s)(p \<mapsto> put x S)\<rparr>)"
  by (simp_all add: alloc_block_def on_mem_def upd_sched_def)

lemma undo_queue:
  assumes H: "held (mem s) b ds m" and F: "fresh_alloc (e_mal E)"
    and f: "held (mem s) b ds m \<Longrightarrow> undoable p s (Some (ph, s\<lparr>mem := m, scheds := (scheds s)(p \<mapsto> put NULL S)\<rparr>))"
    and k: "\<And>q m1. held (mem s) b (drop_queue q # ds) m1 \<Longrightarrow> undoable p s (k (s\<lparr>mem := m1, scheds := (scheds s)(p \<mapsto> put q S)\<rparr>))"
  shows "undoable p s (alloc_block ph p (lthread_queue_create (e_mal E) name) put k (s\<lparr>mem := m, scheds := (scheds s)(p \<mapsto> S)\<rparr>))"
  using held_queue [OF H F, of name] f [OF H] k undoable_none
  by (auto simp: alloc_block_cases create_post_def)

lemma undo_cache:
  assumes H: "held (mem s) b ds m" and F: "fresh_alloc (e_mal E)"
    and f: "held (mem s) b ds m \<Longrightarrow> undoable p s (Some (ph, s\<lparr>mem := m, scheds := (scheds s)(p \<mapsto> put NULL S)\<rparr>))"
    and k: "\<And>c m1. held (mem s) b (drop_cache c # ds) m1 \<Longrightarrow> undoable p s (k (s\<lparr>mem := m1, scheds := (scheds s)(p \<mapsto> put c S)\<rparr>))"
  shows "undoable p s (alloc_block ph p (lthread_objcache_create (e_mal E) name sz pre) put k (s\<lparr>mem := m, scheds := (scheds s)(p \<mapsto> S)\<rparr>))"
  using held_cache [OF H F, of name sz pre] f [OF H] k undoable_none
  by (auto simp: alloc_block_cases)

text \<open>The pool comes with its first queue; without a block the pool is a fault, so its phase never fails.\<close>

lemma undo_ready:
  assumes H: "held (mem s) b ds m" and f0: "fresh_pool a m" and F: "fresh_alloc (e_mal E)"
    and f: "held (mem s) b ds m \<Longrightarrow> undoable p s (Some (ph, s\<lparr>mem := m, scheds := (scheds s)(p \<mapsto> put NULL S)\<rparr>))"
    and k: "\<And>q m1. held (mem s) (b + nat LTHREAD_PREALLOC) (drop_queue q # ds) m1 \<Longrightarrow> undoable p s (k (s\<lparr>mem := m1, scheds := (scheds s)(p \<mapsto> put q S)\<rparr>))"
  shows "undoable p s (alloc_block ph p (lthread_queue_create (e_mal E) name) put k (s\<lparr>mem := m, scheds := (scheds s)(p \<mapsto> S)\<rparr>))"
  using held_queue [OF H F, of name]
proof (elim disjE exE conjE)
  fix q m1 assume c: "lthread_queue_create (e_mal E) name m = Some (q, m1)" "create_post m q m1" "held (mem s) b (drop_queue q # ds) m1"
  have q: "q \<noteq> NULL" using c(2) by (simp add: create_post_def)
  have g: "good m" "b \<le> card (dom (nodes m))" using H by (simp_all add: held_def)
  have "held (mem s) (b + nat LTHREAD_PREALLOC) (drop_queue q # ds) m1"
    using c(3) first_queue_nodes [OF g(1) f0 F c(1) q] g(2) by (simp add: held_def)
  then show ?thesis using k c(1) q by (simp add: alloc_block_cases(3))
qed (use f [OF H] undoable_none in \<open>auto simp: alloc_block_cases\<close>)

lemma undo_pool:
  assumes B: "boot_mem (mem s)" and S: "scheds s p = Some S" and F: "fresh_alloc (e_mal E)" "e_junk E = NULL"
    and k: "\<And>a m1. fresh_pool a m1 \<Longrightarrow> held (mem s) (Suc (card (dom (nodes (mem s))))) [qnode_pool_destroy a] m1 \<Longrightarrow>
      undoable p s (k (s\<lparr>mem := m1, scheds := (scheds s)(p \<mapsto> put a S)\<rparr>))"
  shows "undoable p s (alloc_block ph p (\<lambda>m. map_option (\<lambda>(x, m). (x, m\<lparr>cur_pool := x\<rparr>))
    (qnode_pool_create (e_mal E) (e_junk E) name LTHREAD_PREALLOC m)) put k s)"
proof (cases "qnode_pool_create (e_mal E) NULL name LTHREAD_PREALLOC (mem s)")
  case None
  then show ?thesis using F(2) by (simp add: alloc_block_def on_mem_def undoable_none)
next
  case (Some x)
  obtain a m1 where x: "x = (a, m1)" by force
  have "a \<noteq> NULL" "fresh_pool a (m1\<lparr>cur_pool := a\<rparr>)" "held (mem s) (Suc (card (dom (nodes (mem s))))) [qnode_pool_destroy a] (m1\<lparr>cur_pool := a\<rparr>)"
    using held_pool [OF B F(1)] Some x by auto
  then show ?thesis using Some x F(2) k S by (subst alloc_block_some [of _ _ a "m1\<lparr>cur_pool := a\<rparr>" _ S]) simp_all
qed

lemma alloc_resources_undoable:
  assumes B: "boot_mem (mem s)" and S: "scheds s p = Some S" and F: "fresh_alloc (e_mal E)" "e_junk E = NULL"
  shows "undoable p s (alloc_resources E p s)"
  unfolding alloc_resources_def
  by (rule undo_pool [OF B S F], erule undo_ready [OF _ _ F(1)], assumption,
      (erule undoable_fail; simp add: givebacks_def less_alloc_phase_def),
      erule undo_queue [OF _ F(1)], (erule undoable_fail; simp add: givebacks_def less_alloc_phase_def),
      (erule undo_cache [OF _ F(1)], (erule undoable_fail; simp add: givebacks_def less_alloc_phase_def; fail))+,
      simp add: undoable_def)


subsection \<open>A machine with room for one queue\<close>

definition stingy :: allocator where
  "stingy m = (if queues m = Map.empty then bump m else None)"

lemma stingy_fresh: "fresh_alloc stingy"
  using bump_fresh by (simp add: fresh_alloc_def stingy_def)

lemma prealloc_stingy: "queues s = Map.empty \<Longrightarrow> prealloc_nodes stingy p i s = prealloc_nodes bump p i s"
proof (induction i arbitrary: s)
  case (Suc i)
  have m: "malloc_node stingy s = malloc_node bump s" using Suc.prems by (simp add: malloc_node_def stingy_def)
  obtain n s1 where n: "malloc_node bump s = (n, s1)" "queues s1 = Map.empty" using Suc.prems by (cases "bump s") (auto simp: malloc_node_def)
  have "queues s3 = Map.empty" if "set_pool n p s1 = Some s2" "qnode_pool_insert p n s2 = Some s3" for s2 s3
    using that n(2) by (auto simp: set_pool_def qnode_pool_insert_def set_next_def upd_pool_def Let_def split: bind_splits if_splits)
  then have "set_pool n p s1 \<bind> (\<lambda>s. qnode_pool_insert p n s \<bind> prealloc_nodes stingy p i) = set_pool n p s1 \<bind> (\<lambda>s. qnode_pool_insert p n s \<bind> prealloc_nodes bump p i)"
    using Suc.IH by (intro Option.bind_cong refl) blast
  then show ?case using m n(1) by simp
qed simp

lemma queue_create_stingy:
  assumes "fresh_pool p m" "queues m = Map.empty"
  shows "lthread_queue_create stingy name m = lthread_queue_create bump name m"
proof (cases "bump m")
  case (Some q)
  let ?m = "m\<lparr>raw := insert q (raw m)\<rparr>"
  have e: "prealloc_nodes stingy p' i ?m = prealloc_nodes bump p' i ?m" for p' i by (rule prealloc_stingy) (simp add: assms(2))
  have "qnode_alloc stingy ?m = qnode_alloc bump ?m"
    using fresh_pool_empty [OF assms(1), of q] assms(1) e by (auto simp: fresh_pool_def qnode_alloc_def Let_def)
  then show ?thesis using Some assms(2) by (simp add: lthread_queue_create_def stingy_def)
qed (use assms(2) in \<open>simp add: lthread_queue_create_def stingy_def\<close>)

definition stingy_env :: lenv where
  "stingy_env = demo_env\<lparr>e_mal := stingy\<rparr>"

definition one_sched :: lsys where
  "one_sched = cold_sys\<lparr>scheds := [500 \<mapsto> zero_sched]\<rparr>"

lemma stingy_fails: "\<exists>s1. alloc_resources stingy_env 500 one_sched = Some (SCHED_ALLOC_PREADY_QUEUE, s1)"
proof -
  have E: "e_mal stingy_env = stingy" "e_junk stingy_env = NULL" using demo_env_ok by (simp_all add: stingy_env_def env_ok_def)
  have m0: "mem one_sched = cold_mem" "scheds one_sched 500 = Some zero_sched" by (simp_all add: one_sched_def cold_sys_def)
  have B: "boot_mem cold_mem" by (simp add: boot_mem_def cold_mem_def)
  have fin: "finite (allocated cold_mem)" by (simp add: cold_mem_def allocated_def)
  obtain p where p: "stingy cold_mem = Some p" using fin by (simp add: stingy_def bump_def cold_mem_def)
  obtain st where st: "stingy (cold_mem\<lparr>raw := insert p (raw cold_mem)\<rparr>) = Some st"
    by (simp add: stingy_def bump_def cold_mem_def allocated_def)
  note N = pool_create_new(1) [OF B stingy_fresh _ p st]
  obtain m1 where P: "qnode_pool_create stingy NULL ''qnode pool'' LTHREAD_PREALLOC cold_mem = Some (p, m1)" "queues m1 = Map.empty"
    using N [of LTHREAD_PREALLOC "''qnode pool''"] by (auto simp: LTHREAD_PREALLOC_def new_pool_def cold_mem_def)
  let ?m1 = "m1\<lparr>cur_pool := p\<rparr>"
  have h: "p \<noteq> NULL" "fresh_pool p ?m1" "good ?m1" using held_pool [OF B stingy_fresh P(1)] by (simp_all add: held_def)
  obtain q m2 where q: "lthread_queue_create bump ''ready queue'' ?m1 = Some (q, m2)" "create_post ?m1 q m2"
    using queue_create_ok [OF _ bump_fresh _ bump_gives] h(3) unfolding good_def by blast
  have c: "lthread_queue_create stingy ''ready queue'' ?m1 = Some (q, m2)" using queue_create_stingy [OF h(2)] P(2) q(1) by simp
  have q0: "q \<noteq> NULL" "queues m2 \<noteq> Map.empty" using q(2) by (auto simp: create_post_def)
  then have r: "lthread_queue_create stingy name m2 = Some (NULL, m2)" for name by (simp add: lthread_queue_create_def stingy_def)
  show ?thesis unfolding alloc_resources_def E
    using m0 P(1) h(1) c q0(1) r by (simp add: alloc_block_def on_mem_def upd_sched_def)
qed


end
