(* ===== verification/Ssn_Timer.thy ===== *)
theory Ssn_Timer
  imports Ssn_Threads
begin

section \<open>Timers (lib/libsusanow/ssn_timer.cc)\<close>

text \<open>
  A timer scheduler arms periodic timers on the lcore of its thread, and that thread polls them.
  \<open>rte_timer\<close> and the cycle counter belong to DPDK: they are the parameter \<open>timer_api\<close> over a state
  \<open>'k\<close>, a timer being known by its address. The dump is left out.
\<close>

record ssn_timer =
  tm_f :: addr
  tm_arg :: addr
  tm_hz :: nat

record ssn_timer_sched =
  ts_tims :: "addr list"
  ts_lcore_id :: nat

record ('e, 'k) timer_sys =
  ty_scheds :: "addr \<rightharpoonup> ssn_timer_sched"
  ty_timers :: "addr \<rightharpoonup> ssn_timer"
  ty_rte :: 'k
  ty_running :: bool
  ty_threads :: "'e ssn_sys"

record 'k timer_api =
  tk_subsystem_init :: "'k \<Rightarrow> 'k"
  tk_init :: "addr \<Rightarrow> 'k \<Rightarrow> 'k"
  tk_reset :: "addr \<Rightarrow> nat \<Rightarrow> nat \<Rightarrow> 'k \<Rightarrow> 'k"
  tk_stop :: "addr \<Rightarrow> 'k \<Rightarrow> 'k"
  tk_manage :: "'k \<Rightarrow> 'k"
  tk_rdtsc :: "'k \<Rightarrow> u64"
  tk_hz :: u64

datatype timer_error = Not_timer_thread nat ssn_lcore_state | Timer_not_found | Timer_lcores thread_error

type_synonym ('e, 'k, 'a) tyop = "(('e, 'k) timer_sys, timer_error, 'a) op"

definition on_lcores :: "('e, 'a) top \<Rightarrow> ('e, 'k, 'a) tyop" where
  "on_lcores = focus ty_threads (\<lambda>t s. s\<lparr>ty_threads := t\<rparr>) Timer_lcores"

definition rte :: "('k \<Rightarrow> 'k) \<Rightarrow> ('e, 'k, unit) tyop" where
  "rte f = modify (\<lambda>s. s\<lparr>ty_rte := f (ty_rte s)\<rparr>)"

definition the_sched :: "addr \<Rightarrow> ('e, 'k, ssn_timer_sched) tyop" where
  "the_sched p = need (\<lambda>s. ty_scheds s p)"

definition set_tims :: "addr \<Rightarrow> (addr list \<Rightarrow> addr list) \<Rightarrow> ('e, 'k, unit) tyop" where
  "set_tims p f = bnd (the_sched p) (\<lambda>S. modify (\<lambda>s. s\<lparr>ty_scheds := (ty_scheds s)(p \<mapsto> S\<lparr>ts_tims := f (ts_tims S)\<rparr>)\<rparr>))"

text \<open>The constructors; the objects are at the addresses that \<open>new\<close> gave.\<close>

definition new_ssn_timer :: "'k timer_api \<Rightarrow> addr \<Rightarrow> addr \<Rightarrow> addr \<Rightarrow> nat \<Rightarrow> ('e, 'k, unit) tyop" where
  "new_ssn_timer K p f arg hz =
     andthen (modify (\<lambda>s. s\<lparr>ty_timers := (ty_timers s)(p \<mapsto> \<lparr>tm_f = f, tm_arg = arg, tm_hz = hz\<rparr>)\<rparr>)) (rte (tk_init K p))"

definition new_timer_sched :: "addr \<Rightarrow> nat \<Rightarrow> ('e, 'k, unit) tyop" where
  "new_timer_sched p i = modify (\<lambda>s. s\<lparr>ty_scheds := (ty_scheds s)(p \<mapsto> \<lparr>ts_tims = [], ts_lcore_id = i\<rparr>)\<rparr>)"

text \<open>The check at the start of \<open>del\<close> and in \<open>add\<close>.\<close>

definition check_tthread :: "nat \<Rightarrow> ('e, 'k, unit) tyop" where
  "check_tthread lcore = bnd (on_lcores (ssn_lcoreid_is_tthread lcore)) (\<lambda>b.
     if b then ret () else bnd (on_lcores (ssn_get_lcore_state lcore)) (\<lambda>st. throw (Not_timer_thread lcore st)))"

definition timer_sched_add :: "'k timer_api \<Rightarrow> addr \<Rightarrow> addr \<Rightarrow> ('e, 'k, unit) tyop" where
  "timer_sched_add K this tim =
     andthen (set_tims this (\<lambda>ts. ts @ [tim])) (
     bnd (the_sched this) (\<lambda>S.
     andthen (check_tthread (ts_lcore_id S)) (
     bnd (need (\<lambda>s. ty_timers s tim)) (\<lambda>T. rte (tk_reset K tim (tm_hz T) (ts_lcore_id S))))))"

definition timer_sched_del :: "'k timer_api \<Rightarrow> addr \<Rightarrow> addr \<Rightarrow> ('e, 'k, unit) tyop" where
  "timer_sched_del K this tim =
     bnd (the_sched this) (\<lambda>S.
     andthen (check_tthread (ts_lcore_id S)) (
     andthen (rte (tk_stop K tim)) (
     case find_index (\<lambda>t. t = tim) (ts_tims S) of
       Some i \<Rightarrow> set_tims this (erase_at i)
     | None \<Rightarrow> throw Timer_not_found)))"

definition ssn_timer_init :: "'k timer_api \<Rightarrow> ('e, 'k, unit) tyop" where
  "ssn_timer_init K = rte (tk_subsystem_init K)"

subsection \<open>The polling thread\<close>

definition TIMER_RESOLUTION_CYCLES :: u64 where
  "TIMER_RESOLUTION_CYCLES = 20000000"

definition poll_thread_stop :: "('e, 'k, unit) tyop" where
  "poll_thread_stop = modify (\<lambda>s. s\<lparr>ty_running := False\<rparr>)"

text \<open>The start on lcore \<open>here\<close>, which the thread asserts to be its own; one turn of the loop with the last
  time \<open>prev\<close>, which is not initialised; the end.\<close>

definition poll_thread_start :: "addr \<Rightarrow> nat \<Rightarrow> ('e, 'k, unit) tyop" where
  "poll_thread_start this here = bnd (the_sched this) (\<lambda>S.
     andthen (on_lcores (ssn_set_lcore_state SSN_LS_RUNNING_TIMER (ts_lcore_id S))) (
     andthen (need (\<lambda>_. if ts_lcore_id S = here then Some () else None))
     (modify (\<lambda>s. s\<lparr>ty_running := True\<rparr>))))"

definition poll_thread_turn :: "'k timer_api \<Rightarrow> u64 \<Rightarrow> ('e, 'k, u64) tyop" where
  "poll_thread_turn K prev = bnd (gets (\<lambda>s. tk_rdtsc K (ty_rte s))) (\<lambda>cur.
     if TIMER_RESOLUTION_CYCLES < cur - prev then andthen (rte (tk_manage K)) (ret cur) else ret prev)"

definition poll_thread_end :: "addr \<Rightarrow> ('e, 'k, unit) tyop" where
  "poll_thread_end this = bnd (the_sched this) (\<lambda>S. on_lcores (ssn_set_lcore_state SSN_LS_RUNNING_NATIVE (ts_lcore_id S)))"

subsection \<open>Adding and deleting\<close>

lemma on_lcores_state:
  "lcore < length (lcores (ty_threads s)) \<Longrightarrow> on_lcores (ssn_get_lcore_state lcore) s = Some (Return (lcores (ty_threads s) ! lcore), s)"
  "lcore < length (lcores (ty_threads s)) \<Longrightarrow>
     on_lcores (ssn_lcoreid_is_tthread lcore) s = Some (Return (lcores (ty_threads s) ! lcore = SSN_LS_RUNNING_TIMER), s)"
  by (simp_all add: on_lcores_def focus_def ssn_lcoreid_is_tthread_def ssn_get_lcore_state_def need_def bnd_def ret_def)

lemma check_tthread_eq:
  "lcore < length (lcores (ty_threads s)) \<Longrightarrow> check_tthread lcore s =
     (if lcores (ty_threads s) ! lcore = SSN_LS_RUNNING_TIMER then Some (Return (), s)
      else Some (Throw (Not_timer_thread lcore (lcores (ty_threads s) ! lcore)), s))"
  by (simp add: check_tthread_def on_lcores_state ret_def throw_def)

lemma erase_at_end: "tim \<notin> set ts \<Longrightarrow> find_index (\<lambda>t. t = tim) (ts @ [tim]) = Some (length ts) \<and> erase_at (length ts) (ts @ [tim]) = ts"
  by (induction ts) (auto simp: erase_at_def)

text \<open>Adding a timer on an lcore that runs the timer thread arms it, and deleting it again restores the list; on any
  other lcore \<open>add\<close> throws, but the timer stays in the list without being armed.\<close>

theorem timer_add_del:
  assumes "ty_scheds s this = Some S" "ts_lcore_id S < length (lcores (ty_threads s))" "ty_timers s tim = Some T" "tim \<notin> set (ts_tims S)"
  shows "if lcores (ty_threads s) ! ts_lcore_id S = SSN_LS_RUNNING_TIMER
    then andthen (timer_sched_add K this tim) (timer_sched_del K this tim) s =
      Some (Return (), s\<lparr>ty_rte := tk_stop K tim (tk_reset K tim (tm_hz T) (ts_lcore_id S) (ty_rte s))\<rparr>)
    else timer_sched_add K this tim s =
      Some (Throw (Not_timer_thread (ts_lcore_id S) (lcores (ty_threads s) ! ts_lcore_id S)),
        s\<lparr>ty_scheds := (ty_scheds s)(this \<mapsto> S\<lparr>ts_tims := ts_tims S @ [tim]\<rparr>)\<rparr>)"
proof -
  note defs = the_sched_def set_tims_def need_def modify_def rte_def
  let ?s = "s\<lparr>ty_scheds := (ty_scheds s)(this \<mapsto> S\<lparr>ts_tims := ts_tims S @ [tim]\<rparr>)\<rparr>"
  show ?thesis
  proof (cases "lcores (ty_threads s) ! ts_lcore_id S = SSN_LS_RUNNING_TIMER")
    case True
    have a: "timer_sched_add K this tim s = Some (Return (), ?s\<lparr>ty_rte := tk_reset K tim (tm_hz T) (ts_lcore_id S) (ty_rte s)\<rparr>)"
      using assms True by (simp add: timer_sched_add_def defs check_tthread_eq)
    have "s\<lparr>ty_rte := k, ty_scheds := (ty_scheds s)(this \<mapsto> S)\<rparr> = s\<lparr>ty_rte := k\<rparr>" for k
      using assms(1) by (cases s) (simp add: map_upd_triv)
    then show ?thesis
      using assms True erase_at_end [OF assms(4)] a by (simp add: timer_sched_del_def defs check_tthread_eq)
  next
    case False
    then show ?thesis using assms by (simp add: timer_sched_add_def defs check_tthread_eq)
  qed
qed

definition log_timers :: "(addr \<times> nat) list timer_api" where
  "log_timers = \<lparr>tk_subsystem_init = id, tk_init = (\<lambda>p k. k), tk_reset = (\<lambda>p hz lcore k. (p, lcore) # k),
     tk_stop = (\<lambda>p k. filter (\<lambda>x. fst x \<noteq> p) k), tk_manage = id, tk_rdtsc = (\<lambda>k. 5), tk_hz = 1000\<rparr>"

definition demo_timers :: "ssn_lcore_state \<Rightarrow> (unit, (addr \<times> nat) list) timer_sys" where
  "demo_timers st = \<lparr>ty_scheds = [60 \<mapsto> \<lparr>ts_tims = [61], ts_lcore_id = 1\<rparr>], ty_timers = [62 \<mapsto> \<lparr>tm_f = 1, tm_arg = 2, tm_hz = 1000\<rparr>],
     ty_rte = [(61, 1)], ty_running = True, ty_threads = demo_threads\<lparr>lcores := [SSN_LS_WAIT, st]\<rparr>\<rparr>"

theorem timer_add_del_witness:
  "\<exists>t u. andthen (timer_sched_add log_timers 60 62) (timer_sched_del log_timers 60 62) (demo_timers SSN_LS_RUNNING_TIMER) = Some (Return (), t) \<and> ty_rte t = [(61, 1)] \<and>
    timer_sched_add log_timers 60 62 (demo_timers SSN_LS_WAIT) = Some (Throw (Not_timer_thread 1 SSN_LS_WAIT), u) \<and> map_option ts_tims (ty_scheds u 60) = Some [61, 62]"
  using timer_add_del [of "demo_timers SSN_LS_RUNNING_TIMER" 60 "\<lparr>ts_tims = [61], ts_lcore_id = 1\<rparr>" 62 "\<lparr>tm_f = 1, tm_arg = 2, tm_hz = 1000\<rparr>" log_timers]
    timer_add_del [of "demo_timers SSN_LS_WAIT" 60 "\<lparr>ts_tims = [61], ts_lcore_id = 1\<rparr>" 62 "\<lparr>tm_f = 1, tm_arg = 2, tm_hz = 1000\<rparr>" log_timers]
  by (auto simp: demo_timers_def log_timers_def)

end
