(* ===== verification/Nfvi.thy ===== *)
theory Nfvi
  imports Vnf_Apps Ssn_Timer
begin

section \<open>The NFVI (nfvi/ssn_nfvi.h, ssn_nfvi.cc, ssn_vnf_catalog.h, nfvi/ports)\<close>

text \<open>
  The object \<open>ssn_nfvi\<close> owns the VNFs, the ports and the patch panels by name, the catalog of VNFs
  and the timers. Its lists hold addresses of objects in the store of the VNF theories. What \<open>new\<close>
  returns, functions behind pointers, the attachment of devices and the statistics of DPDK are
  parameters. The HTTP server, the load of the processors, the banner and the dumps are left out.
\<close>

datatype dev_class = Dev_tap | Dev_pipe | Dev_pipeattach | Dev_pci | Dev_vhost | Dev_afpacket

record ('h, 'e, 'w, 'r, 'k) nfvi =
  nv_mp :: "addr list"
  nv_catalog :: "(string \<times> addr) list"
  nv_timer_sched :: addr
  nv_timer_tid :: u64
  nv_tims :: "addr list"
  nv_vnfs :: "addr list"
  nv_ports :: "addr list"
  nv_ppps :: "addr list"
  nv_running :: bool
  nv_nrxq :: nat
  nv_ntxq :: nat
  nv_index :: "dev_class \<Rightarrow> nat"      \<comment> \<open>the static counters of the device names\<close>
  nv_store :: "('h, 'e, 'w, 'r) nfv"
  nv_scheds :: "addr \<rightharpoonup> ssn_timer_sched"
  nv_timer_objs :: "addr \<rightharpoonup> ssn_timer"
  nv_rte :: 'k
  nv_polling :: bool

text \<open>\<open>nx_new s k\<close> is the \<open>k\<close>-th address \<open>new\<close> gives in store \<open>s\<close>; \<open>nx_call\<close> calls an allocator of the
  catalog; \<open>nx_attach\<close> is \<open>dpdk::eth_dev_attach\<close> and \<open>nx_attach_slank\<close> its variant for pipes (\<open>None\<close>: it throws).\<close>

record ('h, 'e, 'w, 'r, 'k) nvenv =
  nx_env :: "('h, 'e, 'w, 'r) nenv"
  nx_timer :: "'k timer_api"
  nx_new :: "('h, 'e, 'w, 'r) nfv \<Rightarrow> nat \<Rightarrow> addr"
  nx_call :: "addr \<Rightarrow> string \<Rightarrow> ('h, 'e, 'w, 'r, addr) nop"
  nx_attach :: "string \<Rightarrow> 'h \<Rightarrow> nat option \<times> 'h"
  nx_attach_slank :: "string \<Rightarrow> 'h \<Rightarrow> nat option \<times> 'h"
  nx_numa :: "string \<Rightarrow> nat option"
  nx_stats :: "'h \<Rightarrow> nat \<Rightarrow> rte_eth_stats"
  nx_max_ports :: nat
  nx_junk :: u64

datatype nvi_error = Store_error nfv_error | Timer_err timer_error | Thread_err thread_error | Cname_taken string
  | Timer_absent addr | Port_absent string | Vnf_absent string | Ppp_absent string | Mp_range nat | Catalog_range nat | Attach_failed string | No_numa_node string | Bad_request

type_synonym ('h, 'e, 'w, 'r, 'k, 'a) nvop = "(('h, 'e, 'w, 'r, 'k) nfvi, nvi_error, 'a) op"

definition on_store :: "('h, 'e, 'w, 'r, 'a) nop \<Rightarrow> ('h, 'e, 'w, 'r, 'k, 'a) nvop" where
  "on_store = focus nv_store (\<lambda>t s. s\<lparr>nv_store := t\<rparr>) Store_error"

definition timer_view :: "('h, 'e, 'w, 'r, 'k) nfvi \<Rightarrow> ('e, 'k) timer_sys" where
  "timer_view s = \<lparr>ty_scheds = nv_scheds s, ty_timers = nv_timer_objs s, ty_rte = nv_rte s, ty_running = nv_polling s, ty_threads = thr (nv_store s)\<rparr>"

definition put_timers :: "('e, 'k) timer_sys \<Rightarrow> ('h, 'e, 'w, 'r, 'k) nfvi \<Rightarrow> ('h, 'e, 'w, 'r, 'k) nfvi" where
  "put_timers t s = s\<lparr>nv_scheds := ty_scheds t, nv_timer_objs := ty_timers t, nv_rte := ty_rte t, nv_polling := ty_running t,
     nv_store := (nv_store s)\<lparr>thr := ty_threads t\<rparr>\<rparr>"

definition on_timers :: "('e, 'k, 'a) tyop \<Rightarrow> ('h, 'e, 'w, 'r, 'k, 'a) nvop" where
  "on_timers = focus timer_view put_timers Timer_err"

subsection \<open>The catalog\<close>

definition catalog_at :: "nat \<Rightarrow> (string \<times> addr) list \<Rightarrow> (nvi_error, string \<times> addr) outcome" where
  "catalog_at num c = (if length c \<le> num then Throw (Catalog_range num) else Return (c ! num))"

text \<open>The allocator of the first entry of this name.\<close>

definition alloc_vnf :: "('h, 'e, 'w, 'r, 'k) nvenv \<Rightarrow> string \<Rightarrow> string \<Rightarrow> (string \<times> addr) list \<Rightarrow> ('h, 'e, 'w, 'r, addr) nop" where
  "alloc_vnf X cname iname c = (case find_index (\<lambda>e. fst e = cname) c of
     Some i \<Rightarrow> nx_call X (snd (c ! i)) iname | None \<Rightarrow> ret NULL)"

definition register_vnf :: "string \<Rightarrow> addr \<Rightarrow> (string \<times> addr) list \<Rightarrow> int \<times> (string \<times> addr) list" where
  "register_vnf cname f c = (case find_index (\<lambda>e. fst e = cname) c of Some _ \<Rightarrow> (-1, c) | None \<Rightarrow> (0, c @ [(cname, f)]))"

definition unregister_vnf :: "string \<Rightarrow> (string \<times> addr) list \<Rightarrow> int \<times> (string \<times> addr) list" where
  "unregister_vnf cname c = (case find_index (\<lambda>e. fst e = cname) c of Some i \<Rightarrow> (0, erase_at i c) | None \<Rightarrow> (-1, c))"

definition vnf_register_to_catalog :: "string \<Rightarrow> addr \<Rightarrow> ('h, 'e, 'w, 'r, 'k, unit) nvop" where
  "vnf_register_to_catalog cname f = bnd (gets nv_catalog) (\<lambda>c.
     case find_index (\<lambda>e. fst e = cname) c of
       Some _ \<Rightarrow> throw (Cname_taken cname)
     | None \<Rightarrow> modify (\<lambda>s. s\<lparr>nv_catalog := snd (register_vnf cname f c)\<rparr>))"

text \<open>\<open>main\<close> registers the five VNFs; the addresses are those of their allocators.\<close>

definition main_catalog :: "addr \<Rightarrow> addr \<Rightarrow> addr \<Rightarrow> addr \<Rightarrow> addr \<Rightarrow> ('h, 'e, 'w, 'r, 'k, unit) nvop" where
  "main_catalog f_l2fwd f_delay f_numa f_l3fwd f_acl =
     for_each (\<lambda>(n, f). vnf_register_to_catalog n f)
       [(''l2fwd'', f_l2fwd), (''l2fwd_delay'', f_delay), (''l2fwd_numa'', f_numa), (''l3fwd'', f_l3fwd), (''acl'', f_acl)]"

subsection \<open>Finding by name\<close>

fun find_named :: "(addr \<Rightarrow> ('h, 'e, 'w, 'r, string) nop) \<Rightarrow> string \<Rightarrow> addr list \<Rightarrow> ('h, 'e, 'w, 'r, addr) nop" where
  "find_named nm n [] = ret NULL"
| "find_named nm n (p # ps) = bnd (nm p) (\<lambda>m. if m = n then ret p else find_named nm n ps)"

definition port_name :: "addr \<Rightarrow> ('h, 'e, 'w, 'r, string) nop" where
  "port_name p = bnd (the_port p) (\<lambda>P. ret (vp_name P))"

definition vnf_name :: "addr \<Rightarrow> ('h, 'e, 'w, 'r, string) nop" where
  "vnf_name v = bnd (the_vnf v) (\<lambda>V. ret (vn_name V))"

definition ppp_name :: "addr \<Rightarrow> ('h, 'e, 'w, 'r, string) nop" where
  "ppp_name p = bnd (need (\<lambda>s. deref (panels s) p)) (\<lambda>P. ret (pp_name P))"

definition find_port :: "string \<Rightarrow> ('h, 'e, 'w, 'r, 'k, addr) nvop" where
  "find_port n = bnd (gets nv_ports) (\<lambda>ps. on_store (find_named port_name n ps))"

definition find_vnf :: "string \<Rightarrow> ('h, 'e, 'w, 'r, 'k, addr) nvop" where
  "find_vnf n = bnd (gets nv_vnfs) (\<lambda>vs. on_store (find_named vnf_name n vs))"

definition find_ppp :: "string \<Rightarrow> ('h, 'e, 'w, 'r, 'k, addr) nvop" where
  "find_ppp n = bnd (gets nv_ppps) (\<lambda>ps. on_store (find_named ppp_name n ps))"

subsection \<open>Making objects\<close>

text \<open>The addresses of the panel and of its two rings are the next three of \<open>new\<close>: the rings are members of the panel.\<close>

definition ppp_alloc :: "('h, 'e, 'w, 'r, 'k) nvenv \<Rightarrow> string \<Rightarrow> addr \<Rightarrow> addr \<Rightarrow> ('h, 'e, 'w, 'r, 'k, addr) nvop" where
  "ppp_alloc X iname r l =
     bnd (find_ppp iname) (\<lambda>q.
     if q \<noteq> NULL then ret NULL
     else
       bnd (on_store (virt_cast r)) (\<lambda>r'. bnd (on_store (virt_cast l)) (\<lambda>l'.
       if r' = NULL \<or> l' = NULL then ret NULL
       else
         bnd (on_store (port_deployable r')) (\<lambda>pr.
         bnd (if pr then ret True else on_store (port_deployable l')) (\<lambda>p.
         if p then ret NULL
         else
           bnd (gets (\<lambda>s. nx_new X (nv_store s))) (\<lambda>new.
           andthen (on_store (new_patch_panel (nx_env X) (nx_junk X) (new 0) (new 1) (new 2) iname r l)) (
           andthen (modify (\<lambda>s. s\<lparr>nv_ppps := nv_ppps s @ [new 0]\<rparr>)) (ret (new 0))))))))) "

definition vnf_alloc_from_catalog :: "('h, 'e, 'w, 'r, 'k) nvenv \<Rightarrow> string \<Rightarrow> string \<Rightarrow> ('h, 'e, 'w, 'r, 'k, addr) nvop" where
  "vnf_alloc_from_catalog X cname iname =
     bnd (find_vnf iname) (\<lambda>v.
     if v \<noteq> NULL then ret NULL
     else
       bnd (gets nv_catalog) (\<lambda>c.
       bnd (on_store (alloc_vnf X cname iname c)) (\<lambda>v.
       if v = NULL then ret NULL
       else andthen (modify (\<lambda>s. s\<lparr>nv_vnfs := nv_vnfs s @ [v]\<rparr>)) (ret v))))"

definition append_port :: "addr \<Rightarrow> ('h, 'e, 'w, 'r, 'k, unit) nvop" where
  "append_port p = modify (\<lambda>s. s\<lparr>nv_ports := nv_ports s @ [p]\<rparr>)"

definition get_mp :: "nat \<Rightarrow> ('h, 'e, 'w, 'r, 'k, addr) nvop" where
  "get_mp i = bnd (gets nv_mp) (\<lambda>ms. if i < length ms then ret (ms ! i) else throw (Mp_range i))"

text \<open>A port object at the address \<open>new\<close> gives.\<close>

definition new_port :: "('h, 'e, 'w, 'r, 'k) nvenv \<Rightarrow> ssn_vnf_port \<Rightarrow> ('h, 'e, 'w, 'r, 'k, addr) nvop" where
  "new_port X P = bnd (gets (\<lambda>s. nx_new X (nv_store s) 0)) (\<lambda>p.
     andthen (on_store (modify (\<lambda>s. s\<lparr>vports := (vports s)(p \<mapsto> P)\<rparr>))) (ret p))"

subsection \<open>Devices (nfvi/ports/dpdk_*.h)\<close>

definition attach_dev :: "(string \<Rightarrow> 'h \<Rightarrow> nat option \<times> 'h) \<Rightarrow> string \<Rightarrow> ('h, 'e, 'w, 'r, 'k, nat) nvop" where
  "attach_dev f devargs =
     bnd (gets (\<lambda>s. f devargs (hw (nv_store s)))) (\<lambda>(r, h).
     andthen (on_store (modify (\<lambda>s. s\<lparr>hw := h\<rparr>))) (case r of
       None \<Rightarrow> throw (Attach_failed devargs)
     | Some pid \<Rightarrow> andthen (on_store (modify (\<lambda>s. s\<lparr>stats := ssn_port_stat_init_pid pid (stats s)\<rparr>))) (ret pid)))"

definition bump_index :: "dev_class \<Rightarrow> ('h, 'e, 'w, 'r, 'k, nat) nvop" where
  "bump_index c = andthen (modify (\<lambda>s. s\<lparr>nv_index := (nv_index s)(c := nv_index s c + 1)\<rparr>)) (gets (\<lambda>s. nv_index s c))"

definition vpmd_tap :: "('h, 'e, 'w, 'r, 'k) nvenv \<Rightarrow> string \<Rightarrow> ('h, 'e, 'w, 'r, 'k, nat) nvop" where
  "vpmd_tap X devname = bnd (bump_index Dev_tap) (\<lambda>i. attach_dev (nx_attach X) (''net_tap'' @ dec i @ '',iface='' @ devname))"

definition vpmd_pipe :: "('h, 'e, 'w, 'r, 'k) nvenv \<Rightarrow> ('h, 'e, 'w, 'r, 'k, nat) nvop" where
  "vpmd_pipe X = bnd (bump_index Dev_pipe) (\<lambda>i. attach_dev (nx_attach X) (''net_pipe'' @ dec i))"

text \<open>The counter of attached pipes, an unsigned 64-bit number, starts at 15 and goes down.\<close>

definition vpmd_pipeattach :: "('h, 'e, 'w, 'r, 'k) nvenv \<Rightarrow> string \<Rightarrow> ('h, 'e, 'w, 'r, 'k, nat) nvop" where
  "vpmd_pipeattach X remote =
     andthen (modify (\<lambda>s. s\<lparr>nv_index := (nv_index s)(Dev_pipeattach := (case nv_index s Dev_pipeattach of 0 \<Rightarrow> 2 ^ 64 - 1 | Suc i \<Rightarrow> i))\<rparr>)) (
     bnd (gets (\<lambda>s. nv_index s Dev_pipeattach)) (\<lambda>i. attach_dev (nx_attach_slank X) (''net_pipe'' @ dec i @ '',attach='' @ remote)))"

definition ppmd_pci :: "('h, 'e, 'w, 'r, 'k) nvenv \<Rightarrow> string \<Rightarrow> ('h, 'e, 'w, 'r, 'k, nat) nvop" where
  "ppmd_pci X pci_addr = andthen (bump_index Dev_pci) (attach_dev (nx_attach X) pci_addr)"

definition vpmd_vhost :: "('h, 'e, 'w, 'r, 'k) nvenv \<Rightarrow> string \<Rightarrow> nat \<Rightarrow> ('h, 'e, 'w, 'r, 'k, nat) nvop" where
  "vpmd_vhost X n n_que = bnd (bump_index Dev_vhost) (\<lambda>i. attach_dev (nx_attach X)
     (''net_vhost'' @ dec i @ '',iface=/home/slank/ssn_vhostuser'' @ dec i @ ''_'' @ n @ '',queues='' @ dec n_que))"

definition vpmd_afpacket :: "('h, 'e, 'w, 'r, 'k) nvenv \<Rightarrow> string \<Rightarrow> nat \<Rightarrow> ('h, 'e, 'w, 'r, 'k, nat) nvop" where
  "vpmd_afpacket X ifname n_que = bnd (bump_index Dev_afpacket) (\<lambda>i. attach_dev (nx_attach X)
     (''net_af_packet'' @ dec i @ '',iface='' @ ifname @ '',qpairs='' @ dec n_que))"

definition new_dpdk_port :: "('h, 'e, 'w, 'r, 'k) nvenv \<Rightarrow> string \<Rightarrow> ('h, 'e, 'w, 'r, 'k, nat) nvop \<Rightarrow> ('h, 'e, 'w, 'r, 'k, addr) nvop" where
  "new_dpdk_port X n dev = bnd dev (\<lambda>pid. new_port X (new_vnf_port_dpdk n pid))"

subsection \<open>Deleting objects\<close>

text \<open>The destructors of ports and VNFs are those of the base classes: the blocks of a VNF stay.\<close>

definition del_port :: "addr \<Rightarrow> ('h, 'e, 'w, 'r, 'k, unit) nvop" where
  "del_port p = bnd (gets nv_ports) (\<lambda>ps. case find_index (\<lambda>q. q = p) ps of
     Some i \<Rightarrow> andthen (modify (\<lambda>s. s\<lparr>nv_ports := erase_at i ps\<rparr>)) (on_store (modify (\<lambda>s. s\<lparr>vports := (vports s)(p := None)\<rparr>)))
   | None \<Rightarrow> bnd (on_store (port_name p)) (\<lambda>n. throw (Port_absent n)))"

definition del_vnf :: "addr \<Rightarrow> ('h, 'e, 'w, 'r, 'k, unit) nvop" where
  "del_vnf v = bnd (gets nv_vnfs) (\<lambda>vs. case find_index (\<lambda>w. w = v) vs of
     Some i \<Rightarrow> andthen (modify (\<lambda>s. s\<lparr>nv_vnfs := erase_at i vs\<rparr>)) (on_store (modify (\<lambda>s. s\<lparr>vnfs := (vnfs s)(v := None)\<rparr>)))
   | None \<Rightarrow> bnd (on_store (vnf_name v)) (\<lambda>n. throw (Vnf_absent n)))"

text \<open>The loop runs over as many panels as there are VNFs; \<open>[]\<close> out of range has no value.\<close>

fun find_ppp_index :: "nat list \<Rightarrow> addr \<Rightarrow> addr list \<Rightarrow> nat option option" where
  "find_ppp_index [] p ps = Some None"
| "find_ppp_index (i # is) p ps = (if length ps \<le> i then None else if ps ! i = p then Some (Some i) else find_ppp_index is p ps)"

definition del_ppp :: "addr \<Rightarrow> ('h, 'e, 'w, 'r, 'k, unit) nvop" where
  "del_ppp p = bnd (gets (\<lambda>s. length (nv_vnfs s))) (\<lambda>n_ele. bnd (gets nv_ppps) (\<lambda>ps.
     bnd (need (\<lambda>_. find_ppp_index [0..<n_ele] p ps)) (\<lambda>r. case r of
       Some i \<Rightarrow> andthen (modify (\<lambda>s. s\<lparr>nv_ppps := erase_at i ps\<rparr>)) (on_store (delete_patch_panel p))
     | None \<Rightarrow> bnd (on_store (ppp_name p)) (\<lambda>n. throw (Ppp_absent n)))))"

subsection \<open>Timers, start, loop and end\<close>

definition add_timer :: "('h, 'e, 'w, 'r, 'k) nvenv \<Rightarrow> addr \<Rightarrow> ('h, 'e, 'w, 'r, 'k, unit) nvop" where
  "add_timer X tim =
     andthen (modify (\<lambda>s. s\<lparr>nv_tims := nv_tims s @ [tim]\<rparr>)) (
     bnd (gets nv_timer_sched) (\<lambda>ts. on_timers (timer_sched_add (nx_timer X) ts tim)))"

definition del_timer :: "('h, 'e, 'w, 'r, 'k) nvenv \<Rightarrow> addr \<Rightarrow> ('h, 'e, 'w, 'r, 'k, unit) nvop" where
  "del_timer X tim = bnd (gets nv_tims) (\<lambda>ts. case find_index (\<lambda>t. t = tim) ts of
     Some i \<Rightarrow>
       andthen (modify (\<lambda>s. s\<lparr>nv_tims := erase_at i ts\<rparr>)) (
       bnd (gets nv_timer_sched) (\<lambda>sc.
       andthen (on_timers (timer_sched_del (nx_timer X) sc tim))
       (modify (\<lambda>s. s\<lparr>nv_timer_objs := (nv_timer_objs s)(tim := None)\<rparr>))))
   | None \<Rightarrow> throw (Timer_absent tim))"

definition update_running :: "addr \<Rightarrow> ('h, 'e, 'w, 'r, unit) nop" where
  "update_running v = bnd (is_running v) (\<lambda>r. if r then update_vnf_stats v else ret ())"

text \<open>The timer function that runs each second.\<close>

definition timercallback :: "('h, 'e, 'w, 'r, 'k) nvenv \<Rightarrow> ('h, 'e, 'w, 'r, 'k, unit) nvop" where
  "timercallback X =
     andthen (on_store (modify (\<lambda>s. s\<lparr>stats := ssn_port_stat_update (nx_max_ports X) (nx_stats X (hw s)) (stats s)\<rparr>))) (
     bnd (gets nv_vnfs) (for_each (\<lambda>v. on_store (update_running v))))"

text \<open>\<open>ssn_init\<close> (ssn_common.cc) over \<open>nb_ports\<close> devices, without the boot of DPDK.\<close>

definition ssn_init :: "('h, 'e, 'w, 'r, 'k) nvenv \<Rightarrow> nat \<Rightarrow> ('h, 'e, 'w, 'r, 'k, unit) nvop" where
  "ssn_init X nb_ports =
     andthen (on_store (on_threads (ssn_cpu_init (ne_launch (nx_env X))))) (
     andthen (on_store (on_threads (ssn_native_thread_init (ne_launch (nx_env X))))) (
     andthen (on_timers (ssn_timer_init (nx_timer X)))
     (on_store (modify (\<lambda>s. s\<lparr>stats := ssn_port_stat_init nb_ports (stats s)\<rparr>)))))"

definition ssn_fin :: "('h, 'e, 'w, 'r, 'k) nvenv \<Rightarrow> nat \<Rightarrow> ('h, 'e, 'w, 'r, 'k, unit) nvop" where
  "ssn_fin X nb_ports =
     andthen (on_store (on_threads (ssn_native_thread_fin (ne_launch (nx_env X)))))
     (on_store (modify (\<lambda>s. s\<lparr>stats := ssn_port_stat_fin nb_ports (stats s)\<rparr>)))"

text \<open>The constructor up to the pause of one second, with the memory pools \<open>mps\<close> that were allocated, the new timer
  scheduler at \<open>sc\<close> and the address \<open>poll\<close> of the polling thread; and after it, with the new timer at \<open>tim\<close>.\<close>

definition nfvi_ctor :: "('h, 'e, 'w, 'r, 'k) nvenv \<Rightarrow> addr list \<Rightarrow> addr \<Rightarrow> addr \<Rightarrow> ('h, 'e, 'w, 'r, 'k, unit) nvop" where
  "nfvi_ctor X mps sc poll =
     andthen (modify (\<lambda>s. s\<lparr>nv_nrxq := 8, nv_ntxq := 8, nv_timer_sched := NULL, nv_running := False,
       nv_mp := [], nv_catalog := [], nv_tims := [], nv_vnfs := [], nv_ports := [], nv_ppps := []\<rparr>)) (
     andthen (ssn_init X 0) (
     andthen (modify (\<lambda>s. s\<lparr>nv_mp := mps\<rparr>)) (
     andthen (on_timers (new_timer_sched sc 1)) (
     andthen (modify (\<lambda>s. s\<lparr>nv_timer_sched := sc\<rparr>)) (
     bnd (on_store (on_threads (ssn_native_thread_launch (ne_launch (nx_env X)) poll sc 1))) (\<lambda>tid.
     modify (\<lambda>s. s\<lparr>nv_timer_tid := ucast tid\<rparr>)))))))"

definition nfvi_ctor_timer :: "('h, 'e, 'w, 'r, 'k) nvenv \<Rightarrow> addr \<Rightarrow> addr \<Rightarrow> addr \<Rightarrow> ('h, 'e, 'w, 'r, 'k, unit) nvop" where
  "nfvi_ctor_timer X tim callback this =
     andthen (on_timers (new_ssn_timer (nx_timer X) tim callback this (unat (tk_hz (nx_timer X))))) (add_timer X tim)"

definition stop :: "('h, 'e, 'w, 'r, 'k, unit) nvop" where
  "stop = modify (\<lambda>s. s\<lparr>nv_running := False\<rparr>)"

text \<open>\<open>run\<close> waits until \<open>running\<close> is cleared; this is what follows.\<close>

definition undeploy_running :: "('h, 'e, 'w, 'r) nenv \<Rightarrow> addr \<Rightarrow> ('h, 'e, 'w, 'r, unit) nop" where
  "undeploy_running E v = bnd (is_running v) (\<lambda>r. if r then undeploy E v else ret ())"

definition run_end :: "('h, 'e, 'w, 'r, 'k) nvenv \<Rightarrow> ('h, 'e, 'w, 'r, 'k, unit) nvop" where
  "run_end X = bnd (gets nv_vnfs) (for_each (\<lambda>v. on_store (undeploy_running (nx_env X) v)))"

text \<open>The destructor: the number of timers is taken before the loop that erases them; ports are deleted before the
  panels, whose destructors write to them.\<close>

definition nfvi_destroy :: "('h, 'e, 'w, 'r, 'k) nvenv \<Rightarrow> nat \<Rightarrow> ('h, 'e, 'w, 'r, 'k, unit) nvop" where
  "nfvi_destroy X nb_ports =
     bnd (gets (\<lambda>s. length (nv_tims s))) (\<lambda>n_tims.
     andthen (for_each (\<lambda>i. bnd (need (\<lambda>s. nth_opt (nv_tims s) i)) (del_timer X)) [0..<n_tims]) (
     andthen (modify (\<lambda>s. s\<lparr>nv_scheds := (nv_scheds s)(nv_timer_sched s := None)\<rparr>)) (
     andthen (bnd (gets nv_vnfs) (for_each (\<lambda>v. on_store (modify (\<lambda>s. s\<lparr>vnfs := (vnfs s)(v := None)\<rparr>))))) (
     andthen (bnd (gets nv_ports) (for_each (\<lambda>p. on_store (modify (\<lambda>s. s\<lparr>vports := (vports s)(p := None)\<rparr>))))) (
     andthen (bnd (gets nv_ppps) (for_each (\<lambda>p. on_store (delete_patch_panel p))))
     (ssn_fin X nb_ports))))))"

end
