(* ===== verification/Nfvi_Rest.thy ===== *)
theory Nfvi_Rest
  imports Nfvi
begin

section \<open>The REST interface (nfvi/ssn_rest_api.cc)\<close>

text \<open>
  Every request that changes the NFVI, as one operation from the route table to the reply. A reply
  is the flag and the message of \<open>responce_info\<close>. What the HTTP server hands to a handler (the parts
  of the path, and the fields of the JSON body by their path) are parameters of the request; a field
  that is missing or has the wrong type makes the accessor of the JSON library throw. The requests
  that only read (GET) are in \<open>Nfvi_Json\<close>.
\<close>

datatype reply = Info bool string | Info_error nvi_error | Info_coremask string int u32

record body =
  bd_str :: "string list \<rightharpoonup> string"
  bd_int :: "string list \<rightharpoonup> int"

definition str_field :: "body \<Rightarrow> string list \<Rightarrow> ('h, 'e, 'w, 'r, 'k, string) nvop" where
  "str_field b k = (case bd_str b k of None \<Rightarrow> throw Bad_request | Some x \<Rightarrow> ret x)"

definition int_field :: "body \<Rightarrow> string list \<Rightarrow> ('h, 'e, 'w, 'r, 'k, int) nvop" where
  "int_field b k = (case bd_int b k of None \<Rightarrow> throw Bad_request | Some x \<Rightarrow> ret x)"

definition info :: "bool \<Rightarrow> string \<Rightarrow> ('h, 'e, 'w, 'r, 'k, reply) nvop" where
  "info b m = ret (Info b m)"

text \<open>An \<open>int\<close> where an index is expected.\<close>

definition as_size :: "int \<Rightarrow> nat" where
  "as_size i = nat (i mod 2 ^ 64)"

subsection \<open>The check of a core mask\<close>

text \<open>\<open>(0x1<<i) & coremask != 0\<close> is the conjunction of the bits of \<open>0x1<<i\<close> and of the truth value
  \<open>coremask != 0\<close>. The shift of an \<open>int\<close> by 32 or more has no value.\<close>

definition mask_test :: "u32 \<Rightarrow> nat \<Rightarrow> bool option" where
  "mask_test coremask i = (if i < 32 then Some (and (push_bit i (1 :: u32)) (if coremask \<noteq> 0 then 1 else 0) \<noteq> 0) else None)"

definition coremask_is_valid :: "'e eal_launch \<Rightarrow> u32 \<Rightarrow> ('h, 'e, 'w, 'r, bool) nop" where
  "coremask_is_valid L coremask =
     bnd (scan (\<lambda>i. bnd (need (\<lambda>_. mask_test coremask i)) (\<lambda>b.
       if b
       then bnd (gets (\<lambda>s. el_state L i (eal_state (thr s)))) (\<lambda>st. ret (if st \<noteq> RTE_WAIT then Some False else None))
       else ret None)) [0..<el_count L]) (\<lambda>r. case r of Some x \<Rightarrow> ret x | None \<Rightarrow> ret True)"

subsection \<open>VNFs\<close>

definition vnfs_NAME_POST :: "('h, 'e, 'w, 'r, 'k) nvenv \<Rightarrow> string \<Rightarrow> body \<Rightarrow> ('h, 'e, 'w, 'r, 'k, reply) nvop" where
  "vnfs_NAME_POST X iname b =
     bnd (str_field b [''cname'']) (\<lambda>cname.
     bnd (vnf_alloc_from_catalog X cname iname) (\<lambda>vnf.
     if vnf = NULL then info False ''invalid cname or iname'' else info True ''''))"

definition vnfs_NAME_DELETE :: "string \<Rightarrow> ('h, 'e, 'w, 'r, 'k, reply) nvop" where
  "vnfs_NAME_DELETE iname =
     bnd (find_vnf iname) (\<lambda>vnf.
     if vnf = NULL then info False ''iname is invalid''
     else bnd (on_store (is_deletable vnf)) (\<lambda>d.
       if \<not> d then info False ''vnf is not deletable''
       else andthen (del_vnf vnf) (info True '''')))"

definition vnf_and_pid :: "string \<Rightarrow> int \<Rightarrow> (addr \<Rightarrow> ('h, 'e, 'w, 'r, 'k, reply) nvop) \<Rightarrow> ('h, 'e, 'w, 'r, 'k, reply) nvop" where
  "vnf_and_pid iname pid go =
     bnd (find_vnf iname) (\<lambda>vnf.
     if vnf = NULL then info False ''not found vnf''
     else bnd (on_store (n_ports vnf)) (\<lambda>n.
       if n \<le> as_size pid then info False ''invalid prot id'' else go vnf))"

definition vnfs_NAME_ports_PORTID_PUT :: "string \<Rightarrow> int \<Rightarrow> body \<Rightarrow> ('h, 'e, 'w, 'r, 'k, reply) nvop" where
  "vnfs_NAME_ports_PORTID_PUT iname pid b = vnf_and_pid iname pid (\<lambda>vnf.
     bnd (on_store (is_running vnf)) (\<lambda>r.
     if r then info False ''vnf is still running''
     else
       bnd (str_field b [''pname'']) (\<lambda>pname.
       bnd (find_port pname) (\<lambda>port.
       if port = NULL then info False ''port not found''
       else bnd (on_store (is_attached_vnf port)) (\<lambda>a.
         if a then info False ''port has attached vnf''
         else bnd (on_store (attach_port vnf (as_size pid) port)) (\<lambda>ret.
           if ret < 0 then info False ''vnf::attach_port returned -1'' else info True ''''))))))"

definition vnfs_NAME_ports_PORTID_DELETE :: "string \<Rightarrow> int \<Rightarrow> ('h, 'e, 'w, 'r, 'k, reply) nvop" where
  "vnfs_NAME_ports_PORTID_DELETE iname pid = vnf_and_pid iname pid (\<lambda>vnf.
     bnd (on_store (is_running vnf)) (\<lambda>r.
     if r then info False ''vnf is still running''
     else bnd (on_store (dettach_port vnf (as_size pid))) (\<lambda>ret.
       if ret < 0 then info False ''vnf::dettach_port returned -1'' else info True '''')))"

text \<open>The VNF of this name, if it is not running.\<close>

definition stopped_vnf :: "string \<Rightarrow> string \<Rightarrow> (addr \<Rightarrow> ('h, 'e, 'w, 'r, 'k, reply) nvop) \<Rightarrow> ('h, 'e, 'w, 'r, 'k, reply) nvop" where
  "stopped_vnf iname msg go =
     bnd (find_vnf iname) (\<lambda>vnf.
     if vnf = NULL then info False ''not found vnf''
     else bnd (on_store (is_running vnf)) (\<lambda>r. if r then info False msg else go vnf))"

definition vnfs_NAME_coremask_BLOCKID_PUT :: "('h, 'e, 'w, 'r, 'k) nvenv \<Rightarrow> string \<Rightarrow> int \<Rightarrow> body \<Rightarrow> ('h, 'e, 'w, 'r, 'k, reply) nvop" where
  "vnfs_NAME_coremask_BLOCKID_PUT X iname blockId b = stopped_vnf iname ''vnf still running'' (\<lambda>vnf.
     bnd (on_store (vnf_block_coremask vnf (as_size blockId))) (\<lambda>m.
     if m \<noteq> 0 then info False ''vnf is not reset yet''
     else
       bnd (int_field b [''coremask'']) (\<lambda>c. let coremask = of_int c in
       bnd (on_store (coremask_is_valid (ne_launch (nx_env X)) coremask)) (\<lambda>v.
       if \<not> v then info False ''coremask is invalid''
       else bnd (on_store (set_coremask (nx_env X) vnf (as_size blockId) coremask)) (\<lambda>r.
         if r < 0 then info False ''vnf can't set coremask''
         else bnd (on_store (vnf_name vnf)) (\<lambda>n. ret (Info_coremask n blockId coremask)))))))"

definition vnfs_NAME_reset_PUT :: "('h, 'e, 'w, 'r, 'k) nvenv \<Rightarrow> string \<Rightarrow> ('h, 'e, 'w, 'r, 'k, reply) nvop" where
  "vnfs_NAME_reset_PUT X iname = stopped_vnf iname ''vnf still running'' (\<lambda>vnf.
     bnd (on_store (vnf_reset (nx_env X) vnf)) (\<lambda>ret.
     if ret < 0 then info False ''vnf can't reset port-access-config'' else info True ''reset vnf's running config''))"

definition vnfs_NAME_deploy_PUT :: "('h, 'e, 'w, 'r, 'k) nvenv \<Rightarrow> string \<Rightarrow> ('h, 'e, 'w, 'r, 'k, reply) nvop" where
  "vnfs_NAME_deploy_PUT X iname = stopped_vnf iname ''already running'' (\<lambda>vnf.
     bnd (on_store (deploy (nx_env X) vnf)) (\<lambda>ret.
     if ret < 0 then info False ''vnf could't deploy'' else info True ''deploy successful''))"

definition vnfs_NAME_undeploy_PUT :: "('h, 'e, 'w, 'r, 'k) nvenv \<Rightarrow> string \<Rightarrow> ('h, 'e, 'w, 'r, 'k, reply) nvop" where
  "vnfs_NAME_undeploy_PUT X iname =
     bnd (find_vnf iname) (\<lambda>vnf.
     if vnf = NULL then info False ''not found vnf''
     else bnd (on_store (is_running vnf)) (\<lambda>r.
       if \<not> r then info False ''vnf is not running''
       else andthen (on_store (undeploy (nx_env X) vnf)) (info True ''undeploy successful'')))"

subsection \<open>Ports\<close>

text \<open>The steps after \<open>new\<close> in the branches of the handler.\<close>

definition give_mp :: "nat \<Rightarrow> addr \<Rightarrow> ('h, 'e, 'w, 'r, 'k, unit) nvop" where
  "give_mp socket p = bnd (get_mp socket) (\<lambda>m. on_store (set_mp m p))"

definition hw_queues :: "('h, 'e, 'w, 'r, 'k) nvenv \<Rightarrow> addr \<Rightarrow> ('h, 'e, 'w, 'r, 'k, unit) nvop" where
  "hw_queues X p = bnd (gets nv_nrxq) (\<lambda>n. bnd (gets nv_ntxq) (\<lambda>m. on_store (config_hw (nx_env X) n m p)))"

definition same_queues :: "('h, 'e, 'w, 'r, 'k, nat) nvop" where
  "same_queues = need (\<lambda>s. if nv_nrxq s = nv_ntxq s then Some (nv_nrxq s) else None)"

definition make_port :: "('h, 'e, 'w, 'r, 'k) nvenv \<Rightarrow> string \<Rightarrow> body \<Rightarrow> string \<Rightarrow> ('h, 'e, 'w, 'r, 'k, reply option) nvop" where
  "make_port X pname b cname =
     (if cname = ''tap'' then
        bnd (str_field b [''options'', ''ifname'']) (\<lambda>ifname.
        bnd (new_dpdk_port X pname (vpmd_tap X ifname)) (\<lambda>p.
        andthen (give_mp 0 p) (andthen (append_port p) (ret None))))
      else if cname = ''pipe'' then
        bnd same_queues (\<lambda>_.
        bnd (new_dpdk_port X pname (vpmd_pipe X)) (\<lambda>p.
        andthen (give_mp 0 p) (andthen (hw_queues X p) (andthen (append_port p) (ret None)))))
      else if cname = ''pci'' then
        bnd (str_field b [''options'', ''pciaddr'']) (\<lambda>pciaddr.
        bnd (new_dpdk_port X pname (ppmd_pci X pciaddr)) (\<lambda>p.
        bnd (case nx_numa X pciaddr of None \<Rightarrow> throw (No_numa_node pciaddr) | Some i \<Rightarrow> ret i) (\<lambda>socket.
        andthen (give_mp socket p) (andthen (hw_queues X p) (andthen (append_port p) (ret None))))))
      else if cname = ''vhost'' then
        bnd same_queues (\<lambda>n.
        bnd (new_dpdk_port X pname (vpmd_vhost X pname n)) (\<lambda>p.
        andthen (give_mp 0 p) (andthen (hw_queues X p) (andthen (append_port p) (ret None)))))
      else if cname = ''afpacket'' then
        bnd (str_field b [''options'', ''ifname'']) (\<lambda>ifname.
        bnd same_queues (\<lambda>n.
        bnd (new_dpdk_port X pname (vpmd_afpacket X ifname n)) (\<lambda>p.
        andthen (give_mp 0 p) (andthen (hw_queues X p) (andthen (append_port p) (ret None))))))
      else if cname = ''virt'' then
        bnd (new_port X (new_vnf_port_virt pname)) (\<lambda>p.
        andthen (hw_queues X p) (andthen (append_port p) (ret None)))
      else ret (Some (Info False ''catalog name is invalid'')))"

text \<open>The whole of it is under \<open>try\<close>.\<close>

definition ports_NAME_POST :: "('h, 'e, 'w, 'r, 'k) nvenv \<Rightarrow> string \<Rightarrow> body \<Rightarrow> ('h, 'e, 'w, 'r, 'k, reply) nvop" where
  "ports_NAME_POST X pname b =
     bnd (find_port pname) (\<lambda>q.
     if q \<noteq> NULL then info False ''pname already exists''
     else
       bnd (str_field b [''cname'']) (\<lambda>cname.
       bnd (catch (make_port X pname b cname) (\<lambda>e. ret (Some (Info_error e)))) (\<lambda>r. case r of
         Some x \<Rightarrow> ret x
       | None \<Rightarrow> bnd (find_port pname) (\<lambda>_. info True ''''))))"

definition ports_NAME_DELETE :: "string \<Rightarrow> ('h, 'e, 'w, 'r, 'k, reply) nvop" where
  "ports_NAME_DELETE pname =
     bnd (find_port pname) (\<lambda>port.
     if port = NULL then info False ''port not found''
     else bnd (on_store (is_attached_vnf port)) (\<lambda>a.
       if a then info False ''port still attached to vnf''
       else andthen (del_port port) (info True '''')))"

subsection \<open>Patch panels\<close>

definition ppps_NAME_POST :: "('h, 'e, 'w, 'r, 'k) nvenv \<Rightarrow> string \<Rightarrow> body \<Rightarrow> ('h, 'e, 'w, 'r, 'k, reply) nvop" where
  "ppps_NAME_POST X name b =
     bnd (find_ppp name) (\<lambda>q.
     if q \<noteq> NULL then info False ''ppp already exists''
     else
       bnd (str_field b [''right'']) (\<lambda>right_name.
       bnd (str_field b [''left'']) (\<lambda>left_name.
       bnd (find_port right_name) (\<lambda>right_port.
       bnd (find_port left_name) (\<lambda>left_port.
       bnd (ppp_alloc X name right_port left_port) (\<lambda>ppp.
       if ppp = NULL then info False ''unsuccess to allocate ppp'' else info True ''''))))))"

definition ppps_NAME_DELETE :: "string \<Rightarrow> ('h, 'e, 'w, 'r, 'k, reply) nvop" where
  "ppps_NAME_DELETE name =
     bnd (find_ppp name) (\<lambda>ppp.
     if ppp = NULL then info False ''ppp not found''
     else bnd (on_store (panel_deletable ppp)) (\<lambda>d.
       if \<not> d then info False ''ppp is not deletable''
       else andthen (del_ppp ppp) (info True '''')))"

subsection \<open>The routes\<close>

datatype request =
    Post_vnf string body | Delete_vnf string
  | Put_vnf_port string int body | Delete_vnf_port string int
  | Put_coremask string int body | Put_reset string | Put_deploy string | Put_undeploy string
  | Post_port string body | Delete_port string
  | Post_ppp string body | Delete_ppp string

fun handle :: "('h, 'e, 'w, 'r, 'k) nvenv \<Rightarrow> request \<Rightarrow> ('h, 'e, 'w, 'r, 'k, reply) nvop" where
  "handle X (Post_vnf n b) = vnfs_NAME_POST X n b"
| "handle X (Delete_vnf n) = vnfs_NAME_DELETE n"
| "handle X (Put_vnf_port n i b) = vnfs_NAME_ports_PORTID_PUT n i b"
| "handle X (Delete_vnf_port n i) = vnfs_NAME_ports_PORTID_DELETE n i"
| "handle X (Put_coremask n i b) = vnfs_NAME_coremask_BLOCKID_PUT X n i b"
| "handle X (Put_reset n) = vnfs_NAME_reset_PUT X n"
| "handle X (Put_deploy n) = vnfs_NAME_deploy_PUT X n"
| "handle X (Put_undeploy n) = vnfs_NAME_undeploy_PUT X n"
| "handle X (Post_port n b) = ports_NAME_POST X n b"
| "handle X (Delete_port n) = ports_NAME_DELETE n"
| "handle X (Post_ppp n b) = ppps_NAME_POST X n b"
| "handle X (Delete_ppp n) = ppps_NAME_DELETE n"

text \<open>A sequence of requests; an exception ends its request only. The outcomes, and the state after.\<close>

fun serve :: "('h, 'e, 'w, 'r, 'k) nvenv \<Rightarrow> request list \<Rightarrow> ('h, 'e, 'w, 'r, 'k) nfvi \<Rightarrow>
    ((nvi_error, reply) outcome list \<times> ('h, 'e, 'w, 'r, 'k) nfvi) option" where
  "serve X [] s = Some ([], s)"
| "serve X (q # qs) s = (case handle X q s of None \<Rightarrow> None | Some (r, t) \<Rightarrow> map_option (\<lambda>(rs, u). (r # rs, u)) (serve X qs t))"

end
