(* ===== verification/Nfvi_Registry.thy ===== *)
theory Nfvi_Registry
  imports Nfvi_Rest
begin

section \<open>The registry of VNFs and ports under requests\<close>

text \<open>
  The requests that create and delete VNFs and ports and that attach and detach them, in any order,
  from any state in which the registry is sound: every address it holds is that of a live object,
  names are unique, and the links between VNFs and ports agree (\<open>links_ok\<close>).
\<close>

subsection \<open>Addresses and allocators\<close>

definition addrs :: "('h, 'e, 'w, 'r) nfv \<Rightarrow> addr set" where
  "addrs s = dom (vports s) \<union> dom (vblocks s) \<union> dom (vnfs s) \<union> dom (panels s) \<union> dom (marings s)"

text \<open>What \<open>new\<close> promises: addresses that nobody holds.\<close>

locale address_source =
  fixes new :: "('h, 'e, 'w, 'r) nfv \<Rightarrow> nat \<Rightarrow> addr"
  assumes new_free: "finite (addrs s) \<Longrightarrow> new s k \<noteq> NULL \<and> new s k \<notin> addrs s"
    and new_inj: "finite (addrs s) \<Longrightarrow> inj (new s)"

text \<open>A VNF at \<open>v\<close> that has just been made.\<close>

definition made :: "addr \<Rightarrow> string \<Rightarrow> ('h, 'e, 'w, 'r) nfv \<Rightarrow> ('h, 'e, 'w, 'r) nfv \<Rightarrow> bool" where
  "made v n s t \<longleftrightarrow> v \<noteq> NULL \<and> v \<notin> addrs s \<and> vports t = vports s \<and> mports t = mports s \<and> finite (addrs t) \<and>
     (\<forall>b\<in>dom (vblocks s). vblocks t b = vblocks s b) \<and>
     (\<exists>V. vnfs t = (vnfs s)(v \<mapsto> V) \<and> vn_name V = n \<and> set (vn_ports V) \<subseteq> {NULL} \<and>
       (\<forall>b\<in>set (vn_blocks V). b \<noteq> NULL \<and> (\<exists>B. vblocks t b = Some B \<and> vb_ports B = v)))"

lemma made_simps [simp]: "\<not> made NULL n s t" "\<not> made v n s s"
proof -
  show "\<not> made v n s s"
  proof
    assume "made v n s s"
    then obtain V where "vnfs s = (vnfs s)(v \<mapsto> V)" "vnfs s v = None" unfolding made_def addrs_def by blast
    then show False by (metis fun_upd_same option.distinct(1))
  qed
qed (simp add: made_def)

text \<open>What an allocator of the catalog promises.\<close>

locale vnf_maker =
  fixes make :: "string \<Rightarrow> ('h, 'e, 'w, 'r, addr) nop"
  assumes make_vnf: "finite (addrs s) \<Longrightarrow>
    wp (make n) (\<lambda>r t. case r of Throw e \<Rightarrow> t = s | Return v \<Rightarrow> (v = NULL \<and> t = s) \<or> made v n s t) s"

text \<open>Both on the model: the first addresses above all that are in use, and the allocators that \<open>main\<close> registers
  and that need no lookup tables, by their addresses 1, 2 and 3.\<close>

definition fresh_addr :: "('h, 'e, 'w, 'r) nfv \<Rightarrow> nat \<Rightarrow> addr" where
  "fresh_addr s k = Suc (Max (insert 0 (addrs s)) + k)"

definition plain_alloc :: "('h, 'e, 'w, 'r) nenv \<Rightarrow> u32 \<Rightarrow> nat \<Rightarrow> addr \<Rightarrow> string \<Rightarrow> ('h, 'e, 'w, 'r, addr) nop" where
  "plain_alloc E j1 j2 f n = bnd (gets fresh_addr) (\<lambda>new.
     if f = 1 then ssn_vnfalloc_l2fwd E j1 j2 (new 0) (new 1) n
     else if f = 2 then ssn_vnfalloc_l2fwd_delay E j1 j2 (new 0) (new 1) n
     else if f = 3 then ssn_vnfalloc_l2fwd_numa E j1 j2 (new 0) (new 1) (new 2) n
     else ret NULL)"

interpretation fresh: address_source fresh_addr
proof
  fix s :: "('h, 'e, 'w, 'r) nfv" and k assume "finite (addrs s)"
  then have "fresh_addr s k > a" if "a \<in> addrs s" for a
    using Max_ge [of "insert 0 (addrs s)" a] that \<open>finite (addrs s)\<close> by (simp add: fresh_addr_def le_imp_less_Suc trans_le_add1 del: Max_insert)
  then show "fresh_addr s k \<noteq> NULL \<and> fresh_addr s k \<notin> addrs s" by (auto simp: fresh_addr_def)
qed (simp add: fresh_addr_def inj_def)

lemma add_blocks_made:
  assumes "finite (addrs s)" "v \<noteq> NULL" "v \<notin> addrs s" "distinct (map fst bs)" "\<forall>b\<in>fst ` set bs. b \<noteq> NULL \<and> b \<notin> addrs s"
  shows "wp (add_blocks E j1 j2 v n bs) (\<lambda>r t. r = Return v \<and> made v n s t) s"
proof -
  let ?bl = "\<lambda>b. case map_of bs b of None \<Rightarrow> vblocks s b | Some (bn, c) \<Rightarrow> Some (new_vnf_block E j1 j2 v bn c)"
  let ?t = "s\<lparr>vnfs := (vnfs s)(v \<mapsto> (new_vnf 2 n)\<lparr>vn_blocks := map fst bs\<rparr>), vblocks := ?bl\<rparr>"
  have "dom ?bl = dom (vblocks s) \<union> fst ` set bs" by (auto simp: dom_map_of_conv_image_fst [symmetric] split: option.splits)
  then have fin: "finite (addrs ?t)" using assms(1) by (simp add: addrs_def)
  have old: "map_of bs b = None" if "b \<in> dom (vblocks s)" for b using that assms(5) by (auto simp: map_of_eq_None_iff addrs_def)
  have new: "\<exists>bn c. map_of bs b = Some (bn, c)" if "b \<in> fst ` set bs" for b
    using that by (metis dom_map_of_conv_image_fst domD surj_pair)
  have "b \<noteq> NULL \<and> (\<exists>B. ?bl b = Some B \<and> vb_ports B = v)" if "b \<in> fst ` set bs" for b
    using new [OF that] assms(5) that by (auto simp: new_vnf_block_def)
  then show ?thesis
    using assms(2,3) fin old by (auto simp: add_blocks_def made_def new_vnf_def wp_ops)
qed

interpretation plain: vnf_maker "plain_alloc E j1 j2 f" for E j1 j2 f
proof
  fix n and s :: "('a, 'b, 'c, 'd) nfv" assume fin: "finite (addrs s)"
  note free = fresh.new_free [OF fin]
  have ne: "fresh_addr s i = fresh_addr s j \<longleftrightarrow> i = j" for i j using fresh.new_inj [OF fin] by (simp add: inj_eq)
  have "wp (add_blocks E j1 j2 (fresh_addr s 0) n bs) (\<lambda>r t. case r of Throw e \<Rightarrow> t = s | Return v \<Rightarrow> (v = NULL \<and> t = s) \<or> made v n s t) s"
    if "distinct (map fst bs)" "\<forall>b\<in>fst ` set bs. b \<noteq> NULL \<and> b \<notin> addrs s" for bs
    by (rule wp_conseq [OF add_blocks_made [OF fin]]) (use free that in auto)
  then show "wp (plain_alloc E j1 j2 f n) (\<lambda>r t. case r of Throw e \<Rightarrow> t = s | Return v \<Rightarrow> (v = NULL \<and> t = s) \<or> made v n s t) s"
    using free ne by (simp add: plain_alloc_def wp_ops ssn_vnfalloc_l2fwd_def ssn_vnfalloc_l2fwd_delay_def ssn_vnfalloc_l2fwd_numa_def)
qed

subsection \<open>The invariant\<close>

definition port_named :: "('h, 'e, 'w, 'r) nfv \<Rightarrow> addr \<Rightarrow> string" where
  "port_named t p = vp_name (the (vports t p))"

definition vnf_named :: "('h, 'e, 'w, 'r) nfv \<Rightarrow> addr \<Rightarrow> string" where
  "vnf_named t v = vn_name (the (vnfs t v))"

definition registry_ok :: "('h, 'e, 'w, 'r, 'k) nfvi \<Rightarrow> bool" where
  "registry_ok s \<longleftrightarrow> links_ok (nv_store s) \<and> finite (addrs (nv_store s)) \<and> length (mports (nv_store s)) = RTE_MAX_ETHPORTS \<and> nv_nrxq s = nv_ntxq s \<and>
     set (nv_vnfs s) \<subseteq> dom (vnfs (nv_store s)) \<and> distinct (map (vnf_named (nv_store s)) (nv_vnfs s)) \<and>
     set (nv_ports s) \<subseteq> dom (vports (nv_store s)) - {NULL} \<and> distinct (map (port_named (nv_store s)) (nv_ports s))"

definition keeps :: "('h, 'e, 'w, 'r, 'k, 'a) nvop \<Rightarrow> ('h, 'e, 'w, 'r, 'k) nfvi \<Rightarrow> bool" where
  "keeps m s \<longleftrightarrow> wp m (\<lambda>r t. registry_ok t) s"

lemma registry_okD:
  assumes "registry_ok s"
  shows "links_ok (nv_store s)" "finite (addrs (nv_store s))" "length (mports (nv_store s)) = RTE_MAX_ETHPORTS" "nv_nrxq s = nv_ntxq s"
    "v \<in> set (nv_vnfs s) \<Longrightarrow> v \<noteq> NULL \<and> (\<exists>V. vnfs (nv_store s) v = Some V)" "distinct (map (vnf_named (nv_store s)) (nv_vnfs s))"
    "p \<in> set (nv_ports s) \<Longrightarrow> p \<noteq> NULL \<and> (\<exists>P. vports (nv_store s) p = Some P)" "distinct (map (port_named (nv_store s)) (nv_ports s))"
proof -
  show "v \<in> set (nv_vnfs s) \<Longrightarrow> v \<noteq> NULL \<and> (\<exists>V. vnfs (nv_store s) v = Some V)"
    using assms links_okD(5) [of "nv_store s"] unfolding registry_ok_def by blast
  show "p \<in> set (nv_ports s) \<Longrightarrow> p \<noteq> NULL \<and> (\<exists>P. vports (nv_store s) p = Some P)"
    using assms by (auto simp: registry_ok_def)
qed (use assms in \<open>simp_all add: registry_ok_def\<close>)

lemma wp_on_store:
  "wp (on_store m) Q s = wp m (\<lambda>r t. Q (case r of Throw e \<Rightarrow> Throw (Store_error e) | Return x \<Rightarrow> Return x) (s\<lparr>nv_store := t\<rparr>)) (nv_store s)"
  by (simp add: on_store_def)

text \<open>A read of the store.\<close>

lemma on_store_read: "m (nv_store s) = Some (Return x, nv_store s) \<Longrightarrow> on_store m s = Some (Return x, s)"
  by (simp add: on_store_def focus_def)

subsection \<open>Finding\<close>

lemma find_named_ok:
  assumes "\<And>p. p \<in> set ps \<Longrightarrow> nm p t = Some (Return (name p), t)"
  shows "find_named nm n ps t = Some (Return (case find (\<lambda>p. name p = n) ps of None \<Rightarrow> NULL | Some p \<Rightarrow> p), t)"
  using assms by (induction ps) (simp_all add: ret_def)

lemma found:
  fixes name :: "addr \<Rightarrow> string"
  assumes "\<And>p. p \<in> set ps \<Longrightarrow> p \<noteq> NULL" "r = (case find (\<lambda>p. name p = n) ps of None \<Rightarrow> NULL | Some p \<Rightarrow> p)"
  shows "if r = NULL then n \<notin> name ` set ps else r \<in> set ps \<and> name r = n"
  using assms by (induction ps) (auto split: if_splits)

lemma find_vnf_ok:
  assumes ok: "registry_ok s"
  shows "\<exists>v. find_vnf n s = Some (Return v, s) \<and> (if v = NULL then n \<notin> vnf_named (nv_store s) ` set (nv_vnfs s)
    else v \<in> set (nv_vnfs s) \<and> vnf_named (nv_store s) v = n \<and> (\<exists>V. vnfs (nv_store s) v = Some V))"
proof -
  note D = registry_okD [OF ok]
  have "vnf_name v (nv_store s) = Some (Return (vnf_named (nv_store s) v), nv_store s)" if "v \<in> set (nv_vnfs s)" for v
    using D(5) [OF that] by (auto simp: vnf_name_def the_vnf_def need_def deref_def bnd_def ret_def vnf_named_def)
  from find_named_ok [of "nv_vnfs s" vnf_name, OF this, where n = n]
  have "find_vnf n s = Some (Return (case find (\<lambda>v. vnf_named (nv_store s) v = n) (nv_vnfs s) of None \<Rightarrow> NULL | Some v \<Rightarrow> v), s)"
    by (simp add: find_vnf_def gets_def on_store_read)
  then show ?thesis using found [OF _ refl, of "nv_vnfs s" "vnf_named (nv_store s)" n] D(5) by (force simp: Let_def split: if_splits)
qed

lemma find_port_ok:
  assumes ok: "registry_ok s"
  shows "\<exists>p. find_port n s = Some (Return p, s) \<and> (if p = NULL then n \<notin> port_named (nv_store s) ` set (nv_ports s)
    else p \<in> set (nv_ports s) \<and> port_named (nv_store s) p = n \<and> (\<exists>P. vports (nv_store s) p = Some P))"
proof -
  note D = registry_okD [OF ok]
  have "port_name p (nv_store s) = Some (Return (port_named (nv_store s) p), nv_store s)" if "p \<in> set (nv_ports s)" for p
    using D(7) [OF that] by (auto simp: port_name_def the_port_def need_def deref_def bnd_def ret_def port_named_def)
  from find_named_ok [of "nv_ports s" port_name, OF this, where n = n]
  have "find_port n s = Some (Return (case find (\<lambda>p. port_named (nv_store s) p = n) (nv_ports s) of None \<Rightarrow> NULL | Some p \<Rightarrow> p), s)"
    by (simp add: find_port_def gets_def on_store_read)
  then show ?thesis using found [OF _ refl, of "nv_ports s" "port_named (nv_store s)" n] D(7) by (force simp: Let_def split: if_splits)
qed

text \<open>Rules for the first step of the handlers.\<close>

lemma wp_find_vnf:
  assumes "registry_ok s"
    and "n \<notin> vnf_named (nv_store s) ` set (nv_vnfs s) \<Longrightarrow> wp (go NULL) Q s"
    and "\<And>v V. v \<noteq> NULL \<Longrightarrow> v \<in> set (nv_vnfs s) \<Longrightarrow> vnfs (nv_store s) v = Some V \<Longrightarrow> wp (go v) Q s"
  shows "wp (bnd (find_vnf n) go) Q s"
  using find_vnf_ok [OF assms(1), of n] assms(2,3) by (auto simp: wp_bnd onret_def wp_def split: if_splits)

lemma wp_find_port:
  assumes "registry_ok s"
    and "n \<notin> port_named (nv_store s) ` set (nv_ports s) \<Longrightarrow> wp (go NULL) Q s"
    and "\<And>p P. p \<noteq> NULL \<Longrightarrow> p \<in> set (nv_ports s) \<Longrightarrow> vports (nv_store s) p = Some P \<Longrightarrow> wp (go p) Q s"
  shows "wp (bnd (find_port n) go) Q s"
  using find_port_ok [OF assms(1), of n] assms(2,3) by (auto simp: wp_bnd onret_def wp_def split: if_splits)

subsection \<open>Reads\<close>

lemma is_running_read:
  assumes "links_ok t" "vnfs t v = Some V"
  shows "\<exists>b. is_running v t = Some (Return b, t)"
proof -
  have v: "v \<noteq> NULL" using assms by (auto dest: links_okD)
  let ?g = "\<lambda>i. if vb_running (the (vblocks t (vn_blocks V ! i))) then None else Some False"
  have B: "b \<noteq> NULL \<and> (\<exists>B. vblocks t b = Some B)" if "b \<in> set (vn_blocks V)" for b
    using assms that unfolding links_ok_def by blast
  let ?f = "\<lambda>i. bnd (vnf_block_at v i) (\<lambda>b. bnd (block_is_running b) (\<lambda>r. ret (if r then None else Some False)))"
  have step: "?f i t = Some (Return (?g i), t)" if "i \<in> set [0..<length (vn_blocks V)]" for i
  proof -
    have i: "i < length (vn_blocks V)" using that by simp
    from B [OF nth_mem [OF i]] obtain B where "vn_blocks V ! i \<noteq> NULL" "vblocks t (vn_blocks V ! i) = Some B" by blast
    then show ?thesis
      using assms(2) v i by (simp add: vnf_block_at_def the_vnf_def block_is_running_def the_block_def need_def deref_def bnd_def ret_def at_vec_def)
  qed
  have "scan ?f [0..<length (vn_blocks V)] t = Some (Return (case find (\<lambda>i. ?g i \<noteq> None) [0..<length (vn_blocks V)] of None \<Rightarrow> None | Some i \<Rightarrow> ?g i), t)"
    by (rule scan_read) (rule step)
  then obtain r where r: "scan ?f [0..<length (vn_blocks V)] t = Some (Return r, t)" by blast
  have "n_blocks v t = Some (Return (length (vn_blocks V)), t)"
    using assms(2) v by (simp add: n_blocks_def the_vnf_def need_def deref_def bnd_def ret_def)
  then show ?thesis unfolding is_running_def scan_blocks_def using r by (cases r) (auto simp: ret_def)
qed

lemma empty_slot: "set xs \<subseteq> {NULL} \<Longrightarrow> i < length xs \<Longrightarrow> xs ! i = NULL"
  using nth_mem [of i xs] by blast

lemma is_deletable_read:
  assumes "vnfs t v = Some V" "v \<noteq> NULL"
  shows "is_deletable v t = Some (Return (set (vn_ports V) \<subseteq> {NULL}), t)"
proof -
  let ?g = "\<lambda>i. if vn_ports V ! i \<noteq> NULL then Some False else None"
  let ?f = "\<lambda>i. bnd (vnf_port_at v i) (\<lambda>p. ret (if p \<noteq> NULL then Some False else None))"
  have step: "?f i t = Some (Return (?g i), t)" if "i \<in> set [0..<length (vn_ports V)]" for i
    using assms that by (simp add: vnf_port_at_def the_vnf_def need_def deref_def bnd_def ret_def nth_opt_def)
  have "scan ?f [0..<length (vn_ports V)] t = Some (Return (case find (\<lambda>i. ?g i \<noteq> None) [0..<length (vn_ports V)] of None \<Rightarrow> None | Some i \<Rightarrow> ?g i), t)"
    by (rule scan_read) (rule step)
  moreover have "(case find (\<lambda>i. ?g i \<noteq> None) xs of None \<Rightarrow> None | Some i \<Rightarrow> ?g i) = (if \<forall>i\<in>set xs. vn_ports V ! i = NULL then None else Some False)" for xs
    by (induction xs) auto
  moreover have "(\<forall>i\<in>set [0..<length (vn_ports V)]. vn_ports V ! i = NULL) \<longleftrightarrow> set (vn_ports V) \<subseteq> {NULL}"
    using empty_slot [of "vn_ports V"] by (auto simp: in_set_conv_nth)
  ultimately have "scan ?f [0..<length (vn_ports V)] t = Some (Return (if set (vn_ports V) \<subseteq> {NULL} then None else Some False), t)"
    by (simp only:)
  then show ?thesis
    using assms unfolding is_deletable_def scan_ports_def
    by (simp add: n_ports_def the_vnf_def need_def deref_def bnd_def ret_def)
qed

subsection \<open>Changes of the store\<close>

lemma slots_cong: "vnfs t = vnfs s \<Longrightarrow> slots t = slots s"
  by (simp add: slots_def)

lemma links_ok_new_vnf:
  assumes ok: "links_ok s" and m: "made v n s t"
  shows "links_ok t"
proof -
  obtain V where V: "vnfs t = (vnfs s)(v \<mapsto> V)" "set (vn_ports V) \<subseteq> {NULL}" "\<forall>b\<in>set (vn_blocks V). b \<noteq> NULL \<and> (\<exists>B. vblocks t b = Some B \<and> vb_ports B = v)"
    and v: "v \<noteq> NULL" "vnfs s v = None" and pt: "vports t = vports s" and bl: "\<forall>b\<in>dom (vblocks s). vblocks t b = vblocks s b"
    using m unfolding made_def addrs_def by blast
  have "slots t (u, i) = slots s (u, i)" for u i using V(1) v(2) empty_slot [OF V(2), of i] by (auto simp: slots_def)
  then have sl: "slots t = slots s" by auto
  have "u \<noteq> NULL \<and> (\<forall>b\<in>set (vn_blocks U). b \<noteq> NULL \<and> (\<exists>B. vblocks t b = Some B \<and> vb_ports B = u))" if U: "vnfs t u = Some U" for u U
  proof (cases "u = v")
    case False
    then have "vnfs s u = Some U" using U V(1) by simp
    then show ?thesis using ok bl unfolding links_ok_def by (metis domI)
  qed (use U V v(1) in auto)
  then show ?thesis using ok unfolding links_ok_def sl pt by blast
qed

lemma links_ok_del_vnf:
  assumes ok: "links_ok s" and V: "vnfs s v = Some V" "set (vn_ports V) \<subseteq> {NULL}"
  shows "links_ok (s\<lparr>vnfs := (vnfs s)(v := None)\<rparr>)"
proof -
  have "slots (s\<lparr>vnfs := (vnfs s)(v := None)\<rparr>) (u, i) = slots s (u, i)" for u i
    using V(1) empty_slot [OF V(2), of i] by (auto simp: slots_def)
  then have sl: "slots (s\<lparr>vnfs := (vnfs s)(v := None)\<rparr>) = slots s" by auto
  show ?thesis using ok unfolding links_ok_def sl by simp
qed

lemma links_ok_ports:
  assumes ok: "links_ok s" and new: "\<And>p P. vports t p = Some P \<Longrightarrow> (vp_attached_vnf P = NULL \<and> p \<notin> ran (slots s)) \<or> (\<exists>Q. vports s p = Some Q \<and> vp_attached_vnf P = vp_attached_vnf Q)"
    and dom: "\<And>p. p \<in> ran (slots s) \<Longrightarrow> p \<in> dom (vports t)" and same: "vnfs t = vnfs s" "vblocks t = vblocks s"
  shows "links_ok t"
proof -
  note sl = slots_cong [OF same(1)]
  note D = links_okD [OF ok]
  have "(vp_attached_vnf P \<noteq> NULL \<longleftrightarrow> p \<in> ran (slots s)) \<and> (\<forall>v i. slots s (v, i) = Some p \<longrightarrow> vp_attached_vnf P = v)" if P: "vports t p = Some P" for p P
  proof -
    from new [OF P] show ?thesis
    proof (elim disjE exE conjE)
      assume "vp_attached_vnf P = NULL" "p \<notin> ran (slots s)"
      then show ?thesis using ranI [of "slots s" _ p] by auto
    next
      fix Q assume "vports s p = Some Q" "vp_attached_vnf P = vp_attached_vnf Q"
      then show ?thesis using D(2,3) [of p Q] by auto
    qed
  qed
  moreover have "ran (slots s) \<subseteq> dom (vports t)" using dom by blast
  ultimately show ?thesis using ok unfolding links_ok_def sl same by blast
qed

text \<open>Steps that keep the invariant, whatever their outcome.\<close>

lemma keeps_bnd: "keeps m s \<Longrightarrow> (\<And>x t. registry_ok t \<Longrightarrow> keeps (f x) t) \<Longrightarrow> keeps (bnd m f) s"
  by (auto simp: keeps_def wp_bnd onret_def elim!: wp_conseq split: outcome.splits)

lemma keeps_andthen: "keeps m s \<Longrightarrow> (\<And>t. registry_ok t \<Longrightarrow> keeps n t) \<Longrightarrow> keeps (andthen m n) s"
  unfolding andthen_def by (rule keeps_bnd)

lemma keeps_ret [simp]: "keeps (ret x) s = registry_ok s" "keeps (throw e) s = registry_ok s" "keeps (info b msg) s = registry_ok s"
  by (simp_all add: keeps_def info_def wp_ops)

lemma wp_value: "m s = Some (Return x, t) \<Longrightarrow> wp (bnd m f) Q s = wp (f x) Q t"
  by (simp add: wp_def)

lemma wp_store_value: "m (nv_store s) = Some (Return x, nv_store s) \<Longrightarrow> wp (bnd (on_store m) f) Q s = wp (f x) Q s"
  by (simp add: on_store_read wp_value)

text \<open>Changes of the store that keep the names.\<close>

lemma registry_frame:
  assumes ok: "registry_ok s" and "links_ok t" "finite (addrs t)" "length (mports t) = RTE_MAX_ETHPORTS"
    and v: "\<And>v. map_option vn_name (vnfs t v) = map_option vn_name (vnfs (nv_store s) v)"
    and p: "\<And>p. p \<in> set (nv_ports s) \<Longrightarrow> map_option vp_name (vports t p) = map_option vp_name (vports (nv_store s) p)"
  shows "registry_ok (s\<lparr>nv_store := t\<rparr>)"
proof -
  have pn: "p \<in> dom (vports t) - {NULL} \<and> port_named t p = port_named (nv_store s) p" if "p \<in> set (nv_ports s)" for p
    using registry_okD(7) [OF ok that] p [OF that] by (auto simp: port_named_def)
  have vn: "v \<in> dom (vnfs t) \<and> vnf_named t v = vnf_named (nv_store s) v" if "v \<in> set (nv_vnfs s)" for v
    using registry_okD(5) [OF ok that] v [of v] by (auto simp: vnf_named_def)
  have m: "map (port_named t) (nv_ports s) = map (port_named (nv_store s)) (nv_ports s)" "map (vnf_named t) (nv_vnfs s) = map (vnf_named (nv_store s)) (nv_vnfs s)"
    using pn vn by simp_all
  have "distinct (map (port_named t) (nv_ports s))" "distinct (map (vnf_named t) (nv_vnfs s))" unfolding m using registry_okD [OF ok] by blast+
  moreover have "set (nv_ports s) \<subseteq> dom (vports t) - {NULL}" "set (nv_vnfs s) \<subseteq> dom (vnfs t)" using pn vn by blast+
  ultimately show ?thesis using assms(2-4) registry_okD(4) [OF ok] unfolding registry_ok_def by simp
qed

lemma erase_named:
  assumes "distinct (map f xs)" "find_index (\<lambda>x. x = v) xs = Some i" "\<And>x. x \<in> set xs \<Longrightarrow> x \<noteq> v \<Longrightarrow> g x = f x"
  shows "set (erase_at i xs) = set xs - {v} \<and> distinct (map g (erase_at i xs))"
  using assms
proof (induction xs arbitrary: i)
  case (Cons x xs)
  show ?case
  proof (cases "x = v")
    case True
    then have "v \<notin> set xs" using Cons.prems(1) by (auto simp: image_iff)
    then have m: "map g xs = map f xs" using Cons.prems(3) by auto
    have "distinct (map g xs)" unfolding m using Cons.prems(1) by simp
    then show ?thesis using Cons.prems(2) True \<open>v \<notin> set xs\<close> by simp
  next
    case False
    then obtain j where j: "find_index (\<lambda>x. x = v) xs = Some j" "i = Suc j" using Cons.prems(2) by auto
    have "set (erase_at j xs) = set xs - {v} \<and> distinct (map g (erase_at j xs))" using Cons.IH [OF _ j(1)] Cons.prems(1,3) by simp
    moreover have "g y = f y" if "y \<in> set (erase_at j xs)" for y using Cons.prems(3) [of y] that \<open>set (erase_at j xs) = _ \<and> _\<close> by auto
    ultimately show ?thesis using Cons.prems(1,3) False j(2) by (force simp: image_iff)
  qed
qed simp

lemma find_index_mem: "v \<in> set xs \<Longrightarrow> \<exists>i. find_index (\<lambda>x. x = v) xs = Some i"
  by (induction xs) auto

lemma finite_addrs_mono: "finite (addrs s) \<Longrightarrow> dom (vports t) \<subseteq> dom (vports s) \<Longrightarrow> dom (vnfs t) \<subseteq> dom (vnfs s) \<Longrightarrow>
    vblocks t = vblocks s \<Longrightarrow> panels t = panels s \<Longrightarrow> marings t = marings s \<Longrightarrow> finite (addrs t)"
  unfolding addrs_def by (auto dest: finite_subset)

subsection \<open>The requests\<close>

lemma del_vnf_keeps:
  assumes ok: "registry_ok s" and v: "v \<in> set (nv_vnfs s)" "vnfs (nv_store s) v = Some V" "set (vn_ports V) \<subseteq> {NULL}"
  shows "wp (del_vnf v) (\<lambda>r t. r = Return () \<and> registry_ok t) s"
proof -
  note D = registry_okD [OF ok]
  obtain i where i: "find_index (\<lambda>x. x = v) (nv_vnfs s) = Some i" using find_index_mem [OF v(1)] by blast
  let ?t = "(nv_store s)\<lparr>vnfs := (vnfs (nv_store s))(v := None)\<rparr>"
  have n: "vnf_named ?t u = vnf_named (nv_store s) u" if "u \<noteq> v" for u using that by (simp add: vnf_named_def)
  note e = erase_named [OF D(6) i n]
  have "links_ok ?t" by (rule links_ok_del_vnf [OF D(1) v(2,3)])
  moreover have "finite (addrs ?t)" by (rule finite_addrs_mono [OF D(2)]) auto
  moreover have "port_named ?t = port_named (nv_store s)" by (simp add: port_named_def fun_eq_iff)
  ultimately have "registry_ok (s\<lparr>nv_vnfs := erase_at i (nv_vnfs s), nv_store := ?t\<rparr>)"
    using ok e unfolding registry_ok_def by auto
  then show ?thesis by (simp add: del_vnf_def wp_ops wp_on_store i)
qed

lemma delete_vnf_keeps: "registry_ok s \<Longrightarrow> keeps (vnfs_NAME_DELETE n) s"
  unfolding keeps_def vnfs_NAME_DELETE_def
proof (rule wp_find_vnf, assumption)
  fix v V assume ok: "registry_ok s" and v: "v \<noteq> NULL" "v \<in> set (nv_vnfs s)" "vnfs (nv_store s) v = Some V"
  show "wp (if v = NULL then info False ''iname is invalid'' else bnd (on_store (is_deletable v))
      (\<lambda>d. if \<not> d then info False ''vnf is not deletable'' else andthen (del_vnf v) (info True ''''))) (\<lambda>r. registry_ok) s"
    using ok del_vnf_keeps [OF ok v(2,3)] unfolding if_not_P [OF v(1)] wp_store_value [where m = "is_deletable v", OF is_deletable_read [OF v(3,1)]]
    by (auto simp: info_def wp_ops elim!: wp_conseq)
qed (simp add: info_def wp_ops)

lemma post_vnf_keeps:
  assumes ok: "registry_ok s" and make: "\<And>f. vnf_maker (nx_call X f)"
  shows "keeps (vnfs_NAME_POST X n b) s"
proof -
  note D = registry_okD [OF ok]
  have alloc: "keeps (vnf_alloc_from_catalog X cname n) s" for cname
    unfolding keeps_def vnf_alloc_from_catalog_def
  proof (rule wp_find_vnf [OF ok])
    assume new: "n \<notin> vnf_named (nv_store s) ` set (nv_vnfs s)"
    have "registry_ok (s\<lparr>nv_store := t, nv_vnfs := nv_vnfs s @ [v]\<rparr>)" if made: "made v n (nv_store s) t" for v t
    proof -
      obtain V where V: "vnfs t = (vnfs (nv_store s))(v \<mapsto> V)" "vn_name V = n" and v: "v \<notin> dom (vnfs (nv_store s))"
        and o: "vports t = vports (nv_store s)" "mports t = mports (nv_store s)" "finite (addrs t)"
        using made unfolding made_def addrs_def by blast
      have eq: "vnf_named t u = vnf_named (nv_store s) u" if "u \<in> set (nv_vnfs s)" for u
        using D(5) [OF that] v V(1) by (auto simp: vnf_named_def)
      then have m: "map (vnf_named t) (nv_vnfs s) = map (vnf_named (nv_store s)) (nv_vnfs s)" and "vnf_named t ` set (nv_vnfs s) = vnf_named (nv_store s) ` set (nv_vnfs s)"
        by (simp_all cong: image_cong)
      moreover have "distinct (map (vnf_named t) (nv_vnfs s))" unfolding m by (rule D(6))
      moreover have "vnf_named t v = n" using V by (simp add: vnf_named_def)
      moreover have "port_named t = port_named (nv_store s)" using o by (simp add: port_named_def fun_eq_iff)
      ultimately show ?thesis
        using ok new o links_ok_new_vnf [OF D(1) made] V(1) unfolding registry_ok_def by auto
    qed
    moreover have "wp (alloc_vnf X cname n (nv_catalog s)) (\<lambda>r t. case r of Throw e \<Rightarrow> t = nv_store s
        | Return v \<Rightarrow> (v = NULL \<and> t = nv_store s) \<or> made v n (nv_store s) t) (nv_store s)"
      using vnf_maker.make_vnf [OF make D(2)] by (simp add: alloc_vnf_def wp_ops split: option.splits)
    ultimately show "wp (if NULL \<noteq> NULL then ret NULL else bnd (gets nv_catalog) (\<lambda>c. bnd (on_store (alloc_vnf X cname n c)) (\<lambda>v.
        if v = NULL then ret NULL else andthen (modify (\<lambda>s. s\<lparr>nv_vnfs := nv_vnfs s @ [v]\<rparr>)) (ret v)))) (\<lambda>r. registry_ok) s"
      using ok by (auto simp: wp_ops wp_on_store elim!: wp_conseq split: outcome.splits)
  qed (use ok in \<open>simp add: wp_ops\<close>)
  show ?thesis
    unfolding vnfs_NAME_POST_def str_field_def using ok by (cases "bd_str b [''cname'']") (simp_all add: keeps_bnd [OF alloc])
qed

lemma same_shape_registry:
  assumes ok: "registry_ok s" and "links_ok t" and sh: "same_shape (nv_store s) t"
  shows "registry_ok (s\<lparr>nv_store := t\<rparr>)"
proof -
  have n: "map_option vn_name (vnfs t v) = map_option vn_name (vnfs (nv_store s) v)" for v using sh by (simp add: same_shape_def)
  have "v \<in> dom (vnfs t) \<longleftrightarrow> v \<in> dom (vnfs (nv_store s))" for v using n [of v] by (cases "vnfs t v"; cases "vnfs (nv_store s) v") auto
  then have "dom (vnfs t) = dom (vnfs (nv_store s))" by blast
  then have "addrs t = addrs (nv_store s)" using sh by (simp add: addrs_def same_shape_def)
  then show ?thesis
    using registry_frame [OF ok assms(2) _ _ n] sh registry_okD(2,3) [OF ok] by (simp add: same_shape_def)
qed

lemma wp_vnf_and_pid:
  assumes ok: "registry_ok s"
    and go: "\<And>v V. v \<noteq> NULL \<Longrightarrow> vnfs (nv_store s) v = Some V \<Longrightarrow> as_size i < length (vn_ports V) \<Longrightarrow> keeps (go v) s"
  shows "keeps (vnf_and_pid n i go) s"
  unfolding keeps_def vnf_and_pid_def
proof (rule wp_find_vnf [OF ok])
  fix v V assume v: "v \<noteq> NULL" "vnfs (nv_store s) v = Some V"
  have n: "n_ports v (nv_store s) = Some (Return (length (vn_ports V)), nv_store s)"
    using v by (simp add: n_ports_def the_vnf_def need_def deref_def bnd_def ret_def)
  show
    "wp (if v = NULL then info False ''not found vnf'' else bnd (on_store (n_ports v))
      (\<lambda>k. if k \<le> as_size i then info False ''invalid prot id'' else go v)) (\<lambda>r. registry_ok) s"
    using go [OF v] ok unfolding if_not_P [OF v(1)] wp_store_value [where m = "n_ports v", OF n] by (auto simp: info_def wp_ops keeps_def)
qed (use ok in \<open>simp add: info_def wp_ops\<close>)

lemma keeps_running:
  assumes ok: "registry_ok s" and v: "vnfs (nv_store s) v = Some V" and "\<And>r. keeps (go r) s"
  shows "keeps (bnd (on_store (is_running v)) go) s"
proof -
  obtain r where r: "is_running v (nv_store s) = Some (Return r, nv_store s)" using is_running_read [OF registry_okD(1) [OF ok] v] by blast
  show ?thesis using assms(3) [of r] unfolding keeps_def wp_store_value [where m = "is_running v", OF r] .
qed

lemma link_keeps:
  assumes ok: "registry_ok s" and c: "cmd_ok (nv_store s) c" and go: "\<And>x t. registry_ok t \<Longrightarrow> keeps (go x) t"
  shows "keeps (bnd (on_store (link_step c)) go) s"
proof (rule keeps_bnd [OF _ go])
  have "wp (link_step c) (\<lambda>r t. \<exists>k. r = Return k \<and> links_ok t \<and> same_shape (nv_store s) t \<and> spec_step c (slots (nv_store s)) = (k, slots t)) (nv_store s)"
    using attach_refines [OF registry_okD(1) [OF ok]] dettach_refines [OF registry_okD(1) [OF ok]] c by (cases c) simp_all
  then show "keeps (on_store (link_step c)) s"
    unfolding keeps_def wp_on_store by (rule wp_conseq) (use same_shape_registry [OF ok] in auto)
qed

lemma put_vnf_port_keeps:
  assumes ok: "registry_ok s"
  shows "keeps (vnfs_NAME_ports_PORTID_PUT n i b) s"
  unfolding vnfs_NAME_ports_PORTID_PUT_def
proof (rule wp_vnf_and_pid [OF ok])
  fix v V assume v: "v \<noteq> NULL" "vnfs (nv_store s) v = Some V" "as_size i < length (vn_ports V)"
  let ?go = "\<lambda>port. if port = NULL then info False ''port not found''
    else bnd (on_store (is_attached_vnf port)) (\<lambda>a. if a then info False ''port has attached vnf''
      else bnd (on_store (attach_port v (as_size i) port)) (\<lambda>ret. if ret < 0 then info False ''vnf::attach_port returned -1'' else info True ''''))"
  have port: "keeps (?go p) s" if p: "p \<noteq> NULL" "p \<in> set (nv_ports s)" "vports (nv_store s) p = Some P" for p P
  proof -
    have a: "is_attached_vnf p (nv_store s) = Some (Return (vp_attached_vnf P \<noteq> NULL), nv_store s)"
      using p by (simp add: is_attached_vnf_def the_port_def need_def deref_def bnd_def ret_def)
    have "keeps (bnd (on_store (link_step (Attach v (as_size i) p))) (\<lambda>ret. if ret < 0 then info False ''vnf::attach_port returned -1'' else info True '''')) s"
      by (rule link_keeps [OF ok]) (use v p in auto)
    then show ?thesis unfolding keeps_def if_not_P [OF p(1)] wp_store_value [where m = "is_attached_vnf p", OF a] using ok by (simp add: info_def wp_ops)
  qed
  have "keeps (bnd (find_port pname) ?go) s" for pname
    unfolding keeps_def
  proof (rule wp_find_port [OF ok])
    show "wp (?go NULL) (\<lambda>r. registry_ok) s" using ok by (simp add: info_def wp_ops)
  qed (rule port [unfolded keeps_def])
  then show "keeps (bnd (on_store (is_running v)) (\<lambda>r. if r then info False ''vnf is still running''
      else bnd (str_field b [''pname'']) (\<lambda>pname. bnd (find_port pname) ?go))) s"
    by (intro keeps_running [OF ok v(2)]) (use ok in \<open>simp add: str_field_def split: option.splits\<close>)
qed

lemma delete_vnf_port_keeps:
  assumes ok: "registry_ok s"
  shows "keeps (vnfs_NAME_ports_PORTID_DELETE n i) s"
  unfolding vnfs_NAME_ports_PORTID_DELETE_def
proof (rule wp_vnf_and_pid [OF ok])
  fix v V assume v: "v \<noteq> NULL" "vnfs (nv_store s) v = Some V" "as_size i < length (vn_ports V)"
  have "keeps (bnd (on_store (link_step (Dettach v (as_size i)))) (\<lambda>ret. if ret < 0 then info False ''vnf::dettach_port returned -1'' else info True '''')) s"
    by (rule link_keeps [OF ok]) (use v in auto)
  then show "keeps (bnd (on_store (is_running v)) (\<lambda>r. if r then info False ''vnf is still running''
      else bnd (on_store (dettach_port v (as_size i))) (\<lambda>ret. if ret < 0 then info False ''vnf::dettach_port returned -1'' else info True ''''))) s"
    by (intro keeps_running [OF ok v(2)]) (use ok in simp)
qed

lemma delete_port_keeps:
  assumes ok: "registry_ok s"
  shows "keeps (ports_NAME_DELETE n) s"
  unfolding keeps_def ports_NAME_DELETE_def
proof (rule wp_find_port [OF ok])
  fix p P assume p: "p \<noteq> NULL" "p \<in> set (nv_ports s)" "vports (nv_store s) p = Some P"
  note D = registry_okD [OF ok]
  have a: "is_attached_vnf p (nv_store s) = Some (Return (vp_attached_vnf P \<noteq> NULL), nv_store s)"
    using p by (simp add: is_attached_vnf_def the_port_def need_def deref_def bnd_def ret_def)
  have "wp (del_port p) (\<lambda>r t. r = Return () \<and> registry_ok t) s" if free: "vp_attached_vnf P = NULL"
  proof -
    obtain i where i: "find_index (\<lambda>x. x = p) (nv_ports s) = Some i" using find_index_mem [OF p(2)] by blast
    let ?t = "(nv_store s)\<lparr>vports := (vports (nv_store s))(p := None)\<rparr>"
    have n: "port_named ?t q = port_named (nv_store s) q" if "q \<noteq> p" for q using that by (simp add: port_named_def)
    note e = erase_named [OF D(8) i n]
    have "p \<notin> ran (slots (nv_store s))" using links_okD(2) [OF D(1) p(3)] free by simp
    then have "links_ok ?t"
      by (intro links_ok_ports [OF D(1)]) (use links_okD(4) [OF D(1)] in \<open>auto simp: ran_def split: if_splits\<close>)
    moreover have "finite (addrs ?t)" by (rule finite_addrs_mono [OF D(2)]) auto
    moreover have "vnf_named ?t = vnf_named (nv_store s)" by (simp add: vnf_named_def fun_eq_iff)
    ultimately have "registry_ok (s\<lparr>nv_ports := erase_at i (nv_ports s), nv_store := ?t\<rparr>)"
      using ok e unfolding registry_ok_def by auto
    then show ?thesis by (simp add: del_port_def wp_ops wp_on_store i)
  qed
  then show "wp (if p = NULL then info False ''port not found'' else bnd (on_store (is_attached_vnf p))
      (\<lambda>a. if a then info False ''port still attached to vnf'' else andthen (del_port p) (info True ''''))) (\<lambda>r. registry_ok) s"
    using ok unfolding if_not_P [OF p(1)] wp_store_value [where m = "is_attached_vnf p", OF a]
    by (auto simp: info_def wp_ops elim!: wp_conseq)
qed (use ok in \<open>simp add: info_def wp_ops\<close>)

subsection \<open>Creating a port\<close>

text \<open>\<open>gives m P\<close>: \<open>m\<close> ends; an exception leaves the invariant, a result \<open>P\<close>.\<close>

definition gives :: "('h, 'e, 'w, 'r, 'k, 'a) nvop \<Rightarrow> ('a \<Rightarrow> ('h, 'e, 'w, 'r, 'k) nfvi \<Rightarrow> bool) \<Rightarrow> ('h, 'e, 'w, 'r, 'k) nfvi \<Rightarrow> bool" where
  "gives m P s \<longleftrightarrow> wp m (\<lambda>r t. case r of Throw e \<Rightarrow> registry_ok t | Return x \<Rightarrow> P x t) s"

lemma gives_bnd: "gives m P s \<Longrightarrow> (\<And>x t. P x t \<Longrightarrow> gives (f x) Q t) \<Longrightarrow> gives (bnd m f) Q s"
  unfolding gives_def wp_bnd
proof (erule wp_conseq)
  fix r t assume "\<And>x t. P x t \<Longrightarrow> wp (f x) (\<lambda>r t. case r of Throw e \<Rightarrow> registry_ok t | Return x \<Rightarrow> Q x t) t"
    and "case r of Throw e \<Rightarrow> registry_ok t | Return x \<Rightarrow> P x t"
  then show "onret (\<lambda>x. wp (f x) (\<lambda>r t. case r of Throw e \<Rightarrow> registry_ok t | Return x \<Rightarrow> Q x t))
      (\<lambda>r t. case r of Throw e \<Rightarrow> registry_ok t | Return x \<Rightarrow> Q x t) r t" by (cases r) simp_all
qed

lemma gives_andthen: "gives m P s \<Longrightarrow> (\<And>x t. P x t \<Longrightarrow> gives n Q t) \<Longrightarrow> gives (andthen m n) Q s"
  unfolding andthen_def by (rule gives_bnd)

lemma gives_simps [simp]: "gives (ret x) P s = P x s" "gives (throw e) P s = registry_ok s"
  by (simp_all add: gives_def wp_ops)

text \<open>No port of the registry has the name; and the new port at \<open>p\<close> that has it and is not in the list yet.\<close>

definition absent :: "string \<Rightarrow> ('h, 'e, 'w, 'r, 'k) nfvi \<Rightarrow> bool" where
  "absent n s \<longleftrightarrow> registry_ok s \<and> n \<notin> port_named (nv_store s) ` set (nv_ports s)"

definition loose :: "addr \<Rightarrow> string \<Rightarrow> ('h, 'e, 'w, 'r, 'k) nfvi \<Rightarrow> bool" where
  "loose p n s \<longleftrightarrow> absent n s \<and> p \<noteq> NULL \<and> (\<exists>P. vports (nv_store s) p = Some P \<and> vp_name P = n \<and> vp_attached_vnf P = NULL)"

lemma absent_store:
  assumes ok: "absent n s" and "links_ok t" "finite (addrs t)" "length (mports t) = RTE_MAX_ETHPORTS" "vnfs t = vnfs (nv_store s)"
    and p: "\<And>p. p \<in> set (nv_ports s) \<Longrightarrow> map_option vp_name (vports t p) = map_option vp_name (vports (nv_store s) p)"
  shows "absent n (s\<lparr>nv_store := t\<rparr>)"
proof -
  have s: "registry_ok s" using ok by (simp add: absent_def)
  have "port_named t p = port_named (nv_store s) p" if "p \<in> set (nv_ports s)" for p
    using registry_okD(7) [OF s that] p [OF that] by (auto simp: port_named_def)
  then have "port_named t ` set (nv_ports s) = port_named (nv_store s) ` set (nv_ports s)" by (rule image_cong [OF refl])
  then show ?thesis using ok registry_frame [OF s assms(2-4) _ p] assms(5) by (simp add: absent_def)
qed

lemma absent_same:
  assumes "absent n s" "vports t = vports (nv_store s)" "vblocks t = vblocks (nv_store s)" "vnfs t = vnfs (nv_store s)" "panels t = panels (nv_store s)"
    "marings t = marings (nv_store s)" "length (mports t) = RTE_MAX_ETHPORTS"
  shows "absent n (s\<lparr>nv_store := t\<rparr>)"
proof (rule absent_store [OF assms(1)])
  have ok: "registry_ok s" using assms(1) by (simp add: absent_def)
  note D = registry_okD [OF ok]
  show "links_ok t" using D(1) slots_cong [OF assms(4)] unfolding links_ok_def assms(2-4) by simp
  show "finite (addrs t)" using D(2) unfolding addrs_def assms(2-6) .
qed (use assms in simp_all)

lemma gives_attach_dev: "absent n s \<Longrightarrow> gives (attach_dev f d) (\<lambda>_. absent n) s"
proof -
  assume a: "absent n s"
  have ok: "registry_ok t" if "absent n t" for t :: "('a, 'b, 'c, 'd, 'e) nfvi" using that by (simp add: absent_def)
  have l: "length (mports (nv_store s)) = RTE_MAX_ETHPORTS" using registry_okD(3) [OF ok [OF a]] .
  have h: "absent n (s\<lparr>nv_store := (nv_store s)\<lparr>hw := h\<rparr>\<rparr>)" for h by (rule absent_same [OF a]) (simp_all add: l)
  have "absent n (s\<lparr>nv_store := (nv_store s)\<lparr>hw := h, stats := x\<rparr>\<rparr>)" for h x by (rule absent_same [OF a]) (simp_all add: l)
  then show ?thesis using h ok [OF h] by (auto simp: attach_dev_def gives_def wp_ops wp_on_store split: option.splits prod.splits)
qed

lemma absent_index [simp]: "absent n (s\<lparr>nv_index := x\<rparr>) = absent n s"
  by (simp add: absent_def registry_ok_def)

lemma gives_devices:
  assumes a: "absent n s"
  shows "gives (vpmd_tap X a1) (\<lambda>_. absent n) s" "gives (vpmd_pipe X) (\<lambda>_. absent n) s" "gives (ppmd_pci X a2) (\<lambda>_. absent n) s"
    "gives (vpmd_vhost X a3 k) (\<lambda>_. absent n) s" "gives (vpmd_afpacket X a4 k) (\<lambda>_. absent n) s"
proof -
  have "gives (bump_index c) (\<lambda>_. absent n) s" for c using a by (simp add: bump_index_def gives_def wp_ops)
  then have b: "gives (bnd (bump_index c) (\<lambda>i. attach_dev f (g i))) (\<lambda>_. absent n) s" "gives (andthen (bump_index c) (attach_dev f d)) (\<lambda>_. absent n) s"
    for c g d and f :: "string \<Rightarrow> 'a \<Rightarrow> nat option \<times> 'a"
    by (blast intro: gives_bnd gives_andthen gives_attach_dev)+
  show "gives (vpmd_tap X a1) (\<lambda>_. absent n) s" "gives (vpmd_pipe X) (\<lambda>_. absent n) s" "gives (ppmd_pci X a2) (\<lambda>_. absent n) s"
    "gives (vpmd_vhost X a3 k) (\<lambda>_. absent n) s" "gives (vpmd_afpacket X a4 k) (\<lambda>_. absent n) s"
    unfolding vpmd_tap_def vpmd_pipe_def ppmd_pci_def vpmd_vhost_def vpmd_afpacket_def by (rule b)+
qed

lemma gives_new_port:
  assumes a: "absent n s" and X: "address_source (nx_new X)" and P: "vp_name P = n" "vp_attached_vnf P = NULL"
  shows "gives (new_port X P) (\<lambda>p. loose p n) s"
proof -
  have ok: "registry_ok s" using a by (simp add: absent_def)
  note D = registry_okD [OF ok]
  let ?p = "nx_new X (nv_store s) 0"
  let ?t = "(nv_store s)\<lparr>vports := (vports (nv_store s))(?p \<mapsto> P)\<rparr>"
  have p: "?p \<noteq> NULL" "?p \<notin> dom (vports (nv_store s))" using address_source.new_free [OF X D(2)] by (auto simp: addrs_def)
  have fresh: "?p \<notin> ran (slots (nv_store s))" using p(2) links_okD(4) [OF D(1)] by (auto simp: ran_def)
  have "absent n (s\<lparr>nv_store := ?t\<rparr>)"
  proof (rule absent_store [OF a])
    show "links_ok ?t"
      by (rule links_ok_ports [OF D(1)]) (use P(2) fresh links_okD(4) [OF D(1)] in \<open>auto simp: ran_def split: if_splits\<close>)
    show "finite (addrs ?t)" using D(2) by (simp add: addrs_def)
  qed (use D(3,7) p in auto)
  then show ?thesis using p(1) P by (simp add: new_port_def gives_def wp_ops wp_on_store loose_def)
qed

lemma gives_upd:
  assumes l: "loose p n s" and f: "\<And>P. vp_name (f P) = vp_name P \<and> vp_attached_vnf (f P) = vp_attached_vnf P"
    and m: "length ms = RTE_MAX_ETHPORTS"
  shows "loose p n (s\<lparr>nv_store := (nv_store s)\<lparr>vports := (vports (nv_store s))(p := map_option f (vports (nv_store s) p)), mports := ms, hw := h\<rparr>\<rparr>)"
proof -
  obtain P where P: "vports (nv_store s) p = Some P" "vp_name P = n" "vp_attached_vnf P = NULL" "p \<noteq> NULL" and a: "absent n s"
    using l by (auto simp: loose_def)
  have ok: "registry_ok s" using a by (simp add: absent_def)
  note D = registry_okD [OF ok]
  let ?t = "(nv_store s)\<lparr>vports := (vports (nv_store s))(p := map_option f (vports (nv_store s) p)), mports := ms, hw := h\<rparr>"
  have "absent n (s\<lparr>nv_store := ?t\<rparr>)"
  proof (rule absent_store [OF a])
    show "links_ok ?t"
      by (rule links_ok_ports [OF D(1)]) (use f P links_okD(4) [OF D(1)] in \<open>auto simp: ran_def split: if_splits\<close>)
    have "addrs ?t = addrs (nv_store s)" using P(1) by (auto simp: addrs_def)
    then show "finite (addrs ?t)" using D(2) by simp
  qed (use f P m in auto)
  then show ?thesis using P f by (simp add: loose_def)
qed

lemma gives_give_mp:
  assumes l: "loose p n s"
  shows "gives (give_mp k p) (\<lambda>_. loose p n) s"
proof -
  obtain P where P: "vports (nv_store s) p = Some P" "p \<noteq> NULL" using l by (auto simp: loose_def)
  have ok: "registry_ok s" using l by (simp add: loose_def absent_def)
  let ?f = "\<lambda>m P. case vp_class P of Dpdk_port d \<Rightarrow> P\<lparr>vp_class := Dpdk_port (d\<lparr>dp_mp := m\<rparr>)\<rparr> | Virt_port v \<Rightarrow> P"
  have "loose p n (s\<lparr>nv_store := (nv_store s)\<lparr>vports := (vports (nv_store s))(p := map_option (?f m) (vports (nv_store s) p)),
      mports := mports (nv_store s), hw := hw (nv_store s)\<rparr>\<rparr>)" for m
    by (rule gives_upd [OF l _ registry_okD(3) [OF ok]]) (auto split: port_class.splits)
  then have "wp (on_store (set_mp m p)) (\<lambda>r t. r = Return () \<and> loose p n t) s" for m
    using P by (simp add: wp_on_store set_mp_def upd_port_def the_port_def wp_ops deref_def)
  then have "gives (on_store (set_mp m p)) (\<lambda>_. loose p n) s" for m unfolding gives_def by (rule wp_conseq) auto
  then show ?thesis using ok by (simp add: give_mp_def get_mp_def gives_def wp_ops)
qed

text \<open>DPDK has no port beyond the table of \<open>ssn_ma_port\<close>.\<close>

definition valid_law :: "('h, 'e, 'w, 'r) nenv \<Rightarrow> bool" where
  "valid_law E \<longleftrightarrow> (\<forall>pid h. eth_valid (ne_eth E) pid h \<longrightarrow> pid < RTE_MAX_ETHPORTS)"

lemma gives_hw_queues:
  assumes l: "loose p n s" and E: "valid_law (nx_env X)"
  shows "gives (hw_queues X p) (\<lambda>_. loose p n) s"
proof -
  obtain P where P: "vports (nv_store s) p = Some P" "p \<noteq> NULL" using l by (auto simp: loose_def)
  have ok: "registry_ok t" if "loose p n t" for t :: "('a, 'b, 'c, 'd, 'e) nfvi" using that by (simp add: loose_def absent_def)
  note len = registry_okD(3) [OF ok [OF l]]
  let ?f = "\<lambda>i j P. P\<lparr>vp_n_rxq := i, vp_n_txq := j\<rparr>"
  have upd: "loose p n (s\<lparr>nv_store := (nv_store s)\<lparr>vports := (vports (nv_store s))(p \<mapsto> ?f i j P), mports := ms, hw := h\<rparr>\<rparr>)"
    if "length ms = RTE_MAX_ETHPORTS" for i j ms h
    using gives_upd [OF l _ that, where f = "\<lambda>P. P\<lparr>vp_n_rxq := i, vp_n_txq := j\<rparr>" and h = h] P(1) by simp
  have nohw: "loose p n (s\<lparr>nv_store := (nv_store s)\<lparr>vports := (vports (nv_store s))(p \<mapsto> ?f i j P)\<rparr>\<rparr>)" for i j
    using gives_upd [OF l _ len, where f = "\<lambda>P. P\<lparr>vp_n_rxq := i, vp_n_txq := j\<rparr>" and h = "hw (nv_store s)"] P(1) by simp
  have hwonly: "loose p n (s\<lparr>nv_store := (nv_store s)\<lparr>vports := (vports (nv_store s))(p \<mapsto> ?f i j P), hw := h\<rparr>\<rparr>)" for i j h
    using gives_upd [OF l _ len, where f = "\<lambda>P. P\<lparr>vp_n_rxq := i, vp_n_txq := j\<rparr>" and h = h] P(1) by simp
  have conf: "wp (on_store (config_hw (nx_env X) i j p)) (\<lambda>r t. loose p n t) s" for i j
  proof (cases "vp_class P")
    case (Dpdk_port d)
    show ?thesis
    proof (cases "eth_valid (ne_eth (nx_env X)) (dp_port_id d) (hw (nv_store s))")
      case True
      then have "dp_port_id d < length (mports (nv_store s))" using E len unfolding valid_law_def by metis
      then show ?thesis
        using P Dpdk_port True upd hwonly len
        by (auto simp: wp_on_store config_hw_def upd_port_def the_port_def wp_ops deref_def on_mports_def ssn_ma_port_configure_hw_def port_at_def
            configure_hwqueue_def raise_port_def Let_def split: prod.splits outcome.splits)
    next
      case False
      then show ?thesis
        using P Dpdk_port upd [OF len] nohw
        by (simp add: wp_on_store config_hw_def upd_port_def the_port_def wp_ops deref_def on_mports_def ssn_ma_port_configure_hw_def raise_port_def)
    qed
  next
    case (Virt_port v)
    then show ?thesis
      using P nohw by (simp add: wp_on_store config_hw_def upd_port_def the_port_def wp_ops deref_def)
  qed
  have "gives (on_store (config_hw (nx_env X) i j p)) (\<lambda>_. loose p n) s" for i j
    unfolding gives_def by (rule wp_conseq [OF conf]) (auto simp: ok split: outcome.splits)
  then show ?thesis by (simp add: hw_queues_def gives_def wp_ops)
qed

lemma gives_append: "loose p n s \<Longrightarrow> gives (append_port p) (\<lambda>_. registry_ok) s"
  by (auto simp: loose_def absent_def append_port_def gives_def registry_ok_def port_named_def)

lemma make_port_keeps:
  assumes a: "absent n s" and X: "address_source (nx_new X)" and E: "valid_law (nx_env X)"
  shows "gives (make_port X n b cname) (\<lambda>_. registry_ok) s"
proof -
  have ok: "registry_ok t" if "absent n t" for t :: "('a, 'b, 'c, 'd, 'e) nfvi" using that by (simp add: absent_def)
  have dp: "gives (new_dpdk_port X n dev) (\<lambda>p. loose p n) t" if "gives dev (\<lambda>_. absent n) t" for dev t
    unfolding new_dpdk_port_def by (rule gives_bnd [OF that], rule gives_new_port [OF _ X]) (simp_all add: new_vnf_port_dpdk_def new_vnf_port_def)
  have tail: "gives (andthen (append_port p) (ret None)) (\<lambda>_. registry_ok) t" if "loose p n t" for p t
    by (rule gives_andthen [OF gives_append [OF that]]) simp
  have hw: "gives (andthen (hw_queues X p) (andthen (append_port p) (ret None))) (\<lambda>_. registry_ok) t" if "loose p n t" for p t
    by (rule gives_andthen [OF gives_hw_queues [OF that E] tail])
  have mp: "gives (andthen (give_mp k p) (andthen (hw_queues X p) (andthen (append_port p) (ret None)))) (\<lambda>_. registry_ok) t" if "loose p n t" for p t k
    by (rule gives_andthen [OF gives_give_mp [OF that] hw])
  have q: "gives (bnd same_queues go) (\<lambda>_. registry_ok) s" if "\<And>k. gives (go k) (\<lambda>_. registry_ok) s" for go
    using that registry_okD(4) [OF ok [OF a]] by (simp add: same_queues_def gives_def wp_ops)
  have str: "gives (bnd (str_field b k) go) (\<lambda>_. registry_ok) s" if "\<And>x. gives (go x) (\<lambda>_. registry_ok) s" for k go
    using that ok [OF a] by (auto simp: str_field_def split: option.splits)
  have dev: "gives (bnd (new_dpdk_port X n d) (\<lambda>p. andthen (give_mp 0 p) (andthen (hw_queues X p) (andthen (append_port p) (ret None))))) (\<lambda>_. registry_ok) s"
    if "gives d (\<lambda>_. absent n) s" for d by (rule gives_bnd [OF dp [OF that] mp])
  have tap: "gives (bnd (new_dpdk_port X n (vpmd_tap X i)) (\<lambda>p. andthen (give_mp 0 p) (andthen (append_port p) (ret None)))) (\<lambda>_. registry_ok) s" for i
    by (rule gives_bnd [OF dp [OF gives_devices(1) [OF a]] gives_andthen [OF gives_give_mp tail]])
  have pci: "gives (bnd (new_dpdk_port X n (ppmd_pci X i)) (\<lambda>p. bnd (case nx_numa X i of None \<Rightarrow> throw (No_numa_node i) | Some k \<Rightarrow> ret k)
      (\<lambda>k. andthen (give_mp k p) (andthen (hw_queues X p) (andthen (append_port p) (ret None)))))) (\<lambda>_. registry_ok) s" for i
    by (rule gives_bnd [OF dp [OF gives_devices(3) [OF a]]]) (auto simp: mp ok loose_def split: option.splits)
  have virt: "gives (bnd (new_port X (new_vnf_port_virt n)) (\<lambda>p. andthen (hw_queues X p) (andthen (append_port p) (ret None)))) (\<lambda>_. registry_ok) s"
    by (rule gives_bnd [OF gives_new_port [OF a X] hw]) (simp_all add: new_vnf_port_virt_def new_vnf_port_def)
  note d = gives_devices [OF a]
  consider "cname = ''tap''" | "cname = ''pipe''" | "cname = ''pci''" | "cname = ''vhost''" | "cname = ''afpacket''" | "cname = ''virt''"
    | "cname \<notin> {''tap'', ''pipe'', ''pci'', ''vhost'', ''afpacket'', ''virt''}" by blast
  then show ?thesis
    by cases (simp_all add: make_port_def str tap q dev d pci virt ok [OF a])
qed

lemma post_port_keeps:
  assumes ok: "registry_ok s" and X: "address_source (nx_new X)" and E: "valid_law (nx_env X)"
  shows "keeps (ports_NAME_POST X n b) s"
  unfolding keeps_def ports_NAME_POST_def
proof (rule wp_find_port [OF ok])
  assume "n \<notin> port_named (nv_store s) ` set (nv_ports s)"
  then have a: "absent n s" using ok by (simp add: absent_def)
  have "keeps (catch (make_port X n b c) (\<lambda>e. ret (Some (Info_error e)))) s" for c
    using make_port_keeps [OF a X E, of b c] unfolding keeps_def gives_def wp_catch
    by (rule wp_conseq) (auto simp: wp_ops split: outcome.splits)
  moreover have "keeps (case r of Some x \<Rightarrow> ret x | None \<Rightarrow> bnd (find_port n) (\<lambda>_. info True '''')) t" if t: "registry_ok t" for r t
  proof (cases r)
    case None
    have "keeps (bnd (find_port n) (\<lambda>_. info True '''')) t"
      unfolding keeps_def by (rule wp_find_port [OF t]) (use t in \<open>simp_all add: info_def wp_ops\<close>)
    then show ?thesis using None by simp
  qed (use t in simp)
  ultimately have "keeps (bnd (catch (make_port X n b c) (\<lambda>e. ret (Some (Info_error e)))) (\<lambda>r. case r of
      Some x \<Rightarrow> ret x | None \<Rightarrow> bnd (find_port n) (\<lambda>_. info True ''''))) s" for c by (rule keeps_bnd)
  then have "keeps (bnd (str_field b [''cname'']) (\<lambda>c. bnd (catch (make_port X n b c) (\<lambda>e. ret (Some (Info_error e)))) (\<lambda>r. case r of
      Some x \<Rightarrow> ret x | None \<Rightarrow> bnd (find_port n) (\<lambda>_. info True '''')))) s"
    using ok by (auto simp: str_field_def split: option.splits)
  then show "wp (if NULL \<noteq> NULL then info False ''pname already exists'' else bnd (str_field b [''cname''])
      (\<lambda>c. bnd (catch (make_port X n b c) (\<lambda>e. ret (Some (Info_error e)))) (\<lambda>r. case r of
      Some x \<Rightarrow> ret x | None \<Rightarrow> bnd (find_port n) (\<lambda>_. info True '''')))) (\<lambda>r. registry_ok) s"
    by (simp add: keeps_def)
qed (use ok in \<open>simp add: info_def wp_ops\<close>)

subsection \<open>Any sequence of requests\<close>

fun registry_request :: "request \<Rightarrow> bool" where
  "registry_request (Post_vnf n b) = True"
| "registry_request (Delete_vnf n) = True"
| "registry_request (Put_vnf_port n i b) = True"
| "registry_request (Delete_vnf_port n i) = True"
| "registry_request (Post_port n b) = True"
| "registry_request (Delete_port n) = True"
| "registry_request _ = False"

lemma handle_keeps:
  assumes "registry_ok s" "registry_request q" "\<And>f. vnf_maker (nx_call X f)" "address_source (nx_new X)" "valid_law (nx_env X)"
  shows "keeps (handle X q) s"
  using assms by (cases q) (simp_all add: post_vnf_keeps delete_vnf_keeps put_vnf_port_keeps delete_vnf_port_keeps post_port_keeps delete_port_keeps)


end
