(* ===== verification/Nfvi_Checks.thy ===== *)
theory Nfvi_Checks
  imports Nfvi_Registry
begin

section \<open>Checks of the NFVI that miss something, and the examples\<close>

text \<open>
  The core mask of a block is checked against lcore 0 only; deleting a port does not ask for the
  patch panel that uses it, and deleting a patch panel searches as far as there are VNFs. The end
  has the concrete NFVI of the witnesses.
\<close>

subsection \<open>The core mask\<close>

lemma mask_test_eq: "i < 32 \<Longrightarrow> mask_test m i = Some (i = 0 \<and> m \<noteq> 0)"
proof -
  assume i: "i < 32"
  have "and (push_bit i (1 :: u32)) 1 = (if i = 0 then 1 else 0)"
    by (rule bit_eqI) (auto simp: bit_simps)
  then show ?thesis using i by (simp add: mask_test_def)
qed

text \<open>On at most 32 lcores the check of a core mask accepts exactly the masks that are 0 and, when lcore 0 waits,
  every mask: it looks at no other lcore (the test is parsed as one on the truth value of the whole mask).\<close>

theorem coremask_sees_lcore0:
  fixes s :: "('h, 'e, 'w, 'r) nfv"
  assumes "0 < el_count L" "el_count L \<le> 32"
  shows "coremask_is_valid L m s = Some (Return (m = 0 \<or> el_state L 0 (eal_state (thr s)) = RTE_WAIT), s)"
proof -
  let ?g = "\<lambda>i. if i = 0 \<and> m \<noteq> 0 \<and> el_state L i (eal_state (thr s)) \<noteq> RTE_WAIT then Some False else None"
  let ?f = "(\<lambda>i. bnd (need (\<lambda>_. mask_test m i)) (\<lambda>b. if b
    then bnd (gets (\<lambda>s. el_state L i (eal_state (thr s)))) (\<lambda>st. ret (if st \<noteq> RTE_WAIT then Some False else None)) else ret None))
    :: nat \<Rightarrow> ('h, 'e, 'w, 'r, bool option) nop"
  have step: "?f i s = Some (Return (?g i), s)" if "i \<in> set [0..<el_count L]" for i
    using that assms(2) by (simp add: mask_test_eq need_def bnd_def gets_def ret_def)
  have "scan ?f [0..<el_count L] s = Some (Return (case find (\<lambda>i. ?g i \<noteq> None) [0..<el_count L] of None \<Rightarrow> None | Some i \<Rightarrow> ?g i), s)"
    by (rule scan_read) (rule step)
  moreover have "(case find (\<lambda>i. ?g i \<noteq> None) [0..<el_count L] of None \<Rightarrow> None | Some i \<Rightarrow> ?g i) = ?g 0"
    using assms(1) by (auto simp: find_None_iff find_Some_iff split: option.splits)
  ultimately have "scan ?f [0..<el_count L] s = Some (Return (?g 0), s)" by (simp only:)
  then show ?thesis unfolding coremask_is_valid_def by (simp add: bnd_def [where m = "scan f xs" for f xs] ret_def)
qed

text \<open>lcore 1 runs a thread; the mask that asks for it passes.\<close>

definition busy_launch :: "unit eal_launch" where
  "busy_launch = demo_launch\<lparr>el_state := \<lambda>i e. if i = 0 then RTE_WAIT else RTE_RUNNING\<rparr>"

theorem coremask_sees_lcore0_witness:
  "coremask_is_valid busy_launch 2 demo_nfv = Some (Return True, demo_nfv) \<and> bit (2 :: u32) 1 \<and> el_state busy_launch 1 () \<noteq> RTE_WAIT"
  using coremask_sees_lcore0 [where L = busy_launch and m = 2 and s = demo_nfv] by (simp add: busy_launch_def demo_launch_def bit_numeral_rec(1))

subsection \<open>Ports that a panel uses\<close>

text \<open>C29. A port that a patch panel uses can be deleted; then the request that deletes the panel, and the destructor of
  a panel in general, follow a dangling pointer.\<close>

theorem patched_port_dangles:
  assumes ok: "registry_ok s" and p: "p \<in> set (nv_ports s)" "port_named (nv_store s) p = n" "p \<notin> ran (slots (nv_store s))"
    and a: "nv_ppps s = [a]" "a \<noteq> NULL" "panels (nv_store s) a = Some Q" "pp_name Q = m" "pp_left Q = p"
  shows "\<exists>t. handle X (Delete_port n) s = Some (Return (Info True ''''), t) \<and> handle X (Delete_ppp m) t = None \<and>
    delete_patch_panel a (nv_store t) = None"
proof -
  note D = registry_okD [OF ok]
  obtain P where P: "p \<noteq> NULL" "vports (nv_store s) p = Some P" using D(7) [OF p(1)] by blast
  have free: "vp_attached_vnf P = NULL" using links_okD(2) [OF D(1) P(2)] p(3) by simp
  obtain q where q: "find_port n s = Some (Return q, s)" "if q = NULL then n \<notin> port_named (nv_store s) ` set (nv_ports s)
    else q \<in> set (nv_ports s) \<and> port_named (nv_store s) q = n" using find_port_ok [OF ok, of n] by metis
  have "q \<in> set (nv_ports s)" "port_named (nv_store s) q = n" using q(2) p by (auto split: if_splits)
  then have qp: "q = p" using D(8) p(1,2) by (auto simp: distinct_map dest: inj_onD)
  obtain i where i: "find_index (\<lambda>x. x = p) (nv_ports s) = Some i" using find_index_mem [OF p(1)] by blast
  have att: "is_attached_vnf p (nv_store s) = Some (Return False, nv_store s)"
    using P free by (simp add: is_attached_vnf_def the_port_def need_def deref_def bnd_def ret_def)
  have at: "on_store (is_attached_vnf p) s = Some (Return False, s)" by (rule on_store_read) (rule att)
  let ?st = "(nv_store s)\<lparr>vports := (vports (nv_store s))(p := None)\<rparr>"
  let ?t = "s\<lparr>nv_ports := erase_at i (nv_ports s), nv_store := ?st\<rparr>"
  have "del_port p s = Some (Return (), ?t)"
    using i by (simp add: del_port_def gets_def on_store_def focus_def modify_def)
  then have del: "handle X (Delete_port n) s = Some (Return (Info True ''''), ?t)"
    using P(1) q(1) by (simp add: ports_NAME_DELETE_def qp at bnd_def [of "on_store (is_attached_vnf p)"] info_def ret_def)
  have gone: "the_port p ?st = None" by (simp add: the_port_def need_def deref_def)
  have "find_ppp m ?t = Some (Return a, ?t)"
    using a by (simp add: find_ppp_def gets_def on_store_def focus_def ppp_name_def need_def deref_def bnd_def ret_def)
  moreover have "panel_deletable a ?st = None"
    using a P(1) gone by (simp add: panel_deletable_def need_def deref_def side_busy_def)
  ultimately have "handle X (Delete_ppp m) ?t = None" using a by (simp add: ppps_NAME_DELETE_def on_store_def focus_def)
  moreover have "delete_patch_panel a ?st = None"
    using a gone by (simp add: delete_patch_panel_def need_def deref_def set_rings_def upd_port_def)
  ultimately show ?thesis using del by auto
qed

text \<open>\<open>del_ppp\<close> looks at as many panels as there are VNFs: with fewer VNFs than the index of the panel it throws.\<close>

lemma find_ppp_index_None: "(\<forall>i\<in>set is. i < length ps \<and> ps ! i \<noteq> p) \<Longrightarrow> find_ppp_index is p ps = Some None"
  by (induction "is") auto

lemma del_ppp_few_vnfs:
  assumes "nv_ppps s ! k = p" "k < length (nv_ppps s)" "length (nv_vnfs s) \<le> k" "distinct (nv_ppps s)" "p \<noteq> NULL" "panels (nv_store s) p = Some Q"
  shows "del_ppp p s = Some (Throw (Ppp_absent (pp_name Q)), s)"
proof -
  have "find_ppp_index [0..<length (nv_vnfs s)] p (nv_ppps s) = Some None"
    by (rule find_ppp_index_None) (use assms(1-4) in \<open>auto simp: nth_eq_iff_index_eq\<close>)
  then show ?thesis
    using assms(5,6) by (simp add: del_ppp_def gets_def need_def bnd_def on_store_def focus_def ppp_name_def deref_def ret_def throw_def)
qed

subsection \<open>An example\<close>

text \<open>An NFVI for the witnesses: the allocators of \<open>main\<close>, two virtual ports that panel 9 joins, and no VNF.\<close>

definition demo_nvenv :: "((nat \<times> nat) list, unit, unit, mbuf list, (addr \<times> nat) list) nvenv" where
  "demo_nvenv = \<lparr>nx_env = demo_nenv, nx_timer = log_timers, nx_new = fresh_addr, nx_call = plain_alloc demo_nenv 1 7,
     nx_attach = (\<lambda>d h. (Some 0, h)), nx_attach_slank = (\<lambda>d h. (None, h)), nx_numa = (\<lambda>a. Some 0),
     nx_stats = (\<lambda>h i. zero_eth_stats), nx_max_ports = 32, nx_junk = 3\<rparr>"

definition demo_store :: "((nat \<times> nat) list, unit, unit, mbuf list) nfv" where
  "demo_store = demo_nfv\<lparr>vports := [2 \<mapsto> new_vnf_port ''p'' (Virt_port \<lparr>vt_tx = 7, vt_rx = 8\<rparr>), 3 \<mapsto> new_vnf_port ''q'' (Virt_port \<lparr>vt_tx = 8, vt_rx = 7\<rparr>)],
     vblocks := Map.empty, vnfs := Map.empty, panels := [9 \<mapsto> \<lparr>pp_left_enq = 7, pp_right_enq = 8, pp_left = 2, pp_right = 3, pp_name = ''x''\<rparr>],
     marings := [7 \<mapsto> ssn_ma_ring 0 0 ''xLeftEnq'', 8 \<mapsto> ssn_ma_ring 0 0 ''xRightEnq''],
     mports := replicate 32 \<lparr>dpdk_pid = 0, n_rxq = 0, n_txq = 0, side_rx = ssn_ma_port_oneside 0 0, side_tx = ssn_ma_port_oneside 0 0\<rparr>\<rparr>"

definition demo_nfvi :: "((nat \<times> nat) list, unit, unit, mbuf list, (addr \<times> nat) list) nfvi" where
  "demo_nfvi = \<lparr>nv_mp = [70], nv_catalog = [(''l2fwd'', 1), (''l2fwd_delay'', 2), (''l2fwd_numa'', 3)], nv_timer_sched = 60, nv_timer_tid = 1, nv_tims = [],
     nv_vnfs = [], nv_ports = [2, 3], nv_ppps = [9], nv_running = True, nv_nrxq = 8, nv_ntxq = 8, nv_index = (\<lambda>_. 0), nv_store = demo_store,
     nv_scheds = Map.empty, nv_timer_objs = Map.empty, nv_rte = [], nv_polling = True\<rparr>"

lemma demo_slots: "slots demo_store = Map.empty"
  by (auto simp: slots_def demo_store_def fun_eq_iff)

lemma demo_registry: "registry_ok demo_nfvi" "valid_law (nx_env demo_nvenv)"
proof -
  have "links_ok demo_store"
    unfolding links_ok_def demo_slots by (simp add: demo_store_def new_vnf_port_def)
  moreover have "finite (addrs demo_store)" by (simp add: addrs_def demo_store_def demo_nfv_def)
  ultimately show "registry_ok demo_nfvi"
    by (simp add: registry_ok_def demo_nfvi_def port_named_def RTE_MAX_ETHPORTS_def) (simp add: demo_store_def new_vnf_port_def)
  show "valid_law (nx_env demo_nvenv)" by (simp add: valid_law_def demo_nvenv_def demo_nenv_def demo_eth_def RTE_MAX_ETHPORTS_def)
qed


theorem patched_port_dangles_witness:
  "\<exists>t. handle demo_nvenv (Delete_port ''p'') demo_nfvi = Some (Return (Info True ''''), t) \<and> handle demo_nvenv (Delete_ppp ''x'') t = None"
proof -
  have "\<exists>t. handle demo_nvenv (Delete_port ''p'') demo_nfvi = Some (Return (Info True ''''), t) \<and> handle demo_nvenv (Delete_ppp ''x'') t = None \<and>
    delete_patch_panel 9 (nv_store t) = None"
    by (rule patched_port_dangles [OF demo_registry(1), where p = 2 and Q = "\<lparr>pp_left_enq = 7, pp_right_enq = 8, pp_left = 2, pp_right = 3, pp_name = ''x''\<rparr>"])
      (simp_all add: demo_nfvi_def demo_slots port_named_def, simp_all add: demo_store_def new_vnf_port_def)
  then show ?thesis by blast
qed

end
