(* ===== verification/Nfvi_Json.thy ===== *)
theory Nfvi_Json
  imports Nfvi_Checks
begin

section \<open>The requests that only read (nfvi/ssn_json.cc, ssn_rest_api.cc)\<close>

text \<open>
  The GET requests build a JSON value from the objects of the NFVI. A JSON object is the list of its
  members, in the order they are set. The operations of \<open>double\<close>, what DPDK and the processor report,
  the time and the text of a pointer are parameters.
\<close>

datatype 'f json = J_nat nat | J_num 'f | J_str string | J_bool bool | J_obj "(string \<times> 'f json) list"

record 'f reports =
  dbl_of :: "u64 \<Rightarrow> 'f"
  dbl_div :: "'f \<Rightarrow> 'f \<Rightarrow> 'f"
  dbl_add :: "'f \<Rightarrow> 'f \<Rightarrow> 'f"
  dbl_less :: "'f \<Rightarrow> 'f \<Rightarrow> bool"
  lcore_socket :: "nat \<Rightarrow> nat"
  master_lcore :: nat
  cpu_rate :: "nat \<Rightarrow> nat"
  mp_name :: "addr \<Rightarrow> string"
  mp_size :: "addr \<Rightarrow> nat"
  mp_avail :: "addr \<Rightarrow> nat"
  uptime :: nat
  pointer_text :: "addr \<Rightarrow> string"

abbreviation J_u64 :: "u64 \<Rightarrow> 'f json" where
  "J_u64 x \<equiv> J_nat (unat x)"

text \<open>The members \<open>0\<close>, \<open>1\<close>, ... of an object.\<close>

fun members :: "('a \<Rightarrow> ('s, 'e, 'f json) op) \<Rightarrow> nat \<Rightarrow> 'a list \<Rightarrow> ('s, 'e, (string \<times> 'f json) list) op" where
  "members g i [] = ret []"
| "members g i (x # xs) = bnd (g x) (\<lambda>j. bnd (members g (Suc i) xs) (\<lambda>js. ret ((dec i, j) # js)))"

definition responce_info :: "bool \<Rightarrow> string \<Rightarrow> 'f json" where
  "responce_info success msg = J_obj [(''success'', J_bool success), (''msg'', J_str msg)]"

definition ssn_lcore_state2str :: "ssn_lcore_state \<Rightarrow> string" where
  "ssn_lcore_state2str e = (case e of SSN_LS_WAIT \<Rightarrow> ''WAIT'' | SSN_LS_RUNNING_GREEN \<Rightarrow> ''RUNGRN'' | SSN_LS_RUNNING_NATIVE \<Rightarrow> ''RUNNAT''
     | SSN_LS_RUNNING_TIMER \<Rightarrow> ''RUNTMR'' | SSN_LS_FINISHED \<Rightarrow> ''FINISHED'')"

subsection \<open>Processors and memory\<close>

text \<open>The rate is asserted to be at most 100.\<close>

definition get_processor_rate :: "'f reports \<Rightarrow> nat \<Rightarrow> ('h, 'e, 'w, 'r, nat) nop" where
  "get_processor_rate R lcore = need (\<lambda>_. if cpu_rate R lcore \<le> 100 then Some (cpu_rate R lcore) else None)"

definition core_info :: "'f reports \<Rightarrow> nat \<Rightarrow> ('h, 'e, 'w, 'r, 'f json) nop" where
  "core_info R lcore =
     bnd (on_threads (ssn_get_lcore_state lcore)) (\<lambda>st.
     bnd (get_processor_rate R lcore) (\<lambda>rate.
     ret (J_obj [(''lcore_id'', J_nat lcore), (''socket_id'', J_nat (lcore_socket R lcore)),
       (''state'', J_str (if lcore = master_lcore R then ''MASTER'' else ssn_lcore_state2str st)), (''usage_rate'', J_nat rate)])))"

definition cpu_info :: "('h, 'e, 'w, 'r) nenv \<Rightarrow> 'f reports \<Rightarrow> nat \<Rightarrow> ('h, 'e, 'w, 'r, 'f json) nop" where
  "cpu_info E R socket =
     (let n_cores = el_count (ne_launch E) in
      bnd (need (\<lambda>_. if ne_sockets E = 0 then None else Some (n_cores div ne_sockets E))) (\<lambda>n.
      bnd (members (core_info R) 0 (filter (\<lambda>i. lcore_socket R i = socket) [0..<n_cores])) (\<lambda>cs.
      ret (J_obj ([(''socket_id'', J_nat socket), (''n_core'', J_nat n)] @ cs)))))"

definition mempool_info :: "'f reports \<Rightarrow> addr \<Rightarrow> 'f json" where
  "mempool_info R mp = J_obj [(''name'', J_str (mp_name R mp)), (''size'', J_nat (mp_size R mp)), (''avail'', J_nat (mp_avail R mp))]"

definition nfvi_info :: "('h, 'e, 'w, 'r) nenv \<Rightarrow> 'f reports \<Rightarrow> ('h, 'e, 'w, 'r, 'f json) nop" where
  "nfvi_info E R =
     (let n_core = el_count (ne_launch E) in
      bnd (members (core_info R) 0 [0..<n_core]) (\<lambda>cs.
      ret (J_obj [(''n_socket'', J_nat (ne_sockets E)), (''n_core'', J_nat n_core), (''cores'', J_obj cs)])))"

subsection \<open>Ports, blocks, VNFs and patch panels\<close>

definition port_perf_reduction :: "'f reports \<Rightarrow> addr \<Rightarrow> ('h, 'e, 'w, 'r, 'f) nop" where
  "port_perf_reduction R p =
     bnd (get_inner_rx_perf p) (\<lambda>irx. bnd (get_outer_rx_perf p) (\<lambda>orx.
     ret (if orx = 0 then dbl_of R 1 else dbl_div R (dbl_of R irx) (dbl_of R orx))))"

fun sum_reductions :: "'f reports \<Rightarrow> addr list \<Rightarrow> 'f \<Rightarrow> ('h, 'e, 'w, 'r, 'f option) nop" where
  "sum_reductions R [] pr = ret (Some pr)"
| "sum_reductions R (p # ps) pr = (if p = NULL then ret None
     else bnd (port_perf_reduction R p) (\<lambda>x. sum_reductions R ps (dbl_add R pr x)))"

definition vnf_perf_reduction :: "'f reports \<Rightarrow> addr \<Rightarrow> ('h, 'e, 'w, 'r, 'f) nop" where
  "vnf_perf_reduction R v = bnd (the_vnf v) (\<lambda>V. bnd (sum_reductions R (vn_ports V) (dbl_of R 0)) (\<lambda>r. case r of
     None \<Rightarrow> ret (dbl_of R 1)
   | Some pr \<Rightarrow> let x = dbl_div R pr (dbl_of R (of_nat (length (vn_ports V)))) in
       ret (if dbl_less R (dbl_of R 1) x then dbl_of R 1 else x)))"

definition attached_name :: "ssn_vnf_port \<Rightarrow> ('h, 'e, 'w, 'r, string) nop" where
  "attached_name P = (if vp_attached_vnf P = NULL then ret ''nill'' else vnf_name (vp_attached_vnf P))"

definition vnf_port_info :: "('h, 'e, 'w, 'r) nenv \<Rightarrow> 'f reports \<Rightarrow> addr \<Rightarrow> ('h, 'e, 'w, 'r, 'f json) nop" where
  "vnf_port_info E R p =
     bnd (the_port p) (\<lambda>P.
     bnd (get_outer_rx_perf p) (\<lambda>orx. bnd (get_outer_tx_perf p) (\<lambda>otx.
     bnd (get_inner_rx_perf p) (\<lambda>irx. bnd (get_inner_tx_perf p) (\<lambda>itx.
     bnd (port_perf_reduction R p) (\<lambda>red. bnd (get_socket_id E p) (\<lambda>sock.
     bnd (attached_name P) (\<lambda>vnf.
     ret (J_obj [(''name'', J_str (vp_name P)), (''n_rxq'', J_nat (vp_n_rxq P)), (''n_txq'', J_nat (vp_n_txq P)),
       (''n_rxa'', J_nat (vp_n_rxacc P)), (''n_txa'', J_nat (vp_n_txacc P)),
       (''outer_rxp'', J_u64 orx), (''outer_txp'', J_u64 otx), (''inner_rxp'', J_u64 irx), (''inner_txp'', J_u64 itx),
       (''perfred'', J_num red), (''socket_id'', J_nat sock), (''attach'', J_str vnf)])))))))))"

definition pnic_info :: "nat \<Rightarrow> ('h, 'e, 'w, 'r, 'f json) nop" where
  "pnic_info pid =
     bnd (need (\<lambda>s. ssn_port_stat_get_tot_rx_packets pid (stats s))) (\<lambda>a. bnd (need (\<lambda>s. ssn_port_stat_get_tot_tx_packets pid (stats s))) (\<lambda>b.
     bnd (need (\<lambda>s. ssn_port_stat_get_tot_rx_bytes pid (stats s))) (\<lambda>c. bnd (need (\<lambda>s. ssn_port_stat_get_tot_tx_bytes pid (stats s))) (\<lambda>d.
     bnd (need (\<lambda>s. ssn_port_stat_get_cur_rx_pps pid (stats s))) (\<lambda>e. bnd (need (\<lambda>s. ssn_port_stat_get_cur_tx_pps pid (stats s))) (\<lambda>f.
     bnd (need (\<lambda>s. ssn_port_stat_get_cur_rx_bps pid (stats s))) (\<lambda>g. bnd (need (\<lambda>s. ssn_port_stat_get_cur_tx_bps pid (stats s))) (\<lambda>h.
     bnd (need (\<lambda>s. ssn_port_stat_get_cur_rx_mis pid (stats s))) (\<lambda>i.
     ret (J_obj [(''port_id'', J_nat pid), (''tot_ipackets'', J_u64 a), (''tot_opackets'', J_u64 b), (''tot_ibytes'', J_u64 c), (''tot_obytes'', J_u64 d),
       (''cur_rx_pps'', J_u64 e), (''cur_tx_pps'', J_u64 f), (''cur_rx_bps'', J_u64 g), (''cur_tx_bps'', J_u64 h), (''cur_rx_mis'', J_u64 i)]))))))))))"

definition vnf_block_info :: "addr \<Rightarrow> ('h, 'e, 'w, 'r, 'f json) nop" where
  "vnf_block_info b =
     bnd (the_block b) (\<lambda>B. bnd (block_get_coremask b) (\<lambda>m. bnd (block_is_running b) (\<lambda>r. bnd (get_socket_affinity b) (\<lambda>sa.
     ret (J_obj [(''name'', J_str (vb_name B)), (''coremask'', J_nat (unat m)), (''running'', J_bool r), (''socket_affinity'', J_nat sa)])))))"

definition port_or_nil :: "('h, 'e, 'w, 'r) nenv \<Rightarrow> 'f reports \<Rightarrow> addr \<Rightarrow> nat \<Rightarrow> ('h, 'e, 'w, 'r, 'f json) nop" where
  "port_or_nil E R v i = bnd (vnf_port_at v i) (\<lambda>p. if p = NULL then ret (J_str ''nil'') else vnf_port_info E R p)"

definition vnf_info :: "('h, 'e, 'w, 'r) nenv \<Rightarrow> 'f reports \<Rightarrow> addr \<Rightarrow> ('h, 'e, 'w, 'r, 'f json) nop" where
  "vnf_info E R v =
     bnd (the_vnf v) (\<lambda>V. bnd (is_running v) (\<lambda>running. bnd (deployable v) (\<lambda>dep.
     bnd (n_ports v) (\<lambda>np. bnd (n_blocks v) (\<lambda>nb. bnd (vnf_perf_reduction R v) (\<lambda>red. bnd (get_rx_rate v) (\<lambda>rate.
     bnd (members (\<lambda>i. bnd (vnf_block_at v i) vnf_block_info) 0 [0..<nb]) (\<lambda>blocks.
     bnd (get_coremask v) (\<lambda>m.
     bnd (members (port_or_nil E R v) 0 [0..<np]) (\<lambda>ports.
     ret (J_obj [(''name'', J_str (vn_name V)), (''running'', J_bool running), (''deployable'', J_bool dep), (''n_port'', J_nat np), (''n_block'', J_nat nb),
       (''perfred'', J_num red), (''rxrate'', J_u64 rate), (''blocks'', J_obj blocks), (''coremask'', J_nat (unat m)), (''ports'', J_obj ports)])))))))))))"

definition ppp_info :: "('h, 'e, 'w, 'r) nenv \<Rightarrow> 'f reports \<Rightarrow> addr \<Rightarrow> ('h, 'e, 'w, 'r, 'f json) nop" where
  "ppp_info E R a =
     bnd (need (\<lambda>s. deref (panels s) a)) (\<lambda>P. bnd (panel_deletable a) (\<lambda>d.
     bnd (vnf_port_info E R (pp_right P)) (\<lambda>r. bnd (vnf_port_info E R (pp_left P)) (\<lambda>l.
     ret (J_obj [(''name'', J_str (pp_name P)), (''deletable'', J_bool d), (''right'', r), (''left'', l)])))))"

subsection \<open>The requests\<close>

datatype get_request = Get_root | Get_system | Get_system_cpu | Get_system_mem | Get_system_pnic | Get_vnfs | Get_vnf string
  | Get_ports | Get_port string | Get_catalogs_vnf | Get_ppps | Get_ppp string

type_synonym ('h, 'e, 'w, 'r, 'k, 'f) getter = "('h, 'e, 'w, 'r, 'k, 'f json) nvop"

definition good :: "(string \<times> 'f json) list \<Rightarrow> 'f json" where
  "good xs = J_obj ((''result'', responce_info True '''') # xs)"

definition bad :: "string \<Rightarrow> 'f json" where
  "bad msg = J_obj [(''result'', responce_info False msg)]"

definition root_GET :: "'f reports \<Rightarrow> ('h, 'e, 'w, 'r, 'k, 'f) getter" where
  "root_GET R = ret (J_obj [(''result'', responce_info True ''give me much time... X(''), (''running'', J_bool True), (''uptime_sec'', J_nat (uptime R))])"

definition system_GET :: "('h, 'e, 'w, 'r, 'k) nvenv \<Rightarrow> 'f reports \<Rightarrow> ('h, 'e, 'w, 'r, 'k, 'f) getter" where
  "system_GET X R = bnd (gets (\<lambda>s. (length (nv_vnfs s), length (nv_ports s), length (nv_catalog s)))) (\<lambda>(nv, np, nc).
     bnd (on_store (nfvi_info (nx_env X) R)) (\<lambda>j.
     ret (good [(''n_vnf'', J_nat nv), (''n_port'', J_nat np), (''n_vcat'', J_nat nc), (''nfvi'', j)])))"

definition system_cpu_GET :: "('h, 'e, 'w, 'r, 'k) nvenv \<Rightarrow> 'f reports \<Rightarrow> ('h, 'e, 'w, 'r, 'k, 'f) getter" where
  "system_cpu_GET X R = (let n = ne_sockets (nx_env X) in
     bnd (on_store (members (cpu_info (nx_env X) R) 0 [0..<n])) (\<lambda>js. ret (good ((''n_cpu'', J_nat n) # js))))"

definition system_mem_GET :: "('h, 'e, 'w, 'r, 'k) nvenv \<Rightarrow> 'f reports \<Rightarrow> ('h, 'e, 'w, 'r, 'k, 'f) getter" where
  "system_mem_GET X R = (let n = ne_sockets (nx_env X) in
     bnd (members (\<lambda>i. bnd (get_mp i) (\<lambda>m. ret (mempool_info R m))) 0 [0..<n]) (\<lambda>js. ret (good ((''n_mempool'', J_nat n) # js))))"

definition system_pnic_GET :: "nat \<Rightarrow> ('h, 'e, 'w, 'r, 'k, 'f) getter" where
  "system_pnic_GET n = bnd (on_store (members pnic_info 0 [0..<n])) (\<lambda>js. ret (good ((''n_pnic'', J_nat n) # js)))"

definition vnfs_GET :: "('h, 'e, 'w, 'r, 'k) nvenv \<Rightarrow> 'f reports \<Rightarrow> ('h, 'e, 'w, 'r, 'k, 'f) getter" where
  "vnfs_GET X R = bnd (gets nv_vnfs) (\<lambda>vs.
     bnd (on_store (members (vnf_info (nx_env X) R) 0 vs)) (\<lambda>js. ret (good ((''n_vnf'', J_nat (length vs)) # js))))"

definition vnfs_NAME_GET :: "('h, 'e, 'w, 'r, 'k) nvenv \<Rightarrow> 'f reports \<Rightarrow> string \<Rightarrow> ('h, 'e, 'w, 'r, 'k, 'f) getter" where
  "vnfs_NAME_GET X R iname = bnd (find_vnf iname) (\<lambda>v.
     if v = NULL then ret (bad ''vnf not found'')
     else bnd (on_store (vnf_info (nx_env X) R v)) (\<lambda>j. ret (J_obj [(''result'', responce_info True ''found''), (''vnf'', j)])))"

definition ports_GET :: "('h, 'e, 'w, 'r, 'k) nvenv \<Rightarrow> 'f reports \<Rightarrow> ('h, 'e, 'w, 'r, 'k, 'f) getter" where
  "ports_GET X R = bnd (gets nv_ports) (\<lambda>ps.
     bnd (on_store (members (vnf_port_info (nx_env X) R) 0 ps)) (\<lambda>js. ret (good ((''n_port'', J_nat (length ps)) # js))))"

definition ports_NAME_GET :: "('h, 'e, 'w, 'r, 'k) nvenv \<Rightarrow> 'f reports \<Rightarrow> string \<Rightarrow> ('h, 'e, 'w, 'r, 'k, 'f) getter" where
  "ports_NAME_GET X R pname = bnd (find_port pname) (\<lambda>p.
     if p = NULL then ret (bad ''port not found'') else bnd (on_store (vnf_port_info (nx_env X) R p)) (\<lambda>j. ret (good [(''port'', j)])))"

definition catalogs_vnf_GET :: "'f reports \<Rightarrow> ('h, 'e, 'w, 'r, 'k, 'f) getter" where
  "catalogs_vnf_GET R = bnd (gets nv_catalog) (\<lambda>c.
     bnd (members (\<lambda>(n, f). ret (J_obj [(''name'', J_str n), (''allocator'', J_str (pointer_text R f))])) 0 c) (\<lambda>js.
     ret (good ((''n_ele'', J_nat (length c)) # js))))"

definition ppps_GET :: "('h, 'e, 'w, 'r, 'k) nvenv \<Rightarrow> 'f reports \<Rightarrow> ('h, 'e, 'w, 'r, 'k, 'f) getter" where
  "ppps_GET X R = bnd (gets nv_ppps) (\<lambda>ps.
     bnd (on_store (members (ppp_info (nx_env X) R) 0 ps)) (\<lambda>js. ret (good ((''n_ele'', J_nat (length ps)) # js))))"

definition ppps_NAME_GET :: "('h, 'e, 'w, 'r, 'k) nvenv \<Rightarrow> 'f reports \<Rightarrow> string \<Rightarrow> ('h, 'e, 'w, 'r, 'k, 'f) getter" where
  "ppps_NAME_GET X R name = bnd (find_ppp name) (\<lambda>a.
     if a = NULL then ret (bad ''ppp not found'') else bnd (on_store (ppp_info (nx_env X) R a)) (\<lambda>j. ret (good [(''ppp'', j)])))"

text \<open>\<open>n\<close> is \<open>rte_eth_dev_count\<close>.\<close>

fun handle_get :: "('h, 'e, 'w, 'r, 'k) nvenv \<Rightarrow> 'f reports \<Rightarrow> nat \<Rightarrow> get_request \<Rightarrow> ('h, 'e, 'w, 'r, 'k, 'f) getter" where
  "handle_get X R n Get_root = root_GET R"
| "handle_get X R n Get_system = system_GET X R"
| "handle_get X R n Get_system_cpu = system_cpu_GET X R"
| "handle_get X R n Get_system_mem = system_mem_GET X R"
| "handle_get X R n Get_system_pnic = system_pnic_GET n"
| "handle_get X R n Get_vnfs = vnfs_GET X R"
| "handle_get X R n (Get_vnf v) = vnfs_NAME_GET X R v"
| "handle_get X R n Get_ports = ports_GET X R"
| "handle_get X R n (Get_port p) = ports_NAME_GET X R p"
| "handle_get X R n Get_catalogs_vnf = catalogs_vnf_GET R"
| "handle_get X R n Get_ppps = ppps_GET X R"
| "handle_get X R n (Get_ppp p) = ppps_NAME_GET X R p"

subsection \<open>They only read\<close>

definition reads :: "('s, 'e, 'a) op \<Rightarrow> bool" where
  "reads m \<longleftrightarrow> (\<forall>s r t. m s = Some (r, t) \<longrightarrow> t = s)"

named_theorems reading

lemma reads_basic [reading]: "reads (ret x)" "reads (throw e)" "reads (gets f)" "reads (need p)"
  by (auto simp: reads_def ret_def throw_def gets_def need_def)

lemma reads_bnd [reading]: "reads m \<Longrightarrow> (\<And>x. reads (f x)) \<Longrightarrow> reads (bnd m f)"
  unfolding reads_def bnd_def by (auto split: option.splits outcome.splits) blast+

lemma reads_if [reading]: "reads m \<Longrightarrow> reads n \<Longrightarrow> reads (if b then m else n)"
  by simp

lemma reads_case [reading]:
  "(\<And>x. reads (f x)) \<Longrightarrow> reads m \<Longrightarrow> reads (case y of None \<Rightarrow> m | Some x \<Rightarrow> f x)"
  "(\<And>d. reads (g d)) \<Longrightarrow> (\<And>v. reads (h v)) \<Longrightarrow> reads (case c of Dpdk_port d \<Rightarrow> g d | Virt_port v \<Rightarrow> h v)"
  by (simp_all split: option.splits port_class.splits)

lemma reads_prod [reading]: "(\<And>a b. reads (f a b)) \<Longrightarrow> reads (case x of (a, b) \<Rightarrow> f a b)"
  by (simp split: prod.splits)

lemma reads_let [reading]: "(\<And>y. reads (f y)) \<Longrightarrow> reads (let y = x in f y)"
  by (simp add: Let_def)

lemma reads_andthen [reading]: "reads m \<Longrightarrow> reads n \<Longrightarrow> reads (andthen m n)"
  unfolding andthen_def by (rule reads_bnd)

lemma reads_scan [reading]: "(\<And>x. reads (f x)) \<Longrightarrow> reads (scan f xs)"
  by (induction xs) (auto intro!: reading)

lemma reads_members [reading]: "(\<And>x. reads (g x)) \<Longrightarrow> reads (members g i xs)"
  by (induction xs arbitrary: i) (auto intro!: reading)

lemma reads_store [reading]: "reads m \<Longrightarrow> reads (on_store m)"
  by (auto simp: reads_def on_store_def focus_def)

lemma reads_threads [reading]: "reads m \<Longrightarrow> reads (on_threads m)"
  by (auto simp: reads_def on_threads_def focus_def)

lemmas object_reads = the_port_def the_vnf_def the_block_def vnf_port_at_def vnf_block_at_def at_vec_def n_ports_def n_blocks_def
  ssn_get_lcore_state_def get_inner_rx_perf_def get_inner_tx_perf_def get_outer_rx_perf_def get_outer_tx_perf_def get_socket_id_def
  block_get_coremask_def block_is_running_def get_socket_affinity_def is_running_def deployable_def scan_blocks_def scan_ports_def when_null_def
  get_processor_rate_def port_perf_reduction_def attached_name_def vnf_name_def port_name_def ppp_name_def vnf_block_coremask_def side_busy_def panel_deletable_def

lemma reads_find_named [reading]: "(\<And>p. reads (nm p)) \<Longrightarrow> reads (find_named nm n ps)"
  by (induction ps) (auto intro!: reading)

lemma reads_or_masks [reading]: "reads (or_masks v is m)"
  by (induction "is" arbitrary: m) (auto intro!: reading simp: object_reads)

lemma reads_sum_rx [reading]: "reads (sum_rx v is x)"
  by (induction "is" arbitrary: x) (auto intro!: reading simp: object_reads)

lemma reads_sum_reductions [reading]: "reads (sum_reductions R ps x)"
  by (induction ps arbitrary: x) (auto intro!: reading simp: object_reads)

lemma reads_infos [reading]:
  "reads (core_info R i)" "reads (cpu_info E R i)" "reads (nfvi_info E R)" "reads (vnf_port_info E R p)" "reads (pnic_info i)"
  "reads (vnf_block_info b)" "reads (vnf_info E R v)" "reads (ppp_info E R a)"
  unfolding core_info_def cpu_info_def nfvi_info_def vnf_port_info_def pnic_info_def vnf_block_info_def vnf_info_def ppp_info_def
    vnf_perf_reduction_def get_rx_rate_def get_coremask_def port_or_nil_def object_reads
  by (intro reading)+

lemma reads_get: "reads (handle_get X R n q)"
  by (cases q) (auto intro!: reading reads_infos simp: root_GET_def system_GET_def system_cpu_GET_def system_mem_GET_def system_pnic_GET_def vnfs_GET_def vnfs_NAME_GET_def
    ports_GET_def ports_NAME_GET_def catalogs_vnf_GET_def ppps_GET_def ppps_NAME_GET_def get_mp_def find_vnf_def find_port_def find_ppp_def object_reads)

subsection \<open>They are answered\<close>

definition answers :: "('s, 'e, 'a) op \<Rightarrow> 's \<Rightarrow> bool" where
  "answers m s \<longleftrightarrow> (\<exists>x. m s = Some (Return x, s))"

lemma answers_basic [simp]: "answers (ret x) s" "answers (gets f) s" "answers (need p) s = (p s \<noteq> None)"
  by (auto simp: answers_def ret_def gets_def need_def)

lemma answers_bnd: "m s = Some (Return x, s) \<Longrightarrow> answers (f x) s \<Longrightarrow> answers (bnd m f) s"
  by (simp add: answers_def)

lemma answers_all: "answers m s \<Longrightarrow> (\<And>x. answers (f x) s) \<Longrightarrow> answers (bnd m f) s"
  by (auto simp: answers_def)

lemma answers_value: "answers (bnd m f) s = answers (f x) s" if "m s = Some (Return x, s)"
  using that by (simp add: answers_def)

lemma answers_gets: "answers (bnd (gets f) g) s = answers (g (f s)) s"
  by (simp add: answers_def gets_def)

lemma answers_members: "(\<And>x. x \<in> set xs \<Longrightarrow> answers (g x) s) \<Longrightarrow> answers (members g i xs) s"
  by (induction xs arbitrary: i) (auto intro!: answers_all)

lemma answers_store: "answers m (nv_store s) \<Longrightarrow> answers (on_store m) s"
  by (auto simp: answers_def on_store_def focus_def)

lemma answers_scan: "(\<And>x. x \<in> set xs \<Longrightarrow> answers (f x) s) \<Longrightarrow> answers (scan f xs) s"
  by (induction xs) (auto intro!: answers_all split: option.splits)

text \<open>The statistics that the ports report exist.\<close>

definition reported :: "('h, 'e, 'w, 'r) nfv \<Rightarrow> bool" where
  "reported t \<longleftrightarrow> (\<forall>p P. vports t p = Some P \<longrightarrow> (case vp_class P of Dpdk_port d \<Rightarrow> stats t (dp_port_id d) \<noteq> None
     | Virt_port v \<Rightarrow> (vt_tx v = NULL \<or> marings t (vt_tx v) \<noteq> None) \<and> (vt_rx v = NULL \<or> marings t (vt_rx v) \<noteq> None)))"

lemma port_ok:
  assumes "reported t" "vports t p = Some P" "p \<noteq> NULL"
  shows "the_port p t = Some (Return P, t)" "answers (get_outer_rx_perf p) t" "answers (get_outer_tx_perf p) t" "answers (get_inner_rx_perf p) t"
    "answers (get_inner_tx_perf p) t" "answers (get_socket_id E p) t"
proof -
  show p: "the_port p t = Some (Return P, t)" using assms(2,3) by (simp add: the_port_def need_def deref_def)
  note c = assms(1) [unfolded reported_def, rule_format, OF assms(2)]
  note v = answers_value [where m = "the_port p", OF p]
  show "answers (get_outer_rx_perf p) t" "answers (get_outer_tx_perf p) t" "answers (get_inner_rx_perf p) t" "answers (get_inner_tx_perf p) t" "answers (get_socket_id E p) t"
    unfolding get_outer_rx_perf_def get_outer_tx_perf_def get_inner_rx_perf_def get_inner_tx_perf_def get_socket_id_def v
    using c by (auto intro!: answers_all simp: andthen_def ssn_port_stat_get_cur_rx_pps_def ssn_port_stat_get_cur_rx_mis_def ssn_port_stat_get_cur_tx_pps_def split: port_class.splits)
qed

lemma attached_live:
  assumes ok: "links_ok t" and P: "vports t p = Some P" "vp_attached_vnf P \<noteq> NULL"
  shows "\<exists>V. vnfs t (vp_attached_vnf P) = Some V"
proof -
  obtain v i where s: "slots t (v, i) = Some p" using links_okD(2) [OF ok P(1)] P(2) by (auto simp: ran_def)
  then have "vp_attached_vnf P = v" by (rule links_okD(3) [OF ok P(1)])
  then show ?thesis using s by (auto simp: slots_def split: option.splits)
qed

lemma red_ok: "reported t \<Longrightarrow> vports t p = Some P \<Longrightarrow> p \<noteq> NULL \<Longrightarrow> answers (port_perf_reduction R p) t"
  unfolding port_perf_reduction_def by (intro answers_all port_ok) auto

lemma port_info_ok:
  assumes "links_ok t" "reported t" "vports t p = Some P" "p \<noteq> NULL"
  shows "answers (vnf_port_info E R p) t"
proof -
  have "answers (attached_name P) t"
    using attached_live [OF assms(1,3)] by (auto simp: attached_name_def vnf_name_def the_vnf_def deref_def intro!: answers_all)
  moreover note port_ok [OF assms(2-4)] red_ok [OF assms(2-4)]
  ultimately show ?thesis
    unfolding vnf_port_info_def by (subst answers_value [where m = "the_port p"]) (assumption | intro answers_all answers_basic)+
qed

lemma vnf_info_ok:
  assumes ok: "links_ok t" and rep: "reported t" and V: "vnfs t v = Some V"
  shows "answers (vnf_info E R v) t"
proof -
  have v: "v \<noteq> NULL" using ok V by (auto dest: links_okD)
  have it: "the_vnf v t = Some (Return V, t)" using V v by (simp add: the_vnf_def need_def deref_def)
  have nb: "n_blocks v t = Some (Return (length (vn_blocks V)), t)" and np: "n_ports v t = Some (Return (length (vn_ports V)), t)"
    using it by (simp_all add: n_blocks_def n_ports_def ret_def)
  have pt: "vnf_port_at v i t = Some (Return (vn_ports V ! i), t)" if "i < length (vn_ports V)" for i
    using it that by (simp add: vnf_port_at_def need_def nth_opt_def)
  have bt: "vnf_block_at v i t = Some (Return (vn_blocks V ! i), t)" if "i < length (vn_blocks V)" for i
    using it that by (simp add: vnf_block_at_def at_vec_def ret_def)
  have live: "\<exists>P. vports t p = Some P" if "p \<in> set (vn_ports V)" "p \<noteq> NULL" for p
  proof -
    obtain i where i: "i < length (vn_ports V)" "vn_ports V ! i = p" using \<open>p \<in> set _\<close> by (auto simp: in_set_conv_nth)
    then have "slots t (v, i) = Some p" using V \<open>p \<noteq> NULL\<close> by (simp add: slots_def)
    then show ?thesis by (rule links_okD(4) [OF ok])
  qed
  have bl: "\<exists>B. the_block b t = Some (Return B, t)" if "b \<in> set (vn_blocks V)" for b
  proof -
    have "b \<noteq> NULL \<and> (\<exists>B. vblocks t b = Some B \<and> vb_ports B = v)" using ok V that unfolding links_ok_def by blast
    then show ?thesis by (auto simp: the_block_def need_def deref_def)
  qed
  then have bl': "answers (block_get_coremask b) t" "answers (block_is_running b) t" "answers (get_socket_affinity b) t" "answers (the_block b) t"
    if "b \<in> set (vn_blocks V)" for b
    using bl [OF that] by (auto simp: block_get_coremask_def block_is_running_def get_socket_affinity_def answers_def ret_def)
  have run: "answers (is_running v) t" using is_running_read [OF ok V] by (auto simp: answers_def)
  have sp: "answers (scan_ports v (when_null False)) t"
    unfolding scan_ports_def answers_value [where m = "n_ports v", OF np]
    by (rule answers_scan) (auto intro!: answers_bnd [where m = "vnf_port_at v i" for i, OF pt] simp: when_null_def)
  have sb: "answers (scan_blocks v (\<lambda>b. bnd (block_get_coremask b) (\<lambda>m. ret (if m = 0 then Some False else None)))) t"
    unfolding scan_blocks_def answers_value [where m = "n_blocks v", OF nb]
    by (rule answers_scan, rule answers_bnd [where m = "vnf_block_at v i" for i, OF bt]) (auto intro!: answers_all bl')
  have dep: "answers (deployable v) t"
    unfolding deployable_def by (rule answers_all [OF sp]) (auto intro!: answers_all [OF sb] split: option.splits)
  have red: "answers (sum_reductions R ps x) t" if "set ps \<subseteq> set (vn_ports V)" for ps x
    using that by (induction ps arbitrary: x) (auto intro!: answers_all red_ok [OF rep] dest!: live)
  then have red: "answers (vnf_perf_reduction R v) t"
    unfolding vnf_perf_reduction_def answers_value [where m = "the_vnf v", OF it] by (intro answers_all) (auto simp: Let_def split: option.splits)
  have rate: "answers (sum_rx v is x) t" if "set is \<subseteq> {..<length (vn_ports V)}" for "is" x
    using that
  proof (induction "is" arbitrary: x)
    case (Cons i "is")
    then have i: "i < length (vn_ports V)" by simp
    show ?case
      unfolding sum_rx.simps answers_value [where m = "vnf_port_at v i", OF pt [OF i]]
      using Cons live [OF nth_mem [OF i]] port_ok(2) [OF rep] by (auto intro!: answers_all)
  qed simp
  have masks: "answers (or_masks v is m) t" if "set is \<subseteq> {..<length (vn_blocks V)}" for "is" m
    using that by (induction "is" arbitrary: m) (auto intro!: answers_all answers_bnd [where m = "vnf_block_at v i" for i, OF bt] bl' simp: vnf_block_coremask_def)
  have ports: "answers (port_or_nil E R v i) t" if "i < length (vn_ports V)" for i
    unfolding port_or_nil_def answers_value [where m = "vnf_port_at v i", OF pt [OF that]]
    using live [OF nth_mem [OF that]] port_info_ok [OF ok rep] by auto
  have blocks: "answers (bnd (vnf_block_at v i) vnf_block_info) t" if "i < length (vn_blocks V)" for i
    unfolding answers_value [where m = "vnf_block_at v i", OF bt [OF that]] vnf_block_info_def
    by (intro answers_all bl' answers_basic) (use that in auto)
  have rate': "answers (get_rx_rate v) t" and masks': "answers (get_coremask v) t"
    unfolding get_rx_rate_def get_coremask_def answers_value [where m = "n_ports v", OF np] answers_value [where m = "n_blocks v", OF nb]
    by (rule rate masks, simp add: atLeast0LessThan)+
  have bs: "answers (members (\<lambda>i. bnd (vnf_block_at v i) vnf_block_info) 0 [0..<length (vn_blocks V)]) t"
    and ps: "answers (members (port_or_nil E R v) 0 [0..<length (vn_ports V)]) t"
    by (rule answers_members, rule blocks ports, simp)+
  show ?thesis
    unfolding vnf_info_def
    by (rule answers_bnd [where m = "the_vnf v", OF it], rule answers_all [OF run], rule answers_all [OF dep], rule answers_bnd [where m = "n_ports v", OF np],
        rule answers_bnd [where m = "n_blocks v", OF nb], rule answers_all [OF red], rule answers_all [OF rate'], rule answers_all [OF bs],
        rule answers_all [OF masks'], rule answers_all [OF ps], simp)
qed

text \<open>The requests about VNFs, ports and the catalog.\<close>

fun get_object :: "get_request \<Rightarrow> bool" where
  "get_object Get_root = True"
| "get_object Get_vnfs = True"
| "get_object (Get_vnf n) = True"
| "get_object Get_ports = True"
| "get_object (Get_port n) = True"
| "get_object Get_catalogs_vnf = True"
| "get_object _ = False"


definition demo_reports :: "nat reports" where
  "demo_reports = \<lparr>dbl_of = unat, dbl_div = (\<lambda>x y. x div y), dbl_add = (\<lambda>x y. x + y), dbl_less = (\<lambda>x y. x < y), lcore_socket = (\<lambda>_. 0),
     master_lcore = 0, cpu_rate = (\<lambda>_. 50), mp_name = (\<lambda>_. ''mp''), mp_size = (\<lambda>_. 8192), mp_avail = (\<lambda>_. 8000), uptime = 1, pointer_text = dec\<rparr>"


end
