(* ===== verification/Nfvi_Run.thy ===== *)
theory Nfvi_Run
  imports Nfvi_Json
begin

section \<open>The running NFVI (nfvi/ssn_nfvi.cc, nfvi/main.cc)\<close>

text \<open>
  \<open>run\<close> sets \<open>running\<close>, sleeps in rounds until it is cleared, and undeploys the VNFs. What happens
  during a sleep of one second (requests, timers, the console, signals) is the parameter \<open>tick\<close>. The
  flag is cleared by \<open>stop\<close>, which a signal, the console or a test calls.
\<close>

definition SIGINT :: nat where "SIGINT = 2"
definition SIGTERM :: nat where "SIGTERM = 15"

text \<open>The global pointer \<open>_nfvip\<close> and the flag \<open>_ssn_system_running_flag\<close>, beside the object.\<close>

record ('h, 'e, 'w, 'r, 'k) nfvi_process =
  np_nfvip :: addr
  np_running_flag :: bool
  np_nfvi :: "('h, 'e, 'w, 'r, 'k) nfvi"

definition signal_handler :: "nat \<Rightarrow> ('h, 'e, 'w, 'r, 'k) nfvi_process \<Rightarrow> ('h, 'e, 'w, 'r, 'k) nfvi_process" where
  "signal_handler signum s =
     (if (signum = SIGINT \<or> signum = SIGTERM) \<and> np_nfvip s \<noteq> NULL
      then s\<lparr>np_nfvi := (np_nfvi s)\<lparr>nv_running := False\<rparr>, np_running_flag := False\<rparr> else s)"

text \<open>The console reads characters until the flag is cleared. Behind the end of the input \<open>getchar\<close> returns at once,
  again and again: no value while the flag is set.\<close>

fun simple_console_thread :: "string \<Rightarrow> ('h, 'e, 'w, 'r, 'k, unit) nvop" where
  "simple_console_thread [] = need (\<lambda>s. if nv_running s then None else Some ())"
| "simple_console_thread (c # cs) = bnd (gets nv_running) (\<lambda>r.
     if r then andthen (if c = CHR ''q'' then stop else ret ()) (simple_console_thread cs) else ret ())"

partial_function (option) wait_stop :: "(('h, 'e, 'w, 'r, 'k) nfvi \<Rightarrow> ('h, 'e, 'w, 'r, 'k) nfvi) \<Rightarrow> ('h, 'e, 'w, 'r, 'k) nfvi \<Rightarrow> ('h, 'e, 'w, 'r, 'k) nfvi option" where
  "wait_stop tick s = (if nv_running s then wait_stop tick (tick s) else Some s)"

definition run :: "('h, 'e, 'w, 'r, 'k) nvenv \<Rightarrow> (('h, 'e, 'w, 'r, 'k) nfvi \<Rightarrow> ('h, 'e, 'w, 'r, 'k) nfvi) \<Rightarrow> ('h, 'e, 'w, 'r, 'k, unit) nvop" where
  "run X tick s = (case wait_stop tick (s\<lparr>nv_running := True\<rparr>) of None \<Rightarrow> None | Some t \<Rightarrow> run_end X t)"

subsection \<open>When it ends\<close>

lemma wait_stop_ends: "\<not> nv_running ((tick ^^ n) s) \<Longrightarrow> \<exists>k\<le>n. wait_stop tick s = Some ((tick ^^ k) s) \<and> \<not> nv_running ((tick ^^ k) s)"
proof (induction n arbitrary: s)
  case 0
  then show ?case by (subst wait_stop.simps) simp
next
  case (Suc n)
  show ?case
  proof (cases "nv_running s")
    case True
    have "\<not> nv_running ((tick ^^ n) (tick s))" using Suc.prems by (simp add: funpow_swap1)
    then obtain k where "k \<le> n" "wait_stop tick (tick s) = Some ((tick ^^ k) (tick s))" "\<not> nv_running ((tick ^^ k) (tick s))" using Suc.IH by blast
    then show ?thesis using True by (intro exI [of _ "Suc k"]) (subst wait_stop.simps, simp add: funpow_swap1)
  next
    case False
    then show ?thesis by (intro exI [of _ 0]) (subst wait_stop.simps, simp)
  qed
qed

lemma stop_before_run_is_lost: "run X tick (s\<lparr>nv_running := False\<rparr>) = run X tick s"
  by (simp add: run_def)

lemma console_quits:
  assumes "nv_running s" "CHR ''q'' \<in> set cs"
  shows "simple_console_thread cs s = Some (Return (), s\<lparr>nv_running := False\<rparr>)"
proof -
  have idle: "simple_console_thread ds t = Some (Return (), t)" if "\<not> nv_running t" for ds and t :: "('a, 'b, 'c, 'd, 'e) nfvi"
    using that by (cases ds) (simp_all add: need_def bnd_def gets_def ret_def)
  show ?thesis using assms
  proof (induction cs)
    case (Cons c cs)
    then show ?case using idle [of "s\<lparr>nv_running := False\<rparr>"]
      by (auto simp: bnd_def andthen_def gets_def stop_def modify_def ret_def)
  qed simp
qed

lemma console_waits: "nv_running s \<Longrightarrow> CHR ''q'' \<notin> set cs \<Longrightarrow> simple_console_thread cs s = None"
  by (induction cs) (auto simp: need_def bnd_def andthen_def gets_def ret_def)

lemma signals_stop: "np_nfvip s \<noteq> NULL \<Longrightarrow> g \<in> {SIGINT, SIGTERM} \<Longrightarrow> \<not> nv_running (np_nfvi (signal_handler g s)) \<and> \<not> np_running_flag (signal_handler g s)"
  by (auto simp: signal_handler_def)

subsection \<open>What it leaves running\<close>

text \<open>\<open>is_running\<close> of a VNF asks whether all of its blocks run. A VNF with one block that runs and one that does not is
  therefore skipped at the end of \<open>run\<close>: its threads go on.\<close>

lemma half_running_skipped:
  assumes "vnfs s v = Some \<lparr>vn_ports = ps, vn_blocks = [a, b], vn_name = n\<rparr>" "v \<noteq> NULL" "a \<noteq> NULL" "b \<noteq> NULL"
    and "vblocks s a = Some A" "vblocks s b = Some B" "vb_running A" "\<not> vb_running B"
  shows "undeploy_running E v s = Some (Return (), s)"
proof -
  have u: "[0..<Suc (Suc 0)] = [0, 1]" by (simp add: upt_rec)
  show ?thesis using assms
    by (simp add: undeploy_running_def is_running_def scan_blocks_def n_blocks_def vnf_block_at_def at_vec_def block_is_running_def the_vnf_def
      the_block_def nth_opt_def bnd_def need_def deref_def ret_def u)
qed

end
