(* ===== verification/Pmd_Pipe.thy ===== *)
theory Pmd_Pipe
  imports Dpdk_Api
begin

section \<open>The pipe poll-mode driver (lib/dpdk_pmd/rte_eth_pipe.c)\<close>

text \<open>
  A virtual Ethernet device whose receive queues are rings; a second device attaches to the first
  one and gets the same rings with the directions swapped. The heap of the driver (device data,
  private data, device entries, rings) is explicit, the services of DPDK are the records of
  \<open>Dpdk_Api\<close>. A queue pointer is the private block and the index into its array. The plain and the
  atomic update of a counter have the same effect on the value and are one function here.
\<close>

subsection \<open>State\<close>

definition RTE_PMD_PIPE_MAX_RX_RINGS :: nat where
  "RTE_PMD_PIPE_MAX_RX_RINGS = 16"

definition RTE_PMD_PIPE_MAX_TX_RINGS :: nat where
  "RTE_PMD_PIPE_MAX_TX_RINGS = 16"

record ring_queue =
  rq_rng :: addr
  rx_pkts :: u64
  tx_pkts :: u64
  err_pkts :: u64
  rx_bytes :: u64
  tx_bytes :: u64
  if_index :: u8

record pmd_internals =
  nb_rx_queues :: nat
  nb_tx_queues :: nat
  rx_ring_queues :: "ring_queue list"
  tx_ring_queues :: "ring_queue list"

record eth_link =
  link_speed :: nat
  link_full_duplex :: bool
  link_status :: bool
  link_autoneg :: bool

record eth_data =
  dev_private :: addr
  port_id :: nat
  data_nb_rx :: u16
  data_nb_tx :: u16
  dev_link :: eth_link
  data_rx_queues :: "nat \<rightharpoonup> addr \<times> nat"
  data_tx_queues :: "nat \<rightharpoonup> addr \<times> nat"
  data_numa_node :: nat

record eth_dev =
  dev_data :: addr
  dev_device :: addr
  dev_ops_pipe :: bool      \<comment> \<open>\<open>dev_ops\<close>, \<open>rx_pkt_burst\<close> and \<open>tx_pkt_burst\<close> are those of the pipe\<close>

record ('w, 'r) pmd =
  world :: 'w
  datas :: "addr \<rightharpoonup> eth_data"
  privs :: "addr \<rightharpoonup> pmd_internals"
  ethdevs :: "addr \<rightharpoonup> eth_dev"
  ringmem :: "addr \<rightharpoonup> 'r"
  pmd_errno :: nat

definition ENOMEM :: nat where "ENOMEM = 12"
definition ENOSPC :: nat where "ENOSPC = 28"
definition ENODEV :: int where "ENODEV = 19"
definition EINVAL :: int where "EINVAL = 22"

definition zero_queue :: ring_queue where
  "zero_queue = \<lparr>rq_rng = NULL, rx_pkts = 0, tx_pkts = 0, err_pkts = 0, rx_bytes = 0, tx_bytes = 0, if_index = 0\<rparr>"

definition zero_internals :: pmd_internals where
  "zero_internals = \<lparr>nb_rx_queues = 0, nb_tx_queues = 0,
     rx_ring_queues = replicate RTE_PMD_PIPE_MAX_RX_RINGS zero_queue,
     tx_ring_queues = replicate RTE_PMD_PIPE_MAX_TX_RINGS zero_queue\<rparr>"

definition pmd_link :: eth_link where
  "pmd_link = \<lparr>link_speed = 10000, link_full_duplex = True, link_status = False, link_autoneg = True\<rparr>"

subsection \<open>The data path\<close>

definition sum_len :: "mbuf list \<Rightarrow> u64" where
  "sum_len ms = sum_list (map (\<lambda>m. ucast (mb_len m)) ms)"

text \<open>\<open>eth_ring_rx\<close> on a queue pointer: dequeue, count, stamp the input port.\<close>

definition eth_ring_rx ::
  "('r, mbuf) ring_api \<Rightarrow> addr \<times> nat \<Rightarrow> u16 \<Rightarrow> ('w, 'r) pmd \<Rightarrow> (mbuf list \<times> ('w, 'r) pmd) option" where
  "eth_ring_rx R q nb_bufs s = do {
     let (p, i) = q;
     I \<leftarrow> privs s p;
     if length (rx_ring_queues I) \<le> i then None
     else do {
       let r = rx_ring_queues I ! i;
       ring \<leftarrow> ringmem s (rq_rng r);
       let (bufs, ring) = ra_deq R ring (unat nb_bufs);
       let r = r\<lparr>rx_pkts := rx_pkts r + of_nat (length bufs), rx_bytes := rx_bytes r + sum_len bufs\<rparr>;
       let bufs = map (\<lambda>m. m\<lparr>mb_port := if_index r\<rparr>) bufs;
       Some (bufs, s\<lparr>ringmem := (ringmem s)(rq_rng r \<mapsto> ring),
         privs := (privs s)(p \<mapsto> I\<lparr>rx_ring_queues := (rx_ring_queues I)[i := r]\<rparr>)\<rparr>) } }"

text \<open>\<open>eth_ring_tx\<close>: what the ring does not take is counted as errors and stays with the caller.\<close>

definition eth_ring_tx ::
  "('r, mbuf) ring_api \<Rightarrow> addr \<times> nat \<Rightarrow> mbuf list \<Rightarrow> ('w, 'r) pmd \<Rightarrow> (u16 \<times> ('w, 'r) pmd) option" where
  "eth_ring_tx R q bufs s = do {
     let (p, i) = q;
     I \<leftarrow> privs s p;
     if length (tx_ring_queues I) \<le> i then None
     else do {
       let r = tx_ring_queues I ! i;
       ring \<leftarrow> ringmem s (rq_rng r);
       let (n, ring) = ra_enq R ring bufs;
       let r = r\<lparr>tx_pkts := tx_pkts r + of_nat n, err_pkts := err_pkts r + of_nat (length bufs - n),
                 tx_bytes := tx_bytes r + sum_len (take n bufs)\<rparr>;
       Some (of_nat n, s\<lparr>ringmem := (ringmem s)(rq_rng r \<mapsto> ring),
         privs := (privs s)(p \<mapsto> I\<lparr>tx_ring_queues := (tx_ring_queues I)[i := r]\<rparr>)\<rparr>) } }"

subsection \<open>Device operations\<close>

definition eth_dev_configure :: "addr \<Rightarrow> ('w, 'r) pmd \<Rightarrow> int \<times> ('w, 'r) pmd" where
  "eth_dev_configure dev s = (0, s)"

definition dev_data_of :: "addr \<Rightarrow> ('w, 'r) pmd \<Rightarrow> (addr \<times> eth_data) option" where
  "dev_data_of dev s = do { d \<leftarrow> ethdevs s dev; D \<leftarrow> datas s (dev_data d); Some (dev_data d, D) }"

definition set_link :: "bool \<Rightarrow> addr \<Rightarrow> ('w, 'r) pmd \<Rightarrow> ('w, 'r) pmd option" where
  "set_link up dev s = do {
     (a, D) \<leftarrow> dev_data_of dev s;
     Some (s\<lparr>datas := (datas s)(a \<mapsto> D\<lparr>dev_link := (dev_link D)\<lparr>link_status := up\<rparr>\<rparr>)\<rparr>) }"

definition eth_dev_start :: "addr \<Rightarrow> ('w, 'r) pmd \<Rightarrow> (int \<times> ('w, 'r) pmd) option" where
  "eth_dev_start dev s = map_option (\<lambda>s. (0, s)) (set_link True dev s)"

definition eth_dev_stop :: "addr \<Rightarrow> ('w, 'r) pmd \<Rightarrow> ('w, 'r) pmd option" where
  "eth_dev_stop dev s = set_link False dev s"

definition eth_dev_set_link_down :: "addr \<Rightarrow> ('w, 'r) pmd \<Rightarrow> (int \<times> ('w, 'r) pmd) option" where
  "eth_dev_set_link_down dev s = map_option (\<lambda>s. (0, s)) (set_link False dev s)"

definition eth_dev_set_link_up :: "addr \<Rightarrow> ('w, 'r) pmd \<Rightarrow> (int \<times> ('w, 'r) pmd) option" where
  "eth_dev_set_link_up dev s = map_option (\<lambda>s. (0, s)) (set_link True dev s)"

definition eth_rx_queue_setup :: "addr \<Rightarrow> nat \<Rightarrow> ('w, 'r) pmd \<Rightarrow> (int \<times> ('w, 'r) pmd) option" where
  "eth_rx_queue_setup dev i s = do {
     (a, D) \<leftarrow> dev_data_of dev s;
     I \<leftarrow> privs s (dev_private D);
     if length (rx_ring_queues I) \<le> i then None
     else
       Some (0, s\<lparr>datas := (datas s)(a \<mapsto> D\<lparr>data_rx_queues := (data_rx_queues D)(i \<mapsto> (dev_private D, i))\<rparr>),
         privs := (privs s)(dev_private D \<mapsto> I\<lparr>rx_ring_queues :=
           (rx_ring_queues I)[i := (rx_ring_queues I ! i)\<lparr>if_index := of_nat (port_id D)\<rparr>]\<rparr>)\<rparr>) }"

definition eth_tx_queue_setup :: "addr \<Rightarrow> nat \<Rightarrow> ('w, 'r) pmd \<Rightarrow> (int \<times> ('w, 'r) pmd) option" where
  "eth_tx_queue_setup dev i s = do {
     (a, D) \<leftarrow> dev_data_of dev s;
     I \<leftarrow> privs s (dev_private D);
     if length (tx_ring_queues I) \<le> i then None
     else Some (0, s\<lparr>datas := (datas s)(a \<mapsto> D\<lparr>data_tx_queues := (data_tx_queues D)(i \<mapsto> (dev_private D, i))\<rparr>)\<rparr>) }"

record dev_info =
  max_mac_addrs :: nat
  max_rx_pktlen :: u32
  max_rx_queues :: u16
  max_tx_queues :: u16
  min_rx_bufsize :: nat

definition eth_dev_info :: "addr \<Rightarrow> ('w, 'r) pmd \<Rightarrow> dev_info option" where
  "eth_dev_info dev s = do {
     (a, D) \<leftarrow> dev_data_of dev s;
     I \<leftarrow> privs s (dev_private D);
     Some \<lparr>max_mac_addrs = 1, max_rx_pktlen = -1, max_rx_queues = of_nat (nb_rx_queues I),
       max_tx_queues = of_nat (nb_tx_queues I), min_rx_bufsize = 0\<rparr> }"

record eth_stats =
  ipackets :: u64
  opackets :: u64
  ibytes :: u64
  obytes :: u64
  oerrors :: u64
  q_ipackets :: "u64 list"
  q_opackets :: "u64 list"
  q_ibytes :: "u64 list"
  q_obytes :: "u64 list"
  q_errors :: "u64 list"

definition RTE_ETHDEV_QUEUE_STAT_CNTRS :: nat where
  "RTE_ETHDEV_QUEUE_STAT_CNTRS = 16"

text \<open>The lists hold the entries the loops write; the entries after them are zero.\<close>

definition eth_stats_get :: "addr \<Rightarrow> ('w, 'r) pmd \<Rightarrow> eth_stats option" where
  "eth_stats_get dev s = do {
     (a, D) \<leftarrow> dev_data_of dev s;
     I \<leftarrow> privs s (dev_private D);
     let rxs = take (min RTE_ETHDEV_QUEUE_STAT_CNTRS (nb_rx_queues I)) (rx_ring_queues I);
     let txs = take (min RTE_ETHDEV_QUEUE_STAT_CNTRS (nb_tx_queues I)) (tx_ring_queues I);
     Some \<lparr>ipackets = sum_list (map rx_pkts rxs), opackets = sum_list (map tx_pkts txs),
       ibytes = sum_list (map rx_bytes rxs), obytes = sum_list (map tx_bytes txs),
       oerrors = sum_list (map err_pkts txs),
       q_ipackets = map rx_pkts rxs, q_opackets = map tx_pkts txs, q_ibytes = map rx_bytes rxs,
       q_obytes = map tx_bytes txs, q_errors = map err_pkts txs\<rparr> }"

definition eth_stats_reset :: "addr \<Rightarrow> ('w, 'r) pmd \<Rightarrow> ('w, 'r) pmd option" where
  "eth_stats_reset dev s = do {
     (a, D) \<leftarrow> dev_data_of dev s;
     I \<leftarrow> privs s (dev_private D);
     let I = I\<lparr>rx_ring_queues := map (\<lambda>r. r\<lparr>rx_pkts := 0, rx_bytes := 0\<rparr>) (take (nb_rx_queues I) (rx_ring_queues I)) @
                 drop (nb_rx_queues I) (rx_ring_queues I),
               tx_ring_queues := map (\<lambda>r. r\<lparr>tx_pkts := 0, tx_bytes := 0, err_pkts := 0\<rparr>) (take (nb_tx_queues I) (tx_ring_queues I)) @
                 drop (nb_tx_queues I) (tx_ring_queues I)\<rparr>;
     Some (s\<lparr>privs := (privs s)(dev_private D \<mapsto> I)\<rparr>) }"

text \<open>The operations of the table that do nothing.\<close>

definition eth_mac_addr_remove :: "addr \<Rightarrow> u32 \<Rightarrow> ('w, 'r) pmd \<Rightarrow> ('w, 'r) pmd" where
  "eth_mac_addr_remove dev index s = s"

definition eth_mac_addr_add :: "addr \<Rightarrow> u32 \<Rightarrow> u32 \<Rightarrow> ('w, 'r) pmd \<Rightarrow> int \<times> ('w, 'r) pmd" where
  "eth_mac_addr_add dev index vmdq s = (0, s)"

definition eth_queue_release :: "addr \<times> nat \<Rightarrow> ('w, 'r) pmd \<Rightarrow> ('w, 'r) pmd" where
  "eth_queue_release q s = s"

definition eth_link_update :: "addr \<Rightarrow> int \<Rightarrow> ('w, 'r) pmd \<Rightarrow> int \<times> ('w, 'r) pmd" where
  "eth_link_update dev wait_to_complete s = (0, s)"

subsection \<open>Creating a device\<close>

text \<open>The two loops that store the ring pointers.\<close>

definition store_rings :: "nat \<Rightarrow> addr list \<Rightarrow> ring_queue list \<Rightarrow> ring_queue list option" where
  "store_rings n rs qs =
     (if length rs < n \<or> length qs < n then None
      else Some (map2 (\<lambda>q r. q\<lparr>rq_rng := r\<rparr>) (take n qs) (take n rs) @ drop n qs))"

text \<open>The error exit of \<open>rte_eth_from_rings\<close>: \<open>free\<close> of what was allocated.\<close>

definition from_rings_error :: "'w eal \<Rightarrow> addr \<Rightarrow> addr \<Rightarrow> ('w, 'r) pmd \<Rightarrow> int \<times> ('w, 'r) pmd" where
  "from_rings_error E data internals s =
     (let s = if data \<noteq> NULL then s\<lparr>world := mfree E data (world s), datas := (datas s)(data := None)\<rparr> else s;
          s = if internals \<noteq> NULL then s\<lparr>world := mfree E internals (world s), privs := (privs s)(internals := None)\<rparr> else s
      in (-1, s))"

definition rte_eth_from_rings ::
  "'w eal \<Rightarrow> string \<Rightarrow> addr list option \<Rightarrow> nat \<Rightarrow> addr list option \<Rightarrow> nat \<Rightarrow> nat \<Rightarrow> addr \<Rightarrow>
   ('w, 'r) pmd \<Rightarrow> (int \<times> ('w, 'r) pmd) option" where
  "rte_eth_from_rings E name rx_queues nb_rx tx_queues nb_tx numa_node dev s =
     (if rx_queues = None \<and> nb_rx > 0 then Some (from_rings_error E NULL NULL s)
      else if tx_queues = None \<and> nb_tx > 0 then Some (from_rings_error E NULL NULL s)
      else
        let (data, w) = zmalloc E (world s); s = s\<lparr>world := w\<rparr> in
        if data = NULL then Some (from_rings_error E NULL NULL (s\<lparr>pmd_errno := ENOMEM\<rparr>))
        else
        let s = s\<lparr>datas := (datas s)(data \<mapsto> \<lparr>dev_private = NULL, port_id = 0, data_nb_rx = 0, data_nb_tx = 0,
              dev_link = \<lparr>link_speed = 0, link_full_duplex = False, link_status = False, link_autoneg = False\<rparr>,
              data_rx_queues = Map.empty, data_tx_queues = Map.empty, data_numa_node = 0\<rparr>)\<rparr>;
            (internals, w) = zmalloc E (world s); s = s\<lparr>world := w\<rparr> in
        if internals = NULL then Some (from_rings_error E data NULL (s\<lparr>pmd_errno := ENOMEM\<rparr>))
        else
        let s = s\<lparr>privs := (privs s)(internals \<mapsto> zero_internals)\<rparr>;
            (ed, w) = dev_allocate E name (world s); s = s\<lparr>world := w\<rparr> in
        case ed of None \<Rightarrow> Some (from_rings_error E data internals (s\<lparr>pmd_errno := ENOSPC\<rparr>))
        | Some (eth_dev, port) \<Rightarrow> do {
            rxq \<leftarrow> store_rings nb_rx (case rx_queues of None \<Rightarrow> [] | Some r \<Rightarrow> r) (rx_ring_queues zero_internals);
            txq \<leftarrow> store_rings nb_tx (case tx_queues of None \<Rightarrow> [] | Some r \<Rightarrow> r) (tx_ring_queues zero_internals);
            Some (int port, s\<lparr>
              privs := (privs s)(internals \<mapsto> \<lparr>nb_rx_queues = nb_rx, nb_tx_queues = nb_tx,
                rx_ring_queues = rxq, tx_ring_queues = txq\<rparr>),
              datas := (datas s)(data \<mapsto> \<lparr>dev_private = internals, port_id = port,
                data_nb_rx = of_nat nb_rx, data_nb_tx = of_nat nb_tx, dev_link = pmd_link,
                data_rx_queues = Map.empty, data_tx_queues = Map.empty, data_numa_node = numa_node\<rparr>),
              ethdevs := (ethdevs s)(eth_dev \<mapsto> \<lparr>dev_data = data, dev_device = dev, dev_ops_pipe = True\<rparr>)\<rparr>) })"

datatype dev_action = DEV_CREATE | DEV_ATTACH

record vport_info =
  vp_name :: string
  vp_node :: nat
  vp_action :: dev_action

definition rx_rng_name :: "'w eal \<Rightarrow> nat \<Rightarrow> string \<Rightarrow> string" where
  "rx_rng_name E i devname = take (ring_namesize E - 1) (''ETH_RX'' @ dec i @ ''_'' @ devname)"

definition tx_rng_name :: "'w eal \<Rightarrow> nat \<Rightarrow> string \<Rightarrow> string" where
  "tx_rng_name E i devname = take (ring_namesize E - 1) (''ETH_TX'' @ dec i @ ''_'' @ devname)"

text \<open>One ring of \<open>eth_dev_ring_create\<close>: made under \<open>own\<close>, or looked up under \<open>other\<close>.\<close>

definition get_ring ::
  "'w eal \<Rightarrow> 'r \<Rightarrow> dev_action \<Rightarrow> string \<Rightarrow> string \<Rightarrow> ('w, 'r) pmd \<Rightarrow> addr \<times> ('w, 'r) pmd" where
  "get_ring E new action own other s =
     (if action = DEV_CREATE then
        let (r, w) = ring_create E own (world s); s = s\<lparr>world := w\<rparr> in
        (r, if r = NULL then s else s\<lparr>ringmem := (ringmem s)(r \<mapsto> new)\<rparr>)
      else (ring_lookup E other (world s), s))"

text \<open>The loop over the rings; the lists are what was stored before it ended, the flag is False
  for the early \<open>return -1\<close>.\<close>

fun get_rings ::
  "'w eal \<Rightarrow> 'r \<Rightarrow> dev_action \<Rightarrow> string \<Rightarrow> nat \<Rightarrow> nat \<Rightarrow> ('w, 'r) pmd \<Rightarrow> bool \<times> addr list \<times> addr list \<times> ('w, 'r) pmd" where
  "get_rings E new action devname i 0 s = (True, [], [], s)"
| "get_rings E new action devname i (Suc k) s =
     (let (r, s) = get_ring E new action (rx_rng_name E i devname) (tx_rng_name E i devname) s in
      if r = NULL then (False, [], [], s)
      else
        let (t, s) = get_ring E new action (tx_rng_name E i devname) (rx_rng_name E i devname) s in
        if t = NULL then (False, [], [], s)
        else
          let (ok, rx, tx, s) = get_rings E new action devname (Suc i) k s in
          (ok, r # rx, t # tx, s))"

definition eth_dev_ring_create ::
  "'w eal \<Rightarrow> 'r \<Rightarrow> addr \<Rightarrow> string \<Rightarrow> vport_info \<Rightarrow> ('w, 'r) pmd \<Rightarrow> (int \<times> ('w, 'r) pmd) option" where
  "eth_dev_ring_create E new dev name info s =
     (let num_rings = min RTE_PMD_PIPE_MAX_RX_RINGS RTE_PMD_PIPE_MAX_TX_RINGS;
          devname = (if vp_action info = DEV_CREATE then name else vp_name info);
          (ok, rx, tx, s) = get_rings E new (vp_action info) devname 0 num_rings s in
      if \<not> ok then Some (-1, s)
      else do {
        (r, s) \<leftarrow> rte_eth_from_rings E name (Some rx) num_rings (Some tx) num_rings (vp_node info) dev s;
        Some (if r \<noteq> 0 then -1 else 0, s) })"

subsection \<open>Probe and remove\<close>

definition parse_kvlist :: "'w eal \<Rightarrow> string option \<Rightarrow> vport_info \<Rightarrow> int \<times> vport_info" where
  "parse_kvlist E value info =
     (case value of
        None \<Rightarrow> (0, info\<lparr>vp_name := '''', vp_node := socket_id E, vp_action := DEV_CREATE\<rparr>)
      | Some v \<Rightarrow> (0, info\<lparr>vp_name := v, vp_node := socket_id E, vp_action := DEV_ATTACH\<rparr>))"

text \<open>\<open>rte_kvargs_parse\<close> with the valid arguments, followed by \<open>rte_kvargs_count\<close> and
  \<open>rte_kvargs_process\<close> for the key \<open>attach\<close>: \<open>kvargs\<close> gives NULL for arguments it rejects, else the values
  of that key, and the handler runs on each of them. \<open>junk\<close> is the uninitialised \<open>info\<close>.\<close>

fun kvargs_process :: "'w eal \<Rightarrow> string option list \<Rightarrow> vport_info \<Rightarrow> int \<times> vport_info" where
  "kvargs_process E [] info = (0, info)"
| "kvargs_process E (v # vs) info =
     (let (r, info) = parse_kvlist E v info in
      if r < 0 then (-1, info) else kvargs_process E vs info)"

definition rte_pmd_pipe_probe ::
  "'w eal \<Rightarrow> 'r \<Rightarrow> (string \<Rightarrow> string list \<Rightarrow> string option list option) \<Rightarrow> vport_info \<Rightarrow>
   addr \<Rightarrow> string \<Rightarrow> string \<Rightarrow> ('w, 'r) pmd \<Rightarrow> (int \<times> ('w, 'r) pmd) option" where
  "rte_pmd_pipe_probe E new kvargs junk dev name params s =
     (case kvargs params [''attach''] of
        None \<Rightarrow> do {
          let info = junk\<lparr>vp_node := socket_id E, vp_action := DEV_CREATE\<rparr>;
          (_, s) \<leftarrow> eth_dev_ring_create E new dev name info s;
          Some (0, s) }
      | Some vs \<Rightarrow> do {
          let (ret, info) = (if vs \<noteq> [] then kvargs_process E vs junk else parse_kvlist E None junk);
          if ret < 0 then Some (ret, s)
          else do {
            (_, s) \<leftarrow> eth_dev_ring_create E new dev name info s;
            Some (ret, s) } })"

definition rte_pmd_pipe_remove :: "'w eal \<Rightarrow> string option \<Rightarrow> ('w, 'r) pmd \<Rightarrow> (int \<times> ('w, 'r) pmd) option" where
  "rte_pmd_pipe_remove E name s =
     (case name of None \<Rightarrow> Some (- EINVAL, s)
      | Some n \<Rightarrow>
        let eth_dev = dev_allocated E n (world s) in
        if eth_dev = NULL then Some (- ENODEV, s)
        else do {
          s \<leftarrow> eth_dev_stop eth_dev s;
          d \<leftarrow> ethdevs s eth_dev;
          let s = s\<lparr>world := mfree E (dev_data d) (world s), datas := (datas s)(dev_data d := None)\<rparr>;
          Some (0, s\<lparr>world := dev_release E eth_dev (world s)\<rparr>) })"

subsection \<open>The data path\<close>


text \<open>C7. End to end: packets sent on a queue of one device come out of the queue of the other device
  that shares its ring, complete and in order, stamped with the receiving port.\<close>

theorem pipe_end_to_end:
  assumes R: "ring_laws R" and I0: "privs s p0 = Some I0" "i < length (tx_ring_queues I0)"
    and I1: "privs s p1 = Some I1" "j < length (rx_ring_queues I1)" and ne: "p0 \<noteq> p1"
    and x: "rq_rng (rx_ring_queues I1 ! j) = rq_rng (tx_ring_queues I0 ! i)"
    and ring: "ringmem s (rq_rng (tx_ring_queues I0 ! i)) = Some ring" "ra_items R ring = []"
    and b: "length bufs < 65536" "length bufs \<le> unat nb"
  shows "\<exists>n s1 s2. eth_ring_tx R (p0, i) bufs s = Some (n, s1) \<and>
    eth_ring_rx R (p1, j) nb s1 =
      Some (map (\<lambda>m. m\<lparr>mb_port := if_index (rx_ring_queues I1 ! j)\<rparr>) (take (unat n) bufs), s2)"
proof -
  obtain k ring1 where e: "ra_enq R ring bufs = (k, ring1)" by fastforce
  note L = ring_enq [OF R e]
  have u: "unat (of_nat k :: u16) = k" using L(1) b by (simp add: unat_of_nat_u16)
  obtain ys ring2 where d: "ra_deq R ring1 (unat nb) = (ys, ring2)" by fastforce
  have "ys = take k bufs" using ring_deq(3) [OF R d] L ring(2) b by simp
  then show ?thesis
    using assms e d u by (auto simp: eth_ring_tx_def eth_ring_rx_def Let_def)
qed

subsection \<open>Statistics\<close>

lemma sum_list_upd:
  fixes f :: "'a \<Rightarrow> 'b :: ab_group_add"
  shows "i < length xs \<Longrightarrow> sum_list (map f (xs[i := y])) = sum_list (map f xs) - f (xs ! i) + f y"
proof (induction xs arbitrary: i)
  case (Cons x xs)
  then show ?case by (cases i) (simp_all add: algebra_simps)
qed simp

text \<open>The device statistics follow the traffic: after a transmit on a queue within the counted
  ones, \<open>opackets + oerrors\<close> has grown by the number of packets offered (modulo \<open>2^64\<close>) and the
  receive side is unchanged.\<close>

theorem pipe_stats_follow:
  assumes "ring_laws R" "dev_data_of dev s = Some (a, D)" "privs s (dev_private D) = Some I"
    "i < nb_tx_queues I" "i < RTE_ETHDEV_QUEUE_STAT_CNTRS" "i < length (tx_ring_queues I)"
    "ringmem s (rq_rng (tx_ring_queues I ! i)) = Some ring" "length bufs < 65536"
  shows "\<exists>n s' st st'. eth_ring_tx R (dev_private D, i) bufs s = Some (n, s') \<and>
    eth_stats_get dev s = Some st \<and> eth_stats_get dev s' = Some st' \<and>
    opackets st' + oerrors st' = opackets st + oerrors st + of_nat (length bufs) \<and>
    opackets st' = opackets st + of_nat (unat n) \<and> ipackets st' = ipackets st \<and> ibytes st' = ibytes st"
proof -
  obtain k ring' where e: "ra_enq R ring bufs = (k, ring')" by fastforce
  note L = ring_enq [OF assms(1) e]
  have u: "unat (of_nat k :: u16) = k" using L(1) assms(8) by (simp add: unat_of_nat_u16)
  define r where "r = tx_ring_queues I ! i"
  define m where "m = min RTE_ETHDEV_QUEUE_STAT_CNTRS (nb_tx_queues I)"
  define qs where "qs = take m (tx_ring_queues I)"
  let ?r = "r\<lparr>tx_pkts := tx_pkts r + of_nat k, err_pkts := err_pkts r + of_nat (length bufs - k),
                 tx_bytes := tx_bytes r + sum_len (take k bufs)\<rparr>"
  have im: "i < m" "i < length qs" "qs ! i = r" using assms(4-6) by (auto simp: m_def qs_def r_def)
  have tk: "take m ((tx_ring_queues I)[i := ?r]) = qs[i := ?r]"
    using im by (simp add: qs_def take_update_swap)
  let ?s = "s\<lparr>ringmem := (ringmem s)(rq_rng r \<mapsto> ring'), privs := (privs s)(dev_private D \<mapsto> I\<lparr>tx_ring_queues := (tx_ring_queues I)[i := ?r]\<rparr>)\<rparr>"
  have t: "eth_ring_tx R (dev_private D, i) bufs s = Some (of_nat k, ?s)"
    using assms e by (simp add: eth_ring_tx_def Let_def r_def)
  have dd: "dev_data_of dev ?s = Some (a, D)" using assms(2) by (simp add: dev_data_of_def)
  have kk: "(of_nat k :: u64) + of_nat (length bufs - k) = of_nat (length bufs)"
    using L(1) by (metis of_nat_add le_add_diff_inverse)
  obtain st where st: "eth_stats_get dev s = Some st" "opackets st = sum_list (map tx_pkts qs)"
    "oerrors st = sum_list (map err_pkts qs)"
    "ipackets st = sum_list (map rx_pkts (take (min RTE_ETHDEV_QUEUE_STAT_CNTRS (nb_rx_queues I)) (rx_ring_queues I)))"
    "ibytes st = sum_list (map rx_bytes (take (min RTE_ETHDEV_QUEUE_STAT_CNTRS (nb_rx_queues I)) (rx_ring_queues I)))"
    using assms(2,3) by (simp add: eth_stats_get_def Let_def m_def qs_def)
  obtain st' where st': "eth_stats_get dev ?s = Some st'" "opackets st' = sum_list (map tx_pkts (qs[i := ?r]))"
    "oerrors st' = sum_list (map err_pkts (qs[i := ?r]))" "ipackets st' = ipackets st" "ibytes st' = ibytes st"
    using dd st(4,5) tk by (simp add: eth_stats_get_def Let_def m_def)
  have "opackets st' = opackets st + of_nat k" "oerrors st' = oerrors st + of_nat (length bufs - k)"
    using im st st' by (simp_all add: sum_list_upd)
  moreover have "ucast (of_nat k :: u16) = (of_nat k :: u64)" using u by (metis of_nat_unat)
  ultimately show ?thesis using t st(1) st' kk
    by (intro exI [of _ "of_nat k"] exI [of _ ?s] exI [of _ st] exI [of _ st']) (simp add: algebra_simps)
qed

subsection \<open>The rings of a pair of devices\<close>

text \<open>What making a ring leaves alone: the devices, the blocks, and every ring that has a name.\<close>

definition rings_kept :: "'w eal \<Rightarrow> ('w, 'r) pmd \<Rightarrow> ('w, 'r) pmd \<Rightarrow> bool" where
  "rings_kept E s s' \<longleftrightarrow>
     (\<forall>n. ring_lookup E n (world s) \<noteq> NULL \<longrightarrow> ring_lookup E n (world s') = ring_lookup E n (world s)) \<and>
     datas s' = datas s \<and> privs s' = privs s \<and> ethdevs s' = ethdevs s \<and>
     same_devs E (world s) (world s') \<and> same_blocks E (world s) (world s')"

lemma rings_kept_refl [simp]: "rings_kept E s s"
  by (simp add: rings_kept_def same_devs_def same_blocks_def)

lemma rings_kept_trans: "rings_kept E s t \<Longrightarrow> rings_kept E t u \<Longrightarrow> rings_kept E s u"
  by (simp add: rings_kept_def same_devs_def same_blocks_def)

lemma get_ring_create:
  assumes E: "eal_laws E" and g: "get_ring E new DEV_CREATE own other s = (r, s')"
  shows "rings_kept E s s'" "r \<noteq> NULL \<Longrightarrow> ring_lookup E own (world s') = r"
proof -
  obtain w where w: "ring_create E own (world s) = (r, w)" and s': "s' = (if r = NULL then s\<lparr>world := w\<rparr> else s\<lparr>world := w, ringmem := (ringmem s)(r \<mapsto> new)\<rparr>)"
    using g by (auto simp: get_ring_def Let_def split: prod.splits if_splits)
  note C = eal_create [OF E w]
  have "ring_lookup E n (world s') = ring_lookup E n (world s)" if "ring_lookup E n (world s) \<noteq> NULL" for n
    using C(3,4) that s' unfolding same_rings_def binds_def by (auto split: if_splits)
  then show "rings_kept E s s'" using C(1,2) s' by (simp add: rings_kept_def)
  show "r \<noteq> NULL \<Longrightarrow> ring_lookup E own (world s') = r"
    using C(4) s' unfolding binds_def by auto
qed

definition ring_names :: "'w eal \<Rightarrow> string \<Rightarrow> nat \<Rightarrow> addr list \<Rightarrow> addr list \<Rightarrow> ('w, 'r) pmd \<Rightarrow> bool" where
  "ring_names E d i rx tx s \<longleftrightarrow>
     (\<forall>j<length rx. ring_lookup E (rx_rng_name E (i + j) d) (world s) = rx ! j \<and> rx ! j \<noteq> NULL \<and>
        ring_lookup E (tx_rng_name E (i + j) d) (world s) = tx ! j \<and> tx ! j \<noteq> NULL)"

lemma ring_names_kept: "ring_names E d i rx tx s \<Longrightarrow> rings_kept E s s' \<Longrightarrow> ring_names E d i rx tx s'"
  unfolding ring_names_def rings_kept_def by metis

lemma ring_names_Cons:
  "ring_names E d i (r # rx) (t # tx) s \<longleftrightarrow> ring_lookup E (rx_rng_name E i d) (world s) = r \<and> r \<noteq> NULL \<and>
     ring_lookup E (tx_rng_name E i d) (world s) = t \<and> t \<noteq> NULL \<and> ring_names E d (Suc i) rx tx s"
  by (simp add: ring_names_def All_less_Suc2)

lemma get_rings_create:
  assumes E: "eal_laws E" and g: "get_rings E new DEV_CREATE d i k s = (ok, rx, tx, s')"
  shows "rings_kept E s s' \<and> (ok \<longrightarrow> length rx = k \<and> length tx = k \<and> ring_names E d i rx tx s')"
  using g
proof (induction k arbitrary: i s ok rx tx)
  case 0
  then show ?case by (simp add: ring_names_def)
next
  case (Suc k)
  obtain r s1 where r: "get_ring E new DEV_CREATE (rx_rng_name E i d) (tx_rng_name E i d) s = (r, s1)" by fastforce
  obtain t s2 where t: "get_ring E new DEV_CREATE (tx_rng_name E i d) (rx_rng_name E i d) s1 = (t, s2)" by fastforce
  obtain ok' rx' tx' s3 where g': "get_rings E new DEV_CREATE d (Suc i) k s2 = (ok', rx', tx', s3)" by (metis prod_cases4)
  note R = get_ring_create [OF E r] and T = get_ring_create [OF E t]
  show ?case
  proof (cases "r = NULL \<or> t = NULL")
    case True
    then show ?thesis using Suc.prems r t R(1) T(1) rings_kept_trans [OF R(1) T(1)] by (auto simp: Let_def split: if_splits)
  next
    case False
    then have e: "ok = ok'" "rx = r # rx'" "tx = t # tx'" "s' = s3"
      using Suc.prems r t g' by (simp_all add: Let_def)
    have I: "rings_kept E s2 s3 \<and> (ok' \<longrightarrow> length rx' = k \<and> length tx' = k \<and> ring_names E d (Suc i) rx' tx' s3)"
      using Suc.IH [of "Suc i" s2 ok' rx' tx'] g' e by simp
    have "ring_lookup E (rx_rng_name E i d) (world s3) = r" "ring_lookup E (tx_rng_name E i d) (world s3) = t"
      using R T I False unfolding rings_kept_def by metis+
    then show ?thesis using e I False rings_kept_trans [OF rings_kept_trans [OF R(1) T(1)]] by (auto simp: ring_names_Cons)
  qed
qed

lemma get_rings_attach:
  assumes "ring_names E d i rx tx s" "length tx = length rx"
  shows "get_rings E new DEV_ATTACH d i (length rx) s = (True, tx, rx, s)"
  using assms
proof (induction rx arbitrary: i tx)
  case (Cons r rx)
  then obtain t tx' where "tx = t # tx'" by (cases tx) auto
  then show ?case using Cons.prems Cons.IH [of "Suc i" tx'] by (simp add: ring_names_Cons get_ring_def)
qed simp

subsection \<open>The device made from the rings\<close>

definition pmd_ok :: "'w eal \<Rightarrow> ('w, 'r) pmd \<Rightarrow> bool" where
  "pmd_ok E s \<longleftrightarrow> dom (datas s) \<union> dom (privs s) \<subseteq> blocks E (world s) \<and> dom (datas s) \<inter> dom (privs s) = {}"

text \<open>A failed creation leaves the driver as it was, with no block left behind.\<close>

definition nothing_made :: "'w eal \<Rightarrow> ('w, 'r) pmd \<Rightarrow> ('w, 'r) pmd \<Rightarrow> bool" where
  "nothing_made E s s' \<longleftrightarrow> datas s' = datas s \<and> privs s' = privs s \<and> ethdevs s' = ethdevs s \<and> ringmem s' = ringmem s \<and>
     same_blocks E (world s) (world s') \<and> same_devs E (world s) (world s') \<and> same_rings E (world s) (world s')"

definition device_made ::
  "'w eal \<Rightarrow> string \<Rightarrow> ('w, 'r) pmd \<Rightarrow> addr \<Rightarrow> nat \<Rightarrow> addr \<Rightarrow> addr \<Rightarrow> addr list \<Rightarrow> addr list \<Rightarrow> ('w, 'r) pmd \<Rightarrow> bool" where
  "device_made E name s e port a p rx tx s' \<longleftrightarrow>
     a \<notin> dom (datas s) \<and> p \<notin> dom (privs s) \<and> a \<noteq> p \<and> pmd_ok E s' \<and> ringmem s' = ringmem s \<and>
     same_rings E (world s) (world s') \<and> binds (dev_allocated E) name e (world s) (world s') \<and>
     (\<exists>D I dev. ethdevs s' = (ethdevs s)(e \<mapsto> \<lparr>dev_data = a, dev_device = dev, dev_ops_pipe = True\<rparr>) \<and>
        datas s' = (datas s)(a \<mapsto> D) \<and> privs s' = (privs s)(p \<mapsto> I) \<and> dev_private D = p \<and> port_id D = port \<and>
        \<not> link_status (dev_link D) \<and> nb_rx_queues I = length rx \<and> nb_tx_queues I = length tx \<and>
        map rq_rng (rx_ring_queues I) = rx \<and> map rq_rng (tx_ring_queues I) = tx)"

lemma store_rings_all:
  "length rs = n \<Longrightarrow> length qs = n \<Longrightarrow> \<exists>qs'. store_rings n rs qs = Some qs' \<and> map rq_rng qs' = rs"
proof (intro exI conjI)
  assume l: "length rs = n" "length qs = n"
  then show "store_rings n rs qs = Some (map2 (\<lambda>q r. q\<lparr>rq_rng := r\<rparr>) qs rs)" by (simp add: store_rings_def)
  show "map rq_rng (map2 (\<lambda>q r. q\<lparr>rq_rng := r\<rparr>) qs rs) = rs"
    using l by (induction qs rs arbitrary: n rule: list_induct2') auto
qed

lemma zero_internals_length: "length (rx_ring_queues zero_internals) = 16" "length (tx_ring_queues zero_internals) = 16"
  by (simp_all add: zero_internals_def RTE_PMD_PIPE_MAX_RX_RINGS_def RTE_PMD_PIPE_MAX_TX_RINGS_def)

lemma from_rings_cases:
  assumes E: "eal_laws E" and S: "pmd_ok E s" and l: "length rx = 16" "length tx = 16"
  shows "\<exists>r s'. rte_eth_from_rings E name (Some rx) 16 (Some tx) 16 node dev s = Some (r, s') \<and>
    (r = -1 \<and> nothing_made E s s' \<or> (\<exists>e port a p. e \<noteq> NULL \<and> r = int port \<and> device_made E name s e port a p rx tx s'))"
proof -
  obtain a w1 where a: "zmalloc E (world s) = (a, w1)" by fastforce
  note A = eal_zmalloc [OF E a]
  obtain p w2 where p: "zmalloc E w1 = (p, w2)" by fastforce
  note P = eal_zmalloc [OF E p]
  obtain d w3 where d: "dev_allocate E name w2 = (d, w3)" by fastforce
  note D = eal_dev [OF E d]
  obtain rxq where rxq: "store_rings 16 rx (rx_ring_queues zero_internals) = Some rxq" "map rq_rng rxq = rx"
    using store_rings_all [OF l(1) zero_internals_length(1)] by blast
  obtain txq where txq: "store_rings 16 tx (tx_ring_queues zero_internals) = Some txq" "map rq_rng txq = tx"
    using store_rings_all [OF l(2) zero_internals_length(2)] by blast
  note eqs = rte_eth_from_rings_def from_rings_error_def Let_def
  note same = same_devs_def same_rings_def same_blocks_def
  consider "a = NULL" | "a \<noteq> NULL" "p = NULL" | "a \<noteq> NULL" "p \<noteq> NULL" "d = None"
    | e port where "a \<noteq> NULL" "p \<noteq> NULL" "d = Some (e, port)" by (cases d) auto
  then show ?thesis
  proof cases
    case 1
    then show ?thesis using a A by (simp add: eqs nothing_made_def same)
  next
    case 2
    have "a \<notin> dom (datas s)" using A(4) S 2 unfolding pmd_ok_def by blast
    then have "(datas s)(a := None) = datas s" by (simp add: fun_upd_idem_iff domIff)
    then show ?thesis using 2 a p A P eal_free [OF E, where w = w2 and a = a] by (simp add: eqs nothing_made_def same)
  next
    case 3
    have n: "a \<notin> dom (datas s)" "p \<notin> dom (privs s)" "a \<notin> blocks E (world s)" "p \<notin> blocks E (world s)" "a \<noteq> p"
      using A(4) P(4) S 3 unfolding pmd_ok_def by auto
    then have i: "(datas s)(a := None) = datas s" "(privs s)(p := None) = privs s" by (simp_all add: fun_upd_idem_iff domIff)
    have "blocks E w3 = insert p (insert a (blocks E (world s)))" using A(4) P(4) D(2) 3 by (simp add: same)
    then have "blocks E (mfree E p (mfree E a w3)) = blocks E (world s)" using n eal_free(3) [OF E] by auto
    then show ?thesis
      using 3 a p d i A P D eal_free [OF E, where w = w3 and a = a] eal_free [OF E, where w = "mfree E a w3" and a = p] by (simp add: eqs nothing_made_def same)
  next
    case 4
    have n: "a \<notin> dom (datas s)" "p \<notin> dom (privs s)" "a \<notin> dom (privs s)" "p \<notin> dom (datas s)" "a \<noteq> p"
      using A(4) P(4) S 4 unfolding pmd_ok_def by auto
    let ?I = "\<lparr>nb_rx_queues = 16, nb_tx_queues = 16, rx_ring_queues = rxq, tx_ring_queues = txq\<rparr>"
    let ?D = "\<lparr>dev_private = p, port_id = port, data_nb_rx = of_nat 16, data_nb_tx = of_nat 16, dev_link = pmd_link,
                data_rx_queues = Map.empty, data_tx_queues = Map.empty, data_numa_node = node\<rparr>"
    let ?s = "s\<lparr>world := w3, datas := (datas s)(a \<mapsto> ?D), privs := (privs s)(p \<mapsto> ?I),
       ethdevs := (ethdevs s)(e \<mapsto> \<lparr>dev_data = a, dev_device = dev, dev_ops_pipe = True\<rparr>)\<rparr>"
    have e: "e \<noteq> NULL" "binds (dev_allocated E) name e w2 w3" using D(4) 4 by blast+
    have w3: "blocks E w3 = insert p (insert a (blocks E (world s)))" using A(4) P(4) D(2) 4 by (simp add: same)
    have "pmd_ok E ?s" using S n w3 unfolding pmd_ok_def by auto
    moreover have "binds (dev_allocated E) name e (world s) w3" using e A(1) P(1) by (simp add: binds_def same)
    moreover have "same_rings E (world s) w3" using A(2) P(2) D(1) by (simp add: same)
    ultimately have "device_made E name s e port a p rx tx ?s"
      using n l rxq txq unfolding device_made_def
      by (intro conjI exI [of _ ?D] exI [of _ ?I] exI [of _ dev]) (auto simp: pmd_link_def)
    moreover have "rte_eth_from_rings E name (Some rx) 16 (Some tx) 16 node dev s = Some (int port, ?s)"
      using 4 a p d rxq(1) txq(1) by (simp add: eqs)
    ultimately show ?thesis using e(1) by blast
  qed
qed

lemma pmd_ok_kept: "pmd_ok E s \<Longrightarrow> rings_kept E s t \<Longrightarrow> pmd_ok E t"
  by (simp add: pmd_ok_def rings_kept_def same_blocks_def)

lemma ring_create_cases:
  assumes E: "eal_laws E" and S: "pmd_ok E s" and c: "vp_action info = DEV_CREATE"
  shows "\<exists>r s' t. eth_dev_ring_create E new dev name info s = Some (r, s') \<and> rings_kept E s t \<and>
    (r = -1 \<and> nothing_made E t s' \<or>
     (\<exists>rx tx e port a p. e \<noteq> NULL \<and> r = (if port = 0 then 0 else -1) \<and> length rx = 16 \<and> length tx = 16 \<and>
        device_made E name t e port a p rx tx s' \<and> ring_names E name 0 rx tx s'))"
proof -
  obtain ok rx tx t where g: "get_rings E new DEV_CREATE name 0 16 s = (ok, rx, tx, t)" by (metis prod_cases4)
  note G = get_rings_create [OF E g]
  have num: "min RTE_PMD_PIPE_MAX_RX_RINGS RTE_PMD_PIPE_MAX_TX_RINGS = 16"
    by (simp add: RTE_PMD_PIPE_MAX_RX_RINGS_def RTE_PMD_PIPE_MAX_TX_RINGS_def)
  show ?thesis
  proof (cases ok)
    case False
    then have "eth_dev_ring_create E new dev name info s = Some (-1, t)"
      using g c unfolding eth_dev_ring_create_def num by simp
    moreover have "nothing_made E t t" by (simp add: nothing_made_def same_blocks_def same_devs_def same_rings_def)
    ultimately show ?thesis
      by (intro exI [of _ "-1"] exI [of _ t] conjI disjI1 refl) (use G in simp_all)
  next
    case True
    with G have l: "length rx = 16" "length tx = 16" "ring_names E name 0 rx tx t" "rings_kept E s t" by auto
    obtain r s' where r: "rte_eth_from_rings E name (Some rx) 16 (Some tx) 16 (vp_node info) dev t = Some (r, s')"
      and alt: "r = -1 \<and> nothing_made E t s' \<or> (\<exists>e port a p. e \<noteq> NULL \<and> r = int port \<and> device_made E name t e port a p rx tx s')"
      using from_rings_cases [OF E pmd_ok_kept [OF S l(4)] l(1,2), where name = name and node = "vp_node info" and dev = dev]
    by (elim exE conjE) (rule that, assumption+)
    have e: "eth_dev_ring_create E new dev name info s = Some (if r \<noteq> 0 then -1 else 0, s')"
      using g c r True unfolding eth_dev_ring_create_def num by simp
    from alt show ?thesis
    proof
      assume "r = -1 \<and> nothing_made E t s'"
      with e l(4) show ?thesis
        by (intro exI [of _ "-1"] exI [of _ s'] exI [of _ t] conjI disjI1 refl) simp_all
    next
      assume "\<exists>e port a p. e \<noteq> NULL \<and> r = int port \<and> device_made E name t e port a p rx tx s'"
      then obtain d port a p where d: "d \<noteq> NULL" "r = int port" "device_made E name t d port a p rx tx s'" by (elim exE conjE) (rule that, assumption+)
      then have "same_rings E (world t) (world s')" by (simp add: device_made_def)
      then have "ring_names E name 0 rx tx s'" using l(3) by (simp add: ring_names_def same_rings_def)
      then have "\<exists>rx tx e port' a p. e \<noteq> NULL \<and> (if port = 0 then 0 else -1) = (if port' = 0 then 0 else (-1::int)) \<and>
          length rx = 16 \<and> length tx = 16 \<and> device_made E name t e port' a p rx tx s' \<and> ring_names E name 0 rx tx s'"
        using d l(1,2) by (metis (no_types))
      moreover have "eth_dev_ring_create E new dev name info s = Some (if port = 0 then 0 else -1, s')"
        using e d(2) by simp
      ultimately show ?thesis
        using l(4) by (intro exI) (rule conjI, assumption, rule conjI, assumption, rule disjI2, assumption)
    qed
  qed
qed

lemma ring_attach_cases:
  assumes E: "eal_laws E" and S: "pmd_ok E s" and c: "vp_action info = DEV_ATTACH" "vp_name info = first"
    and n: "ring_names E first 0 rx tx s" "length rx = 16" "length tx = 16"
  shows "\<exists>r s'. eth_dev_ring_create E new dev name info s = Some (r, s') \<and>
    (r = -1 \<and> nothing_made E s s' \<or>
     (\<exists>e port a p. e \<noteq> NULL \<and> r = (if port = 0 then 0 else -1) \<and> device_made E name s e port a p tx rx s'))"
proof -
  have num: "min RTE_PMD_PIPE_MAX_RX_RINGS RTE_PMD_PIPE_MAX_TX_RINGS = 16"
    by (simp add: RTE_PMD_PIPE_MAX_RX_RINGS_def RTE_PMD_PIPE_MAX_TX_RINGS_def)
  have g: "get_rings E new DEV_ATTACH first 0 16 s = (True, tx, rx, s)"
    using get_rings_attach [OF n(1)] n by simp
  obtain r s' where r: "rte_eth_from_rings E name (Some tx) 16 (Some rx) 16 (vp_node info) dev s = Some (r, s')"
    and alt: "r = -1 \<and> nothing_made E s s' \<or> (\<exists>e port a p. e \<noteq> NULL \<and> r = int port \<and> device_made E name s e port a p tx rx s')"
    using from_rings_cases [OF E S n(3,2), where name = name and node = "vp_node info" and dev = dev]
    by (elim exE conjE) (rule that, assumption+)
  have e: "eth_dev_ring_create E new dev name info s = Some (if r \<noteq> 0 then -1 else 0, s')"
    using g c r unfolding eth_dev_ring_create_def num by simp
  from alt show ?thesis
  proof
    assume "r = -1 \<and> nothing_made E s s'"
    with e show ?thesis by (intro exI [of _ "-1"] exI [of _ s'] conjI disjI1 refl) simp_all
  next
    assume "\<exists>e port a p. e \<noteq> NULL \<and> r = int port \<and> device_made E name s e port a p tx rx s'"
    then obtain d port a p where "d \<noteq> NULL" "r = int port" "device_made E name s d port a p tx rx s'" by (elim exE conjE) (rule that, assumption+)
    with e show ?thesis
      by (intro exI [of _ "if port = 0 then 0 else -1"] exI [of _ s'] conjI disjI2 exI [of _ d] exI [of _ port]
          exI [of _ a] exI [of _ p]) simp_all
  qed
qed

lemma device_madeE:
  assumes "device_made E name s e port a p rx tx s'"
  obtains D I x where "ethdevs s' = (ethdevs s)(e \<mapsto> \<lparr>dev_data = a, dev_device = x, dev_ops_pipe = True\<rparr>)"
    "datas s' = (datas s)(a \<mapsto> D)" "privs s' = (privs s)(p \<mapsto> I)" "dev_private D = p" "port_id D = port"
    "map rq_rng (rx_ring_queues I) = rx" "map rq_rng (tx_ring_queues I) = tx"
    "a \<notin> dom (datas s)" "p \<notin> dom (privs s)" "pmd_ok E s'" "binds (dev_allocated E) name e (world s) (world s')"
  using assms unfolding device_made_def by blast

text \<open>The pair: a device created under a name and a second one attached to that name share their 16
  rings with the directions swapped: what one transmits on queue \<open>i\<close> is what the other receives on
  queue \<open>i\<close>, and back; the second creation leaves the first device intact.\<close>

theorem pipe_pair_crossed:
  assumes E: "eal_laws E" and S: "pmd_ok E s"
    and i: "vp_action i0 = DEV_CREATE" "vp_action i1 = DEV_ATTACH" "vp_name i1 = n0"
    and c0: "eth_dev_ring_create E new v0 n0 i0 s = Some (r0, s1)" "dev_allocated E n0 (world s) = NULL"
      "dev_allocated E n0 (world s1) \<noteq> NULL"
    and c1: "eth_dev_ring_create E new v1 n1 i1 s1 = Some (r1, s2)" "dev_allocated E n1 (world s1) = NULL"
      "dev_allocated E n1 (world s2) \<noteq> NULL"
  shows "\<exists>a0 D0 I0 a1 D1 I1. dev_data_of (dev_allocated E n0 (world s2)) s2 = Some (a0, D0) \<and> privs s2 (dev_private D0) = Some I0 \<and>
    dev_data_of (dev_allocated E n1 (world s2)) s2 = Some (a1, D1) \<and> privs s2 (dev_private D1) = Some I1 \<and>
    dev_private D0 \<noteq> dev_private D1 \<and> length (rx_ring_queues I0) = 16 \<and>
    map rq_rng (rx_ring_queues I1) = map rq_rng (tx_ring_queues I0) \<and>
    map rq_rng (tx_ring_queues I1) = map rq_rng (rx_ring_queues I0)"
proof -
  obtain r s1' t where k0: "eth_dev_ring_create E new v0 n0 i0 s = Some (r, s1')" "rings_kept E s t"
    and alt0: "r = -1 \<and> nothing_made E t s1' \<or> (\<exists>rx tx e port a p. e \<noteq> NULL \<and> r = (if port = 0 then 0 else -1) \<and>
        length rx = 16 \<and> length tx = 16 \<and> device_made E n0 t e port a p rx tx s1' \<and> ring_names E n0 0 rx tx s1')"
    using ring_create_cases [OF E S i(1), where new = new and dev = v0 and name = n0]
    by (elim exE conjE) (rule that, assumption+)
  have s1: "s1' = s1" using k0 c0 by simp
  have "dev_allocated E n0 (world t) = NULL"
    using k0(2) c0(2) by (simp add: rings_kept_def same_devs_def)
  then have "\<not> nothing_made E t s1'"
    using c0(3) s1 unfolding nothing_made_def same_devs_def by metis
  with alt0 s1 obtain rx tx e0 port a0 p0 where l: "length rx = 16" "length tx = 16" and e0: "e0 \<noteq> NULL"
    and m0: "device_made E n0 t e0 port a0 p0 rx tx s1" and rn: "ring_names E n0 0 rx tx s1"
    by (elim disjE exE conjE) (erule notE, assumption, rule that, simp_all)
  have S1: "pmd_ok E s1" using m0 by (simp add: device_made_def)
  obtain r' s2' where k1: "eth_dev_ring_create E new v1 n1 i1 s1 = Some (r', s2')"
    and alt1: "r' = -1 \<and> nothing_made E s1 s2' \<or> (\<exists>e port a p. e \<noteq> NULL \<and> r' = (if port = 0 then 0 else -1) \<and>
        device_made E n1 s1 e port a p tx rx s2')"
    using ring_attach_cases [OF E S1 i(2,3) rn l, where new = new and dev = v1 and name = n1]
    by (elim exE conjE) (rule that, assumption+)
  have s2: "s2' = s2" using k1 c1 by simp
  have "\<not> nothing_made E s1 s2'" using c1(2,3) s2 unfolding nothing_made_def same_devs_def by metis
  with alt1 s2 obtain e1 port1 a1 p1 where e1: "e1 \<noteq> NULL" and m1: "device_made E n1 s1 e1 port1 a1 p1 tx rx s2"
    by (elim disjE exE conjE) (erule notE, assumption, rule that, simp_all)
  obtain D0 I0 x0 where D0: "ethdevs s1 e0 = Some \<lparr>dev_data = a0, dev_device = x0, dev_ops_pipe = True\<rparr>" "datas s1 a0 = Some D0"
    "privs s1 p0 = Some I0" "dev_private D0 = p0" "map rq_rng (rx_ring_queues I0) = rx" "map rq_rng (tx_ring_queues I0) = tx"
    by (rule device_madeE [OF m0]) simp
  obtain D1 I1 x1 where D1: "ethdevs s2 = (ethdevs s1)(e1 \<mapsto> \<lparr>dev_data = a1, dev_device = x1, dev_ops_pipe = True\<rparr>)"
    "datas s2 = (datas s1)(a1 \<mapsto> D1)" "privs s2 = (privs s1)(p1 \<mapsto> I1)" "dev_private D1 = p1"
    "map rq_rng (rx_ring_queues I1) = tx" "map rq_rng (tx_ring_queues I1) = rx"
    by (rule device_madeE [OF m1]) simp
  have n: "a1 \<noteq> a0" "p1 \<noteq> p0" using m1 D0 unfolding device_made_def by auto
  have b0: "dev_allocated E n0 (world s1) = e0" using m0 by (simp add: device_made_def binds_def)
  have b1: "dev_allocated E n1 (world s2) = e1" "e1 \<noteq> e0" "dev_allocated E n0 (world s2) = e0"
    using m1 b0 c1(2) e0 by (auto simp: device_made_def binds_def)
  have "length (rx_ring_queues I0) = 16" using D0(5) l by auto
  then show ?thesis
    using D0 D1 n b1
    by (intro exI [of _ a0] exI [of _ D0] exI [of _ I0] exI [of _ a1] exI [of _ D1] exI [of _ I1]) (simp add: dev_data_of_def)
qed

text \<open>The result of \<open>eth_dev_ring_create\<close>: it tests the port number \<open>rte_eth_from_rings\<close> returns as
  if it were an error code, so it reports \<open>-1\<close> for every device it makes on a port other than 0,
  with the device there and in use; a real failure leaves no device and no block behind.\<close>

theorem pipe_create_result:
  assumes "eal_laws E" "pmd_ok E s" "vp_action info = DEV_CREATE"
  shows "\<exists>r s'. eth_dev_ring_create E new dev name info s = Some (r, s') \<and> pmd_ok E s' \<and>
    (if ethdevs s' = ethdevs s \<and> dev_allocated E name (world s') = dev_allocated E name (world s)
     then r = -1 \<and> datas s' = datas s \<and> privs s' = privs s \<and> same_blocks E (world s) (world s')
     else \<exists>a D. dev_data_of (dev_allocated E name (world s')) s' = Some (a, D) \<and> r = (if port_id D = 0 then 0 else -1))"
proof -
  obtain r s' t where c: "eth_dev_ring_create E new dev name info s = Some (r, s')" "rings_kept E s t"
    and alt: "r = -1 \<and> nothing_made E t s' \<or>
     (\<exists>rx tx e port a p. e \<noteq> NULL \<and> r = (if port = 0 then 0 else -1) \<and> length rx = 16 \<and> length tx = 16 \<and>
        device_made E name t e port a p rx tx s' \<and> ring_names E name 0 rx tx s')"
    using ring_create_cases [OF assms, where new = new and dev = dev and name = name]
    by (elim exE conjE) (rule that, assumption+)
  from alt show ?thesis
  proof
    assume n: "r = -1 \<and> nothing_made E t s'"
    then have "pmd_ok E s'" using pmd_ok_kept [OF assms(2) c(2)] by (simp add: pmd_ok_def nothing_made_def same_blocks_def)
    with n c show ?thesis
      by (intro exI [of _ r] exI [of _ s']) (simp add: nothing_made_def rings_kept_def same_blocks_def same_devs_def)
  next
    assume "\<exists>rx tx e port a p. e \<noteq> NULL \<and> r = (if port = 0 then 0 else -1) \<and> length rx = 16 \<and> length tx = 16 \<and>
        device_made E name t e port a p rx tx s' \<and> ring_names E name 0 rx tx s'"
    then obtain e port a p rx tx where d: "e \<noteq> NULL" "r = (if port = 0 then 0 else -1)"
      "device_made E name t e port a p rx tx s'" by (elim exE conjE) (rule that, assumption+)
    from d(3) obtain D x where D: "ethdevs s' e = Some \<lparr>dev_data = a, dev_device = x, dev_ops_pipe = True\<rparr>" "datas s' a = Some D"
      "port_id D = port" "pmd_ok E s'" "binds (dev_allocated E) name e (world t) (world s')"
      by (elim device_madeE) simp
    have "dev_allocated E name (world s') = e" "dev_allocated E name (world s) = NULL"
      using D(5) c(2) by (simp_all add: binds_def rings_kept_def same_devs_def)
    with c D d show ?thesis by (intro exI [of _ r] exI [of _ s']) (simp add: dev_data_of_def)
  qed
qed

text \<open>Removing a device does not undo its creation: the private block stays allocated and the ring
  names stay taken, so probing the same name again makes no device, and still returns 0.\<close>

theorem pipe_reprobe_fails:
  assumes E: "eal_laws E" and d: "dev_allocated E name (world s) = e" "e \<noteq> NULL" "dev_data_of e s = Some (a, D)"
    and r: "ring_lookup E (rx_rng_name E 0 name) (world s) \<noteq> NULL" and k: "kvargs params [''attach''] = None"
  shows "\<exists>s1 s2. rte_pmd_pipe_remove E (Some name) s = Some (0, s1) \<and> privs s1 = privs s \<and> datas s1 a = None \<and>
    dev_allocated E name (world s1) = NULL \<and> ring_lookup E (rx_rng_name E 0 name) (world s1) \<noteq> NULL \<and>
    rte_pmd_pipe_probe E new kvargs junk dev name params s1 = Some (0, s2) \<and> ethdevs s2 = ethdevs s1 \<and> datas s2 = datas s1 \<and>
    dev_allocated E name (world s2) = NULL"
proof -
  obtain x where x: "ethdevs s e = Some x" "dev_data x = a" using d(3) by (auto simp: dev_data_of_def split: bind_splits)
  let ?w = "dev_release E e (mfree E a (world s))"
  let ?s1 = "s\<lparr>world := ?w, datas := (datas s)(a := None)\<rparr>"
  have s1: "rte_pmd_pipe_remove E (Some name) s = Some (0, ?s1)"
    using d x by (simp add: rte_pmd_pipe_remove_def eth_dev_stop_def set_link_def Let_def)
  have w: "ring_lookup E n ?w = ring_lookup E n (world s)" "dev_allocated E name ?w = NULL" for n
    using eal_free [OF E, where w = "world s" and a = a] eal_release [OF E, where w = "mfree E a (world s)" and d = e] d(1)
    by (simp_all add: same_rings_def same_devs_def)
  obtain w2 where c: "ring_create E (rx_rng_name E 0 name) ?w = (NULL, w2)"
    using eal_create(4) [OF E, of "rx_rng_name E 0 name" ?w] w(1) r unfolding binds_def by (metis surj_pair)
  have "\<exists>k. min RTE_PMD_PIPE_MAX_RX_RINGS RTE_PMD_PIPE_MAX_TX_RINGS = Suc k"
    by (simp add: RTE_PMD_PIPE_MAX_RX_RINGS_def RTE_PMD_PIPE_MAX_TX_RINGS_def)
  then have "rte_pmd_pipe_probe E new kvargs junk dev name params ?s1 = Some (0, ?s1\<lparr>world := w2\<rparr>)"
    using k c by (auto simp: rte_pmd_pipe_probe_def eth_dev_ring_create_def get_ring_def Let_def)
  moreover have "dev_allocated E name w2 = NULL" using eal_create(1) [OF E c] w(2) by (simp add: same_devs_def)
  ultimately show ?thesis using s1 w r by (intro exI [of _ ?s1] exI [of _ "?s1\<lparr>world := w2\<rparr>"]) simp
qed

end
