(* ===== verification/Pmd_Checks.thy ===== *)
theory Pmd_Checks
  imports Pmd_Pipe
begin

section \<open>Concrete runs of the pipe driver\<close>

text \<open>
  Witnesses of the properties of \<open>Pmd_Pipe\<close>: two devices created over the environment of
  \<open>Dpdk_Api\<close> that never runs out, and traffic between two one-queue devices.
\<close>


definition demo_pmd :: "(demo_world, mbuf list) pmd" where
  "demo_pmd = \<lparr>world = (100, [], [], []), datas = Map.empty, privs = Map.empty, ethdevs = Map.empty,
     ringmem = Map.empty, pmd_errno = 0\<rparr>"

definition create_info :: vport_info where
  "create_info = \<lparr>vp_name = '''', vp_node = 0, vp_action = DEV_CREATE\<rparr>"

definition attach_info :: vport_info where
  "attach_info = \<lparr>vp_name = ''a'', vp_node = 0, vp_action = DEV_ATTACH\<rparr>"

lemma demo_pmd_ok: "pmd_ok demo_eal demo_pmd"
  by (simp add: pmd_ok_def demo_pmd_def demo_eal_def)

lemma demo_pair_runs:
  "case eth_dev_ring_create demo_eal [] 1 ''a'' create_info demo_pmd of None \<Rightarrow> False
   | Some (r0, s1) \<Rightarrow> (case eth_dev_ring_create demo_eal [] 2 ''b'' attach_info s1 of None \<Rightarrow> False
     | Some (r1, s2) \<Rightarrow> r0 = 0 \<and> r1 = -1 \<and>
        dev_allocated demo_eal ''a'' (world s1) \<noteq> NULL \<and> dev_allocated demo_eal ''b'' (world s1) = NULL \<and>
        dev_allocated demo_eal ''b'' (world s2) \<noteq> NULL \<and> map_option fst (dev_data_of (dev_allocated demo_eal ''a'' (world s1)) s1) \<noteq> None)"
  by code_simp

lemma demo_pair:
  obtains s1 s2 where "eth_dev_ring_create demo_eal [] 1 ''a'' create_info demo_pmd = Some (0, s1)"
    "eth_dev_ring_create demo_eal [] 2 ''b'' attach_info s1 = Some (-1, s2)"
    "dev_allocated demo_eal ''a'' (world s1) \<noteq> NULL" "dev_allocated demo_eal ''b'' (world s1) = NULL"
    "dev_allocated demo_eal ''b'' (world s2) \<noteq> NULL" "dev_data_of (dev_allocated demo_eal ''a'' (world s1)) s1 \<noteq> None"
proof -
  note H = demo_pair_runs
  obtain r0 s1 where a: "eth_dev_ring_create demo_eal [] 1 ''a'' create_info demo_pmd = Some (r0, s1)"
    using H by (cases "eth_dev_ring_create demo_eal [] 1 ''a'' create_info demo_pmd") (simp_all only: option.case, metis surj_pair)
  note H = H [unfolded a option.case prod.case]
  obtain r1 s2 where b: "eth_dev_ring_create demo_eal [] 2 ''b'' attach_info s1 = Some (r1, s2)"
    using H by (cases "eth_dev_ring_create demo_eal [] 2 ''b'' attach_info s1") (simp_all only: option.case, metis surj_pair)
  note H = H [unfolded b option.case prod.case]
  from a b H that show ?thesis by (simp only: option.map_disc_iff simp_thms)
qed

theorem pipe_pair_crossed_witness:
  "\<exists>s1 s2 a0 D0 I0 a1 D1 I1. eth_dev_ring_create demo_eal [] 1 ''a'' create_info demo_pmd = Some (0, s1) \<and>
    eth_dev_ring_create demo_eal [] 2 ''b'' attach_info s1 = Some (-1, s2) \<and>
    dev_data_of (dev_allocated demo_eal ''a'' (world s2)) s2 = Some (a0, D0) \<and> privs s2 (dev_private D0) = Some I0 \<and>
    dev_data_of (dev_allocated demo_eal ''b'' (world s2)) s2 = Some (a1, D1) \<and> privs s2 (dev_private D1) = Some I1 \<and>
    dev_private D0 \<noteq> dev_private D1 \<and> length (rx_ring_queues I0) = 16 \<and>
    map rq_rng (rx_ring_queues I1) = map rq_rng (tx_ring_queues I0) \<and>
    map rq_rng (tx_ring_queues I1) = map rq_rng (rx_ring_queues I0)"
proof -
  obtain s1 s2 where p: "eth_dev_ring_create demo_eal [] 1 ''a'' create_info demo_pmd = Some (0, s1)"
    "eth_dev_ring_create demo_eal [] 2 ''b'' attach_info s1 = Some (-1, s2)"
    "dev_allocated demo_eal ''a'' (world s1) \<noteq> NULL" "dev_allocated demo_eal ''b'' (world s1) = NULL"
    "dev_allocated demo_eal ''b'' (world s2) \<noteq> NULL" by (rule demo_pair)
  have i: "vp_action create_info = DEV_CREATE" "vp_action attach_info = DEV_ATTACH" "vp_name attach_info = ''a''"
    by (simp_all add: create_info_def attach_info_def)
  have z: "dev_allocated demo_eal ''a'' (world demo_pmd) = NULL" by (simp add: demo_eal_def demo_pmd_def assoc_def)
  from pipe_pair_crossed [OF demo_eal_laws demo_pmd_ok i p(1) z p(3) p(2) p(4) p(5)] p(1,2) show ?thesis by blast
qed

theorem pipe_create_result_witness:
  "\<exists>r s'. eth_dev_ring_create demo_eal [] 1 ''a'' create_info demo_pmd = Some (r, s') \<and> pmd_ok demo_eal s' \<and>
    (if ethdevs s' = ethdevs demo_pmd \<and> dev_allocated demo_eal ''a'' (world s') = dev_allocated demo_eal ''a'' (world demo_pmd)
     then r = -1 \<and> datas s' = datas demo_pmd \<and> privs s' = privs demo_pmd \<and> same_blocks demo_eal (world demo_pmd) (world s')
     else \<exists>a D. dev_data_of (dev_allocated demo_eal ''a'' (world s')) s' = Some (a, D) \<and> r = (if port_id D = 0 then 0 else -1))"
  by (rule pipe_create_result [OF demo_eal_laws demo_pmd_ok]) (simp add: create_info_def)

theorem pipe_reprobe_fails_witness:
  "\<exists>(s :: (demo_world, mbuf list) pmd) a s1 s2. dev_allocated demo_eal ''a'' (world s) \<noteq> NULL \<and>
    rte_pmd_pipe_remove demo_eal (Some ''a'') s = Some (0, s1) \<and> privs s1 = privs s \<and> datas s1 a = None \<and>
    dev_allocated demo_eal ''a'' (world s1) = NULL \<and> ring_lookup demo_eal (rx_rng_name demo_eal 0 ''a'') (world s1) \<noteq> NULL \<and>
    rte_pmd_pipe_probe demo_eal [] (\<lambda>_ _. None) create_info 1 ''a'' ''x'' s1 = Some (0, s2) \<and> ethdevs s2 = ethdevs s1 \<and>
    datas s2 = datas s1 \<and> dev_allocated demo_eal ''a'' (world s2) = NULL"
proof -
  obtain s where s: "eth_dev_ring_create demo_eal [] 1 ''a'' create_info demo_pmd = Some (0, s)"
    "dev_allocated demo_eal ''a'' (world s) \<noteq> NULL" "dev_data_of (dev_allocated demo_eal ''a'' (world s)) s \<noteq> None"
    by (rule demo_pair)
  obtain a D where D: "dev_data_of (dev_allocated demo_eal ''a'' (world s)) s = Some (a, D)" using s(3) by auto
  have c: "vp_action create_info = DEV_CREATE" by (simp add: create_info_def)
  have nm: "ring_lookup demo_eal (rx_rng_name demo_eal 0 ''a'') (world s) \<noteq> NULL"
  proof -
    obtain r s' t where k: "eth_dev_ring_create demo_eal [] 1 ''a'' create_info demo_pmd = Some (r, s')" "rings_kept demo_eal demo_pmd t"
      and alt: "r = -1 \<and> nothing_made demo_eal t s' \<or>
       (\<exists>rx tx e port a p. e \<noteq> NULL \<and> r = (if port = 0 then 0 else -1) \<and> length rx = 16 \<and> length tx = 16 \<and>
        device_made demo_eal ''a'' t e port a p rx tx s' \<and> ring_names demo_eal ''a'' 0 rx tx s')"
      using ring_create_cases [OF demo_eal_laws demo_pmd_ok c, where new = "[]" and dev = 1 and name = "''a''"]
      by (elim exE conjE) (rule that, assumption+)
    have "r = 0" "s' = s" using k(1) s(1) by simp_all
    with alt obtain rx tx where "length rx = 16" "ring_names demo_eal ''a'' 0 rx tx s"
      by (elim disjE exE conjE) (simp, rule that, simp_all)
    then have "ring_lookup demo_eal (rx_rng_name demo_eal (0 + 0) ''a'') (world s) \<noteq> NULL"
      unfolding ring_names_def by (metis zero_less_numeral)
    then show ?thesis by simp
  qed
  note P = pipe_reprobe_fails [OF demo_eal_laws refl s(2) D nm, where kvargs = "\<lambda>_ _. None" and params = "''x''" and
      new = "[]" and junk = create_info and dev = 1, OF refl]
  then obtain s1 s2 where Q: "rte_pmd_pipe_remove demo_eal (Some ''a'') s = Some (0, s1) \<and> privs s1 = privs s \<and> datas s1 a = None \<and>
    dev_allocated demo_eal ''a'' (world s1) = NULL \<and> ring_lookup demo_eal (rx_rng_name demo_eal 0 ''a'') (world s1) \<noteq> NULL \<and>
    rte_pmd_pipe_probe demo_eal [] (\<lambda>_ _. None) create_info 1 ''a'' ''x'' s1 = Some (0, s2) \<and> ethdevs s2 = ethdevs s1 \<and>
    datas s2 = datas s1 \<and> dev_allocated demo_eal ''a'' (world s2) = NULL"
    by (elim exE) (rule that)
  show ?thesis
    by (rule exI [of _ s], rule exI [of _ a], rule exI [of _ s1], rule exI [of _ s2]) (rule conjI [OF s(2) Q])
qed

text \<open>Two devices with one queue each, over one ring.\<close>

definition one_q :: "addr \<Rightarrow> ring_queue" where
  "one_q r = zero_queue\<lparr>rq_rng := r, if_index := 5\<rparr>"

definition traffic_pmd :: "(demo_world, mbuf list) pmd" where
  "traffic_pmd = demo_pmd\<lparr>
     privs := [1 \<mapsto> \<lparr>nb_rx_queues = 1, nb_tx_queues = 1, rx_ring_queues = [one_q 8], tx_ring_queues = [one_q 9]\<rparr>,
               2 \<mapsto> \<lparr>nb_rx_queues = 1, nb_tx_queues = 1, rx_ring_queues = [one_q 9], tx_ring_queues = [one_q 8]\<rparr>],
     datas := [3 \<mapsto> \<lparr>dev_private = 1, port_id = 4, data_nb_rx = 1, data_nb_tx = 1, dev_link = pmd_link,
                data_rx_queues = Map.empty, data_tx_queues = Map.empty, data_numa_node = 0\<rparr>],
     ethdevs := [7 \<mapsto> \<lparr>dev_data = 3, dev_device = 1, dev_ops_pipe = True\<rparr>], ringmem := [8 \<mapsto> [], 9 \<mapsto> []]\<rparr>"

definition two_pkts :: "mbuf list" where
  "two_pkts = [\<lparr>mb_id = 1, mb_len = 60, mb_port = 0\<rparr>, \<lparr>mb_id = 2, mb_len = 1500, mb_port = 0\<rparr>]"


theorem pipe_end_to_end_witness:
  "\<exists>n s1 s2. eth_ring_tx (list_ring 1) (1, 0) two_pkts traffic_pmd = Some (n, s1) \<and>
    eth_ring_rx (list_ring 1) (2, 0) 32 s1 =
      Some (map (\<lambda>m. m\<lparr>mb_port := if_index ([one_q 9] ! 0)\<rparr>) (take (unat n) two_pkts), s2)"
  using pipe_end_to_end [OF list_ring_laws, where s = traffic_pmd and ?p0.0 = 1 and ?p1.0 = 2 and i = 0 and j = 0 and
      bufs = two_pkts and nb = 32 and ring = "[]"
      and ?I0.0 = "\<lparr>nb_rx_queues = 1, nb_tx_queues = 1, rx_ring_queues = [one_q 8], tx_ring_queues = [one_q 9]\<rparr>"
      and ?I1.0 = "\<lparr>nb_rx_queues = 1, nb_tx_queues = 1, rx_ring_queues = [one_q 9], tx_ring_queues = [one_q 8]\<rparr>" and cap1 = 1]
  by (simp add: traffic_pmd_def two_pkts_def one_q_def list_ring_def)

theorem pipe_stats_follow_witness:
  "\<exists>n s' st st'. eth_ring_tx (list_ring 1) (1, 0) two_pkts traffic_pmd = Some (n, s') \<and>
    eth_stats_get 7 traffic_pmd = Some st \<and> eth_stats_get 7 s' = Some st' \<and>
    opackets st' + oerrors st' = opackets st + oerrors st + of_nat (length two_pkts) \<and>
    opackets st' = opackets st + of_nat (unat n) \<and> ipackets st' = ipackets st \<and> ibytes st' = ibytes st"
  using pipe_stats_follow [OF list_ring_laws, where dev = 7 and s = traffic_pmd and i = 0 and bufs = two_pkts and ring = "[]" and a = 3
      and D = "\<lparr>dev_private = 1, port_id = 4, data_nb_rx = 1, data_nb_tx = 1, dev_link = pmd_link,
                data_rx_queues = Map.empty, data_tx_queues = Map.empty, data_numa_node = 0\<rparr>"
      and I = "\<lparr>nb_rx_queues = 1, nb_tx_queues = 1, rx_ring_queues = [one_q 8], tx_ring_queues = [one_q 9]\<rparr>" and cap1 = 1]
  by (simp add: traffic_pmd_def two_pkts_def one_q_def dev_data_of_def RTE_ETHDEV_QUEUE_STAT_CNTRS_def)
end
