(* ===== verification/Crow_Trie.thy ===== *)
theory Crow_Trie
  imports Susanow_Prelude "HOL-Library.AList"
begin

section \<open>The table of URLs of the web server (lib/crow/include/crow/routing.h)\<close>

text \<open>
  Crow keeps the rules of an application in a trie: a vector of nodes with links by index, one child for
  each kind of parameter and a map from pieces of text to children. Here are \<open>add\<close>, \<open>optimize\<close> and
  \<open>find\<close>. The order in which an \<open>unordered_map\<close> is walked is the order of the association list.
  \<open>strtod\<close> is a parameter: where it stops, and the value, or nothing where it fails or the value is out of
  range.
\<close>

datatype ParamType = P_INT | P_UINT | P_DOUBLE | P_STRING | P_PATH

definition param_types :: "ParamType list" where
  "param_types = [P_INT, P_UINT, P_DOUBLE, P_STRING, P_PATH]"

record 'd routing_params =
  int_params :: "int list"
  uint_params :: "nat list"
  double_params :: "'d list"
  string_params :: "string list"

definition no_params :: "'d routing_params" where
  "no_params = \<lparr>int_params = [], uint_params = [], double_params = [], string_params = []\<rparr>"

text \<open>What a parameter of a URL gives the handler.\<close>

datatype 'd arg = A_int int | A_uint nat | A_double 'd | A_string string

fun push_param :: "'d arg \<Rightarrow> 'd routing_params \<Rightarrow> 'd routing_params" where
  "push_param (A_int v) p = p\<lparr>int_params := int_params p @ [v]\<rparr>"
| "push_param (A_uint v) p = p\<lparr>uint_params := uint_params p @ [v]\<rparr>"
| "push_param (A_double v) p = p\<lparr>double_params := double_params p @ [v]\<rparr>"
| "push_param (A_string v) p = p\<lparr>string_params := string_params p @ [v]\<rparr>"

record trie_node =
  rule_index :: nat
  param_childrens :: "ParamType \<Rightarrow> nat"
  children :: "(string \<times> nat) list"

type_synonym trie = "trie_node list"

definition new_node :: trie_node where
  "new_node = \<lparr>rule_index = 0, param_childrens = (\<lambda>_. 0), children = []\<rparr>"

definition is_simple_node :: "trie_node \<Rightarrow> bool" where
  "is_simple_node N \<longleftrightarrow> rule_index N = 0 \<and> list_all (\<lambda>t. param_childrens N t = 0) param_types"

definition new_trie :: trie where
  "new_trie = [new_node]"

subsection \<open>Adding a rule\<close>

definition param_traits :: "(ParamType \<times> string) list" where
  "param_traits = [(P_INT, ''<int>''), (P_UINT, ''<uint>''), (P_DOUBLE, ''<float>''), (P_DOUBLE, ''<double>''),
     (P_STRING, ''<str>''), (P_STRING, ''<string>''), (P_PATH, ''<path>'')]"

definition begins :: "string \<Rightarrow> string \<Rightarrow> bool" where
  "begins p s \<longleftrightarrow> take (length p) s = p"

definition tag_at :: "string \<Rightarrow> (ParamType \<times> string) option" where
  "tag_at s = find (\<lambda>x. begins (snd x) s) param_traits"

definition param_child :: "ParamType \<Rightarrow> nat \<Rightarrow> trie \<Rightarrow> nat \<times> trie" where
  "param_child t idx T =
     (if param_childrens (T ! idx) t = 0
      then (length T, T[idx := (T ! idx)\<lparr>param_childrens := (param_childrens (T ! idx))(t := length T)\<rparr>] @ [new_node])
      else (param_childrens (T ! idx) t, T))"

definition piece_child :: "string \<Rightarrow> nat \<Rightarrow> trie \<Rightarrow> nat \<times> trie" where
  "piece_child p idx T =
     (case map_of (children (T ! idx)) p of
        None \<Rightarrow> (length T, T[idx := (T ! idx)\<lparr>children := children (T ! idx) @ [(p, length T)]\<rparr>] @ [new_node])
      | Some j \<Rightarrow> (j, T))"

text \<open>The loop of \<open>add\<close>. Where no tag follows \<open><\<close>, the index stays where it is.\<close>

partial_function (option) add_loop :: "string \<Rightarrow> nat \<Rightarrow> trie \<Rightarrow> (nat \<times> trie) option" where
  "add_loop s idx T =
     (case s of
        [] \<Rightarrow> Some (idx, T)
      | c # cs \<Rightarrow>
          if c = CHR ''<'' then
            (case tag_at s of
               None \<Rightarrow> add_loop s idx T
             | Some (t, n) \<Rightarrow> (case param_child t idx T of (j, T) \<Rightarrow> add_loop (drop (length n) s) j T))
          else (case piece_child [c] idx T of (j, T) \<Rightarrow> add_loop cs j T))"

datatype crow_error = Handler_exists string | Header_not_simple | Trie_corrupted | No_handler string | Bad_function_call

definition trie_add :: "string \<Rightarrow> nat \<Rightarrow> trie \<Rightarrow> (crow_error, trie) outcome option" where
  "trie_add url r T = do {
     (idx, T) \<leftarrow> add_loop url 0 T;
     if rule_index (T ! idx) \<noteq> 0 then Some (Throw (Handler_exists url))
     else Some (Return (T[idx := (T ! idx)\<lparr>rule_index := r\<rparr>])) }"

subsection \<open>Merging nodes\<close>

definition merged_children :: "trie \<Rightarrow> (string \<times> nat) list \<Rightarrow> (string \<times> nat) list" where
  "merged_children T kvs =
     fold (\<lambda>(k, j). fold (\<lambda>(k', j'). AList.update (k @ k') j') (children (T ! j))) kvs []"

fun opt_each :: "(nat \<Rightarrow> trie \<Rightarrow> trie option) \<Rightarrow> nat list \<Rightarrow> trie \<Rightarrow> trie option" where
  "opt_each g [] T = Some T"
| "opt_each g (j # js) T = do { T \<leftarrow> g j T; opt_each g js T }"

text \<open>The recursion of \<open>optimizeNode\<close> needs fuel, of which \<open>trie_fuel\<close> is enough.\<close>

fun optimize_node :: "nat \<Rightarrow> nat \<Rightarrow> trie \<Rightarrow> trie option" where
  "optimize_node 0 idx T = None"
| "optimize_node (Suc f) idx T = do {
     T \<leftarrow> opt_each (optimize_node f) (filter (\<lambda>x. x \<noteq> 0) (map (param_childrens (T ! idx)) param_types)) T;
     let kvs = children (T ! idx);
     if kvs = [] then Some T
     else if list_all (\<lambda>kv. is_simple_node (T ! snd kv)) kvs
     then optimize_node f idx (T[idx := (T ! idx)\<lparr>children := merged_children T kvs\<rparr>])
     else opt_each (optimize_node f) (map snd kvs) T }"

definition trie_fuel :: "trie \<Rightarrow> nat" where
  "trie_fuel T = Suc (length T) * Suc (length T)"

definition trie_validate :: "trie \<Rightarrow> (crow_error, trie) outcome option" where
  "trie_validate T =
     (if \<not> is_simple_node (hd T) then Some (Throw Header_not_simple)
      else map_option Return (optimize_node (trie_fuel T) 0 T))"

subsection \<open>Finding a rule\<close>

definition isdigit :: "char \<Rightarrow> bool" where
  "isdigit c \<longleftrightarrow> (let n = of_char c :: nat in 48 \<le> n \<and> n \<le> 57)"

definition digits_value :: "string \<Rightarrow> nat" where
  "digits_value = foldl (\<lambda>v c. 10 * v + (of_char c - 48)) 0"

text \<open>\<open>strtoll\<close> and \<open>strtoull\<close> in base 10, on text that begins with a sign or a digit; \<open>None\<close> when there is no
  digit.\<close>

definition strtol10 :: "string \<Rightarrow> (int \<times> string) option" where
  "strtol10 s =
     (let neg = (case s of c # _ \<Rightarrow> c = CHR ''-'' | [] \<Rightarrow> False);
          r = (case s of c # cs \<Rightarrow> if c = CHR ''-'' \<or> c = CHR ''+'' then cs else s | [] \<Rightarrow> []);
          ds = takeWhile isdigit r
      in if ds = [] then None
         else Some ((if neg then - int (digits_value ds) else int (digits_value ds)), dropWhile isdigit r))"

type_synonym 'd strtod = "string \<Rightarrow> ('d \<times> nat) option"

text \<open>What a parameter takes from the front of a URL, and the rest.\<close>

definition eat :: "'d strtod \<Rightarrow> ParamType \<Rightarrow> string \<Rightarrow> ('d arg \<times> string) option" where
  "eat sd t s = (case s of [] \<Rightarrow> None | c # cs \<Rightarrow>
     (case t of
        P_INT \<Rightarrow>
          if isdigit c \<or> c = CHR ''+'' \<or> c = CHR ''-'' then
            (case strtol10 s of None \<Rightarrow> None
             | Some (v, r) \<Rightarrow> if - (2 ^ 63) \<le> v \<and> v < 2 ^ 63 then Some (A_int v, r) else None)
          else None
      | P_UINT \<Rightarrow>
          if isdigit c \<or> c = CHR ''+'' then
            (case strtol10 s of None \<Rightarrow> None
             | Some (v, r) \<Rightarrow> if v < 2 ^ 64 then Some (A_uint (nat v), r) else None)
          else None
      | P_DOUBLE \<Rightarrow>
          if isdigit c \<or> c = CHR ''+'' \<or> c = CHR ''-'' \<or> c = CHR ''.'' then
            (case sd s of None \<Rightarrow> None | Some (v, n) \<Rightarrow> Some (A_double v, drop n s))
          else None
      | P_STRING \<Rightarrow>
          if takeWhile (\<lambda>x. x \<noteq> CHR ''/'') s \<noteq> []
          then Some (A_string (takeWhile (\<lambda>x. x \<noteq> CHR ''/'') s), dropWhile (\<lambda>x. x \<noteq> CHR ''/'') s)
          else None
      | P_PATH \<Rightarrow> Some (A_string s, [])))"

text \<open>The nodes to go on with, in the order of the code: parameters by kind, then the pieces.\<close>

definition param_branches :: "'d strtod \<Rightarrow> trie_node \<Rightarrow> string \<Rightarrow> 'd routing_params \<Rightarrow> (nat \<times> string \<times> 'd routing_params) list" where
  "param_branches sd N s ps = List.map_filter (\<lambda>t.
     if param_childrens N t = 0 then None
     else map_option (\<lambda>(a, r). (param_childrens N t, r, push_param a ps)) (eat sd t s)) param_types"

definition piece_branches :: "trie_node \<Rightarrow> string \<Rightarrow> 'd routing_params \<Rightarrow> (nat \<times> string \<times> 'd routing_params) list" where
  "piece_branches N s ps = List.map_filter (\<lambda>(k, j). if begins k s then Some (j, drop (length k) s, ps) else None) (children N)"

definition update_found :: "nat \<times> 'd routing_params \<Rightarrow> nat \<times> 'd routing_params \<Rightarrow> nat \<times> 'd routing_params" where
  "update_found best ret = (if fst ret \<noteq> 0 \<and> (fst best = 0 \<or> fst ret < fst best) then ret else best)"

fun find_best :: "('b \<Rightarrow> (nat \<times> 'd routing_params) option) \<Rightarrow> 'b list \<Rightarrow> nat \<times> 'd routing_params \<Rightarrow> (nat \<times> 'd routing_params) option" where
  "find_best g [] best = Some best"
| "find_best g (b # bs) best = do { ret \<leftarrow> g b; find_best g bs (update_found best ret) }"

text \<open>Every call but the first gets a shorter URL, so the length is enough fuel.\<close>

fun find_from :: "'d strtod \<Rightarrow> trie \<Rightarrow> nat \<Rightarrow> string \<Rightarrow> nat \<Rightarrow> 'd routing_params \<Rightarrow> (nat \<times> 'd routing_params) option" where
  "find_from sd T 0 s idx ps = None"
| "find_from sd T (Suc f) s idx ps =
     (if s = [] then Some (rule_index (T ! idx), ps)
      else find_best (\<lambda>(j, r, qs). find_from sd T f r j qs)
        (param_branches sd (T ! idx) s ps @ piece_branches (T ! idx) s ps) (0, no_params))"

definition trie_find :: "'d strtod \<Rightarrow> trie \<Rightarrow> string \<Rightarrow> (nat \<times> 'd routing_params) option" where
  "trie_find sd T url = find_from sd T (Suc (length url)) url 0 no_params"

end
