(* ===== verification/Crow_Match.thy ===== *)
theory Crow_Match
  imports Crow_Trie
begin

section \<open>What the trie means\<close>

text \<open>
  A rule is a list of characters and parameters; \<open>pat_matches\<close> says what it takes from a URL, with no trie.
  \<open>spells\<close> relates the nodes of a trie to the rules they stand for. \<open>find\<close> gives the least rule that matches,
  \<open>optimize\<close> changes no rule, \<open>add\<close> adds one.
\<close>

datatype pat = Lit char | Par ParamType

lemma tag_atD: "tag_at s = Some (t, n) \<Longrightarrow> (t, n) \<in> set param_traits \<and> begins n s"
  unfolding tag_at_def find_Some_iff by (metis nth_mem snd_conv)

lemma tag_at_length: "tag_at s = Some (t, n) \<Longrightarrow> 0 < length n"
  by (auto dest!: tag_atD simp: param_traits_def)

function (sequential) rule_pat :: "string \<Rightarrow> pat list option" where
  "rule_pat [] = Some []"
| "rule_pat (c # cs) =
     (if c = CHR ''<'' then
        (case tag_at (c # cs) of None \<Rightarrow> None | Some (t, n) \<Rightarrow> map_option ((#) (Par t)) (rule_pat (drop (length n) (c # cs))))
      else map_option ((#) (Lit c)) (rule_pat cs))"
  by pat_completeness auto
termination
  by (relation "measure length") (auto dest: tag_at_length)

fun pat_matches :: "'d strtod \<Rightarrow> pat list \<Rightarrow> string \<Rightarrow> 'd routing_params \<Rightarrow> 'd routing_params option" where
  "pat_matches sd [] s ps = (if s = [] then Some ps else None)"
| "pat_matches sd (Lit c # p) s ps = (case s of d # r \<Rightarrow> if d = c then pat_matches sd p r ps else None | [] \<Rightarrow> None)"
| "pat_matches sd (Par t # p) s ps = (case eat sd t s of None \<Rightarrow> None | Some (a, r) \<Rightarrow> pat_matches sd p r (push_param a ps))"

text \<open>\<open>strtod\<close> stops behind where it began and not behind the end.\<close>

definition strtod_ok :: "'d strtod \<Rightarrow> bool" where
  "strtod_ok sd \<longleftrightarrow> (\<forall>s v n. sd s = Some (v, n) \<longrightarrow> 0 < n \<and> n \<le> length s)"

lemma eat_shorter: "strtod_ok sd \<Longrightarrow> eat sd t s = Some (a, r) \<Longrightarrow> length r < length s"
proof -
  assume sd: "strtod_ok sd" and e: "eat sd t s = Some (a, r)"
  obtain c cs where s: "s = c # cs" using e by (cases s) (auto simp: eat_def)
  have l: "length (dropWhile isdigit x) < length x" if "takeWhile isdigit x \<noteq> []" for x
    using that by (cases x) (auto simp: length_dropWhile_le le_imp_less_Suc split: if_splits)
  have n: "length q < length s" if "strtol10 s = Some (v, q)" for v q
  proof (cases "c = CHR ''-'' \<or> c = CHR ''+''")
    case True
    then have "q = dropWhile isdigit cs" using that s by (auto simp: strtol10_def Let_def split: if_splits)
    then show ?thesis using s by (simp add: length_dropWhile_le le_imp_less_Suc)
  next
    case False
    then have "q = dropWhile isdigit s" "takeWhile isdigit s \<noteq> []" using that s by (auto simp: strtol10_def Let_def split: if_splits)
    then show ?thesis using l by blast
  qed
  have d: "n > 0 \<and> n \<le> length s" if "sd s = Some (v, n)" for v n using sd that by (auto simp: strtod_ok_def)
  show ?thesis
  proof (cases t)
    case P_DOUBLE
    then show ?thesis using e s d by (fastforce simp: eat_def split: if_splits option.splits)
  next
    case P_STRING
    then show ?thesis using e s by (auto simp: eat_def length_dropWhile_le le_imp_less_Suc split: if_splits)
  qed (use e s n in \<open>auto simp: eat_def split: if_splits option.splits\<close>)
qed

subsection \<open>The rules below a node\<close>

inductive spells :: "trie \<Rightarrow> nat \<Rightarrow> pat list \<Rightarrow> nat \<Rightarrow> bool" for T where
  here: "rule_index (T ! i) = r \<Longrightarrow> r \<noteq> 0 \<Longrightarrow> spells T i [] r"
| par: "param_childrens (T ! i) t = j \<Longrightarrow> j \<noteq> 0 \<Longrightarrow> spells T j p r \<Longrightarrow> spells T i (Par t # p) r"
| piece: "(k, j) \<in> set (children (T ! i)) \<Longrightarrow> spells T j p r \<Longrightarrow> spells T i (map Lit k @ p) r"

inductive_cases spellsE: "spells T i p r"

lemma spells_pos: "spells T i p r \<Longrightarrow> r \<noteq> 0"
  by (induction rule: spells.induct) auto

text \<open>Links lead to later nodes; the pieces of a node are not empty and none begins another.\<close>

definition node_ok :: "nat \<Rightarrow> nat \<Rightarrow> trie_node \<Rightarrow> bool" where
  "node_ok n i N \<longleftrightarrow> (\<forall>t. param_childrens N t \<noteq> 0 \<longrightarrow> i < param_childrens N t \<and> param_childrens N t < n) \<and>
     (\<forall>(k, j)\<in>set (children N). i < j \<and> j < n \<and> k \<noteq> []) \<and>
     distinct (map fst (children N)) \<and> (\<forall>k\<in>fst ` set (children N). \<forall>k'\<in>fst ` set (children N). begins k k' \<longrightarrow> k = k')"

definition trie_ok :: "trie \<Rightarrow> bool" where
  "trie_ok T \<longleftrightarrow> T \<noteq> [] \<and> (\<forall>i<length T. node_ok (length T) i (T ! i))"

lemma trie_okD:
  assumes "trie_ok T" "i < length T"
  shows "param_childrens (T ! i) t \<noteq> 0 \<Longrightarrow> i < param_childrens (T ! i) t \<and> param_childrens (T ! i) t < length T"
    "(k, j) \<in> set (children (T ! i)) \<Longrightarrow> i < j \<and> j < length T \<and> k \<noteq> []"
    "distinct (map fst (children (T ! i)))"
    "k \<in> fst ` set (children (T ! i)) \<Longrightarrow> k' \<in> fst ` set (children (T ! i)) \<Longrightarrow> begins k k' \<Longrightarrow> k = k'"
  using assms unfolding trie_ok_def node_ok_def by blast+

lemma spells_nil: "trie_ok T \<Longrightarrow> i < length T \<Longrightarrow> spells T i [] r \<Longrightarrow> rule_index (T ! i) = r"
proof -
  assume ok: "trie_ok T" "i < length T" and s: "spells T i [] r"
  from s show "rule_index (T ! i) = r"
  proof (cases rule: spells.cases)
    case (piece k j p)
    then show ?thesis using trie_okD(2) [OF ok piece(2)] by simp
  qed
qed

subsection \<open>Finding gives the least rule that matches\<close>

lemma pat_matches_piece: "pat_matches sd (map Lit k @ p) s ps = (if begins k s then pat_matches sd p (drop (length k) s) ps else None)"
proof (induction k arbitrary: s)
  case (Cons c k)
  show ?case by (cases s) (use Cons in \<open>auto simp: begins_def\<close>)
qed (simp add: begins_def)

lemma pat_matches_nil: "pat_matches sd p [] ps = (if p = [] then Some ps else None)"
proof (cases p)
  case (Cons a q)
  then show ?thesis by (cases a) (simp_all add: eat_def)
qed simp

definition finds :: "'d strtod \<Rightarrow> trie \<Rightarrow> nat \<Rightarrow> string \<Rightarrow> 'd routing_params \<Rightarrow> nat \<times> 'd routing_params \<Rightarrow> bool" where
  "finds sd T i s ps ret \<longleftrightarrow>
     (fst ret \<noteq> 0 \<longrightarrow> (\<exists>p. spells T i p (fst ret) \<and> pat_matches sd p s ps = Some (snd ret))) \<and>
     (\<forall>p r. spells T i p r \<longrightarrow> pat_matches sd p s ps \<noteq> None \<longrightarrow> fst ret \<noteq> 0 \<and> fst ret \<le> r)"

text \<open>The best of a list of branches, each with its own set of rules \<open>R\<close> and what they match, \<open>M\<close>.\<close>

lemma find_best_ok:
  assumes "\<And>b. b \<in> set bs \<Longrightarrow> \<exists>ret. g b = Some ret \<and> Q b ret"
  shows "\<exists>ret. find_best g bs best = Some ret \<and> (ret = best \<or> fst ret \<noteq> 0 \<and> (\<exists>b\<in>set bs. Q b ret)) \<and>
    (fst best \<noteq> 0 \<longrightarrow> fst ret \<noteq> 0 \<and> fst ret \<le> fst best) \<and>
    (\<forall>b\<in>set bs. \<exists>x. g b = Some x \<and> Q b x \<and> (fst x \<noteq> 0 \<longrightarrow> fst ret \<noteq> 0 \<and> fst ret \<le> fst x))"
  using assms
proof (induction bs arbitrary: best)
  case (Cons b bs)
  obtain x where x: "g b = Some x" "Q b x" using Cons.prems [of b] by auto
  have p: "\<And>b. b \<in> set bs \<Longrightarrow> \<exists>ret. g b = Some ret \<and> Q b ret" by (rule Cons.prems) simp
  from Cons.IH [of "update_found best x"] p
  have "\<exists>ret. find_best g bs (update_found best x) = Some ret \<and> (ret = update_found best x \<or> fst ret \<noteq> 0 \<and> (\<exists>b\<in>set bs. Q b ret)) \<and>
    (fst (update_found best x) \<noteq> 0 \<longrightarrow> fst ret \<noteq> 0 \<and> fst ret \<le> fst (update_found best x)) \<and>
    (\<forall>b\<in>set bs. \<exists>x. g b = Some x \<and> Q b x \<and> (fst x \<noteq> 0 \<longrightarrow> fst ret \<noteq> 0 \<and> fst ret \<le> fst x))" by blast
  then show ?case
  proof (elim exE conjE)
    fix ret
    assume r: "find_best g bs (update_found best x) = Some ret"
      "ret = update_found best x \<or> fst ret \<noteq> 0 \<and> (\<exists>b\<in>set bs. Q b ret)"
      "fst (update_found best x) \<noteq> 0 \<longrightarrow> fst ret \<noteq> 0 \<and> fst ret \<le> fst (update_found best x)"
      "\<forall>b\<in>set bs. \<exists>x. g b = Some x \<and> Q b x \<and> (fst x \<noteq> 0 \<longrightarrow> fst ret \<noteq> 0 \<and> fst ret \<le> fst x)"
    have "find_best g (b # bs) best = Some ret" using x(1) r(1) by simp
    moreover have "ret = best \<or> fst ret \<noteq> 0 \<and> (\<exists>b\<in>set (b # bs). Q b ret)"
      using r(2) x(2) by (auto simp: update_found_def split: if_splits)
    moreover have "fst best \<noteq> 0 \<longrightarrow> fst ret \<noteq> 0 \<and> fst ret \<le> fst best" "fst x \<noteq> 0 \<longrightarrow> fst ret \<noteq> 0 \<and> fst ret \<le> fst x"
      using r(3) by (auto simp: update_found_def split: if_splits)
    ultimately show ?case using r(4) x by (intro exI [of _ ret] conjI) (simp_all only: list.set ball_simps, blast+)
  qed
qed simp

lemma in_param_branches:
  "(j, r, qs) \<in> set (param_branches sd N s ps) \<longleftrightarrow> (\<exists>t a. param_childrens N t = j \<and> j \<noteq> 0 \<and> eat sd t s = Some (a, r) \<and> qs = push_param a ps)"
proof -
  have "t \<in> set param_types" for t by (cases t) (simp_all add: param_types_def)
  then show ?thesis by (force simp: param_branches_def map_filter_def split: if_splits)
qed

lemma in_piece_branches:
  "(j, r, qs) \<in> set (piece_branches N s ps) \<longleftrightarrow> (\<exists>k. (k, j) \<in> set (children N) \<and> begins k s \<and> r = drop (length k) s \<and> qs = ps)"
  by (force simp: piece_branches_def map_filter_def split: if_splits)

theorem find_from_ok:
  assumes "trie_ok T" "strtod_ok sd"
  shows "i < length T \<Longrightarrow> length s < f \<Longrightarrow> \<exists>ret. find_from sd T f s i ps = Some ret \<and> finds sd T i s ps ret"
proof (induction f arbitrary: s i ps)
  case (Suc f)
  show ?case
  proof (cases "s = []")
    case True
    have "finds sd T i [] ps (rule_index (T ! i), ps)"
      unfolding finds_def
    proof (intro conjI impI allI)
      show "\<exists>p. spells T i p (fst (rule_index (T ! i), ps)) \<and> pat_matches sd p [] ps = Some (snd (rule_index (T ! i), ps))"
        if "fst (rule_index (T ! i), ps) \<noteq> 0"
        using that by (intro exI [of _ "[]"]) (auto intro: spells.here)
      fix p r assume p: "spells T i p r" "pat_matches sd p [] ps \<noteq> None"
      then have "spells T i [] r" by (simp add: pat_matches_nil split: if_splits)
      then have "rule_index (T ! i) = r" "r \<noteq> 0" using spells_nil [OF assms(1) Suc.prems(1)] spells_pos by blast+
      then show "fst (rule_index (T ! i), ps) \<noteq> 0" "fst (rule_index (T ! i), ps) \<le> r" by simp_all
    qed
    with True show ?thesis by simp
  next
    case False
    let ?bs = "param_branches sd (T ! i) s ps @ piece_branches (T ! i) s ps"
    let ?g = "\<lambda>(j, r, qs). find_from sd T f r j qs"
    let ?Q = "\<lambda>(j, r, qs) ret. finds sd T j r qs ret"
    have b: "\<exists>ret. ?g b = Some ret \<and> ?Q b ret" if "b \<in> set ?bs" for b
    proof -
      obtain j r qs where b: "b = (j, r, qs)" by (cases b)
      have "j < length T \<and> length r < length s"
        using that eat_shorter [OF assms(2)] trie_okD(1,2) [OF assms(1) Suc.prems(1)] False
        unfolding b set_append Un_iff in_param_branches in_piece_branches by fastforce
      then show ?thesis using Suc.IH [of j r qs] Suc.prems(2) b by auto
    qed
    obtain ret where r: "find_best ?g ?bs (0, no_params) = Some ret" "ret = (0, no_params) \<or> fst ret \<noteq> 0 \<and> (\<exists>b\<in>set ?bs. ?Q b ret)"
      "\<forall>b\<in>set ?bs. \<exists>x. ?g b = Some x \<and> ?Q b x \<and> (fst x \<noteq> 0 \<longrightarrow> fst ret \<noteq> 0 \<and> fst ret \<le> fst x)"
      using find_best_ok [of ?bs ?g ?Q "(0, no_params)", OF b] by blast
    have least: "fst ret \<noteq> 0 \<and> fst ret \<le> q" if m: "(j, u, qs) \<in> set ?bs" "spells T j p q" "pat_matches sd p u qs \<noteq> None" for j u qs p q
    proof -
      obtain x where "?Q (j, u, qs) x" "fst x \<noteq> 0 \<longrightarrow> fst ret \<noteq> 0 \<and> fst ret \<le> fst x" using r(3) m(1) by blast
      then show ?thesis using m(2,3) unfolding finds_def by fastforce
    qed
    have "finds sd T i s ps ret"
      unfolding finds_def
    proof (intro conjI impI allI)
      assume "fst ret \<noteq> 0"
      then obtain j u qs where b: "(j, u, qs) \<in> set ?bs" "finds sd T j u qs ret" using r(2) by auto
      then obtain p where p: "spells T j p (fst ret)" "pat_matches sd p u qs = Some (snd ret)" using \<open>fst ret \<noteq> 0\<close> by (auto simp: finds_def)
      from b(1) show "\<exists>p. spells T i p (fst ret) \<and> pat_matches sd p s ps = Some (snd ret)"
        unfolding set_append Un_iff in_param_branches in_piece_branches
      proof (elim disjE exE conjE)
        fix t a assume "param_childrens (T ! i) t = j" "j \<noteq> 0" "eat sd t s = Some (a, u)" "qs = push_param a ps"
        then show ?thesis using p by (intro exI [of _ "Par t # p"]) (auto intro: spells.par)
      next
        fix k assume "(k, j) \<in> set (children (T ! i))" "begins k s" "u = drop (length k) s" "qs = ps"
        then show ?thesis using p by (intro exI [of _ "map Lit k @ p"]) (auto simp: pat_matches_piece intro: spells.piece)
      qed
    next
      fix p q assume p: "spells T i p q" "pat_matches sd p s ps \<noteq> None"
      from p(1) have "fst ret \<noteq> 0 \<and> fst ret \<le> q"
      proof (cases rule: spells.cases)
        case here
        then show ?thesis using p(2) False by simp
      next
        case (par t j p')
        then obtain a u where e: "eat sd t s = Some (a, u)" "pat_matches sd p' u (push_param a ps) \<noteq> None" using p(2) by (auto split: option.splits)
        then have "(j, u, push_param a ps) \<in> set ?bs" using par unfolding set_append Un_iff in_param_branches by blast
        then show ?thesis using least [OF _ par(4) e(2)] by blast
      next
        case (piece k j p')
        then have e: "begins k s" "pat_matches sd p' (drop (length k) s) ps \<noteq> None" using p(2) by (auto simp: pat_matches_piece split: if_splits)
        then have "(j, drop (length k) s, ps) \<in> set ?bs" using piece unfolding set_append Un_iff in_piece_branches by blast
        then show ?thesis using least [OF _ piece(3) e(2)] by blast
      qed
      then show "fst ret \<noteq> 0" "fst ret \<le> q" by simp_all
    qed
    with r(1) False show ?thesis by auto
  qed
qed simp

end
