(* ===== verification/Crow_Optimize.thy ===== *)
theory Crow_Optimize
  imports Crow_Match
begin

section \<open>Merging nodes changes no rule\<close>

subsection \<open>One merge\<close>

definition joined :: "trie \<Rightarrow> (string \<times> nat) list \<Rightarrow> (string \<times> nat) list" where
  "joined T kvs = concat (map (\<lambda>(k, j). map (\<lambda>(k', j'). (k @ k', j')) (children (T ! j))) kvs)"

lemma update_new: "k \<notin> fst ` set l \<Longrightarrow> AList.update k v l = l @ [(k, v)]"
  by (induction l) auto

lemma fold_update: "distinct (map fst (l @ m)) \<Longrightarrow> fold (\<lambda>(k, v). AList.update k v) m l = l @ m"
proof (induction m arbitrary: l)
  case (Cons x m)
  obtain k v where x: "x = (k, v)" by force
  have "k \<notin> fst ` set l" using Cons.prems by (auto simp: x)
  then have "fold (\<lambda>(k, v). AList.update k v) (x # m) l = fold (\<lambda>(k, v). AList.update k v) m (l @ [x])" by (simp add: x update_new)
  then show ?case using Cons.IH [of "l @ [x]"] Cons.prems by simp
qed simp

lemma merged_fold: "merged_children T kvs = fold (\<lambda>(k, v). AList.update k v) (joined T kvs) []"
proof -
  have "fold (\<lambda>(k', j'). AList.update (k @ k') j') l a = fold (\<lambda>(k, v). AList.update k v) (map (\<lambda>(k', j'). (k @ k', j')) l) a" for k l and a :: "(string \<times> nat) list"
    by (induction l arbitrary: a) auto
  then have "fold (\<lambda>(k, j). fold (\<lambda>(k', j'). AList.update (k @ k') j') (children (T ! j))) kvs a = fold (\<lambda>(k, v). AList.update k v) (joined T kvs) a" for a
    by (induction kvs arbitrary: a) (auto simp: joined_def)
  then show ?thesis by (simp add: merged_children_def)
qed

lemma in_joined: "(x, j') \<in> set (joined T kvs) \<longleftrightarrow> (\<exists>k j k'. (k, j) \<in> set kvs \<and> (k', j') \<in> set (children (T ! j)) \<and> x = k @ k')"
  by (force simp: joined_def)

lemma begins_iff: "begins p s \<longleftrightarrow> (\<exists>q. s = p @ q)"
  unfolding begins_def by (metis append_eq_conv_conj append_take_drop_id)

lemma begins_append: "begins (a @ b) (c @ d) \<Longrightarrow> begins a c \<or> begins c a"
proof -
  assume "begins (a @ b) (c @ d)"
  then obtain q where "c @ d = a @ (b @ q)" by (auto simp: begins_iff)
  then show ?thesis unfolding append_eq_append_conv2 by (auto simp: begins_iff)
qed

lemma begins_same [simp]: "begins (a @ b) (a @ c) \<longleftrightarrow> begins b c" "begins a a"
  by (simp_all add: begins_def)

text \<open>Two joined pieces of which one begins the other have the same parts.\<close>

lemma joined_apart:
  assumes ok: "trie_ok T" "i < length T" and k: "(k, j) \<in> set (children (T ! i))" "(l, m) \<in> set (children (T ! i))"
    and k': "(k', j') \<in> set (children (T ! j))" "(l', m') \<in> set (children (T ! m))" and b: "begins (k @ k') (l @ l')"
  shows "k = l \<and> j = m \<and> k' = l' \<and> j' = m'"
proof -
  have kl: "k \<in> fst ` set (children (T ! i))" "l \<in> fst ` set (children (T ! i))" using imageI [OF k(1), of fst] imageI [OF k(2), of fst] by simp_all
  have "k = l" using begins_append [OF b] trie_okD(4) [OF ok kl] trie_okD(4) [OF ok kl(2,1)] by blast
  moreover from this have "j = m" using trie_okD(3) [OF ok] k by (meson eq_key_imp_eq_value)
  moreover have jl: "j < length T" using trie_okD(2) [OF ok k(1)] by simp
  ultimately have "begins k' l'" and lj: "(l', m') \<in> set (children (T ! j))" using b k'(2) by simp_all
  then have "k' = l'" using trie_okD(4) [OF ok(1) jl, of k' l'] imageI [OF k'(1), of fst] imageI [OF lj, of fst] by simp
  moreover from this have "j' = m'" using trie_okD(3) [OF ok(1) jl] k'(1) lj by (meson eq_key_imp_eq_value)
  ultimately show ?thesis using \<open>k = l\<close> \<open>j = m\<close> by blast
qed

lemma joined_distinct:
  assumes ok: "trie_ok T" "i < length T"
  shows "distinct (map fst (joined T (children (T ! i))))"
proof -
  have "distinct (map fst (joined T kvs))" if "set kvs \<subseteq> set (children (T ! i))" "distinct (map fst kvs)" for kvs
    using that
  proof (induction kvs)
    case (Cons kv kvs)
    obtain k j where kv: "kv = (k, j)" by force
    have k: "(k, j) \<in> set (children (T ! i))" using Cons.prems kv by simp
    have jl: "j < length T" using trie_okD(2) [OF ok k] by simp
    have "distinct (map fst (children (T ! j)))" by (rule trie_okD(3) [OF ok(1) jl])
    moreover have "map fst (map (\<lambda>(k', j'). (k @ k', j')) l) = map ((@) k) (map fst l)" for l :: "(string \<times> nat) list" by (induction l) auto
    ultimately have "distinct (map fst (map (\<lambda>(k', j'). (k @ k', j')) (children (T ! j))))"
      by (simp only: distinct_map) (auto simp: inj_on_def)
    moreover have "x \<notin> fst ` set (joined T kvs)" if x: "x \<in> fst ` set (map (\<lambda>(k', j'). (k @ k', j')) (children (T ! j)))" for x
    proof
      assume "x \<in> fst ` set (joined T kvs)"
      then obtain l m l' m' where l: "(l, m) \<in> set kvs" "(l', m') \<in> set (children (T ! m))" "x = l @ l'" by (force simp: in_joined)
      from x obtain k' j' where k': "(k', j') \<in> set (children (T ! j))" "x = k @ k'" by auto
      have "k = l" using joined_apart [OF ok k _ k'(1) l(2)] l(1,3) k'(2) Cons.prems(1) by auto
      then show False using Cons.prems(2) l(1) kv by force
    qed
    moreover have "joined T (kv # kvs) = map (\<lambda>(k', j'). (k @ k', j')) (children (T ! j)) @ joined T kvs" by (simp add: joined_def kv)
    moreover have "distinct (map fst (joined T kvs))" using Cons by simp
    ultimately show ?case by (simp only: map_append distinct_append) (auto simp only: set_map)
  qed (simp add: joined_def)
  then show ?thesis using trie_okD(3) [OF ok] by simp
qed

lemma merged_joined:
  assumes "trie_ok T" "i < length T" shows "merged_children T (children (T ! i)) = joined T (children (T ! i))"
  using fold_update [of "[]" "joined T (children (T ! i))"] joined_distinct [OF assms] by (simp add: merged_fold)

definition merge_at :: "nat \<Rightarrow> trie \<Rightarrow> trie" where
  "merge_at i T = T[i := (T ! i)\<lparr>children := merged_children T (children (T ! i))\<rparr>]"

lemma nth_merge: "i < length T \<Longrightarrow> merge_at i T ! m = (if m = i then (T ! i)\<lparr>children := merged_children T (children (T ! i))\<rparr> else T ! m)"
  by (simp add: merge_at_def nth_list_update)

lemma merge_ok:
  assumes ok: "trie_ok T" "i < length T"
  shows "trie_ok (merge_at i T)"
  unfolding trie_ok_def
proof (intro conjI allI impI)
  show "merge_at i T \<noteq> []" using ok by (auto simp: merge_at_def trie_ok_def)
  fix m assume m: "m < length (merge_at i T)"
  then have ml: "m < length T" by (simp add: merge_at_def)
  show "node_ok (length (merge_at i T)) m (merge_at i T ! m)"
  proof (cases "m = i")
    case False
    then show ?thesis using ok ml by (simp add: nth_merge trie_ok_def) (simp add: merge_at_def)
  next
    case True
    let ?L = "joined T (children (T ! i))"
    have l: "i < j' \<and> j' < length T \<and> x \<noteq> []" if L: "(x, j') \<in> set ?L" for x j'
    proof -
      obtain k j k' where k: "(k, j) \<in> set (children (T ! i))" "(k', j') \<in> set (children (T ! j))" "x = k @ k'" using L unfolding in_joined by blast
      have a: "i < j \<and> j < length T \<and> k \<noteq> []" by (rule trie_okD(2) [OF ok k(1)])
      then show ?thesis using trie_okD(2) [OF ok(1) _ k(2)] k(3) by auto
    qed
    have a: "x = y" if "x \<in> fst ` set ?L" "y \<in> fst ` set ?L" "begins x y" for x y
    proof -
      from that(1,2) obtain j' m' where x: "(x, j') \<in> set ?L" and y: "(y, m') \<in> set ?L" by (elim imageE) (metis prod.collapse)
      obtain k j k' where k: "(k, j) \<in> set (children (T ! i))" "(k', j') \<in> set (children (T ! j))" "x = k @ k'"
        using x unfolding in_joined by blast
      obtain l m l' where l: "(l, m) \<in> set (children (T ! i))" "(l', m') \<in> set (children (T ! m))" "y = l @ l'"
        using y unfolding in_joined by blast
      show ?thesis using joined_apart [OF ok k(1) l(1) k(2) l(2)] that(3) k(3) l(3) by simp
    qed
    have "node_ok (length T) i ((T ! i)\<lparr>children := ?L\<rparr>)"
      unfolding node_ok_def using l a joined_distinct [OF ok] trie_okD(1) [OF ok] by auto
    then show ?thesis using True ml by (simp add: nth_merge merged_joined [OF ok]) (simp add: merge_at_def)
  qed
qed

lemma simple_node: "is_simple_node N \<Longrightarrow> rule_index N = 0 \<and> (\<forall>t. param_childrens N t = 0)"
proof -
  assume s: "is_simple_node N"
  have "param_childrens N t = 0" for t using s by (cases t) (simp_all add: is_simple_node_def param_types_def)
  then show ?thesis using s by (simp add: is_simple_node_def)
qed

lemma merge_spells:
  assumes ok: "trie_ok T" "i < length T" and s: "\<And>k j. (k, j) \<in> set (children (T ! i)) \<Longrightarrow> is_simple_node (T ! j)"
  shows "spells (merge_at i T) m p r = spells T m p r"
proof
  assume "spells (merge_at i T) m p r"
  then show "spells T m p r"
  proof (induction rule: spells.induct)
    case (here m r)
    then show ?case by (auto simp: nth_merge [OF ok(2)] split: if_splits intro: spells.here)
  next
    case (par m t j p r)
    then show ?case by (auto simp: nth_merge [OF ok(2)] split: if_splits intro: spells.par)
  next
    case (piece x j' m p r)
    show ?case
    proof (cases "m = i")
      case False
      then show ?thesis using piece by (auto simp: nth_merge [OF ok(2)] intro: spells.piece)
    next
      case True
      then obtain k j k' where k: "(k, j) \<in> set (children (T ! i))" "(k', j') \<in> set (children (T ! j))" "x = k @ k'"
        using piece(1) by (auto simp: nth_merge [OF ok(2)] merged_joined [OF ok] in_joined)
      show ?thesis using spells.piece [OF k(1) spells.piece [OF k(2) piece(3)]] k(3) True by simp
    qed
  qed
next
  assume "spells T m p r"
  then show "spells (merge_at i T) m p r"
  proof (induction rule: spells.induct)
    case (here m r)
    then show ?case by (auto simp: nth_merge [OF ok(2)] intro!: spells.here)
  next
    case (par m t j p r)
    show ?case by (rule spells.par [OF _ par(2) par.IH]) (use par(1) in \<open>auto simp: nth_merge [OF ok(2)]\<close>)
  next
    case (piece k j m p r)
    show ?case
    proof (cases "m = i")
      case False
      then show ?thesis using piece by (auto simp: nth_merge [OF ok(2)] intro: spells.piece)
    next
      case True
      have ji: "j \<noteq> i" using trie_okD(2) [OF ok] piece(1) True by fastforce
      note N = simple_node [OF s, of k j]
      note kj = piece(1)
      from piece.IH show ?thesis
      proof (cases rule: spells.cases)
        case here
        then show ?thesis using N kj True ji by (simp add: nth_merge [OF ok(2)])
      next
        case (par t j' p')
        then show ?thesis using N kj True ji by (simp add: nth_merge [OF ok(2)])
      next
        case (piece k' j' p')
        then have "(k @ k', j') \<in> set (children (merge_at i T ! i))"
          using kj True ji by (auto simp: nth_merge [OF ok(2)] merged_joined [OF ok] in_joined)
        from spells.piece [OF this piece(3)] show ?thesis using piece(1) True by simp
      qed
    qed
  qed
qed

subsection \<open>The recursion\<close>

definition opt_post :: "nat \<Rightarrow> trie \<Rightarrow> trie \<Rightarrow> bool" where
  "opt_post i T T' \<longleftrightarrow> trie_ok T' \<and> length T' = length T \<and> spells T' = spells T \<and> (\<forall>m<i. T' ! m = T ! m)"

definition min_child :: "nat \<Rightarrow> trie \<Rightarrow> nat" where
  "min_child i T = Min (insert (length T) (snd ` set (children (T ! i))))"

definition opt_measure :: "nat \<Rightarrow> trie \<Rightarrow> nat" where
  "opt_measure i T = (length T - i) * Suc (length T) + (length T - min_child i T)"

lemma opt_each_ok:
  assumes "\<And>j T. j \<in> set js \<Longrightarrow> trie_ok T \<Longrightarrow> length T = n \<Longrightarrow> \<exists>T'. g j T = Some T' \<and> opt_post j T T'"
    and "trie_ok T" "length T = n" "\<And>j. j \<in> set js \<Longrightarrow> i < j"
  shows "\<exists>T'. opt_each g js T = Some T' \<and> opt_post (Suc i) T T'"
  using assms
proof (induction js arbitrary: T)
  case (Cons j js)
  obtain T1 where T1: "g j T = Some T1" "opt_post j T T1" using Cons.prems(1) [of j T] Cons.prems(2,3) by auto
  then have "trie_ok T1" "length T1 = n" using Cons.prems(3) by (simp_all add: opt_post_def)
  then have "\<exists>T'. opt_each g js T1 = Some T' \<and> opt_post (Suc i) T1 T'"
    by (intro Cons.IH) (use Cons.prems(1,4) in \<open>simp_all del: opt_each.simps\<close>)
  then obtain T2 where "opt_each g js T1 = Some T2" "opt_post (Suc i) T1 T2" by blast
  moreover have "i < j" using Cons.prems(4) by simp
  ultimately show ?case using T1 by (auto simp: opt_post_def)
qed (simp add: opt_post_def)

lemma later_measure: "i < j \<Longrightarrow> j < length T \<Longrightarrow> length T = n \<Longrightarrow> opt_measure j T < (n - i) * Suc n"
proof -
  assume a: "i < j" "j < length T" "length T = n"
  have "opt_measure j T \<le> (n - j) * Suc n + n" using a by (simp add: opt_measure_def)
  also have "\<dots> < Suc (n - j) * Suc n" by simp
  also have "\<dots> \<le> (n - i) * Suc n" using a by (intro mult_le_mono1) simp
  finally show ?thesis .
qed

lemma merge_measure:
  assumes ok: "trie_ok T" "i < length T" and c: "children (T ! i) \<noteq> []"
  shows "opt_measure i (merge_at i T) < opt_measure i T"
proof -
  let ?C = "snd ` set (children (T ! i))" and ?n = "length T"
  have len: "length (merge_at i T) = ?n" by (simp add: merge_at_def)
  have fin: "finite (insert ?n ?C)" by simp
  have lt: "min_child i T < ?n"
  proof -
    obtain k j where k: "(k, j) \<in> set (children (T ! i))" using c by (cases "children (T ! i)") auto
    then have "min_child i T \<le> j" unfolding min_child_def by (intro Min_le) force+
    then show ?thesis using trie_okD(2) [OF ok k] by simp
  qed
  have "min_child i T < x" if x: "x \<in> insert ?n (snd ` set (children (merge_at i T ! i)))" for x
  proof (cases "x = ?n")
    case False
    then obtain y where "(y, x) \<in> set (joined T (children (T ! i)))" using x by (auto simp: nth_merge [OF ok(2)] merged_joined [OF ok])
    then obtain k j k' where k: "(k, j) \<in> set (children (T ! i))" "(k', x) \<in> set (children (T ! j))" by (auto simp: in_joined)
    have "j < x" using trie_okD(2) [OF ok(1) _ k(2)] trie_okD(2) [OF ok k(1)] by simp
    moreover have "min_child i T \<le> j" unfolding min_child_def using k(1) by (intro Min_le) force+
    ultimately show ?thesis by simp
  qed (use lt in simp)
  then have "min_child i T < min_child i (merge_at i T)" unfolding min_child_def len by (subst Min_gr_iff) auto
  then show ?thesis using lt by (simp add: opt_measure_def len)
qed

theorem optimize_node_ok:
  "trie_ok T \<Longrightarrow> i < length T \<Longrightarrow> opt_measure i T < f \<Longrightarrow> \<exists>T'. optimize_node f i T = Some T' \<and> opt_post i T T'"
proof (induction f arbitrary: i T)
  case (Suc f)
  let ?n = "length T" and ?ps = "filter (\<lambda>x. x \<noteq> 0) (map (param_childrens (T ! i)) param_types)"
  note ok = Suc.prems(1,2)
  have sub: "\<exists>T'. optimize_node f j U = Some T' \<and> opt_post j U T'" if "i < j" "j < ?n" "trie_ok U" "length U = ?n" for j U
  proof (rule Suc.IH)
    have "opt_measure j U < (?n - i) * Suc ?n" using later_measure [OF that(1)] that(2,4) by simp
    also have "\<dots> \<le> opt_measure i T" unfolding opt_measure_def by (rule le_add1)
    finally show "opt_measure j U < f" using Suc.prems(3) by simp
  qed (use that in simp_all)
  have "i < j \<and> j < ?n" if "j \<in> set ?ps" for j using trie_okD(1) [OF ok] that by auto
  then obtain T1 where T1: "opt_each (optimize_node f) ?ps T = Some T1" "opt_post (Suc i) T T1"
    using opt_each_ok [of ?ps ?n "optimize_node f" T i] sub ok(1) by blast
  then have k: "trie_ok T1" "i < length T1" "length T1 = ?n" "T1 ! i = T ! i" "spells T1 = spells T" "\<And>m. m < i \<Longrightarrow> T1 ! m = T ! m"
    using ok(2) by (simp_all add: opt_post_def)
  have m1: "opt_measure i T1 = opt_measure i T" using k(3,4) by (simp add: opt_measure_def min_child_def)
  let ?kvs = "children (T1 ! i)"
  consider "?kvs = []" | "?kvs \<noteq> []" "list_all (\<lambda>kv. is_simple_node (T1 ! snd kv)) ?kvs" | "?kvs \<noteq> []" "\<not> list_all (\<lambda>kv. is_simple_node (T1 ! snd kv)) ?kvs"
    by blast
  then show ?case
  proof cases
    case 1
    then show ?thesis using T1 k by (auto simp: opt_post_def)
  next
    case 2
    have s: "spells (merge_at i T1) = spells T1" 
    proof (intro ext merge_spells [OF k(1,2)])
      fix k j assume "(k, j) \<in> set ?kvs"
      then show "is_simple_node (T1 ! j)" using 2(2) by (auto simp: list_all_iff)
    qed
    have "opt_measure i (merge_at i T1) < f" using merge_measure [OF k(1,2) 2(1)] m1 Suc.prems(3) by simp
    then obtain T2 where T2: "optimize_node f i (merge_at i T1) = Some T2" "opt_post i (merge_at i T1) T2"
      using Suc.IH [OF merge_ok [OF k(1,2)]] k(2) by (auto simp: merge_at_def)
    have "optimize_node (Suc f) i T = Some T2" using T1(1) 2 T2(1) by (simp add: Let_def merge_at_def)
    moreover have "opt_post i T T2" using T2(2) s k(3,5,6) by (auto simp: opt_post_def nth_merge [OF k(2)]) (simp_all add: merge_at_def)
    ultimately show ?thesis by blast
  next
    case 3
    have "i < j \<and> j < ?n" if "j \<in> set (map snd ?kvs)" for j using trie_okD(2) [OF k(1,2)] k(3) that by auto
    then obtain T2 where T2: "opt_each (optimize_node f) (map snd ?kvs) T1 = Some T2" "opt_post (Suc i) T1 T2"
      using opt_each_ok [of "map snd ?kvs" ?n "optimize_node f" T1 i] sub k(1,3) by blast
    have "optimize_node (Suc f) i T = Some T2" using T1(1) 3 T2(1) by (simp add: Let_def)
    moreover have "opt_post i T T2" using T2(2) k by (simp add: opt_post_def)
    ultimately show ?thesis by blast
  qed
qed simp

lemma enough_fuel: "trie_ok T \<Longrightarrow> opt_measure 0 T < trie_fuel T"
  by (simp add: opt_measure_def trie_fuel_def)

lemma optimize_keeps: "trie_ok T \<Longrightarrow> \<exists>T'. optimize_node (trie_fuel T) 0 T = Some T' \<and> trie_ok T' \<and> spells T' = spells T"
  using optimize_node_ok [OF _ _ enough_fuel, of T] by (auto simp: trie_ok_def opt_post_def)

text \<open>C34. Merging the nodes of a trie ends, keeps its links in order and changes no rule: from every node the same
  lists of characters and parameters lead to the same rules as before.\<close>

theorem optimize_changes_nothing:
  assumes "trie_ok T" "is_simple_node (hd T)"
  shows "\<exists>T'. trie_validate T = Some (Return T') \<and> trie_ok T' \<and> spells T' = spells T"
  using optimize_keeps [OF assms(1)] assms(2) by (auto simp: trie_validate_def)

theorem optimize_changes_nothing_witness:
  "\<exists>T'. trie_validate [new_node\<lparr>children := [(''a'', 1)]\<rparr>, new_node\<lparr>children := [(''b'', 2)]\<rparr>, new_node\<lparr>rule_index := 2\<rparr>] = Some (Return T') \<and>
     trie_ok T' \<and> spells T' = spells [new_node\<lparr>children := [(''a'', 1)]\<rparr>, new_node\<lparr>children := [(''b'', 2)]\<rparr>, new_node\<lparr>rule_index := 2\<rparr>]"
  by (rule optimize_changes_nothing) (auto simp: trie_ok_def node_ok_def new_node_def is_simple_node_def list_all_iff less_Suc_eq begins_def)

end
