(* ===== verification/Crow_Add.thy ===== *)
theory Crow_Add
  imports Crow_Optimize
begin

section \<open>Adding a rule adds that rule\<close>

text \<open>
  Before \<open>optimize\<close> every piece is one character, so a node has at most one child for a character or a
  parameter. A rule is a walk from the head, and no two walks end at one node.
\<close>

definition step :: "trie \<Rightarrow> nat \<Rightarrow> pat \<Rightarrow> nat option" where
  "step T i a = (case a of
      Lit c \<Rightarrow> map_of (children (T ! i)) [c]
    | Par t \<Rightarrow> if param_childrens (T ! i) t = 0 then None else Some (param_childrens (T ! i) t))"

fun walk :: "trie \<Rightarrow> nat \<Rightarrow> pat list \<Rightarrow> nat option" where
  "walk T i [] = Some i"
| "walk T i (a # p) = (case step T i a of None \<Rightarrow> None | Some j \<Rightarrow> walk T j p)"

definition raw_trie :: "trie \<Rightarrow> bool" where
  "raw_trie T \<longleftrightarrow> trie_ok T \<and> (\<forall>i<length T. \<forall>k\<in>fst ` set (children (T ! i)). length k = 1) \<and>
     (\<forall>i<length T. \<forall>i'<length T. \<forall>a a' j. step T i a = Some j \<longrightarrow> step T i' a' = Some j \<longrightarrow> i = i' \<and> a = a')"

lemma rawD:
  assumes "raw_trie T"
  shows "trie_ok T" "i < length T \<Longrightarrow> (k, j) \<in> set (children (T ! i)) \<Longrightarrow> \<exists>c. k = [c]"
    "i < length T \<Longrightarrow> i' < length T \<Longrightarrow> step T i a = Some j \<Longrightarrow> step T i' a' = Some j \<Longrightarrow> i = i' \<and> a = a'"
proof -
  show "trie_ok T" using assms by (simp add: raw_trie_def)
  assume i: "i < length T"
  { assume "(k, j) \<in> set (children (T ! i))"
    then have "k \<in> fst ` set (children (T ! i))" by (rule image_eqI [rotated]) simp
    then have "length k = 1" using assms i unfolding raw_trie_def by blast
    then show "\<exists>c. k = [c]" by (cases k) auto }
  assume "i' < length T" "step T i a = Some j" "step T i' a' = Some j"
  with i show "i = i' \<and> a = a'" using assms by (simp add: raw_trie_def)
qed

lemma step_later: "trie_ok T \<Longrightarrow> i < length T \<Longrightarrow> step T i a = Some j \<Longrightarrow> i < j \<and> j < length T"
proof -
  assume ok: "trie_ok T" "i < length T" and s: "step T i a = Some j"
  show "i < j \<and> j < length T"
  proof (cases a)
    case (Lit c)
    then have "([c], j) \<in> set (children (T ! i))" using s by (simp add: step_def map_of_SomeD)
    then show ?thesis using trie_okD(2) [OF ok] by blast
  next
    case (Par t)
    then have "param_childrens (T ! i) t = j" "j \<noteq> 0" using s by (auto simp: step_def split: if_splits)
    then show ?thesis using trie_okD(1) [OF ok, of t] by simp
  qed
qed

lemma walk_later: "trie_ok T \<Longrightarrow> i < length T \<Longrightarrow> walk T i p = Some m \<Longrightarrow> i \<le> m \<and> m < length T \<and> (p \<noteq> [] \<longrightarrow> i < m)"
proof (induction p arbitrary: i)
  case (Cons a p)
  then obtain j where j: "step T i a = Some j" "walk T j p = Some m" by (auto split: option.splits)
  show ?case using Cons.IH [OF Cons.prems(1) _ j(2)] step_later [OF Cons.prems(1,2) j(1)] by auto
qed simp

lemma walk_snoc: "walk T i (p @ [a]) = (case walk T i p of None \<Rightarrow> None | Some j \<Rightarrow> step T j a)"
  by (induction p arbitrary: i) (auto split: option.splits)

lemma walk_same:
  assumes "raw_trie T" shows "walk T 0 p = Some m \<Longrightarrow> walk T 0 q = Some m \<Longrightarrow> p = q"
proof (induction p arbitrary: q m rule: rev_induct)
  have z: "0 < length T" using rawD(1) [OF assms] by (simp add: trie_ok_def)
  case Nil
  then show ?case using walk_later [OF rawD(1) [OF assms] z, of q 0] by auto
next
  have z: "0 < length T" using rawD(1) [OF assms] by (simp add: trie_ok_def)
  case (snoc a p)
  then obtain j where j: "walk T 0 p = Some j" "step T j a = Some m" by (auto simp: walk_snoc split: option.splits)
  have "q \<noteq> []" using walk_later [OF rawD(1) [OF assms] z snoc.prems(1)] snoc.prems(2) by auto
  then obtain q' b where q: "q = q' @ [b]" by (cases q rule: rev_cases) auto
  then obtain j' where j': "walk T 0 q' = Some j'" "step T j' b = Some m" using snoc.prems(2) by (auto simp: walk_snoc split: option.splits)
  have l: "j < length T" "j' < length T" using walk_later [OF rawD(1) [OF assms] z] j(1) j'(1) by blast+
  have "j = j' \<and> a = b" by (rule rawD(3) [OF assms l j(2) j'(2)])
  then show ?case using snoc.IH [OF j(1)] j'(1) q by simp
qed

lemma spells_walk:
  assumes "raw_trie T" shows "i < length T \<Longrightarrow> spells T i p r \<longleftrightarrow> (\<exists>m. walk T i p = Some m \<and> rule_index (T ! m) = r \<and> r \<noteq> 0)"
proof
  note ok = rawD(1) [OF assms]
  { assume "spells T i p r" and "i < length T"
    then show "\<exists>m. walk T i p = Some m \<and> rule_index (T ! m) = r \<and> r \<noteq> 0"
    proof (induction rule: spells.induct)
      case (par i t j p r)
      then show ?case using trie_okD(1) [OF ok par.prems, of t] by (auto simp: step_def)
    next
      case (piece k j i p r)
      obtain c where c: "k = [c]" using rawD(2) [OF assms piece.prems piece(1)] by blast
      have "map_of (children (T ! i)) [c] = Some j" using trie_okD(3) [OF ok piece.prems] piece(1) c by simp
      then show ?case using piece.IH trie_okD(2) [OF ok piece.prems piece(1)] c by (simp add: step_def)
    qed simp }
  assume "i < length T" and "\<exists>m. walk T i p = Some m \<and> rule_index (T ! m) = r \<and> r \<noteq> 0"
  then show "spells T i p r"
  proof (induction p arbitrary: i)
    case (Cons a p)
    then obtain j where j: "step T i a = Some j" "\<exists>m. walk T j p = Some m \<and> rule_index (T ! m) = r \<and> r \<noteq> 0" by (auto split: option.splits)
    have s: "spells T j p r" using Cons.IH [OF _ j(2)] step_later [OF ok Cons.prems(1) j(1)] by simp
    show ?case
    proof (cases a)
      case (Lit c)
      then have "([c], j) \<in> set (children (T ! i))" using j(1) by (auto simp: step_def dest: map_of_SomeD)
      from spells.piece [OF this s] show ?thesis using Lit by simp
    next
      case (Par t)
      then show ?thesis using j(1) s by (auto simp: step_def split: if_splits intro: spells.par)
    qed
  qed (auto intro: spells.here)
qed

subsection \<open>One more edge\<close>

definition add_step :: "pat \<Rightarrow> nat \<Rightarrow> trie \<Rightarrow> nat \<times> trie" where
  "add_step a idx T = (case a of Lit c \<Rightarrow> piece_child [c] idx T | Par t \<Rightarrow> param_child t idx T)"

lemma new_fields [simp]: "rule_index new_node = 0" "param_childrens new_node t = 0" "children new_node = []"
  by (simp_all add: new_node_def)

lemma add_step_old: "step T idx a = Some j \<Longrightarrow> add_step a idx T = (j, T)"
  by (cases a) (auto simp: step_def add_step_def piece_child_def param_child_def split: if_splits)

lemma add_step_new:
  assumes "step T idx a = None" "idx < length T" "trie_ok T"
  shows "\<exists>T'. add_step a idx T = (length T, T') \<and> length T' = Suc (length T) \<and> (\<forall>i\<le>length T. \<forall>b. step T' i b =
     (if i = length T then None else if i = idx \<and> b = a then Some (length T) else step T i b)) \<and>
     (\<forall>i\<le>length T. rule_index (T' ! i) = (if i = length T then 0 else rule_index (T ! i)))"
proof (cases a)
  case (Lit c)
  have k: "map_of (children (T ! idx)) [c] = None" using assms(1) Lit by (simp add: step_def)
  show ?thesis
    using assms(2) k Lit
    by (auto simp: add_step_def piece_child_def step_def nth_append nth_list_update map_add_Some_iff map_add_def split: pat.splits option.splits)
next
  case (Par t)
  have k: "param_childrens (T ! idx) t = 0" using assms(1) Par by (simp add: step_def split: if_splits)
  have l: "length T \<noteq> 0" using assms(2) by auto
  show ?thesis
    using assms(2) k Par l
    by (auto simp: add_step_def param_child_def step_def nth_append nth_list_update split: pat.splits)
qed


subsection \<open>The loop\<close>

text \<open>What the loop keeps: walks stay, and the rules below a node.\<close>

definition extends :: "trie \<Rightarrow> trie \<Rightarrow> bool" where
  "extends T T' \<longleftrightarrow> raw_trie T' \<and> length T \<le> length T' \<and> (\<forall>i<length T. \<forall>p m. walk T i p = Some m \<longrightarrow> walk T' i p = Some m) \<and>
     (\<forall>i<length T. \<forall>p r. spells T' i p r = spells T i p r)"

lemma extends_refl: "raw_trie T \<Longrightarrow> extends T T"
  by (simp add: extends_def)

lemma extends_trans: "extends T U \<Longrightarrow> extends U V \<Longrightarrow> extends T V"
  by (auto simp: extends_def dest: order_trans less_le_trans)

text \<open>Links and pieces, read off from the steps.\<close>

lemma raw_steps:
  assumes "T \<noteq> []" "\<And>i k. i < length T \<Longrightarrow> k \<in> fst ` set (children (T ! i)) \<Longrightarrow> length k = 1"
    "\<And>i. i < length T \<Longrightarrow> distinct (map fst (children (T ! i)))"
    "\<And>i a j. i < length T \<Longrightarrow> step T i a = Some j \<Longrightarrow> i < j \<and> j < length T"
    "\<And>i a j i' a'. i < length T \<Longrightarrow> i' < length T \<Longrightarrow> step T i a = Some j \<Longrightarrow> step T i' a' = Some j \<Longrightarrow> i = i' \<and> a = a'"
  shows "raw_trie T"
proof -
  have "node_ok (length T) i (T ! i)" if i: "i < length T" for i
    unfolding node_ok_def
  proof (intro conjI allI impI ballI)
    show "distinct (map fst (children (T ! i)))" by (rule assms(3) [OF i])
    fix t assume "param_childrens (T ! i) t \<noteq> 0"
    then have "step T i (Par t) = Some (param_childrens (T ! i) t)" by (simp add: step_def)
    then show "i < param_childrens (T ! i) t" "param_childrens (T ! i) t < length T" using assms(4) [OF i] by blast+
  next
    fix kv assume kv: "kv \<in> set (children (T ! i))"
    obtain k j where k: "kv = (k, j)" by force
    have "length k = 1" using assms(2) [OF i] imageI [OF kv, of fst] k by simp
    then obtain c where c: "k = [c]" by (cases k) auto
    have "step T i (Lit c) = Some j" using kv k c assms(3) [OF i] by (simp add: step_def)
    then show "case kv of (k, j) \<Rightarrow> i < j \<and> j < length T \<and> k \<noteq> []" using assms(4) [OF i] k c by auto
  next
    fix k k' assume k: "k \<in> fst ` set (children (T ! i))" "k' \<in> fst ` set (children (T ! i))" "begins k k'"
    have "length k = 1" "length k' = 1" using assms(2) [OF i] k by blast+
    then show "k = k'" using k(3) by (cases k; cases k') (auto simp: begins_def)
  qed
  then show ?thesis using assms(1,2,5) unfolding raw_trie_def trie_ok_def by blast
qed


lemma add_step_keys:
  assumes "raw_trie T" "idx < length T" "step T idx a = None" "add_step a idx T = (j, T')" "i < length T'"
  shows "distinct (map fst (children (T' ! i)))" "k \<in> fst ` set (children (T' ! i)) \<Longrightarrow> length k = 1"
proof -
  have d: "distinct (map fst (children (T ! i)))" if "i < length T" for i by (rule trie_okD(3) [OF rawD(1) [OF assms(1)] that])
  have one: "length k = 1" if "i < length T" "k \<in> fst ` set (children (T ! i))" for i k using assms(1) that unfolding raw_trie_def by blast
  show "distinct (map fst (children (T' ! i)))"
  proof (cases a)
    case (Lit c)
    then have n: "map_of (children (T ! idx)) [c] = None" using assms(3) by (simp add: step_def)
    then have "[c] \<notin> fst ` set (children (T ! idx))" by (simp add: map_of_eq_None_iff)
    then show ?thesis using assms(2,4,5) Lit d n by (auto simp: add_step_def piece_child_def nth_append nth_list_update)
  next
    case (Par t)
    then show ?thesis using assms(2,4,5) d by (auto simp: add_step_def param_child_def nth_append nth_list_update split: if_splits)
  qed
  assume k: "k \<in> fst ` set (children (T' ! i))"
  show "length k = 1"
  proof (cases a)
    case (Lit c)
    then have n: "map_of (children (T ! idx)) [c] = None" using assms(3) by (simp add: step_def)
    have "k = [c] \<or> i < length T \<and> k \<in> fst ` set (children (T ! i))"
      using assms(2,4,5) Lit n k by (auto simp: add_step_def piece_child_def nth_append nth_list_update split: if_splits)
    then show ?thesis using one by auto
  next
    case (Par t)
    have "i < length T \<and> k \<in> fst ` set (children (T ! i))"
      using assms(2,4,5) Par k by (auto simp: add_step_def param_child_def nth_append nth_list_update split: if_splits)
    then show ?thesis using one by blast
  qed
qed

lemma add_step_raw:
  assumes "raw_trie T" "idx < length T" "step T idx a = None" "add_step a idx T = (length T, T')" "length T' = Suc (length T)"
    and s: "\<And>i b. i \<le> length T \<Longrightarrow> step T' i b = (if i = length T then None else if i = idx \<and> b = a then Some (length T) else step T i b)"
  shows "raw_trie T'"
proof (rule raw_steps)
  note ok = rawD(1) [OF assms(1)]
  note keys = add_step_keys [OF assms(1-4)]
  show "T' \<noteq> []" using assms(5) by auto
  show "distinct (map fst (children (T' ! i)))" if "i < length T'" for i using keys(1) that by blast
  show "length k = 1" if "i < length T'" "k \<in> fst ` set (children (T' ! i))" for i k using keys(2) that by blast
  show "i < j \<and> j < length T'" if "i < length T'" "step T' i b = Some j" for i b j
    using that assms(5) s [of i b] step_later [OF ok, of i b j] by (simp split: if_splits)
  fix i b j i' b' assume i: "i < length T'" "i' < length T'" "step T' i b = Some j" "step T' i' b' = Some j"
  have l: "j < length T" if "i < length T" "step T i b = Some j" for i b using step_later [OF ok that] by simp
  have e: "(i = idx \<and> b = a \<and> j = length T) \<or> (i < length T \<and> step T i b = Some j \<and> j < length T)"
    if "i < length T'" "step T' i b = Some j" for i b
    using that assms(5) s [of i b] l [of i b] by (simp split: if_splits)
  show "i = i' \<and> b = b'" using e [OF i(1,3)] e [OF i(2,4)] rawD(3) [OF assms(1), of i i' b j b'] by auto
qed

lemma add_step_extends:
  assumes "raw_trie T" "idx < length T"
  shows "\<exists>j T'. add_step a idx T = (j, T') \<and> extends T T' \<and> step T' idx a = Some j \<and> j < length T'"
proof (cases "step T idx a")
  case (Some j)
  then show ?thesis using add_step_old [OF Some] extends_refl [OF assms(1)] step_later [OF rawD(1) [OF assms(1)] assms(2) Some] by simp
next
  case None
  note ok = rawD(1) [OF assms(1)]
  obtain T' where T': "add_step a idx T = (length T, T')" "length T' = Suc (length T)"
    and s: "\<And>i b. i \<le> length T \<Longrightarrow> step T' i b = (if i = length T then None else if i = idx \<and> b = a then Some (length T) else step T i b)"
    and r: "\<And>i. i \<le> length T \<Longrightarrow> rule_index (T' ! i) = (if i = length T then 0 else rule_index (T ! i))"
    using add_step_new [OF None assms(2) ok] by blast
  have raw_trie': "raw_trie T'" by (rule add_step_raw [OF assms None T' s])
  have mono: "walk T' i p = Some m" if "walk T i p = Some m" "i < length T" for i p m
    using that
  proof (induction p arbitrary: i)
    case (Cons b p)
    then obtain j where j: "step T i b = Some j" "walk T j p = Some m" by (auto split: option.splits)
    then have "step T' i b = Some j" using s [of i b] Cons.prems(2) None by auto
    then show ?case using Cons.IH [OF j(2)] step_later [OF ok Cons.prems(2) j(1)] by simp
  qed simp
  have orig: "walk T i p = Some m \<or> m = length T" if "walk T' i p = Some m" "i < length T" for i p m
    using that
  proof (induction p arbitrary: i)
    case (Cons b p)
    then obtain j where j: "step T' i b = Some j" "walk T' j p = Some m" by (auto split: option.splits)
    show ?case
    proof (cases "j = length T")
      case True
      have "p = []" using j(2) s [of j] True by (cases p) simp_all
      then show ?thesis using j(2) True by simp
    next
      case False
      then have "step T i b = Some j" using j(1) s [of i b] Cons.prems(2) by (simp split: if_splits)
      then show ?thesis using Cons.IH [OF j(2)] step_later [OF ok Cons.prems(2)] by simp
    qed
  qed simp
  have "spells T' i p q = spells T i p q" if i: "i < length T" for i p q
  proof -
    have i': "i < length T'" using i T'(2) by simp
    have l: "m < length T" if "walk T i p = Some m" for m using walk_later [OF ok i that] by simp
    have "(\<exists>m. walk T' i p = Some m \<and> rule_index (T' ! m) = q \<and> q \<noteq> 0) = (\<exists>m. walk T i p = Some m \<and> rule_index (T ! m) = q \<and> q \<noteq> 0)"
    proof (intro iffI; elim exE conjE)
      fix m assume m: "walk T' i p = Some m" "rule_index (T' ! m) = q" "q \<noteq> 0"
      then have "m \<noteq> length T" using r [of m] by auto
      then have w: "walk T i p = Some m" using orig [OF m(1) i] by simp
      then show "\<exists>m. walk T i p = Some m \<and> rule_index (T ! m) = q \<and> q \<noteq> 0" using m r [of m] l [OF w] by simp
    next
      fix m assume m: "walk T i p = Some m" "rule_index (T ! m) = q" "q \<noteq> 0"
      then show "\<exists>m. walk T' i p = Some m \<and> rule_index (T' ! m) = q \<and> q \<noteq> 0"
        using mono [OF m(1) i] r [of m] l [OF m(1)] by simp
    qed
    then show ?thesis unfolding spells_walk [OF raw_trie' i'] spells_walk [OF assms(1) i] .
  qed
  then have "extends T T'" using raw_trie' T'(2) mono by (simp add: extends_def)
  then show ?thesis using T' s [of idx a] assms(2) by auto
qed


lemma add_loop_ok:
  "rule_pat s = Some p \<Longrightarrow> raw_trie T \<Longrightarrow> idx < length T \<Longrightarrow>
     \<exists>j T'. add_loop s idx T = Some (j, T') \<and> extends T T' \<and> walk T' idx p = Some j \<and> j < length T'"
proof (induction s arbitrary: p idx T rule: rule_pat.induct)
  case 1
  then show ?case by (simp add: add_loop.simps extends_refl)
next
  case (2 c cs)
  obtain a n q where a: "p = a # q" "rule_pat (drop n (c # cs)) = Some q" "add_loop (c # cs) idx T = (case add_step a idx T of (j, T) \<Rightarrow> add_loop (drop n (c # cs)) j T)"
    and IH: "\<And>j U. raw_trie U \<Longrightarrow> j < length U \<Longrightarrow> \<exists>m T'. add_loop (drop n (c # cs)) j U = Some (m, T') \<and> extends U T' \<and> walk T' j q = Some m \<and> m < length T'"
  proof (cases "c = CHR ''<''")
    case True
    then obtain t n where t: "tag_at (c # cs) = Some (t, n)" using "2.prems"(1) by (auto split: option.splits)
    then obtain q where q: "p = Par t # q" "rule_pat (drop (length n) (c # cs)) = Some q" using "2.prems"(1) True by auto
    show thesis
    proof (rule that [of "Par t" q "length n"])
      show "add_loop (c # cs) idx T = (case add_step (Par t) idx T of (j, T) \<Rightarrow> add_loop (drop (length n) (c # cs)) j T)"
        using True t by (subst add_loop.simps) (simp add: add_step_def)
      show "\<exists>m T'. add_loop (drop (length n) (c # cs)) j U = Some (m, T') \<and> extends U T' \<and> walk T' j q = Some m \<and> m < length T'"
        if "raw_trie U" "j < length U" for j U using "2.IH"(1) [OF True t refl q(2) that] .
    qed (use q in simp_all)
  next
    case False
    then obtain q where q: "p = Lit c # q" "rule_pat cs = Some q" using "2.prems"(1) by auto
    show thesis
    proof (rule that [of "Lit c" q 1])
      show "add_loop (c # cs) idx T = (case add_step (Lit c) idx T of (j, T) \<Rightarrow> add_loop (drop 1 (c # cs)) j T)"
        using False by (subst add_loop.simps) (simp add: add_step_def)
      show "\<exists>m T'. add_loop (drop 1 (c # cs)) j U = Some (m, T') \<and> extends U T' \<and> walk T' j q = Some m \<and> m < length T'"
        if "raw_trie U" "j < length U" for j U using "2.IH"(2) [OF False q(2) that] by simp
    qed (use q in simp_all)
  qed
  obtain j U where j: "add_step a idx T = (j, U)" "extends T U" "step U idx a = Some j" "j < length U"
    using add_step_extends [OF "2.prems"(2,3), of a] by blast
  have U: "raw_trie U" "idx < length U" using j(2) "2.prems"(3) by (simp_all add: extends_def)
  obtain m T' where m: "add_loop (drop n (c # cs)) j U = Some (m, T')" "extends U T'" "walk T' j q = Some m" "m < length T'"
    using IH [OF U(1) j(4)] by blast
  have "walk U idx [a] = Some j" using j(3) by simp
  then have "walk T' idx [a] = Some j" using m(2) U(2) unfolding extends_def by blast
  then have "walk T' idx p = Some m" using a(1) m(3) by (auto split: option.splits)
  then show ?case using a(3) j(1) m extends_trans [OF j(2) m(2)] by auto
qed

text \<open>On a rule with an unknown tag the loop does not end.\<close>

lemma add_loop_hangs:
  assumes "add_loop s idx T = Some r" shows "rule_pat s \<noteq> None"
proof (rule add_loop.raw_induct [where P = "\<lambda>s idx T r. rule_pat s \<noteq> None", OF _ assms])
  fix f :: "string \<Rightarrow> nat \<Rightarrow> trie \<Rightarrow> (nat \<times> trie) option" and s idx T r
  assume IH: "\<And>s idx T r. f s idx T = Some r \<Longrightarrow> rule_pat s \<noteq> None"
    and r: "(case s of [] \<Rightarrow> Some (idx, T)
      | c # cs \<Rightarrow> if c = CHR ''<'' then
            (case tag_at s of None \<Rightarrow> f s idx T | Some (t, n) \<Rightarrow> (case param_child t idx T of (j, T) \<Rightarrow> f (drop (length n) s) j T))
          else (case piece_child [c] idx T of (j, T) \<Rightarrow> f cs j T)) = Some r"
  show "rule_pat s \<noteq> None"
  proof (cases s)
    case (Cons c cs)
    consider "c = CHR ''<''" "tag_at s = None" | t n where "c = CHR ''<''" "tag_at s = Some (t, n)" | "c \<noteq> CHR ''<''" by fastforce
    then show ?thesis
    proof cases
      case 1
      then have "f s idx T = Some r" using r Cons by simp
      then show ?thesis by (rule IH)
    next
      case 2
      then have "f (drop (length n) s) (fst (param_child t idx T)) (snd (param_child t idx T)) = Some r" using r Cons by (simp split: prod.splits)
      then have "rule_pat (drop (length n) s) \<noteq> None" by (rule IH)
      then show ?thesis using 2 Cons by simp
    next
      case 3
      then have "f cs (fst (piece_child [c] idx T)) (snd (piece_child [c] idx T)) = Some r" using r Cons by (simp split: prod.splits)
      then have "rule_pat cs \<noteq> None" by (rule IH)
      then show ?thesis using 3 Cons by simp
    qed
  qed simp
qed

subsection \<open>The rules of a trie\<close>

definition set_rule :: "nat \<Rightarrow> nat \<Rightarrow> trie \<Rightarrow> trie" where
  "set_rule j r T = T[j := (T ! j)\<lparr>rule_index := r\<rparr>]"

lemma set_rule_step: "j < length T \<Longrightarrow> step (set_rule j r T) = step T"
  by (intro ext) (auto simp: step_def set_rule_def nth_list_update split: pat.splits)

lemma set_rule_walk: "j < length T \<Longrightarrow> walk (set_rule j r T) i p = walk T i p"
  by (induction p arbitrary: i) (auto simp: set_rule_step split: option.splits)

lemma set_rule_raw: "raw_trie T \<Longrightarrow> j < length T \<Longrightarrow> raw_trie (set_rule j r T)"
proof -
  assume a: "raw_trie T" "j < length T"
  have c: "children (set_rule j r T ! i) = children (T ! i)" "param_childrens (set_rule j r T ! i) = param_childrens (T ! i)" for i
    using a(2) by (auto simp: set_rule_def nth_list_update)
  have "node_ok n i (set_rule j r T ! i) = node_ok n i (T ! i)" for n i by (simp add: node_ok_def c)
  moreover have "length (set_rule j r T) = length T" by (simp add: set_rule_def)
  ultimately show ?thesis using a unfolding raw_trie_def trie_ok_def set_rule_step [OF a(2)] c by (metis length_0_conv)
qed

theorem trie_add_ok:
  assumes "raw_trie T" "rule_pat url = Some p" "r \<noteq> 0"
  shows "if \<exists>q. spells T 0 p q then trie_add url r T = Some (Throw (Handler_exists url))
     else \<exists>T'. trie_add url r T = Some (Return T') \<and> raw_trie T' \<and> (\<forall>p' q. spells T' 0 p' q \<longleftrightarrow> spells T 0 p' q \<or> p' = p \<and> q = r)"
proof -
  have z: "0 < length T" using rawD(1) [OF assms(1)] by (simp add: trie_ok_def)
  obtain j U where j: "add_loop url 0 T = Some (j, U)" "extends T U" "walk U 0 p = Some j" "j < length U"
    using add_loop_ok [OF assms(2,1) z] by blast
  have U: "raw_trie U" "0 < length U" "\<And>p q. spells U 0 p q = spells T 0 p q" using j(2,4) z by (auto simp: extends_def)
  have h: "(\<exists>q. spells T 0 p q) \<longleftrightarrow> rule_index (U ! j) \<noteq> 0"
    unfolding U(3) [symmetric] spells_walk [OF U(1,2)] using j(3) by auto
  let ?V = "set_rule j r U"
  have V: "raw_trie ?V" "0 < length ?V" by (rule set_rule_raw [OF U(1) j(4)]) (use U(2) in \<open>simp add: set_rule_def\<close>)
  have "spells ?V 0 p' q \<longleftrightarrow> spells T 0 p' q \<or> p' = p \<and> q = r" if n: "rule_index (U ! j) = 0" for p' q
  proof -
    have m: "rule_index (?V ! m) = (if m = j then r else rule_index (U ! m))" for m using j(4) by (simp add: set_rule_def nth_list_update)
    have same: "walk U 0 p' = Some j \<longleftrightarrow> p' = p" using walk_same [OF U(1)] j(3) by blast
    show ?thesis
      unfolding U(3) [symmetric] spells_walk [OF V] spells_walk [OF U(1,2)] set_rule_walk [OF j(4)] m
      using same n assms(3) j(3) by auto
  qed
  then show ?thesis using h j(1) V(1) by (auto simp: trie_add_def set_rule_def)
qed

lemma new_trie_raw: "raw_trie new_trie" "\<not> spells new_trie 0 p r"
proof -
  show "raw_trie new_trie" by (rule raw_steps) (auto simp: new_trie_def step_def split: pat.splits)
  then have "spells new_trie 0 p r \<longleftrightarrow> (\<exists>m. walk new_trie 0 p = Some m \<and> rule_index (new_trie ! m) = r \<and> r \<noteq> 0)"
    by (rule spells_walk) (simp add: new_trie_def)
  then show "\<not> spells new_trie 0 p r" by (cases p) (auto simp: new_trie_def step_def split: pat.splits)
qed

subsection \<open>The head\<close>

lemma add_step_below: "add_step a idx T = (j, T') \<Longrightarrow> i < idx \<Longrightarrow> idx < length T \<Longrightarrow> T' ! i = T ! i"
  by (auto simp: add_step_def piece_child_def param_child_def nth_append split: pat.splits option.splits if_splits)

lemma add_loop_below:
  assumes "add_loop s idx T = Some r" shows "raw_trie T \<longrightarrow> idx < length T \<longrightarrow> (\<forall>i<idx. snd r ! i = T ! i)"
proof (rule add_loop.raw_induct [where P = "\<lambda>s idx T r. raw_trie T \<longrightarrow> idx < length T \<longrightarrow> (\<forall>i<idx. snd r ! i = T ! i)", OF _ assms])
  fix f :: "string \<Rightarrow> nat \<Rightarrow> trie \<Rightarrow> (nat \<times> trie) option" and s idx T r
  assume IH: "\<And>s idx T r. f s idx T = Some r \<Longrightarrow> raw_trie T \<longrightarrow> idx < length T \<longrightarrow> (\<forall>i<idx. snd r ! i = T ! i)"
    and r: "(case s of [] \<Rightarrow> Some (idx, T)
      | c # cs \<Rightarrow> if c = CHR ''<'' then
            (case tag_at s of None \<Rightarrow> f s idx T | Some (t, n) \<Rightarrow> (case param_child t idx T of (j, T) \<Rightarrow> f (drop (length n) s) j T))
          else (case piece_child [c] idx T of (j, T) \<Rightarrow> f cs j T)) = Some r"
  have go: "\<forall>i<idx. snd r ! i = T ! i" if g: "(case add_step a idx T of (j, T) \<Rightarrow> f q j T) = Some r" "raw_trie T" "idx < length T" for a q
  proof -
    obtain j U where j: "add_step a idx T = (j, U)" "extends T U" "step U idx a = Some j" "j < length U"
      using add_step_extends [OF g(2,3), of a] by blast
    have U: "raw_trie U" "idx < length U" using j(2) g(3) by (auto simp: extends_def)
    have "idx < j" using step_later [OF rawD(1) [OF U(1)] U(2) j(3)] by simp
    then show ?thesis using IH [of q j U r] g j U(1) add_step_below [OF j(1)] by auto
  qed
  show "raw_trie T \<longrightarrow> idx < length T \<longrightarrow> (\<forall>i<idx. snd r ! i = T ! i)"
  proof (cases s)
    case (Cons c cs)
    consider "c = CHR ''<''" "tag_at s = None" | t n where "c = CHR ''<''" "tag_at s = Some (t, n)" | "c \<noteq> CHR ''<''" by fastforce
    then show ?thesis
    proof cases
      case 1
      then show ?thesis using r Cons IH [of s idx T r] by simp
    next
      case 2
      then show ?thesis using r Cons go [where a = "Par t" and q = "drop (length n) s"] by (simp add: add_step_def)
    next
      case 3
      then show ?thesis using r Cons go [where a = "Lit c" and q = cs] by (simp add: add_step_def)
    qed
  qed (use r in auto)
qed

lemma trie_add_head:
  assumes "trie_add (c # cs) r T = Some (Return T')" "raw_trie T" "c \<noteq> CHR ''<''"
  shows "is_simple_node (T' ! 0) = is_simple_node (T ! 0)"
proof -
  have z: "0 < length T" using rawD(1) [OF assms(2)] by (simp add: trie_ok_def)
  obtain j U where j: "add_step (Lit c) 0 T = (j, U)" "extends T U" "step U 0 (Lit c) = Some j" "j < length U"
    using add_step_extends [OF assms(2) z] by blast
  have U: "raw_trie U" "0 < length U" using j(2) z by (auto simp: extends_def)
  have j0: "0 < j" using step_later [OF rawD(1) [OF U(1)] U(2) j(3)] by simp
  obtain m V where m: "add_loop cs j U = Some (m, V)" "T' = set_rule m r V"
    using assms(1,3) j(1) by (subst (asm) trie_add_def, subst (asm) add_loop.simps)
      (auto simp: add_step_def set_rule_def split: option.splits if_splits prod.splits bind_splits)
  have V: "V ! 0 = U ! 0" using add_loop_below [OF m(1)] U(1) j(4) j0 by simp
  obtain p where "rule_pat cs = Some p" using add_loop_hangs [OF m(1)] by auto
  then have "extends U V \<and> walk V j p = Some m" using add_loop_ok [of cs p U j] U(1) j(4) m(1) by auto
  then have ext: "extends U V" "walk V j p = Some m" by blast+
  then have "raw_trie V" "j < length V" using j(4) by (auto simp: extends_def)
  then have "m \<noteq> 0" using walk_later [OF rawD(1) _ ext(2)] j0 by fastforce
  then have "T' ! 0 = U ! 0" using m(2) V by (simp add: set_rule_def)
  moreover have "is_simple_node (U ! 0) = is_simple_node (T ! 0)"
    using j(1) z by (auto simp: add_step_def piece_child_def is_simple_node_def nth_append split: option.splits)
  ultimately show ?thesis by simp
qed

end
