(* ===== verification/Crow_Message.thy ===== *)
theory Crow_Message
  imports Outcome_Ops
begin

section \<open>Requests and responses (http_request.h, http_response.h, ci_map.h, common.h of lib/crow)\<close>

text \<open>
  A \<open>ci_map\<close> is a list of headers in the order in which the map is walked; keys are compared without case.
  \<open>'j\<close> is the type of the JSON value of a response.
\<close>

datatype HTTPMethod = M_DELETE | M_GET | M_HEAD | M_POST | M_PUT | M_CONNECT | M_OPTIONS | M_TRACE

fun method_no :: "HTTPMethod \<Rightarrow> nat" where
  "method_no M_DELETE = 0" | "method_no M_GET = 1" | "method_no M_HEAD = 2" | "method_no M_POST = 3"
| "method_no M_PUT = 4" | "method_no M_CONNECT = 5" | "method_no M_OPTIONS = 6" | "method_no M_TRACE = 7"

fun method_name :: "HTTPMethod \<Rightarrow> string" where
  "method_name M_DELETE = ''DELETE''" | "method_name M_GET = ''GET''" | "method_name M_HEAD = ''HEAD''"
| "method_name M_POST = ''POST''" | "method_name M_PUT = ''PUT''" | "method_name M_CONNECT = ''CONNECT''"
| "method_name M_OPTIONS = ''OPTIONS''" | "method_name M_TRACE = ''TRACE''"

text \<open>\<open>is_equ_p\<close> on text that ends with a zero byte.\<close>

fun is_equ_p :: "string \<Rightarrow> string \<Rightarrow> nat \<Rightarrow> bool" where
  "is_equ_p [] [] 0 = True"
| "is_equ_p (a # s) (b # t) 0 = True"
| "is_equ_p (a # s) (b # t) (Suc n) = (a = b \<and> is_equ_p s t n)"
| "is_equ_p _ _ _ = False"

text \<open>The suffix \<open>_method\<close>; \<open>None\<close> where it throws.\<close>

definition method_literal :: "string \<Rightarrow> HTTPMethod option" where
  "method_literal s =
     (if is_equ_p s ''GET'' 3 then Some M_GET else if is_equ_p s ''DELETE'' 6 then Some M_DELETE
      else if is_equ_p s ''HEAD'' 4 then Some M_HEAD else if is_equ_p s ''POST'' 4 then Some M_POST
      else if is_equ_p s ''PUT'' 3 then Some M_PUT else if is_equ_p s ''OPTIONS'' 7 then Some M_OPTIONS
      else if is_equ_p s ''CONNECT'' 7 then Some M_CONNECT else if is_equ_p s ''TRACE'' 5 then Some M_TRACE else None)"

lemma method_literal_name: "method_literal (method_name m) = Some m"
  by (cases m) (simp_all add: method_literal_def numeral_eq_Suc)

lemma method_no_inject [simp]: "method_no a = method_no b \<longleftrightarrow> a = b"
  by (cases a; cases b) simp_all

lemma method_no_bound: "method_no m < 8"
  by (cases m) simp_all

subsection \<open>Headers\<close>

definition upper :: "char \<Rightarrow> char" where
  "upper c = (let n = of_char c :: nat in if 97 \<le> n \<and> n \<le> 122 then char_of (n - 32) else c)"

definition iequals :: "string \<Rightarrow> string \<Rightarrow> bool" where
  "iequals a b \<longleftrightarrow> map upper a = map upper b"

type_synonym ci_map = "(string \<times> string) list"

definition header_count :: "string \<Rightarrow> ci_map \<Rightarrow> nat" where
  "header_count k hs = length (filter (\<lambda>h. iequals (fst h) k) hs)"

definition get_header_value :: "ci_map \<Rightarrow> string \<Rightarrow> string" where
  "get_header_value hs k = (case find (\<lambda>h. iequals (fst h) k) hs of None \<Rightarrow> [] | Some (_, v) \<Rightarrow> v)"

record crow_request =
  req_method :: nat
  raw_url :: string
  req_url :: string
  req_headers :: ci_map
  req_body :: string

record 'j response =
  res_code :: int
  res_body :: string
  json_value :: "'j option"
  res_headers :: ci_map
  completed :: bool

definition response_code :: "int \<Rightarrow> 'j response" where
  "response_code c = \<lparr>res_code = c, res_body = [], json_value = None, res_headers = [], completed = False\<rparr>"

definition set_header :: "string \<Rightarrow> string \<Rightarrow> 'j response \<Rightarrow> 'j response" where
  "set_header k v r = r\<lparr>res_headers := filter (\<lambda>h. \<not> iequals (fst h) k) (res_headers r) @ [(k, v)]\<rparr>"

definition add_header :: "string \<Rightarrow> string \<Rightarrow> 'j response \<Rightarrow> 'j response" where
  "add_header k v r = r\<lparr>res_headers := res_headers r @ [(k, v)]\<rparr>"

definition response_text :: "string \<Rightarrow> 'j response" where
  "response_text b = (response_code 200)\<lparr>res_body := b\<rparr>"

definition response_json :: "'j \<Rightarrow> 'j response" where
  "response_json j = set_header ''Content-Type'' ''application/json'' ((response_code 200)\<lparr>json_value := Some j\<rparr>)"

definition response_redirect :: "string \<Rightarrow> 'j response \<Rightarrow> 'j response" where
  "response_redirect loc r = set_header ''Location'' loc (r\<lparr>res_code := 301\<rparr>)"

definition response_clear :: "'j response \<Rightarrow> 'j response" where
  "response_clear r = (response_code 200)"

definition response_code_text :: "int \<Rightarrow> string \<Rightarrow> 'j response" where
  "response_code_text c b = (response_code c)\<lparr>res_body := b\<rparr>"

definition response_write :: "string \<Rightarrow> 'j response \<Rightarrow> 'j response" where
  "response_write b r = r\<lparr>res_body := res_body r @ b\<rparr>"

text \<open>The first \<open>end\<close> also calls the function of the connection, if one is set.\<close>

definition response_end :: "'j response \<Rightarrow> 'j response" where
  "response_end r = r\<lparr>completed := True\<rparr>"

definition response_end_text :: "string \<Rightarrow> 'j response \<Rightarrow> 'j response" where
  "response_end_text b r = response_end (response_write b r)"

lemma iequals_refl [simp]: "iequals a a"
  by (simp add: iequals_def)

lemma set_header_value:
  "get_header_value (res_headers (set_header k v r)) k = v"
  "\<not> iequals k k' \<Longrightarrow> get_header_value (res_headers (set_header k v r)) k' = get_header_value (res_headers r) k'"
  "header_count k (res_headers (set_header k v r)) = 1"
proof -
  have n: "find (\<lambda>h. iequals (fst h) k) (filter (\<lambda>h. \<not> iequals (fst h) k) hs) = None" for hs by (auto simp: find_None_iff)
  have a: "find P (xs @ ys) = (case find P xs of None \<Rightarrow> find P ys | Some x \<Rightarrow> Some x)" for P and xs ys :: "'x list" by (induction xs) auto
  show "get_header_value (res_headers (set_header k v r)) k = v" by (simp add: get_header_value_def set_header_def a n)
  have f: "find (\<lambda>h. iequals (fst h) k') (filter (\<lambda>h. \<not> iequals (fst h) k) hs) = find (\<lambda>h. iequals (fst h) k') hs" if "\<not> iequals k k'" for hs
    using that by (induction hs) (auto simp: iequals_def)
  show "get_header_value (res_headers (set_header k v r)) k' = get_header_value (res_headers r) k'" if k: "\<not> iequals k k'"
    using k by (simp add: get_header_value_def set_header_def a f [OF k] split: option.split)
  show "header_count k (res_headers (set_header k v r)) = 1" by (simp add: header_count_def set_header_def)
qed

end
