(* ===== verification/Crow_Router.thy ===== *)
theory Crow_Router
  imports Crow_Add Crow_Message
begin

section \<open>The router (routing.h of lib/crow)\<close>

text \<open>
  The rules of an application and the trie that finds them. Rules 0 and 1 stand for none and for a redirect to
  the URL with a slash at the end. A handler is an operation on the state of the application; what it throws is
  answered with 500.
\<close>

type_synonym ('s, 'e, 'd, 'j) handler = "crow_request \<Rightarrow> 'd arg list \<Rightarrow> ('s, 'e, 'j response) op"

record ('s, 'e, 'd, 'j) rule =
  rule_url :: string
  rule_name :: string
  rule_methods :: u32
  rule_types :: "ParamType list"
  rule_handler :: "('s, 'e, 'd, 'j) handler option"

text \<open>The constructor of a rule, with the types that its tags stand for, and its methods.\<close>

definition default_methods :: u32 where
  "default_methods = push_bit (method_no M_GET) 1"

definition new_rule :: "string \<Rightarrow> ParamType list \<Rightarrow> ('s, 'e, 'd, 'j) rule" where
  "new_rule url ts = \<lparr>rule_url = url, rule_name = [], rule_methods = default_methods, rule_types = ts, rule_handler = None\<rparr>"

fun methods_mask :: "HTTPMethod list \<Rightarrow> u32" where
  "methods_mask [] = default_methods"
| "methods_mask [m] = push_bit (method_no m) 1"
| "methods_mask (m # ms) = or (methods_mask ms) (push_bit (method_no m) 1)"

definition rule_set_methods :: "HTTPMethod list \<Rightarrow> ('s, 'e, 'd, 'j) rule \<Rightarrow> ('s, 'e, 'd, 'j) rule" where
  "rule_set_methods ms r = r\<lparr>rule_methods := methods_mask ms\<rparr>"

definition rule_set_handler :: "('s, 'e, 'd, 'j) handler \<Rightarrow> ('s, 'e, 'd, 'j) rule \<Rightarrow> ('s, 'e, 'd, 'j) rule" where
  "rule_set_handler h r = r\<lparr>rule_handler := Some h\<rparr>"

subsection \<open>The arguments of a handler\<close>

text \<open>\<open>call\<close>: a parameter is the next of its kind; \<open>None\<close> is an index behind the end of a vector.\<close>

definition at :: "'x list \<Rightarrow> nat \<Rightarrow> 'x option" where
  "at xs i = (if i < length xs then Some (xs ! i) else None)"

fun call_args :: "ParamType list \<Rightarrow> nat \<times> nat \<times> nat \<times> nat \<Rightarrow> 'd routing_params \<Rightarrow> 'd arg list option" where
  "call_args [] n ps = Some []"
| "call_args (t # ts) (i, u, d, s) ps =
     (case (case t of
              P_INT \<Rightarrow> map_option (\<lambda>v. (A_int v, i + 1, u, d, s)) (at (int_params ps) i)
            | P_UINT \<Rightarrow> map_option (\<lambda>v. (A_uint v, i, u + 1, d, s)) (at (uint_params ps) u)
            | P_DOUBLE \<Rightarrow> map_option (\<lambda>v. (A_double v, i, u, d + 1, s)) (at (double_params ps) d)
            | P_STRING \<Rightarrow> map_option (\<lambda>v. (A_string v, i, u, d, s + 1)) (at (string_params ps) s)
            | P_PATH \<Rightarrow> map_option (\<lambda>v. (A_string v, i, u, d, s + 1)) (at (string_params ps) s)) of
        None \<Rightarrow> None
      | Some (a, n) \<Rightarrow> map_option ((#) a) (call_args ts n ps))"

subsection \<open>Adding rules\<close>

definition RULE_SPECIAL_REDIRECT_SLASH :: nat where
  "RULE_SPECIAL_REDIRECT_SLASH = 1"

record ('s, 'e, 'd, 'j) router =
  rules :: "('s, 'e, 'd, 'j) rule option list"
  rtrie :: trie

definition new_router :: "('s, 'e, 'd, 'j) router" where
  "new_router = \<lparr>rules = [None, None], rtrie = new_trie\<rparr>"

definition slashed :: "string \<Rightarrow> bool" where
  "slashed url \<longleftrightarrow> 1 < length url \<and> last url = CHR ''/''"

definition internal_add_rule_object :: "('s, 'e, 'd, 'j) rule \<Rightarrow> ('s, 'e, 'd, 'j) router \<Rightarrow> (crow_error, ('s, 'e, 'd, 'j) router) outcome option" where
  "internal_add_rule_object r R =
     (case trie_add (rule_url r) (length (rules R @ [Some r]) - 1) (rtrie R) of
        None \<Rightarrow> None
      | Some (Throw e) \<Rightarrow> Some (Throw e)
      | Some (Return T) \<Rightarrow>
          if slashed (rule_url r)
          then (case trie_add (butlast (rule_url r)) RULE_SPECIAL_REDIRECT_SLASH T of
                  None \<Rightarrow> None
                | Some (Throw e) \<Rightarrow> Some (Throw e)
                | Some (Return T) \<Rightarrow> Some (Return \<lparr>rules = rules R @ [Some r], rtrie = T\<rparr>))
          else Some (Return \<lparr>rules = rules R @ [Some r], rtrie = T\<rparr>))"

fun add_rules :: "('s, 'e, 'd, 'j) rule list \<Rightarrow> ('s, 'e, 'd, 'j) router \<Rightarrow> (crow_error, ('s, 'e, 'd, 'j) router) outcome option" where
  "add_rules [] R = Some (Return R)"
| "add_rules (r # rs) R =
     (case internal_add_rule_object r R of
        None \<Rightarrow> None
      | Some (Throw e) \<Rightarrow> Some (Throw e)
      | Some (Return R) \<Rightarrow> add_rules rs R)"

definition rule_validate :: "('s, 'e, 'd, 'j) rule \<Rightarrow> crow_error option" where
  "rule_validate r =
     (case rule_handler r of
        None \<Rightarrow> Some (No_handler (rule_name r @ (if rule_name r \<noteq> [] then '': '' else []) @ ''no handler for url '' @ rule_url r))
      | Some _ \<Rightarrow> None)"

definition router_validate :: "('s, 'e, 'd, 'j) router \<Rightarrow> (crow_error, ('s, 'e, 'd, 'j) router) outcome option" where
  "router_validate R =
     (case trie_validate (rtrie R) of
        None \<Rightarrow> None
      | Some (Throw e) \<Rightarrow> Some (Throw e)
      | Some (Return T) \<Rightarrow>
          (case List.map_filter (\<lambda>r. Option.bind r rule_validate) (rules R) of
             e # _ \<Rightarrow> Some (Throw e)
           | [] \<Rightarrow> Some (Return (R\<lparr>rtrie := T\<rparr>))))"

subsection \<open>Handling a request\<close>

definition response_ended :: "int \<Rightarrow> 'j response" where
  "response_ended c = response_end (response_code c)"

definition redirect_response :: "crow_request \<Rightarrow> 'j response" where
  "redirect_response q =
     (let host = get_header_value (req_headers q) ''Host''
      in response_end (add_header ''Location'' (if host = [] then req_url q @ ''/'' else ''http://'' @ host @ req_url q @ ''/'') (response_code 301)))"

text \<open>\<open>err\<close> makes the exceptions of the router itself. An empty function that is called throws.\<close>

definition rule_handle :: "(crow_error \<Rightarrow> 'e) \<Rightarrow> ('s, 'e, 'd, 'j) rule \<Rightarrow> crow_request \<Rightarrow> 'd routing_params \<Rightarrow> ('s, 'e, 'j response) op" where
  "rule_handle err r q ps s =
     (case call_args (rule_types r) (0, 0, 0, 0) ps of
        None \<Rightarrow> None
      | Some args \<Rightarrow>
          (case rule_handler r of
             None \<Rightarrow> throw (err Bad_function_call) s
           | Some h \<Rightarrow> bnd (h q args) (\<lambda>res. ret (response_end res)) s))"

definition router_handle :: "(crow_error \<Rightarrow> 'e) \<Rightarrow> 'd strtod \<Rightarrow> ('s, 'e, 'd, 'j) router \<Rightarrow> crow_request \<Rightarrow> ('s, 'e, 'j response) op" where
  "router_handle err sd R q s =
     (case trie_find sd (rtrie R) (req_url q) of
        None \<Rightarrow> None
      | Some (i, ps) \<Rightarrow>
          if i = 0 then ret (response_ended 404) s
          else if length (rules R) \<le> i then throw (err Trie_corrupted) s
          else if i = RULE_SPECIAL_REDIRECT_SLASH then ret (redirect_response q) s
          else (case rules R ! i of
                  None \<Rightarrow> None
                | Some r \<Rightarrow>
                    if and (rule_methods r) (push_bit (req_method q) 1) = 0 then ret (response_ended 404) s
                    else catch (rule_handle err r q ps) (\<lambda>_. ret (response_ended 500)) s))"

text \<open>Requests to upgrade the connection; no rule here is one of a web socket.\<close>

definition router_handle_upgrade :: "(crow_error \<Rightarrow> 'e) \<Rightarrow> 'd strtod \<Rightarrow> ('s, 'e, 'd, 'j) router \<Rightarrow> crow_request \<Rightarrow> ('s, 'e, 'j response) op" where
  "router_handle_upgrade err sd R q s =
     (case trie_find sd (rtrie R) (req_url q) of
        None \<Rightarrow> None
      | Some (i, ps) \<Rightarrow>
          if i = 0 then ret (response_ended 404) s
          else if length (rules R) \<le> i then throw (err Trie_corrupted) s
          else if i = RULE_SPECIAL_REDIRECT_SLASH then ret (redirect_response q) s
          else ret (response_ended 404) s)"

end
