(* ===== verification/Crow_Routes.thy ===== *)
theory Crow_Routes
  imports Crow_Router
begin

section \<open>The router finds the first rule that matches\<close>

subsection \<open>A rule with a slash at the end\<close>

lemma tag_name_slash: "(t, n) \<in> set param_traits \<Longrightarrow> CHR ''/'' \<notin> set n"
  by (auto simp: param_traits_def)

lemma begins_slash: "CHR ''/'' \<notin> set n \<Longrightarrow> begins n (s @ ''/'') \<longleftrightarrow> begins n s"
proof
  assume n: "CHR ''/'' \<notin> set n" and "begins n (s @ ''/'')"
  then obtain q where q: "s @ ''/'' = n @ q" by (auto simp: begins_iff)
  show "begins n s"
  proof (cases q rule: rev_cases)
    case Nil
    then show ?thesis using q n by (metis append_Nil2 in_set_conv_decomp)
  next
    case (snoc q' c)
    then have "s = n @ q'" using q by simp
    then show ?thesis by (auto simp: begins_iff)
  qed
next
  assume "begins n s"
  then show "begins n (s @ ''/'')" by (auto simp: begins_iff)
qed

lemma tag_at_slash: "tag_at (s @ ''/'') = tag_at s"
  unfolding tag_at_def by (rule find_cong) (auto simp: begins_slash dest: tag_name_slash)

lemma rule_pat_slash: "rule_pat (s @ ''/'') = map_option (\<lambda>p. p @ [Lit CHR ''/'']) (rule_pat s)"
proof (induction s rule: rule_pat.induct)
  case (2 c cs)
  show ?case
  proof (cases "c = CHR ''<''")
    case True
    have t: "tag_at (c # cs @ ''/'') = tag_at (c # cs)" using tag_at_slash [of "c # cs"] by simp
    show ?thesis
    proof (cases "tag_at (c # cs)")
      case (Some tn)
      obtain t n where tn: "tn = (t, n)" by force
      have "begins n (c # cs)" using tag_atD [of "c # cs" t n] Some tn by simp
      then have "length n \<le> length (c # cs)" by (auto simp: begins_iff dest: arg_cong [of _ _ length])
      then have "drop (length n) ((c # cs) @ ''/'') = drop (length n) (c # cs) @ ''/''" by (simp only: drop_append) simp
      then show ?thesis using "2.IH"(1) [OF True Some tn [symmetric]] t Some tn True
        by (simp add: option.map_comp comp_def)
    qed (use t True in simp)
  qed (use "2.IH"(2) in \<open>simp add: option.map_comp comp_def\<close>)
qed simp

lemma slashed_split: "slashed u \<Longrightarrow> butlast u @ ''/'' = u"
  by (metis append_butlast_last_id length_0_conv not_one_less_zero slashed_def)

lemma butlast_parses: "slashed u \<Longrightarrow> rule_pat u \<noteq> None \<Longrightarrow> rule_pat (butlast u) \<noteq> None"
  using rule_pat_slash [of "butlast u"] slashed_split [of u] by auto

subsection \<open>The rules of a router\<close>

fun entries :: "nat \<Rightarrow> string list \<Rightarrow> (pat list \<times> nat) list" where
  "entries i [] = []"
| "entries i (u # us) =
     (the (rule_pat u), i) # (if slashed u then [(the (rule_pat (butlast u)), 1)] else []) @ entries (Suc i) us"

definition router_has :: "('s, 'e, 'd, 'j) router \<Rightarrow> (pat list \<times> nat) list \<Rightarrow> bool" where
  "router_has R es \<longleftrightarrow> raw_trie (rtrie R) \<and> 2 \<le> length (rules R) \<and> (\<forall>p q. spells (rtrie R) 0 p q \<longleftrightarrow> (p, q) \<in> set es)"

lemma new_router_has: "router_has new_router []"
  by (simp add: router_has_def new_router_def new_trie_raw)

lemma internal_add_ok:
  assumes R: "router_has R es" and p: "rule_pat (rule_url r) \<noteq> None"
  defines "new \<equiv> entries (length (rules R)) [rule_url r]"
  shows "if distinct (map fst new) \<and> (\<forall>e\<in>set new. fst e \<notin> fst ` set es)
     then \<exists>R'. internal_add_rule_object r R = Some (Return R') \<and> router_has R' (es @ new) \<and> rules R' = rules R @ [Some r]
     else \<exists>u. internal_add_rule_object r R = Some (Throw (Handler_exists u))"
proof -
  let ?u = "rule_url r" and ?n = "length (rules R)"
  obtain p' where p': "rule_pat ?u = Some p'" using p by auto
  have raw_trie: "raw_trie (rtrie R)" and n: "?n \<noteq> 0" "2 \<le> ?n" and s: "\<And>p q. spells (rtrie R) 0 p q \<longleftrightarrow> (p, q) \<in> set es"
    using R by (auto simp: router_has_def)
  have ex: "(\<exists>q. spells (rtrie R) 0 p q) \<longleftrightarrow> p \<in> fst ` set es" for p by (force simp: s)
  note add = trie_add_ok [OF raw_trie p' n(1)]
  show ?thesis
  proof (cases "p' \<in> fst ` set es")
    case True
    then have "trie_add ?u ?n (rtrie R) = Some (Throw (Handler_exists ?u))" using add ex by simp
    then show ?thesis using True p' by (auto simp: internal_add_rule_object_def new_def)
  next
    case False
    then obtain T where T: "trie_add ?u ?n (rtrie R) = Some (Return T)" "raw_trie T" "\<And>q' q. spells T 0 q' q \<longleftrightarrow> spells (rtrie R) 0 q' q \<or> q' = p' \<and> q = ?n"
      using add ex by auto
    show ?thesis
    proof (cases "slashed ?u")
      case ns: False
      then show ?thesis using T p' False n(2) s by (auto simp: internal_add_rule_object_def new_def router_has_def)
    next
      case sl: True
      obtain b where b: "rule_pat (butlast ?u) = Some b" using butlast_parses [OF sl p] by auto
      note add2 = trie_add_ok [OF T(2) b, of 1]
      have ex2: "(\<exists>q. spells T 0 b q) \<longleftrightarrow> b \<in> fst ` set es \<or> b = p'" using ex by (auto simp: T(3))
      show ?thesis
      proof (cases "b \<in> fst ` set es \<or> b = p'")
        case True
        then have "trie_add (butlast ?u) 1 T = Some (Throw (Handler_exists (butlast ?u)))" using add2 ex2 by simp
        then show ?thesis using True T(1) sl p' b by (auto simp: internal_add_rule_object_def new_def RULE_SPECIAL_REDIRECT_SLASH_def)
      next
        case nb: False
        then obtain T' where T': "trie_add (butlast ?u) 1 T = Some (Return T')" "raw_trie T'" "\<And>q' q. spells T' 0 q' q \<longleftrightarrow> spells T 0 q' q \<or> q' = b \<and> q = 1"
          using add2 ex2 by auto
        show ?thesis using T T' sl p' b False nb n(2) s
          by (auto simp: internal_add_rule_object_def new_def router_has_def RULE_SPECIAL_REDIRECT_SLASH_def)
      qed
    qed
  qed
qed

lemma entries_append: "entries i (us @ vs) = entries i us @ entries (i + length us) vs"
  by (induction us arbitrary: i) auto

lemma disjoint_fst: "\<forall>e\<in>b. fst e \<notin> fst ` a \<Longrightarrow> fst ` a \<inter> fst ` b = {}"
proof (intro equals0I)
  fix x assume a: "\<forall>e\<in>b. fst e \<notin> fst ` a" and x: "x \<in> fst ` a \<inter> fst ` b"
  from x obtain e where "e \<in> b" "x = fst e" by (elim IntE imageE)
  then show False using a x by simp
qed

theorem add_rules_ok:
  assumes "router_has R es" "\<And>r. r \<in> set rs \<Longrightarrow> rule_pat (rule_url r) \<noteq> None" "distinct (map fst es)"
  defines "new \<equiv> entries (length (rules R)) (map rule_url rs)"
  shows "if distinct (map fst (es @ new))
     then \<exists>R'. add_rules rs R = Some (Return R') \<and> router_has R' (es @ new) \<and> rules R' = rules R @ map Some rs
     else \<exists>u. add_rules rs R = Some (Throw (Handler_exists u))"
  using assms(1-3) unfolding new_def
proof (induction rs arbitrary: R es)
  case (Cons r rs)
  let ?e = "entries (length (rules R)) [rule_url r]" and ?f = "entries (Suc (length (rules R))) (map rule_url rs)"
  have e: "entries (length (rules R)) (map rule_url (r # rs)) = ?e @ ?f"
    using entries_append [of "length (rules R)" "[rule_url r]" "map rule_url rs"] by simp
  note a = internal_add_ok [OF Cons.prems(1), of r]
  show ?case
  proof (cases "distinct (map fst ?e) \<and> (\<forall>e\<in>set ?e. fst e \<notin> fst ` set es)")
    case True
    then obtain R1 where R1: "internal_add_rule_object r R = Some (Return R1)" "router_has R1 (es @ ?e)" "rules R1 = rules R @ [Some r]"
      using a Cons.prems(2) by auto
    have "fst ` set es \<inter> fst ` set ?e = {}" by (rule disjoint_fst [OF conjunct2 [OF True]])
    then have d: "distinct (map fst (es @ ?e))" using True Cons.prems(3) by (simp only: map_append distinct_append set_map simp_thms)
    have p: "rule_pat (rule_url x) \<noteq> None" if "x \<in> set rs" for x using Cons.prems(2) that by simp
    have len: "length (rules R1) = Suc (length (rules R))" by (simp add: R1(3))
    have f: "add_rules (r # rs) R = add_rules rs R1" "rules R1 @ map Some rs = rules R @ map Some (r # rs)" by (simp_all add: R1(1,3))
    show ?thesis using Cons.IH [OF R1(2) p d] unfolding e f len append_assoc .
  next
    case False
    then have "\<not> distinct (map fst (es @ ?e))" by (auto simp del: entries.simps)
    then have "\<not> distinct (map fst (es @ ?e @ ?f))" by (auto simp del: entries.simps)
    moreover obtain u where "internal_add_rule_object r R = Some (Throw (Handler_exists u))"
      using a Cons.prems(2) False by (auto simp del: entries.simps)
    ultimately show ?thesis unfolding e by (simp del: entries.simps)
  qed
qed simp

subsection \<open>The reference: the first rule in the list\<close>

fun first_match :: "'d strtod \<Rightarrow> nat \<Rightarrow> string list \<Rightarrow> string \<Rightarrow> (nat \<times> 'd routing_params) option" where
  "first_match sd i [] url = None"
| "first_match sd i (u # us) url =
     (case pat_matches sd (the (rule_pat u)) url no_params of Some ps \<Rightarrow> Some (i, ps) | None \<Rightarrow> first_match sd (Suc i) us url)"

definition redirects :: "'d strtod \<Rightarrow> string list \<Rightarrow> string \<Rightarrow> bool" where
  "redirects sd us url \<longleftrightarrow> list_ex (\<lambda>u. slashed u \<and> pat_matches sd (the (rule_pat (butlast u))) url no_params \<noteq> None) us"

lemma first_match_entry:
  "first_match sd i us url = Some (j, ps) \<Longrightarrow> \<exists>p. (p, j) \<in> set (entries i us) \<and> pat_matches sd p url no_params = Some ps \<and> i \<le> j \<and> j < i + length us"
  by (induction sd i us url rule: first_match.induct) (force split: option.splits)+

lemma first_match_least:
  "(p, j) \<in> set (entries i us) \<Longrightarrow> pat_matches sd p url no_params \<noteq> None \<Longrightarrow> 1 < j \<Longrightarrow> \<exists>k ps. first_match sd i us url = Some (k, ps) \<and> k \<le> j"
proof (induction us arbitrary: i)
  case (Cons u us)
  have le: "k < j" if "(p, j) \<in> set (entries (Suc k) vs)" "1 < j" for k vs
  proof -
    have "q \<le> j" if "(p, j) \<in> set (entries q vs)" "1 < j" for q
      using that by (induction vs arbitrary: q) (auto split: if_splits dest: Suc_leD)
    from this [OF that] show ?thesis by simp
  qed
  show ?case
  proof (cases "pat_matches sd (the (rule_pat u)) url no_params")
    case None
    then have "(p, j) \<in> set (entries (Suc i) us)" using Cons.prems by (auto split: if_splits)
    then show ?thesis using Cons.IH [OF _ Cons.prems(2,3)] None by simp
  next
    case (Some ps)
    have "i \<le> j" using Cons.prems(1,3) le [of i us] by (auto split: if_splits)
    then show ?thesis using Some by simp
  qed
qed simp

lemma redirect_entry: "2 \<le> i \<Longrightarrow> redirects sd us url \<longleftrightarrow> (\<exists>p. (p, 1) \<in> set (entries i us) \<and> pat_matches sd p url no_params \<noteq> None)"
proof (induction us arbitrary: i)
  case (Cons u us)
  have "redirects sd (u # us) url \<longleftrightarrow> slashed u \<and> pat_matches sd (the (rule_pat (butlast u))) url no_params \<noteq> None \<or> redirects sd us url"
    by (simp add: redirects_def)
  then show ?case using Cons.IH [of "Suc i"] Cons.prems by auto
qed (simp add: redirects_def)

subsection \<open>The trie finds what the reference finds\<close>

lemma validate_has:
  assumes "router_has R es" "router_validate R = Some (Return R')"
  shows "trie_ok (rtrie R') \<and> rules R' = rules R \<and> (\<forall>p q. spells (rtrie R') 0 p q \<longleftrightarrow> (p, q) \<in> set es)"
proof -
  have ok: "trie_ok (rtrie R)" "0 < length (rtrie R)" using assms(1) rawD(1) [of "rtrie R"] by (auto simp: router_has_def trie_ok_def)
  obtain T where T: "optimize_node (trie_fuel (rtrie R)) 0 (rtrie R) = Some T" "opt_post 0 (rtrie R) T"
    using optimize_node_ok [OF ok enough_fuel [OF ok(1)]] by blast
  have "rtrie R' = T \<and> rules R' = rules R"
    using assms(2) T(1) by (auto simp: router_validate_def trie_validate_def split: if_splits list.splits)
  then show ?thesis using T(2) assms(1) by (simp add: opt_post_def router_has_def)
qed

definition route :: "'d strtod \<Rightarrow> string list \<Rightarrow> string \<Rightarrow> nat" where
  "route sd us url = (if redirects sd us url then 1 else case first_match sd 2 us url of None \<Rightarrow> 0 | Some (i, _) \<Rightarrow> i)"

lemma entries_index: "(p, j) \<in> set (entries i us) \<Longrightarrow> j = 1 \<or> i \<le> j \<and> j < i + length us"
  by (induction us arbitrary: i) (fastforce split: if_splits)+

lemma entries_inject: "(p, j) \<in> set (entries i us) \<Longrightarrow> (q, j) \<in> set (entries i us) \<Longrightarrow> 1 < j \<Longrightarrow> 1 < i \<Longrightarrow> p = q"
proof (induction us arbitrary: i)
  case (Cons u us)
  have "j \<noteq> i" if "(x, j) \<in> set (entries (Suc i) us)" for x using entries_index [OF that] Cons.prems(3,4) by auto
  then show ?case using Cons.IH [of "Suc i"] Cons.prems by (auto split: if_splits)
qed simp

theorem trie_find_route:
  assumes sd: "strtod_ok sd" and T: "trie_ok T" "\<And>p q. spells T 0 p q \<longleftrightarrow> (p, q) \<in> set (entries 2 us)"
  shows "\<exists>ps. trie_find sd T url = Some (route sd us url, ps) \<and> (1 < route sd us url \<longrightarrow> first_match sd 2 us url = Some (route sd us url, ps))"
proof -
  have "0 < length T" using T(1) by (simp add: trie_ok_def)
  then obtain i ps where f: "trie_find sd T url = Some (i, ps)" "finds sd T 0 url no_params (i, ps)"
    using find_from_ok [OF T(1) sd, of 0 url "Suc (length url)" no_params] by (auto simp: trie_find_def)
  have some: "\<exists>p. (p, i) \<in> set (entries 2 us) \<and> pat_matches sd p url no_params = Some ps" if "i \<noteq> 0"
    using f(2) that by (auto simp: finds_def T(2))
  have least: "i \<noteq> 0 \<and> i \<le> q" if "(p, q) \<in> set (entries 2 us)" "pat_matches sd p url no_params \<noteq> None" for p q
    using f(2) that by (auto simp: finds_def T(2))
  show ?thesis
  proof (cases "redirects sd us url")
    case True
    then obtain p where "(p, 1) \<in> set (entries 2 us)" "pat_matches sd p url no_params \<noteq> None"
      unfolding redirect_entry [OF order_refl] by blast
    then have "i = 1" using least [of p 1] by simp
    then show ?thesis using f(1) True by (simp add: route_def)
  next
    case False
    have n1: "i \<noteq> 1" using False some redirect_entry [of 2 sd us url] by auto
    show ?thesis
    proof (cases "first_match sd 2 us url")
      case None
      have "i = 0"
      proof (rule ccontr)
        assume "i \<noteq> 0"
        then obtain p where "(p, i) \<in> set (entries 2 us)" "pat_matches sd p url no_params = Some ps" using some by blast
        then show False using first_match_least [of p i 2 us sd url] n1 \<open>i \<noteq> 0\<close> None by simp
      qed
      then show ?thesis using f(1) False None by (simp add: route_def)
    next
      case (Some kp)
      obtain k ps' where kp: "kp = (k, ps')" by force
      obtain p where p: "(p, k) \<in> set (entries 2 us)" "pat_matches sd p url no_params = Some ps'" "2 \<le> k"
        using first_match_entry [of sd 2 us url k ps'] Some kp by blast
      have ik: "i \<noteq> 0 \<and> i \<le> k" using least [OF p(1)] p(2) by simp
      then obtain p' where p': "(p', i) \<in> set (entries 2 us)" "pat_matches sd p' url no_params = Some ps" using some by blast
      have "k \<le> i" using first_match_least [OF p'(1), of sd url] p'(2) ik n1 Some kp by auto
      then have "i = k" using ik by simp
      then have "p' = p" using entries_inject [OF p'(1)] p(1,3) by simp
      then have "ps = ps'" using p(2) p'(2) by simp
      then show ?thesis using f(1) False Some kp \<open>i = k\<close> by (simp add: route_def)
    qed
  qed
qed

text \<open>The answer to a request, with no trie.\<close>

definition handle_spec :: "(crow_error \<Rightarrow> 'e) \<Rightarrow> 'd strtod \<Rightarrow> ('s, 'e, 'd, 'j) rule list \<Rightarrow> crow_request \<Rightarrow> ('s, 'e, 'j response) op" where
  "handle_spec err sd rs q =
     (if redirects sd (map rule_url rs) (req_url q) then ret (redirect_response q)
      else case first_match sd 2 (map rule_url rs) (req_url q) of
        None \<Rightarrow> ret (response_ended 404)
      | Some (i, ps) \<Rightarrow>
          let r = rs ! (i - 2)
          in if and (rule_methods r) (push_bit (req_method q) 1) = 0 then ret (response_ended 404)
             else catch (rule_handle err r q ps) (\<lambda>_. ret (response_ended 500)))"

definition start_router :: "('s, 'e, 'd, 'j) rule list \<Rightarrow> (crow_error, ('s, 'e, 'd, 'j) router) outcome option" where
  "start_router rs =
     (case add_rules rs new_router of
        None \<Rightarrow> None
      | Some (Throw e) \<Rightarrow> Some (Throw e)
      | Some (Return R) \<Rightarrow> router_validate R)"

lemma start_router_has:
  assumes "start_router rs = Some (Return R)" "list_all (\<lambda>r. rule_pat (rule_url r) \<noteq> None) rs"
  shows "trie_ok (rtrie R)" "rules R = None # None # map Some rs"
    "spells (rtrie R) 0 p q \<longleftrightarrow> (p, q) \<in> set (entries 2 (map rule_url rs))"
proof -
  obtain R0 where R0: "add_rules rs new_router = Some (Return R0)" "router_validate R0 = Some (Return R)"
    using assms(1) by (auto simp: start_router_def split: option.splits outcome.splits)
  have l: "length (rules new_router) = 2" by (simp add: new_router_def)
  have p: "rule_pat (rule_url r) \<noteq> None" if "r \<in> set rs" for r using assms(2) that by (simp add: list_all_iff)
  have "router_has R0 (entries 2 (map rule_url rs)) \<and> rules R0 = rules new_router @ map Some rs"
    using add_rules_ok [OF new_router_has p, of rs, simplified l] R0(1) by (auto split: if_splits)
  then show "trie_ok (rtrie R)" "rules R = None # None # map Some rs" "spells (rtrie R) 0 p q \<longleftrightarrow> (p, q) \<in> set (entries 2 (map rule_url rs))"
    using validate_has [OF _ R0(2)] by (auto simp: new_router_def)
qed

lemma router_handle_spec:
  assumes "start_router rs = Some (Return R)" "list_all (\<lambda>r. rule_pat (rule_url r) \<noteq> None) rs" "strtod_ok sd"
  shows "router_handle err sd R q = handle_spec err sd rs q"
proof -
  let ?us = "map rule_url rs"
  note has = start_router_has [OF assms(1,2)]
  obtain ps where f: "trie_find sd (rtrie R) (req_url q) = Some (route sd ?us (req_url q), ps)"
    "1 < route sd ?us (req_url q) \<longrightarrow> first_match sd 2 ?us (req_url q) = Some (route sd ?us (req_url q), ps)"
    using trie_find_route [OF assms(3) has(1,3)] by blast
  show ?thesis
  proof (cases "redirects sd ?us (req_url q)")
    case True
    then have "route sd ?us (req_url q) = 1" by (simp add: route_def)
    then show ?thesis using f(1) True has(2) by (intro ext) (simp add: router_handle_def handle_spec_def RULE_SPECIAL_REDIRECT_SLASH_def)
  next
    case False
    show ?thesis
    proof (cases "first_match sd 2 ?us (req_url q)")
      case None
      then show ?thesis using f(1) False by (intro ext) (simp add: router_handle_def handle_spec_def route_def)
    next
      case (Some kp)
      obtain k ps' where kp: "kp = (k, ps')" by force
      have k: "2 \<le> k" "k < 2 + length rs" using first_match_entry [of sd 2 ?us "req_url q" k ps'] Some kp by auto
      then have i: "(None # None # map Some rs) ! k = Some (rs ! (k - 2))" by (cases k rule: nat.exhaust; cases "k - 1") (auto simp: nth_Cons split: nat.splits)
      have r: "route sd ?us (req_url q) = k" using False Some kp by (simp add: route_def)
      then have "ps = ps'" using f(2) Some kp k(1) by simp
      then show ?thesis using f(1) r False Some kp k i has(2)
        by (intro ext) (simp add: router_handle_def handle_spec_def RULE_SPECIAL_REDIRECT_SLASH_def Let_def)
    qed
  qed
qed

subsection \<open>A router starts\<close>

definition plain_url :: "string \<Rightarrow> bool" where
  "plain_url url \<longleftrightarrow> rule_pat url \<noteq> None \<and> (case url of [] \<Rightarrow> False | c # _ \<Rightarrow> c \<noteq> CHR ''<'')"

lemma internal_add_head:
  assumes "internal_add_rule_object r R = Some (Return R')" "raw_trie (rtrie R)" "plain_url (rule_url r)" "rules R \<noteq> []"
  shows "is_simple_node (rtrie R' ! 0) = is_simple_node (rtrie R ! 0)"
proof -
  obtain c cs where u: "rule_url r = c # cs" "c \<noteq> CHR ''<''" using assms(3) by (auto simp: plain_url_def split: list.splits)
  obtain p where p: "rule_pat (rule_url r) = Some p" using assms(3) by (auto simp: plain_url_def)
  obtain T where T: "trie_add (rule_url r) (length (rules R)) (rtrie R) = Some (Return T)"
    using assms(1) by (auto simp: internal_add_rule_object_def split: option.splits outcome.splits)
  have raw_trie: "raw_trie T" using trie_add_ok [OF assms(2) p, of "length (rules R)"] T assms(4) by (auto split: if_splits)
  have h: "is_simple_node (T ! 0) = is_simple_node (rtrie R ! 0)" using trie_add_head T assms(2) u by metis
  show ?thesis
  proof (cases "slashed (rule_url r)")
    case True
    then obtain T' where T': "trie_add (butlast (rule_url r)) RULE_SPECIAL_REDIRECT_SLASH T = Some (Return T')" "rtrie R' = T'"
      using assms(1) T by (auto simp: internal_add_rule_object_def split: option.splits outcome.splits if_splits)
    have "butlast (rule_url r) = c # butlast cs" using u(1) True by (cases cs) (auto simp: slashed_def)
    then show ?thesis using trie_add_head [of c "butlast cs" _ T T'] T' raw_trie u(2) h by simp
  next
    case False
    then show ?thesis using assms(1) T h by (auto simp: internal_add_rule_object_def)
  qed
qed

lemma add_rules_head:
  "add_rules rs R = Some (Return R') \<Longrightarrow> router_has R es \<Longrightarrow> list_all (\<lambda>r. plain_url (rule_url r)) rs \<Longrightarrow>
     is_simple_node (rtrie R' ! 0) = is_simple_node (rtrie R ! 0)"
proof (induction rs arbitrary: R es)
  case (Cons r rs)
  obtain R1 where R1: "internal_add_rule_object r R = Some (Return R1)" "add_rules rs R1 = Some (Return R')"
    using Cons.prems(1) by (auto split: option.splits outcome.splits)
  have p: "rule_pat (rule_url r) \<noteq> None" "plain_url (rule_url r)" using Cons.prems(3) by (auto simp: plain_url_def)
  have "\<exists>fs. router_has R1 fs" using internal_add_ok [OF Cons.prems(2) p(1)] R1(1) by (auto split: if_splits)
  then obtain fs where "router_has R1 fs" by blast
  moreover have "is_simple_node (rtrie R1 ! 0) = is_simple_node (rtrie R ! 0)"
    by (rule internal_add_head [OF R1(1) _ p(2)]) (use Cons.prems(2) in \<open>auto simp: router_has_def\<close>)
  ultimately show ?case using Cons.IH [OF R1(2)] Cons.prems(3) by simp
qed simp

theorem start_router_ok:
  assumes "list_all (\<lambda>r. plain_url (rule_url r) \<and> rule_handler r \<noteq> None) rs" "distinct (map fst (entries 2 (map rule_url rs)))"
  shows "\<exists>R. start_router rs = Some (Return R)"
proof -
  have p: "rule_pat (rule_url r) \<noteq> None" "rule_handler r \<noteq> None" if "r \<in> set rs" for r using assms(1) that by (auto simp: list_all_iff plain_url_def)
  have pl: "list_all (\<lambda>r. plain_url (rule_url r)) rs" using assms(1) by (simp add: list_all_iff)
  have l: "length (rules new_router) = 2" "rules new_router = [None, None]" by (simp_all add: new_router_def)
  have "\<exists>R. add_rules rs new_router = Some (Return R) \<and> router_has R (entries 2 (map rule_url rs)) \<and> rules R = [None, None] @ map Some rs"
    using add_rules_ok [OF new_router_has p(1), of rs] assms(2) by (simp only: l(1) append_Nil list.map distinct.simps if_True simp_thms) (simp only: l(2))
  then obtain R where R: "add_rules rs new_router = Some (Return R)" "router_has R (entries 2 (map rule_url rs))" "rules R = [None, None] @ map Some rs"
    by blast
  have "is_simple_node (rtrie R ! 0)"
    unfolding add_rules_head [OF R(1) new_router_has pl] by (simp add: new_router_def new_trie_def new_node_def is_simple_node_def list_all_iff)
  moreover have ok: "trie_ok (rtrie R)" "0 < length (rtrie R)" using R(2) rawD(1) by (auto simp: router_has_def trie_ok_def)
  ultimately have h: "is_simple_node (hd (rtrie R))" by (simp add: hd_conv_nth)
  obtain T where T: "optimize_node (trie_fuel (rtrie R)) 0 (rtrie R) = Some T"
    using optimize_node_ok [OF ok enough_fuel [OF ok(1)]] by blast
  have "Option.bind x rule_validate = None" if "x \<in> set (rules R)" for x
    using that p(2) unfolding R(3) by (force simp: rule_validate_def split: option.split)
  then have "List.map_filter (\<lambda>r. Option.bind r rule_validate) (rules R) = []"
    by (simp add: map_filter_def filter_empty_conv)
  then show ?thesis using R(1) h T by (simp add: start_router_def router_validate_def trie_validate_def)
qed

definition demo_rules :: "(unit, unit, nat, unit) rule list" where
  "demo_rules = map (\<lambda>u. \<lparr>rule_url = u, rule_name = [], rule_methods = default_methods, rule_types = [],
     rule_handler = Some (\<lambda>q as. ret (response_text u))\<rparr>) [''/a/'', ''/<str>'', ''/<path>'', ''/b'']"

lemma demo_rules_start: "\<exists>R. start_router demo_rules = Some (Return R)"
  by (rule start_router_ok) (simp_all add: demo_rules_def plain_url_def tag_at_def param_traits_def begins_def slashed_def)

text \<open>C35. The router answers every request as if it tried the rules one after the other in the order in which they
  were added: a redirect if the URL is that of a rule without the slash at its end, else the first rule that
  matches, if it has the method, with what its handler gives or 500 if it throws, and 404 if none matches; the trie,
  the merging of its nodes and the order in which its maps are walked do not show.\<close>

theorem router_first_match:
  assumes "start_router rs = Some (Return R)" "list_all (\<lambda>r. rule_pat (rule_url r) \<noteq> None) rs" "strtod_ok sd"
  shows "router_handle err sd R q = handle_spec err sd rs q"
  by (rule router_handle_spec [OF assms])

theorem router_first_match_witness:
  "\<exists>R. start_router demo_rules = Some (Return R) \<and> (\<forall>err q. router_handle err (\<lambda>s. None) R q = handle_spec err (\<lambda>s. None) demo_rules q)"
proof -
  obtain R where R: "start_router demo_rules = Some (Return R)" using demo_rules_start by blast
  have p: "list_all (\<lambda>r. rule_pat (rule_url r) \<noteq> None) demo_rules"
    by (simp add: demo_rules_def tag_at_def param_traits_def begins_def)
  have "router_handle err (\<lambda>s. None) R q = handle_spec err (\<lambda>s. None) demo_rules q" for err q
    by (rule router_first_match [OF R p]) (simp add: strtod_ok_def)
  then show ?thesis using R by blast
qed

end
