(* ===== verification/Crow_Tags.thy ===== *)
theory Crow_Tags
  imports Crow_Routes
begin

section \<open>The tag of a rule (utility.h of lib/crow)\<close>

text \<open>
  \<open>CROW_ROUTE\<close> computes from the text of a rule, while it is compiled, a number of 64 bits with one digit in base
  6 for each parameter, and from the number the types of the arguments of the handler. \<open>None\<close> is the exception
  that ends the compilation. \<open>route_dynamic\<close> computes the number at run time and compares.
\<close>

function find_closing_tag :: "string \<Rightarrow> nat \<Rightarrow> nat option" where
  "find_closing_tag s p = (if length s \<le> p then None else if s ! p = CHR ''>'' then Some p else find_closing_tag s (p + 1))"
  by pat_completeness auto
termination by (relation "measure (\<lambda>(s, p). length s - p)") auto

declare find_closing_tag.simps [simp del]

function is_valid :: "string \<Rightarrow> nat \<Rightarrow> int \<Rightarrow> bool" where
  "is_valid s i f =
     (if length s \<le> i then f = 0
      else if f < 0 \<or> 2 \<le> f then False
      else if s ! i = CHR ''<'' then is_valid s (i + 1) (f + 1)
      else if s ! i = CHR ''>'' then is_valid s (i + 1) (f - 1)
      else is_valid s (i + 1) f)"
  by pat_completeness auto
termination by (relation "measure (\<lambda>(s, i, f). length s - i)") auto

declare is_valid.simps [simp del]

fun is_equ_n :: "string \<Rightarrow> nat \<Rightarrow> string \<Rightarrow> nat \<Rightarrow> nat \<Rightarrow> bool" where
  "is_equ_n a ai b bi 0 \<longleftrightarrow> ai \<le> length a \<and> bi \<le> length b"
| "is_equ_n a ai b bi (Suc n) \<longleftrightarrow>
     ai + Suc n \<le> length a \<and> bi + Suc n \<le> length b \<and> a ! ai = b ! bi \<and> is_equ_n a (ai + 1) b (bi + 1) n"

definition is_int :: "string \<Rightarrow> nat \<Rightarrow> bool" where "is_int s i = is_equ_n s i ''<int>'' 0 5"
definition is_uint :: "string \<Rightarrow> nat \<Rightarrow> bool" where "is_uint s i = is_equ_n s i ''<uint>'' 0 6"
definition is_float :: "string \<Rightarrow> nat \<Rightarrow> bool" where "is_float s i \<longleftrightarrow> is_equ_n s i ''<float>'' 0 7 \<or> is_equ_n s i ''<double>'' 0 8"
definition is_str :: "string \<Rightarrow> nat \<Rightarrow> bool" where "is_str s i \<longleftrightarrow> is_equ_n s i ''<str>'' 0 5 \<or> is_equ_n s i ''<string>'' 0 8"
definition is_path :: "string \<Rightarrow> nat \<Rightarrow> bool" where "is_path s i = is_equ_n s i ''<path>'' 0 6"

lemma closing_bounds: "find_closing_tag s p = Some q \<Longrightarrow> p \<le> q \<and> q < length s \<and> s ! q = CHR ''>''"
  by (induction s p rule: find_closing_tag.induct) (subst (asm) (2) find_closing_tag.simps, force split: if_splits)

text \<open>Numbers wrap around at 64 bits.\<close>

function get_parameter_tag :: "string \<Rightarrow> nat \<Rightarrow> u64 option" where
  "get_parameter_tag s p =
     (if length s \<le> p then Some 0
      else if s ! p = CHR ''<'' then
        (let rest = (case find_closing_tag s p of None \<Rightarrow> None | Some q \<Rightarrow> get_parameter_tag s q)
         in if is_int s p then map_option (\<lambda>t. t * 6 + 1) rest
            else if is_uint s p then map_option (\<lambda>t. t * 6 + 2) rest
            else if is_float s p then map_option (\<lambda>t. t * 6 + 3) rest
            else if is_str s p then map_option (\<lambda>t. t * 6 + 4) rest
            else if is_path s p then map_option (\<lambda>t. t * 6 + 5) rest
            else None)
      else get_parameter_tag s (p + 1))"
  by pat_completeness auto
termination
proof (relation "measure (\<lambda>(s, p). length s - p)")
  fix s p q assume a: "\<not> length s \<le> p" "s ! p = CHR ''<''" "find_closing_tag s p = Some q"
  from closing_bounds [OF a(3)] a(2) have "p \<noteq> q" by auto
  then show "((s, q), (s, p)) \<in> measure (\<lambda>(s, p). length s - p)" using closing_bounds [OF a(3)] a(1) by auto
qed auto

declare get_parameter_tag.simps [simp del]

text \<open>At run time; the text ends with a zero byte.\<close>

definition strncmp_eq :: "string \<Rightarrow> nat \<Rightarrow> string \<Rightarrow> bool" where
  "strncmp_eq s p lit = begins lit (drop p s)"

function get_parameter_tag_runtime :: "string \<Rightarrow> nat \<Rightarrow> u64 option" where
  "get_parameter_tag_runtime s p =
     (if length s \<le> p then Some 0
      else if s ! p = CHR ''<'' then
        (let rest = (case find_closing_tag s p of None \<Rightarrow> None | Some q \<Rightarrow> get_parameter_tag_runtime s q)
         in if strncmp_eq s p ''<int>'' then map_option (\<lambda>t. t * 6 + 1) rest
            else if strncmp_eq s p ''<uint>'' then map_option (\<lambda>t. t * 6 + 2) rest
            else if strncmp_eq s p ''<float>'' \<or> strncmp_eq s p ''<double>'' then map_option (\<lambda>t. t * 6 + 3) rest
            else if strncmp_eq s p ''<str>'' \<or> strncmp_eq s p ''<string>'' then map_option (\<lambda>t. t * 6 + 4) rest
            else if strncmp_eq s p ''<path>'' then map_option (\<lambda>t. t * 6 + 5) rest
            else None)
      else get_parameter_tag_runtime s (p + 1))"
  by pat_completeness auto
termination
proof (relation "measure (\<lambda>(s, p). length s - p)")
  fix s p q assume a: "\<not> length s \<le> p" "s ! p = CHR ''<''" "find_closing_tag s p = Some q"
  from closing_bounds [OF a(3)] a(2) have "p \<noteq> q" by auto
  then show "((s, q), (s, p)) \<in> measure (\<lambda>(s, p). length s - p)" using closing_bounds [OF a(3)] a(1) by auto
qed auto

declare get_parameter_tag_runtime.simps [simp del]

text \<open>The types that a digit and a number stand for; there is no type for 0.\<close>

definition single_tag_to_type :: "nat \<Rightarrow> ParamType option" where
  "single_tag_to_type n = (if n = 1 then Some P_INT else if n = 2 then Some P_UINT else if n = 3 then Some P_DOUBLE
     else if n = 4 \<or> n = 5 then Some P_STRING else None)"

fun arguments :: "nat \<Rightarrow> ParamType list option" where
  "arguments n =
     (if n = 0 then Some []
      else (case arguments (n div 6) of
              None \<Rightarrow> None
            | Some ts \<Rightarrow> map_option (\<lambda>t. t # ts) (single_tag_to_type (n mod 6))))"

declare arguments.simps [simp del]

text \<open>\<open>parameter_tag\<close> of the types of a handler; 0 is any other type.\<close>

fun compute_parameter_tag :: "nat list \<Rightarrow> nat" where
  "compute_parameter_tag [] = 0"
| "compute_parameter_tag (a # as) = (if a \<noteq> 0 then compute_parameter_tag as * 6 + a else compute_parameter_tag as)"

fun is_parameter_tag_compatible :: "nat \<Rightarrow> nat \<Rightarrow> bool" where
  "is_parameter_tag_compatible a b =
     (if a = 0 then b = 0
      else if b = 0 then a = 0
      else let sa = a mod 6; sb = a mod 6;
               sa = (if sa = 5 then 4 else sa); sb = (if sb = 5 then 4 else sb)
           in if sa \<noteq> sb then False else is_parameter_tag_compatible (a div 6) (b div 6))"

declare is_parameter_tag_compatible.simps [simp del]

text \<open>A rule of \<open>CROW_ROUTE\<close>; \<open>None\<close> does not compile.\<close>

definition tagged_rule :: "string \<Rightarrow> ('s, 'e, 'd, 'j) rule option" where
  "tagged_rule url =
     (case get_parameter_tag url 0 of None \<Rightarrow> None | Some tag \<Rightarrow> map_option (new_rule url) (arguments (unat tag)))"

subsection \<open>The number is that of the parameters\<close>

lemma is_equ_n_take: "is_equ_n a ai b bi n \<longleftrightarrow> ai + n \<le> length a \<and> bi + n \<le> length b \<and> take n (drop ai a) = take n (drop bi b)"
proof (induction n arbitrary: ai bi)
  case (Suc n)
  have d: "take (Suc n) (drop i x) = x ! i # take n (drop (i + 1) x)" if "i + Suc n \<le> length x" for i and x :: string
    using that by (simp add: Cons_nth_drop_Suc [symmetric])
  show ?case using Suc.IH [of "ai + 1" "bi + 1"] d by auto
qed simp

lemma is_equ_n_begins: "ai \<le> length a \<Longrightarrow> is_equ_n a ai b 0 (length b) \<longleftrightarrow> begins b (drop ai a)"
  by (auto simp: is_equ_n_take begins_def dest: arg_cong [of _ _ length])

lemma is_tests:
  assumes "p \<le> length s"
  shows "is_int s p = strncmp_eq s p ''<int>''" "is_uint s p = strncmp_eq s p ''<uint>''"
    "is_float s p \<longleftrightarrow> strncmp_eq s p ''<float>'' \<or> strncmp_eq s p ''<double>''"
    "is_str s p \<longleftrightarrow> strncmp_eq s p ''<str>'' \<or> strncmp_eq s p ''<string>''"
    "is_path s p = strncmp_eq s p ''<path>''"
  using is_equ_n_begins [OF assms, of "''<int>''"] is_equ_n_begins [OF assms, of "''<uint>''"] is_equ_n_begins [OF assms, of "''<float>''"]
    is_equ_n_begins [OF assms, of "''<double>''"] is_equ_n_begins [OF assms, of "''<str>''"] is_equ_n_begins [OF assms, of "''<string>''"]
    is_equ_n_begins [OF assms, of "''<path>''"]
  by (simp_all add: strncmp_eq_def is_int_def is_uint_def is_float_def is_str_def is_path_def numeral_eq_Suc del: is_equ_n.simps)

lemma tag_runtime: "get_parameter_tag_runtime s p = get_parameter_tag s p"
proof (induction s p rule: get_parameter_tag.induct)
  case (1 s p)
  show ?case
    by (subst get_parameter_tag.simps, subst get_parameter_tag_runtime.simps)
      (use 1 is_tests [of p s] in \<open>auto simp: Let_def split: option.split\<close>)
qed

fun tag_no :: "ParamType \<Rightarrow> nat" where
  "tag_no P_INT = 1" | "tag_no P_UINT = 2" | "tag_no P_DOUBLE = 3" | "tag_no P_STRING = 4" | "tag_no P_PATH = 5"

definition param_list :: "pat list \<Rightarrow> ParamType list" where
  "param_list p = List.map_filter (\<lambda>x. case x of Par t \<Rightarrow> Some t | Lit _ \<Rightarrow> None) p"

lemma param_list_simps [simp]: "param_list [] = []" "param_list (Lit c # p) = param_list p" "param_list (Par t # p) = t # param_list p"
  by (simp_all add: param_list_def map_filter_def)

definition tag_value :: "ParamType list \<Rightarrow> nat" where
  "tag_value ts = foldr (\<lambda>t v. v * 6 + tag_no t) ts 0"

lemma closing_at: "drop p s = w @ CHR ''>'' # r \<Longrightarrow> CHR ''>'' \<notin> set w \<Longrightarrow> find_closing_tag s p = Some (p + length w)"
proof (induction w arbitrary: p)
  case Nil
  then have "p < length s" "s ! p = CHR ''>''" by (metis append_Nil drop_all leI list.distinct(1), metis append_Nil nth_via_drop)
  then show ?case by (subst find_closing_tag.simps) simp
next
  case (Cons c w)
  then have "p < length s" "s ! p = c" by (metis append_Cons drop_all leI list.distinct(1), metis append_Cons nth_via_drop)
  moreover have "drop (p + 1) s = w @ CHR ''>'' # r" using Cons.prems(1) by (metis add.commute append_Cons drop_drop drop_Suc_Cons drop0 One_nat_def)
  ultimately show ?case using Cons by (subst find_closing_tag.simps) auto
qed

definition tag_of :: "pat list \<Rightarrow> u64" where
  "tag_of p = of_nat (tag_value (param_list p))"

lemma tag_of_simps: "tag_of [] = 0" "tag_of (Lit c # p) = tag_of p" "tag_of (Par t # p) = tag_of p * 6 + of_nat (tag_no t)"
  by (simp_all add: tag_of_def tag_value_def)

lemma tag_at_cases:
  "tag_at s = (if begins ''<int>'' s then Some (P_INT, ''<int>'') else if begins ''<uint>'' s then Some (P_UINT, ''<uint>'')
     else if begins ''<float>'' s then Some (P_DOUBLE, ''<float>'') else if begins ''<double>'' s then Some (P_DOUBLE, ''<double>'')
     else if begins ''<str>'' s then Some (P_STRING, ''<str>'') else if begins ''<string>'' s then Some (P_STRING, ''<string>'')
     else if begins ''<path>'' s then Some (P_PATH, ''<path>'') else None)"
  by (simp add: tag_at_def param_traits_def)

lemma tag_name_closed: "(t, n) \<in> set param_traits \<Longrightarrow> \<exists>w. n = w @ ''>'' \<and> CHR ''>'' \<notin> set w \<and> w \<noteq> []"
  by (auto simp: param_traits_def intro: exI [of _ "''<int''"] exI [of _ "''<uint''"] exI [of _ "''<float''"] exI [of _ "''<double''"]
      exI [of _ "''<str''"] exI [of _ "''<string''"] exI [of _ "''<path''"])

lemma get_tag_step:
  assumes "s ! p = CHR ''<''" "p < length s"
  shows "get_parameter_tag s p = (case tag_at (drop p s) of None \<Rightarrow> None
     | Some (t, n) \<Rightarrow> map_option (\<lambda>v. v * 6 + of_nat (tag_no t)) (case find_closing_tag s p of None \<Rightarrow> None | Some q \<Rightarrow> get_parameter_tag s q))"
  by (subst get_parameter_tag.simps)
    (use assms is_tests [of p s] in \<open>simp add: Let_def tag_at_cases strncmp_eq_def\<close>)

theorem get_tag_ok: "p \<le> length s \<Longrightarrow> get_parameter_tag s p = map_option tag_of (rule_pat (drop p s))"
proof (induction s p rule: get_parameter_tag.induct)
  case (1 s p)
  show ?case
  proof (cases "p = length s")
    case True
    then show ?thesis by (subst get_parameter_tag.simps) (simp add: tag_of_simps)
  next
    case False
    then have p: "p < length s" using "1.prems" by simp
    have d: "drop p s = s ! p # drop (p + 1) s" using p by (simp add: Cons_nth_drop_Suc)
    show ?thesis
    proof (cases "s ! p = CHR ''<''")
      case lit: False
      then have "get_parameter_tag s p = get_parameter_tag s (p + 1)" using p by (subst get_parameter_tag.simps) simp
      also have "\<dots> = map_option tag_of (rule_pat (drop (p + 1) s))" using "1.IH"(2) [OF _ lit] p by simp
      also have "\<dots> = map_option tag_of (rule_pat (drop p s))" unfolding d using lit by (simp add: option.map_comp comp_def tag_of_simps)
      finally show ?thesis .
    next
      case par: True
      note step = get_tag_step [OF par p]
      show ?thesis
      proof (cases "tag_at (drop p s)")
        case None
        then show ?thesis using step par unfolding d by simp
      next
        case (Some tn)
        obtain t n where tn: "tn = (t, n)" by force
        have "(t, n) \<in> set param_traits" "begins n (drop p s)" using tag_atD [of "drop p s" t n] Some tn by simp_all
        then obtain w r where w: "n = w @ ''>''" "CHR ''>'' \<notin> set w" "w \<noteq> []" "drop p s = n @ r" using tag_name_closed [of t n] by (auto simp: begins_iff)
        have q: "find_closing_tag s p = Some (p + length w)" using closing_at [of p s w r] w by simp
        have r: "drop (p + length w) s = ''>'' @ r" using w by (metis append.assoc append_eq_conv_conj drop_drop add.commute)
        have l: "p + length w < length s" using r by (metis append_Cons drop_all leI list.distinct(1))
        have "get_parameter_tag s (p + length w) = map_option tag_of (rule_pat (''>'' @ r))"
          using "1.IH"(1) [OF _ par q] p l r by simp
        also have "\<dots> = map_option tag_of (rule_pat r)" by (simp add: option.map_comp comp_def tag_of_simps)
        finally have g: "get_parameter_tag s (p + length w) = map_option tag_of (rule_pat r)" .
        have c: "drop p s = CHR ''<'' # drop (p + 1) s" using d par by simp
        have dr: "drop (length n) (CHR ''<'' # drop (p + 1) s) = r" using w(4) c by (metis append_eq_conv_conj)
        have rp: "rule_pat (drop p s) = map_option ((#) (Par t)) (rule_pat r)"
          unfolding c rule_pat.simps using Some tn c dr by simp
        show ?thesis unfolding rp step using Some tn q g by (simp add: option.map_comp comp_def tag_of_simps)
      qed
    qed
  qed
qed

subsection \<open>The types that come back from it\<close>

text \<open>What the handler gets: \<open>std::string\<close> for both kinds of text.\<close>

fun handler_type :: "ParamType \<Rightarrow> ParamType" where
  "handler_type P_PATH = P_STRING"
| "handler_type t = t"

lemma tag_no_range: "0 < tag_no t \<and> tag_no t < 6" "single_tag_to_type (tag_no t) = Some (handler_type t)"
  by (cases t; simp add: single_tag_to_type_def)+

lemma arguments_tag: "arguments (tag_value ts) = Some (map handler_type ts)"
proof (induction ts)
  case (Cons t ts)
  have v: "tag_value (t # ts) = tag_value ts * 6 + tag_no t" by (simp add: tag_value_def)
  have "tag_value (t # ts) \<noteq> 0" "tag_value (t # ts) div 6 = tag_value ts" "tag_value (t # ts) mod 6 = tag_no t"
    using tag_no_range(1) [of t] unfolding v by simp_all
  then show ?case using Cons tag_no_range(2) [of t] by (subst arguments.simps) simp
qed (simp add: tag_value_def arguments.simps)

lemma tag_value_bound: "tag_value ts < 6 ^ length ts"
proof (induction ts)
  case (Cons t ts)
  have "tag_value ts * 6 + tag_no t < (tag_value ts + 1) * 6" using tag_no_range(1) [of t] by simp
  also have "\<dots> \<le> 6 ^ length ts * 6" using Cons by (intro mult_le_mono1) simp
  finally show ?case by (simp add: tag_value_def mult.commute)
qed (simp add: tag_value_def)

theorem tagged_rule_types:
  assumes "rule_pat url = Some p" "length (param_list p) \<le> 24"
  shows "tagged_rule url = Some (new_rule url (map handler_type (param_list p)))"
proof -
  have "tag_value (param_list p) < 6 ^ length (param_list p)" by (rule tag_value_bound)
  also have "\<dots> \<le> 6 ^ 24" using assms(2) by (intro power_increasing) simp_all
  also have "\<dots> < (2 :: nat) ^ 64" by simp
  finally have "unat (tag_of p) = tag_value (param_list p)" unfolding tag_of_def by (simp add: unat_of_nat take_bit_nat_eq_self)
  then show ?thesis using get_tag_ok [of 0 url] assms(1) by (simp add: tagged_rule_def arguments_tag)
qed

text \<open>\<open>CROW_ROUTE\<close> refuses the rules on which \<open>add\<close> would not end.\<close>

lemma tagged_rule_parses: "tagged_rule url \<noteq> None \<Longrightarrow> rule_pat url \<noteq> None"
  using get_tag_ok [of 0 url] by (auto simp: tagged_rule_def split: option.splits)

subsection \<open>The arguments of the handler\<close>

text \<open>What the parameters of a rule take from a URL, in the order of the rule.\<close>

fun captured :: "'d strtod \<Rightarrow> pat list \<Rightarrow> string \<Rightarrow> 'd arg list" where
  "captured sd [] s = []"
| "captured sd (Lit c # p) s = captured sd p (tl s)"
| "captured sd (Par t # p) s = (case eat sd t s of None \<Rightarrow> [] | Some (a, r) \<Rightarrow> a # captured sd p r)"

lemma pat_matches_captured: "pat_matches sd p s ps = Some qs \<Longrightarrow> qs = fold push_param (captured sd p s) ps"
  by (induction sd p s ps rule: pat_matches.induct) (auto split: if_splits list.splits option.splits)

fun arg_fits :: "ParamType \<Rightarrow> 'd arg \<Rightarrow> bool" where
  "arg_fits P_INT (A_int _) = True"
| "arg_fits P_UINT (A_uint _) = True"
| "arg_fits P_DOUBLE (A_double _) = True"
| "arg_fits P_STRING (A_string _) = True"
| "arg_fits _ _ = False"

lemma eat_fits: "eat sd t s = Some (a, r) \<Longrightarrow> arg_fits (handler_type t) a"
  by (cases t) (auto simp: eat_def split: list.splits if_splits option.splits)

lemma captured_fits: "pat_matches sd p s ps \<noteq> None \<Longrightarrow> list_all2 arg_fits (map handler_type (param_list p)) (captured sd p s)"
  by (induction sd p s ps rule: pat_matches.induct) (auto split: if_splits list.splits option.splits simp: eat_fits)

lemma fold_push_more:
  "\<exists>x. int_params (fold push_param as ps) = int_params ps @ x" "\<exists>x. uint_params (fold push_param as ps) = uint_params ps @ x"
  "\<exists>x. double_params (fold push_param as ps) = double_params ps @ x" "\<exists>x. string_params (fold push_param as ps) = string_params ps @ x"
proof (induction as arbitrary: ps)
  case (Cons a as)
  { case 1 show ?case using Cons(1) [of "push_param a ps"] by (cases a) auto }
  { case 2 show ?case using Cons(2) [of "push_param a ps"] by (cases a) auto }
  { case 3 show ?case using Cons(3) [of "push_param a ps"] by (cases a) auto }
  { case 4 show ?case using Cons(4) [of "push_param a ps"] by (cases a) auto }
qed simp_all

lemma call_args_fold:
  "list_all2 arg_fits ts as \<Longrightarrow>
     call_args ts (length (int_params ps), length (uint_params ps), length (double_params ps), length (string_params ps)) (fold push_param as ps) = Some as"
proof (induction ts as arbitrary: ps rule: list_all2_induct)
  case (Cons t ts a as)
  note IH = Cons.IH [of "push_param a ps"]
  note more = fold_push_more [of as "push_param a ps"]
  show ?case
  proof (cases a)
    case (A_int v)
    then show ?thesis using Cons.hyps(1) IH more(1) by (cases t) (auto simp: at_def nth_append)
  next
    case (A_uint v)
    then show ?thesis using Cons.hyps(1) IH more(2) by (cases t) (auto simp: at_def nth_append)
  next
    case (A_double v)
    then show ?thesis using Cons.hyps(1) IH more(3) by (cases t) (auto simp: at_def nth_append)
  next
    case (A_string v)
    then show ?thesis using Cons.hyps(1) IH more(4) by (cases t) (auto simp: at_def nth_append)
  qed
qed simp

text \<open>C36. A handler gets what the parameters of its rule take from the URL, in the order of the rule: the types that
  the compiler reads from the number of the rule, and the four lists of values by type in which the search keeps
  what it took, give back that order, for every rule of at most 24 parameters.\<close>

theorem handler_arguments:
  assumes "tagged_rule url = Some r" "rule_pat url = Some p" "length (param_list p) \<le> 24" "pat_matches sd p s no_params = Some ps"
  shows "call_args (rule_types r) (0, 0, 0, 0) ps = Some (captured sd p s)"
proof -
  have "Some r = Some (new_rule url (map handler_type (param_list p)))" unfolding assms(1) [symmetric] by (rule tagged_rule_types [OF assms(2,3)])
  then have "rule_types r = map handler_type (param_list p)" by (simp add: new_rule_def)
  then show ?thesis
    using call_args_fold [OF captured_fits [of sd p s no_params], of no_params] assms(4) pat_matches_captured [OF assms(4)]
    by (simp add: no_params_def)
qed

subsection \<open>The comparison looks at the number of parameters only\<close>

lemma compatible_length:
  "is_parameter_tag_compatible (tag_value ts) (tag_value us) \<longleftrightarrow> length ts = length us"
proof (induction ts arbitrary: us)
  case Nil
  then show ?case using tag_no_range(1) by (cases us) (simp_all add: tag_value_def is_parameter_tag_compatible.simps)
next
  case (Cons t ts)
  have v: "tag_value (t # ts) = tag_value ts * 6 + tag_no t" for t ts by (simp add: tag_value_def)
  have n: "tag_value (t # ts) \<noteq> 0" "tag_value (t # ts) div 6 = tag_value ts" for t ts
    using tag_no_range(1) [of t] unfolding v by simp_all
  show ?case
  proof (cases us)
    case Nil
    then show ?thesis using n(1) [of t ts] by (simp add: is_parameter_tag_compatible.simps tag_value_def [of "[]"])
  next
    case (Cons u us')
    then show ?thesis using n [of t ts] n [of u us'] Cons.IH [of us'] by (subst is_parameter_tag_compatible.simps) (simp add: Let_def)
  qed
qed

theorem handler_arguments_witness:
  "\<exists>r. (tagged_rule ''/<str>/<int>/<path>'' :: (unit, unit, nat, unit) rule option) = Some r \<and>
     call_args (rule_types r) (0, 0, 0, 0) \<lparr>int_params = [42], uint_params = [], double_params = [] :: nat list, string_params = [''n'', ''b/c'']\<rparr> =
       Some (captured (\<lambda>s. None) [Lit CHR ''/'', Par P_STRING, Lit CHR ''/'', Par P_INT, Lit CHR ''/'', Par P_PATH] ''/n/42/b/c'')"
proof -
  let ?u = "''/<str>/<int>/<path>''" and ?p = "[Lit CHR ''/'', Par P_STRING, Lit CHR ''/'', Par P_INT, Lit CHR ''/'', Par P_PATH]"
  let ?ps = "\<lparr>int_params = [42], uint_params = [], double_params = [] :: nat list, string_params = [''n'', ''b/c'']\<rparr>"
  have p: "rule_pat ?u = Some ?p" by (simp add: tag_at_cases begins_def)
  have l: "length (param_list ?p) \<le> 24" by simp
  have m: "pat_matches (\<lambda>s. None) ?p ''/n/42/b/c'' no_params = Some ?ps"
    by (simp add: eat_def strtol10_def digits_value_def isdigit_def no_params_def)
  obtain r :: "(unit, unit, nat, unit) rule" where r: "tagged_rule ?u = Some r" using tagged_rule_types [OF p l] by blast
  show ?thesis using handler_arguments [OF r p l m] r by blast
qed

end
