(* ===== verification/Nfvi_Routes.thy ===== *)
theory Nfvi_Routes
  imports Crow_Tags Nfvi_Rest Nfvi_Json
begin

section \<open>The URLs of Susanow (nfvi/ssn_rest_api.cc)\<close>

text \<open>
  The rules in the order of \<open>rest_api_thread\<close>, each with its methods and with the request of \<open>Nfvi_Rest\<close> or
  \<open>Nfvi_Json\<close> that its handler makes of the method, the body and the parameters of the URL. A parameter \<open>int\<close> of
  a handler is the low 32 bits of the number in the URL. \<open>None\<close> stands for a failed \<open>assert\<close>. How a body is read
  is a parameter, \<open>load\<close>.
\<close>

datatype rest_call = Change request | Report get_request

datatype 'f answer = Ans_reply reply | Ans_json "'f json"

definition to_int :: "int \<Rightarrow> int" where
  "to_int v = sint (of_int v :: u32)"

type_synonym 'd route_fun = "nat \<Rightarrow> body \<Rightarrow> 'd arg list \<Rightarrow> rest_call option"

definition on_get :: "get_request \<Rightarrow> 'd route_fun" where
  "on_get g m b as = Some (Report g)"

definition on_GET :: "get_request \<Rightarrow> 'd route_fun" where
  "on_GET g m b as = (if m = method_no M_GET then Some (Report g) else None)"

fun vnfs_NAME :: "'d route_fun" where
  "vnfs_NAME m b [A_string n] =
     (if m = method_no M_GET then Some (Report (Get_vnf n))
      else if m = method_no M_POST then Some (Change (Post_vnf n b))
      else if m = method_no M_DELETE then Some (Change (Delete_vnf n)) else None)"
| "vnfs_NAME m b _ = None"

fun vnfs_NAME_ports_PORTID :: "'d route_fun" where
  "vnfs_NAME_ports_PORTID m b [A_string n, A_int i] =
     (if m = method_no M_PUT then Some (Change (Put_vnf_port n (to_int i) b))
      else if m = method_no M_DELETE then Some (Change (Delete_vnf_port n (to_int i))) else None)"
| "vnfs_NAME_ports_PORTID m b _ = None"

fun ports_NAME :: "'d route_fun" where
  "ports_NAME m b [A_string n] =
     (if m = method_no M_GET then Some (Report (Get_port n))
      else if m = method_no M_POST then Some (Change (Post_port n b))
      else if m = method_no M_DELETE then Some (Change (Delete_port n)) else None)"
| "ports_NAME m b _ = None"

fun vnfs_NAME_coremask_BLOCKID :: "'d route_fun" where
  "vnfs_NAME_coremask_BLOCKID m b [A_string n, A_int i] =
     (if m = method_no M_PUT then Some (Change (Put_coremask n (to_int i) b)) else None)"
| "vnfs_NAME_coremask_BLOCKID m b _ = None"

fun on_PUT :: "(string \<Rightarrow> request) \<Rightarrow> 'd route_fun" where
  "on_PUT q m b [A_string n] = (if m = method_no M_PUT then Some (Change (q n)) else None)"
| "on_PUT q m b _ = None"

fun ppps_NAME :: "'d route_fun" where
  "ppps_NAME m b [A_string n] =
     (if m = method_no M_GET then Some (Report (Get_ppp n))
      else if m = method_no M_POST then Some (Change (Post_ppp n b))
      else if m = method_no M_DELETE then Some (Change (Delete_ppp n)) else None)"
| "ppps_NAME m b _ = None"

definition route_table :: "(string \<times> HTTPMethod list \<times> 'd route_fun) list" where
  "route_table =
     [(''/'', [M_GET], on_get Get_root),
      (''/system'', [M_GET], on_get Get_system),
      (''/system/cpu'', [M_GET], on_get Get_system_cpu),
      (''/system/mem'', [M_GET], on_get Get_system_mem),
      (''/system/pnic'', [M_GET], on_get Get_system_pnic),
      (''/vnfs'', [M_GET], on_GET Get_vnfs),
      (''/vnfs/<str>'', [M_GET, M_POST, M_DELETE], vnfs_NAME),
      (''/vnfs/<str>/ports/<int>'', [M_PUT, M_DELETE], vnfs_NAME_ports_PORTID),
      (''/ports'', [M_GET], on_GET Get_ports),
      (''/ports/<str>'', [M_GET, M_POST, M_DELETE], ports_NAME),
      (''/catalogs/vnf'', [M_GET], on_GET Get_catalogs_vnf),
      (''/vnfs/<str>/coremask/<int>'', [M_PUT], vnfs_NAME_coremask_BLOCKID),
      (''/vnfs/<str>/reset'', [M_PUT], on_PUT Put_reset),
      (''/vnfs/<str>/deploy'', [M_PUT], on_PUT Put_deploy),
      (''/vnfs/<str>/undeploy'', [M_PUT], on_PUT Put_undeploy),
      (''/ppps'', [M_GET], on_GET Get_ppps),
      (''/ppps/<str>'', [M_GET, M_POST, M_DELETE], ppps_NAME)]"

text \<open>\<open>Middleware::after_handle\<close>.\<close>

definition after_handle :: "'j response \<Rightarrow> 'j response" where
  "after_handle r = add_header ''X-Packet-Is-Everything'' ''true'' (add_header ''Access-Control-Allow-Origin'' ''*'' r)"

definition perform :: "('h, 'e, 'w, 'r, 'k) nvenv \<Rightarrow> 'f reports \<Rightarrow> nat \<Rightarrow> rest_call \<Rightarrow> ('h, 'e, 'w, 'r, 'k, 'f answer response) nvop" where
  "perform X R n c = (case c of
      Change q \<Rightarrow> bnd (handle X q) (\<lambda>a. ret (response_json (Ans_reply a)))
    | Report g \<Rightarrow> bnd (handle_get X R n g) (\<lambda>j. ret (response_json (Ans_json j))))"

definition route_handler :: "('h, 'e, 'w, 'r, 'k) nvenv \<Rightarrow> 'f reports \<Rightarrow> nat \<Rightarrow> (string \<Rightarrow> body) \<Rightarrow> 'd route_fun \<Rightarrow>
    crow_request \<Rightarrow> 'd arg list \<Rightarrow> ('h, 'e, 'w, 'r, 'k, 'f answer response) nvop" where
  "route_handler X R n load f q as s =
     (case f (req_method q) (load (req_body q)) as of None \<Rightarrow> None | Some c \<Rightarrow> perform X R n c s)"

fun crow_route where
  "crow_route X R n load (url, ms, f) =
     map_option (\<lambda>r. rule_set_handler (route_handler X R n load f) (rule_set_methods ms r)) (tagged_rule url)"

text \<open>\<open>None\<close> if one of them does not compile.\<close>

definition susanow_rules where
  "susanow_rules X R n load = those (map (crow_route X R n load) route_table)"

definition table_rules where
  "table_rules X R n load = map (\<lambda>(url, ms, f). \<lparr>rule_url = url, rule_name = [], rule_methods = methods_mask ms,
     rule_types = map handler_type (param_list (the (rule_pat url))), rule_handler = Some (route_handler X R n load f)\<rparr>) route_table"

lemma table_urls: "\<forall>x\<in>set route_table. plain_url (fst x) \<and> length (param_list (the (rule_pat (fst x)))) \<le> 24"
  by (simp add: route_table_def plain_url_def tag_at_cases begins_def)

lemma those_map: "(\<And>x. x \<in> set xs \<Longrightarrow> f x = Some (g x)) \<Longrightarrow> those (map f xs) = Some (map g xs)"
  by (induction xs) auto

lemma susanow_rules_table: "susanow_rules X R n load = Some (table_rules X R n load)"
  unfolding susanow_rules_def table_rules_def
proof (rule those_map, goal_cases)
  case (1 x)
  obtain url ms f where u: "x = (url, ms, f)" by (cases x)
  obtain p where p: "rule_pat url = Some p" "length (param_list p) \<le> 24"
    using bspec [OF table_urls 1] u by (auto simp: plain_url_def)
  show ?case using p by (simp add: tagged_rule_types [OF p] u new_rule_def rule_set_handler_def rule_set_methods_def)
qed

lemma table_rule_urls:
  "map rule_url (table_rules X R n load) =
     [''/'', ''/system'', ''/system/cpu'', ''/system/mem'', ''/system/pnic'', ''/vnfs'', ''/vnfs/<str>'', ''/vnfs/<str>/ports/<int>'',
      ''/ports'', ''/ports/<str>'', ''/catalogs/vnf'', ''/vnfs/<str>/coremask/<int>'', ''/vnfs/<str>/reset'', ''/vnfs/<str>/deploy'',
      ''/vnfs/<str>/undeploy'', ''/ppps'', ''/ppps/<str>'']"
  by (simp add: table_rules_def route_table_def)

lemma table_starts: "\<exists>R'. start_router (table_rules X R n load) = Some (Return R')"
proof (rule start_router_ok)
  show "list_all (\<lambda>r. plain_url (rule_url r) \<and> rule_handler r \<noteq> None) (table_rules X R n load)"
    using table_urls by (auto simp: table_rules_def list_all_iff)
  show "distinct (map fst (entries 2 (map rule_url (table_rules X R n load))))"
    unfolding table_rule_urls by (simp add: tag_at_cases begins_def slashed_def)
qed

subsection \<open>Which request a URL makes\<close>

text \<open>The reference: the first rule of the table that pat_matches, if it has the method; what its handler gets is
  what the parameters take from the URL.\<close>

fun pick :: "'d strtod \<Rightarrow> (string \<Rightarrow> body) \<Rightarrow> (string \<times> HTTPMethod list \<times> 'd route_fun) list \<Rightarrow> crow_request \<Rightarrow> rest_call option" where
  "pick sd load [] q = None"
| "pick sd load ((url, ms, f) # t) q =
     (case pat_matches sd (the (rule_pat url)) (req_url q) no_params of
        None \<Rightarrow> pick sd load t q
      | Some ps \<Rightarrow>
          if req_method q \<in> method_no ` set ms
          then f (req_method q) (load (req_body q)) (captured sd (the (rule_pat url)) (req_url q)) else None)"

lemma methods_mask_bit: "ms \<noteq> [] \<Longrightarrow> bit (methods_mask ms) m \<longleftrightarrow> m \<in> method_no ` set ms"
proof (induction ms rule: methods_mask.induct)
  case (2 x)
  have "method_no x < 32" using method_no_bound [of x] by simp
  then show ?case by (auto simp: bit_push_bit_iff bit_1_iff bit_exp_iff)
next
  case (3 x y ms)
  have "method_no x < 32" using method_no_bound [of x] by simp
  then show ?case using 3 by (auto simp: bit_or_iff bit_push_bit_iff bit_1_iff bit_exp_iff)
qed simp

lemma methods_test: "and (w :: u32) (push_bit m 1) = 0 \<longleftrightarrow> \<not> bit w m"
proof
  assume a: "and w (push_bit m 1) = 0"
  show "\<not> bit w m"
  proof
    assume b: "bit w m"
    then have "m < 32" using bit_imp_le_length by fastforce
    then have "bit (and w (push_bit m 1)) m" using b by (simp add: bit_and_iff bit_push_bit_iff bit_exp_iff)
    then show False using a by simp
  qed
next
  assume "\<not> bit w m"
  then show "and w (push_bit m 1) = 0" by (intro bit_word_eqI) (auto simp: bit_and_iff bit_push_bit_iff bit_1_iff bit_exp_iff)
qed

lemma methods_test_exp: "and (w :: u32) (2 ^ m) = 0 \<longleftrightarrow> \<not> bit w m"
  using methods_test [of w m] by (simp add: push_bit_eq_mult)

lemma pick_first:
  "pick sd load t q =
     (case first_match sd i (map fst t) (req_url q) of
        None \<Rightarrow> None
      | Some (j, ps) \<Rightarrow>
          (case t ! (j - i) of (url, ms, f) \<Rightarrow>
             if req_method q \<in> method_no ` set ms
             then f (req_method q) (load (req_body q)) (captured sd (the (rule_pat url)) (req_url q)) else None))"
proof (induction t arbitrary: i)
  case (Cons x t)
  obtain url ms f where x: "x = (url, ms, f)" by (cases x)
  show ?case
  proof (cases "pat_matches sd (the (rule_pat url)) (req_url q) no_params")
    case None
    have "j - i = Suc (j - Suc i)" if "first_match sd (Suc i) (map fst t) (req_url q) = Some (j, ps)" for j ps
      using first_match_entry [OF that] by auto
    then show ?thesis using None Cons.IH [of "Suc i"] by (auto simp: x split: option.splits)
  qed (simp add: x)
qed simp

lemma table_calls:
  "(url, ms, f) \<in> set route_table \<Longrightarrow> ms \<noteq> [] \<and>
     (m \<in> method_no ` set ms \<longrightarrow> list_all2 arg_fits (map handler_type (param_list (the (rule_pat url)))) as \<longrightarrow> f m b as \<noteq> None)"
proof -
  assume "(url, ms, f) \<in> set route_table"
  moreover have s: "list_all2 arg_fits [P_STRING] as \<longleftrightarrow> (\<exists>n. as = [A_string n])"
    by (auto simp: list_all2_Cons1 elim: arg_fits.elims)
  moreover have si: "list_all2 arg_fits [P_STRING, P_INT] as \<longleftrightarrow> (\<exists>n i. as = [A_string n, A_int i])"
    by (auto simp: list_all2_Cons1 elim!: arg_fits.elims)
  ultimately show ?thesis
    by (simp only: route_table_def list.set insert_iff empty_iff prod.inject)
      (elim disjE conjE; simp add: tag_at_cases begins_def on_get_def on_GET_def s si; fastforce)
qed

lemma call_captured:
  "pat_matches sd p url no_params = Some ps \<Longrightarrow> call_args (map handler_type (param_list p)) (0, 0, 0, 0) ps = Some (captured sd p url)"
  using call_args_fold [OF captured_fits [of sd p url no_params], of no_params] pat_matches_captured [of sd p url no_params ps]
  by (simp add: no_params_def)

lemma first_match_nth: "first_match sd i us url = Some (j, ps) \<Longrightarrow> pat_matches sd (the (rule_pat (us ! (j - i)))) url no_params = Some ps"
proof (induction us arbitrary: i)
  case (Cons u us)
  show ?case
  proof (cases "pat_matches sd (the (rule_pat u)) url no_params")
    case None
    then have f: "first_match sd (Suc i) us url = Some (j, ps)" using Cons.prems by simp
    then have "Suc i \<le> j" using first_match_entry by blast
    then have "j - i = Suc (j - Suc i)" by simp
    then show ?thesis using Cons.IH [OF f] by simp
  qed (use Cons.prems in simp)
qed simp

theorem rest_pick:
  fixes sd :: "'d strtod"
  assumes "start_router (table_rules X R n load) = Some (Return T)" "strtod_ok sd"
  shows "router_handle err sd T q =
     (case pick sd load route_table q of
        None \<Rightarrow> ret (response_ended 404)
      | Some c \<Rightarrow> catch (bnd (perform X R n c) (\<lambda>res. ret (response_end res))) (\<lambda>_. ret (response_ended 500)))"
proof -
  let ?rt = "route_table :: (string \<times> HTTPMethod list \<times> 'd route_fun) list"
  let ?rs = "table_rules X R n load :: (_, _, 'd, _) rule list"
  have pl: "list_all (\<lambda>r. rule_pat (rule_url r) \<noteq> None) ?rs" using table_urls by (auto simp: table_rules_def list_all_iff plain_url_def)
  have urls: "map rule_url ?rs = map fst ?rt" unfolding table_rule_urls by (simp add: route_table_def)
  have red: "\<not> redirects sd (map rule_url ?rs) (req_url q)" unfolding table_rule_urls by (simp add: redirects_def slashed_def)
  have h: "router_handle err sd T q = handle_spec err sd ?rs q" by (rule router_handle_spec [OF assms(1) pl assms(2)])
  show ?thesis
  proof (cases "first_match sd 2 (map rule_url ?rs) (req_url q)")
    case None
    then have "pick sd load ?rt q = None" using pick_first [of sd load ?rt q 2] urls by simp
    then show ?thesis unfolding h using None red by (simp add: handle_spec_def)
  next
    case (Some jp)
    obtain j ps where jp: "jp = (j, ps)" by force
    have j: "2 \<le> j" "j < 2 + length ?rs" using first_match_entry [of sd 2 "map rule_url ?rs" "req_url q" j ps] Some jp by auto
    obtain url ms f where u: "?rt ! (j - 2) = (url, ms, f)" by (cases "?rt ! (j - 2)")
    have l: "j - 2 < length ?rt" using j by (simp add: table_rules_def)
    have ru: "?rs ! (j - 2) = \<lparr>rule_url = url, rule_name = [], rule_methods = methods_mask ms,
       rule_types = map handler_type (param_list (the (rule_pat url))), rule_handler = Some (route_handler X R n load f)\<rparr>"
      using l u by (simp add: table_rules_def)
    have url: "map rule_url ?rs ! (j - 2) = url" using l u unfolding urls by simp
    have m: "pat_matches sd (the (rule_pat url)) (req_url q) no_params = Some ps"
      using first_match_nth [of sd 2 "map rule_url ?rs" "req_url q" j ps] Some jp url by simp
    note call = call_captured [OF m]
    have in_table: "(url, ms, f) \<in> set ?rt" using nth_mem [OF l] u by simp
    have ms: "ms \<noteq> []" using table_calls [OF in_table] by blast
    have pk: "pick sd load ?rt q = (if req_method q \<in> method_no ` set ms
       then f (req_method q) (load (req_body q)) (captured sd (the (rule_pat url)) (req_url q)) else None)"
      using pick_first [of sd load ?rt q 2] Some jp u urls by simp
    show ?thesis
    proof (cases "req_method q \<in> method_no ` set ms")
      case False
      then show ?thesis unfolding h pk using Some jp red ru by (simp add: handle_spec_def Let_def methods_test_exp methods_mask_bit [OF ms])
    next
      case True
      have "list_all2 arg_fits (map handler_type (param_list (the (rule_pat url)))) (captured sd (the (rule_pat url)) (req_url q))"
        using captured_fits [of sd _ _ no_params] m by blast
      then obtain c where c: "f (req_method q) (load (req_body q)) (captured sd (the (rule_pat url)) (req_url q)) = Some c"
        using table_calls [OF in_table] True by blast
      have "rule_handle err (?rs ! (j - 2)) q ps = bnd (perform X R n c) (\<lambda>res. ret (response_end res))"
        by (intro ext) (simp add: rule_handle_def ru call bnd_def route_handler_def c)
      then show ?thesis unfolding h pk using Some jp red ru True c by (simp add: handle_spec_def Let_def methods_test_exp methods_mask_bit [OF ms])
    qed
  qed
qed

subsection \<open>Every request has a URL\<close>

definition good_name :: "string \<Rightarrow> bool" where
  "good_name n \<longleftrightarrow> n \<noteq> [] \<and> CHR ''/'' \<notin> set n"

definition good_int :: "int \<Rightarrow> bool" where
  "good_int i \<longleftrightarrow> - (2 ^ 31) \<le> i \<and> i < 2 ^ 31"

definition int_text :: "int \<Rightarrow> string" where
  "int_text i = (if i < 0 then CHR ''-'' # dec (nat (- i)) else dec (nat i))"

lemma dec_digits: "dec n \<noteq> [] \<and> list_all isdigit (dec n) \<and> digits_value (dec n) = n"
proof (induction n rule: dec.induct)
  case (1 n)
  have d: "isdigit (char_of (48 + k))" "of_char (char_of (48 + k) :: char) = 48 + k" if "k < 10" for k :: nat
    using that by (simp_all add: isdigit_def Let_def)
  show ?case
  proof (cases "n < 10")
    case True
    then show ?thesis by (simp add: dec.simps [of n] d digits_value_def)
  next
    case False
    then show ?thesis using 1 by (simp add: dec.simps [of n] d digits_value_def)
  qed
qed

lemma dec_read: "dec n \<noteq> []" "takeWhile isdigit (dec n) = dec n" "dropWhile isdigit (dec n) = []" "digits_value (dec n) = n"
  using dec_digits [of n] by (simp_all add: takeWhile_eq_all_conv list_all_iff)

lemma name_slash: "CHR ''/'' \<notin> set n \<Longrightarrow> takeWhile (\<lambda>x. x \<noteq> CHR ''/'') (n @ CHR ''/'' # r) = n"
  "CHR ''/'' \<notin> set n \<Longrightarrow> dropWhile (\<lambda>x. x \<noteq> CHR ''/'') (n @ CHR ''/'' # r) = CHR ''/'' # r"
  by (induction n) auto

lemma strtol10_text: "strtol10 (int_text i) = Some (i, [])"
proof (cases "i < 0")
  case True
  then show ?thesis by (simp add: strtol10_def int_text_def Let_def dec_read)
next
  case False
  obtain c cs where c: "dec (nat i) = c # cs" using dec_digits [of "nat i"] by (cases "dec (nat i)") auto
  then have "isdigit c" using dec_digits [of "nat i"] by simp
  then have "c \<noteq> CHR ''-''" "c \<noteq> CHR ''+''" by (auto simp: isdigit_def)
  then show ?thesis using False dec_read [of "nat i"] unfolding c by (simp add: strtol10_def int_text_def Let_def c)
qed

lemma eat_int_text: "good_int i \<Longrightarrow> eat sd P_INT (int_text i) = Some (A_int i, [])"
proof -
  assume g: "good_int i"
  obtain c cs where c: "int_text i = c # cs" "isdigit c \<or> c = CHR ''-''"
    using dec_digits [of "nat i"] by (cases "i < 0"; cases "dec (nat i)") (auto simp: int_text_def)
  show ?thesis using g strtol10_text [of i] c by (auto simp: eat_def good_int_def)
qed

lemma eat_name:
  "good_name n \<Longrightarrow> eat sd P_STRING n = Some (A_string n, [])"
  "good_name n \<Longrightarrow> eat sd P_STRING (n @ CHR ''/'' # r) = Some (A_string n, CHR ''/'' # r)"
proof -
  assume g: "good_name n"
  then have t: "takeWhile (\<lambda>x. x \<noteq> CHR ''/'') n = n" "dropWhile (\<lambda>x. x \<noteq> CHR ''/'') n = []"
    by (auto simp: good_name_def takeWhile_eq_all_conv)
  have u: "takeWhile (\<lambda>x. x \<noteq> CHR ''/'') (n @ CHR ''/'' # r) = n" "dropWhile (\<lambda>x. x \<noteq> CHR ''/'') (n @ CHR ''/'' # r) = CHR ''/'' # r"
    using g name_slash by (auto simp: good_name_def)
  show "eat sd P_STRING n = Some (A_string n, [])" using g t by (cases n) (auto simp: eat_def good_name_def)
  show "eat sd P_STRING (n @ CHR ''/'' # r) = Some (A_string n, CHR ''/'' # r)" using g u by (cases n) (auto simp: eat_def good_name_def)
qed

lemma to_int_good: "good_int i \<Longrightarrow> to_int i = i"
  by (simp add: to_int_def good_int_def signed_take_bit_int_eq_self sint_sbintrunc')

text \<open>The method and the URL of a request, and its body if it has one.\<close>

fun change_url :: "request \<Rightarrow> HTTPMethod \<times> string \<times> body option" where
  "change_url (Post_vnf n b) = (M_POST, ''/vnfs/'' @ n, Some b)"
| "change_url (Delete_vnf n) = (M_DELETE, ''/vnfs/'' @ n, None)"
| "change_url (Put_vnf_port n i b) = (M_PUT, ''/vnfs/'' @ n @ ''/ports/'' @ int_text i, Some b)"
| "change_url (Delete_vnf_port n i) = (M_DELETE, ''/vnfs/'' @ n @ ''/ports/'' @ int_text i, None)"
| "change_url (Put_coremask n i b) = (M_PUT, ''/vnfs/'' @ n @ ''/coremask/'' @ int_text i, Some b)"
| "change_url (Put_reset n) = (M_PUT, ''/vnfs/'' @ n @ ''/reset'', None)"
| "change_url (Put_deploy n) = (M_PUT, ''/vnfs/'' @ n @ ''/deploy'', None)"
| "change_url (Put_undeploy n) = (M_PUT, ''/vnfs/'' @ n @ ''/undeploy'', None)"
| "change_url (Post_port n b) = (M_POST, ''/ports/'' @ n, Some b)"
| "change_url (Delete_port n) = (M_DELETE, ''/ports/'' @ n, None)"
| "change_url (Post_ppp n b) = (M_POST, ''/ppps/'' @ n, Some b)"
| "change_url (Delete_ppp n) = (M_DELETE, ''/ppps/'' @ n, None)"

fun report_url :: "get_request \<Rightarrow> string" where
  "report_url Get_root = ''/''"
| "report_url Get_system = ''/system''"
| "report_url Get_system_cpu = ''/system/cpu''"
| "report_url Get_system_mem = ''/system/mem''"
| "report_url Get_system_pnic = ''/system/pnic''"
| "report_url Get_vnfs = ''/vnfs''"
| "report_url (Get_vnf n) = ''/vnfs/'' @ n"
| "report_url Get_ports = ''/ports''"
| "report_url (Get_port n) = ''/ports/'' @ n"
| "report_url Get_catalogs_vnf = ''/catalogs/vnf''"
| "report_url Get_ppps = ''/ppps''"
| "report_url (Get_ppp n) = ''/ppps/'' @ n"

fun call_url :: "rest_call \<Rightarrow> HTTPMethod \<times> string \<times> body option" where
  "call_url (Change r) = change_url r"
| "call_url (Report g) = (M_GET, report_url g, None)"

text \<open>Names without a slash, numbers of 32 bits.\<close>

fun good_change :: "request \<Rightarrow> bool" where
  "good_change (Post_vnf n b) = good_name n" | "good_change (Delete_vnf n) = good_name n"
| "good_change (Put_vnf_port n i b) = (good_name n \<and> good_int i)" | "good_change (Delete_vnf_port n i) = (good_name n \<and> good_int i)"
| "good_change (Put_coremask n i b) = (good_name n \<and> good_int i)"
| "good_change (Put_reset n) = good_name n" | "good_change (Put_deploy n) = good_name n" | "good_change (Put_undeploy n) = good_name n"
| "good_change (Post_port n b) = good_name n" | "good_change (Delete_port n) = good_name n"
| "good_change (Post_ppp n b) = good_name n" | "good_change (Delete_ppp n) = good_name n"

fun good_call :: "rest_call \<Rightarrow> bool" where
  "good_call (Change r) = good_change r"
| "good_call (Report (Get_vnf n)) = good_name n" | "good_call (Report (Get_port n)) = good_name n" | "good_call (Report (Get_ppp n)) = good_name n"
| "good_call (Report _) = True"

definition asks :: "(string \<Rightarrow> body) \<Rightarrow> crow_request \<Rightarrow> rest_call \<Rightarrow> bool" where
  "asks load q c = (case call_url c of (m, url, b) \<Rightarrow> req_method q = method_no m \<and> req_url q = url \<and> (\<forall>x. b = Some x \<longrightarrow> load (req_body q) = x))"

lemma pick_change: "good_change r \<Longrightarrow> asks load q (Change r) \<Longrightarrow> pick sd load route_table q = Some (Change r)"
  by (cases r)
    (auto simp: asks_def route_table_def tag_at_cases begins_def eat_name eat_int_text to_int_good on_get_def on_GET_def good_name_def)

lemma pick_report: "good_call (Report g) \<Longrightarrow> asks load q (Report g) \<Longrightarrow> pick sd load route_table q = Some (Report g)"
  by (cases g)
    (auto simp: asks_def route_table_def tag_at_cases begins_def eat_name eat_int_text to_int_good on_get_def on_GET_def good_name_def)

lemma pick_call: "good_call c \<Longrightarrow> asks load q c \<Longrightarrow> pick sd load route_table q = Some c"
  using pick_change pick_report by (cases c) auto

text \<open>The server of Susanow, and what it answers.\<close>

definition susanow_router where
  "susanow_router X R n load = (case susanow_rules X R n load of None \<Rightarrow> None | Some rs \<Rightarrow> start_router rs)"

lemma susanow_router_starts: "\<exists>T. susanow_router X R n load = Some (Return T)"
  using table_starts by (simp add: susanow_router_def susanow_rules_table)

theorem rest_dispatch:
  assumes "susanow_router X R n load = Some (Return T)" "strtod_ok sd"
  shows "router_handle err sd T q =
     (case pick sd load route_table q of
        None \<Rightarrow> ret (response_ended 404)
      | Some c \<Rightarrow> catch (bnd (perform X R n c) (\<lambda>res. ret (response_end res))) (\<lambda>_. ret (response_ended 500)))"
  using assms rest_pick [of X R n load T sd err q] by (simp add: susanow_router_def susanow_rules_table)

lemma rest_dispatch_call:
  fixes sd :: "'d strtod"
  assumes "good_call c" "asks load q c" "strtod_ok sd"
  shows "\<exists>T. susanow_router X R n load = Some (Return T) \<and>
     router_handle err sd T q = catch (bnd (perform X R n c) (\<lambda>res. ret (response_end res))) (\<lambda>_. ret (response_ended 500))"
proof -
  obtain T :: "(_, _, 'd, _) router" where T: "susanow_router X R n load = Some (Return T)" using susanow_router_starts by blast
  show ?thesis using rest_dispatch [OF T assms(3)] pick_call [where sd = sd, OF assms(1,2)] T by auto
qed

text \<open>C39. Every request of the interface that changes or reports something, with names that hold no slash and
  numbers of 32 bits, has a method and a URL that reach it: the router that \<open>rest_api_thread\<close> sets up starts, finds
  the handler of that request in its trie, hands it the name, the number and the body, and answers with what the
  handler returns, or with 500 if it throws.\<close>

theorem rest_reaches:
  fixes sd :: "'d strtod"
  assumes "good_call c" "asks load q c" "strtod_ok sd"
  shows "\<exists>T. susanow_router X R n load = Some (Return T) \<and>
     router_handle err sd T q = catch (bnd (perform X R n c) (\<lambda>res. ret (response_end res))) (\<lambda>_. ret (response_ended 500))"
  by (rule rest_dispatch_call [OF assms])

definition demo_put :: crow_request where
  "demo_put = \<lparr>req_method = 4, raw_url = ''/vnfs/nat0/ports/1'', req_url = ''/vnfs/nat0/ports/1'', req_headers = [], req_body = ''{}''\<rparr>"

definition demo_load :: "string \<Rightarrow> body" where
  "demo_load s = \<lparr>bd_str = [[''pname''] \<mapsto> s], bd_int = Map.empty\<rparr>"

lemma int_text_1: "int_text 1 = ''1''"
  by code_simp

lemma no_strtod: "strtod_ok (\<lambda>s. None)"
  by (simp add: strtod_ok_def)

theorem rest_reaches_witness:
  "\<forall>X R n err. \<exists>T. susanow_router X R n demo_load = Some (Return T) \<and>
     router_handle err (\<lambda>s. None) T demo_put =
       catch (bnd (perform X R n (Change (Put_vnf_port ''nat0'' 1 (demo_load ''{}'')))) (\<lambda>res. ret (response_end res))) (\<lambda>_. ret (response_ended 500))"
  by (intro allI rest_reaches no_strtod)
    (simp_all add: good_name_def good_int_def asks_def demo_put_def int_text_1)

text \<open>The number of a port in a URL is cut to 32 bits without a word: a request for port 4294967296 of a VNF
  is carried out on its port 0.\<close>

theorem port_number_wraps:
  assumes "good_name n" "req_method q = method_no M_DELETE" "req_url q = ''/vnfs/'' @ n @ ''/ports/4294967296''"
  shows "pick sd load route_table q = Some (Change (Delete_vnf_port n 0))"
proof -
  have "eat sd P_INT ''4294967296'' = Some (A_int 4294967296, [])"
    by (simp add: eat_def strtol10_def digits_value_def isdigit_def)
  moreover have "to_int 4294967296 = 0" by (simp add: to_int_def sint_sbintrunc')
  ultimately show ?thesis using assms
    by (simp add: route_table_def tag_at_cases begins_def eat_name on_get_def on_GET_def good_name_def)
qed

end
