(* ===== verification/Crow_Json.thy ===== *)
theory Crow_Json
  imports Crow_Match
begin

section \<open>JSON (lib/crow/include/crow/json.h)\<close>

text \<open>
  The parser works on a buffer that ends with a zero byte; here it works on what is left of the buffer, and
  \<open>Fault\<close> is a read behind its end. \<open>Got None\<close> is a value with the error bit. A string keeps its text with the
  escapes and the mark that there are some, as the buffer does.
\<close>

unbundle bit_operations_syntax

abbreviation NUL :: char where "NUL \<equiv> CHR 0x00"
abbreviation QUOTE :: char where "QUOTE \<equiv> CHR 0x22"
abbreviation BACKSLASH :: char where "BACKSLASH \<equiv> CHR 0x5C"

subsection \<open>Escapes\<close>

definition to_hex :: "nat \<Rightarrow> char" where
  "to_hex n = (let n = n mod 16 in if n < 10 then char_of (48 + n) else char_of (97 + n - 10))"

definition escape_char :: "char \<Rightarrow> string" where
  "escape_char c =
     (if c = QUOTE then [BACKSLASH, QUOTE] else if c = BACKSLASH then [BACKSLASH, BACKSLASH]
      else if c = CHR 0x0A then [BACKSLASH, CHR ''n''] else if c = CHR 0x08 then [BACKSLASH, CHR ''b'']
      else if c = CHR 0x0C then [BACKSLASH, CHR ''f''] else if c = CHR 0x0D then [BACKSLASH, CHR ''r'']
      else if c = CHR 0x09 then [BACKSLASH, CHR ''t'']
      else if (of_char c :: nat) < 32
      then [BACKSLASH, CHR ''u'', CHR ''0'', CHR ''0'', to_hex (of_char c div 16), to_hex (of_char c mod 16)]
      else [c])"

definition escape :: "string \<Rightarrow> string" where
  "escape s = concat (map escape_char s)"

text \<open>A \<open>char\<close> has a sign.\<close>

definition schar :: "char \<Rightarrow> int" where
  "schar c = (let n = of_char c :: int in if n < 128 then n else n - 256)"

definition from_hex :: "char \<Rightarrow> int" where
  "from_hex c = (if 97 \<le> schar c then schar c - 97 + 10 else if 65 \<le> schar c then schar c - 65 + 10 else schar c - 48)"

definition hex_code :: "char \<Rightarrow> char \<Rightarrow> char \<Rightarrow> char \<Rightarrow> nat" where
  "hex_code a b c d = nat ((from_hex a * 4096 + from_hex b * 256 + from_hex c * 16 + from_hex d) mod 2 ^ 32)"

definition utf8 :: "nat \<Rightarrow> string" where
  "utf8 code =
     (if 0x800 \<le> code then [char_of (0xE0 OR drop_bit 12 code), char_of (0x80 OR (drop_bit 6 code AND 0x3F)), char_of (0x80 OR (code AND 0x3F))]
      else if 0x80 \<le> code then [char_of (0xC0 OR drop_bit 6 code), char_of (0x80 OR (code AND 0x3F))]
      else [char_of code])"

definition simple_escape :: "char \<Rightarrow> string" where
  "simple_escape d =
     (if d = QUOTE then [QUOTE] else if d = BACKSLASH then [BACKSLASH] else if d = CHR ''/'' then [CHR ''/'']
      else if d = CHR ''b'' then [CHR 0x08] else if d = CHR ''f'' then [CHR 0x0C] else if d = CHR ''n'' then [CHR 0x0A]
      else if d = CHR ''r'' then [CHR 0x0D] else if d = CHR ''t'' then [CHR 0x09] else [])"

function unescape :: "string \<Rightarrow> string option" where
  "unescape [] = Some []"
| "unescape (c # r) =
     (if c \<noteq> BACKSLASH then map_option ((#) c) (unescape r)
      else (case r of
              [] \<Rightarrow> None
            | d # r \<Rightarrow>
                if d = CHR ''u'' then
                  (case r of
                     h1 # h2 # h3 # h4 # r \<Rightarrow> map_option ((@) (utf8 (hex_code h1 h2 h3 h4))) (unescape r)
                   | _ \<Rightarrow> None)
                else map_option ((@) (simple_escape d)) (unescape r)))"
  by pat_completeness auto
termination by (relation "measure length") auto

subsection \<open>Values and the parser\<close>

datatype rvalue = R_null | R_true | R_false | R_num string | R_str bool string | R_list "rvalue list" | R_obj "(string \<times> rvalue) list"

datatype 'a parsed = Fault | Got "'a option" string

definition r_text :: "bool \<Rightarrow> string \<Rightarrow> string option" where
  "r_text esc raw = (if esc then unescape raw else Some raw)"

definition is_ws :: "char \<Rightarrow> bool" where
  "is_ws c \<longleftrightarrow> c = CHR '' '' \<or> c = CHR 0x09 \<or> c = CHR 0x0D \<or> c = CHR 0x0A"

definition ws_skip :: "string \<Rightarrow> string" where
  "ws_skip = dropWhile is_ws"

definition json_hex :: "char \<Rightarrow> bool" where
  "json_hex c \<longleftrightarrow> isdigit c \<or> 97 \<le> schar c \<and> schar c \<le> 102 \<or> 65 \<le> schar c \<and> schar c \<le> 70"

text \<open>Tests of the next bytes, which stop at the first that fails; \<open>None\<close> is a read behind the end.\<close>

fun hex_ahead :: "nat \<Rightarrow> string \<Rightarrow> bool option" where
  "hex_ahead 0 s = Some True"
| "hex_ahead (Suc n) [] = None"
| "hex_ahead (Suc n) (c # r) = (if json_hex c then hex_ahead n r else Some False)"

fun lit_ahead :: "string \<Rightarrow> string \<Rightarrow> bool option" where
  "lit_ahead [] s = Some True"
| "lit_ahead (a # l) [] = None"
| "lit_ahead (a # l) (c # r) = (if a = c then lit_ahead l r else Some False)"

function scan_string :: "bool \<Rightarrow> string \<Rightarrow> string \<Rightarrow> (bool \<times> string) parsed" where
  "scan_string esc raw [] = Fault"
| "scan_string esc raw (c # r) =
     (if c \<noteq> QUOTE \<and> c \<noteq> BACKSLASH \<and> c \<noteq> NUL then scan_string esc (raw @ [c]) r
      else if c = QUOTE then Got (Some (esc, raw)) r
      else if c = BACKSLASH then
        (case r of
           [] \<Rightarrow> Fault
         | d # q \<Rightarrow>
             if d = CHR ''u'' then
               (case hex_ahead 4 q of
                  None \<Rightarrow> Fault
                | Some False \<Rightarrow> Got None r
                | Some True \<Rightarrow> scan_string True (raw @ [c, d] @ take 4 q) (drop 4 q))
             else if d \<in> {QUOTE, BACKSLASH, CHR ''/'', CHR ''b'', CHR ''f'', CHR ''n'', CHR ''r'', CHR ''t''}
             then scan_string True (raw @ [c, d]) q
             else Got None r)
      else Got None (c # r))"
  by pat_completeness auto
termination by (relation "measure (\<lambda>(_, _, s). length s)") auto

definition decode_string :: "string \<Rightarrow> (bool \<times> string) parsed" where
  "decode_string s = (case s of [] \<Rightarrow> Fault | c # r \<Rightarrow> if c \<noteq> QUOTE then Got None s else scan_string False [] r)"

text \<open>The states of a number: 0 \<open>Minus\<close>, 1 \<open>AfterMinus\<close>, 2 \<open>ZeroFirst\<close>, 3 \<open>Digits\<close>, 4 \<open>DigitsAfterPoints\<close>,
  5 \<open>E\<close>, 6 \<open>DigitsAfterE\<close>, 7 \<open>Invalid\<close>.\<close>

function number_loop :: "nat \<Rightarrow> string \<Rightarrow> unit parsed" where
  "number_loop st [] = (if st = 7 then Got None [] else Fault)"
| "number_loop st (c # r) =
     (if st = 7 then Got None (c # r)
      else if c = CHR ''0'' then number_loop ([2, 2, 7, 3, 4, 6, 6] ! st) r
      else if isdigit c then
        (case dropWhile isdigit r of [] \<Rightarrow> Fault | d # q \<Rightarrow> number_loop ([3, 3, 7, 3, 4, 6, 6] ! st) (d # q))
      else if c = CHR ''.'' then number_loop ([7, 7, 4, 4, 7, 7, 7] ! st) r
      else if c = CHR ''-'' then number_loop ([1, 7, 7, 7, 7, 6, 7] ! st) r
      else if c = CHR ''+'' then number_loop ([7, 7, 7, 7, 7, 6, 7] ! st) r
      else if c = CHR ''e'' \<or> c = CHR ''E'' then number_loop ([7, 7, 7, 5, 5, 7, 7] ! st) r
      else if st = 2 \<or> st = 3 \<or> st = 4 \<or> st = 6 then Got (Some ()) (c # r)
      else Got None (c # r))"
  by pat_completeness auto
termination
proof (relation "measure (\<lambda>(_, s). length s)")
  fix st c r d q assume "dropWhile isdigit r = d # q"
  then have "length (d # q) \<le> length r" by (metis length_dropWhile_le)
  then show "(([3, 3, 7, 3, 4, 6, 6] ! st, d # q), (st, c # r)) \<in> measure (\<lambda>(_, s). length s)" by simp
qed auto

definition decode_number :: "string \<Rightarrow> rvalue parsed" where
  "decode_number s = (case number_loop 0 s of
      Fault \<Rightarrow> Fault
    | Got None r \<Rightarrow> Got None r
    | Got (Some _) r \<Rightarrow> Got (Some (R_num (take (length s - length r) s))) r)"

definition decode_lit :: "string \<Rightarrow> rvalue \<Rightarrow> string \<Rightarrow> rvalue parsed" where
  "decode_lit l v s = (case lit_ahead l s of
      None \<Rightarrow> Fault
    | Some False \<Rightarrow> Got None s
    | Some True \<Rightarrow> Got (Some v) (drop (length l) s))"

fun decode_value :: "nat \<Rightarrow> string \<Rightarrow> rvalue parsed"
and decode_items :: "nat \<Rightarrow> rvalue list \<Rightarrow> string \<Rightarrow> rvalue parsed"
and decode_members :: "nat \<Rightarrow> (string \<times> rvalue) list \<Rightarrow> string \<Rightarrow> rvalue parsed" where
  "decode_value 0 s = Fault"
| "decode_value (Suc f) s =
     (case s of
        [] \<Rightarrow> Fault
      | c # r \<Rightarrow>
          if c = CHR ''['' then
            (case ws_skip r of [] \<Rightarrow> Fault | d # q \<Rightarrow> if d = CHR '']'' then Got (Some (R_list [])) q else decode_items f [] (d # q))
          else if c = CHR ''{'' then
            (case ws_skip r of [] \<Rightarrow> Fault | d # q \<Rightarrow> if d = CHR ''}'' then Got (Some (R_obj [])) q else decode_members f [] (d # q))
          else if c = QUOTE then
            (case decode_string s of Fault \<Rightarrow> Fault | Got x r \<Rightarrow> Got (map_option (\<lambda>(esc, raw). R_str esc raw) x) r)
          else if c = CHR ''t'' then decode_lit ''true'' R_true s
          else if c = CHR ''f'' then decode_lit ''false'' R_false s
          else if c = CHR ''n'' then decode_lit ''null'' R_null s
          else decode_number s)"
| "decode_items 0 vs s = Fault"
| "decode_items (Suc f) vs s =
     (case decode_value f s of
        Fault \<Rightarrow> Fault
      | Got None r \<Rightarrow> Got None r
      | Got (Some v) r \<Rightarrow>
          (case ws_skip r of
             [] \<Rightarrow> Fault
           | c # q \<Rightarrow>
               if c = CHR '']'' then Got (Some (R_list (vs @ [v]))) q
               else if c \<noteq> CHR '','' then Got None (c # q)
               else decode_items f (vs @ [v]) (ws_skip q)))"
| "decode_members 0 ms s = Fault"
| "decode_members (Suc f) ms s =
     (case decode_string s of
        Fault \<Rightarrow> Fault
      | Got None r \<Rightarrow> Got None r
      | Got (Some (esc, raw)) r \<Rightarrow>
          (case ws_skip r of
             [] \<Rightarrow> Fault
           | c # q \<Rightarrow>
               if c \<noteq> CHR '':'' then Got None (c # q)
               else
                 (case r_text esc raw of
                    None \<Rightarrow> Fault
                  | Some key \<Rightarrow>
                      (case decode_value f (ws_skip q) of
                         Fault \<Rightarrow> Fault
                       | Got None r \<Rightarrow> Got None r
                       | Got (Some v) r \<Rightarrow>
                           (case ws_skip r of
                              [] \<Rightarrow> Fault
                            | c # q \<Rightarrow>
                                if c = CHR ''}'' then Got (Some (R_obj (ms @ [(key, v)]))) q
                                else if c \<noteq> CHR '','' then Got None (c # q)
                                else decode_members f (ms @ [(key, v)]) (ws_skip q))))))"

definition json_fuel :: "string \<Rightarrow> nat" where
  "json_fuel s = 2 * length s + 3"

definition json_parse :: "string \<Rightarrow> rvalue parsed" where
  "json_parse s = (case decode_value (json_fuel s) (ws_skip s) of
      Fault \<Rightarrow> Fault
    | Got v r \<Rightarrow> (case ws_skip r of [] \<Rightarrow> Fault | c # q \<Rightarrow> Got (if c \<noteq> NUL then None else v) (c # q)))"

text \<open>\<open>load\<close>: \<open>None\<close> is a fault, \<open>Some None\<close> a value with the error bit.\<close>

definition json_load :: "string \<Rightarrow> rvalue option option" where
  "json_load text = (case json_parse (text @ [NUL]) of Fault \<Rightarrow> None | Got v _ \<Rightarrow> Some v)"

end
