(* ===== verification/Crow_Json_Total.thy ===== *)
theory Crow_Json_Total
  imports Crow_Json
begin

section \<open>The parser stays in its buffer and ends\<close>

text \<open>Every buffer that holds a zero byte is parsed to a value or to an error, with the rest behind it.\<close>

definition good_parse :: "nat \<Rightarrow> 'a parsed \<Rightarrow> bool" where
  "good_parse n p \<longleftrightarrow> (\<exists>x r. p = Got x r \<and> NUL \<in> set r \<and> length r \<le> n \<and> (x \<noteq> None \<longrightarrow> length r < n))"

lemma good_got [simp]: "good_parse n (Got x r) \<longleftrightarrow> NUL \<in> set r \<and> length r \<le> n \<and> (x \<noteq> None \<longrightarrow> length r < n)"
  by (simp add: good_parse_def)

lemma good_fault [simp]: "\<not> good_parse n Fault"
  by (simp add: good_parse_def)

lemma good_cases [consumes 1, case_names bad ok]: "good_parse n p \<Longrightarrow> (\<And>r. p = Got None r \<Longrightarrow> NUL \<in> set r \<Longrightarrow> length r \<le> n \<Longrightarrow> thesis) \<Longrightarrow>
    (\<And>x r. p = Got (Some x) r \<Longrightarrow> NUL \<in> set r \<Longrightarrow> length r < n \<Longrightarrow> thesis) \<Longrightarrow> thesis"
proof (cases p)
  case (Got x r)
  assume "good_parse n p" "\<And>r. p = Got None r \<Longrightarrow> NUL \<in> set r \<Longrightarrow> length r \<le> n \<Longrightarrow> thesis"
    "\<And>x r. p = Got (Some x) r \<Longrightarrow> NUL \<in> set r \<Longrightarrow> length r < n \<Longrightarrow> thesis"
  then show thesis using Got by (cases x) auto
qed simp

lemma good_mono: "good_parse n p \<Longrightarrow> n \<le> m \<Longrightarrow> good_parse m p"
  by (cases p) auto

lemma good_Suc: "good_parse n p \<Longrightarrow> good_parse (Suc n) p"
  by (erule good_mono) simp

lemma good_if: "good_parse n p \<Longrightarrow> good_parse n q \<Longrightarrow> good_parse n (if b then p else q)"
  by simp

lemma ws_nul: "NUL \<in> set s \<Longrightarrow> \<exists>c q. ws_skip s = c # q \<and> NUL \<in> set (c # q) \<and> length (c # q) \<le> length s"
proof -
  assume n: "NUL \<in> set s"
  have "NUL \<in> set (ws_skip s)" using n by (induction s) (auto simp: ws_skip_def is_ws_def)
  moreover have "length (ws_skip s) \<le> length s" by (simp add: ws_skip_def length_dropWhile_le)
  ultimately show ?thesis by (cases "ws_skip s") auto
qed

lemma hex_nul: "NUL \<in> set s \<Longrightarrow> hex_ahead n s \<noteq> None \<and> (hex_ahead n s = Some True \<longrightarrow> NUL \<in> set (drop n s))"
proof (induction n s rule: hex_ahead.induct)
  case (3 n c r)
  then show ?case by (auto simp: json_hex_def isdigit_def schar_def)
qed auto

lemma lit_nul: "NUL \<in> set s \<Longrightarrow> NUL \<notin> set l \<Longrightarrow> lit_ahead l s \<noteq> None \<and> (lit_ahead l s = Some True \<longrightarrow> NUL \<in> set (drop (length l) s))"
  by (induction l s rule: lit_ahead.induct) auto

lemma scan_string_good: "NUL \<in> set s \<Longrightarrow> good_parse (length s) (scan_string esc raw s)"
proof (induction esc raw s rule: scan_string.induct)
  case (2 esc raw c r)
  consider "c \<noteq> QUOTE \<and> c \<noteq> BACKSLASH \<and> c \<noteq> NUL" | "c = QUOTE" | "c = NUL" | "c = BACKSLASH" by blast
  then show ?case
  proof cases
    case 1
    then show ?thesis using "2.IH"(1) "2.prems" by (auto intro: good_Suc)
  next
    case 4
    then obtain d q where d: "r = d # q" "NUL \<in> set (d # q)" using "2.prems" by (cases r) auto
    show ?thesis
    proof (cases "d = CHR ''u''")
      case True
      then have n: "NUL \<in> set q" using d(2) by simp
      show ?thesis
      proof (cases "hex_ahead 4 q")
        case None
        then show ?thesis using hex_nul [OF n] by simp
      next
        case (Some b)
        show ?thesis
        proof (cases b)
          case False
          then show ?thesis using 4 d True Some by simp
        next
          case t: True
          have "good_parse (length (drop 4 q)) (scan_string True (raw @ [c, d] @ take 4 q) (drop 4 q))"
            using "2.IH"(2) [of d q True] 4 d True Some t hex_nul [OF n, of 4] by simp
          then show ?thesis using 4 d True Some t by (auto elim: good_mono)
        qed
      qed
    next
      case False
      then show ?thesis using "2.IH"(3) [of d q] 4 d by (auto intro!: good_Suc)
    qed
  qed (use "2.prems" in auto)
qed simp

lemma decode_string_good: "NUL \<in> set s \<Longrightarrow> good_parse (length s) (decode_string s)"
  using scan_string_good [of "tl s" False "[]"] by (cases s) (auto simp: decode_string_def intro: good_Suc)

lemma number_good: "NUL \<in> set s \<Longrightarrow> \<exists>x r. number_loop st s = Got x r \<and> NUL \<in> set r \<and> length r \<le> length s \<and> (x \<noteq> None \<longrightarrow> st = 0 \<longrightarrow> length r < length s)"
proof (induction st s rule: number_loop.induct)
  case (2 st c r)
  have d: "\<exists>e q. dropWhile isdigit r = e # q \<and> NUL \<in> set (e # q) \<and> length (e # q) \<le> length r" if "NUL \<in> set r"
  proof -
    have "NUL \<in> set (dropWhile isdigit r)" using that by (induction r) (auto simp: isdigit_def)
    moreover have "length (dropWhile isdigit r) \<le> length r" by (rule length_dropWhile_le)
    ultimately show ?thesis by (cases "dropWhile isdigit r") auto
  qed
  have c0: "c = NUL \<Longrightarrow> \<not> isdigit c" by (simp add: isdigit_def)
  show ?case
  proof (cases "st = 7 \<or> c = NUL")
    case True
    then show ?thesis using "2.prems" by (cases "st = 7") (simp_all add: isdigit_def)
  next
    case False
    then have n: "NUL \<in> set r" using "2.prems" by auto
    consider "c = CHR ''0''" | "c \<noteq> CHR ''0''" "isdigit c" | "\<not> isdigit c" "c \<noteq> CHR ''0''" by blast
    then show ?thesis
    proof cases
      case 1
      then show ?thesis using "2.IH"(1) [OF _ 1 n] False by fastforce
    next
      case 2
      obtain e q where e: "dropWhile isdigit r = e # q" "NUL \<in> set (e # q)" "length (e # q) \<le> length r" using d [OF n] by blast
      then show ?thesis using "2.IH"(2) [OF _ 2 e(1) e(2)] False 2 by fastforce
    next
      case 3
      have up: "\<exists>x r'. p = Got x r' \<and> NUL \<in> set r' \<and> length r' \<le> length (c # r) \<and> (x \<noteq> None \<longrightarrow> st = 0 \<longrightarrow> length r' < length (c # r))"
        if "\<exists>x r'. p = Got x r' \<and> NUL \<in> set r' \<and> length r' \<le> length r \<and> Q x r'" for p :: "unit parsed" and Q
        using that by fastforce
      note IH = "2.IH"(3) [OF _ 3(2,1) _ n, THEN up] "2.IH"(4) [OF _ 3(2,1) _ _ n, THEN up]
        "2.IH"(5) [OF _ 3(2,1) _ _ _ n, THEN up] "2.IH"(6) [OF _ 3(2,1) _ _ _ _ n, THEN up]
      consider "c = CHR ''.''" | "c = CHR ''-''" | "c = CHR ''+''" | "c = CHR ''e'' \<or> c = CHR ''E''"
        | "c \<noteq> CHR ''.''" "c \<noteq> CHR ''-''" "c \<noteq> CHR ''+''" "\<not> (c = CHR ''e'' \<or> c = CHR ''E'')" by blast
      then show ?thesis
      proof cases
        case 1
        then show ?thesis using IH(1) False 3 by simp
      next
        case 2
        then show ?thesis using IH(2) False 3 by simp
      next
        case a: 3
        then show ?thesis using IH(3) False 3 by simp
      next
        case 4
        then show ?thesis using IH(4) False 3 by auto
      next
        case 5
        then show ?thesis using False 3 n by simp
      qed
    qed
  qed
qed simp

lemma decode_number_good: "NUL \<in> set s \<Longrightarrow> good_parse (length s) (decode_number s)"
  using number_good [of s 0] by (auto simp: decode_number_def split: option.splits)

lemma decode_lit_good: "NUL \<in> set s \<Longrightarrow> NUL \<notin> set l \<Longrightarrow> l \<noteq> [] \<Longrightarrow> good_parse (length s) (decode_lit l v s)"
proof -
  assume a: "NUL \<in> set s" "NUL \<notin> set l" "l \<noteq> []"
  show ?thesis
  proof (cases "lit_ahead l s")
    case (Some b)
    have "s \<noteq> []" using a(1) by auto
    then have "length s - length l < length s" using a(3) by simp
    then show ?thesis using a Some lit_nul [OF a(1,2)] by (cases b) (simp_all add: decode_lit_def)
  qed (use lit_nul [OF a(1,2)] in simp)
qed

text \<open>The text of a string that was accepted can be read.\<close>

lemma unescape_append: "unescape a = Some x \<Longrightarrow> unescape (a @ b) = map_option ((@) x) (unescape b)"
proof (induction a arbitrary: x rule: unescape.induct)
  case 1
  then show ?case by (simp add: option.map_ident)
next
  case (2 c r)
  show ?case
  proof (cases "c = BACKSLASH")
    case False
    then obtain y where y: "unescape r = Some y" "x = c # y" using "2.prems" by auto
    then show ?thesis using "2.IH"(1) [OF False y(1)] False by (simp add: option.map_comp comp_def)
  next
    case True
    then obtain d q where d: "r = d # q" using "2.prems" by (cases r) auto
    show ?thesis
    proof (cases "d = CHR ''u''")
      case False
      then obtain y where y: "unescape q = Some y" "x = simple_escape d @ y" using "2.prems" True d by auto
      then show ?thesis using "2.IH"(3) [OF _ d False y(1)] True d False by (simp add: option.map_comp comp_def)
    next
      case u: True
      obtain h1 h2 h3 h4 q' where h: "q = h1 # h2 # h3 # h4 # q'" using "2.prems" True d u by (auto split: list.splits)
      then obtain y where y: "unescape q' = Some y" "x = utf8 (hex_code h1 h2 h3 h4) @ y" using "2.prems" True d u by auto
      then show ?thesis using "2.IH"(2) [OF _ d u h refl refl refl y(1)] True d u h by (simp add: option.map_comp comp_def)
    qed
  qed
qed

lemma unescape_more: "unescape a \<noteq> None \<Longrightarrow> unescape b \<noteq> None \<Longrightarrow> unescape (a @ b) \<noteq> None"
  using unescape_append by fastforce

lemma scan_text: "scan_string esc raw s = Got (Some (e, t)) r \<Longrightarrow> unescape raw \<noteq> None \<Longrightarrow> unescape t \<noteq> None"
proof (induction esc raw s rule: scan_string.induct)
  case (2 esc raw c r')
  consider "c \<noteq> QUOTE \<and> c \<noteq> BACKSLASH \<and> c \<noteq> NUL" | "c = QUOTE \<or> c = NUL" | "c = BACKSLASH" by blast
  then show ?case
  proof cases
    case 1
    then have "unescape (raw @ [c]) \<noteq> None" by (intro unescape_more "2.prems") simp
    then show ?thesis using "2.IH"(1) [OF 1] "2.prems"(1) 1 by simp
  next
    case 2
    then show ?thesis using "2.prems" by auto
  next
    case 3
    then obtain d q where d: "r' = d # q" using "2.prems"(1) by (cases r') auto
    show ?thesis
    proof (cases "d = CHR ''u''")
      case True
      then have h: "hex_ahead 4 q = Some True" using "2.prems"(1) 3 d by (auto split: option.splits bool.splits)
      then obtain a b c' e' q' where q: "q = a # b # c' # e' # q'"
        by (cases q; cases "tl q"; cases "tl (tl q)"; cases "tl (tl (tl q))") (auto simp: numeral_eq_Suc split: if_splits)
      have "unescape (raw @ [c, d] @ take 4 q) \<noteq> None" by (rule unescape_more [OF "2.prems"(2)]) (simp add: 3 True q)
      then show ?thesis using "2.IH"(2) [of d q True] "2.prems"(1) 3 d True h by simp
    next
      case False
      have "unescape (raw @ [c, d]) \<noteq> None" by (intro unescape_more "2.prems") (simp add: 3 False)
      then show ?thesis using "2.IH"(3) [of d q] "2.prems"(1) 3 d False by (auto split: if_splits)
    qed
  qed
qed simp

lemma decode_string_text: "decode_string s = Got (Some (e, t)) r \<Longrightarrow> r_text e t \<noteq> None"
  using scan_text [of False "[]" "tl s" e t r] by (auto simp: decode_string_def r_text_def split: list.splits if_splits)

subsection \<open>The whole parser\<close>

lemma decode_good:
  "NUL \<in> set s \<Longrightarrow> 2 * length s + 1 \<le> f \<Longrightarrow> good_parse (length s) (decode_value f s)"
  "NUL \<in> set s \<Longrightarrow> 2 * length s + 2 \<le> f \<Longrightarrow> good_parse (length s) (decode_items f vs s)"
  "NUL \<in> set s \<Longrightarrow> 2 * length s + 2 \<le> f \<Longrightarrow> good_parse (length s) (decode_members f ms s)"
proof (induction f arbitrary: s vs ms)
  case (Suc f)
  { case 1
    obtain c r where s: "s = c # r" using 1 by (cases s) auto
    show ?case
    proof (cases "c = CHR ''['' \<or> c = CHR ''{''")
      case True
      then have "NUL \<in> set r" using 1 s by auto
      then obtain d q where d: "ws_skip r = d # q" "NUL \<in> set (d # q)" "length (d # q) \<le> length r" using ws_nul by blast
      have f: "2 * length (d # q) + 2 \<le> f" using 1(2) d(3) s by simp
      have e: "d = CHR '']'' \<or> d = CHR ''}'' \<Longrightarrow> NUL \<in> set q" using d(2) by auto
      have i: "good_parse (length s) (decode_items f [] (d # q))" by (rule good_mono [OF Suc.IH(2) [OF d(2) f]]) (use d(3) s in simp)
      have m: "good_parse (length s) (decode_members f [] (d # q))" by (rule good_mono [OF Suc.IH(3) [OF d(2) f]]) (use d(3) s in simp)
      show ?thesis using True d(1,3) i m s e by auto
    next
      case False
      have l: "good_parse (length s) (decode_lit ''true'' R_true s)" "good_parse (length s) (decode_lit ''false'' R_false s)"
        "good_parse (length s) (decode_lit ''null'' R_null s)"
        by (rule decode_lit_good [OF 1(1)]; simp)+
      have str: "good_parse (length s) (case decode_string s of Fault \<Rightarrow> Fault | Got x r \<Rightarrow> Got (map_option (\<lambda>(esc, raw). R_str esc raw) x) r)"
        using decode_string_good [OF 1(1)] by (cases "decode_string s") auto
      have n: "c \<noteq> CHR ''[''" "c \<noteq> CHR ''{''" using False by simp_all
      show ?thesis unfolding s decode_value.simps(2) list.case if_not_P [OF n(1)] if_not_P [OF n(2)]
        by (intro good_if l [unfolded s] str [unfolded s] decode_number_good [OF 1(1), unfolded s])
    qed }
  { case 2
    have v: "good_parse (length s) (decode_value f s)" using Suc.IH(1) 2 by simp
    then show ?case
    proof (cases rule: good_cases)
      case (ok v r)
      then obtain c q where c: "ws_skip r = c # q" "NUL \<in> set (c # q)" "length (c # q) \<le> length r" using ws_nul by blast
      show ?thesis
      proof (cases "c = CHR '',''")
        case True
        then have "NUL \<in> set q" using c(2) by auto
        then obtain d p where d: "ws_skip q = d # p" "NUL \<in> set (d # p)" "length (d # p) \<le> length q" using ws_nul by blast
        have "2 * length (d # p) + 2 \<le> f" using \<open>2 * length s + 2 \<le> Suc f\<close> d(3) c(3) ok(3) by simp
        from Suc.IH(2) [OF d(2) this, of "vs @ [v]"] show ?thesis using True ok(1,3) c(1,3) d(1,3) by (auto elim: good_mono)
      qed (use ok c in auto)
    qed auto }
  { case 3
    have k: "good_parse (length s) (decode_string s)" using decode_string_good 3 by simp
    then show ?case
    proof (cases rule: good_cases)
      case (ok et r)
      obtain e t where et: "et = (e, t)" by force
      obtain key where key: "r_text e t = Some key" using decode_string_text [of s e t r] ok(1) et by auto
      obtain c q where c: "ws_skip r = c # q" "NUL \<in> set (c # q)" "length (c # q) \<le> length r" using ws_nul ok(2) by blast
      show ?thesis
      proof (cases "c = CHR '':''")
        case True
        then have "NUL \<in> set q" using c(2) by auto
        then obtain d p where d: "ws_skip q = d # p" "NUL \<in> set (d # p)" "length (d # p) \<le> length q" using ws_nul by blast
        have l: "length (d # p) + 2 \<le> length s" using d(3) c(3) ok(3) by simp
        have "2 * length (d # p) + 1 \<le> f" using \<open>2 * length s + 2 \<le> Suc f\<close> l by simp
        from Suc.IH(1) [OF d(2) this] show ?thesis
        proof (cases rule: good_cases)
          case v: (ok v r')
          then obtain b u where b: "ws_skip r' = b # u" "NUL \<in> set (b # u)" "length (b # u) \<le> length r'" using ws_nul by blast
          show ?thesis
          proof (cases "b = CHR '',''")
            case b': True
            then have "NUL \<in> set u" using b(2) by auto
            then obtain x y where x: "ws_skip u = x # y" "NUL \<in> set (x # y)" "length (x # y) \<le> length u" using ws_nul by blast
            have "2 * length (x # y) + 2 \<le> f" using \<open>2 * length s + 2 \<le> Suc f\<close> x(3) b(3) v(3) l by simp
            from Suc.IH(3) [OF x(2) this, of "ms @ [(key, v)]"] show ?thesis
              using True b' ok(1) et key c(1) d(1) v(1,3) b(1,3) x(1,3) l by (auto elim: good_mono)
          qed (use True ok(1) et key c(1) d(1) v b l in auto)
        qed (use True ok(1) et key c(1) d(1) l in auto)
      qed (use ok et c in auto)
    qed auto }
qed simp_all

text \<open>C37. The JSON parser is safe and ends on every text: it never reads behind the zero byte at the end of its buffer,
  also within an escape, a literal or a number, undoes the escapes only of what it has checked, and gives a value or
  an error.\<close>

theorem json_load_total: "\<exists>v. json_load text = Some v"
proof -
  have "NUL \<in> set (text @ [NUL])" by simp
  then obtain c q where c: "ws_skip (text @ [NUL]) = c # q" "NUL \<in> set (c # q)" "length (c # q) \<le> length (text @ [NUL])" using ws_nul by blast
  have "2 * length (c # q) + 1 \<le> json_fuel (text @ [NUL])" using c(3) by (simp add: json_fuel_def)
  from decode_good(1) [OF c(2) this] obtain v r where "decode_value (json_fuel (text @ [NUL])) (c # q) = Got v r" "NUL \<in> set r"
    by (auto simp: good_parse_def)
  moreover obtain d p where "ws_skip r = d # p" using ws_nul calculation(2) by blast
  ultimately show ?thesis using c(1) by (auto simp: json_load_def json_parse_def)
qed

end
