(* ===== verification/Crow_Json_Dump.thy ===== *)
theory Crow_Json_Dump
  imports Crow_Json_Total
begin

section \<open>Values that are built and dumped (json.h)\<close>

text \<open>
  A \<open>wvalue\<close> keeps all its fields when its type changes; only \<open>reset\<close> drops the list and the object. The members
  of an object are in the order in which the map is walked. \<open>'d\<close> is \<open>double\<close>, and how \<open>%g\<close> prints it is a parameter.
\<close>

datatype jtype = T_Null | T_False | T_True | T_Number | T_String | T_List | T_Object

datatype 'd wvalue = Wvalue jtype 'd string "'d wvalue list option" "(string \<times> 'd wvalue) list option"

fun w_t :: "'d wvalue \<Rightarrow> jtype" where
  "w_t (Wvalue t d s l o') = t"

definition w_new :: "'d::zero wvalue" where
  "w_new = Wvalue T_Null 0 [] None None"

fun w_reset :: "'d wvalue \<Rightarrow> 'd wvalue" where
  "w_reset (Wvalue t d s l o') = Wvalue T_Null d s None None"

fun w_retype :: "jtype \<Rightarrow> 'd wvalue \<Rightarrow> 'd wvalue" where
  "w_retype t' (Wvalue t d s l o') = Wvalue t' d s l o'"

definition w_set_bool :: "bool \<Rightarrow> 'd wvalue \<Rightarrow> 'd wvalue" where
  "w_set_bool b v = w_retype (if b then T_True else T_False) (w_reset v)"

definition w_set_num :: "'d \<Rightarrow> 'd wvalue \<Rightarrow> 'd wvalue" where
  "w_set_num x v = (case w_retype T_Number (w_reset v) of Wvalue t d s l o' \<Rightarrow> Wvalue t x s l o')"

definition w_set_str :: "string \<Rightarrow> 'd wvalue \<Rightarrow> 'd wvalue" where
  "w_set_str x v = (case w_retype T_String (w_reset v) of Wvalue t d s l o' \<Rightarrow> Wvalue t d x l o')"

definition w_set_list :: "'d wvalue list \<Rightarrow> 'd wvalue \<Rightarrow> 'd wvalue" where
  "w_set_list xs v = (case w_retype T_List (if w_t v \<noteq> T_List then w_reset v else v) of Wvalue t d s l o' \<Rightarrow> Wvalue t d s (Some xs) o')"

text \<open>\<open>v[i]\<close> and \<open>v[key]\<close>, with \<open>f\<close> what is done with the reference. The index has 32 bits.\<close>

definition w_index :: "nat \<Rightarrow> ('d::zero wvalue \<Rightarrow> 'd wvalue) \<Rightarrow> 'd wvalue \<Rightarrow> 'd wvalue option" where
  "w_index i f v =
     (case w_retype T_List (if w_t v \<noteq> T_List then w_reset v else v) of
        Wvalue t d s l o' \<Rightarrow>
          let xs = (case l of None \<Rightarrow> [] | Some xs \<Rightarrow> xs);
              n = (i + 1) mod 2 ^ 32;
              xs = (if length xs < n then xs @ replicate (n - length xs) w_new else xs)
          in if i < length xs then Some (Wvalue t d s (Some (xs[i := f (xs ! i)])) o') else None)"

definition w_key :: "string \<Rightarrow> ('d::zero wvalue \<Rightarrow> 'd wvalue) \<Rightarrow> 'd wvalue \<Rightarrow> 'd wvalue" where
  "w_key k f v =
     (case w_retype T_Object (if w_t v \<noteq> T_Object then w_reset v else v) of
        Wvalue t d s l o' \<Rightarrow>
          let ms = (case o' of None \<Rightarrow> [] | Some ms \<Rightarrow> ms);
              x = (case map_of ms k of None \<Rightarrow> w_new | Some x \<Rightarrow> x)
          in Wvalue t d s l (Some (AList.update k (f x) ms)))"

fun w_count :: "string \<Rightarrow> 'd wvalue \<Rightarrow> nat" where
  "w_count k (Wvalue T_Object d s l (Some ms)) = (if map_of ms k = None then 0 else 1)"
| "w_count k _ = 0"

fun w_keys :: "'d wvalue \<Rightarrow> string list option" where
  "w_keys (Wvalue T_Object d s l (Some ms)) = Some (map fst ms)"
| "w_keys (Wvalue T_Object d s l None) = None"
| "w_keys _ = Some []"

subsection \<open>Printing\<close>

fun commas :: "string list \<Rightarrow> string" where
  "commas [] = []"
| "commas [x] = x"
| "commas (x # y # xs) = x @ CHR '','' # commas (y # xs)"

definition dump_string :: "string \<Rightarrow> string" where
  "dump_string s = QUOTE # escape s @ [QUOTE]"

fun dump_internal :: "('d \<Rightarrow> string) \<Rightarrow> 'd wvalue \<Rightarrow> string" where
  "dump_internal g (Wvalue t d s l o') =
     (case t of
        T_Null \<Rightarrow> ''null''
      | T_False \<Rightarrow> ''false''
      | T_True \<Rightarrow> ''true''
      | T_Number \<Rightarrow> g d
      | T_String \<Rightarrow> dump_string s
      | T_List \<Rightarrow> CHR ''['' # (case l of None \<Rightarrow> [] | Some xs \<Rightarrow> commas (map (dump_internal g) xs)) @ '']''
      | T_Object \<Rightarrow> CHR ''{'' # (case o' of None \<Rightarrow> [] | Some ms \<Rightarrow>
          commas (map (\<lambda>(k, v). dump_string k @ CHR '':'' # dump_internal g v) ms)) @ ''}'')"

subsection \<open>What is read back\<close>

definition has_escape :: "string \<Rightarrow> bool" where
  "has_escape s \<longleftrightarrow> list_ex (\<lambda>c. escape_char c \<noteq> [c]) s"

fun reread :: "('d \<Rightarrow> string) \<Rightarrow> 'd wvalue \<Rightarrow> rvalue" where
  "reread g (Wvalue t d s l o') =
     (case t of
        T_Null \<Rightarrow> R_null | T_False \<Rightarrow> R_false | T_True \<Rightarrow> R_true
      | T_Number \<Rightarrow> R_num (g d)
      | T_String \<Rightarrow> R_str (has_escape s) (escape s)
      | T_List \<Rightarrow> R_list (case l of None \<Rightarrow> [] | Some xs \<Rightarrow> map (reread g) xs)
      | T_Object \<Rightarrow> R_obj (case o' of None \<Rightarrow> [] | Some ms \<Rightarrow> map (\<lambda>(k, v). (k, reread g v)) ms))"

text \<open>The numbers that are printed.\<close>

fun numbers :: "'d wvalue \<Rightarrow> 'd list" where
  "numbers (Wvalue t d s l o') =
     (case t of
        T_Number \<Rightarrow> [d]
      | T_List \<Rightarrow> (case l of None \<Rightarrow> [] | Some xs \<Rightarrow> concat (map numbers xs))
      | T_Object \<Rightarrow> (case o' of None \<Rightarrow> [] | Some ms \<Rightarrow> concat (map (\<lambda>(k, v). numbers v) ms))
      | _ \<Rightarrow> [])"

definition number_text :: "string \<Rightarrow> bool" where
  "number_text t \<longleftrightarrow> number_loop 0 (t @ [NUL]) = Got (Some ()) [NUL]"

subsection \<open>Strings\<close>

lemma hex_digit: "n < 16 \<Longrightarrow> json_hex (to_hex n) \<and> from_hex (to_hex n) = int n"
proof -
  assume n: "n < 16"
  have o: "(of_char (to_hex n) :: int) = (if n < 10 then 48 + int n else 87 + int n)"
  proof -
    have "(of_char (to_hex n) :: nat) = (if n < 10 then 48 + n else 87 + n)" using n by (simp add: to_hex_def)
    moreover have "(of_char (to_hex n) :: int) = int (of_char (to_hex n))" by (rule of_nat_of_char [symmetric])
    ultimately show ?thesis by simp
  qed
  have s: "schar (to_hex n) = (if n < 10 then 48 + int n else 87 + int n)" using n by (simp add: schar_def o)
  have d: "isdigit (to_hex n)" if "n < 10" using that by (simp add: to_hex_def isdigit_def)
  show ?thesis using n s d by (auto simp: json_hex_def from_hex_def)
qed

lemma control_code:
  assumes "(of_char c :: nat) < 32"
  shows "json_hex (to_hex (of_char c div 16))" "json_hex (to_hex (of_char c mod 16))"
    "utf8 (hex_code (CHR ''0'') (CHR ''0'') (to_hex (of_char c div 16)) (to_hex (of_char c mod 16))) = [c]"
proof -
  let ?n = "of_char c :: nat"
  have d: "?n div 16 < 16" "?n mod 16 < 16" using assms by simp_all
  note h = hex_digit [OF d(1)] hex_digit [OF d(2)]
  show "json_hex (to_hex (of_char c div 16))" "json_hex (to_hex (of_char c mod 16))" using h by blast+
  have z: "from_hex (CHR ''0'') = 0" by (simp add: from_hex_def schar_def)
  have e: "int (?n div 16) * 16 + int (?n mod 16) = int ?n" by (metis mult.commute mult_div_mod_eq of_nat_add of_nat_mult of_nat_numeral)
  have m: "int ?n mod 2 ^ 32 = int ?n" using assms by simp
  have "hex_code (CHR ''0'') (CHR ''0'') (to_hex (?n div 16)) (to_hex (?n mod 16)) = nat ((int (?n div 16) * 16 + int (?n mod 16)) mod 2 ^ 32)"
    using h by (simp add: hex_code_def z)
  also have "\<dots> = ?n" unfolding e m by (rule nat_int)
  finally show "utf8 (hex_code (CHR ''0'') (CHR ''0'') (to_hex (of_char c div 16)) (to_hex (of_char c mod 16))) = [c]"
    using assms by (simp add: utf8_def)
qed

lemma hex_zero: "json_hex (CHR ''0'')"
  by (simp add: json_hex_def isdigit_def)

lemma short_escapes:
  "list_all (\<lambda>(c, d). escape_char c = [BACKSLASH, d] \<and> simple_escape d = [c] \<and> d \<noteq> CHR ''u'' \<and>
       d \<in> {QUOTE, BACKSLASH, CHR ''/'', CHR ''b'', CHR ''f'', CHR ''n'', CHR ''r'', CHR ''t''})
     [(QUOTE, QUOTE), (BACKSLASH, BACKSLASH), (CHR 0x0A, CHR ''n''), (CHR 0x08, CHR ''b''), (CHR 0x0C, CHR ''f''), (CHR 0x0D, CHR ''r''), (CHR 0x09, CHR ''t'')]"
  by (simp add: escape_char_def simple_escape_def)

definition short :: "char \<Rightarrow> bool" where
  "short c \<longleftrightarrow> c = QUOTE \<or> c = BACKSLASH \<or> c = CHR 0x0A \<or> c = CHR 0x08 \<or> c = CHR 0x0C \<or> c = CHR 0x0D \<or> c = CHR 0x09"

lemma short_escape:
  assumes "short c"
  shows "\<exists>d. escape_char c = [BACKSLASH, d] \<and> simple_escape d = [c] \<and> d \<noteq> CHR ''u'' \<and>
       d \<in> {QUOTE, BACKSLASH, CHR ''/'', CHR ''b'', CHR ''f'', CHR ''n'', CHR ''r'', CHR ''t''}"
proof -
  have "\<exists>d. (c, d) \<in> set [(QUOTE, QUOTE), (BACKSLASH, BACKSLASH), (CHR 0x0A, CHR ''n''), (CHR 0x08, CHR ''b''), (CHR 0x0C, CHR ''f''), (CHR 0x0D, CHR ''r''), (CHR 0x09, CHR ''t'')]"
    using assms unfolding short_def by (elim disjE) (simp_all only: list.set insert_iff prod.inject simp_thms, blast+)
  then obtain d where "(c, d) \<in> set [(QUOTE, QUOTE), (BACKSLASH, BACKSLASH), (CHR 0x0A, CHR ''n''), (CHR 0x08, CHR ''b''), (CHR 0x0C, CHR ''f''), (CHR 0x0D, CHR ''r''), (CHR 0x09, CHR ''t'')]"
    by blast
  from short_escapes [unfolded list_all_iff, THEN bspec, OF this] show ?thesis by blast
qed

lemma long_escape:
  assumes "\<not> short c"
  shows "escape_char c = (if (of_char c :: nat) < 32
      then [BACKSLASH, CHR ''u'', CHR ''0'', CHR ''0'', to_hex (of_char c div 16), to_hex (of_char c mod 16)] else [c])"
proof -
  have "c \<noteq> QUOTE" "c \<noteq> BACKSLASH" "c \<noteq> CHR 0x0A" "c \<noteq> CHR 0x08" "c \<noteq> CHR 0x0C" "c \<noteq> CHR 0x0D" "c \<noteq> CHR 0x09"
    using assms by (simp_all only: short_def simp_thms de_Morgan_disj)
  then show ?thesis unfolding escape_char_def by (simp only: if_False)
qed

lemma escape_cases:
  obtains (plain) "escape_char c = [c]" "c \<noteq> QUOTE" "c \<noteq> BACKSLASH" "c \<noteq> NUL"
  | (short) d where "escape_char c = [BACKSLASH, d]" "d \<in> {QUOTE, BACKSLASH, CHR ''/'', CHR ''b'', CHR ''f'', CHR ''n'', CHR ''r'', CHR ''t''}" "d \<noteq> CHR ''u''" "simple_escape d = [c]"
  | (code) h l where "escape_char c = [BACKSLASH, CHR ''u'', CHR ''0'', CHR ''0'', h, l]" "json_hex h" "json_hex l" "utf8 (hex_code (CHR ''0'') (CHR ''0'') h l) = [c]"
proof (cases "short c")
  case True
  then show thesis using short_escape [OF True] short by blast
next
  case False
  show thesis
  proof (cases "(of_char c :: nat) < 32")
    case True
    show thesis by (rule code [OF _ control_code [OF True]]) (simp add: long_escape [OF False] True)
  next
    case ge: False
    then have "c \<noteq> NUL" by auto
    then show thesis using plain False ge by (simp add: long_escape [OF False] short_def)
  qed
qed

lemma scan_char: "scan_string e raw (escape_char c @ q) = scan_string (e \<or> escape_char c \<noteq> [c]) (raw @ escape_char c) q"
proof (cases rule: escape_cases [of c])
  case plain
  then show ?thesis by simp
next
  case (short d)
  then show ?thesis by auto
next
  case (code h l)
  then show ?thesis by (simp add: hex_zero numeral_eq_Suc)
qed

lemma scan_escape: "scan_string e raw (escape s @ QUOTE # r) = Got (Some (e \<or> has_escape s, raw @ escape s)) r"
proof (induction s arbitrary: e raw)
  case (Cons c s)
  have "escape (c # s) @ QUOTE # r = escape_char c @ (escape s @ QUOTE # r)" by (simp add: escape_def)
  then show ?case using Cons.IH by (simp add: scan_char) (auto simp: has_escape_def escape_def)
qed (simp add: escape_def has_escape_def)

lemma decode_dump_string: "decode_string (dump_string s @ r) = Got (Some (has_escape s, escape s)) r"
  using scan_escape [of False "[]" s r] by (simp add: decode_string_def dump_string_def)

lemma unescape_escape: "unescape (escape s) = Some s"
proof (induction s)
  case (Cons c s)
  have "unescape (escape_char c) = Some [c]"
    by (cases rule: escape_cases [of c]) auto
  then show ?case using unescape_append [of "escape_char c" "[c]" "escape s"] Cons by (simp add: escape_def)
qed (simp add: escape_def)

lemma no_escape: "\<not> has_escape s \<Longrightarrow> escape s = s"
  by (induction s) (auto simp: escape_def has_escape_def)

lemma text_escape: "r_text (has_escape s) (escape s) = Some s"
  by (cases "has_escape s") (simp_all add: r_text_def unescape_escape no_escape)

subsection \<open>Numbers\<close>

definition stop :: "char \<Rightarrow> bool" where
  "stop c \<longleftrightarrow> c = CHR '','' \<or> c = CHR '']'' \<or> c = CHR ''}'' \<or> c = NUL"

lemma stopD: "stop c \<Longrightarrow> \<not> isdigit c \<and> \<not> is_ws c \<and> c \<noteq> CHR ''0'' \<and> c \<noteq> CHR ''.'' \<and> c \<noteq> CHR ''-'' \<and> c \<noteq> CHR ''+'' \<and> c \<noteq> CHR ''e'' \<and> c \<noteq> CHR ''E''"
  by (auto simp: stop_def isdigit_def is_ws_def)

lemma dropWhile_stop: "\<not> P c \<Longrightarrow> dropWhile P (u @ c # r) = dropWhile P u @ c # r"
  by (induction u) auto

lemma number_digit:
  assumes "st \<noteq> 7" "c \<noteq> CHR ''0''" "isdigit c" "dropWhile isdigit r \<noteq> []"
  shows "number_loop st (c # r) = number_loop ([3, 3, 7, 3, 4, 6, 6] ! st) (dropWhile isdigit r)"
proof -
  obtain d q where "dropWhile isdigit r = d # q" using assms(4) by (cases "dropWhile isdigit r") auto
  then show ?thesis unfolding number_loop.simps(2) [of st c r] using assms(1-3) by (simp only: if_False if_True list.case)
qed

lemma number_char:
  assumes "\<not> isdigit a \<or> a = CHR ''0''"
  shows "(\<exists>st'. \<forall>s. number_loop st (a # s) = number_loop st' s) \<or> (\<forall>s. number_loop st (a # s) = Got (Some ()) (a # s)) \<or> (\<forall>s. number_loop st (a # s) = Got None (a # s))"
proof -
  consider "st = 7" | "st \<noteq> 7" "a = CHR ''0''" | "st \<noteq> 7" "a \<noteq> CHR ''0''" "a = CHR ''.'' \<or> a = CHR ''-'' \<or> a = CHR ''+'' \<or> a = CHR ''e'' \<or> a = CHR ''E''"
    | "st \<noteq> 7" "a \<noteq> CHR ''0''" "\<not> (a = CHR ''.'' \<or> a = CHR ''-'' \<or> a = CHR ''+'' \<or> a = CHR ''e'' \<or> a = CHR ''E'')" by blast
  then show ?thesis
  proof cases
    case 3
    then show ?thesis using assms by (intro disjI1) (elim disjE; simp; blast)
  next
    case 4
    then show ?thesis using assms by (cases "st = 2 \<or> st = 3 \<or> st = 4 \<or> st = 6") simp_all
  qed (simp, simp, blast)
qed

lemma number_stop: "number_loop st (t @ [NUL]) = Got (Some ()) [NUL] \<Longrightarrow> stop c \<Longrightarrow> number_loop st (t @ c # r) = Got (Some ()) (c # r)"
proof (induction "length t" arbitrary: st t rule: less_induct)
  case less
  have n: "\<not> isdigit NUL" by (simp add: isdigit_def)
  show ?case
  proof (cases t)
    case Nil
    then show ?thesis using less.prems stopD [OF less.prems(2)] n by (auto split: if_splits)
  next
    case (Cons a u)
    have l: "length u < length t" "length (dropWhile isdigit u) < length t"
      using Cons length_dropWhile_le [of isdigit u] by simp_all
    note IH = less.hyps [OF l(1) _ less.prems(2)] and IHd = less.hyps [OF l(2) _ less.prems(2)]
    have d: "dropWhile isdigit (u @ [NUL]) = dropWhile isdigit u @ [NUL]" "dropWhile isdigit (u @ c # r) = dropWhile isdigit u @ c # r"
      using dropWhile_stop [of isdigit NUL u "[]"] dropWhile_stop [of isdigit c u r] n stopD [OF less.prems(2)] by simp_all
    show ?thesis
    proof (cases "st \<noteq> 7 \<and> a \<noteq> CHR ''0'' \<and> isdigit a")
      case True
      then have 3: "st \<noteq> 7" "a \<noteq> CHR ''0''" "isdigit a" by simp_all
      have e: "dropWhile isdigit (u @ [NUL]) \<noteq> []" "dropWhile isdigit (u @ c # r) \<noteq> []" unfolding d by simp_all
      show ?thesis using less.prems(1) unfolding Cons append_Cons number_digit [OF 3 e(1)] number_digit [OF 3 e(2)] d by (rule IHd)
    next
      case False
      consider "st = 7" | "\<not> isdigit a \<or> a = CHR ''0''" using False by blast
      then show ?thesis
      proof cases
        case 1
        then show ?thesis using less.prems(1) Cons by simp
      next
        case 2
        from number_char [OF this, of st] less.prems(1) obtain st' where "\<forall>s. number_loop st (a # s) = number_loop st' s"
          unfolding Cons by (elim disjE exE) (auto simp del: number_loop.simps)
        then show ?thesis using less.prems(1) IH [of st'] unfolding Cons by (simp del: number_loop.simps)
      qed
    qed
  qed
qed

lemma decode_number_text: "number_text t \<Longrightarrow> stop c \<Longrightarrow> decode_number (t @ c # r) = Got (Some (R_num t)) (c # r)"
  using number_stop [of 0 t c r] by (simp add: number_text_def decode_number_def)

lemma number_first: "number_text t \<Longrightarrow> \<exists>c u. t = c # u \<and> (isdigit c \<or> c = CHR ''-'')"
proof (cases t)
  case Nil
  then show "number_text t \<Longrightarrow> ?thesis" by (simp add: number_text_def isdigit_def)
next
  case (Cons c u)
  have "number_loop 7 s = Got None s" for s by (cases s) simp_all
  then show "number_text t \<Longrightarrow> ?thesis" using Cons by (auto simp: number_text_def isdigit_def split: if_splits)
qed

subsection \<open>Whole values\<close>

definition numbers_ok :: "('d \<Rightarrow> string) \<Rightarrow> 'd wvalue \<Rightarrow> bool" where
  "numbers_ok g v \<longleftrightarrow> list_all (\<lambda>d. number_text (g d)) (numbers v)"

lemma ws_stay: "\<not> is_ws c \<Longrightarrow> ws_skip (c # r) = c # r"
  by (simp add: ws_skip_def)

lemma dump_first: "numbers_ok g v \<Longrightarrow> \<exists>c u. dump_internal g v = c # u \<and> \<not> is_ws c \<and> c \<noteq> CHR '']'' \<and> c \<noteq> CHR ''}''"
proof (cases v)
  case (Wvalue t d s l o')
  assume ok: "numbers_ok g v"
  show ?thesis
  proof (cases t)
    case T_Number
    then have "number_text (g d)" using ok Wvalue by (simp add: numbers_ok_def)
    then show ?thesis using number_first [of "g d"] Wvalue T_Number by (auto simp: is_ws_def isdigit_def)
  qed (simp_all add: Wvalue is_ws_def dump_string_def)
qed

definition dumps_back :: "('d \<Rightarrow> string) \<Rightarrow> 'd wvalue \<Rightarrow> bool" where
  "dumps_back g v \<longleftrightarrow> (\<exists>c u. dump_internal g v = c # u \<and> \<not> is_ws c) \<and>
     (\<forall>f c r. stop c \<longrightarrow> 2 * length (dump_internal g v) + 1 \<le> f \<longrightarrow> decode_value f (dump_internal g v @ c # r) = Got (Some (reread g v)) (c # r))"

lemma dumps_backD: "dumps_back g v \<Longrightarrow> stop c \<Longrightarrow> 2 * length (dump_internal g v) + 1 \<le> f \<Longrightarrow> decode_value f (dump_internal g v @ c # r) = Got (Some (reread g v)) (c # r)"
  by (simp add: dumps_back_def)

lemma dumps_back_ws: "dumps_back g v \<Longrightarrow> ws_skip (dump_internal g v @ r) = dump_internal g v @ r"
  by (auto simp: dumps_back_def ws_stay)

lemma stops: "stop (CHR '','')" "stop (CHR '']'')" "stop (CHR ''}'')" "stop NUL"
  by (simp_all add: stop_def)

lemma ws_stops: "ws_skip (CHR '','' # r) = CHR '','' # r" "ws_skip (CHR '']'' # r) = CHR '']'' # r" "ws_skip (CHR ''}'' # r) = CHR ''}'' # r"
  "ws_skip (CHR '':'' # r) = CHR '':'' # r" "ws_skip (NUL # r) = NUL # r"
  by (simp_all add: ws_skip_def is_ws_def)

lemma items_back:
  "xs \<noteq> [] \<Longrightarrow> (\<And>x. x \<in> set xs \<Longrightarrow> dumps_back g x) \<Longrightarrow> 2 * length (commas (map (dump_internal g) xs)) + 2 \<le> f \<Longrightarrow>
     decode_items f vs (commas (map (dump_internal g) xs) @ CHR '']'' # r) = Got (Some (R_list (vs @ map (reread g) xs))) r"
proof (induction xs arbitrary: f vs)
  case (Cons x xs)
  obtain f' where f: "f = Suc f'" using Cons.prems(3) by (cases f) auto
  have x: "dumps_back g x" using Cons.prems(2) by simp
  show ?case
  proof (cases xs)
    case Nil
    then show ?thesis using dumps_backD [OF x stops(2), of f' r] Cons.prems(3) by (simp add: f ws_stops)
  next
    case (Cons y ys)
    let ?rest = "commas (map (dump_internal g) xs) @ CHR '']'' # r"
    have c: "commas (map (dump_internal g) (x # xs)) = dump_internal g x @ CHR '','' # commas (map (dump_internal g) xs)" by (simp add: Cons)
    have l: "2 * length (dump_internal g x) + 1 \<le> f'" "2 * length (commas (map (dump_internal g) xs)) + 2 \<le> f'"
      using Cons.prems(3) unfolding c f by simp_all
    have y: "dumps_back g y" using Cons.prems(2) Cons by simp
    have w: "ws_skip ?rest = ?rest"
      using dumps_back_ws [OF y, of "CHR '']'' # r"] dumps_back_ws [OF y, of "CHR '','' # commas (map (dump_internal g) ys) @ CHR '']'' # r"] Cons
      by (cases ys) simp_all
    have ih: "decode_items f' (vs @ [reread g x]) ?rest = Got (Some (R_list ((vs @ [reread g x]) @ map (reread g) xs))) r"
      by (rule Cons.IH [OF _ _ l(2)]) (use Cons Cons.prems(2) in simp_all)
    have a: "commas (map (dump_internal g) (x # xs)) @ CHR '']'' # r = dump_internal g x @ CHR '','' # ?rest" unfolding c by simp
    show ?thesis unfolding a f using dumps_backD [OF x stops(1) l(1), of ?rest] ih w by (simp add: ws_stops)
  qed
qed simp

lemma members_back:
  "ms \<noteq> [] \<Longrightarrow> (\<And>k v. (k, v) \<in> set ms \<Longrightarrow> dumps_back g v) \<Longrightarrow>
     2 * length (commas (map (\<lambda>(k, v). dump_string k @ CHR '':'' # dump_internal g v) ms)) + 2 \<le> f \<Longrightarrow>
     decode_members f ns (commas (map (\<lambda>(k, v). dump_string k @ CHR '':'' # dump_internal g v) ms) @ CHR ''}'' # r) =
       Got (Some (R_obj (ns @ map (\<lambda>(k, v). (k, reread g v)) ms))) r"
proof (induction ms arbitrary: f ns)
  case (Cons kv ms)
  obtain k v where kv: "kv = (k, v)" by force
  let ?m = "\<lambda>(k, v). dump_string k @ CHR '':'' # dump_internal g v"
  obtain f' where f: "f = Suc f'" using Cons.prems(3) by (cases f) auto
  have v: "dumps_back g v" using Cons.prems(2) [of k v] kv by simp
  show ?case
  proof (cases ms)
    case Nil
    have l: "2 * length (dump_internal g v) + 1 \<le> f'" using Cons.prems(3) by (simp add: f kv Nil)
    show ?thesis using dumps_backD [OF v stops(3) l, of r] dumps_back_ws [OF v]
      by (simp add: f kv Nil decode_dump_string ws_stops text_escape)
  next
    case (Cons y ys)
    let ?rest = "commas (map ?m ms) @ CHR ''}'' # r"
    have c: "commas (map ?m (kv # ms)) = dump_string k @ CHR '':'' # dump_internal g v @ CHR '','' # commas (map ?m ms)" by (simp add: Cons kv)
    have l: "2 * length (dump_internal g v) + 1 \<le> f'" "2 * length (commas (map ?m ms)) + 2 \<le> f'"
      using Cons.prems(3) unfolding c f by simp_all
    have q: "\<exists>u. ?rest = QUOTE # u" using Cons by (cases y; cases ys) (simp_all add: dump_string_def)
    have w: "ws_skip ?rest = ?rest" using q by (auto simp: ws_stay is_ws_def)
    have ih: "decode_members f' (ns @ [(k, reread g v)]) ?rest = Got (Some (R_obj ((ns @ [(k, reread g v)]) @ map (\<lambda>(k, v). (k, reread g v)) ms))) r"
      by (rule Cons.IH [OF _ _ l(2)]) (use Cons Cons.prems(2) in auto)
    have a: "commas (map ?m (kv # ms)) @ CHR ''}'' # r = dump_string k @ CHR '':'' # dump_internal g v @ CHR '','' # ?rest" unfolding c by simp
    show ?thesis unfolding a f using dumps_backD [OF v stops(1) l(1), of ?rest] ih w dumps_back_ws [OF v]
      by (simp add: ws_stops decode_dump_string text_escape kv)
  qed
qed simp

lemma numbers_ok_list: "numbers_ok g (Wvalue T_List d s (Some xs) o') \<Longrightarrow> x \<in> set xs \<Longrightarrow> numbers_ok g x"
  by (auto simp: numbers_ok_def list_all_iff)

lemma numbers_ok_object: "numbers_ok g (Wvalue T_Object d s l (Some ms)) \<Longrightarrow> (k, v) \<in> set ms \<Longrightarrow> numbers_ok g v"
  by (force simp: numbers_ok_def list_all_iff)

lemma commas_first: "xs \<noteq> [] \<Longrightarrow> hd xs = c # u \<Longrightarrow> \<exists>w. commas xs = c # w"
  by (cases xs rule: commas.cases) auto

lemma list_back:
  assumes "\<And>x. x \<in> set xs \<Longrightarrow> dumps_back g x" "\<And>x. x \<in> set xs \<Longrightarrow> numbers_ok g x" "2 * length (commas (map (dump_internal g) xs)) + 2 \<le> f"
  shows "decode_value (Suc f) (CHR ''['' # commas (map (dump_internal g) xs) @ CHR '']'' # r) = Got (Some (R_list (map (reread g) xs))) r"
proof (cases xs)
  case (Cons x ys)
  obtain c u where c: "dump_internal g x = c # u" "\<not> is_ws c" "c \<noteq> CHR '']''" using dump_first [OF assms(2) [of x]] Cons by auto
  then obtain w where w: "commas (map (dump_internal g) xs) = c # w" using commas_first [of "map (dump_internal g) xs" c u] Cons by auto
  have "xs \<noteq> []" using Cons by simp
  from items_back [OF this assms(1,3), where vs = "[]" and r = r] show ?thesis unfolding w using c by (simp add: ws_stay)
qed (simp add: ws_stops)

lemma object_back:
  assumes "\<And>k v. (k, v) \<in> set ms \<Longrightarrow> dumps_back g v" "2 * length (commas (map (\<lambda>(k, v). dump_string k @ CHR '':'' # dump_internal g v) ms)) + 2 \<le> f"
  shows "decode_value (Suc f) (CHR ''{'' # commas (map (\<lambda>(k, v). dump_string k @ CHR '':'' # dump_internal g v) ms) @ CHR ''}'' # r) =
    Got (Some (R_obj (map (\<lambda>(k, v). (k, reread g v)) ms))) r"
proof (cases ms)
  case (Cons kv ys)
  let ?m = "\<lambda>(k, v). dump_string k @ CHR '':'' # dump_internal g v"
  obtain w where w: "commas (map ?m ms) = QUOTE # w" using commas_first [of "map ?m ms" QUOTE] Cons by (cases kv) (auto simp: dump_string_def)
  have "ms \<noteq> []" using Cons by simp
  from members_back [OF this assms, where ns = "[]" and r = r] show ?thesis unfolding w by (simp add: ws_stay is_ws_def)
qed (simp add: ws_stops)

lemma decode_number_start: "isdigit a \<or> a = CHR ''-'' \<Longrightarrow> decode_value (Suc f) (a # r) = decode_number (a # r)"
proof -
  assume "isdigit a \<or> a = CHR ''-''"
  then have "a \<noteq> CHR ''[''" "a \<noteq> CHR ''{''" "a \<noteq> QUOTE" "a \<noteq> CHR ''t''" "a \<noteq> CHR ''f''" "a \<noteq> CHR ''n''" by (auto simp: isdigit_def)
  then show ?thesis by (simp only: decode_value.simps list.case if_False)
qed

lemma dump_back: "numbers_ok g v \<Longrightarrow> dumps_back g v"
proof (induction g v rule: dump_internal.induct)
  case (1 g t d s l o')
  let ?v = "Wvalue t d s l o'"
  have "decode_value f (dump_internal g ?v @ c # r) = Got (Some (reread g ?v)) (c # r)"
    if c: "stop c" and f: "2 * length (dump_internal g ?v) + 1 \<le> f" for f c r
  proof -
    obtain f' where f': "f = Suc f'" using f by (cases f) auto
    show ?thesis
    proof (cases t)
      case T_Number
      then have n: "number_text (g d)" using "1.prems" by (simp add: numbers_ok_def)
      then obtain a u where a: "g d = a # u" "isdigit a \<or> a = CHR ''-''" using number_first by blast
      then have "decode_value f (g d @ c # r) = decode_number (g d @ c # r)" using decode_number_start [of a f' "u @ c # r"] by (simp add: f' del: decode_value.simps)
      then show ?thesis using decode_number_text [OF n c] T_Number by simp
    next
      case T_String
      have "decode_value f (dump_string s @ c # r) = Got (Some (R_str (has_escape s) (escape s))) (c # r)"
        using decode_dump_string [of s "c # r"] by (simp add: f' dump_string_def)
      then show ?thesis using T_String by simp
    next
      case T_List
      show ?thesis
      proof (cases l)
        case (Some xs)
        have n: "numbers_ok g x" if "x \<in> set xs" for x using numbers_ok_list [of g d s xs o' x] "1.prems" T_List Some that by simp
        have b: "dumps_back g x" if "x \<in> set xs" for x using "1.IH"(1) [OF T_List Some that n [OF that]] .
        have "2 * length (commas (map (dump_internal g) xs)) + 2 \<le> f'" using f T_List Some by (simp add: f')
        from list_back [of xs g, OF b n this, where r = "c # r"] show ?thesis using T_List Some by (simp add: f' del: decode_value.simps)
      qed (simp add: f' T_List ws_stops)
    next
      case T_Object
      show ?thesis
      proof (cases o')
        case (Some ms)
        have b: "dumps_back g v" if "(k, v) \<in> set ms" for k v
          using "1.IH"(2) [OF T_Object Some that refl] numbers_ok_object [of g d s l ms k v] "1.prems" T_Object Some that by simp
        have "2 * length (commas (map (\<lambda>(k, v). dump_string k @ CHR '':'' # dump_internal g v) ms)) + 2 \<le> f'" using f T_Object Some by (simp add: f')
        from object_back [of ms g, OF b this, where r = "c # r"] show ?thesis using T_Object Some by (simp add: f' del: decode_value.simps)
      qed (simp add: f' T_Object ws_stops)
    qed (simp_all add: f' decode_lit_def)
  qed
  then show ?case using dump_first [OF "1.prems"] unfolding dumps_back_def by blast
qed

lemma json_load_dump: "numbers_ok g v \<Longrightarrow> json_load (dump_internal g v) = Some (Some (reread g v))"
proof -
  assume ok: "numbers_ok g v"
  let ?t = "dump_internal g v @ [NUL]"
  have w: "ws_skip ?t = ?t" using dumps_back_ws [OF dump_back [OF ok]] by blast
  have "decode_value (json_fuel ?t) ?t = Got (Some (reread g v)) [NUL]"
    by (rule dumps_backD [OF dump_back [OF ok] stops(4)]) (simp add: json_fuel_def)
  then show ?thesis using w by (simp add: json_load_def json_parse_def ws_stops)
qed


definition demo_value :: "nat wvalue" where
  "demo_value = w_key ''k'' (\<lambda>_. Wvalue T_List 0 [] (Some [Wvalue T_Number 10 [] None None, Wvalue T_Null 0 [] None None]) None)
     (w_key [CHR 0x22, CHR 0x01] (w_set_str [CHR 0x5C, CHR 0x0A, CHR 0xE9]) w_new)"


end
