(* ===== verification/Crow_Json_Access.thy ===== *)
theory Crow_Json_Access
  imports Crow_Json_Dump "HOL-Library.List_Lexorder"
begin

section \<open>Reading a JSON value (the accessors of rvalue in json.h)\<close>

text \<open>
  Each accessor gives the value or the text of its exception. How \<open>boost::lexical_cast\<close> reads a number is a
  parameter, which gives nothing where it throws. The members of an object are sorted by key, by the signed values
  of its bytes, when one is asked for. An outer \<open>None\<close> is a fault.
\<close>

definition invalid :: string where "invalid = ''invalid json object''"

text \<open>A value, or \<open>None\<close> with the error bit.\<close>

type_synonym jvalue = "rvalue option"

definition r_type :: "jvalue \<Rightarrow> (string, jtype) outcome" where
  "r_type v = (case v of
      None \<Rightarrow> Throw invalid
    | Some x \<Rightarrow> Return (case x of R_null \<Rightarrow> T_Null | R_true \<Rightarrow> T_True | R_false \<Rightarrow> T_False | R_num _ \<Rightarrow> T_Number
        | R_str _ _ \<Rightarrow> T_String | R_list _ \<Rightarrow> T_List | R_obj _ \<Rightarrow> T_Object))"

fun get_type_str :: "jtype \<Rightarrow> string" where
  "get_type_str T_Number = ''Number''" | "get_type_str T_False = ''False''" | "get_type_str T_True = ''True''"
| "get_type_str T_List = ''List''" | "get_type_str T_String = ''String''" | "get_type_str T_Object = ''Object''"
| "get_type_str T_Null = ''Unknown''"

definition r_cast :: "(string \<Rightarrow> 'n option) \<Rightarrow> string \<Rightarrow> (string, 'n) outcome" where
  "r_cast conv t = (case conv t of None \<Rightarrow> Throw ''bad lexical cast'' | Some n \<Rightarrow> Return n)"

text \<open>\<open>i\<close> and \<open>u\<close>; a string is read as it stands in the buffer.\<close>

definition r_int :: "(string \<Rightarrow> 'n option) \<Rightarrow> jvalue \<Rightarrow> (string, 'n) outcome" where
  "r_int conv v = (case v of
      Some (R_num t) \<Rightarrow> r_cast conv t
    | Some (R_str esc raw) \<Rightarrow> r_cast conv raw
    | _ \<Rightarrow> (case r_type v of Throw e \<Rightarrow> Throw e | Return t \<Rightarrow> Throw (''expected number, got: '' @ get_type_str t)))"

definition r_double :: "(string \<Rightarrow> 'n option) \<Rightarrow> jvalue \<Rightarrow> (string, 'n) outcome" where
  "r_double conv v = (case v of
      Some (R_num t) \<Rightarrow> r_cast conv t
    | None \<Rightarrow> Throw invalid
    | _ \<Rightarrow> Throw ''value is not number'')"

definition r_bool :: "jvalue \<Rightarrow> (string, bool) outcome" where
  "r_bool v = (case r_type v of
      Throw e \<Rightarrow> Throw e
    | Return t \<Rightarrow> if t \<noteq> T_True \<and> t \<noteq> T_False then Throw ''value is not boolean'' else Return (t = T_True))"

definition r_string :: "jvalue \<Rightarrow> (string, string) outcome option" where
  "r_string v = (case v of
      Some (R_str esc raw) \<Rightarrow> map_option Return (r_text esc raw)
    | None \<Rightarrow> Some (Throw invalid)
    | _ \<Rightarrow> Some (Throw ''value is not string''))"

definition r_size :: "jvalue \<Rightarrow> (string, nat) outcome option" where
  "r_size v = (case v of
      None \<Rightarrow> Some (Throw invalid)
    | Some (R_str esc raw) \<Rightarrow> map_option (\<lambda>s. Return (length s)) (r_text esc raw)
    | Some (R_list xs) \<Rightarrow> Some (Return (length xs))
    | Some (R_obj ms) \<Rightarrow> Some (Return (length ms))
    | _ \<Rightarrow> Some (Throw ''value is not a container''))"

definition r_index :: "nat \<Rightarrow> jvalue \<Rightarrow> (string, rvalue) outcome" where
  "r_index i v = (case v of
      None \<Rightarrow> Throw invalid
    | Some (R_list xs) \<Rightarrow> if length xs \<le> i then Throw ''list out of bound'' else Return (xs ! i)
    | _ \<Rightarrow> Throw ''value is not a list'')"

definition rkey :: "string \<Rightarrow> int list" where
  "rkey k = map schar k"

definition lower_bound :: "string \<Rightarrow> (string \<times> rvalue) list \<Rightarrow> (string \<times> rvalue) list" where
  "lower_bound k = dropWhile (\<lambda>x. rkey (fst x) < rkey k)"

definition r_find :: "string \<Rightarrow> (string \<times> rvalue) list \<Rightarrow> rvalue option" where
  "r_find k ms = (case lower_bound k (sort_key (\<lambda>x. rkey (fst x)) ms) of
      [] \<Rightarrow> None
    | (k', v) # _ \<Rightarrow> if k' = k then Some v else None)"

definition r_key :: "string \<Rightarrow> jvalue \<Rightarrow> (string, rvalue) outcome" where
  "r_key k v = (case v of
      None \<Rightarrow> Throw invalid
    | Some (R_obj ms) \<Rightarrow> (case r_find k ms of None \<Rightarrow> Throw ''cannot find key'' | Some x \<Rightarrow> Return x)
    | _ \<Rightarrow> Throw ''value is not an object'')"

definition r_has :: "string \<Rightarrow> jvalue \<Rightarrow> (string, bool) outcome" where
  "r_has k v = (case v of
      None \<Rightarrow> Throw invalid
    | Some (R_obj ms) \<Rightarrow> Return (r_find k ms \<noteq> None)
    | Some (R_list xs) \<Rightarrow> Return (r_find k (map (\<lambda>x. ([], x)) xs) \<noteq> None)
    | _ \<Rightarrow> Throw ''value is not a container'')"

text \<open>The constructor of a \<open>wvalue\<close> from what was read; an object takes the first of two members with one key.\<close>

fun add_missing :: "(string \<times> 'a) list \<Rightarrow> (string \<times> 'a) list \<Rightarrow> (string \<times> 'a) list" where
  "add_missing [] acc = acc"
| "add_missing ((k, v) # ms) acc = add_missing ms (if map_of acc k = None then acc @ [(k, v)] else acc)"

fun all_some :: "'a option list \<Rightarrow> 'a list option" where
  "all_some [] = Some []"
| "all_some (x # xs) = (case x of None \<Rightarrow> None | Some y \<Rightarrow> map_option ((#) y) (all_some xs))"

fun w_of_r :: "(string \<Rightarrow> 'd::zero option) \<Rightarrow> rvalue \<Rightarrow> 'd wvalue option" where
  "w_of_r conv R_null = Some (Wvalue T_Null 0 [] None None)"
| "w_of_r conv R_true = Some (Wvalue T_True 0 [] None None)"
| "w_of_r conv R_false = Some (Wvalue T_False 0 [] None None)"
| "w_of_r conv (R_num t) = map_option (\<lambda>d. Wvalue T_Number d [] None None) (conv t)"
| "w_of_r conv (R_str esc raw) = map_option (\<lambda>s. Wvalue T_String 0 s None None) (r_text esc raw)"
| "w_of_r conv (R_list xs) = map_option (\<lambda>vs. Wvalue T_List 0 [] (Some vs) None) (all_some (map (w_of_r conv) xs))"
| "w_of_r conv (R_obj ms) =
     map_option (\<lambda>vs. Wvalue T_Object 0 [] None (Some (add_missing (zip (map fst ms) vs) []))) (all_some (map (\<lambda>(k, x). w_of_r conv x) ms))"

subsection \<open>The search finds the member\<close>

lemma schar_inject: "schar a = schar b \<longleftrightarrow> a = b"
proof
  have r: "0 \<le> (of_char c :: int) \<and> (of_char c :: int) < 256" for c
    unfolding of_nat_of_char [symmetric, where 'a = int] by simp
  assume "schar a = schar b"
  then have "(of_char a :: int) = of_char b" using r [of a] r [of b] by (auto simp: schar_def Let_def split: if_splits)
  then show "a = b" by simp
qed simp

lemma rkey_inject: "rkey a = rkey b \<longleftrightarrow> a = b"
  by (simp add: rkey_def inj_map_eq_map inj_def schar_inject)

lemma find_sorted:
  "sorted (map (\<lambda>x. rkey (fst x)) xs) \<Longrightarrow> distinct (map fst xs) \<Longrightarrow>
     (case lower_bound k xs of [] \<Rightarrow> None | (k', v) # _ \<Rightarrow> if k' = k then Some v else None) = map_of xs k"
proof (induction xs)
  case (Cons x xs)
  obtain k' v where x: "x = (k', v)" by force
  show ?case
  proof (cases "rkey k' < rkey k")
    case True
    then have "k' \<noteq> k" by auto
    then show ?thesis using Cons True by (simp add: x lower_bound_def)
  next
    case False
    have "map_of xs k = None" if "k' \<noteq> k"
    proof (rule ccontr)
      assume "map_of xs k \<noteq> None"
      then obtain w where "(k, w) \<in> set xs" by (auto dest: map_of_SomeD)
      then have "rkey k' \<le> rkey k" using Cons.prems(1) x by force
      then show False using False that rkey_inject by (metis order.not_eq_order_implies_strict)
    qed
    then show ?thesis using False by (simp add: x lower_bound_def)
  qed
qed (simp add: lower_bound_def)

theorem r_find_map: "distinct (map fst ms) \<Longrightarrow> r_find k ms = map_of ms k"
proof -
  let ?s = "sort_key (\<lambda>x. rkey (fst x)) ms"
  assume d: "distinct (map fst ms)"
  have ds: "distinct (map fst ?s)" using d by (simp add: distinct_map)
  have "sorted (map (\<lambda>x. rkey (fst x)) ?s)" by (rule sorted_sort_key)
  then have "r_find k ms = map_of ?s k" using find_sorted [OF _ ds] by (simp add: r_find_def)
  also have "\<dots> = map_of ms k"
  proof (rule option.expand)
    show "(map_of ?s k = None) = (map_of ms k = None)" by (simp add: map_of_eq_None_iff)
    assume "map_of ?s k \<noteq> None"
    then obtain v where "map_of ?s k = Some v" by auto
    then have "(k, v) \<in> set ms" by (auto dest: map_of_SomeD)
    then show "the (map_of ?s k) = the (map_of ms k)" using d \<open>map_of ?s k = Some v\<close> by simp
  qed
  finally show ?thesis .
qed

end
