(* ===== verification/Nfvi_Body.thy ===== *)
theory Nfvi_Body
  imports Nfvi_Routes Crow_Json_Access
begin

section \<open>The bodies of requests\<close>

text \<open>
  What the handlers of \<open>ssn_rest_api.cc\<close> do with the body of a request: \<open>json::load\<close>, then members by name, then
  \<open>s\<close> or \<open>i\<close>. This is the reader of bodies that \<open>Nfvi_Routes\<close> takes as a parameter; a field is missing where one
  of these throws.
\<close>

fun follow :: "string list \<Rightarrow> rvalue \<Rightarrow> rvalue option" where
  "follow [] v = Some v"
| "follow (k # ks) v = (case r_key k (Some v) of Throw e \<Rightarrow> None | Return x \<Rightarrow> follow ks x)"

definition field :: "string \<Rightarrow> string list \<Rightarrow> rvalue option" where
  "field text path = (case json_load text of Some (Some v) \<Rightarrow> follow path v | _ \<Rightarrow> None)"

definition load_body :: "(string \<Rightarrow> int option) \<Rightarrow> string \<Rightarrow> body" where
  "load_body conv text =
     \<lparr>bd_str = (\<lambda>path. case field text path of
         None \<Rightarrow> None
       | Some x \<Rightarrow> (case r_string (Some x) of Some (Return s) \<Rightarrow> Some s | _ \<Rightarrow> None)),
      bd_int = (\<lambda>path. case field text path of
         None \<Rightarrow> None
       | Some x \<Rightarrow> (case r_int conv (Some x) of Return i \<Rightarrow> Some i | Throw e \<Rightarrow> None))\<rparr>"

lemma field_dump:
  assumes "numbers_ok g (Wvalue T_Object d s l (Some ms))" "distinct (map fst ms)" "map_of ms k = Some w"
  shows "field (dump_internal g (Wvalue T_Object d s l (Some ms))) [k] = Some (reread g w)"
proof -
  have f: "map fst (map (\<lambda>(k, v). (k, reread g v)) ms) = map fst ms" by (simp add: comp_def split_beta)
  have "map_of (map (\<lambda>(k, v). (k, reread g v)) ms) k = Some (reread g w)" using assms(3) by (simp add: map_of_map)
  then have "r_find k (map (\<lambda>(k, v). (k, reread g v)) ms) = Some (reread g w)" using r_find_map assms(2) f by metis
  then show ?thesis using json_load_dump [OF assms(1)] by (simp add: field_def r_key_def)
qed

text \<open>The members of an object that is built up from nothing.\<close>

fun w_object :: "(string \<times> 'd::zero wvalue) list \<Rightarrow> 'd wvalue" where
  "w_object [] = w_new"
| "w_object ((k, v) # ms) = w_key k (\<lambda>_. v) (w_object ms)"

lemma update_keys: "distinct (map fst ms) \<Longrightarrow> distinct (map fst (AList.update k v ms))"
  by (rule distinct_update)

lemma w_object_members: "ms \<noteq> [] \<Longrightarrow> \<exists>ns. w_object ms = Wvalue T_Object 0 [] None (Some ns) \<and> distinct (map fst ns) \<and> map_of ns = map_of ms"
proof (induction ms)
  case (Cons m ms)
  obtain k v where m: "m = (k, v)" by force
  show ?case
  proof (cases "ms = []")
    case True
    then show ?thesis by (simp add: m w_key_def w_new_def fun_eq_iff)
  next
    case False
    then obtain ns where ns: "w_object ms = Wvalue T_Object 0 [] None (Some ns)" "distinct (map fst ns)" "map_of ns = map_of ms" using Cons.IH by blast
    then show ?thesis by (auto simp: m w_key_def update_keys update_conv')
  qed
qed simp

theorem load_body_fields:
  assumes "numbers_ok g (w_object ms)" "map_of ms k = Some (Wvalue t d s l o')"
  shows "t = T_String \<Longrightarrow> bd_str (load_body conv (dump_internal g (w_object ms))) [k] = Some s"
    "t = T_Number \<Longrightarrow> bd_int (load_body conv (dump_internal g (w_object ms))) [k] = conv (g d)"
proof -
  have "ms \<noteq> []" using assms(2) by auto
  then obtain ns where ns: "w_object ms = Wvalue T_Object 0 [] None (Some ns)" "distinct (map fst ns)" "map_of ns = map_of ms" using w_object_members by blast
  have f: "field (dump_internal g (w_object ms)) [k] = Some (reread g (Wvalue t d s l o'))"
    unfolding ns(1) by (rule field_dump) (use assms ns in \<open>simp_all del: numbers.simps\<close>)
  show "t = T_String \<Longrightarrow> bd_str (load_body conv (dump_internal g (w_object ms))) [k] = Some s"
    using f by (simp add: load_body_def r_string_def text_escape)
  show "t = T_Number \<Longrightarrow> bd_int (load_body conv (dump_internal g (w_object ms))) [k] = conv (g d)"
    using f by (auto simp: load_body_def r_int_def r_cast_def split: option.splits)
qed

text \<open>C40. A request to create a VNF comes through as it was sent: with a name that holds no slash and any text as the
  name in the catalogue, which the client puts into a JSON object and prints, the server parses the body, finds the
  member, undoes the escapes and creates a VNF of this name from this entry of the catalogue.\<close>

theorem post_vnf_reaches:
  fixes sd :: "'d strtod"
  assumes "good_name n" "req_method q = method_no M_POST" "req_url q = ''/vnfs/'' @ n" "strtod_ok sd"
    "req_body q = dump_internal g (w_key ''cname'' (w_set_str cname) w_new)"
  shows "\<exists>T b. susanow_router X R k (load_body conv) = Some (Return T) \<and> bd_str b [''cname''] = Some cname \<and>
     router_handle err sd T q = catch (bnd (perform X R k (Change (Post_vnf n b))) (\<lambda>res. ret (response_end res))) (\<lambda>_. ret (response_ended 500))"
proof -
  let ?b = "load_body conv (req_body q)"
  have w: "w_key ''cname'' (w_set_str cname) w_new = w_object [(''cname'', w_set_str cname w_new)]" by (simp add: w_key_def w_new_def)
  have "asks (load_body conv) q (Change (Post_vnf n ?b))" using assms(2,3) by (simp add: asks_def)
  moreover have "good_call (Change (Post_vnf n ?b))" using assms(1) by simp
  moreover have "bd_str ?b [''cname''] = Some cname"
    unfolding assms(5) w by (rule load_body_fields(1)) (simp_all add: numbers_ok_def w_key_def w_new_def w_set_str_def)
  ultimately show ?thesis using rest_dispatch_call assms(4) by blast
qed

definition demo_post :: crow_request where
  "demo_post = \<lparr>req_method = 3, raw_url = ''/vnfs/nat0'', req_url = ''/vnfs/nat0'', req_headers = [],
     req_body = dump_internal (\<lambda>d :: nat. dec d) (w_key ''cname'' (w_set_str ''l2fwd1b'') w_new)\<rparr>"

theorem post_vnf_reaches_witness:
  "\<forall>X R k conv err. \<exists>T b. susanow_router X R k (load_body conv) = Some (Return T) \<and> bd_str b [''cname''] = Some ''l2fwd1b'' \<and>
     router_handle err (\<lambda>s. None) T demo_post =
       catch (bnd (perform X R k (Change (Post_vnf ''nat0'' b))) (\<lambda>res. ret (response_end res))) (\<lambda>_. ret (response_ended 500))"
  by (intro allI post_vnf_reaches no_strtod) (simp_all add: good_name_def demo_post_def)

end
