(* ===== verification/Http_Data.thy ===== *)
theory Http_Data
  imports Susanow_Prelude
begin

section \<open>The HTTP parser: its data (lib/crow/include/crow/http_parser_merged.h)\<close>

text \<open>
  The constants, the parser and the characters of the HTTP parser that crow takes from Node.js, and its parser of
  URLs. \<open>unsigned\<close> fields that stay small are numbers; the length of a body is 64 bits wide and its overflow is
  written out. The parser is compiled in strict mode.
\<close>

datatype http_method =
  HTTP_DELETE | HTTP_GET | HTTP_HEAD | HTTP_POST | HTTP_PUT | HTTP_CONNECT | HTTP_OPTIONS | HTTP_TRACE | HTTP_COPY
| HTTP_LOCK | HTTP_MKCOL | HTTP_MOVE | HTTP_PROPFIND | HTTP_PROPPATCH | HTTP_SEARCH | HTTP_UNLOCK | HTTP_REPORT
| HTTP_MKACTIVITY | HTTP_CHECKOUT | HTTP_MERGE | HTTP_MSEARCH | HTTP_NOTIFY | HTTP_SUBSCRIBE | HTTP_UNSUBSCRIBE
| HTTP_PATCH | HTTP_PURGE | HTTP_MKCALENDAR

definition http_methods :: "(http_method \<times> string) list" where
  "http_methods =
     [(HTTP_DELETE, ''DELETE''), (HTTP_GET, ''GET''), (HTTP_HEAD, ''HEAD''), (HTTP_POST, ''POST''), (HTTP_PUT, ''PUT''),
      (HTTP_CONNECT, ''CONNECT''), (HTTP_OPTIONS, ''OPTIONS''), (HTTP_TRACE, ''TRACE''), (HTTP_COPY, ''COPY''),
      (HTTP_LOCK, ''LOCK''), (HTTP_MKCOL, ''MKCOL''), (HTTP_MOVE, ''MOVE''), (HTTP_PROPFIND, ''PROPFIND''),
      (HTTP_PROPPATCH, ''PROPPATCH''), (HTTP_SEARCH, ''SEARCH''), (HTTP_UNLOCK, ''UNLOCK''), (HTTP_REPORT, ''REPORT''),
      (HTTP_MKACTIVITY, ''MKACTIVITY''), (HTTP_CHECKOUT, ''CHECKOUT''), (HTTP_MERGE, ''MERGE''),
      (HTTP_MSEARCH, ''M-SEARCH''), (HTTP_NOTIFY, ''NOTIFY''), (HTTP_SUBSCRIBE, ''SUBSCRIBE''),
      (HTTP_UNSUBSCRIBE, ''UNSUBSCRIBE''), (HTTP_PATCH, ''PATCH''), (HTTP_PURGE, ''PURGE''), (HTTP_MKCALENDAR, ''MKCALENDAR'')]"

fun position :: "'a \<Rightarrow> ('a \<times> 'b) list \<Rightarrow> nat" where
  "position a [] = 0"
| "position a (x # xs) = (if fst x = a then 0 else Suc (position a xs))"

text \<open>The number of a method and its name (\<open>http_method_str\<close>).\<close>

definition http_method_no :: "http_method \<Rightarrow> nat" where
  "http_method_no m = position m http_methods"

definition method_string :: "http_method \<Rightarrow> string" where
  "method_string m = the (map_of http_methods m)"

definition http_method_str :: "nat \<Rightarrow> string" where
  "http_method_str i = (if i < length http_methods then snd (http_methods ! i) else ''<unknown>'')"

datatype parser_type = HTTP_REQUEST | HTTP_RESPONSE | HTTP_BOTH

datatype http_flag = F_CHUNKED | F_CONNECTION_KEEP_ALIVE | F_CONNECTION_CLOSE | F_TRAILING | F_UPGRADE | F_SKIPBODY

datatype http_errno =
  HPE_OK | HPE_CB_message_begin | HPE_CB_url | HPE_CB_header_field | HPE_CB_header_value | HPE_CB_headers_complete
| HPE_CB_body | HPE_CB_message_complete | HPE_CB_status | HPE_INVALID_EOF_STATE | HPE_HEADER_OVERFLOW
| HPE_CLOSED_CONNECTION | HPE_INVALID_VERSION | HPE_INVALID_STATUS | HPE_INVALID_METHOD | HPE_INVALID_URL
| HPE_INVALID_HOST | HPE_INVALID_PORT | HPE_INVALID_PATH | HPE_INVALID_QUERY_STRING | HPE_INVALID_FRAGMENT
| HPE_LF_EXPECTED | HPE_INVALID_HEADER_TOKEN | HPE_INVALID_CONTENT_LENGTH | HPE_INVALID_CHUNK_SIZE
| HPE_INVALID_CONSTANT | HPE_INVALID_INTERNAL_STATE | HPE_STRICT | HPE_PAUSED | HPE_UNKNOWN

datatype (plugins only: size) http_state =
  s_dead | s_start_req_or_res | s_res_or_resp_H | s_start_res | s_res_H | s_res_HT | s_res_HTT | s_res_HTTP
| s_res_first_http_major | s_res_http_major | s_res_first_http_minor | s_res_http_minor | s_res_first_status_code
| s_res_status_code | s_res_status_start | s_res_status | s_res_line_almost_done | s_start_req | s_req_method
| s_req_spaces_before_url | s_req_schema | s_req_schema_slash | s_req_schema_slash_slash | s_req_server_start
| s_req_server | s_req_server_with_at | s_req_path | s_req_query_string_start | s_req_query_string
| s_req_fragment_start | s_req_fragment | s_req_http_start | s_req_http_H | s_req_http_HT | s_req_http_HTT
| s_req_http_HTTP | s_req_first_http_major | s_req_http_major | s_req_first_http_minor | s_req_http_minor
| s_req_line_almost_done | s_header_field_start | s_header_field | s_header_value_discard_ws
| s_header_value_discard_ws_almost_done | s_header_value_discard_lws | s_header_value_start | s_header_value
| s_header_value_lws | s_header_almost_done | s_chunk_size_start | s_chunk_size | s_chunk_parameters
| s_chunk_size_almost_done | s_headers_almost_done | s_headers_done | s_chunk_data | s_chunk_data_almost_done
| s_chunk_data_done | s_body_identity | s_body_identity_eof | s_message_done

definition parsing_header :: "http_state \<Rightarrow> bool" where
  "parsing_header s \<longleftrightarrow> s \<notin> {s_chunk_data, s_chunk_data_almost_done, s_chunk_data_done, s_body_identity, s_body_identity_eof, s_message_done}"

datatype header_state =
  h_general | h_C | h_CO | h_CON | h_matching_connection | h_matching_proxy_connection | h_matching_content_length
| h_matching_transfer_encoding | h_matching_upgrade | h_connection | h_content_length | h_transfer_encoding | h_upgrade
| h_matching_transfer_encoding_chunked | h_matching_connection_keep_alive | h_matching_connection_close
| h_transfer_encoding_chunked | h_connection_keep_alive | h_connection_close

record http_parser =
  hp_type :: parser_type
  hp_flags :: "http_flag set"
  hp_state :: http_state
  hp_header_state :: header_state
  hp_index :: nat
  hp_nread :: nat
  hp_content_length :: nat
  hp_major :: nat
  hp_minor :: nat
  hp_status :: nat
  hp_method :: http_method
  hp_errno :: http_errno
  hp_upgrade :: bool

definition ULLONG_MAX :: nat where "ULLONG_MAX = 2 ^ 64 - 1"

definition HTTP_MAX_HEADER_SIZE :: nat where "HTTP_MAX_HEADER_SIZE = 80 * 1024"

definition http_parser_init :: "parser_type \<Rightarrow> http_parser" where
  "http_parser_init t =
     \<lparr>hp_type = t, hp_flags = {},
      hp_state = (case t of HTTP_REQUEST \<Rightarrow> s_start_req | HTTP_RESPONSE \<Rightarrow> s_start_res | HTTP_BOTH \<Rightarrow> s_start_req_or_res),
      hp_header_state = h_general, hp_index = 0, hp_nread = 0, hp_content_length = 0, hp_major = 0, hp_minor = 0,
      hp_status = 0, hp_method = HTTP_DELETE, hp_errno = HPE_OK, hp_upgrade = False\<rparr>"

definition http_message_needs_eof :: "http_parser \<Rightarrow> bool" where
  "http_message_needs_eof P \<longleftrightarrow>
     (if hp_type P = HTTP_REQUEST then False
      else if hp_status P div 100 = 1 \<or> hp_status P = 204 \<or> hp_status P = 304 \<or> F_SKIPBODY \<in> hp_flags P then False
      else if F_CHUNKED \<in> hp_flags P \<or> hp_content_length P \<noteq> ULLONG_MAX then False
      else True)"

definition http_should_keep_alive :: "http_parser \<Rightarrow> bool" where
  "http_should_keep_alive P \<longleftrightarrow>
     (if hp_major P > 0 \<and> hp_minor P > 0
      then if F_CONNECTION_CLOSE \<in> hp_flags P then False else \<not> http_message_needs_eof P
      else if F_CONNECTION_KEEP_ALIVE \<notin> hp_flags P then False else \<not> http_message_needs_eof P)"

definition http_parser_pause :: "bool \<Rightarrow> http_parser \<Rightarrow> http_parser option" where
  "http_parser_pause paused P =
     (if hp_errno P = HPE_OK \<or> hp_errno P = HPE_PAUSED
      then Some (P\<lparr>hp_errno := if paused then HPE_PAUSED else HPE_OK\<rparr>) else None)"

definition http_body_is_final :: "http_parser \<Rightarrow> bool" where
  "http_body_is_final P \<longleftrightarrow> hp_state P = s_message_done"

subsection \<open>Characters\<close>

abbreviation CR :: char where "CR \<equiv> CHR 0x0D"
abbreviation LF :: char where "LF \<equiv> CHR 0x0A"
abbreviation TAB :: char where "TAB \<equiv> CHR 0x09"
abbreviation FF :: char where "FF \<equiv> CHR 0x0C"
abbreviation SP :: char where "SP \<equiv> CHR '' ''"

text \<open>\<open>c | 0x20\<close>.\<close>

fun lower :: "char \<Rightarrow> char" where
  "lower (Char b0 b1 b2 b3 b4 b5 b6 b7) = Char b0 b1 b2 b3 b4 True b6 b7"

definition code :: "char \<Rightarrow> nat" where "code c = of_char c"

definition is_alpha :: "char \<Rightarrow> bool" where
  "is_alpha c \<longleftrightarrow> 97 \<le> code (lower c) \<and> code (lower c) \<le> 122"

definition is_num :: "char \<Rightarrow> bool" where
  "is_num c \<longleftrightarrow> 48 \<le> code c \<and> code c \<le> 57"

definition is_alphanum :: "char \<Rightarrow> bool" where
  "is_alphanum c \<longleftrightarrow> is_alpha c \<or> is_num c"

definition is_hex_digit :: "char \<Rightarrow> bool" where
  "is_hex_digit c \<longleftrightarrow> is_num c \<or> (97 \<le> code (lower c) \<and> code (lower c) \<le> 102)"

definition is_mark :: "char \<Rightarrow> bool" where
  "is_mark c \<longleftrightarrow> c \<in> set [CHR ''-'', CHR ''_'', CHR ''.'', CHR ''!'', CHR ''~'', CHR ''*'', CHR 0x27, CHR ''('', CHR '')'']"

definition is_userinfo_char :: "char \<Rightarrow> bool" where
  "is_userinfo_char c \<longleftrightarrow> is_alphanum c \<or> is_mark c \<or>
     c \<in> set [CHR ''%'', CHR '';'', CHR '':'', CHR ''&'', CHR ''='', CHR ''+'', CHR ''$'', CHR '','']"

definition is_host_char :: "char \<Rightarrow> bool" where
  "is_host_char c \<longleftrightarrow> is_alphanum c \<or> c = CHR ''.'' \<or> c = CHR ''-''"

text \<open>The bits of \<open>normal_url_char\<close>: what can be printed, but for the blank, \<open>#\<close> and \<open>?\<close>.\<close>

definition is_url_char :: "char \<Rightarrow> bool" where
  "is_url_char c \<longleftrightarrow> 33 \<le> code c \<and> code c \<le> 126 \<and> c \<noteq> CHR ''#'' \<and> c \<noteq> CHR ''?''"

text \<open>The table \<open>tokens\<close>; \<open>None\<close> stands for 0.\<close>

definition token :: "char \<Rightarrow> char option" where
  "token c =
     (if is_num c \<or> (97 \<le> code c \<and> code c \<le> 122) then Some c
      else if 65 \<le> code c \<and> code c \<le> 90 then Some (lower c)
      else if c \<in> set [CHR ''!'', CHR ''#'', CHR ''$'', CHR ''%'', CHR ''&'', CHR 0x27, CHR ''*'', CHR ''+'', CHR ''-'', CHR ''.'',
                       CHR ''^'', CHR ''_'', CHR 0x60, CHR ''|'', CHR ''~''] then Some c
      else None)"

text \<open>The table \<open>unhex\<close>, whose initialiser has 128 entries for 256 elements: the others are 0.\<close>

definition unhex :: "char \<Rightarrow> nat option" where
  "unhex c =
     (if is_num c then Some (code c - 48)
      else if 65 \<le> code c \<and> code c \<le> 70 then Some (code c - 55)
      else if 97 \<le> code c \<and> code c \<le> 102 then Some (code c - 87)
      else if 128 \<le> code c then Some 0
      else None)"

subsection \<open>The characters of a URL\<close>

definition url_server :: "char \<Rightarrow> http_state" where
  "url_server ch =
     (if ch = CHR ''/'' then s_req_path else if ch = CHR ''?'' then s_req_query_string_start
      else if ch = CHR ''@'' then s_req_server_with_at
      else if is_userinfo_char ch \<or> ch = CHR ''['' \<or> ch = CHR '']'' then s_req_server else s_dead)"

definition url_query :: "char \<Rightarrow> http_state" where
  "url_query ch =
     (if is_url_char ch \<or> ch = CHR ''?'' then s_req_query_string
      else if ch = CHR ''#'' then s_req_fragment_start else s_dead)"

definition parse_url_char :: "http_state \<Rightarrow> char \<Rightarrow> http_state" where
  "parse_url_char s ch =
     (if ch = SP \<or> ch = CR \<or> ch = LF \<or> ch = TAB \<or> ch = FF then s_dead
      else (case s of
        s_req_spaces_before_url \<Rightarrow>
          if ch = CHR ''/'' \<or> ch = CHR ''*'' then s_req_path else if is_alpha ch then s_req_schema else s_dead
      | s_req_schema \<Rightarrow> if is_alpha ch then s_req_schema else if ch = CHR '':'' then s_req_schema_slash else s_dead
      | s_req_schema_slash \<Rightarrow> if ch = CHR ''/'' then s_req_schema_slash_slash else s_dead
      | s_req_schema_slash_slash \<Rightarrow> if ch = CHR ''/'' then s_req_server_start else s_dead
      | s_req_server_with_at \<Rightarrow> if ch = CHR ''@'' then s_dead else url_server ch
      | s_req_server_start \<Rightarrow> url_server ch
      | s_req_server \<Rightarrow> url_server ch
      | s_req_path \<Rightarrow>
          if is_url_char ch then s_req_path else if ch = CHR ''?'' then s_req_query_string_start
          else if ch = CHR ''#'' then s_req_fragment_start else s_dead
      | s_req_query_string_start \<Rightarrow> url_query ch
      | s_req_query_string \<Rightarrow> url_query ch
      | s_req_fragment_start \<Rightarrow>
          if is_url_char ch \<or> ch = CHR ''?'' then s_req_fragment else if ch = CHR ''#'' then s_req_fragment_start else s_dead
      | s_req_fragment \<Rightarrow> if is_url_char ch \<or> ch = CHR ''?'' \<or> ch = CHR ''#'' then s_req_fragment else s_dead
      | _ \<Rightarrow> s_dead))"

end
