(* ===== verification/Http_Parser.thy ===== *)
theory Http_Parser
  imports Http_Data
begin

section \<open>The HTTP parser: its steps (http_parser_execute in http_parser_merged.h)\<close>

text \<open>
  One step is one round of the \<open>switch\<close>, for the byte \<open>ch\<close> with which the rest of the data begins. It ends with a
  \<open>break\<close> (and may have moved \<open>p\<close> on by some bytes before), with \<open>goto reexecute_byte\<close>, with a \<open>return\<close> of \<open>p - data\<close>
  plus a number, or in a failed \<open>assert\<close> or a fault of a callback. A mark is the text from where it was set to \<open>p\<close>.
  The callbacks are functions of the parser and of a state of their own, which they may change.
\<close>

type_synonym 'u http_cb = "http_parser \<Rightarrow> 'u \<Rightarrow> (int \<times> http_parser \<times> 'u) option"
type_synonym 'u http_data_cb = "string \<Rightarrow> 'u http_cb"

record 'u settings =
  on_message_begin :: "'u http_cb option"
  on_url :: "'u http_data_cb option"
  on_status :: "'u http_data_cb option"
  on_header_field :: "'u http_data_cb option"
  on_header_value :: "'u http_data_cb option"
  on_headers_complete :: "'u http_cb option"
  on_body :: "'u http_data_cb option"
  on_message_complete :: "'u http_cb option"

datatype mark = M_header_field | M_header_value | M_url | M_body | M_status

record 'u pctx =
  px :: http_parser
  px_marks :: "mark \<Rightarrow> string option"
  ux :: 'u

datatype 'u pflow = Break nat "'u pctx" | Again nat "'u pctx" | Stop nat "'u pctx" | Abort

definition upd :: "(http_parser \<Rightarrow> http_parser) \<Rightarrow> 'u pctx \<Rightarrow> 'u pctx" where
  "upd f x = x\<lparr>px := f (px x)\<rparr>"

definition go :: "http_state \<Rightarrow> 'u pctx \<Rightarrow> 'u pctx" where
  "go s = upd (hp_state_update (\<lambda>_. s))"

definition hdr :: "header_state \<Rightarrow> 'u pctx \<Rightarrow> 'u pctx" where
  "hdr h = upd (hp_header_state_update (\<lambda>_. h))"

definition flag :: "http_flag \<Rightarrow> 'u pctx \<Rightarrow> 'u pctx" where
  "flag f = upd (\<lambda>P. P\<lparr>hp_flags := insert f (hp_flags P)\<rparr>)"

definition next_index :: "'u pctx \<Rightarrow> 'u pctx" where
  "next_index = upd (\<lambda>P. P\<lparr>hp_index := hp_index P + 1\<rparr>)"

text \<open>\<open>CROW_SET_ERRNO\<close> and \<open>goto error\<close>.\<close>

definition set_errno :: "http_errno \<Rightarrow> 'u pctx \<Rightarrow> 'u pctx" where
  "set_errno e = upd (hp_errno_update (\<lambda>_. e))"

definition fails :: "http_errno \<Rightarrow> 'u pctx \<Rightarrow> 'u pflow" where
  "fails e x = Stop 0 (set_errno e x)"

text \<open>The macros for the callbacks; \<open>er\<close> is what is returned past \<open>p - data\<close> when one fails or pauses.\<close>

definition run_cb :: "'u http_cb \<Rightarrow> http_errno \<Rightarrow> nat \<Rightarrow> ('u pctx \<Rightarrow> 'u pflow) \<Rightarrow> 'u pctx \<Rightarrow> 'u pflow" where
  "run_cb f e er k x =
     (case f (px x) (ux x) of
        None \<Rightarrow> Abort
      | Some (rc, P, u) \<Rightarrow>
          let x = x\<lparr>px := (if rc \<noteq> 0 then P\<lparr>hp_errno := e\<rparr> else P), ux := u\<rparr>
          in if hp_errno (px x) \<noteq> HPE_OK then Stop er x else k x)"

definition notify :: "'u http_cb option \<Rightarrow> http_errno \<Rightarrow> nat \<Rightarrow> ('u pctx \<Rightarrow> 'u pflow) \<Rightarrow> 'u pctx \<Rightarrow> 'u pflow" where
  "notify cb e er k x =
     (if hp_errno (px x) \<noteq> HPE_OK then Abort
      else case cb of None \<Rightarrow> k x | Some f \<Rightarrow> run_cb f e er k x)"

definition clear_mark :: "mark \<Rightarrow> 'u pctx \<Rightarrow> 'u pctx" where
  "clear_mark m x = x\<lparr>px_marks := (px_marks x)(m := None)\<rparr>"

definition data_cb :: "mark \<Rightarrow> 'u http_data_cb option \<Rightarrow> http_errno \<Rightarrow> nat \<Rightarrow> ('u pctx \<Rightarrow> 'u pflow) \<Rightarrow> 'u pctx \<Rightarrow> 'u pflow" where
  "data_cb m cb e er k x =
     (if hp_errno (px x) \<noteq> HPE_OK then Abort
      else case px_marks x m of
        None \<Rightarrow> k x
      | Some t \<Rightarrow>
          (case cb of
             None \<Rightarrow> k (clear_mark m x)
           | Some f \<Rightarrow> run_cb (f t) e er (\<lambda>x. k (clear_mark m x)) x))"

definition set_mark :: "mark \<Rightarrow> 'u pctx \<Rightarrow> 'u pctx" where
  "set_mark m x = (if px_marks x m = None then x\<lparr>px_marks := (px_marks x)(m := Some [])\<rparr> else x)"

text \<open>The marks when \<open>p\<close> moves on over a text.\<close>

definition advance :: "string \<Rightarrow> 'u pctx \<Rightarrow> 'u pctx" where
  "advance t x = x\<lparr>px_marks := (\<lambda>m. map_option (\<lambda>s. s @ t) (px_marks x m))\<rparr>"

definition break :: "'u pctx \<Rightarrow> 'u pflow" where "break x = Break 0 x"
definition reexecute :: "'u pctx \<Rightarrow> 'u pflow" where "reexecute x = Again 0 x"

definition message_begin :: "'u settings \<Rightarrow> 'u pctx \<Rightarrow> 'u pflow" where
  "message_begin S = notify (on_message_begin S) HPE_CB_message_begin 1 break"

definition message_complete :: "'u settings \<Rightarrow> ('u pctx \<Rightarrow> 'u pflow) \<Rightarrow> 'u pctx \<Rightarrow> 'u pflow" where
  "message_complete S = notify (on_message_complete S) HPE_CB_message_complete 1"

definition start_state :: "http_parser \<Rightarrow> http_state" where
  "start_state P = (if hp_type P = HTTP_REQUEST then s_start_req else s_start_res)"

definition NEW_MESSAGE :: "http_parser \<Rightarrow> http_state" where
  "NEW_MESSAGE P = (if http_should_keep_alive P then start_state P else s_dead)"

definition new_message :: "'u pctx \<Rightarrow> 'u pctx" where
  "new_message x = go (NEW_MESSAGE (px x)) x"

definition expect :: "char \<Rightarrow> http_state \<Rightarrow> char \<Rightarrow> 'u pctx \<Rightarrow> 'u pflow" where
  "expect c s ch x = (if ch \<noteq> c then fails HPE_STRICT x else break (go s x))"

definition reset_flags :: "'u pctx \<Rightarrow> 'u pctx" where
  "reset_flags = upd (\<lambda>P. P\<lparr>hp_flags := {}, hp_content_length := ULLONG_MAX\<rparr>)"

definition digit :: "char \<Rightarrow> nat" where "digit c = code c - 48"

subsection \<open>Responses\<close>

definition step_dead :: "char \<Rightarrow> 'u pctx \<Rightarrow> 'u pflow" where
  "step_dead ch x = (if ch = CR \<or> ch = LF then break x else fails HPE_CLOSED_CONNECTION x)"

definition step_start_req_or_res :: "'u settings \<Rightarrow> char \<Rightarrow> 'u pctx \<Rightarrow> 'u pflow" where
  "step_start_req_or_res S ch x =
     (if ch = CR \<or> ch = LF then break x
      else let x = reset_flags x in
        if ch = CHR ''H'' then message_begin S (go s_res_or_resp_H x)
        else reexecute (go s_start_req (upd (hp_type_update (\<lambda>_. HTTP_REQUEST)) x)))"

definition step_res_or_resp_H :: "char \<Rightarrow> 'u pctx \<Rightarrow> 'u pflow" where
  "step_res_or_resp_H ch x =
     (if ch = CHR ''T'' then break (go s_res_HT (upd (hp_type_update (\<lambda>_. HTTP_RESPONSE)) x))
      else if ch \<noteq> CHR ''E'' then fails HPE_INVALID_CONSTANT x
      else break (go s_req_method (upd (\<lambda>P. P\<lparr>hp_type := HTTP_REQUEST, hp_method := HTTP_HEAD, hp_index := 2\<rparr>) x)))"

definition step_start_res :: "'u settings \<Rightarrow> char \<Rightarrow> 'u pctx \<Rightarrow> 'u pflow" where
  "step_start_res S ch x =
     (let x = reset_flags x in
      if ch = CHR ''H'' then message_begin S (go s_res_H x)
      else if ch = CR \<or> ch = LF then message_begin S x
      else fails HPE_INVALID_CONSTANT x)"

definition first_major :: "nat \<Rightarrow> http_state \<Rightarrow> char \<Rightarrow> 'u pctx \<Rightarrow> 'u pflow" where
  "first_major lo s ch x =
     (if code ch < lo \<or> 57 < code ch then fails HPE_INVALID_VERSION x
      else break (go s (upd (hp_major_update (\<lambda>_. digit ch)) x)))"

definition more_major :: "http_state \<Rightarrow> char \<Rightarrow> 'u pctx \<Rightarrow> 'u pflow" where
  "more_major s ch x =
     (if ch = CHR ''.'' then break (go s x)
      else if \<not> is_num ch then fails HPE_INVALID_VERSION x
      else let x = upd (\<lambda>P. P\<lparr>hp_major := hp_major P * 10 + digit ch\<rparr>) x in
        if hp_major (px x) > 999 then fails HPE_INVALID_VERSION x else break x)"

definition first_minor :: "http_state \<Rightarrow> char \<Rightarrow> 'u pctx \<Rightarrow> 'u pflow" where
  "first_minor s ch x =
     (if \<not> is_num ch then fails HPE_INVALID_VERSION x
      else break (go s (upd (hp_minor_update (\<lambda>_. digit ch)) x)))"

definition more_minor :: "char \<Rightarrow> 'u pctx \<Rightarrow> 'u pflow" where
  "more_minor ch x =
     (if \<not> is_num ch then fails HPE_INVALID_VERSION x
      else let x = upd (\<lambda>P. P\<lparr>hp_minor := hp_minor P * 10 + digit ch\<rparr>) x in
        if hp_minor (px x) > 999 then fails HPE_INVALID_VERSION x else break x)"

definition step_res_http_minor :: "char \<Rightarrow> 'u pctx \<Rightarrow> 'u pflow" where
  "step_res_http_minor ch x = (if ch = SP then break (go s_res_first_status_code x) else more_minor ch x)"

definition step_res_first_status_code :: "char \<Rightarrow> 'u pctx \<Rightarrow> 'u pflow" where
  "step_res_first_status_code ch x =
     (if \<not> is_num ch then if ch = SP then break x else fails HPE_INVALID_STATUS x
      else break (go s_res_status_code (upd (hp_status_update (\<lambda>_. digit ch)) x)))"

definition step_res_status_code :: "char \<Rightarrow> 'u pctx \<Rightarrow> 'u pflow" where
  "step_res_status_code ch x =
     (if \<not> is_num ch then
        if ch = SP then break (go s_res_status_start x)
        else if ch = CR then break (go s_res_line_almost_done x)
        else if ch = LF then break (go s_header_field_start x)
        else fails HPE_INVALID_STATUS x
      else let x = upd (\<lambda>P. P\<lparr>hp_status := hp_status P * 10 + digit ch\<rparr>) x in
        if hp_status (px x) > 999 then fails HPE_INVALID_STATUS x else break x)"

definition step_res_status_start :: "char \<Rightarrow> 'u pctx \<Rightarrow> 'u pflow" where
  "step_res_status_start ch x =
     (if ch = CR then break (go s_res_line_almost_done x)
      else if ch = LF then break (go s_header_field_start x)
      else break (upd (hp_index_update (\<lambda>_. 0)) (go s_res_status (set_mark M_status x))))"

definition status_cb :: "'u settings \<Rightarrow> 'u pctx \<Rightarrow> 'u pflow" where
  "status_cb S = data_cb M_status (on_status S) HPE_CB_status 1 break"

definition step_res_status :: "'u settings \<Rightarrow> char \<Rightarrow> 'u pctx \<Rightarrow> 'u pflow" where
  "step_res_status S ch x =
     (if ch = CR then status_cb S (go s_res_line_almost_done x)
      else if ch = LF then status_cb S (go s_header_field_start x)
      else break x)"

subsection \<open>The line of a request\<close>

definition first_method :: "char \<Rightarrow> http_method option" where
  "first_method ch = map_of
     [(CHR ''C'', HTTP_CONNECT), (CHR ''D'', HTTP_DELETE), (CHR ''G'', HTTP_GET), (CHR ''H'', HTTP_HEAD), (CHR ''L'', HTTP_LOCK),
      (CHR ''M'', HTTP_MKCOL), (CHR ''N'', HTTP_NOTIFY), (CHR ''O'', HTTP_OPTIONS), (CHR ''P'', HTTP_POST), (CHR ''R'', HTTP_REPORT),
      (CHR ''S'', HTTP_SUBSCRIBE), (CHR ''T'', HTTP_TRACE), (CHR ''U'', HTTP_UNLOCK)] ch"

definition step_start_req :: "'u settings \<Rightarrow> char \<Rightarrow> 'u pctx \<Rightarrow> 'u pflow" where
  "step_start_req S ch x =
     (if ch = CR \<or> ch = LF then break x
      else let x = reset_flags x in
        if \<not> is_alpha ch then fails HPE_INVALID_METHOD x
        else let x = upd (\<lambda>P. P\<lparr>hp_method := HTTP_DELETE, hp_index := 1\<rparr>) x in
          case first_method ch of
            None \<Rightarrow> fails HPE_INVALID_METHOD x
          | Some m \<Rightarrow> message_begin S (go s_req_method (upd (hp_method_update (\<lambda>_. m)) x)))"

text \<open>The method to go on with where the name of \<open>m\<close> does not go on with \<open>ch\<close>.\<close>

definition other_method :: "http_method \<Rightarrow> nat \<Rightarrow> char \<Rightarrow> http_method option" where
  "other_method m i ch =
     (if m = HTTP_CONNECT then
        if i = 1 \<and> ch = CHR ''H'' then Some HTTP_CHECKOUT else if i = 2 \<and> ch = CHR ''P'' then Some HTTP_COPY else None
      else if m = HTTP_MKCOL then
        if i = 1 \<and> ch = CHR ''O'' then Some HTTP_MOVE else if i = 1 \<and> ch = CHR ''E'' then Some HTTP_MERGE
        else if i = 1 \<and> ch = CHR ''-'' then Some HTTP_MSEARCH else if i = 2 \<and> ch = CHR ''A'' then Some HTTP_MKACTIVITY
        else if i = 3 \<and> ch = CHR ''A'' then Some HTTP_MKCALENDAR else None
      else if m = HTTP_SUBSCRIBE then if i = 1 \<and> ch = CHR ''E'' then Some HTTP_SEARCH else None
      else if i = 1 \<and> m = HTTP_POST then
        if ch = CHR ''R'' then Some HTTP_PROPFIND else if ch = CHR ''U'' then Some HTTP_PUT
        else if ch = CHR ''A'' then Some HTTP_PATCH else None
      else if i = 2 then
        if m = HTTP_PUT then if ch = CHR ''R'' then Some HTTP_PURGE else None
        else if m = HTTP_UNLOCK then if ch = CHR ''S'' then Some HTTP_UNSUBSCRIBE else None
        else None
      else if i = 4 \<and> m = HTTP_PROPFIND \<and> ch = CHR ''P'' then Some HTTP_PROPPATCH
      else None)"

text \<open>\<open>s[i]\<close> of a C string; \<open>None\<close> behind its end.\<close>

definition c_char :: "string \<Rightarrow> nat \<Rightarrow> char option" where
  "c_char s i = (if i < length s then Some (s ! i) else if i = length s then Some (CHR 0x00) else None)"

definition step_req_method :: "char \<Rightarrow> 'u pctx \<Rightarrow> 'u pflow" where
  "step_req_method ch x =
     (if ch = CHR 0x00 then fails HPE_INVALID_METHOD x
      else case c_char (method_string (hp_method (px x))) (hp_index (px x)) of
        None \<Rightarrow> Abort
      | Some c \<Rightarrow>
          if ch = SP \<and> c = CHR 0x00 then break (next_index (go s_req_spaces_before_url x))
          else if ch = c then break (next_index x)
          else case other_method (hp_method (px x)) (hp_index (px x)) ch of
            None \<Rightarrow> fails HPE_INVALID_METHOD x
          | Some m \<Rightarrow> break (next_index (upd (hp_method_update (\<lambda>_. m)) x)))"

definition url_step :: "char \<Rightarrow> 'u pctx \<Rightarrow> 'u pflow" where
  "url_step ch x =
     (let x = go (parse_url_char (hp_state (px x)) ch) x in
      if hp_state (px x) = s_dead then fails HPE_INVALID_URL x else break x)"

definition step_req_spaces_before_url :: "char \<Rightarrow> 'u pctx \<Rightarrow> 'u pflow" where
  "step_req_spaces_before_url ch x =
     (if ch = SP then break x
      else let x = set_mark M_url x in
        url_step ch (if hp_method (px x) = HTTP_CONNECT then go s_req_server_start x else x))"

definition step_req_schema :: "char \<Rightarrow> 'u pctx \<Rightarrow> 'u pflow" where
  "step_req_schema ch x = (if ch = SP \<or> ch = CR \<or> ch = LF then fails HPE_INVALID_URL x else url_step ch x)"

definition url_cb :: "'u settings \<Rightarrow> 'u pctx \<Rightarrow> 'u pflow" where
  "url_cb S = data_cb M_url (on_url S) HPE_CB_url 1 break"

definition step_req_url :: "'u settings \<Rightarrow> char \<Rightarrow> 'u pctx \<Rightarrow> 'u pflow" where
  "step_req_url S ch x =
     (if ch = SP then url_cb S (go s_req_http_start x)
      else if ch = CR \<or> ch = LF
      then url_cb S (go (if ch = CR then s_req_line_almost_done else s_header_field_start)
                        (upd (\<lambda>P. P\<lparr>hp_major := 0, hp_minor := 9\<rparr>) x))
      else url_step ch x)"

definition step_req_http_start :: "char \<Rightarrow> 'u pctx \<Rightarrow> 'u pflow" where
  "step_req_http_start ch x =
     (if ch = CHR ''H'' then break (go s_req_http_H x) else if ch = SP then break x else fails HPE_INVALID_CONSTANT x)"

definition step_req_http_minor :: "char \<Rightarrow> 'u pctx \<Rightarrow> 'u pflow" where
  "step_req_http_minor ch x =
     (if ch = CR then break (go s_req_line_almost_done x)
      else if ch = LF then break (go s_header_field_start x)
      else more_minor ch x)"

definition step_req_line_almost_done :: "char \<Rightarrow> 'u pctx \<Rightarrow> 'u pflow" where
  "step_req_line_almost_done ch x =
     (if ch \<noteq> LF then fails HPE_LF_EXPECTED x else break (go s_header_field_start x))"

subsection \<open>Headers\<close>

text \<open>The matching of a known name or value, letter by letter.\<close>

definition match_word :: "string \<Rightarrow> header_state \<Rightarrow> char \<Rightarrow> 'u pctx \<Rightarrow> 'u pctx" where
  "match_word w h c x =
     (let x = next_index x; i = hp_index (px x) in
      if i > length w \<or> c_char w i \<noteq> Some c then hdr h_general x
      else if Suc i = length w then hdr h x else x)"

definition field_start_state :: "char \<Rightarrow> header_state" where
  "field_start_state c =
     (if c = CHR ''c'' then h_C else if c = CHR ''p'' then h_matching_proxy_connection
      else if c = CHR ''t'' then h_matching_transfer_encoding else if c = CHR ''u'' then h_matching_upgrade else h_general)"

definition step_header_field_start :: "char \<Rightarrow> 'u pctx \<Rightarrow> 'u pflow" where
  "step_header_field_start ch x =
     (if ch = CR then break (go s_headers_almost_done x)
      else if ch = LF then reexecute (go s_headers_almost_done x)
      else case token ch of
        None \<Rightarrow> fails HPE_INVALID_HEADER_TOKEN x
      | Some c \<Rightarrow> break (hdr (field_start_state c) (go s_header_field (upd (hp_index_update (\<lambda>_. 0)) (set_mark M_header_field x)))))"

text \<open>The next letter of a name; \<open>None\<close> is the failed \<open>assert\<close>.\<close>

definition field_char :: "char \<Rightarrow> char \<Rightarrow> 'u pctx \<Rightarrow> 'u pctx option" where
  "field_char ch c x =
     (case hp_header_state (px x) of
        h_general \<Rightarrow> Some x
      | h_C \<Rightarrow> Some (hdr (if c = CHR ''o'' then h_CO else h_general) (next_index x))
      | h_CO \<Rightarrow> Some (hdr (if c = CHR ''n'' then h_CON else h_general) (next_index x))
      | h_CON \<Rightarrow> Some (hdr (if c = CHR ''n'' then h_matching_connection else if c = CHR ''t'' then h_matching_content_length
                            else h_general) (next_index x))
      | h_matching_connection \<Rightarrow> Some (match_word ''connection'' h_connection c x)
      | h_matching_proxy_connection \<Rightarrow> Some (match_word ''proxy-connection'' h_connection c x)
      | h_matching_content_length \<Rightarrow> Some (match_word ''content-length'' h_content_length c x)
      | h_matching_transfer_encoding \<Rightarrow> Some (match_word ''transfer-encoding'' h_transfer_encoding c x)
      | h_matching_upgrade \<Rightarrow> Some (match_word ''upgrade'' h_upgrade c x)
      | h_connection \<Rightarrow> Some (if ch \<noteq> SP then hdr h_general x else x)
      | h_content_length \<Rightarrow> Some (if ch \<noteq> SP then hdr h_general x else x)
      | h_transfer_encoding \<Rightarrow> Some (if ch \<noteq> SP then hdr h_general x else x)
      | h_upgrade \<Rightarrow> Some (if ch \<noteq> SP then hdr h_general x else x)
      | _ \<Rightarrow> None)"

definition field_cb :: "'u settings \<Rightarrow> 'u pctx \<Rightarrow> 'u pflow" where
  "field_cb S = data_cb M_header_field (on_header_field S) HPE_CB_header_field 1 break"

definition step_header_field :: "'u settings \<Rightarrow> char \<Rightarrow> 'u pctx \<Rightarrow> 'u pflow" where
  "step_header_field S ch x =
     (case token ch of
        Some c \<Rightarrow> (case field_char ch c x of None \<Rightarrow> Abort | Some x \<Rightarrow> break x)
      | None \<Rightarrow>
          if ch = CHR '':'' then field_cb S (go s_header_value_discard_ws x)
          else if ch = CR then field_cb S (go s_header_almost_done x)
          else if ch = LF then field_cb S (go s_header_field_start x)
          else fails HPE_INVALID_HEADER_TOKEN x)"

definition step_header_value_start :: "char \<Rightarrow> 'u pctx \<Rightarrow> 'u pflow" where
  "step_header_value_start ch x =
     (let x = upd (hp_index_update (\<lambda>_. 0)) (go s_header_value (set_mark M_header_value x)); c = lower ch in
      case hp_header_state (px x) of
        h_upgrade \<Rightarrow> break (hdr h_general (flag F_UPGRADE x))
      | h_transfer_encoding \<Rightarrow> break (hdr (if c = CHR ''c'' then h_matching_transfer_encoding_chunked else h_general) x)
      | h_content_length \<Rightarrow>
          if \<not> is_num ch then fails HPE_INVALID_CONTENT_LENGTH x
          else break (upd (hp_content_length_update (\<lambda>_. digit ch)) x)
      | h_connection \<Rightarrow>
          break (hdr (if c = CHR ''k'' then h_matching_connection_keep_alive
                      else if c = CHR ''c'' then h_matching_connection_close else h_general) x)
      | _ \<Rightarrow> break (hdr h_general x))"

definition step_header_value_discard_ws :: "char \<Rightarrow> 'u pctx \<Rightarrow> 'u pflow" where
  "step_header_value_discard_ws ch x =
     (if ch = SP \<or> ch = TAB then break x
      else if ch = CR then break (go s_header_value_discard_ws_almost_done x)
      else if ch = LF then break (go s_header_value_discard_lws x)
      else step_header_value_start ch x)"

definition value_cb :: "'u settings \<Rightarrow> nat \<Rightarrow> ('u pctx \<Rightarrow> 'u pflow) \<Rightarrow> 'u pctx \<Rightarrow> 'u pflow" where
  "value_cb S = data_cb M_header_value (on_header_value S) HPE_CB_header_value"

text \<open>A number in base \<open>b\<close> that grows by a digit, in 64 bits.\<close>

definition more_length :: "nat \<Rightarrow> nat \<Rightarrow> 'u pctx \<Rightarrow> 'u pflow" where
  "more_length b d x =
     (let n = hp_content_length (px x); t = (n * b mod 2 ^ 64 + d) mod 2 ^ 64 in
      if (ULLONG_MAX - b) div b < n then fails HPE_INVALID_CONTENT_LENGTH x
      else break (upd (hp_content_length_update (\<lambda>_. t)) x))"

definition step_header_value :: "'u settings \<Rightarrow> char \<Rightarrow> 'u pctx \<Rightarrow> 'u pflow" where
  "step_header_value S ch x =
     (if ch = CR then value_cb S 1 break (go s_header_almost_done x)
      else if ch = LF then value_cb S 0 reexecute (go s_header_almost_done x)
      else let c = lower ch in
        case hp_header_state (px x) of
          h_general \<Rightarrow> break x
        | h_connection \<Rightarrow> Abort
        | h_transfer_encoding \<Rightarrow> Abort
        | h_content_length \<Rightarrow>
            if ch = SP then break x
            else if \<not> is_num ch then fails HPE_INVALID_CONTENT_LENGTH x
            else more_length 10 (digit ch) x
        | h_matching_transfer_encoding_chunked \<Rightarrow> break (match_word ''chunked'' h_transfer_encoding_chunked c x)
        | h_matching_connection_keep_alive \<Rightarrow> break (match_word ''keep-alive'' h_connection_keep_alive c x)
        | h_matching_connection_close \<Rightarrow> break (match_word ''close'' h_connection_close c x)
        | h_transfer_encoding_chunked \<Rightarrow> break (if ch \<noteq> SP then hdr h_general x else x)
        | h_connection_keep_alive \<Rightarrow> break (if ch \<noteq> SP then hdr h_general x else x)
        | h_connection_close \<Rightarrow> break (if ch \<noteq> SP then hdr h_general x else x)
        | _ \<Rightarrow> break (hdr h_general (go s_header_value x)))"

definition finish_header :: "'u pctx \<Rightarrow> 'u pctx" where
  "finish_header x =
     (case hp_header_state (px x) of
        h_connection_keep_alive \<Rightarrow> flag F_CONNECTION_KEEP_ALIVE x
      | h_connection_close \<Rightarrow> flag F_CONNECTION_CLOSE x
      | h_transfer_encoding_chunked \<Rightarrow> flag F_CHUNKED x
      | _ \<Rightarrow> x)"

definition step_header_value_lws :: "char \<Rightarrow> 'u pctx \<Rightarrow> 'u pflow" where
  "step_header_value_lws ch x =
     (if ch = SP \<or> ch = TAB then reexecute (go s_header_value_start x)
      else reexecute (go s_header_field_start (finish_header x)))"

definition step_header_value_discard_lws :: "'u settings \<Rightarrow> char \<Rightarrow> 'u pctx \<Rightarrow> 'u pflow" where
  "step_header_value_discard_lws S ch x =
     (if ch = SP \<or> ch = TAB then break (go s_header_value_discard_ws x)
      else value_cb S 0 reexecute (go s_header_field_start (set_mark M_header_value x)))"

text \<open>What follows the callback at the end of the headers.\<close>

definition headers_complete :: "'u settings \<Rightarrow> 'u pctx \<Rightarrow> 'u pflow" where
  "headers_complete S x =
     (case (case on_headers_complete S of None \<Rightarrow> Some (0, px x, ux x) | Some f \<Rightarrow> f (px x) (ux x)) of
        None \<Rightarrow> Abort
      | Some (rc, P, u) \<Rightarrow>
          let x = x\<lparr>px := P, ux := u\<rparr> in
          if rc \<noteq> 0 \<and> rc \<noteq> 1 then fails HPE_CB_headers_complete x
          else let x = (if rc = 1 then flag F_SKIPBODY x else x) in
            if hp_errno (px x) \<noteq> HPE_OK then Stop 0 x else reexecute x)"

definition step_headers_almost_done :: "'u settings \<Rightarrow> char \<Rightarrow> 'u pctx \<Rightarrow> 'u pflow" where
  "step_headers_almost_done S ch x =
     (if ch \<noteq> LF then fails HPE_STRICT x
      else if F_TRAILING \<in> hp_flags (px x) then message_complete S break (new_message x)
      else headers_complete S (upd (\<lambda>P. P\<lparr>hp_state := s_headers_done,
             hp_upgrade := F_UPGRADE \<in> hp_flags P \<or> hp_method P = HTTP_CONNECT\<rparr>) x))"

definition step_headers_done :: "'u settings \<Rightarrow> char \<Rightarrow> 'u pctx \<Rightarrow> 'u pflow" where
  "step_headers_done S ch x =
     (if ch \<noteq> LF then fails HPE_STRICT x
      else let x = upd (hp_nread_update (\<lambda>_. 0)) x in
        if hp_upgrade (px x) then message_complete S (Stop 1) (new_message x)
        else if F_SKIPBODY \<in> hp_flags (px x) then message_complete S break (new_message x)
        else if F_CHUNKED \<in> hp_flags (px x) then break (go s_chunk_size_start x)
        else if hp_content_length (px x) = 0 then message_complete S break (new_message x)
        else if hp_content_length (px x) \<noteq> ULLONG_MAX then break (go s_body_identity x)
        else if hp_type (px x) = HTTP_REQUEST \<or> \<not> http_message_needs_eof (px x)
        then message_complete S break (new_message x)
        else break (go s_body_identity_eof x))"

subsection \<open>Bodies\<close>

text \<open>Both kinds of body take what is there, at most to the end of the body; \<open>k\<close> goes on with \<open>p\<close> at the last byte
  taken, \<open>n - 1\<close> behind where it was.\<close>

definition take_body :: "string \<Rightarrow> (nat \<Rightarrow> 'u pctx \<Rightarrow> 'u pflow) \<Rightarrow> 'u pctx \<Rightarrow> 'u pflow" where
  "take_body rest k x =
     (let n = min (hp_content_length (px x)) (length rest) in
      if hp_content_length (px x) = 0 \<or> hp_content_length (px x) = ULLONG_MAX then Abort
      else k n (upd (\<lambda>P. P\<lparr>hp_content_length := hp_content_length P - n\<rparr>) (set_mark M_body x)))"

definition more_body :: "string \<Rightarrow> 'u pctx \<Rightarrow> 'u pctx" where
  "more_body t x = x\<lparr>px_marks := (px_marks x)(M_body := map_option (\<lambda>s. s @ t) (px_marks x M_body))\<rparr>"

definition step_body_identity :: "'u settings \<Rightarrow> string \<Rightarrow> 'u pctx \<Rightarrow> 'u pflow" where
  "step_body_identity S rest =
     take_body rest (\<lambda>n x.
       if hp_content_length (px x) = 0
       then data_cb M_body (on_body S) HPE_CB_body (n - 1) (Again (n - 1)) (more_body (take n rest) (go s_message_done x))
       else Break (n - 1) x)"

definition step_body_identity_eof :: "string \<Rightarrow> 'u pctx \<Rightarrow> 'u pflow" where
  "step_body_identity_eof rest x = Break (length rest - 1) (set_mark M_body x)"

definition step_message_done :: "'u settings \<Rightarrow> 'u pctx \<Rightarrow> 'u pflow" where
  "step_message_done S x = message_complete S break (new_message x)"

definition step_chunk_size_start :: "char \<Rightarrow> 'u pctx \<Rightarrow> 'u pflow" where
  "step_chunk_size_start ch x =
     (if hp_nread (px x) \<noteq> 1 \<or> F_CHUNKED \<notin> hp_flags (px x) then Abort
      else case unhex ch of
        None \<Rightarrow> fails HPE_INVALID_CHUNK_SIZE x
      | Some d \<Rightarrow> break (go s_chunk_size (upd (hp_content_length_update (\<lambda>_. d)) x)))"

definition step_chunk_size :: "char \<Rightarrow> 'u pctx \<Rightarrow> 'u pflow" where
  "step_chunk_size ch x =
     (if F_CHUNKED \<notin> hp_flags (px x) then Abort
      else if ch = CR then break (go s_chunk_size_almost_done x)
      else case unhex ch of
        None \<Rightarrow> if ch = CHR '';'' \<or> ch = SP then break (go s_chunk_parameters x) else fails HPE_INVALID_CHUNK_SIZE x
      | Some d \<Rightarrow> more_length 16 d x)"

definition step_chunk_parameters :: "char \<Rightarrow> 'u pctx \<Rightarrow> 'u pflow" where
  "step_chunk_parameters ch x =
     (if F_CHUNKED \<notin> hp_flags (px x) then Abort
      else if ch = CR then break (go s_chunk_size_almost_done x) else break x)"

definition step_chunk_size_almost_done :: "char \<Rightarrow> 'u pctx \<Rightarrow> 'u pflow" where
  "step_chunk_size_almost_done ch x =
     (if F_CHUNKED \<notin> hp_flags (px x) then Abort
      else if ch \<noteq> LF then fails HPE_STRICT x
      else let x = upd (hp_nread_update (\<lambda>_. 0)) x in
        if hp_content_length (px x) = 0 then break (go s_header_field_start (flag F_TRAILING x))
        else break (go s_chunk_data x))"

definition step_chunk_data :: "string \<Rightarrow> 'u pctx \<Rightarrow> 'u pflow" where
  "step_chunk_data rest x =
     (if F_CHUNKED \<notin> hp_flags (px x) then Abort
      else take_body rest (\<lambda>n x.
        Break (n - 1) (if hp_content_length (px x) = 0 then go s_chunk_data_almost_done x else x)) x)"

definition step_chunk_data_almost_done :: "'u settings \<Rightarrow> char \<Rightarrow> 'u pctx \<Rightarrow> 'u pflow" where
  "step_chunk_data_almost_done S ch x =
     (if F_CHUNKED \<notin> hp_flags (px x) \<or> hp_content_length (px x) \<noteq> 0 then Abort
      else if ch \<noteq> CR then fails HPE_STRICT x
      else data_cb M_body (on_body S) HPE_CB_body 1 break (go s_chunk_data_done x))"

definition step_chunk_data_done :: "char \<Rightarrow> 'u pctx \<Rightarrow> 'u pflow" where
  "step_chunk_data_done ch x =
     (if F_CHUNKED \<notin> hp_flags (px x) then Abort
      else if ch \<noteq> LF then fails HPE_STRICT x
      else break (go s_chunk_size_start (upd (hp_nread_update (\<lambda>_. 0)) x)))"

subsection \<open>The loop\<close>

definition parser_step :: "'u settings \<Rightarrow> char \<Rightarrow> string \<Rightarrow> 'u pctx \<Rightarrow> 'u pflow" where
  "parser_step S ch rest x =
     (case hp_state (px x) of
        s_dead \<Rightarrow> step_dead ch x
      | s_start_req_or_res \<Rightarrow> step_start_req_or_res S ch x
      | s_res_or_resp_H \<Rightarrow> step_res_or_resp_H ch x
      | s_start_res \<Rightarrow> step_start_res S ch x
      | s_res_H \<Rightarrow> expect (CHR ''T'') s_res_HT ch x
      | s_res_HT \<Rightarrow> expect (CHR ''T'') s_res_HTT ch x
      | s_res_HTT \<Rightarrow> expect (CHR ''P'') s_res_HTTP ch x
      | s_res_HTTP \<Rightarrow> expect (CHR ''/'') s_res_first_http_major ch x
      | s_res_first_http_major \<Rightarrow> first_major 48 s_res_http_major ch x
      | s_res_http_major \<Rightarrow> more_major s_res_first_http_minor ch x
      | s_res_first_http_minor \<Rightarrow> first_minor s_res_http_minor ch x
      | s_res_http_minor \<Rightarrow> step_res_http_minor ch x
      | s_res_first_status_code \<Rightarrow> step_res_first_status_code ch x
      | s_res_status_code \<Rightarrow> step_res_status_code ch x
      | s_res_status_start \<Rightarrow> step_res_status_start ch x
      | s_res_status \<Rightarrow> step_res_status S ch x
      | s_res_line_almost_done \<Rightarrow> expect LF s_header_field_start ch x
      | s_start_req \<Rightarrow> step_start_req S ch x
      | s_req_method \<Rightarrow> step_req_method ch x
      | s_req_spaces_before_url \<Rightarrow> step_req_spaces_before_url ch x
      | s_req_schema \<Rightarrow> step_req_schema ch x
      | s_req_schema_slash \<Rightarrow> step_req_schema ch x
      | s_req_schema_slash_slash \<Rightarrow> step_req_schema ch x
      | s_req_server_start \<Rightarrow> step_req_schema ch x
      | s_req_server \<Rightarrow> step_req_url S ch x
      | s_req_server_with_at \<Rightarrow> step_req_url S ch x
      | s_req_path \<Rightarrow> step_req_url S ch x
      | s_req_query_string_start \<Rightarrow> step_req_url S ch x
      | s_req_query_string \<Rightarrow> step_req_url S ch x
      | s_req_fragment_start \<Rightarrow> step_req_url S ch x
      | s_req_fragment \<Rightarrow> step_req_url S ch x
      | s_req_http_start \<Rightarrow> step_req_http_start ch x
      | s_req_http_H \<Rightarrow> expect (CHR ''T'') s_req_http_HT ch x
      | s_req_http_HT \<Rightarrow> expect (CHR ''T'') s_req_http_HTT ch x
      | s_req_http_HTT \<Rightarrow> expect (CHR ''P'') s_req_http_HTTP ch x
      | s_req_http_HTTP \<Rightarrow> expect (CHR ''/'') s_req_first_http_major ch x
      | s_req_first_http_major \<Rightarrow> first_major 49 s_req_http_major ch x
      | s_req_http_major \<Rightarrow> more_major s_req_first_http_minor ch x
      | s_req_first_http_minor \<Rightarrow> first_minor s_req_http_minor ch x
      | s_req_http_minor \<Rightarrow> step_req_http_minor ch x
      | s_req_line_almost_done \<Rightarrow> step_req_line_almost_done ch x
      | s_header_field_start \<Rightarrow> step_header_field_start ch x
      | s_header_field \<Rightarrow> step_header_field S ch x
      | s_header_value_discard_ws \<Rightarrow> step_header_value_discard_ws ch x
      | s_header_value_discard_ws_almost_done \<Rightarrow> expect LF s_header_value_discard_lws ch x
      | s_header_value_discard_lws \<Rightarrow> step_header_value_discard_lws S ch x
      | s_header_value_start \<Rightarrow> step_header_value_start ch x
      | s_header_value \<Rightarrow> step_header_value S ch x
      | s_header_value_lws \<Rightarrow> step_header_value_lws ch x
      | s_header_almost_done \<Rightarrow> expect LF s_header_value_lws ch x
      | s_chunk_size_start \<Rightarrow> step_chunk_size_start ch x
      | s_chunk_size \<Rightarrow> step_chunk_size ch x
      | s_chunk_parameters \<Rightarrow> step_chunk_parameters ch x
      | s_chunk_size_almost_done \<Rightarrow> step_chunk_size_almost_done ch x
      | s_headers_almost_done \<Rightarrow> step_headers_almost_done S ch x
      | s_headers_done \<Rightarrow> step_headers_done S ch x
      | s_chunk_data \<Rightarrow> step_chunk_data rest x
      | s_chunk_data_almost_done \<Rightarrow> step_chunk_data_almost_done S ch x
      | s_chunk_data_done \<Rightarrow> step_chunk_data_done ch x
      | s_body_identity \<Rightarrow> step_body_identity S rest x
      | s_body_identity_eof \<Rightarrow> step_body_identity_eof rest x
      | s_message_done \<Rightarrow> step_message_done S x)"

text \<open>One byte, with \<open>goto reexecute_byte\<close>; \<open>n\<close> is how far \<open>p\<close> has moved. Five rounds are enough.\<close>

fun byte :: "nat \<Rightarrow> 'u settings \<Rightarrow> char \<Rightarrow> nat \<Rightarrow> string \<Rightarrow> 'u pctx \<Rightarrow> 'u pflow" where
  "byte 0 S ch n rest x = Abort"
| "byte (Suc f) S ch n rest x =
     (case parser_step S ch (drop n rest) x of
        Again k y \<Rightarrow> byte f S ch (n + k) rest y
      | Break k y \<Rightarrow> Break (n + k) y
      | Stop k y \<Rightarrow> Stop (n + k) y
      | Abort \<Rightarrow> Abort)"

definition count_byte :: "'u pctx \<Rightarrow> 'u pctx" where
  "count_byte x = (if parsing_header (hp_state (px x)) then upd (\<lambda>P. P\<lparr>hp_nread := hp_nread P + 1\<rparr>) x else x)"

type_synonym 'u parsed_bytes = "(nat \<times> http_parser \<times> 'u) option"

definition all_marks :: "mark list" where
  "all_marks = [M_header_field, M_header_value, M_url, M_body, M_status]"

text \<open>The marks that are left at the end of the data.\<close>

definition leftover :: "'u settings \<Rightarrow> 'u pctx \<Rightarrow> 'u pflow" where
  "leftover S x =
     (if length (filter (\<lambda>m. px_marks x m \<noteq> None) all_marks) > 1 then Abort
      else data_cb M_header_field (on_header_field S) HPE_CB_header_field 0
          (data_cb M_header_value (on_header_value S) HPE_CB_header_value 0
          (data_cb M_url (on_url S) HPE_CB_url 0
          (data_cb M_body (on_body S) HPE_CB_body 0
          (data_cb M_status (on_status S) HPE_CB_status 0 (Stop 0))))) x)"

function parse_loop :: "'u settings \<Rightarrow> nat \<Rightarrow> string \<Rightarrow> 'u pctx \<Rightarrow> 'u parsed_bytes" where
  "parse_loop S n [] x = (case leftover S x of Stop k y \<Rightarrow> Some (n + k, px y, ux y) | _ \<Rightarrow> None)"
| "parse_loop S n (ch # cs) x =
     (let x = count_byte x in
      if parsing_header (hp_state (px x)) \<and> hp_nread (px x) > HTTP_MAX_HEADER_SIZE
      then Some (n, px (set_errno HPE_HEADER_OVERFLOW x), ux x)
      else case byte 5 S ch 0 (ch # cs) x of
        Break k y \<Rightarrow> parse_loop S (n + Suc k) (drop k cs) (advance (take (Suc k) (ch # cs)) y)
      | Stop k y \<Rightarrow> Some (n + k, px y, ux y)
      | _ \<Rightarrow> None)"
  by pat_completeness auto
termination by (relation "measure (\<lambda>(S, n, cs, x). length cs)") auto

definition url_state :: "http_state \<Rightarrow> bool" where
  "url_state s \<longleftrightarrow> s \<in> {s_req_path, s_req_schema, s_req_schema_slash, s_req_schema_slash_slash, s_req_server_start, s_req_server,
     s_req_server_with_at, s_req_query_string_start, s_req_query_string, s_req_fragment_start, s_req_fragment}"

definition start_marks :: "http_state \<Rightarrow> mark \<Rightarrow> string option" where
  "start_marks s m =
     (if (m = M_header_field \<and> s = s_header_field) \<or> (m = M_header_value \<and> s = s_header_value) \<or>
         (m = M_url \<and> url_state s) \<or> (m = M_status \<and> s = s_res_status)
      then Some [] else None)"

definition http_parser_execute :: "'u settings \<Rightarrow> string \<Rightarrow> http_parser \<Rightarrow> 'u \<Rightarrow> 'u parsed_bytes" where
  "http_parser_execute S data P u =
     (let x = \<lparr>px = P, px_marks = start_marks (hp_state P), ux = u\<rparr> in
      if hp_errno P \<noteq> HPE_OK then Some (0, P, u)
      else if data = [] then
        (if hp_state P = s_body_identity_eof then
           (case notify (on_message_complete S) HPE_CB_message_complete 0 (Stop 0) x of
              Stop k y \<Rightarrow> Some (k, px y, ux y) | _ \<Rightarrow> None)
         else if hp_state P \<in> {s_dead, s_start_req_or_res, s_start_res, s_start_req} then Some (0, P, u)
         else Some (1, P\<lparr>hp_errno := HPE_INVALID_EOF_STATE\<rparr>, u))
      else parse_loop S 0 data x)"

end
