(* ===== verification/Http_Safe.thy ===== *)
theory Http_Safe
  imports Http_Parser
begin

section \<open>The HTTP parser never goes wrong\<close>

text \<open>
  An invariant of the parser between two bytes, under which no \<open>assert\<close> of a step fails, no table is read behind its
  end, and every step ends after at most five rounds. The callbacks may fail and may pause the parser, but change
  nothing else of it.
\<close>

definition tame_cb :: "'u http_cb \<Rightarrow> bool" where
  "tame_cb f \<longleftrightarrow> (\<forall>P u. \<exists>rc P' u'. f P u = Some (rc, P', u') \<and> (P' = P \<or> P' = P\<lparr>hp_errno := HPE_PAUSED\<rparr>))"

definition tame_data :: "'u http_data_cb \<Rightarrow> bool" where
  "tame_data f \<longleftrightarrow> (\<forall>s. tame_cb (f s))"

definition tame :: "'u settings \<Rightarrow> bool" where
  "tame S \<longleftrightarrow> pred_option tame_cb (on_message_begin S) \<and> pred_option tame_data (on_url S) \<and> pred_option tame_data (on_status S) \<and>
     pred_option tame_data (on_header_field S) \<and> pred_option tame_data (on_header_value S) \<and>
     pred_option tame_cb (on_headers_complete S) \<and> pred_option tame_data (on_body S) \<and> pred_option tame_cb (on_message_complete S)"

text \<open>The states of a header while its name is read, and the word that is matched.\<close>

definition field_word :: "header_state \<Rightarrow> string option" where
  "field_word h = map_of
     [(h_matching_connection, ''connection''), (h_matching_proxy_connection, ''proxy-connection''),
      (h_matching_content_length, ''content-length''), (h_matching_transfer_encoding, ''transfer-encoding''),
      (h_matching_upgrade, ''upgrade'')] h"

definition field_state :: "header_state \<Rightarrow> bool" where
  "field_state h \<longleftrightarrow> h \<in> {h_general, h_C, h_CO, h_CON, h_connection, h_content_length, h_transfer_encoding, h_upgrade} \<or> field_word h \<noteq> None"

text \<open>What holds in a state; \<open>n\<close> is the number of bytes counted when the size of a chunk begins.\<close>

definition state_ok :: "nat \<Rightarrow> http_parser \<Rightarrow> bool" where
  "state_ok n P \<longleftrightarrow> (case hp_state P of
      s_req_method \<Rightarrow> hp_index P \<le> length (method_string (hp_method P))
    | s_header_field \<Rightarrow> field_state (hp_header_state P)
    | s_header_value \<Rightarrow> hp_header_state P \<noteq> h_connection \<and> hp_header_state P \<noteq> h_transfer_encoding
    | s_chunk_size_start \<Rightarrow> F_CHUNKED \<in> hp_flags P \<and> hp_nread P = n
    | s_chunk_size \<Rightarrow> F_CHUNKED \<in> hp_flags P \<and> hp_content_length P < ULLONG_MAX
    | s_chunk_parameters \<Rightarrow> F_CHUNKED \<in> hp_flags P \<and> hp_content_length P < ULLONG_MAX
    | s_chunk_size_almost_done \<Rightarrow> F_CHUNKED \<in> hp_flags P \<and> hp_content_length P < ULLONG_MAX
    | s_chunk_data \<Rightarrow> F_CHUNKED \<in> hp_flags P \<and> 0 < hp_content_length P \<and> hp_content_length P < ULLONG_MAX
    | s_chunk_data_almost_done \<Rightarrow> F_CHUNKED \<in> hp_flags P \<and> hp_content_length P = 0
    | s_chunk_data_done \<Rightarrow> F_CHUNKED \<in> hp_flags P
    | s_body_identity \<Rightarrow> 0 < hp_content_length P \<and> hp_content_length P < ULLONG_MAX
    | _ \<Rightarrow> True)"

definition parser_ok :: "nat \<Rightarrow> http_parser \<Rightarrow> bool" where
  "parser_ok n P \<longleftrightarrow> state_ok n P \<and> hp_content_length P \<le> ULLONG_MAX"

text \<open>The one mark that can be set in a state.\<close>

definition mark_of :: "http_state \<Rightarrow> mark option" where
  "mark_of s = (case s of
      s_header_field \<Rightarrow> Some M_header_field
    | s_header_value \<Rightarrow> Some M_header_value
    | s_res_status \<Rightarrow> Some M_status
    | s_chunk_data \<Rightarrow> Some M_body
    | s_chunk_data_almost_done \<Rightarrow> Some M_body
    | s_body_identity \<Rightarrow> Some M_body
    | s_body_identity_eof \<Rightarrow> Some M_body
    | _ \<Rightarrow> if url_state s then Some M_url else None)"

definition marks_ok :: "'u pctx \<Rightarrow> bool" where
  "marks_ok x \<longleftrightarrow> (case mark_of (hp_state (px x)) of None \<Rightarrow> px_marks x = Map.empty | Some m \<Rightarrow> \<exists>t. px_marks x = Map.empty(m := t))"

definition px_ok :: "nat \<Rightarrow> 'u pctx \<Rightarrow> bool" where
  "px_ok n x \<longleftrightarrow> parser_ok n (px x) \<and> marks_ok x \<and> hp_errno (px x) = HPE_OK"

text \<open>How many rounds can follow.\<close>

definition rounds :: "http_state \<Rightarrow> nat" where
  "rounds s =
     (if s \<in> {s_header_value_lws, s_header_value_discard_lws, s_start_req_or_res} then 4 else if s = s_header_field_start then 3
      else if s \<in> {s_header_value, s_headers_almost_done, s_body_identity} then 2
      else 1)"

definition stop_ok :: "http_parser \<Rightarrow> bool" where
  "stop_ok P \<longleftrightarrow> (hp_errno P = HPE_OK \<or> hp_errno P = HPE_PAUSED \<longrightarrow> parser_ok 0 P)"

fun good_flow :: "nat \<Rightarrow> nat \<Rightarrow> 'u pflow \<Rightarrow> bool" where
  "good_flow l r (Break k y) \<longleftrightarrow> k < l \<and> px_ok 0 y"
| "good_flow l r (Again k y) \<longleftrightarrow> k < l \<and> px_ok 1 y \<and> rounds (hp_state (px y)) < r"
| "good_flow l r (Stop k y) \<longleftrightarrow> k \<le> l \<and> stop_ok (px y) \<and> (hp_errno (px y) \<noteq> HPE_OK \<or> (k = 1 \<and> hp_upgrade (px y)))"
| "good_flow l r Abort \<longleftrightarrow> False"

lemma good_flow_break [simp]: "good_flow l r (break x) \<longleftrightarrow> 0 < l \<and> px_ok 0 x"
  by (simp add: break_def)

lemma good_flow_reexecute [simp]: "good_flow l r (reexecute x) \<longleftrightarrow> 0 < l \<and> px_ok 1 x \<and> rounds (hp_state (px x)) < r"
  by (simp add: reexecute_def)


lemma good_flow_fails [simp]: "e \<noteq> HPE_OK \<Longrightarrow> e \<noteq> HPE_PAUSED \<Longrightarrow> good_flow l r (fails e x)"
  by (simp add: fails_def set_errno_def upd_def stop_ok_def)

lemma parser_ok_errno [simp]: "parser_ok n (P\<lparr>hp_errno := e\<rparr>) = parser_ok n P"
  by (cases "hp_state P") (simp_all add: parser_ok_def state_ok_def)

lemma marks_ok_ux [simp]: "marks_ok (x\<lparr>ux := u\<rparr>) = marks_ok x"
  by (simp add: marks_ok_def split: option.split)

lemma run_cb_good:
  assumes "tame_cb f" "parser_ok 0 (px x)" "hp_errno (px x) = HPE_OK" "er \<le> l" "e \<noteq> HPE_OK" "\<And>u. good_flow l r (k (x\<lparr>ux := u\<rparr>))"
  shows "good_flow l r (run_cb f e er k x)"
proof -
  obtain rc P' u' where f: "f (px x) (ux x) = Some (rc, P', u')" "P' = px x \<or> P' = (px x)\<lparr>hp_errno := HPE_PAUSED\<rparr>"
    using assms(1) unfolding tame_cb_def by metis
  have "x\<lparr>px := px x, ux := u'\<rparr> = x\<lparr>ux := u'\<rparr>" by simp
  then show ?thesis using f assms(2-6) by (auto simp: run_cb_def stop_ok_def Let_def)
qed

lemma notify_good:
  assumes "pred_option tame_cb cb" "parser_ok 0 (px x)" "hp_errno (px x) = HPE_OK" "er \<le> l" "e \<noteq> HPE_OK"
    "\<And>u. good_flow l r (k (x\<lparr>ux := u\<rparr>))"
  shows "good_flow l r (notify cb e er k x)"
proof (cases cb)
  case None
  then show ?thesis using assms(3) assms(6) [of "ux x"] by (simp add: notify_def)
next
  case (Some f)
  then show ?thesis using assms(1) by (simp add: notify_def assms(3), intro run_cb_good assms(2-6)) simp
qed

lemma data_cb_good:
  assumes "pred_option tame_data cb" "parser_ok 0 (px x)" "hp_errno (px x) = HPE_OK" "er \<le> l" "e \<noteq> HPE_OK"
    "\<And>u. good_flow l r (k (clear_mark m (x\<lparr>ux := u\<rparr>)))" 
  shows "good_flow l r (data_cb m cb e er k x)"
proof -
  have "px_marks x m = None \<Longrightarrow> clear_mark m x = x" by (auto simp: clear_mark_def fun_eq_iff)
  then have "px_marks x m = None \<Longrightarrow> good_flow l r (k x)" using assms(6) [of "ux x"] by simp
  moreover have "good_flow l r (run_cb (f s) e er (\<lambda>x. k (clear_mark m x)) x)" if "cb = Some f" for f s
    by (intro run_cb_good assms(2-6)) (use assms(1) that in \<open>simp add: tame_data_def\<close>)
  ultimately show ?thesis using assms(3) assms(6) [of "ux x"] by (simp add: data_cb_def split: option.split)
qed


text \<open>A state with no mark and no condition.\<close>

definition quiet :: "http_state \<Rightarrow> bool" where
  "quiet s \<longleftrightarrow> mark_of s = None \<and> (\<forall>n P. hp_state P = s \<longrightarrow> state_ok n P)"

lemma quiet_states [simp]:
  "quiet s_dead" "quiet s_start_req_or_res" "quiet s_res_or_resp_H" "quiet s_start_res" "quiet s_res_H" "quiet s_res_HT" "quiet s_res_HTT"
  "quiet s_res_HTTP" "quiet s_res_first_http_major" "quiet s_res_http_major" "quiet s_res_first_http_minor" "quiet s_res_http_minor"
  "quiet s_res_first_status_code" "quiet s_res_status_code" "quiet s_res_status_start" "quiet s_res_line_almost_done" "quiet s_start_req"
  "quiet s_req_spaces_before_url" "quiet s_req_http_start" "quiet s_req_http_H" "quiet s_req_http_HT" "quiet s_req_http_HTT"
  "quiet s_req_http_HTTP" "quiet s_req_first_http_major" "quiet s_req_http_major" "quiet s_req_first_http_minor" "quiet s_req_http_minor"
  "quiet s_req_line_almost_done" "quiet s_header_field_start" "quiet s_header_value_discard_ws" "quiet s_header_value_discard_ws_almost_done"
  "quiet s_header_value_discard_lws" "quiet s_header_value_start" "quiet s_header_value_lws" "quiet s_header_almost_done"
  "quiet s_headers_almost_done" "quiet s_headers_done" "quiet s_message_done"
  by (simp_all add: quiet_def mark_of_def state_ok_def url_state_def)

lemma px_ok_quiet: "quiet (hp_state (px x)) \<Longrightarrow>
    px_ok n x \<longleftrightarrow> px_marks x = Map.empty \<and> hp_content_length (px x) \<le> ULLONG_MAX \<and> hp_errno (px x) = HPE_OK"
  by (auto simp: px_ok_def parser_ok_def marks_ok_def quiet_def)

lemmas px_simps = upd_def go_def hdr_def flag_def next_index_def reset_flags_def

lemma expect_good:
  assumes "px_ok 1 x" "quiet (hp_state (px x))" "quiet s" "0 < l"
  shows "good_flow l r (expect c s ch x)"
  using assms by (auto simp: expect_def px_ok_quiet px_simps)

lemma message_begin_good:
  assumes "tame S" "px_ok 0 x" "0 < l"
  shows "good_flow l r (message_begin S x)"
proof -
  have "px_ok 0 (x\<lparr>ux := u\<rparr>)" for u using assms(2) by (simp add: px_ok_def)
  then show ?thesis using assms unfolding message_begin_def
    by (intro notify_good) (auto simp: tame_def px_ok_def)
qed

lemma message_complete_good:
  assumes "tame S" "px_ok 0 x" "0 < l" "\<And>u. good_flow l r (k (x\<lparr>ux := u\<rparr>))"
  shows "good_flow l r (message_complete S k x)"
  unfolding message_complete_def
  by (rule notify_good) (use assms in \<open>auto simp: tame_def px_ok_def\<close>)

lemma start_good:
  assumes "tame S" "px_ok 1 x" "0 < l"
  shows "hp_state (px x) = s_dead \<Longrightarrow> good_flow l r (step_dead ch x)"
    "hp_state (px x) = s_start_req_or_res \<Longrightarrow> good_flow l 4 (step_start_req_or_res S ch x)"
    "hp_state (px x) = s_start_res \<Longrightarrow> good_flow l r (step_start_res S ch x)"
  using assms
  by (auto simp: step_dead_def step_start_req_or_res_def step_start_res_def Let_def px_ok_quiet px_simps rounds_def intro!: message_begin_good)

lemma res_or_resp_H_good:
  assumes "px_ok 1 x" "0 < l" "hp_state (px x) = s_res_or_resp_H"
  shows "good_flow l r (step_res_or_resp_H ch x)"
  using assms by (simp add: step_res_or_resp_H_def px_ok_quiet px_simps)
    (simp add: px_ok_def parser_ok_def state_ok_def marks_ok_def mark_of_def url_state_def method_string_def http_methods_def)

lemma version_good:
  assumes "px_ok 1 x" "0 < l" "quiet (hp_state (px x))" "quiet s"
  shows "good_flow l r (first_major n s ch x)" "good_flow l r (more_major s ch x)" "good_flow l r (first_minor s ch x)"
    "good_flow l r (more_minor ch x)"
  using assms by (simp_all add: first_major_def more_major_def first_minor_def more_minor_def Let_def px_ok_quiet px_simps)

subsection \<open>The line of a request\<close>

lemma method_length: "other_method m i ch = Some m' \<Longrightarrow> Suc i \<le> length (method_string m')"
  by (auto simp: other_method_def method_string_def http_methods_def split: if_splits)

lemma px_ok_method: "hp_state (px x) = s_req_method \<Longrightarrow>
    px_ok n x \<longleftrightarrow> px_marks x = Map.empty \<and> hp_content_length (px x) \<le> ULLONG_MAX \<and> hp_errno (px x) = HPE_OK \<and>
      hp_index (px x) \<le> length (method_string (hp_method (px x)))"
  by (auto simp: px_ok_def parser_ok_def marks_ok_def mark_of_def state_ok_def url_state_def)

lemma method_nonempty: "Suc 0 \<le> length (method_string m)"
  by (cases m) (simp_all add: method_string_def http_methods_def)

lemma req_method_good:
  assumes "px_ok 1 x" "0 < l" "hp_state (px x) = s_req_method"
  shows "good_flow l r (step_req_method ch x)"
proof -
  let ?w = "method_string (hp_method (px x))" and ?i = "hp_index (px x)"
  have i: "?i \<le> length ?w" using assms(1) by (simp add: px_ok_method assms(3))
  then obtain c where c: "c_char ?w ?i = Some c" unfolding c_char_def by (cases "?i < length ?w") auto
  have "Suc ?i \<le> length ?w" if "ch = c" "ch \<noteq> CHR 0x00" using that c i by (auto simp: c_char_def split: if_splits)
  then show ?thesis using assms c method_length [of "hp_method (px x)" ?i ch]
    by (auto simp: step_req_method_def px_ok_quiet px_ok_method px_simps split: option.split)
qed

lemma start_req_good:
  assumes "tame S" "px_ok 1 x" "0 < l" "hp_state (px x) = s_start_req"
  shows "good_flow l r (step_start_req S ch x)"
  using assms method_nonempty
  by (auto simp: step_start_req_def Let_def px_ok_quiet px_ok_method px_simps intro!: message_begin_good split: option.split)

lemma px_ok_url: "url_state (hp_state (px x)) \<Longrightarrow>
    px_ok n x \<longleftrightarrow> (\<exists>t. px_marks x = Map.empty(M_url := t)) \<and> hp_content_length (px x) \<le> ULLONG_MAX \<and> hp_errno (px x) = HPE_OK"
  by (auto simp: px_ok_def parser_ok_def marks_ok_def mark_of_def state_ok_def url_state_def)

lemma parse_url_char_state: "parse_url_char s ch = s_dead \<or> url_state (parse_url_char s ch)"
  by (cases s) (simp_all add: parse_url_char_def url_server_def url_query_def url_state_def)

lemma url_step_good:
  assumes "\<exists>t. px_marks x = Map.empty(M_url := t)" "hp_content_length (px x) \<le> ULLONG_MAX" "hp_errno (px x) = HPE_OK" "0 < l"
  shows "good_flow l r (url_step ch x)"
  using assms parse_url_char_state [of "hp_state (px x)" ch] by (auto simp: url_step_def Let_def px_simps px_ok_url)

lemma empty_upd: "Map.empty(m := None) = Map.empty"
  by auto

lemma spaces_good:
  assumes "px_ok 1 x" "0 < l" "hp_state (px x) = s_req_spaces_before_url"
  shows "good_flow l r (step_req_spaces_before_url ch x)"
  using assms by (auto simp: step_req_spaces_before_url_def Let_def px_ok_quiet set_mark_def px_simps intro!: url_step_good)

lemma schema_good:
  assumes "px_ok 1 x" "0 < l" "url_state (hp_state (px x))"
  shows "good_flow l r (step_req_schema ch x)"
  using assms by (auto simp: step_req_schema_def px_ok_url intro!: url_step_good)

lemma cb_good:
  assumes "pred_option tame_data cb" "0 < l" "quiet (hp_state (px x))" "\<exists>t. px_marks x = Map.empty(m := t)" "hp_content_length (px x) \<le> ULLONG_MAX"
    "hp_errno (px x) = HPE_OK" "e \<noteq> HPE_OK" "er \<le> l" "k = break \<or> k = reexecute \<and> rounds (hp_state (px x)) < r"
  shows "good_flow l r (data_cb m cb e er k x)"
proof (rule data_cb_good [OF assms(1)])
  show "parser_ok 0 (px x)" using assms(3,5) by (auto simp: quiet_def parser_ok_def)
  have "px_marks (clear_mark m x) = Map.empty" using assms(4) by (auto simp: clear_mark_def)
  then have "px_ok n (clear_mark m (x\<lparr>ux := u\<rparr>))" for n u using assms by (simp add: px_ok_quiet clear_mark_def)
  then show "good_flow l r (k (clear_mark m (x\<lparr>ux := u\<rparr>)))" for u using assms(2,9) by (auto simp: clear_mark_def)
qed (use assms in auto)

lemma req_url_good:
  assumes "tame S" "px_ok 1 x" "0 < l" "url_state (hp_state (px x))"
  shows "good_flow l r (step_req_url S ch x)"
  using assms by (auto simp: step_req_url_def url_cb_def px_ok_url px_simps tame_def intro!: url_step_good cb_good)

lemma req_line_good:
  assumes "px_ok 1 x" "0 < l" "quiet (hp_state (px x))"
  shows "good_flow l r (step_req_http_start ch x)" "good_flow l r (step_req_http_minor ch x)" "good_flow l r (step_req_line_almost_done ch x)"
    "good_flow l r (step_res_http_minor ch x)" "good_flow l r (step_res_first_status_code ch x)" "good_flow l r (step_res_status_code ch x)"
  using assms by (auto simp: step_req_http_start_def step_req_http_minor_def step_req_line_almost_done_def step_res_http_minor_def
      step_res_first_status_code_def step_res_status_code_def Let_def px_ok_quiet px_simps intro!: version_good)

lemma px_ok_status: "hp_state (px x) = s_res_status \<Longrightarrow>
    px_ok n x \<longleftrightarrow> (\<exists>t. px_marks x = Map.empty(M_status := t)) \<and> hp_content_length (px x) \<le> ULLONG_MAX \<and> hp_errno (px x) = HPE_OK"
  by (auto simp: px_ok_def parser_ok_def marks_ok_def mark_of_def state_ok_def url_state_def)

lemma status_good:
  assumes "tame S" "px_ok 1 x" "0 < l"
  shows "hp_state (px x) = s_res_status_start \<Longrightarrow> good_flow l r (step_res_status_start ch x)"
    "hp_state (px x) = s_res_status \<Longrightarrow> good_flow l r (step_res_status S ch x)"
  using assms by (auto simp: step_res_status_start_def step_res_status_def status_cb_def px_ok_quiet px_ok_status px_simps set_mark_def tame_def
      intro!: cb_good)

subsection \<open>Headers\<close>

lemma px_ok_field: "hp_state (px x) = s_header_field \<Longrightarrow>
    px_ok n x \<longleftrightarrow> (\<exists>t. px_marks x = Map.empty(M_header_field := t)) \<and> hp_content_length (px x) \<le> ULLONG_MAX \<and> hp_errno (px x) = HPE_OK \<and>
      field_state (hp_header_state (px x))"
  by (auto simp: px_ok_def parser_ok_def marks_ok_def mark_of_def state_ok_def url_state_def)

lemma px_ok_value: "hp_state (px x) = s_header_value \<Longrightarrow>
    px_ok n x \<longleftrightarrow> (\<exists>t. px_marks x = Map.empty(M_header_value := t)) \<and> hp_content_length (px x) \<le> ULLONG_MAX \<and> hp_errno (px x) = HPE_OK \<and>
      hp_header_state (px x) \<noteq> h_connection \<and> hp_header_state (px x) \<noteq> h_transfer_encoding"
  by (auto simp: px_ok_def parser_ok_def marks_ok_def mark_of_def state_ok_def url_state_def)

lemma field_states [simp]: "field_state h_general" "field_state h_C" "field_state h_CO" "field_state h_CON" "field_state h_matching_connection"
    "field_state h_matching_proxy_connection" "field_state h_matching_content_length" "field_state h_matching_transfer_encoding"
    "field_state h_matching_upgrade" "field_state h_connection" "field_state h_content_length" "field_state h_transfer_encoding" "field_state h_upgrade"
  by (simp_all add: field_state_def field_word_def)

lemma field_start_good:
  assumes "px_ok 1 x" "0 < l" "hp_state (px x) = s_header_field_start"
  shows "good_flow l 3 (step_header_field_start ch x)"
  using assms by (auto simp: step_header_field_start_def px_ok_quiet px_ok_field px_simps set_mark_def rounds_def field_start_state_def split: option.split)

lemma match_word_px:
  "px_marks (match_word w h c x) = px_marks x" "hp_state (px (match_word w h c x)) = hp_state (px x)"
  "hp_content_length (px (match_word w h c x)) = hp_content_length (px x)" "hp_errno (px (match_word w h c x)) = hp_errno (px x)"
  "ux (match_word w h c x) = ux x"
  "hp_header_state (px (match_word w h c x)) \<in> {h_general, h, hp_header_state (px x)}"
  by (auto simp: match_word_def Let_def px_simps)

lemma field_char_good:
  assumes "px_ok 1 x" "hp_state (px x) = s_header_field"
  shows "\<exists>y. field_char ch c x = Some y \<and> px_ok 0 y"
proof -
  let ?h = "hp_header_state (px x)"
  have x: "(\<exists>t. px_marks x = Map.empty(M_header_field := t))" "hp_content_length (px x) \<le> ULLONG_MAX" "hp_errno (px x) = HPE_OK" "field_state ?h"
    using assms by (simp_all add: px_ok_field)
  have m: "px_ok 0 (match_word w h c x)" if "field_state h" for w h
    using x that match_word_px [of w h c x] assms(2) by (auto simp: px_ok_field)
  show ?thesis using x assms(2) m
    by (cases ?h) (auto simp: field_char_def px_ok_field px_simps field_state_def field_word_def)
qed

lemma field_good:
  assumes "tame S" "px_ok 1 x" "0 < l" "hp_state (px x) = s_header_field"
  shows "good_flow l r (step_header_field S ch x)"
proof (cases "token ch")
  case None
  then show ?thesis using assms by (auto simp: step_header_field_def field_cb_def px_ok_field px_simps tame_def intro!: cb_good)
next
  case (Some c)
  then show ?thesis using field_char_good [OF assms(2,4), of ch c] assms(3) by (auto simp: step_header_field_def)
qed

lemma digit_le: "is_num ch \<Longrightarrow> digit ch \<le> 9"
  by (auto simp: is_num_def digit_def)

lemma value_start_good:
  assumes "px_ok 1 x" "0 < l" "quiet (hp_state (px x))"
  shows "good_flow l r (step_header_value_start ch x)"
  using assms digit_le [of ch]
  by (cases "hp_header_state (px x)") (auto simp: step_header_value_start_def Let_def px_ok_quiet px_ok_value px_simps set_mark_def ULLONG_MAX_def)

lemma discard_good:
  assumes "tame S" "px_ok 1 x" "0 < l"
  shows "hp_state (px x) = s_header_value_discard_ws \<Longrightarrow> good_flow l r (step_header_value_discard_ws ch x)"
    "hp_state (px x) = s_header_value_discard_lws \<Longrightarrow> good_flow l 4 (step_header_value_discard_lws S ch x)"
    "hp_state (px x) = s_header_value_lws \<Longrightarrow> good_flow l 4 (step_header_value_lws ch x)"
proof -
  show "hp_state (px x) = s_header_value_discard_ws \<Longrightarrow> good_flow l r (step_header_value_discard_ws ch x)"
    using assms value_start_good [OF assms(2,3)] by (auto simp: step_header_value_discard_ws_def px_ok_quiet px_simps)
  show "hp_state (px x) = s_header_value_discard_lws \<Longrightarrow> good_flow l 4 (step_header_value_discard_lws S ch x)"
    using assms by (auto simp: step_header_value_discard_lws_def value_cb_def px_ok_quiet px_simps set_mark_def rounds_def tame_def intro!: cb_good)
  show "hp_state (px x) = s_header_value_lws \<Longrightarrow> good_flow l 4 (step_header_value_lws ch x)"
    using assms by (cases "hp_header_state (px x)") (auto simp: step_header_value_lws_def finish_header_def px_ok_quiet px_simps rounds_def)
qed

lemma more_length_bound:
  assumes "d < b" "b \<le> 16" "0 < b" "\<not> (ULLONG_MAX - b) div b < n"
  shows "(n * b mod 2 ^ 64 + d) mod 2 ^ 64 < ULLONG_MAX" "(n * b mod 2 ^ 64 + d) mod 2 ^ 64 = n * b + d"
proof -
  have "n \<le> (ULLONG_MAX - b) div b" using assms(4) by simp
  then have "n * b \<le> ULLONG_MAX - b" by (meson div_times_less_eq_dividend mult_le_mono1 order.trans)
  then have "n * b + d < ULLONG_MAX" using assms(1,2) by (simp add: ULLONG_MAX_def)
  moreover have "ULLONG_MAX < 2 ^ 64" by (simp add: ULLONG_MAX_def)
  ultimately show "(n * b mod 2 ^ 64 + d) mod 2 ^ 64 = n * b + d" "(n * b mod 2 ^ 64 + d) mod 2 ^ 64 < ULLONG_MAX" by simp_all
qed

lemma value_good:
  assumes "tame S" "px_ok 1 x" "0 < l" "hp_state (px x) = s_header_value"
  shows "good_flow l 2 (step_header_value S ch x)"
proof -
  have x: "(\<exists>t. px_marks x = Map.empty(M_header_value := t))" "hp_content_length (px x) \<le> ULLONG_MAX" "hp_errno (px x) = HPE_OK"
      "hp_header_state (px x) \<noteq> h_connection" "hp_header_state (px x) \<noteq> h_transfer_encoding"
    using assms(2,4) by (simp_all add: px_ok_value)
  have m: "px_ok 0 (match_word w h c x)" if "h \<in> {h_transfer_encoding_chunked, h_connection_keep_alive, h_connection_close}" for w h c
    using x that match_word_px [of w h c x] assms(4) by (auto simp: px_ok_value)
  have n: "good_flow l 2 (more_length 10 (digit ch) x)" if "is_num ch"
    using x assms(3,4) digit_le [OF that] more_length_bound [of "digit ch" 10 "hp_content_length (px x)"]
    by (auto simp: more_length_def Let_def px_ok_value px_simps)
  show ?thesis
  proof (cases "ch = CR \<or> ch = LF")
    case True
    then show ?thesis using assms(1,3) x
      by (auto simp: step_header_value_def value_cb_def px_simps rounds_def tame_def intro!: cb_good)
  next
    case False
    then show ?thesis using x m n assms(3,4)
      by (cases "hp_header_state (px x)") (auto simp: step_header_value_def Let_def px_ok_value px_simps)
  qed
qed

lemma new_message_quiet [simp]: "quiet (NEW_MESSAGE P)"
  by (simp add: NEW_MESSAGE_def start_state_def)

lemma new_message_ok: "px_ok n (new_message x) \<longleftrightarrow> px_marks x = Map.empty \<and> hp_content_length (px x) \<le> ULLONG_MAX \<and> hp_errno (px x) = HPE_OK"
  by (simp add: new_message_def px_simps px_ok_quiet)

lemma headers_almost_done_good:
  assumes "tame S" "px_ok 1 x" "0 < l" "hp_state (px x) = s_headers_almost_done"
  shows "good_flow l 2 (step_headers_almost_done S ch x)"
proof -
  have x: "px_marks x = Map.empty" "hp_content_length (px x) \<le> ULLONG_MAX" "hp_errno (px x) = HPE_OK" using assms(2,4) by (simp_all add: px_ok_quiet)
  define y where "y = upd (\<lambda>P. P\<lparr>hp_state := s_headers_done, hp_upgrade := F_UPGRADE \<in> hp_flags P \<or> hp_method P = HTTP_CONNECT\<rparr>) x"
  have y: "px_marks y = Map.empty" "hp_content_length (px y) \<le> ULLONG_MAX" "hp_errno (px y) = HPE_OK" "hp_state (px y) = s_headers_done"
    using x by (simp_all add: y_def px_simps)
  have "good_flow l 2 (headers_complete S y)"
  proof (cases "on_headers_complete S")
    case None
    then show ?thesis using y assms(3) by (simp add: headers_complete_def px_ok_quiet rounds_def)
  next
    case (Some f)
    then have "tame_cb f" using assms(1) by (simp add: tame_def)
    then obtain rc P' u' where f: "f (px y) (ux y) = Some (rc, P', u')" "P' = px y \<or> P' = (px y)\<lparr>hp_errno := HPE_PAUSED\<rparr>"
      unfolding tame_cb_def by metis
    have q: "parser_ok 0 P" if "hp_state P = s_headers_done" "hp_content_length P \<le> ULLONG_MAX" for P
      using that quiet_states by (auto simp: quiet_def parser_ok_def state_ok_def)
    show ?thesis using f y assms(3)
      by (auto simp: headers_complete_def Some Let_def px_ok_quiet px_simps rounds_def stop_ok_def q)
  qed
  moreover have "px_ok 0 (new_message x)" using x by (simp add: new_message_ok)
  moreover have "px_ok 0 (new_message x\<lparr>ux := u\<rparr>)" for u using calculation(2) by (simp add: px_ok_def)
  ultimately show ?thesis using assms(1,3)
    by (auto simp: step_headers_almost_done_def y_def [symmetric] intro!: message_complete_good)
qed

lemma complete_good:
  assumes "tame S" "0 < l" "px_marks x = Map.empty" "hp_content_length (px x) \<le> ULLONG_MAX" "hp_errno (px x) = HPE_OK"
  shows "good_flow l r (message_complete S break (new_message x))"
    "hp_upgrade (px x) \<Longrightarrow> good_flow l r (message_complete S (Stop 1) (new_message x))"
proof -
  have n: "px_ok 0 (new_message x)" using assms by (simp add: new_message_ok)
  then have "px_ok 0 (new_message x\<lparr>ux := u\<rparr>)" for u by (simp add: px_ok_def)
  then show "good_flow l r (message_complete S break (new_message x))" using assms n by (auto intro!: message_complete_good)
  assume "hp_upgrade (px x)"
  then show "good_flow l r (message_complete S (Stop 1) (new_message x))" using assms n
    by (auto intro!: message_complete_good simp: stop_ok_def new_message_def px_simps px_ok_def)
qed

lemma headers_done_good:
  assumes "tame S" "px_ok 1 x" "0 < l" "hp_state (px x) = s_headers_done"
  shows "good_flow l r (step_headers_done S ch x)"
proof -
  let ?y = "upd (hp_nread_update (\<lambda>_. 0)) x"
  have x: "px_marks x = Map.empty" "hp_content_length (px x) \<le> ULLONG_MAX" "hp_errno (px x) = HPE_OK" using assms(2,4) by (simp_all add: px_ok_quiet)
  then have y: "px_marks ?y = Map.empty" "hp_content_length (px ?y) \<le> ULLONG_MAX" "hp_errno (px ?y) = HPE_OK" "hp_nread (px ?y) = 0"
    by (simp_all add: px_simps)
  have s: "px_ok 0 (go s_chunk_size_start ?y)" if "F_CHUNKED \<in> hp_flags (px ?y)"
    using that y by (simp add: px_simps px_ok_def parser_ok_def state_ok_def marks_ok_def mark_of_def url_state_def)
  have b: "px_ok 0 (go s_body_identity ?y)" if "hp_content_length (px ?y) \<noteq> 0" "hp_content_length (px ?y) \<noteq> ULLONG_MAX"
    using that y by (auto simp: px_simps px_ok_def parser_ok_def state_ok_def marks_ok_def mark_of_def url_state_def intro!: exI [of _ None])
  have e: "px_ok 0 (go s_body_identity_eof ?y)"
    using y by (auto simp: px_simps px_ok_def parser_ok_def state_ok_def marks_ok_def mark_of_def url_state_def intro!: exI [of _ None])
  note c = complete_good [OF assms(1,3) y(1-3)]
  show ?thesis unfolding step_headers_done_def Let_def using assms(3) s b e c by auto
qed

subsection \<open>Bodies\<close>

lemma body_good:
  assumes "tame S" "px_ok 1 x" "rest \<noteq> []"
  shows "hp_state (px x) = s_body_identity \<Longrightarrow> good_flow (length rest) 2 (step_body_identity S rest x)"
    "hp_state (px x) = s_chunk_data \<Longrightarrow> good_flow (length rest) r (step_chunk_data rest x)"
    "hp_state (px x) = s_body_identity_eof \<Longrightarrow> good_flow (length rest) r (step_body_identity_eof rest x)"
proof -
  let ?c = "hp_content_length (px x)" and ?n = "min (hp_content_length (px x)) (length rest)"
  define y where "y = upd (\<lambda>P. P\<lparr>hp_content_length := hp_content_length P - ?n\<rparr>) (set_mark M_body x)"
  have m: "\<exists>t. px_marks y = Map.empty(M_body := t)" if "mark_of (hp_state (px x)) = Some M_body"
    using assms(2) that by (auto simp: px_ok_def marks_ok_def y_def px_simps set_mark_def)
  have y: "hp_content_length (px y) = ?c - ?n" "hp_errno (px y) = HPE_OK" "hp_flags (px y) = hp_flags (px x)" "hp_state (px y) = hp_state (px x)"
    "?c \<le> ULLONG_MAX" using assms(2) by (auto simp: px_ok_def parser_ok_def y_def px_simps set_mark_def)
  have l: "?n - 1 < length rest" using assms(3) by (cases rest) auto
  show "good_flow (length rest) 2 (step_body_identity S rest x)" if s: "hp_state (px x) = s_body_identity"
  proof -
    have c: "0 < ?c" "?c < ULLONG_MAX" using assms(2) s by (simp_all add: px_ok_def parser_ok_def state_ok_def)
    have mb: "\<exists>t. px_marks y = Map.empty(M_body := t)" using m s by (simp add: mark_of_def)
    define z where "z = more_body (take ?n rest) (go s_message_done y)"
    have z: "hp_state (px z) = s_message_done" "hp_errno (px z) = HPE_OK" "hp_content_length (px z) \<le> ULLONG_MAX"
      "\<exists>t. px_marks z = Map.empty(M_body := t)"
      using y mb by (auto simp: z_def more_body_def px_simps)
    have "px_ok 1 (clear_mark M_body (z\<lparr>ux := u\<rparr>))" for u using z by (auto simp: px_ok_quiet clear_mark_def)
    then have "good_flow (length rest) 2 (data_cb M_body (on_body S) HPE_CB_body (?n - 1) (Again (?n - 1)) z)"
      by (intro data_cb_good) (use z l assms(1) in \<open>auto simp: tame_def parser_ok_def state_ok_def rounds_def clear_mark_def\<close>)
    moreover have "px_ok 0 y" if "hp_content_length (px y) \<noteq> 0"
      using that c y mb s by (auto simp: px_ok_def parser_ok_def state_ok_def marks_ok_def mark_of_def)
    ultimately show ?thesis using c l
      by (auto simp: step_body_identity_def take_body_def Let_def y_def [symmetric] z_def [symmetric])
  qed
  show "good_flow (length rest) r (step_chunk_data rest x)" if s: "hp_state (px x) = s_chunk_data"
  proof -
    have c: "0 < ?c" "?c < ULLONG_MAX" "F_CHUNKED \<in> hp_flags (px x)" using assms(2) s by (simp_all add: px_ok_def parser_ok_def state_ok_def)
    have mb: "\<exists>t. px_marks y = Map.empty(M_body := t)" using m s by (simp add: mark_of_def)
    have "px_ok 0 y" if "hp_content_length (px y) \<noteq> 0"
      using that c y mb s by (auto simp: px_ok_def parser_ok_def state_ok_def marks_ok_def mark_of_def)
    moreover have "px_ok 0 (go s_chunk_data_almost_done y)" if "hp_content_length (px y) = 0"
      using that c y mb s by (auto simp: px_ok_def parser_ok_def state_ok_def marks_ok_def mark_of_def px_simps)
    ultimately show ?thesis using c l by (auto simp: step_chunk_data_def take_body_def Let_def y_def [symmetric])
  qed
  show "good_flow (length rest) r (step_body_identity_eof rest x)" if s: "hp_state (px x) = s_body_identity_eof"
    using assms(2,3) s by (auto simp: step_body_identity_eof_def px_ok_def parser_ok_def state_ok_def marks_ok_def mark_of_def set_mark_def)
qed

lemma unhex_le: "unhex c = Some d \<Longrightarrow> d \<le> 15"
  by (auto simp: unhex_def is_num_def split: if_splits)

lemma chunk_good:
  assumes "tame S" "px_ok 1 x" "0 < l"
  shows "hp_state (px x) = s_chunk_size_start \<Longrightarrow> good_flow l r (step_chunk_size_start ch x)"
    "hp_state (px x) = s_chunk_size \<Longrightarrow> good_flow l r (step_chunk_size ch x)"
    "hp_state (px x) = s_chunk_parameters \<Longrightarrow> good_flow l r (step_chunk_parameters ch x)"
    "hp_state (px x) = s_chunk_size_almost_done \<Longrightarrow> good_flow l r (step_chunk_size_almost_done ch x)"
    "hp_state (px x) = s_chunk_data_almost_done \<Longrightarrow> good_flow l r (step_chunk_data_almost_done S ch x)"
    "hp_state (px x) = s_chunk_data_done \<Longrightarrow> good_flow l r (step_chunk_data_done ch x)"
proof -
  note o = px_ok_def parser_ok_def state_ok_def marks_ok_def mark_of_def url_state_def px_simps
  have u: "d \<le> 15 \<and> d < ULLONG_MAX" if "unhex ch = Some d" for d using unhex_le [OF that] by (simp add: ULLONG_MAX_def)
  show "hp_state (px x) = s_chunk_size_start \<Longrightarrow> good_flow l r (step_chunk_size_start ch x)"
    using assms u by (auto simp: step_chunk_size_start_def o split: option.split)
  show "hp_state (px x) = s_chunk_size \<Longrightarrow> good_flow l r (step_chunk_size ch x)"
  proof -
    assume s: "hp_state (px x) = s_chunk_size"
    have "good_flow l r (more_length 16 d x)" if "unhex ch = Some d" for d
      using assms s u [OF that] more_length_bound [of d 16 "hp_content_length (px x)"]
      by (auto simp: more_length_def Let_def o)
    then show ?thesis using assms s by (auto simp: step_chunk_size_def o split: option.split)
  qed
  show "hp_state (px x) = s_chunk_parameters \<Longrightarrow> good_flow l r (step_chunk_parameters ch x)"
    "hp_state (px x) = s_chunk_size_almost_done \<Longrightarrow> good_flow l r (step_chunk_size_almost_done ch x)"
    "hp_state (px x) = s_chunk_data_done \<Longrightarrow> good_flow l r (step_chunk_data_done ch x)"
    using assms by (auto simp: step_chunk_parameters_def step_chunk_size_almost_done_def step_chunk_data_done_def Let_def o intro!: exI [of _ None])
  show "hp_state (px x) = s_chunk_data_almost_done \<Longrightarrow> good_flow l r (step_chunk_data_almost_done S ch x)"
  proof -
    assume s: "hp_state (px x) = s_chunk_data_almost_done"
    define y where "y = go s_chunk_data_done x"
    have x: "\<exists>t. px_marks x = Map.empty(M_body := t)" "hp_content_length (px x) = 0" "F_CHUNKED \<in> hp_flags (px x)" "hp_errno (px x) = HPE_OK"
      using assms(2) s by (simp_all add: px_ok_def parser_ok_def state_ok_def marks_ok_def mark_of_def)
    have e: "px_marks (clear_mark M_body (y\<lparr>ux := u\<rparr>)) = Map.empty" "px (clear_mark M_body (y\<lparr>ux := u\<rparr>)) = px y" for u
      using x by (auto simp: y_def px_simps clear_mark_def)
    have y: "hp_state (px y) = s_chunk_data_done" "hp_content_length (px y) = 0" "F_CHUNKED \<in> hp_flags (px y)" "hp_errno (px y) = HPE_OK"
      using x by (simp_all add: y_def px_simps)
    have "px_ok 0 (clear_mark M_body (y\<lparr>ux := u\<rparr>))" for u
      by (simp add: px_ok_def parser_ok_def state_ok_def marks_ok_def mark_of_def url_state_def e y)
    then have "good_flow l r (data_cb M_body (on_body S) HPE_CB_body 1 break y)" using assms(1,3) y
      by (intro data_cb_good) (auto simp: tame_def parser_ok_def state_ok_def)
    then show ?thesis using x by (simp add: step_chunk_data_almost_done_def y_def)
  qed
qed

subsection \<open>The loop\<close>

theorem step_good:
  assumes "tame S" "px_ok 1 x" "rest \<noteq> []"
  shows "good_flow (length rest) (rounds (hp_state (px x))) (parser_step S ch rest x)"
proof -
  have l: "0 < length rest" using assms(3) by simp
  note g = start_good [OF assms(1,2) l] res_or_resp_H_good [OF assms(2) l] expect_good [OF assms(2) _ _ l] version_good [OF assms(2) l]
    req_line_good [OF assms(2) l] status_good [OF assms(1,2) l] start_req_good [OF assms(1,2) l] req_method_good [OF assms(2) l]
    spaces_good [OF assms(2) l] schema_good [OF assms(2) l] req_url_good [OF assms(1,2) l] field_start_good [OF assms(2) l]
    field_good [OF assms(1,2) l] discard_good [OF assms(1,2) l] value_start_good [OF assms(2) l] value_good [OF assms(1,2) l]
    headers_almost_done_good [OF assms(1,2) l] headers_done_good [OF assms(1,2) l] body_good [OF assms] chunk_good [OF assms(1,2) l]
  have d: "good_flow (length rest) r (step_message_done S x)" if "hp_state (px x) = s_message_done" for r
    using complete_good(1) [OF assms(1) l, of x] assms(2) that by (simp add: step_message_done_def px_ok_quiet)
  show ?thesis by (cases "hp_state (px x)") (simp_all add: parser_step_def rounds_def g d url_state_def)
qed

fun done_flow :: "nat \<Rightarrow> 'u pflow \<Rightarrow> bool" where
  "done_flow l (Break k y) \<longleftrightarrow> k < l \<and> px_ok 0 y"
| "done_flow l (Stop k y) \<longleftrightarrow> k \<le> l \<and> stop_ok (px y) \<and> (hp_errno (px y) \<noteq> HPE_OK \<or> hp_upgrade (px y))"
| "done_flow l (Again k y) \<longleftrightarrow> False"
| "done_flow l Abort \<longleftrightarrow> False"

lemma byte_good:
  "tame S \<Longrightarrow> px_ok 1 x \<Longrightarrow> n < length rest \<Longrightarrow> rounds (hp_state (px x)) \<le> f \<Longrightarrow> done_flow (length rest) (byte f S ch n rest x)"
proof (induction f arbitrary: n x)
  case 0
  then show ?case by (simp add: rounds_def split: if_splits)
next
  case (Suc f)
  have g: "good_flow (length (drop n rest)) (rounds (hp_state (px x))) (parser_step S ch (drop n rest) x)"
    using Suc.prems by (intro step_good) auto
  show ?case
  proof (cases "parser_step S ch (drop n rest) x")
    case (Again k y)
    then show ?thesis using g Suc.prems by (auto intro!: Suc.IH)
  qed (use g Suc.prems in auto)
qed

lemma count_byte_ok: "px_ok 0 x \<Longrightarrow> px_ok 1 (count_byte x)"
  by (cases "hp_state (px x)") (auto simp: count_byte_def parsing_header_def px_simps px_ok_def parser_ok_def state_ok_def marks_ok_def mark_of_def url_state_def)

lemma advance_ok: "px_ok n x \<Longrightarrow> px_ok n (advance t x)"
proof -
  have e: "(\<lambda>m. map_option f (Map.empty m)) = Map.empty" for f :: "'a \<Rightarrow> 'a" by (simp add: fun_eq_iff)
  have u: "\<exists>t'. (\<lambda>m. map_option f (if m = n then s else None)) = (\<lambda>_. None)(n := t')" for f :: "string \<Rightarrow> string" and n :: mark and s
    by (rule exI [of _ "map_option f s"]) auto
  show "px_ok n x \<Longrightarrow> px_ok n (advance t x)"
    by (auto simp: px_ok_def marks_ok_def advance_def e u split: option.splits)
qed

definition ends :: "http_parser \<Rightarrow> 'u pflow \<Rightarrow> bool" where
  "ends P fl \<longleftrightarrow> (\<exists>y. fl = Stop 0 y \<and> (px y = P \<or> (\<exists>e. e \<noteq> HPE_OK \<and> px y = P\<lparr>hp_errno := e\<rparr>)))"

lemma data_cb_ends:
  assumes "pred_option tame_data cb" "px x = P" "hp_errno P = HPE_OK" "e \<noteq> HPE_OK" "\<And>y. px y = P \<Longrightarrow> ends P (k y)"
  shows "ends P (data_cb m cb e 0 k x)"
proof (cases "px_marks x m")
  case None
  then show ?thesis using assms by (simp add: data_cb_def)
next
  case (Some t)
  have c: "px (clear_mark m y) = px y" for y :: "'a pctx" by (simp add: clear_mark_def)
  show ?thesis
  proof (cases cb)
    case None
    then show ?thesis using assms Some by (simp add: data_cb_def c)
  next
    case (Some f)
    then have "tame_cb (f t)" using assms(1) by (simp add: tame_data_def)
    then obtain rc P' u' where "f t (px x) (ux x) = Some (rc, P', u')" "P' = px x \<or> P' = (px x)\<lparr>hp_errno := HPE_PAUSED\<rparr>"
      unfolding tame_cb_def by metis
    then show ?thesis using assms(2-5) Some \<open>px_marks x m = Some t\<close>
      by (auto simp: data_cb_def run_cb_def Let_def c ends_def)
  qed
qed

lemma one_mark: "marks_ok x \<Longrightarrow> \<not> length (filter (\<lambda>m. px_marks x m \<noteq> None) all_marks) > 1"
proof -
  assume "marks_ok x"
  then obtain m t where "px_marks x = Map.empty \<or> px_marks x = Map.empty(m := t)" by (auto simp: marks_ok_def split: option.splits)
  then show ?thesis by (cases m) (auto simp: all_marks_def)
qed

lemma leftover_ends:
  assumes "tame S" "px_ok 0 x"
  shows "ends (px x) (leftover S x)"
proof -
  have x: "marks_ok x" "hp_errno (px x) = HPE_OK" using assms(2) by (simp_all add: px_ok_def)
  have e: "ends P (Stop 0 y)" if "px y = P" for P and y :: "'a pctx" using that by (simp add: ends_def)
  have s: "pred_option tame_data (on_header_field S)" "pred_option tame_data (on_header_value S)" "pred_option tame_data (on_url S)"
    "pred_option tame_data (on_body S)" "pred_option tame_data (on_status S)"
    using assms(1) by (simp_all add: tame_def)
  show ?thesis unfolding leftover_def using one_mark [OF x(1)]
    by (auto intro!: data_cb_ends s e simp: x(2))
qed

definition loop_ok :: "nat \<Rightarrow> nat \<Rightarrow> 'u parsed_bytes \<Rightarrow> bool" where
  "loop_ok n l r \<longleftrightarrow> (\<exists>m P u. r = Some (n + m, P, u) \<and> m \<le> l \<and> stop_ok P \<and> (hp_errno P = HPE_OK \<and> \<not> hp_upgrade P \<longrightarrow> m = l))"

lemma parse_loop_good: "tame S \<Longrightarrow> px_ok 0 x \<Longrightarrow> loop_ok n (length cs) (parse_loop S n cs x)"
proof (induction S n cs x rule: parse_loop.induct)
  case (1 S n x)
  obtain y where "leftover S x = Stop 0 y" "px y = px x \<or> (\<exists>e. e \<noteq> HPE_OK \<and> px y = (px x)\<lparr>hp_errno := e\<rparr>)"
    using leftover_ends [OF 1] by (auto simp: ends_def)
  then show ?case using 1 by (auto simp: loop_ok_def stop_ok_def px_ok_def)
next
  case (2 S n ch cs x)
  let ?x = "count_byte x"
  have x: "px_ok 1 ?x" using 2(3) by (rule count_byte_ok)
  show ?case
  proof (cases "parsing_header (hp_state (px ?x)) \<and> hp_nread (px ?x) > HTTP_MAX_HEADER_SIZE")
    case True
    then show ?thesis by (auto simp: Let_def loop_ok_def stop_ok_def set_errno_def upd_def)
  next
    case False
    have g: "done_flow (length (ch # cs)) (byte 5 S ch 0 (ch # cs) ?x)"
      by (rule byte_good [OF 2(2) x]) (simp_all add: rounds_def)
    show ?thesis
    proof (cases "byte 5 S ch 0 (ch # cs) ?x")
      case (Break k y)
      then have k: "k \<le> length cs" and y: "px_ok 0 y" using g by auto
      have "loop_ok (n + Suc k) (length (drop k cs)) (parse_loop S (n + Suc k) (drop k cs) (advance (take (Suc k) (ch # cs)) y))"
        by (rule 2(1) [OF refl False Break 2(2) advance_ok [OF y]])
      then show ?thesis using False Break k unfolding parse_loop.simps Let_def
        by (auto simp: loop_ok_def)
    next
      case (Stop k y)
      then show ?thesis using g False by (auto simp: Let_def loop_ok_def)
    qed (use g in auto)
  qed
qed

lemma start_marks_ok:
  assumes "parser_ok 0 P" "hp_errno P = HPE_OK"
  shows "px_ok 0 \<lparr>px = P, px_marks = start_marks (hp_state P), ux = u\<rparr>"
proof -
  have "marks_ok \<lparr>px = P, px_marks = start_marks (hp_state P), ux = u\<rparr>"
  proof (cases "mark_of (hp_state P)")
    case None
    then have "start_marks (hp_state P) m = None" for m
      by (cases "hp_state P") (auto simp: start_marks_def mark_of_def url_state_def)
    then show ?thesis using None by (auto simp: marks_ok_def)
  next
    case (Some m)
    then have "start_marks (hp_state P) = Map.empty(m := start_marks (hp_state P) m)"
      by (cases "hp_state P") (auto simp: start_marks_def mark_of_def url_state_def fun_eq_iff)
    then show ?thesis using Some by (auto simp: marks_ok_def)
  qed
  then show ?thesis using assms by (simp add: px_ok_def)
qed

lemma execute_good:
  assumes "tame S" "stop_ok P"
  shows "\<exists>n P' u'. http_parser_execute S data P u = Some (n, P', u') \<and> n \<le> max 1 (length data) \<and> stop_ok P' \<and>
    (hp_errno P' = HPE_OK \<and> \<not> hp_upgrade P' \<longrightarrow> n = length data)"
proof (cases "hp_errno P = HPE_OK \<and> data \<noteq> []")
  case True
  then have "px_ok 0 \<lparr>px = P, px_marks = start_marks (hp_state P), ux = u\<rparr>" using assms(2) by (intro start_marks_ok) (auto simp: stop_ok_def)
  from parse_loop_good [OF assms(1) this, of 0 data] show ?thesis using True
    by (auto simp: http_parser_execute_def loop_ok_def Let_def)
next
  case False
  let ?x = "\<lparr>px = P, px_marks = start_marks (hp_state P), ux = u\<rparr>"
  have "ends P (notify (on_message_complete S) HPE_CB_message_complete 0 (Stop 0) ?x)" if "hp_errno P = HPE_OK"
  proof (cases "on_message_complete S")
    case None
    then show ?thesis using that by (simp add: notify_def ends_def)
  next
    case (Some f)
    then have "tame_cb f" using assms(1) by (simp add: tame_def)
    then obtain rc P' u' where "f P u = Some (rc, P', u')" "P' = P \<or> P' = P\<lparr>hp_errno := HPE_PAUSED\<rparr>" unfolding tame_cb_def by metis
    then show ?thesis using that Some by (auto simp: notify_def run_cb_def ends_def Let_def)
  qed
  moreover have "stop_ok (P\<lparr>hp_errno := e\<rparr>)" if "hp_errno P = HPE_OK" for e using assms(2) that by (simp add: stop_ok_def)
  ultimately show ?thesis using False assms(2)
    by (auto simp: http_parser_execute_def Let_def ends_def)
qed

text \<open>The data of a connection, piece by piece, also after an error.\<close>

fun feed_all :: "'u settings \<Rightarrow> string list \<Rightarrow> http_parser \<Rightarrow> 'u \<Rightarrow> (http_parser \<times> 'u) option" where
  "feed_all S [] P u = Some (P, u)"
| "feed_all S (d # ds) P u =
     (case http_parser_execute S d P u of None \<Rightarrow> None | Some (n, P, u) \<Rightarrow> feed_all S ds P u)"

lemma feed_all_good: "tame S \<Longrightarrow> stop_ok P \<Longrightarrow> \<exists>P' u'. feed_all S ds P u = Some (P', u') \<and> stop_ok P'"
proof (induction ds arbitrary: P u)
  case (Cons d ds)
  obtain n P' u' where e: "http_parser_execute S d P u = Some (n, P', u')" "stop_ok P'" using execute_good [OF Cons.prems] by blast
  from Cons.IH [OF Cons.prems(1) e(2)] show ?case by (simp add: e(1))
qed simp

lemma init_ok: "stop_ok (http_parser_init t)"
  by (cases t) (simp_all add: stop_ok_def http_parser_init_def parser_ok_def state_ok_def)

text \<open>C0. Whatever bytes a connection sends, in whatever pieces, the HTTP parser reads every piece to its end or to an
  error: no assertion fails, no table is read behind its end, no step goes on for ever, and it never says that it read
  more than it was given. The callbacks may do what they like but change the parser otherwise than by pausing it.\<close>

theorem http_parser_safe:
  assumes "tame S"
  shows "\<exists>P u' n P' u''. feed_all S ds (http_parser_init t) u = Some (P, u') \<and> http_parser_execute S data P u' = Some (n, P', u'') \<and>
    n \<le> max 1 (length data) \<and> (hp_errno P' = HPE_OK \<and> \<not> hp_upgrade P' \<longrightarrow> n = length data)"
  using feed_all_good [OF assms init_ok, of ds t u] execute_good [OF assms] by (metis (no_types, lifting))

definition no_callbacks :: "'u settings" where
  "no_callbacks = \<lparr>on_message_begin = None, on_url = None, on_status = None, on_header_field = None, on_header_value = None,
     on_headers_complete = None, on_body = None, on_message_complete = None\<rparr>"

theorem http_parser_safe_witness:
  "\<exists>P n P'. feed_all no_callbacks [''GET /a HT'', ''TP/1.1''] (http_parser_init HTTP_REQUEST) () = Some (P, ()) \<and>
     http_parser_execute no_callbacks [CR, LF, CR, LF] P () = Some (n, P', ()) \<and> n \<le> 4"
proof -
  have "tame no_callbacks" by (simp add: tame_def no_callbacks_def)
  from http_parser_safe [OF this, of "[''GET /a HT'', ''TP/1.1'']" HTTP_REQUEST "()" "[CR, LF, CR, LF]"] show ?thesis by auto
qed

end
