(* ===== verification/Spec2Isabelle.thy ===== *)
theory Spec2Isabelle
  imports Ssn_Misc Pci_Address Vnf_Deploy Acl_Fields Lthread_Memory Lthread_Mpsc Lthread_Race Lthread_Handshake Lthread_Rollback Lthread_Core Lthread_Life Nfvi_Run Pmd_Checks Ma_Ring Ma_Port Nfvi_Body Http_Safe
begin

text \<open>
  A verification library for Susanow, an NFV infrastructure in C and C++ over DPDK. Paths are
  relative to src/.

  \<^bold>\<open>The program.\<close> An NFVI process (nfvi/) owns ports, virtual network functions (VNFs) and patch panels,
  and offers them over a REST interface. A VNF has ports and blocks; a block runs one thread on each
  lcore of its core mask, and the threads forward packets between the ports. Many threads share the
  queues of one port by access ids. Threads, timers, statistics and the shared ports and rings come
  from the library lib/libsusanow; its green threads run under a cooperative scheduler,
  lib/liblthread_dpdk; lib/dpdk_pmd is a driver that makes an Ethernet device out of rings; and
  the REST interface is served by the web framework lib/crow.

  \<^bold>\<open>Shape of the model.\<close> Objects live in stores by address, 0 being NULL. A routine of the C parts takes
  its memory and returns an \<open>option\<close>: \<open>None\<close> is a fault (a pointer that leads nowhere, a failed
  assertion, a division by zero) or a loop that does not return. An operation of the C++ parts
  (\<open>op\<close>, theory \<open>Outcome_Ops\<close>) gives no value in the same cases, or a result or an exception with the
  state at that point. So a theorem that a routine returns \<open>Some\<close> says that it is memory safe and
  terminates. Machine integers are words where they wrap. Each operation runs to its end unless a
  theory says that its steps interleave (\<open>Lthread_Mpsc\<close>, \<open>Lthread_Race\<close>, \<open>Lthread_Handshake\<close>, the threads
  of \<open>Vnf_Deploy\<close>).

  \<^bold>\<open>Theories.\<close>

  \<^item> \<open>Susanow_Prelude\<close>, \<open>Outcome_Ops\<close>: lists, maps, chains of nodes; operations that may throw, with
    weakest preconditions. \<open>Dpdk_Api\<close>: what DPDK offers, as records of functions with the laws the
    code relies on (\<open>ring_laws\<close> and others), and instances that satisfy them.
  \<^item> lthread memory: \<open>Lthread_Pool\<close> (lthread_pool.h), \<open>Lthread_Queue\<close> (lthread_queue.h), \<open>Lthread_Objcache\<close>
    (lthread_objcache.h). An invariant with a ghost owner for every node carries all three;
    \<open>Lthread_Memory\<close> states what they promise without the ghost: sequences of queue operations conserve
    their elements, a cache never hands an object out twice, the life of a queue comes back to where
    it began. The interfaces \<open>fifo_store\<close> and \<open>object_store\<close> are locales, interpreted on the model.
    \<open>Lthread_Mpsc\<close> splits the insert of a producer into its two writes and proves the order, the
    safety and the progress of the queue under every interleaving (an inductive step relation).
  \<^item> lthread scheduling: \<open>Lthread_System\<close> (lthread_int.h, lthread_sched.h, lthread_timer.h), \<open>Lthread_Sync\<close>
    (lthread_mutex.c, lthread_cond.c), \<open>Lthread_Tls\<close> (lthread_tls.c), \<open>Lthread_Core\<close> (lthread.c,
    lthread_sched.c), \<open>Lthread_Boot\<close> (the creation of a scheduler), \<open>Lthread_Rollback\<close> (its failure, in whatever
    phase: the fall-through switch equals a plain reference and restores the memory but for the nodes). User code is a tree of calls, a
    saved context is a place in the code. \<open>Lthread_Mutex\<close> refines a mutex to an owner with a queue of
    waiters; \<open>Lthread_Life\<close> proves what create, join, exit and yield promise. Two theories let lcores
    run at the same time, one access to a shared word after the other: \<open>Lthread_Race\<close> proves that a
    mutex excludes, and that it can lose a wake-up; \<open>Lthread_Handshake\<close> that join and exit meet in
    every order of their steps, the value arrives and neither sleeps for ever.
  \<^item> Driver: \<open>Pmd_Pipe\<close> (dpdk_pmd/rte_eth_pipe.c), its data path, device operations, probe and remove, with
    witnesses in \<open>Pmd_Checks\<close>.
  \<^item> Shared queues: \<open>Ma_Access\<close> (the accessors, and the locale \<open>queue_shares\<close> for the way queues are dealt
    out), \<open>Ma_Ring\<close> (ssn_ma_ring.h), \<open>Ma_Port\<close> (ssn_ma_port.cc).
  \<^item> Library: \<open>Ssn_Threads\<close> (ssn_cpu.cc, ssn_native_thread.cc, ssn_green_thread.cc, ssn_thread.cc), \<open>Ssn_Stats\<close>
    (ssn_port_stat.cc), \<open>Ssn_Timer\<close> (ssn_timer.cc), \<open>Ssn_Misc\<close> (ssn_ring, ssn_config, ssn_log, ssn_vty).
  \<^item> VNFs: \<open>Vnf_Port\<close> (ssn_vnf_port.h, ports/), \<open>Vnf_Block\<close> (ssn_vnf_block.h), \<open>Vnf_Core\<close> (ssn_vnf.cc, ports/virt.h),
    \<open>Vnf_Apps\<close> and \<open>Acl_Fields\<close> (vnfs/), \<open>Pci_Address\<close> (ports/dpdk.h). \<open>Vnf_Access\<close> proves that no two threads get
    one access id, \<open>Vnf_Links\<close> that the two places that record an attachment implement one injective
    map, \<open>Vnf_Deploy\<close> that a block deploys and undeploys and leaves the lcores as they were.
  \<^item> NFVI: \<open>Nfvi\<close> (ssn_nfvi.cc, ssn_vnf_catalog.h), \<open>Nfvi_Rest\<close> (the requests of ssn_rest_api.cc that change
    something), \<open>Nfvi_Json\<close> (ssn_json.cc and those that only read), \<open>Nfvi_Run\<close> (the main loop, the console and
    the signals). \<open>Nfvi_Registry\<close> proves that every sequence of requests is answered and keeps the
    registry sound, over locales for \<open>new\<close> and for the allocators of the catalog; \<open>Nfvi_Checks\<close> has
    concrete states and what can go wrong.

  \<^item> Web server (lib/crow/include/crow/): \<open>Crow_Trie\<close> (the class \<open>Trie\<close> of routing.h), \<open>Crow_Message\<close> (common.h, ci_map.h,
    http_request.h, http_response.h), \<open>Crow_Router\<close> (rules and \<open>Router\<close> of routing.h), \<open>Crow_Tags\<close> (the types of
    the parameters, utility.h), \<open>Crow_Json\<close>, \<open>Crow_Json_Dump\<close>, \<open>Crow_Json_Access\<close> (json.h), \<open>Nfvi_Routes\<close> and
    \<open>Nfvi_Body\<close> (the URLs of ssn_rest_api.cc and how its handlers read a body). \<open>Crow_Match\<close> gives a trie the
    meaning of a set of patterns, \<open>Crow_Add\<close> and \<open>Crow_Optimize\<close> show that adding a rule adds its pattern and that
    merging nodes changes nothing, \<open>Crow_Routes\<close> that the router tries the rules one after the other;
    \<open>Crow_Tags\<close> that handlers get their arguments in order, \<open>Crow_Json_Total\<close> that the parser is safe on every text,
    \<open>Crow_Json_Dump\<close> that what is printed is read back. \<open>Nfvi_Routes\<close> puts these together: every request of
    \<open>Nfvi_Rest\<close> and \<open>Nfvi_Json\<close> has a URL that reaches it.

  \<^bold>\<open>How they depend.\<close> The VNF theories share one state, \<open>nfv\<close>, that holds the ports, blocks, VNFs, panels, rings,
  statistics and threads; \<open>nfvi\<close> adds the lists of the process and the timers; \<open>ssn_sys\<close> holds the lcores
  and threads and, inside, the state \<open>lsys\<close> of the schedulers, and that the memory \<open>lmem\<close>. An operation of
  a smaller state is lifted into a larger one (\<open>focus\<close>), as the code calls it.

  \<^bold>\<open>Loops and bounds.\<close> Loops over a container are recursion over a list and terminate. The loops that end only
  when another thread acts (\<open>run_loop\<close> of the scheduler, \<open>poll_loop\<close> of the terminal, \<open>wait_stop\<close> of the
  NFVI) are partial functions whose other activity is an argument; \<open>poll_loop_ends\<close> and
  \<open>wait_stop_ends\<close> say when they return. Of the loop of a VNF thread one round is a definition, and what
  is proved holds for any number of rounds. A busy wait for another core has a value only when the
  condition holds. Fuel is used for the passes of the key destructors, whose number is the constant of the
  code; for the search and the merging in a trie, where the length of the URL and the number of the nodes are enough
  (\<open>find_from\<close>, \<open>optimize_keeps\<close>); and for the JSON parser, where twice the length of the text is enough
  (\<open>json_load_total\<close>).

  \<^bold>\<open>Parameters.\<close> Outside the repository, hence arguments: DPDK (devices, rings, timers, memory, launching lcores,
  \<open>rte_lpm\<close>, \<open>rte_acl\<close>, \<open>rte_kvargs\<close>, \<open>rte_cfgfile\<close>), the contents of packets, the cycle counter, what uninitialised
  memory holds, the functions behind pointers, \<open>slankdev\<close> (\<open>popcnt32\<close>, the load of a processor), the
  arithmetic of \<open>double\<close>, \<open>strtod\<close>, \<open>lexical_cast\<close> and how a number is printed. Where a property needs them to behave, it names the law as a hypothesis.

  \<^bold>\<open>Not modelled.\<close> Of the web framework the sockets and the HTTP/1.1 parser, and what Susanow does not use
  (WebSockets, templates, cookies); the diagnostics of the lthread library (compiled out);
  the assembler of the context switch; interleavings of lcores beyond the producers of a queue, a mutex, and
  join with exit (the library protects little else, and the locks of libsusanow make its operations
  atomic); dumps, banners and log lines, which only print; the sample programs, which are
  straight-line uses of modelled operations, and the tests; build files and documentation.

  \<^bold>\<open>Flaws.\<close> Several theorems show behaviour that is not what the code intends: ids of green threads that
  wrap (\<open>Ssn_Threads\<close>), a timer that loses the exit of a thread (\<open>Lthread_Life\<close>), a thread that sleeps
  in the queue of a free mutex (\<open>Lthread_Race\<close>), nodes lost by a failed creation (\<open>Lthread_Rollback\<close>), a packet filter that
  frees packets twice (\<open>Vnf_Apps\<close>) and reads the wrong bytes as destination port (\<open>Acl_Fields\<close>), a check of
  core masks that looks at lcore 0 only and a patch panel left with a deleted port (\<open>Nfvi_Checks\<close>), a port
  number cut to 32 bits (\<open>Nfvi_Routes\<close>), a rule whose unknown tag makes \<open>add\<close> hang (\<open>Crow_Add\<close>), and a check of the types of
  a handler that compares their number only (\<open>Crow_Tags\<close>).
\<close>

end
